(* ===== verification/Transport_Prelude.thy ===== *)
theory Transport_Prelude
  imports Main "HOL-Library.Word" "HOL-Library.Char_ord"
begin

text \<open>
  Shared vocabulary of the development: the exceptions of the C++ code as values, the
  error/warning log that stands for the translator's error handlers, the character classes of
  \<open>cctype\<close> in the C locale, decimal output of unsigned integers, and the generic lemmas on
  results and lists that the component theories use.
\<close>

section \<open>Proof collections\<close>

named_theorems result_simps \<open>unfolding of the exception monad\<close>
named_theorems cchar_simps \<open>character classes of the C locale\<close>

section \<open>Machine integers\<close>

text \<open>\<open>unsigned int\<close> where the value can reach the width; positions in strings and line
  numbers, which are bounded by the size of a file in memory, are \<open>nat\<close>.\<close>

type_synonym u32 = "32 word"

section \<open>Messages, diagnostics and exceptions\<close>

text \<open>A message constant of \<open>translator/msg_en.h\<close> (or of the headers that define the same
  kind of constant), by its name. The text it expands to is presentation and is left out.\<close>

type_synonym msg_id = string

datatype severity = Sev_error | Sev_warn

text \<open>One call of an \<open>error_context\<close>'s \<open>error\<close> or \<open>warn\<close> method: which
  message, the text it quotes, and the span of the input line it is attached to.\<close>

datatype diag = Diag (dg_sev: severity) (dg_id: msg_id) (dg_text: string)
                     (dg_start: nat) (dg_end: nat)

type_synonym diag_log = "diag list"

text \<open>Exceptions of the code. \<open>Terminate\<close> marks a run that ends in \<open>std::terminate\<close>,
  \<open>Undefined\<close> one whose behaviour C++ leaves undefined, \<open>Out_of_fuel\<close> one that nests deeper than
  the bound the model was given.\<close>

datatype exn =
    Runtime_error msg_id
  | Out_of_range msg_id
  | Tensor_exception msg_id
  | Index_exception char
  | Duplicate_index char nat nat
  | Argument_mismatch msg_id
  | Index_mismatch msg_id char nat nat
  | Rule_apply_fail msg_id string
  | Resource_failure string
  | Filesystem_error string
  | Terminate
  | Undefined
  | Out_of_fuel

text \<open>Sequential composition: an exception skips the rest.\<close>

definition bindE :: "'e + 'a \<Rightarrow> ('a \<Rightarrow> 'e + 'b) \<Rightarrow> 'e + 'b" where
  "bindE m f = (case m of Inl e \<Rightarrow> Inl e | Inr x \<Rightarrow> f x)"

lemma bindE_Inl [simp, result_simps]: "bindE (Inl e) f = Inl e"
  by (simp add: bindE_def)

lemma bindE_Inr [simp, result_simps]: "bindE (Inr x) f = f x"
  by (simp add: bindE_def)

lemma bindE_eq_Inr: "bindE m f = Inr y \<longleftrightarrow> (\<exists>x. m = Inr x \<and> f x = Inr y)"
  by (cases m) auto

lemma bindE_eq_Inl: "bindE m f = Inl e \<longleftrightarrow> m = Inl e \<or> (\<exists>x. m = Inr x \<and> f x = Inl e)"
  by (cases m) auto

lemma bindE_assoc: "bindE (bindE m f) g = bindE m (\<lambda>x. bindE (f x) g)"
  by (cases m) auto

lemma bindE_cong [fundef_cong]:
  "m = m' \<Longrightarrow> (\<And>x. m' = Inr x \<Longrightarrow> f x = g x) \<Longrightarrow> bindE m f = bindE m' g"
  by (cases m') auto

section \<open>Character classes\<close>

text \<open>\<open>isalpha\<close>, \<open>isdigit\<close>, \<open>isspace\<close> and their kin on 8-bit characters in the
  C locale.\<close>

definition isdigit :: "char \<Rightarrow> bool" where
  "isdigit c \<longleftrightarrow> (let n = (of_char c :: nat) in 48 \<le> n \<and> n \<le> 57)"

definition islower :: "char \<Rightarrow> bool" where
  "islower c \<longleftrightarrow> (let n = (of_char c :: nat) in 97 \<le> n \<and> n \<le> 122)"

definition isupper :: "char \<Rightarrow> bool" where
  "isupper c \<longleftrightarrow> (let n = (of_char c :: nat) in 65 \<le> n \<and> n \<le> 90)"

definition isalpha :: "char \<Rightarrow> bool" where
  "isalpha c \<longleftrightarrow> islower c \<or> isupper c"

definition isalnum :: "char \<Rightarrow> bool" where
  "isalnum c \<longleftrightarrow> isalpha c \<or> isdigit c"

definition isspace :: "char \<Rightarrow> bool" where
  "isspace c \<longleftrightarrow> (let n = (of_char c :: nat) in n = 32 \<or> (9 \<le> n \<and> n \<le> 13))"

definition isxdigit :: "char \<Rightarrow> bool" where
  "isxdigit c \<longleftrightarrow> isdigit c \<or>
     (let n = (of_char c :: nat) in (65 \<le> n \<and> n \<le> 70) \<or> (97 \<le> n \<and> n \<le> 102))"

lemmas cchar_defs =
  isdigit_def islower_def isupper_def isalpha_def isalnum_def isspace_def isxdigit_def

declare cchar_defs [cchar_simps]

lemma isdigit_not_alpha: "isdigit c \<Longrightarrow> \<not> isalpha c"
  by (auto simp: cchar_defs Let_def)

lemma isspace_not_alnum: "isspace c \<Longrightarrow> \<not> isalnum c"
  by (auto simp: cchar_defs Let_def)

text \<open>The line feed character and the character of code zero.\<close>

abbreviation NL :: char where "NL \<equiv> CHR 0x0A"
abbreviation TAB :: char where "TAB \<equiv> CHR 0x09"
abbreviation NUL :: char where "NUL \<equiv> CHR 0x00"
abbreviation DQUOTE :: char where "DQUOTE \<equiv> CHR 0x22"

text \<open>The value of a \<open>char\<close>, which is signed: it orders the keys of a \<open>std::map\<close> from characters.\<close>

definition char_code :: "char \<Rightarrow> int" where
  "char_code c = (let n = (of_char c :: int) in if n < 128 then n else n - 256)"

lemma char_code_eq_iff: "char_code c = char_code d \<longleftrightarrow> c = d"
proof -
  have "0 \<le> (of_char x :: int) \<and> (of_char x :: int) < 256" for x
    by (metis of_char_mod_256 pos_mod_bound pos_mod_sign zero_less_numeral)
  from this [of c] this [of d] show ?thesis by (auto simp: char_code_def Let_def of_char_eq_iff split: if_splits)
qed

section \<open>Decimal output of unsigned integers\<close>

definition digit_char :: "nat \<Rightarrow> char" where
  "digit_char d = char_of (48 + d)"

fun dec_string :: "nat \<Rightarrow> string" where
  "dec_string n = (if n < 10 then [digit_char n] else dec_string (n div 10) @ [digit_char (n mod 10)])"

declare dec_string.simps [simp del]

fun dec_value :: "nat \<Rightarrow> string \<Rightarrow> nat" where
  "dec_value acc [] = acc"
| "dec_value acc (c # cs) = dec_value (10 * acc + (of_char c - 48)) cs"

lemma dec_value_append: "dec_value acc (xs @ ys) = dec_value (dec_value acc xs) ys"
  by (induction xs arbitrary: acc) auto

lemma of_char_digit_char: "d < 10 \<Longrightarrow> (of_char (digit_char d) :: nat) = 48 + d"
  by (simp add: digit_char_def of_char_of take_bit_eq_mod)

lemma dec_value_dec_string: "dec_value 0 (dec_string n) = n"
proof (induction n rule: dec_string.induct)
  case (1 n)
  show ?case
  proof (cases "n < 10")
    case True
    then show ?thesis by (simp add: dec_string.simps of_char_digit_char)
  next
    case False
    then have "dec_string n = dec_string (n div 10) @ [digit_char (n mod 10)]"
      by (subst dec_string.simps) simp
    with 1 [OF False] show ?thesis by (simp add: dec_value_append of_char_digit_char)
  qed
qed

lemma dec_string_inject: "dec_string m = dec_string n \<Longrightarrow> m = n"
  by (metis dec_value_dec_string)

lemma isdigit_digit_char: "d < 10 \<Longrightarrow> isdigit (digit_char d)"
  by (simp add: isdigit_def of_char_digit_char)

lemma dec_string_digits: "list_all isdigit (dec_string n)"
proof (induction n rule: dec_string.induct)
  case (1 n)
  then show ?case
    by (cases "n < 10") (auto simp: dec_string.simps [of n] isdigit_digit_char)
qed

lemma dec_string_nonempty [simp]: "dec_string n \<noteq> []"
  by (subst dec_string.simps) simp

section \<open>Lists\<close>

text \<open>The first element with a property: \<open>std::find_if\<close> and range-\<open>for\<close> loops that break
  are this fold.\<close>

lemma find_SomeD: "find P xs = Some x \<Longrightarrow> x \<in> set xs \<and> P x"
  by (auto simp: find_Some_iff)

lemma find_None_all: "find P xs = None \<longleftrightarrow> (\<forall>x \<in> set xs. \<not> P x)"
  by (auto simp: find_None_iff)

lemma takeWhile_all_eq: "(\<forall>x \<in> set xs. P x) \<Longrightarrow> takeWhile P xs = xs"
  by (simp add: takeWhile_eq_all_conv)

lemma prefix_take: "take (length ps) xs = ps \<Longrightarrow> \<exists>zs. xs = ps @ zs"
  by (metis append_take_drop_id)

section \<open>String searching\<close>

text \<open>\<open>std::string::find\<close>: the first position at or after \<open>pos\<close> where \<open>pat\<close> occurs.\<close>

fun is_prefix :: "string \<Rightarrow> string \<Rightarrow> bool" where
  "is_prefix [] ys = True"
| "is_prefix (x # xs) [] = False"
| "is_prefix (x # xs) (y # ys) = (x = y \<and> is_prefix xs ys)"

fun str_find_from :: "string \<Rightarrow> string \<Rightarrow> nat option" where
  "str_find_from pat [] = (if pat = [] then Some 0 else None)"
| "str_find_from pat (c # cs) =
     (if is_prefix pat (c # cs) then Some 0 else map_option Suc (str_find_from pat cs))"

definition str_find :: "string \<Rightarrow> string \<Rightarrow> nat \<Rightarrow> nat option" where
  "str_find pat s pos =
     (if pos \<le> length s then map_option (\<lambda>k. k + pos) (str_find_from pat (drop pos s)) else None)"

definition str_erase :: "nat \<Rightarrow> nat \<Rightarrow> string \<Rightarrow> string" where
  "str_erase pos n s = take pos s @ drop (pos + n) s"

lemma is_prefix_iff: "is_prefix ps xs \<longleftrightarrow> take (length ps) xs = ps"
  by (induction ps xs rule: is_prefix.induct) auto

lemma str_find_from_Some:
  "str_find_from pat s = Some k \<Longrightarrow> \<exists>a b. s = a @ pat @ b \<and> length a = k"
proof (induction pat s arbitrary: k rule: str_find_from.induct)
  case (2 pat c cs)
  show ?case
  proof (cases "is_prefix pat (c # cs)")
    case True
    with "2.prems" show ?thesis by (auto simp: is_prefix_iff dest: prefix_take)
  next
    case False
    with "2.prems" obtain j where j: "str_find_from pat cs = Some j" "k = Suc j" by auto
    from "2.IH" [OF False j(1)] obtain a b where "cs = a @ pat @ b" "length a = j" by blast
    with j show ?thesis by (intro exI [of _ "c # a"] exI [of _ b]) simp
  qed
qed (auto split: if_splits)

lemma str_find_from_None: "str_find_from pat s = None \<Longrightarrow> s \<noteq> a @ pat @ b"
proof (induction pat s arbitrary: a rule: str_find_from.induct)
  case (2 pat c cs)
  then show ?case
    by (cases a) (auto simp: is_prefix_iff split: if_splits)
qed (auto split: if_splits)

lemma str_find_zero: "str_find pat s 0 = str_find_from pat s"
  by (simp add: str_find_def option.map_ident)

section \<open>Actions\<close>

text \<open>Actions on a state, which survives an exception.\<close>

type_synonym ('s, 'a) act = "'s \<Rightarrow> (exn + 'a) \<times> 's"

definition returnA :: "'a \<Rightarrow> ('s, 'a) act" where
  "returnA x s = (Inr x, s)"

definition throwA :: "exn \<Rightarrow> ('s, 'a) act" where
  "throwA e s = (Inl e, s)"

definition bindA :: "('s, 'a) act \<Rightarrow> ('a \<Rightarrow> ('s, 'b) act) \<Rightarrow> ('s, 'b) act" where
  "bindA m f s = (case m s of (Inl e, s') \<Rightarrow> (Inl e, s') | (Inr x, s') \<Rightarrow> f x s')"

definition catchA :: "('s, 'a) act \<Rightarrow> (exn \<Rightarrow> ('s, 'a) act) \<Rightarrow> ('s, 'a) act" where
  "catchA m h s = (case m s of (Inl e, s') \<Rightarrow> h e s' | (Inr x, s') \<Rightarrow> (Inr x, s'))"

definition checkA :: "exn option \<Rightarrow> ('s, unit) act" where
  "checkA e = (case e of None \<Rightarrow> returnA () | Some x \<Rightarrow> throwA x)"

lemma bindA_returnA [simp]: "bindA (returnA x) f = f x"
  by (simp add: bindA_def returnA_def fun_eq_iff)

lemma bindA_throwA [simp]: "bindA (throwA e) f = throwA e"
  by (simp add: bindA_def throwA_def fun_eq_iff)

lemma checkA_simps [simp]: "checkA None = returnA ()" "checkA (Some e) = throwA e"
  by (simp_all add: checkA_def)

lemma bindA_cong [fundef_cong]:
  assumes "m s = m' s'" and "\<And>x t. m' s' = (Inr x, t) \<Longrightarrow> f x t = f' x t"
  shows "bindA m f s = bindA m' f' s'"
  using assms by (auto simp: bindA_def split: prod.splits sum.splits)

end
