(* ===== verification/Filestack.thy ===== *)
theory Filestack
  imports Transport_Prelude
begin

text \<open>
  The two stacks of open files behind the abstract class \<open>filestack\<close>
  (\<open>backends/infrastructure/file_handling/filestack.h\<close>): \<open>input_stack\<close>, used while a model
  description is read, and \<open>output_stack\<close>, used while templates are translated. Both keep a
  deque of inclusion records whose front is the file in progress. The interface is the locale
  \<open>filestack_spec\<close>, interpreted on both.
\<close>

section \<open>The input stack\<close>

record inclusion =
  inc_name :: string
  inc_line :: nat

type_synonym input_stack = "inclusion list"

definition input_push :: "string \<Rightarrow> input_stack \<Rightarrow> input_stack" where
  "input_push name s = \<lparr>inc_name = name, inc_line = 1\<rparr> # s"

definition input_set_line :: "nat \<Rightarrow> input_stack \<Rightarrow> exn + input_stack" where
  "input_set_line line s =
     (case s of [] \<Rightarrow> Inl (Runtime_error ''ERROR_FILESTACK_EMPTY'')
      | i # is \<Rightarrow> Inr (i\<lparr>inc_line := line\<rparr> # is))"

definition input_increment_line :: "input_stack \<Rightarrow> exn + (nat \<times> input_stack)" where
  "input_increment_line s =
     (case s of [] \<Rightarrow> Inl (Runtime_error ''ERROR_FILESTACK_EMPTY'')
      | i # is \<Rightarrow> Inr (Suc (inc_line i), i\<lparr>inc_line := Suc (inc_line i)\<rparr> # is))"

definition input_get_line :: "input_stack \<Rightarrow> exn + nat" where
  "input_get_line s =
     (case s of [] \<Rightarrow> Inl (Runtime_error ''ERROR_FILESTACK_EMPTY'') | i # is \<Rightarrow> Inr (inc_line i))"

definition input_pop :: "input_stack \<Rightarrow> exn + input_stack" where
  "input_pop s =
     (case s of [] \<Rightarrow> Inl (Runtime_error ''ERROR_FILESTACK_TOO_SHORT'') | i # is \<Rightarrow> Inr is)"

text \<open>\<open>write(level)\<close>: the file in progress, then up to \<open>level - 1\<close> enclosing ones. How a
  path is printed is the business of the path library: the parameter \<open>path_out\<close>.\<close>

definition write_head :: "(string \<Rightarrow> string) \<Rightarrow> nat \<Rightarrow> string \<Rightarrow> string" where
  "write_head path_out line name = dec_string line @ '' '' @ ''of'' @ '' '' @ path_out name"

definition write_included :: "(string \<Rightarrow> string) \<Rightarrow> nat \<Rightarrow> string \<Rightarrow> string" where
  "write_included path_out line name =
     [NL] @ ''  '' @ ''included from line'' @ '' '' @ dec_string line @ '' '' @ ''of file'' @ '' ''
     @ path_out name"

fun input_write_rest :: "(string \<Rightarrow> string) \<Rightarrow> nat \<Rightarrow> nat \<Rightarrow> input_stack \<Rightarrow> string" where
  "input_write_rest path_out counter level [] = ''''"
| "input_write_rest path_out counter level (i # is) =
     (if counter < level
      then write_included path_out (inc_line i) (inc_name i)
           @ input_write_rest path_out (Suc counter) level is
      else '''')"

definition input_write_level :: "(string \<Rightarrow> string) \<Rightarrow> nat \<Rightarrow> input_stack \<Rightarrow> string" where
  "input_write_level path_out level0 s =
     (let level = (if length s < level0 then length s else level0)
      in (if 1 \<le> level then write_head path_out (inc_line (hd s)) (inc_name (hd s)) else '''')
         @ input_write_rest path_out 1 level (tl s))"

definition input_write :: "(string \<Rightarrow> string) \<Rightarrow> input_stack \<Rightarrow> string" where
  "input_write path_out s = input_write_level path_out (length s) s"

section \<open>The output stack\<close>

datatype process_type = process_core | process_implementation

text \<open>Buffers and macro agents are held by reference; their types are left open here.\<close>

record ('b, 'a) out_inclusion =
  out_in :: string
  out_line :: nat
  out_buf :: 'b
  out_agent :: 'a
  out_type :: process_type

type_synonym ('b, 'a) output_stack = "('b, 'a) out_inclusion list"

definition output_push ::
  "string \<Rightarrow> 'b \<Rightarrow> 'a \<Rightarrow> process_type \<Rightarrow> ('b, 'a) output_stack \<Rightarrow> ('b, 'a) output_stack" where
  "output_push f buf agent tp s =
     \<lparr>out_in = f, out_line = 2, out_buf = buf, out_agent = agent, out_type = tp\<rparr> # s"

definition output_set_line :: "nat \<Rightarrow> ('b, 'a) output_stack \<Rightarrow> exn + ('b, 'a) output_stack" where
  "output_set_line line s =
     (case s of [] \<Rightarrow> Inl (Runtime_error ''ERROR_FILESTACK_EMPTY'')
      | i # is \<Rightarrow> Inr (i\<lparr>out_line := line\<rparr> # is))"

definition output_increment_line ::
  "('b, 'a) output_stack \<Rightarrow> exn + (nat \<times> ('b, 'a) output_stack)" where
  "output_increment_line s =
     (case s of [] \<Rightarrow> Inl (Runtime_error ''ERROR_FILESTACK_EMPTY'')
      | i # is \<Rightarrow> Inr (Suc (out_line i), i\<lparr>out_line := Suc (out_line i)\<rparr> # is))"

definition output_get_line :: "('b, 'a) output_stack \<Rightarrow> exn + nat" where
  "output_get_line s =
     (case s of [] \<Rightarrow> Inl (Runtime_error ''ERROR_FILESTACK_EMPTY'') | i # is \<Rightarrow> Inr (out_line i))"

definition output_pop :: "('b, 'a) output_stack \<Rightarrow> exn + ('b, 'a) output_stack" where
  "output_pop s =
     (case s of [] \<Rightarrow> Inl (Runtime_error ''ERROR_FILESTACK_TOO_SHORT'') | i # is \<Rightarrow> Inr is)"

fun output_write_rest ::
  "(string \<Rightarrow> string) \<Rightarrow> nat \<Rightarrow> nat \<Rightarrow> ('b, 'a) output_stack \<Rightarrow> string" where
  "output_write_rest path_out counter level [] = ''''"
| "output_write_rest path_out counter level (i # is) =
     (if counter < level
      then write_included path_out (out_line i) (out_in i)
           @ output_write_rest path_out (Suc counter) level is
      else '''')"

definition output_write_level ::
  "(string \<Rightarrow> string) \<Rightarrow> nat \<Rightarrow> ('b, 'a) output_stack \<Rightarrow> string" where
  "output_write_level path_out level0 s =
     (let level = (if length s < level0 then length s else level0)
      in (if 1 \<le> level then write_head path_out (out_line (hd s)) (out_in (hd s)) else '''')
         @ output_write_rest path_out 1 level (tl s))"

definition output_write :: "(string \<Rightarrow> string) \<Rightarrow> ('b, 'a) output_stack \<Rightarrow> string" where
  "output_write path_out s = output_write_level path_out (length s) s"

definition top_buffer :: "('b, 'a) output_stack \<Rightarrow> exn + 'b" where
  "top_buffer s = (if 0 < length s then Inr (out_buf (s ! 0))
                   else Inl (Runtime_error ''ERROR_FILESTACK_EMPTY''))"

definition top_macro_package :: "('b, 'a) output_stack \<Rightarrow> exn + 'a" where
  "top_macro_package s = (if 0 < length s then Inr (out_agent (s ! 0))
                          else Inl (Runtime_error ''ERROR_FILESTACK_EMPTY''))"

definition top_process_type :: "('b, 'a) output_stack \<Rightarrow> exn + process_type" where
  "top_process_type s = (if 0 < length s then Inr (out_type (s ! 0))
                         else Inl (Runtime_error ''ERROR_FILESTACK_EMPTY''))"

section \<open>The interface both stacks implement\<close>

text \<open>What the readers rely on: the line operations act on the front record only, leave the rest of
  the stack alone, and raise on an empty stack.\<close>

locale filestack_spec =
  fixes depth :: "'s \<Rightarrow> nat"
    and pop :: "'s \<Rightarrow> exn + 's"
    and set_line :: "nat \<Rightarrow> 's \<Rightarrow> exn + 's"
    and increment_line :: "'s \<Rightarrow> exn + (nat \<times> 's)"
    and get_line :: "'s \<Rightarrow> exn + nat"
  assumes get_total: "0 < depth s \<Longrightarrow> \<exists>n. get_line s = Inr n"
    and set_ok: "0 < depth s \<Longrightarrow>
      \<exists>s'. set_line n s = Inr s' \<and> get_line s' = Inr n \<and> depth s' = depth s \<and> pop s' = pop s"
    and increment_ok: "get_line s = Inr n \<Longrightarrow>
      \<exists>s'. increment_line s = Inr (Suc n, s') \<and> get_line s' = Inr (Suc n)
           \<and> depth s' = depth s \<and> pop s' = pop s"
    and pop_ok: "0 < depth s \<Longrightarrow> \<exists>s'. pop s = Inr s' \<and> depth s' = depth s - 1"
    and empty_raises: "depth s = 0 \<Longrightarrow>
      set_line n s = Inl (Runtime_error ''ERROR_FILESTACK_EMPTY'')
      \<and> increment_line s = Inl (Runtime_error ''ERROR_FILESTACK_EMPTY'')
      \<and> get_line s = Inl (Runtime_error ''ERROR_FILESTACK_EMPTY'')
      \<and> pop s = Inl (Runtime_error ''ERROR_FILESTACK_TOO_SHORT'')"
begin

lemma get_line_iff: "(\<exists>n. get_line s = Inr n) \<longleftrightarrow> 0 < depth s"
  using get_total [of s] empty_raises [of s] by force

lemma increment_fails_iff: "(\<exists>e. increment_line s = Inl e) \<longleftrightarrow> depth s = 0"
proof (cases "depth s = 0")
  case True
  then show ?thesis using empty_raises by simp
next
  case False
  then obtain n where "get_line s = Inr n" using get_total by blast
  then show ?thesis using increment_ok False by fastforce
qed

text \<open>Reading \<open>k\<close> line ends: the line number grows by \<open>k\<close> and nothing below the front moves.\<close>

primrec advance_lines :: "nat \<Rightarrow> 's \<Rightarrow> exn + 's" where
  "advance_lines 0 s = Inr s"
| "advance_lines (Suc k) s = bindE (increment_line s) (\<lambda>(_, s'). advance_lines k s')"

lemma advance_lines_ok:
  "get_line s = Inr n \<Longrightarrow>
   \<exists>s'. advance_lines k s = Inr s' \<and> get_line s' = Inr (n + k) \<and> depth s' = depth s \<and> pop s' = pop s"
proof (induction k arbitrary: s n)
  case 0
  then show ?case by simp
next
  case (Suc k)
  from increment_ok [OF Suc.prems] obtain s1 where
    s1: "increment_line s = Inr (Suc n, s1)" "get_line s1 = Inr (Suc n)"
      "depth s1 = depth s" "pop s1 = pop s" by blast
  from Suc.IH [OF s1(2)] s1 show ?case by auto
qed

end

lemmas input_stack_defs =
  input_push_def input_set_line_def input_increment_line_def input_get_line_def input_pop_def

lemmas output_stack_defs =
  output_push_def output_set_line_def output_increment_line_def output_get_line_def output_pop_def

interpretation istack: filestack_spec length input_pop input_set_line input_increment_line input_get_line
  by unfold_locales (auto simp: input_stack_defs split: list.splits)

interpretation ostack: filestack_spec "length :: ('b, 'a) output_stack \<Rightarrow> nat"
    output_pop output_set_line output_increment_line output_get_line
  by unfold_locales (auto simp: output_stack_defs split: list.splits)

section \<open>What \<open>write\<close> prints\<close>

lemma input_write_rest_eq:
  "input_write_rest p c l s = concat (map (\<lambda>i. write_included p (inc_line i) (inc_name i)) (take (l - c) s))"
  by (induction p c l s rule: input_write_rest.induct) (auto simp: take_Cons' Suc_diff_Suc)

lemma output_write_rest_eq:
  "output_write_rest p c l s = concat (map (\<lambda>i. write_included p (out_line i) (out_in i)) (take (l - c) s))"
  by (induction p c l s rule: output_write_rest.induct) (auto simp: take_Cons' Suc_diff_Suc)

text \<open>The frames printed are those of the innermost \<open>level\<close> files, innermost first.\<close>

definition frames :: "(string \<Rightarrow> string) \<Rightarrow> (nat \<times> string) list \<Rightarrow> string" where
  "frames p fs = (case fs of [] \<Rightarrow> ''''
     | (l, n) # rest \<Rightarrow> write_head p l n @ concat (map (\<lambda>(l, n). write_included p l n) rest))"

lemma input_write_frames:
  "input_write_level p level s = frames p (map (\<lambda>i. (inc_line i, inc_name i)) (take level s))"
proof (cases s)
  case (Cons i r)
  then show ?thesis
    by (cases level) (auto simp: input_write_level_def frames_def input_write_rest_eq Let_def
        comp_def)
qed (simp add: input_write_level_def frames_def)

lemma output_write_frames:
  "output_write_level p level s = frames p (map (\<lambda>i. (out_line i, out_in i)) (take level s))"
proof (cases s)
  case (Cons i r)
  then show ?thesis
    by (cases level) (auto simp: output_write_level_def frames_def output_write_rest_eq Let_def
        comp_def)
qed (simp add: output_write_level_def frames_def)

lemma input_write_full: "input_write p s = frames p (map (\<lambda>i. (inc_line i, inc_name i)) s)"
  by (simp add: input_write_def input_write_frames)

lemma input_push_pop: "input_pop (input_push n s) = Inr s"
  by (simp add: input_stack_defs)

lemma input_push_get_line: "input_get_line (input_push n s) = Inr 1"
  by (simp add: input_stack_defs)

end
