(* ===== verification/Lexfile.thy ===== *)
theory Lexfile
  imports Filestack
begin

text \<open>
  The character source at the bottom of the lexical analysis,
  \<open>translator/parser/lexfile.{h,cpp}\<close>: a four-state machine over an input file stream that
  delivers one character at a time, counts lines on the input stack it was given, and may stop
  after a maximum number of lines. The stream is the list of what the reads deliver:
  \<open>Some c\<close> a character, \<open>None\<close> a read that fails; the end of the list is the end of file.
  The interface its client uses is the locale \<open>char_source\<close>.
\<close>

section \<open>State\<close>

datatype lf_internal = Lf_unready | Lf_eof | Lf_error | Lf_ready

datatype lf_status = St_ok | St_eof | St_error

type_synonym byte_stream = "char option list"

record lexfile =
  lf_stream :: byte_stream
  lf_eofbit :: bool
  lf_max_lines :: "nat option"
  lf_c :: char
  lf_state :: lf_internal
  lf_char_pos :: nat
  lf_line_array :: "string list"

section \<open>Operations\<close>

text \<open>\<open>std::getline\<close> repeated: the lines of the file up to a failing read. A last line without
  a line end counts when it is not empty.\<close>

fun getlines :: "string \<Rightarrow> byte_stream \<Rightarrow> string list" where
  "getlines acc [] = (if acc = [] then [] else [acc])"
| "getlines acc (None # bs) = []"
| "getlines acc (Some c # bs) =
     (if c = NL then acc # getlines [] bs else getlines (acc @ [c]) bs)"

text \<open>The constructor. The member \<open>c\<close> starts uninitialised; no operation reads it before
  \<open>make_ready\<close> sets it, and the model starts it at 0.\<close>

definition lf_open :: "byte_stream \<Rightarrow> nat option \<Rightarrow> lexfile" where
  "lf_open bs ml =
     \<lparr>lf_stream = bs, lf_eofbit = False, lf_max_lines = ml, lf_c = NUL, lf_state = Lf_unready,
      lf_char_pos = 0,
      lf_line_array = (case ml of None \<Rightarrow> getlines [] bs | Some m \<Rightarrow> take m (getlines [] bs))\<rparr>"

text \<open>\<open>make_ready\<close>: its loop ends after one pass, since every branch leaves the unready state.\<close>

definition lf_make_ready :: "lexfile \<Rightarrow> lexfile" where
  "lf_make_ready lf =
     (if lf_eofbit lf then lf\<lparr>lf_state := Lf_eof, lf_c := NUL\<rparr>
      else if lf_state lf = Lf_unready then
        (case lf_stream lf of
           [] \<Rightarrow> lf\<lparr>lf_eofbit := True, lf_state := Lf_eof, lf_c := NUL\<rparr>
         | None # bs \<Rightarrow> lf\<lparr>lf_stream := bs, lf_state := Lf_error, lf_c := NUL\<rparr>
         | Some ch # bs \<Rightarrow> lf\<lparr>lf_stream := bs, lf_c := ch, lf_state := Lf_ready\<rparr>)
      else lf)"

definition lf_get :: "lexfile \<Rightarrow> (char \<times> lf_status) \<times> lexfile" where
  "lf_get lf =
     (let lf' = (case lf_state lf of Lf_unready \<Rightarrow> lf_make_ready lf | _ \<Rightarrow> lf)
      in if lf_state lf' = Lf_eof then ((lf_c lf', St_eof), lf')
         else if lf_state lf' = Lf_error then ((lf_c lf', St_error), lf')
         else ((lf_c lf', St_ok), lf'))"

definition lf_advance :: "lexfile \<Rightarrow> input_stack \<Rightarrow> exn + (lexfile \<times> input_stack)" where
  "lf_advance lf s =
     (if lf_state lf = Lf_eof \<or> lf_state lf = Lf_error then Inr (lf, s)
      else if lf_state lf = Lf_ready \<and> lf_c lf = NL then
        bindE (input_increment_line s) (\<lambda>(_, s').
          let lf' = lf\<lparr>lf_char_pos := 0, lf_state := Lf_unready\<rparr>
          in case lf_max_lines lf of
               None \<Rightarrow> Inr (lf', s')
             | Some m \<Rightarrow> bindE (input_get_line s') (\<lambda>l.
                 if m < l then Inr (lf'\<lparr>lf_state := Lf_eof\<rparr>, s') else Inr (lf', s')))
      else Inr (lf\<lparr>lf_char_pos := Suc (lf_char_pos lf), lf_state := Lf_unready\<rparr>, s))"

definition lf_get_state :: "lexfile \<Rightarrow> lf_status" where
  "lf_get_state lf =
     (if lf_state lf = Lf_eof then St_eof else if lf_state lf = Lf_error then St_error else St_ok)"

text \<open>Line 0 would index before the start of the vector: undefined in C++.\<close>

definition lf_get_current_line :: "lexfile \<Rightarrow> input_stack \<Rightarrow> exn + string" where
  "lf_get_current_line lf s =
     bindE (input_get_line s) (\<lambda>cline.
       if cline \<le> length (lf_line_array lf)
       then (if cline = 0 then Inl Undefined else Inr (lf_line_array lf ! (cline - 1)))
       else Inl (Runtime_error ''ERROR_CURRENT_LINE_EMPTY''))"

section \<open>What is still to be delivered\<close>

text \<open>The characters before the first failing read.\<close>

fun readable :: "byte_stream \<Rightarrow> string" where
  "readable [] = []"
| "readable (None # bs) = []"
| "readable (Some c # bs) = c # readable bs"

text \<open>The prefix up to and including the \<open>k\<close>-th line end (at least the first).\<close>

fun take_lines :: "nat \<Rightarrow> string \<Rightarrow> string" where
  "take_lines k [] = []"
| "take_lines k (c # cs) =
     c # (if c = NL then (if k \<le> 1 then [] else take_lines (k - 1) cs) else take_lines k cs)"

definition limit_lines :: "nat option \<Rightarrow> nat \<Rightarrow> string \<Rightarrow> string" where
  "limit_lines ml line cs = (case ml of None \<Rightarrow> cs | Some m \<Rightarrow> take_lines (Suc m - line) cs)"

definition lf_contents :: "lexfile \<Rightarrow> input_stack \<Rightarrow> string" where
  "lf_contents lf s =
     (case lf_state lf of
        Lf_eof \<Rightarrow> [] | Lf_error \<Rightarrow> []
      | Lf_unready \<Rightarrow> limit_lines (lf_max_lines lf) (inc_line (hd s)) (readable (lf_stream lf))
      | Lf_ready \<Rightarrow>
          limit_lines (lf_max_lines lf) (inc_line (hd s)) (lf_c lf # readable (lf_stream lf)))"

text \<open>The consistency of a source: a file is open on the stack, the end-of-file bit is set only in
  the end state, and an ended source shows no character but 0 or the line end it stopped at.\<close>

definition lf_inv :: "lexfile \<Rightarrow> input_stack \<Rightarrow> bool" where
  "lf_inv lf s \<longleftrightarrow> s \<noteq> [] \<and> (lf_eofbit lf \<longrightarrow> lf_state lf = Lf_eof)
     \<and> (lf_state lf = Lf_eof \<or> lf_state lf = Lf_error \<longrightarrow> lf_c lf = NUL \<or> lf_c lf = NL)"

definition lf_remaining :: "lexfile \<Rightarrow> nat" where
  "lf_remaining lf = length (lf_stream lf) + (if lf_state lf = Lf_ready then 1 else 0)"

lemmas lf_op_defs = lf_make_ready_def lf_get_def lf_advance_def

section \<open>The interface of a character source\<close>

locale char_source =
  fixes get :: "'f \<Rightarrow> (char \<times> lf_status) \<times> 'f"
    and advance :: "'f \<Rightarrow> 's \<Rightarrow> exn + ('f \<times> 's)"
    and contents :: "'f \<Rightarrow> 's \<Rightarrow> string"
    and inv :: "'f \<Rightarrow> 's \<Rightarrow> bool"
  assumes get_inv: "inv f s \<Longrightarrow> inv (snd (get f)) s"
    and get_contents: "inv f s \<Longrightarrow> contents (snd (get f)) s = contents f s"
    and get_again: "get (snd (get f)) = get f"
    and get_more: "inv f s \<Longrightarrow> contents f s = c # cs \<Longrightarrow> fst (get f) = (c, St_ok)"
    and get_end: "inv f s \<Longrightarrow> contents f s = [] \<Longrightarrow>
      \<exists>c st. fst (get f) = (c, st) \<and> st \<noteq> St_ok \<and> (c = NUL \<or> c = NL)"
    and advance_more: "inv f s \<Longrightarrow> contents f s = c # cs \<Longrightarrow>
      \<exists>f' s'. advance (snd (get f)) s = Inr (f', s') \<and> inv f' s' \<and> contents f' s' = cs"
    and advance_end: "inv f s \<Longrightarrow> contents f s = [] \<Longrightarrow>
      advance (snd (get f)) s = Inr (snd (get f), s)"
begin

text \<open>Reading \<open>n\<close> characters, a \<open>get\<close> and an \<open>advance\<close> each.\<close>

primrec read_n :: "nat \<Rightarrow> 'f \<Rightarrow> 's \<Rightarrow> exn + (string \<times> 'f \<times> 's)" where
  "read_n 0 f s = Inr ([], f, s)"
| "read_n (Suc n) f s =
     (case get f of ((c, st), f1) \<Rightarrow>
        if st = St_ok then
          bindE (advance f1 s) (\<lambda>(f2, s2).
            bindE (read_n n f2 s2) (\<lambda>(cs, f3, s3). Inr (c # cs, f3, s3)))
        else Inr ([], f1, s))"

lemma status_ok_iff: "inv f s \<Longrightarrow> snd (fst (get f)) = St_ok \<longleftrightarrow> contents f s \<noteq> []"
proof (cases "contents f s")
  case Nil
  assume "inv f s"
  from get_end [OF this Nil] Nil show ?thesis by auto
next
  case (Cons c cs)
  assume "inv f s"
  from get_more [OF this Cons] Cons show ?thesis by simp
qed

lemma read_n_contents:
  "inv f s \<Longrightarrow> \<exists>f' s'. read_n n f s = Inr (take n (contents f s), f', s') \<and> inv f' s'
     \<and> contents f' s' = drop n (contents f s)"
proof (induction n arbitrary: f s)
  case 0
  then show ?case by simp
next
  case (Suc n)
  show ?case
  proof (cases "contents f s")
    case Nil
    obtain c st where g: "fst (get f) = (c, st)" "st \<noteq> St_ok"
      using get_end [OF Suc.prems Nil] by blast
    then have "read_n (Suc n) f s = Inr ([], snd (get f), s)"
      by (cases "get f") simp
    moreover have "inv (snd (get f)) s" "contents (snd (get f)) s = contents f s"
      using Suc.prems get_inv get_contents by auto
    ultimately show ?thesis using Nil by simp
  next
    case (Cons c cs)
    have g: "fst (get f) = (c, St_ok)"
      by (rule get_more [OF Suc.prems Cons])
    obtain f2 s2 where a: "advance (snd (get f)) s = Inr (f2, s2)" "inv f2 s2" "contents f2 s2 = cs"
      using advance_more [OF Suc.prems Cons] by blast
    obtain f' s' where r: "read_n n f2 s2 = Inr (take n cs, f', s')" "inv f' s'"
        "contents f' s' = drop n cs"
      using Suc.IH [OF a(2)] a(3) by auto
    have "read_n (Suc n) f s = Inr (c # take n cs, f', s')"
      using g a(1) r(1) by (cases "get f") simp
    then show ?thesis using r Cons by simp
  qed
qed

end

section \<open>The lexfile is a character source\<close>

lemma lf_make_ready_settles:
  "lf_state lf = Lf_unready \<Longrightarrow> lf_state (lf_make_ready lf) \<noteq> Lf_unready"
  by (auto simp: lf_make_ready_def split: list.splits option.splits)

lemma lf_get_settles: "lf_state (snd (lf_get lf)) \<noteq> Lf_unready"
  by (cases "lf_state lf") (auto simp: lf_get_def Let_def dest: lf_make_ready_settles)

lemma lf_get_state_ready:
  "fst (lf_get lf) = (c, St_ok) \<Longrightarrow> lf_state (snd (lf_get lf)) = Lf_ready"
  using lf_get_settles [of lf]
  by (cases "lf_state (snd (lf_get lf))") (auto simp: lf_get_def Let_def split: if_splits)

lemma limit_lines_Nil_iff [simp]: "limit_lines ml l cs = [] \<longleftrightarrow> cs = []"
  by (cases cs) (auto simp: limit_lines_def split: option.splits)

lemma lf_get_unready_more:
  assumes "lf_inv lf s" "lf_state lf = Lf_unready" "lf_stream lf = Some c # bs"
  shows "lf_get lf = ((c, St_ok), lf\<lparr>lf_stream := bs, lf_c := c, lf_state := Lf_ready\<rparr>)"
  using assms by (auto simp: lf_get_def lf_make_ready_def lf_inv_def)

lemma lf_get_unready_end:
  assumes "lf_inv lf s" "lf_state lf = Lf_unready" "lf_stream lf = []"
  shows "lf_get lf = ((NUL, St_eof), lf\<lparr>lf_eofbit := True, lf_state := Lf_eof, lf_c := NUL\<rparr>)"
  using assms by (auto simp: lf_get_def lf_make_ready_def lf_inv_def)

lemma lf_get_unready_fail:
  assumes "lf_inv lf s" "lf_state lf = Lf_unready" "lf_stream lf = None # bs"
  shows "lf_get lf = ((NUL, St_error), lf\<lparr>lf_stream := bs, lf_state := Lf_error, lf_c := NUL\<rparr>)"
  using assms by (auto simp: lf_get_def lf_make_ready_def lf_inv_def)

lemma lf_get_settled:
  "lf_state lf \<noteq> Lf_unready \<Longrightarrow>
   lf_get lf = ((lf_c lf, if lf_state lf = Lf_eof then St_eof
                          else if lf_state lf = Lf_error then St_error else St_ok), lf)"
  by (auto simp: lf_get_def Let_def split: lf_internal.splits)

lemma lf_state_cases:
  obtains (settled) "lf_state lf \<noteq> Lf_unready"
  | (more) c bs where "lf_state lf = Lf_unready" "lf_stream lf = Some c # bs"
  | (fail) bs where "lf_state lf = Lf_unready" "lf_stream lf = None # bs"
  | (final) "lf_state lf = Lf_unready" "lf_stream lf = []"
proof (cases "lf_state lf = Lf_unready")
  case True
  then show thesis
    using more fail final by (metis (no_types) list.exhaust not_None_eq)
qed (rule settled)

lemma lf_get_laws:
  assumes "lf_inv lf s"
  shows lf_get_inv: "lf_inv (snd (lf_get lf)) s"
    and lf_get_contents: "lf_contents (snd (lf_get lf)) s = lf_contents lf s"
    and lf_get_more: "lf_contents lf s = c # cs \<Longrightarrow> fst (lf_get lf) = (c, St_ok)"
    and lf_get_end: "lf_contents lf s = [] \<Longrightarrow>
      \<exists>c st. fst (lf_get lf) = (c, st) \<and> st \<noteq> St_ok \<and> (c = NUL \<or> c = NL)"
proof -
  have "lf_inv (snd (lf_get lf)) s \<and> lf_contents (snd (lf_get lf)) s = lf_contents lf s
    \<and> (lf_contents lf s = c # cs \<longrightarrow> fst (lf_get lf) = (c, St_ok))
    \<and> (lf_contents lf s = [] \<longrightarrow>
        (\<exists>c st. fst (lf_get lf) = (c, st) \<and> st \<noteq> St_ok \<and> (c = NUL \<or> c = NL)))"
  proof (cases rule: lf_state_cases [of lf])
    case settled
    then show ?thesis using assms
      by (cases "lf_state lf")
        (auto simp: lf_get_settled lf_contents_def lf_inv_def limit_lines_def split: option.splits)
  next
    case (more c bs)
    then show ?thesis using assms
      by (auto simp: lf_get_unready_more lf_contents_def lf_inv_def limit_lines_def
          split: option.splits)
  next
    case (fail bs)
    then show ?thesis using assms
      by (auto simp: lf_get_unready_fail lf_contents_def lf_inv_def limit_lines_def
          split: option.splits)
  next
    case final
    then show ?thesis using assms
      by (auto simp: lf_get_unready_end lf_contents_def lf_inv_def limit_lines_def
          split: option.splits)
  qed
  then show "lf_inv (snd (lf_get lf)) s" "lf_contents (snd (lf_get lf)) s = lf_contents lf s"
    "lf_contents lf s = c # cs \<Longrightarrow> fst (lf_get lf) = (c, St_ok)"
    "lf_contents lf s = [] \<Longrightarrow>
      \<exists>c st. fst (lf_get lf) = (c, st) \<and> st \<noteq> St_ok \<and> (c = NUL \<or> c = NL)" by blast+
qed

lemma lf_get_again: "lf_get (snd (lf_get lf)) = lf_get lf"
proof -
  have "lf_get lf = ((lf_c (snd (lf_get lf)),
      if lf_state (snd (lf_get lf)) = Lf_eof then St_eof
      else if lf_state (snd (lf_get lf)) = Lf_error then St_error else St_ok), snd (lf_get lf))"
    by (simp add: lf_get_def Let_def)
  then show ?thesis by (simp add: lf_get_settled [OF lf_get_settles])
qed

lemma lf_advance_eqs:
  "lf_state lf = Lf_ready \<Longrightarrow> lf_c lf \<noteq> NL \<Longrightarrow>
     lf_advance lf s = Inr (lf\<lparr>lf_char_pos := Suc (lf_char_pos lf), lf_state := Lf_unready\<rparr>, s)"
  "lf_state lf = Lf_ready \<Longrightarrow> lf_c lf = NL \<Longrightarrow> lf_max_lines lf = None \<Longrightarrow>
     lf_advance lf (i # r) = Inr (lf\<lparr>lf_char_pos := 0, lf_state := Lf_unready\<rparr>,
       i\<lparr>inc_line := Suc (inc_line i)\<rparr> # r)"
  "lf_state lf = Lf_ready \<Longrightarrow> lf_c lf = NL \<Longrightarrow> lf_max_lines lf = Some m \<Longrightarrow>
     lf_advance lf (i # r) = Inr (lf\<lparr>lf_char_pos := 0,
         lf_state := (if m \<le> inc_line i then Lf_eof else Lf_unready)\<rparr>,
       i\<lparr>inc_line := Suc (inc_line i)\<rparr> # r)"
  by (auto simp: lf_advance_def input_stack_defs Let_def)

text \<open>From a ready state the next character is consumed, and the line number moves at line ends.\<close>

lemma lf_advance_ready:
  assumes inv: "lf_inv lf s" and ready: "lf_state lf = Lf_ready"
    and more: "lf_contents lf s = c # cs"
  shows "\<exists>lf' s'. lf_advance lf s = Inr (lf', s') \<and> lf_inv lf' s' \<and> lf_contents lf' s' = cs
     \<and> lf_stream lf' = lf_stream lf \<and> lf_state lf' \<noteq> Lf_ready \<and> tl s' = tl s
     \<and> inc_name (hd s') = inc_name (hd s)"
proof -
  obtain i r where s: "s = i # r"
    using inv by (cases s) (auto simp: lf_inv_def)
  have c: "lf_c lf = c" and cs: "limit_lines (lf_max_lines lf) (inc_line i) (c # readable (lf_stream lf)) = c # cs"
    using more ready s by (auto simp: lf_contents_def limit_lines_def split: option.splits)
  consider "c \<noteq> NL" | "c = NL" "lf_max_lines lf = None" | m where "c = NL" "lf_max_lines lf = Some m"
    by (cases "lf_max_lines lf") auto
  then show ?thesis
  proof cases
    case 1
    with c cs inv ready s show ?thesis
      by (auto simp: lf_advance_eqs lf_contents_def lf_inv_def limit_lines_def split: option.splits)
  next
    case 2
    with c cs inv ready s show ?thesis
      by (auto simp: lf_advance_eqs lf_contents_def lf_inv_def limit_lines_def)
  next
    case (3 m)
    with c cs inv ready s show ?thesis
      by (auto simp: lf_advance_eqs lf_contents_def lf_inv_def limit_lines_def Suc_diff_le not_le
          split: if_splits)
  qed
qed

lemma lf_get_ready_more:
  assumes "lf_inv lf s" "lf_contents lf s = c # cs"
  shows "lf_state (snd (lf_get lf)) = Lf_ready"
  using lf_get_more [OF assms] by (rule lf_get_state_ready)

lemma lf_advance_more:
  assumes "lf_inv lf s" "lf_contents lf s = c # cs"
  shows "\<exists>lf' s'. lf_advance (snd (lf_get lf)) s = Inr (lf', s') \<and> lf_inv lf' s' \<and> lf_contents lf' s' = cs"
  using lf_advance_ready [OF lf_get_inv [OF assms(1)] lf_get_ready_more [OF assms]]
    lf_get_contents [OF assms(1)] assms(2) by metis

lemma lf_advance_end:
  assumes "lf_inv lf s" "lf_contents lf s = []"
  shows "lf_advance (snd (lf_get lf)) s = Inr (snd (lf_get lf), s)"
proof -
  obtain c st where "fst (lf_get lf) = (c, st)" "st \<noteq> St_ok"
    using lf_get_end [OF assms] by blast
  then have "lf_state (snd (lf_get lf)) = Lf_eof \<or> lf_state (snd (lf_get lf)) = Lf_error"
    by (auto simp: lf_get_def Let_def split: lf_internal.splits if_splits)
  then show ?thesis by (auto simp: lf_advance_def)
qed

interpretation lfs: char_source lf_get lf_advance lf_contents lf_inv
  by unfold_locales
    (simp_all add: lf_get_inv lf_get_contents lf_get_again lf_get_more lf_get_end lf_advance_more lf_advance_end)

section \<open>Where the source is: line and column\<close>

text \<open>The states a client reaches that follows every \<open>advance\<close> by a \<open>get\<close> first, as the lexer does.\<close>

inductive lf_run :: "byte_stream \<Rightarrow> nat option \<Rightarrow> string \<Rightarrow> input_stack \<Rightarrow> lexfile \<Rightarrow> input_stack \<Rightarrow> bool"
  for bs ml name s0 where
  opened: "lf_run bs ml name s0 (lf_open bs ml) (input_push name s0)"
| got: "lf_run bs ml name s0 lf s \<Longrightarrow> lf_run bs ml name s0 (snd (lf_get lf)) s"
| advanced: "lf_run bs ml name s0 lf s \<Longrightarrow> lf_advance (snd (lf_get lf)) s = Inr (lf', s') \<Longrightarrow>
    lf_run bs ml name s0 lf' s'"

text \<open>The part of the current line that has been passed.\<close>

definition last_seg :: "string \<Rightarrow> string" where
  "last_seg p = rev (takeWhile (\<lambda>c. c \<noteq> NL) (rev p))"

lemma last_seg_Nil [simp]: "last_seg [] = []"
  by (simp add: last_seg_def)

lemma last_seg_snoc [simp]: "last_seg (p @ [c]) = (if c = NL then [] else last_seg p @ [c])"
  by (simp add: last_seg_def)

lemma last_seg_Cons: "last_seg (c # p) = (if NL \<in> set p then last_seg p else if c = NL then p else c # p)"
  by (auto simp: last_seg_def takeWhile_append takeWhile_all_eq dest: bspec)

lemma last_seg_no_NL: "NL \<notin> set p \<Longrightarrow> last_seg p = p"
  by (induction p rule: rev_induct) auto

definition lf_track ::
  "byte_stream \<Rightarrow> nat option \<Rightarrow> input_stack \<Rightarrow> string \<Rightarrow> lexfile \<Rightarrow> input_stack \<Rightarrow> bool" where
  "lf_track bs ml s0 p lf s \<longleftrightarrow>
     lf_line_array lf = lf_line_array (lf_open bs ml) \<and> lf_max_lines lf = ml \<and> lf_inv lf s \<and> tl s = s0
     \<and> (lf_state lf = Lf_unready \<or> lf_state lf = Lf_ready \<longrightarrow>
          inc_line (hd s) = Suc (count_list p NL) \<and> lf_char_pos lf = length (last_seg p)
          \<and> readable bs = p @ (if lf_state lf = Lf_ready then [lf_c lf] else []) @ readable (lf_stream lf)
          \<and> (\<forall>m. ml = Some m \<longrightarrow> inc_line (hd s) \<le> max 1 m))"

lemma lf_track_open: "lf_track bs ml s0 [] (lf_open bs ml) (input_push name s0)"
  by (auto simp: lf_track_def lf_open_def lf_inv_def input_push_def)

lemma lf_track_get:
  assumes "lf_track bs ml s0 p lf s" shows "lf_track bs ml s0 p (snd (lf_get lf)) s"
proof -
  have inv: "lf_inv lf s" using assms by (simp add: lf_track_def)
  show ?thesis
  proof (cases rule: lf_state_cases [of lf])
    case settled
    with assms show ?thesis by (simp add: lf_get_settled)
  next
    case (more c bs)
    with assms lf_get_inv [OF inv] show ?thesis
      by (auto simp: lf_track_def lf_get_unready_more [OF inv more] )
  next
    case (fail bs)
    with assms lf_get_inv [OF inv] show ?thesis
      by (auto simp: lf_track_def lf_get_unready_fail [OF inv fail])
  next
    case final
    with assms lf_get_inv [OF inv] show ?thesis
      by (auto simp: lf_track_def lf_get_unready_end [OF inv final])
  qed
qed

lemma lf_contents_ready_nonempty:
  "lf_state lf = Lf_ready \<Longrightarrow> \<exists>cs. lf_contents lf s = lf_c lf # cs"
  by (auto simp: lf_contents_def limit_lines_def split: option.splits)

lemma lf_track_advance:
  assumes tr: "lf_track bs ml s0 p lf s" and st: "lf_state lf \<noteq> Lf_unready"
    and adv: "lf_advance lf s = Inr (lf', s')"
  shows "\<exists>p'. lf_track bs ml s0 p' lf' s'"
proof (cases "lf_state lf = Lf_ready")
  case False
  with st adv have "lf' = lf" "s' = s"
    by (cases "lf_state lf"; auto simp: lf_advance_def)+
  with tr show ?thesis by blast
next
  case True
  obtain i r where s: "s = i # r"
    using tr by (cases s) (auto simp: lf_track_def lf_inv_def)
  obtain cs where "lf_contents lf s = lf_c lf # cs"
    using lf_contents_ready_nonempty [OF True] by blast
  from lf_advance_ready [OF _ True this] tr adv have inv': "lf_inv lf' s'" and tl': "tl s' = tl s"
    by (auto simp: lf_track_def)
  consider "lf_c lf \<noteq> NL" | "lf_c lf = NL" "lf_max_lines lf = None"
    | m where "lf_c lf = NL" "lf_max_lines lf = Some m"
    by (cases "lf_max_lines lf") auto
  moreover obtain i' where s': "s' = i' # r"
    using inv' tl' s by (cases s') (auto simp: lf_inv_def)
  ultimately have "lf_track bs ml s0 (p @ [lf_c lf]) lf' s'"
  proof cases
    case 1
    with tr adv True s s' inv' show ?thesis
      by (auto simp: lf_track_def lf_advance_eqs)
  next
    case 2
    with tr adv True s s' inv' show ?thesis
      by (auto simp: lf_track_def lf_advance_eqs)
  next
    case (3 m)
    then have "lf' = lf\<lparr>lf_char_pos := 0, lf_state := (if m \<le> inc_line i then Lf_eof else Lf_unready)\<rparr>"
      "i' = i\<lparr>inc_line := Suc (inc_line i)\<rparr>"
      using adv s s' True by (auto simp: lf_advance_eqs)
    with tr True s s' inv' 3 show ?thesis
      by (auto simp: lf_track_def)
  qed
  then show ?thesis by blast
qed

lemma lf_run_track: "lf_run bs ml name s0 lf s \<Longrightarrow> \<exists>p. lf_track bs ml s0 p lf s"
proof (induction rule: lf_run.induct)
  case opened
  show ?case using lf_track_open by blast
next
  case (got lf s)
  then show ?case using lf_track_get by blast
next
  case (advanced lf s lf' s')
  then show ?case using lf_track_get lf_track_advance lf_get_settles by blast
qed

lemma getlines_first:
  "acc \<noteq> [] \<Longrightarrow> getlines acc (map Some r) \<noteq> [] \<and>
   getlines acc (map Some r) ! 0 = acc @ takeWhile (\<lambda>c. c \<noteq> NL) r"
  by (induction r arbitrary: acc) auto

lemma getlines_nth:
  "count_list p NL < length (getlines acc (map Some (p @ c # r))) \<and>
   getlines acc (map Some (p @ c # r)) ! count_list p NL
     = (if NL \<in> set p then [] else acc) @ last_seg p @ takeWhile (\<lambda>c. c \<noteq> NL) (c # r)"
proof (induction p arbitrary: acc)
  case Nil
  show ?case using getlines_first [of "acc @ [c]" r] by auto
next
  case (Cons d p)
  show ?case
    using Cons.IH [of "[]"] Cons.IH [of "acc @ [d]"]
    by (auto simp: last_seg_Cons last_seg_no_NL)
qed

lemma readable_map_Some: "None \<notin> set bs \<Longrightarrow> bs = map Some (readable bs)"
  by (induction bs rule: readable.induct) auto

text \<open>C22: The column and line bookkeeping of the character source is right. In every state the lexer
  can reach in a file that is read without an I/O failure (and with a line limit, if any, of at
  least one line), a character that \<open>get\<close> delivers is the character of the current line at the
  current column; a line end is delivered at the column just past the line. In particular
  \<open>get_current_line\<close> never raises there, and the files below on the stack are untouched.\<close>

theorem lf_position_correct:
  assumes run: "lf_run bs ml name s0 lf s"
    and nofail: "None \<notin> set bs" and limit: "ml \<noteq> Some 0"
    and got: "fst (lf_get lf) = (c, St_ok)"
  shows "\<exists>l. lf_get_current_line (snd (lf_get lf)) s = Inr l \<and> tl s = s0
    \<and> (if c = NL then lf_char_pos (snd (lf_get lf)) = length l
       else lf_char_pos (snd (lf_get lf)) < length l \<and> l ! lf_char_pos (snd (lf_get lf)) = c)"
proof -
  let ?lf = "snd (lf_get lf)"
  obtain p where tr: "lf_track bs ml s0 p ?lf s"
    using lf_run_track [OF lf_run.got [OF run]] by blast
  have st: "lf_state ?lf = Lf_ready" by (rule lf_get_state_ready [OF got])
  have c: "lf_c ?lf = c" using got by (auto simp: lf_get_def Let_def split: if_splits)
  have line: "inc_line (hd s) = Suc (count_list p NL)" and col: "lf_char_pos ?lf = length (last_seg p)"
    and bs: "readable bs = p @ c # readable (lf_stream ?lf)" and s: "s \<noteq> []" "tl s = s0"
    and lim: "\<forall>m. ml = Some m \<longrightarrow> inc_line (hd s) \<le> max 1 m"
    and arr: "lf_line_array ?lf = lf_line_array (lf_open bs ml)"
    using tr st c by (auto simp: lf_track_def lf_inv_def)
  let ?l = "last_seg p @ takeWhile (\<lambda>c. c \<noteq> NL) (c # readable (lf_stream ?lf))"
  have gl: "count_list p NL < length (getlines [] bs)" "getlines [] bs ! count_list p NL = ?l"
    using getlines_nth [of p "[]" c "readable (lf_stream ?lf)"] readable_map_Some [OF nofail] bs
    by auto
  have arr': "count_list p NL < length (lf_line_array ?lf)" "lf_line_array ?lf ! count_list p NL = ?l"
    using arr gl lim line limit by (auto simp: lf_open_def split: option.splits)
  have "input_get_line s = Inr (Suc (count_list p NL))"
    using s line by (cases s) (auto simp: input_stack_defs)
  then have "lf_get_current_line ?lf s = Inr ?l"
    using arr' by (simp add: lf_get_current_line_def)
  then show ?thesis using col s by (auto simp: nth_append)
qed

theorem lf_position_correct_witness:
  "\<exists>l. lf_get_current_line (snd (lf_get (lf_open [Some CHR ''a''] None))) (input_push ''f'' []) = Inr l
     \<and> l ! lf_char_pos (snd (lf_get (lf_open [Some CHR ''a''] None))) = CHR ''a''"
proof -
  have g: "fst (lf_get (lf_open [Some CHR ''a''] None)) = (CHR ''a'', St_ok)"
    by (simp add: lf_op_defs lf_open_def)
  show ?thesis
    using lf_position_correct [OF lf_run.opened [of "[Some CHR ''a'']" None "''f''" "[]"] _ _ g]
    by auto
qed

text \<open>C23: The character source refines the text it reads: what remains to be delivered is a string;
  \<open>get\<close> shows its first character without consuming it (and reports a non-ok status exactly when the
  string is empty), and an \<open>advance\<close> after a \<open>get\<close> drops exactly that character and never raises. When a file
  is opened and pushed, the string is the readable part of the file, cut after the line limit.\<close>

theorem lf_refines_contents:
  "(lf_inv lf s \<longrightarrow>
     lf_contents (snd (lf_get lf)) s = lf_contents lf s
     \<and> (snd (fst (lf_get lf)) = St_ok \<longleftrightarrow> lf_contents lf s \<noteq> [])
     \<and> (lf_contents lf s \<noteq> [] \<longrightarrow> fst (fst (lf_get lf)) = hd (lf_contents lf s))
     \<and> (\<exists>lf' s'. lf_advance (snd (lf_get lf)) s = Inr (lf', s') \<and> lf_inv lf' s'
          \<and> lf_contents lf' s' = tl (lf_contents lf s)))
   \<and> lf_inv (lf_open bs ml) (input_push name s0)
   \<and> lf_contents (lf_open bs ml) (input_push name s0)
       = (case ml of None \<Rightarrow> readable bs | Some m \<Rightarrow> take_lines m (readable bs))"
proof (intro conjI impI)
  assume inv: "lf_inv lf s"
  show "lf_contents (snd (lf_get lf)) s = lf_contents lf s" by (rule lfs.get_contents [OF inv])
  show "snd (fst (lf_get lf)) = St_ok \<longleftrightarrow> lf_contents lf s \<noteq> []" by (rule lfs.status_ok_iff [OF inv])
  show "lf_contents lf s \<noteq> [] \<Longrightarrow> fst (fst (lf_get lf)) = hd (lf_contents lf s)"
    using lfs.get_more [OF inv] by (cases "lf_contents lf s") auto
  show "\<exists>lf' s'. lf_advance (snd (lf_get lf)) s = Inr (lf', s') \<and> lf_inv lf' s'
      \<and> lf_contents lf' s' = tl (lf_contents lf s)"
    using lfs.advance_more [OF inv] lfs.advance_end [OF inv] lfs.get_inv [OF inv] lfs.get_contents [OF inv]
    by (cases "lf_contents lf s") auto
qed (auto simp: lf_open_def lf_inv_def lf_contents_def input_push_def limit_lines_def split: option.splits)

theorem lf_refines_contents_witness:
  "lf_inv (lf_open [Some CHR ''a'', Some CHR ''b''] None) (input_push ''f'' [])
   \<and> lf_contents (lf_open [Some CHR ''a'', Some CHR ''b''] None) (input_push ''f'' []) = ''ab''
   \<and> fst (fst (lf_get (lf_open [Some CHR ''a'', Some CHR ''b''] None))) = CHR ''a''"
  using lf_refines_contents [of "lf_open [Some CHR ''a'', Some CHR ''b''] None" "input_push ''f'' []"
      "[Some CHR ''a'', Some CHR ''b'']" None "''f''" "[]"]
  by auto

end
