(* ===== verification/Lexeme.thy ===== *)
theory Lexeme
  imports Lexfile "HOL-Library.Multiset"
begin

text \<open>
  Lexemes and their classification, \<open>translator/parser/lexeme.h\<close>: the buffer a lexeme is read
  into, the constructor that turns a buffer into a keyword, identifier, integer, decimal, symbol
  or string, with the context that tells a unary from a binary minus sign, and the accessors.
  The keyword and character tables are unordered maps in the code: here they are association
  lists in the order the container iterates over them.
\<close>

section \<open>Lexeme buffers\<close>

datatype lb_kind = Lb_string | Lb_number | Lb_character | Lb_string_literal

text \<open>A default-constructed buffer has an indeterminate kind and context: \<open>None\<close>.\<close>

record lexeme_buffer =
  lb_buffer :: string
  lb_kind :: "lb_kind option"
  lb_context :: "(string \<times> nat) option"
  lb_end_pos :: nat

definition lb_new :: lexeme_buffer where
  "lb_new = \<lparr>lb_buffer = [], lb_kind = None, lb_context = None, lb_end_pos = 0\<rparr>"

definition lb_assign_char :: "char \<Rightarrow> lexeme_buffer \<Rightarrow> lexeme_buffer" where
  "lb_assign_char c b = b\<lparr>lb_buffer := [c]\<rparr>"

definition lb_append_char :: "char \<Rightarrow> lexeme_buffer \<Rightarrow> lexeme_buffer" where
  "lb_append_char c b = b\<lparr>lb_buffer := lb_buffer b @ [c]\<rparr>"

definition lb_nth :: "lexeme_buffer \<Rightarrow> nat \<Rightarrow> exn + char" where
  "lb_nth b p = (if p < length (lb_buffer b) then Inr (lb_buffer b ! p)
                 else Inl (Out_of_range ''ERROR_BUFFER_ACCESS_OUT_OF_RANGE''))"

section \<open>Numbers\<close>

text \<open>The conversions of \<open>sscanf\<close> that consume the whole buffer (\<open>offset == length\<close>). The
  buffer starts with a digit. A value that does not fit is undefined in C; the model wraps it.\<close>

definition digit_value :: "char \<Rightarrow> nat" where
  "digit_value c = (let n = of_char c in
     if isdigit c then n - 48 else if islower c then n - 87 else n - 55)"

definition base_value :: "nat \<Rightarrow> string \<Rightarrow> nat" where
  "base_value b ds = foldl (\<lambda>acc c. b * acc + digit_value c) 0 ds"

definition scan_hex :: "string \<Rightarrow> u32 option" where
  "scan_hex s = (let ds = drop 2 s in
     if ds \<noteq> [] \<and> list_all isxdigit ds then Some (word_of_nat (base_value 16 ds)) else None)"

definition isodigit :: "char \<Rightarrow> bool" where
  "isodigit c \<longleftrightarrow> isdigit c \<and> digit_value c < 8"

definition scan_oct :: "string \<Rightarrow> u32 option" where
  "scan_oct s = (if s \<noteq> [] \<and> list_all isodigit s then Some (word_of_nat (base_value 8 s)) else None)"

definition scan_dec :: "string \<Rightarrow> u32 option" where
  "scan_dec s = (if s \<noteq> [] \<and> list_all isdigit s then Some (word_of_nat (base_value 10 s)) else None)"

definition exponent_ok :: "string \<Rightarrow> bool" where
  "exponent_ok t = (case t of [] \<Rightarrow> False
     | x # u \<Rightarrow> (let ds = (if x = CHR ''+'' \<or> x = CHR ''-'' then u else t)
                in ds \<noteq> [] \<and> list_all isdigit ds))"

definition scan_float :: "string \<Rightarrow> bool" where
  "scan_float s =
     (let r = dropWhile isdigit s;
          r2 = (case r of [] \<Rightarrow> [] | c # t \<Rightarrow> if c = CHR ''.'' then dropWhile isdigit t else r)
      in takeWhile isdigit s \<noteq> [] \<and>
         (case r2 of [] \<Rightarrow> True | c # t \<Rightarrow> (c = CHR ''e'' \<or> c = CHR ''E'') \<and> exponent_ok t))"

text \<open>The value of a number buffer, and the warning given on the way. The decimal value is the
  rounding of the text by the C library; the text stands for it. The retries with \<open>%lg\<close> and
  \<open>%lG\<close> accept what \<open>%lf\<close> accepts.\<close>

datatype number_value = Num_integer u32 | Num_decimal string | Num_unknown

definition classify_number :: "string \<Rightarrow> number_value \<times> msg_id option" where
  "classify_number s =
     (if 2 \<le> length s \<and> s ! 0 = CHR ''0'' \<and> s ! 1 = CHR ''x'' then
        (case scan_hex s of Some z \<Rightarrow> (Num_integer z, None)
         | None \<Rightarrow> (Num_unknown, Some ''WARNING_HEX_CONVERSION_A''))
      else if 1 < length s \<and> s ! 0 = CHR ''0'' \<and> str_find ''.'' s 1 = None
              \<and> str_find ''e'' s 1 = None \<and> str_find ''E'' s 1 = None then
        (case scan_oct s of Some z \<Rightarrow> (Num_integer z, None)
         | None \<Rightarrow> (Num_unknown, Some ''WARNING_OCTAL_CONVERSION_A''))
      else (case scan_dec s of Some z \<Rightarrow> (Num_integer z, None)
            | None \<Rightarrow> if scan_float s then (Num_decimal s, None) else (Num_unknown, None)))"

section \<open>Lexemes\<close>

datatype lx_type = Lx_keyword | Lx_character | Lx_identifier | Lx_integer | Lx_decimal
  | Lx_string | Lx_unknown

datatype minus_context = Unary | Binary

record ('k, 'ch) lexeme =
  lx_tp :: lx_type
  lx_unique :: nat
  lx_k :: "'k option"
  lx_s :: "'ch option"
  lx_id :: "string option"
  lx_z :: "u32 option"
  lx_d :: "string option"
  lx_str :: "string option"
  lx_span :: "nat \<times> nat"

type_synonym 'k keyword_map = "(string \<times> 'k) list"
type_synonym 'ch character_map = "(string \<times> 'ch \<times> bool) list"

text \<open>Stripping the tags that tell the two minus signs apart.\<close>

definition strip_tag :: "string \<Rightarrow> string \<Rightarrow> bool \<times> string" where
  "strip_tag tag m = (case str_find tag m 0 of None \<Rightarrow> (False, m)
     | Some pos \<Rightarrow> (True, str_erase pos (length tag) m))"

definition symbol_matches :: "string \<Rightarrow> minus_context \<Rightarrow> string \<Rightarrow> bool" where
  "symbol_matches buffer context key =
     (let (unary, m1) = strip_tag ''@unary'' key;
          (binary, m2) = strip_tag ''@binary'' m1
      in buffer = m2 \<and> (\<not> unary \<or> (unary \<and> context = Unary))
         \<and> (\<not> binary \<or> (binary \<and> context = Binary)))"

definition lexeme_blank :: "nat \<Rightarrow> nat \<times> nat \<Rightarrow> ('k, 'ch) lexeme" where
  "lexeme_blank u span =
     \<lparr>lx_tp = Lx_unknown, lx_unique = u, lx_k = None, lx_s = None, lx_id = None, lx_z = None,
      lx_d = None, lx_str = None, lx_span = span\<rparr>"

text \<open>The constructor: the lexeme, the context handed on to the next one, and the diagnostics.\<close>

definition lexeme_make ::
  "'k keyword_map \<Rightarrow> 'ch character_map \<Rightarrow> string \<Rightarrow> lb_kind \<Rightarrow> minus_context \<Rightarrow> nat \<Rightarrow> nat \<times> nat
   \<Rightarrow> ('k, 'ch) lexeme \<times> minus_context \<times> diag_log" where
  "lexeme_make km cm buffer kind context u span =
     (case kind of
        Lb_string \<Rightarrow>
          (case find (\<lambda>t. buffer = fst t) km of
             Some t \<Rightarrow> ((lexeme_blank u span)\<lparr>lx_tp := Lx_keyword, lx_k := Some (snd t)\<rparr>, Unary, [])
           | None \<Rightarrow> ((lexeme_blank u span)\<lparr>lx_tp := Lx_identifier, lx_id := Some buffer\<rparr>, Binary, []))
      | Lb_number \<Rightarrow>
          (let (v, w) = classify_number buffer;
               wlog = (case w of None \<Rightarrow> [] | Some m \<Rightarrow> [Diag Sev_warn m buffer (fst span) (snd span)])
           in case v of
                Num_integer z \<Rightarrow>
                  ((lexeme_blank u span)\<lparr>lx_tp := Lx_integer, lx_z := Some z\<rparr>, Binary, wlog)
              | Num_decimal d \<Rightarrow>
                  ((lexeme_blank u span)\<lparr>lx_tp := Lx_decimal, lx_d := Some d\<rparr>, Binary, wlog)
              | Num_unknown \<Rightarrow> (lexeme_blank u span, Binary,
                  wlog @ [Diag Sev_error ''ERROR_UNRECOGNIZED_NUMBER'' buffer (fst span) (snd span)]))
      | Lb_character \<Rightarrow>
          (case find (\<lambda>t. symbol_matches buffer context (fst t)) cm of
             Some t \<Rightarrow> ((lexeme_blank u span)\<lparr>lx_tp := Lx_character, lx_s := Some (fst (snd t))\<rparr>,
                        if snd (snd t) then Unary else Binary, [])
           | None \<Rightarrow> (lexeme_blank u span, Unary,
               [Diag Sev_error ''ERROR_UNRECOGNIZED_SYMBOL'' buffer (fst span) (snd span)]))
      | Lb_string_literal \<Rightarrow>
          ((lexeme_blank u span)\<lparr>lx_tp := Lx_string, lx_str := Some buffer\<rparr>, Unary, []))"

section \<open>Accessors\<close>

definition lx_warn :: "msg_id \<Rightarrow> ('k, 'ch) lexeme \<Rightarrow> diag_log" where
  "lx_warn m x = [Diag Sev_warn m (dec_string (lx_unique x)) (fst (lx_span x)) (snd (lx_span x))]"

definition get_keyword :: "('k, 'ch) lexeme \<Rightarrow> 'k option \<times> diag_log" where
  "get_keyword x = (if lx_tp x = Lx_keyword then (lx_k x, []) else (None, lx_warn ''WARNING_LEXEME_KEYWORD'' x))"

definition get_symbol :: "('k, 'ch) lexeme \<Rightarrow> 'ch option \<times> diag_log" where
  "get_symbol x = (if lx_tp x = Lx_character then (lx_s x, []) else (None, lx_warn ''WARNING_LEXEME_SYMBOL'' x))"

definition get_identifier :: "('k, 'ch) lexeme \<Rightarrow> string option \<times> diag_log" where
  "get_identifier x =
     (if lx_tp x = Lx_identifier then (lx_id x, []) else (None, lx_warn ''WARNING_LEXEME_IDENTIFIER'' x))"

definition get_integer :: "('k, 'ch) lexeme \<Rightarrow> u32 option \<times> diag_log" where
  "get_integer x = (if lx_tp x = Lx_integer then (lx_z x, []) else (None, lx_warn ''WARNING_LEXEME_INTEGER'' x))"

definition get_decimal :: "('k, 'ch) lexeme \<Rightarrow> string option \<times> diag_log" where
  "get_decimal x = (if lx_tp x = Lx_decimal then (lx_d x, []) else (None, lx_warn ''WARNING_LEXEME_DECIMAL'' x))"

definition get_string :: "('k, 'ch) lexeme \<Rightarrow> string option \<times> diag_log" where
  "get_string x = (if lx_tp x = Lx_string then (lx_str x, []) else (None, lx_warn ''WARNING_LEXEME_STRING'' x))"

text \<open>\<open>dump\<close>. Dereferencing an empty optional is undefined. \<open>print_double\<close> is the stream's
  formatting of a \<open>double\<close>.\<close>

definition int_string :: "u32 \<Rightarrow> string" where
  "int_string z = (if sint z < 0 then CHR ''-'' # dec_string (nat (- sint z)) else dec_string (nat (sint z)))"

definition quoted :: "string \<Rightarrow> string" where
  "quoted s = CHR 0x27 # s @ [CHR 0x27, NL]"

definition lexeme_dump ::
  "'k keyword_map \<Rightarrow> 'ch character_map \<Rightarrow> (string \<Rightarrow> string) \<Rightarrow> ('k, 'ch) lexeme \<Rightarrow> exn + string" where
  "lexeme_dump km cm print_double x =
     (let pre = ''Lexeme '' @ dec_string (lx_unique x) @ '' = '' in
      case lx_tp x of
        Lx_keyword \<Rightarrow> (if km = [] then Inr (pre @ ''keyword '') else
          (case lx_k x of None \<Rightarrow> Inl Undefined
           | Some k \<Rightarrow> Inr (pre @ ''keyword '' @
               (case find (\<lambda>t. snd t = k) km of Some t \<Rightarrow> quoted (fst t) | None \<Rightarrow> ''''))))
      | Lx_character \<Rightarrow> (if cm = [] then Inr (pre @ ''symbol '') else
          (case lx_s x of None \<Rightarrow> Inl Undefined
           | Some ch \<Rightarrow> Inr (pre @ ''symbol '' @
               (case find (\<lambda>t. fst (snd t) = ch) cm of Some t \<Rightarrow> quoted (fst t) | None \<Rightarrow> ''''))))
      | Lx_identifier \<Rightarrow> (case lx_str x of None \<Rightarrow> Inl Undefined
          | Some s \<Rightarrow> Inr (pre @ ''identifier '' @ quoted s))
      | Lx_integer \<Rightarrow> (case lx_z x of None \<Rightarrow> Inl Undefined
          | Some z \<Rightarrow> Inr (pre @ ''integer literal '' @ quoted (int_string z)))
      | Lx_decimal \<Rightarrow> (case lx_d x of None \<Rightarrow> Inl Undefined
          | Some d \<Rightarrow> Inr (pre @ ''decimal literal '' @ quoted (print_double d)))
      | Lx_string \<Rightarrow> (case lx_str x of None \<Rightarrow> Inl Undefined
          | Some s \<Rightarrow> Inr (pre @ ''string literal '' @ quoted s))
      | Lx_unknown \<Rightarrow> Inr (pre @ ''UNKNOWN LEXEME'' @ [NL]))"

section \<open>The table of characters\<close>

text \<open>\<open>character_type\<close> of \<open>translator/parser/lexical.h\<close> and the table \<open>symbols\<close> of
  \<open>translation_unit.cpp\<close>: for each symbol, may a unary minus follow it?\<close>

datatype character_type =
    open_brace | close_brace | open_bracket | close_bracket
  | open_square | close_square | comma | period | colon | semicolon
  | equals | plus | binary_minus | unary_minus | star | backslash | foreslash | tilde
  | ampersand | circumflex | ampersat | ellipsis | rightarrow

definition symbols :: "character_type character_map" where
  "symbols =
    [ (''{'', open_brace, True), (''}'', close_brace, True),
      (''('', open_bracket, True), ('')'', close_bracket, False),
      (''['', open_square, True), ('']'', close_square, True),
      ('','', comma, True), (''.'', period, True), ('':'', colon, True), ('';'', semicolon, True),
      (''='', equals, True), (''+'', plus, True),
      (''-@binary'', binary_minus, True), (''-@unary'', unary_minus, True),
      (''*'', star, True), ([CHR 0x5C], backslash, True), (''/'', foreslash, True),
      (''~'', tilde, True), (''&'', ampersand, True), (''^'', circumflex, True),
      (''@'', ampersat, True), (''...'', ellipsis, True), (''->'', rightarrow, True) ]"

section \<open>Lemmas on the classification\<close>

text \<open>A well-formed lexeme carries the semantic value of its type and no other.\<close>

definition lexeme_wf :: "('k, 'ch) lexeme \<Rightarrow> bool" where
  "lexeme_wf x \<longleftrightarrow>
     (lx_k x \<noteq> None \<longleftrightarrow> lx_tp x = Lx_keyword) \<and> (lx_s x \<noteq> None \<longleftrightarrow> lx_tp x = Lx_character)
     \<and> (lx_id x \<noteq> None \<longleftrightarrow> lx_tp x = Lx_identifier) \<and> (lx_z x \<noteq> None \<longleftrightarrow> lx_tp x = Lx_integer)
     \<and> (lx_d x \<noteq> None \<longleftrightarrow> lx_tp x = Lx_decimal) \<and> (lx_str x \<noteq> None \<longleftrightarrow> lx_tp x = Lx_string)"

lemma lexeme_blank_wf [simp]: "lexeme_wf (lexeme_blank u span)"
  by (simp add: lexeme_wf_def lexeme_blank_def)

lemma lexeme_make_wf: "lexeme_wf (fst (lexeme_make km cm buffer kind ctx u span))"
  by (auto simp: lexeme_make_def lexeme_wf_def lexeme_blank_def Let_def
      split: lb_kind.splits option.splits prod.splits number_value.splits)

lemma lexeme_make_unknown_iff:
  "lx_tp (fst (lexeme_make km cm buffer kind ctx u span)) = Lx_unknown
   \<longleftrightarrow> (\<exists>d \<in> set (snd (snd (lexeme_make km cm buffer kind ctx u span))). dg_sev d = Sev_error)"
  by (auto simp: lexeme_make_def lexeme_blank_def Let_def
      split: lb_kind.splits option.splits prod.splits number_value.splits)

lemma find_unique_perm:
  assumes "mset xs = mset ys" and uniq: "\<And>x y. x \<in> set xs \<Longrightarrow> y \<in> set xs \<Longrightarrow> P x \<Longrightarrow> P y \<Longrightarrow> x = y"
  shows "find P xs = find P ys"
proof -
  have s: "set xs = set ys" using assms(1) by (rule mset_eq_setD)
  show ?thesis
  proof (cases "find P xs")
    case None
    then have "find P ys = None" using s by (simp add: find_None_all)
    with None show ?thesis by simp
  next
    case (Some x)
    then have x: "x \<in> set xs" "P x" by (auto dest: find_SomeD)
    then obtain y where y: "find P ys = Some y"
      using s by (cases "find P ys") (auto simp: find_None_all)
    then have "y \<in> set xs" "P y" using s by (auto dest: find_SomeD)
    with x uniq have "x = y" by blast
    with Some y show ?thesis by simp
  qed
qed

definition stripped :: "string \<Rightarrow> string \<times> bool \<times> bool" where
  "stripped key = (let (u, m1) = strip_tag ''@unary'' key; (b, m2) = strip_tag ''@binary'' m1 in (m2, u, b))"

lemma symbol_matches_stripped:
  "symbol_matches buffer ctx key \<longleftrightarrow>
     (case stripped key of (m, u, b) \<Rightarrow> buffer = m \<and> (u \<longrightarrow> ctx = Unary) \<and> (b \<longrightarrow> ctx = Binary))"
  by (auto simp: symbol_matches_def stripped_def Let_def split: prod.splits)

text \<open>What the tags leave of each key of the table.\<close>

lemma stripped_symbols:
  "map (\<lambda>t. stripped (fst t)) symbols =
    [(''{'', False, False), (''}'', False, False), (''('', False, False), ('')'', False, False),
     (''['', False, False), ('']'', False, False), ('','', False, False), (''.'', False, False),
     ('':'', False, False), ('';'', False, False), (''='', False, False), (''+'', False, False),
     (''-'', False, True), (''-'', True, False), (''*'', False, False), ([CHR 0x5C], False, False),
     (''/'', False, False), (''~'', False, False), (''&'', False, False), (''^'', False, False),
     (''@'', False, False), (''...'', False, False), (''->'', False, False)]"
  by code_simp

lemma symbols_stripped_distinct: "distinct (map (\<lambda>t. stripped (fst t)) symbols)"
  unfolding stripped_symbols by simp

lemma stripped_symbols_clash:
  "list_all (\<lambda>p. list_all (\<lambda>q. fst p = fst q \<longrightarrow> p = q
       \<or> (fst (snd p) \<or> fst (snd q)) \<and> (snd (snd p) \<or> snd (snd q)))
     (map (\<lambda>t. stripped (fst t)) symbols)) (map (\<lambda>t. stripped (fst t)) symbols)"
  unfolding stripped_symbols by code_simp

lemma symbols_match_unique:
  assumes "x \<in> set symbols" "y \<in> set symbols"
    and mx: "symbol_matches buffer ctx (fst x)" and my: "symbol_matches buffer ctx (fst y)"
  shows "x = y"
proof -
  let ?p = "stripped (fst x)" and ?q = "stripped (fst y)"
  have "fst ?p = fst ?q \<longrightarrow> ?p = ?q \<or> (fst (snd ?p) \<or> fst (snd ?q)) \<and> (snd (snd ?p) \<or> snd (snd ?q))"
    using stripped_symbols_clash assms(1,2) by (simp add: list_all_iff)
  moreover have "fst ?p = buffer" "fst ?q = buffer"
    using mx my by (simp_all add: symbol_matches_stripped split: prod.splits)
  moreover have "fst (snd ?p) \<or> fst (snd ?q) \<Longrightarrow> ctx = Unary" "snd (snd ?p) \<or> snd (snd ?q) \<Longrightarrow> ctx = Binary"
    using mx my by (auto simp: symbol_matches_stripped split: prod.splits)
  ultimately have "?p = ?q" by auto
  then show ?thesis
    using symbols_stripped_distinct assms(1,2) by (auto simp: distinct_map dest: inj_onD)
qed

lemma symbol_lookup_perm:
  assumes "mset cm = mset symbols"
  shows "find (\<lambda>t. symbol_matches buffer ctx (fst t)) cm = find (\<lambda>t. symbol_matches buffer ctx (fst t)) symbols"
  by (rule sym, rule find_unique_perm) (simp add: assms, erule (3) symbols_match_unique)

lemma lexeme_make_character_eq:
  "lexeme_make km cm b Lb_character ctx u span =
     (case find (\<lambda>t. symbol_matches b ctx (fst t)) cm of
             Some t \<Rightarrow> ((lexeme_blank u span)\<lparr>lx_tp := Lx_character, lx_s := Some (fst (snd t))\<rparr>,
                        if snd (snd t) then Unary else Binary, [])
           | None \<Rightarrow> (lexeme_blank u span, Unary,
               [Diag Sev_error ''ERROR_UNRECOGNIZED_SYMBOL'' b (fst span) (snd span)]))"
  by (simp add: lexeme_make_def)

section \<open>Decimal integers\<close>

lemma digit_value_digit_char: "d < 10 \<Longrightarrow> digit_value (digit_char d) = d"
  by (simp add: digit_value_def isdigit_digit_char of_char_digit_char)

lemma base_value_snoc: "base_value b (ds @ [c]) = b * base_value b ds + digit_value c"
  by (simp add: base_value_def)

lemma base_value_dec_string: "base_value 10 (dec_string n) = n"
proof (induction n rule: dec_string.induct)
  case (1 n)
  show ?case
  proof (cases "n < 10")
    case True
    then show ?thesis by (simp add: dec_string.simps base_value_def digit_value_digit_char)
  next
    case False
    then have "dec_string n = dec_string (n div 10) @ [digit_char (n mod 10)]"
      by (subst dec_string.simps) simp
    with 1 [OF False] show ?thesis by (simp add: base_value_snoc digit_value_digit_char)
  qed
qed

lemma hd_dec_string: "0 < n \<Longrightarrow> hd (dec_string n) \<noteq> CHR ''0''"
proof (induction n rule: dec_string.induct)
  case (1 n)
  show ?case
  proof (cases "n < 10")
    case True
    have "digit_char n \<noteq> CHR ''0''"
    proof
      assume "digit_char n = CHR ''0''"
      then have "(of_char (digit_char n) :: nat) = 48" by simp
      then show False using of_char_digit_char [OF True] 1 by simp
    qed
    with True show ?thesis by (simp add: dec_string.simps)
  next
    case False
    then have "dec_string n = dec_string (n div 10) @ [digit_char (n mod 10)]"
      by (subst dec_string.simps) simp
    with 1 False show ?thesis by (simp add: hd_append)
  qed
qed

lemma classify_number_dec_string: "classify_number (dec_string n) = (Num_integer (word_of_nat n), None)"
proof -
  have "scan_dec (dec_string n) = Some (word_of_nat n)"
    by (simp add: scan_dec_def dec_string_digits base_value_dec_string)
  moreover have "1 < length (dec_string n) \<Longrightarrow> dec_string n ! 0 \<noteq> CHR ''0''"
  proof (cases "n = 0")
    case True
    then show "1 < length (dec_string n) \<Longrightarrow> ?thesis" by (simp add: dec_string.simps)
  next
    case False
    then show ?thesis using hd_dec_string [of n] by (simp add: hd_conv_nth)
  qed
  ultimately show ?thesis by (auto simp: classify_number_def)
qed

lemma lexeme_dump_wf:
  assumes "lexeme_wf x"
  shows "lexeme_dump km cm pd x = Inl Undefined \<longleftrightarrow> lx_tp x = Lx_identifier"
proof (cases "lx_tp x")
  case Lx_keyword
  then show ?thesis using assms by (auto simp: lexeme_dump_def lexeme_wf_def Let_def split: if_splits)
next
  case Lx_character
  then show ?thesis using assms by (auto simp: lexeme_dump_def lexeme_wf_def Let_def split: if_splits)
next
  case Lx_identifier
  then show ?thesis using assms by (auto simp: lexeme_dump_def lexeme_wf_def Let_def split: if_splits)
next
  case Lx_integer
  then show ?thesis using assms by (auto simp: lexeme_dump_def lexeme_wf_def Let_def split: if_splits)
next
  case Lx_decimal
  then show ?thesis using assms by (auto simp: lexeme_dump_def lexeme_wf_def Let_def split: if_splits)
next
  case Lx_string
  then show ?thesis using assms by (auto simp: lexeme_dump_def lexeme_wf_def Let_def split: if_splits)
next
  case Lx_unknown
  then show ?thesis by (simp add: lexeme_dump_def Let_def)
qed

lemma lexeme_make_identifier_iff:
  "lx_tp (fst (lexeme_make km cm buffer kind ctx u span)) = Lx_identifier
   \<longleftrightarrow> kind = Lb_string \<and> (\<forall>t \<in> set km. fst t \<noteq> buffer)"
proof (cases "kind = Lb_string")
  case True
  have "find (\<lambda>t. buffer = fst t) km = None \<longleftrightarrow> (\<forall>t \<in> set km. fst t \<noteq> buffer)"
    by (auto simp: find_None_all)
  with True show ?thesis
    by (cases "find (\<lambda>t. buffer = fst t) km") (auto simp: lexeme_make_def)
next
  case False
  then show ?thesis
    by (cases kind) (auto simp: lexeme_make_def lexeme_blank_def Let_def
        split: option.splits prod.splits number_value.splits)
qed

section \<open>What the texts mean\<close>

text \<open>The text of every symbol, without the tags of the table.\<close>

fun symbol_text :: "character_type \<Rightarrow> string" where
  "symbol_text open_brace = ''{''" | "symbol_text close_brace = ''}''" | "symbol_text open_bracket = ''(''"
| "symbol_text close_bracket = '')''" | "symbol_text open_square = ''[''" | "symbol_text close_square = '']''"
| "symbol_text comma = '',''" | "symbol_text period = ''.''" | "symbol_text colon = '':''" | "symbol_text semicolon = '';''"
| "symbol_text equals = ''=''" | "symbol_text plus = ''+''" | "symbol_text binary_minus = ''-''" | "symbol_text unary_minus = ''-''"
| "symbol_text star = ''*''" | "symbol_text backslash = [CHR 0x5C]" | "symbol_text foreslash = ''/''" | "symbol_text tilde = ''~''"
| "symbol_text ampersand = ''&''" | "symbol_text circumflex = ''^''" | "symbol_text ampersat = ''@''"
| "symbol_text ellipsis = ''...''" | "symbol_text rightarrow = ''->''"

definition means_symbol :: "minus_context \<Rightarrow> string \<Rightarrow> character_type \<Rightarrow> bool" where
  "means_symbol ctx s ch \<longleftrightarrow> s = symbol_text ch \<and> (ch = unary_minus \<longrightarrow> ctx = Unary) \<and> (ch = binary_minus \<longrightarrow> ctx = Binary)"

text \<open>Numerals: hexadecimal ones start with \<open>0x\<close>, octal ones with \<open>0\<close>. Values are taken modulo \<open>2\<^sup>32\<close>.\<close>

definition numeral_value :: "nat \<Rightarrow> string \<Rightarrow> nat" where
  "numeral_value b ds = (\<Sum>i<length ds. digit_value (ds ! i) * b ^ (length ds - 1 - i))"

definition means_integer :: "string \<Rightarrow> u32 \<Rightarrow> bool" where
  "means_integer s z \<longleftrightarrow>
     (\<exists>ds. s = ''0x'' @ ds \<and> ds \<noteq> [] \<and> list_all isxdigit ds \<and> z = word_of_nat (numeral_value 16 ds))
     \<or> (\<exists>ds. s = CHR ''0'' # ds \<and> ds \<noteq> [] \<and> list_all isodigit ds \<and> z = word_of_nat (numeral_value 8 s))
     \<or> (s \<noteq> [] \<and> list_all isdigit s \<and> (hd s = CHR ''0'' \<longrightarrow> s = ''0'') \<and> z = word_of_nat (numeral_value 10 s))"

text \<open>Decimals: digits, then a fraction or an exponent or both.\<close>

definition float_text :: "string \<Rightarrow> string \<Rightarrow> string \<Rightarrow> bool" where
  "float_text ds fp ep \<longleftrightarrow> ds \<noteq> [] \<and> list_all isdigit ds
     \<and> (fp = [] \<or> (\<exists>fs. fp = CHR ''.'' # fs \<and> list_all isdigit fs))
     \<and> (ep = [] \<or> (\<exists>x sg es. ep = x # sg @ es \<and> (x = CHR ''e'' \<or> x = CHR ''E'') \<and> sg \<in> {[], ''+'', ''-''}
          \<and> es \<noteq> [] \<and> list_all isdigit es))"

definition means_decimal :: "string \<Rightarrow> bool" where
  "means_decimal s \<longleftrightarrow> (\<exists>ds fp ep. s = ds @ fp @ ep \<and> float_text ds fp ep \<and> fp @ ep \<noteq> [])"

lemma base_value_numeral: "base_value b ds = numeral_value b ds"
proof (induction ds rule: rev_induct)
  case Nil
  show ?case by (simp add: base_value_def numeral_value_def)
next
  case (snoc c ds)
  have "(\<Sum>i<length ds. digit_value ((ds @ [c]) ! i) * b ^ (length ds - i))
      = (\<Sum>i<length ds. b * (digit_value (ds ! i) * b ^ (length ds - 1 - i)))"
  proof (intro sum.cong refl)
    fix i assume "i \<in> {..<length ds}"
    then have "length ds - i = Suc (length ds - 1 - i)" by auto
    then show "digit_value ((ds @ [c]) ! i) * b ^ (length ds - i) = b * (digit_value (ds ! i) * b ^ (length ds - 1 - i))"
      using \<open>i \<in> {..<length ds}\<close> by (simp add: nth_append)
  qed
  then show ?case by (simp add: base_value_snoc snoc numeral_value_def sum_distrib_left)
qed

lemma symbols_texts:
  "list_all (\<lambda>t. stripped (fst t) = (symbol_text (fst (snd t)), fst (snd t) = unary_minus, fst (snd t) = binary_minus)) symbols"
  "list_all (\<lambda>t. snd (snd t) \<longleftrightarrow> fst (snd t) \<noteq> close_bracket) symbols"
  by code_simp+

lemma symbol_listed: "\<exists>t \<in> set symbols. fst (snd t) = ch"
  by (cases ch) (simp_all add: symbols_def)

lemma symbol_found:
  "find (\<lambda>t. symbol_matches b ctx (fst t)) symbols = Some t \<longleftrightarrow> t \<in> set symbols \<and> means_symbol ctx b (fst (snd t))"
proof -
  have m: "symbol_matches b ctx (fst t) \<longleftrightarrow> means_symbol ctx b (fst (snd t))" if "t \<in> set symbols" for t
    using symbols_texts(1) that by (auto simp: list_all_iff symbol_matches_stripped means_symbol_def)
  have "find P xs = Some x \<longleftrightarrow> x \<in> set xs \<and> P x"
    if "\<And>x y. x \<in> set xs \<Longrightarrow> y \<in> set xs \<Longrightarrow> P x \<Longrightarrow> P y \<Longrightarrow> x = y" for P :: "string \<times> character_type \<times> bool \<Rightarrow> bool" and xs x
  proof
    assume x: "x \<in> set xs \<and> P x"
    then obtain y where y: "find P xs = Some y" using find_None_all [of P xs] by blast
    with that x find_SomeD [OF y] show "find P xs = Some x" by metis
  qed (rule find_SomeD)
  from this [of symbols "\<lambda>t. symbol_matches b ctx (fst t)" t] symbols_match_unique m show ?thesis by blast
qed

lemma symbol_not_found:
  "find (\<lambda>t. symbol_matches b ctx (fst t)) symbols = None \<longleftrightarrow> (\<forall>ch. \<not> means_symbol ctx b ch)"
proof
  assume n: "find (\<lambda>t. symbol_matches b ctx (fst t)) symbols = None"
  show "\<forall>ch. \<not> means_symbol ctx b ch"
  proof
    fix ch
    obtain t where "t \<in> set symbols" "fst (snd t) = ch" using symbol_listed by blast
    then show "\<not> means_symbol ctx b ch" using symbol_found [of b ctx t] n by auto
  qed
next
  assume "\<forall>ch. \<not> means_symbol ctx b ch"
  then show "find (\<lambda>t. symbol_matches b ctx (fst t)) symbols = None" using symbol_found [of b ctx] by (metis not_Some_eq)
qed

lemma found_character: "str_find_from [c] s = None \<longleftrightarrow> c \<notin> set s"
  by (induction s) auto

lemma octal_digit: "isodigit c \<Longrightarrow> isdigit c" "isodigit CHR ''0''"
  by (simp_all add: isodigit_def digit_value_def cchar_defs)

lemma number_marks: "\<not> isdigit CHR ''x''" "\<not> isdigit CHR ''.''" "\<not> isdigit CHR ''e''" "\<not> isdigit CHR ''E''"
  "\<not> isdigit CHR ''+''" "\<not> isdigit CHR ''-''"
  by (simp_all add: cchar_defs)

text \<open>The three ways a number is read.\<close>

lemma classify_hex: "fst (classify_number (''0x'' @ ds)) = (if ds \<noteq> [] \<and> list_all isxdigit ds
    then Num_integer (word_of_nat (numeral_value 16 ds)) else Num_unknown)"
  by (simp add: classify_number_def scan_hex_def base_value_numeral)

lemma classify_octal:
  assumes "ds \<noteq> []" and "hd ds \<noteq> CHR ''x''" and "set ds \<inter> {CHR ''.'', CHR ''e'', CHR ''E''} = {}"
  shows "fst (classify_number (CHR ''0'' # ds)) = (if list_all isodigit ds
    then Num_integer (word_of_nat (numeral_value 8 (CHR ''0'' # ds))) else Num_unknown)"
  using assms by (cases ds) (auto simp: classify_number_def scan_oct_def base_value_numeral octal_digit found_character str_find_def)

lemma classify_decimal:
  assumes "hd s \<noteq> CHR ''0'' \<or> length s \<le> 1 \<or> hd (List.tl s) \<noteq> CHR ''x'' \<and> set (List.tl s) \<inter> {CHR ''.'', CHR ''e'', CHR ''E''} \<noteq> {}"
  shows "fst (classify_number s) = (if s \<noteq> [] \<and> list_all isdigit s then Num_integer (word_of_nat (numeral_value 10 s))
     else if scan_float s then Num_decimal s else Num_unknown)"
proof -
  have "\<not> (2 \<le> length s \<and> s ! 0 = CHR ''0'' \<and> s ! 1 = CHR ''x'')"
    "\<not> (1 < length s \<and> s ! 0 = CHR ''0'' \<and> str_find ''.'' s 1 = None \<and> str_find ''e'' s 1 = None \<and> str_find ''E'' s 1 = None)"
    using assms by (cases s; cases "List.tl s"; auto simp: str_find_def found_character)+
  then show ?thesis unfolding classify_number_def scan_dec_def base_value_numeral by (simp only: if_False) simp
qed

lemma number_cases:
  obtains (hex) ds where "s = ''0x'' @ ds"
  | (octal) ds where "s = CHR ''0'' # ds" "ds \<noteq> []" "hd ds \<noteq> CHR ''x''" "set ds \<inter> {CHR ''.'', CHR ''e'', CHR ''E''} = {}"
  | (decimal) "hd s \<noteq> CHR ''0'' \<or> length s \<le> 1 \<or> hd (List.tl s) \<noteq> CHR ''x'' \<and> set (List.tl s) \<inter> {CHR ''.'', CHR ''e'', CHR ''E''} \<noteq> {}"
proof (cases "hd s \<noteq> CHR ''0'' \<or> length s \<le> 1")
  case False
  then obtain ds where s: "s = CHR ''0'' # ds" "ds \<noteq> []" by (cases s) auto
  show ?thesis
  proof (cases "hd ds = CHR ''x''")
    case True
    then have "s = ''0x'' @ List.tl ds" using s by (cases ds) auto
    then show ?thesis by (rule that(1))
  next
    case False
    then show ?thesis using that(2) [OF s] that(3) s by (metis list.sel(3))
  qed
qed (use that(3) in blast)

lemma scanned_digits:
  assumes "list_all isdigit ds" and "r = [] \<or> \<not> isdigit (hd r)"
  shows "takeWhile isdigit (ds @ r) = ds" "dropWhile isdigit (ds @ r) = r"
proof -
  have "takeWhile isdigit r = [] \<and> dropWhile isdigit r = r" using assms(2) by (cases r) simp_all
  then show "takeWhile isdigit (ds @ r) = ds" "dropWhile isdigit (ds @ r) = r"
    using assms(1) by (simp_all add: list_all_iff)
qed

lemma exponent_text: "exponent_ok t \<longleftrightarrow> (\<exists>sg es. t = sg @ es \<and> sg \<in> {[], ''+'', ''-''} \<and> es \<noteq> [] \<and> list_all isdigit es)"
proof
  assume "exponent_ok t"
  then obtain x u where t: "t = x # u" by (cases t) (auto simp: exponent_ok_def)
  show "\<exists>sg es. t = sg @ es \<and> sg \<in> {[], ''+'', ''-''} \<and> es \<noteq> [] \<and> list_all isdigit es"
  proof (cases "x = CHR ''+'' \<or> x = CHR ''-''")
    case True
    with \<open>exponent_ok t\<close> t show ?thesis by (intro exI [of _ "[x]"] exI [of _ u]) (auto simp: exponent_ok_def)
  next
    case False
    with \<open>exponent_ok t\<close> t show ?thesis by (intro exI [of _ "[]"] exI [of _ t]) (auto simp: exponent_ok_def)
  qed
next
  assume "\<exists>sg es. t = sg @ es \<and> sg \<in> {[], ''+'', ''-''} \<and> es \<noteq> [] \<and> list_all isdigit es"
  then obtain sg es where t: "t = sg @ es" "sg \<in> {[], ''+'', ''-''}" "es \<noteq> []" "list_all isdigit es" by blast
  then obtain c cs where "es = c # cs" "isdigit c" by (cases es) auto
  with t number_marks show "exponent_ok t" by (auto simp: exponent_ok_def Let_def)
qed

lemma scan_float_text: "scan_float s \<longleftrightarrow> (\<exists>ds fp ep. s = ds @ fp @ ep \<and> float_text ds fp ep)"
proof
  let ?ds = "takeWhile isdigit s" and ?r = "dropWhile isdigit s"
  let ?e = "case ?r of [] \<Rightarrow> [] | c # t \<Rightarrow> if c = CHR ''.'' then dropWhile isdigit t else ?r"
  let ?f = "case ?r of [] \<Rightarrow> [] | c # t \<Rightarrow> if c = CHR ''.'' then c # takeWhile isdigit t else []"
  assume f: "scan_float s"
  have "s = ?ds @ ?r" by simp
  also have "?r = ?f @ ?e" by (cases ?r) (simp_all only: list.case append_Nil if_split, simp)
  finally have "s = ?ds @ ?f @ ?e" .
  moreover have "?e = [] \<or> (\<exists>x t. ?e = x # t \<and> (x = CHR ''e'' \<or> x = CHR ''E'') \<and> exponent_ok t)"
    using f unfolding scan_float_def Let_def by (cases ?e) simp_all
  then have "?e = [] \<or> (\<exists>x sg es. ?e = x # sg @ es \<and> (x = CHR ''e'' \<or> x = CHR ''E'') \<and> sg \<in> {[], ''+'', ''-''}
          \<and> es \<noteq> [] \<and> list_all isdigit es)"
    unfolding exponent_text by blast
  moreover have "?f = [] \<or> (\<exists>fs. ?f = CHR ''.'' # fs \<and> list_all isdigit fs)"
    by (auto split: list.split dest: set_takeWhileD simp: list_all_iff)
  moreover have "?ds \<noteq> []" "list_all isdigit ?ds"
    using f by (auto simp: scan_float_def Let_def list_all_iff dest: set_takeWhileD)
  ultimately show "\<exists>ds fp ep. s = ds @ fp @ ep \<and> float_text ds fp ep" unfolding float_text_def by blast
next
  assume "\<exists>ds fp ep. s = ds @ fp @ ep \<and> float_text ds fp ep"
  then obtain ds fp ep where s: "s = ds @ fp @ ep" and f: "float_text ds fp ep" by blast
  have e: "ep = [] \<or> (\<exists>x t. ep = x # t \<and> (x = CHR ''e'' \<or> x = CHR ''E'') \<and> exponent_ok t)"
  proof (cases "ep = []")
    case False
    then obtain x sg es where x: "ep = x # sg @ es" "x = CHR ''e'' \<or> x = CHR ''E''" "sg \<in> {[], ''+'', ''-''}" "es \<noteq> []"
      "list_all isdigit es" using f by (auto simp: float_text_def)
    then have "exponent_ok (sg @ es)" unfolding exponent_text by blast
    with x(1,2) show ?thesis by simp
  qed simp
  then have he: "ep = [] \<or> \<not> isdigit (hd ep)" "ep = [] \<or> hd ep \<noteq> CHR ''.''" using number_marks by auto
  have n: "ds \<noteq> []" using f by (simp add: float_text_def)
  show "scan_float s"
  proof (cases "fp = []")
    case True
    then have td: "takeWhile isdigit s = ds" "dropWhile isdigit s = ep"
      using s f he(1) scanned_digits [of ds ep] by (simp_all add: float_text_def)
    show ?thesis unfolding scan_float_def Let_def td using n e he(2) by (cases ep) auto
  next
    case False
    then obtain fs where fs: "fp = CHR ''.'' # fs" "list_all isdigit fs" using f by (auto simp: float_text_def)
    then have td: "takeWhile isdigit s = ds" "dropWhile isdigit s = CHR ''.'' # fs @ ep"
      using s f number_marks(2) scanned_digits [of ds "CHR ''.'' # fs @ ep"] by (simp_all add: float_text_def)
    have ep: "dropWhile isdigit (fs @ ep) = ep" using scanned_digits(2) [OF fs(2) he(1)] .
    have "scan_float s \<longleftrightarrow> (case ep of [] \<Rightarrow> True | c # t \<Rightarrow> (c = CHR ''e'' \<or> c = CHR ''E'') \<and> exponent_ok t)"
      using n by (simp add: scan_float_def td ep)
    then show ?thesis using e by auto
  qed
qed

lemma means_decimal_integer:
  assumes "hd s \<noteq> CHR ''0'' \<or> length s \<le> 1 \<or> hd (List.tl s) \<noteq> CHR ''x'' \<and> set (List.tl s) \<inter> {CHR ''.'', CHR ''e'', CHR ''E''} \<noteq> {}"
  shows "means_integer s z \<longleftrightarrow> s \<noteq> [] \<and> list_all isdigit s \<and> z = word_of_nat (numeral_value 10 s)"
proof -
  have "s \<noteq> ''0x'' @ ds" for ds using assms by auto
  moreover have "\<not> list_all isodigit ds" if "s = CHR ''0'' # ds" "ds \<noteq> []" for ds
  proof -
    have "hd s = CHR ''0''" "\<not> length s \<le> 1" "List.tl s = ds" using that by (simp_all add: Suc_le_eq)
    then obtain c where "c \<in> set ds" "c \<in> {CHR ''.'', CHR ''e'', CHR ''E''}" using assms by blast
    then show ?thesis using octal_digit(1) number_marks by (auto simp: list_all_iff)
  qed
  moreover have "s = ''0''" if s: "s \<noteq> []" "list_all isdigit s" "hd s = CHR ''0''"
  proof (cases "List.tl s = []")
    case False
    then have "\<not> length s \<le> 1" using s(1) by (cases s; cases "List.tl s") simp_all
    then obtain c where "c \<in> set (List.tl s)" "c \<in> {CHR ''.'', CHR ''e'', CHR ''E''}" using assms s(3) by blast
    moreover from this(1) have "c \<in> set s" by (meson list.set_sel(2) s(1))
    ultimately show ?thesis using s(2) number_marks by (auto simp: list_all_iff)
  qed (use s in \<open>cases s; simp\<close>)
  ultimately show ?thesis unfolding means_integer_def by blast
qed

lemma classified_integer: "fst (classify_number s) = Num_integer z \<longleftrightarrow> means_integer s z"
proof (cases s rule: number_cases)
  case (hex ds)
  then show ?thesis using classify_hex [of ds] by (auto simp: means_integer_def number_marks dest: octal_digit(1))
next
  case (octal ds)
  then show ?thesis using classify_octal [OF octal(2-4)] by (auto simp: means_integer_def)
next
  case decimal
  then show ?thesis using classify_decimal [OF decimal] means_decimal_integer [OF decimal] by auto
qed

lemma decimal_mark:
  assumes "s = ds @ fp @ ep" and "float_text ds fp ep" and "fp @ ep \<noteq> []"
  shows "set (List.tl s) \<inter> {CHR ''.'', CHR ''e'', CHR ''E''} \<noteq> {}" "hd (List.tl s) \<noteq> CHR ''x''" "\<not> list_all isdigit s"
proof -
  obtain c r where r: "fp @ ep = c # r" "c \<in> {CHR ''.'', CHR ''e'', CHR ''E''}"
    using assms(2,3) by (cases fp; cases ep) (auto simp: float_text_def)
  obtain d ds' where ds: "ds = d # ds'" "list_all isdigit ds'" using assms(2) by (cases ds) (auto simp: float_text_def)
  then have t: "List.tl s = ds' @ c # r" using assms(1) r(1) by simp
  then show "set (List.tl s) \<inter> {CHR ''.'', CHR ''e'', CHR ''E''} \<noteq> {}" using r(2) by auto
  show "hd (List.tl s) \<noteq> CHR ''x''" unfolding t using ds(2) r(2) number_marks by (cases ds') auto
  show "\<not> list_all isdigit s" using assms(1) r number_marks by (auto simp: list_all_iff)
qed

lemma classified_decimal: "fst (classify_number s) = Num_decimal d \<longleftrightarrow> d = s \<and> means_decimal s"
proof
  assume d: "fst (classify_number s) = Num_decimal d"
  show "d = s \<and> means_decimal s"
  proof (cases s rule: number_cases)
    case (hex ds)
    then show ?thesis using d classify_hex [of ds] by (simp split: if_splits)
  next
    case (octal ds)
    then show ?thesis using d classify_octal [OF octal(2-4)] by (simp split: if_splits)
  next
    case decimal
    then have s: "d = s" "\<not> (s \<noteq> [] \<and> list_all isdigit s)" "scan_float s"
      using d classify_decimal [OF decimal] by (simp_all split: if_splits)
    then obtain ds fp ep where f: "s = ds @ fp @ ep" "float_text ds fp ep" unfolding scan_float_text by blast
    then have "fp @ ep \<noteq> []" using s(2) by (auto simp: float_text_def)
    with s(1) f show ?thesis unfolding means_decimal_def by blast
  qed
next
  assume m: "d = s \<and> means_decimal s"
  then obtain ds fp ep where f: "s = ds @ fp @ ep" "float_text ds fp ep" "fp @ ep \<noteq> []" unfolding means_decimal_def by blast
  note k = decimal_mark [OF f]
  have "fst (classify_number s) = Num_decimal s"
    using classify_decimal [of s] k scan_float_text [of s] f by auto
  with m show "fst (classify_number s) = Num_decimal d" by simp
qed

section \<open>Properties\<close>

lemma lexeme_number:
  "lexeme_make km cm buffer Lb_number ctx u span =
     (let (v, log) = (fst (classify_number buffer), snd (snd (lexeme_make km cm buffer Lb_number ctx u span)))
      in (case v of Num_integer z \<Rightarrow> (lexeme_blank u span)\<lparr>lx_tp := Lx_integer, lx_z := Some z\<rparr>
          | Num_decimal d \<Rightarrow> (lexeme_blank u span)\<lparr>lx_tp := Lx_decimal, lx_d := Some d\<rparr>
          | Num_unknown \<Rightarrow> lexeme_blank u span, Binary, log))"
  by (auto simp: lexeme_make_def Let_def split: prod.split number_value.split)

lemmas lexeme_accessors = get_keyword_def get_symbol_def get_identifier_def get_integer_def get_decimal_def get_string_def

text \<open>C27: A lexeme has the value that its text means. For every text, kind, context and table of keywords without repetition, and every
  iteration order of the table of symbols: of the six values a lexeme can have, the lexeme holds the one of its type, when the
  text has a meaning of that type, and no other, and the accessors give it: the keyword listed for the text, the symbol
  written like the text, of the two minus signs the one of the context, the text itself for an identifier that is no keyword, the value of a
  decimal, hexadecimal or octal numeral modulo \<open>2\<^sup>32\<close>, a decimal number, or the string. A text without a meaning
  gives a lexeme of the unknown type, and only then an error is reported. The next minus sign is
  binary exactly after an identifier, a number and a closing bracket.\<close>

theorem lexeme_values_match_type:
  assumes "distinct (map fst km)" and "mset cm = mset symbols" and "lexeme_make km cm buffer kind ctx u span = (x, ctx', log)"
  shows "lexeme_wf x
    \<and> (\<forall>k. fst (get_keyword x) = Some k \<longleftrightarrow> kind = Lb_string \<and> (buffer, k) \<in> set km)
    \<and> (\<forall>s. fst (get_identifier x) = Some s \<longleftrightarrow> kind = Lb_string \<and> buffer \<notin> fst ` set km \<and> s = buffer)
    \<and> (\<forall>ch. fst (get_symbol x) = Some ch \<longleftrightarrow> kind = Lb_character \<and> means_symbol ctx buffer ch)
    \<and> (\<forall>z. fst (get_integer x) = Some z \<longleftrightarrow> kind = Lb_number \<and> means_integer buffer z)
    \<and> (\<forall>d. fst (get_decimal x) = Some d \<longleftrightarrow> kind = Lb_number \<and> means_decimal buffer \<and> d = buffer)
    \<and> (\<forall>s. fst (get_string x) = Some s \<longleftrightarrow> kind = Lb_string_literal \<and> s = buffer)
    \<and> (lx_tp x = Lx_unknown \<longleftrightarrow> (\<exists>d \<in> set log. dg_sev d = Sev_error))
    \<and> (ctx' = Binary \<longleftrightarrow> lx_tp x = Lx_identifier \<or> kind = Lb_number \<or> fst (get_symbol x) = Some close_bracket)"
proof -
  have e: "lexeme_wf x" "lx_tp x = Lx_unknown \<longleftrightarrow> (\<exists>d \<in> set log. dg_sev d = Sev_error)"
    using lexeme_make_wf [of km cm buffer kind ctx u span] lexeme_make_unknown_iff [of km cm buffer kind ctx u span]
    by (simp_all add: assms(3))
  show ?thesis
  proof (cases kind)
    case Lb_string
    have k: "(buffer, k) \<in> set km \<longleftrightarrow> map_of km buffer = Some k" for k using assms(1) by simp
    show ?thesis
    proof (cases "map_of km buffer")
      case None
      then have "find (\<lambda>t. buffer = fst t) km = None" by (force simp: find_None_all map_of_eq_None_iff)
      then have "x = (lexeme_blank u span)\<lparr>lx_tp := Lx_identifier, lx_id := Some buffer\<rparr>" "ctx' = Binary"
        using assms(3) Lb_string by (auto simp: lexeme_make_def)
      then show ?thesis using e Lb_string None k by (auto simp: lexeme_accessors map_of_eq_None_iff lexeme_blank_def)
    next
      case (Some k')
      then have m: "(buffer, k') \<in> set km" using k by blast
      then obtain t where t: "find (\<lambda>t. buffer = fst t) km = Some t" by (cases "find (\<lambda>t. buffer = fst t) km") (auto simp: find_None_all)
      then have "t \<in> set km" "fst t = buffer" using find_SomeD by fastforce+
      then have "snd t = k'" using m k by (metis Some option.inject prod.collapse)
      then have "x = (lexeme_blank u span)\<lparr>lx_tp := Lx_keyword, lx_k := Some k'\<rparr>" "ctx' = Unary"
        using assms(3) Lb_string t by (auto simp: lexeme_make_def)
      moreover have "buffer \<in> fst ` set km" using m by force
      ultimately show ?thesis using e Lb_string Some k by (auto simp: lexeme_accessors lexeme_blank_def)
    qed
  next
    case Lb_number
    then have n: "ctx' = Binary" "x = (case fst (classify_number buffer) of
        Num_integer z \<Rightarrow> (lexeme_blank u span)\<lparr>lx_tp := Lx_integer, lx_z := Some z\<rparr>
      | Num_decimal d \<Rightarrow> (lexeme_blank u span)\<lparr>lx_tp := Lx_decimal, lx_d := Some d\<rparr>
      | Num_unknown \<Rightarrow> lexeme_blank u span)"
      using lexeme_number [of km cm buffer ctx u span] assms(3) by (simp_all add: Let_def)
    then show ?thesis using e Lb_number classified_integer [of buffer] classified_decimal [of buffer]
      by (cases "fst (classify_number buffer)") (auto simp: lexeme_accessors lexeme_blank_def)
  next
    case Lb_character
    note eq = assms(3) [unfolded Lb_character lexeme_make_character_eq symbol_lookup_perm [OF assms(2)]]
    show ?thesis
    proof (cases "find (\<lambda>t. symbol_matches buffer ctx (fst t)) symbols")
      case None
      then have "x = lexeme_blank u span" "ctx' = Unary" using eq by simp_all
      then show ?thesis using e Lb_character None symbol_not_found by (auto simp: lexeme_accessors lexeme_blank_def)
    next
      case (Some t)
      then have x: "x = (lexeme_blank u span)\<lparr>lx_tp := Lx_character, lx_s := Some (fst (snd t))\<rparr>"
        "ctx' = (if snd (snd t) then Unary else Binary)" using eq by simp_all
      have t: "t \<in> set symbols" "means_symbol ctx buffer (fst (snd t))" using Some symbol_found by blast+
      have "means_symbol ctx buffer ch \<longleftrightarrow> ch = fst (snd t)" for ch
      proof
        assume m: "means_symbol ctx buffer ch"
        obtain t' where "t' \<in> set symbols" "fst (snd t') = ch" using symbol_listed by blast
        then have "find (\<lambda>t. symbol_matches buffer ctx (fst t)) symbols = Some t'" using m symbol_found by blast
        with Some \<open>fst (snd t') = ch\<close> show "ch = fst (snd t)" by simp
      qed (use t(2) in simp)
      moreover have "snd (snd t) \<longleftrightarrow> fst (snd t) \<noteq> close_bracket" using symbols_texts(2) t(1) by (simp add: list_all_iff)
      ultimately show ?thesis using e Lb_character x by (auto simp: lexeme_accessors lexeme_blank_def)
    qed
  next
    case Lb_string_literal
    then have "x = (lexeme_blank u span)\<lparr>lx_tp := Lx_string, lx_str := Some buffer\<rparr>" "ctx' = Unary"
      using assms(3) by (auto simp: lexeme_make_def)
    then show ?thesis using e Lb_string_literal by (auto simp: lexeme_accessors lexeme_blank_def)
  qed
qed

theorem lexeme_values_match_type_witness:
  "fst (get_integer (fst (lexeme_make [(''fields'', 0 :: nat)] (rev symbols) ''0x2A'' Lb_number Unary 1 (0, 4)))) = Some 42
   \<and> fst (get_symbol (fst (lexeme_make [(''fields'', 0 :: nat)] (rev symbols) ''-'' Lb_character Binary 1 (0, 4)))) = Some binary_minus"
proof -
  let ?km = "[(''fields'', 0 :: nat)]"
  have k: "distinct (map fst ?km)" "mset (rev symbols) = mset symbols" by simp_all
  have "means_integer ''0x2A'' 42"
    unfolding means_integer_def by (intro disjI1 exI [of _ "''2A''"]) (simp add: numeral_value_def, code_simp)
  moreover have "means_symbol Binary ''-'' binary_minus" by (simp add: means_symbol_def)
  moreover obtain x c log where x: "lexeme_make ?km (rev symbols) ''0x2A'' Lb_number Unary 1 (0, 4) = (x, c, log)" by (metis prod_cases3)
  moreover obtain y d log' where y: "lexeme_make ?km (rev symbols) ''-'' Lb_character Binary 1 (0, 4) = (y, d, log')" by (metis prod_cases3)
  ultimately show ?thesis using lexeme_values_match_type [OF k x] lexeme_values_match_type [OF k y] by simp
qed

text \<open>The classification of symbols does not depend on the iteration order of the unordered map
  that holds the character table, and the \<open>-\<close> sign is a unary minus exactly in a unary context: every
  ordering of the table gives the same lexeme, context and diagnostics.\<close>

theorem symbol_classification_order_independent:
  assumes "mset cm = mset symbols"
  shows "lexeme_make km cm b Lb_character ctx u span = lexeme_make km symbols b Lb_character ctx u span
    \<and> lx_s (fst (lexeme_make km cm ''-'' Lb_character ctx u span))
        = Some (if ctx = Unary then unary_minus else binary_minus)"
proof -
  have eq: "lexeme_make km cm b Lb_character ctx u span = lexeme_make km symbols b Lb_character ctx u span" for b
    unfolding lexeme_make_character_eq symbol_lookup_perm [OF assms] ..
  have "find (\<lambda>t. symbol_matches ''-'' Unary (fst t)) symbols = Some (''-@unary'', unary_minus, True)"
    "find (\<lambda>t. symbol_matches ''-'' Binary (fst t)) symbols = Some (''-@binary'', binary_minus, True)"
    by code_simp+
  then show ?thesis unfolding eq
    by (cases ctx) (simp_all add: lexeme_make_character_eq)
qed

theorem symbol_classification_order_independent_witness:
  "lexeme_make ([] :: nat keyword_map) (rev symbols) ''->'' Lb_character Unary 1 (0, 2)
     = lexeme_make [] symbols ''->'' Lb_character Unary 1 (0, 2)"
  using symbol_classification_order_independent [of "rev symbols" "[] :: nat keyword_map" "''->''" Unary 1 "(0, 2)"] by simp

text \<open>Decimal integers round-trip: the lexeme read from the decimal representation of a number is
  an integer lexeme with that value modulo \<open>2^32\<close> (so exactly that value when it fits), no diagnostic
  is reported, and a minus sign after it is binary.\<close>

theorem lexeme_integer_roundtrip:
  "lexeme_make km cm (dec_string n) Lb_number ctx u span
     = ((lexeme_blank u span)\<lparr>lx_tp := Lx_integer, lx_z := Some (word_of_nat n)\<rparr>, Binary, [])
   \<and> unat (word_of_nat n :: u32) = n mod 2 ^ 32"
  by (simp add: lexeme_make_def classify_number_dec_string unat_of_nat)

text \<open>Dumping an identifier lexeme is undefined behaviour: \<open>dump\<close> prints the string value of an
  identifier, which the constructor never sets (it sets the identifier value). Every other lexeme the
  constructor builds is printed.\<close>

theorem lexeme_dump_identifier_undefined:
  "lexeme_dump km cm pd (fst (lexeme_make km cm buffer kind ctx u span)) = Inl Undefined
   \<longleftrightarrow> kind = Lb_string \<and> map_of km buffer = None"
proof -
  have "map_of km buffer = None \<longleftrightarrow> (\<forall>t \<in> set km. fst t \<noteq> buffer)" by (auto simp: map_of_eq_None_iff)
  then show ?thesis using lexeme_dump_wf [OF lexeme_make_wf] lexeme_make_identifier_iff by metis
qed

end
