(* ===== verification/Finder.thy ===== *)
theory Finder
  imports Transport_Prelude
begin

text \<open>
  The list of search paths, \<open>translator/utilities/finder.cpp\<close>. Paths are strings; the operations of
  \<open>boost::filesystem\<close> and the process environment are the parameter record \<open>filesystem\<close>.
\<close>

record filesystem =
  fs_is_absolute :: "string \<Rightarrow> bool"
  fs_exists :: "string \<Rightarrow> bool"
  fs_canonical :: "string \<Rightarrow> exn + string"
  fs_join :: "string \<Rightarrow> string \<Rightarrow> string"
  fs_absolute :: "string \<Rightarrow> string"
  fs_parent :: "string \<Rightarrow> string option"
  fs_getenv :: "string \<Rightarrow> string option"
  fs_initial_path :: string

type_synonym finder = "string list"

definition finder_add :: "string \<Rightarrow> finder \<Rightarrow> finder" where
  "finder_add p paths = (if p \<in> set paths then paths else paths @ [p])"

text \<open>Splitting at every occurrence of a character, as the split iterator does: a string with \<open>k\<close>
  separators gives \<open>k + 1\<close> pieces, empty ones included.\<close>

fun split_at :: "char \<Rightarrow> string \<Rightarrow> string list" where
  "split_at sep [] = [[]]"
| "split_at sep (c # cs) =
     (case split_at sep cs of
        [] \<Rightarrow> [[c]]
      | w # ws \<Rightarrow> if c = sep then [] # w # ws else (c # w) # ws)"

definition finder_add_environment_variable ::
  "filesystem \<Rightarrow> string \<Rightarrow> string \<Rightarrow> finder \<Rightarrow> finder" where
  "finder_add_environment_variable fs var tail paths =
     (case fs_getenv fs var of
        None \<Rightarrow> paths
      | Some template_paths \<Rightarrow>
          foldl (\<lambda>ps path.
              let rpath = (if fs_is_absolute fs path then path else fs_absolute fs path)
              in finder_add (if tail \<noteq> [] then fs_join fs rpath tail else rpath) ps)
            paths (split_at CHR '':'' template_paths))"

definition finder_add_cwd :: "filesystem \<Rightarrow> finder \<Rightarrow> finder" where
  "finder_add_cwd fs paths = finder_add (fs_initial_path fs) paths"

fun finder_search :: "filesystem \<Rightarrow> string \<Rightarrow> string list \<Rightarrow> exn + string option" where
  "finder_search fs leaf [] = Inr None"
| "finder_search fs leaf (p # ps) =
     (let file = fs_join fs p leaf
      in if fs_exists fs file then bindE (fs_canonical fs file) (\<lambda>q. Inr (Some q))
         else finder_search fs leaf ps)"

definition finder_find :: "filesystem \<Rightarrow> finder \<Rightarrow> string \<Rightarrow> exn + string option" where
  "finder_find fs paths leaf =
     (if fs_is_absolute fs leaf then
        bindE (fs_canonical fs leaf) (\<lambda>fqpn.
          if fs_exists fs leaf then Inr (Some fqpn) else Inr None)
      else finder_search fs leaf paths)"

section \<open>Lemmas\<close>

lemma finder_add_distinct: "distinct ps \<Longrightarrow> distinct (finder_add p ps)"
  by (simp add: finder_add_def)

lemma set_finder_add [simp]: "set (finder_add p ps) = insert p (set ps)"
  by (auto simp: finder_add_def)

lemma finder_add_idem [simp]: "finder_add p (finder_add p ps) = finder_add p ps"
  by (simp add: finder_add_def)

lemma finder_add_env_distinct:
  "distinct ps \<Longrightarrow> distinct (finder_add_environment_variable fs var tail ps)"
proof -
  have "distinct ps \<Longrightarrow> distinct (foldl (\<lambda>ps path.
      let rpath = (if fs_is_absolute fs path then path else fs_absolute fs path)
      in finder_add (if tail \<noteq> [] then fs_join fs rpath tail else rpath) ps) ps xs)" for xs
    by (induction xs arbitrary: ps) (auto simp: finder_add_distinct Let_def)
  then show "distinct ps \<Longrightarrow> ?thesis"
    by (simp add: finder_add_environment_variable_def split: option.splits)
qed

lemma split_at_nonempty [simp]: "split_at sep s \<noteq> []"
  by (induction s) (auto split: list.splits)

lemma split_at_join: "concat (map (\<lambda>w. sep # w) (split_at sep s)) = sep # s"
  by (induction s) (auto split: list.splits)

lemma split_at_pieces: "w \<in> set (split_at sep s) \<Longrightarrow> sep \<notin> set w"
  by (induction s arbitrary: w) (auto split: list.splits if_splits)

lemma finder_search_None:
  "(\<forall>p \<in> set ps. \<not> fs_exists fs (fs_join fs p leaf)) \<Longrightarrow> finder_search fs leaf ps = Inr None"
  by (induction ps) (auto simp: Let_def)

lemma finder_search_Some:
  "finder_search fs leaf ps = Inr (Some q) \<Longrightarrow>
   \<exists>as p bs. ps = as @ p # bs \<and> (\<forall>a \<in> set as. \<not> fs_exists fs (fs_join fs a leaf))
     \<and> fs_exists fs (fs_join fs p leaf) \<and> fs_canonical fs (fs_join fs p leaf) = Inr q"
proof (induction ps)
  case (Cons p ps)
  show ?case
  proof (cases "fs_exists fs (fs_join fs p leaf)")
    case True
    with Cons.prems have "fs_canonical fs (fs_join fs p leaf) = Inr q"
      by (auto simp: Let_def bindE_eq_Inr)
    with True show ?thesis
      by - (rule exI [of _ "[]"], rule exI [of _ p], rule exI [of _ ps], simp)
  next
    case False
    with Cons obtain as p' bs where "ps = as @ p' # bs" "\<forall>a \<in> set as. \<not> fs_exists fs (fs_join fs a leaf)"
      "fs_exists fs (fs_join fs p' leaf)" "fs_canonical fs (fs_join fs p' leaf) = Inr q"
      by (auto simp: Let_def)
    with False show ?thesis
      by - (rule exI [of _ "p # as"], rule exI [of _ p'], rule exI [of _ bs], simp)
  qed
qed simp

text \<open>A relative file name resolves to the canonical form of the first search path under which it
  exists, and to nothing when it exists under none; adding a search path twice changes nothing.\<close>

theorem finder_find_first:
  assumes "\<not> fs_is_absolute fs leaf"
  shows "(finder_find fs paths leaf = Inr (Some q) \<longrightarrow>
      (\<exists>as p bs. paths = as @ p # bs \<and> (\<forall>a \<in> set as. \<not> fs_exists fs (fs_join fs a leaf))
        \<and> fs_exists fs (fs_join fs p leaf) \<and> fs_canonical fs (fs_join fs p leaf) = Inr q))
    \<and> ((\<forall>p \<in> set paths. \<not> fs_exists fs (fs_join fs p leaf)) \<longrightarrow> finder_find fs paths leaf = Inr None)
    \<and> finder_add p (finder_add p paths) = finder_add p paths"
  using assms finder_search_Some [of fs leaf paths q] finder_search_None [of paths fs leaf]
  by (simp add: finder_find_def)

text \<open>An example environment: one directory \<open>d\<close> that holds the file \<open>f\<close>; asking for the canonical form of
  a path that does not exist raises.\<close>

definition example_fs :: filesystem where
  "example_fs = \<lparr>fs_is_absolute = (\<lambda>p. p \<noteq> [] \<and> hd p = CHR ''/''), fs_exists = (\<lambda>p. p = ''/d/f''),
     fs_canonical = (\<lambda>p. if p = ''/d/f'' then Inr p else Inl (Filesystem_error p)),
     fs_join = (\<lambda>p q. p @ ''/'' @ q), fs_absolute = (\<lambda>p. ''/'' @ p), fs_parent = (\<lambda>p. Some ''/d''),
     fs_getenv = (\<lambda>v. None), fs_initial_path = ''/''\<rparr>"

theorem finder_find_first_witness:
  "finder_find example_fs [''/c'', ''/d''] ''f'' = Inr (Some ''/d/f'')
   \<and> (\<exists>as p bs. [''/c'', ''/d''] = as @ p # bs \<and> fs_canonical example_fs (fs_join example_fs p ''f'') = Inr ''/d/f'')"
proof -
  have na: "\<not> fs_is_absolute example_fs ''f''" by (simp add: example_fs_def)
  have f: "finder_find example_fs [''/c'', ''/d''] ''f'' = Inr (Some ''/d/f'')"
    by (simp add: finder_find_def example_fs_def)
  show ?thesis using finder_find_first [OF na, of "[''/c'', ''/d'']" "''/d/f''"] f by blast
qed

text \<open>An absolute path to a file that does not exist makes \<open>find\<close> throw instead of reporting that the
  file was not found, since the canonical form is computed before the existence test. The hypothesis is
  the documented behaviour of \<open>boost::filesystem::canonical\<close>.\<close>

theorem finder_absolute_missing_throws:
  assumes canonical: "\<And>p. \<not> fs_exists fs p \<Longrightarrow> fs_canonical fs p = Inl (Filesystem_error p)"
    and "fs_is_absolute fs leaf" and "\<not> fs_exists fs leaf"
  shows "finder_find fs paths leaf = Inl (Filesystem_error leaf)"
  using assms by (simp add: finder_find_def)

theorem finder_absolute_missing_throws_witness:
  "finder_find example_fs [''/d''] ''/d/g'' = Inl (Filesystem_error ''/d/g'')"
  by (rule finder_absolute_missing_throws) (auto simp: example_fs_def)

end
