(* ===== verification/Lexstream.thy ===== *)
theory Lexstream
  imports Lexeme Finder
begin

text \<open>
  The lexical analyser, \<open>translator/parser/lexstream.h\<close>: \<open>get_lexeme\<close> cuts the next lexeme off the
  character source, \<open>lexicalize\<close> turns a whole file into lexemes, and \<open>handle_directive\<close> descends into
  included files through \<open>parse\<close>.
\<close>

section \<open>Reading loops\<close>

text \<open>What bounds the reading: the characters still in the stream and the state of the source.\<close>

definition lf_measure :: "lexfile \<Rightarrow> nat" where
  "lf_measure lf = length (lf_stream lf) +
     (case lf_state lf of Lf_unready \<Rightarrow> 1 | Lf_ready \<Rightarrow> 2 | Lf_eof \<Rightarrow> 0 | Lf_error \<Rightarrow> 0)"

lemma lf_get_measure: "lf_get lf = ((c, st), lf') \<Longrightarrow> lf_measure lf' \<le> lf_measure lf"
  by (auto simp: lf_get_def lf_make_ready_def lf_measure_def Let_def
      split: lf_internal.splits if_splits list.splits option.splits)

lemma lf_get_status_state:
  "lf_get lf = ((c, st), lf') \<Longrightarrow> st = St_ok \<longleftrightarrow> lf_state lf' = Lf_ready"
  using lf_get_settles [of lf] by (cases "lf_state lf'") (auto simp: lf_get_def Let_def split: if_splits)

lemma lf_advance_measure:
  "lf_advance lf s = Inr (lf', s') \<Longrightarrow> lf_measure lf' \<le> lf_measure lf"
  by (auto simp: lf_advance_def lf_measure_def bindE_eq_Inr Let_def split: if_splits option.splits lf_internal.splits)

lemma lf_advance_measure_less:
  "lf_advance lf s = Inr (lf', s') \<Longrightarrow> lf_state lf = Lf_ready \<Longrightarrow> lf_measure lf' < lf_measure lf"
  by (auto simp: lf_advance_def lf_measure_def bindE_eq_Inr Let_def split: if_splits option.splits)

lemma lf_step_measure_less:
  "lf_get lf = ((c, St_ok), lf1) \<Longrightarrow> lf_advance lf1 s = Inr (lf2, s2) \<Longrightarrow> lf_measure lf2 < lf_measure lf"
  by (metis lf_advance_measure_less lf_get_measure lf_get_status_state order_less_le_trans)

lemma lf_step_measure_le:
  "lf_get lf = ((c, st), lf1) \<Longrightarrow> lf_advance lf1 s = Inr (lf2, s2) \<Longrightarrow> lf_measure lf2 \<le> lf_measure lf"
  by (metis lf_advance_measure lf_get_measure order_trans)

text \<open>The shape all reading loops share: look at the current character; while it is wanted and the
  source is ok, note it and move on. The result holds the character and status the loop ended at.\<close>

function scan_loop ::
  "('w \<Rightarrow> char \<Rightarrow> bool) \<Rightarrow> ('w \<Rightarrow> char \<Rightarrow> 'w) \<Rightarrow> 'w \<Rightarrow> lexfile \<Rightarrow> input_stack
   \<Rightarrow> exn + ('w \<times> char \<times> lf_status \<times> lexfile \<times> input_stack)" where
  "scan_loop P body w lf s =
     (case lf_get lf of ((c, st), lf1) \<Rightarrow>
        if P w c \<and> st = St_ok
        then bindE (lf_advance lf1 s) (\<lambda>(lf2, s2). scan_loop P body (body w c) lf2 s2)
        else Inr (w, c, st, lf1, s))"
  by pat_completeness auto
termination
  by (relation "measure (\<lambda>(P, body, w, lf, s). lf_measure lf)") (auto dest: lf_step_measure_less [OF sym])

declare scan_loop.simps [simp del]

lemma scan_loop_measure:
  "scan_loop P body w lf s = Inr (w', c, st, lf', s') \<Longrightarrow>
   lf_measure lf' \<le> lf_measure lf \<and> (st = St_ok \<longleftrightarrow> lf_state lf' = Lf_ready)"
proof (induction P body w lf s rule: scan_loop.induct)
  case (1 P body w lf s)
  obtain c0 st0 lf1 where g: "lf_get lf = ((c0, st0), lf1)" by (metis prod.exhaust)
  show ?case
  proof (cases "P w c0 \<and> st0 = St_ok")
    case True
    with 1(2) g obtain lf2 s2 where a: "lf_advance lf1 s = Inr (lf2, s2)"
      and r: "scan_loop P body (body w c0) lf2 s2 = Inr (w', c, st, lf', s')"
      by (subst (asm) scan_loop.simps) (auto simp: bindE_eq_Inr)
    from 1(1) [OF g [symmetric] refl True a refl r] lf_step_measure_less g a True show ?thesis
      by (meson less_or_eq_imp_le order_trans)
  next
    case False
    with 1(2) g show ?thesis
      by (subst (asm) scan_loop.simps) (auto dest: lf_get_measure lf_get_status_state)
  qed
qed

lemma comment_measure:
  assumes "lf_get lf = ((c, st), lf1)" and "lf_advance lf1 s = Inr (lf2, s2)"
    and "scan_loop P b w lf2 s2 = Inr (w', c', St_ok, lf3, s3)" and "lf_advance lf3 s3 = Inr (lf4, s4)"
  shows "lf_measure lf4 < lf_measure lf"
proof -
  have "lf_measure lf2 \<le> lf_measure lf" using lf_step_measure_le assms(1,2) by blast
  moreover have "lf_measure lf3 \<le> lf_measure lf2" "lf_state lf3 = Lf_ready"
    using scan_loop_measure [OF assms(3)] by auto
  moreover have "lf_measure lf4 < lf_measure lf3"
    using lf_advance_measure_less assms(4) calculation(3) by blast
  ultimately show ?thesis by linarith
qed

lemma scan_loop_settles:
  "scan_loop P body w lf s = Inr (w', c, st, lf', s') \<Longrightarrow> lf_state lf' \<noteq> Lf_unready"
proof (induction P body w lf s rule: scan_loop.induct)
  case (1 P body w lf s)
  obtain c0 st0 lf1 where g: "lf_get lf = ((c0, st0), lf1)" by (metis prod.exhaust)
  show ?case
  proof (cases "P w c0 \<and> st0 = St_ok")
    case True
    with 1(2) g obtain lf2 s2 where a: "lf_advance lf1 s = Inr (lf2, s2)"
      and r: "scan_loop P body (body w c0) lf2 s2 = Inr (w', c, st, lf', s')"
      by (subst (asm) scan_loop.simps) (auto simp: bindE_eq_Inr)
    from 1(1) [OF g [symmetric] refl True a refl r] show ?thesis .
  next
    case False
    with 1(2) g lf_get_settles [of lf] show ?thesis
      by (subst (asm) scan_loop.simps) auto
  qed
qed

text \<open>White space and comments.\<close>

function skip_white :: "lexfile \<Rightarrow> input_stack \<Rightarrow> exn + (char \<times> lf_status \<times> lexfile \<times> input_stack)" where
  "skip_white lf s =
     (case lf_get lf of ((c, st), lf1) \<Rightarrow>
        if c = CHR ''%'' then
          bindE (lf_advance lf1 s) (\<lambda>(lf2, s2).
            bindE (scan_loop (\<lambda>_ c. c \<noteq> NL) (\<lambda>_ _. ()) () lf2 s2) (\<lambda>(_, c', st', lf3, s3).
              bindE (lf_advance lf3 s3) (\<lambda>(lf4, s4).
                if st' = St_ok then skip_white lf4 s4 else Inr (c', st', lf4, s4))))
        else if c = CHR '' '' \<or> c = TAB \<or> c = NL then
          bindE (lf_advance lf1 s) (\<lambda>(lf2, s2).
            if st = St_ok then skip_white lf2 s2 else Inr (c, st, lf2, s2))
        else Inr (c, st, lf1, s))"
  by pat_completeness auto
termination
  apply (relation "measure (\<lambda>(lf, s). lf_measure lf)")
  subgoal by simp
  subgoal by (auto intro: comment_measure [OF sym])
  subgoal by (auto dest: lf_step_measure_less [OF sym])
  done

declare skip_white.simps [simp del]

section \<open>Cutting off one lexeme\<close>

type_synonym lex_result = "exn + (lexeme_buffer \<times> lexfile \<times> input_stack \<times> diag_log)"

definition ctx_start :: "lexeme_buffer \<Rightarrow> nat" where
  "ctx_start w = (case lb_context w of None \<Rightarrow> 0 | Some (l, p) \<Rightarrow> p)"

definition ident_start :: "char \<Rightarrow> bool" where
  "ident_start c \<longleftrightarrow> isalpha c \<or> c = CHR ''_'' \<or> c = CHR ''$''"

definition ident_char :: "char \<Rightarrow> bool" where
  "ident_char c \<longleftrightarrow> isalnum c \<or> c = CHR ''_'' \<or> c = CHR ''$''"

definition lex_identifier :: "char \<Rightarrow> lexeme_buffer \<Rightarrow> lexfile \<Rightarrow> input_stack \<Rightarrow> lex_result" where
  "lex_identifier c w lf s =
     bindE (lf_advance lf s) (\<lambda>(lf1, s1).
       bindE (scan_loop (\<lambda>_. ident_char) (\<lambda>w c. lb_append_char c w) (lb_assign_char c w) lf1 s1)
         (\<lambda>(w', c', st', lf2, s2). Inr (w'\<lparr>lb_kind := Some Lb_string\<rparr>, lf2, s2, [])))"

text \<open>The flags of the number loop: a decimal point was seen, the number is hexadecimal, an exponent
  sign may follow.\<close>

record num_flags =
  nf_dot :: bool
  nf_hex :: bool
  nf_eng :: bool

definition num_wanted :: "num_flags \<Rightarrow> char \<Rightarrow> bool" where
  "num_wanted f c \<longleftrightarrow>
     isdigit c
     \<or> (\<not> nf_dot f \<and> c = CHR ''.'')
     \<or> (\<not> nf_hex f \<and> \<not> nf_dot f \<and> c = CHR ''x'')
     \<or> (nf_hex f \<and> (c = CHR ''a'' \<or> c = CHR ''b'' \<or> c = CHR ''c'' \<or> c = CHR ''d'' \<or> c = CHR ''e'' \<or> c = CHR ''f''
          \<or> c = CHR ''A'' \<or> c = CHR ''B'' \<or> c = CHR ''D'' \<or> c = CHR ''E'' \<or> c = CHR ''F''))
     \<or> (\<not> nf_hex f \<and> (c = CHR ''e'' \<or> c = CHR ''E''))
     \<or> (nf_eng f \<and> (c = CHR ''+'' \<or> c = CHR ''-''))"

definition num_note :: "num_flags \<Rightarrow> char \<Rightarrow> num_flags" where
  "num_note f c =
     (let hex = (if c = CHR ''x'' then True else nf_hex f)
      in \<lparr>nf_dot = (if c = CHR ''.'' then True else nf_dot f), nf_hex = hex,
          nf_eng = ((c = CHR ''e'' \<or> c = CHR ''E'') \<and> \<not> hex)\<rparr>)"

definition num_start :: num_flags where
  "num_start = \<lparr>nf_dot = False, nf_hex = False, nf_eng = False\<rparr>"

definition lex_number :: "char \<Rightarrow> lexeme_buffer \<Rightarrow> lexfile \<Rightarrow> input_stack \<Rightarrow> lex_result" where
  "lex_number c w lf s =
     bindE (lf_advance lf s) (\<lambda>(lf1, s1).
       bindE (scan_loop (\<lambda>(f, w) c. num_wanted f c) (\<lambda>(f, w) c. (num_note f c, lb_append_char c w))
                (num_start, lb_assign_char c w) lf1 s1)
         (\<lambda>((f, w'), c', st', lf2, s2). Inr (w'\<lparr>lb_kind := Some Lb_number\<rparr>, lf2, s2, [])))"

definition lex_minus :: "char \<Rightarrow> lexeme_buffer \<Rightarrow> lexfile \<Rightarrow> input_stack \<Rightarrow> lex_result" where
  "lex_minus c w lf s =
     bindE (lf_advance lf s) (\<lambda>(lf1, s1).
       case lf_get lf1 of ((c1, st1), lf2) \<Rightarrow>
         if c1 = CHR ''>'' \<and> st1 = St_ok then
           bindE (lf_advance lf2 s1) (\<lambda>(lf3, s3).
             Inr ((lb_append_char c1 (lb_assign_char c w))\<lparr>lb_kind := Some Lb_character\<rparr>, lf3, s3, []))
         else Inr ((lb_assign_char c w)\<lparr>lb_kind := Some Lb_character\<rparr>, lf2, s1, []))"

definition lex_dot :: "char \<Rightarrow> lexeme_buffer \<Rightarrow> lexfile \<Rightarrow> input_stack \<Rightarrow> lex_result" where
  "lex_dot c w lf s =
     bindE (lf_advance lf s) (\<lambda>(lf1, s1).
       case lf_get lf1 of ((c1, st1), lf2) \<Rightarrow>
         if c1 = CHR ''.'' \<and> st1 = St_ok then
           bindE (lf_advance lf2 s1) (\<lambda>(lf3, s3).
             let w1 = lb_append_char c1 (lb_assign_char c w) in
             case lf_get lf3 of ((c2, st2), lf4) \<Rightarrow>
               if c2 = CHR ''.'' \<and> st2 = St_ok then
                 bindE (lf_advance lf4 s3) (\<lambda>(lf5, s5).
                   Inr ((lb_append_char c2 w1)\<lparr>lb_kind := Some Lb_character\<rparr>, lf5, s5, []))
               else Inr ((lb_append_char CHR ''.'' w1)\<lparr>lb_kind := Some Lb_character\<rparr>, lf4, s3,
                 [Diag Sev_error ''ERROR_EXPECTED_ELLIPSIS'' [] (ctx_start w) (lf_char_pos lf4)]))
         else Inr ((lb_assign_char c w)\<lparr>lb_kind := Some Lb_character\<rparr>, lf2, s1, []))"

definition lex_string :: "lexeme_buffer \<Rightarrow> lexfile \<Rightarrow> input_stack \<Rightarrow> lex_result" where
  "lex_string w lf s =
     bindE (lf_advance lf s) (\<lambda>(lf1, s1).
       bindE (scan_loop (\<lambda>_ c. c \<noteq> DQUOTE) (\<lambda>w c. lb_append_char c w) w lf1 s1)
         (\<lambda>(w', c', st', lf2, s2).
           if c' = DQUOTE then
             bindE (lf_advance lf2 s2) (\<lambda>(lf3, s3). Inr (w'\<lparr>lb_kind := Some Lb_string_literal\<rparr>, lf3, s3, []))
           else Inr (w'\<lparr>lb_kind := Some Lb_string_literal\<rparr>, lf2, s2,
             [Diag Sev_error ''ERROR_EXPECTED_CLOSE_QUOTE'' [] (ctx_start w) (lf_char_pos lf2)])))"

definition lex_other :: "char \<Rightarrow> lexeme_buffer \<Rightarrow> lexfile \<Rightarrow> input_stack \<Rightarrow> lex_result" where
  "lex_other c w lf s =
     bindE (lf_advance lf s) (\<lambda>(lf1, s1).
       Inr ((lb_assign_char c w)\<lparr>lb_kind := Some Lb_character\<rparr>, lf1, s1, []))"

definition lex_body :: "char \<Rightarrow> lexeme_buffer \<Rightarrow> lexfile \<Rightarrow> input_stack \<Rightarrow> lex_result" where
  "lex_body c w lf s =
     (if ident_start c then lex_identifier c w lf s
      else if isdigit c then lex_number c w lf s
      else if c = CHR ''-'' then lex_minus c w lf s
      else if c = CHR ''.'' then lex_dot c w lf s
      else if c = DQUOTE then lex_string w lf s
      else lex_other c w lf s)"

definition get_lexeme :: "lexfile \<Rightarrow> input_stack \<Rightarrow> lex_result" where
  "get_lexeme lf s =
     bindE (skip_white lf s) (\<lambda>(c, st, lf1, s1).
       if st \<noteq> St_ok then Inr (lb_new, lf1, s1, [])
       else bindE (lf_get_current_line lf1 s1) (\<lambda>line.
         bindE (lex_body c (lb_new\<lparr>lb_context := Some (line, lf_char_pos lf1)\<rparr>) lf1 s1)
           (\<lambda>(w, lf2, s2, log). Inr (w\<lparr>lb_end_pos := lf_char_pos lf2\<rparr>, lf2, s2, log))))"

section \<open>Lexing files\<close>

text \<open>What does not change while a translation unit is read: the tables, the file system, the files'
  contents and the line limit.\<close>

record ('k, 'ch) lex_env =
  le_keywords :: "'k keyword_map"
  le_symbols :: "'ch character_map"
  le_fs :: filesystem
  le_files :: "string \<Rightarrow> byte_stream"
  le_max_lines :: "nat option"

record ('k, 'ch) lexstream =
  ls_paths :: finder
  ls_stack :: input_stack
  ls_lexemes :: "('k, 'ch) lexeme list"
  ls_ptr :: "nat option"
  ls_unique :: nat
  ls_log :: diag_log

definition ls_report :: "severity \<Rightarrow> msg_id \<Rightarrow> lexeme_buffer \<Rightarrow> ('k, 'ch) lexstream \<Rightarrow> ('k, 'ch) lexstream" where
  "ls_report sev m w ls =
     ls\<lparr>ls_log := ls_log ls @ [Diag sev m (lb_buffer w) (ctx_start w) (lb_end_pos w)]\<rparr>"

text \<open>\<open>handle_directive\<close>, given what parses an included file. At the end of the input the buffers it
  looks at have an indeterminate kind or context.\<close>

definition handle_directive ::
  "(string \<Rightarrow> ('k, 'ch) lexstream \<Rightarrow> exn + (bool \<times> ('k, 'ch) lexstream))
   \<Rightarrow> lexfile \<Rightarrow> ('k, 'ch) lexstream \<Rightarrow> exn + (lexfile \<times> ('k, 'ch) lexstream)" where
  "handle_directive parse lf ls =
     bindE (get_lexeme lf (ls_stack ls)) (\<lambda>(word, lf1, s1, log1).
       let ls1 = ls\<lparr>ls_stack := s1, ls_log := ls_log ls @ log1\<rparr> in
       if lb_buffer word = ''include'' then
         bindE (get_lexeme lf1 s1) (\<lambda>(file, lf2, s2, log2).
           let ls2 = ls1\<lparr>ls_stack := s2, ls_log := ls_log ls1 @ log2\<rparr> in
           case lb_kind file of
             None \<Rightarrow> Inl Undefined
           | Some k \<Rightarrow>
               if k \<noteq> Lb_string_literal
               then Inr (lf2, ls_report Sev_error ''ERROR_INCLUDE_DIRECTIVE'' word ls2)
               else bindE (parse (lb_buffer file) ls2) (\<lambda>(found, ls3).
                 if \<not> found then Inr (lf2, ls_report Sev_error ''ERROR_INCLUDE_FILE'' file ls3)
                 else Inr (lf2, ls3)))
       else (case lb_context word of
               None \<Rightarrow> Inl Undefined
             | Some _ \<Rightarrow> Inr (lf1, ls_report Sev_error ''ERROR_UNKNOWN_DIRECTIVE'' word ls1)))"

definition push_lexeme ::
  "('k, 'ch) lex_env \<Rightarrow> lexeme_buffer \<Rightarrow> lb_kind \<Rightarrow> minus_context \<Rightarrow> ('k, 'ch) lexstream
   \<Rightarrow> ('k, 'ch) lexstream \<times> minus_context" where
  "push_lexeme env word k context ls =
     (let (x, context', log) = lexeme_make (le_keywords env) (le_symbols env) (lb_buffer word) k context
                                 (ls_unique ls) (ctx_start word, lb_end_pos word)
      in (ls\<lparr>ls_lexemes := ls_lexemes ls @ [x], ls_unique := Suc (ls_unique ls), ls_log := ls_log ls @ log\<rparr>,
          context'))"

section \<open>Progress\<close>

lemma lex_dot_measure:
  assumes "lex_dot c w lf s = Inr (w', lf', s', log)" and a: "lf_advance lf s = Inr (lf1, s1)"
  shows "lf_measure lf' \<le> lf_measure lf1"
proof -
  obtain c1 st1 lf2 where g1: "lf_get lf1 = ((c1, st1), lf2)" by (metis prod.exhaust)
  show ?thesis
  proof (cases "c1 = CHR ''.'' \<and> st1 = St_ok")
    case False
    with assms(1) a g1 have "lf' = lf2" by (auto simp: lex_dot_def)
    with g1 show ?thesis using lf_get_measure by blast
  next
    case True
    with assms(1) a g1 obtain lf3 s3 where a3: "lf_advance lf2 s1 = Inr (lf3, s3)"
      by (auto simp: lex_dot_def bindE_eq_Inr)
    obtain c2 st2 lf4 where g2: "lf_get lf3 = ((c2, st2), lf4)" by (metis prod.exhaust)
    have "lf' = lf4 \<or> (\<exists>s5. lf_advance lf4 s3 = Inr (lf', s5))"
      using assms(1) a g1 True a3 g2 by (auto simp: lex_dot_def bindE_eq_Inr Let_def split: if_splits)
    moreover have "lf_measure lf4 \<le> lf_measure lf1"
      using g1 g2 a3 by (meson lf_get_measure lf_step_measure_le order_trans)
    ultimately show ?thesis using lf_advance_measure order_trans by blast
  qed
qed

lemma lex_minus_measure:
  assumes "lex_minus c w lf s = Inr (w', lf', s', log)" and a: "lf_advance lf s = Inr (lf1, s1)"
  shows "lf_measure lf' \<le> lf_measure lf1"
proof -
  obtain c1 st1 lf2 where g1: "lf_get lf1 = ((c1, st1), lf2)" by (metis prod.exhaust)
  have "lf' = lf2 \<or> (\<exists>s5. lf_advance lf2 s1 = Inr (lf', s5))"
    using assms(1) a g1 by (auto simp: lex_minus_def bindE_eq_Inr split: if_splits)
  then show ?thesis using g1 lf_advance_measure lf_get_measure order_trans by blast
qed

lemma lex_scans_measure:
  "lex_identifier c w lf s = Inr (w', lf', s', log) \<Longrightarrow> lf_advance lf s = Inr (lf1, s1) \<Longrightarrow> lf_measure lf' \<le> lf_measure lf1"
  "lex_number c w lf s = Inr (w', lf', s', log) \<Longrightarrow> lf_advance lf s = Inr (lf1, s1) \<Longrightarrow> lf_measure lf' \<le> lf_measure lf1"
  "lex_string w lf s = Inr (w', lf', s', log) \<Longrightarrow> lf_advance lf s = Inr (lf1, s1) \<Longrightarrow> lf_measure lf' \<le> lf_measure lf1"
  by (auto simp: lex_identifier_def lex_number_def lex_string_def bindE_eq_Inr
      dest!: scan_loop_measure lf_advance_measure split: if_splits)

lemma lex_body_measure:
  assumes "lex_body c w lf s = Inr (w', lf', s', log)" and "lf_state lf = Lf_ready"
  shows "lf_measure lf' < lf_measure lf"
proof -
  obtain lf1 s1 where a: "lf_advance lf s = Inr (lf1, s1)"
    using assms(1)
    by (auto simp: lex_body_def lex_identifier_def lex_number_def lex_minus_def lex_dot_def
        lex_string_def lex_other_def bindE_eq_Inr split: if_splits)
  have "lf_measure lf' \<le> lf_measure lf1"
    using assms(1) lex_dot_measure [OF _ a] lex_minus_measure [OF _ a] lex_scans_measure [OF _ a]
    by (auto simp: lex_body_def lex_other_def a split: if_splits)
  then show ?thesis using lf_advance_measure_less [OF a assms(2)] by simp
qed

lemma skip_white_measure:
  "skip_white lf s = Inr (c, st, lf', s') \<Longrightarrow>
   lf_measure lf' \<le> lf_measure lf \<and> (st = St_ok \<longrightarrow> lf_state lf' = Lf_ready)
   \<and> (st \<noteq> St_ok \<longrightarrow> lf_state lf' = Lf_eof \<or> lf_state lf' = Lf_error)"
proof (induction lf s rule: skip_white.induct)
  case (1 lf s)
  obtain c0 st0 lf1 where g: "lf_get lf = ((c0, st0), lf1)" by (metis prod.exhaust)
  note settle = lf_get_status_state [OF g] lf_get_settles [of lf, unfolded g, simplified]
  consider (comment) "c0 = CHR ''%''" | (white) "c0 \<noteq> CHR ''%''" "c0 = CHR '' '' \<or> c0 = TAB \<or> c0 = NL"
    | (stop) "c0 \<noteq> CHR ''%''" "\<not> (c0 = CHR '' '' \<or> c0 = TAB \<or> c0 = NL)" by blast
  then show ?case
  proof cases
    case stop
    with 1(3) g have "lf' = lf1" "st = st0" by (subst (asm) skip_white.simps, auto)+
    then show ?thesis using lf_get_measure [OF g] settle by (cases "lf_state lf1") auto
  next
    case white
    with 1(3) g obtain lf2 s2 where a: "lf_advance lf1 s = Inr (lf2, s2)"
      and r: "(if st0 = St_ok then skip_white lf2 s2 else Inr (c0, st0, lf2, s2)) = Inr (c, st, lf', s')"
      by (subst (asm) skip_white.simps) (auto simp: bindE_eq_Inr)
    show ?thesis
    proof (cases "st0 = St_ok")
      case True
      with r 1(2) [OF g [symmetric] refl white a refl True] lf_step_measure_le [OF g a] show ?thesis by auto
    next
      case False
      then have "lf_state lf1 = Lf_eof \<or> lf_state lf1 = Lf_error"
        using settle by (cases "lf_state lf1") auto
      then have "lf2 = lf1" using a by (auto simp: lf_advance_def)
      with False r lf_step_measure_le [OF g a] \<open>lf_state lf1 = Lf_eof \<or> lf_state lf1 = Lf_error\<close>
      show ?thesis by auto
    qed
  next
    case comment
    with 1(3) g obtain lf2 s2 c' st' lf3 s3 lf4 s4 where a: "lf_advance lf1 s = Inr (lf2, s2)"
      and sc: "scan_loop (\<lambda>_ c. c \<noteq> NL) (\<lambda>_ _. ()) () lf2 s2 = Inr ((), c', st', lf3, s3)"
      and a3: "lf_advance lf3 s3 = Inr (lf4, s4)"
      and r: "(if st' = St_ok then skip_white lf4 s4 else Inr (c', st', lf4, s4)) = Inr (c, st, lf', s')"
      by (subst (asm) skip_white.simps) (auto simp: bindE_eq_Inr)
    have m: "lf_measure lf4 \<le> lf_measure lf"
      using lf_step_measure_le [OF g a] scan_loop_measure [OF sc] lf_advance_measure [OF a3] by simp
    show ?thesis
    proof (cases "st' = St_ok")
      case True
      with r 1(1) [OF g [symmetric] refl comment a refl sc refl refl refl refl a3 refl True] m
      show ?thesis by auto
    next
      case False
      have "lf_state lf3 = Lf_eof \<or> lf_state lf3 = Lf_error"
        using scan_loop_settles [OF sc] scan_loop_measure [OF sc] False by (cases "lf_state lf3") auto
      then have "lf4 = lf3" using a3 by (auto simp: lf_advance_def)
      with False r m \<open>lf_state lf3 = Lf_eof \<or> lf_state lf3 = Lf_error\<close> show ?thesis by auto
    qed
  qed
qed

lemma get_lexeme_measure:
  assumes "get_lexeme lf s = Inr (w, lf', s', log)"
  shows "lf_measure lf' \<le> lf_measure lf"
    and "lb_buffer w \<noteq> [] \<Longrightarrow> lf_measure lf' < lf_measure lf"
    and "lf_measure lf' < lf_measure lf \<or> lf_get_state lf' \<noteq> St_ok"
proof -
  obtain c st lf1 s1 where sk: "skip_white lf s = Inr (c, st, lf1, s1)"
    using assms by (auto simp: get_lexeme_def bindE_eq_Inr)
  note m = skip_white_measure [OF sk]
  have "lf_measure lf' \<le> lf_measure lf \<and> (lb_buffer w \<noteq> [] \<longrightarrow> lf_measure lf' < lf_measure lf)
     \<and> (lf_measure lf' < lf_measure lf \<or> lf_get_state lf' \<noteq> St_ok)"
  proof (cases "st = St_ok")
    case False
    with assms sk m show ?thesis by (auto simp: get_lexeme_def lf_get_state_def lb_new_def)
  next
    case True
    with assms sk obtain w0 v l where b: "lex_body c w0 lf1 s1 = Inr (v, lf', s', l)"
      by (auto simp: get_lexeme_def bindE_eq_Inr)
    show ?thesis using lex_body_measure [OF b] m True by auto
  qed
  then show "lf_measure lf' \<le> lf_measure lf" "lb_buffer w \<noteq> [] \<Longrightarrow> lf_measure lf' < lf_measure lf"
    "lf_measure lf' < lf_measure lf \<or> lf_get_state lf' \<noteq> St_ok" by auto
qed

lemma handle_directive_measure:
  "handle_directive parse lf ls = Inr (lf', ls') \<Longrightarrow> lf_measure lf' \<le> lf_measure lf"
  by (auto simp: handle_directive_def bindE_eq_Inr Let_def split: if_splits option.splits
      dest!: get_lexeme_measure(1))

definition lf_rank :: "lexfile \<Rightarrow> nat" where
  "lf_rank lf = 2 * lf_measure lf + (if lf_get_state lf = St_ok then 1 else 0)"

lemma get_lexeme_rank:
  "get_lexeme lf s = Inr (w, lf', s', log) \<Longrightarrow> lf_get_state lf = St_ok \<Longrightarrow> lf_rank lf' < lf_rank lf"
  using get_lexeme_measure(1) [of lf s w lf' s' log] get_lexeme_measure(3) [of lf s w lf' s' log]
  by (auto simp: lf_rank_def)

lemma directive_rank:
  assumes "get_lexeme lf s = Inr (w, lf1, s1, log)" and "lb_buffer w \<noteq> []"
    and "handle_directive parse lf1 ls = Inr (lf2, ls2)"
  shows "lf_rank lf2 < lf_rank lf"
  using get_lexeme_measure(2) [OF assms(1,2)] handle_directive_measure [OF assms(3)]
  by (auto simp: lf_rank_def)

section \<open>A whole file\<close>

text \<open>\<open>lexicalize\<close>, given what parses an included file.\<close>

function lexicalize ::
  "(string \<Rightarrow> ('k, 'ch) lexstream \<Rightarrow> exn + (bool \<times> ('k, 'ch) lexstream)) \<Rightarrow> ('k, 'ch) lex_env
   \<Rightarrow> lexfile \<Rightarrow> ('k, 'ch) lexstream \<Rightarrow> minus_context \<Rightarrow> exn + ('k, 'ch) lexstream" where
  "lexicalize parse env lf ls context =
     (if lf_get_state lf = St_ok then
        bindE (get_lexeme lf (ls_stack ls)) (\<lambda>(word, lf1, s1, log).
          if lb_buffer word = [] then lexicalize parse env lf1 (ls\<lparr>ls_stack := s1, ls_log := ls_log ls @ log\<rparr>) context
          else (case lb_kind word of
             None \<Rightarrow> Inl Undefined
           | Some k \<Rightarrow>
               if k = Lb_character \<and> lb_buffer word = ''#'' then
                 bindE (handle_directive parse lf1 (ls\<lparr>ls_stack := s1, ls_log := ls_log ls @ log\<rparr>))
                   (\<lambda>(lf2, ls2). lexicalize parse env lf2 ls2 context)
               else (case push_lexeme env word k context (ls\<lparr>ls_stack := s1, ls_log := ls_log ls @ log\<rparr>) of
                       (ls2, context2) \<Rightarrow> lexicalize parse env lf1 ls2 context2)))
      else Inr ls)"
  by pat_completeness auto
termination
  apply (relation "measure (\<lambda>(parse, env, lf, ls, context). lf_rank lf)")
  subgoal by simp
  subgoal by (auto intro: get_lexeme_rank)
  subgoal by (auto intro: directive_rank)
  subgoal by (auto intro: get_lexeme_rank)
  done

declare lexicalize.simps [simp del]

text \<open>\<open>parse\<close>: the files an input may include nest to any depth, so the depth is bounded by fuel; a
  file that includes itself makes the C++ recurse until its stack is exhausted.\<close>

primrec ls_parse ::
  "nat \<Rightarrow> ('k, 'ch) lex_env \<Rightarrow> string \<Rightarrow> ('k, 'ch) lexstream \<Rightarrow> exn + (bool \<times> ('k, 'ch) lexstream)" where
  "ls_parse 0 env file ls = Inl Out_of_fuel"
| "ls_parse (Suc n) env file ls =
     bindE (finder_find (le_fs env) (ls_paths ls) file) (\<lambda>found.
       case found of
         None \<Rightarrow> Inr (False, ls)
       | Some p \<Rightarrow>
           let paths = (case fs_parent (le_fs env) p of None \<Rightarrow> ls_paths ls | Some q \<Rightarrow> finder_add q (ls_paths ls));
               ls1 = ls\<lparr>ls_paths := paths, ls_stack := input_push p (ls_stack ls)\<rparr>
           in bindE (lexicalize (ls_parse n env) env (lf_open (le_files env p) (le_max_lines env)) ls1 Unary) (\<lambda>ls2.
                bindE (input_pop (ls_stack ls2)) (\<lambda>s. Inr (True, ls2\<lparr>ls_stack := s\<rparr>))))"

definition ls_empty :: "finder \<Rightarrow> ('k, 'ch) lexstream" where
  "ls_empty paths = \<lparr>ls_paths = paths, ls_stack = [], ls_lexemes = [], ls_ptr = None, ls_unique = 1, ls_log = []\<rparr>"

text \<open>The constructor leaves the iterator \<open>ptr\<close> uninitialised: the cursor of the model is \<open>None\<close> until
  \<open>reset\<close>.\<close>

definition ls_new ::
  "nat \<Rightarrow> ('k, 'ch) lex_env \<Rightarrow> finder \<Rightarrow> string \<Rightarrow> exn + ('k, 'ch) lexstream" where
  "ls_new n env paths file =
     bindE (ls_parse n env file (ls_empty paths)) (\<lambda>(ok, ls).
       if ok then Inr ls
       else Inr (ls\<lparr>ls_log := ls_log ls @ [Diag Sev_error ''ERROR_OPEN_TOPLEVEL'' file 0 0]\<rparr>))"

definition ls_print ::
  "('k, 'ch) lex_env \<Rightarrow> (string \<Rightarrow> string) \<Rightarrow> ('k, 'ch) lexstream \<Rightarrow> exn + string" where
  "ls_print env print_double ls =
     foldl (\<lambda>r x. bindE r (\<lambda>out. bindE (lexeme_dump (le_keywords env) (le_symbols env) print_double x) (\<lambda>s. Inr (out @ s))))
       (Inr []) (ls_lexemes ls)"

definition ls_reset :: "('k, 'ch) lexstream \<Rightarrow> ('k, 'ch) lexstream" where
  "ls_reset ls = ls\<lparr>ls_ptr := Some 0\<rparr>"

definition ls_state :: "('k, 'ch) lexstream \<Rightarrow> exn + bool" where
  "ls_state ls = (case ls_ptr ls of None \<Rightarrow> Inl Undefined | Some i \<Rightarrow> Inr (i \<noteq> length (ls_lexemes ls)))"

definition ls_get :: "('k, 'ch) lexstream \<Rightarrow> exn + ('k, 'ch) lexeme option" where
  "ls_get ls = bindE (ls_state ls) (\<lambda>ok.
     Inr (if ok then Some (ls_lexemes ls ! the (ls_ptr ls)) else None))"

definition ls_next :: "('k, 'ch) lexstream \<Rightarrow> exn + ('k, 'ch) lexstream" where
  "ls_next ls = bindE (ls_state ls) (\<lambda>ok.
     Inr (if ok then ls\<lparr>ls_ptr := map_option Suc (ls_ptr ls)\<rparr> else ls))"


section \<open>The reading loops on the text they read\<close>

text \<open>The source is in a state the lexer reaches, with \<open>cs\<close> still to be delivered.\<close>

definition reading :: "byte_stream \<Rightarrow> nat option \<Rightarrow> string \<Rightarrow> input_stack \<Rightarrow> string \<Rightarrow> lexfile \<Rightarrow> input_stack \<Rightarrow> bool" where
  "reading bs ml name s0 cs lf s \<longleftrightarrow> lf_run bs ml name s0 lf s \<and> lf_contents lf s = cs"

lemma lf_run_inv: "lf_run bs ml name s0 lf s \<Longrightarrow> lf_inv lf s"
  using lf_run_track by (auto simp: lf_track_def)

lemma reading_get: "reading bs ml name s0 cs lf s \<Longrightarrow> reading bs ml name s0 cs (snd (lf_get lf)) s"
  by (auto simp: reading_def lf_run.got lfs.get_contents dest: lf_run_inv)

lemma reading_more:
  assumes "reading bs ml name s0 (c # cs) lf s"
  obtains lf1 lf2 s2 where "lf_get lf = ((c, St_ok), lf1)" "reading bs ml name s0 (c # cs) lf1 s"
    "lf_get lf1 = ((c, St_ok), lf1)" "lf_advance lf1 s = Inr (lf2, s2)" "reading bs ml name s0 cs lf2 s2"
proof -
  note run = assms [unfolded reading_def]
  note inv = lf_run_inv [OF conjunct1 [OF run]]
  obtain lf2 s2 where a: "lf_advance (snd (lf_get lf)) s = Inr (lf2, s2)" "lf_contents lf2 s2 = cs"
    using lfs.advance_more [OF inv conjunct2 [OF run]] by blast
  show thesis
  proof (rule that)
    show "lf_get lf = ((c, St_ok), snd (lf_get lf))"
      using lfs.get_more [OF inv conjunct2 [OF run]] by (metis prod.collapse)
    then show "lf_get (snd (lf_get lf)) = ((c, St_ok), snd (lf_get lf))"
      using lfs.get_again [of lf] by simp
    show "reading bs ml name s0 cs lf2 s2" using run a lf_run.advanced by (auto simp: reading_def)
  qed (use a reading_get [OF assms] in auto)
qed

lemma reading_end:
  assumes "reading bs ml name s0 [] lf s"
  obtains c st lf1 where "lf_get lf = ((c, st), lf1)" "reading bs ml name s0 [] lf1 s" "lf_get lf1 = ((c, st), lf1)"
    "st \<noteq> St_ok" "c = NUL \<or> c = NL" "lf_advance lf1 s = Inr (lf1, s)"
proof -
  note run = assms [unfolded reading_def]
  note inv = lf_run_inv [OF conjunct1 [OF run]]
  obtain c st where e: "fst (lf_get lf) = (c, st)" "st \<noteq> St_ok" "c = NUL \<or> c = NL"
    using lfs.get_end [OF inv conjunct2 [OF run]] by blast
  show thesis
  proof (rule that)
    show "lf_get lf = ((c, st), snd (lf_get lf))" using e(1) by (metis prod.collapse)
    then show "lf_get (snd (lf_get lf)) = ((c, st), snd (lf_get lf))" using lfs.get_again [of lf] by simp
  qed (use e reading_get [OF assms] lfs.advance_end [OF inv conjunct2 [OF run]] in auto)
qed

fun scan :: "('w \<Rightarrow> char \<Rightarrow> bool) \<Rightarrow> ('w \<Rightarrow> char \<Rightarrow> 'w) \<Rightarrow> 'w \<Rightarrow> string \<Rightarrow> 'w \<times> string" where
  "scan P body w [] = (w, [])"
| "scan P body w (c # cs) = (if P w c then scan P body (body w c) cs else (w, c # cs))"

lemma scan_loop_reading:
  assumes "reading bs ml name s0 cs lf s" and "scan P body w cs = (w', cs')"
  shows "\<exists>c st lf' s'. scan_loop P body w lf s = Inr (w', c, st, lf', s') \<and> reading bs ml name s0 cs' lf' s'
     \<and> lf_get lf' = ((c, st), lf') \<and> (case cs' of [] \<Rightarrow> st \<noteq> St_ok \<and> (c = NUL \<or> c = NL)
          | d # ds \<Rightarrow> c = d \<and> st = St_ok \<and> \<not> P w' c)"
  using assms
proof (induction cs arbitrary: w lf s)
  case Nil
  obtain c st lf1 where "lf_get lf = ((c, st), lf1)" "reading bs ml name s0 [] lf1 s" "lf_get lf1 = ((c, st), lf1)"
    "st \<noteq> St_ok" "c = NUL \<or> c = NL" by (rule reading_end [OF Nil.prems(1)])
  with Nil.prems(2) show ?case by (subst scan_loop.simps) auto
next
  case (Cons d cs)
  obtain lf1 lf2 s2 where g: "lf_get lf = ((d, St_ok), lf1)" "reading bs ml name s0 (d # cs) lf1 s"
    "lf_get lf1 = ((d, St_ok), lf1)" "lf_advance lf1 s = Inr (lf2, s2)" "reading bs ml name s0 cs lf2 s2"
    by (rule reading_more [OF Cons.prems(1)])
  show ?case
  proof (cases "P w d")
    case True
    with Cons.prems(2) Cons.IH [OF g(5)] g show ?thesis by (subst scan_loop.simps) auto
  next
    case False
    with Cons.prems(2) g show ?thesis by (subst scan_loop.simps) auto
  qed
qed

lemma scan_span:
  "scan (\<lambda>_. P) (\<lambda>w c. lb_append_char c w) w cs =
     (w\<lparr>lb_buffer := lb_buffer w @ takeWhile P cs\<rparr>, dropWhile P cs)"
  by (induction cs arbitrary: w) (auto simp: lb_append_char_def)

lemma scan_drop: "scan (\<lambda>_. P) (\<lambda>_ _. ()) u cs = ((), dropWhile P cs)"
  by (induction cs arbitrary: u) auto

section \<open>The tokens of a text\<close>

text \<open>White space and comments from a percent sign to the end of its line.\<close>

function skip_ws :: "string \<Rightarrow> string" where
  "skip_ws [] = []"
| "skip_ws (c # cs) =
     (if c = CHR ''%'' then skip_ws (tl (dropWhile (\<lambda>c. c \<noteq> NL) cs))
      else if c = CHR '' '' \<or> c = TAB \<or> c = NL then skip_ws cs else c # cs)"
  by pat_completeness auto
termination
  by (relation "measure length")
    (auto simp: less_Suc_eq_le intro: le_trans [OF diff_le_self] length_dropWhile_le)

text \<open>The longest number at the head of a text.\<close>

fun number_chars :: "num_flags \<Rightarrow> string \<Rightarrow> string \<times> string" where
  "number_chars f [] = ([], [])"
| "number_chars f (c # cs) =
     (if num_wanted f c then (let (n, r) = number_chars (num_note f c) cs in (c # n, r)) else ([], c # cs))"

definition first_token :: "char \<Rightarrow> string \<Rightarrow> (string \<times> lb_kind) \<times> string" where
  "first_token c cs =
     (if ident_start c then ((c # takeWhile ident_char cs, Lb_string), dropWhile ident_char cs)
      else if isdigit c then (let (n, r) = number_chars num_start cs in ((c # n, Lb_number), r))
      else if c = CHR ''-'' then
        (if cs \<noteq> [] \<and> hd cs = CHR ''>'' then ((''->'', Lb_character), tl cs) else ((''-'', Lb_character), cs))
      else if c = CHR ''.'' then
        (if take 1 cs = ''.'' then ((''...'', Lb_character), if take 2 cs = ''..'' then drop 2 cs else tl cs)
         else ((''.'', Lb_character), cs))
      else if c = DQUOTE then
        ((takeWhile (\<lambda>c. c \<noteq> DQUOTE) cs, Lb_string_literal), tl (dropWhile (\<lambda>c. c \<noteq> DQUOTE) cs))
      else (([c], Lb_character), cs))"

lemma scan_number:
  "\<exists>f'. scan (\<lambda>(f, w) c. num_wanted f c) (\<lambda>(f, w) c. (num_note f c, lb_append_char c w)) (f, w) cs
     = ((f', w\<lparr>lb_buffer := lb_buffer w @ fst (number_chars f cs)\<rparr>), snd (number_chars f cs))"
proof (induction f cs arbitrary: w rule: number_chars.induct)
  case (2 f c cs)
  show ?case
  proof (cases "num_wanted f c")
    case True
    from 2 [OF True, of "lb_append_char c w"] True show ?thesis
      by (cases "number_chars (num_note f c) cs") (auto simp: lb_append_char_def)
  qed simp
qed simp


lemma skip_white_reading:
  "reading bs ml name s0 cs lf s \<Longrightarrow>
   \<exists>c st lf' s'. skip_white lf s = Inr (c, st, lf', s') \<and> reading bs ml name s0 (skip_ws cs) lf' s'
     \<and> (case skip_ws cs of [] \<Rightarrow> st \<noteq> St_ok | d # ds \<Rightarrow> c = d \<and> st = St_ok \<and> lf_get lf' = ((c, st), lf'))"
proof (induction cs arbitrary: lf s rule: skip_ws.induct)
  case 1
  obtain c st lf1 where "lf_get lf = ((c, st), lf1)" "reading bs ml name s0 [] lf1 s" "lf_get lf1 = ((c, st), lf1)"
    "st \<noteq> St_ok" "c = NUL \<or> c = NL" "lf_advance lf1 s = Inr (lf1, s)" by (rule reading_end [OF 1])
  then show ?case by (subst skip_white.simps) auto
next
  case (2 d cs)
  obtain lf1 lf2 s2 where g: "lf_get lf = ((d, St_ok), lf1)" "reading bs ml name s0 (d # cs) lf1 s"
    "lf_get lf1 = ((d, St_ok), lf1)" "lf_advance lf1 s = Inr (lf2, s2)" "reading bs ml name s0 cs lf2 s2"
    by (rule reading_more [OF 2(3)])
  consider "d = CHR ''%''" | "d \<noteq> CHR ''%''" "d = CHR '' '' \<or> d = TAB \<or> d = NL"
    | "d \<noteq> CHR ''%''" "\<not> (d = CHR '' '' \<or> d = TAB \<or> d = NL)" by blast
  then show ?case
  proof cases
    case 1
    let ?r = "dropWhile (\<lambda>c. c \<noteq> NL) cs"
    obtain c st lf3 s3 where sl: "scan_loop (\<lambda>_ c. c \<noteq> NL) (\<lambda>_ _. ()) () lf2 s2 = Inr ((), c, st, lf3, s3)"
      "reading bs ml name s0 ?r lf3 s3" "lf_get lf3 = ((c, st), lf3)"
      "case ?r of [] \<Rightarrow> st \<noteq> St_ok \<and> (c = NUL \<or> c = NL) | d # ds \<Rightarrow> c = d \<and> st = St_ok \<and> \<not> c \<noteq> NL"
      using scan_loop_reading [OF g(5) scan_drop [of "\<lambda>c. c \<noteq> NL" "()" cs]] by auto
    show ?thesis
    proof (cases ?r)
      case Nil
      obtain "lf_advance lf3 s3 = Inr (lf3, s3)"
        by (rule reading_end [OF sl(2) [unfolded Nil]]) (use sl(3) in simp)
      moreover have "st \<noteq> St_ok" using sl(4) Nil by simp
      ultimately have "skip_white lf s = Inr (c, st, lf3, s3)"
        by (subst skip_white.simps) (simp add: g(1,4) sl(1) 1)
      moreover have "skip_ws (d # cs) = []" by (simp add: 1 Nil)
      ultimately show ?thesis using sl(2) Nil \<open>st \<noteq> St_ok\<close> by simp
    next
      case (Cons e r)
      obtain lf4 s4 where a: "lf_advance lf3 s3 = Inr (lf4, s4)" "reading bs ml name s0 r lf4 s4"
        by (rule reading_more [OF sl(2) [unfolded Cons]]) (use sl(3) in auto)
      have "st = St_ok" using sl(4) Cons by simp
      then have "skip_white lf s = skip_white lf4 s4"
        by (subst skip_white.simps) (simp add: g(1,4) sl(1) a(1) 1)
      moreover have "skip_ws (d # cs) = skip_ws r" by (simp add: 1 Cons)
      ultimately show ?thesis using "2.IH"(1) [OF 1, of lf4 s4] a(2) Cons by simp
    qed
  next
    case 2
    with "2.IH"(2) [OF 2 g(5)] g show ?thesis by (subst skip_white.simps) auto
  next
    case 3
    with g show ?thesis by (subst skip_white.simps) auto
  qed
qed

lemma reading_Cons_ready:
  assumes "reading bs ml name s0 (c # cs) lf s" and "lf_get lf = ((c, St_ok), lf)"
  obtains lf2 s2 where "lf_advance lf s = Inr (lf2, s2)" "reading bs ml name s0 cs lf2 s2"
  by (rule reading_more [OF assms(1)]) (use assms(2) in auto)

text \<open>Whether the current character is the wanted one.\<close>

lemma reading_peek:
  assumes "reading bs ml name s0 cs lf s" and "d \<noteq> NUL" "d \<noteq> NL"
  obtains (yes) lf1 lf2 s2 where "cs = d # tl cs" "lf_get lf = ((d, St_ok), lf1)" "lf_advance lf1 s = Inr (lf2, s2)"
      "reading bs ml name s0 (tl cs) lf2 s2"
  | (no) c st lf1 where "take 1 cs \<noteq> [d]" "lf_get lf = ((c, st), lf1)" "\<not> (c = d \<and> st = St_ok)"
      "reading bs ml name s0 cs lf1 s"
proof (cases cs)
  case Nil
  with assms reading_end [of bs ml name s0 lf s] no show thesis by (metis list.distinct(1) take_Nil)
next
  case (Cons c r)
  obtain lf1 lf2 s2 where "lf_get lf = ((c, St_ok), lf1)" "reading bs ml name s0 (c # r) lf1 s"
    "lf_advance lf1 s = Inr (lf2, s2)" "reading bs ml name s0 r lf2 s2"
    by (rule reading_more [OF assms(1) [unfolded Cons]])
  with Cons yes no show thesis by (cases "c = d") auto
qed


lemma lb_simps [simp]:
  "lb_buffer (lb_assign_char c w) = [c]" "lb_buffer (lb_append_char c w) = lb_buffer w @ [c]"
  by (simp_all add: lb_assign_char_def lb_append_char_def)

text \<open>What a routine that cuts off a token has to give.\<close>

definition cuts :: "byte_stream \<Rightarrow> nat option \<Rightarrow> string \<Rightarrow> input_stack \<Rightarrow> lex_result \<Rightarrow> (string \<times> lb_kind) \<times> string \<Rightarrow> bool" where
  "cuts bs ml name s0 res tok \<longleftrightarrow>
     (\<exists>w lf s log. res = Inr (w, lf, s, log) \<and> lb_buffer w = fst (fst tok) \<and> lb_kind w = Some (snd (fst tok))
        \<and> reading bs ml name s0 (snd tok) lf s)"

lemma lex_identifier_cuts:
  assumes adv: "lf_advance lf s = Inr (lf1, s1)" and rd: "reading bs ml name s0 cs lf1 s1"
  shows "cuts bs ml name s0 (lex_identifier c w lf s) ((c # takeWhile ident_char cs, Lb_string), dropWhile ident_char cs)"
  using scan_loop_reading [OF rd scan_span [of ident_char "lb_assign_char c w" cs]] adv
  by (auto simp: cuts_def lex_identifier_def)

lemma lex_number_cuts:
  assumes adv: "lf_advance lf s = Inr (lf1, s1)" and rd: "reading bs ml name s0 cs lf1 s1"
  shows "cuts bs ml name s0 (lex_number c w lf s)
     ((c # fst (number_chars num_start cs), Lb_number), snd (number_chars num_start cs))"
proof -
  obtain f where "scan (\<lambda>(f, w) c. num_wanted f c) (\<lambda>(f, w) c. (num_note f c, lb_append_char c w))
      (num_start, lb_assign_char c w) cs
    = ((f, (lb_assign_char c w)\<lparr>lb_buffer := lb_buffer (lb_assign_char c w) @ fst (number_chars num_start cs)\<rparr>),
       snd (number_chars num_start cs))" using scan_number by blast
  from scan_loop_reading [OF rd this] adv show ?thesis by (auto simp: cuts_def lex_number_def)
qed

lemma lex_minus_cuts:
  assumes adv: "lf_advance lf s = Inr (lf1, s1)" and rd: "reading bs ml name s0 cs lf1 s1"
  shows "cuts bs ml name s0 (lex_minus c w lf s)
     (if cs \<noteq> [] \<and> hd cs = CHR ''>'' then (([c, CHR ''>''], Lb_character), tl cs) else (([c], Lb_character), cs))"
proof (rule reading_peek [OF rd, of "CHR ''>''"])
  fix d st lf2 assume "take 1 cs \<noteq> [CHR ''>'']" "lf_get lf1 = ((d, st), lf2)" "\<not> (d = CHR ''>'' \<and> st = St_ok)"
    "reading bs ml name s0 cs lf2 s1"
  with adv show ?thesis by (cases cs) (auto simp: cuts_def lex_minus_def)
next
  fix lf2 lf3 s3
  assume g: "cs = CHR ''>'' # tl cs" "lf_get lf1 = ((CHR ''>'', St_ok), lf2)" "lf_advance lf2 s1 = Inr (lf3, s3)"
    "reading bs ml name s0 (tl cs) lf3 s3"
  have "hd cs = CHR ''>''" "cs \<noteq> []" by (subst g(1), simp)+
  with adv g(2-) show ?thesis by (simp add: cuts_def lex_minus_def)
qed auto

lemma lex_dot_cuts:
  assumes adv: "lf_advance lf s = Inr (lf1, s1)" and rd: "reading bs ml name s0 cs lf1 s1"
  shows "cuts bs ml name s0 (lex_dot c w lf s)
     (if take 1 cs = ''.'' then (([c, CHR ''.'', CHR ''.''], Lb_character), if take 2 cs = ''..'' then drop 2 cs else tl cs)
      else (([c], Lb_character), cs))"
proof (rule reading_peek [OF rd, of "CHR ''.''"])
  fix d st lf2 assume "take 1 cs \<noteq> ''.''" "lf_get lf1 = ((d, st), lf2)" "\<not> (d = CHR ''.'' \<and> st = St_ok)"
    "reading bs ml name s0 cs lf2 s1"
  with adv show ?thesis by (auto simp: cuts_def lex_dot_def)
next
  fix lf2 lf3 s3
  assume g: "cs = CHR ''.'' # tl cs" "lf_get lf1 = ((CHR ''.'', St_ok), lf2)" "lf_advance lf2 s1 = Inr (lf3, s3)"
    "reading bs ml name s0 (tl cs) lf3 s3"
  have cs: "take 1 cs = ''.''" "take 2 cs = CHR ''.'' # take 1 (tl cs)" "drop 2 cs = tl (tl cs)"
    by (subst g(1), simp add: numeral_2_eq_2 drop_Suc)+
  show ?thesis
  proof (rule reading_peek [OF g(4), of "CHR ''.''"])
    fix d st lf4 assume "take 1 (tl cs) \<noteq> ''.''" "lf_get lf3 = ((d, st), lf4)" "\<not> (d = CHR ''.'' \<and> st = St_ok)"
      "reading bs ml name s0 (tl cs) lf4 s3"
    with adv g(2,3) cs show ?thesis by (auto simp: cuts_def lex_dot_def)
  next
    fix lf4 lf5 s5
    assume h: "tl cs = CHR ''.'' # tl (tl cs)" "lf_get lf3 = ((CHR ''.'', St_ok), lf4)"
      "lf_advance lf4 s3 = Inr (lf5, s5)" "reading bs ml name s0 (tl (tl cs)) lf5 s5"
    have "take 1 (tl cs) = ''.''" by (subst h(1), simp)
    with adv g(2,3) h(2-) cs show ?thesis by (simp add: cuts_def lex_dot_def)
  qed auto
qed auto

lemma lex_string_cuts:
  assumes adv: "lf_advance lf s = Inr (lf1, s1)" and rd: "reading bs ml name s0 cs lf1 s1" and "lb_buffer w = []"
  shows "cuts bs ml name s0 (lex_string w lf s)
     ((takeWhile (\<lambda>c. c \<noteq> DQUOTE) cs, Lb_string_literal), tl (dropWhile (\<lambda>c. c \<noteq> DQUOTE) cs))"
proof -
  let ?r = "dropWhile (\<lambda>c. c \<noteq> DQUOTE) cs"
  obtain d st lf2 s2 where sl: "scan_loop (\<lambda>_ c. c \<noteq> DQUOTE) (\<lambda>w c. lb_append_char c w) w lf1 s1
        = Inr (w\<lparr>lb_buffer := takeWhile (\<lambda>c. c \<noteq> DQUOTE) cs\<rparr>, d, st, lf2, s2)"
    "reading bs ml name s0 ?r lf2 s2" "lf_get lf2 = ((d, st), lf2)"
    "case ?r of [] \<Rightarrow> st \<noteq> St_ok \<and> (d = NUL \<or> d = NL) | e # es \<Rightarrow> d = e \<and> st = St_ok \<and> \<not> d \<noteq> DQUOTE"
    using scan_loop_reading [OF rd scan_span [of "\<lambda>c. c \<noteq> DQUOTE" w cs]] assms(3) by auto
  show ?thesis
  proof (cases ?r)
    case Nil
    with sl have "d \<noteq> DQUOTE" by auto
    then have "lex_string w lf s = Inr (w\<lparr>lb_buffer := takeWhile (\<lambda>c. c \<noteq> DQUOTE) cs, lb_kind := Some Lb_string_literal\<rparr>,
        lf2, s2, [Diag Sev_error ''ERROR_EXPECTED_CLOSE_QUOTE'' [] (ctx_start w) (lf_char_pos lf2)])"
      by (simp add: lex_string_def adv sl(1))
    with sl(2) [unfolded Nil] show ?thesis unfolding Nil by (simp add: cuts_def)
  next
    case (Cons e r)
    with sl(4) have e: "e = d" "d = DQUOTE" "st = St_ok" by auto
    obtain lf3 s3 where "lf_advance lf2 s2 = Inr (lf3, s3)" "reading bs ml name s0 r lf3 s3"
      by (rule reading_Cons_ready [OF sl(2) [unfolded Cons]]) (use sl(3) e in auto)
    with adv sl(1) Cons e show ?thesis by (simp add: cuts_def lex_string_def)
  qed
qed

lemma lex_other_cuts:
  assumes adv: "lf_advance lf s = Inr (lf1, s1)" and rd: "reading bs ml name s0 cs lf1 s1"
  shows "cuts bs ml name s0 (lex_other c w lf s) (([c], Lb_character), cs)"
  using assms by (simp add: lex_other_def cuts_def)

lemma lex_body_cuts:
  assumes adv: "lf_advance lf s = Inr (lf1, s1)" and rd: "reading bs ml name s0 cs lf1 s1" and "lb_buffer w = []"
  shows "cuts bs ml name s0 (lex_body c w lf s) (first_token c cs)"
  using lex_minus_cuts [OF adv rd, of "CHR ''-''" w] lex_dot_cuts [OF adv rd, of "CHR ''.''" w]
  unfolding lex_body_def first_token_def case_prod_unfold Let_def
  by (cases "c = CHR ''-''"; cases "c = CHR ''.''"; cases "c = DQUOTE")
    (auto simp add: lex_identifier_cuts [OF adv rd] lex_number_cuts [OF adv rd] lex_string_cuts [OF adv rd assms(3)]
      lex_other_cuts [OF adv rd])

lemma get_lexeme_reading:
  assumes "reading bs ml name s0 cs lf s" and "None \<notin> set bs" and "ml \<noteq> Some 0"
  shows "\<exists>w lf' s' log. get_lexeme lf s = Inr (w, lf', s', log)
    \<and> (case skip_ws cs of
         [] \<Rightarrow> w = lb_new \<and> reading bs ml name s0 [] lf' s'
       | c # r \<Rightarrow> (lb_buffer w, lb_kind w) = (fst (fst (first_token c r)), Some (snd (fst (first_token c r))))
           \<and> reading bs ml name s0 (snd (first_token c r)) lf' s')"
proof -
  obtain c st lf1 s1 where sk: "skip_white lf s = Inr (c, st, lf1, s1)" "reading bs ml name s0 (skip_ws cs) lf1 s1"
    "case skip_ws cs of [] \<Rightarrow> st \<noteq> St_ok | d # ds \<Rightarrow> c = d \<and> st = St_ok \<and> lf_get lf1 = ((c, st), lf1)"
    using skip_white_reading [OF assms(1)] by blast
  show ?thesis
  proof (cases "skip_ws cs")
    case Nil
    with sk show ?thesis by (auto simp: get_lexeme_def)
  next
    case (Cons d r)
    with sk(3) have d: "d = c" "st = St_ok" "lf_get lf1 = ((c, St_ok), lf1)" by auto
    have rd: "reading bs ml name s0 (c # r) lf1 s1" using sk(2) Cons d(1) by simp
    obtain lf2 s2 where a: "lf_advance lf1 s1 = Inr (lf2, s2)" "reading bs ml name s0 r lf2 s2"
      by (rule reading_Cons_ready [OF rd d(3)])
    have "\<exists>l. lf_get_current_line (snd (lf_get lf1)) s1 = Inr l"
      using lf_position_correct [of bs ml name s0 lf1 s1 c] rd assms(2,3) d(3) by (auto simp: reading_def)
    then obtain l where l: "lf_get_current_line lf1 s1 = Inr l" using d(3) by auto
    have "cuts bs ml name s0 (lex_body c (lb_new\<lparr>lb_context := Some (l, lf_char_pos lf1)\<rparr>) lf1 s1) (first_token c r)"
      by (rule lex_body_cuts [OF a]) (simp add: lb_new_def)
    then show ?thesis using sk(1) d l Cons by (auto simp: get_lexeme_def cuts_def)
  qed
qed


lemma number_chars_length: "length (snd (number_chars f cs)) \<le> length cs"
  by (induction f cs rule: number_chars.induct) (auto simp: case_prod_unfold Let_def)

lemma first_token_length: "length (snd (first_token c cs)) \<le> length cs"
  by (auto simp: first_token_def case_prod_unfold Let_def length_dropWhile_le number_chars_length
      intro: le_trans [OF diff_le_self])

lemma skip_ws_length: "length (skip_ws cs) \<le> length cs"
proof (induction cs rule: skip_ws.induct)
  case (2 c cs)
  have "length (tl (dropWhile (\<lambda>c. c \<noteq> NL) cs)) \<le> length cs"
    using length_dropWhile_le [of "\<lambda>c. c \<noteq> NL" cs] by simp
  with 2 show ?case by (auto simp: le_SucI)
qed simp

function tokens :: "string \<Rightarrow> (string \<times> lb_kind) list" where
  "tokens cs = (case skip_ws cs of [] \<Rightarrow> [] | c # r \<Rightarrow> fst (first_token c r) # tokens (snd (first_token c r)))"
  by pat_completeness auto
termination
proof (relation "measure length")
  fix cs c r assume "skip_ws cs = c # r"
  with skip_ws_length [of cs] first_token_length [of c r]
  show "(snd (first_token c r), cs) \<in> measure length" by simp
qed simp

declare tokens.simps [simp del]

lemma tokens_Nil [simp]: "tokens [] = []"
  by (simp add: tokens.simps)

section \<open>The lexer over tokens\<close>

text \<open>What a translation unit becomes, with the character level abstracted away: each file is its list
  of tokens, and the state is the search path, the next number and the lexemes without their spans.\<close>

type_synonym ('k, 'ch) lex_abs = "finder \<times> nat \<times> ('k, 'ch) lexeme list"

definition no_span :: "('k, 'ch) lexeme \<Rightarrow> ('k, 'ch) lexeme" where
  "no_span x = x\<lparr>lx_span := (0, 0)\<rparr>"

definition ls_abs :: "('k, 'ch) lexstream \<Rightarrow> ('k, 'ch) lex_abs" where
  "ls_abs ls = (ls_paths ls, ls_unique ls, map no_span (ls_lexemes ls))"

fun tok_file ::
  "(string \<Rightarrow> ('k, 'ch) lex_abs \<Rightarrow> exn + (bool \<times> ('k, 'ch) lex_abs)) \<Rightarrow> ('k, 'ch) lex_env
   \<Rightarrow> (string \<times> lb_kind) list \<Rightarrow> ('k, 'ch) lex_abs \<Rightarrow> minus_context \<Rightarrow> exn + ('k, 'ch) lex_abs" where
  "tok_file parse env [] st context = Inr st"
| "tok_file parse env ((b, k) # ts) st context =
     (if b = [] then tok_file parse env ts st context
      else if k = Lb_character \<and> b = ''#'' then
        (case ts of
           [] \<Rightarrow> Inl Undefined
         | (w, _) # ts1 \<Rightarrow>
             if w = ''include'' then
               (case ts1 of
                  [] \<Rightarrow> Inl Undefined
                | (f, fk) # ts2 \<Rightarrow>
                    if fk \<noteq> Lb_string_literal then tok_file parse env ts2 st context
                    else bindE (parse f st) (\<lambda>(found, st'). tok_file parse env ts2 st' context))
             else tok_file parse env ts1 st context)
      else (case st of (paths, u, lexemes) \<Rightarrow>
              case lexeme_make (le_keywords env) (le_symbols env) b k context u (0, 0) of (x, context', log) \<Rightarrow>
                tok_file parse env ts (paths, Suc u, lexemes @ [x]) context'))"

definition file_text :: "('k, 'ch) lex_env \<Rightarrow> string \<Rightarrow> string" where
  "file_text env p = (case le_max_lines env of None \<Rightarrow> readable (le_files env p)
     | Some m \<Rightarrow> take_lines m (readable (le_files env p)))"

primrec tok_parse ::
  "nat \<Rightarrow> ('k, 'ch) lex_env \<Rightarrow> string \<Rightarrow> ('k, 'ch) lex_abs \<Rightarrow> exn + (bool \<times> ('k, 'ch) lex_abs)" where
  "tok_parse 0 env file st = Inl Out_of_fuel"
| "tok_parse (Suc n) env file st =
     (case st of (paths, rest) \<Rightarrow>
        bindE (finder_find (le_fs env) paths file) (\<lambda>found.
          case found of
            None \<Rightarrow> Inr (False, st)
          | Some p \<Rightarrow>
              bindE (tok_file (tok_parse n env) env (tokens (file_text env p))
                       (case fs_parent (le_fs env) p of None \<Rightarrow> paths | Some q \<Rightarrow> finder_add q paths, rest) Unary)
                (\<lambda>st'. Inr (True, st'))))"

text \<open>A result of the lexer and a result over tokens agree; the stack is as it was.\<close>

definition parse_sim ::
  "input_stack \<Rightarrow> exn + (bool \<times> ('k, 'ch) lexstream) \<Rightarrow> exn + (bool \<times> ('k, 'ch) lex_abs) \<Rightarrow> bool" where
  "parse_sim s r a \<longleftrightarrow> (case r of Inl e \<Rightarrow> a = Inl e
     | Inr (ok, ls) \<Rightarrow> a = Inr (ok, ls_abs ls) \<and> ls_stack ls = s)"

lemma lexeme_make_no_span:
  "no_span (fst (lexeme_make km cm b k ctx u span)) = fst (lexeme_make km cm b k ctx u (0, 0))"
  "fst (snd (lexeme_make km cm b k ctx u span)) = fst (snd (lexeme_make km cm b k ctx u (0, 0)))"
  by (auto simp: lexeme_make_def lexeme_blank_def no_span_def Let_def split: lb_kind.splits option.splits
      prod.splits number_value.splits)

lemma lexeme_make_span_cases:
  obtains x log log' ctx' where "lexeme_make km cm b k ctx u span = (x, ctx', log)"
    "lexeme_make km cm b k ctx u (0, 0) = (no_span x, ctx', log')"
  by (metis lexeme_make_no_span prod.collapse)

definition files_ok :: "('k, 'ch) lex_env \<Rightarrow> bool" where
  "files_ok env \<longleftrightarrow> (\<forall>p. None \<notin> set (le_files env p)) \<and> le_max_lines env \<noteq> Some 0"


lemma scan_loop_invariant:
  "scan_loop P body w lf s = Inr (w', c, st, lf', s') \<Longrightarrow> I w \<Longrightarrow> (\<forall>w c. I w \<longrightarrow> I (body w c)) \<Longrightarrow> I w'"
proof (induction P body w lf s rule: scan_loop.induct)
  case (1 P body w lf s)
  obtain c0 st0 lf1 where g: "lf_get lf = ((c0, st0), lf1)" by (metis prod.exhaust)
  show ?case
  proof (cases "P w c0 \<and> st0 = St_ok")
    case True
    with 1(2) g obtain lf2 s2 where a: "lf_advance lf1 s = Inr (lf2, s2)"
      and r: "scan_loop P body (body w c0) lf2 s2 = Inr (w', c, st, lf', s')"
      by (subst (asm) scan_loop.simps) (auto simp: bindE_eq_Inr)
    show ?thesis using "1.IH" [OF g [symmetric] refl True a refl r] 1(3,4) by blast
  next
    case False
    with 1(2,3) g show ?thesis by (subst (asm) scan_loop.simps) auto
  qed
qed

lemma lb_context_simps [simp]:
  "lb_context (lb_assign_char c w) = lb_context w" "lb_context (lb_append_char c w) = lb_context w"
  by (simp_all add: lb_assign_char_def lb_append_char_def)

lemma lex_signs_context:
  "lex_minus c w lf s = Inr (w', lf', s', log) \<Longrightarrow> lb_context w' = lb_context w"
  "lex_dot c w lf s = Inr (w', lf', s', log) \<Longrightarrow> lb_context w' = lb_context w"
  by (auto simp: lex_minus_def lex_dot_def bindE_eq_Inr Let_def case_prod_unfold split: if_splits)

lemma lex_scans_context:
  "lex_identifier c w lf s = Inr (w', lf', s', log) \<Longrightarrow> lb_context w' = lb_context w"
  "lex_number c w lf s = Inr (w', lf', s', log) \<Longrightarrow> lb_context w' = lb_context w"
  "lex_string w lf s = Inr (w', lf', s', log) \<Longrightarrow> lb_context w' = lb_context w"
  by (auto simp: lex_identifier_def lex_number_def lex_string_def bindE_eq_Inr split: if_splits
      dest!: scan_loop_invariant [where I = "\<lambda>v. lb_context v = lb_context w"]
        scan_loop_invariant [where I = "\<lambda>(f, v). lb_context v = lb_context w"])

lemma lex_body_context:
  "lex_body c w lf s = Inr (w', lf', s', log) \<Longrightarrow> lb_context w' = lb_context w"
  by (auto simp: lex_body_def lex_other_def bindE_eq_Inr split: if_splits
      dest: lex_signs_context lex_scans_context)

lemma get_lexeme_context:
  "get_lexeme lf s = Inr (w, lf', s', log) \<Longrightarrow> w = lb_new \<or> lb_context w \<noteq> None"
  by (auto simp: get_lexeme_def bindE_eq_Inr dest!: lex_body_context split: if_splits)

lemma reading_tokens:
  assumes "reading bs ml name s0 cs lf s" and "None \<notin> set bs" and "ml \<noteq> Some 0"
  obtains (final) lf' s' log where "tokens cs = []" "get_lexeme lf s = Inr (lb_new, lf', s', log)"
      "reading bs ml name s0 [] lf' s'"
  | (more) w lf' s' log b k r where "tokens cs = (b, k) # tokens r" "get_lexeme lf s = Inr (w, lf', s', log)"
      "lb_buffer w = b" "lb_kind w = Some k" "lb_context w \<noteq> None" "reading bs ml name s0 r lf' s'"
proof -
  obtain w lf' s' log where g: "get_lexeme lf s = Inr (w, lf', s', log)"
    "case skip_ws cs of
         [] \<Rightarrow> w = lb_new \<and> reading bs ml name s0 [] lf' s'
       | c # r \<Rightarrow> (lb_buffer w, lb_kind w) = (fst (fst (first_token c r)), Some (snd (fst (first_token c r))))
           \<and> reading bs ml name s0 (snd (first_token c r)) lf' s'"
    using get_lexeme_reading [OF assms] by blast
  show thesis
  proof (cases "skip_ws cs")
    case Nil
    with g final show thesis by (simp add: tokens.simps [of cs])
  next
    case (Cons c r)
    then have "tokens cs = fst (first_token c r) # tokens (snd (first_token c r))"
      by (subst tokens.simps) simp
    moreover have "lb_context w \<noteq> None"
      using get_lexeme_context [OF g(1)] g(2) Cons by (auto simp: lb_new_def)
    ultimately show thesis
      using more [of "fst (fst (first_token c r))" "snd (fst (first_token c r))" "snd (first_token c r)"] g Cons by auto
  qed
qed

lemma reading_not_ok: "reading bs ml name s0 cs lf s \<Longrightarrow> lf_get_state lf \<noteq> St_ok \<Longrightarrow> cs = []"
  by (auto simp: reading_def lf_get_state_def lf_contents_def split: if_splits)

lemma reading_open:
  "reading (le_files env p) (le_max_lines env) p s0 (file_text env p)
     (lf_open (le_files env p) (le_max_lines env)) (input_push p s0)"
  unfolding reading_def
  by (rule conjI [OF lf_run.opened])
    (auto simp: lf_open_def lf_contents_def input_push_def limit_lines_def file_text_def split: option.splits)


definition file_sim :: "input_stack \<Rightarrow> exn + ('k, 'ch) lexstream \<Rightarrow> exn + ('k, 'ch) lex_abs \<Rightarrow> bool" where
  "file_sim s0 r a \<longleftrightarrow> (case r of Inl e \<Rightarrow> a = Inl e
     | Inr ls \<Rightarrow> a = Inr (ls_abs ls) \<and> input_pop (ls_stack ls) = Inr s0)"

lemma lf_run_pop: "lf_run bs ml name s0 lf s \<Longrightarrow> input_pop s = Inr s0"
  using lf_run_track [of bs ml name s0 lf s] by (cases s) (auto simp: lf_track_def lf_inv_def input_pop_def)

lemma ls_abs_update [simp]:
  "ls_abs (ls\<lparr>ls_stack := s, ls_log := l\<rparr>) = ls_abs ls" "ls_abs (ls\<lparr>ls_stack := s\<rparr>) = ls_abs ls"
  "ls_abs (ls_report sev m w ls) = ls_abs ls" "ls_stack (ls_report sev m w ls) = ls_stack ls"
  by (simp_all add: ls_abs_def ls_report_def)

lemma push_lexeme_abs:
  assumes "push_lexeme env w k ctx ls = (ls', ctx')" and "ls_abs ls = (paths, u, xs)"
  shows "\<exists>x log. lexeme_make (le_keywords env) (le_symbols env) (lb_buffer w) k ctx u (0, 0) = (x, ctx', log)
    \<and> ls_abs ls' = (paths, Suc u, xs @ [x]) \<and> ls_stack ls' = ls_stack ls"
proof -
  obtain x log log' c where "lexeme_make (le_keywords env) (le_symbols env) (lb_buffer w) k ctx (ls_unique ls)
      (ctx_start w, lb_end_pos w) = (x, c, log)"
    "lexeme_make (le_keywords env) (le_symbols env) (lb_buffer w) k ctx (ls_unique ls) (0, 0) = (no_span x, c, log')"
    by (rule lexeme_make_span_cases)
  with assms show ?thesis by (auto simp: push_lexeme_def ls_abs_def)
qed

text \<open>A directive, over what is left of the text behind the \<open>#\<close>.\<close>

lemma handle_directive_sim:
  assumes env: "None \<notin> set bs" "ml \<noteq> Some 0"
    and parse: "\<And>f ls. parse_sim (ls_stack ls) (parse f ls) (aparse f (ls_abs ls))"
    and rd: "reading bs ml name s0 cs lf (ls_stack ls)"
  shows "case handle_directive parse lf ls of
      Inl e \<Rightarrow> tok_file aparse env ((''#'', Lb_character) # tokens cs) (ls_abs ls) ctx = Inl e
    | Inr (lf', ls') \<Rightarrow> \<exists>r. reading bs ml name s0 r lf' (ls_stack ls')
        \<and> tok_file aparse env ((''#'', Lb_character) # tokens cs) (ls_abs ls) ctx
          = tok_file aparse env (tokens r) (ls_abs ls') ctx"
proof (rule reading_tokens [OF rd env])
  fix lf' s' log assume "tokens cs = []" "get_lexeme lf (ls_stack ls) = Inr (lb_new, lf', s', log)"
  then show ?thesis by (simp add: handle_directive_def lb_new_def)
next
  fix w lf1 s1 log1 b k r
  assume w: "tokens cs = (b, k) # tokens r" "get_lexeme lf (ls_stack ls) = Inr (w, lf1, s1, log1)"
    "lb_buffer w = b" "lb_kind w = Some k" "lb_context w \<noteq> None" "reading bs ml name s0 r lf1 s1"
  show ?thesis
  proof (cases "b = ''include''")
    case False
    with w show ?thesis by (auto simp: handle_directive_def intro: exI [of _ r])
  next
    case True
    show ?thesis
    proof (rule reading_tokens [OF w(6) env])
      fix lf2 s2 log2 assume "tokens r = []" "get_lexeme lf1 s1 = Inr (lb_new, lf2, s2, log2)"
      with w True show ?thesis by (simp add: handle_directive_def lb_new_def)
    next
      fix v lf2 s2 log2 f fk r'
      assume v: "tokens r = (f, fk) # tokens r'" "get_lexeme lf1 s1 = Inr (v, lf2, s2, log2)"
        "lb_buffer v = f" "lb_kind v = Some fk" "reading bs ml name s0 r' lf2 s2"
      let ?ls = "ls\<lparr>ls_stack := s2, ls_log := (ls_log ls @ log1) @ log2\<rparr>"
      show ?thesis
      proof (cases "fk = Lb_string_literal")
        case False
        with w v True show ?thesis by (auto simp: handle_directive_def intro: exI [of _ r'])
      next
        case True
        have "parse_sim s2 (parse f ?ls) (aparse f (ls_abs ls))" using parse [of ?ls f] by simp
        with w v True \<open>b = ''include''\<close> show ?thesis
          by (auto simp: handle_directive_def parse_sim_def Let_def split: sum.splits if_splits intro: exI [of _ r'])
      qed
    qed
  qed
qed


lemma lexicalize_sim:
  assumes env: "None \<notin> set bs" "ml \<noteq> Some 0"
    and parse: "\<And>f ls. parse_sim (ls_stack ls) (parse f ls) (aparse f (ls_abs ls))"
    and rd: "reading bs ml name s0 cs lf (ls_stack ls)"
  shows "file_sim s0 (lexicalize parse env lf ls ctx) (tok_file aparse env (tokens cs) (ls_abs ls) ctx)"
  using rd
proof (induction "lf_rank lf" arbitrary: lf ls cs ctx rule: less_induct)
  case less
  show ?case
  proof (cases "lf_get_state lf = St_ok")
    case False
    then have "cs = []" using reading_not_ok less.prems by blast
    moreover have "input_pop (ls_stack ls) = Inr s0"
      using less.prems lf_run_pop by (auto simp: reading_def)
    ultimately show ?thesis using False by (subst lexicalize.simps) (simp add: file_sim_def)
  next
    case ok: True
    show ?thesis
    proof (rule reading_tokens [OF less.prems env])
      fix lf' s' log
      assume w: "tokens cs = []" "get_lexeme lf (ls_stack ls) = Inr (lb_new, lf', s', log)"
        "reading bs ml name s0 [] lf' s'"
      show ?thesis
        using less.hyps [OF get_lexeme_rank [OF w(2) ok], of "[]" "ls\<lparr>ls_stack := s', ls_log := ls_log ls @ log\<rparr>"] w ok
        by (subst lexicalize.simps) (simp add: lb_new_def)
    next
      fix w lf1 s1 log b k r
      assume w: "tokens cs = (b, k) # tokens r" "get_lexeme lf (ls_stack ls) = Inr (w, lf1, s1, log)"
        "lb_buffer w = b" "lb_kind w = Some k" "lb_context w \<noteq> None" "reading bs ml name s0 r lf1 s1"
      let ?ls = "ls\<lparr>ls_stack := s1, ls_log := ls_log ls @ log\<rparr>"
      note IH = less.hyps [OF get_lexeme_rank [OF w(2) ok]]
      consider "b = []" | "b \<noteq> []" "k = Lb_character \<and> b = ''#''" | "b \<noteq> []" "\<not> (k = Lb_character \<and> b = ''#'')"
        by blast
      then show ?thesis
      proof cases
        case 1
        then show ?thesis using IH [of r ?ls] w ok by (subst lexicalize.simps) simp
      next
        case 2
        have r1: "reading bs ml name s0 r lf1 (ls_stack ?ls)" using w(6) by simp
        note sim = handle_directive_sim [where parse = parse and aparse = aparse and ctx = ctx and env = env, OF env parse r1]
        show ?thesis
        proof (cases "handle_directive parse lf1 ?ls")
          case (Inl e)
          then show ?thesis using sim 2 w ok
            by (subst lexicalize.simps) (simp add: file_sim_def del: tok_file.simps(2))
        next
          case (Inr p)
          obtain lf2 ls2 where p: "p = (lf2, ls2)" by (cases p)
          obtain r2 where r2: "reading bs ml name s0 r2 lf2 (ls_stack ls2)"
            "tok_file aparse env ((''#'', Lb_character) # tokens r) (ls_abs ls) ctx
              = tok_file aparse env (tokens r2) (ls_abs ls2) ctx"
            using sim Inr p by auto
          have "lf_rank lf2 < lf_rank lf" using directive_rank [OF w(2)] 2(1) w(3) Inr p by simp
          from less.hyps [OF this r2(1), of ctx] r2(2) Inr p 2 w ok show ?thesis
            by (subst lexicalize.simps) (simp del: tok_file.simps(2))
        qed
      next
        case 3
        obtain paths u xs where abs: "ls_abs ?ls = (paths, u, xs)" by (cases "ls_abs ?ls")
        obtain ls2 c2 where pl: "push_lexeme env w k ctx ?ls = (ls2, c2)" by fastforce
        obtain x l where x: "lexeme_make (le_keywords env) (le_symbols env) b k ctx u (0, 0) = (x, c2, l)"
          "ls_abs ls2 = (paths, Suc u, xs @ [x])" "ls_stack ls2 = s1"
          using push_lexeme_abs [OF pl abs] w(3) by auto
        then show ?thesis using IH [of r ls2 c2] abs pl w ok 3 by (subst lexicalize.simps) auto
      qed
    qed
  qed
qed

lemma ls_parse_sim:
  assumes "files_ok env"
  shows "parse_sim (ls_stack ls) (ls_parse n env f ls) (tok_parse n env f (ls_abs ls))"
proof (induction n arbitrary: f ls)
  case 0
  show ?case by (simp add: parse_sim_def)
next
  case (Suc n)
  have abs: "ls_abs ls = (ls_paths ls, ls_unique ls, map no_span (ls_lexemes ls))" by (simp add: ls_abs_def)
  show ?case
  proof (cases "finder_find (le_fs env) (ls_paths ls) f")
    case (Inl e)
    then show ?thesis by (simp add: parse_sim_def abs)
  next
    case (Inr found)
    show ?thesis
    proof (cases found)
      case None
      with Inr show ?thesis by (simp add: parse_sim_def abs)
    next
      case (Some p)
      let ?paths = "case fs_parent (le_fs env) p of None \<Rightarrow> ls_paths ls | Some q \<Rightarrow> finder_add q (ls_paths ls)"
      let ?ls = "ls\<lparr>ls_paths := ?paths, ls_stack := input_push p (ls_stack ls)\<rparr>"
      have rd: "reading (le_files env p) (le_max_lines env) p (ls_stack ls) (file_text env p)
          (lf_open (le_files env p) (le_max_lines env)) (ls_stack ?ls)"
        using reading_open by simp
      have "file_sim (ls_stack ls) (lexicalize (ls_parse n env) env (lf_open (le_files env p) (le_max_lines env)) ?ls Unary)
          (tok_file (tok_parse n env) env (tokens (file_text env p)) (ls_abs ?ls) Unary)"
        using assms by (intro lexicalize_sim [OF _ _ Suc.IH rd]) (auto simp: files_ok_def)
      moreover have "ls_abs ?ls = (?paths, ls_unique ls, map no_span (ls_lexemes ls))" by (simp add: ls_abs_def)
      ultimately show ?thesis using Inr Some
        by (auto simp: file_sim_def parse_sim_def abs Let_def ls_abs_update(2) split: sum.splits)
    qed
  qed
qed


section \<open>Numbering, printing and reading back\<close>

lemma lexeme_make_unique: "lx_unique (fst (lexeme_make km cm b k ctx u span)) = u"
  by (auto simp: lexeme_make_def lexeme_blank_def Let_def split: lb_kind.splits option.splits prod.splits number_value.splits)

definition numbered :: "('k, 'ch) lex_abs \<Rightarrow> bool" where
  "numbered st = (case st of (paths, u, xs) \<Rightarrow> 1 \<le> u \<and> map lx_unique xs = [1..<u])"

lemma tok_file_numbered:
  assumes parse: "\<And>f st ok st'. parse f st = Inr (ok, st') \<Longrightarrow> numbered st \<Longrightarrow> numbered st'"
  shows "tok_file parse env ts st ctx = Inr st' \<Longrightarrow> numbered st \<Longrightarrow> numbered st'"
proof (induction ts arbitrary: st ctx rule: length_induct)
  case (1 ts)
  have IH: "tok_file parse env ts' st2 c2 = Inr st' \<Longrightarrow> numbered st2 \<Longrightarrow> length ts' < length ts \<Longrightarrow> numbered st'"
    for ts' st2 c2 using 1(1) by blast
  show ?case
  proof (cases ts)
    case Nil
    with 1 show ?thesis by simp
  next
    case (Cons t r)
    obtain paths u xs b k where st: "st = (paths, u, xs)" and t: "t = (b, k)" by (cases st, cases t)
    obtain x c log where m: "lexeme_make (le_keywords env) (le_symbols env) b k ctx u (0, 0) = (x, c, log)"
      by (metis prod.exhaust)
    consider "b = []" | "b \<noteq> []" "k = Lb_character \<and> b = ''#''" | "b \<noteq> []" "\<not> (k = Lb_character \<and> b = ''#'')"
      by blast
    then show ?thesis
    proof cases
      case 1
      with \<open>tok_file parse env ts st ctx = Inr st'\<close> Cons t show ?thesis
        by (intro IH [of r st ctx]) (use \<open>numbered st\<close> in auto)
    next
      case 2
      then obtain w kw ts1 where r: "r = (w, kw) # ts1"
        using \<open>tok_file parse env ts st ctx = Inr st'\<close> Cons t by (auto split: list.splits)
      show ?thesis
      proof (cases "w = ''include''")
        case False
        with 1(2) Cons t r 2 have "tok_file parse env ts1 st ctx = Inr st'" by simp
        then show ?thesis by (rule IH) (use 1(3) Cons r in auto)
      next
        case True
        then obtain f fk ts2 where ts1: "ts1 = (f, fk) # ts2" using 1(2) Cons t r 2 by (auto split: list.splits)
        show ?thesis
        proof (cases "fk = Lb_string_literal")
          case False
          with 1(2) Cons t r ts1 True 2 have "tok_file parse env ts2 st ctx = Inr st'" by simp
          then show ?thesis by (rule IH) (use 1(3) Cons r ts1 in auto)
        next
          case lit: True
          with 1(2) Cons t r ts1 True 2 obtain found st2 where p: "parse f st = Inr (found, st2)"
            "tok_file parse env ts2 st2 ctx = Inr st'" by (auto simp: bindE_eq_Inr)
          from p(2) show ?thesis by (rule IH) (use 1(3) Cons r ts1 parse [OF p(1)] in auto)
        qed
      qed
    next
      case 3
      have n: "numbered (paths, Suc u, xs @ [x])"
        using 1(3) st lexeme_make_unique [of "le_keywords env" "le_symbols env" b k ctx u "(0, 0)"] m
        by (simp add: numbered_def)
      from 1(2) Cons t 3 st m have "tok_file parse env r (paths, Suc u, xs @ [x]) c = Inr st'" by simp
      then show ?thesis by (rule IH) (use n Cons in auto)
    qed
  qed
qed

lemma tok_parse_numbered:
  "tok_parse n env f st = Inr (ok, st') \<Longrightarrow> numbered st \<Longrightarrow> numbered st'"
proof (induction n arbitrary: f st ok st')
  case (Suc n)
  obtain paths u xs where st: "st = (paths, u, xs)" by (cases st)
  show ?case
  proof (cases "finder_find (le_fs env) paths f")
    case (Inr found)
    show ?thesis
    proof (cases found)
      case None
      with Suc.prems Inr st show ?thesis by simp
    next
      case (Some p)
      let ?paths = "case fs_parent (le_fs env) p of None \<Rightarrow> paths | Some q \<Rightarrow> finder_add q paths"
      have "tok_file (tok_parse n env) env (tokens (file_text env p)) (?paths, u, xs) Unary = Inr st'"
        using Suc.prems(1) Inr st Some by (auto simp: bindE_eq_Inr)
      from tok_file_numbered [OF _ this] Suc.IH show ?thesis using Suc.prems(2) st by (auto simp: numbered_def)
    qed
  qed (use Suc.prems st in simp)
qed simp

text \<open>The lexemes of a token list without directives.\<close>

fun classify_all :: "('k, 'ch) lex_env \<Rightarrow> minus_context \<Rightarrow> nat \<Rightarrow> (string \<times> lb_kind) list \<Rightarrow> ('k, 'ch) lexeme list" where
  "classify_all env ctx u [] = []"
| "classify_all env ctx u ((b, k) # ts) =
     (case lexeme_make (le_keywords env) (le_symbols env) b k ctx u (0, 0) of (x, ctx', log) \<Rightarrow>
        x # classify_all env ctx' (Suc u) ts)"

lemma tok_file_plain:
  "list_all (\<lambda>(b, k). b \<noteq> [] \<and> b \<noteq> ''#'') ts \<Longrightarrow>
   tok_file parse env ts (paths, u, xs) ctx = Inr (paths, u + length ts, xs @ classify_all env ctx u ts)"
proof (induction ts arbitrary: u xs ctx)
  case (Cons t ts)
  obtain b k where t: "t = (b, k)" by (cases t)
  obtain x c log where m: "lexeme_make (le_keywords env) (le_symbols env) b k ctx u (0, 0) = (x, c, log)"
    by (metis prod.exhaust)
  from Cons t m show ?case by simp
qed simp

text \<open>Writing tokens out, a space after each; the tokens that can be written.\<close>

definition print_token :: "string \<times> lb_kind \<Rightarrow> string" where
  "print_token t = (if snd t = Lb_string_literal then DQUOTE # fst t @ [DQUOTE] else fst t) @ '' ''"

definition other_char :: "char \<Rightarrow> bool" where
  "other_char c \<longleftrightarrow> \<not> ident_start c \<and> \<not> isdigit c \<and> c \<noteq> DQUOTE \<and> c \<noteq> CHR ''%'' \<and> c \<noteq> CHR '' '' \<and> c \<noteq> TAB \<and> c \<noteq> NL
     \<and> c \<noteq> CHR ''#''"

definition printable :: "string \<times> lb_kind \<Rightarrow> bool" where
  "printable t = (case snd t of
     Lb_string \<Rightarrow> fst t \<noteq> [] \<and> ident_start (hd (fst t)) \<and> list_all ident_char (tl (fst t))
   | Lb_number \<Rightarrow> fst t \<noteq> [] \<and> isdigit (hd (fst t)) \<and> snd (number_chars num_start (tl (fst t))) = []
   | Lb_character \<Rightarrow> fst t = ''->'' \<or> fst t = ''...'' \<or> (length (fst t) = 1 \<and> other_char (hd (fst t)))
   | Lb_string_literal \<Rightarrow> fst t \<noteq> [] \<and> DQUOTE \<notin> set (fst t) \<and> fst t \<noteq> ''#'')"

lemma number_chars_append:
  "snd (number_chars f n) = [] \<Longrightarrow> number_chars f (n @ CHR '' '' # r) = (n, CHR '' '' # r)"
  by (induction f n rule: number_chars.induct)
    (auto simp: num_wanted_def isdigit_def Let_def case_prod_unfold split: if_splits)

lemma tokens_Cons: "skip_ws cs = c # r \<Longrightarrow> first_token c r = (t, r') \<Longrightarrow> tokens cs = t # tokens r'"
  by (subst tokens.simps) simp

lemma tokens_space: "tokens (CHR '' '' # cs) = tokens cs"
  by (simp add: tokens.simps [of cs] tokens.simps [of "CHR '' '' # cs"])

lemma dropWhile_literal: "DQUOTE \<notin> set b \<Longrightarrow> dropWhile (\<lambda>c. c \<noteq> DQUOTE) (b @ DQUOTE # r) = DQUOTE # r"
  by (induction b) auto

lemma takeWhile_literal: "DQUOTE \<notin> set b \<Longrightarrow> takeWhile (\<lambda>c. c \<noteq> DQUOTE) (b @ DQUOTE # r) = b"
  by (induction b) auto

lemma ident_char_space: "\<not> ident_char CHR '' ''"
  by code_simp

lemma ident_spans:
  "list_all ident_char b \<Longrightarrow> takeWhile ident_char (b @ CHR '' '' # r) = b"
  "list_all ident_char b \<Longrightarrow> dropWhile ident_char (b @ CHR '' '' # r) = CHR '' '' # r"
  by (induction b) (auto simp: ident_char_space)

lemma not_white:
  "ident_start c \<Longrightarrow> c \<noteq> CHR ''%'' \<and> c \<noteq> CHR '' '' \<and> c \<noteq> TAB \<and> c \<noteq> NL"
  "isdigit c \<Longrightarrow> c \<noteq> CHR ''%'' \<and> c \<noteq> CHR '' '' \<and> c \<noteq> TAB \<and> c \<noteq> NL \<and> \<not> ident_start c"
  by (auto simp: ident_start_def cchar_defs Let_def)

lemma tokens_print:
  assumes "printable t" shows "tokens (print_token t @ cs) = t # tokens cs"
proof (cases t)
  case (Pair b k)
  have sp: "first_token c r = (t, CHR '' '' # cs) \<Longrightarrow> print_token t @ cs = c # r \<Longrightarrow> skip_ws (c # r) = c # r \<Longrightarrow> ?thesis" for c r
    using tokens_Cons [of "c # r" c r t "CHR '' '' # cs"] by (simp add: tokens_space)
  show ?thesis
  proof (cases k)
    case Lb_string
    then obtain c b' where "b = c # b'" "ident_start c" "list_all ident_char b'"
      using assms Pair by (cases b) (auto simp: printable_def)
    then show ?thesis using Lb_string Pair
      by (intro sp [of c "b' @ CHR '' '' # cs"])
        (auto simp: first_token_def print_token_def ident_spans dest: not_white)
  next
    case Lb_number
    then obtain c b' where "b = c # b'" "isdigit c" "snd (number_chars num_start b') = []"
      using assms Pair by (cases b) (auto simp: printable_def)
    then show ?thesis using Lb_number Pair
      by (intro sp [of c "b' @ CHR '' '' # cs"])
        (auto simp: first_token_def print_token_def number_chars_append dest: not_white)
  next
    case Lb_string_literal
    then have "DQUOTE \<notin> set b" using assms Pair by (auto simp: printable_def)
    then show ?thesis using Lb_string_literal Pair
      by (intro sp [of DQUOTE "b @ DQUOTE # CHR '' '' # cs"])
        (auto simp: first_token_def print_token_def takeWhile_literal dropWhile_literal ident_start_def cchar_defs)
  next
    case Lb_character
    then consider "b = ''->''" | "b = ''...''" | c where "b = [c]" "other_char c"
      using assms Pair by (cases b) (auto simp: printable_def)
    then show ?thesis
    proof cases
      case 1
      then show ?thesis using Lb_character Pair
        by (intro sp [of "CHR ''-''" "CHR ''>'' # CHR '' '' # cs"])
          (auto simp: first_token_def print_token_def ident_start_def cchar_defs)
    next
      case 2
      then show ?thesis using Lb_character Pair
        by (intro sp [of "CHR ''.''" "CHR ''.'' # CHR ''.'' # CHR '' '' # cs"])
          (auto simp: first_token_def print_token_def ident_start_def cchar_defs)
    next
      case (3 c)
      then show ?thesis using Lb_character Pair
        by (intro sp [of c "CHR '' '' # cs"]) (auto simp: first_token_def print_token_def other_char_def)
    qed
  qed
qed

lemma tokens_print_all: "list_all printable ts \<Longrightarrow> tokens (concat (map print_token ts)) = ts"
  by (induction ts) (auto simp: tokens_print)

lemma printable_plain: "list_all printable ts \<Longrightarrow> list_all (\<lambda>(b, k). b \<noteq> [] \<and> b \<noteq> ''#'') ts"
  by (induction ts) (auto simp: printable_def other_char_def ident_start_def cchar_defs split: lb_kind.splits)


section \<open>Properties\<close>

text \<open>C24: The lexer's reading loop refines a function on strings. In every state the lexer reaches in a
  file that reads without failure (and with a line limit, if any, of at least one line), \<open>get_lexeme\<close> does
  not raise; it returns the first token of the text still to be delivered and leaves exactly the text whose
  tokens are the remaining ones, or an empty buffer when only white space and comments are left.\<close>

theorem get_lexeme_cuts_first_token:
  assumes "lf_run bs ml name s0 lf s" and "None \<notin> set bs" and "ml \<noteq> Some 0"
  shows "\<exists>w lf' s' log. get_lexeme lf s = Inr (w, lf', s', log) \<and> lf_run bs ml name s0 lf' s'
    \<and> (case tokens (lf_contents lf s) of
         [] \<Rightarrow> lb_buffer w = [] \<and> lf_contents lf' s' = []
       | t # ts \<Rightarrow> lb_buffer w = fst t \<and> lb_kind w = Some (snd t) \<and> tokens (lf_contents lf' s') = ts)"
proof -
  have rd: "reading bs ml name s0 (lf_contents lf s) lf s" using assms(1) by (simp add: reading_def)
  show ?thesis
    by (rule reading_tokens [OF rd assms(2,3)]) (auto simp: reading_def lb_new_def)
qed

theorem get_lexeme_cuts_first_token_witness:
  "\<exists>w lf' s' log. get_lexeme (lf_open (map Some ''a->b'') None) (input_push ''f'' []) = Inr (w, lf', s', log)
     \<and> lb_buffer w = ''a'' \<and> tokens (lf_contents lf' s') = [(''->'', Lb_character), (''b'', Lb_string)]"
proof -
  have "lf_contents (lf_open (map Some ''a->b'') None) (input_push ''f'' []) = ''a->b''"
    by (simp add: lf_open_def lf_contents_def limit_lines_def)
  moreover have "tokens ''a->b'' = [(''a'', Lb_string), (''->'', Lb_character), (''b'', Lb_string)]"
    by code_simp
  ultimately show ?thesis
    using get_lexeme_cuts_first_token [OF lf_run.opened [of "map Some ''a->b''" None "''f''" "[]"]] by auto
qed

text \<open>C25: Reading a translation unit refines the token-level machine: for readable files, whatever the
  includes, \<open>parse\<close> gives the result that running over the token lists of the files gives (the same
  error, the same search path, and the same lexemes with the same numbers), and the input stack is balanced
  again.\<close>

theorem lexstream_refines_tokens:
  assumes "files_ok env"
  shows "case ls_parse n env f ls of
      Inl e \<Rightarrow> tok_parse n env f (ls_abs ls) = Inl e
    | Inr (ok, ls') \<Rightarrow> tok_parse n env f (ls_abs ls) = Inr (ok, ls_abs ls') \<and> ls_stack ls' = ls_stack ls"
  using ls_parse_sim [OF assms, of ls n f] by (simp add: parse_sim_def)

definition example_env :: "(string \<times> string) list \<Rightarrow> (nat, character_type) lex_env" where
  "example_env fs =
     \<lparr>le_keywords = [], le_symbols = symbols,
      le_fs = \<lparr>fs_is_absolute = (\<lambda>p. False), fs_exists = (\<lambda>p. p \<in> set (map fst fs)), fs_canonical = (\<lambda>p. Inr p),
               fs_join = (\<lambda>a b. b), fs_absolute = (\<lambda>p. p), fs_parent = (\<lambda>p. None), fs_getenv = (\<lambda>v. None),
               fs_initial_path = ''d''\<rparr>,
      le_files = (\<lambda>p. case map_of fs p of None \<Rightarrow> [] | Some t \<Rightarrow> map Some t), le_max_lines = None\<rparr>"

lemma example_env_ok: "files_ok (example_env fs)"
  by (auto simp: files_ok_def example_env_def split: option.splits)

theorem lexstream_refines_tokens_witness:
  "\<exists>ls. ls_parse 2 (example_env [(''f'', ''a#include\"g\"c''), (''g'', ''b'')]) ''f'' (ls_empty [''d'']) = Inr (True, ls)
     \<and> map lx_id (ls_lexemes ls) = [Some ''a'', Some ''b'', Some ''c''] \<and> ls_stack ls = []"
proof -
  let ?env = "example_env [(''f'', ''a#include\"g\"c''), (''g'', ''b'')]"
  have "case tok_parse 2 ?env ''f'' ([''d''], 1, []) of
      Inl e \<Rightarrow> False
    | Inr (ok, paths, u, xs) \<Rightarrow> ok \<and> map lx_id xs = [Some ''a'', Some ''b'', Some ''c'']" by code_simp
  moreover have "ls_abs (ls_empty [''d''] :: (nat, character_type) lexstream) = ([''d''], 1, [])"
    by (simp add: ls_abs_def ls_empty_def)
  ultimately show ?thesis
    using lexstream_refines_tokens [OF example_env_ok, of 2 "[(''f'', ''a#include\"g\"c''), (''g'', ''b'')]" "''f''" "ls_empty [''d'']"]
    by (auto simp: ls_abs_def no_span_def comp_def ls_empty_def split: sum.splits)
qed

text \<open>When the lexer of a translation unit returns, the lexemes are numbered consecutively from 1 in
  the order of the text, across all included files.\<close>

theorem lexemes_numbered:
  assumes "files_ok env" and "ls_new n env paths f = Inr ls"
  shows "map lx_unique (ls_lexemes ls) = [1..<ls_unique ls] \<and> ls_stack ls = []"
proof -
  obtain ok ls1 where p: "ls_parse n env f (ls_empty paths) = Inr (ok, ls1)"
    "ls_lexemes ls = ls_lexemes ls1" "ls_unique ls = ls_unique ls1" "ls_stack ls = ls_stack ls1"
    using assms(2) by (auto simp: ls_new_def bindE_eq_Inr split: if_splits)
  have t: "tok_parse n env f (ls_abs (ls_empty paths)) = Inr (ok, ls_abs ls1)" "ls_stack ls1 = []"
    using ls_parse_sim [OF assms(1), of "ls_empty paths" n f] p(1) by (auto simp: parse_sim_def ls_empty_def)
  have "numbered (ls_abs (ls_empty paths))" by (simp add: numbered_def ls_abs_def ls_empty_def)
  from tok_parse_numbered [OF t(1) this] have "map lx_unique (map no_span (ls_lexemes ls1)) = [1..<ls_unique ls1]"
    by (simp add: numbered_def ls_abs_def)
  then show ?thesis using p t(2) by (simp add: no_span_def comp_def)
qed


theorem lexemes_numbered_witness:
  "\<exists>ls. ls_new 2 (example_env [(''f'', ''a b'')]) [''d''] ''f'' = Inr ls \<and> map lx_unique (ls_lexemes ls) = [1..<ls_unique ls]"
proof -
  let ?env = "example_env [(''f'', ''a b'')]"
  have "case tok_parse 2 ?env ''f'' ([''d''], 1, []) of Inl e \<Rightarrow> False | Inr (ok, st) \<Rightarrow> True" by code_simp
  moreover have "ls_abs (ls_empty [''d''] :: (nat, character_type) lexstream) = ([''d''], 1, [])"
    by (simp add: ls_abs_def ls_empty_def)
  ultimately obtain ok ls where "ls_parse 2 ?env ''f'' (ls_empty [''d'']) = Inr (ok, ls)"
    using ls_parse_sim [OF example_env_ok, of "ls_empty [''d'']" 2 "[(''f'', ''a b'')]" "''f''"]
    by (auto simp: parse_sim_def split: sum.splits)
  then obtain ls' where "ls_new 2 ?env [''d''] ''f'' = Inr ls'" by (cases ok) (simp_all add: ls_new_def)
  with lexemes_numbered [OF example_env_ok this] show ?thesis by blast
qed

text \<open>C26: Printing and reading back: a file that consists of any printable tokens (identifiers, numbers,
  symbols, non-empty string literals in quotes), a space after each, is read without fuel beyond its own
  level, and gives exactly one lexeme for each token in order, classified from left to right.\<close>

theorem lexer_reads_back_tokens:
  assumes "files_ok env" and "finder_find (le_fs env) (ls_paths ls) f = Inr (Some p)"
    and "file_text env p = concat (map print_token ts)" and "list_all printable ts"
  shows "\<exists>ls'. ls_parse (Suc n) env f ls = Inr (True, ls')
    \<and> map no_span (ls_lexemes ls') = map no_span (ls_lexemes ls) @ classify_all env Unary (ls_unique ls) ts
    \<and> ls_unique ls' = ls_unique ls + length ts \<and> ls_stack ls' = ls_stack ls"
proof -
  have "tok_parse (Suc n) env f (ls_abs ls)
    = Inr (True, case fs_parent (le_fs env) p of None \<Rightarrow> ls_paths ls | Some q \<Rightarrow> finder_add q (ls_paths ls),
        ls_unique ls + length ts, map no_span (ls_lexemes ls) @ classify_all env Unary (ls_unique ls) ts)"
    using assms(2-4) by (simp add: ls_abs_def tokens_print_all tok_file_plain [OF printable_plain])
  with ls_parse_sim [OF assms(1), of ls "Suc n" f] show ?thesis
    by (auto simp: parse_sim_def ls_abs_def split: sum.splits)
qed

theorem lexer_reads_back_tokens_witness:
  "\<exists>ls. ls_parse 1 (example_env [(''f'', ''x = - 42 '')]) ''f'' (ls_empty [''d'']) = Inr (True, ls)
     \<and> map (\<lambda>x. (lx_id x, lx_s x, lx_z x)) (map no_span (ls_lexemes ls))
       = [(Some ''x'', None, None), (None, Some equals, None), (None, Some unary_minus, None), (None, None, Some 42)]"
proof -
  let ?ts = "[(''x'', Lb_string), (''='', Lb_character), (''-'', Lb_character), (''42'', Lb_number)]"
  have f: "finder_find (le_fs (example_env [(''f'', ''x = - 42 '')]))
      (ls_paths (ls_empty [''d''] :: (nat, character_type) lexstream)) ''f'' = Inr (Some ''f'')"
    and t: "file_text (example_env [(''f'', ''x = - 42 '')]) ''f'' = concat (map print_token ?ts)"
    by (simp_all add: finder_find_def example_env_def ls_empty_def file_text_def print_token_def)
  have p: "list_all printable ?ts" by code_simp
  have c: "map (\<lambda>x. (lx_id x, lx_s x, lx_z x)) (classify_all (example_env [(''f'', ''x = - 42 '')]) Unary 1 ?ts)
      = [(Some ''x'', None, None), (None, Some equals, None), (None, Some unary_minus, None), (None, None, Some 42)]"
    by code_simp
  obtain ls where ls: "ls_parse (Suc 0) (example_env [(''f'', ''x = - 42 '')]) ''f'' (ls_empty [''d'']) = Inr (True, ls)"
    "map no_span (ls_lexemes ls) = classify_all (example_env [(''f'', ''x = - 42 '')]) Unary 1 ?ts"
    using lexer_reads_back_tokens [OF example_env_ok f t p, of 0] by (auto simp: ls_empty_def)
  show ?thesis unfolding One_nat_def by (rule exI [of _ ls]) (simp only: ls c simp_thms)
qed

text \<open>There is no guard against circular inclusion. If the first tokens of a file include that file
  again, \<open>parse\<close> exhausts any depth of recursion: it never returns.\<close>

theorem circular_include_never_returns:
  assumes "files_ok env" and "\<And>paths. paths \<noteq> [] \<Longrightarrow> finder_find (le_fs env) paths f = Inr (Some p)"
    and "ls_paths ls \<noteq> []"
    and "tokens (file_text env p) = (''#'', Lb_character) # (''include'', Lb_string) # (f, Lb_string_literal) # ts"
  shows "ls_parse n env f ls = Inl Out_of_fuel"
proof -
  have "fst st \<noteq> [] \<Longrightarrow> tok_parse n env f st = Inl Out_of_fuel" for st
  proof (induction n arbitrary: st)
    case (Suc n)
    obtain paths rest where st: "st = (paths, rest)" by (cases st)
    have "finder_add q paths \<noteq> []" for q by (cases paths) (simp_all add: finder_add_def)
    with Suc assms(2) [of paths] assms(4) st show ?case by (auto split: option.split)
  qed simp
  then show ?thesis using ls_parse_sim [OF assms(1), of ls n f] assms(3)
    by (auto simp: parse_sim_def ls_abs_def split: sum.splits)
qed

theorem circular_include_never_returns_witness:
  "ls_parse 1000 (example_env [(''f'', ''#include \"f\"'')]) ''f'' (ls_empty [''d'']) = Inl Out_of_fuel"
proof (rule circular_include_never_returns [OF example_env_ok])
  show "finder_find (le_fs (example_env [(''f'', ''#include \"f\"'')])) paths ''f'' = Inr (Some ''f'')"
    if "paths \<noteq> []" for paths
    using that by (cases paths) (simp_all add: finder_find_def example_env_def)
  show "ls_paths (ls_empty [''d'']) \<noteq> []" by (simp add: ls_empty_def)
  show "tokens (file_text (example_env [(''f'', ''#include \"f\"'')]) ''f'')
      = [(''#'', Lb_character), (''include'', Lb_string), (''f'', Lb_string_literal)]" by code_simp
qed

definition first_word :: "string \<Rightarrow> string" where
  "first_word text_of_file =
     (case get_lexeme (lf_open (map Some text_of_file) None) (input_push ''f'' []) of
        Inl e \<Rightarrow> [] | Inr (w, lf, s, log) \<Rightarrow> lb_buffer w)"

lemma readable_Some: "readable (map Some cs) = cs"
  by (induction cs) auto

lemma first_word_token: "first_word cs = (case tokens cs of [] \<Rightarrow> [] | t # ts \<Rightarrow> fst t)"
proof -
  have rd: "reading (map Some cs) None ''f'' [] cs (lf_open (map Some cs) None) (input_push ''f'' [])"
    unfolding reading_def
    by (rule conjI [OF lf_run.opened]) (simp add: lf_open_def lf_contents_def input_push_def limit_lines_def readable_Some)
  show ?thesis by (rule reading_tokens [OF rd]) (auto simp: first_word_def lb_new_def)
qed

text \<open>Which hexadecimal digits the lexer knows. Of the 22 one-digit literals \<open>0x0\<close> \dots \<open>0xF\<close>, read as
  the text of a file, all are cut off whole except \<open>0xC\<close>, of which only \<open>0x\<close> is.\<close>

theorem hexadecimal_digit_C_missing:
  "filter (\<lambda>d. first_word (''0x'' @ [d]) \<noteq> ''0x'' @ [d]) ''0123456789abcdefABCDEF'' = ''C''
   \<and> first_word ''0xC'' = ''0x''"
  unfolding first_word_token by code_simp

end
