(* ===== verification/Index_Database.thy ===== *)
theory Index_Database
  imports Transport_Prelude
begin

text \<open>
  The ordered database of indices, \<open>macro_substitution/index_database.h\<close>: a map from labels to records,
  the list of its entries in the order they were added, and an index into that list. The three are kept
  as the code keeps them; \<open>idb_inv\<close> says when they agree, and then the database is the ordered list of
  its records. Clients use it through the locale \<open>ordered_db\<close>.
\<close>

section \<open>State and operations\<close>

text \<open>A node of the ordered list is named by the key it points at in the map; an iterator is a node, or
  \<open>None\<close> for the end. The map is an association list with unique keys.\<close>

record 'r index_db =
  idb_db :: "(char \<times> 'r) list"
  idb_order :: "char list"
  idb_index :: "(char \<times> char) list"

type_synonym idb_iterator = "char option"

definition idb_empty :: "'r index_db" where
  "idb_empty = \<lparr>idb_db = [], idb_order = [], idb_index = []\<rparr>"

text \<open>\<open>std::map::emplace\<close> does nothing when the key is present.\<close>

definition assoc_emplace :: "'k \<Rightarrow> 'v \<Rightarrow> ('k \<times> 'v) list \<Rightarrow> ('k \<times> 'v) list \<times> bool" where
  "assoc_emplace k v xs = (case map_of xs k of None \<Rightarrow> (xs @ [(k, v)], True) | Some _ \<Rightarrow> (xs, False))"

definition idb_emplace ::
  "(char \<Rightarrow> char list \<Rightarrow> char list) \<Rightarrow> ('r \<Rightarrow> char) \<Rightarrow> char \<Rightarrow> 'r \<Rightarrow> 'r index_db
   \<Rightarrow> exn + ((char \<times> bool) \<times> 'r index_db)" where
  "idb_emplace add label key r d =
     (let (db, inserted) = assoc_emplace key r (idb_db d);
          stored = the (map_of db key);
          d' = (if inserted
                then \<lparr>idb_db = db, idb_order = add key (idb_order d),
                      idb_index = fst (assoc_emplace (label stored) key (idb_index d))\<rparr>
                else d)
      in case map_of (idb_index d') (label stored) of
           None \<Rightarrow> Inl (Runtime_error ''ERROR_INDEX_DATABASE_EMPLACE_FAIL'')
         | Some it \<Rightarrow> Inr ((it, inserted), d'))"

definition idb_emplace_front ::
  "('r \<Rightarrow> char) \<Rightarrow> char \<Rightarrow> 'r \<Rightarrow> 'r index_db \<Rightarrow> exn + ((char \<times> bool) \<times> 'r index_db)" where
  "idb_emplace_front label key r d = idb_emplace (\<lambda>k ks. k # ks) label key r d"

definition idb_emplace_back ::
  "('r \<Rightarrow> char) \<Rightarrow> char \<Rightarrow> 'r \<Rightarrow> 'r index_db \<Rightarrow> exn + ((char \<times> bool) \<times> 'r index_db)" where
  "idb_emplace_back label key r d = idb_emplace (\<lambda>k ks. ks @ [k]) label key r d"

definition idb_size :: "'r index_db \<Rightarrow> nat" where
  "idb_size d = length (idb_db d)"

definition idb_find :: "char \<Rightarrow> 'r index_db \<Rightarrow> idb_iterator" where
  "idb_find key d = map_of (idb_index d) key"

definition idb_deref :: "'r index_db \<Rightarrow> idb_iterator \<Rightarrow> exn + 'r" where
  "idb_deref d it = (case it of None \<Rightarrow> Inl Undefined
     | Some k \<Rightarrow> case map_of (idb_db d) k of None \<Rightarrow> Inl Undefined | Some r \<Rightarrow> Inr r)"

text \<open>The records from \<open>begin()\<close> to \<open>end()\<close>; the reverse iterators give them backwards.\<close>

definition idb_list :: "'r index_db \<Rightarrow> 'r list" where
  "idb_list d = map (\<lambda>k. the (map_of (idb_db d) k)) (idb_order d)"

text \<open>\<open>operator[]\<close>: the bound it checks is one too large; it then steps to the end of the list and
  dereferences it.\<close>

definition idb_at :: "'r index_db \<Rightarrow> nat \<Rightarrow> exn + 'r" where
  "idb_at d i =
     (if idb_size d < i then Inl (Out_of_range ''ERROR_INDEX_DATABASE_OUT_OF_RANGE'')
      else idb_deref d (if i < length (idb_order d) then Some (idb_order d ! i) else None))"

text \<open>The copy constructor (and the move assignment, which moves the map): the list and the index are
  rebuilt against the new map.\<close>

definition idb_copy_step :: "exn + 'r index_db \<Rightarrow> char \<Rightarrow> exn + 'r index_db" where
  "idb_copy_step acc key =
     bindE acc (\<lambda>d.
       case map_of (idb_db d) key of
         None \<Rightarrow> Inl (Index_exception key)
       | Some _ \<Rightarrow> Inr (d\<lparr>idb_order := idb_order d @ [key],
                        idb_index := fst (assoc_emplace key key (idb_index d))\<rparr>))"

definition idb_copy :: "'r index_db \<Rightarrow> exn + 'r index_db" where
  "idb_copy obj =
     foldl idb_copy_step (Inr \<lparr>idb_db = idb_db obj, idb_order = [], idb_index = []\<rparr>) (idb_order obj)"

definition idb_difference_step ::
  "('r \<Rightarrow> char) \<Rightarrow> ('r \<Rightarrow> 'c) \<Rightarrow> 'r index_db \<Rightarrow> exn + 'r index_db \<Rightarrow> 'r \<Rightarrow> exn + 'r index_db" where
  "idb_difference_step label cls r acc idx =
     bindE acc (\<lambda>rval.
       case idb_find (label idx) r of
         None \<Rightarrow> bindE (idb_emplace_back label (label idx) idx rval) (\<lambda>(_, rval'). Inr rval')
       | Some it \<Rightarrow> bindE (idb_deref r (Some it)) (\<lambda>x.
           if cls idx \<noteq> cls x then Inl (Index_exception (label idx)) else Inr rval))"

definition idb_difference ::
  "('r \<Rightarrow> char) \<Rightarrow> ('r \<Rightarrow> 'c) \<Rightarrow> 'r index_db \<Rightarrow> 'r index_db \<Rightarrow> exn + 'r index_db" where
  "idb_difference label cls l r =
     foldl (idb_difference_step label cls r) (Inr idb_empty) (idb_list l)"

definition idb_merge_step :: "('r \<Rightarrow> char) \<Rightarrow> exn + 'r index_db \<Rightarrow> 'r \<Rightarrow> exn + 'r index_db" where
  "idb_merge_step label acc idx =
     bindE acc (\<lambda>rval.
       case idb_find (label idx) rval of
         Some it \<Rightarrow> Inl (Index_exception (label idx))
       | None \<Rightarrow> bindE (idb_emplace_back label (label idx) idx rval) (\<lambda>(_, rval'). Inr rval'))"

definition idb_merge :: "('r \<Rightarrow> char) \<Rightarrow> 'r index_db \<Rightarrow> 'r index_db \<Rightarrow> exn + 'r index_db" where
  "idb_merge label l r =
     foldl (idb_merge_step label) (idb_copy l) (idb_list r)"

section \<open>The interface\<close>

locale ordered_db =
  fixes inv :: "'d \<Rightarrow> bool"
    and items :: "'d \<Rightarrow> 'r list"
    and label :: "'r \<Rightarrow> char"
    and lookup :: "char \<Rightarrow> 'd \<Rightarrow> 'r option"
    and append :: "'r \<Rightarrow> 'd \<Rightarrow> exn + 'd"
    and push :: "'r \<Rightarrow> 'd \<Rightarrow> exn + 'd"
    and new :: "'d"
  assumes inv_new: "inv new"
    and items_new: "items new = []"
    and items_distinct: "inv d \<Longrightarrow> distinct (map label (items d))"
    and lookup_items: "inv d \<Longrightarrow> lookup k d = find (\<lambda>r. label r = k) (items d)"
    and append_fresh: "inv d \<Longrightarrow> label r \<notin> label ` set (items d) \<Longrightarrow>
      \<exists>d'. append r d = Inr d' \<and> inv d' \<and> items d' = items d @ [r]"
    and append_present: "inv d \<Longrightarrow> label r \<in> label ` set (items d) \<Longrightarrow> append r d = Inr d"
    and push_fresh: "inv d \<Longrightarrow> label r \<notin> label ` set (items d) \<Longrightarrow>
      \<exists>d'. push r d = Inr d' \<and> inv d' \<and> items d' = r # items d"
    and push_present: "inv d \<Longrightarrow> label r \<in> label ` set (items d) \<Longrightarrow> push r d = Inr d"
begin

lemma lookup_None_iff: "inv d \<Longrightarrow> lookup k d = None \<longleftrightarrow> k \<notin> label ` set (items d)"
  by (auto simp: lookup_items find_None_iff)

lemma lookup_Some: "inv d \<Longrightarrow> lookup k d = Some r \<Longrightarrow> r \<in> set (items d) \<and> label r = k"
  by (auto simp: lookup_items find_Some_iff)

primrec append_all :: "'r list \<Rightarrow> 'd \<Rightarrow> exn + 'd" where
  "append_all [] d = Inr d"
| "append_all (r # rs) d = bindE (append r d) (append_all rs)"

primrec push_all :: "'r list \<Rightarrow> 'd \<Rightarrow> exn + 'd" where
  "push_all [] d = Inr d"
| "push_all (r # rs) d = bindE (push r d) (push_all rs)"

lemma append_all_fresh:
  "inv d \<Longrightarrow> distinct (map label rs) \<Longrightarrow> label ` set rs \<inter> label ` set (items d) = {} \<Longrightarrow>
   \<exists>d'. append_all rs d = Inr d' \<and> inv d' \<and> items d' = items d @ rs"
proof (induction rs arbitrary: d)
  case (Cons r rs)
  obtain d1 where d1: "append r d = Inr d1" "inv d1" "items d1 = items d @ [r]"
    using append_fresh [of d r] Cons.prems by auto
  have "label ` set rs \<inter> label ` set (items d1) = {}" using Cons.prems d1(3) by auto
  with Cons.IH [OF d1(2)] Cons.prems(2) d1 show ?case by auto
qed simp

lemma push_all_fresh:
  "inv d \<Longrightarrow> distinct (map label rs) \<Longrightarrow> label ` set rs \<inter> label ` set (items d) = {} \<Longrightarrow>
   \<exists>d'. push_all rs d = Inr d' \<and> inv d' \<and> items d' = rev rs @ items d"
proof (induction rs arbitrary: d)
  case (Cons r rs)
  obtain d1 where d1: "push r d = Inr d1" "inv d1" "items d1 = r # items d"
    using push_fresh [of d r] Cons.prems by auto
  have "label ` set rs \<inter> label ` set (items d1) = {}" using Cons.prems d1(3) by auto
  with Cons.IH [OF d1(2)] Cons.prems(2) d1 show ?case by auto
qed simp

end

section \<open>The database provides it\<close>

definition idb_inv :: "('r \<Rightarrow> char) \<Rightarrow> 'r index_db \<Rightarrow> bool" where
  "idb_inv label d \<longleftrightarrow> distinct (idb_order d) \<and> distinct (map fst (idb_db d))
     \<and> set (idb_order d) = fst ` set (idb_db d)
     \<and> (\<forall>k. map_of (idb_index d) k = (if k \<in> set (idb_order d) then Some k else None))
     \<and> (\<forall>(k, r) \<in> set (idb_db d). label r = k)"

definition idb_lookup :: "char \<Rightarrow> 'r index_db \<Rightarrow> 'r option" where
  "idb_lookup k d = (case idb_deref d (idb_find k d) of Inl e \<Rightarrow> None | Inr r \<Rightarrow> Some r)"

definition idb_append :: "('r \<Rightarrow> char) \<Rightarrow> 'r \<Rightarrow> 'r index_db \<Rightarrow> exn + 'r index_db" where
  "idb_append label r d = bindE (idb_emplace_back label (label r) r d) (\<lambda>(_, d'). Inr d')"

definition idb_push :: "('r \<Rightarrow> char) \<Rightarrow> 'r \<Rightarrow> 'r index_db \<Rightarrow> exn + 'r index_db" where
  "idb_push label r d = bindE (idb_emplace_front label (label r) r d) (\<lambda>(_, d'). Inr d')"

lemma idb_map_of:
  assumes "idb_inv label d" and "k \<in> set (idb_order d)"
  shows "\<exists>r. map_of (idb_db d) k = Some r \<and> label r = k"
proof -
  obtain r where "map_of (idb_db d) k = Some r"
    using assms by (cases "map_of (idb_db d) k") (auto simp: idb_inv_def map_of_eq_None_iff)
  moreover from map_of_SomeD [OF this] have "label r = k" using assms(1) by (auto simp: idb_inv_def)
  ultimately show ?thesis by blast
qed

lemma idb_map_of_None: "idb_inv label d \<Longrightarrow> k \<notin> set (idb_order d) \<Longrightarrow> map_of (idb_db d) k = None"
  by (auto simp: idb_inv_def map_of_eq_None_iff)

lemma idb_labels: "idb_inv label d \<Longrightarrow> map label (idb_list d) = idb_order d"
  using idb_map_of by (fastforce simp: idb_list_def intro!: map_idI)

lemma idb_list_find:
  assumes "idb_inv label d"
  shows "find (\<lambda>r. label r = k) (idb_list d) = (if k \<in> set (idb_order d) then map_of (idb_db d) k else None)"
proof (cases "k \<in> set (idb_order d)")
  case True
  then obtain r where r: "map_of (idb_db d) k = Some r" "label r = k" using idb_map_of [OF assms] by blast
  have lab: "label (the (map_of (idb_db d) a)) = a" if "a \<in> set (idb_order d)" for a
    using idb_map_of [OF assms that] by auto
  have "set ks \<subseteq> set (idb_order d) \<Longrightarrow> k \<in> set ks \<Longrightarrow>
      find (\<lambda>r. label r = k) (map (\<lambda>k. the (map_of (idb_db d) k)) ks) = Some r" for ks
    by (induction ks) (auto simp: r lab)
  with True r show ?thesis by (simp add: idb_list_def)
next
  case False
  then have "k \<notin> label ` set (idb_list d)" using idb_labels [OF assms] by (metis set_map)
  with False show ?thesis by (auto simp: find_None_iff)
qed

lemma idb_emplace_present:
  assumes "idb_inv label d" and "label r \<in> set (idb_order d)"
  shows "idb_emplace add label (label r) r d = Inr ((label r, False), d)"
proof -
  obtain x where "map_of (idb_db d) (label r) = Some x" "label x = label r" using idb_map_of [OF assms] by blast
  with assms show ?thesis by (simp add: idb_emplace_def assoc_emplace_def idb_inv_def)
qed

lemma idb_emplace_fresh:
  assumes inv: "idb_inv label d" and fresh: "label r \<notin> set (idb_order d)"
    and add: "distinct (add (label r) (idb_order d))" "set (add (label r) (idb_order d)) = insert (label r) (set (idb_order d))"
  shows "\<exists>d'. idb_emplace add label (label r) r d = Inr ((label r, True), d') \<and> idb_inv label d'
     \<and> idb_list d' = map (\<lambda>k. if k = label r then r else the (map_of (idb_db d) k)) (add (label r) (idb_order d))"
proof -
  have n: "map_of (idb_db d) (label r) = None" by (rule idb_map_of_None [OF inv fresh])
  have i: "map_of (idb_index d) (label r) = None" using inv fresh by (simp add: idb_inv_def)
  let ?d = "\<lparr>idb_db = idb_db d @ [(label r, r)], idb_order = add (label r) (idb_order d),
      idb_index = idb_index d @ [(label r, label r)]\<rparr>"
  have e: "idb_emplace add label (label r) r d = Inr ((label r, True), ?d)"
    using n i by (simp add: idb_emplace_def assoc_emplace_def map_add_def)
  have "label r \<notin> fst ` set (idb_db d)" using inv fresh by (auto simp: idb_inv_def)
  then have "idb_inv label ?d" using inv fresh add n
    by (auto simp: idb_inv_def map_add_def split: option.splits)
  moreover have "idb_list ?d = map (\<lambda>k. if k = label r then r else the (map_of (idb_db d) k)) (add (label r) (idb_order d))"
  proof -
    have "the (map_of (idb_db d @ [(label r, r)]) k) = (if k = label r then r else the (map_of (idb_db d) k))"
      if "k \<in> insert (label r) (set (idb_order d))" for k
      using that n idb_map_of [OF inv, of k] by (auto simp: map_add_def)
    then show ?thesis using add(2) by (simp add: idb_list_def)
  qed
  ultimately show ?thesis using e by blast
qed

lemma idb_list_cong: "label r \<notin> set (idb_order d) \<Longrightarrow>
   map (\<lambda>k. if k = label r then r else the (map_of (idb_db d) k)) (idb_order d) = idb_list d"
  by (auto simp: idb_list_def)

lemma idb_append_fresh:
  "idb_inv label d \<Longrightarrow> label r \<notin> set (idb_order d) \<Longrightarrow>
   \<exists>d'. idb_append label r d = Inr d' \<and> idb_inv label d' \<and> idb_list d' = idb_list d @ [r]"
  using idb_emplace_fresh [of label d r "\<lambda>k ks. ks @ [k]"] idb_list_cong [of label r d]
  by (auto simp: idb_append_def idb_emplace_back_def idb_inv_def)

lemma idb_push_fresh:
  "idb_inv label d \<Longrightarrow> label r \<notin> set (idb_order d) \<Longrightarrow>
   \<exists>d'. idb_push label r d = Inr d' \<and> idb_inv label d' \<and> idb_list d' = r # idb_list d"
  using idb_emplace_fresh [of label d r "\<lambda>k ks. k # ks"] idb_list_cong [of label r d]
  by (auto simp: idb_push_def idb_emplace_front_def idb_inv_def)

lemma idb_label_image: "idb_inv label d \<Longrightarrow> label ` set (idb_list d) = set (idb_order d)"
  by (metis idb_labels set_map)

interpretation idb: ordered_db "idb_inv label" idb_list label idb_lookup "idb_append label" "idb_push label" idb_empty
  for label
proof unfold_locales
  show "idb_inv label idb_empty" by (simp add: idb_inv_def idb_empty_def)
  show "idb_list idb_empty = []" by (simp add: idb_list_def idb_empty_def)
next
  fix d :: "'a index_db" and k and r
  assume inv: "idb_inv label d"
  show "distinct (map label (idb_list d))" using inv by (simp add: idb_labels idb_inv_def)
  show "idb_lookup k d = find (\<lambda>r. label r = k) (idb_list d)"
    unfolding idb_list_find [OF inv] using inv idb_map_of [OF inv, of k]
    by (auto simp: idb_lookup_def idb_find_def idb_deref_def idb_inv_def split: option.splits sum.splits)
  note img = idb_label_image [OF inv]
  show "label r \<notin> label ` set (idb_list d) \<Longrightarrow>
      \<exists>d'. idb_append label r d = Inr d' \<and> idb_inv label d' \<and> idb_list d' = idb_list d @ [r]"
    unfolding img by (rule idb_append_fresh [OF inv])
  show "label r \<notin> label ` set (idb_list d) \<Longrightarrow>
      \<exists>d'. idb_push label r d = Inr d' \<and> idb_inv label d' \<and> idb_list d' = r # idb_list d"
    unfolding img by (rule idb_push_fresh [OF inv])
  show "label r \<in> label ` set (idb_list d) \<Longrightarrow> idb_append label r d = Inr d"
    unfolding img by (simp add: idb_append_def idb_emplace_back_def idb_emplace_present [OF inv])
  show "label r \<in> label ` set (idb_list d) \<Longrightarrow> idb_push label r d = Inr d"
    unfolding img by (simp add: idb_push_def idb_emplace_front_def idb_emplace_present [OF inv])
qed


section \<open>Copying, difference and merge\<close>

lemma idb_copy_steps:
  "distinct ks \<Longrightarrow> set ks \<inter> set (map fst (idb_index d)) = {} \<Longrightarrow> set ks \<subseteq> fst ` set (idb_db d) \<Longrightarrow>
   foldl idb_copy_step (Inr d) ks
     = Inr (d\<lparr>idb_order := idb_order d @ ks, idb_index := idb_index d @ map (\<lambda>k. (k, k)) ks\<rparr>)"
proof (induction ks arbitrary: d)
  case (Cons k ks)
  have "map_of (idb_index d) k = None" using Cons.prems(2) by (auto simp: map_of_eq_None_iff)
  moreover obtain r where "map_of (idb_db d) k = Some r"
    using Cons.prems(3) by (cases "map_of (idb_db d) k") (auto simp: map_of_eq_None_iff)
  ultimately have "idb_copy_step (Inr d) k
      = Inr (d\<lparr>idb_order := idb_order d @ [k], idb_index := idb_index d @ [(k, k)]\<rparr>)"
    by (simp add: idb_copy_step_def assoc_emplace_def)
  then show ?case using Cons.IH [of "d\<lparr>idb_order := idb_order d @ [k], idb_index := idb_index d @ [(k, k)]\<rparr>"] Cons.prems
    by auto
qed simp

lemma map_of_self: "map_of (map (\<lambda>k. (k, k)) ks) k = (if k \<in> set ks then Some k else None)"
  by (induction ks) auto

lemma idb_copy_ok:
  assumes "idb_inv label d"
  shows "\<exists>d'. idb_copy d = Inr d' \<and> idb_inv label d' \<and> idb_list d' = idb_list d"
proof -
  have "idb_copy d = Inr \<lparr>idb_db = idb_db d, idb_order = idb_order d, idb_index = map (\<lambda>k. (k, k)) (idb_order d)\<rparr>"
    using idb_copy_steps [of "idb_order d" "\<lparr>idb_db = idb_db d, idb_order = [], idb_index = []\<rparr>"] assms
    by (simp add: idb_copy_def idb_inv_def)
  with assms show ?thesis by (simp add: idb_inv_def idb_list_def map_of_self)
qed

lemma foldl_steps_Inl [simp]:
  "foldl (idb_merge_step label) (Inl e) xs = Inl e" "foldl (idb_difference_step label cls r) (Inl e) xs = Inl e"
  by (induction xs) (auto simp: idb_merge_step_def idb_difference_step_def)

lemma idb_find_deref:
  assumes "idb_inv label d"
  shows "idb_find k d = None \<longleftrightarrow> k \<notin> label ` set (idb_list d)"
    and "idb_find k d = Some it \<Longrightarrow> \<exists>r. idb_deref d (Some it) = Inr r \<and> r \<in> set (idb_list d) \<and> label r = k"
proof -
  show "idb_find k d = None \<longleftrightarrow> k \<notin> label ` set (idb_list d)"
    unfolding idb_label_image [OF assms] using assms by (auto simp: idb_find_def idb_inv_def)
  assume "idb_find k d = Some it"
  then have it: "it = k" "k \<in> set (idb_order d)" using assms by (auto simp: idb_find_def idb_inv_def split: if_splits)
  obtain r where "map_of (idb_db d) k = Some r" "label r = k" using idb_map_of [OF assms it(2)] by blast
  then show "\<exists>r. idb_deref d (Some it) = Inr r \<and> r \<in> set (idb_list d) \<and> label r = k"
    using it by (auto simp: idb_deref_def idb_list_def intro!: rev_image_eqI)
qed

lemma idb_merge_steps:
  assumes "idb_inv label d" and "distinct (map label rs)"
  shows "case find (\<lambda>x. label x \<in> label ` set (idb_list d)) rs of
      Some x \<Rightarrow> foldl (idb_merge_step label) (Inr d) rs = Inl (Index_exception (label x))
    | None \<Rightarrow> \<exists>d'. foldl (idb_merge_step label) (Inr d) rs = Inr d' \<and> idb_inv label d' \<and> idb_list d' = idb_list d @ rs"
  using assms
proof (induction rs arbitrary: d)
  case (Cons r rs)
  show ?case
  proof (cases "label r \<in> label ` set (idb_list d)")
    case True
    then obtain it where "idb_find (label r) d = Some it"
      using idb_find_deref(1) [OF Cons.prems(1), of "label r"] by blast
    with True show ?thesis by (simp add: idb_merge_step_def)
  next
    case False
    then obtain d1 where d1: "idb_append label r d = Inr d1" "idb_inv label d1" "idb_list d1 = idb_list d @ [r]"
      using idb.append_fresh [OF Cons.prems(1)] by blast
    have "find (\<lambda>x. label x \<in> label ` set (idb_list d1)) rs = find (\<lambda>x. label x \<in> label ` set (idb_list d)) rs"
      using Cons.prems(2) d1(3) by (intro find_cong refl) (auto simp: image_iff dest: sym)
    moreover have "idb_find (label r) d = None"
      using False idb_find_deref(1) [OF Cons.prems(1), of "label r"] by blast
    then have "idb_merge_step label (Inr d) r = Inr d1"
      using d1(1) by (simp add: idb_append_def idb_merge_step_def)
    ultimately show ?thesis using Cons.IH [OF d1(2)] Cons.prems(2) d1(3) False
      by (simp only: foldl_Cons find.simps if_False) (simp split: option.splits)
  qed
qed simp

lemma idb_difference_steps:
  assumes r: "idb_inv label r" and "idb_inv label d" and "distinct (map label ls)"
    and "label ` set ls \<inter> label ` set (idb_list d) = {}"
  shows "case find (\<lambda>x. \<exists>y \<in> set (idb_list r). label y = label x \<and> cls y \<noteq> cls x) ls of
      Some x \<Rightarrow> foldl (idb_difference_step label cls r) (Inr d) ls = Inl (Index_exception (label x))
    | None \<Rightarrow> \<exists>d'. foldl (idb_difference_step label cls r) (Inr d) ls = Inr d' \<and> idb_inv label d'
         \<and> idb_list d' = idb_list d @ filter (\<lambda>x. label x \<notin> label ` set (idb_list r)) ls"
  using assms(2-)
proof (induction ls arbitrary: d)
  case (Cons x ls)
  note fd = idb_find_deref [OF r, of "label x"]
  have unique: "y = z" if "y \<in> set (idb_list r)" "z \<in> set (idb_list r)" "label y = label z" for y z
    using idb.items_distinct [OF r] that by (auto simp: distinct_map inj_on_def)
  show ?case
  proof (cases "idb_find (label x) r")
    case None
    then have x: "label x \<notin> label ` set (idb_list r)" using fd(1) by blast
    obtain d1 where d1: "idb_append label x d = Inr d1" "idb_inv label d1" "idb_list d1 = idb_list d @ [x]"
      using idb.append_fresh [OF Cons.prems(1), of x] Cons.prems(3) by auto
    have "label ` set ls \<inter> label ` set (idb_list d1) = {}" using Cons.prems d1(3) by auto
    moreover have nc: "\<not> (\<exists>y \<in> set (idb_list r). label y = label x \<and> cls y \<noteq> cls x)" using x by (metis imageI)
    moreover have "idb_difference_step label cls r (Inr d) x = Inr d1"
      using None d1(1) by (simp add: idb_append_def idb_difference_step_def)
    ultimately show ?thesis using Cons.IH [OF d1(2)] Cons.prems(2) x d1(3)
      by (simp only: foldl_Cons find.simps nc if_False) (simp split: option.splits)
  next
    case (Some it)
    then obtain y where y: "idb_deref r (Some it) = Inr y" "y \<in> set (idb_list r)" "label y = label x"
      using fd(2) by blast
    have clash: "(\<exists>z \<in> set (idb_list r). label z = label x \<and> cls z \<noteq> cls x) \<longleftrightarrow> cls x \<noteq> cls y"
      using y unique by (metis)
    have x: "label x \<in> label ` set (idb_list r)" using y by (metis imageI)
    show ?thesis
    proof (cases "cls x = cls y")
      case True
      then have nc: "\<not> (\<exists>z \<in> set (idb_list r). label z = label x \<and> cls z \<noteq> cls x)" using clash by simp
      have "idb_difference_step label cls r (Inr d) x = Inr d"
        using Some y(1) True by (simp add: idb_difference_step_def)
      with Cons.IH [OF Cons.prems(1)] Cons.prems(2,3) x show ?thesis
        by (simp only: foldl_Cons find.simps nc if_False) (simp split: option.splits)
    next
      case False
      then have "idb_difference_step label cls r (Inr d) x = Inl (Index_exception (label x))"
        using Some y(1) by (simp add: idb_difference_step_def)
      moreover have "\<exists>z \<in> set (idb_list r). label z = label x \<and> cls z \<noteq> cls x" using clash False by simp
      ultimately show ?thesis by (simp only: foldl_Cons find.simps if_True option.case foldl_steps_Inl)
    qed
  qed
qed simp


section \<open>Properties\<close>

definition of_items :: "('r \<Rightarrow> char) \<Rightarrow> 'r list \<Rightarrow> 'r index_db" where
  "of_items label rs = \<lparr>idb_db = map (\<lambda>r. (label r, r)) rs, idb_order = map label rs,
     idb_index = map (\<lambda>r. (label r, label r)) rs\<rparr>"

lemma of_items_inv: "distinct (map label rs) \<Longrightarrow> idb_inv label (of_items label rs) \<and> idb_list (of_items label rs) = rs"
proof -
  assume d: "distinct (map label rs)"
  have "map_of (map (\<lambda>r. (label r, label r)) rs) k = (if k \<in> label ` set rs then Some k else None)" for k
    by (induction rs) auto
  moreover have m: "map_of (map (\<lambda>r. (label r, r)) rs) (label r) = Some r" if "r \<in> set rs" for r
    using d that by (intro map_of_is_SomeI) (auto simp: comp_def)
  have "map (\<lambda>x. the (map_of (map (\<lambda>r. (label r, r)) rs) (label x))) rs = rs"
    by (rule map_idI) (simp add: m)
  ultimately show ?thesis using d
    by (simp add: idb_inv_def of_items_def idb_list_def comp_def image_image)
qed

lemma idb_emplace_spec:
  assumes "idb_inv label d"
  shows "\<exists>b d1 f d2. idb_emplace_back label (label r) r d = Inr ((label r, b), d1)
      \<and> idb_emplace_front label (label r) r d = Inr ((label r, f), d2)
      \<and> idb_inv label d1 \<and> idb_inv label d2 \<and> b = f \<and> (b \<longleftrightarrow> idb_find (label r) d = None)
      \<and> (if b then idb_list d1 = idb_list d @ [r] \<and> idb_list d2 = r # idb_list d else d1 = d \<and> d2 = d)"
proof (cases "label r \<in> set (idb_order d)")
  case True
  then have "idb_find (label r) d \<noteq> None" using assms by (auto simp: idb_find_def idb_inv_def)
  with idb_emplace_present [OF assms True] assms show ?thesis
    by (simp add: idb_emplace_back_def idb_emplace_front_def)
next
  case False
  then have "idb_find (label r) d = None" using assms by (auto simp: idb_find_def idb_inv_def)
  moreover have "\<exists>d1. idb_emplace_back label (label r) r d = Inr ((label r, True), d1) \<and> idb_inv label d1
      \<and> idb_list d1 = idb_list d @ [r]"
    using idb_emplace_fresh [OF assms False, of "\<lambda>k ks. ks @ [k]"] idb_list_cong [of label r d, OF False] False assms
    by (auto simp: idb_emplace_back_def idb_inv_def)
  moreover have "\<exists>d2. idb_emplace_front label (label r) r d = Inr ((label r, True), d2) \<and> idb_inv label d2
      \<and> idb_list d2 = r # idb_list d"
    using idb_emplace_fresh [OF assms False, of "\<lambda>k ks. k # ks"] idb_list_cong [of label r d, OF False] False assms
    by (auto simp: idb_emplace_front_def idb_inv_def)
  ultimately show ?thesis by auto
qed

text \<open>Entering a record: at the back or the front of the ordered database, a record whose label is
  new becomes the last or first of the sequence and everything else keeps its place; a record whose label is
  present changes nothing; the iterator returned finds the entry, and the lookup structures stay
  consistent.\<close>

theorem idb_emplace_order:
  assumes "idb_inv label d"
  shows "\<exists>b d1 f d2. idb_emplace_back label (label r) r d = Inr ((label r, b), d1)
      \<and> idb_emplace_front label (label r) r d = Inr ((label r, f), d2)
      \<and> idb_inv label d1 \<and> idb_inv label d2 \<and> b = f \<and> (b \<longleftrightarrow> idb_find (label r) d = None)
      \<and> (if b then idb_list d1 = idb_list d @ [r] \<and> idb_list d2 = r # idb_list d else d1 = d \<and> d2 = d)"
  using assms by (rule idb_emplace_spec)

theorem idb_emplace_order_witness:
  "\<exists>b d. idb_emplace_back fst CHR ''c'' (CHR ''c'', 7::nat) (of_items fst [(CHR ''b'', 1), (CHR ''a'', 2)])
     = Inr ((CHR ''c'', b), d) \<and> idb_list d = [(CHR ''b'', 1), (CHR ''a'', 2), (CHR ''c'', 7)]"
proof -
  let ?d = "of_items fst [(CHR ''b'', 1::nat), (CHR ''a'', 2)]"
  have inv: "idb_inv fst ?d" "idb_list ?d = [(CHR ''b'', 1), (CHR ''a'', 2)]"
    using of_items_inv [of fst "[(CHR ''b'', 1::nat), (CHR ''a'', 2)]"] by simp_all
  have "idb_find CHR ''c'' ?d = None" by (simp add: idb_find_def of_items_def)
  then show ?thesis using idb_emplace_order [OF inv(1), of "(CHR ''c'', 7)"] inv(2) by auto
qed

lemma idb_merge_spec:
  assumes "idb_inv label l" and "idb_inv label r"
  shows "case find (\<lambda>x. label x \<in> label ` set (idb_list l)) (idb_list r) of
      Some x \<Rightarrow> idb_merge label l r = Inl (Index_exception (label x))
    | None \<Rightarrow> \<exists>d. idb_merge label l r = Inr d \<and> idb_inv label d \<and> idb_list d = idb_list l @ idb_list r"
proof -
  obtain c where c: "idb_copy l = Inr c" "idb_inv label c" "idb_list c = idb_list l"
    using idb_copy_ok [OF assms(1)] by blast
  show ?thesis unfolding idb_merge_def c(1)
    using idb_merge_steps [OF c(2) idb.items_distinct [OF assms(2)]] unfolding c(3) .
qed

text \<open>The sum of two databases is the first sequence followed by the second; when a label occurs in
  both, the sum raises an exception that names the first such label of the second.\<close>

theorem idb_merge_appends:
  assumes "idb_inv label l" and "idb_inv label r"
  shows "case find (\<lambda>x. label x \<in> label ` set (idb_list l)) (idb_list r) of
      Some x \<Rightarrow> idb_merge label l r = Inl (Index_exception (label x))
    | None \<Rightarrow> \<exists>d. idb_merge label l r = Inr d \<and> idb_inv label d \<and> idb_list d = idb_list l @ idb_list r"
  using assms by (rule idb_merge_spec)

theorem idb_merge_appends_witness:
  "\<exists>d. idb_merge id (of_items id ''ba'') (of_items id ''dc'') = Inr d \<and> idb_list d = ''badc''"
  using idb_merge_appends [of id "of_items id ''ba''" "of_items id ''dc''"]
    of_items_inv [of id "''ba''"] of_items_inv [of id "''dc''"] by auto

lemma idb_difference_spec:
  assumes "idb_inv label l" and "idb_inv label r"
  shows "case find (\<lambda>x. \<exists>y \<in> set (idb_list r). label y = label x \<and> cls y \<noteq> cls x) (idb_list l) of
      Some x \<Rightarrow> idb_difference label cls l r = Inl (Index_exception (label x))
    | None \<Rightarrow> \<exists>d. idb_difference label cls l r = Inr d \<and> idb_inv label d
        \<and> idb_list d = filter (\<lambda>x. label x \<notin> label ` set (idb_list r)) (idb_list l)"
  unfolding idb_difference_def
  using idb_difference_steps [OF assms(2) idb.inv_new idb.items_distinct [OF assms(1)], of cls]
  unfolding idb.items_new append_Nil by simp

text \<open>The difference of two databases is the subsequence of the first whose labels are not in the
  second; when a label has different classes in the two, the difference raises an exception that names the first
  such label.\<close>

theorem idb_difference_filters:
  assumes "idb_inv label l" and "idb_inv label r"
  shows "case find (\<lambda>x. \<exists>y \<in> set (idb_list r). label y = label x \<and> cls y \<noteq> cls x) (idb_list l) of
      Some x \<Rightarrow> idb_difference label cls l r = Inl (Index_exception (label x))
    | None \<Rightarrow> \<exists>d. idb_difference label cls l r = Inr d \<and> idb_inv label d
        \<and> idb_list d = filter (\<lambda>x. label x \<notin> label ` set (idb_list r)) (idb_list l)"
  using assms by (rule idb_difference_spec)

theorem idb_difference_filters_witness:
  "\<exists>d. idb_difference id islower (of_items id ''bac'') (of_items id ''ad'') = Inr d \<and> idb_list d = ''bc''"
  using idb_difference_filters [of id "of_items id ''bac''" "of_items id ''ad''" islower]
    of_items_inv [of id "''bac''"] of_items_inv [of id "''ad''"] by auto

text \<open>The bound of the subscript is off by one: below the size it gives the element, above the size it
  raises, and at the size exactly it dereferences the end of the list.\<close>

theorem idb_subscript_at_size:
  assumes "idb_inv label d"
  shows "idb_at d i = (if i < idb_size d then Inr (idb_list d ! i)
     else if i = idb_size d then Inl Undefined else Inl (Out_of_range ''ERROR_INDEX_DATABASE_OUT_OF_RANGE''))"
proof -
  have n: "idb_size d = length (idb_order d)"
    using assms by (metis distinct_card idb_inv_def idb_size_def length_map list.set_map)
  have "idb_deref d (Some (idb_order d ! i)) = Inr (idb_list d ! i)" if "i < length (idb_order d)"
    using idb_map_of [OF assms nth_mem [OF that]] that by (auto simp: idb_deref_def idb_list_def)
  then show ?thesis unfolding idb_at_def n by (auto simp: idb_deref_def)
qed

theorem idb_subscript_at_size_witness:
  "idb_at (of_items id ''ab'') 1 = Inr CHR ''b'' \<and> idb_at (of_items id ''ab'') 2 = Inl Undefined"
  using idb_subscript_at_size [of id "of_items id ''ab''" 1] idb_subscript_at_size [of id "of_items id ''ab''" 2]
    of_items_inv [of id "''ab''"] by (simp add: idb_size_def of_items_def)

end
