(* ===== verification/Indices.thy ===== *)
theory Indices
  imports Index_Database "HOL-Library.Word"
begin

text \<open>
  Indices: \<open>macro_substitution/{index_class,abstract_index,index_literal}\<close> and the concrete indices of
  \<open>transport-objects/indices/{indices,index_flatten,index_traits}\<close>. Numbers are 32-bit words, as the
  \<open>unsigned int\<close>s of the code are.
\<close>

section \<open>Classes of indices\<close>

datatype index_class = field_only | full | parameter

definition identify_index :: "char \<Rightarrow> index_class" where
  "identify_index label =
     (if islower label then field_only else if isupper label then full
      else if isdigit label then parameter else full)"

definition index_class_string :: "index_class \<Rightarrow> string" where
  "index_class_string c = (case c of parameter \<Rightarrow> ''parameter'' | field_only \<Rightarrow> ''field'' | full \<Rightarrow> ''full phase-space'')"

section \<open>Abstract indices\<close>

record abstract_index =
  ai_label :: char
  ai_class :: index_class
  ai_fields :: u32
  ai_params :: u32
  ai_mappings :: int
  ai_pre :: "string list"
  ai_post :: "string list"

type_synonym abstract_index_database = "abstract_index index_db"

definition abstract_index_of_class :: "char \<Rightarrow> index_class \<Rightarrow> u32 \<Rightarrow> u32 \<Rightarrow> abstract_index" where
  "abstract_index_of_class l c f p =
     \<lparr>ai_label = l, ai_class = c, ai_fields = f, ai_params = p, ai_mappings = 0, ai_pre = [''_''], ai_post = []\<rparr>"

definition abstract_index_new :: "char \<Rightarrow> u32 \<Rightarrow> u32 \<Rightarrow> abstract_index" where
  "abstract_index_new l f p = abstract_index_of_class l (identify_index l) f p"

definition numeric_range :: "abstract_index \<Rightarrow> u32" where
  "numeric_range a = (case ai_class a of field_only \<Rightarrow> ai_fields a | full \<Rightarrow> 2 * ai_fields a | parameter \<Rightarrow> ai_params a)"

text \<open>\<open>std::to_string\<close> of an \<open>int\<close>.\<close>

definition string_of_int :: "int \<Rightarrow> string" where
  "string_of_int i = (if i < 0 then CHR ''-'' # dec_string (nat (- i)) else dec_string (nat i))"

definition get_loop_variable :: "abstract_index \<Rightarrow> string" where
  "get_loop_variable a =
     (let offset = sint (ai_fields a) * ai_mappings a;
          r = [ai_label a] @ (if ai_mappings a \<noteq> 0
                then (if 0 < offset then ''+'' @ string_of_int offset else string_of_int offset) else []);
          r' = foldl (\<lambda>r s. s @ r) r (ai_pre a)
      in foldl (\<lambda>r s. r @ s) r' (ai_post a))"

definition push_post_modifier :: "string \<Rightarrow> abstract_index \<Rightarrow> abstract_index" where
  "push_post_modifier s a = a\<lparr>ai_post := ai_post a @ [s]\<rparr>"

definition pop_post_modifier :: "abstract_index \<Rightarrow> abstract_index" where
  "pop_post_modifier a = (if ai_post a \<noteq> [] then a\<lparr>ai_post := butlast (ai_post a)\<rparr> else a)"

definition push_pre_modifier :: "string \<Rightarrow> abstract_index \<Rightarrow> abstract_index" where
  "push_pre_modifier s a = a\<lparr>ai_pre := s # ai_pre a\<rparr>"

text \<open>The overload without an argument, also called \<open>push_pre_modifier\<close> in the code, removes one.\<close>

definition pop_pre_modifier :: "abstract_index \<Rightarrow> abstract_index" where
  "pop_pre_modifier a = (if ai_pre a \<noteq> [] then a\<lparr>ai_pre := tl (ai_pre a)\<rparr> else a)"

text \<open>The conversions change the count first and raise afterwards: the index is returned with the
  exception, if there is one.\<close>

definition mapping_overflow :: "abstract_index \<Rightarrow> exn option" where
  "mapping_overflow a =
     (if 1 < ai_mappings a \<or> ai_mappings a < -1 then Some (Runtime_error ''ERROR_SPECIES_MAPPING_OVERFLOW'') else None)"

definition convert_species_to_momentum :: "abstract_index \<Rightarrow> abstract_index \<times> exn option" where
  "convert_species_to_momentum a =
     (let a' = a\<lparr>ai_mappings := ai_mappings a + 1\<rparr> in (a', mapping_overflow a'))"

definition convert_momentum_to_species :: "abstract_index \<Rightarrow> abstract_index \<times> exn option" where
  "convert_momentum_to_species a =
     (let a' = a\<lparr>ai_mappings := ai_mappings a - 1\<rparr> in (a', mapping_overflow a'))"

definition abstract_index_equal :: "abstract_index \<Rightarrow> abstract_index \<Rightarrow> bool" where
  "abstract_index_equal l r \<longleftrightarrow> ai_label l = ai_label r \<and> ai_class l = ai_class r"

section \<open>Index literals\<close>

datatype variance = covariant | contravariant | no_variance

definition variance_string :: "variance \<Rightarrow> string" where
  "variance_string v = (case v of no_variance \<Rightarrow> [] | contravariant \<Rightarrow> ''^'' | covariant \<Rightarrow> ''_'')"

text \<open>An occurrence of an abstract index; \<open>il_ctx\<close> is the span of its declaration point.\<close>

record index_literal =
  il_idx :: abstract_index
  il_ctx :: "nat \<times> nat"
  il_var :: variance

type_synonym index_literal_list = "index_literal list"

text \<open>\<open>std::map\<close> from labels to literals, in the order of the keys.\<close>

type_synonym index_literal_database = "(char \<times> index_literal) list"

definition literal_label :: "index_literal \<Rightarrow> char" where
  "literal_label i = ai_label (il_idx i)"

definition literal_class :: "index_literal \<Rightarrow> index_class" where
  "literal_class i = ai_class (il_idx i)"

definition index_literal_string :: "index_literal \<Rightarrow> string" where
  "index_literal_string i = variance_string (il_var i) @ [literal_label i]"

definition index_literal_equal :: "index_literal \<Rightarrow> index_literal \<Rightarrow> bool" where
  "index_literal_equal l r \<longleftrightarrow>
     (if literal_label l \<noteq> literal_label r then False
      else if literal_class l \<noteq> literal_class r then False
      else if il_var l \<noteq> il_var r then False
      else True)"

definition literal_reassign :: "abstract_index \<Rightarrow> index_literal \<Rightarrow> index_literal" where
  "literal_reassign a i = i\<lparr>il_idx := a\<rparr>"

text \<open>Insertion into an ordered map whose keys are characters, for a key that is not there.\<close>

fun ordered_insert :: "char \<Rightarrow> 'v \<Rightarrow> (char \<times> 'v) list \<Rightarrow> (char \<times> 'v) list" where
  "ordered_insert k v [] = [(k, v)]"
| "ordered_insert k v ((k', v') # r) =
     (if char_code k < char_code k' then (k, v) # (k', v') # r else (k', v') # ordered_insert k v r)"

definition to_database_step :: "exn + index_literal_database \<Rightarrow> index_literal \<Rightarrow> exn + index_literal_database" where
  "to_database_step acc t =
     bindE acc (\<lambda>db.
       if map_of db (literal_label t) \<noteq> None
       then Inl (Duplicate_index (literal_label t) (fst (il_ctx t)) (snd (il_ctx t)))
       else Inr (ordered_insert (literal_label t) t db))"

definition to_database :: "index_literal_list \<Rightarrow> exn + index_literal_database" where
  "to_database indices = foldl to_database_step (Inr []) indices"

definition replace_literal :: "abstract_index_database \<Rightarrow> index_literal \<Rightarrow> exn + index_literal" where
  "replace_literal db i =
     (case idb_find (literal_label i) db of
        None \<Rightarrow> Inl (Out_of_range ''ERROR_INDEX_LITERAL_REASSIGN'')
      | Some it \<Rightarrow> bindE (idb_deref db (Some it)) (\<lambda>a. Inr (literal_reassign a i)))"

primrec replace_database :: "abstract_index_database \<Rightarrow> index_literal_list \<Rightarrow> exn + index_literal_list" where
  "replace_database db [] = Inr []"
| "replace_database db (i # is') =
     bindE (replace_literal db i) (\<lambda>j. bindE (replace_database db is') (\<lambda>js. Inr (j # js)))"

section \<open>Concrete indices\<close>

record tensor_index =
  ti_value :: u32
  ti_var :: variance

definition tensor_index_increment :: "tensor_index \<Rightarrow> tensor_index" where
  "tensor_index_increment i = i\<lparr>ti_value := ti_value i + 1\<rparr>"

definition tensor_index_decrement :: "tensor_index \<Rightarrow> tensor_index" where
  "tensor_index_decrement i = i\<lparr>ti_value := ti_value i - 1\<rparr>"

definition tensor_index_compare :: "(u32 \<Rightarrow> u32 \<Rightarrow> bool) \<Rightarrow> tensor_index \<Rightarrow> tensor_index \<Rightarrow> exn + bool" where
  "tensor_index_compare cmp l r =
     (if ti_var l \<noteq> ti_var r then Inl (Tensor_exception ''ERROR_MISMATCHED_TENSOR_INDICES'')
      else Inr (cmp (ti_value l) (ti_value r)))"

definition tensor_index_string :: "tensor_index \<Rightarrow> string" where
  "tensor_index_string i = variance_string (ti_var i) @ dec_string (unat (ti_value i))"

section \<open>Flattening\<close>

record index_flatten =
  fl_params :: u32
  fl_fields :: u32

text \<open>\<open>get_flattened_size\<close>: the loop multiplies \<open>d\<close> times by the range of the index type.\<close>

definition flat_range :: "index_flatten \<Rightarrow> index_class \<Rightarrow> u32" where
  "flat_range fl c = (case c of field_only \<Rightarrow> fl_fields fl | full \<Rightarrow> 2 * fl_fields fl | parameter \<Rightarrow> fl_params fl)"

definition get_flattened_size :: "index_flatten \<Rightarrow> index_class \<Rightarrow> nat \<Rightarrow> u32" where
  "get_flattened_size fl c d = ((\<lambda>s. s * flat_range fl c) ^^ d) 1"

definition flatten1 :: "u32 \<Rightarrow> u32" where
  "flatten1 a = a"

definition flatten2_field :: "index_flatten \<Rightarrow> u32 \<Rightarrow> u32 \<Rightarrow> u32" where
  "flatten2_field fl a b = (let N = fl_fields fl in N * a + b)"

definition flatten3_field :: "index_flatten \<Rightarrow> u32 \<Rightarrow> u32 \<Rightarrow> u32 \<Rightarrow> u32" where
  "flatten3_field fl a b c = (let N = fl_fields fl in N * N * a + N * b + c)"

definition flatten2_phase :: "index_flatten \<Rightarrow> u32 \<Rightarrow> u32 \<Rightarrow> u32" where
  "flatten2_phase fl a b = (let N = 2 * fl_fields fl in N * a + b)"

definition flatten3_phase :: "index_flatten \<Rightarrow> u32 \<Rightarrow> u32 \<Rightarrow> u32 \<Rightarrow> u32" where
  "flatten3_phase fl a b c = (let N = 2 * fl_fields fl in N * N * a + N * b + c)"

section \<open>Species and momenta\<close>

definition is_species :: "u32 \<Rightarrow> tensor_index \<Rightarrow> bool" where
  "is_species nf i \<longleftrightarrow> ti_value i < nf"

definition is_momentum :: "u32 \<Rightarrow> tensor_index \<Rightarrow> bool" where
  "is_momentum nf i \<longleftrightarrow> nf \<le> ti_value i \<and> ti_value i < 2 * nf"

definition field_to_momentum :: "u32 \<Rightarrow> tensor_index \<Rightarrow> tensor_index" where
  "field_to_momentum nf i = \<lparr>ti_value = ti_value i + nf, ti_var = ti_var i\<rparr>"

definition phase_to_momentum :: "u32 \<Rightarrow> tensor_index \<Rightarrow> tensor_index" where
  "phase_to_momentum nf i =
     \<lparr>ti_value = (if ti_value i < nf then ti_value i + nf else ti_value i), ti_var = ti_var i\<rparr>"

definition phase_to_species :: "u32 \<Rightarrow> tensor_index \<Rightarrow> tensor_index" where
  "phase_to_species nf i =
     \<lparr>ti_value = (if nf \<le> ti_value i then ti_value i - nf else ti_value i), ti_var = ti_var i\<rparr>"

definition species_to_species :: "index_literal \<Rightarrow> exn + (abstract_index \<times> index_literal)" where
  "species_to_species i =
     (if literal_class i \<noteq> full then Inl (Tensor_exception ''ERROR_SPECIES_TO_SPECIES_FAIL'')
      else let original = il_idx i;
               a = abstract_index_of_class (ai_label original) field_only (ai_fields original) (ai_params original)
           in Inr (a, literal_reassign a i))"

text \<open>The literal refers to the new abstract index, which is converted after the reassignment.\<close>

definition momentum_to_species :: "index_literal \<Rightarrow> exn + (abstract_index \<times> index_literal)" where
  "momentum_to_species i =
     (if literal_class i \<noteq> full then Inl (Tensor_exception ''ERROR_MOMENTUM_TO_SPECIES_FAIL'')
      else let original = il_idx i;
               a = abstract_index_of_class (ai_label original) field_only (ai_fields original) (ai_params original);
               (a', e) = convert_momentum_to_species a
           in case e of Some x \<Rightarrow> Inl x | None \<Rightarrow> Inr (a', literal_reassign a' i))"


section \<open>Lemmas\<close>

lemma unat_flat2:
  assumes "unat a < unat N" "unat b < unat N" "unat N ^ 2 < 2 ^ 32"
  shows "unat (N * a + b :: u32) = unat N * unat a + unat b"
proof -
  have "unat N * unat a + unat b < unat N * Suc (unat a)" using assms(2) by simp
  also have "\<dots> \<le> unat N * unat N" using assms(1) by (intro mult_le_mono2) simp
  finally have "unat N * unat a + unat b < 2 ^ 32" using assms(3) by (simp add: power2_eq_square)
  then show ?thesis by (simp add: unat_word_ariths)
qed

lemma flat3_bound:
  fixes N a b c :: nat
  assumes "a < N" "b < N" "c < N"
  shows "N * N * a + N * b + c < N ^ 3"
proof -
  have 1: "N * b + c < N * Suc b" using assms(3) by simp
  have 2: "N * Suc b \<le> N * N" using assms(2) by (intro mult_le_mono2) simp
  have 3: "N * N * Suc a \<le> N * N * N" using assms(1) by (intro mult_le_mono2) simp
  from 1 2 have "N * N * a + N * b + c < N * N * Suc a" by simp
  also note 3
  finally show ?thesis by (simp add: power3_eq_cube)
qed

lemma unat_flat3:
  assumes "unat a < unat N" "unat b < unat N" "unat c < unat N" "unat N ^ 3 < 2 ^ 32"
  shows "unat (N * N * a + N * b + c :: u32) = unat N * unat N * unat a + unat N * unat b + unat c"
proof -
  have "unat N * unat N * unat a + unat N * unat b + unat c < 2 ^ 32"
    using flat3_bound [OF assms(1-3)] assms(4) by linarith
  then show ?thesis by (simp add: unat_word_ariths mod_simps)
qed

lemma flat2_digits:
  fixes N a b :: nat
  assumes "a < N" "b < N"
  shows "(N * a + b) div N = a" "(N * a + b) mod N = b"
  using assms by (simp_all add: div_add1_eq)

lemma flat3_digits:
  fixes N a b c :: nat
  assumes "a < N" "b < N" "c < N"
  shows "(N * N * a + N * b + c) div (N * N) = a" "(N * N * a + N * b + c) div N mod N = b"
    "(N * N * a + N * b + c) mod N = c"
proof -
  have e: "N * N * a + N * b + c = N * (N * a + b) + c" by (simp add: algebra_simps)
  have d: "(N * (N * a + b) + c) div N = N * a + b" using assms(3) by simp
  show "(N * N * a + N * b + c) mod N = c" unfolding e using assms(3) by simp
  show "(N * N * a + N * b + c) div N mod N = b" unfolding e d using assms(2) by simp
  show "(N * N * a + N * b + c) div (N * N) = a"
    unfolding e div_mult2_eq d using flat2_digits(1) [OF assms(1,2)] .
qed

lemma unat_power_word: "unat N ^ d < 2 ^ 32 \<Longrightarrow> unat (((\<lambda>s. s * N) ^^ d) (1::u32)) = unat N ^ d"
proof (induction d)
  case (Suc d)
  show ?case
  proof (cases "unat N = 0")
    case True
    then have "N = 0" by (simp add: unat_eq_0)
    then show ?thesis by simp
  next
    case False
    then have "unat N ^ d \<le> unat N ^ Suc d" by simp
    with Suc.prems have "unat N ^ d < 2 ^ 32" by linarith
    with Suc show ?thesis by (simp add: unat_word_ariths mult.commute)
  qed
qed simp

text \<open>\<open>to_database\<close> goes on while the labels are new.\<close>

lemma map_of_ordered_insert:
  "map_of db k = None \<Longrightarrow> map_of (ordered_insert k v db) = (map_of db)(k \<mapsto> v)"
  by (induction k v db rule: ordered_insert.induct) (auto simp: fun_eq_iff split: if_splits)

lemma set_ordered_insert: "set (ordered_insert k v db) = insert (k, v) (set db)"
  by (induction k v db rule: ordered_insert.induct) auto

lemma sorted_ordered_insert:
  "sorted_wrt (<) (map (\<lambda>p. char_code (fst p)) db) \<Longrightarrow> map_of db k = None \<Longrightarrow>
   sorted_wrt (<) (map (\<lambda>p. char_code (fst p)) (ordered_insert k v db))"
proof (induction k v db rule: ordered_insert.induct)
  case (2 k v k' v' r)
  then have "char_code k \<noteq> char_code k'" by (auto simp: char_code_eq_iff split: if_splits)
  show ?case
  proof (cases "char_code k < char_code k'")
    case True
    with 2(2) show ?thesis by (auto intro: order.strict_trans)
  next
    case False
    with \<open>char_code k \<noteq> char_code k'\<close> have "char_code k' < char_code k" by linarith
    with 2 False show ?thesis by (auto simp: set_ordered_insert split: if_splits)
  qed
qed simp

lemma to_database_steps_Inl [simp]: "foldl to_database_step (Inl e) is' = Inl e"
  by (induction is') (simp_all add: to_database_step_def)

definition db_of :: "index_literal_list \<Rightarrow> index_literal_database" where
  "db_of is' = foldl (\<lambda>db i. ordered_insert (literal_label i) i db) [] is'"

lemma db_of_map: "distinct (map literal_label is') \<Longrightarrow>
  map_of (db_of is') = map_of (map (\<lambda>i. (literal_label i, i)) is')
  \<and> sorted_wrt (<) (map (\<lambda>p. char_code (fst p)) (db_of is'))"
proof (induction is' rule: rev_induct)
  case Nil
  show ?case by (simp add: db_of_def)
next
  case (snoc i is')
  let ?m = "map_of (map (\<lambda>i. (literal_label i, i)) is')"
  have n: "?m (literal_label i) = None" using snoc.prems by (auto simp: map_of_eq_None_iff)
  have "db_of (is' @ [i]) = ordered_insert (literal_label i) i (db_of is')" by (simp add: db_of_def)
  with snoc n show ?case
    by (auto simp: map_of_ordered_insert sorted_ordered_insert map_add_def fun_eq_iff split: option.splits)
qed

lemma to_database_prefix:
  "distinct (map literal_label is') \<Longrightarrow> to_database is' = Inr (db_of is')"
proof (induction is' rule: rev_induct)
  case Nil
  show ?case by (simp add: to_database_def db_of_def)
next
  case (snoc i is')
  then have "to_database is' = Inr (db_of is')" by simp
  moreover have "map_of (db_of is') (literal_label i) = None"
    using db_of_map [of is'] snoc.prems by (auto simp: map_of_eq_None_iff)
  ultimately show ?case by (simp add: to_database_def to_database_step_def db_of_def)
qed

lemma to_database_clash:
  assumes "distinct (map literal_label is')" and "literal_label i \<in> literal_label ` set is'"
  shows "to_database (is' @ i # rest) = Inl (Duplicate_index (literal_label i) (fst (il_ctx i)) (snd (il_ctx i)))"
proof -
  have "map_of (db_of is') (literal_label i) \<noteq> None"
    using db_of_map [OF assms(1)] assms(2) by (simp add: map_of_eq_None_iff image_image)
  with to_database_prefix [OF assms(1)] show ?thesis
    by (simp add: to_database_def to_database_step_def)
qed

lemma loop_variable_default:
  "ai_pre a = [''_''] \<Longrightarrow> ai_post a = [] \<Longrightarrow>
   get_loop_variable a = CHR ''_'' # ai_label a #
     (if ai_mappings a = 0 then [] else if 0 < sint (ai_fields a) * ai_mappings a
      then CHR ''+'' # string_of_int (sint (ai_fields a) * ai_mappings a)
      else string_of_int (sint (ai_fields a) * ai_mappings a))"
  by (simp add: get_loop_variable_def Let_def)

lemma string_of_int_inject: "string_of_int i = string_of_int j \<Longrightarrow> i = j"
proof -
  have no: "dec_string n \<noteq> CHR ''-'' # r" for n r
    using dec_string_digits [of n] by (auto simp: cchar_defs)
  assume "string_of_int i = string_of_int j"
  then show ?thesis
    using no [of "nat i" "dec_string (nat (- j))"] no [of "nat j" "dec_string (nat (- i))"]
    by (auto simp: string_of_int_def split: if_splits dest!: dec_string_inject)
qed

lemma string_of_int_not_plus: "string_of_int i \<noteq> CHR ''+'' # r" "string_of_int i \<noteq> []"
  using dec_string_digits [of "nat i"] by (auto simp: string_of_int_def cchar_defs)

section \<open>Properties\<close>

text \<open>The flattening that is used for a type of index.\<close>

definition flatten2 :: "index_flatten \<Rightarrow> index_class \<Rightarrow> u32 \<times> u32 \<Rightarrow> u32" where
  "flatten2 fl k = (\<lambda>(a, b). if k = full then flatten2_phase fl a b else flatten2_field fl a b)"

definition flatten3 :: "index_flatten \<Rightarrow> index_class \<Rightarrow> u32 \<times> u32 \<times> u32 \<Rightarrow> u32" where
  "flatten3 fl k = (\<lambda>(a, b, c). if k = full then flatten3_phase fl a b c else flatten3_field fl a b c)"

definition below :: "u32 \<Rightarrow> u32 set" where
  "below n = {a. unat a < unat n}"

lemma flatten_values:
  assumes "unat (flat_range fl k) ^ 3 < 2 ^ 32" and "k \<noteq> parameter"
    and "a \<in> below (flat_range fl k)" "b \<in> below (flat_range fl k)" "c \<in> below (flat_range fl k)"
  shows "unat (flatten2 fl k (a, b)) = unat (flat_range fl k) * unat a + unat b"
    and "unat (flatten3 fl k (a, b, c)) = unat (flat_range fl k) * unat (flat_range fl k) * unat a + unat (flat_range fl k) * unat b + unat c"
proof -
  let ?N = "unat (flat_range fl k)"
  have l: "unat a < ?N" "unat b < ?N" "unat c < ?N" using assms(3-5) by (simp_all add: below_def)
  have "?N ^ 2 \<le> ?N ^ 3" using l(1) by (intro power_increasing) auto
  with assms(1) have N2: "?N ^ 2 < 2 ^ 32" by linarith
  show "unat (flatten2 fl k (a, b)) = ?N * unat a + unat b"
    using unat_flat2 [OF l(1,2) N2] assms(2)
    by (cases k) (auto simp: flatten2_def flatten2_phase_def flatten2_field_def flat_range_def Let_def)
  show "unat (flatten3 fl k (a, b, c)) = ?N * ?N * unat a + ?N * unat b + unat c"
    using unat_flat3 [OF l assms(1)] assms(2)
    by (cases k) (auto simp: flatten3_def flatten3_phase_def flatten3_field_def flat_range_def Let_def)
qed

lemma flattened_sizes:
  assumes "unat (flat_range fl k) ^ 3 < 2 ^ 32"
  shows "unat (get_flattened_size fl k 2) = unat (flat_range fl k) ^ 2" "unat (get_flattened_size fl k 3) = unat (flat_range fl k) ^ 3"
proof -
  let ?N = "unat (flat_range fl k)"
  have "?N ^ 2 \<le> ?N ^ 3 \<or> ?N = 0" by (cases "?N = 0") (auto intro: power_increasing)
  with assms have "?N ^ 2 < 2 ^ 32" by auto
  then show "unat (get_flattened_size fl k 2) = ?N ^ 2" "unat (get_flattened_size fl k 3) = ?N ^ 3"
    unfolding get_flattened_size_def using unat_power_word assms by auto
qed

text \<open>Every number below the flattened size has its digits below the range.\<close>

lemma digit_below:
  assumes "n < unat N"
  shows "(of_nat n :: u32) \<in> below N" "unat (of_nat n :: u32) = n"
proof -
  have "n < 2 ^ 32" using assms unsigned_less [of N, where ?'a = nat] by simp
  then show "unat (of_nat n :: u32) = n" by (simp add: unat_of_nat)
  with assms show "(of_nat n :: u32) \<in> below N" by (simp add: below_def)
qed

lemma two_digits:
  fixes x :: nat
  assumes "x < N ^ 2"
  shows "x div N < N" "x mod N < N"
proof -
  have "0 < N" using assms by (cases N) simp_all
  then show "x div N < N" "x mod N < N" using assms by (simp_all add: less_mult_imp_div_less power2_eq_square)
qed

lemma three_digits:
  fixes x :: nat
  assumes "x < N ^ 3"
  shows "x div (N * N) < N" "x div N mod N < N" "x mod N < N" "N * N * (x div (N * N)) + N * (x div N mod N) + x mod N = x"
proof -
  have n: "0 < N" using assms by (cases N) simp_all
  show "x div (N * N) < N" using assms by (simp add: less_mult_imp_div_less power3_eq_cube mult.assoc)
  show "x div N mod N < N" "x mod N < N" using n by simp_all
  have "N * (x div N mod N) + N * (N * (x div N div N)) = N * (x div N)"
    by (metis add.commute distrib_left mult_div_mod_eq)
  then show "N * N * (x div (N * N)) + N * (x div N mod N) + x mod N = x" by (simp add: div_mult2_eq algebra_simps)
qed

text \<open>C28: Flattening is a bijection. Let the range \<open>N\<close> of an index be the number of fields, or twice that for
  a phase-space index, with \<open>N\<^sup>3\<close> below \<open>2\<^sup>32\<close>. The pairs and the triples of index values below \<open>N\<close> are mapped
  one to one onto all the numbers below the flattened size of two and of three indices, and the indices are the digits of the
  flattened value in base \<open>N\<close>.\<close>

theorem flatten_bijective:
  assumes "unat (flat_range fl k) ^ 3 < 2 ^ 32" and "k \<noteq> parameter"
  shows "let R = below (flat_range fl k); N = unat (flat_range fl k) in
     bij_betw (flatten2 fl k) (R \<times> R) (below (get_flattened_size fl k 2))
     \<and> bij_betw (flatten3 fl k) (R \<times> R \<times> R) (below (get_flattened_size fl k 3))
     \<and> (\<forall>a \<in> R. \<forall>b \<in> R. unat a = unat (flatten2 fl k (a, b)) div N \<and> unat b = unat (flatten2 fl k (a, b)) mod N)
     \<and> (\<forall>a \<in> R. \<forall>b \<in> R. \<forall>c \<in> R. unat a = unat (flatten3 fl k (a, b, c)) div (N * N)
          \<and> unat b = unat (flatten3 fl k (a, b, c)) div N mod N \<and> unat c = unat (flatten3 fl k (a, b, c)) mod N)"
proof -
  let ?R = "below (flat_range fl k)" and ?N = "unat (flat_range fl k)"
  note v = flatten_values [OF assms] and s = flattened_sizes [OF assms(1)]
  have d2: "unat a = unat (flatten2 fl k (a, b)) div ?N \<and> unat b = unat (flatten2 fl k (a, b)) mod ?N"
    "unat (flatten2 fl k (a, b)) < ?N ^ 2" if "a \<in> ?R" "b \<in> ?R" for a b
  proof -
    have l: "unat a < ?N" "unat b < ?N" using that by (simp_all add: below_def)
    show "unat a = unat (flatten2 fl k (a, b)) div ?N \<and> unat b = unat (flatten2 fl k (a, b)) mod ?N"
      using flat2_digits [OF l] v(1) [OF that that(2)] by simp
    have "?N * unat a + unat b < ?N * Suc (unat a)" using l by simp
    also have "\<dots> \<le> ?N * ?N" using l(1) by (intro mult_le_mono2) simp
    finally show "unat (flatten2 fl k (a, b)) < ?N ^ 2" using v(1) [OF that that(2)] by (simp add: power2_eq_square)
  qed
  have d3: "unat a = unat (flatten3 fl k (a, b, c)) div (?N * ?N) \<and> unat b = unat (flatten3 fl k (a, b, c)) div ?N mod ?N
      \<and> unat c = unat (flatten3 fl k (a, b, c)) mod ?N" "unat (flatten3 fl k (a, b, c)) < ?N ^ 3"
    if "a \<in> ?R" "b \<in> ?R" "c \<in> ?R" for a b c
  proof -
    have l: "unat a < ?N" "unat b < ?N" "unat c < ?N" using that by (simp_all add: below_def)
    show "unat a = unat (flatten3 fl k (a, b, c)) div (?N * ?N) \<and> unat b = unat (flatten3 fl k (a, b, c)) div ?N mod ?N
      \<and> unat c = unat (flatten3 fl k (a, b, c)) mod ?N" "unat (flatten3 fl k (a, b, c)) < ?N ^ 3"
      using flat3_digits [OF l] flat3_bound [OF l] v(2) [OF that] by simp_all
  qed
  have "bij_betw (flatten2 fl k) (?R \<times> ?R) (below (get_flattened_size fl k 2))"
  proof (rule bij_betw_imageI)
    show "inj_on (flatten2 fl k) (?R \<times> ?R)" using d2(1) by (intro inj_onI) (auto, (metis word_unat_eq_iff)+)
    have "x \<in> flatten2 fl k ` (?R \<times> ?R)" if "unat x < ?N ^ 2" for x
    proof -
      note n = two_digits [OF that]
      note q = digit_below [OF n(1)] digit_below [OF n(2)]
      have "unat (flatten2 fl k (of_nat (unat x div ?N), of_nat (unat x mod ?N))) = unat x"
        unfolding v(1) [OF q(1,3,3)] q(2,4) by simp
      then have "x = flatten2 fl k (of_nat (unat x div ?N), of_nat (unat x mod ?N))" by (simp add: word_unat_eq_iff)
      then show ?thesis by (rule image_eqI) (use q(1,3) in blast)
    qed
    then show "flatten2 fl k ` (?R \<times> ?R) = below (get_flattened_size fl k 2)" using d2(2) s(1) by (auto simp: below_def [of "get_flattened_size fl k 2"])
  qed
  moreover have "bij_betw (flatten3 fl k) (?R \<times> ?R \<times> ?R) (below (get_flattened_size fl k 3))"
  proof (rule bij_betw_imageI)
    show "inj_on (flatten3 fl k) (?R \<times> ?R \<times> ?R)" using d3(1) by (intro inj_onI) (auto, (metis word_unat_eq_iff)+)
    have "x \<in> flatten3 fl k ` (?R \<times> ?R \<times> ?R)" if "unat x < ?N ^ 3" for x
    proof -
      note n = three_digits [OF that]
      note q = digit_below [OF n(1)] digit_below [OF n(2)] digit_below [OF n(3)]
      have "unat (flatten3 fl k (of_nat (unat x div (?N * ?N)), of_nat (unat x div ?N mod ?N), of_nat (unat x mod ?N))) = unat x"
        unfolding v(2) [OF q(1,3,5)] q(2,4,6) by (rule n(4))
      then have "x = flatten3 fl k (of_nat (unat x div (?N * ?N)), of_nat (unat x div ?N mod ?N), of_nat (unat x mod ?N))"
        by (simp only: word_unat_eq_iff)
      then show ?thesis by (rule image_eqI) (use q(1,3,5) in blast)
    qed
    then show "flatten3 fl k ` (?R \<times> ?R \<times> ?R) = below (get_flattened_size fl k 3)" using d3(2) s(2) by (auto simp: below_def [of "get_flattened_size fl k 3"])
  qed
  moreover have "\<forall>a \<in> ?R. \<forall>b \<in> ?R. unat a = unat (flatten2 fl k (a, b)) div ?N \<and> unat b = unat (flatten2 fl k (a, b)) mod ?N"
    using d2(1) by blast
  moreover have "\<forall>a \<in> ?R. \<forall>b \<in> ?R. \<forall>c \<in> ?R. unat a = unat (flatten3 fl k (a, b, c)) div (?N * ?N)
      \<and> unat b = unat (flatten3 fl k (a, b, c)) div ?N mod ?N \<and> unat c = unat (flatten3 fl k (a, b, c)) mod ?N"
    using d3(1) by blast
  ultimately show ?thesis unfolding Let_def by blast
qed

theorem flatten_bijective_witness:
  "bij_betw (flatten3 \<lparr>fl_params = 0, fl_fields = 2\<rparr> full) (below 4 \<times> below 4 \<times> below 4) (below 64)"
  using flatten_bijective [of "\<lparr>fl_params = 0, fl_fields = 2\<rparr>" full]
  by (simp add: flat_range_def Let_def get_flattened_size_def numeral_3_eq_3)

text \<open>Species and momenta. For a number of fields whose double fits the word: each phase-space value is
  either a species or a momentum, the conversions map one onto the other and are inverse to each other, and
  they keep the variance.\<close>

theorem species_momentum_inverse:
  assumes "2 * unat nf < 2 ^ 32" and "unat (ti_value i) < 2 * unat nf"
  shows "is_momentum nf i = (\<not> is_species nf i)
    \<and> is_momentum nf (phase_to_momentum nf i) \<and> is_species nf (phase_to_species nf i)
    \<and> (if is_species nf i then phase_to_species nf (field_to_momentum nf i) = i
       else field_to_momentum nf (phase_to_species nf i) = i)"
proof -
  have d: "unat (2 * nf) = 2 * unat nf" using assms(1) by (simp add: unat_word_ariths)
  have le: "nf \<le> v \<longleftrightarrow> unat nf \<le> unat v" "v < nf \<longleftrightarrow> unat v < unat nf" "v < 2 * nf \<longleftrightarrow> unat v < 2 * unat nf" for v
    by (simp_all add: word_le_nat_alt word_less_nat_alt d)
  have plus: "unat (v + nf) = unat v + unat nf" if "unat v < unat nf" for v
    using that assms(1) by (simp add: unat_word_ariths)
  have minus: "unat (v - nf) = unat v - unat nf" if "unat nf \<le> unat v" for v
    using that by (simp add: unat_sub word_le_nat_alt)
  show ?thesis using assms(2) plus [of "ti_value i"] minus [of "ti_value i"]
    by (cases "unat (ti_value i) < unat nf")
      (simp_all add: is_momentum_def is_species_def phase_to_momentum_def phase_to_species_def
        field_to_momentum_def le)
qed

theorem species_momentum_inverse_witness:
  "phase_to_species 3 (field_to_momentum 3 \<lparr>ti_value = 2, ti_var = covariant\<rparr>) = \<lparr>ti_value = 2, ti_var = covariant\<rparr>"
  using species_momentum_inverse [of 3 "\<lparr>ti_value = 2, ti_var = covariant\<rparr>"]
  by (simp add: is_species_def)

text \<open>Loop variables do not collide. Two indices as they are constructed, for the same positive number
  of fields, have the same loop variable only if they have the same label and the same species offset.\<close>

theorem loop_variable_injective:
  assumes "ai_pre a = [''_'']" "ai_post a = []" "ai_pre b = [''_'']" "ai_post b = []"
    and "ai_fields a = ai_fields b" and "0 < sint (ai_fields a)"
    and "get_loop_variable a = get_loop_variable b"
  shows "ai_label a = ai_label b \<and> ai_mappings a = ai_mappings b"
proof -
  let ?F = "sint (ai_fields a)"
  have sgn: "?F * m = 0 \<longleftrightarrow> m = 0" "0 < ?F * m \<longleftrightarrow> 0 < m" for m
    using assms(6) by (auto simp: zero_less_mult_iff)
  have eq: "?F * ai_mappings a = ?F * ai_mappings b"
    using assms(7) string_of_int_not_plus [of "?F * ai_mappings a"] string_of_int_not_plus [of "?F * ai_mappings b"]
    unfolding loop_variable_default [OF assms(1,2)] loop_variable_default [OF assms(3,4)] assms(5) [symmetric]
    by (auto split: if_splits dest: string_of_int_inject) (metis string_of_int_not_plus(1))+
  then have "ai_mappings a = ai_mappings b" using assms(6) by simp
  with assms show ?thesis by (auto simp: loop_variable_default)
qed


theorem loop_variable_injective_witness:
  "get_loop_variable (abstract_index_new CHR ''A'' 3 0) = ''_A''
   \<and> get_loop_variable (fst (convert_momentum_to_species (abstract_index_new CHR ''A'' 3 0))) = ''_A-3''
   \<and> ai_label (abstract_index_new CHR ''A'' 3 0) = ai_label (abstract_index_new CHR ''A'' 3 1)"
proof -
  have v: "get_loop_variable (abstract_index_new CHR ''A'' 3 p) = ''_A''" for p
    by (simp add: abstract_index_new_def abstract_index_of_class_def loop_variable_default)
  have "get_loop_variable (fst (convert_momentum_to_species (abstract_index_new CHR ''A'' 3 0))) = ''_A-3''"
    by code_simp
  then show ?thesis
    using loop_variable_injective [of "abstract_index_new CHR ''A'' 3 0" "abstract_index_new CHR ''A'' 3 1"] v
    by (simp add: abstract_index_new_def abstract_index_of_class_def)
qed

text \<open>Turning a list of index literals into a database: while the labels are distinct the result is the
  ordered map from each label to its literal; the first literal that repeats a label raises an exception that
  carries the label and the place of that literal, whatever follows.\<close>

theorem to_database_first_duplicate:
  assumes "distinct (map literal_label is')" and "literal_label i \<in> literal_label ` set is'"
  shows "(\<exists>db. to_database is' = Inr db \<and> map_of db = map_of (map (\<lambda>j. (literal_label j, j)) is')
        \<and> sorted_wrt (<) (map (\<lambda>p. char_code (fst p)) db))
    \<and> to_database (is' @ i # rest) = Inl (Duplicate_index (literal_label i) (fst (il_ctx i)) (snd (il_ctx i)))"
  using to_database_prefix [OF assms(1)] db_of_map [OF assms(1)] to_database_clash [OF assms] by simp

definition example_literal :: "char \<Rightarrow> nat \<Rightarrow> index_literal" where
  "example_literal l p = \<lparr>il_idx = abstract_index_new l 2 0, il_ctx = (p, p + 1), il_var = no_variance\<rparr>"

theorem to_database_first_duplicate_witness:
  "to_database [example_literal CHR ''b'' 0, example_literal CHR ''a'' 2, example_literal CHR ''b'' 4]
     = Inl (Duplicate_index CHR ''b'' 4 5)"
  using to_database_first_duplicate [of "[example_literal CHR ''b'' 0, example_literal CHR ''a'' 2]"
      "example_literal CHR ''b'' 4" "[]"]
  by (simp add: example_literal_def literal_label_def abstract_index_new_def abstract_index_of_class_def)

end
