(* ===== verification/Index_Assignment.thy ===== *)
theory Index_Assignment
  imports Indices
begin

text \<open>
  Sets of index assignments, \<open>macro_substitution/index_assignment.{h,cpp}\<close>: the values of all indices of a
  database, encoded in one position, and the iterator over the positions that macro replacement unrolls.
\<close>

section \<open>State and operations\<close>

datatype index_order = left_order | right_order

record index_value =
  iv_abstract :: abstract_index
  iv_value :: u32

type_synonym indices_assignment = "index_value index_db"

definition iv_label :: "index_value \<Rightarrow> char" where
  "iv_label v = ai_label (iv_abstract v)"

definition iv_class :: "index_value \<Rightarrow> index_class" where
  "iv_class v = ai_class (iv_abstract v)"

definition iv_is_field :: "index_value \<Rightarrow> bool" where
  "iv_is_field v \<longleftrightarrow> iv_value v < ai_fields (iv_abstract v)"

definition iv_is_momentum :: "index_value \<Rightarrow> bool" where
  "iv_is_momentum v \<longleftrightarrow> ai_fields (iv_abstract v) \<le> iv_value v \<and> iv_value v < 2 * ai_fields (iv_abstract v)"

definition iv_species :: "index_value \<Rightarrow> u32" where
  "iv_species v = (if iv_is_momentum v then iv_value v - ai_fields (iv_abstract v) else iv_value v)"

text \<open>\<open>as_id\<close> is the address of the set, which iterators compare.\<close>

record assignment_set =
  as_id :: nat
  as_source :: abstract_index_database
  as_size :: u32
  as_order :: index_order

definition assignment_set_new :: "nat \<Rightarrow> abstract_index_database \<Rightarrow> index_order \<Rightarrow> assignment_set" where
  "assignment_set_new i s order =
     \<lparr>as_id = i, as_source = s, as_size = foldl (\<lambda>n a. n * numeric_range a) 1 (idb_list s), as_order = order\<rparr>"

record assignment_iterator =
  it_parent :: "assignment_set option"
  it_pos :: u32
  it_max :: u32

definition it_new :: "assignment_set \<Rightarrow> u32 \<Rightarrow> assignment_iterator" where
  "it_new p cp = \<lparr>it_parent = Some p, it_pos = cp, it_max = as_size p\<rparr>"

definition as_begin :: "assignment_set \<Rightarrow> assignment_iterator" where
  "as_begin s = it_new s 0"

definition as_end :: "assignment_set \<Rightarrow> assignment_iterator" where
  "as_end s = it_new s (as_size s)"

definition it_equal :: "assignment_iterator \<Rightarrow> assignment_iterator \<Rightarrow> exn + bool" where
  "it_equal l r =
     (if it_pos l \<noteq> it_pos r then Inr False
      else case (it_parent l, it_parent r) of
        (Some p, Some q) \<Rightarrow> Inr (as_id p = as_id q)
      | (None, None) \<Rightarrow> Inl Undefined
      | _ \<Rightarrow> Inr False)"

definition it_decrement :: "assignment_iterator \<Rightarrow> exn + assignment_iterator" where
  "it_decrement i =
     (if it_parent i = None then Inl (Runtime_error ''ERROR_ASSIGNMENT_ITERATOR_NO_PARENT'')
      else if it_pos i = 0 then Inl (Runtime_error ''ERROR_ASSIGNMENT_ITERATOR_DECREMENT'')
      else Inr (i\<lparr>it_pos := it_pos i - 1\<rparr>))"

definition it_increment :: "assignment_iterator \<Rightarrow> exn + assignment_iterator" where
  "it_increment i =
     (if it_parent i = None then Inl (Runtime_error ''ERROR_ASSIGNMENT_ITERATOR_NO_PARENT'')
      else if it_pos i = it_max i then Inl (Runtime_error ''ERROR_ASSIGNMENT_ITERATOR_INCREMENT'')
      else Inr (i\<lparr>it_pos := it_pos i + 1\<rparr>))"

text \<open>A range of 0 would be divided by.\<close>

fun construct_assignment ::
  "(char \<Rightarrow> index_value \<Rightarrow> indices_assignment \<Rightarrow> exn + ((char \<times> bool) \<times> indices_assignment))
   \<Rightarrow> abstract_index list \<Rightarrow> u32 \<Rightarrow> indices_assignment \<Rightarrow> exn + indices_assignment" where
  "construct_assignment ins [] current rval = Inr rval"
| "construct_assignment ins (a # as) current rval =
     (let range = numeric_range a in
      if range = 0 then Inl Undefined
      else bindE (ins (ai_label a) \<lparr>iv_abstract = a, iv_value = current mod range\<rparr> rval)
             (\<lambda>(_, rval'). construct_assignment ins as (current div range) rval'))"

definition it_deref :: "assignment_iterator \<Rightarrow> exn + indices_assignment" where
  "it_deref i =
     (case it_parent i of
        None \<Rightarrow> Inr idb_empty
      | Some p \<Rightarrow>
          (case as_order p of
             left_order \<Rightarrow> construct_assignment (idb_emplace_back iv_label) (idb_list (as_source p)) (it_pos i) idb_empty
           | right_order \<Rightarrow>
               construct_assignment (idb_emplace_front iv_label) (rev (idb_list (as_source p))) (it_pos i) idb_empty))"

lemma it_increment_measure:
  assumes "it_increment it = Inr it'"
  shows "unat (it_max it' - it_pos it') < unat (it_max it - it_pos it)"
proof -
  have n: "it_max it - it_pos it \<noteq> 0" and i: "it' = it\<lparr>it_pos := it_pos it + 1\<rparr>"
    using assms by (auto simp: it_increment_def split: if_splits)
  have "it_max it' - it_pos it' = it_max it - it_pos it - 1" using i by simp
  with n measure_unat [OF n] show ?thesis by simp
qed

text \<open>The loop \<open>for(it = begin; it != end; ++it)\<close> over a set: the assignments it visits.\<close>

function visit_assignments :: "assignment_iterator \<Rightarrow> assignment_iterator \<Rightarrow> exn + indices_assignment list" where
  "visit_assignments it fin =
     bindE (it_equal it fin) (\<lambda>same.
       if same then Inr []
       else bindE (it_deref it) (\<lambda>d.
         bindE (it_increment it) (\<lambda>it'.
           bindE (visit_assignments it' fin) (\<lambda>ds. Inr (d # ds)))))"
  by pat_completeness auto
termination
  by (relation "measure (\<lambda>(it, fin). unat (it_max it - it_pos it))") (auto dest: it_increment_measure)

declare visit_assignments.simps [simp del]

section \<open>Positions as digits\<close>

fun digits :: "nat list \<Rightarrow> nat \<Rightarrow> nat list" where
  "digits [] n = []"
| "digits (r # rs) n = n mod r # digits rs (n div r)"

lemma digits_append: "digits (rs @ ss) n = digits rs n @ digits ss (n div prod_list rs)"
  by (induction rs arbitrary: n) (auto simp: div_mult2_eq)

lemma digits_shift: "list_all (\<lambda>r. 0 < r) rs \<Longrightarrow> digits rs (q * prod_list rs + m) = digits rs m"
proof (induction rs arbitrary: m)
  case (Cons r rs)
  have e: "q * (r * prod_list rs) + m = m + (q * prod_list rs) * r" by (simp add: algebra_simps)
  have "(q * (r * prod_list rs) + m) mod r = m mod r" unfolding e by (rule mod_mult_self1)
  moreover have "(q * (r * prod_list rs) + m) div r = q * prod_list rs + m div r"
    unfolding e using Cons.prems by simp
  ultimately show ?case using Cons by simp
qed simp

lemma upt_blocks: "[0..<r * P] = concat (map (\<lambda>q. map (\<lambda>m. q * P + m) [0..<P]) [0..<r])"
proof (induction r)
  case (Suc r)
  have "[0..<Suc r * P] = [0..<r * P] @ [r * P..<r * P + P]"
    using upt_add_eq_append [of 0 "r * P" P] by (simp add: add.commute)
  moreover have "[r * P..<r * P + P] = map (\<lambda>m. r * P + m) [0..<P]"
    using map_add_upt [of "r * P" P] by (simp add: add.commute)
  ultimately show ?case using Suc by simp
qed simp

text \<open>Counting up gives the tuples in lexicographic order.\<close>

lemma digits_product:
  "list_all (\<lambda>r. 0 < r) rs \<Longrightarrow>
   map (\<lambda>n. rev (digits (rev rs) n)) [0..<prod_list rs] = product_lists (map (\<lambda>r. [0..<r]) rs)"
proof (induction rs)
  case (Cons r rs)
  let ?P = "prod_list rs"
  have P: "prod_list (rev rs) = ?P" by (induction rs) auto
  have pos: "0 < ?P" using Cons.prems by (induction rs) auto
  have d: "rev (digits (rev (r # rs)) (q * ?P + m)) = q # rev (digits (rev rs) m)" if "q < r" "m < ?P" for q m
    using that digits_shift [of "rev rs" q m] Cons.prems P pos by (simp add: digits_append list_all_rev)
  have "map (\<lambda>n. rev (digits (rev (r # rs)) n)) [0..<prod_list (r # rs)]
      = concat (map (\<lambda>q. map (\<lambda>m. rev (digits (rev (r # rs)) (q * ?P + m))) [0..<?P]) [0..<r])"
    by (simp only: prod_list.Cons upt_blocks map_concat map_map comp_def)
  also have "\<dots> = concat (map (\<lambda>q. map (\<lambda>m. q # rev (digits (rev rs) m)) [0..<?P]) [0..<r])"
    by (intro arg_cong [where f = concat] map_cong refl d) auto
  also have "\<dots> = concat (map (\<lambda>q. map (Cons q) (product_lists (map (\<lambda>r. [0..<r]) rs))) [0..<r])"
    using Cons by (simp flip: Cons.IH add: comp_def)
  finally show ?case by (simp add: comp_def)
qed simp


section \<open>The assignments of a set\<close>

definition assign :: "abstract_index list \<Rightarrow> nat list \<Rightarrow> index_value list" where
  "assign as vs = map2 (\<lambda>a v. \<lparr>iv_abstract = a, iv_value = word_of_nat v\<rparr>) as vs"

abbreviation ranges :: "abstract_index list \<Rightarrow> nat list" where
  "ranges as \<equiv> map (\<lambda>a. unat (numeric_range a)) as"

lemma assign_simps [simp]:
  "assign [] vs = []" "assign (a # as) (v # vs) = \<lparr>iv_abstract = a, iv_value = word_of_nat v\<rparr> # assign as vs"
  by (simp_all add: assign_def)

lemma assign_rev: "length as = length vs \<Longrightarrow> assign (rev as) (rev vs) = rev (assign as vs)"
  by (simp add: assign_def zip_rev rev_map)

lemma length_digits [simp]: "length (digits rs n) = length rs"
  by (induction rs n rule: digits.induct) auto

lemma construct_assignment_back:
  "list_all (\<lambda>a. numeric_range a \<noteq> 0) as \<Longrightarrow> idb_inv iv_label d \<Longrightarrow> distinct (map ai_label as) \<Longrightarrow>
   ai_label ` set as \<inter> iv_label ` set (idb_list d) = {} \<Longrightarrow>
   \<exists>d'. construct_assignment (idb_emplace_back iv_label) as cur d = Inr d' \<and> idb_inv iv_label d'
     \<and> idb_list d' = idb_list d @ assign as (digits (ranges as) (unat cur))"
proof (induction as arbitrary: cur d)
  case (Cons a as)
  let ?v = "\<lparr>iv_abstract = a, iv_value = cur mod numeric_range a\<rparr>"
  have l: "iv_label ?v = ai_label a" by (simp add: iv_label_def)
  obtain d1 where d1: "idb_append iv_label ?v d = Inr d1" "idb_inv iv_label d1" "idb_list d1 = idb_list d @ [?v]"
    using idb.append_fresh [OF Cons.prems(2), of ?v] Cons.prems(4) l by auto
  have "ai_label ` set as \<inter> iv_label ` set (idb_list d1) = {}" using Cons.prems(3,4) d1(3) l by auto
  from Cons.IH [OF _ d1(2) _ this, of "cur div numeric_range a"] Cons.prems(1,3)
  obtain d' where d': "construct_assignment (idb_emplace_back iv_label) as (cur div numeric_range a) d1 = Inr d'"
    "idb_inv iv_label d'" "idb_list d' = idb_list d1 @ assign as (digits (ranges as) (unat (cur div numeric_range a)))"
    by auto
  have "construct_assignment (idb_emplace_back iv_label) (a # as) cur d = Inr d'"
    using d1(1) d'(1) Cons.prems(1) l by (auto simp: idb_append_def bindE_eq_Inr)
  moreover have "word_of_nat (unat cur mod unat (numeric_range a)) = cur mod numeric_range a"
    by (simp flip: unat_mod)
  ultimately show ?case using d'(2,3) d1(3) by (auto simp: unat_div)
qed simp

lemma construct_assignment_front:
  "list_all (\<lambda>a. numeric_range a \<noteq> 0) as \<Longrightarrow> idb_inv iv_label d \<Longrightarrow> distinct (map ai_label as) \<Longrightarrow>
   ai_label ` set as \<inter> iv_label ` set (idb_list d) = {} \<Longrightarrow>
   \<exists>d'. construct_assignment (idb_emplace_front iv_label) as cur d = Inr d' \<and> idb_inv iv_label d'
     \<and> idb_list d' = rev (assign as (digits (ranges as) (unat cur))) @ idb_list d"
proof (induction as arbitrary: cur d)
  case (Cons a as)
  let ?v = "\<lparr>iv_abstract = a, iv_value = cur mod numeric_range a\<rparr>"
  have l: "iv_label ?v = ai_label a" by (simp add: iv_label_def)
  obtain d1 where d1: "idb_push iv_label ?v d = Inr d1" "idb_inv iv_label d1" "idb_list d1 = ?v # idb_list d"
    using idb.push_fresh [OF Cons.prems(2), of ?v] Cons.prems(4) l by auto
  have "ai_label ` set as \<inter> iv_label ` set (idb_list d1) = {}" using Cons.prems(3,4) d1(3) l by auto
  from Cons.IH [OF _ d1(2) _ this, of "cur div numeric_range a"] Cons.prems(1,3)
  obtain d' where d': "construct_assignment (idb_emplace_front iv_label) as (cur div numeric_range a) d1 = Inr d'"
    "idb_inv iv_label d'" "idb_list d' = rev (assign as (digits (ranges as) (unat (cur div numeric_range a)))) @ idb_list d1"
    by auto
  have "construct_assignment (idb_emplace_front iv_label) (a # as) cur d = Inr d'"
    using d1(1) d'(1) Cons.prems(1) l by (auto simp: idb_push_def bindE_eq_Inr)
  moreover have "word_of_nat (unat cur mod unat (numeric_range a)) = cur mod numeric_range a"
    by (simp flip: unat_mod)
  ultimately show ?case using d'(2,3) d1(3) by (auto simp: unat_div)
qed simp

text \<open>The values of all positions, in order.\<close>

definition position_values :: "index_order \<Rightarrow> nat list \<Rightarrow> nat \<Rightarrow> nat list" where
  "position_values order rs n = (case order of left_order \<Rightarrow> digits rs n | right_order \<Rightarrow> rev (digits (rev rs) n))"

definition value_tuples :: "index_order \<Rightarrow> nat list \<Rightarrow> nat list list" where
  "value_tuples order rs =
     (case order of
        right_order \<Rightarrow> product_lists (map (\<lambda>r. [0..<r]) rs)
      | left_order \<Rightarrow> map rev (product_lists (map (\<lambda>r. [0..<r]) (rev rs))))"

lemma position_values_all:
  assumes "list_all (\<lambda>r. 0 < r) rs"
  shows "map (position_values order rs) [0..<prod_list rs] = value_tuples order rs"
proof (cases order)
  case right_order
  then have "position_values order rs = (\<lambda>n. rev (digits (rev rs) n))" by (simp add: position_values_def fun_eq_iff)
  then show ?thesis using digits_product [OF assms] right_order by (simp add: value_tuples_def)
next
  case left_order
  have p: "prod_list (rev rs) = prod_list rs" by (induction rs) auto
  have "map (\<lambda>n. rev (digits rs n)) [0..<prod_list rs] = product_lists (map (\<lambda>r. [0..<r]) (rev rs))"
    using digits_product [of "rev rs"] assms p by (simp add: list_all_rev)
  then have "map rev (map (\<lambda>n. rev (digits rs n)) [0..<prod_list rs]) = map rev (product_lists (map (\<lambda>r. [0..<r]) (rev rs)))"
    by simp
  moreover have "position_values order rs = digits rs" using left_order by (simp add: position_values_def fun_eq_iff)
  ultimately show ?thesis using left_order by (simp add: value_tuples_def comp_def)
qed

lemma it_deref_position:
  assumes "idb_inv ai_label (as_source s)" and "list_all (\<lambda>a. numeric_range a \<noteq> 0) (idb_list (as_source s))"
  shows "\<exists>d. it_deref (it_new s p) = Inr d \<and> idb_inv iv_label d
    \<and> idb_list d = assign (idb_list (as_source s)) (position_values (as_order s) (ranges (idb_list (as_source s))) (unat p))"
proof -
  let ?as = "idb_list (as_source s)"
  have dl: "distinct (map ai_label ?as)" by (rule idb.items_distinct [OF assms(1)])
  show ?thesis
  proof (cases "as_order s")
    case left_order
    with construct_assignment_back [OF assms(2) idb.inv_new dl, of p] show ?thesis
      unfolding idb.items_new by (auto simp: it_deref_def it_new_def position_values_def)
  next
    case right_order
    have "list_all (\<lambda>a. numeric_range a \<noteq> 0) (rev ?as)" "distinct (map ai_label (rev ?as))"
      using assms(2) dl by (simp_all add: list_all_rev rev_map [symmetric])
    from construct_assignment_front [OF this(1) idb.inv_new this(2), of p] right_order show ?thesis
      unfolding idb.items_new
      by (auto simp: it_deref_def it_new_def position_values_def rev_map [symmetric] assign_rev [symmetric])
  qed
qed

lemma visit_from:
  assumes deref: "\<And>n. it_deref (it_new s (word_of_nat n)) = Inr (D n)"
  shows "n \<le> unat (as_size s) \<Longrightarrow>
    visit_assignments (it_new s (word_of_nat n)) (as_end s) = Inr (map D [n..<unat (as_size s)])"
proof (induction "unat (as_size s) - n" arbitrary: n)
  case 0
  then have "n = unat (as_size s)" by simp
  then have "word_of_nat n = as_size s" by simp
  with 0 show ?case
    by (subst visit_assignments.simps) (simp add: as_end_def it_new_def it_equal_def)
next
  case (Suc k)
  then have n: "n < unat (as_size s)" by simp
  then have "n < 2 ^ 32" using unsigned_less [of "as_size s"] by (auto simp: take_bit_eq_mod intro: less_trans)
  then have u: "unat (word_of_nat n :: u32) = n" by (simp add: unat_of_nat)
  have ne: "(word_of_nat n :: u32) \<noteq> as_size s"
  proof
    assume "(word_of_nat n :: u32) = as_size s"
    with u n show False by simp
  qed
  have "Inr (D n # map D [Suc n..<unat (as_size s)])
      = bindE (visit_assignments (it_new s (word_of_nat (Suc n))) (as_end s)) (\<lambda>ds. Inr (D n # ds))"
    using Suc(1) [of "Suc n"] Suc(2) n by simp
  also have "\<dots> = visit_assignments (it_new s (word_of_nat n)) (as_end s)"
    using deref [of n] ne
    by (subst (2) visit_assignments.simps)
      (simp add: it_new_def as_end_def it_equal_def it_increment_def add.commute)
  finally show ?case using n by (simp add: upt_conv_Cons)
qed

lemma assignment_size:
  "prod_list (ranges as) < 2 ^ 32 \<Longrightarrow> unat (foldl (\<lambda>n a. n * numeric_range a) 1 as) = prod_list (ranges as) \<or> 0 \<in> set (ranges as)"
proof (induction as rule: rev_induct)
  case (snoc a as)
  show ?case
  proof (cases "0 \<in> set (ranges (as @ [a]))")
    case False
    then have "prod_list (ranges as) \<le> prod_list (ranges (as @ [a]))" by simp
    with snoc.prems have "prod_list (ranges as) < 2 ^ 32" by linarith
    with snoc False show ?thesis by (auto simp: unat_word_ariths)
  qed simp
qed simp

lemma assignment_size_zero: "0 \<in> set (ranges as) \<Longrightarrow> foldl (\<lambda>n a. n * numeric_range a) 1 as = 0"
proof (induction as rule: rev_induct)
  case (snoc a as)
  then show ?case by (auto simp: unat_eq_0)
qed simp

lemma value_tuples_zero: "0 \<in> set rs \<Longrightarrow> value_tuples order rs = []"
proof -
  have "0 \<in> set rs \<Longrightarrow> product_lists (map (\<lambda>r. [0..<r]) rs) = []" for rs
    by (induction rs) auto
  then show "0 \<in> set rs \<Longrightarrow> value_tuples order rs = []" by (auto simp: value_tuples_def split: index_order.split)
qed


section \<open>Properties\<close>

lemma visit_enumerates:
  assumes "idb_inv ai_label src" and "prod_list (ranges (idb_list src)) < 2 ^ 32"
  shows "\<exists>ds. visit_assignments (as_begin (assignment_set_new i src order)) (as_end (assignment_set_new i src order)) = Inr ds
    \<and> map idb_list ds = map (assign (idb_list src)) (value_tuples order (ranges (idb_list src))) \<and> list_all (idb_inv iv_label) ds"
proof -
  let ?s = "assignment_set_new i src order" and ?as = "idb_list src"
  show ?thesis
  proof (cases "0 \<in> set (ranges ?as)")
    case True
    then have "as_size ?s = 0" using assignment_size_zero [of ?as] by (simp add: assignment_set_new_def)
    then have "visit_assignments (as_begin ?s) (as_end ?s) = Inr []"
      by (subst visit_assignments.simps) (simp add: as_begin_def as_end_def it_new_def it_equal_def)
    then show ?thesis using value_tuples_zero [OF True] by simp
  next
    case False
    then have pos: "list_all (\<lambda>a. numeric_range a \<noteq> 0) ?as" "list_all (\<lambda>r. 0 < r) (ranges ?as)"
      by (force simp: list_all_iff unat_gt_0)+
    have sz: "unat (as_size ?s) = prod_list (ranges ?as)"
      using assignment_size [OF assms(2)] False by (simp add: assignment_set_new_def)
    have src: "as_source ?s = src" "as_order ?s = order" by (simp_all add: assignment_set_new_def)
    have "\<forall>p. \<exists>d. it_deref (it_new ?s p) = Inr d \<and> idb_inv iv_label d
        \<and> idb_list d = assign ?as (position_values order (ranges ?as) (unat p))"
      using it_deref_position [of ?s] assms(1) pos(1) unfolding src by blast
    then obtain D where D: "\<And>p. it_deref (it_new ?s p) = Inr (D p)" "\<And>p. idb_inv iv_label (D p)"
      "\<And>p. idb_list (D p) = assign ?as (position_values order (ranges ?as) (unat p))" by metis
    have "visit_assignments (as_begin ?s) (as_end ?s) = Inr (map (\<lambda>n. D (word_of_nat n)) [0..<prod_list (ranges ?as)])"
      using visit_from [of ?s "\<lambda>n. D (word_of_nat n)" 0] D(1) sz by (simp add: as_begin_def)
    moreover have "map idb_list (map (\<lambda>n. D (word_of_nat n)) [0..<prod_list (ranges ?as)])
        = map (assign ?as) (map (position_values order (ranges ?as)) [0..<prod_list (ranges ?as)])"
      using assms(2) by (auto simp: D(3) unat_of_nat)
    ultimately show ?thesis unfolding position_values_all [OF pos(2)]
      by (intro exI [of _ "map (\<lambda>n. D (word_of_nat n)) [0..<prod_list (ranges ?as)]"] conjI)
        (simp_all add: list_all_iff D(2))
  qed
qed

text \<open>C29: The iterator enumerates every assignment once. For a consistent database of indices whose ranges
  multiply to less than \<open>2\<^sup>32\<close>, the loop from \<open>begin()\<close> to \<open>end()\<close> raises nothing and visits, in order,
  the tuples of values of all indices: in right order the last index varies fastest (lexicographic order), in
  left order the first; every assignment keeps the indices in the order of the database. With an index of
  range 0 it visits nothing.\<close>

theorem assignment_enumeration:
  assumes "idb_inv ai_label src" and "prod_list (ranges (idb_list src)) < 2 ^ 32"
  shows "\<exists>ds. visit_assignments (as_begin (assignment_set_new i src order)) (as_end (assignment_set_new i src order)) = Inr ds
    \<and> map idb_list ds = map (assign (idb_list src)) (value_tuples order (ranges (idb_list src)))"
  using visit_enumerates [OF assms, of i order] by blast

theorem assignment_enumeration_witness:
  "\<exists>ds. visit_assignments
       (as_begin (assignment_set_new 0 (of_items ai_label [abstract_index_new CHR ''a'' 2 0, abstract_index_new CHR ''B'' 2 0]) right_order))
       (as_end (assignment_set_new 0 (of_items ai_label [abstract_index_new CHR ''a'' 2 0, abstract_index_new CHR ''B'' 2 0]) right_order))
     = Inr ds
   \<and> map (\<lambda>d. map (\<lambda>v. unat (iv_value v)) (idb_list d)) ds = [[0,0],[0,1],[0,2],[0,3],[1,0],[1,1],[1,2],[1,3]]"
proof -
  let ?as = "[abstract_index_new CHR ''a'' 2 0, abstract_index_new CHR ''B'' 2 0]"
  let ?s = "assignment_set_new 0 (of_items ai_label ?as) right_order"
  have src: "idb_inv ai_label (of_items ai_label ?as)" "idb_list (of_items ai_label ?as) = ?as"
    using of_items_inv [of ai_label ?as] by (simp_all add: abstract_index_new_def abstract_index_of_class_def)
  have r: "ranges ?as = [2, 4]" by code_simp
  obtain ds where ds: "visit_assignments (as_begin ?s) (as_end ?s) = Inr ds"
    "map idb_list ds = map (assign ?as) (value_tuples right_order [2, 4])"
    using assignment_enumeration [OF src(1), of 0 right_order] unfolding src(2) r by auto
  have u: "[0..<2] = [0, 1]" "[0..<4] = [0, 1, 2, 3]" by (simp_all add: upt_rec)
  have vt: "value_tuples right_order [2, 4] = [[0,0],[0,1],[0,2],[0,3],[1,0],[1,1],[1,2],[1,3]]"
    by (simp add: value_tuples_def u)
  have "map (\<lambda>d. map (\<lambda>v. unat (iv_value v)) (idb_list d)) ds = map (map (\<lambda>v. unat (iv_value v))) (map idb_list ds)"
    by simp
  also have "\<dots> = [[0,0],[0,1],[0,2],[0,3],[1,0],[1,1],[1,2],[1,3]]"
    unfolding ds(2) vt by simp
  finally have "map (\<lambda>d. map (\<lambda>v. unat (iv_value v)) (idb_list d)) ds = [[0,0],[0,1],[0,2],[0,3],[1,0],[1,1],[1,2],[1,3]]" .
  with ds(1) show ?thesis by (intro exI [of _ ds] conjI)
qed

end
