(* ===== verification/Macro_Rules.thy ===== *)
theory Macro_Rules
  imports Index_Assignment
begin

text \<open>
  Replacement rules and directives as the macro engine sees them,
  \<open>replacement_rules/{replacement_rule_definitions,directive_definitions,rules_common}\<close>: a rule validates
  its arguments and indices and then calls the virtual functions of its implementation, which are fields of
  the rule's record. Implementations keep hidden state and may raise: both go through the type \<open>act\<close> of
  actions, in which a state survives an exception, as it does in the code.
\<close>

section \<open>The world\<close>

text \<open>The world of the macro engine: the diagnostics, whether the macro agent on top of the output stack has its
  output enabled, and the hidden state of the rules.\<close>

record 'u world =
  w_log :: diag_log
  w_enabled :: bool
  w_user :: 'u

definition logA :: "severity \<Rightarrow> msg_id \<Rightarrow> string \<Rightarrow> nat \<times> nat \<Rightarrow> 'u world \<Rightarrow> 'u world" where
  "logA sev m txt ctx w = w\<lparr>w_log := w_log w @ [Diag sev m txt (fst ctx) (snd ctx)]\<rparr>"

section \<open>Rules\<close>

datatype simple_macro_type = pre_macro | post_macro

datatype unroll_state = force_unroll | prevent_unroll | allow_unroll

text \<open>An argument with the span it was declared at.\<close>

type_synonym macro_argument_list = "(string \<times> (nat \<times> nat)) list"

type_synonym index_literal_assignment = "(index_literal \<times> index_value) list"

record 'u simple_rule =
  sr_name :: string
  sr_args :: nat
  sr_evaluate :: "macro_argument_list \<Rightarrow> ('u world, string) act"

record 'u index_rule =
  ir_name :: string
  ir_args :: nat
  ir_indices :: nat
  ir_classes :: "index_class list option"
  ir_get_unroll :: "index_literal_list \<Rightarrow> 'u world \<Rightarrow> unroll_state"
  ir_unroll :: "macro_argument_list \<Rightarrow> index_literal_assignment \<Rightarrow> ('u world, string) act"
  ir_roll :: "macro_argument_list \<Rightarrow> index_literal_list \<Rightarrow> ('u world, string) act"
  ir_pre_hook :: "macro_argument_list \<Rightarrow> index_literal_list \<Rightarrow> ('u world, unit) act"
  ir_post_hook :: "macro_argument_list \<Rightarrow> ('u world, unit) act"

record 'u simple_directive =
  sd_name :: string
  sd_args :: nat
  sd_always_apply :: bool
  sd_apply :: "macro_argument_list \<Rightarrow> ('u world, string) act"

record 'u index_directive =
  id_name :: string
  id_args :: nat
  id_indices :: "nat option"
  id_classes :: "index_class list option"
  id_always_apply :: bool
  id_apply :: "macro_argument_list \<Rightarrow> index_literal_list \<Rightarrow> ('u world, string) act"

text \<open>The checks of the two constructors.\<close>

definition index_rule_check :: "nat \<Rightarrow> index_class list option \<Rightarrow> exn option" where
  "index_rule_check n cs =
     (if n = 0 then Some (Runtime_error ''ERROR_REPLACEMENT_RULE_ZERO_INDICES'')
      else case cs of
        None \<Rightarrow> None
      | Some c \<Rightarrow> if n \<noteq> length c then Some (Runtime_error ''ERROR_REPLACEMENT_RULE_INDEX_COUNT'') else None)"

definition index_directive_check :: "nat option \<Rightarrow> index_class list option \<Rightarrow> exn option" where
  "index_directive_check n cs =
     (case cs of
        None \<Rightarrow> None
      | Some c \<Rightarrow>
          (case n of
             None \<Rightarrow> Some (Runtime_error ''ERROR_DIRECTIVE_RULE_INDEX_COUNT'')
           | Some k \<Rightarrow> if k \<noteq> length c then Some (Runtime_error ''ERROR_DIRECTIVE_RULE_INDEX_COUNT'') else None))"

section \<open>Validation\<close>

definition validate_args :: "msg_id \<Rightarrow> nat \<Rightarrow> macro_argument_list \<Rightarrow> exn option" where
  "validate_args m n args = (if length args = n then None else Some (Argument_mismatch m))"

definition class_accepts :: "index_class \<Rightarrow> index_class \<Rightarrow> bool" where
  "class_accepts expected cl =
     (case expected of
        full \<Rightarrow> \<not> (cl \<noteq> full \<and> cl \<noteq> field_only)
      | field_only \<Rightarrow> \<not> (cl \<noteq> field_only)
      | parameter \<Rightarrow> \<not> (cl \<noteq> parameter))"

text \<open>What \<open>index_traits_impl\<close> reads off an index, for both kinds of containers: class, label, place.\<close>

type_synonym index_view = "index_class \<times> char \<times> (nat \<times> nat)"

definition literal_view :: "index_literal \<Rightarrow> index_view" where
  "literal_view l = (literal_class l, literal_label l, il_ctx l)"

definition value_view :: "index_literal \<times> index_value \<Rightarrow> index_view" where
  "value_view p = (iv_class (snd p), iv_label (snd p), il_ctx (fst p))"

fun validate_classes :: "index_view list \<Rightarrow> index_class list \<Rightarrow> exn option" where
  "validate_classes ((cl, lb, ctx) # vs) (expected # es) =
     (if class_accepts expected cl then validate_classes vs es
      else Some (Index_mismatch ''ERROR_WRONG_INDEX_CLASS'' lb (fst ctx) (snd ctx)))"
| "validate_classes _ _ = None"

definition validate_indices :: "'u index_rule \<Rightarrow> index_view list \<Rightarrow> exn option" where
  "validate_indices r vs =
     (if length vs \<noteq> ir_indices r \<or> (case ir_classes r of None \<Rightarrow> False | Some cs \<Rightarrow> length vs \<noteq> length cs)
      then Some (Rule_apply_fail ''ERROR_MACRO_WRONG_INDEX_COUNT'' (ir_name r))
      else case ir_classes r of None \<Rightarrow> None | Some cs \<Rightarrow> validate_classes vs cs)"

definition validate_directive_indices :: "'u index_directive \<Rightarrow> index_view list \<Rightarrow> exn option" where
  "validate_directive_indices r vs =
     (if (case id_indices r of None \<Rightarrow> False | Some n \<Rightarrow> length vs \<noteq> n)
         \<or> (case id_classes r of None \<Rightarrow> False | Some cs \<Rightarrow> length vs \<noteq> length cs)
      then Some (Rule_apply_fail ''ERROR_DIRECTIVE_WRONG_INDEX_COUNT'' (id_name r))
      else case id_classes r of None \<Rightarrow> None | Some cs \<Rightarrow> validate_classes vs cs)"

section \<open>Evaluation\<close>

definition simple_rule_call :: "'u simple_rule \<Rightarrow> macro_argument_list \<Rightarrow> ('u world, string) act" where
  "simple_rule_call r args =
     bindA (checkA (validate_args ''ERROR_MACRO_WRONG_ARGUMENT_COUNT'' (sr_args r) args)) (\<lambda>_. sr_evaluate r args)"

definition rule_evaluate_unroll ::
  "'u index_rule \<Rightarrow> macro_argument_list \<Rightarrow> index_literal_assignment \<Rightarrow> ('u world, string) act" where
  "rule_evaluate_unroll r args idx =
     bindA (checkA (validate_args ''ERROR_MACRO_WRONG_ARGUMENT_COUNT'' (ir_args r) args)) (\<lambda>_.
       bindA (checkA (validate_indices r (map value_view idx))) (\<lambda>_. ir_unroll r args idx))"

definition rule_evaluate_roll ::
  "'u index_rule \<Rightarrow> macro_argument_list \<Rightarrow> index_literal_list \<Rightarrow> ('u world, string) act" where
  "rule_evaluate_roll r args idx =
     bindA (checkA (validate_args ''ERROR_MACRO_WRONG_ARGUMENT_COUNT'' (ir_args r) args)) (\<lambda>_.
       bindA (checkA (validate_indices r (map literal_view idx))) (\<lambda>_. ir_roll r args idx))"

definition rule_pre :: "'u index_rule \<Rightarrow> macro_argument_list \<Rightarrow> index_literal_list \<Rightarrow> ('u world, unit) act" where
  "rule_pre r args idx =
     bindA (checkA (validate_args ''ERROR_MACRO_WRONG_ARGUMENT_COUNT'' (ir_args r) args)) (\<lambda>_. ir_pre_hook r args idx)"

definition rule_post :: "'u index_rule \<Rightarrow> macro_argument_list \<Rightarrow> ('u world, unit) act" where
  "rule_post r args =
     bindA (checkA (validate_args ''ERROR_MACRO_WRONG_ARGUMENT_COUNT'' (ir_args r) args)) (\<lambda>_. ir_post_hook r args)"

definition simple_directive_call :: "'u simple_directive \<Rightarrow> macro_argument_list \<Rightarrow> ('u world, string) act" where
  "simple_directive_call r args =
     bindA (checkA (validate_args ''ERROR_DIRECTIVE_WRONG_ARGUMENT_COUNT'' (sd_args r) args)) (\<lambda>_ w.
       if \<not> w_enabled w \<and> \<not> sd_always_apply r
       then (Inr (''NOTIFY_DIRECTIVE_NOT_EVALUATED '' @ sd_name r), w)
       else sd_apply r args w)"

definition index_directive_call ::
  "'u index_directive \<Rightarrow> macro_argument_list \<Rightarrow> index_literal_list \<Rightarrow> ('u world, string) act" where
  "index_directive_call r args idx =
     bindA (checkA (validate_args ''ERROR_DIRECTIVE_WRONG_ARGUMENT_COUNT'' (id_args r) args)) (\<lambda>_.
       bindA (checkA (validate_directive_indices r (map literal_view idx))) (\<lambda>_ w.
         if \<not> w_enabled w \<and> \<not> id_always_apply r
         then (Inr (''NOTIFY_DIRECTIVE_NOT_EVALUATED '' @ id_name r), w)
         else id_apply r args idx w))"


section \<open>Properties\<close>

lemma class_accepts_iff: "class_accepts expected cl \<longleftrightarrow> cl = expected \<or> (expected = full \<and> cl = field_only)"
  by (cases expected; cases cl) (simp_all add: class_accepts_def)

text \<open>The first index whose class is not accepted.\<close>

definition first_mismatch :: "index_view list \<Rightarrow> index_class list \<Rightarrow> index_view option" where
  "first_mismatch vs es = map_option fst (find (\<lambda>(v, e). \<not> (fst v = e \<or> (e = full \<and> fst v = field_only))) (zip vs es))"

lemma validate_classes_first:
  "validate_classes vs es =
     (case first_mismatch vs es of None \<Rightarrow> None
      | Some (cl, lb, ctx) \<Rightarrow> Some (Index_mismatch ''ERROR_WRONG_INDEX_CLASS'' lb (fst ctx) (snd ctx)))"
  by (induction vs es rule: validate_classes.induct) (auto simp: first_mismatch_def class_accepts_iff)

definition index_failure :: "nat \<Rightarrow> index_class list option \<Rightarrow> index_view list \<Rightarrow> exn \<Rightarrow> exn option" where
  "index_failure n cs vs wrong_count =
     (if length vs \<noteq> n \<or> map_option length cs \<notin> {None, Some (length vs)} then Some wrong_count
      else case cs of None \<Rightarrow> None | Some es \<Rightarrow>
        (case first_mismatch vs es of None \<Rightarrow> None
         | Some (cl, lb, ctx) \<Rightarrow> Some (Index_mismatch ''ERROR_WRONG_INDEX_CLASS'' lb (fst ctx) (snd ctx))))"

lemma validate_indices_failure:
  "validate_indices r vs = index_failure (ir_indices r) (ir_classes r) vs
     (Rule_apply_fail ''ERROR_MACRO_WRONG_INDEX_COUNT'' (ir_name r))"
  by (auto simp: validate_indices_def index_failure_def validate_classes_first split: option.splits)

text \<open>The implementation of an index rule runs on valid input only. Evaluating a rule, on an assignment or
  rolled up, runs the implementation exactly when the number of arguments is right, the number of indices is
  right and every index has an accepted class (a field index also where a phase-space index is expected);
  otherwise it raises the exception for the first of these that fails, naming the first index at fault with its
  place, and the world is untouched.\<close>

theorem rule_runs_on_valid_input:
  "rule_evaluate_unroll r args idx w =
     (if length args \<noteq> ir_args r then (Inl (Argument_mismatch ''ERROR_MACRO_WRONG_ARGUMENT_COUNT''), w)
      else case index_failure (ir_indices r) (ir_classes r) (map value_view idx)
                  (Rule_apply_fail ''ERROR_MACRO_WRONG_INDEX_COUNT'' (ir_name r)) of
        Some e \<Rightarrow> (Inl e, w) | None \<Rightarrow> ir_unroll r args idx w)
   \<and> rule_evaluate_roll r args ls w =
     (if length args \<noteq> ir_args r then (Inl (Argument_mismatch ''ERROR_MACRO_WRONG_ARGUMENT_COUNT''), w)
      else case index_failure (ir_indices r) (ir_classes r) (map literal_view ls)
                  (Rule_apply_fail ''ERROR_MACRO_WRONG_INDEX_COUNT'' (ir_name r)) of
        Some e \<Rightarrow> (Inl e, w) | None \<Rightarrow> ir_roll r args ls w)"
  by (auto simp: rule_evaluate_unroll_def rule_evaluate_roll_def validate_args_def validate_indices_failure
      throwA_def split: option.splits)

text \<open>With output disabled, a directive has no effect unless it is always applied: for valid arguments the
  result is the notification and the world, hidden state included, is the one before.\<close>

theorem disabled_directive_no_effect:
  assumes "\<not> w_enabled w" and "length args = sd_args r"
  shows "simple_directive_call r args w =
    (if sd_always_apply r then sd_apply r args w else (Inr (''NOTIFY_DIRECTIVE_NOT_EVALUATED '' @ sd_name r), w))"
  using assms by (simp add: simple_directive_call_def validate_args_def)

theorem disabled_directive_no_effect_witness:
  "simple_directive_call \<lparr>sd_name = ''D'', sd_args = 0, sd_always_apply = False,
       sd_apply = (\<lambda>args. returnA ''applied'')\<rparr> [] \<lparr>w_log = [], w_enabled = False, w_user = ()\<rparr>
     = (Inr ''NOTIFY_DIRECTIVE_NOT_EVALUATED D'', \<lparr>w_log = [], w_enabled = False, w_user = ()\<rparr>)"
  using disabled_directive_no_effect [of "\<lparr>w_log = [], w_enabled = False, w_user = ()\<rparr>" "[]"
      "\<lparr>sd_name = ''D'', sd_args = 0, sd_always_apply = False, sd_apply = (\<lambda>args. returnA ''applied'')\<rparr>"]
  by simp

end
