(* ===== verification/Macro_Tokens.thy ===== *)
theory Macro_Tokens
  imports Macro_Rules
begin

text \<open>
  The tokens of a line, \<open>macro_substitution/macro_tokens.{h,cpp}\<close>: each caches its converted value, evaluates
  itself through its rule and reports errors until it has reported too many. An evaluation returns the token,
  the exception that escaped it, if any, and the world.
\<close>

section \<open>Tokens\<close>

definition MAX_TOKEN_ERRORS :: nat where
  "MAX_TOKEN_ERRORS = 4"

record token_base =
  tb_conversion :: string
  tb_ctx :: "nat \<times> nat"
  tb_errors :: nat
  tb_silent :: bool

definition token_base_new :: "string \<Rightarrow> nat \<times> nat \<Rightarrow> token_base" where
  "token_base_new c ctx = \<lparr>tb_conversion = c, tb_ctx = ctx, tb_errors = 0, tb_silent = False\<rparr>"

definition token_error :: "msg_id \<Rightarrow> string \<Rightarrow> token_base \<Rightarrow> 'u world \<Rightarrow> token_base \<times> 'u world" where
  "token_error m txt b w =
     (let w1 = (if \<not> tb_silent b then logA Sev_error m txt (tb_ctx b) w else w);
          b1 = b\<lparr>tb_errors := Suc (tb_errors b)\<rparr>
      in if \<not> tb_silent b1 \<and> MAX_TOKEN_ERRORS \<le> tb_errors b1
         then (b1\<lparr>tb_silent := True\<rparr>, logA Sev_warn ''ERROR_TOKENIZE_TOO_MANY_ERRORS'' [] (tb_ctx b1) w1)
         else (b1, w1))"

definition token_mark_silent :: "token_base \<Rightarrow> token_base" where
  "token_mark_silent b = b\<lparr>tb_silent := True\<rparr>"

record index_literal_token =
  il_base :: token_base
  il_index :: index_literal

record 'u simple_macro_token =
  sm_base :: token_base
  sm_name :: string
  sm_args :: macro_argument_list
  sm_rule :: "'u simple_rule"
  sm_type :: simple_macro_type
  sm_argument_error :: bool

record 'u index_macro_token =
  im_base :: token_base
  im_name :: string
  im_args :: macro_argument_list
  im_indices :: index_literal_list
  im_rule :: "'u index_rule"
  im_initialized :: bool
  im_argument_error :: bool
  im_index_error :: bool

record directive_token =
  dt_base :: token_base
  dt_name :: string
  dt_argument_error :: bool
  dt_index_error :: bool

datatype 'u token =
    Text_token token_base
  | Index_token index_literal_token
  | Simple_token "'u simple_macro_token"
  | Macro_token "'u index_macro_token"
  | Simple_directive_token directive_token
  | Index_directive_token directive_token

definition text_token :: "string \<Rightarrow> nat \<times> nat \<Rightarrow> 'u token" where
  "text_token l ctx = Text_token (token_base_new l ctx)"

definition index_literal_token_new :: "index_literal \<Rightarrow> nat \<times> nat \<Rightarrow> index_literal_token" where
  "index_literal_token_new l ctx = \<lparr>il_base = token_base_new [literal_label l] ctx, il_index = l\<rparr>"

definition simple_macro_token_new ::
  "string \<Rightarrow> macro_argument_list \<Rightarrow> 'u simple_rule \<Rightarrow> simple_macro_type \<Rightarrow> nat \<times> nat \<Rightarrow> 'u simple_macro_token" where
  "simple_macro_token_new m a r t ctx =
     \<lparr>sm_base = token_base_new m ctx, sm_name = m, sm_args = a, sm_rule = r, sm_type = t, sm_argument_error = False\<rparr>"

definition index_macro_token_new ::
  "string \<Rightarrow> index_literal_list \<Rightarrow> macro_argument_list \<Rightarrow> 'u index_rule \<Rightarrow> nat \<times> nat \<Rightarrow> 'u index_macro_token" where
  "index_macro_token_new m i a r ctx =
     \<lparr>im_base = token_base_new m ctx, im_name = m, im_args = a, im_indices = i, im_rule = r,
      im_initialized = False, im_argument_error = False, im_index_error = False\<rparr>"

section \<open>Evaluation\<close>

text \<open>An index remapping rule is a hash table keyed by label, class and variance.\<close>

type_synonym index_remap_rule = "(index_literal \<times> index_literal) list"

definition remap_find :: "index_remap_rule \<Rightarrow> index_literal \<Rightarrow> index_literal option" where
  "remap_find rule l = map_option snd (find (\<lambda>p. index_literal_equal (fst p) l) rule)"

definition missing_assignment :: "index_literal \<Rightarrow> exn" where
  "missing_assignment l = Rule_apply_fail ''ERROR_MISSING_INDEX_ASSIGNMENT'' [literal_label l]"

definition missing_substitution :: "index_literal \<Rightarrow> exn" where
  "missing_substitution l = Rule_apply_fail ''ERROR_INDEX_SUBSTITUTION'' [literal_label l]"

definition il_convert :: "string \<Rightarrow> index_literal_token \<Rightarrow> index_literal_token" where
  "il_convert c t = t\<lparr>il_base := (il_base t)\<lparr>tb_conversion := c\<rparr>\<rparr>"

definition index_token_evaluate ::
  "indices_assignment \<Rightarrow> index_literal_token \<Rightarrow> index_literal_token \<times> exn option" where
  "index_token_evaluate a t =
     (case idb_find (literal_label (il_index t)) a of
        None \<Rightarrow> (t, Some (missing_assignment (il_index t)))
      | Some it \<Rightarrow> (case idb_deref a (Some it) of
            Inl e \<Rightarrow> (t, Some e)
          | Inr v \<Rightarrow> (il_convert (dec_string (unat (iv_value v))) t, None)))"

definition index_token_evaluate_roll :: "index_literal_token \<Rightarrow> index_literal_token" where
  "index_token_evaluate_roll t = il_convert (get_loop_variable (il_idx (il_index t))) t"

definition index_token_evaluate_remap ::
  "index_remap_rule \<Rightarrow> index_literal_token \<Rightarrow> index_literal_token \<times> exn option" where
  "index_token_evaluate_remap rule t =
     (case remap_find rule (il_index t) of
        None \<Rightarrow> (t, Some (missing_substitution (il_index t)))
      | Some l \<Rightarrow> (il_convert (get_loop_variable (il_idx l)) t, None))"

definition sm_report :: "msg_id \<Rightarrow> string \<Rightarrow> 'u simple_macro_token \<Rightarrow> 'u world \<Rightarrow> 'u simple_macro_token \<times> 'u world" where
  "sm_report m txt t w = (let (b, w') = token_error m txt (sm_base t) w in (t\<lparr>sm_base := b\<rparr>, w'))"

definition simple_token_evaluate ::
  "'u simple_macro_token \<Rightarrow> 'u world \<Rightarrow> 'u simple_macro_token \<times> exn option \<times> 'u world" where
  "simple_token_evaluate t w =
     (case simple_rule_call (sm_rule t) (sm_args t) w of
        (Inr s, w1) \<Rightarrow> (t\<lparr>sm_base := (sm_base t)\<lparr>tb_conversion := s\<rparr>\<rparr>, None, w1)
      | (Inl e, w1) \<Rightarrow>
          (case e of
             Argument_mismatch m \<Rightarrow>
               if \<not> sm_argument_error t
               then (let (t', w2) = sm_report m [] t w1 in (t'\<lparr>sm_argument_error := True\<rparr>, None, w2))
               else (t, None, w1)
           | Rule_apply_fail m txt \<Rightarrow> (let (t', w2) = sm_report m txt t w1 in (t', None, w2))
           | _ \<Rightarrow> (t, Some e, w1)))"

definition im_report :: "msg_id \<Rightarrow> string \<Rightarrow> 'u index_macro_token \<Rightarrow> 'u world \<Rightarrow> 'u index_macro_token \<times> 'u world" where
  "im_report m txt t w = (let (b, w') = token_error m txt (im_base t) w in (t\<lparr>im_base := b\<rparr>, w'))"

text \<open>The handlers that the pre-handler and the unrolled evaluation share: argument and index errors are
  reported once, the latter at the declaration of the index and not counted by the token.\<close>

definition im_handle ::
  "exn \<Rightarrow> 'u index_macro_token \<Rightarrow> 'u world \<Rightarrow> 'u index_macro_token \<times> exn option \<times> 'u world" where
  "im_handle e t w =
     (case e of
        Argument_mismatch m \<Rightarrow>
          if \<not> im_argument_error t
          then (let (t', w') = im_report m [] t w in (t'\<lparr>im_argument_error := True\<rparr>, None, w'))
          else (t, None, w)
      | Index_mismatch m lb s f \<Rightarrow>
          if \<not> im_index_error t then (t\<lparr>im_index_error := True\<rparr>, None, logA Sev_error m [lb] (s, f) w)
          else (t, None, w)
      | Rule_apply_fail m txt \<Rightarrow> (let (t', w') = im_report m txt t w in (t', None, w'))
      | _ \<Rightarrow> (t, Some e, w))"

definition im_invoke_pre ::
  "'u index_macro_token \<Rightarrow> 'u world \<Rightarrow> 'u index_macro_token \<times> exn option \<times> 'u world" where
  "im_invoke_pre t w =
     (if im_initialized t then (t, None, w)
      else case rule_pre (im_rule t) (im_args t) (im_indices t) w of
        (Inr _, w1) \<Rightarrow> (t\<lparr>im_initialized := True\<rparr>, None, w1)
      | (Inl e, w1) \<Rightarrow>
          (case im_handle e t w1 of
             (t', None, w2) \<Rightarrow> (t'\<lparr>im_initialized := True\<rparr>, None, w2)
           | (t', Some x, w2) \<Rightarrow> (t', Some x, w2)))"

fun assignment_values :: "indices_assignment \<Rightarrow> index_literal_list \<Rightarrow> exn + index_literal_assignment" where
  "assignment_values a [] = Inr []"
| "assignment_values a (l # ls) =
     (case idb_find (literal_label l) a of
        None \<Rightarrow> Inl (missing_assignment l)
      | Some it \<Rightarrow> bindE (idb_deref a (Some it)) (\<lambda>v. bindE (assignment_values a ls) (\<lambda>vs. Inr ((l, v) # vs))))"

definition im_converted :: "string \<Rightarrow> 'u index_macro_token \<Rightarrow> 'u index_macro_token" where
  "im_converted s t = t\<lparr>im_base := (im_base t)\<lparr>tb_conversion := s\<rparr>\<rparr>"

definition macro_token_evaluate_unroll ::
  "indices_assignment \<Rightarrow> 'u index_macro_token \<Rightarrow> 'u world \<Rightarrow> 'u index_macro_token \<times> exn option \<times> 'u world" where
  "macro_token_evaluate_unroll a t w =
     (case im_invoke_pre t w of
        (t1, Some e, w1) \<Rightarrow> (t1, Some e, w1)
      | (t1, None, w1) \<Rightarrow>
          (case assignment_values a (im_indices t1) of
             Inl e \<Rightarrow> (t1, Some e, w1)
           | Inr values \<Rightarrow>
               (case rule_evaluate_unroll (im_rule t1) (im_args t1) values w1 of
                  (Inr s, w2) \<Rightarrow> (im_converted s t1, None, w2)
                | (Inl e, w2) \<Rightarrow> im_handle e t1 w2)))"

text \<open>The rolled-up evaluations catch failures of the rule and of resources only.\<close>

definition im_handle_roll ::
  "exn \<Rightarrow> 'u index_macro_token \<Rightarrow> 'u world \<Rightarrow> 'u index_macro_token \<times> exn option \<times> 'u world" where
  "im_handle_roll e t w =
     (case e of
        Rule_apply_fail m txt \<Rightarrow> (let (t', w') = im_report m txt t w in (t', None, w'))
      | Resource_failure txt \<Rightarrow> (let (t', w') = im_report ''ERROR_RESOURCE_FAILURE'' txt t w in (t', None, w'))
      | _ \<Rightarrow> (t, Some e, w))"

definition macro_token_roll ::
  "index_literal_list \<Rightarrow> 'u index_macro_token \<Rightarrow> 'u world \<Rightarrow> 'u index_macro_token \<times> exn option \<times> 'u world" where
  "macro_token_roll indices t w =
     (case rule_evaluate_roll (im_rule t) (im_args t) indices w of
        (Inr s, w1) \<Rightarrow> (im_converted s t, None, w1)
      | (Inl e, w1) \<Rightarrow> im_handle_roll e t w1)"

definition macro_token_evaluate_roll ::
  "'u index_macro_token \<Rightarrow> 'u world \<Rightarrow> 'u index_macro_token \<times> exn option \<times> 'u world" where
  "macro_token_evaluate_roll t w = macro_token_roll (im_indices t) t w"

fun remap_indices :: "index_remap_rule \<Rightarrow> index_literal_list \<Rightarrow> exn + index_literal_list" where
  "remap_indices rule [] = Inr []"
| "remap_indices rule (l # ls) =
     (case remap_find rule l of
        None \<Rightarrow> Inl (missing_substitution l)
      | Some m \<Rightarrow> bindE (remap_indices rule ls) (\<lambda>ms. Inr (m # ms)))"

definition macro_token_evaluate_remap ::
  "index_remap_rule \<Rightarrow> 'u index_macro_token \<Rightarrow> 'u world \<Rightarrow> 'u index_macro_token \<times> exn option \<times> 'u world" where
  "macro_token_evaluate_remap rule t w =
     (case remap_indices rule (im_indices t) of
        Inl e \<Rightarrow> (t, Some e, w)
      | Inr indices \<Rightarrow> macro_token_roll indices t w)"

text \<open>\<open>reset\<close>.\<close>

definition macro_token_post ::
  "'u index_macro_token \<Rightarrow> 'u world \<Rightarrow> 'u index_macro_token \<times> exn option \<times> 'u world" where
  "macro_token_post t w =
     (if im_initialized t then
        (case rule_post (im_rule t) (im_args t) w of
           (Inr _, w1) \<Rightarrow> (t\<lparr>im_initialized := False\<rparr>, None, w1)
         | (Inl (Rule_apply_fail m txt), w1) \<Rightarrow> (let (t', w2) = im_report m txt t w1 in (t', None, w2))
         | (Inl e, w1) \<Rightarrow> (t, Some e, w1))
      else (t, None, w))"

text \<open>The destructor; an exception that leaves it, given as the first component, terminates the program.\<close>

definition macro_token_destroy :: "'u index_macro_token \<Rightarrow> 'u world \<Rightarrow> exn option \<times> 'u world" where
  "macro_token_destroy t w =
     (if im_initialized t then
        (case rule_post (im_rule t) (im_args t) w of
           (Inr _, w1) \<Rightarrow> (None, w1)
         | (Inl (Rule_apply_fail m txt), w1) \<Rightarrow> (None, snd (im_report m txt t w1))
         | (Inl e, w1) \<Rightarrow> (Some e, w1))
      else (None, w))"

text \<open>Directives are evaluated by the constructor of their token; an exception that is not a failure of the
  directive leaves the constructor.\<close>

definition directive_base :: "string \<Rightarrow> nat \<times> nat \<Rightarrow> directive_token" where
  "directive_base m ctx = \<lparr>dt_base = token_base_new m ctx, dt_name = m, dt_argument_error = False, dt_index_error = False\<rparr>"

definition dt_report :: "msg_id \<Rightarrow> string \<Rightarrow> directive_token \<Rightarrow> 'u world \<Rightarrow> directive_token \<times> 'u world" where
  "dt_report m txt t w = (let (b, w') = token_error m txt (dt_base t) w in (t\<lparr>dt_base := b\<rparr>, w'))"

definition dt_converted :: "string \<Rightarrow> directive_token \<Rightarrow> directive_token" where
  "dt_converted s t = t\<lparr>dt_base := (dt_base t)\<lparr>tb_conversion := s\<rparr>\<rparr>"

definition simple_directive_token_new ::
  "string \<Rightarrow> macro_argument_list \<Rightarrow> 'u simple_directive \<Rightarrow> nat \<times> nat \<Rightarrow> ('u world, directive_token) act" where
  "simple_directive_token_new m a r ctx w =
     (let t = directive_base m ctx in
      case simple_directive_call r a w of
        (Inr s, w1) \<Rightarrow> (Inr (dt_converted s t), w1)
      | (Inl (Argument_mismatch x), w1) \<Rightarrow> (let (t', w2) = dt_report x [] t w1 in (Inr (t'\<lparr>dt_argument_error := True\<rparr>), w2))
      | (Inl (Rule_apply_fail x txt), w1) \<Rightarrow> (let (t', w2) = dt_report x txt t w1 in (Inr t', w2))
      | (Inl e, w1) \<Rightarrow> (Inl e, w1))"

definition index_directive_token_new ::
  "string \<Rightarrow> index_literal_list \<Rightarrow> macro_argument_list \<Rightarrow> 'u index_directive \<Rightarrow> nat \<times> nat \<Rightarrow> ('u world, directive_token) act" where
  "index_directive_token_new m i a r ctx w =
     (let t = directive_base m ctx in
      case index_directive_call r a i w of
        (Inr s, w1) \<Rightarrow> (Inr (dt_converted s t), w1)
      | (Inl (Argument_mismatch x), w1) \<Rightarrow> (let (t', w2) = dt_report x [] t w1 in (Inr (t'\<lparr>dt_argument_error := True\<rparr>), w2))
      | (Inl (Index_mismatch x lb s f), w1) \<Rightarrow> (Inr (t\<lparr>dt_index_error := True\<rparr>), logA Sev_error x [lb] (s, f) w1)
      | (Inl (Rule_apply_fail x txt), w1) \<Rightarrow> (let (t', w2) = dt_report x txt t w1 in (Inr t', w2))
      | (Inl e, w1) \<Rightarrow> (Inl e, w1))"

definition token_string :: "'u token \<Rightarrow> string" where
  "token_string t = tb_conversion
     (case t of Text_token b \<Rightarrow> b | Index_token i \<Rightarrow> il_base i | Simple_token s \<Rightarrow> sm_base s | Macro_token m \<Rightarrow> im_base m
      | Simple_directive_token d \<Rightarrow> dt_base d | Index_directive_token d \<Rightarrow> dt_base d)"

section \<open>Properties\<close>

subsection \<open>The error budget of a token\<close>

primrec simple_evaluate_times ::
  "nat \<Rightarrow> 'u simple_macro_token \<Rightarrow> 'u world \<Rightarrow> 'u simple_macro_token \<times> exn option \<times> 'u world" where
  "simple_evaluate_times 0 t w = (t, None, w)"
| "simple_evaluate_times (Suc n) t w =
     (case simple_evaluate_times n t w of
        (t', None, w') \<Rightarrow> simple_token_evaluate t' w'
      | (t', Some e, w') \<Rightarrow> (t', Some e, w'))"

definition token_diag :: "severity \<Rightarrow> msg_id \<Rightarrow> string \<Rightarrow> token_base \<Rightarrow> diag" where
  "token_diag sev m txt b = Diag sev m txt (fst (tb_ctx b)) (snd (tb_ctx b))"

text \<open>What \<open>n\<close> failures of the same kind leave in the log.\<close>

definition failure_diags :: "exn \<Rightarrow> nat \<Rightarrow> token_base \<Rightarrow> diag_log" where
  "failure_diags e n b =
     (case e of
        Argument_mismatch m \<Rightarrow> if n = 0 then [] else [token_diag Sev_error m [] b]
      | Rule_apply_fail m txt \<Rightarrow>
          replicate (min n MAX_TOKEN_ERRORS) (token_diag Sev_error m txt b)
          @ (if n < MAX_TOKEN_ERRORS then [] else [token_diag Sev_warn ''ERROR_TOKENIZE_TOO_MANY_ERRORS'' [] b])
      | _ \<Rightarrow> [])"

lemma token_error_ctx [simp]: "tb_ctx (fst (token_error m txt b w)) = tb_ctx b"
  by (simp add: token_error_def Let_def)

lemma token_error_audible:
  assumes "\<not> tb_silent b" and "tb_errors b < MAX_TOKEN_ERRORS"
  shows "token_error m txt b w =
    (b\<lparr>tb_errors := Suc (tb_errors b), tb_silent := (Suc (tb_errors b) = MAX_TOKEN_ERRORS)\<rparr>,
     w\<lparr>w_log := w_log w @ token_diag Sev_error m txt b #
        (if Suc (tb_errors b) = MAX_TOKEN_ERRORS
         then [token_diag Sev_warn ''ERROR_TOKENIZE_TOO_MANY_ERRORS'' [] b] else [])\<rparr>)"
  using assms by (auto simp: token_error_def logA_def token_diag_def Let_def)

lemma token_error_silent:
  "tb_silent b \<Longrightarrow> token_error m txt b w = (b\<lparr>tb_errors := Suc (tb_errors b)\<rparr>, w)"
  by (simp add: token_error_def)

definition failed_token :: "exn \<Rightarrow> nat \<Rightarrow> 'u simple_macro_token \<Rightarrow> 'u simple_macro_token" where
  "failed_token e n t =
     (case e of
        Argument_mismatch m \<Rightarrow>
          (if n = 0 then t else t\<lparr>sm_base := (sm_base t)\<lparr>tb_errors := 1\<rparr>, sm_argument_error := True\<rparr>)
      | Rule_apply_fail m txt \<Rightarrow>
          t\<lparr>sm_base := (sm_base t)\<lparr>tb_errors := n, tb_silent := (MAX_TOKEN_ERRORS \<le> n)\<rparr>\<rparr>
      | _ \<Rightarrow> t)"

definition reported_failure :: "exn \<Rightarrow> bool" where
  "reported_failure e = (case e of Argument_mismatch m \<Rightarrow> True | Rule_apply_fail m txt \<Rightarrow> True | _ \<Rightarrow> False)"

lemma failed_token_rule [simp]: "sm_rule (failed_token e n t) = sm_rule t" "sm_args (failed_token e n t) = sm_args t"
  by (cases e; simp add: failed_token_def)+

lemma evaluate_failing_step:
  assumes fail: "\<And>w. simple_rule_call (sm_rule t) (sm_args t) w = (Inl e, w)"
    and fresh: "tb_errors (sm_base t) = 0" "\<not> tb_silent (sm_base t)" "\<not> sm_argument_error t"
    and e: "reported_failure e"
  shows "simple_token_evaluate (failed_token e n t) (w\<lparr>w_log := l @ failure_diags e n (sm_base t)\<rparr>)
    = (failed_token e (Suc n) t, None, w\<lparr>w_log := l @ failure_diags e (Suc n) (sm_base t)\<rparr>)"
proof (cases e)
  case (Rule_apply_fail m x)
  show ?thesis
  proof (cases "n < MAX_TOKEN_ERRORS")
    case True
    let ?c = "(sm_base t)\<lparr>tb_errors := n, tb_silent := False\<rparr>"
    have a: "\<not> tb_silent ?c" "tb_errors ?c < MAX_TOKEN_ERRORS" using True by simp_all
    have r: "replicate (Suc n) x = replicate n x @ [x]" for x :: diag by (simp add: replicate_append_same)
    have min: "min n MAX_TOKEN_ERRORS = n" "min (Suc n) MAX_TOKEN_ERRORS = Suc n" using True by simp_all
    have le: "(MAX_TOKEN_ERRORS \<le> Suc n) = (Suc n = MAX_TOKEN_ERRORS)" "(Suc n < MAX_TOKEN_ERRORS) = (Suc n \<noteq> MAX_TOKEN_ERRORS)"
      using True by auto
    show ?thesis using True
      by (simp add: Rule_apply_fail failed_token_def simple_token_evaluate_def fail sm_report_def
          token_error_audible [OF a] token_diag_def failure_diags_def min le r del: replicate.simps)
  next
    case False
    have a: "tb_silent ((sm_base t)\<lparr>tb_errors := n, tb_silent := True\<rparr>)" by simp
    show ?thesis using False
      by (simp add: Rule_apply_fail failed_token_def simple_token_evaluate_def fail sm_report_def
          token_error_silent [OF a] failure_diags_def)
  qed
qed (use e fresh in \<open>auto simp: reported_failure_def failed_token_def simple_token_evaluate_def fail sm_report_def
      token_error_def token_diag_def logA_def failure_diags_def MAX_TOKEN_ERRORS_def Let_def\<close>)

text \<open>A token reports a bounded number of errors. However often a macro token is evaluated, if its rule keeps
  failing then the first four failures are reported, followed by one warning that there are too many, and
  nothing after that; if the arguments do not fit the rule, that is reported the first time only. No failure of
  these kinds escapes from an evaluation, and the text of the token stays what it was.\<close>

theorem token_error_budget:
  assumes "\<And>w. simple_rule_call (sm_rule t) (sm_args t) w = (Inl e, w)" and "reported_failure e"
    and "tb_errors (sm_base t) = 0" "\<not> tb_silent (sm_base t)" "\<not> sm_argument_error t"
  shows "\<exists>t'. simple_evaluate_times n t w = (t', None, w\<lparr>w_log := w_log w @ failure_diags e n (sm_base t)\<rparr>)
    \<and> token_string (Simple_token t') = token_string (Simple_token t)"
proof -
  have "simple_evaluate_times n t w = (failed_token e n t, None, w\<lparr>w_log := w_log w @ failure_diags e n (sm_base t)\<rparr>)"
  proof (induction n)
    case 0
    show ?case using assms(2-)
      by (cases e) (simp_all add: reported_failure_def failed_token_def failure_diags_def MAX_TOKEN_ERRORS_def)
  next
    case (Suc n)
    then show ?case using evaluate_failing_step [OF assms(1,3-5,2), where n = n and w = w and l = "w_log w"] by simp
  qed
  moreover have "token_string (Simple_token (failed_token e n t)) = token_string (Simple_token t)"
    by (cases e) (simp_all add: failed_token_def token_string_def)
  ultimately show ?thesis by blast
qed

definition failing_rule :: "unit simple_rule" where
  "failing_rule = \<lparr>sr_name = ''M'', sr_args = 0, sr_evaluate = (\<lambda>args. throwA (Rule_apply_fail ''F'' ''x''))\<rparr>"

theorem token_error_budget_witness:
  "\<exists>t'. simple_evaluate_times 7 (simple_macro_token_new ''$M'' [] failing_rule pre_macro (2, 4))
      \<lparr>w_log = [], w_enabled = True, w_user = ()\<rparr>
    = (t', None, \<lparr>w_log = replicate 4 (Diag Sev_error ''F'' ''x'' 2 4)
          @ [Diag Sev_warn ''ERROR_TOKENIZE_TOO_MANY_ERRORS'' [] 2 4], w_enabled = True, w_user = ()\<rparr>)"
proof -
  let ?t = "simple_macro_token_new ''$M'' [] failing_rule pre_macro (2, 4)"
  let ?e = "Rule_apply_fail ''F'' ''x''"
  have "simple_rule_call (sm_rule ?t) (sm_args ?t) w = (Inl ?e, w)" for w
    by (simp add: simple_rule_call_def simple_macro_token_new_def failing_rule_def validate_args_def throwA_def)
  from token_error_budget [OF this, where n = 7 and w = "\<lparr>w_log = [], w_enabled = True, w_user = ()\<rparr>"] show ?thesis
    by (auto simp: reported_failure_def simple_macro_token_new_def token_base_new_def failure_diags_def
        token_diag_def MAX_TOKEN_ERRORS_def)
qed

subsection \<open>The hooks of an index rule\<close>

datatype hook_event = Pre_hook | Unroll_hook | Post_hook

definition caught_failure :: "exn \<Rightarrow> bool" where
  "caught_failure e = (case e of Argument_mismatch m \<Rightarrow> True | Index_mismatch m l s f \<Rightarrow> True
     | Rule_apply_fail m txt \<Rightarrow> True | _ \<Rightarrow> False)"

text \<open>An action that records its call in the hidden state and fails, if at all, with an exception that the
  tokens handle.\<close>

definition records :: "hook_event \<Rightarrow> (hook_event list world, 'a) act \<Rightarrow> bool" where
  "records h f \<longleftrightarrow> (\<forall>w. w_user (snd (f w)) = w_user w @ [h] \<and> (\<forall>e. fst (f w) = Inl e \<longrightarrow> caught_failure e))"

lemma recordsD:
  assumes "records h f" and "f w = (x, w')"
  shows "w_user w' = w_user w @ [h]" and "x = Inl e \<Longrightarrow> caught_failure e"
  using assms by (auto simp: records_def dest: spec [where x = w])

primrec macro_unroll_all ::
  "indices_assignment list \<Rightarrow> 'u index_macro_token \<Rightarrow> 'u world \<Rightarrow> 'u index_macro_token \<times> exn option \<times> 'u world" where
  "macro_unroll_all [] t w = (t, None, w)"
| "macro_unroll_all (a # as) t w =
     (case macro_token_evaluate_unroll a t w of
        (t', None, w') \<Rightarrow> macro_unroll_all as t' w'
      | (t', Some e, w') \<Rightarrow> (t', Some e, w'))"

definition same_call :: "'u index_macro_token \<Rightarrow> 'u index_macro_token \<Rightarrow> bool" where
  "same_call t t' \<longleftrightarrow> im_rule t' = im_rule t \<and> im_args t' = im_args t \<and> im_indices t' = im_indices t"

lemma same_call_refl [simp]: "same_call t t"
  by (simp add: same_call_def)

lemma same_call_trans: "same_call t t' \<Longrightarrow> same_call t' t'' \<Longrightarrow> same_call t t''"
  by (simp add: same_call_def)

lemma w_user_logA [simp]: "w_user (logA s m x c w) = w_user w"
  by (simp add: logA_def)

lemma token_error_user [simp]: "w_user (snd (token_error m x b w)) = w_user w"
  by (simp add: token_error_def Let_def)

lemma im_report_keeps:
  assumes "im_report m x t w = (t', w')"
  shows "same_call t t' \<and> im_initialized t' = im_initialized t \<and> w_user w' = w_user w"
  using assms token_error_user [of m x "im_base t" w]
  by (auto simp: im_report_def same_call_def Let_def case_prod_unfold simp del: token_error_user)

lemma im_handle_caught:
  assumes "caught_failure e"
  shows "\<exists>t' w'. im_handle e t w = (t', None, w') \<and> same_call t t' \<and> im_initialized t' = im_initialized t
    \<and> w_user w' = w_user w"
proof (cases e)
  case (Argument_mismatch m)
  obtain t' w' where r: "im_report m [] t w = (t', w')" by (cases "im_report m [] t w")
  show ?thesis using im_report_keeps [OF r] r Argument_mismatch by (simp add: im_handle_def same_call_def)
next
  case (Rule_apply_fail m x)
  obtain t' w' where r: "im_report m x t w = (t', w')" by (cases "im_report m x t w")
  show ?thesis using im_report_keeps [OF r] r Rule_apply_fail by (simp add: im_handle_def)
qed (use assms in \<open>simp_all add: caught_failure_def im_handle_def same_call_def\<close>)

lemma im_invoke_pre_events:
  assumes "records Pre_hook (ir_pre_hook (im_rule t) (im_args t) (im_indices t))" and "length (im_args t) = ir_args (im_rule t)"
  shows "\<exists>t' w'. im_invoke_pre t w = (t', None, w') \<and> same_call t t' \<and> im_initialized t'
    \<and> w_user w' = w_user w @ (if im_initialized t then [] else [Pre_hook])"
proof (cases "im_initialized t")
  case False
  obtain x w1 where p: "ir_pre_hook (im_rule t) (im_args t) (im_indices t) w = (x, w1)" by fastforce
  have r: "rule_pre (im_rule t) (im_args t) (im_indices t) w = (x, w1)"
    using assms(2) p by (simp add: rule_pre_def validate_args_def)
  note ev = recordsD [OF assms(1) p]
  show ?thesis
  proof (cases x)
    case (Inl e)
    obtain t' w' where "im_handle e t w1 = (t', None, w')" "same_call t t'" "w_user w' = w_user w1"
      using im_handle_caught [OF ev(2) [OF Inl]] by blast
    then show ?thesis using False r ev(1) Inl by (simp add: im_invoke_pre_def same_call_def)
  qed (use False r ev(1) in \<open>simp add: im_invoke_pre_def same_call_def\<close>)
qed (simp add: im_invoke_pre_def)

text \<open>Whether the implementation runs on an assignment.\<close>

definition unroll_valid :: "'u index_macro_token \<Rightarrow> indices_assignment \<Rightarrow> bool" where
  "unroll_valid t a = (case assignment_values a (im_indices t) of
     Inl e \<Rightarrow> False | Inr vs \<Rightarrow> validate_indices (im_rule t) (map value_view vs) = None)"

lemma validate_indices_caught: "validate_indices r vs = Some e \<Longrightarrow> caught_failure e"
  by (auto simp: validate_indices_failure index_failure_def caught_failure_def split: if_splits option.splits)

lemma macro_unroll_events:
  assumes "records Pre_hook (ir_pre_hook (im_rule t) (im_args t) (im_indices t))" and args: "length (im_args t) = ir_args (im_rule t)"
    and un: "\<And>vs. records Unroll_hook (ir_unroll (im_rule t) (im_args t) vs)" and vs: "assignment_values a (im_indices t) = Inr vs"
  shows "\<exists>t' w'. macro_token_evaluate_unroll a t w = (t', None, w') \<and> same_call t t' \<and> im_initialized t'
    \<and> w_user w' = w_user w @ (if im_initialized t then [] else [Pre_hook]) @ (if unroll_valid t a then [Unroll_hook] else [])"
proof -
  obtain t1 w1 where p: "im_invoke_pre t w = (t1, None, w1)" "same_call t t1" "im_initialized t1"
    and u: "w_user w1 = w_user w @ (if im_initialized t then [] else [Pre_hook])"
    using im_invoke_pre_events [OF assms(1) args] by blast
  from p(2) have s: "im_rule t1 = im_rule t" "im_args t1 = im_args t" "im_indices t1 = im_indices t"
    by (simp_all add: same_call_def)
  obtain x w2 where c: "rule_evaluate_unroll (im_rule t) (im_args t) vs w1 = (x, w2)" by fastforce
  have x: "w_user w2 = w_user w1 @ (if unroll_valid t a then [Unroll_hook] else []) \<and> (\<forall>e. x = Inl e \<longrightarrow> caught_failure e)"
  proof (cases "validate_indices (im_rule t) (map value_view vs)")
    case None
    then have "ir_unroll (im_rule t) (im_args t) vs w1 = (x, w2)"
      using c args by (simp add: rule_evaluate_unroll_def validate_args_def)
    from recordsD [OF un this] show ?thesis using None vs by (simp add: unroll_valid_def)
  next
    case (Some e)
    then show ?thesis using c args vs validate_indices_caught [OF Some]
      by (auto simp: rule_evaluate_unroll_def validate_args_def unroll_valid_def throwA_def)
  qed
  show ?thesis
  proof (cases x)
    case (Inl e)
    obtain t' w' where "im_handle e t1 w2 = (t', None, w')" "same_call t1 t'" "im_initialized t'" "w_user w' = w_user w2"
      using im_handle_caught [of e t1 w2] x Inl p(3) by blast
    then show ?thesis using p u x c Inl vs s same_call_trans [OF p(2)] by (simp add: macro_token_evaluate_unroll_def)
  qed (use p u x c vs s in \<open>simp add: macro_token_evaluate_unroll_def same_call_def im_converted_def\<close>)
qed

lemma macro_unroll_all_events:
  assumes "records Pre_hook (ir_pre_hook (im_rule t) (im_args t) (im_indices t))" and "length (im_args t) = ir_args (im_rule t)"
    and "\<And>vs. records Unroll_hook (ir_unroll (im_rule t) (im_args t) vs)"
    and "\<And>a. a \<in> set as \<Longrightarrow> \<exists>vs. assignment_values a (im_indices t) = Inr vs"
  shows "\<exists>t' w'. macro_unroll_all as t w = (t', None, w') \<and> same_call t t' \<and> im_initialized t' = (im_initialized t \<or> as \<noteq> [])
    \<and> w_user w' = w_user w @ (if im_initialized t \<or> as = [] then [] else [Pre_hook])
         @ replicate (length (filter (unroll_valid t) as)) Unroll_hook"
  using assms
proof (induction as arbitrary: t w)
  case (Cons a as)
  obtain vs where "assignment_values a (im_indices t) = Inr vs" using Cons.prems(4) by auto
  from macro_unroll_events [OF Cons.prems(1-3) this] obtain t1 w1 where
    e: "macro_token_evaluate_unroll a t w = (t1, None, w1)" "same_call t t1" "im_initialized t1"
       "w_user w1 = w_user w @ (if im_initialized t then [] else [Pre_hook]) @ (if unroll_valid t a then [Unroll_hook] else [])"
    by blast
  from e(2) have s: "im_rule t1 = im_rule t" "im_args t1 = im_args t" "im_indices t1 = im_indices t"
    by (simp_all add: same_call_def)
  have uv: "unroll_valid t1 = unroll_valid t" by (simp add: fun_eq_iff unroll_valid_def s cong: sum.case_cong)
  have "\<exists>t' w'. macro_unroll_all as t1 w1 = (t', None, w') \<and> same_call t1 t' \<and> im_initialized t' = (im_initialized t1 \<or> as \<noteq> [])
    \<and> w_user w' = w_user w1 @ (if im_initialized t1 \<or> as = [] then [] else [Pre_hook])
         @ replicate (length (filter (unroll_valid t1) as)) Unroll_hook"
    by (rule Cons.IH) (use Cons.prems s in auto)
  then show ?case using e s uv by (auto simp: same_call_def)
qed simp

text \<open>The hooks of a rule bracket its unrolled evaluations. If a macro token with the right number of arguments
  is evaluated on a sequence of assignments that assign its indices and is then reset, the rule's pre-hook is called
  once, before everything else, its implementation once for each assignment whose indices it accepts, in that order,
  and its post-hook once, at the end; with no evaluation at all, nothing is called. No failure of a hook breaks the
  sequence.\<close>

theorem hooks_bracket_unrolling:
  assumes "records Pre_hook (ir_pre_hook (im_rule t) (im_args t) (im_indices t))"
    and "\<And>vs. records Unroll_hook (ir_unroll (im_rule t) (im_args t) vs)"
    and "records Post_hook (ir_post_hook (im_rule t) (im_args t))" and "\<And>w. fst (ir_post_hook (im_rule t) (im_args t) w) = Inr ()"
    and "length (im_args t) = ir_args (im_rule t)" and "\<not> im_initialized t"
    and "\<And>a. a \<in> set as \<Longrightarrow> \<exists>vs. assignment_values a (im_indices t) = Inr vs"
  shows "\<exists>t1 w1 t2 w2. macro_unroll_all as t w = (t1, None, w1) \<and> macro_token_post t1 w1 = (t2, None, w2)
    \<and> \<not> im_initialized t2
    \<and> w_user w2 = w_user w @ (if as = [] then []
        else [Pre_hook] @ replicate (length (filter (unroll_valid t) as)) Unroll_hook @ [Post_hook])"
proof -
  obtain t1 w1 where r: "macro_unroll_all as t w = (t1, None, w1)" "same_call t t1" "im_initialized t1 = (as \<noteq> [])"
    and u: "w_user w1 = w_user w @ (if as = [] then [] else [Pre_hook]) @ replicate (length (filter (unroll_valid t) as)) Unroll_hook"
    using macro_unroll_all_events [OF assms(1,5,2), of as w] assms(6,7) by auto
  obtain x w2 where p: "ir_post_hook (im_rule t) (im_args t) w1 = (x, w2)" by fastforce
  have x: "x = Inr ()" "w_user w2 = w_user w1 @ [Post_hook]"
    using assms(4) [of w1] p recordsD(1) [OF assms(3) p] by auto
  have q: "rule_post (im_rule t1) (im_args t1) w1 = (Inr (), w2)"
    using p x(1) r(2) assms(5) by (simp add: rule_post_def validate_args_def same_call_def)
  show ?thesis
  proof (cases "as = []")
    case True
    then show ?thesis using r u by (auto simp: macro_token_post_def)
  next
    case False
    then show ?thesis using r u q x by (simp add: macro_token_post_def)
  qed
qed

definition recording_rule :: "hook_event list index_rule" where
  "recording_rule = \<lparr>ir_name = ''M'', ir_args = 0, ir_indices = 0, ir_classes = None,
     ir_get_unroll = (\<lambda>_ _. allow_unroll),
     ir_unroll = (\<lambda>_ _ w. (Inr ''u'', w\<lparr>w_user := w_user w @ [Unroll_hook]\<rparr>)),
     ir_roll = (\<lambda>_ _. returnA ''r''),
     ir_pre_hook = (\<lambda>_ _ w. (Inl (Rule_apply_fail ''F'' []), w\<lparr>w_user := w_user w @ [Pre_hook]\<rparr>)),
     ir_post_hook = (\<lambda>_ w. (Inr (), w\<lparr>w_user := w_user w @ [Post_hook]\<rparr>))\<rparr>"

theorem hooks_bracket_unrolling_witness:
  "\<exists>t1 w1 t2 w2. macro_unroll_all [idb_empty, idb_empty] (index_macro_token_new ''$M'' [] [] recording_rule (0, 2))
       \<lparr>w_log = [], w_enabled = True, w_user = []\<rparr> = (t1, None, w1)
    \<and> macro_token_post t1 w1 = (t2, None, w2) \<and> \<not> im_initialized t2
    \<and> w_user w2 = [Pre_hook, Unroll_hook, Unroll_hook, Post_hook]"
  using hooks_bracket_unrolling [of "index_macro_token_new ''$M'' [] [] recording_rule (0, 2)" "[idb_empty, idb_empty]"
      "\<lparr>w_log = [], w_enabled = True, w_user = []\<rparr>"]
  by (simp add: index_macro_token_new_def recording_rule_def records_def caught_failure_def unroll_valid_def
      validate_indices_def)

subsection \<open>Rolled-up evaluation\<close>

text \<open>Errors of arguments and indices are handled when a macro is unrolled but not when it is rolled up. For an
  initialised macro token whose arguments or indices do not fit the rule, unrolled evaluation handles the failure, so
  nothing escapes, while rolled-up evaluation of the same token lets the exception for wrong arguments or for an index
  of the wrong class escape, and reports nothing.\<close>

theorem rolled_mismatch_escapes:
  assumes "im_initialized t" and "assignment_values a (im_indices t) = Inr vs"
    and "rule_evaluate_unroll (im_rule t) (im_args t) vs w = (Inl e, w)"
    and "rule_evaluate_roll (im_rule t) (im_args t) (im_indices t) w = (Inl e, w)"
    and "e = Argument_mismatch m \<or> e = Index_mismatch m l s f"
  shows "(\<exists>t' w'. macro_token_evaluate_unroll a t w = (t', None, w')) \<and> macro_token_evaluate_roll t w = (t, Some e, w)"
proof -
  have "caught_failure e" using assms(5) by (auto simp: caught_failure_def)
  from im_handle_caught [OF this] obtain t' w' where "im_handle e t w = (t', None, w')" by blast
  then have "macro_token_evaluate_unroll a t w = (t', None, w')"
    using assms(1-3) by (simp add: macro_token_evaluate_unroll_def im_invoke_pre_def)
  moreover have "macro_token_evaluate_roll t w = (t, Some e, w)"
    using assms(4,5) by (auto simp: macro_token_evaluate_roll_def macro_token_roll_def im_handle_roll_def)
  ultimately show ?thesis by blast
qed

theorem rolled_mismatch_escapes_witness:
  "(\<exists>t' w'. macro_token_evaluate_unroll idb_empty ((index_macro_token_new ''$M'' [] [(''x'', 3, 4)] recording_rule (0, 2))
        \<lparr>im_initialized := True\<rparr>) \<lparr>w_log = [], w_enabled = True, w_user = []\<rparr> = (t', None, w'))
   \<and> macro_token_evaluate_roll ((index_macro_token_new ''$M'' [] [(''x'', 3, 4)] recording_rule (0, 2))\<lparr>im_initialized := True\<rparr>)
        \<lparr>w_log = [], w_enabled = True, w_user = []\<rparr>
     = ((index_macro_token_new ''$M'' [] [(''x'', 3, 4)] recording_rule (0, 2))\<lparr>im_initialized := True\<rparr>,
        Some (Argument_mismatch ''ERROR_MACRO_WRONG_ARGUMENT_COUNT''), \<lparr>w_log = [], w_enabled = True, w_user = []\<rparr>)"
  by (rule rolled_mismatch_escapes [where vs = "[]" and m = "''ERROR_MACRO_WRONG_ARGUMENT_COUNT''"])
    (simp_all add: index_macro_token_new_def recording_rule_def rule_evaluate_unroll_def rule_evaluate_roll_def
      validate_args_def throwA_def)

subsection \<open>A wrong number of arguments\<close>

text \<open>A macro with the wrong number of arguments ends the program. Its unrolled evaluation reports the error
  once and counts as the token's initialisation; the post-hook is then due, but both \<open>reset\<close> and the
  destructor, which call it, check the arguments again and let the exception for wrong arguments through; an
  exception that leaves a destructor terminates the program.\<close>

theorem wrong_arguments_escape:
  assumes "length (im_args t) \<noteq> ir_args (im_rule t)" and "\<not> im_initialized t" and "\<not> im_argument_error t"
    and "\<not> tb_silent (im_base t)" and "tb_errors (im_base t) = 0" and "assignment_values a (im_indices t) = Inr vs"
  shows "\<exists>t' w'. macro_token_evaluate_unroll a t w = (t', None, w')
    \<and> w' = w\<lparr>w_log := w_log w @ [token_diag Sev_error ''ERROR_MACRO_WRONG_ARGUMENT_COUNT'' [] (im_base t)]\<rparr>
    \<and> macro_token_post t' w' = (t', Some (Argument_mismatch ''ERROR_MACRO_WRONG_ARGUMENT_COUNT''), w')
    \<and> macro_token_destroy t' w' = (Some (Argument_mismatch ''ERROR_MACRO_WRONG_ARGUMENT_COUNT''), w')"
proof -
  let ?m = "''ERROR_MACRO_WRONG_ARGUMENT_COUNT''"
  let ?b = "(im_base t)\<lparr>tb_errors := 1\<rparr>"
  let ?t = "t\<lparr>im_base := ?b, im_argument_error := True, im_initialized := True\<rparr>"
  let ?w = "w\<lparr>w_log := w_log w @ [token_diag Sev_error ?m [] (im_base t)]\<rparr>"
  have v: "validate_args ?m (ir_args (im_rule t)) (im_args t) = Some (Argument_mismatch ?m)"
    using assms(1) by (simp add: validate_args_def)
  have "im_invoke_pre t w = (?t, None, ?w)"
    using assms(2-5) v by (simp add: im_invoke_pre_def rule_pre_def throwA_def im_handle_def im_report_def token_error_def
        MAX_TOKEN_ERRORS_def logA_def token_diag_def)
  then have "macro_token_evaluate_unroll a t w = (?t, None, ?w)"
    using assms(6) v by (simp add: macro_token_evaluate_unroll_def rule_evaluate_unroll_def throwA_def im_handle_def)
  moreover have "macro_token_post ?t ?w = (?t, Some (Argument_mismatch ?m), ?w)"
    using v by (simp add: macro_token_post_def rule_post_def throwA_def)
  moreover have "macro_token_destroy ?t ?w = (Some (Argument_mismatch ?m), ?w)"
    using v by (simp add: macro_token_destroy_def rule_post_def throwA_def)
  ultimately show ?thesis by (intro exI conjI) (assumption, rule refl)
qed

theorem wrong_arguments_escape_witness:
  "\<exists>t' w'. macro_token_evaluate_unroll idb_empty (index_macro_token_new ''M'' [] [(''x'', (3, 4))] recording_rule (0, 2))
      \<lparr>w_log = [], w_enabled = True, w_user = []\<rparr> = (t', None, w')
    \<and> w' = \<lparr>w_log = [Diag Sev_error ''ERROR_MACRO_WRONG_ARGUMENT_COUNT'' [] 0 2], w_enabled = True, w_user = []\<rparr>
    \<and> macro_token_post t' w' = (t', Some (Argument_mismatch ''ERROR_MACRO_WRONG_ARGUMENT_COUNT''), w')
    \<and> macro_token_destroy t' w' = (Some (Argument_mismatch ''ERROR_MACRO_WRONG_ARGUMENT_COUNT''), w')"
  using wrong_arguments_escape [of "index_macro_token_new ''M'' [] [(''x'', (3, 4))] recording_rule (0, 2)" idb_empty "[]"
      "\<lparr>w_log = [], w_enabled = True, w_user = []\<rparr>"]
  by (simp add: index_macro_token_new_def recording_rule_def token_base_new_def token_diag_def)

end
