(* ===== verification/Token_Scanners.thy ===== *)
theory Token_Scanners
  imports Macro_Tokens
begin

text \<open>
  The scanning functions of \<open>macro_substitution/token_list.cpp\<close> (namespace \<open>macro_tokenizer_impl\<close>): text
  literals, the prefix, argument lists, unwanted index lists, and the search of the rule sets. Positions count
  characters from the start of the line; reading at the end of the line gives the terminating null character.
\<close>

section \<open>Scanning\<close>

definition char_at :: "string \<Rightarrow> nat \<Rightarrow> char" where
  "char_at s p = (if p < length s then s ! p else NUL)"

text \<open>A loop that moves forward while the line has not ended and the character passes a test.\<close>

definition skip_while :: "(char \<Rightarrow> bool) \<Rightarrow> string \<Rightarrow> nat \<Rightarrow> nat" where
  "skip_while P s p = p + length (takeWhile P (drop p s))"

definition slice :: "string \<Rightarrow> nat \<Rightarrow> nat \<Rightarrow> string" where
  "slice s b e = take (e - b) (drop b s)"

text \<open>The first character of a text literal is taken whatever it is.\<close>

definition match_string_literal :: "string \<Rightarrow> nat \<Rightarrow> char \<Rightarrow> 'u token \<times> nat" where
  "match_string_literal s p terminal =
     (let e = skip_while (\<lambda>c. c \<noteq> terminal) s (Suc p)
      in (text_token (char_at s p # slice s (Suc p) e) (p, e), e))"

definition check_match_prefix :: "string \<Rightarrow> nat \<Rightarrow> string \<Rightarrow> bool" where
  "check_match_prefix s p pfx = is_prefix pfx (drop p s)"

text \<open>Errors quote the name of the macro.\<close>

definition scan_error :: "msg_id \<Rightarrow> string \<Rightarrow> nat \<Rightarrow> 'u world \<Rightarrow> 'u world" where
  "scan_error m macro p w = logA Sev_error m macro (p, p + 1) w"

subsection \<open>Argument lists\<close>

text \<open>One argument: nothing at a comma, a quoted string, or a bare word up to a comma, a closing brace or white
  space.\<close>

definition read_argument ::
  "string \<Rightarrow> string \<Rightarrow> nat \<Rightarrow> 'u world \<Rightarrow> macro_argument_list \<times> nat \<times> 'u world" where
  "read_argument s macro p w =
     (if char_at s p = CHR '','' then ([], p, scan_error ''ERROR_UNEXPECTED_COMMA'' macro p w)
      else if char_at s p = DQUOTE then
        (let e = skip_while (\<lambda>c. c \<noteq> DQUOTE) s (Suc p);
             arg = slice s (Suc p) e
         in if e < length s then ([(arg, (p, Suc e))], Suc e, w)
            else ([(arg, (p, e))], e, scan_error ''ERROR_EXPECTED_CLOSE_ARGUMENT_QUOTE'' macro e w))
      else
        (let e = skip_while (\<lambda>c. c \<noteq> CHR '','' \<and> c \<noteq> CHR ''}'' \<and> \<not> isspace c) s p
         in ([(slice s p e, (p, e))], e, w)))"

lemma skip_while_ge: "p \<le> skip_while P s p"
  by (simp add: skip_while_def)

lemma skip_while_le: "p \<le> length s \<Longrightarrow> skip_while P s p \<le> length s"
  using length_takeWhile_le [of P "drop p s"] by (simp add: skip_while_def)

lemma skip_while_step: "p < length s \<Longrightarrow> skip_while P s p = (if P (s ! p) then skip_while P s (Suc p) else p)"
  by (simp add: skip_while_def Cons_nth_drop_Suc [symmetric])

lemma skip_while_stop: "e = skip_while P s p \<Longrightarrow> e < length s \<Longrightarrow> \<not> P (s ! e)"
  using nth_length_takeWhile [of P "drop p s"] by (simp add: skip_while_def)

lemma read_argument_progress:
  assumes "read_argument s macro p w = (a, q, w')"
  shows "p \<le> q" and "p < length s \<Longrightarrow> s ! p \<noteq> CHR ''}'' \<Longrightarrow> s ! p \<noteq> CHR '','' \<Longrightarrow> \<not> isspace (s ! p) \<Longrightarrow> p < q"
  using assms skip_while_ge [of p "\<lambda>c. c \<noteq> CHR '','' \<and> c \<noteq> CHR ''}'' \<and> \<not> isspace c" s]
    skip_while_ge [of "Suc p" "\<lambda>c. c \<noteq> DQUOTE" s]
    skip_while_ge [of "Suc p" "\<lambda>c. c \<noteq> CHR '','' \<and> c \<noteq> CHR ''}'' \<and> \<not> isspace c" s]
    skip_while_step [of p s "\<lambda>c. c \<noteq> CHR '','' \<and> c \<noteq> CHR ''}'' \<and> \<not> isspace c"]
  by (auto simp: read_argument_def char_at_def Let_def split: if_splits)

text \<open>The loop over the arguments.\<close>

function argument_loop ::
  "string \<Rightarrow> string \<Rightarrow> nat \<Rightarrow> macro_argument_list \<Rightarrow> 'u world \<Rightarrow> macro_argument_list \<times> nat \<times> 'u world" where
  "argument_loop s macro p args w =
     (if p < length s \<and> s ! p \<noteq> CHR ''}'' then
        (case read_argument s macro (skip_while isspace s p) w of
           (a, p2, w1) \<Rightarrow>
             (let p3 = skip_while isspace s p2
              in if char_at s p3 = CHR '','' then argument_loop s macro (Suc p3) (args @ a) w1
                 else if char_at s p3 = CHR ''}'' then argument_loop s macro p3 (args @ a) w1
                 else argument_loop s macro p3 (args @ a) (scan_error ''ERROR_EXPECTED_COMMA'' macro p3 w1)))
      else (args, p, w))"
  by pat_completeness auto

lemma argument_step_progress:
  assumes "p < length s" and "s ! p \<noteq> CHR ''}''" and "read_argument s macro (skip_while isspace s p) w = (a, p2, w1)"
    and "p3 = skip_while isspace s p2" and "char_at s p3 \<noteq> CHR '',''"
  shows "p < p3"
proof -
  let ?p1 = "skip_while isspace s p"
  have le: "p \<le> ?p1" "?p1 \<le> p2" "p2 \<le> p3"
    using skip_while_ge read_argument_progress(1) [OF assms(3)] assms(4) by auto
  show ?thesis
  proof (cases "?p1 = p")
    case True
    then have ns: "\<not> isspace (s ! p)" using skip_while_stop [of ?p1 isspace s p] assms(1) by simp
    show ?thesis
    proof (cases "s ! p = CHR '',''")
      case True
      then have "p2 = p" using assms(1,3) \<open>?p1 = p\<close> by (simp add: read_argument_def char_at_def)
      then have "p3 = p" using assms(1,4) ns by (simp add: skip_while_step)
      then show ?thesis using assms(1,5) True by (simp add: char_at_def)
    next
      case False
      then show ?thesis using read_argument_progress(2) [OF assms(3)] assms(1,2) ns le True by simp
    qed
  qed (use le in simp)
qed

termination argument_loop
proof (relation "measure (\<lambda>(s, macro, p, args, w). length s - p)", simp_all, goal_cases)
  case (1 s macro p w a y p2 w1 p3)
  then have r: "read_argument s macro (skip_while isspace s p) w = (a, p2, w1)" by simp
  have "p \<le> skip_while isspace s p2"
    using skip_while_ge [of p isspace s] read_argument_progress(1) [OF r] skip_while_ge [of p2 isspace s] by linarith
  moreover have "p < length s" using 1 by blast
  ultimately show ?case by simp
next
  case (2 s macro p w a y p2 w1 p3)
  then have r: "read_argument s macro (skip_while isspace s p) w = (a, p2, w1)" by metis
  have "p < p3"
    by (rule argument_step_progress [OF _ _ r]) (use 2 in \<open>simp_all (no_asm_simp)\<close>)
  moreover have "p < length s" "p3 = skip_while isspace s p2" using 2 by blast+
  ultimately show ?case by simp
next
  case (3 s macro p w a y p2 w1 p3)
  then have r: "read_argument s macro (skip_while isspace s p) w = (a, p2, w1)" by metis
  have "p < p3"
    by (rule argument_step_progress [OF _ _ r]) (use 3 in \<open>simp_all (no_asm_simp)\<close>)
  moreover have "p < length s" "p3 = skip_while isspace s p2" using 3 by blast+
  ultimately show ?case by simp
qed

declare argument_loop.simps [simp del]

definition get_argument_list ::
  "string \<Rightarrow> string \<Rightarrow> nat \<Rightarrow> bool \<Rightarrow> 'u world \<Rightarrow> macro_argument_list \<times> nat \<times> 'u world" where
  "get_argument_list s macro p error_if_absent w =
     (let p1 = skip_while isspace s p in
      if length s \<le> p1 \<or> s ! p1 \<noteq> CHR ''{''
      then ([], p1, if error_if_absent then scan_error ''ERROR_EXPECTED_OPEN_ARGUMENT_LIST'' macro p1 w else w)
      else (case argument_loop s macro (Suc p1) [] w of
         (args, q, w1) \<Rightarrow>
           if q < length s \<and> s ! q = CHR ''}'' then (args, Suc q, w1)
           else (args, q, scan_error ''ERROR_EXPECTED_CLOSE_ARGUMENT_LIST'' macro q w1)))"

text \<open>An index list that should not be there is skipped, after the error handler has been called with its
  position. Both callers pass a handler that reports it.\<close>

definition check_no_index_list :: "string \<Rightarrow> nat \<Rightarrow> (nat \<Rightarrow> 'u world \<Rightarrow> 'u world) \<Rightarrow> 'u world \<Rightarrow> nat \<times> 'u world" where
  "check_no_index_list s p err w =
     (if p < length s \<and> s ! p = CHR ''['' then
        (let e = skip_while (\<lambda>c. c \<noteq> CHR '']'') s (Suc p) in (if e < length s then Suc e else e, err p w))
      else (p, w))"

subsection \<open>Searching the rule sets\<close>

text \<open>A rule matches a candidate when its name is the candidate, or, if substrings are allowed, when its name
  starts with it.\<close>

definition rule_name_matches :: "string \<Rightarrow> bool \<Rightarrow> string \<Rightarrow> bool" where
  "rule_name_matches candidate allow_substring name =
     (candidate = (if allow_substring then take (length candidate) name else name))"

definition check_for_match :: "('r \<Rightarrow> string) \<Rightarrow> string \<Rightarrow> 'r list \<Rightarrow> bool \<Rightarrow> bool" where
  "check_for_match nm candidate rules allow_substring = list_ex (\<lambda>r. rule_name_matches candidate allow_substring (nm r)) rules"

definition find_match :: "('r \<Rightarrow> string) \<Rightarrow> string \<Rightarrow> 'r list \<Rightarrow> exn + 'r" where
  "find_match nm candidate rules =
     (case find (\<lambda>r. rule_name_matches candidate False (nm r)) rules of
        Some r \<Rightarrow> Inr r | None \<Rightarrow> Inl (Runtime_error ''ERROR_TOKENIZE_NO_MACRO_MATCH''))"

section \<open>Properties of the scanning functions\<close>

text \<open>Facts about positions are stated over the text that is still to be read.\<close>

lemma drop_drop_eq: "drop p s = b @ c \<Longrightarrow> drop (p + length b) s = c"
  by (metis add.commute append_eq_conv_conj drop_drop)

lemma drop_Suc_eq: "drop p s = x # c \<Longrightarrow> drop (Suc p) s = c"
  using drop_drop_eq [of p s "[x]" c] by simp

lemma drop_nonempty: "drop p s = x # c \<Longrightarrow> p < length s \<and> s ! p = x"
  by (metis drop_eq_Nil2 linorder_not_le list.distinct(1) nth_via_drop)

lemma char_at_drop: "drop p s = x # c \<Longrightarrow> char_at s p = x"
  using drop_nonempty [of p s x c] by (simp add: char_at_def)

lemma skip_while_drop:
  "drop p s = b @ c \<Longrightarrow> list_all P b \<Longrightarrow> c = [] \<or> \<not> P (hd c) \<Longrightarrow> skip_while P s p = p + length b"
  by (cases c) (simp_all add: skip_while_def takeWhile_append list_all_iff takeWhile_all_eq)

lemma slice_drop: "drop p s = b @ c \<Longrightarrow> slice s p (p + length b) = b"
  by (simp add: slice_def)

subsection \<open>Argument lists\<close>

datatype argument_text = Quoted string | Bare string

primrec argument_content :: "argument_text \<Rightarrow> string" where
  "argument_content (Quoted a) = a"
| "argument_content (Bare a) = a"

primrec argument_print :: "argument_text \<Rightarrow> string" where
  "argument_print (Quoted a) = DQUOTE # a @ [DQUOTE]"
| "argument_print (Bare a) = a"

primrec argument_ok :: "argument_text \<Rightarrow> bool" where
  "argument_ok (Quoted a) \<longleftrightarrow> DQUOTE \<notin> set a"
| "argument_ok (Bare a) \<longleftrightarrow> a \<noteq> [] \<and> hd a \<noteq> DQUOTE \<and> list_all (\<lambda>c. c \<noteq> CHR '','' \<and> c \<noteq> CHR ''}'' \<and> \<not> isspace c) a"

text \<open>An argument with the white space around it.\<close>

type_synonym spaced_argument = "string \<times> argument_text \<times> string"

definition spaced_ok :: "spaced_argument \<Rightarrow> bool" where
  "spaced_ok x = (case x of (u, a, v) \<Rightarrow> list_all isspace u \<and> argument_ok a \<and> list_all isspace v)"

definition spaced_print :: "spaced_argument \<Rightarrow> string" where
  "spaced_print x = (case x of (u, a, v) \<Rightarrow> u @ argument_print a @ v)"

fun arguments_print :: "spaced_argument list \<Rightarrow> string" where
  "arguments_print [] = []"
| "arguments_print [x] = spaced_print x"
| "arguments_print (x # y # xs) = spaced_print x @ CHR '','' # arguments_print (y # xs)"

text \<open>The arguments with the places they are printed at.\<close>

fun arguments_at :: "nat \<Rightarrow> spaced_argument list \<Rightarrow> macro_argument_list" where
  "arguments_at p [] = []"
| "arguments_at p ((u, a, v) # xs) =
     (argument_content a, (p + length u, p + length u + length (argument_print a)))
     # arguments_at (p + length (spaced_print (u, a, v)) + 1) xs"

lemma argument_print_start:
  "argument_ok a \<Longrightarrow> \<exists>x xs. argument_print a = x # xs \<and> \<not> isspace x \<and> x \<noteq> CHR '','' \<and> x \<noteq> CHR ''}''"
proof (cases a)
  case (Bare b)
  moreover assume "argument_ok a"
  ultimately show ?thesis by (cases b) auto
qed (simp add: isspace_def Let_def)

lemma read_argument_print:
  assumes "argument_ok a" and d: "drop p s = argument_print a @ v @ x # c" and "list_all isspace v"
    and x: "x = CHR '','' \<or> x = CHR ''}''"
  shows "read_argument s macro p w =
    ([(argument_content a, (p, p + length (argument_print a)))], p + length (argument_print a), w)"
proof (cases a)
  case (Quoted b)
  then have d0: "drop p s = DQUOTE # (b @ [DQUOTE] @ v @ x # c)" using d by simp
  note d1 = drop_Suc_eq [OF d0]
  have e: "skip_while (\<lambda>c. c \<noteq> DQUOTE) s (Suc p) = Suc p + length b"
    using assms(1) Quoted by (intro skip_while_drop [OF d1]) (auto simp: list_all_iff)
  have "drop (Suc p + length b) s = DQUOTE # v @ x # c" using drop_drop_eq [OF d1] by simp
  from drop_nonempty [OF this] have "Suc p + length b < length s" ..
  then show ?thesis
    using Quoted e slice_drop [OF d1] char_at_drop [OF d0] by (simp add: read_argument_def)
next
  case (Bare b)
  then obtain y ys where b: "b = y # ys" "y \<noteq> DQUOTE" "y \<noteq> CHR '',''" using assms(1) by (cases b) auto
  have d1: "drop p s = b @ (v @ x # c)" using d Bare by simp
  have "hd (v @ x # c) = x \<or> isspace (hd (v @ x # c))" using assms(3) by (cases v) auto
  then have e: "skip_while (\<lambda>c. c \<noteq> CHR '','' \<and> c \<noteq> CHR ''}'' \<and> \<not> isspace c) s p = p + length b"
    using assms(1) Bare x by (intro skip_while_drop [OF d1]) auto
  have "char_at s p = y" using d1 b(1) by (intro char_at_drop) simp
  then show ?thesis using Bare e slice_drop [OF d1] b by (simp add: read_argument_def)
qed

lemma argument_loop_end: "drop p s = CHR ''}'' # c \<Longrightarrow> argument_loop s macro p args w = (args, p, w)"
  using drop_nonempty [of p s] by (simp add: argument_loop.simps)

lemma argument_loop_step:
  assumes "spaced_ok (u, a, v)" and d: "drop p s = spaced_print (u, a, v) @ x # c" and x: "x = CHR '','' \<or> x = CHR ''}''"
  shows "argument_loop s macro p args w =
    argument_loop s macro (p + length (spaced_print (u, a, v)) + (if x = CHR '','' then 1 else 0))
      (args @ [(argument_content a, (p + length u, p + length u + length (argument_print a)))]) w"
proof -
  have ok: "list_all isspace u" "argument_ok a" "list_all isspace v" using assms(1) by (auto simp: spaced_ok_def)
  obtain y ys where y: "argument_print a = y # ys" "\<not> isspace y" "y \<noteq> CHR '',''" "y \<noteq> CHR ''}''"
    using argument_print_start [OF ok(2)] by blast
  have d0: "drop p s = u @ (argument_print a @ v @ x # c)" using d by (simp add: spaced_print_def)
  have p1: "skip_while isspace s p = p + length u" using ok(1) y by (intro skip_while_drop [OF d0]) auto
  note d1 = drop_drop_eq [OF d0]
  note r = read_argument_print [OF ok(2) d1 ok(3) x, of macro w]
  have d2: "drop (p + length u + length (argument_print a)) s = v @ (x # c)" using drop_drop_eq [OF d1] by simp
  have nx: "\<not> isspace x" using x by (auto simp: isspace_def Let_def)
  have p3: "skip_while isspace s (p + length u + length (argument_print a)) = p + length (spaced_print (u, a, v))"
    using skip_while_drop [OF d2 ok(3)] nx by (simp add: spaced_print_def)
  have d3: "drop (p + length (spaced_print (u, a, v))) s = x # c"
    using drop_drop_eq [OF d] by simp
  have "p < length s \<and> s ! p \<noteq> CHR ''}''"
  proof (cases u)
    case Nil
    then show ?thesis using d0 y drop_nonempty [of p s y] by simp
  next
    case (Cons z zs)
    then have "isspace z" using ok(1) by simp
    then have "z \<noteq> CHR ''}''" by (auto simp: isspace_def Let_def)
    then show ?thesis using d0 Cons drop_nonempty [of p s z] by simp
  qed
  then show ?thesis using p1 r p3 char_at_drop [OF d3] x by (subst argument_loop.simps) auto
qed

lemma argument_loop_print:
  assumes "list_all spaced_ok xs" and "drop p s = arguments_print xs @ CHR ''}'' # c"
  shows "argument_loop s macro p args w = (args @ arguments_at p xs, p + length (arguments_print xs), w)"
  using assms
proof (induction xs arbitrary: p args rule: arguments_print.induct)
  case (2 x)
  obtain u a v where x: "x = (u, a, v)" by (cases x)
  have d: "drop p s = spaced_print (u, a, v) @ CHR ''}'' # c" using 2(2) x by simp
  have e: "drop (p + length (spaced_print (u, a, v))) s = CHR ''}'' # c" using drop_drop_eq [OF d] .
  show ?case using argument_loop_end [OF e] 2(1) by (simp add: argument_loop_step [OF _ d] x)
next
  case (3 x y xs)
  obtain u a v where x: "x = (u, a, v)" by (cases x)
  have d: "drop p s = spaced_print (u, a, v) @ CHR '','' # (arguments_print (y # xs) @ CHR ''}'' # c)" using 3(3) x by simp
  have e: "drop (p + length (spaced_print (u, a, v)) + 1) s = arguments_print (y # xs) @ CHR ''}'' # c"
    using drop_Suc_eq [OF drop_drop_eq [OF d]] by simp
  show ?case using 3(1) [OF _ e] 3(2) by (simp add: argument_loop_step [OF _ d] x)
qed (simp add: argument_loop_end)

text \<open>C30: Argument lists are read back as they are written. A list of arguments in braces, each a quoted string
  without quotes or a word without commas, closing braces, white space or a leading quote, separated by commas and
  surrounded by any white space, is read as exactly these arguments, each with the place at which it stands in the
  line, leaving the text after the closing brace, and nothing is reported.\<close>

theorem argument_list_roundtrip:
  assumes "list_all spaced_ok xs" and "list_all isspace u"
    and "s = before @ u @ CHR ''{'' # arguments_print xs @ CHR ''}'' # after"
  shows "get_argument_list s macro (length before) err w =
    (arguments_at (length before + length u + 1) xs, length before + length u + length (arguments_print xs) + 2, w)"
proof -
  have d0: "drop (length before) s = u @ (CHR ''{'' # arguments_print xs @ CHR ''}'' # after)" using assms(3) by simp
  have p1: "skip_while isspace s (length before) = length before + length u"
    using assms(2) by (intro skip_while_drop [OF d0]) (auto simp: isspace_def Let_def)
  note d1 = drop_drop_eq [OF d0]
  note d2 = drop_Suc_eq [OF d1]
  have d3: "drop (Suc (length before + length u) + length (arguments_print xs)) s = CHR ''}'' # after"
    using drop_drop_eq [OF d2] .
  show ?thesis
    using p1 drop_nonempty [OF d1] drop_nonempty [OF d3] argument_loop_print [OF assms(1) d2, of macro "[]" w]
    by (simp add: get_argument_list_def Let_def)
qed

theorem argument_list_roundtrip_witness:
  "get_argument_list ''$M {a, bc}[i]'' ''M'' 2 True \<lparr>w_log = [], w_enabled = True, w_user = ()\<rparr>
     = ([(''a'', (4, 5)), (''bc'', (7, 9))], 10, \<lparr>w_log = [], w_enabled = True, w_user = ()\<rparr>)"
  using argument_list_roundtrip [of "[([], Bare ''a'', []), ('' '', Bare ''bc'', [])]" "'' ''" "''$M {a, bc}[i]''" "''$M''"
      "''[i]''" "''M''" True "\<lparr>w_log = [], w_enabled = True, w_user = ()\<rparr>"]
  by (simp add: spaced_ok_def spaced_print_def isspace_def numeral_eq_Suc)

text \<open>White space alone is taken for an argument. Braces around nothing hold no argument, but braces around white
  space hold one empty argument.\<close>

theorem blank_argument_list:
  assumes "list_all isspace u" and "s = before @ CHR ''{'' # u @ CHR ''}'' # after"
  shows "fst (get_argument_list s macro (length before) err w) =
    (if u = [] then [] else [([], (length before + 1 + length u, length before + 1 + length u))])"
proof (cases u)
  case Nil
  then show ?thesis using argument_list_roundtrip [of "[]" "[]" s before after macro err w] assms(2) by simp
next
  case (Cons y ys)
  let ?p = "length before"
  have y: "isspace y" "y \<noteq> CHR ''}''" using assms(1) Cons by (auto simp: isspace_def Let_def)
  have nb: "\<not> isspace (CHR ''}'')" "\<not> isspace (CHR ''{'')" by (simp_all add: isspace_def)
  have d0: "drop ?p s = CHR ''{'' # (u @ CHR ''}'' # after)" using assms(2) by simp
  have d0': "drop ?p s = [] @ (CHR ''{'' # (u @ CHR ''}'' # after))" using d0 by simp
  have p0: "skip_while isspace s ?p = ?p" using skip_while_drop [OF d0', of isspace] nb by simp
  note d1 = drop_Suc_eq [OF d0]
  have p1: "skip_while isspace s (Suc ?p) = Suc ?p + length u" using assms(1) nb by (intro skip_while_drop [OF d1]) simp_all
  have d2: "drop (Suc ?p + length u) s = CHR ''}'' # after" using drop_drop_eq [OF d1] .
  have d2': "drop (Suc ?p + length u) s = [] @ (CHR ''}'' # after)" using d2 by simp
  have e: "skip_while P s (Suc ?p + length u) = Suc ?p + length u" if "\<not> P (CHR ''}'')" for P
    using skip_while_drop [OF d2', of P] that by simp
  have l: "Suc ?p < length s" "s ! Suc ?p = y" using d1 Cons drop_nonempty [of "Suc ?p" s y] by simp_all
  have "read_argument s macro (Suc ?p + length u) w = ([([], (Suc ?p + length u, Suc ?p + length u))], Suc ?p + length u, w)"
    using e char_at_drop [OF d2] by (simp add: read_argument_def slice_def)
  then have "argument_loop s macro (Suc ?p) [] w = ([([], (Suc ?p + length u, Suc ?p + length u))], Suc ?p + length u, w)"
    using l y p1 e nb char_at_drop [OF d2] argument_loop_end [OF d2] by (subst argument_loop.simps) simp
  then show ?thesis using Cons p0 drop_nonempty [OF d0] drop_nonempty [OF d2] by (simp add: get_argument_list_def Let_def)
qed

theorem blank_argument_list_witness:
  "fst (get_argument_list ''$M{ }'' ''M'' 2 True \<lparr>w_log = [], w_enabled = True, w_user = ()\<rparr>) = [([], (4, 4))]"
  using blank_argument_list [of "'' ''" "''$M{ }''" "''$M''" "[]" "''M''" True
      "\<lparr>w_log = [], w_enabled = True, w_user = ()\<rparr>"]
  by (simp add: isspace_def numeral_eq_Suc)

end
