(* ===== verification/Token_List.thy ===== *)
theory Token_List
  imports Token_Scanners
begin

text \<open>
  Token lists, \<open>macro_substitution/token_list.{h,cpp}\<close>: a line is cut into text, index literals, macros and
  directives, collecting the indices it uses and the rules that force or prevent unrolling; the list is then
  evaluated and converted back to text. The auxiliary lists of references to the tokens of one kind are the tokens
  of that kind, in order, so they are not kept apart.
\<close>

section \<open>State\<close>

datatype model_type = canonical_model | nontrivial_metric

text \<open>What the constructor is given: prefix, model, rule sets, validation database and settings.\<close>

record 'u tokenizer =
  tz_prefix :: string
  tz_fields :: u32
  tz_params :: u32
  tz_pre :: "'u simple_rule list"
  tz_post :: "'u simple_rule list"
  tz_index :: "'u index_rule list"
  tz_local :: "'u index_rule list"
  tz_simp_dir :: "'u simple_directive list"
  tz_ind_dir :: "'u index_directive list"
  tz_validation :: "index_literal_database option"
  tz_strict :: bool
  tz_model :: model_type
  tz_dev_warnings :: bool

type_synonym contexted_name = "string \<times> (nat \<times> nat)"

record 'u token_list =
  tl_tokens :: "'u token list"
  tl_prevent :: "contexted_name list"
  tl_force :: "contexted_name list"
  tl_explicit_prevent :: "contexted_name option"
  tl_explicit_force :: "contexted_name option"
  tl_db :: abstract_index_database
  tl_decls :: index_literal_list

definition token_list_empty :: "'u token_list" where
  "token_list_empty = \<lparr>tl_tokens = [], tl_prevent = [], tl_force = [], tl_explicit_prevent = None,
     tl_explicit_force = None, tl_db = idb_empty, tl_decls = []\<rparr>"

text \<open>Actions of a token list run in its state and the world.\<close>

type_synonym ('u, 'a) tl_act = "('u token_list \<times> 'u world, 'a) act"

definition in_world :: "('u world, 'a) act \<Rightarrow> ('u, 'a) tl_act" where
  "in_world f s = (case f (snd s) of (x, w) \<Rightarrow> (x, (fst s, w)))"

definition updW :: "('u world \<Rightarrow> 'u world) \<Rightarrow> ('u, unit) tl_act" where
  "updW f s = (Inr (), (fst s, f (snd s)))"

definition updT :: "('u token_list \<Rightarrow> 'u token_list) \<Rightarrow> ('u, unit) tl_act" where
  "updT f s = (Inr (), (f (fst s), snd s))"

definition logT :: "severity \<Rightarrow> msg_id \<Rightarrow> string \<Rightarrow> nat \<times> nat \<Rightarrow> ('u, unit) tl_act" where
  "logT sev m txt ctx = updW (logA sev m txt ctx)"

text \<open>The exceptions that a handler of \<open>std::runtime_error\<close> catches: \<open>std::out_of_range\<close> and
  \<open>duplicate_index\<close> are logic errors, and \<open>tensor_exception\<close> derives from it privately.\<close>

definition is_runtime_error :: "exn \<Rightarrow> bool" where
  "is_runtime_error e = (case e of
     Runtime_error m \<Rightarrow> True | Index_exception c \<Rightarrow> True | Argument_mismatch m \<Rightarrow> True
   | Index_mismatch m l s f \<Rightarrow> True | Rule_apply_fail m txt \<Rightarrow> True | Resource_failure m \<Rightarrow> True
   | Filesystem_error m \<Rightarrow> True
   | Out_of_range m \<Rightarrow> False | Duplicate_index l s f \<Rightarrow> False | Tensor_exception m \<Rightarrow> False
   | Terminate \<Rightarrow> False | Undefined \<Rightarrow> False | Out_of_fuel \<Rightarrow> False)"

section \<open>Indices\<close>

definition add_index :: "'u tokenizer \<Rightarrow> char \<Rightarrow> ('u, abstract_index) tl_act" where
  "add_index tz c s =
     (case idb_emplace_back ai_label c (abstract_index_new c (tz_fields tz) (tz_params tz)) (tl_db (fst s)) of
        Inl e \<Rightarrow> (Inl e, s)
      | Inr ((it, _), d) \<Rightarrow> (idb_deref d (Some it), ((fst s)\<lparr>tl_db := d\<rparr>, snd s)))"

definition validate_index_literal :: "'u tokenizer \<Rightarrow> index_literal \<Rightarrow> 'u world \<Rightarrow> 'u world" where
  "validate_index_literal tz l w =
     (case tz_validation tz of
        None \<Rightarrow> w
      | Some db \<Rightarrow>
          (case map_of db (literal_label l) of
             None \<Rightarrow>
               if tz_strict tz then logA Sev_error ''ERROR_INDEX_NOT_VALID'' (index_literal_string l) (il_ctx l) w else w
           | Some v \<Rightarrow>
               if \<not> index_literal_equal v l
               then logA Sev_warn ''NOTIFY_INDEX_DECLARATION_WAS'' [] (il_ctx v)
                      (logA Sev_error ''ERROR_INDEX_VALIDATION_FAIL'' (index_literal_string v) (il_ctx l) w)
               else w))"

definition validate_index_properties :: "'u tokenizer \<Rightarrow> index_literal \<Rightarrow> 'u world \<Rightarrow> index_literal \<times> 'u world" where
  "validate_index_properties tz l w =
     (if literal_class l = parameter then
        (if il_var l \<noteq> no_variance
         then (l\<lparr>il_var := no_variance\<rparr>, logA Sev_warn ''NOTIFY_PARAMETER_VARIANCE_IGNORED'' [] (il_ctx l) w)
         else (l, w))
      else if tz_model tz = canonical_model then
        (if il_var l \<noteq> no_variance
         then (l\<lparr>il_var := no_variance\<rparr>, logA Sev_warn ''NOTIFY_CANONICAL_IGNORES_VARIANCE'' [] (il_ctx l) w)
         else (l, w))
      else if il_var l = no_variance
        then (l\<lparr>il_var := contravariant\<rparr>, logA Sev_error ''ERROR_NONTRIVIAL_REQUIRES_VARIANCE'' [] (il_ctx l) w)
      else (l, w))"

text \<open>What both \<open>make_index_literal\<close> and the handlers passed to \<open>get_index_list\<close> do with an index label.\<close>

definition declare_index :: "'u tokenizer \<Rightarrow> char \<Rightarrow> variance \<Rightarrow> nat \<times> nat \<Rightarrow> ('u, index_literal) tl_act" where
  "declare_index tz c v ctx =
     bindA (add_index tz c) (\<lambda>i s.
       (case validate_index_properties tz \<lparr>il_idx = i, il_ctx = ctx, il_var = v\<rparr> (snd s) of
          (l, w) \<Rightarrow> (Inr l, ((fst s)\<lparr>tl_decls := tl_decls (fst s) @ [l]\<rparr>, validate_index_literal tz l w))))"

text \<open>The loop of \<open>get_index_list\<close> over the rest of the line; the variance stays in force until it is
  changed.\<close>

fun index_loop ::
  "'u tokenizer \<Rightarrow> string \<Rightarrow> nat \<Rightarrow> variance \<Rightarrow> string \<Rightarrow> index_literal_list \<Rightarrow> ('u, index_literal_list \<times> nat) tl_act" where
  "index_loop tz cand p v [] ls = returnA (ls, p)"
| "index_loop tz cand p v (c # cs) ls =
     (if c = CHR '']'' then returnA (ls, p)
      else if c = CHR ''^'' then index_loop tz cand (Suc p) contravariant cs ls
      else if c = CHR ''_'' then index_loop tz cand (Suc p) covariant cs ls
      else if isalnum c then
        bindA (declare_index tz c v (p, p + 1)) (\<lambda>l. index_loop tz cand (Suc p) v cs (ls @ [l]))
      else
        bindA (logT Sev_error ''ERROR_EXPECTED_INDEX_LABEL'' (cand @ '' '' @ [c]) (p, p + 1)) (\<lambda>_.
          index_loop tz cand (Suc p) v cs ls))"

definition get_index_list ::
  "'u tokenizer \<Rightarrow> string \<Rightarrow> string \<Rightarrow> nat \<Rightarrow> bool \<Rightarrow> ('u, index_literal_list \<times> nat) tl_act" where
  "get_index_list tz inp cand p error_if_absent =
     (let p1 = skip_while isspace inp p in
      if length inp \<le> p1 \<or> inp ! p1 \<noteq> CHR ''['' then
        bindA (if error_if_absent then logT Sev_error ''ERROR_EXPECTED_OPEN_INDEX_LIST'' cand (p1, p1 + 1) else returnA ())
          (\<lambda>_. returnA ([], p1))
      else
        bindA (index_loop tz cand (Suc p1) no_variance (drop (Suc p1) inp) []) (\<lambda>(ls, q).
          if length inp \<le> q \<or> inp ! q \<noteq> CHR '']'' then
            bindA (logT Sev_error ''ERROR_EXPECTED_CLOSE_INDEX_LIST'' cand (q, q + 1)) (\<lambda>_. returnA (ls, q))
          else returnA (ls, Suc q)))"

text \<open>The qualifiers before a label: the last one counts.\<close>

definition qualifier_variance :: "string \<Rightarrow> variance" where
  "qualifier_variance q = foldl (\<lambda>v c. if c = CHR ''^'' then contravariant else if c = CHR ''_'' then covariant else v)
     no_variance q"

definition make_index_literal :: "'u tokenizer \<Rightarrow> string \<Rightarrow> nat \<Rightarrow> ('u, 'u token option \<times> nat) tl_act" where
  "make_index_literal tz inp p =
     (let q = skip_while (\<lambda>c. c = CHR ''^'' \<or> c = CHR ''_'') inp p;
          v = qualifier_variance (slice inp p q)
      in if length inp \<le> q then
           bindA (logT Sev_error ''ERROR_INDEX_LITERAL_NO_KERNEL'' [] (q - 1, q)) (\<lambda>_. returnA (None, q))
         else
           bindA (declare_index tz (inp ! q) v (p, Suc q)) (\<lambda>l.
             returnA (Some (Index_token (index_literal_token_new l (p, Suc q))), Suc q)))"

section \<open>Macros and directives\<close>

text \<open>Directives and replacement rules are not mixed on a line.\<close>

definition is_directive_token :: "'u token \<Rightarrow> bool" where
  "is_directive_token t = (case t of Simple_directive_token d \<Rightarrow> True | Index_directive_token d \<Rightarrow> True | _ \<Rightarrow> False)"

definition is_rule_token :: "'u token \<Rightarrow> bool" where
  "is_rule_token t = (case t of Simple_token d \<Rightarrow> True | Macro_token d \<Rightarrow> True | Index_token d \<Rightarrow> True | _ \<Rightarrow> False)"

definition is_directive :: "'u token_list \<Rightarrow> bool" where
  "is_directive T = list_ex is_directive_token (tl_tokens T)"

definition validate_replacement_rule :: "string \<Rightarrow> nat \<Rightarrow> ('u, bool) tl_act" where
  "validate_replacement_rule macro p s =
     (if \<not> is_directive (fst s) then (Inr True, s)
      else (Inr False, (fst s, logA Sev_error ''ERROR_RULE_AFTER_DIRECTIVE'' [] (p, p + length macro) (snd s))))"

definition validate_directive :: "string \<Rightarrow> nat \<Rightarrow> ('u, bool) tl_act" where
  "validate_directive macro p s =
     (if \<not> list_ex is_rule_token (tl_tokens (fst s)) then (Inr True, s)
      else (Inr False, (fst s, logA Sev_error ''ERROR_DIRECTIVE_AFTER_RULE'' [] (p, p + length macro) (snd s))))"

definition liftE :: "exn + 'a \<Rightarrow> ('s, 'a) act" where
  "liftE x s = (x, s)"

definition unexpected_list :: "string \<Rightarrow> nat \<Rightarrow> 'u world \<Rightarrow> 'u world" where
  "unexpected_list macro p w = scan_error ''ERROR_TOKENIZE_UNEXPECTED_LIST'' macro p w"

definition skip_index_list :: "string \<Rightarrow> string \<Rightarrow> nat \<Rightarrow> ('u, nat) tl_act" where
  "skip_index_list inp macro p s =
     (case check_no_index_list inp p (unexpected_list macro) (snd s) of (q, w) \<Rightarrow> (Inr q, (fst s, w)))"

text \<open>The argument list, read only when the rule has arguments.\<close>

definition read_arguments :: "string \<Rightarrow> string \<Rightarrow> nat \<Rightarrow> nat \<Rightarrow> ('u, macro_argument_list \<times> nat) tl_act" where
  "read_arguments inp macro n p s =
     (if 0 < n then
        (case get_argument_list inp macro p True (snd s) of (args, q, w) \<Rightarrow> (Inr (args, q), (fst s, w)))
      else (Inr ([], p), s))"

definition make_simple_macro ::
  "string \<Rightarrow> string \<Rightarrow> nat \<Rightarrow> 'u simple_rule list \<Rightarrow> simple_macro_type \<Rightarrow> ('u, 'u token option \<times> nat) tl_act" where
  "make_simple_macro inp macro p rules ty =
     bindA (validate_replacement_rule macro p) (\<lambda>ok.
       if \<not> ok then returnA (None, p + length macro)
       else bindA (liftE (find_match sr_name macro rules)) (\<lambda>rule.
         bindA (skip_index_list inp macro (p + length macro)) (\<lambda>q.
           bindA (read_arguments inp macro (sr_args rule) q) (\<lambda>(args, e).
             returnA (Some (Simple_token (simple_macro_token_new macro args rule ty (p, e))), e)))))"

text \<open>The unroll policy of an index macro: what its rule asks for and the modifier that may follow it, a bar to
  force unrolling and an at sign to prevent it.\<close>

definition original_was :: "contexted_name \<Rightarrow> 'u world \<Rightarrow> 'u world" where
  "original_was n w = logA Sev_warn ''NOTIFY_ORIGINAL_EXPLICIT_WAS'' [] (snd n) w"

definition explicit_force_policy ::
  "'u tokenizer \<Rightarrow> string \<Rightarrow> nat \<times> nat \<Rightarrow> bool \<times> bool \<Rightarrow> 'u token_list \<Rightarrow> 'u world
   \<Rightarrow> (bool \<times> bool) \<times> 'u token_list \<times> 'u world" where
  "explicit_force_policy tz macro ctx pf T w =
     (case pf of (push_force, push_prevent) \<Rightarrow>
        if push_prevent then (pf, T, logA Sev_warn ''WARN_EXPLICIT_FORCE_IGNORED'' [] ctx w)
        else (case tl_explicit_prevent T of
            Some n \<Rightarrow> (pf, T, original_was n (logA Sev_warn ''WARN_EXPLICIT_FORCE_FOLLOWS_PREVENT'' [] ctx w))
          | None \<Rightarrow> (case tl_explicit_force T of
                Some n \<Rightarrow>
                  ((True, push_prevent), T,
                   if tz_dev_warnings tz
                   then original_was n (logA Sev_warn ''WARN_EXPLICIT_FORCE_FOLLOWS_FORCE'' [] ctx w) else w)
              | None \<Rightarrow> ((True, push_prevent), T\<lparr>tl_explicit_force := Some (macro, ctx)\<rparr>, w))))"

definition explicit_prevent_policy ::
  "'u tokenizer \<Rightarrow> string \<Rightarrow> nat \<times> nat \<Rightarrow> bool \<times> bool \<Rightarrow> 'u token_list \<Rightarrow> 'u world
   \<Rightarrow> (bool \<times> bool) \<times> 'u token_list \<times> 'u world" where
  "explicit_prevent_policy tz macro ctx pf T w =
     (case pf of (push_force, push_prevent) \<Rightarrow>
        if push_force then (pf, T, logA Sev_warn ''WARN_EXPLICIT_PREVENT_IGNORED'' [] ctx w)
        else (case tl_explicit_prevent T of
            Some n \<Rightarrow> (pf, T, original_was n (logA Sev_warn ''WARN_EXPLICIT_PREVENT_FOLLOWS_PREVENT'' [] ctx w))
          | None \<Rightarrow> (case tl_explicit_force T of
                Some n \<Rightarrow>
                  ((push_force, True), T,
                   if tz_dev_warnings tz
                   then original_was n (logA Sev_warn ''WARN_EXPLICIT_PREVENT_FOLLOWS_FORCE'' [] ctx w) else w)
              | None \<Rightarrow> ((push_force, True), T\<lparr>tl_explicit_prevent := Some (macro, ctx)\<rparr>, w))))"

definition find_unroll_policy :: "'u tokenizer \<Rightarrow> string \<Rightarrow> string \<Rightarrow> unroll_state \<Rightarrow> nat \<Rightarrow> nat \<Rightarrow> ('u, nat) tl_act" where
  "find_unroll_policy tz inp macro status p cur s =
     (let pf = (status = force_unroll, status = prevent_unroll);
          explicit_force = (cur < length inp \<and> inp ! cur = CHR ''|'');
          explicit_prevent = (cur < length inp \<and> inp ! cur = CHR ''@'');
          cur1 = (if explicit_force \<or> explicit_prevent then Suc cur else cur);
          ctx = (p, cur1);
          (pf1, tl1, w1) = (if explicit_force then explicit_force_policy tz macro ctx pf (fst s) (snd s)
                            else (pf, fst s, snd s));
          (pf2, tl2, w2) = (if explicit_prevent then explicit_prevent_policy tz macro ctx pf1 tl1 w1
                            else (pf1, tl1, w1));
          tl3 = (if fst pf2 then tl2\<lparr>tl_force := tl_force tl2 @ [(macro, ctx)]\<rparr> else tl2);
          tl4 = (if snd pf2 then tl3\<lparr>tl_prevent := tl_prevent tl3 @ [(macro, ctx)]\<rparr> else tl3)
      in (Inr cur1, (tl4, w2)))"

definition make_index_macro ::
  "'u tokenizer \<Rightarrow> string \<Rightarrow> string \<Rightarrow> nat \<Rightarrow> 'u index_rule list \<Rightarrow> ('u, 'u token option \<times> nat) tl_act" where
  "make_index_macro tz inp macro p rules =
     bindA (validate_replacement_rule macro p) (\<lambda>ok.
       if \<not> ok then returnA (None, p + length macro)
       else bindA (liftE (find_match ir_name macro rules)) (\<lambda>rule.
         bindA (get_index_list tz inp macro (p + length macro) True) (\<lambda>(ls, q).
           bindA (read_arguments inp macro (ir_args rule) q) (\<lambda>(args, e) s.
             bindA (find_unroll_policy tz inp macro (ir_get_unroll rule ls (snd s)) p e) (\<lambda>f.
               returnA (Some (Macro_token (index_macro_token_new macro ls args rule (p, f))), f)) s))))"

definition make_simple_directive ::
  "string \<Rightarrow> string \<Rightarrow> nat \<Rightarrow> 'u simple_directive list \<Rightarrow> ('u, 'u token option \<times> nat) tl_act" where
  "make_simple_directive inp macro p rules =
     bindA (validate_directive macro p) (\<lambda>ok.
       if \<not> ok then returnA (None, p + length macro)
       else bindA (liftE (find_match sd_name macro rules)) (\<lambda>rule.
         bindA (skip_index_list inp macro (p + length macro)) (\<lambda>q.
           bindA (read_arguments inp macro (sd_args rule) q) (\<lambda>(args, e).
             bindA (in_world (simple_directive_token_new macro args rule (p, e))) (\<lambda>t.
               returnA (Some (Simple_directive_token t), e))))))"

definition make_index_directive ::
  "'u tokenizer \<Rightarrow> string \<Rightarrow> string \<Rightarrow> nat \<Rightarrow> 'u index_directive list \<Rightarrow> ('u, 'u token option \<times> nat) tl_act" where
  "make_index_directive tz inp macro p rules =
     bindA (validate_directive macro p) (\<lambda>ok.
       if \<not> ok then returnA (None, p + length macro)
       else bindA (liftE (find_match id_name macro rules)) (\<lambda>rule.
         bindA (if id_indices rule = Some 0
                then bindA (skip_index_list inp macro (p + length macro)) (\<lambda>q. returnA ([], q))
                else get_index_list tz inp macro (p + length macro) (id_indices rule \<noteq> None)) (\<lambda>(ls, q).
           bindA (read_arguments inp macro (id_args rule) q) (\<lambda>(args, e).
             bindA (in_world (index_directive_token_new macro ls args rule (p, e))) (\<lambda>t.
               returnA (Some (Index_directive_token t), e))))))"

section \<open>Tokenization\<close>

definition any_match :: "'u tokenizer \<Rightarrow> string \<Rightarrow> bool" where
  "any_match tz cand =
     (check_for_match sr_name cand (tz_pre tz) True \<or> check_for_match sr_name cand (tz_post tz) True
      \<or> check_for_match ir_name cand (tz_index tz) True \<or> check_for_match ir_name cand (tz_local tz) True
      \<or> check_for_match sd_name cand (tz_simp_dir tz) True \<or> check_for_match id_name cand (tz_ind_dir tz) True)"

text \<open>The greedy loop: the candidate grows while it is the start of a name.\<close>

fun extend_candidate :: "(string \<Rightarrow> bool) \<Rightarrow> string \<Rightarrow> string \<Rightarrow> string" where
  "extend_candidate m [] cand = cand"
| "extend_candidate m (c # cs) cand =
     (if c \<noteq> CHR ''['' \<and> c \<noteq> CHR ''{'' \<and> (isalnum c \<or> c = CHR ''_'') \<and> m (cand @ [c])
      then extend_candidate m cs (cand @ [c]) else cand)"

definition make_candidate :: "'u tokenizer \<Rightarrow> string \<Rightarrow> string \<Rightarrow> nat \<Rightarrow> ('u, 'u token option \<times> nat) tl_act" where
  "make_candidate tz inp cand p =
     (if check_for_match sr_name cand (tz_pre tz) False then make_simple_macro inp cand p (tz_pre tz) pre_macro
      else if check_for_match sr_name cand (tz_post tz) False then make_simple_macro inp cand p (tz_post tz) post_macro
      else if check_for_match ir_name cand (tz_index tz) False then make_index_macro tz inp cand p (tz_index tz)
      else if check_for_match ir_name cand (tz_local tz) False then make_index_macro tz inp cand p (tz_local tz)
      else if check_for_match sd_name cand (tz_simp_dir tz) False then make_simple_directive inp cand p (tz_simp_dir tz)
      else if check_for_match id_name cand (tz_ind_dir tz) False then make_index_directive tz inp cand p (tz_ind_dir tz)
      else make_index_literal tz inp p)"

definition match_macro_or_index :: "'u tokenizer \<Rightarrow> string \<Rightarrow> nat \<Rightarrow> ('u, 'u token option \<times> nat) tl_act" where
  "match_macro_or_index tz inp p =
     (if \<not> (p + 1 < length inp \<and> any_match tz [inp ! p, inp ! (p + 1)]) then make_index_literal tz inp p
      else
        (let cand = extend_candidate (any_match tz) (drop (p + 2) inp) [inp ! p, inp ! (p + 1)]
         in catchA (make_candidate tz inp cand p)
              (\<lambda>e. if is_runtime_error e then make_index_literal tz inp p else throwA e)))"

subsection \<open>Progress\<close>

lemma argument_loop_ge: "argument_loop s macro p args w = (a, q, w') \<Longrightarrow> p \<le> q"
proof (induction s macro p args w arbitrary: a q w' rule: argument_loop.induct)
  case (1 s macro p args w)
  show ?case
  proof (cases "p < length s \<and> s ! p \<noteq> CHR ''}''")
    case True
    obtain b p2 w1 where r: "read_argument s macro (skip_while isspace s p) w = (b, p2, w1)"
      by (metis prod_cases3)
    let ?p3 = "skip_while isspace s p2"
    have le: "p \<le> ?p3"
      using skip_while_ge [of p isspace s] read_argument_progress(1) [OF r] skip_while_ge [of p2 isspace s] by linarith
    show ?thesis
    proof (cases "char_at s ?p3 = CHR '',''")
      case comma: True
      have "argument_loop s macro (Suc ?p3) (args @ b) w1 = (a, q, w')"
        using 1(4) True r comma by (subst (asm) argument_loop.simps) simp
      from 1(1) [OF True r [symmetric] refl refl comma this] show ?thesis using le by simp
    next
      case no_comma: False
      show ?thesis
      proof (cases "char_at s ?p3 = CHR ''}''")
        case brace: True
        have "argument_loop s macro ?p3 (args @ b) w1 = (a, q, w')"
          using 1(4) True r brace by (subst (asm) argument_loop.simps) simp
        from 1(2) [OF True r [symmetric] refl refl no_comma brace this] show ?thesis using le by simp
      next
        case False
        have "argument_loop s macro ?p3 (args @ b) (scan_error ''ERROR_EXPECTED_COMMA'' macro ?p3 w1) = (a, q, w')"
          using 1(4) True r no_comma False by (subst (asm) argument_loop.simps) (simp add: Let_def)
        from 1(3) [OF True r [symmetric] refl refl no_comma False this] show ?thesis using le by simp
      qed
    qed
  next
    case False
    then show ?thesis using 1(4) by (subst (asm) argument_loop.simps) (auto simp del: not_less)
  qed
qed

lemma get_argument_list_ge: "get_argument_list s macro p e w = (a, q, w') \<Longrightarrow> p \<le> q"
  using skip_while_ge [of p isspace s]
  by (auto simp: get_argument_list_def Let_def split: if_splits prod.splits dest!: argument_loop_ge)

lemma check_no_index_list_ge: "check_no_index_list s p err w = (q, w') \<Longrightarrow> p \<le> q"
  using skip_while_ge [of "Suc p" "\<lambda>c. c \<noteq> CHR '']''" s]
  by (auto simp: check_no_index_list_def Let_def split: if_splits)

lemma match_string_literal_ge: "match_string_literal s p t = (tok, q) \<Longrightarrow> p < q"
  using skip_while_ge [of "Suc p" "\<lambda>c. c \<noteq> t" s] by (auto simp: match_string_literal_def Let_def)

text \<open>An action that, when it returns, has not moved back behind a position.\<close>

definition moves_to :: "nat \<Rightarrow> ('s, 'a \<times> nat) act \<Rightarrow> bool" where
  "moves_to p f \<longleftrightarrow> (\<forall>s x q s'. f s = (Inr (x, q), s') \<longrightarrow> p \<le> q)"

lemma moves_to_returnA: "p \<le> q \<Longrightarrow> moves_to p (returnA (x, q))"
  by (simp add: moves_to_def returnA_def)

lemma moves_to_throwA: "moves_to p (throwA e)"
  by (simp add: moves_to_def throwA_def)

lemma moves_to_bind: "(\<And>x. moves_to p (g x)) \<Longrightarrow> moves_to p (bindA f g)"
  unfolding moves_to_def bindA_def by (auto split: prod.splits sum.splits)

lemma moves_to_bind_pos:
  assumes "moves_to p f" and "\<And>x q. p \<le> q \<Longrightarrow> moves_to p (h x q)"
  shows "moves_to p (bindA f (\<lambda>(x, q). h x q))"
  using assms unfolding moves_to_def bindA_def by (auto split: prod.splits sum.splits) blast

lemma moves_to_mono: "moves_to p f \<Longrightarrow> p' \<le> p \<Longrightarrow> moves_to p' f"
  unfolding moves_to_def by (meson order_trans)

lemma moves_to_catch: "moves_to p f \<Longrightarrow> (\<And>e. moves_to p (h e)) \<Longrightarrow> moves_to p (catchA f h)"
  unfolding moves_to_def catchA_def by (auto split: prod.splits sum.splits)

lemma moves_to_if: "(b \<Longrightarrow> moves_to p f) \<Longrightarrow> (\<not> b \<Longrightarrow> moves_to p g) \<Longrightarrow> moves_to p (if b then f else g)"
  by simp

lemma moves_to_index_loop: "moves_to p (index_loop tz cand p v cs ls)"
proof (induction cs arbitrary: p v ls)
  case (Cons c cs)
  have "moves_to p (index_loop tz cand (Suc p) v' cs ls')" for v' ls'
    using moves_to_mono [OF Cons, of p "Suc p"] by simp
  then show ?case by (auto intro!: moves_to_returnA moves_to_bind)
qed (simp add: moves_to_returnA)

lemma moves_to_index_list: "moves_to p (get_index_list tz inp cand p err)"
proof -
  have "p \<le> skip_while isspace inp p" by (rule skip_while_ge)
  then show ?thesis unfolding get_index_list_def Let_def
    by (intro moves_to_if moves_to_bind moves_to_returnA moves_to_bind_pos [OF moves_to_mono [OF moves_to_index_loop]])
      (auto intro!: moves_to_bind moves_to_returnA)
qed

lemma moves_to_arguments: "moves_to p (read_arguments inp macro n p)"
  by (auto simp: moves_to_def read_arguments_def split: if_splits prod.splits dest: get_argument_list_ge)

lemma moves_to_skip:
  assumes "\<And>q. p \<le> q \<Longrightarrow> moves_to p (g q)"
  shows "moves_to p (bindA (skip_index_list inp macro p) g)"
  using assms unfolding moves_to_def bindA_def skip_index_list_def
  by (auto split: prod.splits dest!: check_no_index_list_ge) blast

lemma moves_to_policy:
  assumes "p \<le> e"
  shows "moves_to p (\<lambda>s. bindA (find_unroll_policy tz inp macro (st s) b e) (\<lambda>f. returnA (k f, f)) s)"
  using assms
  by (auto simp: moves_to_def bindA_def returnA_def find_unroll_policy_def Let_def case_prod_unfold split: if_splits)

lemma moves_to_after_arguments:
  assumes "p \<le> q" and "\<And>args e. p \<le> e \<Longrightarrow> moves_to p (h args e)"
  shows "moves_to p (bindA (read_arguments inp macro n q) (\<lambda>(args, e). h args e))"
  using moves_to_mono [OF moves_to_arguments assms(1)] assms(2) by (rule moves_to_bind_pos)

lemma moves_to_simple_macro: "moves_to (p + length macro) (make_simple_macro inp macro p rules ty)"
  unfolding make_simple_macro_def
  by (rule moves_to_bind, rule moves_to_if, rule moves_to_returnA, simp, rule moves_to_bind, rule moves_to_skip,
      rule moves_to_after_arguments, assumption, rule moves_to_returnA)

lemma moves_to_simple_directive: "moves_to (p + length macro) (make_simple_directive inp macro p rules)"
  unfolding make_simple_directive_def
  by (rule moves_to_bind, rule moves_to_if, rule moves_to_returnA, simp, rule moves_to_bind, rule moves_to_skip,
      rule moves_to_after_arguments, assumption, rule moves_to_bind, rule moves_to_returnA)

lemma moves_to_index_macro: "moves_to (p + length macro) (make_index_macro tz inp macro p rules)"
  unfolding make_index_macro_def
  by (rule moves_to_bind, rule moves_to_if, rule moves_to_returnA, simp, rule moves_to_bind,
      rule moves_to_bind_pos [OF moves_to_index_list], rule moves_to_after_arguments, assumption, rule moves_to_policy)

lemma moves_to_index_directive: "moves_to (p + length macro) (make_index_directive tz inp macro p rules)"
  unfolding make_index_directive_def
  by (rule moves_to_bind, rule moves_to_if, rule moves_to_returnA, simp, rule moves_to_bind, rule moves_to_bind_pos,
      rule moves_to_if, rule moves_to_skip, rule moves_to_returnA, assumption, rule moves_to_index_list,
      rule moves_to_after_arguments, assumption, rule moves_to_bind, rule moves_to_returnA)

lemma moves_to_index_literal: "moves_to p (make_index_literal tz inp p)"
  using skip_while_ge [of p "\<lambda>c. c = CHR ''^'' \<or> c = CHR ''_''" inp]
  unfolding make_index_literal_def Let_def
  by (intro moves_to_if moves_to_bind moves_to_returnA) simp_all

lemma moves_to_index_literal_Suc: "p < length inp \<Longrightarrow> moves_to (Suc p) (make_index_literal tz inp p)"
  using skip_while_ge [of p "\<lambda>c. c = CHR ''^'' \<or> c = CHR ''_''" inp]
  unfolding make_index_literal_def Let_def
  by (intro moves_to_if moves_to_bind moves_to_returnA) simp_all

definition name_char :: "char \<Rightarrow> bool" where
  "name_char c \<longleftrightarrow> isalnum c \<or> c = CHR ''_''"

text \<open>The candidate grows as far as it can.\<close>

lemma extend_candidate_spec:
  "\<exists>ext rest. cs = ext @ rest \<and> extend_candidate m cs cand = cand @ ext \<and> list_all name_char ext
     \<and> (ext \<noteq> [] \<longrightarrow> m (cand @ ext)) \<and> (rest = [] \<or> \<not> name_char (hd rest) \<or> \<not> m (cand @ ext @ [hd rest]))"
proof (induction cs arbitrary: cand)
  case (Cons c cs)
  show ?case
  proof (cases "name_char c \<and> m (cand @ [c])")
    case True
    obtain ext rest where "cs = ext @ rest" "extend_candidate m cs (cand @ [c]) = cand @ c # ext" "list_all name_char ext"
      "ext \<noteq> [] \<longrightarrow> m (cand @ c # ext)" "rest = [] \<or> \<not> name_char (hd rest) \<or> \<not> m (cand @ c # ext @ [hd rest])"
      using Cons [of "cand @ [c]"] by auto
    moreover have "c \<noteq> CHR ''[''" "c \<noteq> CHR ''{''" using True by (auto simp: name_char_def cchar_defs Let_def)
    ultimately show ?thesis using True
      by - (rule exI [of _ "c # ext"], rule exI [of _ rest], cases "ext = []"; simp add: name_char_def [abs_def])
  next
    case False
    then show ?thesis by - (rule exI [of _ "[]"], rule exI [of _ "c # cs"], auto simp: name_char_def)
  qed
qed simp

lemma extend_candidate_length: "length cand \<le> length (extend_candidate m cs cand)"
  using extend_candidate_spec [of cs m cand] by auto

lemma moves_to_candidate:
  assumes "p < length inp" and "cand \<noteq> []"
  shows "moves_to (Suc p) (make_candidate tz inp cand p)"
proof -
  have "Suc p \<le> p + length cand" using assms(2) by (cases cand) auto
  then show ?thesis unfolding make_candidate_def
    by (intro moves_to_if moves_to_index_literal_Suc [OF assms(1)] moves_to_mono [OF moves_to_simple_macro]
        moves_to_mono [OF moves_to_index_macro] moves_to_mono [OF moves_to_simple_directive]
        moves_to_mono [OF moves_to_index_directive])
qed

lemma moves_to_match_Suc: "p < length inp \<Longrightarrow> moves_to (Suc p) (match_macro_or_index tz inp p)"
  unfolding match_macro_or_index_def Let_def
  using extend_candidate_length [of "[inp ! p, inp ! (p + 1)]" "any_match tz" "drop (p + 2) inp"]
  by (intro moves_to_if moves_to_index_literal_Suc moves_to_catch moves_to_candidate moves_to_throwA) auto

lemma moves_to_match: "moves_to p (match_macro_or_index tz inp p)"
proof (cases "p < length inp")
  case True
  show ?thesis by (rule moves_to_mono [OF moves_to_match_Suc [OF True]]) simp
next
  case False
  then show ?thesis by (simp add: match_macro_or_index_def moves_to_index_literal)
qed

subsection \<open>The constructor\<close>

definition next_token :: "'u tokenizer \<Rightarrow> string \<Rightarrow> nat \<Rightarrow> ('u, 'u token option \<times> nat) tl_act" where
  "next_token tz inp p =
     (let pfx0 = char_at (tz_prefix tz) 0;
          literal = (case match_string_literal inp p pfx0 of (t, q) \<Rightarrow> returnA (Some t, q))
      in if inp ! p \<noteq> pfx0 then literal
         else if check_match_prefix inp p (tz_prefix tz) then match_macro_or_index tz inp (p + length (tz_prefix tz))
         else literal)"

definition push_token :: "'u token option \<Rightarrow> ('u, unit) tl_act" where
  "push_token t = updT (\<lambda>T. case t of None \<Rightarrow> T | Some x \<Rightarrow> T\<lparr>tl_tokens := tl_tokens T @ [x]\<rparr>)"

lemma moves_to_next_token:
  assumes "p < length inp"
  shows "moves_to (Suc p) (next_token tz inp p)"
proof -
  have lit: "moves_to (Suc p) (case match_string_literal inp p c of (t, q) \<Rightarrow> returnA (Some t, q))" for c
    using match_string_literal_ge [of inp p c] by (auto intro!: moves_to_returnA simp: Suc_le_eq split: prod.split)
  have m: "moves_to (Suc p) (match_macro_or_index tz inp (p + length (tz_prefix tz)))"
  proof (cases "tz_prefix tz")
    case Nil
    then show ?thesis using moves_to_match_Suc [OF assms] by simp
  next
    case (Cons c cs)
    then show ?thesis by (intro moves_to_mono [OF moves_to_match]) simp
  qed
  show ?thesis unfolding next_token_def Let_def by (intro moves_to_if lit m)
qed

function tokenize_loop :: "'u tokenizer \<Rightarrow> string \<Rightarrow> nat \<Rightarrow> ('u, unit) tl_act" where
  "tokenize_loop tz inp p s =
     (if p < length inp then
        bindA (next_token tz inp p) (\<lambda>(t, q). bindA (push_token t) (\<lambda>_. tokenize_loop tz inp q)) s
      else (Inr (), s))"
  by pat_completeness auto
termination
  by (relation "measure (\<lambda>(tz, inp, p, s). length inp - p)") (auto dest: moves_to_next_token [unfolded moves_to_def, rule_format, rotated])

declare tokenize_loop.simps [simp del]

definition warn_rules :: "msg_id \<Rightarrow> contexted_name list \<Rightarrow> ('u, unit) tl_act" where
  "warn_rules m ns = updW (\<lambda>w. foldl (\<lambda>w n. logA Sev_warn m [] (snd n) w) w ns)"

definition check_unroll :: "string \<Rightarrow> ('u, unit) tl_act" where
  "check_unroll inp s =
     (let T = fst s in
      if tl_force T \<noteq> [] \<and> tl_prevent T \<noteq> [] then
        bindA (logT Sev_error ''ERROR_INCOMPATIBLE_UNROLL'' [] (0, length inp)) (\<lambda>_.
          bindA (warn_rules ''NOTIFY_CONFLICT_RULE_FORCES_UNROLL'' (tl_force T)) (\<lambda>_.
            warn_rules ''NOTIFY_CONFLICT_RULE_PREVENTS_UNROLL'' (tl_prevent T))) s
      else (Inr (), s))"

definition token_list_new :: "'u tokenizer \<Rightarrow> string \<Rightarrow> ('u world, 'u token_list) act" where
  "token_list_new tz inp w =
     (case bindA (tokenize_loop tz inp 0) (\<lambda>_. check_unroll inp) (token_list_empty, w) of
        (Inl e, (T, w')) \<Rightarrow> (Inl e, w')
      | (Inr _, (T, w')) \<Rightarrow> (Inr T, w'))"

section \<open>Evaluation and conversion\<close>

text \<open>A pass over the tokens of one kind: each is evaluated in order and counted; an exception that escapes from
  one ends the pass.\<close>

fun evaluate_pass ::
  "('u token \<Rightarrow> ('u world \<Rightarrow> 'u token \<times> exn option \<times> 'u world) option) \<Rightarrow> 'u token list \<Rightarrow> u32 \<Rightarrow> 'u world
   \<Rightarrow> (exn + u32) \<times> 'u token list \<times> 'u world" where
  "evaluate_pass f [] n w = (Inr n, [], w)"
| "evaluate_pass f (t # ts) n w =
     (case f t of
        None \<Rightarrow> (case evaluate_pass f ts n w of (r, ts', w') \<Rightarrow> (r, t # ts', w'))
      | Some g \<Rightarrow>
          (case g w of
             (t', Some e, w1) \<Rightarrow> (Inl e, t' # ts, w1)
           | (t', None, w1) \<Rightarrow> (case evaluate_pass f ts (n + 1) w1 of (r, ts', w') \<Rightarrow> (r, t' # ts', w'))))"

definition run_pass ::
  "('u token \<Rightarrow> ('u world \<Rightarrow> 'u token \<times> exn option \<times> 'u world) option) \<Rightarrow> u32 \<Rightarrow> ('u, u32) tl_act" where
  "run_pass f n s =
     (case evaluate_pass f (tl_tokens (fst s)) n (snd s) of
        (r, ts, w) \<Rightarrow> (r, ((fst s)\<lparr>tl_tokens := ts\<rparr>, w)))"

definition on_simple :: "simple_macro_type \<Rightarrow> 'u token \<Rightarrow> ('u world \<Rightarrow> 'u token \<times> exn option \<times> 'u world) option" where
  "on_simple ty t = (case t of
     Simple_token x \<Rightarrow>
       if sm_type x = ty then Some (\<lambda>w. case simple_token_evaluate x w of (x', e, w') \<Rightarrow> (Simple_token x', e, w')) else None
   | _ \<Rightarrow> None)"

definition on_index :: "(index_literal_token \<Rightarrow> index_literal_token \<times> exn option)
    \<Rightarrow> 'u token \<Rightarrow> ('u world \<Rightarrow> 'u token \<times> exn option \<times> 'u world) option" where
  "on_index f t = (case t of
     Index_token x \<Rightarrow> Some (\<lambda>w. case f x of (x', e) \<Rightarrow> (Index_token x', e, w))
   | _ \<Rightarrow> None)"

definition on_macro :: "('u index_macro_token \<Rightarrow> 'u world \<Rightarrow> 'u index_macro_token \<times> exn option \<times> 'u world)
    \<Rightarrow> 'u token \<Rightarrow> ('u world \<Rightarrow> 'u token \<times> exn option \<times> 'u world) option" where
  "on_macro f t = (case t of
     Macro_token x \<Rightarrow> Some (\<lambda>w. case f x w of (x', e, w') \<Rightarrow> (Macro_token x', e, w'))
   | _ \<Rightarrow> None)"

definition evaluate_simple :: "simple_macro_type \<Rightarrow> ('u, u32) tl_act" where
  "evaluate_simple ty = run_pass (on_simple ty) 0"

definition evaluate_unroll :: "indices_assignment \<Rightarrow> ('u, u32) tl_act" where
  "evaluate_unroll a =
     bindA (run_pass (on_index (index_token_evaluate a)) 0) (\<lambda>n. run_pass (on_macro (macro_token_evaluate_unroll a)) n)"

definition evaluate_roll :: "('u, u32) tl_act" where
  "evaluate_roll =
     bindA (run_pass (on_index (\<lambda>x. (index_token_evaluate_roll x, None))) 0)
       (\<lambda>n. run_pass (on_macro macro_token_evaluate_roll) n)"

definition evaluate_remap :: "index_remap_rule \<Rightarrow> ('u, u32) tl_act" where
  "evaluate_remap rule =
     bindA (run_pass (on_index (index_token_evaluate_remap rule)) 0)
       (\<lambda>n. run_pass (on_macro (macro_token_evaluate_remap rule)) n)"

text \<open>\<open>reset\<close> counts nothing.\<close>

definition token_list_reset :: "('u, unit) tl_act" where
  "token_list_reset = bindA (run_pass (on_macro macro_token_post) 0) (\<lambda>_. returnA ())"

definition token_list_string :: "'u token_list \<Rightarrow> string" where
  "token_list_string T = concat (map token_string (tl_tokens T))"

definition unroll_status :: "'u token_list \<Rightarrow> unroll_state" where
  "unroll_status T =
     (if tl_force T \<noteq> [] \<and> tl_prevent T = [] then force_unroll
      else if tl_force T = [] \<and> tl_prevent T \<noteq> [] then prevent_unroll
      else allow_unroll)"

end
