(* ===== verification/Token_List_Facts.thy ===== *)
theory Token_List_Facts
  imports Token_List
begin

text \<open>
  What tokenization guarantees: every index a token uses is in the database of the list, directives and rules are
  not mixed, and how names and unroll modifiers are recognised. The invariants are proved with triples over the
  actions of \<open>Token_List\<close>.
\<close>

subsection \<open>Triples\<close>

text \<open>From a state with \<open>P\<close>, the action ends with an exception in a state with \<open>I\<close> or with a result
  \<open>x\<close> in a state with \<open>Q x\<close>.\<close>

definition triple :: "('s \<Rightarrow> bool) \<Rightarrow> ('s \<Rightarrow> bool) \<Rightarrow> ('s, 'a) act \<Rightarrow> ('a \<Rightarrow> 's \<Rightarrow> bool) \<Rightarrow> bool" where
  "triple P I f Q \<longleftrightarrow> (\<forall>s. P s \<longrightarrow> (case f s of (Inl e, s') \<Rightarrow> I s' | (Inr x, s') \<Rightarrow> Q x s'))"

lemma tripleI:
  assumes "\<And>s. P s \<Longrightarrow> (case f s of (Inl e, s') \<Rightarrow> I s' | (Inr x, s') \<Rightarrow> Q x s')"
  shows "triple P I f Q"
  using assms by (simp add: triple_def)

lemma tripleD: "triple P I f Q \<Longrightarrow> P s \<Longrightarrow> f s = (r, s') \<Longrightarrow> case r of Inl e \<Rightarrow> I s' | Inr x \<Rightarrow> Q x s'"
  by (auto simp: triple_def)

lemma triple_bind:
  assumes "triple P I f R" and "\<And>x. triple (R x) I (g x) Q"
  shows "triple P I (bindA f g) Q"
proof (rule tripleI)
  fix s assume "P s"
  with assms(1) have f: "case f s of (Inl e, s') \<Rightarrow> I s' | (Inr x, s') \<Rightarrow> R x s'" by (simp add: triple_def)
  show "case bindA f g s of (Inl e, s') \<Rightarrow> I s' | (Inr x, s') \<Rightarrow> Q x s'"
  proof (cases "f s")
    case (Pair r s')
    show ?thesis
    proof (cases r)
      case (Inr x)
      then have "R x s'" using f Pair by simp
      then have "case g x s' of (Inl e, s') \<Rightarrow> I s' | (Inr x, s') \<Rightarrow> Q x s'" using assms(2) [of x] by (simp add: triple_def)
      then show ?thesis using Pair Inr by (simp add: bindA_def)
    qed (use f Pair in \<open>simp add: bindA_def\<close>)
  qed
qed

lemma triple_bind_pair:
  "triple P I f (\<lambda>(x, y). R x y) \<Longrightarrow> (\<And>x y. triple (R x y) I (h x y) Q) \<Longrightarrow> triple P I (bindA f (\<lambda>(x, y). h x y)) Q"
  by (rule triple_bind) auto

lemma triple_return: "(\<And>s. P s \<Longrightarrow> Q x s) \<Longrightarrow> triple P I (returnA x) Q"
  by (simp add: triple_def returnA_def)

lemma triple_weaken:
  "triple P I f Q \<Longrightarrow> (\<And>s. P' s \<Longrightarrow> P s) \<Longrightarrow> (\<And>s. I s \<Longrightarrow> I' s) \<Longrightarrow> (\<And>x s. Q x s \<Longrightarrow> Q' x s) \<Longrightarrow> triple P' I' f Q'"
proof (rule tripleI)
  fix s
  assume t: "triple P I f Q" and w: "\<And>s. P' s \<Longrightarrow> P s" "\<And>s. I s \<Longrightarrow> I' s" "\<And>x s. Q x s \<Longrightarrow> Q' x s" and "P' s"
  then have "case f s of (Inl e, s') \<Rightarrow> I s' | (Inr x, s') \<Rightarrow> Q x s'" by (simp add: triple_def)
  with w(2,3) show "case f s of (Inl e, s') \<Rightarrow> I' s' | (Inr x, s') \<Rightarrow> Q' x s'"
    by (cases "f s"; cases "fst (f s)") auto
qed

lemma triple_if: "(b \<Longrightarrow> triple P I f Q) \<Longrightarrow> (\<not> b \<Longrightarrow> triple P I g Q) \<Longrightarrow> triple P I (if b then f else g) Q"
  by simp

lemma triple_catch:
  "triple P J f Q \<Longrightarrow> (\<And>e. triple J I (h e) Q) \<Longrightarrow> triple P I (catchA f h) Q"
  unfolding triple_def catchA_def by (fastforce split: sum.splits prod.splits)

lemma triple_throw: "(\<And>s. P s \<Longrightarrow> I s) \<Longrightarrow> triple P I (throwA e) Q"
  by (simp add: triple_def throwA_def)

lemma triple_liftE: "(\<And>s. P s \<Longrightarrow> I s) \<Longrightarrow> (\<And>s y. x = Inr y \<Longrightarrow> P s \<Longrightarrow> Q y s) \<Longrightarrow> triple P I (liftE x) Q"
  by (cases x) (simp_all add: triple_def liftE_def)

subsection \<open>Indices and tokens\<close>

definition new_index :: "'u tokenizer \<Rightarrow> char \<Rightarrow> abstract_index" where
  "new_index tz c = abstract_index_new c (tz_fields tz) (tz_params tz)"

lemma new_index_label [simp]: "ai_label (new_index tz c) = c"
  by (simp add: new_index_def abstract_index_new_def abstract_index_of_class_def)

definition db_wf :: "'u tokenizer \<Rightarrow> abstract_index_database \<Rightarrow> bool" where
  "db_wf tz d \<longleftrightarrow> idb_inv ai_label d \<and> (\<forall>r \<in> set (idb_list d). r = new_index tz (ai_label r))"

lemma db_wf_empty [simp]: "db_wf tz idb_empty"
  by (simp add: db_wf_def idb_inv_def idb_empty_def idb_list_def)

lemma add_index_spec:
  assumes "db_wf tz (tl_db T)"
  shows "\<exists>d. add_index tz c (T, w) = (Inr (new_index tz c), (T\<lparr>tl_db := d\<rparr>, w)) \<and> db_wf tz d
    \<and> idb_list d = (if new_index tz c \<in> set (idb_list (tl_db T)) then idb_list (tl_db T)
                    else idb_list (tl_db T) @ [new_index tz c])"
proof -
  let ?r = "new_index tz c" and ?d = "tl_db T"
  have inv: "idb_inv ai_label ?d" and new: "\<And>r. r \<in> set (idb_list ?d) \<Longrightarrow> r = new_index tz (ai_label r)"
    using assms by (auto simp: db_wf_def)
  have mem: "?r \<in> set (idb_list ?d) \<longleftrightarrow> c \<in> set (idb_order ?d)"
    using idb_label_image [OF inv] new by (metis imageE image_eqI new_index_label)
  obtain b d1 where e: "idb_emplace_back ai_label c ?r ?d = Inr ((c, b), d1)" "idb_inv ai_label d1"
      "b \<longleftrightarrow> idb_find c ?d = None" "if b then idb_list d1 = idb_list ?d @ [?r] else d1 = ?d"
    using idb_emplace_spec [OF inv, of ?r] by auto
  have b: "b \<longleftrightarrow> c \<notin> set (idb_order ?d)" using e(3) inv by (auto simp: idb_find_def idb_inv_def)
  have l: "idb_list d1 = (if ?r \<in> set (idb_list ?d) then idb_list ?d else idb_list ?d @ [?r])"
    using e(4) b mem by auto
  have wf: "db_wf tz d1" using e(2) new l by (auto simp: db_wf_def)
  have "?r \<in> set (idb_list d1)" using l by auto
  then have "c \<in> set (idb_order d1)" using idb_label_image [OF e(2)] by force
  then obtain r where r: "map_of (idb_db d1) c = Some r" "ai_label r = c" using idb_map_of [OF e(2)] by blast
  then have "r \<in> set (idb_list d1)" using \<open>c \<in> set (idb_order d1)\<close> by (force simp: idb_list_def)
  then have "r = ?r" using wf r(2) by (auto simp: db_wf_def)
  then have "idb_deref d1 (Some c) = Inr ?r" using r(1) by (simp add: idb_deref_def)
  then show ?thesis using e(1) wf l by (auto simp: add_index_def new_index_def)
qed

definition token_indices :: "'u token \<Rightarrow> abstract_index set" where
  "token_indices t = (case t of
     Index_token x \<Rightarrow> {il_idx (il_index x)}
   | Macro_token x \<Rightarrow> il_idx ` set (im_indices x)
   | _ \<Rightarrow> {})"

definition is_macro_token :: "'u token \<Rightarrow> bool" where
  "is_macro_token t = (case t of Simple_token x \<Rightarrow> True | Macro_token x \<Rightarrow> True | _ \<Rightarrow> False)"

text \<open>The part of the state that a step of tokenization keeps: the tokens so far, and a set of indices that are in
  the database.\<close>

definition step_inv :: "'u tokenizer \<Rightarrow> 'u token list \<Rightarrow> abstract_index set \<Rightarrow> 'u token_list \<times> 'u world \<Rightarrow> bool" where
  "step_inv tz ts D s \<longleftrightarrow> tl_tokens (fst s) = ts \<and> db_wf tz (tl_db (fst s)) \<and> D \<subseteq> set (idb_list (tl_db (fst s)))"

lemma step_inv_mono: "step_inv tz ts D s \<Longrightarrow> D' \<subseteq> D \<Longrightarrow> step_inv tz ts D' s"
  by (auto simp: step_inv_def)

lemma step_inv_world [simp]: "step_inv tz ts D (T, f w) = step_inv tz ts D (T, w)"
  by (simp add: step_inv_def)

lemma triple_updW: "(\<And>s. P s \<Longrightarrow> Q () (fst s, f (snd s))) \<Longrightarrow> triple P I (updW f) Q"
  by (simp add: triple_def updW_def)

lemma triple_logT: "triple (step_inv tz ts D) I (logT sev m x ctx) (\<lambda>_. step_inv tz ts D)"
  unfolding logT_def by (rule triple_updW) (simp add: step_inv_def)

lemma triple_declare:
  "triple (step_inv tz ts D) (step_inv tz ts D) (declare_index tz c v ctx)
     (\<lambda>l s. step_inv tz ts (insert (il_idx l) D) s)"
proof (rule tripleI)
  fix s assume s: "step_inv tz ts D s"
  obtain T w where Tw: "s = (T, w)" by (cases s)
  then have wf: "db_wf tz (tl_db T)" using s by (simp add: step_inv_def)
  from add_index_spec [OF wf, of c w] obtain d where d: "add_index tz c (T, w) = (Inr (new_index tz c), (T\<lparr>tl_db := d\<rparr>, w))"
    "db_wf tz d" "idb_list d = (if new_index tz c \<in> set (idb_list (tl_db T)) then idb_list (tl_db T)
                    else idb_list (tl_db T) @ [new_index tz c])" by blast
  obtain l w1 where l: "validate_index_properties tz \<lparr>il_idx = new_index tz c, il_ctx = ctx, il_var = v\<rparr> w = (l, w1)"
    by fastforce
  have "il_idx l = new_index tz c" using l by (auto simp: validate_index_properties_def split: if_splits)
  then show "case declare_index tz c v ctx s of (Inl e, s') \<Rightarrow> step_inv tz ts D s'
      | (Inr l, s') \<Rightarrow> step_inv tz ts (insert (il_idx l) D) s'"
    using s Tw d l by (auto simp: declare_index_def bindA_def step_inv_def)
qed

lemma triple_index_loop:
  assumes "il_idx ` set ls \<subseteq> D" and "E \<subseteq> D"
  shows "triple (step_inv tz ts D) (step_inv tz ts E) (index_loop tz cand p v cs ls)
     (\<lambda>(ls', q) s. step_inv tz ts (E \<union> il_idx ` set ls') s)"
  using assms
proof (induction cs arbitrary: p v ls D)
  case Nil
  then show ?case by (auto intro!: triple_return elim!: step_inv_mono)
next
  case (Cons c cs)
  have d: "triple (step_inv tz ts D) (step_inv tz ts E)
      (bindA (declare_index tz c v (p, p + 1)) (\<lambda>l. index_loop tz cand (Suc p) v cs (ls @ [l])))
      (\<lambda>(ls', q) s. step_inv tz ts (E \<union> il_idx ` set ls') s)"
    by (rule triple_bind, rule triple_weaken [OF triple_declare], assumption, erule step_inv_mono, rule Cons.prems(2),
        assumption, rule Cons.IH) (use Cons.prems in auto)
  show ?case using Cons.prems d
    by (auto intro!: triple_return triple_bind [OF triple_logT] Cons.IH elim!: step_inv_mono)
qed

lemma triple_index_list:
  "triple (step_inv tz ts E) (step_inv tz ts E) (get_index_list tz inp cand p err)
     (\<lambda>(ls, q). step_inv tz ts (E \<union> il_idx ` set ls))"
proof -
  have a: "triple (step_inv tz ts E) (step_inv tz ts E)
      (bindA (if err then logT Sev_error m x ctx else returnA ()) (\<lambda>_. returnA ([], q)))
      (\<lambda>(ls, q). step_inv tz ts (E \<union> il_idx ` set ls))" for m x ctx q
    by (rule triple_bind [where R = "\<lambda>_. step_inv tz ts E"])
      (auto intro!: triple_logT triple_return elim!: step_inv_mono)
  have b: "triple (step_inv tz ts E) (step_inv tz ts E) (index_loop tz cand q no_variance cs [])
      (\<lambda>(ls, q). step_inv tz ts (E \<union> il_idx ` set ls))" for q cs
    by (rule triple_index_loop) simp_all
  show ?thesis unfolding get_index_list_def Let_def
    by (intro triple_if a triple_bind_pair [OF b] triple_return triple_bind [OF triple_logT]) simp_all
qed

subsection \<open>Tokens of a line\<close>

definition token_post :: "'u tokenizer \<Rightarrow> 'u token list \<Rightarrow> abstract_index set \<Rightarrow> 'u token option \<times> nat \<Rightarrow> 'u token_list \<times> 'u world \<Rightarrow> bool" where
  "token_post tz ts E tq s = (case fst tq of
      None \<Rightarrow> step_inv tz ts E s
    | Some t \<Rightarrow> step_inv tz ts (E \<union> token_indices t) s
        \<and> (is_macro_token t \<longrightarrow> \<not> list_ex is_directive_token ts)
        \<and> (is_directive_token t \<longrightarrow> \<not> list_ex is_rule_token ts))"

abbreviation token_triple :: "'u tokenizer \<Rightarrow> 'u token list \<Rightarrow> abstract_index set \<Rightarrow> ('u, 'u token option \<times> nat) tl_act \<Rightarrow> bool" where
  "token_triple tz ts E f \<equiv> triple (step_inv tz ts E) (step_inv tz ts E) f (token_post tz ts E)"

lemma triple_validate_rule:
  "triple (step_inv tz ts D) I (validate_replacement_rule macro p)
     (\<lambda>ok s. step_inv tz ts D s \<and> (ok \<longrightarrow> \<not> list_ex is_directive_token ts))"
  by (rule tripleI) (auto simp: validate_replacement_rule_def step_inv_def is_directive_def)

lemma triple_validate_directive:
  "triple (step_inv tz ts D) I (validate_directive macro p)
     (\<lambda>ok s. step_inv tz ts D s \<and> (ok \<longrightarrow> \<not> list_ex is_rule_token ts))"
  by (rule tripleI) (auto simp: validate_directive_def step_inv_def)

lemma triple_skip: "triple (step_inv tz ts D) I (skip_index_list inp macro p) (\<lambda>q. step_inv tz ts D)"
  by (rule tripleI) (auto simp: skip_index_list_def step_inv_def split: prod.split)

lemma triple_arguments: "triple (step_inv tz ts D) I (read_arguments inp macro n p) (\<lambda>(a, q). step_inv tz ts D)"
  by (rule tripleI) (auto simp: read_arguments_def step_inv_def split: prod.split)

lemma triple_in_world: "triple (step_inv tz ts D) (step_inv tz ts D) (in_world f) (\<lambda>x. step_inv tz ts D)"
  by (rule tripleI) (auto simp: in_world_def step_inv_def split: prod.split sum.split)

lemma policy_keeps:
  "explicit_force_policy tz macro ctx pf T w = (pf', T', w') \<Longrightarrow> tl_tokens T' = tl_tokens T \<and> tl_db T' = tl_db T"
  "explicit_prevent_policy tz macro ctx pf T w = (pf', T', w') \<Longrightarrow> tl_tokens T' = tl_tokens T \<and> tl_db T' = tl_db T"
  by (cases pf; cases "tl_explicit_prevent T"; cases "tl_explicit_force T";
      auto simp: explicit_force_policy_def explicit_prevent_policy_def split: if_splits)+

lemma find_unroll_policy_keeps:
  "\<exists>q T' w'. find_unroll_policy tz inp macro st p e (T, w) = (Inr q, (T', w'))
     \<and> tl_tokens T' = tl_tokens T \<and> tl_db T' = tl_db T"
proof -
  let ?c = "(p, if e < length inp \<and> inp ! e = CHR ''|'' \<or> e < length inp \<and> inp ! e = CHR ''@'' then Suc e else e)"
  obtain pf1 T1 w1 where f: "(if e < length inp \<and> inp ! e = CHR ''|''
      then explicit_force_policy tz macro ?c (st = force_unroll, st = prevent_unroll) T w
      else ((st = force_unroll, st = prevent_unroll), T, w)) = (pf1, T1, w1)" by (metis prod_cases3)
  obtain pf2 T2 w2 where g: "(if e < length inp \<and> inp ! e = CHR ''@''
      then explicit_prevent_policy tz macro ?c pf1 T1 w1 else (pf1, T1, w1)) = (pf2, T2, w2)" by (metis prod_cases3)
  have "tl_tokens T1 = tl_tokens T \<and> tl_db T1 = tl_db T"
    using f policy_keeps(1) [of tz macro ?c _ T w pf1 T1 w1] by (simp split: if_splits)
  moreover have "tl_tokens T2 = tl_tokens T1 \<and> tl_db T2 = tl_db T1"
    using g policy_keeps(2) [of tz macro ?c pf1 T1 w1 pf2 T2 w2] by (simp split: if_splits)
  ultimately show ?thesis
    by (simp only: find_unroll_policy_def Let_def fst_conv snd_conv f g prod.case) simp
qed

lemma triple_policy: "triple (step_inv tz ts D) I (find_unroll_policy tz inp macro st p e) (\<lambda>q. step_inv tz ts D)"
proof (rule tripleI)
  fix s assume s: "step_inv tz ts D s"
  obtain T w where "s = (T, w)" by (cases s)
  with s find_unroll_policy_keeps [of tz inp macro st p e T w]
  show "case find_unroll_policy tz inp macro st p e s of (Inl e, s') \<Rightarrow> I s' | (Inr x, s') \<Rightarrow> step_inv tz ts D s'"
    by (auto simp: step_inv_def)
qed

lemma triple_pre_fact: "(b \<Longrightarrow> triple P I f Q) \<Longrightarrow> triple (\<lambda>s. P s \<and> b) I f Q"
  by (auto simp: triple_def)

lemma token_triple_bind_ok:
  assumes "triple (step_inv tz ts E) (step_inv tz ts E) f (\<lambda>ok s. step_inv tz ts E s \<and> (ok \<longrightarrow> b))"
    and "b \<Longrightarrow> token_triple tz ts E g"
  shows "token_triple tz ts E (bindA f (\<lambda>ok. if \<not> ok then returnA (None, q) else g))"
proof (rule triple_bind [OF assms(1)])
  fix ok
  show "triple (\<lambda>s. step_inv tz ts E s \<and> (ok \<longrightarrow> b)) (step_inv tz ts E)
      (if \<not> ok then returnA (None, q) else g) (token_post tz ts E)"
    using assms(2) by (cases ok) (auto intro!: triple_return triple_pre_fact simp: token_post_def)
qed

lemma token_triple_liftE:
  "(\<And>y. token_triple tz ts E (g y)) \<Longrightarrow> token_triple tz ts E (bindA (liftE x) g)"
  by (rule triple_bind [where R = "\<lambda>_. step_inv tz ts E"], rule triple_liftE) auto

lemma token_triple_simple_macro: "token_triple tz ts E (make_simple_macro inp macro p rules ty)"
  unfolding make_simple_macro_def
  by (rule token_triple_bind_ok [OF triple_validate_rule], rule token_triple_liftE, rule triple_bind [OF triple_skip],
      rule triple_bind_pair [OF triple_arguments], rule triple_return)
    (simp add: token_post_def token_indices_def is_directive_token_def)

lemma token_triple_simple_directive: "token_triple tz ts E (make_simple_directive inp macro p rules)"
  unfolding make_simple_directive_def
  by (rule token_triple_bind_ok [OF triple_validate_directive], rule token_triple_liftE, rule triple_bind [OF triple_skip],
      rule triple_bind_pair [OF triple_arguments], rule triple_bind [OF triple_in_world], rule triple_return)
    (simp add: token_post_def token_indices_def is_macro_token_def)

lemma triple_with_state: "(\<And>s. P s \<Longrightarrow> triple P I (g s) Q) \<Longrightarrow> triple P I (\<lambda>s. g s s) Q"
  by (auto simp: triple_def)

lemma token_triple_index_macro: "token_triple tz ts E (make_index_macro tz inp macro p rules)"
  unfolding make_index_macro_def
proof (rule token_triple_bind_ok [OF triple_validate_rule], rule token_triple_liftE,
    rule triple_bind_pair [OF triple_index_list], rule triple_bind_pair [OF triple_arguments])
  fix rule :: "'a index_rule" and ls q args e
  assume nd: "\<not> list_ex is_directive_token ts"
  show "triple (step_inv tz ts (E \<union> il_idx ` set ls)) (step_inv tz ts E)
       (\<lambda>s. bindA (find_unroll_policy tz inp macro (ir_get_unroll rule ls (snd s)) p e)
         (\<lambda>f. returnA (Some (Macro_token (index_macro_token_new macro ls args rule (p, f))), f)) s)
       (token_post tz ts E)"
    by (rule triple_with_state, rule triple_bind [OF triple_policy], rule triple_return)
      (use nd in \<open>simp add: token_post_def token_indices_def index_macro_token_new_def is_directive_token_def\<close>)
qed

lemma token_triple_index_directive: "token_triple tz ts E (make_index_directive tz inp macro p rules)"
  unfolding make_index_directive_def
proof (rule token_triple_bind_ok [OF triple_validate_directive], rule token_triple_liftE)
  fix rule :: "'a index_directive"
  assume nr: "\<not> list_ex is_rule_token ts"
  have l: "triple (step_inv tz ts E) (step_inv tz ts E)
      (if id_indices rule = Some 0 then bindA (skip_index_list inp macro (p + length macro)) (\<lambda>q. returnA ([], q))
       else get_index_list tz inp macro (p + length macro) (id_indices rule \<noteq> None)) (\<lambda>(ls :: index_literal list, q). step_inv tz ts E)"
    by (rule triple_if, rule triple_bind [OF triple_skip], rule triple_return, simp, rule triple_weaken [OF triple_index_list])
      (auto elim: step_inv_mono)
  show "token_triple tz ts E (bindA
      (if id_indices rule = Some 0 then bindA (skip_index_list inp macro (p + length macro)) (\<lambda>q. returnA ([], q))
       else get_index_list tz inp macro (p + length macro) (id_indices rule \<noteq> None)) (\<lambda>(ls, q).
           bindA (read_arguments inp macro (id_args rule) q) (\<lambda>(args, e).
             bindA (in_world (index_directive_token_new macro ls args rule (p, e))) (\<lambda>t.
               returnA (Some (Index_directive_token t), e)))))"
    by (rule triple_bind_pair [OF l], rule triple_bind_pair [OF triple_arguments], rule triple_bind [OF triple_in_world],
        rule triple_return) (use nr in \<open>simp add: token_post_def token_indices_def is_macro_token_def\<close>)
qed

lemma token_triple_index_literal: "token_triple tz ts E (make_index_literal tz inp p)"
  unfolding make_index_literal_def Let_def
  by (rule triple_if, rule triple_bind [OF triple_logT], rule triple_return, simp add: token_post_def,
      rule triple_bind [OF triple_declare], rule triple_return)
    (simp add: token_post_def token_indices_def index_literal_token_new_def is_macro_token_def is_directive_token_def)

lemma token_triple_candidate: "token_triple tz ts E (make_candidate tz inp cand p)"
  unfolding make_candidate_def
  by (intro triple_if token_triple_simple_macro token_triple_index_macro token_triple_simple_directive
      token_triple_index_directive token_triple_index_literal)

lemma token_triple_match: "token_triple tz ts E (match_macro_or_index tz inp p)"
  unfolding match_macro_or_index_def Let_def
  by (intro triple_if token_triple_index_literal triple_catch [OF token_triple_candidate] triple_throw)

lemma token_triple_next: "token_triple tz ts E (next_token tz inp p)"
proof -
  have lit: "token_triple tz ts E (case match_string_literal inp p c of (t, q) \<Rightarrow> returnA (Some t, q))" for c
    unfolding match_string_literal_def Let_def prod.case
    by (rule triple_return)
      (simp add: token_post_def text_token_def token_indices_def is_macro_token_def is_directive_token_def)
  show ?thesis unfolding next_token_def Let_def by (intro triple_if lit token_triple_match)
qed

definition list_inv :: "'u tokenizer \<Rightarrow> 'u token_list \<Rightarrow> bool" where
  "list_inv tz T \<longleftrightarrow> db_wf tz (tl_db T) \<and> (\<Union>t \<in> set (tl_tokens T). token_indices t) \<subseteq> set (idb_list (tl_db T))
     \<and> \<not> (list_ex is_directive_token (tl_tokens T) \<and> list_ex is_macro_token (tl_tokens T))"


lemma list_inv_step:
  assumes "list_inv tz T" and "next_token tz inp p (T, w) = (r, (T', w'))"
  shows "case r of Inl e \<Rightarrow> list_inv tz T'
    | Inr (t, q) \<Rightarrow> list_inv tz (fst (snd (push_token t (T', w'))))"
proof -
  let ?ts = "tl_tokens T" and ?E = "\<Union>t \<in> set (tl_tokens T). token_indices t"
  have "step_inv tz ?ts ?E (T, w)" using assms(1) by (simp add: step_inv_def list_inv_def)
  then have t: "case r of Inl e \<Rightarrow> step_inv tz ?ts ?E (T', w') | Inr x \<Rightarrow> token_post tz ?ts ?E x (T', w')"
    using tripleD [OF token_triple_next _ assms(2)] by blast
  have mix: "\<not> (list_ex is_directive_token ?ts \<and> list_ex is_macro_token ?ts)" using assms(1) by (simp add: list_inv_def)
  have rule: "list_ex is_macro_token ?ts \<Longrightarrow> list_ex is_rule_token ?ts"
    by (auto simp: list_ex_iff is_macro_token_def is_rule_token_def split: token.splits)
  show ?thesis
  proof (cases r)
    case (Inr x)
    obtain t q where x: "x = (t, q)" by (cases x)
    show ?thesis
    proof (cases t)
      case None
      then show ?thesis using t Inr x mix by (simp add: token_post_def step_inv_def list_inv_def push_token_def updT_def)
    next
      case (Some y)
      have "\<not> (is_directive_token y \<and> is_macro_token y)"
        by (cases y) (simp_all add: is_directive_token_def is_macro_token_def)
      then show ?thesis using t Inr x Some mix rule
        by (auto simp: token_post_def step_inv_def list_inv_def push_token_def updT_def)
    qed
  qed (use t mix in \<open>simp add: step_inv_def list_inv_def\<close>)
qed

lemma list_inv_loop:
  assumes "list_inv tz (fst s)"
  shows "list_inv tz (fst (snd (tokenize_loop tz inp p s)))"
  using assms
proof (induction tz inp p s rule: tokenize_loop.induct)
  case (1 tz inp p s)
  obtain T w where s: "s = (T, w)" by (cases s)
  obtain r T' w' where n: "next_token tz inp p (T, w) = (r, (T', w'))" by (metis prod_cases3)
  note step = list_inv_step [OF _ n]
  show ?case
  proof (cases "p < length inp")
    case True
    show ?thesis
    proof (cases r)
      case (Inl e)
      then show ?thesis using True n s step 1(2) by (subst tokenize_loop.simps) (simp add: bindA_def)
    next
      case (Inr x)
      obtain t q where x: "x = (t, q)" by (cases x)
      obtain T2 w2 where pt: "push_token t (T', w') = (Inr (), (T2, w2))" by (fastforce simp: push_token_def updT_def)
      have "list_inv tz T2" using step Inr x pt 1(2) s by simp
      then have "list_inv tz (fst (snd (tokenize_loop tz inp q (T2, w2))))"
        using 1(1) [OF True _ x [symmetric], of "(T', w')" "(T2, w2)"] n s Inr by simp
      then show ?thesis using True n s Inr x pt by (subst tokenize_loop.simps) (simp add: bindA_def)
    qed
  qed (use 1(2) in \<open>subst tokenize_loop.simps, simp\<close>)
qed

lemma check_unroll_keeps [simp]: "fst (snd (check_unroll inp s)) = fst s"
  by (simp add: check_unroll_def bindA_def logT_def updW_def warn_rules_def Let_def)

lemma list_inv_new:
  assumes "token_list_new tz inp w = (Inr T, w')"
  shows "list_inv tz T"
proof -
  obtain r s where l: "tokenize_loop tz inp 0 (token_list_empty, w) = (r, s)" by (cases "tokenize_loop tz inp 0 (token_list_empty, w)")
  have "list_inv tz token_list_empty" by (simp add: list_inv_def token_list_empty_def)
  then have "list_inv tz (fst s)" using list_inv_loop [of tz "(token_list_empty, w)" inp 0] l by simp
  moreover have "fst s = T"
  proof (cases r)
    case (Inr x)
    then have "check_unroll inp s = (Inr (), (T, w'))"
      using assms l by (auto simp: token_list_new_def bindA_def split: sum.splits prod.splits)
    then show ?thesis using check_unroll_keeps [of inp s] by simp
  qed (use assms l in \<open>simp add: token_list_new_def bindA_def split: prod.splits\<close>)
  ultimately show ?thesis by simp
qed

text \<open>Every index a line uses is in the index database of its token list. Whatever the line, after tokenization
  the database holds every index of every index literal and every index macro, each label once, and nothing but
  indices of the model's size; an assignment of the database therefore assigns every index of every token.\<close>

theorem token_indices_declared:
  assumes "token_list_new tz inp w = (Inr T, w')" and "t \<in> set (tl_tokens T)"
  shows "token_indices t \<subseteq> set (idb_list (tl_db T)) \<and> distinct (map ai_label (idb_list (tl_db T)))
    \<and> (\<forall>r \<in> set (idb_list (tl_db T)). r = new_index tz (ai_label r))"
proof -
  have inv: "list_inv tz T" by (rule list_inv_new [OF assms(1)])
  then have "map ai_label (idb_list (tl_db T)) = idb_order (tl_db T)" by (auto simp: list_inv_def db_wf_def idb_labels)
  then have "distinct (map ai_label (idb_list (tl_db T)))" using inv by (auto simp: list_inv_def db_wf_def idb_inv_def)
  then show ?thesis using inv assms(2) by (auto simp: list_inv_def db_wf_def)
qed

definition example_tokenizer :: "unit tokenizer" where
  "example_tokenizer = \<lparr>tz_prefix = ''$'', tz_fields = 2, tz_params = 1, tz_pre = [], tz_post = [], tz_index = [],
     tz_local = [], tz_simp_dir = [], tz_ind_dir = [], tz_validation = None, tz_strict = False,
     tz_model = canonical_model, tz_dev_warnings = False\<rparr>"

text \<open>Directives and macros do not share a line: after tokenization of any line, the list does not hold a
  directive together with a simple or an index macro.\<close>

theorem directives_and_macros_separate:
  assumes "token_list_new tz inp w = (Inr T, w')"
  shows "\<not> (list_ex is_directive_token (tl_tokens T) \<and> list_ex is_macro_token (tl_tokens T))"
  using list_inv_new [OF assms] by (simp add: list_inv_def)

text \<open>Index literals are accepted after a directive. Reading an index literal does not depend on the tokens
  before it: with any tokens, directives included, it gives the same token and position and reports the same, although
  a directive after an index literal is refused.\<close>

theorem index_literal_ignores_directives:
  "fst (make_index_literal tz inp p (T\<lparr>tl_tokens := ts\<rparr>, w)) = fst (make_index_literal tz inp p (T, w))
   \<and> snd (snd (make_index_literal tz inp p (T\<lparr>tl_tokens := ts\<rparr>, w))) = snd (snd (make_index_literal tz inp p (T, w)))
   \<and> fst (validate_directive macro p (T\<lparr>tl_tokens := [Index_token x]\<rparr>, w)) = Inr False"
proof -
  have add: "add_index tz c (T\<lparr>tl_tokens := ts\<rparr>, w) =
      (case add_index tz c (T, w) of (r, (T', w')) \<Rightarrow> (r, (T'\<lparr>tl_tokens := ts\<rparr>, w')))" for c
    by (simp add: add_index_def split: sum.split prod.split)
  have "fst (declare_index tz c v ctx (T\<lparr>tl_tokens := ts\<rparr>, w)) = fst (declare_index tz c v ctx (T, w))
      \<and> snd (snd (declare_index tz c v ctx (T\<lparr>tl_tokens := ts\<rparr>, w))) = snd (snd (declare_index tz c v ctx (T, w)))" for c v ctx
    by (simp add: declare_index_def bindA_def add case_prod_unfold split: sum.split)
  then show ?thesis
    by (simp add: make_index_literal_def Let_def bindA_def logT_def updW_def returnA_def case_prod_unfold
        validate_directive_def is_rule_token_def split: sum.split)
qed

theorem token_indices_declared_witness:
  "\<exists>T w'. token_list_new example_tokenizer ''x$i+$j'' \<lparr>w_log = [], w_enabled = True, w_user = ()\<rparr> = (Inr T, w')
    \<and> length (tl_tokens T) = 4 \<and> token_indices (tl_tokens T ! 1) \<subseteq> set (idb_list (tl_db T))"
proof -
  have "case token_list_new example_tokenizer ''x$i+$j'' \<lparr>w_log = [], w_enabled = True, w_user = ()\<rparr> of
      (Inl e, w) \<Rightarrow> False | (Inr T, w) \<Rightarrow> length (tl_tokens T) = 4"
    by code_simp
  then obtain T w' where T: "token_list_new example_tokenizer ''x$i+$j'' \<lparr>w_log = [], w_enabled = True, w_user = ()\<rparr> = (Inr T, w')"
    "length (tl_tokens T) = 4" by (auto split: sum.splits prod.splits)
  with token_indices_declared [OF T(1), of "tl_tokens T ! 1"] show ?thesis by auto
qed

theorem directives_and_macros_separate_witness:
  "\<exists>T w'. token_list_new example_tokenizer ''x$i+$j'' \<lparr>w_log = [], w_enabled = True, w_user = ()\<rparr> = (Inr T, w')
    \<and> \<not> (list_ex is_directive_token (tl_tokens T) \<and> list_ex is_macro_token (tl_tokens T))"
proof -
  have "case token_list_new example_tokenizer ''x$i+$j'' \<lparr>w_log = [], w_enabled = True, w_user = ()\<rparr> of
      (Inl e, w) \<Rightarrow> False | (Inr T, w) \<Rightarrow> True"
    by code_simp
  then obtain T w' where T: "token_list_new example_tokenizer ''x$i+$j'' \<lparr>w_log = [], w_enabled = True, w_user = ()\<rparr> = (Inr T, w')"
    by (auto split: sum.splits prod.splits)
  with directives_and_macros_separate [OF T] show ?thesis by auto
qed

subsection \<open>Recognising names\<close>

definition rule_names :: "'u tokenizer \<Rightarrow> string list" where
  "rule_names tz = map sr_name (tz_pre tz) @ map sr_name (tz_post tz) @ map ir_name (tz_index tz)
     @ map ir_name (tz_local tz) @ map sd_name (tz_simp_dir tz) @ map id_name (tz_ind_dir tz)"

definition starts_name :: "'u tokenizer \<Rightarrow> string \<Rightarrow> bool" where
  "starts_name tz c \<longleftrightarrow> (\<exists>n \<in> set (rule_names tz). take (length c) n = c)"

lemma any_match_iff: "any_match tz c \<longleftrightarrow> starts_name tz c"
proof -
  have e: "check_for_match nm c rs True \<longleftrightarrow> (\<exists>n \<in> set (map nm rs). take (length c) n = c)" for nm :: "'r \<Rightarrow> string" and rs
    by (simp add: check_for_match_def rule_name_matches_def list_ex_iff eq_commute [of c])
  show ?thesis unfolding any_match_def starts_name_def e rule_names_def set_append by blast
qed

lemma starts_name_prefix: "starts_name tz (c @ d) \<Longrightarrow> starts_name tz c"
proof -
  assume "starts_name tz (c @ d)"
  then obtain n where n: "n \<in> set (rule_names tz)" "take (length (c @ d)) n = c @ d" by (auto simp: starts_name_def)
  have "take (length c) n = take (length c) (take (length (c @ d)) n)" by (simp add: min_def)
  also have "\<dots> = c" using n(2) by simp
  finally show ?thesis using n(1) by (auto simp: starts_name_def)
qed

definition candidate_at :: "'u tokenizer \<Rightarrow> string \<Rightarrow> nat \<Rightarrow> string" where
  "candidate_at tz inp p = extend_candidate (any_match tz) (drop (p + 2) inp) [inp ! p, inp ! (p + 1)]"

lemma candidate_longest:
  assumes "drop p inp = a # b # cs" and "starts_name tz [a, b]"
  shows "\<exists>r. drop p inp = candidate_at tz inp p @ r \<and> starts_name tz (candidate_at tz inp p)
    \<and> (\<forall>z r'. r = z @ r' \<longrightarrow> z \<noteq> [] \<longrightarrow> list_all name_char z \<longrightarrow> \<not> starts_name tz (candidate_at tz inp p @ z))"
proof -
  have ab: "inp ! p = a" "inp ! (p + 1) = b" "drop (p + 2) inp = cs"
    using drop_nonempty [OF assms(1)] drop_nonempty [OF drop_Suc_eq [OF assms(1)]] drop_drop_eq [of p inp "[a, b]" cs] assms(1)
    by simp_all
  obtain ext rest where x: "cs = ext @ rest" "extend_candidate (any_match tz) cs [a, b] = [a, b] @ ext"
    "ext \<noteq> [] \<longrightarrow> any_match tz ([a, b] @ ext)"
    "rest = [] \<or> \<not> name_char (hd rest) \<or> \<not> any_match tz ([a, b] @ ext @ [hd rest])"
    using extend_candidate_spec [of cs "any_match tz" "[a, b]"] by blast
  have c: "candidate_at tz inp p = [a, b] @ ext" using ab x(2) by (simp add: candidate_at_def numeral_2_eq_2)
  have st: "starts_name tz ([a, b] @ ext)" using x(3) assms(2) by (cases "ext = []") (auto simp: any_match_iff)
  have "\<not> starts_name tz (([a, b] @ ext) @ z)" if z: "rest = z @ r'" "z \<noteq> []" "list_all name_char z" for z r'
  proof
    assume s: "starts_name tz (([a, b] @ ext) @ z)"
    obtain y ys where y: "z = y # ys" using z(2) by (cases z) auto
    have "starts_name tz ([a, b] @ ext @ [y])" by (rule starts_name_prefix [of _ _ ys]) (use s y in simp)
    then show False using x(4) z(1,3) y by (simp add: any_match_iff)
  qed
  then show ?thesis using assms(1) x(1) c st by (intro exI [of _ rest]) auto
qed

lemma candidate_covers:
  assumes "drop p inp = n @ r" and "2 \<le> length n" and "starts_name tz n" and "list_all name_char (drop 2 n)"
  shows "length n \<le> length (candidate_at tz inp p)"
proof (rule ccontr)
  assume short: "\<not> length n \<le> length (candidate_at tz inp p)"
  obtain a b ns where n: "n = a # b # ns" using assms(2) by (cases n; cases "tl n") auto
  have "starts_name tz [a, b]" by (rule starts_name_prefix [of _ _ ns]) (use assms(3) n in simp)
  moreover have "drop p inp = a # b # (ns @ r)" using assms(1) n by simp
  ultimately obtain q where q: "drop p inp = candidate_at tz inp p @ q"
      "\<And>z r'. q = z @ r' \<Longrightarrow> z \<noteq> [] \<Longrightarrow> list_all name_char z \<Longrightarrow> \<not> starts_name tz (candidate_at tz inp p @ z)"
    using candidate_longest [of p inp a b "ns @ r" tz] by blast
  let ?c = "candidate_at tz inp p"
  have len: "2 \<le> length ?c"
    using extend_candidate_length [of "[inp ! p, inp ! (p + 1)]"] by (simp add: candidate_at_def numeral_2_eq_2)
  have "take (length n) (?c @ q) = n" using assms(1) q(1) by (metis append_eq_conv_conj)
  then obtain z where z: "n = ?c @ z" "z = take (length n - length ?c) q" using short by auto
  have "z \<noteq> []" using z short by auto
  moreover have "list_all name_char z" using assms(4) z(1) len by (simp add: list_all_append drop_append)
  moreover have "q = z @ drop (length n - length ?c) q" using z(2) by simp
  ultimately show False using q(2) [of z "drop (length n - length ?c) q"] assms(3) z(1) by simp
qed

text \<open>The longest possible name is taken. When the two characters after the prefix start the name of a rule or
  directive, what is taken for the name is a start of the remaining text that starts the name of a rule, and no longer
  piece of the text made of letters, digits and underscores starts one; the token is then made for exactly this name,
  and an exception of the kind the code catches leads to an index literal.\<close>

theorem longest_candidate_taken:
  assumes "drop p inp = a # b # cs" and "starts_name tz [a, b]"
  shows "(\<exists>r. drop p inp = candidate_at tz inp p @ r \<and> starts_name tz (candidate_at tz inp p)
      \<and> (\<forall>z r'. r = z @ r' \<longrightarrow> z \<noteq> [] \<longrightarrow> list_all name_char z \<longrightarrow> \<not> starts_name tz (candidate_at tz inp p @ z)))
    \<and> match_macro_or_index tz inp p = catchA (make_candidate tz inp (candidate_at tz inp p) p)
        (\<lambda>e. if is_runtime_error e then make_index_literal tz inp p else throwA e)"
proof -
  have ab: "inp ! p = a" "inp ! (p + 1) = b" "p + 1 < length inp"
    using drop_nonempty [OF assms(1)] drop_nonempty [OF drop_Suc_eq [OF assms(1)]] by simp_all
  then have "match_macro_or_index tz inp p = catchA (make_candidate tz inp (candidate_at tz inp p) p)
        (\<lambda>e. if is_runtime_error e then make_index_literal tz inp p else throwA e)"
    using assms(2) by (simp add: match_macro_or_index_def candidate_at_def any_match_iff Let_def)
  with candidate_longest [OF assms] show ?thesis by blast
qed

lemma make_index_literal_returns:
  assumes "db_wf tz (tl_db T)"
  shows "\<exists>x s'. make_index_literal tz inp p (T, w) = (Inr x, s')"
proof -
  have "\<exists>l s'. declare_index tz c v ctx (T, w) = (Inr l, s')" for c v ctx
    using add_index_spec [OF assms, of c w] by (fastforce simp: declare_index_def bindA_def split: prod.splits)
  then obtain l s' where "declare_index tz (inp ! skip_while (\<lambda>c. c = CHR ''^'' \<or> c = CHR ''_'') inp p)
      (qualifier_variance (slice inp p (skip_while (\<lambda>c. c = CHR ''^'' \<or> c = CHR ''_'') inp p)))
      (p, Suc (skip_while (\<lambda>c. c = CHR ''^'' \<or> c = CHR ''_'') inp p)) (T, w) = (Inr l, s')" by blast
  then show ?thesis by (simp add: make_index_literal_def Let_def bindA_def logT_def updW_def returnA_def)
qed

lemma not_exact_match: "c \<notin> set (map nm rs) \<Longrightarrow> \<not> check_for_match nm c rs False"
  by (auto simp: check_for_match_def rule_name_matches_def list_ex_iff)

text \<open>A longer name that fails hides a macro. If the text starts with the name of a rule and goes on in a way that
  another, longer name does too, but the text holds no name longer than the first, then what is read is not the macro of
  that name but an index literal for its first character.\<close>

theorem overshoot_hides_macro:
  assumes "n \<in> set (rule_names tz)" and "2 \<le> length n" and "drop p inp = n @ z @ r" and "z \<noteq> []"
    and "list_all name_char (drop 2 n @ z)" and "starts_name tz (n @ z)"
    and "\<And>m. m \<in> set (rule_names tz) \<Longrightarrow> take (length m) (drop p inp) = m \<Longrightarrow> length m \<le> length n"
    and "db_wf tz (tl_db T)"
  shows "match_macro_or_index tz inp p (T, w) = make_index_literal tz inp p (T, w)"
proof -
  let ?c = "candidate_at tz inp p"
  obtain a b ns where n: "n = a # b # ns" using assms(2) by (cases n; cases "tl n") auto
  have d: "drop p inp = a # b # (ns @ z @ r)" using assms(3) n by simp
  have st: "starts_name tz [a, b]" by (rule starts_name_prefix [of _ _ "ns @ z"]) (use assms(6) n in simp)
  have "length (n @ z) \<le> length ?c"
    by (rule candidate_covers [of p inp "n @ z" r]) (use assms(2,3,5,6) in auto)
  then have long: "length n < length ?c" using assms(4) by (cases z) auto
  from candidate_longest [OF d st] obtain q where "drop p inp = ?c @ q" by blast
  then have "take (length ?c) (drop p inp) = ?c" by simp
  with assms(7) [of ?c] long have "?c \<notin> set (rule_names tz)" by auto
  then have "make_candidate tz inp ?c p = make_index_literal tz inp p"
    by (simp add: make_candidate_def rule_names_def not_exact_match)
  moreover have "match_macro_or_index tz inp p = catchA (make_candidate tz inp ?c p)
        (\<lambda>e. if is_runtime_error e then make_index_literal tz inp p else throwA e)"
    using drop_nonempty [OF d] drop_nonempty [OF drop_Suc_eq [OF d]] st
    by (simp add: match_macro_or_index_def candidate_at_def any_match_iff Let_def)
  moreover obtain x s' where "make_index_literal tz inp p (T, w) = (Inr x, s')"
    using make_index_literal_returns [OF assms(8)] by blast
  ultimately show ?thesis by (simp add: catchA_def)
qed

definition named_rule :: "string \<Rightarrow> unit simple_rule" where
  "named_rule n = \<lparr>sr_name = n, sr_args = 0, sr_evaluate = (\<lambda>args. returnA ''value'')\<rparr>"

definition overshoot_tokenizer :: "unit tokenizer" where
  "overshoot_tokenizer = example_tokenizer\<lparr>tz_pre := [named_rule ''AB'', named_rule ''ABCD'']\<rparr>"

theorem overshoot_hides_macro_witness:
  "match_macro_or_index overshoot_tokenizer ''$ABCE'' 1 (token_list_empty, \<lparr>w_log = [], w_enabled = True, w_user = ()\<rparr>)
    = make_index_literal overshoot_tokenizer ''$ABCE'' 1 (token_list_empty, \<lparr>w_log = [], w_enabled = True, w_user = ()\<rparr>)"
proof -
  have names: "rule_names overshoot_tokenizer = [''AB'', ''ABCD'']"
    by (simp add: rule_names_def overshoot_tokenizer_def example_tokenizer_def named_rule_def)
  show ?thesis
    by (rule overshoot_hides_macro [of "''AB''" _ _ _ "''C''" "''E''"])
      (auto simp: names starts_name_def name_char_def cchar_defs token_list_empty_def)
qed

theorem longest_candidate_taken_witness:
  "match_macro_or_index overshoot_tokenizer ''$ABx'' 1
    = catchA (make_candidate overshoot_tokenizer ''$ABx'' (candidate_at overshoot_tokenizer ''$ABx'' 1) 1)
        (\<lambda>e. if is_runtime_error e then make_index_literal overshoot_tokenizer ''$ABx'' 1 else throwA e)"
proof -
  have names: "rule_names overshoot_tokenizer = [''AB'', ''ABCD'']"
    by (simp add: rule_names_def overshoot_tokenizer_def example_tokenizer_def named_rule_def)
  show ?thesis
    using longest_candidate_taken [of 1 "''$ABx''" "CHR ''A''" "CHR ''B''" "''x''" overshoot_tokenizer]
    by (simp add: names starts_name_def)
qed

subsection \<open>Unroll modifiers\<close>

text \<open>A line of index macros whose rules leave unrolling open, each followed by a modifier.\<close>

primrec modified_macros :: "'u tokenizer \<Rightarrow> string \<Rightarrow> string \<Rightarrow> 'u token_list \<times> 'u world \<Rightarrow> 'u token_list \<times> 'u world" where
  "modified_macros tz macro [] s = s"
| "modified_macros tz macro (m # ms) s =
     modified_macros tz macro ms (snd (find_unroll_policy tz [m] macro allow_unroll 0 0 s))"

lemma modified_after_prevent:
  assumes "tl_explicit_prevent T \<noteq> None" and "set ms \<subseteq> {CHR ''|'', CHR ''@''}"
  shows "fst (modified_macros tz macro ms (T, w)) = T"
  using assms
proof (induction ms arbitrary: w)
  case (Cons m ms)
  obtain n where n: "tl_explicit_prevent T = Some n" using Cons.prems(1) by auto
  have "\<exists>w'. find_unroll_policy tz [m] macro allow_unroll 0 0 (T, w) = (Inr 1, (T, w'))"
    using Cons.prems(2) n
    by (auto simp: find_unroll_policy_def explicit_force_policy_def explicit_prevent_policy_def Let_def)
  then show ?case using Cons by auto
qed simp

lemma modified_after_force:
  assumes "tl_explicit_prevent T = None" and "tl_explicit_force T \<noteq> None" and "set ms \<subseteq> {CHR ''|'', CHR ''@''}"
  shows "\<exists>T' w'. modified_macros tz macro ms (T, w) = (T', w')
    \<and> length (tl_force T') = length (tl_force T) + count_list ms (CHR ''|'')
    \<and> length (tl_prevent T') = length (tl_prevent T) + count_list ms (CHR ''@'')"
  using assms
proof (induction ms arbitrary: T w)
  case (Cons m ms)
  obtain x y z where n: "tl_explicit_force T = Some (x, y, z)" using Cons.prems(2) by auto
  have "\<exists>T1 w1. find_unroll_policy tz [m] macro allow_unroll 0 0 (T, w) = (Inr 1, (T1, w1))
      \<and> tl_explicit_prevent T1 = None \<and> tl_explicit_force T1 \<noteq> None
      \<and> length (tl_force T1) = length (tl_force T) + (if m = CHR ''|'' then 1 else 0)
      \<and> length (tl_prevent T1) = length (tl_prevent T) + (if m = CHR ''@'' then 1 else 0)"
    using Cons.prems(1,3) n
    by (auto simp: find_unroll_policy_def explicit_force_policy_def explicit_prevent_policy_def Let_def)
  then obtain T1 w1 where T1: "find_unroll_policy tz [m] macro allow_unroll 0 0 (T, w) = (Inr 1, (T1, w1))"
      "tl_explicit_prevent T1 = None" "tl_explicit_force T1 \<noteq> None"
      "length (tl_force T1) = length (tl_force T) + (if m = CHR ''|'' then 1 else 0)"
      "length (tl_prevent T1) = length (tl_prevent T) + (if m = CHR ''@'' then 1 else 0)" by blast
  from Cons.IH [OF T1(2,3), of w1] Cons.prems(3) T1(1,4,5) show ?case by auto
qed simp

text \<open>Conflicting modifiers are treated differently in the two orders. On a line of macros whose rules leave
  unrolling open, a first modifier that prevents unrolling makes all later ones void, so the line is rolled up; after a
  first modifier that forces it, every later one counts, so a later modifier that prevents it leaves the list with both
  requirements, and tokenization reports the conflict as an error.\<close>

theorem modifier_order_matters:
  assumes "set ms \<subseteq> {CHR ''|'', CHR ''@''}" and "modified_macros tz macro ms (token_list_empty, w) = (T, w')"
  shows "(length (tl_force T), length (tl_prevent T)) =
      (if ms = [] then (0, 0) else if hd ms = CHR ''@'' then (0, 1)
       else (count_list ms (CHR ''|''), count_list ms (CHR ''@'')))
    \<and> unroll_status T = (if ms = [] then allow_unroll else if hd ms = CHR ''@'' then prevent_unroll
        else if CHR ''@'' \<notin> set ms then force_unroll else allow_unroll)
    \<and> (snd (snd (check_unroll inp (T, w'))) = w' \<longleftrightarrow> \<not> (ms \<noteq> [] \<and> hd ms = CHR ''|'' \<and> CHR ''@'' \<in> set ms))"
proof -
  have len: "(length (tl_force T), length (tl_prevent T)) =
      (if ms = [] then (0, 0) else if hd ms = CHR ''@'' then (0, 1)
       else (count_list ms (CHR ''|''), count_list ms (CHR ''@'')))"
  proof (cases ms)
    case Nil
    then show ?thesis using assms(2) by (auto simp: token_list_empty_def)
  next
    case (Cons m ns)
    show ?thesis
    proof (cases "m = CHR ''@''")
      case True
      obtain T1 w1 where T1: "find_unroll_policy tz [m] macro allow_unroll 0 0 (token_list_empty, w) = (Inr 1, (T1, w1))"
          "tl_explicit_prevent T1 \<noteq> None" "length (tl_force T1) = 0" "length (tl_prevent T1) = 1"
        using True by (simp add: find_unroll_policy_def explicit_prevent_policy_def token_list_empty_def Let_def)
      have "fst (modified_macros tz macro ns (T1, w1)) = T1"
        by (rule modified_after_prevent [OF T1(2)]) (use assms(1) Cons in auto)
      then have "T = T1" using assms(2) Cons T1(1) by simp
      then show ?thesis using T1 Cons True by simp
    next
      case False
      then have m: "m = CHR ''|''" using assms(1) Cons by simp
      obtain T1 w1 where T1: "find_unroll_policy tz [m] macro allow_unroll 0 0 (token_list_empty, w) = (Inr 1, (T1, w1))"
          "tl_explicit_prevent T1 = None" "tl_explicit_force T1 \<noteq> None" "length (tl_force T1) = 1" "length (tl_prevent T1) = 0"
        using m by (simp add: find_unroll_policy_def explicit_force_policy_def token_list_empty_def Let_def)
      have ns: "set ns \<subseteq> {CHR ''|'', CHR ''@''}" using assms(1) Cons by auto
      from modified_after_force [OF T1(2,3) ns, of tz macro w1]
      show ?thesis using assms(2) Cons T1 m by auto
    qed
  qed
  have pos: "0 < count_list ms (CHR ''|'')" if "ms \<noteq> []" "hd ms = CHR ''|''"
    using that by (cases ms) auto
  have at: "CHR ''@'' \<in> set ms \<longleftrightarrow> 0 < count_list ms (CHR ''@'')" by (metis count_list_0_iff neq0_conv)
  have hd: "ms \<noteq> [] \<Longrightarrow> hd ms \<noteq> CHR ''@'' \<Longrightarrow> hd ms = CHR ''|''" using assms(1) by (cases ms) auto
  have e: "tl_force T \<noteq> [] \<longleftrightarrow> ms \<noteq> [] \<and> hd ms = CHR ''|''" "tl_prevent T \<noteq> [] \<longleftrightarrow> CHR ''@'' \<in> set ms"
  proof -
    consider "ms = []" | "ms \<noteq> []" "hd ms = CHR ''@''" | "ms \<noteq> []" "hd ms = CHR ''|''" using hd by blast
    moreover have "ms \<noteq> [] \<Longrightarrow> hd ms = CHR ''@'' \<Longrightarrow> 0 < count_list ms (CHR ''@'')" using at hd_in_set [of ms] by metis
    ultimately have "(0 < length (tl_force T) \<longleftrightarrow> ms \<noteq> [] \<and> hd ms = CHR ''|'')
        \<and> (0 < length (tl_prevent T) \<longleftrightarrow> CHR ''@'' \<in> set ms)"
      using len at by cases (simp_all add: pos)
    then show "tl_force T \<noteq> [] \<longleftrightarrow> ms \<noteq> [] \<and> hd ms = CHR ''|''" "tl_prevent T \<noteq> [] \<longleftrightarrow> CHR ''@'' \<in> set ms" by auto
  qed
  have log: "length (w_log (foldl (\<lambda>w n. logA Sev_warn m [] (snd n) w) v ns)) = length (w_log v) + length ns" for m ns and v :: "'a world"
    by (induction ns arbitrary: v) (simp_all add: logA_def)
  have "snd (snd (check_unroll inp (T, w'))) = w' \<longleftrightarrow> \<not> (tl_force T \<noteq> [] \<and> tl_prevent T \<noteq> [])"
  proof (cases "tl_force T \<noteq> [] \<and> tl_prevent T \<noteq> []")
    case True
    have "length (w_log (snd (snd (check_unroll inp (T, w'))))) \<noteq> length (w_log w')"
      using True by (simp add: check_unroll_def bindA_def logT_def updW_def warn_rules_def log) (simp add: logA_def)
    then show ?thesis using True by metis
  qed (auto simp: check_unroll_def Let_def)
  then have r: "snd (snd (check_unroll inp (T, w'))) = w' \<longleftrightarrow> \<not> (ms \<noteq> [] \<and> hd ms = CHR ''|'' \<and> CHR ''@'' \<in> set ms)"
    by (simp only: e) blast
  have "unroll_status T = (if ms = [] then allow_unroll else if hd ms = CHR ''@'' then prevent_unroll
        else if CHR ''@'' \<notin> set ms then force_unroll else allow_unroll)"
  proof -
    have "hd ms \<in> set ms" if "ms \<noteq> []" using that by (rule hd_in_set)
    moreover have "CHR ''|'' \<noteq> CHR ''@''" by simp
    ultimately show ?thesis unfolding unroll_status_def using e hd
      by (cases "ms = []"; cases "hd ms = CHR ''@''") auto
  qed
  with len r show ?thesis by blast
qed

theorem modifier_order_matters_witness:
  "unroll_status (fst (modified_macros example_tokenizer ''M'' ''@|'' (token_list_empty, \<lparr>w_log = [], w_enabled = True, w_user = ()\<rparr>)))
     = prevent_unroll
   \<and> unroll_status (fst (modified_macros example_tokenizer ''M'' ''|@'' (token_list_empty, \<lparr>w_log = [], w_enabled = True, w_user = ()\<rparr>)))
     = allow_unroll"
proof -
  let ?s = "(token_list_empty, \<lparr>w_log = [], w_enabled = True, w_user = ()\<rparr>)"
  have "unroll_status (fst (modified_macros example_tokenizer ''M'' ms ?s)) =
      (if ms = [] then allow_unroll else if hd ms = CHR ''@'' then prevent_unroll
        else if CHR ''@'' \<notin> set ms then force_unroll else allow_unroll)"
    if "set ms \<subseteq> {CHR ''|'', CHR ''@''}" for ms
    using modifier_order_matters [OF that, of example_tokenizer "''M''" _ "fst (modified_macros example_tokenizer ''M'' ms ?s)"
        "snd (modified_macros example_tokenizer ''M'' ms ?s)"] by simp
  from this [of "''@|''"] this [of "''|@''"] show ?thesis by simp
qed

end
