(* ===== verification/Token_List_Lines.thy ===== *)
theory Token_List_Lines
  imports Token_List_Facts
begin

text \<open>
  Lines of text and index literals: how they are tokenized, and what the evaluation of their indices makes of
  them.
\<close>

section \<open>Lines\<close>

text \<open>A line as a sequence of texts and index literals, the latter with their variance qualifiers.\<close>

datatype piece = Text_piece string | Index_piece string char

definition piece_print :: "string \<Rightarrow> piece \<Rightarrow> string" where
  "piece_print pfx x = (case x of Text_piece s \<Rightarrow> s | Index_piece q c \<Rightarrow> pfx @ q @ [c])"

definition line_print :: "string \<Rightarrow> piece list \<Rightarrow> string" where
  "line_print pfx ps = concat (map (piece_print pfx) ps)"

text \<open>Texts do not touch and are free of the first character of the prefix; an index label is not a qualifier and
  does not start the name of a rule.\<close>

fun line_ok :: "'u tokenizer \<Rightarrow> piece list \<Rightarrow> bool" where
  "line_ok tz [] = True"
| "line_ok tz (Text_piece s # ps) =
     (s \<noteq> [] \<and> hd (tz_prefix tz) \<notin> set s \<and> (case ps of Text_piece t # qs \<Rightarrow> False | _ \<Rightarrow> True) \<and> line_ok tz ps)"
| "line_ok tz (Index_piece q c # ps) =
     (set q \<subseteq> {CHR ''^'', CHR ''_''} \<and> c \<noteq> CHR ''^'' \<and> c \<noteq> CHR ''_''
      \<and> (let r = q @ c # line_print (tz_prefix tz) ps in 2 \<le> length r \<longrightarrow> \<not> starts_name tz (take 2 r)) \<and> line_ok tz ps)"

text \<open>The literal that is recorded, with the variance the model asks for.\<close>

definition checked_literal :: "'u tokenizer \<Rightarrow> char \<Rightarrow> variance \<Rightarrow> nat \<times> nat \<Rightarrow> index_literal" where
  "checked_literal tz c v ctx = \<lparr>il_idx = new_index tz c, il_ctx = ctx,
     il_var = (if identify_index c = parameter \<or> tz_model tz = canonical_model then no_variance
               else if v = no_variance then contravariant else v)\<rparr>"

definition piece_token :: "'u tokenizer \<Rightarrow> nat \<Rightarrow> piece \<Rightarrow> 'u token" where
  "piece_token tz p x =
     (case x of
        Text_piece s \<Rightarrow> text_token s (p, p + length s)
      | Index_piece q c \<Rightarrow>
          (let ctx = (p + length (tz_prefix tz), p + length (tz_prefix tz) + length q + 1)
           in Index_token (index_literal_token_new (checked_literal tz c (qualifier_variance q) ctx) ctx)))"

primrec line_tokens :: "'u tokenizer \<Rightarrow> nat \<Rightarrow> piece list \<Rightarrow> 'u token list" where
  "line_tokens tz p [] = []"
| "line_tokens tz p (x # xs) = piece_token tz p x # line_tokens tz (p + length (piece_print (tz_prefix tz) x)) xs"

definition line_labels :: "piece list \<Rightarrow> string" where
  "line_labels ps = concat (map (\<lambda>x. case x of Text_piece s \<Rightarrow> [] | Index_piece q c \<Rightarrow> [c]) ps)"

text \<open>The labels in the order in which they first occur.\<close>

definition add_new :: "'a list \<Rightarrow> 'a \<Rightarrow> 'a list" where
  "add_new xs x = (if x \<in> set xs then xs else xs @ [x])"

section \<open>Tokenization of lines\<close>

text \<open>Only diagnostics were added to a world.\<close>

abbreviation logs_only :: "'u world \<Rightarrow> 'u world \<Rightarrow> bool" where
  "logs_only w w' \<equiv> w_user w' = w_user w \<and> w_enabled w' = w_enabled w"

lemma new_index_inj: "new_index tz c = new_index tz d \<longleftrightarrow> c = d"
  by (metis new_index_label)

lemma logA_enabled [simp]: "w_enabled (logA sev m x ctx w) = w_enabled w"
  by (simp add: logA_def)

lemma declare_index_spec:
  assumes "db_wf tz (tl_db T)"
  shows "\<exists>d w'. declare_index tz c v ctx (T, w)
      = (Inr (checked_literal tz c v ctx), (T\<lparr>tl_db := d, tl_decls := tl_decls T @ [checked_literal tz c v ctx]\<rparr>, w'))
    \<and> db_wf tz d \<and> idb_list d = add_new (idb_list (tl_db T)) (new_index tz c) \<and> logs_only w w'"
proof -
  obtain d where d: "add_index tz c (T, w) = (Inr (new_index tz c), (T\<lparr>tl_db := d\<rparr>, w))" "db_wf tz d"
      "idb_list d = add_new (idb_list (tl_db T)) (new_index tz c)"
    using add_index_spec [OF assms, of c w] by (auto simp: add_new_def)
  let ?l = "\<lparr>il_idx = new_index tz c, il_ctx = ctx, il_var = v\<rparr>"
  have cl: "literal_class ?l = identify_index c"
    by (simp add: literal_class_def new_index_def abstract_index_new_def abstract_index_of_class_def)
  have "\<exists>w1. validate_index_properties tz ?l w = (checked_literal tz c v ctx, w1) \<and> logs_only w w1"
    by (simp add: validate_index_properties_def cl checked_literal_def)
  then obtain w1 where w1: "validate_index_properties tz ?l w = (checked_literal tz c v ctx, w1)" "logs_only w w1"
    by blast
  have "logs_only w1 (validate_index_literal tz l w1)" for l
    by (simp add: validate_index_literal_def split: option.split)
  then show ?thesis using d w1
    by - (rule exI [of _ d], rule exI [of _ "validate_index_literal tz (checked_literal tz c v ctx) w1"],
        simp add: declare_index_def bindA_def)
qed

lemma make_index_literal_spec:
  assumes "db_wf tz (tl_db T)" and "drop p inp = q @ c # r" and "set q \<subseteq> {CHR ''^'', CHR ''_''}"
    and "c \<noteq> CHR ''^''" "c \<noteq> CHR ''_''"
  shows "\<exists>d ls w'. make_index_literal tz inp p (T, w)
      = (Inr (Some (Index_token (index_literal_token_new (checked_literal tz c (qualifier_variance q) (p, p + length q + 1))
              (p, p + length q + 1))), p + length q + 1), (T\<lparr>tl_db := d, tl_decls := ls\<rparr>, w'))
    \<and> db_wf tz d \<and> idb_list d = add_new (idb_list (tl_db T)) (new_index tz c) \<and> logs_only w w'"
proof -
  have sk: "skip_while (\<lambda>c. c = CHR ''^'' \<or> c = CHR ''_'') inp p = p + length q"
    using assms(3-5) by (intro skip_while_drop [OF assms(2)]) (auto simp: list_all_iff)
  have at: "p + length q < length inp" "inp ! (p + length q) = c"
    using drop_nonempty [OF drop_drop_eq [OF assms(2)]] by simp_all
  let ?l = "checked_literal tz c (qualifier_variance q) (p, Suc (p + length q))"
  obtain d w' where d: "declare_index tz c (qualifier_variance q) (p, Suc (p + length q)) (T, w)
      = (Inr ?l, (T\<lparr>tl_db := d, tl_decls := tl_decls T @ [?l]\<rparr>, w'))" "db_wf tz d"
      "idb_list d = add_new (idb_list (tl_db T)) (new_index tz c)" "logs_only w w'"
    using declare_index_spec [OF assms(1), of c "qualifier_variance q" "(p, Suc (p + length q))" w] by blast
  then show ?thesis using at slice_drop [OF assms(2)]
    by - (rule exI [of _ d], rule exI [of _ "tl_decls T @ [?l]"], rule exI [of _ w'],
        simp add: make_index_literal_def Let_def sk bindA_def returnA_def)
qed

lemma match_index_piece:
  assumes "drop p inp = q @ c # r" and "2 \<le> length (q @ c # r) \<longrightarrow> \<not> starts_name tz (take 2 (q @ c # r))"
  shows "match_macro_or_index tz inp p = make_index_literal tz inp p"
proof -
  have "\<not> (p + 1 < length inp \<and> any_match tz [inp ! p, inp ! (p + 1)])"
  proof
    assume a: "p + 1 < length inp \<and> any_match tz [inp ! p, inp ! (p + 1)]"
    then have d: "drop p inp = inp ! p # inp ! (p + 1) # drop (p + 2) inp" by (simp add: Cons_nth_drop_Suc)
    have "2 \<le> length (drop p inp)" "take 2 (drop p inp) = [inp ! p, inp ! (p + 1)]" by (simp_all only: d) simp_all
    with assms a show False by (simp add: any_match_iff)
  qed
  then show ?thesis by (simp add: match_macro_or_index_def)
qed

lemma next_token_text:
  assumes "drop p inp = s @ r" and "s \<noteq> []" and "tz_prefix tz \<noteq> []" and "hd (tz_prefix tz) \<notin> set s"
    and "r = [] \<or> hd r = hd (tz_prefix tz)"
  shows "next_token tz inp p = returnA (Some (text_token s (p, p + length s)), p + length s)"
proof -
  obtain y ys where s: "s = y # ys" using assms(2) by (cases s) auto
  have d: "drop p inp = y # (ys @ r)" using assms(1) s by simp
  note d1 = drop_Suc_eq [OF d]
  have pfx: "char_at (tz_prefix tz) 0 = hd (tz_prefix tz)" using assms(3) by (simp add: char_at_def hd_conv_nth)
  have "skip_while (\<lambda>c. c \<noteq> hd (tz_prefix tz)) inp (Suc p) = Suc p + length ys"
    using assms(4,5) s by (intro skip_while_drop [OF d1]) (auto simp: list_all_iff)
  moreover have "inp ! p = y" "inp ! p \<noteq> hd (tz_prefix tz)" using drop_nonempty [OF d] assms(4) s by auto
  ultimately show ?thesis using s pfx slice_drop [OF d1] char_at_drop [OF d]
    by (simp add: next_token_def match_string_literal_def Let_def)
qed

lemma next_token_index:
  assumes "drop p inp = tz_prefix tz @ q @ c # r" and "tz_prefix tz \<noteq> []"
    and "2 \<le> length (q @ c # r) \<longrightarrow> \<not> starts_name tz (take 2 (q @ c # r))"
  shows "next_token tz inp p = make_index_literal tz inp (p + length (tz_prefix tz))"
proof -
  obtain y ys where y: "tz_prefix tz = y # ys" using assms(2) by (cases "tz_prefix tz") auto
  have "inp ! p = y" using drop_nonempty [of p inp y] assms(1) y by simp
  moreover have "check_match_prefix inp p (tz_prefix tz)" using assms(1) by (simp add: check_match_prefix_def is_prefix_iff)
  moreover have "match_macro_or_index tz inp (p + length (tz_prefix tz)) = make_index_literal tz inp (p + length (tz_prefix tz))"
    by (rule match_index_piece [OF drop_drop_eq [OF assms(1)] assms(3)])
  ultimately show ?thesis using y by (simp add: next_token_def char_at_def)
qed

lemma line_after_text:
  assumes "tz_prefix tz \<noteq> []" and "line_ok tz (Text_piece s # ps)"
  shows "line_print (tz_prefix tz) ps = [] \<or> hd (line_print (tz_prefix tz) ps) = hd (tz_prefix tz)"
proof (cases ps)
  case (Cons y ys)
  then obtain q c where "y = Index_piece q c" using assms(2) by (cases y) auto
  then show ?thesis using Cons assms(1) by (simp add: line_print_def piece_print_def)
qed (simp add: line_print_def)

definition same_policy :: "'u token_list \<Rightarrow> 'u token_list \<Rightarrow> bool" where
  "same_policy T T' \<longleftrightarrow> tl_force T' = tl_force T \<and> tl_prevent T' = tl_prevent T"

lemma line_tokenized:
  assumes "tz_prefix tz \<noteq> []" and "line_ok tz ps" and "drop p inp = line_print (tz_prefix tz) ps" and "db_wf tz (tl_db T)"
  shows "\<exists>T' w'. tokenize_loop tz inp p (T, w) = (Inr (), (T', w')) \<and> same_policy T T'
    \<and> tl_tokens T' = tl_tokens T @ line_tokens tz p ps \<and> db_wf tz (tl_db T')
    \<and> idb_list (tl_db T') = foldl add_new (idb_list (tl_db T)) (map (new_index tz) (line_labels ps))
    \<and> logs_only w w'"
  using assms
proof (induction ps arbitrary: p T w)
  case Nil
  then have "\<not> p < length inp" by (simp add: line_print_def)
  then show ?case using Nil by (simp add: tokenize_loop.simps same_policy_def line_labels_def)
next
  case (Cons x ps)
  have d: "drop p inp = piece_print (tz_prefix tz) x @ line_print (tz_prefix tz) ps"
    using Cons.prems(3) by (simp add: line_print_def)
  have d1: "drop (p + length (piece_print (tz_prefix tz) x)) inp = line_print (tz_prefix tz) ps" by (rule drop_drop_eq [OF d])
  have ok: "line_ok tz ps" using Cons.prems(2) by (cases x) simp_all
  have "piece_print (tz_prefix tz) x \<noteq> []" using Cons.prems(1,2) by (cases x) (auto simp: piece_print_def)
  then have lt: "p < length inp" using d by (metis Nil_is_append_conv drop_eq_Nil2 linorder_not_less)
  obtain T1 d' ls w1 where n: "next_token tz inp p (T, w)
        = (Inr (Some (piece_token tz p x), p + length (piece_print (tz_prefix tz) x)), (T1, w1))"
      "T1 = T\<lparr>tl_db := d', tl_decls := ls\<rparr>" "db_wf tz d'" "logs_only w w1"
      "idb_list d' = foldl add_new (idb_list (tl_db T)) (map (new_index tz) (line_labels [x]))"
  proof (cases x)
    case (Text_piece s)
    have hd: "line_print (tz_prefix tz) ps = [] \<or> hd (line_print (tz_prefix tz) ps) = hd (tz_prefix tz)"
      using line_after_text [OF Cons.prems(1)] Cons.prems(2) Text_piece by blast
    have nt: "next_token tz inp p = returnA (Some (text_token s (p, p + length s)), p + length s)"
      by (rule next_token_text [OF _ _ Cons.prems(1) _ hd]) (use d Cons.prems(2) Text_piece in \<open>auto simp: piece_print_def\<close>)
    have "T = T\<lparr>tl_db := tl_db T, tl_decls := tl_decls T\<rparr>" by simp
    then show ?thesis using that [of T w "tl_decls T" "tl_db T"] Text_piece Cons.prems(4)
      by (simp add: nt piece_token_def piece_print_def line_labels_def returnA_def)
  next
    case (Index_piece q c)
    have d2: "drop p inp = tz_prefix tz @ q @ c # line_print (tz_prefix tz) ps" using d Index_piece by (simp add: piece_print_def)
    have nt: "next_token tz inp p = make_index_literal tz inp (p + length (tz_prefix tz))"
      by (rule next_token_index [OF d2 Cons.prems(1)]) (use Cons.prems(2) Index_piece in \<open>simp add: Let_def\<close>)
    from make_index_literal_spec [OF Cons.prems(4) drop_drop_eq [OF d2], of w] Cons.prems(2) Index_piece
    obtain d' ls w' where "make_index_literal tz inp (p + length (tz_prefix tz)) (T, w)
      = (Inr (Some (piece_token tz p x), p + length (tz_prefix tz) + length q + 1), (T\<lparr>tl_db := d', tl_decls := ls\<rparr>, w'))"
      "db_wf tz d'" "idb_list d' = add_new (idb_list (tl_db T)) (new_index tz c)" "logs_only w w'"
      by (auto simp: piece_token_def Let_def)
    then show ?thesis using that [of "T\<lparr>tl_db := d', tl_decls := ls\<rparr>" w' ls d'] nt Index_piece
      by (simp add: piece_print_def line_labels_def)
  qed
  let ?T2 = "T1\<lparr>tl_tokens := tl_tokens T1 @ [piece_token tz p x]\<rparr>"
  have step: "tokenize_loop tz inp p (T, w) = tokenize_loop tz inp (p + length (piece_print (tz_prefix tz) x)) (?T2, w1)"
    using lt n(1) by (subst tokenize_loop.simps) (simp add: bindA_def push_token_def updT_def)
  have lab: "line_labels (x # ps) = line_labels [x] @ line_labels ps" by (simp add: line_labels_def)
  have "db_wf tz (tl_db ?T2)" using n(2,3) by simp
  from Cons.IH [OF Cons.prems(1) ok d1 this, of w1] obtain T' w' where
    "tokenize_loop tz inp (p + length (piece_print (tz_prefix tz) x)) (?T2, w1) = (Inr (), (T', w'))" "same_policy ?T2 T'"
    "tl_tokens T' = tl_tokens ?T2 @ line_tokens tz (p + length (piece_print (tz_prefix tz) x)) ps" "db_wf tz (tl_db T')"
    "idb_list (tl_db T') = foldl add_new (idb_list (tl_db ?T2)) (map (new_index tz) (line_labels ps))" "logs_only w1 w'"
    by blast
  then show ?case using step n(2,4,5) by (simp add: lab same_policy_def)
qed

section \<open>Evaluation of lines\<close>

definition line_subst :: "(char \<Rightarrow> string) \<Rightarrow> piece list \<Rightarrow> string" where
  "line_subst g ps = concat (map (\<lambda>x. case x of Text_piece s \<Rightarrow> s | Index_piece q c \<Rightarrow> g c) ps)"

lemma on_index_simps [simp]:
  "on_index f (text_token s ctx) = None"
  "on_index f (Index_token x) = Some (\<lambda>w. case f x of (x', e) \<Rightarrow> (Index_token x', e, w))"
  by (simp_all add: on_index_def text_token_def)

lemma on_macro_simps [simp]: "on_macro h (text_token s ctx) = None" "on_macro h (Index_token x) = None"
  by (simp_all add: on_macro_def text_token_def)

lemma token_string_simps [simp]:
  "token_string (text_token s ctx) = s" "token_string (Index_token x) = tb_conversion (il_base x)"
  by (simp_all add: token_string_def text_token_def token_base_new_def)

lemma evaluate_pass_none:
  "(\<And>t. t \<in> set ts \<Longrightarrow> f t = None) \<Longrightarrow> evaluate_pass f ts n w = (Inr n, ts, w)"
  by (induction ts) auto

lemma evaluate_pass_line:
  assumes "\<And>c v ctx ctx'. c \<in> set (line_labels ps) \<Longrightarrow>
    \<exists>x. f (index_literal_token_new (checked_literal tz c v ctx) ctx') = (x, None) \<and> tb_conversion (il_base x) = g c"
  shows "\<exists>ts. evaluate_pass (on_index f) (line_tokens tz p ps) n w = (Inr (n + of_nat (length (line_labels ps))), ts, w)
    \<and> concat (map token_string ts) = line_subst g ps \<and> (\<forall>t \<in> set ts. on_macro h t = None)"
  using assms
proof (induction ps arbitrary: p n)
  case Nil
  then show ?case by (simp add: line_labels_def line_subst_def)
next
  case (Cons x ps)
  let ?p = "p + length (piece_print (tz_prefix tz) x)"
  have IH: "\<exists>ts. evaluate_pass (on_index f) (line_tokens tz ?p ps) m w = (Inr (m + of_nat (length (line_labels ps))), ts, w)
    \<and> concat (map token_string ts) = line_subst g ps \<and> (\<forall>t \<in> set ts. on_macro h t = None)" for m
    by (rule Cons.IH) (use Cons.prems in \<open>simp add: line_labels_def\<close>)
  show ?case
  proof (cases x)
    case (Text_piece s)
    from IH [of n] obtain ts where ts: "evaluate_pass (on_index f) (line_tokens tz ?p ps) n w
        = (Inr (n + of_nat (length (line_labels ps))), ts, w)" "concat (map token_string ts) = line_subst g ps"
        "\<forall>t \<in> set ts. on_macro h t = None" by blast
    show ?thesis using ts Text_piece
      by (intro exI [of _ "text_token s (p, p + length s) # ts"])
        (simp add: piece_token_def line_labels_def line_subst_def)
  next
    case (Index_piece q c)
    let ?c1 = "(p + length (tz_prefix tz), p + length (tz_prefix tz) + length q + 1)"
    obtain y where y: "f (index_literal_token_new (checked_literal tz c (qualifier_variance q) ?c1) ?c1) = (y, None)"
        "tb_conversion (il_base y) = g c"
      using Cons.prems [of c "qualifier_variance q" ?c1 ?c1] Index_piece by (auto simp: line_labels_def)
    from IH [of "n + 1"] obtain ts where ts: "evaluate_pass (on_index f) (line_tokens tz ?p ps) (n + 1) w
        = (Inr (n + 1 + of_nat (length (line_labels ps))), ts, w)" "concat (map token_string ts) = line_subst g ps"
        "\<forall>t \<in> set ts. on_macro h t = None" by blast
    show ?thesis using ts y Index_piece
      by (intro exI [of _ "Index_token y # ts"])
        (simp add: piece_token_def Let_def line_labels_def line_subst_def)
  qed
qed

lemma run_line:
  assumes "tl_tokens T = line_tokens tz p ps"
    and "\<And>c v ctx ctx'. c \<in> set (line_labels ps) \<Longrightarrow>
    \<exists>x. f (index_literal_token_new (checked_literal tz c v ctx) ctx') = (x, None) \<and> tb_conversion (il_base x) = g c"
  shows "\<exists>ts. bindA (run_pass (on_index f) 0) (\<lambda>n. run_pass (on_macro h) n) (T, w)
    = (Inr (of_nat (length (line_labels ps))), (T\<lparr>tl_tokens := ts\<rparr>, w)) \<and> token_list_string (T\<lparr>tl_tokens := ts\<rparr>) = line_subst g ps"
proof -
  obtain ts where ts: "evaluate_pass (on_index f) (line_tokens tz p ps) 0 w = (Inr (of_nat (length (line_labels ps))), ts, w)"
    "concat (map token_string ts) = line_subst g ps" "\<forall>t \<in> set ts. on_macro h t = None"
    using evaluate_pass_line [of ps f tz g p 0 w h, OF assms(2)] by auto
  have "evaluate_pass (on_macro h) ts n w = (Inr n, ts, w)" for n using ts(3) by (intro evaluate_pass_none) blast
  then show ?thesis using assms(1) ts(1,2)
    by (intro exI [of _ ts]) (simp add: bindA_def run_pass_def token_list_string_def)
qed

lemma add_new_labels:
  "foldl add_new (map (new_index tz) xs) (map (new_index tz) cs) = map (new_index tz) (foldl add_new xs cs)"
proof (induction cs arbitrary: xs)
  case (Cons c cs)
  have "add_new (map (new_index tz) xs) (new_index tz c) = map (new_index tz) (add_new xs c)"
    by (auto simp: add_new_def new_index_inj)
  then show ?case using Cons by simp
qed simp

lemma line_token_list:
  assumes "tz_prefix tz \<noteq> []" and "line_ok tz ps"
  shows "\<exists>T w'. token_list_new tz (line_print (tz_prefix tz) ps) w = (Inr T, w') \<and> tl_tokens T = line_tokens tz 0 ps
    \<and> idb_list (tl_db T) = map (new_index tz) (foldl add_new [] (line_labels ps))
    \<and> db_wf tz (tl_db T) \<and> unroll_status T = allow_unroll \<and> logs_only w w'"
proof -
  have e: "db_wf tz (tl_db token_list_empty)" "idb_list (tl_db token_list_empty) = []"
    by (simp_all add: token_list_empty_def) (simp add: idb_list_def idb_empty_def)
  obtain T w' where t: "tokenize_loop tz (line_print (tz_prefix tz) ps) 0 (token_list_empty, w) = (Inr (), (T, w'))"
    "same_policy token_list_empty T" "tl_tokens T = line_tokens tz 0 ps"
    "idb_list (tl_db T) = foldl add_new [] (map (new_index tz) (line_labels ps))" "logs_only w w'" "db_wf tz (tl_db T)"
    using line_tokenized [OF assms, of 0 "line_print (tz_prefix tz) ps" token_list_empty w] e by (auto simp: token_list_empty_def)
  have f: "tl_force T = []" "tl_prevent T = []" using t(2) by (simp_all add: same_policy_def token_list_empty_def)
  then have "token_list_new tz (line_print (tz_prefix tz) ps) w = (Inr T, w')"
    using t(1) by (simp add: token_list_new_def bindA_def check_unroll_def)
  then show ?thesis using t(3-6) f add_new_labels [of tz "[]" "line_labels ps"] by (auto simp: unroll_status_def)
qed

text \<open>C31: Evaluating a line replaces its indices and nothing else. A line of text and index literals, in which no label
  starts the name of a rule, is tokenized without an exception; its index database lists the indices of its labels in
  the order in which they first occur. Unrolled on an
  assignment of these indices, the line becomes the text with every
  literal replaced by the value of its index, and rolled up it becomes the text with every literal replaced by its loop
  variable; both
  count the literals.\<close>

theorem line_substitution:
  assumes "tz_prefix tz \<noteq> []" and "line_ok tz ps"
    and "\<And>c. c \<in> set (line_labels ps) \<Longrightarrow> idb_deref a (idb_find c a) = Inr (vals c)"
  shows "\<exists>T w' T1 T2. token_list_new tz (line_print (tz_prefix tz) ps) w = (Inr T, w')
    \<and> map ai_label (idb_list (tl_db T)) = foldl add_new [] (line_labels ps)
    \<and> evaluate_unroll a (T, w') = (Inr (of_nat (length (line_labels ps))), (T1, w'))
    \<and> token_list_string T1 = line_subst (\<lambda>c. dec_string (unat (iv_value (vals c)))) ps
    \<and> evaluate_roll (T, w') = (Inr (of_nat (length (line_labels ps))), (T2, w'))
    \<and> token_list_string T2 = line_subst (\<lambda>c. CHR ''_'' # [c]) ps"
proof -
  obtain T w' where T: "token_list_new tz (line_print (tz_prefix tz) ps) w = (Inr T, w')" "tl_tokens T = line_tokens tz 0 ps"
    "idb_list (tl_db T) = map (new_index tz) (foldl add_new [] (line_labels ps))"
    using line_token_list [OF assms(1,2), of w] by blast
  have lit: "il_index (index_literal_token_new l ctx) = l" for l ctx by (simp add: index_literal_token_new_def)
  have lab: "literal_label (checked_literal tz c v ctx) = c" for c v ctx by (simp add: literal_label_def checked_literal_def)
  have u: "\<exists>x. index_token_evaluate a (index_literal_token_new (checked_literal tz c v ctx) ctx') = (x, None)
      \<and> tb_conversion (il_base x) = dec_string (unat (iv_value (vals c)))" if c: "c \<in> set (line_labels ps)" for c v ctx ctx'
  proof -
    obtain it where "idb_find c a = Some it" using assms(3) [OF c] by (cases "idb_find c a") (auto simp: idb_deref_def)
    then show ?thesis using assms(3) [OF c] by (simp add: index_token_evaluate_def lit lab il_convert_def)
  qed
  have lv: "get_loop_variable (new_index tz c) = CHR ''_'' # [c]" for c
    by (simp add: get_loop_variable_def new_index_def abstract_index_new_def abstract_index_of_class_def)
  have r: "\<exists>x. (index_token_evaluate_roll (index_literal_token_new (checked_literal tz c v ctx) ctx'), None) = (x, None)
      \<and> tb_conversion (il_base x) = CHR ''_'' # [c]" for c v ctx ctx'
    by (simp add: index_token_evaluate_roll_def lit il_convert_def checked_literal_def lv)
  have "map ai_label (idb_list (tl_db T)) = foldl add_new [] (line_labels ps)" using T(3) by (simp add: comp_def)
  moreover obtain T1 where "evaluate_unroll a (T, w') = (Inr (of_nat (length (line_labels ps))), (T1, w'))"
      "token_list_string T1 = line_subst (\<lambda>c. dec_string (unat (iv_value (vals c)))) ps"
    using run_line [OF T(2), where f = "index_token_evaluate a" and g = "\<lambda>c. dec_string (unat (iv_value (vals c)))"
        and h = "macro_token_evaluate_unroll a" and w = w', OF u] unfolding evaluate_unroll_def by blast
  moreover obtain T2 where "evaluate_roll (T, w') = (Inr (of_nat (length (line_labels ps))), (T2, w'))"
      "token_list_string T2 = line_subst (\<lambda>c. CHR ''_'' # [c]) ps"
    using run_line [OF T(2), where f = "\<lambda>x. (index_token_evaluate_roll x, None)" and g = "\<lambda>c. CHR ''_'' # [c]"
        and h = macro_token_evaluate_roll and w = w', OF r] unfolding evaluate_roll_def by blast
  ultimately show ?thesis using T(1) by blast
qed

definition example_assignment :: indices_assignment where
  "example_assignment = of_items iv_label
     [\<lparr>iv_abstract = new_index example_tokenizer (CHR ''i''), iv_value = 1\<rparr>,
      \<lparr>iv_abstract = new_index example_tokenizer (CHR ''j''), iv_value = 0\<rparr>]"

theorem line_substitution_witness:
  "\<exists>T w' T1 T2. token_list_new example_tokenizer ''x[$i]+$j*$i'' \<lparr>w_log = [], w_enabled = True, w_user = ()\<rparr> = (Inr T, w')
    \<and> map ai_label (idb_list (tl_db T)) = ''ij''
    \<and> evaluate_unroll example_assignment (T, w') = (Inr 3, (T1, w')) \<and> token_list_string T1 = ''x[1]+0*1''
    \<and> evaluate_roll (T, w') = (Inr 3, (T2, w')) \<and> token_list_string T2 = ''x[_i]+_j*_i''"
proof -
  let ?ps = "[Text_piece ''x['', Index_piece [] (CHR ''i''), Text_piece '']+'', Index_piece [] (CHR ''j''), Text_piece ''*'',
      Index_piece [] (CHR ''i'')]"
  let ?v = "\<lambda>c. \<lparr>iv_abstract = new_index example_tokenizer c, iv_value = (if c = CHR ''i'' then 1 else 0)\<rparr>"
  have pfx: "tz_prefix example_tokenizer = ''$''" by (simp add: example_tokenizer_def)
  have names: "rule_names example_tokenizer = []" by (simp add: rule_names_def example_tokenizer_def)
  have ok: "line_ok example_tokenizer ?ps" by (simp add: pfx starts_name_def names Let_def)
  have a: "idb_deref example_assignment (idb_find c example_assignment) = Inr (?v c)" if "c \<in> set (line_labels ?ps)" for c
    using that by (auto simp: line_labels_def example_assignment_def of_items_def idb_deref_def idb_find_def iv_label_def)
  have "dec_string (Suc 0) = ''1''" "dec_string 0 = ''0''" by code_simp+
  then show ?thesis
    using line_substitution [OF _ ok a, of "\<lparr>w_log = [], w_enabled = True, w_user = ()\<rparr>"]
    by (simp add: pfx line_print_def piece_print_def line_labels_def line_subst_def add_new_def)
qed

end
