(* ===== verification/Printers.thy ===== *)
theory Printers
  imports Indices
begin

text \<open>
  Output to the target language: \<open>utilities/to_printable.cpp\<close>, the interface
  \<open>language_concepts/language_printer.h\<close> and its implementation for C-like languages,
  \<open>languages/shared/C_style_printer.{h,cpp}\<close>, which the printers of C++, CUDA and OpenCL inherit unchanged.
  Expressions of the symbolic algebra library GiNaC are a type parameter, with the two ways the library prints
  them as arguments.
\<close>

section \<open>Escaping\<close>

definition hexdig :: "nat \<Rightarrow> char" where
  "hexdig n = ''0123456789ABCDEF'' ! n"

text \<open>\<open>char\<close> is signed: for a byte of 128 or more both comparisons with printable characters fail, and
  \<open>hexdig[c >> 4]\<close> reads before the start of the table.\<close>

definition printable_char :: "bool \<Rightarrow> bool \<Rightarrow> char \<Rightarrow> exn + string" where
  "printable_char quote allow_newlines c =
     (let n = (of_char c :: nat) in
      if \<not> quote \<or> (32 \<le> n \<and> n \<le> 126 \<and> c \<noteq> CHR 0x5C \<and> c \<noteq> DQUOTE) \<or> (c = NL \<and> allow_newlines) then Inr [c]
      else if c = DQUOTE then Inr [CHR 0x5C, DQUOTE]
      else if c = CHR 0x5C then Inr [CHR 0x5C, CHR 0x5C]
      else if c = TAB then Inr [CHR 0x5C, CHR ''t'']
      else if c = CHR 0x0D then Inr [CHR 0x5C, CHR ''r'']
      else if c = NL then Inr [CHR 0x5C, CHR ''n'']
      else if 128 \<le> n then Inl Undefined
      else Inr [CHR 0x5C, CHR ''x'', hexdig (n div 16), hexdig (n mod 16)])"

fun printable_chars :: "bool \<Rightarrow> bool \<Rightarrow> string \<Rightarrow> exn + string" where
  "printable_chars quote allow_newlines [] = Inr []"
| "printable_chars quote allow_newlines (c # cs) =
     bindE (printable_char quote allow_newlines c) (\<lambda>x.
       bindE (printable_chars quote allow_newlines cs) (\<lambda>xs. Inr (x @ xs)))"

definition to_printable :: "bool \<Rightarrow> bool \<Rightarrow> string \<Rightarrow> exn + string" where
  "to_printable quote allow_newlines s =
     bindE (printable_chars quote allow_newlines s) (\<lambda>r.
       Inr ((if quote then [DQUOTE] else []) @ r @ (if quote then [DQUOTE] else [])))"

section \<open>The printer of C-like languages\<close>

record C_style_printer =
  cp_comment_prefix :: string
  cp_comment_postfix :: string
  cp_comment_pad :: string
  cp_open_brace :: string
  cp_close_brace :: string
  cp_brace_indent :: u32
  cp_block_indent :: u32
  cp_array_open :: string
  cp_array_close :: string
  cp_function_open :: string
  cp_argument_sep :: string
  cp_function_close :: string
  cp_for_keyword :: string
  cp_loop_type :: string
  cp_initializer_open :: string
  cp_initializer_close :: string
  cp_initializer_sep :: string
  cp_return_keyword :: string
  cp_if_keyword :: string
  cp_else_keyword :: string
  cp_lambda_capture :: string
  cp_lambda_argument_type :: string
  cp_lambda_return :: string
  cp_semicolon :: string

text \<open>The defaults, with which the printers of C++, CUDA and OpenCL are built.\<close>

definition default_printer :: C_style_printer where
  "default_printer =
     \<lparr>cp_comment_prefix = ''//'', cp_comment_postfix = [], cp_comment_pad = '' '',
      cp_open_brace = ''{'', cp_close_brace = ''}'', cp_brace_indent = 1, cp_block_indent = 3,
      cp_array_open = ''['', cp_array_close = '']'',
      cp_function_open = ''('', cp_argument_sep = '','', cp_function_close = '')'',
      cp_for_keyword = ''for'', cp_loop_type = ''unsigned int'',
      cp_initializer_open = ''{'', cp_initializer_close = ''}'', cp_initializer_sep = '','',
      cp_return_keyword = ''return'', cp_if_keyword = ''if'', cp_else_keyword = ''else'',
      cp_lambda_capture = ''[&]'', cp_lambda_argument_type = ''unsigned int'', cp_lambda_return = ''->'',
      cp_semicolon = '';''\<rparr>"

definition print_comment :: "C_style_printer \<Rightarrow> string \<Rightarrow> string" where
  "print_comment p tag = cp_comment_prefix p @ cp_comment_pad p @ tag @ cp_comment_pad p @ cp_comment_postfix p"

definition start_block_delimiter :: "C_style_printer \<Rightarrow> string option" where
  "start_block_delimiter p = Some (cp_open_brace p)"

definition end_block_delimiter :: "C_style_printer \<Rightarrow> string option" where
  "end_block_delimiter p = Some (cp_close_brace p)"

definition u32_string :: "u32 \<Rightarrow> string" where
  "u32_string n = dec_string (unat n)"

definition for_loop :: "C_style_printer \<Rightarrow> string \<Rightarrow> u32 \<Rightarrow> u32 \<Rightarrow> string" where
  "for_loop p v lo hi =
     cp_for_keyword p @ ''('' @ cp_loop_type p @ '' '' @ v @ '' = '' @ u32_string lo @ ''; '' @ v @ '' < '' @ u32_string hi
     @ ''; ++'' @ v @ '')''"

text \<open>The loops that put a separator before every element but the first.\<close>

definition separated :: "string \<Rightarrow> string list \<Rightarrow> string" where
  "separated sep xs = (case xs of [] \<Rightarrow> [] | x # r \<Rightarrow> x @ concat (map (\<lambda>y. sep @ y) r))"

primrec printable_list :: "bool \<Rightarrow> string list \<Rightarrow> exn + string list" where
  "printable_list quote [] = Inr []"
| "printable_list quote (x # xs) =
     bindE (to_printable quote False x) (\<lambda>y. bindE (printable_list quote xs) (\<lambda>ys. Inr (y # ys)))"

definition initialization_list :: "C_style_printer \<Rightarrow> string list \<Rightarrow> bool \<Rightarrow> exn + string" where
  "initialization_list p xs quote =
     bindE (printable_list quote xs) (\<lambda>ys.
       Inr (cp_initializer_open p @ '' '' @ separated (cp_initializer_sep p @ '' '') ys @ '' '' @ cp_initializer_close p))"

definition lambda_invokation :: "C_style_printer \<Rightarrow> string \<Rightarrow> abstract_index_database \<Rightarrow> string" where
  "lambda_invokation p name indices =
     name @ cp_function_open p @ separated (cp_argument_sep p) (map get_loop_variable (idb_list indices))
     @ cp_function_close p"

definition open_lambda :: "C_style_printer \<Rightarrow> abstract_index_database \<Rightarrow> string \<Rightarrow> string" where
  "open_lambda p indices return_type =
     cp_lambda_capture p @ cp_function_open p
     @ separated (cp_argument_sep p @ '' '')
         (map (\<lambda>i. cp_lambda_argument_type p @ '' '' @ get_loop_variable i) (idb_list indices))
     @ cp_function_close p @ '' '' @ cp_lambda_return p @ '' '' @ return_type @ '' '' @ cp_open_brace p"

definition close_lambda :: "C_style_printer \<Rightarrow> string" where
  "close_lambda p = '' '' @ cp_close_brace p"

definition format_return :: "C_style_printer \<Rightarrow> string \<Rightarrow> string" where
  "format_return p expr = cp_return_keyword p @ '' '' @ expr @ cp_semicolon p"

text \<open>Conditions go through the stream operator of GiNaC, returned expressions through its C form.\<close>

definition format_return_ex :: "('e \<Rightarrow> string) \<Rightarrow> C_style_printer \<Rightarrow> 'e \<Rightarrow> string" where
  "format_return_ex csrc p expr = cp_return_keyword p @ '' '' @ csrc expr @ cp_semicolon p"

definition format_if_stmt :: "('e \<Rightarrow> string) \<Rightarrow> string \<Rightarrow> 'e list \<Rightarrow> string" where
  "format_if_stmt out kw conditions = kw @ ''('' @ separated '' && '' (map out conditions) @ '')''"

definition format_if :: "('e \<Rightarrow> string) \<Rightarrow> C_style_printer \<Rightarrow> 'e list \<Rightarrow> string" where
  "format_if out p conditions = format_if_stmt out (cp_if_keyword p) conditions"

definition format_elseif :: "('e \<Rightarrow> string) \<Rightarrow> C_style_printer \<Rightarrow> 'e list \<Rightarrow> string" where
  "format_elseif out p conditions = format_if_stmt out (cp_else_keyword p @ '' '' @ cp_if_keyword p) conditions"

definition format_else :: "('e \<Rightarrow> string) \<Rightarrow> C_style_printer \<Rightarrow> 'e \<Rightarrow> string" where
  "format_else csrc p expr = cp_else_keyword p @ '' '' @ format_return_ex csrc p expr"

definition format_array_subscript :: "C_style_printer \<Rightarrow> string \<Rightarrow> string list \<Rightarrow> string option \<Rightarrow> string" where
  "format_array_subscript p name args flatten =
     name @ cp_array_open p
     @ (case flatten of None \<Rightarrow> [] | Some f \<Rightarrow> f @ cp_function_open p)
     @ separated '','' args
     @ (case flatten of None \<Rightarrow> [] | Some f \<Rightarrow> cp_function_close p)
     @ cp_array_close p"

end
