(* ===== verification/Macro_Agent.thy ===== *)
theory Macro_Agent
  imports Token_List_Lines Printers
begin

text \<open>
  The macro agent, \<open>macro_substitution/macro.{h,cpp}\<close>: a line of a template is split at an assignment marker,
  both sides are tokenized, the unrolling policy is applied, and the line is written out once for every
  assignment of its indices or as loops over them.
\<close>

section \<open>Splitting a line\<close>

datatype split_type = no_split | sum_split | sum_equal_split

record split_string =
  ss_left :: string
  ss_right :: string
  ss_point :: "nat option"
  ss_comma :: bool
  ss_semicolon :: bool
  ss_type :: split_type

text \<open>\<open>boost::algorithm::trim_left\<close> and \<open>trim_right\<close>.\<close>

definition trim_left :: "string \<Rightarrow> string" where
  "trim_left s = dropWhile isspace s"

definition trim_right :: "string \<Rightarrow> string" where
  "trim_right s = rev (dropWhile isspace (rev s))"

text \<open>Removes a character from the end, if it is there.\<close>

definition pop_last :: "char \<Rightarrow> string \<Rightarrow> string \<times> bool" where
  "pop_last c s = (if s \<noteq> [] \<and> last s = c then (butlast s, True) else (s, False))"

definition split_line :: "string \<Rightarrow> string \<Rightarrow> string \<Rightarrow> split_string" where
  "split_line line split_equal split_sum_equal =
     (let (l, r, p, t) =
        (case str_find split_equal line 0 of
           Some k \<Rightarrow> (take k line, drop (k + length split_equal) line, Some k, sum_split)
         | None \<Rightarrow>
             (case str_find split_sum_equal line 0 of
                Some k \<Rightarrow> (take k line, drop (k + length split_sum_equal) line, Some k, sum_equal_split)
              | None \<Rightarrow> ([], line, None, no_split)));
          r1 = trim_right r;
          r2 = (if l \<noteq> [] then trim_left r1 else r1);
          (r3, semicolon) = pop_last (CHR '';'') r2;
          (r4, comma) = pop_last (CHR '','') r3
      in \<lparr>ss_left = l, ss_right = r4, ss_point = p, ss_comma = comma, ss_semicolon = semicolon, ss_type = t\<rparr>)"

section \<open>The agent\<close>

text \<open>What an agent is given: the payload of the token lists it makes, the markers, the settings and the printer
  of the package. The local rules, which directives inject while they are evaluated, are read off the world. The
  state is the depth of recursion, and the world with the switch of the output.\<close>

record 'u agent =
  ma_tokenizer :: "'u tokenizer"
  ma_local :: "'u world \<Rightarrow> 'u index_rule list"
  ma_split_equal :: string
  ma_split_sum_equal :: string
  ma_recursion_max :: u32
  ma_unroll_policy :: u32
  ma_fast :: bool
  ma_unroll_warnings :: bool
  ma_printer :: C_style_printer

text \<open>The check of the constructor is an assertion, so the adjustment after it counts only in release builds.\<close>

definition agent_new :: "'u agent \<Rightarrow> 'u agent \<times> u32" where
  "agent_new ag = (if ma_recursion_max ag = 0 then ag\<lparr>ma_recursion_max := 1\<rparr> else ag, 0)"

definition disable_output :: "'u world \<Rightarrow> 'u world" where
  "disable_output w = w\<lparr>w_enabled := False\<rparr>"

definition enable_output :: "'u world \<Rightarrow> 'u world" where
  "enable_output w = w\<lparr>w_enabled := True\<rparr>"

definition agent_tokenizer :: "'u agent \<Rightarrow> index_literal_database option \<Rightarrow> bool \<Rightarrow> 'u world \<Rightarrow> 'u tokenizer" where
  "agent_tokenizer ag db strict w =
     (ma_tokenizer ag)\<lparr>tz_local := ma_local ag w, tz_validation := db, tz_strict := strict\<rparr>"

definition agent_tokenize ::
  "'u agent \<Rightarrow> string \<Rightarrow> index_literal_database option \<Rightarrow> bool \<Rightarrow> ('u world, 'u token_list) act" where
  "agent_tokenize ag line db strict w = token_list_new (agent_tokenizer ag db strict w) line w"

subsection \<open>Validation\<close>

text \<open>The first occurrence of every label, in the order of the labels.\<close>

definition first_contexts :: "index_literal_list \<Rightarrow> (char \<times> (nat \<times> nat)) list" where
  "first_contexts decls =
     foldl (\<lambda>m l. if map_of m (literal_label l) = None then ordered_insert (literal_label l) (il_ctx l) m else m)
       [] decls"

definition count_label :: "char \<Rightarrow> index_literal_list \<Rightarrow> nat" where
  "count_label c decls = length (filter (\<lambda>l. literal_label l = c) decls)"

definition validate_RHS_count :: "index_literal_list \<Rightarrow> 'u world \<Rightarrow> 'u world" where
  "validate_RHS_count decls w =
     foldl (\<lambda>w (c, ctx). if count_label c decls = 1
                       then logA Sev_warn ''NOTIFY_RHS_INDEX_SINGLE_OCCURRENCE'' [] ctx w else w)
       w (first_contexts decls)"

text \<open>Only a label that occurs with a variance has an entry in the table of flags.\<close>

definition has_variance :: "char \<Rightarrow> variance \<Rightarrow> index_literal_list \<Rightarrow> bool" where
  "has_variance c v decls = list_ex (\<lambda>l. literal_label l = c \<and> il_var l = v) decls"

definition validate_RHS_variances :: "index_literal_list \<Rightarrow> 'u world \<Rightarrow> 'u world" where
  "validate_RHS_variances decls w =
     foldl (\<lambda>w (c, ctx).
         let co = has_variance c covariant decls; contra = has_variance c contravariant decls
         in if (co \<or> contra) \<and> (\<not> co \<or> \<not> contra)
            then logA Sev_warn ''NOTIFY_RHS_INDEX_SINGLE_VARIANCE'' [] ctx w else w)
       w (first_contexts decls)"

definition validate_RHS_indices :: "'u agent \<Rightarrow> 'u token_list \<Rightarrow> 'u token_list \<Rightarrow> 'u world \<Rightarrow> 'u world" where
  "validate_RHS_indices ag L R w =
     (let decls = filter (\<lambda>l. idb_find (literal_label l) (tl_db L) = None) (tl_decls R);
          w1 = validate_RHS_count decls w
      in if tz_model (ma_tokenizer ag) = nontrivial_metric then validate_RHS_variances decls w1 else w1)"

definition perform_tokenization :: "'u agent \<Rightarrow> split_string \<Rightarrow> ('u world, 'u token_list \<times> 'u token_list) act" where
  "perform_tokenization ag sp =
     bindA (agent_tokenize ag (ss_left sp) None False) (\<lambda>L w.
       let right = (\<lambda>vdb. bindA (agent_tokenize ag (ss_right sp) vdb False) (\<lambda>R w2.
             (Inr (L, R), if ss_type sp \<noteq> no_split then validate_RHS_indices ag L R w2 else w2)))
       in case to_database (tl_decls L) of
            Inr db \<Rightarrow> right (Some db) w
          | Inl (Duplicate_index l s f) \<Rightarrow> right None (logA Sev_error ''ERROR_LHS_INDEX_DUPLICATE'' [l] (s, f) w)
          | Inl e \<Rightarrow> (Inl e, w))"

text \<open>The place of the split in the line; a line without one has no place, which is the empty span.\<close>

definition split_point_context :: "'u agent \<Rightarrow> split_string \<Rightarrow> nat \<times> nat" where
  "split_point_context ag sp =
     (case (ss_type sp, ss_point sp) of
        (sum_split, Some p) \<Rightarrow> (p, p + length (ma_split_equal ag))
      | (sum_equal_split, Some p) \<Rightarrow> (p, p + length (ma_split_sum_equal ag))
      | _ \<Rightarrow> (0, 0))"

subsection \<open>The unrolling policy\<close>

definition notify_unroll_outcome :: "'u agent \<Rightarrow> 'u token_list \<Rightarrow> 'u token_list \<Rightarrow> 'u world \<Rightarrow> 'u world" where
  "notify_unroll_outcome ag L R w =
     (if \<not> ma_unroll_warnings ag then w
      else let RHS_only = (tl_tokens L = []);
               warn = (\<lambda>m ns w. foldl (\<lambda>w n. logA Sev_warn m [] (snd n) w) w ns)
           in warn (if RHS_only then ''NOTIFY_RULE_PREVENTS_UNROLL'' else ''NOTIFY_RHS_RULE_PREVENTS_UNROLL'') (tl_prevent R)
                (warn ''NOTIFY_LHS_RULE_PREVENTS_UNROLL'' (tl_prevent L)
                  (warn (if RHS_only then ''NOTIFY_RULE_FORCES_UNROLL'' else ''NOTIFY_RHS_RULE_FORCES_UNROLL'') (tl_force R)
                    (warn ''NOTIFY_LHS_RULE_FORCES_UNROLL'' (tl_force L) w))))"

definition apply_unroll_policy ::
  "'u agent \<Rightarrow> 'u token_list \<Rightarrow> 'u token_list \<Rightarrow> assignment_set \<Rightarrow> assignment_set \<Rightarrow> nat \<times> nat \<Rightarrow> 'u world \<Rightarrow> bool \<times> 'u world" where
  "apply_unroll_policy ag L R la ra ctx w =
     (let total = as_size la * as_size ra;
          by_policy = (total \<le> ma_unroll_policy ag);
          prevent = (unroll_status L = prevent_unroll \<or> unroll_status R = prevent_unroll);
          force = (unroll_status L = force_unroll \<or> unroll_status R = force_unroll)
      in if 1 < total \<and> force \<and> prevent then
           (False, notify_unroll_outcome ag L R (logA Sev_error ''ERROR_LHS_RHS_INCOMPATIBLE_UNROLL'' [] ctx w))
         else if 1 < total \<and> ma_fast ag \<and> prevent then
           (False, notify_unroll_outcome ag L R (logA Sev_error ''ERROR_PREVENT_INCOMPATIBLE_FAST'' [] ctx w))
         else
           (let would_unroll = (by_policy \<and> prevent \<and> tl_explicit_prevent L = None \<and> tl_explicit_prevent R = None);
                would_roll = (\<not> by_policy \<and> force \<and> tl_explicit_force L = None \<and> tl_explicit_force R = None);
                w1 = (if would_unroll then logA Sev_warn ''WARN_POLICY_WOULD_UNROLL'' [] ctx w else w);
                w2 = (if would_roll then logA Sev_warn ''WARN_POLICY_WOULD_ROLLUP'' [] ctx w1 else w1);
                w3 = (if would_unroll \<or> would_roll then notify_unroll_outcome ag L R w2 else w2)
            in (force \<or> ((by_policy \<or> ma_fast ag) \<and> \<not> prevent), w3)))"

section \<open>Writing a line out\<close>

text \<open>The state while a line is written: its token lists, the number of replacements, the lines written so far.\<close>

record 'u line_state =
  ln_left :: "'u token_list"
  ln_right :: "'u token_list"
  ln_counter :: u32
  ln_out :: "string list"
  ln_world :: "'u world"

type_synonym ('u, 'a) line_act = "('u line_state, 'a) act"

definition on_left :: "('u, 'a) tl_act \<Rightarrow> ('u, 'a) line_act" where
  "on_left f s = (case f (ln_left s, ln_world s) of (r, (T, w)) \<Rightarrow> (r, s\<lparr>ln_left := T, ln_world := w\<rparr>))"

definition on_right :: "('u, 'a) tl_act \<Rightarrow> ('u, 'a) line_act" where
  "on_right f s = (case f (ln_right s, ln_world s) of (r, (T, w)) \<Rightarrow> (r, s\<lparr>ln_right := T, ln_world := w\<rparr>))"

definition update_line :: "('u line_state \<Rightarrow> 'u line_state) \<Rightarrow> ('u, unit) line_act" where
  "update_line f s = (Inr (), f s)"

definition count_replacements :: "('u, u32) line_act \<Rightarrow> ('u, unit) line_act" where
  "count_replacements f = bindA f (\<lambda>n. update_line (\<lambda>s. s\<lparr>ln_counter := ln_counter s + n\<rparr>))"

definition log_line :: "severity \<Rightarrow> msg_id \<Rightarrow> string \<Rightarrow> nat \<times> nat \<Rightarrow> ('u, unit) line_act" where
  "log_line sev m x ctx = update_line (\<lambda>s. s\<lparr>ln_world := logA sev m x ctx (ln_world s)\<rparr>)"

definition emit :: "string \<Rightarrow> ('u, unit) line_act" where
  "emit x = update_line (\<lambda>s. s\<lparr>ln_out := ln_out s @ [x]\<rparr>)"

definition and_then :: "('s, unit) act \<Rightarrow> ('s, 'a) act \<Rightarrow> ('s, 'a) act" where
  "and_then f g = bindA f (\<lambda>_. g)"

text \<open>The loop \<open>for(x : set)\<close> over an assignment set.\<close>

function for_assignments ::
  "assignment_iterator \<Rightarrow> assignment_iterator \<Rightarrow> (indices_assignment \<Rightarrow> ('s, unit) act) \<Rightarrow> ('s, unit) act" where
  "for_assignments it fin body s =
     (case it_equal it fin of
        Inl e \<Rightarrow> (Inl e, s)
      | Inr True \<Rightarrow> (Inr (), s)
      | Inr False \<Rightarrow>
          (case it_deref it of
             Inl e \<Rightarrow> (Inl e, s)
           | Inr a \<Rightarrow>
               (case body a s of
                  (Inl e, s') \<Rightarrow> (Inl e, s')
                | (Inr _, s') \<Rightarrow>
                    (case it_increment it of Inl e \<Rightarrow> (Inl e, s') | Inr it' \<Rightarrow> for_assignments it' fin body s'))))"
  by pat_completeness auto
termination
  by (relation "measure (\<lambda>(it, fin, body, s). unat (it_max it - it_pos it))") (auto dest: it_increment_measure)

declare for_assignments.simps [simp del]

text \<open>The assignment of all indices; a clash is reported and leaves the assignment empty.\<close>

definition merge_assignments ::
  "nat \<times> nat \<Rightarrow> indices_assignment \<Rightarrow> indices_assignment \<Rightarrow> ('u, indices_assignment) line_act" where
  "merge_assignments ctx la ra =
     (case idb_merge iv_label la ra of
        Inr a \<Rightarrow> returnA a
      | Inl (Index_exception c) \<Rightarrow>
          bindA (log_line Sev_error ''ERROR_MACRO_LHS_RHS_MISMATCH'' [c] ctx) (\<lambda>_. returnA idb_empty)
      | Inl e \<Rightarrow> throwA e)"

definition trailing :: "split_string \<Rightarrow> string" where
  "trailing sp = (if ss_semicolon sp then '';'' else []) @ (if ss_comma sp then '','' else [])"

text \<open>The white space that starts the line.\<close>

definition compute_prefix :: "split_string \<Rightarrow> string" where
  "compute_prefix sp = takeWhile isspace (if ss_left sp \<noteq> [] then ss_left sp else ss_right sp)"

definition spaces :: "u32 \<Rightarrow> string" where
  "spaces n = replicate (unat n) (CHR '' '')"

definition dress :: "string \<Rightarrow> string \<Rightarrow> u32 \<Rightarrow> string" where
  "dress out_str raw_indent current_indent = raw_indent @ spaces current_indent @ out_str"

definition skipped_comment :: "'u agent \<Rightarrow> string" where
  "skipped_comment ag = print_comment (ma_printer ag) ''Skipped: empty index range (LHS index set is empty)''"

subsection \<open>Unrolling\<close>

definition evaluate_left :: "indices_assignment \<Rightarrow> ('u, unit) line_act" where
  "evaluate_left a =
     and_then (count_replacements (on_left (evaluate_unroll a))) (count_replacements (on_left (evaluate_simple post_macro)))"

definition evaluate_right :: "indices_assignment \<Rightarrow> ('u, unit) line_act" where
  "evaluate_right a =
     and_then (count_replacements (on_right (evaluate_unroll a))) (count_replacements (on_right (evaluate_simple post_macro)))"

text \<open>One right-hand side of several.\<close>

definition unroll_right ::
  "split_string \<Rightarrow> nat \<times> nat \<Rightarrow> string \<Rightarrow> indices_assignment \<Rightarrow> indices_assignment \<Rightarrow> ('u, unit) line_act" where
  "unroll_right sp ctx raw_indent la ra =
     bindA (merge_assignments ctx la ra) (\<lambda>a.
       and_then (evaluate_right a) (\<lambda>s.
         (if tl_tokens (ln_left s) = []
          then emit (token_list_string (ln_right s) @ trailing sp)
          else emit (dress (token_list_string (ln_right s)) raw_indent 3)) s))"

text \<open>Appends to the last line.\<close>

definition append_last :: "string \<Rightarrow> string list \<Rightarrow> string list" where
  "append_last x ls = (if ls = [] then [] else butlast ls @ [last ls @ x])"

definition unroll_several ::
  "split_string \<Rightarrow> nat \<times> nat \<Rightarrow> string \<Rightarrow> assignment_set \<Rightarrow> indices_assignment \<Rightarrow> ('u, unit) line_act" where
  "unroll_several sp ctx raw_indent ra la =
     and_then (\<lambda>s.
       (if tl_tokens (ln_left s) \<noteq> []
        then emit (token_list_string (ln_left s)
               @ (case ss_type sp of sum_split \<Rightarrow> '' = '' | sum_equal_split \<Rightarrow> '' += '' | no_split \<Rightarrow> []))
        else returnA ()) s)
      (and_then (for_assignments (as_begin ra) (as_end ra) (unroll_right sp ctx raw_indent la))
        (update_line (\<lambda>s. if tl_tokens (ln_left s) \<noteq> []
                         then s\<lparr>ln_out := append_last (trailing sp) (ln_out s)\<rparr> else s)))"

text \<open>A single right-hand side is put on the line of the left-hand side.\<close>

definition unroll_single ::
  "split_string \<Rightarrow> nat \<times> nat \<Rightarrow> assignment_set \<Rightarrow> indices_assignment \<Rightarrow> ('u, unit) line_act" where
  "unroll_single sp ctx ra la =
     bindA (liftE (it_deref (as_begin ra))) (\<lambda>r.
       bindA (merge_assignments ctx la r) (\<lambda>a.
         and_then (evaluate_right a) (\<lambda>s.
           emit (token_list_string (ln_left s)
             @ (case ss_type sp of sum_split \<Rightarrow> '' ='' | sum_equal_split \<Rightarrow> '' +='' | no_split \<Rightarrow> [])
             @ (if tl_tokens (ln_left s) \<noteq> [] then '' '' else []) @ token_list_string (ln_right s) @ trailing sp) s)))"

definition unroll_index_assignment ::
  "'u agent \<Rightarrow> split_string \<Rightarrow> nat \<times> nat \<Rightarrow> assignment_set \<Rightarrow> assignment_set \<Rightarrow> ('u, unit) line_act" where
  "unroll_index_assignment ag sp ctx la ra =
     (if as_size la = 0 then emit (skipped_comment ag)
      else for_assignments (as_begin la) (as_end la) (\<lambda>l.
        and_then (evaluate_left l)
          (if 1 < as_size ra then unroll_several sp ctx (compute_prefix sp) ra l
           else if as_size ra = 1 then unroll_single sp ctx ra l
           else returnA ())))"

subsection \<open>Loops\<close>

text \<open>The loops over some indices around a body, which is given its indentation.\<close>

primrec plant_loops ::
  "C_style_printer \<Rightarrow> string \<Rightarrow> abstract_index list \<Rightarrow> u32 \<Rightarrow> (u32 \<Rightarrow> ('u, unit) line_act) \<Rightarrow> ('u, unit) line_act" where
  "plant_loops pr raw_indent [] indent body = body indent"
| "plant_loops pr raw_indent (i # is') indent body =
     and_then (emit (dress (for_loop pr (get_loop_variable i) 0 (numeric_range i)) raw_indent indent))
      (and_then (case start_block_delimiter pr of
           None \<Rightarrow> returnA () | Some d \<Rightarrow> emit (dress (spaces (cp_brace_indent pr) @ d) raw_indent indent))
        (and_then (plant_loops pr raw_indent is' (indent + cp_block_indent pr) body)
          (case end_block_delimiter pr of
             None \<Rightarrow> returnA () | Some d \<Rightarrow> emit (dress (spaces (cp_brace_indent pr) @ d) raw_indent indent))))"

text \<open>The statement inside all loops.\<close>

definition rolled_statement :: "split_string \<Rightarrow> bool \<Rightarrow> 'u token_list \<Rightarrow> 'u token_list \<Rightarrow> string" where
  "rolled_statement sp coalesce L R =
     (let right_line = token_list_string R @ trailing sp;
          total = trim_left (token_list_string L)
            @ (case ss_type sp of sum_equal_split \<Rightarrow> '' += '' | sum_split \<Rightarrow> (if coalesce then '' = '' else '' += '')
               | no_split \<Rightarrow> [])
            @ right_line
      in if tl_tokens L = [] then trim_left total else total)"

definition plant_RHS_forloop ::
  "'u agent \<Rightarrow> split_string \<Rightarrow> string \<Rightarrow> abstract_index list \<Rightarrow> bool \<Rightarrow> u32 \<Rightarrow> ('u, unit) line_act" where
  "plant_RHS_forloop ag sp raw_indent is' coalesce indent =
     plant_loops (ma_printer ag) raw_indent is' indent (\<lambda>current_indent.
       and_then (count_replacements (on_right evaluate_roll))
         (and_then (count_replacements (on_right (evaluate_simple post_macro)))
           (\<lambda>s. emit (dress (rolled_statement sp coalesce (ln_left s) (ln_right s)) raw_indent current_indent) s)))"

definition plant_LHS_forloop ::
  "'u agent \<Rightarrow> split_string \<Rightarrow> string \<Rightarrow> abstract_index list \<Rightarrow> assignment_set \<Rightarrow> u32 \<Rightarrow> ('u, unit) line_act" where
  "plant_LHS_forloop ag sp raw_indent is' ra indent =
     plant_loops (ma_printer ag) raw_indent is' indent (\<lambda>current_indent.
       and_then (count_replacements (on_left evaluate_roll))
         (and_then (count_replacements (on_left (evaluate_simple post_macro)))
           (and_then (\<lambda>s.
              (if tl_tokens (ln_left s) \<noteq> [] \<and> 1 < as_size ra \<and> ss_type sp = sum_split
               then emit (dress (trim_left (token_list_string (ln_left s) @ '' = 0;'')) raw_indent current_indent)
               else returnA ()) s)
             (plant_RHS_forloop ag sp raw_indent (idb_list (as_source ra)) (as_size ra = 1) current_indent))))"

definition forloop_index_assignment ::
  "'u agent \<Rightarrow> split_string \<Rightarrow> assignment_set \<Rightarrow> assignment_set \<Rightarrow> ('u, unit) line_act" where
  "forloop_index_assignment ag sp la ra =
     (if as_size la = 0 then emit (skipped_comment ag)
      else plant_LHS_forloop ag sp (compute_prefix sp) (idb_list (as_source la)) ra 0)"

subsection \<open>A line\<close>

text \<open>The indices of the right-hand side alone; a clash is reported and leaves the set empty.\<close>

definition right_indices :: "nat \<times> nat \<Rightarrow> ('u, abstract_index_database) line_act" where
  "right_indices ctx s =
     (case idb_difference ai_label ai_class (tl_db (ln_right s)) (tl_db (ln_left s)) of
        Inr d \<Rightarrow> returnA d
      | Inl (Index_exception c) \<Rightarrow>
          bindA (log_line Sev_error ''ERROR_MACRO_LHS_RHS_MISMATCH'' [c] ctx) (\<lambda>_. returnA idb_empty)
      | Inl e \<Rightarrow> throwA e) s"

definition write_line :: "'u agent \<Rightarrow> split_string \<Rightarrow> nat \<times> nat \<Rightarrow> ('u, unit) line_act" where
  "write_line ag sp ctx =
     and_then (count_replacements (on_left (evaluate_simple pre_macro)))
       (and_then (count_replacements (on_right (evaluate_simple pre_macro)))
         (bindA (right_indices ctx) (\<lambda>rdb s.
           (let la = assignment_set_new 0 (tl_db (ln_left s)) right_order;
                ra = assignment_set_new 1 rdb right_order;
                (unroll, w) = apply_unroll_policy ag (ln_left s) (ln_right s) la ra ctx (ln_world s)
            in (if unroll then unroll_index_assignment ag sp ctx la ra else forloop_index_assignment ag sp la ra)
                 (s\<lparr>ln_world := w\<rparr>)))))"

text \<open>The destructors of the tokens of a list, in order.\<close>

primrec destroy_tokens :: "'u token list \<Rightarrow> 'u world \<Rightarrow> exn option \<times> 'u world" where
  "destroy_tokens [] w = (None, w)"
| "destroy_tokens (t # ts) w =
     (case t of
        Macro_token m \<Rightarrow>
          (case macro_token_destroy m w of (None, w1) \<Rightarrow> destroy_tokens ts w1 | (Some e, w1) \<Rightarrow> (Some Terminate, w1))
      | _ \<Rightarrow> destroy_tokens ts w)"

text \<open>At the end of the scope, also when it is left by an exception, the right-hand tokens are destroyed before
  those on the left.\<close>

definition destroy_line :: "(exn + 'a) \<Rightarrow> 'u line_state \<Rightarrow> (exn + 'a) \<times> 'u world" where
  "destroy_line r s =
     (case destroy_tokens (tl_tokens (ln_right s) @ tl_tokens (ln_left s)) (ln_world s) of
        (None, w) \<Rightarrow> (r, w)
      | (Some e, w) \<Rightarrow> (Inl e, w))"

text \<open>The result is the lines and the number of replacements, which is not set on the early returns. No macro has
  been evaluated before \<open>write_line\<close>, so destroying the tokens earlier does nothing.\<close>

definition apply_line :: "'u agent \<Rightarrow> string \<Rightarrow> u32 \<Rightarrow> ('u world, string list \<times> u32) act" where
  "apply_line ag line replacements =
     (let sp = split_line line (ma_split_equal ag) (ma_split_sum_equal ag); ctx = split_point_context ag sp in
      bindA (perform_tokenization ag sp) (\<lambda>(L, R) w.
        if \<not> w_enabled w then (Inr ([], replacements), w)
        else if ss_type sp \<noteq> no_split \<and> (is_directive R \<or> is_directive L)
          then (Inr ([], replacements), logA Sev_error ''ERROR_DIRECTIVE_ON_RHS'' [] ctx w)
        else if is_directive R
          then (Inr ([print_comment (ma_printer ag) (token_list_string R)], replacements), w)
        else
          (case write_line ag sp ctx \<lparr>ln_left = L, ln_right = R, ln_counter = 0, ln_out = [], ln_world = w\<rparr> of
             (r, s) \<Rightarrow>
               destroy_line (case r of Inl e \<Rightarrow> Inl e | Inr _ \<Rightarrow> Inr (ln_out s, ln_counter s)) s)))"

text \<open>The depth is restored only when the line was processed and returned. No list is \<open>None\<close>.\<close>

definition agent_apply ::
  "'u agent \<Rightarrow> string \<Rightarrow> u32 \<Rightarrow> (u32 \<times> 'u world, string list option \<times> u32) act" where
  "agent_apply ag line replacements s =
     (let depth = fst s + 1 in
      if depth < ma_recursion_max ag then
        (case apply_line ag line replacements (snd s) of
           (Inl e, w) \<Rightarrow> (Inl e, (depth, w))
         | (Inr (out, n), w) \<Rightarrow> (Inr (Some out, n), (depth - 1, w)))
      else
        (Inr (None, replacements),
         (depth, logA Sev_warn ''WARNING_RECURSION_DEPTH'' (u32_string (ma_recursion_max ag)) (0, 0) (snd s))))"

end
