(* ===== verification/Macro_Agent_Control.thy ===== *)
theory Macro_Agent_Control
  imports Macro_Agent
begin

text \<open>
  Properties of the parts of the macro agent around the writing of a line: the split at a marker, the decision between
  unrolling and rolling up, and the accounting of the recursion depth.
\<close>

section \<open>Splitting\<close>

lemma drop_blank: "list_all P ws \<Longrightarrow> dropWhile P (ws @ x) = dropWhile P x"
  by (induction ws) simp_all

lemma trim_right_append: "x \<noteq> [] \<Longrightarrow> \<not> isspace (last x) \<Longrightarrow> list_all isspace ws \<Longrightarrow> trim_right (x @ ws) = x"
  by (cases x rule: rev_cases) (simp_all add: trim_right_def drop_blank)

lemma trim_left_append2: "x \<noteq> [] \<Longrightarrow> \<not> isspace (hd x) \<Longrightarrow> list_all isspace ws \<Longrightarrow> trim_left (ws @ x) = x"
  by (cases x) (simp_all add: trim_left_def drop_blank)

text \<open>An expression as a template writes it on the right: not blank at its ends, and not ending in punctuation.\<close>

definition trimmed :: "string \<Rightarrow> bool" where
  "trimmed e \<longleftrightarrow> e \<noteq> [] \<and> \<not> isspace (hd e) \<and> \<not> isspace (last e) \<and> last e \<noteq> CHR '';'' \<and> last e \<noteq> CHR '',''"

definition punctuation :: "string set" where
  "punctuation = {[], '';'', '','', '',;''}"

lemma trim_expression:
  assumes "trimmed e" and "p \<in> punctuation" and "list_all isspace ws" and "list_all isspace vs"
  shows "trim_left (trim_right (ws @ e @ p @ vs)) = e @ p"
proof -
  have e: "e \<noteq> []" "\<not> isspace (hd e)" "\<not> isspace (last e)" using assms(1) by (simp_all add: trimmed_def)
  have sp: "\<not> isspace (CHR '';'')" "\<not> isspace (CHR '','')" by code_simp+
  have "trim_right ((ws @ e @ p) @ vs) = ws @ e @ p"
    by (rule trim_right_append) (use e assms(2,4) sp in \<open>auto simp: punctuation_def\<close>)
  moreover have "trim_left (ws @ (e @ p)) = e @ p"
    by (rule trim_left_append2) (use e assms(3) in auto)
  ultimately show ?thesis by simp
qed

text \<open>Splitting recovers the parts of an assignment. When the first marker of a line follows its left-hand side,
  the split finds the marker and its place, leaves the left-hand side as it is, and cuts the white space around the
  expression and the punctuation at its end off the right-hand side. The punctuation written back is that of the line,
  except that a comma before a semicolon comes back after it.\<close>

theorem split_recovers_parts:
  assumes "l \<noteq> []" and "str_find eq (l @ eq @ ws @ e @ p @ vs) 0 = Some (length l)"
    and "trimmed e" and "p \<in> punctuation" and "list_all isspace ws" and "list_all isspace vs"
  shows "split_line (l @ eq @ ws @ e @ p @ vs) eq seq =
      \<lparr>ss_left = l, ss_right = e, ss_point = Some (length l), ss_comma = (CHR '','' \<in> set p),
       ss_semicolon = (CHR '';'' \<in> set p), ss_type = sum_split\<rparr>
    \<and> trailing (split_line (l @ eq @ ws @ e @ p @ vs) eq seq) = (if p = '',;'' then '';,'' else p)"
proof -
  have "last e \<noteq> CHR '';''" "last e \<noteq> CHR '',''" "e \<noteq> []" using assms(3) by (simp_all add: trimmed_def)
  then have s: "split_line (l @ eq @ ws @ e @ p @ vs) eq seq =
      \<lparr>ss_left = l, ss_right = e, ss_point = Some (length l), ss_comma = (CHR '','' \<in> set p),
       ss_semicolon = (CHR '';'' \<in> set p), ss_type = sum_split\<rparr>"
    using assms(1,2,4) trim_expression [OF assms(3-6)]
    by (auto simp: split_line_def pop_last_def punctuation_def Let_def butlast_append)
  show ?thesis unfolding s trailing_def using assms(4) by (auto simp: punctuation_def)
qed

theorem split_recovers_parts_witness:
  "split_line ''  y[$a] $= x[$a],; '' ''$='' ''$+='' =
      \<lparr>ss_left = ''  y[$a] '', ss_right = ''x[$a]'', ss_point = Some 8, ss_comma = True, ss_semicolon = True,
       ss_type = sum_split\<rparr>
   \<and> trailing (split_line ''  y[$a] $= x[$a],; '' ''$='' ''$+='') = '';,''"
proof -
  have "str_find ''$='' (''  y[$a] '' @ ''$='' @ '' '' @ ''x[$a]'' @ '',;'' @ '' '') 0 = Some (length ''  y[$a] '')"
    "trimmed ''x[$a]''" "list_all isspace '' ''" by code_simp+
  then show ?thesis
    using split_recovers_parts [of "''  y[$a] ''" "''$=''" "'' ''" "''x[$a]''" "'',;''" "'' ''" "''$+=''"]
    by (simp add: punctuation_def trailing_def)
qed

section \<open>The unrolling policy\<close>

definition prevented :: "'u token_list \<Rightarrow> 'u token_list \<Rightarrow> bool" where
  "prevented L R \<longleftrightarrow> unroll_status L = prevent_unroll \<or> unroll_status R = prevent_unroll"

definition forced :: "'u token_list \<Rightarrow> 'u token_list \<Rightarrow> bool" where
  "forced L R \<longleftrightarrow> unroll_status L = force_unroll \<or> unroll_status R = force_unroll"

text \<open>The log has grown, and its first new entry is an error at the given place.\<close>

definition extends :: "'u world \<Rightarrow> 'u world \<Rightarrow> bool" where
  "extends w w' \<longleftrightarrow> (\<exists>ds. w_log w' = w_log w @ ds)"

definition error_added :: "nat \<times> nat \<Rightarrow> 'u world \<Rightarrow> 'u world \<Rightarrow> bool" where
  "error_added ctx w w' \<longleftrightarrow> (\<exists>m ds. w_log w' = w_log w @ Diag Sev_error m [] (fst ctx) (snd ctx) # ds)"

lemma extends_refl [simp]: "extends w w"
  by (simp add: extends_def)

lemma extends_logA [simp]: "extends w (logA sev m x ctx w)"
  by (simp add: extends_def logA_def)

lemma extends_trans: "extends w1 w2 \<Longrightarrow> extends w2 w3 \<Longrightarrow> extends w1 w3"
  by (auto simp: extends_def)

lemma extends_warnings: "extends w (foldl (\<lambda>w n. logA sev m [] (snd n) w) w ns)"
proof (induction ns arbitrary: w)
  case (Cons n ns)
  from extends_trans [OF extends_logA Cons] show ?case by simp
qed simp

lemma extends_warn: "extends w w' \<Longrightarrow> extends w (foldl (\<lambda>w n. logA sev m [] (snd n) w) w' ns)"
  by (rule extends_trans [OF _ extends_warnings])

lemma extends_notify: "extends w (notify_unroll_outcome ag L R w)"
  unfolding notify_unroll_outcome_def Let_def
  by (simp add: extends_warn)

lemma error_added_notify: "error_added ctx w (notify_unroll_outcome ag L R (logA Sev_error m [] ctx w))"
  using extends_notify [of "logA Sev_error m [] ctx w" ag L R]
  by (auto simp: error_added_def extends_def logA_def)

text \<open>The unrolling policy respects the rules of a line or reports an error. A line that a rule prevents from being
  unrolled is unrolled only if it has at most one assignment; a line that a rule forces to be unrolled is rolled up,
  and in fast mode a line with more than one assignment is rolled up, only together with an error at the split.
  Without rules the size alone decides, outside fast mode.\<close>

theorem unroll_policy_respects_rules:
  "(case apply_unroll_policy ag L R la ra ctx w of (unroll, w') \<Rightarrow>
     (unroll \<and> prevented L R \<longrightarrow> as_size la * as_size ra \<le> 1)
   \<and> (\<not> unroll \<and> forced L R \<longrightarrow> error_added ctx w w')
   \<and> (\<not> unroll \<and> ma_fast ag \<and> 1 < as_size la * as_size ra \<longrightarrow> error_added ctx w w')
   \<and> (\<not> prevented L R \<and> \<not> forced L R \<and> \<not> ma_fast ag \<longrightarrow>
        unroll = (as_size la * as_size ra \<le> ma_unroll_policy ag) \<and> w' = w))"
  unfolding apply_unroll_policy_def prevented_def [symmetric] forced_def [symmetric]
  by (auto simp: Let_def error_added_notify not_less)

text \<open>The size that the policy is applied to is computed modulo \<open>2\<^sup>32\<close>: when the numbers of assignments of the two
  sides multiply to \<open>2\<^sup>32\<close> the line is unrolled, whatever the policy, if no rule prevents it.\<close>

theorem unroll_policy_size_wraps:
  assumes "unat (as_size la) * unat (as_size ra) = 2 ^ 32" and "\<not> prevented L R"
  shows "fst (apply_unroll_policy ag L R la ra ctx w)"
proof -
  have "unat (as_size la * as_size ra) = 0" using assms(1) by (simp add: unat_word_ariths)
  then have "as_size la * as_size ra = 0" by (simp add: unat_eq_0)
  then show ?thesis using assms(2) unfolding apply_unroll_policy_def prevented_def [symmetric] by (simp add: Let_def)
qed

text \<open>A database with one parameter index of range 65536.\<close>

definition example_large :: abstract_index_database where
  "example_large = of_items ai_label [abstract_index_new CHR ''0'' 1 65536]"

definition example_settings :: "u32 \<Rightarrow> unit agent" where
  "example_settings policy =
     \<lparr>ma_tokenizer = \<lparr>tz_prefix = ''$'', tz_fields = 1, tz_params = 1, tz_pre = [], tz_post = [], tz_index = [],
        tz_local = [], tz_simp_dir = [], tz_ind_dir = [], tz_validation = None, tz_strict = False,
        tz_model = canonical_model, tz_dev_warnings = False\<rparr>,
      ma_local = \<lambda>_. [], ma_split_equal = ''$='', ma_split_sum_equal = ''$+='', ma_recursion_max = policy,
      ma_unroll_policy = policy, ma_fast = False, ma_unroll_warnings = False, ma_printer = default_printer\<rparr>"

definition example_log :: "unit world" where
  "example_log = \<lparr>w_log = [], w_enabled = True, w_user = ()\<rparr>"

lemma example_large_size: "unat (as_size (assignment_set_new i example_large right_order)) = 65536"
proof -
  have "prod_list (ranges (idb_list example_large)) = 65536"
    by (simp add: example_large_def of_items_def idb_list_def abstract_index_new_def abstract_index_of_class_def
        numeric_range_def identify_index_def cchar_defs)
  then show ?thesis by (simp add: assignment_set_new_def example_large_def of_items_def idb_list_def)
qed

theorem unroll_policy_respects_rules_witness:
  "\<not> fst (apply_unroll_policy (example_settings 0) (token_list_empty\<lparr>tl_prevent := [(''P'', (0, 1))]\<rparr>) token_list_empty
     (assignment_set_new 0 example_large right_order) (assignment_set_new 1 idb_empty right_order) (0, 0) example_log)"
proof -
  let ?la = "assignment_set_new 0 example_large right_order"
  let ?ra = "assignment_set_new 1 idb_empty right_order"
  have "as_size ?ra = 1" by (simp add: assignment_set_new_def idb_empty_def idb_list_def)
  then have "\<not> as_size ?la * as_size ?ra \<le> 1" using example_large_size [of 0] by (simp add: word_le_nat_alt)
  moreover have "prevented (token_list_empty\<lparr>tl_prevent := [(''P'', (0, 1))]\<rparr>) token_list_empty"
    by (simp add: prevented_def unroll_status_def token_list_empty_def)
  ultimately show ?thesis
    using unroll_policy_respects_rules [where ag = "example_settings 0" and R = token_list_empty and la = ?la and ra = ?ra
      and L = "token_list_empty\<lparr>tl_prevent := [(''P'', (0, 1))]\<rparr>" and ctx = "(0, 0)" and w = example_log] by auto
qed

theorem unroll_policy_size_wraps_witness:
  "fst (apply_unroll_policy (example_settings 0) token_list_empty token_list_empty
     (assignment_set_new 0 example_large right_order) (assignment_set_new 1 example_large right_order) (0, 0) example_log)"
  using unroll_policy_size_wraps
    [of "assignment_set_new 0 example_large right_order" "assignment_set_new 1 example_large right_order"
      token_list_empty token_list_empty "example_settings 0" "(0, 0)" example_log]
  by (simp add: prevented_def unroll_status_def token_list_empty_def example_large_size)

section \<open>The recursion depth\<close>

primrec apply_lines :: "'u agent \<Rightarrow> string list \<Rightarrow> u32 \<times> 'u world \<Rightarrow> (exn + string list option list) \<times> u32 \<times> 'u world" where
  "apply_lines ag [] s = (Inr [], s)"
| "apply_lines ag (l # ls) s =
     (case agent_apply ag l 0 s of
        (Inl e, s') \<Rightarrow> (Inl e, s')
      | (Inr (out, n), s') \<Rightarrow> (case apply_lines ag ls s' of (Inl e, s'') \<Rightarrow> (Inl e, s'') | (Inr outs, s'') \<Rightarrow> (Inr (out # outs), s'')))"

lemma depth_suc: "unat d + 1 < 2 ^ 32 \<Longrightarrow> unat (d + 1 :: u32) = unat d + 1"
  by (simp add: unat_word_ariths)

text \<open>A line that is processed leaves the recursion depth as it was; one that is refused, or that ends in an
  exception, leaves it one higher. A line is refused when the depth would reach the maximum.\<close>

theorem recursion_depth_accounting:
  assumes "unat (fst s) + 1 < 2 ^ 32"
  shows "case agent_apply ag line r s of
      (Inr (Some out, n), s') \<Rightarrow> fst s' = fst s \<and> unat (fst s) + 1 < unat (ma_recursion_max ag)
    | (Inr (None, n), s') \<Rightarrow> unat (fst s') = unat (fst s) + 1 \<and> unat (ma_recursion_max ag) \<le> unat (fst s) + 1 \<and> n = r
        \<and> snd s' = logA Sev_warn ''WARNING_RECURSION_DEPTH'' (u32_string (ma_recursion_max ag)) (0, 0) (snd s)
    | (Inl e, s') \<Rightarrow> unat (fst s') = unat (fst s) + 1"
  using depth_suc [OF assms]
  by (auto simp: agent_apply_def Let_def word_less_nat_alt split: prod.split sum.split)

lemma lines_refused:
  "unat (ma_recursion_max ag) \<le> unat d + 1 \<Longrightarrow> unat d + length ls < 2 ^ 32 \<Longrightarrow>
   \<exists>w'. apply_lines ag ls (d, w) = (Inr (replicate (length ls) None), d + of_nat (length ls), w')
     \<and> length (w_log w') = length (w_log w) + length ls"
proof (induction ls arbitrary: d w)
  case (Cons l ls)
  then have d: "unat (d + 1) = unat d + 1" by (intro depth_suc) simp
  let ?w = "logA Sev_warn ''WARNING_RECURSION_DEPTH'' (u32_string (ma_recursion_max ag)) (0, 0) w"
  have a: "agent_apply ag l 0 (d, w) = (Inr (None, 0), d + 1, ?w)"
    using Cons.prems(1) d by (simp add: agent_apply_def Let_def word_less_nat_alt)
  from Cons.IH [of "d + 1" ?w] Cons.prems d obtain w' where
    "apply_lines ag ls (d + 1, ?w) = (Inr (replicate (length ls) None), d + 1 + of_nat (length ls), w')"
    "length (w_log w') = length (w_log ?w) + length ls" by auto
  with a show ?case by (intro exI [of _ w']) (simp add: logA_def add.assoc)
qed simp

text \<open>With a maximum of 1, which is what the constructor replaces a maximum of 0 by, an agent drops every line it
  is given, each with a warning, and the depth counts them.\<close>

theorem minimal_recursion_drops_lines:
  assumes "ma_recursion_max ag = 0" and "length ls < 2 ^ 32"
  shows "\<exists>w'. apply_lines (fst (agent_new ag)) ls (snd (agent_new ag), w)
      = (Inr (replicate (length ls) None), of_nat (length ls), w')
    \<and> length (w_log w') = length (w_log w) + length ls"
  using lines_refused [of "fst (agent_new ag)" 0 ls w] assms by (simp add: agent_new_def)

theorem recursion_depth_accounting_witness:
  "snd (snd (agent_apply (example_settings 1) ''x'' 0 (0, example_log)))
     = logA Sev_warn ''WARNING_RECURSION_DEPTH'' ''1'' (0, 0) example_log"
proof -
  have "u32_string 1 = ''1''" "unat (1::u32) = 1" by code_simp+
  then show ?thesis
    using recursion_depth_accounting [where s = "(0, example_log)" and ag = "example_settings 1" and line = "''x''" and r = 0]
    by (simp add: agent_apply_def example_settings_def split: prod.splits sum.splits option.splits)
qed

theorem minimal_recursion_drops_lines_witness:
  "\<exists>w'. apply_lines (fst (agent_new (example_settings 0))) [''x'', ''y''] (0, example_log) = (Inr [None, None], 2, w')
    \<and> length (w_log w') = 2"
proof -
  have m: "ma_recursion_max (example_settings 0) = 0" by (simp add: example_settings_def)
  have d: "snd (agent_new (example_settings 0)) = 0" by (simp add: agent_new_def)
  have l: "length [''x'', ''y''] < 2 ^ 32" by simp
  have n: "replicate (length [''x'', ''y'']) None = [None, None :: string list option]" "of_nat (length [''x'', ''y'']) = (2 :: u32)"
    "length (w_log example_log) + length [''x'', ''y''] = 2" by (simp_all add: example_log_def)
  from minimal_recursion_drops_lines [OF m l, of example_log] show ?thesis unfolding d n .
qed

end
