(* ===== verification/Macro_Agent_Facts.thy ===== *)
theory Macro_Agent_Facts
  imports Macro_Agent
begin

text \<open>
  Properties of the macro agent: how a line is split, what the unrolling policy decides, that an unrolled line is the
  execution of the loops it is rolled up to, and the accounting of the recursion depth.
\<close>

section \<open>Lines under evaluation\<close>

text \<open>A token list that has the shape of a line, whatever its literals were last converted to.\<close>

definition piece_like :: "'u tokenizer \<Rightarrow> piece \<Rightarrow> 'u token \<Rightarrow> bool" where
  "piece_like tz x t =
     (case x of
        Text_piece s \<Rightarrow> (case t of Text_token b \<Rightarrow> tb_conversion b = s | _ \<Rightarrow> False)
      | Index_piece q c \<Rightarrow> (case t of Index_token l \<Rightarrow> il_idx (il_index l) = new_index tz c | _ \<Rightarrow> False))"

definition line_like :: "'u tokenizer \<Rightarrow> piece list \<Rightarrow> 'u token_list \<Rightarrow> bool" where
  "line_like tz ps T \<longleftrightarrow> list_all2 (piece_like tz) ps (tl_tokens T)"

lemma line_tokens_like: "list_all2 (piece_like tz) ps (line_tokens tz p ps)"
proof (induction ps arbitrary: p)
  case (Cons x ps)
  then show ?case
    by (cases x) (simp_all add: piece_token_def piece_like_def text_token_def token_base_new_def Let_def
        index_literal_token_new_def checked_literal_def)
qed simp

lemma piece_like_cases:
  assumes "piece_like tz x t"
  obtains s b where "x = Text_piece s" "t = Text_token b" "tb_conversion b = s"
  | q c l where "x = Index_piece q c" "t = Index_token l" "il_idx (il_index l) = new_index tz c"
  using assms by (auto simp: piece_like_def split: piece.splits token.splits)

lemma line_labels_Cons [simp]:
  "line_labels (Text_piece s # ps) = line_labels ps" "line_labels (Index_piece q c # ps) = c # line_labels ps"
  by (simp_all add: line_labels_def)

lemma line_subst_Cons [simp]:
  "line_subst g [] = []" "line_subst g (Text_piece s # ps) = s @ line_subst g ps"
  "line_subst g (Index_piece q c # ps) = g c @ line_subst g ps"
  by (simp_all add: line_subst_def)

lemma on_text [simp]: "on_index f (Text_token b) = None" "token_string (Text_token b) = tb_conversion b"
  by (simp_all add: on_index_def token_string_def)

lemma converted_literal [simp]:
  "tb_conversion (il_base (il_convert s l)) = s"
  "piece_like tz (Index_piece q c) (Index_token (il_convert s l)) \<longleftrightarrow> il_idx (il_index l) = new_index tz c"
  by (simp_all add: il_convert_def piece_like_def)

lemma pass_like:
  assumes "list_all2 (piece_like tz) ps ts"
    and "\<And>x c. c \<in> set (line_labels ps) \<Longrightarrow> il_idx (il_index x) = new_index tz c \<Longrightarrow> f x = (il_convert (g c) x, None)"
  shows "\<exists>ts'. evaluate_pass (on_index f) ts n w = (Inr (n + of_nat (length (line_labels ps))), ts', w)
    \<and> list_all2 (piece_like tz) ps ts' \<and> concat (map token_string ts') = line_subst g ps"
  using assms
proof (induction ps ts arbitrary: n rule: list_all2_induct)
  case Nil
  then show ?case by (simp add: line_labels_def)
next
  case (Cons x ps t ts)
  from Cons.hyps(1) show ?case
  proof (cases rule: piece_like_cases)
    case (1 s b)
    with Cons.IH [of n] Cons.prems obtain ts' where
      "evaluate_pass (on_index f) ts n w = (Inr (n + of_nat (length (line_labels ps))), ts', w)"
      "list_all2 (piece_like tz) ps ts'" "concat (map token_string ts') = line_subst g ps" by auto
    with 1 Cons.hyps(1) show ?thesis
      by (intro exI [of _ "t # ts'"]) simp
  next
    case (2 q c l)
    with Cons.IH [of "n + 1"] Cons.prems obtain ts' where
      "evaluate_pass (on_index f) ts (n + 1) w = (Inr (n + 1 + of_nat (length (line_labels ps))), ts', w)"
      "list_all2 (piece_like tz) ps ts'" "concat (map token_string ts') = line_subst g ps" by auto
    moreover have "f l = (il_convert (g c) l, None)" using Cons.prems 2 by simp
    ultimately show ?thesis using 2
      by (intro exI [of _ "Index_token (il_convert (g c) l) # ts'"]) simp
  qed
qed

lemma pass_unlike:
  assumes "list_all2 (piece_like tz) ps ts" and "\<And>b. h (Text_token b) = None" and "\<And>l. h (Index_token l) = None"
  shows "evaluate_pass h ts n w = (Inr n, ts, w)"
proof (rule evaluate_pass_none)
  fix t assume "t \<in> set ts"
  then obtain x where "piece_like tz x t" using assms(1) by (auto simp: list_all2_conv_all_nth in_set_conv_nth)
  then show "h t = None" by (cases rule: piece_like_cases) (simp_all add: assms(2,3))
qed

text \<open>A token list with other tokens.\<close>

abbreviation with_tokens :: "'u token_list \<Rightarrow> 'u token list \<Rightarrow> 'u token_list" where
  "with_tokens T ts \<equiv> T\<lparr>tl_tokens := ts\<rparr>"

lemma run_like:
  assumes "line_like tz ps T"
    and "\<And>x c. c \<in> set (line_labels ps) \<Longrightarrow> il_idx (il_index x) = new_index tz c \<Longrightarrow> f x = (il_convert (g c) x, None)"
  shows "\<exists>ts. bindA (run_pass (on_index f) 0) (\<lambda>n. run_pass (on_macro h) n) (T, w)
      = (Inr (of_nat (length (line_labels ps))), (with_tokens T ts, w))
    \<and> line_like tz ps (with_tokens T ts) \<and> token_list_string (with_tokens T ts) = line_subst g ps"
proof -
  obtain ts where ts: "evaluate_pass (on_index f) (tl_tokens T) 0 w = (Inr (of_nat (length (line_labels ps))), ts, w)"
    "list_all2 (piece_like tz) ps ts" "concat (map token_string ts) = line_subst g ps"
    using pass_like [of tz ps "tl_tokens T" f g 0 w] assms by (auto simp: line_like_def)
  have "evaluate_pass (on_macro h) ts n w = (Inr n, ts, w)" for n
    by (rule pass_unlike [OF ts(2)]) (simp_all add: on_macro_def)
  with ts show ?thesis
    by (intro exI [of _ ts]) (simp add: bindA_def run_pass_def line_like_def token_list_string_def)
qed

lemma unroll_like:
  assumes "line_like tz ps T" and "\<And>c. c \<in> set (line_labels ps) \<Longrightarrow> idb_deref a (idb_find c a) = Inr (vals c)"
  shows "\<exists>ts. evaluate_unroll a (T, w) = (Inr (of_nat (length (line_labels ps))), (with_tokens T ts, w))
    \<and> line_like tz ps (with_tokens T ts)
    \<and> token_list_string (with_tokens T ts) = line_subst (\<lambda>c. dec_string (unat (iv_value (vals c)))) ps"
  unfolding evaluate_unroll_def
proof (rule run_like [OF assms(1)])
  fix x :: index_literal_token and c assume c: "c \<in> set (line_labels ps)" and x: "il_idx (il_index x) = new_index tz c"
  then have l: "literal_label (il_index x) = c" by (simp add: literal_label_def)
  obtain it where "idb_find c a = Some it" using assms(2) [OF c] by (cases "idb_find c a") (auto simp: idb_deref_def)
  then show "index_token_evaluate a x = (il_convert (dec_string (unat (iv_value (vals c)))) x, None)"
    using assms(2) [OF c] l by (simp add: index_token_evaluate_def)
qed

lemma new_index_variable [simp]: "get_loop_variable (new_index tz c) = CHR ''_'' # [c]"
  by (simp add: get_loop_variable_def new_index_def abstract_index_new_def abstract_index_of_class_def)

definition loop_name :: "char \<Rightarrow> string" where
  "loop_name c = CHR ''_'' # [c]"

lemma roll_like:
  assumes "line_like tz ps T"
  shows "\<exists>ts. evaluate_roll (T, w) = (Inr (of_nat (length (line_labels ps))), (with_tokens T ts, w))
    \<and> line_like tz ps (with_tokens T ts) \<and> token_list_string (with_tokens T ts) = line_subst loop_name ps"
  unfolding evaluate_roll_def
  by (rule run_like [OF assms]) (simp add: index_token_evaluate_roll_def loop_name_def)

lemma simple_like:
  assumes "line_like tz ps T"
  shows "evaluate_simple ty (T, w) = (Inr 0, (T, w))"
proof -
  have "evaluate_pass (on_simple ty) (tl_tokens T) 0 w = (Inr 0, tl_tokens T, w)"
    by (rule pass_unlike [OF assms [unfolded line_like_def]]) (simp_all add: on_simple_def)
  then show ?thesis by (simp add: evaluate_simple_def run_pass_def)
qed

lemma destroy_like:
  assumes "line_like tz ps T"
  shows "destroy_tokens (tl_tokens T) w = (None, w)"
proof -
  have "list_all2 (piece_like tz) ps ts \<Longrightarrow> destroy_tokens ts w = (None, w)" for ts
    by (induction rule: list_all2_induct) (auto elim!: piece_like_cases)
  with assms show ?thesis by (simp add: line_like_def)
qed

section \<open>Loops over assignments\<close>

primrec run_list :: "('a \<Rightarrow> ('s, unit) act) \<Rightarrow> 'a list \<Rightarrow> ('s, unit) act" where
  "run_list body [] s = (Inr (), s)"
| "run_list body (a # as) s = (case body a s of (Inl e, s') \<Rightarrow> (Inl e, s') | (Inr _, s') \<Rightarrow> run_list body as s')"

lemma for_assignments_run:
  "visit_assignments it fin = Inr ds \<Longrightarrow> for_assignments it fin body s = run_list body ds s"
proof (induction it fin arbitrary: ds s rule: visit_assignments.induct)
  case (1 it fin)
  show ?case
  proof (cases "it_equal it fin")
    case (Inl e)
    with 1(2) show ?thesis by (subst (asm) visit_assignments.simps) simp
  next
    case (Inr same)
    show ?thesis
    proof (cases same)
      case True
      with 1(2) Inr show ?thesis by (subst (asm) visit_assignments.simps) (simp add: for_assignments.simps)
    next
      case False
      from 1(2) Inr False obtain d it' ds' where *: "it_deref it = Inr d" "it_increment it = Inr it'"
          "visit_assignments it' fin = Inr ds'" "ds = d # ds'"
        by (subst (asm) visit_assignments.simps) (auto simp: bindE_eq_Inr)
      have "for_assignments it' fin body s' = run_list body ds' s'" for s'
        by (rule 1(1) [OF Inr False *(1,2,3)])
      then show ?thesis using * Inr False
        by (subst for_assignments.simps) (auto split: prod.split sum.split)
    qed
  qed
qed

text \<open>A loop whose body keeps a property of the state and appends lines to the output.\<close>

definition emits :: "('u line_state \<Rightarrow> bool) \<Rightarrow> ('u, unit) line_act \<Rightarrow> string list \<Rightarrow> bool" where
  "emits Q f ls \<longleftrightarrow> (\<forall>s. Q s \<longrightarrow> (\<exists>s'. f s = (Inr (), s') \<and> Q s' \<and> ln_out s' = ln_out s @ ls))"

lemma emits_run_list:
  "list_all2 P vs as \<Longrightarrow> (\<And>v a. v \<in> set vs \<Longrightarrow> P v a \<Longrightarrow> emits Q (body a) (out v)) \<Longrightarrow>
   emits Q (run_list body as) (concat (map out vs))"
proof (induction rule: list_all2_induct)
  case (Cons v vs a as)
  then have "emits Q (body a) (out v)" "emits Q (run_list body as) (concat (map out vs))" by simp_all
  then show ?case unfolding emits_def by fastforce
qed (simp add: emits_def)

lemma emits_then: "emits Q f ls \<Longrightarrow> emits Q g ls' \<Longrightarrow> emits Q (and_then f g) (ls @ ls')"
  unfolding emits_def and_then_def bindA_def by fastforce

lemma emitsD: "emits Q f ls \<Longrightarrow> Q s \<Longrightarrow> ln_out s = [] \<Longrightarrow> \<exists>s'. f s = (Inr (), s') \<and> Q s' \<and> ln_out s' = ls"
  by (auto simp: emits_def)

lemma emits_nothing: "emits Q (returnA ()) []"
  by (simp add: emits_def returnA_def)

lemma emits_emit: "(\<And>s ls. Q s \<Longrightarrow> Q (s\<lparr>ln_out := ls\<rparr>)) \<Longrightarrow> emits Q (emit x) [x]"
  by (simp add: emits_def emit_def update_line_def)

section \<open>Loop programs\<close>

text \<open>What a line with indices stands for: a statement in a nest of loops, from the outside in. \<open>written\<close> is its text,
  as planted for the target language; \<open>executed\<close> is the statements its execution goes through, with the values
  of the loop variables.\<close>

datatype loop_program = Statement "piece list" string | Loop char nat loop_program

definition line_program :: "piece list \<Rightarrow> string \<Rightarrow> (char \<times> nat) list \<Rightarrow> loop_program" where
  "line_program ps tr cs = foldr (\<lambda>(c, n) p. Loop c n p) cs (Statement ps tr)"

primrec executed :: "loop_program \<Rightarrow> (char \<Rightarrow> nat) \<Rightarrow> string list" where
  "executed (Statement ps tr) env = [line_subst (\<lambda>c. dec_string (env c)) ps @ tr]"
| "executed (Loop c n p) env = concat (map (\<lambda>i. executed p (env(c := i))) [0..<n])"

definition brace_line :: "C_style_printer \<Rightarrow> string \<Rightarrow> string" where
  "brace_line pr d = spaces (cp_brace_indent pr) @ d"

primrec written :: "C_style_printer \<Rightarrow> string \<Rightarrow> loop_program \<Rightarrow> u32 \<Rightarrow> string list" where
  "written pr raw (Statement ps tr) indent = [dress (trim_left (line_subst loop_name ps @ tr)) raw indent]"
| "written pr raw (Loop c n p) indent =
     dress (for_loop pr (loop_name c) 0 (of_nat n)) raw indent
     # dress (brace_line pr (cp_open_brace pr)) raw indent
     # written pr raw p (indent + cp_block_indent pr)
     @ [dress (brace_line pr (cp_close_brace pr)) raw indent]"

primrec override :: "(char \<Rightarrow> nat) \<Rightarrow> char list \<Rightarrow> nat list \<Rightarrow> char \<Rightarrow> nat" where
  "override env [] vs = env"
| "override env (c # cs) vs = override (env(c := hd vs)) cs (tl vs)"

lemma executed_tuples:
  "length cs = length ns \<Longrightarrow> executed (line_program ps tr (zip cs ns)) env
   = map (\<lambda>vs. line_subst (\<lambda>c. dec_string (override env cs vs c)) ps @ tr) (product_lists (map (\<lambda>n. [0..<n]) ns))"
proof (induction cs ns arbitrary: env rule: list_induct2)
  case (Cons c cs n ns)
  then show ?case by (simp add: line_program_def map_concat comp_def fun_upd_def cong: if_cong)
qed (simp add: line_program_def)

lemma override_other: "c \<notin> set cs \<Longrightarrow> override env cs vs c = env c"
  by (induction cs arbitrary: env vs) auto

lemma override_member: "length cs = length vs \<Longrightarrow> c \<in> set cs \<Longrightarrow> override env cs vs c \<in> set vs"
proof (induction cs vs arbitrary: env rule: list_induct2)
  case (Cons d cs v vs)
  then show ?case by (cases "c \<in> set cs") (auto simp: override_other)
qed simp

text \<open>Looking up the value of an index in an assignment.\<close>

lemma assign_member:
  "distinct cs \<Longrightarrow> length cs = length vs \<Longrightarrow> c \<in> set cs \<Longrightarrow>
   \<lparr>iv_abstract = new_index tz c, iv_value = of_nat (override env cs vs c)\<rparr> \<in> set (assign (map (new_index tz) cs) vs)"
proof (induction cs vs arbitrary: env rule: list_induct2')
  case (4 d cs v vs)
  then show ?case by (cases "c = d") (auto simp: override_other)
qed auto

definition assignment_of :: "'u tokenizer \<Rightarrow> char list \<Rightarrow> nat list \<Rightarrow> indices_assignment \<Rightarrow> bool" where
  "assignment_of tz cs vs d \<longleftrightarrow> idb_inv iv_label d \<and> idb_list d = assign (map (new_index tz) cs) vs"

lemma assignment_of_lookup:
  assumes "assignment_of tz cs vs d" and "distinct cs" and "length cs = length vs" and "c \<in> set cs"
  shows "idb_deref d (idb_find c d) = Inr \<lparr>iv_abstract = new_index tz c, iv_value = of_nat (override env cs vs c)\<rparr>"
    (is "_ = Inr ?v")
proof -
  have inv: "idb_inv iv_label d" and v: "?v \<in> set (idb_list d)"
    using assms(1) assign_member [OF assms(2-4), of tz env] by (simp_all add: assignment_of_def)
  have l: "iv_label ?v = c" by (simp add: iv_label_def)
  have "c \<in> iv_label ` set (idb_list d)" using l [symmetric] v by (rule image_eqI)
  then obtain it where it: "idb_find c d = Some it" using idb_find_deref(1) [OF inv, of c] by (cases "idb_find c d") auto
  then obtain r where "idb_deref d (Some it) = Inr r" "r \<in> set (idb_list d)" "iv_label r = c"
    using idb_find_deref(2) [OF inv] by blast
  moreover have "r = ?v" using idb.items_distinct [OF inv] v l calculation(2,3) by (auto simp: distinct_map inj_on_def)
  ultimately show ?thesis using it by simp
qed

lemma tuple_values:
  assumes "vs \<in> set (product_lists (map (\<lambda>n. [0..<n]) ns))" and "\<And>n. n \<in> set ns \<Longrightarrow> n \<le> 2 ^ 32"
  shows "length vs = length ns" and "v \<in> set vs \<Longrightarrow> unat (of_nat v :: u32) = v"
proof -
  have "list_all2 (\<lambda>v n. v < n) vs ns" using assms(1)
    by (auto simp: product_lists_set list_all2_conv_all_nth)
  then show "length vs = length ns" "v \<in> set vs \<Longrightarrow> unat (of_nat v :: u32) = v"
    using assms(2) by (auto simp: list_all2_conv_all_nth in_set_conv_nth unat_of_nat) (metis less_le_trans mod_less nth_mem)
qed

lemma assign_labels: "iv_label ` set (assign (map (new_index tz) cs) vs) \<subseteq> set cs"
proof (induction cs vs rule: list_induct2')
  case (4 c cs v vs)
  then show ?case by (auto simp: iv_label_def)
qed (auto simp: assign_def)

lemma assign_append:
  "length as = length vs \<Longrightarrow> assign (as @ bs) (vs @ ws) = assign as vs @ assign bs ws"
  by (simp add: assign_def)

lemma merge_assignment_of:
  assumes l: "assignment_of tz cs vs la" and r: "assignment_of tz cs' vs' ra"
    and "length cs = length vs" and "set cs \<inter> set cs' = {}"
  shows "\<exists>a. idb_merge iv_label la ra = Inr a \<and> assignment_of tz (cs @ cs') (vs @ vs') a"
proof -
  have inv: "idb_inv iv_label la" "idb_inv iv_label ra" using l r by (simp_all add: assignment_of_def)
  have "find (\<lambda>x. iv_label x \<in> iv_label ` set (idb_list la)) (idb_list ra) = None"
  proof -
    have la: "iv_label ` set (idb_list la) \<subseteq> set cs" using l assign_labels [of tz cs vs] by (simp add: assignment_of_def)
    have ra: "iv_label ` set (idb_list ra) \<subseteq> set cs'" using r assign_labels [of tz cs' vs'] by (simp add: assignment_of_def)
    have "iv_label x \<notin> iv_label ` set (idb_list la)" if "x \<in> set (idb_list ra)" for x
      using that la ra assms(4) by blast
    then show ?thesis by (simp add: find_None_iff)
  qed
  with idb_merge_spec [OF inv] obtain d where "idb_merge iv_label la ra = Inr d" "idb_inv iv_label d"
    "idb_list d = idb_list la @ idb_list ra" by auto
  with l r assms(3) show ?thesis by (auto simp: assignment_of_def assign_append)
qed

lemma map_eq_list_all2: "map f xs = map g ys \<Longrightarrow> list_all2 (\<lambda>y x. f x = g y) ys xs"
  by (induction xs ys rule: list_induct2') auto

lemma list_all2_mono_in:
  "list_all2 P xs ys \<Longrightarrow> (\<And>x y. y \<in> set ys \<Longrightarrow> P x y \<Longrightarrow> Q x y) \<Longrightarrow> list_all2 Q xs ys"
  by (induction rule: list_all2_induct) auto

text \<open>All assignments of a set of indices, in the order of their tuples.\<close>

lemma visit_tuples:
  assumes "idb_inv ai_label src" and "idb_list src = map (new_index tz) cs"
    and "prod_list (ranges (idb_list src)) < 2 ^ 32"
  shows "\<exists>ds. visit_assignments (as_begin (assignment_set_new i src right_order)) (as_end (assignment_set_new i src right_order))
      = Inr ds
    \<and> list_all2 (assignment_of tz cs) (product_lists (map (\<lambda>n. [0..<n]) (ranges (idb_list src)))) ds"
proof -
  obtain ds where ds: "visit_assignments (as_begin (assignment_set_new i src right_order))
      (as_end (assignment_set_new i src right_order)) = Inr ds"
    "map idb_list ds = map (assign (idb_list src)) (value_tuples right_order (ranges (idb_list src)))"
    "list_all (idb_inv iv_label) ds"
    using visit_enumerates [OF assms(1,3), of i right_order] by blast
  let ?vs = "product_lists (map (\<lambda>n. [0..<n]) (ranges (idb_list src)))"
  have "map idb_list ds = map (assign (idb_list src)) ?vs" using ds(2) by (simp add: value_tuples_def)
  then have "list_all2 (\<lambda>v d. idb_list d = assign (idb_list src) v) ?vs ds" by (rule map_eq_list_all2)
  then have "list_all2 (assignment_of tz cs) ?vs ds"
    by (rule list_all2_mono_in) (use ds(3) in \<open>auto simp: assignment_of_def assms(2) list_all_iff\<close>)
  with ds(1) show ?thesis by blast
qed

section \<open>Writing a line of text and indices\<close>

definition plain_state :: "'u tokenizer \<Rightarrow> piece list \<Rightarrow> piece list \<Rightarrow> 'u world \<Rightarrow> 'u line_state \<Rightarrow> bool" where
  "plain_state tz psL psR w s \<longleftrightarrow> line_like tz psL (ln_left s) \<and> line_like tz psR (ln_right s) \<and> ln_world s = w"

lemma plain_state_out [simp]: "plain_state tz psL psR w (s\<lparr>ln_out := ls\<rparr>) = plain_state tz psL psR w s"
  by (simp add: plain_state_def)

definition decimals :: "(char \<Rightarrow> nat) \<Rightarrow> piece list \<Rightarrow> string" where
  "decimals env ps = line_subst (\<lambda>c. dec_string (env c)) ps"

lemma line_subst_cong: "(\<And>c. c \<in> set (line_labels ps) \<Longrightarrow> g c = h c) \<Longrightarrow> line_subst g ps = line_subst h ps"
proof (induction ps)
  case (Cons x ps)
  then show ?case by (cases x) simp_all
qed simp

text \<open>What is needed of an assignment to evaluate a line.\<close>

definition assigns :: "'u tokenizer \<Rightarrow> indices_assignment \<Rightarrow> (char \<Rightarrow> nat) \<Rightarrow> piece list \<Rightarrow> bool" where
  "assigns tz a env ps \<longleftrightarrow> (\<forall>c \<in> set (line_labels ps).
     \<exists>v. idb_deref a (idb_find c a) = Inr v \<and> unat (iv_value v) = env c)"

lemma assignment_of_assigns:
  assumes "assignment_of tz cs vs a" and "distinct cs" and "length cs = length vs" and "set (line_labels ps) \<subseteq> set cs"
    and "\<And>v. v \<in> set vs \<Longrightarrow> unat (of_nat v :: u32) = v"
  shows "assigns tz a (override env cs vs) ps"
  unfolding assigns_def
proof
  fix c assume "c \<in> set (line_labels ps)"
  then have c: "c \<in> set cs" using assms(4) by blast
  show "\<exists>v. idb_deref a (idb_find c a) = Inr v \<and> unat (iv_value v) = override env cs vs c"
    using assignment_of_lookup [OF assms(1-3) c, of env] assms(5) [OF override_member [OF assms(3) c, of env]] by simp
qed

lemma evaluated_like:
  assumes "line_like tz ps T" and "assigns tz a env ps"
  shows "\<exists>ts. evaluate_unroll a (T, w) = (Inr (of_nat (length (line_labels ps))), (with_tokens T ts, w))
    \<and> evaluate_simple post_macro (with_tokens T ts, w) = (Inr 0, (with_tokens T ts, w))
    \<and> line_like tz ps (with_tokens T ts) \<and> token_list_string (with_tokens T ts) = decimals env ps"
proof -
  from assms(2) obtain vals where v: "\<And>c. c \<in> set (line_labels ps) \<Longrightarrow>
      idb_deref a (idb_find c a) = Inr (vals c) \<and> unat (iv_value (vals c)) = env c"
    unfolding assigns_def by metis
  then have "line_subst (\<lambda>c. dec_string (unat (iv_value (vals c)))) ps = decimals env ps"
    unfolding decimals_def by (intro line_subst_cong) simp
  with unroll_like [OF assms(1), of a vals w] v show ?thesis by (metis simple_like)
qed

lemma counted_right:
  assumes "f (ln_right s, ln_world s) = (Inr k, (T, ln_world s))" and "g (T, ln_world s) = (Inr m, (T, ln_world s))"
  shows "and_then (count_replacements (on_right f)) (count_replacements (on_right g)) s
    = (Inr (), s\<lparr>ln_right := T, ln_counter := ln_counter s + k + m\<rparr>)"
  using assms by (simp add: and_then_def bindA_def count_replacements_def on_right_def update_line_def)

lemma counted_left:
  assumes "f (ln_left s, ln_world s) = (Inr k, (T, ln_world s))" and "g (T, ln_world s) = (Inr m, (T, ln_world s))"
  shows "and_then (count_replacements (on_left f)) (count_replacements (on_left g)) s
    = (Inr (), s\<lparr>ln_left := T, ln_counter := ln_counter s + k + m\<rparr>)"
  using assms by (simp add: and_then_def bindA_def count_replacements_def on_left_def update_line_def)

lemma evaluate_right_like:
  assumes "plain_state tz psL psR w s" and "assigns tz a env psR"
  shows "\<exists>R n. evaluate_right a s = (Inr (), s\<lparr>ln_right := R, ln_counter := n\<rparr>) \<and> line_like tz psR R
    \<and> token_list_string R = decimals env psR"
  using evaluated_like [of tz psR "ln_right s" a env "ln_world s"] assms counted_right
  unfolding evaluate_right_def plain_state_def by blast

lemma evaluate_left_like:
  assumes "plain_state tz psL psR w s" and "assigns tz a env psL"
  shows "\<exists>L n. evaluate_left a s = (Inr (), s\<lparr>ln_left := L, ln_counter := n\<rparr>) \<and> line_like tz psL L
    \<and> token_list_string L = decimals env psL"
  using evaluated_like [of tz psL "ln_left s" a env "ln_world s"] assms counted_left
  unfolding evaluate_left_def plain_state_def by blast

lemma line_like_empty: "line_like tz ps T \<Longrightarrow> tl_tokens T = [] \<longleftrightarrow> ps = []"
  by (auto simp: line_like_def)

lemma merge_right_like:
  assumes "plain_state tz psL psR w s" and "idb_merge iv_label la ra = Inr a" and "assigns tz a env psR"
  shows "\<exists>R n. bindA (merge_assignments ctx la ra) (\<lambda>a. and_then (evaluate_right a) g) s
      = g (s\<lparr>ln_right := R, ln_counter := n\<rparr>)
    \<and> line_like tz psR R \<and> token_list_string R = decimals env psR"
proof -
  obtain R n where "evaluate_right a s = (Inr (), s\<lparr>ln_right := R, ln_counter := n\<rparr>)" "line_like tz psR R"
    "token_list_string R = decimals env psR" using evaluate_right_like [OF assms(1,3)] by blast
  with assms(2) show ?thesis
    by (intro exI [of _ R] exI [of _ n]) (simp add: merge_assignments_def and_then_def bindA_def)
qed

lemma unroll_right_emits:
  assumes "idb_merge iv_label la ra = Inr a" and "assigns tz a env ps"
  shows "emits (plain_state tz [] ps w) (unroll_right sp ctx raw la ra) [decimals env ps @ trailing sp]"
  unfolding emits_def
proof (intro allI impI)
  fix s assume s: "plain_state tz [] ps w s"
  from merge_right_like [OF this assms] obtain R n where R: "unroll_right sp ctx raw la ra s
      = (\<lambda>s. (if tl_tokens (ln_left s) = [] then emit (token_list_string (ln_right s) @ trailing sp)
          else emit (dress (token_list_string (ln_right s)) raw 3)) s) (s\<lparr>ln_right := R, ln_counter := n\<rparr>)"
      "line_like tz ps R" "token_list_string R = decimals env ps"
    unfolding unroll_right_def by blast
  have "tl_tokens (ln_left s) = []" using s by (simp add: plain_state_def line_like_def)
  with R s show "\<exists>s'. unroll_right sp ctx raw la ra s = (Inr (), s') \<and> plain_state tz [] ps w s'
      \<and> ln_out s' = ln_out s @ [decimals env ps @ trailing sp]"
    by (simp add: emit_def update_line_def plain_state_def)
qed

text \<open>The statement that a line stands for: both sides with the operator between them.\<close>

definition operator_text :: "split_string \<Rightarrow> string" where
  "operator_text sp = (case ss_type sp of sum_split \<Rightarrow> '' = '' | sum_equal_split \<Rightarrow> '' += '' | no_split \<Rightarrow> [])"

definition statement :: "split_string \<Rightarrow> piece list \<Rightarrow> piece list \<Rightarrow> piece list" where
  "statement sp psL psR = (if ss_type sp = no_split then psR else psL @ Text_piece (operator_text sp) # psR)"

lemma line_subst_append [simp]: "line_subst g (ps @ qs) = line_subst g ps @ line_subst g qs"
  by (simp add: line_subst_def)

definition plain_sides :: "split_string \<Rightarrow> piece list \<Rightarrow> bool" where
  "plain_sides sp psL \<longleftrightarrow> (psL = [] \<longleftrightarrow> ss_type sp = no_split)"

lemma unroll_single_emits:
  assumes "plain_sides sp psL" and "it_deref (as_begin ras) = Inr r" and "idb_merge iv_label la r = Inr a"
    and "assigns tz la env psL" and "assigns tz a env psR"
  shows "emits (plain_state tz psL psR w) (and_then (evaluate_left la) (unroll_single sp ctx ras la))
     [decimals env (statement sp psL psR) @ trailing sp]"
  unfolding emits_def
proof (intro allI impI)
  fix s assume s: "plain_state tz psL psR w s"
  from evaluate_left_like [OF s assms(4)] obtain L n where L: "evaluate_left la s = (Inr (), s\<lparr>ln_left := L, ln_counter := n\<rparr>)"
    "line_like tz psL L" "token_list_string L = decimals env psL" by blast
  let ?s = "s\<lparr>ln_left := L, ln_counter := n\<rparr>"
  let ?g = "\<lambda>s. emit (token_list_string (ln_left s)
             @ (case ss_type sp of sum_split \<Rightarrow> '' ='' | sum_equal_split \<Rightarrow> '' +='' | no_split \<Rightarrow> [])
             @ (if tl_tokens (ln_left s) \<noteq> [] then '' '' else []) @ token_list_string (ln_right s) @ trailing sp) s"
  have "plain_state tz psL psR w ?s" using s L(2) by (simp add: plain_state_def)
  from merge_right_like [OF this assms(3,5), of ctx ?g] obtain R m where R: "unroll_single sp ctx ras la ?s
      = ?g (?s\<lparr>ln_right := R, ln_counter := m\<rparr>)"
      "line_like tz psR R" "token_list_string R = decimals env psR"
    using assms(2) by (auto simp: unroll_single_def liftE_def bindA_def)
  have e: "tl_tokens L = [] \<longleftrightarrow> psL = []" by (rule line_like_empty [OF L(2)])
  have "and_then (evaluate_left la) (unroll_single sp ctx ras la) s = ?g (?s\<lparr>ln_right := R, ln_counter := m\<rparr>)"
    using L(1) R(1) by (simp add: and_then_def bindA_def)
  with R L s assms(1) e show "\<exists>s'. and_then (evaluate_left la) (unroll_single sp ctx ras la) s = (Inr (), s')
      \<and> plain_state tz psL psR w s' \<and> ln_out s' = ln_out s @ [decimals env (statement sp psL psR) @ trailing sp]"
    by (auto simp: emit_def update_line_def plain_state_def statement_def operator_text_def plain_sides_def decimals_def
        split: split_type.splits)
qed

lemma emits_for_assignments:
  assumes "visit_assignments it fin = Inr ds" and "list_all2 P vs ds"
    and "\<And>v a. v \<in> set vs \<Longrightarrow> P v a \<Longrightarrow> emits Q (body a) (out v)"
  shows "emits Q (for_assignments it fin body) (concat (map out vs))"
  using emits_run_list [OF assms(2), of Q body out] assms(3) for_assignments_run [OF assms(1), of body]
  by (simp add: emits_def)

lemma evaluate_left_emits: "emits (plain_state tz [] psR w) (evaluate_left a) []"
  unfolding emits_def
proof (intro allI impI)
  fix s assume s: "plain_state tz [] psR w s"
  have "assigns tz a env []" for env by (simp add: assigns_def line_labels_def)
  from evaluate_left_like [OF s this] obtain L n where
    "evaluate_left a s = (Inr (), s\<lparr>ln_left := L, ln_counter := n\<rparr>)" "line_like tz [] L" by blast
  with s show "\<exists>s'. evaluate_left a s = (Inr (), s') \<and> plain_state tz [] psR w s' \<and> ln_out s' = ln_out s @ []"
    by (simp add: plain_state_def)
qed

lemma as_size_product:
  assumes "prod_list (ranges (idb_list src)) < 2 ^ 32"
  shows "unat (as_size (assignment_set_new i src order)) = prod_list (ranges (idb_list src))"
proof (cases "0 \<in> set (ranges (idb_list src))")
  case True
  then have "prod_list (ranges (idb_list src)) = 0" by (simp only: prod_list_zero_iff)
  with True show ?thesis using assignment_size_zero [of "idb_list src"] by (simp add: assignment_set_new_def)
next
  case False
  with assignment_size [OF assms] show ?thesis by (simp add: assignment_set_new_def)
qed

lemma unroll_several_emits:
  assumes "visit_assignments (as_begin ra) (as_end ra) = Inr ds" and "list_all2 P vs ds"
    and "\<And>v r. v \<in> set vs \<Longrightarrow> P v r \<Longrightarrow> \<exists>a. idb_merge iv_label la r = Inr a \<and> assigns tz a (env v) ps"
  shows "emits (plain_state tz [] ps w) (unroll_several sp ctx raw ra la) (map (\<lambda>v. decimals (env v) ps @ trailing sp) vs)"
proof -
  let ?Q = "plain_state tz [] ps w"
  have loop: "emits ?Q (for_assignments (as_begin ra) (as_end ra) (unroll_right sp ctx raw la))
      (concat (map (\<lambda>v. [decimals (env v) ps @ trailing sp]) vs))"
    by (rule emits_for_assignments [OF assms(1,2)]) (use assms(3) unroll_right_emits in blast)
  have nol: "tl_tokens (ln_left s) = []" if "?Q s" for s using that by (simp add: plain_state_def line_like_def)
  have head: "emits ?Q (\<lambda>s. (if tl_tokens (ln_left s) \<noteq> [] then emit (X s) else returnA ()) s) []" for X
    by (simp add: emits_def nol returnA_def)
  have tail: "emits ?Q (update_line (\<lambda>s. if tl_tokens (ln_left s) \<noteq> [] then Y s else s)) []" for Y
    by (simp add: emits_def nol update_line_def)
  from emits_then [OF head emits_then [OF loop tail]] show ?thesis by (simp add: unroll_several_def)
qed

text \<open>The indices that the loops of a line run over: those of the left-hand side for an assignment, whose right-hand
  side has no others, and those of the right-hand side for a line without a left-hand side.\<close>

definition plain_indices :: "split_string \<Rightarrow> piece list \<Rightarrow> piece list \<Rightarrow> char list \<Rightarrow> char list \<Rightarrow> bool" where
  "plain_indices sp psL psR csL csR \<longleftrightarrow>
     plain_sides sp psL \<and> (if ss_type sp = no_split then csL = [] else csR = [])
     \<and> set (line_labels psL) \<subseteq> set csL \<and> set (line_labels psR) \<subseteq> set (csL @ csR)"

definition executions :: "split_string \<Rightarrow> piece list \<Rightarrow> piece list \<Rightarrow> char list \<Rightarrow> nat list \<Rightarrow> string list" where
  "executions sp psL psR cs ns = map (\<lambda>vs. decimals (override (\<lambda>_. 0) cs vs) (statement sp psL psR) @ trailing sp)
     (product_lists (map (\<lambda>n. [0..<n]) ns))"

lemma length_tuples: "length (product_lists (map (\<lambda>n. [0..<n]) ns)) = prod_list ns"
  by (induction ns) (simp_all add: length_concat comp_def sum_list_triv)

lemma visit_first: "visit_assignments it fin = Inr (d # ds) \<Longrightarrow> it_deref it = Inr d"
  by (subst (asm) visit_assignments.simps) (auto simp: bindE_eq_Inr split: if_splits)

lemma merged_assigns:
  assumes "assignment_of tz csL vs la" and "assignment_of tz csR us ra" and "distinct (csL @ csR)"
    and "vs \<in> set (product_lists (map (\<lambda>n. [0..<n]) nsL))" and "us \<in> set (product_lists (map (\<lambda>n. [0..<n]) nsR))"
    and "length csL = length nsL" and "length csR = length nsR"
    and "\<And>n. n \<in> set (nsL @ nsR) \<Longrightarrow> n \<le> 2 ^ 32" and "set (line_labels ps) \<subseteq> set (csL @ csR)"
  shows "\<exists>a. idb_merge iv_label la ra = Inr a \<and> assigns tz a (override env (csL @ csR) (vs @ us)) ps"
proof -
  have l: "length vs = length csL" "length us = length csR"
    using tuple_values(1) [OF assms(4)] tuple_values(1) [OF assms(5)] assms(6-8) by simp_all
  have v: "unat (of_nat v :: u32) = v" if "v \<in> set (vs @ us)" for v
    using that tuple_values(2) [OF assms(4), of v] tuple_values(2) [OF assms(5), of v] assms(8) by auto
  from merge_assignment_of [OF assms(1,2) l(1) [symmetric]] assms(3)
  obtain a where a: "idb_merge iv_label la ra = Inr a" "assignment_of tz (csL @ csR) (vs @ us) a" by auto
  moreover have "assigns tz a (override env (csL @ csR) (vs @ us)) ps"
    by (rule assignment_of_assigns [OF a(2) assms(3) _ assms(9) v]) (simp_all add: l)
  ultimately show ?thesis by blast
qed


lemma range_bound: "n \<in> set (ranges as) \<Longrightarrow> n \<le> 2 ^ 32"
proof -
  assume "n \<in> set (ranges as)"
  then obtain a where "n = unat (numeric_range a)" by auto
  moreover have "unat (numeric_range a) < 2 ^ LENGTH(32)" by (rule unsigned_less)
  ultimately show ?thesis by simp
qed

text \<open>The databases of the two sides, and their assignment sets.\<close>

definition plain_databases ::
  "'u tokenizer \<Rightarrow> char list \<Rightarrow> char list \<Rightarrow> abstract_index_database \<Rightarrow> abstract_index_database \<Rightarrow> bool" where
  "plain_databases tz csL csR ldb rdb \<longleftrightarrow>
     idb_inv ai_label ldb \<and> idb_list ldb = map (new_index tz) csL \<and> prod_list (ranges (idb_list ldb)) < 2 ^ 32
     \<and> idb_inv ai_label rdb \<and> idb_list rdb = map (new_index tz) csR \<and> prod_list (ranges (idb_list rdb)) < 2 ^ 32
     \<and> distinct (csL @ csR)"

abbreviation (input) tuples :: "nat list \<Rightarrow> nat list list" where
  "tuples ns \<equiv> product_lists (map (\<lambda>n. [0..<n]) ns)"

abbreviation (input) env_of :: "char list \<Rightarrow> nat list \<Rightarrow> char \<Rightarrow> nat" where
  "env_of \<equiv> override (\<lambda>_. 0)"

lemma plain_databases_lengths:
  "plain_databases tz csL csR ldb rdb \<Longrightarrow>
   length csL = length (ranges (idb_list ldb)) \<and> length csR = length (ranges (idb_list rdb))"
  by (simp add: plain_databases_def)

lemma plain_merge:
  assumes p: "plain_databases tz csL csR ldb rdb" and "plain_indices sp psL psR csL csR"
    and "assignment_of tz csL vs l" "assignment_of tz csR us r"
    and "vs \<in> set (tuples (ranges (idb_list ldb)))" "us \<in> set (tuples (ranges (idb_list rdb)))"
  shows "\<exists>a. idb_merge iv_label l r = Inr a \<and> assigns tz a (env_of (csL @ csR) (vs @ us)) psR"
proof (rule merged_assigns [OF assms(3,4) _ assms(5,6)])
  show "n \<le> 2 ^ 32" if "n \<in> set (ranges (idb_list ldb) @ ranges (idb_list rdb))" for n
    using that range_bound [of n "idb_list ldb"] range_bound [of n "idb_list rdb"] by auto
qed (use p assms(2) in \<open>simp_all add: plain_databases_def plain_indices_def\<close>)

lemma plain_left_assigns:
  assumes p: "plain_databases tz csL csR ldb rdb" and q: "plain_indices sp psL psR csL csR"
    and v: "assignment_of tz csL vs l" "vs \<in> set (tuples (ranges (idb_list ldb)))"
    and u: "us \<in> set (tuples (ranges (idb_list rdb)))"
  shows "assigns tz l (env_of (csL @ csR) (vs @ us)) psL"
proof (cases "ss_type sp = no_split")
  case True
  then show ?thesis using q by (simp add: plain_indices_def plain_sides_def assigns_def line_labels_def)
next
  case False
  then have "csR = []" "us = []" using p q u by (auto simp: plain_indices_def plain_databases_def)
  moreover have b: "n \<le> 2 ^ 32" if "n \<in> set (ranges (idb_list ldb))" for n by (rule range_bound [OF that])
  moreover have "assigns tz l (env_of csL vs) psL"
  proof (rule assignment_of_assigns [OF v(1)])
    show "length csL = length vs" using tuple_values(1) [OF v(2) b] plain_databases_lengths [OF p] by simp
    show "unat (of_nat x :: u32) = x" if "x \<in> set vs" for x by (rule tuple_values(2) [OF v(2) b that])
  qed (use p q in \<open>simp_all add: plain_databases_def plain_indices_def\<close>)
  ultimately show ?thesis by simp
qed

text \<open>What unrolling does for one assignment of the left-hand side.\<close>

definition unroll_row :: "split_string \<Rightarrow> nat \<times> nat \<Rightarrow> assignment_set \<Rightarrow> indices_assignment \<Rightarrow> ('u, unit) line_act" where
  "unroll_row sp ctx ra l = and_then (evaluate_left l)
     (if 1 < as_size ra then unroll_several sp ctx (compute_prefix sp) ra l
      else if as_size ra = 1 then unroll_single sp ctx ra l else returnA ())"

definition row_out ::
  "split_string \<Rightarrow> piece list \<Rightarrow> piece list \<Rightarrow> char list \<Rightarrow> nat list \<Rightarrow> nat list list \<Rightarrow> string list" where
  "row_out sp psL psR cs vs uss = map (\<lambda>us. decimals (env_of cs (vs @ us)) (statement sp psL psR) @ trailing sp) uss"

lemma row_single:
  assumes p: "plain_databases tz csL csR ldb rdb" and q: "plain_indices sp psL psR csL csR"
    and v: "assignment_of tz csL vs l" "vs \<in> set (tuples (ranges (idb_list ldb)))"
    and one: "prod_list (ranges (idb_list rdb)) = 1"
  shows "emits (plain_state tz psL psR w) (unroll_row sp ctx (assignment_set_new 1 rdb right_order) l)
     (row_out sp psL psR (csL @ csR) vs (tuples (ranges (idb_list rdb))))"
proof -
  let ?ra = "assignment_set_new 1 rdb right_order" and ?R = "tuples (ranges (idb_list rdb))"
  have r: "idb_inv ai_label rdb" "idb_list rdb = map (new_index tz) csR" "prod_list (ranges (idb_list rdb)) < 2 ^ 32"
    using p unfolding plain_databases_def by blast+
  obtain us where us: "?R = [us]" using one length_tuples [of "ranges (idb_list rdb)"] by (auto simp: length_Suc_conv)
  obtain ds where "visit_assignments (as_begin ?ra) (as_end ?ra) = Inr ds" "list_all2 (assignment_of tz csR) ?R ds"
    using visit_tuples [OF r, of 1] by blast
  then obtain a where a: "it_deref (as_begin ?ra) = Inr a" "assignment_of tz csR us a"
    using us visit_first by (auto simp: list_all2_Cons1)
  have size: "as_size ?ra = 1" using as_size_product [OF r(3), of 1 right_order] one by (metis unat_1 word_unat_eq_iff)
  have u: "us \<in> set ?R" using us by simp
  obtain m where "idb_merge iv_label l a = Inr m" "assigns tz m (env_of (csL @ csR) (vs @ us)) psR"
    using plain_merge [OF p q v(1) a(2) v(2) u] by blast
  from unroll_single_emits [OF _ a(1) this(1) plain_left_assigns [OF p q v u] this(2)] q show ?thesis
    unfolding unroll_row_def row_out_def size us by (simp add: plain_indices_def)
qed

lemma row_several:
  assumes p: "plain_databases tz csL csR ldb rdb" and q: "plain_indices sp psL psR csL csR"
    and v: "assignment_of tz csL vs l" "vs \<in> set (tuples (ranges (idb_list ldb)))"
    and many: "prod_list (ranges (idb_list rdb)) \<noteq> 1"
  shows "emits (plain_state tz psL psR w) (unroll_row sp ctx (assignment_set_new 1 rdb right_order) l)
     (row_out sp psL psR (csL @ csR) vs (tuples (ranges (idb_list rdb))))"
proof -
  let ?ra = "assignment_set_new 1 rdb right_order" and ?R = "tuples (ranges (idb_list rdb))"
  have r: "idb_inv ai_label rdb" "idb_list rdb = map (new_index tz) csR" "prod_list (ranges (idb_list rdb)) < 2 ^ 32"
    using p unfolding plain_databases_def by blast+
  have ns: "ss_type sp = no_split" using q r(2) many by (auto simp: plain_indices_def split: if_splits)
  then have ps: "psL = []" and st: "statement sp [] psR = psR" using q by (simp_all add: plain_indices_def plain_sides_def statement_def)
  have size: "unat (as_size ?ra) = prod_list (ranges (idb_list rdb))" by (rule as_size_product [OF r(3)])
  show ?thesis
  proof (cases "prod_list (ranges (idb_list rdb)) = 0")
    case True
    then have "as_size ?ra = 0" "?R = []" using size length_tuples [of "ranges (idb_list rdb)"] by (simp_all add: unat_eq_0)
    then show ?thesis using emits_then [OF evaluate_left_emits emits_nothing] by (simp add: ps unroll_row_def row_out_def)
  next
    case False
    with many size have gt: "1 < as_size ?ra" by (simp add: word_less_nat_alt)
    obtain ds where ds: "visit_assignments (as_begin ?ra) (as_end ?ra) = Inr ds" "list_all2 (assignment_of tz csR) ?R ds"
      using visit_tuples [OF r, of 1] by blast
    have "emits (plain_state tz [] psR w) (unroll_several sp ctx (compute_prefix sp) ?ra l)
        (map (\<lambda>us. decimals (env_of (csL @ csR) (vs @ us)) psR @ trailing sp) ?R)"
      by (rule unroll_several_emits [OF ds]) (use plain_merge [OF p q v(1) _ v(2)] in blast)
    from emits_then [OF evaluate_left_emits this] gt show ?thesis by (simp add: st ps unroll_row_def row_out_def)
  qed
qed

lemma concat_twice: "concat (concat xss) = concat (map concat xss)"
  by (induction xss) auto

lemma tuples_append: "concat (map (\<lambda>vs. map (\<lambda>us. f (vs @ us)) (tuples ms)) (tuples ns)) = map f (tuples (ns @ ms))"
proof (induction ns arbitrary: f)
  case (Cons n ns)
  have "concat (map (\<lambda>vs. map (\<lambda>us. f (x # vs @ us)) (tuples ms)) (tuples ns)) = map (\<lambda>vs. f (x # vs)) (tuples (ns @ ms))" for x
    using Cons [of "\<lambda>vs. f (x # vs)"] by simp
  then show ?case by (simp add: map_concat concat_twice comp_def)
qed simp

text \<open>Unrolling a line of text and indices writes one statement for every assignment, in order.\<close>

lemma unroll_plain:
  assumes p: "plain_databases tz csL csR ldb rdb" and q: "plain_indices sp psL psR csL csR"
  shows "emits (plain_state tz psL psR w)
     (unroll_index_assignment ag sp ctx (assignment_set_new 0 ldb right_order) (assignment_set_new 1 rdb right_order))
     (if prod_list (ranges (idb_list ldb)) = 0 then [skipped_comment ag]
      else executions sp psL psR (csL @ csR) (ranges (idb_list ldb) @ ranges (idb_list rdb)))"
proof -
  let ?la = "assignment_set_new 0 ldb right_order" and ?ra = "assignment_set_new 1 rdb right_order"
  have l: "idb_inv ai_label ldb" "idb_list ldb = map (new_index tz) csL" "prod_list (ranges (idb_list ldb)) < 2 ^ 32"
    using p unfolding plain_databases_def by blast+
  have size: "unat (as_size ?la) = prod_list (ranges (idb_list ldb))" by (rule as_size_product [OF l(3)])
  show ?thesis
  proof (cases "prod_list (ranges (idb_list ldb)) = 0")
    case True
    with size have "as_size ?la = 0" by (simp add: unat_eq_0)
    then show ?thesis using True by (simp add: unroll_index_assignment_def emits_emit)
  next
    case False
    with size have nz: "as_size ?la \<noteq> 0" by auto
    obtain ds where ds: "visit_assignments (as_begin ?la) (as_end ?la) = Inr ds"
        "list_all2 (assignment_of tz csL) (tuples (ranges (idb_list ldb))) ds"
      using visit_tuples [OF l, of 0] by blast
    have "emits (plain_state tz psL psR w) (for_assignments (as_begin ?la) (as_end ?la) (unroll_row sp ctx ?ra))
        (concat (map (\<lambda>vs. row_out sp psL psR (csL @ csR) vs (tuples (ranges (idb_list rdb)))) (tuples (ranges (idb_list ldb)))))"
      by (rule emits_for_assignments [OF ds])
        (use row_single [OF p q] row_several [OF p q] in \<open>cases "prod_list (ranges (idb_list rdb)) = 1"; simp\<close>)
    then show ?thesis using False nz tuples_append
        [of "\<lambda>us. decimals (env_of (csL @ csR) us) (statement sp psL psR) @ trailing sp" "ranges (idb_list rdb)" "ranges (idb_list ldb)"]
      by (simp add: unroll_index_assignment_def unroll_row_def [abs_def] row_out_def executions_def)
  qed
qed

section \<open>Rolling up\<close>

definition nest :: "char list \<Rightarrow> nat list \<Rightarrow> loop_program \<Rightarrow> loop_program" where
  "nest cs ns p = foldr (\<lambda>(c, n) p. Loop c n p) (zip cs ns) p"

lemma line_program_nest:
  "length csL = length nsL \<Longrightarrow>
   line_program ps tr (zip (csL @ csR) (nsL @ nsR)) = nest csL nsL (nest csR nsR (Statement ps tr))"
  by (simp add: line_program_def nest_def)

lemma plant_loops_emits:
  assumes q: "\<And>s ls. Q s \<Longrightarrow> Q (s\<lparr>ln_out := ls\<rparr>)" and b: "\<And>i. emits Q (body i) (written pr raw p i)"
  shows "emits Q (plant_loops pr raw (map (new_index tz) cs) indent body)
    (written pr raw (nest cs (ranges (map (new_index tz) cs)) p) indent)"
proof (induction cs arbitrary: indent)
  case Nil
  then show ?case by (simp add: nest_def b)
next
  case (Cons c cs)
  note e = emits_emit [of Q, OF q]
  from emits_then [OF e emits_then [OF e emits_then [OF Cons [of "indent + cp_block_indent pr"] e]]]
  show ?case by (simp add: nest_def start_block_delimiter_def end_block_delimiter_def brace_line_def loop_name_def)
qed

text \<open>The state after the left-hand side has been converted to loop variables.\<close>

definition rolled_state :: "'u tokenizer \<Rightarrow> piece list \<Rightarrow> piece list \<Rightarrow> 'u world \<Rightarrow> 'u line_state \<Rightarrow> bool" where
  "rolled_state tz psL psR w s \<longleftrightarrow> plain_state tz psL psR w s \<and> token_list_string (ln_left s) = line_subst loop_name psL"

lemma trim_left_Nil [simp]: "trim_left [] = []"
  by (simp add: trim_left_def)

lemma trim_left_append: "\<not> list_all isspace x \<Longrightarrow> trim_left (x @ y) = trim_left x @ y"
  by (auto simp: trim_left_def list_all_iff dropWhile_append1)

lemma rolled_statement_like:
  assumes "line_like tz psL L" "token_list_string L = line_subst loop_name psL" "token_list_string R = line_subst loop_name psR"
    and "plain_sides sp psL" and "psL \<noteq> [] \<Longrightarrow> \<not> list_all isspace (line_subst loop_name psL)"
  shows "rolled_statement sp True L R = trim_left (line_subst loop_name (statement sp psL psR) @ trailing sp)"
    and "psL = [] \<Longrightarrow> rolled_statement sp coalesce L R = trim_left (line_subst loop_name (statement sp psL psR) @ trailing sp)"
  using line_like_empty [OF assms(1)] assms(2-5)
  by (auto simp: rolled_statement_def statement_def operator_text_def plain_sides_def Let_def trim_left_append
      split: split_type.splits)

lemma plant_RHS_emits:
  assumes q: "plain_sides sp psL" "psL \<noteq> [] \<Longrightarrow> \<not> list_all isspace (line_subst loop_name psL)"
    and c: "coalesce \<or> psL = []"
  shows "emits (rolled_state tz psL psR w) (plant_RHS_forloop ag sp raw (map (new_index tz) cs) coalesce indent)
    (written (ma_printer ag) raw (nest cs (ranges (map (new_index tz) cs)) (Statement (statement sp psL psR) (trailing sp))) indent)"
  unfolding plant_RHS_forloop_def
proof (rule plant_loops_emits)
  show "rolled_state tz psL psR w (s\<lparr>ln_out := ls\<rparr>)" if "rolled_state tz psL psR w s" for s ls
    using that by (simp add: rolled_state_def)
  show "emits (rolled_state tz psL psR w) (and_then (count_replacements (on_right evaluate_roll))
         (and_then (count_replacements (on_right (evaluate_simple post_macro)))
           (\<lambda>s. emit (dress (rolled_statement sp coalesce (ln_left s) (ln_right s)) raw i) s)))
     (written (ma_printer ag) raw (Statement (statement sp psL psR) (trailing sp)) i)" (is "emits _ ?f _") for i
    unfolding emits_def
  proof (intro allI impI)
    fix s assume s: "rolled_state tz psL psR w s"
    then have l: "line_like tz psL (ln_left s)" "line_like tz psR (ln_right s)" "ln_world s = w"
      "token_list_string (ln_left s) = line_subst loop_name psL" by (simp_all add: rolled_state_def plain_state_def)
    from roll_like [OF l(2), of w] obtain ts where ts:
      "evaluate_roll (ln_right s, w) = (Inr (of_nat (length (line_labels psR))), (with_tokens (ln_right s) ts, w))"
      "line_like tz psR (with_tokens (ln_right s) ts)" "token_list_string (with_tokens (ln_right s) ts) = line_subst loop_name psR"
      by blast
    let ?R = "with_tokens (ln_right s) ts"
    have st: "rolled_statement sp coalesce (ln_left s) ?R = trim_left (line_subst loop_name (statement sp psL psR) @ trailing sp)"
      using rolled_statement_like [OF l(1,4) ts(3) q] c by auto
    have "?f s = (Inr (), s\<lparr>ln_right := ?R, ln_counter := ln_counter s + of_nat (length (line_labels psR)),
        ln_out := ln_out s @ [dress (rolled_statement sp coalesce (ln_left s) ?R) raw i]\<rparr>)"
      using ts(1) simple_like [OF ts(2), of post_macro w] l(3)
      by (simp add: and_then_def bindA_def count_replacements_def on_right_def update_line_def emit_def)
    then show "\<exists>s'. ?f s = (Inr (), s') \<and> rolled_state tz psL psR w s' \<and> ln_out s' = ln_out s
        @ written (ma_printer ag) raw (Statement (statement sp psL psR) (trailing sp)) i"
      using l ts(2) by (simp add: rolled_state_def plain_state_def st)
  qed
qed

lemma and_then_assoc: "and_then f (and_then g h) = and_then (and_then f g) h"
  by (simp add: and_then_def bindA_def fun_eq_iff split: prod.split sum.split)

definition roll_left :: "('u, unit) line_act" where
  "roll_left = and_then (count_replacements (on_left evaluate_roll)) (count_replacements (on_left (evaluate_simple post_macro)))"

lemma roll_left_like:
  assumes "plain_state tz psL psR w s"
  shows "\<exists>s'. roll_left s = (Inr (), s') \<and> rolled_state tz psL psR w s' \<and> ln_out s' = ln_out s"
proof -
  have l: "line_like tz psL (ln_left s)" "line_like tz psR (ln_right s)" "ln_world s = w"
    using assms by (simp_all add: plain_state_def)
  from roll_like [OF l(1), of "ln_world s"] obtain ts where ts:
    "evaluate_roll (ln_left s, ln_world s) = (Inr (of_nat (length (line_labels psL))), (with_tokens (ln_left s) ts, ln_world s))"
    "line_like tz psL (with_tokens (ln_left s) ts)" "token_list_string (with_tokens (ln_left s) ts) = line_subst loop_name psL"
    by blast
  from counted_left [of evaluate_roll s _ _ "evaluate_simple post_macro", OF ts(1) simple_like [OF ts(2)]] ts l show ?thesis
    by (simp add: roll_left_def rolled_state_def plain_state_def)
qed

lemma emits_after:
  assumes "\<And>s. Q s \<Longrightarrow> \<exists>s'. f s = (Inr (), s') \<and> Q' s' \<and> ln_out s' = ln_out s"
    and "emits Q' g ls" and "\<And>s. Q' s \<Longrightarrow> Q s"
  shows "emits Q (and_then f g) ls"
  unfolding emits_def
proof (intro allI impI)
  fix s assume "Q s"
  with assms(1) obtain s1 where s1: "f s = (Inr (), s1)" "Q' s1" "ln_out s1 = ln_out s" by blast
  with assms(2) obtain s' where "g s1 = (Inr (), s')" "Q' s'" "ln_out s' = ln_out s1 @ ls" by (auto simp: emits_def)
  with s1 assms(3) show "\<exists>s'. and_then f g s = (Inr (), s') \<and> Q s' \<and> ln_out s' = ln_out s @ ls"
    by (simp add: and_then_def bindA_def)
qed

text \<open>Rolling a line up writes its loop program.\<close>

lemma roll_plain:
  assumes p: "plain_databases tz csL csR ldb rdb" and q: "plain_indices sp psL psR csL csR"
    and blank: "psL \<noteq> [] \<longrightarrow> \<not> list_all isspace (line_subst loop_name psL)"
  shows "emits (plain_state tz psL psR w)
     (forloop_index_assignment ag sp (assignment_set_new 0 ldb right_order) (assignment_set_new 1 rdb right_order))
     (if prod_list (ranges (idb_list ldb)) = 0 then [skipped_comment ag]
      else written (ma_printer ag) (compute_prefix sp)
        (line_program (statement sp psL psR) (trailing sp)
          (zip (csL @ csR) (ranges (idb_list ldb) @ ranges (idb_list rdb)))) 0)"
proof -
  let ?la = "assignment_set_new 0 ldb right_order" and ?ra = "assignment_set_new 1 rdb right_order"
  let ?raw = "compute_prefix sp" and ?Q = "plain_state tz psL psR w"
  have l: "idb_list ldb = map (new_index tz) csL" "prod_list (ranges (idb_list ldb)) < 2 ^ 32"
    and r: "idb_list rdb = map (new_index tz) csR" using p unfolding plain_databases_def by blast+
  have src: "idb_list (as_source ?la) = map (new_index tz) csL" "idb_list (as_source ?ra) = map (new_index tz) csR"
    by (simp_all add: assignment_set_new_def l(1) r(1))
  have one: "as_size ?ra = 1 \<or> psL = []"
    using q r(1) by (simp add: plain_indices_def plain_sides_def assignment_set_new_def split: if_splits)
  let ?pR = "nest csR (ranges (map (new_index tz) csR)) (Statement (statement sp psL psR) (trailing sp))"
  let ?inner = "plant_RHS_forloop ag sp ?raw (map (new_index tz) csR) (as_size ?ra = 1)"
  let ?zero = "\<lambda>i s. (if tl_tokens (ln_left s) \<noteq> [] \<and> 1 < as_size ?ra \<and> ss_type sp = sum_split
               then emit (dress (trim_left (token_list_string (ln_left s) @ '' = 0;'')) ?raw i) else returnA ()) s"
  have body: "emits ?Q (and_then roll_left (and_then (?zero i) (?inner i))) (written (ma_printer ag) ?raw ?pR i)" for i
  proof (rule emits_after [OF roll_left_like])
    have "emits (rolled_state tz psL psR w) (?inner i) (written (ma_printer ag) ?raw ?pR i)"
      using q one using blank by (intro plant_RHS_emits) (auto simp: plain_indices_def)
    then show "emits (rolled_state tz psL psR w) (and_then (?zero i) (?inner i)) (written (ma_printer ag) ?raw ?pR i)"
    proof (rule emits_after [rotated])
      fix s assume "rolled_state tz psL psR w s"
      then have "tl_tokens (ln_left s) = [] \<longleftrightarrow> psL = []"
        using line_like_empty by (auto simp: rolled_state_def plain_state_def)
      with one have "?zero i s = (Inr (), s)" by (auto simp: returnA_def)
      then show "\<exists>s'. ?zero i s = (Inr (), s') \<and> rolled_state tz psL psR w s' \<and> ln_out s' = ln_out s"
        using \<open>rolled_state tz psL psR w s\<close> by simp
    qed
  qed (simp_all add: rolled_state_def)
  have "emits ?Q (plant_LHS_forloop ag sp ?raw (map (new_index tz) csL) ?ra 0)
     (written (ma_printer ag) ?raw (nest csL (ranges (map (new_index tz) csL)) ?pR) 0)"
    unfolding plant_LHS_forloop_def src
    by (rule plant_loops_emits) (use body in \<open>simp_all add: and_then_assoc roll_left_def\<close>)
  moreover have "line_program (statement sp psL psR) (trailing sp)
      (zip (csL @ csR) (ranges (idb_list ldb) @ ranges (idb_list rdb))) = nest csL (ranges (map (new_index tz) csL)) ?pR"
    by (subst line_program_nest) (simp_all add: l(1) r(1))
  moreover have "as_size ?la = 0 \<longleftrightarrow> prod_list (ranges (idb_list ldb)) = 0"
    using as_size_product [OF l(2), of 0 right_order] by (metis unat_0 word_unat_eq_iff)
  ultimately show ?thesis by (simp add: forloop_index_assignment_def src emits_emit)
qed

section \<open>A line from end to end\<close>

lemma agent_tokenizer_simps [simp]:
  "new_index (agent_tokenizer ag db b w) = new_index (ma_tokenizer ag)"
  "tz_prefix (agent_tokenizer ag db b w) = tz_prefix (ma_tokenizer ag)"
  by (simp_all add: agent_tokenizer_def new_index_def [abs_def])

lemma line_ok_validation:
  "line_ok (agent_tokenizer ag db b w) ps = line_ok (agent_tokenizer ag db' b' w) ps"
proof -
  have "starts_name (agent_tokenizer ag db b w) = starts_name (agent_tokenizer ag db' b' w)"
    by (simp add: starts_name_def [abs_def] rule_names_def agent_tokenizer_def)
  then show ?thesis
    by (induction "agent_tokenizer ag db' b' w" ps rule: line_ok.induct) simp_all
qed

text \<open>No label of the line starts the name of a rule, local rules included.\<close>

definition plain_line :: "'u agent \<Rightarrow> 'u world \<Rightarrow> piece list \<Rightarrow> bool" where
  "plain_line ag w ps \<longleftrightarrow> (\<forall>w'. logs_only w w' \<longrightarrow> line_ok (agent_tokenizer ag None False w') ps)"

definition first_labels :: "piece list \<Rightarrow> char list" where
  "first_labels ps = foldl add_new [] (line_labels ps)"

definition plain_list :: "'u tokenizer \<Rightarrow> piece list \<Rightarrow> 'u token_list \<Rightarrow> bool" where
  "plain_list tz ps T \<longleftrightarrow> line_like tz ps T \<and> idb_inv ai_label (tl_db T)
     \<and> idb_list (tl_db T) = map (new_index tz) (first_labels ps) \<and> unroll_status T = allow_unroll"

lemma agent_tokenize_plain:
  assumes "tz_prefix (ma_tokenizer ag) \<noteq> []" and "plain_line ag w ps" and "logs_only w w1"
  shows "\<exists>T w'. agent_tokenize ag (line_print (tz_prefix (ma_tokenizer ag)) ps) db b w1 = (Inr T, w')
    \<and> plain_list (ma_tokenizer ag) ps T \<and> logs_only w w'"
proof -
  let ?tz = "agent_tokenizer ag db b w1"
  have ok: "line_ok ?tz ps"
    using assms(2,3) line_ok_validation [of ag db b w1 ps None False] by (auto simp: plain_line_def)
  obtain T w' where T: "token_list_new ?tz (line_print (tz_prefix ?tz) ps) w1 = (Inr T, w')"
    "tl_tokens T = line_tokens ?tz 0 ps" "idb_list (tl_db T) = map (new_index ?tz) (foldl add_new [] (line_labels ps))"
    "db_wf ?tz (tl_db T)" "unroll_status T = allow_unroll" "logs_only w1 w'"
    using line_token_list [OF _ ok, of w1] assms(1) by auto
  have "line_like ?tz ps T" using T(2) line_tokens_like [of ?tz ps 0] by (simp add: line_like_def)
  moreover have "piece_like ?tz = piece_like (ma_tokenizer ag)"
    unfolding piece_like_def [abs_def] agent_tokenizer_simps(1) by (rule refl)
  ultimately have "line_like (ma_tokenizer ag) ps T" by (simp add: line_like_def)
  with T assms(3) show ?thesis
    by (simp add: agent_tokenize_def plain_list_def first_labels_def db_wf_def)
qed

lemma to_database_error: "to_database ls = Inl e \<Longrightarrow> \<exists>l s f. e = Duplicate_index l s f"
proof (induction ls rule: rev_induct)
  case (snoc l ls)
  then show ?case
    by (cases "to_database ls") (auto simp: to_database_def to_database_step_def split: if_splits)
qed (simp add: to_database_def)

lemma logs_only_foldl: "(\<And>w x. logs_only w (f w x)) \<Longrightarrow> logs_only w (foldl f w xs)"
  by (induction xs arbitrary: w) simp_all

lemma validation_logs [simp]:
  fixes w :: "'u world"
  shows "logs_only w (validate_RHS_indices ag L R w)"
proof -
  have "logs_only w (validate_RHS_count ds w)" for ds and w :: "'u world"
    unfolding validate_RHS_count_def by (rule logs_only_foldl) (auto split: if_splits)
  moreover have "logs_only w (validate_RHS_variances ds w)" for ds and w :: "'u world"
    unfolding validate_RHS_variances_def by (rule logs_only_foldl) (auto simp: Let_def split: if_splits)
  ultimately show ?thesis by (simp add: validate_RHS_indices_def Let_def)
qed

lemma perform_tokenization_plain:
  assumes "tz_prefix (ma_tokenizer ag) \<noteq> []" and "plain_line ag w psL" "plain_line ag w psR"
    and "ss_left sp = line_print (tz_prefix (ma_tokenizer ag)) psL" "ss_right sp = line_print (tz_prefix (ma_tokenizer ag)) psR"
  shows "\<exists>L R w'. perform_tokenization ag sp w = (Inr (L, R), w') \<and> plain_list (ma_tokenizer ag) psL L
    \<and> plain_list (ma_tokenizer ag) psR R \<and> logs_only w w'"
proof -
  obtain L w1 where L: "agent_tokenize ag (ss_left sp) None False w = (Inr L, w1)" "plain_list (ma_tokenizer ag) psL L"
    "logs_only w w1" using agent_tokenize_plain [OF assms(1,2), of w None False] assms(4) by auto
  obtain db w2 where w2: "logs_only w w2" "perform_tokenization ag sp w
      = bindA (agent_tokenize ag (ss_right sp) db False) (\<lambda>R w3.
             (Inr (L, R), if ss_type sp \<noteq> no_split then validate_RHS_indices ag L R w3 else w3)) w2"
  proof (cases "to_database (tl_decls L)")
    case (Inr d)
    then show ?thesis using that [of w1 "Some d"] L by (simp add: perform_tokenization_def bindA_def)
  next
    case (Inl e)
    then obtain l s f where "e = Duplicate_index l s f" using to_database_error by blast
    then show ?thesis using that [of "logA Sev_error ''ERROR_LHS_INDEX_DUPLICATE'' [l] (s, f) w1" None] L Inl
      by (simp add: perform_tokenization_def bindA_def)
  qed
  obtain R w3 where "agent_tokenize ag (ss_right sp) db False w2 = (Inr R, w3)" "plain_list (ma_tokenizer ag) psR R"
    "logs_only w w3" using agent_tokenize_plain [OF assms(1,3) w2(1), of db False] assms(5) by auto
  with L(2) w2(2) show ?thesis by (simp add: bindA_def)
qed

lemma right_indices_plain:
  assumes "plain_list tz psL (ln_left s)" and "plain_list tz psR (ln_right s)"
  shows "\<exists>d. right_indices ctx s = (Inr d, s) \<and> idb_inv ai_label d
    \<and> idb_list d = map (new_index tz) (filter (\<lambda>c. c \<notin> set (first_labels psL)) (first_labels psR))"
proof -
  have l: "idb_inv ai_label (tl_db (ln_left s))" "idb_list (tl_db (ln_left s)) = map (new_index tz) (first_labels psL)"
    and r: "idb_inv ai_label (tl_db (ln_right s))" "idb_list (tl_db (ln_right s)) = map (new_index tz) (first_labels psR)"
    using assms by (simp_all add: plain_list_def)
  have "find (\<lambda>x. \<exists>y \<in> set (idb_list (tl_db (ln_left s))). ai_label y = ai_label x \<and> ai_class y \<noteq> ai_class x)
      (idb_list (tl_db (ln_right s))) = None"
    unfolding l(2) r(2) find_None_iff by auto
  with idb_difference_spec [OF r(1) l(1), of ai_class] obtain d where d:
    "idb_difference ai_label ai_class (tl_db (ln_right s)) (tl_db (ln_left s)) = Inr d" "idb_inv ai_label d"
    "idb_list d = filter (\<lambda>x. ai_label x \<notin> ai_label ` set (idb_list (tl_db (ln_left s)))) (idb_list (tl_db (ln_right s)))"
    by auto
  have "ai_label ` set (idb_list (tl_db (ln_left s))) = set (first_labels psL)" unfolding l(2) by (simp add: image_image)
  with d show ?thesis by (simp add: right_indices_def returnA_def r(2) filter_map comp_def)
qed

lemma first_labels_Nil [simp]: "first_labels [] = []"
  by (simp add: first_labels_def line_labels_def)

lemma add_new_set: "set (foldl add_new xs cs) = set xs \<union> set cs"
  by (induction cs arbitrary: xs) (auto simp: add_new_def)

lemma add_new_distinct: "distinct xs \<Longrightarrow> distinct (foldl add_new xs cs)"
  by (induction cs arbitrary: xs) (auto simp: add_new_def)

lemma first_labels_set: "set (first_labels ps) = set (line_labels ps)" and first_labels_distinct: "distinct (first_labels ps)"
  by (simp_all add: first_labels_def add_new_set add_new_distinct)

lemma add_new_known: "set cs \<subseteq> set xs \<Longrightarrow> foldl add_new xs cs = xs"
  by (induction cs) (simp_all add: add_new_def)

text \<open>The loops of a plain line, and the program they make around its statement.\<close>

definition line_loops :: "'u agent \<Rightarrow> piece list \<Rightarrow> piece list \<Rightarrow> (char \<times> nat) list" where
  "line_loops ag psL psR =
     map (\<lambda>c. (c, unat (numeric_range (new_index (ma_tokenizer ag) c)))) (first_labels (psL @ psR))"

definition plain_program :: "'u agent \<Rightarrow> split_string \<Rightarrow> piece list \<Rightarrow> piece list \<Rightarrow> loop_program" where
  "plain_program ag sp psL psR = line_program (statement sp psL psR) (trailing sp) (line_loops ag psL psR)"

definition line_size :: "'u agent \<Rightarrow> piece list \<Rightarrow> piece list \<Rightarrow> nat" where
  "line_size ag psL psR = prod_list (map snd (line_loops ag psL psR))"

text \<open>A line without a marker, or an assignment whose right-hand side has no indices of its own.\<close>

definition plain_split :: "split_string \<Rightarrow> piece list \<Rightarrow> piece list \<Rightarrow> bool" where
  "plain_split sp psL psR \<longleftrightarrow> plain_sides sp psL
     \<and> (psL \<noteq> [] \<longrightarrow> set (line_labels psR) \<subseteq> set (line_labels psL) \<and> \<not> list_all isspace (line_subst loop_name psL))"

lemma plain_split_databases:
  assumes "plain_split sp psL psR" and "plain_list tz psL L" and "line_size ag psL psR < 2 ^ 32" and "tz = ma_tokenizer ag"
    and "idb_inv ai_label rdb" and "idb_list rdb = map (new_index tz) csR"
    and csR: "csR = filter (\<lambda>c. c \<notin> set (first_labels psL)) (first_labels psR)"
  shows "plain_databases tz (first_labels psL) csR (tl_db L) rdb"
    and "plain_indices sp psL psR (first_labels psL) csR"
    and "line_loops ag psL psR = zip (first_labels psL @ csR) (ranges (idb_list (tl_db L)) @ ranges (idb_list rdb))"
    and "prod_list (ranges (idb_list (tl_db L))) * prod_list (ranges (idb_list rdb)) = line_size ag psL psR"
    and "psL = [] \<Longrightarrow> prod_list (ranges (idb_list (tl_db L))) = 1"
    and "psL \<noteq> [] \<Longrightarrow> prod_list (ranges (idb_list (tl_db L))) = line_size ag psL psR"
proof -
  have L: "idb_inv ai_label (tl_db L)" "idb_list (tl_db L) = map (new_index tz) (first_labels psL)"
    using assms(2) by (simp_all add: plain_list_def)
  have cs: "first_labels (psL @ psR) = first_labels psL @ csR" "psL = [] \<or> csR = []"
  proof (atomize (full), cases "psL = []")
    case True
    then show "first_labels (psL @ psR) = first_labels psL @ csR \<and> (psL = [] \<or> csR = [])" using csR by simp
  next
    case False
    then have sub: "set (line_labels psR) \<subseteq> set (first_labels psL)" using assms(1) by (auto simp: plain_split_def first_labels_set)
    then have "csR = []" using csR by (auto simp: filter_empty_conv first_labels_set)
    moreover have "first_labels (psL @ psR) = first_labels psL"
      using add_new_known [OF sub] by (simp add: first_labels_def line_labels_def)
    ultimately show "first_labels (psL @ psR) = first_labels psL @ csR \<and> (psL = [] \<or> csR = [])" by simp
  qed
  let ?r = "\<lambda>c. unat (numeric_range (new_index tz c))"
  have rng: "ranges (idb_list (tl_db L)) = map ?r (first_labels psL)" "ranges (idb_list rdb) = map ?r csR"
    unfolding L(2) assms(6) by simp_all
  have loops: "line_loops ag psL psR = map (\<lambda>c. (c, ?r c)) (first_labels psL @ csR)"
    by (simp add: line_loops_def cs(1) assms(4))
  then show "line_loops ag psL psR = zip (first_labels psL @ csR) (ranges (idb_list (tl_db L)) @ ranges (idb_list rdb))"
    unfolding rng map_append [symmetric] by (simp add: zip_map2 zip_same_conv_map)
  show prod: "prod_list (ranges (idb_list (tl_db L))) * prod_list (ranges (idb_list rdb)) = line_size ag psL psR"
    unfolding rng line_size_def loops by (simp add: comp_def)
  show one: "psL = [] \<Longrightarrow> prod_list (ranges (idb_list (tl_db L))) = 1" unfolding rng by simp
  show all: "psL \<noteq> [] \<Longrightarrow> prod_list (ranges (idb_list (tl_db L))) = line_size ag psL psR"
    using prod cs(2) unfolding rng by auto
  have lt: "prod_list (ranges (idb_list (tl_db L))) < 2 ^ 32 \<and> prod_list (ranges (idb_list rdb)) < 2 ^ 32"
  proof (cases "psL = []")
    case True
    then show ?thesis using one prod assms(3) by simp
  next
    case False
    then show ?thesis using all assms(3,6) cs(2) by simp
  qed
  show "plain_databases tz (first_labels psL) csR (tl_db L) rdb"
    unfolding plain_databases_def using L assms(5,6) lt csR by (auto simp: first_labels_distinct)
  show "plain_indices sp psL psR (first_labels psL) csR"
    using assms(1) cs(2) csR unfolding plain_indices_def plain_split_def plain_sides_def by (auto simp: first_labels_set)
qed

lemma policy_allow:
  assumes "unroll_status L = allow_unroll" and "unroll_status R = allow_unroll"
  shows "apply_unroll_policy ag L R la ra ctx w = (as_size la * as_size ra \<le> ma_unroll_policy ag \<or> ma_fast ag, w)"
  using assms by (simp add: apply_unroll_policy_def Let_def)

definition plain_output :: "'u agent \<Rightarrow> split_string \<Rightarrow> piece list \<Rightarrow> piece list \<Rightarrow> string list" where
  "plain_output ag sp psL psR =
     (if psL \<noteq> [] \<and> line_size ag psL psR = 0 then [skipped_comment ag]
      else if line_size ag psL psR \<le> unat (ma_unroll_policy ag) \<or> ma_fast ag
      then executed (plain_program ag sp psL psR) (\<lambda>_. 0)
      else written (ma_printer ag) (compute_prefix sp) (plain_program ag sp psL psR) 0)"

lemma write_line_plain:
  assumes "plain_split sp psL psR" and L: "plain_list (ma_tokenizer ag) psL (ln_left s)"
    and R: "plain_list (ma_tokenizer ag) psR (ln_right s)"
    and "line_size ag psL psR < 2 ^ 32" and "ln_out s = []"
  shows "\<exists>s'. write_line ag sp ctx s = (Inr (), s') \<and> plain_state (ma_tokenizer ag) psL psR (ln_world s) s'
    \<and> ln_out s' = plain_output ag sp psL psR"
proof -
  let ?tz = "ma_tokenizer ag" and ?w = "ln_world s"
  let ?csR = "filter (\<lambda>c. c \<notin> set (first_labels psL)) (first_labels psR)"
  obtain d where d: "right_indices ctx s = (Inr d, s)" "idb_inv ai_label d" "idb_list d = map (new_index ?tz) ?csR"
    using right_indices_plain [OF L R] by blast
  note db = plain_split_databases [OF assms(1) L assms(4) refl d(2,3) refl]
  let ?la = "assignment_set_new 0 (tl_db (ln_left s)) right_order" and ?ra = "assignment_set_new 1 d right_order"
  have ll: "line_like ?tz psL (ln_left s)" "line_like ?tz psR (ln_right s)" using L R by (simp_all add: plain_list_def)
  have simple: "count_replacements (on_left (evaluate_simple pre_macro)) s = (Inr (), s)"
    "count_replacements (on_right (evaluate_simple pre_macro)) s = (Inr (), s)"
    using simple_like [OF ll(1)] simple_like [OF ll(2)]
    by (simp_all add: count_replacements_def on_left_def on_right_def bindA_def update_line_def)
  let ?unroll = "as_size ?la * as_size ?ra \<le> ma_unroll_policy ag \<or> ma_fast ag"
  have st: "unroll_status (ln_left s) = allow_unroll" "unroll_status (ln_right s) = allow_unroll"
    using L R by (simp_all add: plain_list_def)
  have run: "write_line ag sp ctx s =
      (if ?unroll then unroll_index_assignment ag sp ctx ?la ?ra else forloop_index_assignment ag sp ?la ?ra) s"
    by (simp add: write_line_def and_then_def bindA_def simple d(1) Let_def policy_allow [OF st])
  have pd: "prod_list (ranges (idb_list (tl_db (ln_left s)))) < 2 ^ 32" "prod_list (ranges (idb_list d)) < 2 ^ 32"
    using db(1) unfolding plain_databases_def by blast+
  have size: "unat (as_size ?la * as_size ?ra) = line_size ag psL psR"
    using as_size_product [OF pd(1), of 0 right_order] as_size_product [OF pd(2), of 1 right_order] db(4) assms(4)
    by (simp add: unat_word_ariths)
  then have unroll: "?unroll \<longleftrightarrow> line_size ag psL psR \<le> unat (ma_unroll_policy ag) \<or> ma_fast ag"
    by (simp add: word_le_nat_alt)
  have "psL \<noteq> [] \<longrightarrow> \<not> list_all isspace (line_subst loop_name psL)" using assms(1) by (simp add: plain_split_def)
  note out = unroll_plain [OF db(1,2), of ?w ag ctx] roll_plain [OF db(1,2) this, of ?w ag]
  have zero: "prod_list (ranges (idb_list (tl_db (ln_left s)))) = 0 \<longleftrightarrow> psL \<noteq> [] \<and> line_size ag psL psR = 0"
    using db(5,6) by (cases "psL = []") auto
  have ex: "executed (plain_program ag sp psL psR) (\<lambda>_. 0)
      = executions sp psL psR (first_labels psL @ ?csR) (ranges (idb_list (tl_db (ln_left s))) @ ranges (idb_list d))"
    unfolding plain_program_def db(3) executions_def decimals_def
    by (rule executed_tuples) (use plain_databases_lengths [OF db(1)] in simp)
  have ps: "plain_state ?tz psL psR ?w s" using ll by (simp add: plain_state_def)
  show ?thesis
  proof (cases ?unroll)
    case True
    then have "plain_output ag sp psL psR = (if prod_list (ranges (idb_list (tl_db (ln_left s)))) = 0 then [skipped_comment ag]
        else executions sp psL psR (first_labels psL @ ?csR) (ranges (idb_list (tl_db (ln_left s))) @ ranges (idb_list d)))"
      unfolding plain_output_def ex zero unroll by (simp only: if_True)
    with emitsD [OF out(1) ps assms(5)] show ?thesis unfolding run if_P [OF True] by (simp only:)
  next
    case False
    then have "plain_output ag sp psL psR = (if prod_list (ranges (idb_list (tl_db (ln_left s)))) = 0 then [skipped_comment ag]
        else written (ma_printer ag) (compute_prefix sp) (plain_program ag sp psL psR) 0)"
      unfolding plain_output_def zero unroll by (simp only: if_False)
    with emitsD [OF out(2) ps assms(5)] show ?thesis
      unfolding run if_not_P [OF False] plain_program_def db(3) by (simp only:)
  qed
qed

lemma plain_line_applied:
  assumes "tz_prefix (ma_tokenizer ag) \<noteq> []" and "w_enabled w" and "plain_line ag w psL" and "plain_line ag w psR"
    and "ss_left sp = line_print (tz_prefix (ma_tokenizer ag)) psL" and "ss_right sp = line_print (tz_prefix (ma_tokenizer ag)) psR"
    and "split_line line (ma_split_equal ag) (ma_split_sum_equal ag) = sp" and "plain_split sp psL psR"
    and "line_size ag psL psR < 2 ^ 32"
  shows "\<exists>n w'. logs_only w w' \<and> apply_line ag line r w = (Inr (plain_output ag sp psL psR, n), w')"
proof -
  obtain L R w1 where T: "perform_tokenization ag sp w = (Inr (L, R), w1)" "plain_list (ma_tokenizer ag) psL L"
    "plain_list (ma_tokenizer ag) psR R" "logs_only w w1"
    using perform_tokenization_plain [OF assms(1,3,4,5,6)] by blast
  have nod: "\<not> is_directive T" if "plain_list (ma_tokenizer ag) ps T" for ps T
  proof -
    have "list_all2 (piece_like (ma_tokenizer ag)) ps (tl_tokens T)" using that by (simp add: plain_list_def line_like_def)
    then have "list_all (\<lambda>t. \<not> is_directive_token t) (tl_tokens T)"
      by (induction rule: list_all2_induct) (auto elim!: piece_like_cases simp: is_directive_token_def)
    then show ?thesis by (auto simp: is_directive_def list_all_iff list_ex_iff)
  qed
  let ?s = "\<lparr>ln_left = L, ln_right = R, ln_counter = 0, ln_out = [], ln_world = w1\<rparr>"
  obtain s' where s': "write_line ag sp (split_point_context ag sp) ?s = (Inr (), s')"
    "plain_state (ma_tokenizer ag) psL psR w1 s'" "ln_out s' = plain_output ag sp psL psR"
    using write_line_plain [OF assms(8), of ag ?s "split_point_context ag sp"] T(2,3) assms(9) by auto
  have "destroy_tokens (tl_tokens (ln_right s') @ tl_tokens (ln_left s')) w1 = (None, w1)"
  proof -
    have "line_like (ma_tokenizer ag) (psR @ psL) (with_tokens L (tl_tokens (ln_right s') @ tl_tokens (ln_left s')))"
      using s'(2) by (simp add: plain_state_def line_like_def list_all2_appendI)
    from destroy_like [OF this] show ?thesis by simp
  qed
  then have "apply_line ag line r w = (Inr (plain_output ag sp psL psR, ln_counter s'), w1)"
    using T s' assms(2,7) nod [OF T(2)] nod [OF T(3)]
    by (simp add: apply_line_def Let_def bindA_def destroy_line_def plain_state_def)
  then show ?thesis using T(4) by blast
qed

text \<open>C32: An unrolled line is the execution of the loops it is rolled up to, for lines without sums. Take a line of text and
  index literals without a marker, or an assignment whose left-hand side is not blank and has all the indices of the right-hand side, so that nothing is summed
  over, with fewer than \<open>2\<^sup>32\<close> assignments of its indices. With output enabled the line is processed without an exception,
  and stands for one program, its statement in a nest of loops over its indices in the order they first occur. When
  the number of assignments is within the unrolling policy, or in fast mode, the lines written are the statements that the
  execution of the program goes through, with the values of the indices; otherwise they are the text of the program.
  An assignment with an empty index range is replaced by a comment. Nothing but diagnostics changes.\<close>

theorem unrolled_line_executes_loops:
  assumes "tz_prefix (ma_tokenizer ag) \<noteq> []" and "w_enabled w" and "plain_line ag w psL" and "plain_line ag w psR"
    and "ss_left sp = line_print (tz_prefix (ma_tokenizer ag)) psL" and "ss_right sp = line_print (tz_prefix (ma_tokenizer ag)) psR"
    and "split_line line (ma_split_equal ag) (ma_split_sum_equal ag) = sp" and "plain_split sp psL psR"
    and "line_size ag psL psR < 2 ^ 32"
  shows "\<exists>n w'. logs_only w w' \<and> apply_line ag line r w =
     (Inr (if psL \<noteq> [] \<and> line_size ag psL psR = 0 then [skipped_comment ag]
           else if line_size ag psL psR \<le> unat (ma_unroll_policy ag) \<or> ma_fast ag
           then executed (plain_program ag sp psL psR) (\<lambda>_. 0)
           else written (ma_printer ag) (compute_prefix sp) (plain_program ag sp psL psR) 0, n), w')"
  using plain_line_applied [OF assms] unfolding plain_output_def .

definition example_agent :: "u32 \<Rightarrow> unit agent" where
  "example_agent policy =
     \<lparr>ma_tokenizer = example_tokenizer, ma_local = \<lambda>_. [], ma_split_equal = ''$='', ma_split_sum_equal = ''$+='',
      ma_recursion_max = 127, ma_unroll_policy = policy, ma_fast = False, ma_unroll_warnings = False,
      ma_printer = default_printer\<rparr>"

definition example_world :: "unit world" where
  "example_world = \<lparr>w_log = [], w_enabled = True, w_user = ()\<rparr>"

theorem unrolled_line_executes_loops_witness:
  "(\<exists>n w'. apply_line (example_agent 4) ''  y[$a] $= x[$a];'' 0 example_world = (Inr ([''  y[0]  = x[0];'', ''  y[1]  = x[1];''], n), w'))
   \<and> (\<exists>n w'. apply_line (example_agent 1) ''  y[$a] $= x[$a];'' 0 example_world
        = (Inr ([''  for(unsigned int _a = 0; _a < 2; ++_a)'', ''   {'', ''     y[_a]  = x[_a];'', ''   }''], n), w'))"
proof -
  let ?L = "[Text_piece ''  y['', Index_piece [] (CHR ''a''), Text_piece ''] '']"
  let ?R = "[Text_piece ''x['', Index_piece [] (CHR ''a''), Text_piece '']'']"
  let ?line = "''  y[$a] $= x[$a];''"
  let ?sp = "split_line ?line ''$='' ''$+=''"
  have pfx: "tz_prefix example_tokenizer = ''$''" by (simp add: example_tokenizer_def)
  have names: "rule_names (agent_tokenizer (example_agent p) db b w) = []" for p db b w
    by (simp add: rule_names_def example_tokenizer_def agent_tokenizer_def example_agent_def)
  have pl: "plain_line (example_agent p) example_world ?L" "plain_line (example_agent p) example_world ?R" for p
    using pfx by (simp_all add: plain_line_def starts_name_def names Let_def) (simp_all add: example_agent_def)
  have sp: "ss_left ?sp = line_print ''$'' ?L" "ss_right ?sp = line_print ''$'' ?R" "plain_split ?sp ?L ?R"
    by code_simp+
  have size: "line_size (example_agent p) ?L ?R = 2" for p
    by (simp add: line_size_def line_loops_def example_agent_def) code_simp
  have loops: "line_loops (example_agent p) ?L ?R = [(CHR ''a'', 2)]" for p
    by (simp add: line_loops_def example_agent_def) code_simp
  have un: "executed (plain_program (example_agent 4) ?sp ?L ?R) (\<lambda>_. 0) = [''  y[0]  = x[0];'', ''  y[1]  = x[1];'']"
    unfolding plain_program_def loops by code_simp
  have ro: "written default_printer (compute_prefix ?sp) (plain_program (example_agent 1) ?sp ?L ?R) 0
      = [''  for(unsigned int _a = 0; _a < 2; ++_a)'', ''   {'', ''     y[_a]  = x[_a];'', ''   }'']"
    unfolding plain_program_def loops by code_simp
  have ag: "ma_tokenizer (example_agent p) = example_tokenizer" "ma_split_equal (example_agent p) = ''$=''"
    "ma_split_sum_equal (example_agent p) = ''$+=''" "ma_unroll_policy (example_agent p) = p"
    "ma_printer (example_agent p) = default_printer" "\<not> ma_fast (example_agent p)" for p
    by (simp_all add: example_agent_def)
  note run = unrolled_line_executes_loops [where line = ?line and r = 0 and w = example_world and sp = ?sp,
      OF _ _ pl _ _ _ sp(3), unfolded ag pfx size]
  have w: "w_enabled example_world" by (simp add: example_world_def)
  from run [OF _ w sp(1,2) refl, of 4] run [OF _ w sp(1,2) refl, of 1] show ?thesis
    unfolding un ro by (auto simp: ag)
qed

end
