(* ===== verification/Directives.thy ===== *)
theory Directives
  imports Macro_Agent_Facts
begin

text \<open>
  The directives of templates, \<open>backends/shared/directives.{h,cpp}\<close>: conditional output with \<open>IF\<close>,
  \<open>ELSE\<close> and \<open>ENDIF\<close> over a stack of open clauses, and user-defined macros with \<open>SET\<close>.
\<close>

section \<open>Conditional output\<close>

record if_record =
  if_condition :: string
  if_value :: bool
  if_branch :: bool
  if_enabled :: bool

definition if_record_new :: "string \<Rightarrow> bool \<Rightarrow> if_record" where
  "if_record_new c v = \<lparr>if_condition = c, if_value = v, if_branch = True, if_enabled = v\<rparr>"

definition mark_else_branch :: "if_record \<Rightarrow> if_record" where
  "mark_else_branch r = r\<lparr>if_branch := False, if_enabled := \<not> if_value r\<rparr>"

text \<open>The hidden state of the conditional directives is the stack, its top first; \<open>is_rest\<close> is the hidden state of
  the other rules.\<close>

record 'x if_state =
  is_stack :: "if_record list"
  is_rest :: 'x

type_synonym 'x if_world = "'x if_state world"

definition world_stack :: "'x if_world \<Rightarrow> if_record list" where
  "world_stack w = is_stack (w_user w)"

definition set_stack :: "if_record list \<Rightarrow> 'x if_world \<Rightarrow> 'x if_world" where
  "set_stack st w = w\<lparr>w_user := (w_user w)\<lparr>is_stack := st\<rparr>\<rparr>"

definition switch_output :: "bool \<Rightarrow> 'x if_world \<Rightarrow> 'x if_world" where
  "switch_output on w = (if on then enable_output w else disable_output w)"

text \<open>Argument 0 is read after the number of arguments was checked.\<close>

definition if_apply :: "bool \<Rightarrow> macro_argument_list \<Rightarrow> ('x if_world, string) act" where
  "if_apply fast args w =
     (let condition = fst (args ! 0);
          truth = ((condition = ''fast'' \<and> fast) \<or> (condition = ''!fast'' \<and> \<not> fast));
          r = if_record_new condition truth
      in (Inr (''IF '' @ condition), switch_output (if_enabled r) (set_stack (r # world_stack w) w)))"

definition else_apply :: "macro_argument_list \<Rightarrow> ('x if_world, string) act" where
  "else_apply args w =
     (case world_stack w of
        [] \<Rightarrow> (Inl (Rule_apply_fail ''ERROR_UNPAIRED_ELSE'' []), w)
      | r # rs \<Rightarrow>
          if \<not> if_branch r then (Inl (Rule_apply_fail ''ERROR_DUPLICATE_ELSE'' []), w)
          else (let r' = mark_else_branch r
                in (Inr (''ELSE '' @ if_condition r'), switch_output (if_enabled r') (set_stack (r' # rs) w))))"

definition endif_apply :: "macro_argument_list \<Rightarrow> ('x if_world, string) act" where
  "endif_apply args w =
     (case world_stack w of
        [] \<Rightarrow> (Inl (Rule_apply_fail ''ERROR_UNPAIRED_ENDIF'' []), w)
      | r # rs \<Rightarrow>
          (Inr (''ENDIF '' @ if_condition r),
           switch_output (case rs of [] \<Rightarrow> True | r' # rs' \<Rightarrow> if_enabled r') (set_stack rs w)))"

text \<open>The package, in the order in which the directives are registered.\<close>

definition if_directives :: "bool \<Rightarrow> 'x if_state simple_directive list" where
  "if_directives fast =
     [\<lparr>sd_name = ''IF'', sd_args = 1, sd_always_apply = True, sd_apply = if_apply fast\<rparr>,
      \<lparr>sd_name = ''ELSE'', sd_args = 0, sd_always_apply = True, sd_apply = else_apply\<rparr>,
      \<lparr>sd_name = ''ENDIF'', sd_args = 0, sd_always_apply = True, sd_apply = endif_apply\<rparr>]"

section \<open>User-defined macros\<close>

text \<open>A user macro owns the tokens of its definition, which its evaluations change, so its operations run in their
  state. It has no arguments, and as many indices as were declared.\<close>

record 'u user_macro =
  um_name :: string
  um_tokens :: "'u token_list"
  um_indices :: index_literal_list
  um_ctx :: "nat \<times> nat"

definition um_get_unroll :: "'u user_macro \<Rightarrow> unroll_state" where
  "um_get_unroll m = unroll_status (um_tokens m)"

definition on_tokens :: "('u, 'a) tl_act \<Rightarrow> ('u user_macro \<times> 'u world, 'a) act" where
  "on_tokens f s = (case f (um_tokens (fst s), snd s) of (r, (T, w)) \<Rightarrow> (r, ((fst s)\<lparr>um_tokens := T\<rparr>, w)))"

definition um_pre_hook :: "('u user_macro \<times> 'u world, unit) act" where
  "um_pre_hook = bindA (on_tokens (evaluate_simple pre_macro)) (\<lambda>_. returnA ())"

definition um_post_hook :: "('u user_macro \<times> 'u world, unit) act" where
  "um_post_hook = on_tokens token_list_reset"

text \<open>The declared indices are given the values of the invocation, in order.\<close>

fun um_assignment :: "index_literal_list \<Rightarrow> index_literal_assignment \<Rightarrow> indices_assignment \<Rightarrow> exn + indices_assignment" where
  "um_assignment (d # ds) ((l, v) # vs) a =
     bindE (idb_emplace_back iv_label (literal_label d) \<lparr>iv_abstract = il_idx d, iv_value = iv_value v\<rparr> a)
       (\<lambda>(_, a'). um_assignment ds vs a')"
| "um_assignment ds vs a = Inr a"

definition um_unroll :: "index_literal_assignment \<Rightarrow> ('u user_macro \<times> 'u world, string) act" where
  "um_unroll idxs s =
     (case um_assignment (um_indices (fst s)) idxs idb_empty of
        Inl e \<Rightarrow> (Inl e, s)
      | Inr a \<Rightarrow>
          bindA (on_tokens (evaluate_unroll a)) (\<lambda>_. bindA (on_tokens (evaluate_simple post_macro)) (\<lambda>_ s'.
            (Inr (token_list_string (um_tokens (fst s'))), s'))) s)"

definition um_roll :: "index_literal_list \<Rightarrow> ('u user_macro \<times> 'u world, string) act" where
  "um_roll idxs s =
     bindA (on_tokens (evaluate_remap (zip (um_indices (fst s)) idxs))) (\<lambda>_.
       bindA (on_tokens (evaluate_simple post_macro)) (\<lambda>_ s'.
         (Inr (token_list_string (um_tokens (fst s'))), s'))) s"

text \<open>The state of the directive is its symbol table; the agent keeps the names of the macros injected into it, in
  order.\<close>

record 'u set_state =
  st_rules :: "(string \<times> 'u user_macro) list"
  st_injected :: "string list"

definition set_apply ::
  "'u agent \<Rightarrow> macro_argument_list \<Rightarrow> index_literal_list \<Rightarrow> ('u set_state \<times> 'u world, string) act" where
  "set_apply ag args indices s =
     (let name = fst (args ! 0); defn = fst (args ! 1); name_ctx = snd (args ! 0) in
      case to_database indices of
        Inl (Duplicate_index c b e) \<Rightarrow>
          (Inr (''ERROR_SET_INDEX_DUPLICATE '' @ [c]),
           (fst s, logA Sev_error ''ERROR_SET_INDEX_DUPLICATE'' [c] (b, e) (snd s)))
      | Inl e \<Rightarrow> (Inl e, s)
      | Inr db \<Rightarrow>
          (case agent_tokenize ag defn (Some db) True (snd s) of
             (Inl e, w) \<Rightarrow> (Inl e, (fst s, w))
           | (Inr T, w) \<Rightarrow>
               (case map_of (st_rules (fst s)) name of
                  Some prior \<Rightarrow>
                    (Inr (''ERROR_SET_REDEFINITION '' @ name),
                     (fst s, logA Sev_warn ''WARN_PRIOR_REDEFINITION'' [] (um_ctx prior)
                               (logA Sev_error ''ERROR_SET_REDEFINITION'' name name_ctx w)))
                | None \<Rightarrow>
                    (case replace_database (tl_db T) indices of
                       Inl e \<Rightarrow> (Inl e, (fst s, w))
                     | Inr new_indices \<Rightarrow>
                         (Inr (''DIRECTIVE_SET_MACRO '' @ name @ '' '' @ defn),
                          ((fst s)\<lparr>st_rules := (name, \<lparr>um_name = name, um_tokens = T, um_indices = new_indices,
                                                    um_ctx = name_ctx\<rparr>) # st_rules (fst s),
                                   st_injected := st_injected (fst s) @ [name]\<rparr>, w))))))"

section \<open>Properties of conditional output\<close>

datatype condition_directive = If string | Else | Endif

definition directive_call :: "bool \<Rightarrow> condition_directive \<Rightarrow> ('x if_world, string) act" where
  "directive_call fast c =
     (case c of
        If x \<Rightarrow> simple_directive_call (if_directives fast ! 0) [(x, (0, 0))]
      | Else \<Rightarrow> simple_directive_call (if_directives fast ! 1) []
      | Endif \<Rightarrow> simple_directive_call (if_directives fast ! 2) [])"

text \<open>The worlds that a sequence of directives goes through; a failure of one is reported by its token and changes
  nothing else.\<close>

definition directive_step :: "bool \<Rightarrow> condition_directive \<Rightarrow> 'x if_world \<Rightarrow> 'x if_world" where
  "directive_step fast c w = snd (directive_call fast c w)"

primrec directive_run :: "bool \<Rightarrow> condition_directive list \<Rightarrow> 'x if_world \<Rightarrow> 'x if_world" where
  "directive_run fast [] w = w"
| "directive_run fast (c # cs) w = directive_run fast cs (directive_step fast c w)"

lemma directive_run_append: "directive_run fast (cs @ ds) w = directive_run fast ds (directive_run fast cs w)"
  by (induction cs arbitrary: w) simp_all

definition condition_holds :: "bool \<Rightarrow> string \<Rightarrow> bool" where
  "condition_holds fast c \<longleftrightarrow> (c = ''fast'' \<and> fast) \<or> (c = ''!fast'' \<and> \<not> fast)"

lemma switch_simps [simp]:
  "world_stack (switch_output b w) = world_stack w" "w_enabled (switch_output b w) = b"
  "world_stack (set_stack st w) = st" "w_enabled (set_stack st w) = w_enabled w"
  "w_log (switch_output b w) = w_log w" "w_log (set_stack st w) = w_log w"
  by (simp_all add: switch_output_def enable_output_def disable_output_def world_stack_def set_stack_def)

lemma call_simps:
  "directive_call fast (If x) w = if_apply fast [(x, (0, 0))] w" "directive_call fast Else w = else_apply [] w"
  "directive_call fast Endif w = endif_apply [] w"
  by (simp_all add: directive_call_def simple_directive_call_def if_directives_def validate_args_def numeral_2_eq_2)

lemma step_if: "directive_step fast (If x) w =
    switch_output (condition_holds fast x) (set_stack (if_record_new x (condition_holds fast x) # world_stack w) w)"
  by (simp add: directive_step_def call_simps if_apply_def Let_def condition_holds_def if_record_new_def)

lemma step_else: "directive_step fast Else w =
    (case world_stack w of [] \<Rightarrow> w | r # rs \<Rightarrow> if if_branch r
       then switch_output (if_enabled (mark_else_branch r)) (set_stack (mark_else_branch r # rs) w) else w)"
  by (auto simp: directive_step_def call_simps else_apply_def Let_def split: list.split)

lemma step_endif: "directive_step fast Endif w =
    (case world_stack w of [] \<Rightarrow> w | r # rs \<Rightarrow>
       switch_output (case rs of [] \<Rightarrow> True | r' # rs' \<Rightarrow> if_enabled r') (set_stack rs w))"
  by (auto simp: directive_step_def call_simps endif_apply_def split: list.split)

text \<open>The switch shows the innermost open clause.\<close>

definition output_follows_stack :: "'x if_world \<Rightarrow> bool" where
  "output_follows_stack w \<longleftrightarrow> w_enabled w = (case world_stack w of [] \<Rightarrow> True | r # rs \<Rightarrow> if_enabled r)"

lemma follows_step: "output_follows_stack w \<Longrightarrow> output_follows_stack (directive_step fast c w)"
  by (cases c) (auto simp: output_follows_stack_def step_if step_else step_endif if_record_new_def split: list.splits if_splits)

lemma follows_run: "output_follows_stack w \<Longrightarrow> output_follows_stack (directive_run fast cs w)"
  by (induction cs arbitrary: w) (simp_all add: follows_step)

text \<open>Clauses as templates write them.\<close>

datatype clause = Clause string "clause list" "clause list option"

fun clause_directives :: "clause \<Rightarrow> condition_directive list" where
  "clause_directives (Clause c body els) =
     If c # concat (map clause_directives body)
     @ (case els of None \<Rightarrow> [] | Some es \<Rightarrow> Else # concat (map clause_directives es)) @ [Endif]"

definition restores :: "'x itself \<Rightarrow> bool \<Rightarrow> condition_directive list \<Rightarrow> bool" where
  "restores x fast cs \<longleftrightarrow> (\<forall>w :: 'x if_world. output_follows_stack w \<longrightarrow>
     world_stack (directive_run fast cs w) = world_stack w \<and> w_enabled (directive_run fast cs w) = w_enabled w
     \<and> w_log (directive_run fast cs w) = w_log w)"

lemma restores_concat: "(\<And>c. c \<in> set cs \<Longrightarrow> restores x fast (f c)) \<Longrightarrow> restores x fast (concat (map f cs))"
proof (induction cs)
  case (Cons c cs)
  then have "restores x fast (f c)" "restores x fast (concat (map f cs))" by simp_all
  then show ?case by (simp add: restores_def directive_run_append follows_run)
qed (simp add: restores_def)

lemma follows_enabled: "output_follows_stack w \<Longrightarrow> world_stack w = st \<Longrightarrow>
  w_enabled w = (case st of [] \<Rightarrow> True | r # rs \<Rightarrow> if_enabled r)"
  by (simp add: output_follows_stack_def)

lemma clause_restores:
  fixes x :: "'x itself"
  shows "restores x fast (clause_directives cl)"
proof (induction cl rule: clause_directives.induct)
  case (1 c body els)
  let ?es = "case els of None \<Rightarrow> [] | Some es \<Rightarrow> Else # concat (map clause_directives es)"
  have b: "restores x fast (concat (map clause_directives body))" by (rule restores_concat) (use 1(1) in blast)
  show ?case unfolding restores_def
  proof (intro allI impI)
    fix w :: "'x if_world" assume w: "output_follows_stack w"
    let ?w1 = "directive_step fast (If c) w"
    let ?w2 = "directive_run fast (concat (map clause_directives body)) ?w1"
    have w1: "output_follows_stack ?w1" "w_log ?w1 = w_log w" by (simp_all add: follows_step w) (simp add: step_if)
    then have w2: "world_stack ?w2 = world_stack ?w1" "w_log ?w2 = w_log w" "output_follows_stack ?w2"
      using b follows_run [OF w1(1)] by (auto simp: restores_def)
    then have st2: "world_stack ?w2 = if_record_new c (condition_holds fast c) # world_stack w" by (simp add: step_if)
    have w3: "\<exists>r. world_stack (directive_run fast ?es ?w2) = r # world_stack w \<and> w_log (directive_run fast ?es ?w2) = w_log w
        \<and> output_follows_stack (directive_run fast ?es ?w2)"
    proof (cases els)
      case None
      then show ?thesis using st2 w2 by simp
    next
      case (Some es)
      have e: "restores x fast (concat (map clause_directives es))" by (rule restores_concat) (use 1(2) Some in blast)
      let ?w3 = "directive_step fast Else ?w2"
      have "world_stack ?w3 = mark_else_branch (if_record_new c (condition_holds fast c)) # world_stack w" "w_log ?w3 = w_log w"
        using st2 w2(2) by (simp_all add: step_else if_record_new_def)
      then show ?thesis using e Some follows_step [OF w2(3)] by (simp add: restores_def follows_run)
    qed
    let ?v = "directive_step fast Endif (directive_run fast ?es ?w2)"
    have "world_stack ?v = world_stack w" "w_log ?v = w_log w" using w3 by (auto simp: step_endif)
    moreover have "w_enabled ?v = w_enabled w"
      using follows_enabled [OF w, of "world_stack w"] follows_enabled [of ?v "world_stack w"] w3 calculation(1) follows_step by fastforce
    moreover have "directive_run fast (clause_directives (Clause c body els)) w = ?v"
      by (simp add: directive_run_append)
    ultimately show "world_stack (directive_run fast (clause_directives (Clause c body els)) w) = world_stack w \<and>
         w_enabled (directive_run fast (clause_directives (Clause c body els)) w) = w_enabled w \<and>
         w_log (directive_run fast (clause_directives (Clause c body els)) w) = w_log w" by simp
  qed
qed

text \<open>Output is restored by every complete clause. In a world whose output switch shows the innermost open clause, as it
  does at the start of a template, running the directives of clauses nested in any way, with or without
  \<open>ELSE\<close>, leaves the stack of open clauses and the switch as they were and reports nothing.\<close>

theorem clauses_restore_output:
  fixes w :: "'x if_world"
  assumes "output_follows_stack w"
  shows "world_stack (directive_run fast (concat (map clause_directives cls)) w) = world_stack w
    \<and> w_enabled (directive_run fast (concat (map clause_directives cls)) w) = w_enabled w
    \<and> w_log (directive_run fast (concat (map clause_directives cls)) w) = w_log w"
  using restores_concat [of cls "TYPE('x)" fast clause_directives] clause_restores assms
  unfolding restores_def by blast

definition fresh_world :: "unit if_world" where
  "fresh_world = \<lparr>w_log = [], w_enabled = True, w_user = \<lparr>is_stack = [], is_rest = ()\<rparr>\<rparr>"

theorem clauses_restore_output_witness:
  "w_enabled (directive_run True [If ''!fast'', If ''fast'', Endif, Else, Endif] fresh_world)"
proof -
  have "output_follows_stack fresh_world" by (simp add: output_follows_stack_def fresh_world_def world_stack_def)
  from clauses_restore_output [OF this, of True "[Clause ''!fast'' [Clause ''fast'' [] None] (Some [])]"]
  show ?thesis by (simp add: fresh_world_def)
qed

text \<open>The open clauses of a sequence of directives, read off the directives alone, innermost first: the condition of each
  and whether it is in its first branch. A branch is selected when the condition has the value that the branch is for.\<close>

primrec open_clauses :: "condition_directive list \<Rightarrow> (string \<times> bool) list \<Rightarrow> (string \<times> bool) list" where
  "open_clauses [] os = os"
| "open_clauses (c # cs) os = open_clauses cs
     (case c of
        If x \<Rightarrow> (x, True) # os
      | Else \<Rightarrow> (case os of [] \<Rightarrow> [] | (x, b) # os' \<Rightarrow> (x, False) # os')
      | Endif \<Rightarrow> List.tl os)"

definition selected :: "bool \<Rightarrow> string \<times> bool \<Rightarrow> bool" where
  "selected fast = (\<lambda>(x, b). condition_holds fast x = b)"

text \<open>No \<open>IF\<close> stands in a branch that is not selected.\<close>

definition opened_in_selected :: "bool \<Rightarrow> condition_directive list \<Rightarrow> bool" where
  "opened_in_selected fast cs \<longleftrightarrow> (\<forall>ds x es. cs = ds @ If x # es \<longrightarrow> list_all (selected fast) (open_clauses ds []))"

lemma open_clauses_append: "open_clauses (cs @ ds) os = open_clauses ds (open_clauses cs os)"
  by (induction cs arbitrary: os) simp_all

text \<open>The record that the stack holds for an open clause.\<close>

definition clause_record :: "bool \<Rightarrow> string \<times> bool \<Rightarrow> if_record \<Rightarrow> bool" where
  "clause_record fast k r \<longleftrightarrow> if_branch r = snd k \<and> if_value r = condition_holds fast (fst k) \<and> if_enabled r = selected fast k"

lemma record_new: "clause_record fast (x, True) (if_record_new x (condition_holds fast x))"
  by (simp add: clause_record_def if_record_new_def selected_def)

lemma record_else:
  "clause_record fast (x, b) r
   \<Longrightarrow> clause_record fast (x, False) (if if_branch r then mark_else_branch r else r)"
  by (auto simp: clause_record_def mark_else_branch_def selected_def)

lemma clauses_step:
  "list_all2 (clause_record fast) os (world_stack w)
   \<Longrightarrow> list_all2 (clause_record fast) (open_clauses [c] os) (world_stack (directive_step fast c w))"
  by (cases c; cases os; cases "world_stack w")
    (use record_else in \<open>fastforce simp: step_if step_else step_endif record_new\<close>)+

lemma clauses_run:
  "list_all2 (clause_record fast) os (world_stack w)
   \<Longrightarrow> list_all2 (clause_record fast) (open_clauses cs os) (world_stack (directive_run fast cs w))"
proof (induction cs arbitrary: os w)
  case (Cons c cs)
  from Cons.IH [OF clauses_step [OF Cons.prems]] show ?case by simp
qed simp

lemma records_innermost:
  "list_all2 (clause_record fast) os rs
   \<Longrightarrow> (case rs of [] \<Rightarrow> True | r # _ \<Rightarrow> if_enabled r) = (case os of [] \<Rightarrow> True | k # _ \<Rightarrow> selected fast k)"
  by (cases os; cases rs) (auto simp: clause_record_def)

text \<open>Only the innermost clause can be in a branch that is not selected.\<close>

lemma outer_selected:
  assumes "opened_in_selected fast cs"
  shows "list_all (selected fast) (List.tl (open_clauses cs []))"
  using assms
proof (induction cs rule: rev_induct)
  case (snoc c cs)
  have o: "opened_in_selected fast cs" using snoc.prems unfolding opened_in_selected_def by (metis append_Cons append_assoc)
  have i: "list_all (selected fast) (open_clauses cs [])" if "c = If x" for x
    using snoc.prems that unfolding opened_in_selected_def by blast
  have t: "list_all (selected fast) (List.tl (open_clauses cs []))" by (rule snoc.IH [OF o])
  show ?case
    using i t by (cases c; cases "open_clauses cs []"; cases "List.tl (open_clauses cs [])") (auto simp: open_clauses_append)
qed simp

text \<open>C33: Conditional output is right. From the start of a template, after any sequence of directives, output is enabled exactly when
  the branch that the innermost open clause is in is selected by its condition, the first branch by a condition that
  holds and the branch after \<open>ELSE\<close> by one that does not; and while no \<open>IF\<close> stands in a branch that is not selected, exactly
  when all the open clauses are in the branches that their conditions select.\<close>

theorem conditional_output_correct:
  assumes "world_stack w = []" and "w_enabled w"
  shows "w_enabled (directive_run fast cs w) = (case open_clauses cs [] of [] \<Rightarrow> True | k # _ \<Rightarrow> selected fast k)
    \<and> (opened_in_selected fast cs \<longrightarrow>
        w_enabled (directive_run fast cs w) = list_all (selected fast) (open_clauses cs []))"
proof -
  have "output_follows_stack w" using assms by (simp add: output_follows_stack_def)
  then have "output_follows_stack (directive_run fast cs w)" by (rule follows_run)
  moreover have "list_all2 (clause_record fast) (open_clauses cs []) (world_stack (directive_run fast cs w))"
    using assms(1) by (intro clauses_run) simp
  ultimately have "w_enabled (directive_run fast cs w) = (case open_clauses cs [] of [] \<Rightarrow> True | k # _ \<Rightarrow> selected fast k)"
    using records_innermost by (simp add: output_follows_stack_def)
  then show ?thesis using outer_selected [of fast cs] by (auto split: list.splits)
qed

theorem conditional_output_correct_witness:
  "\<not> w_enabled (directive_run True [If ''fast'', If ''fast'', Else] fresh_world)
   \<and> w_enabled (directive_run True [If ''fast'', If ''!fast'', Else] fresh_world)"
proof -
  have w: "world_stack fresh_world = []" "w_enabled fresh_world" by code_simp+
  have "opened_in_selected True [If ''fast'', If ''!fast'', Else]"
    by (auto simp: opened_in_selected_def selected_def condition_holds_def Cons_eq_append_conv)
  then show ?thesis
    using conditional_output_correct [OF w, of True "[If ''fast'', If ''!fast'', Else]"]
      conditional_output_correct [OF w, of True "[If ''fast'', If ''fast'', Else]"]
    by (simp add: selected_def condition_holds_def)
qed

text \<open>A clause opened in a disabled one overrides it: whatever clauses are open, an \<open>IF\<close> whose own condition holds
  turns output on, and its \<open>ELSE\<close> and \<open>ENDIF\<close> go by it and by the next clause alone.\<close>

theorem nested_clause_overrides:
  assumes "world_stack w = r # rs" and "\<not> if_enabled r" and "condition_holds fast c"
  shows "w_enabled (directive_run fast [If c] w) \<and> \<not> list_all if_enabled (world_stack (directive_run fast [If c] w))
    \<and> \<not> w_enabled (directive_run fast [If c, Endif] w)"
  using assms by (simp add: step_if step_endif if_record_new_def)

theorem nested_clause_overrides_witness:
  "w_enabled (directive_run True [If ''!fast'', If ''fast''] fresh_world)"
proof -
  let ?w = "directive_run True [If ''!fast''] fresh_world"
  have "world_stack ?w = [if_record_new ''!fast'' False]" "\<not> if_enabled (if_record_new ''!fast'' False)"
    "condition_holds True ''fast''" by code_simp+
  from nested_clause_overrides [OF this] show ?thesis by simp
qed

section \<open>Properties of user-defined macros\<close>

lemma replace_database_known:
  assumes "idb_inv ai_label db" and "idb_list db = map (new_index tz) cs" and "literal_label ` set ls \<subseteq> set cs"
  shows "replace_database db ls = Inr (map (\<lambda>l. literal_reassign (new_index tz (literal_label l)) l) ls)"
  using assms(3)
proof (induction ls)
  case (Cons l ls)
  let ?c = "literal_label l"
  have lab: "ai_label ` set (idb_list db) = set cs" unfolding assms(2) by (simp add: image_image)
  have "?c \<in> set cs" using Cons.prems by simp
  then obtain it where it: "idb_find ?c db = Some it" using idb_find_deref(1) [OF assms(1), of ?c] lab by (cases "idb_find ?c db") auto
  then obtain r where r: "idb_deref db (Some it) = Inr r" "r \<in> set (idb_list db)" "ai_label r = ?c"
    using idb_find_deref(2) [OF assms(1)] by blast
  then have "r = new_index tz ?c" unfolding assms(2) by auto
  with it r(1) have "replace_literal db l = Inr (literal_reassign (new_index tz ?c) l)" by (simp add: replace_literal_def)
  then show ?case using Cons by simp
qed simp

lemma replace_database_unknown:
  assumes "idb_inv ai_label db" and "l \<in> set ls" and "literal_label l \<notin> ai_label ` set (idb_list db)"
  shows "\<exists>m. replace_database db ls = Inl m \<and> (m = Out_of_range ''ERROR_INDEX_LITERAL_REASSIGN'')"
  using assms(2)
proof (induction ls)
  case (Cons x ls)
  show ?case
  proof (cases "idb_find (literal_label x) db")
    case None
    then show ?thesis by (simp add: replace_literal_def)
  next
    case (Some it)
    then obtain r where r: "idb_deref db (Some it) = Inr r" using idb_find_deref(2) [OF assms(1)] by blast
    have "x \<noteq> l" using Some assms(3) idb_find_deref(1) [OF assms(1), of "literal_label l"] by auto
    with Cons have "\<exists>m. replace_database db ls = Inl m \<and> (m = Out_of_range ''ERROR_INDEX_LITERAL_REASSIGN'')" by auto
    with Some r show ?thesis by (auto simp: replace_literal_def)
  qed
qed simp

text \<open>A declared index keeps its label when it is moved to the database of the definition.\<close>

lemma reassigned_label: "il_idx (literal_reassign (new_index tz c) l) = new_index tz c"
  "literal_label (literal_reassign (new_index tz (literal_label l)) l) = literal_label l"
  by (simp_all add: literal_reassign_def literal_label_def)

lemma um_assignment_values:
  assumes "length ds = length vs" and "\<And>d. d \<in> set ds \<Longrightarrow> il_idx d = new_index tz (literal_label d)"
    and "idb_inv iv_label a" and "distinct (map literal_label ds)"
    and "set (map literal_label ds) \<inter> iv_label ` set (idb_list a) = {}"
  shows "\<exists>a'. um_assignment ds vs a = Inr a' \<and> idb_inv iv_label a'
    \<and> idb_list a' = idb_list a @ assign (map (new_index tz) (map literal_label ds)) (map (\<lambda>(l, v). unat (iv_value v)) vs)"
  using assms
proof (induction ds vs arbitrary: a rule: list_induct2)
  case (Cons d ds p vs)
  obtain l v where p: "p = (l, v)" by (cases p)
  let ?v = "\<lparr>iv_abstract = il_idx d, iv_value = iv_value v\<rparr>"
  have lab: "iv_label ?v = literal_label d" by (simp add: iv_label_def literal_label_def)
  obtain a1 where a1: "idb_append iv_label ?v a = Inr a1" "idb_inv iv_label a1" "idb_list a1 = idb_list a @ [?v]"
    using idb.append_fresh [OF Cons.prems(2), of ?v] Cons.prems(4) lab by auto
  have "set (map literal_label ds) \<inter> iv_label ` set (idb_list a1) = {}"
    using Cons.prems(3,4) a1(3) lab by auto
  with Cons.IH [OF _ a1(2)] Cons.prems(1,3) obtain a' where "um_assignment ds vs a1 = Inr a'" "idb_inv iv_label a'"
    "idb_list a' = idb_list a1 @ assign (map (new_index tz) (map literal_label ds)) (map (\<lambda>(l, v). unat (iv_value v)) vs)"
    by auto
  moreover have "il_idx d = new_index tz (literal_label d)" using Cons.prems(1) by simp
  ultimately show ?case using a1(1,3) lab by (auto simp: p idb_append_def bindE_eq_Inr)
qed simp

lemma idb_empty_inv: "idb_inv iv_label idb_empty" "idb_list idb_empty = []"
  using idb.inv_new idb.items_new by auto

definition set_arguments :: "string \<Rightarrow> nat \<times> nat \<Rightarrow> string \<Rightarrow> nat \<times> nat \<Rightarrow> macro_argument_list" where
  "set_arguments name nctx defn dctx = [(name, nctx), (defn, dctx)]"

lemma to_database_distinct: "distinct (map literal_label ls) \<Longrightarrow> \<exists>db. to_database ls = Inr db"
  using to_database_prefix by blast

lemma set_apply_plain:
  assumes "tz_prefix (ma_tokenizer ag) \<noteq> []" and "plain_line ag (snd s) ps"
    and "distinct (map literal_label indices)" and "map_of (st_rules (fst s)) name = None"
  shows "\<exists>T w. plain_list (ma_tokenizer ag) ps T \<and> logs_only (snd s) w
    \<and> set_apply ag (set_arguments name nctx (line_print (tz_prefix (ma_tokenizer ag)) ps) dctx) indices s =
      (case replace_database (tl_db T) indices of
         Inl e \<Rightarrow> (Inl e, (fst s, w))
       | Inr is' \<Rightarrow> (Inr (''DIRECTIVE_SET_MACRO '' @ name @ '' '' @ line_print (tz_prefix (ma_tokenizer ag)) ps),
           ((fst s)\<lparr>st_rules := (name, \<lparr>um_name = name, um_tokens = T, um_indices = is', um_ctx = nctx\<rparr>) # st_rules (fst s),
                    st_injected := st_injected (fst s) @ [name]\<rparr>, w)))"
proof -
  obtain db where db: "to_database indices = Inr db" using to_database_distinct [OF assms(3)] by blast
  obtain T w where "agent_tokenize ag (line_print (tz_prefix (ma_tokenizer ag)) ps) (Some db) True (snd s) = (Inr T, w)"
    "plain_list (ma_tokenizer ag) ps T" "logs_only (snd s) w"
    using agent_tokenize_plain [OF assms(1,2), of "snd s" "Some db" True] by auto
  then show ?thesis using db assms(4) by (intro exI [of _ T] exI [of _ w]) (simp add: set_apply_def set_arguments_def)
qed

lemma um_unroll_plain:
  assumes "plain_list tz ps (um_tokens m)" and "\<And>d. d \<in> set (um_indices m) \<Longrightarrow> il_idx d = new_index tz (literal_label d)"
    and "distinct (map literal_label (um_indices m))" and "set (line_labels ps) \<subseteq> literal_label ` set (um_indices m)"
    and "length vals = length (um_indices m)"
  shows "\<exists>ts. um_unroll vals (m, w) =
    (Inr (decimals (env_of (map literal_label (um_indices m)) (map (\<lambda>(l, v). unat (iv_value v)) vals)) ps),
     (m\<lparr>um_tokens := with_tokens (um_tokens m) ts\<rparr>, w))"
proof -
  let ?cs = "map literal_label (um_indices m)" and ?vs = "map (\<lambda>(l, v). unat (iv_value v)) vals"
  obtain a where a: "um_assignment (um_indices m) vals idb_empty = Inr a" "idb_inv iv_label a"
    "idb_list a = assign (map (new_index tz) ?cs) ?vs"
    using um_assignment_values [OF assms(5) [symmetric] assms(2) idb_empty_inv(1) assms(3)] by (auto simp: idb_empty_inv)
  then have "assignment_of tz ?cs ?vs a" by (simp add: assignment_of_def)
  moreover have "unat (of_nat v :: u32) = v" if "v \<in> set ?vs" for v using that by auto
  ultimately have "assigns tz a (env_of ?cs ?vs) ps" using assms(3-5) by (intro assignment_of_assigns) simp_all
  moreover have "line_like tz ps (um_tokens m)" using assms(1) by (simp add: plain_list_def)
  ultimately obtain ts where ts: "evaluate_unroll a (um_tokens m, w)
        = (Inr (of_nat (length (line_labels ps))), (with_tokens (um_tokens m) ts, w))"
      "evaluate_simple post_macro (with_tokens (um_tokens m) ts, w) = (Inr 0, (with_tokens (um_tokens m) ts, w))"
      "token_list_string (with_tokens (um_tokens m) ts) = decimals (env_of ?cs ?vs) ps"
    using evaluated_like by blast
  then show ?thesis using a(1) by (intro exI [of _ ts]) (simp add: um_unroll_def bindA_def on_tokens_def)
qed

text \<open>C34: A plain user macro expands to its definition. After a \<open>SET\<close> of a fresh name whose definition is a line of
  text and index literals that uses every declared index and no other, the macro is in the table and is
  injected into the agent; invoked on any values, one for each declared index, its unrolled evaluation is the definition
  with every index replaced by the value in the position in which it was declared. Definitions with macros of their own and the
  evaluation of a rolled line are not covered; a declared index that the definition does not use is the next theorem.\<close>

theorem user_macro_expands:
  assumes "tz_prefix (ma_tokenizer ag) \<noteq> []" and "plain_line ag (snd s) ps"
    and "distinct (map literal_label indices)" and "map_of (st_rules (fst s)) name = None"
    and "literal_label ` set indices = set (line_labels ps)"
  shows "\<exists>x st w m. set_apply ag (set_arguments name nctx (line_print (tz_prefix (ma_tokenizer ag)) ps) dctx) indices s
      = (Inr x, (st, w))
    \<and> map_of (st_rules st) name = Some m \<and> st_injected st = st_injected (fst s) @ [name]
    \<and> (\<forall>vals w'. length vals = length indices \<longrightarrow> fst (um_unroll vals (m, w'))
         = Inr (decimals (env_of (map literal_label indices) (map (\<lambda>(l, v). unat (iv_value v)) vals)) ps))"
proof -
  let ?tz = "ma_tokenizer ag"
  let ?re = "\<lambda>l. literal_reassign (new_index (ma_tokenizer ag) (literal_label l)) l"
  obtain T w where T: "plain_list ?tz ps T" "set_apply ag (set_arguments name nctx (line_print (tz_prefix ?tz) ps) dctx) indices s =
      (case replace_database (tl_db T) indices of
         Inl e \<Rightarrow> (Inl e, (fst s, w))
       | Inr is' \<Rightarrow> (Inr (''DIRECTIVE_SET_MACRO '' @ name @ '' '' @ line_print (tz_prefix ?tz) ps),
           ((fst s)\<lparr>st_rules := (name, \<lparr>um_name = name, um_tokens = T, um_indices = is', um_ctx = nctx\<rparr>) # st_rules (fst s),
                    st_injected := st_injected (fst s) @ [name]\<rparr>, w)))"
    using set_apply_plain [OF assms(1-4)] by blast
  let ?m = "\<lparr>um_name = name, um_tokens = T, um_indices = map ?re indices, um_ctx = nctx\<rparr>"
  have re: "replace_database (tl_db T) indices = Inr (map ?re indices)"
    by (rule replace_database_known [where cs = "first_labels ps"])
      (use T(1) assms(5) in \<open>simp_all add: plain_list_def first_labels_set\<close>)
  have labels: "map literal_label (um_indices ?m) = map literal_label indices" by (simp add: comp_def reassigned_label)
  have "fst (um_unroll vals (?m, w'))
         = Inr (decimals (env_of (map literal_label indices) (map (\<lambda>(l, v). unat (iv_value v)) vals)) ps)"
    if "length vals = length indices" for vals w'
  proof -
    have "literal_label ` set (um_indices ?m) = literal_label ` set indices"
      by (simp add: image_image reassigned_label)
    then have "\<exists>ts. um_unroll vals (?m, w') =
      (Inr (decimals (env_of (map literal_label (um_indices ?m)) (map (\<lambda>(l, v). unat (iv_value v)) vals)) ps),
       (?m\<lparr>um_tokens := with_tokens (um_tokens ?m) ts\<rparr>, w'))"
      using T(1) assms(3,5) that labels by (intro um_unroll_plain [where tz = ?tz]) (auto simp: comp_def reassigned_label)
    then show ?thesis unfolding labels by auto
  qed
  then show ?thesis using T(2) re by simp
qed

text \<open>A declared index that the definition does not use ends the directive in an exception that is not a
  \<open>runtime_error\<close>, which no handler of the tokenizer catches; the table is unchanged.\<close>

theorem unused_index_escapes:
  assumes "tz_prefix (ma_tokenizer ag) \<noteq> []" and "plain_line ag (snd s) ps"
    and "distinct (map literal_label indices)" and "map_of (st_rules (fst s)) name = None"
    and "l \<in> set indices" and "literal_label l \<notin> set (line_labels ps)"
  shows "\<exists>w. set_apply ag (set_arguments name nctx (line_print (tz_prefix (ma_tokenizer ag)) ps) dctx) indices s
      = (Inl (Out_of_range ''ERROR_INDEX_LITERAL_REASSIGN''), (fst s, w))
    \<and> \<not> is_runtime_error (Out_of_range ''ERROR_INDEX_LITERAL_REASSIGN'')"
proof -
  obtain T w where T: "plain_list (ma_tokenizer ag) ps T"
    "set_apply ag (set_arguments name nctx (line_print (tz_prefix (ma_tokenizer ag)) ps) dctx) indices s =
      (case replace_database (tl_db T) indices of
         Inl e \<Rightarrow> (Inl e, (fst s, w))
       | Inr is' \<Rightarrow> (Inr (''DIRECTIVE_SET_MACRO '' @ name @ '' '' @ line_print (tz_prefix (ma_tokenizer ag)) ps),
           ((fst s)\<lparr>st_rules := (name, \<lparr>um_name = name, um_tokens = T, um_indices = is', um_ctx = nctx\<rparr>) # st_rules (fst s),
                    st_injected := st_injected (fst s) @ [name]\<rparr>, w)))"
    using set_apply_plain [OF assms(1-4)] by blast
  have db: "idb_inv ai_label (tl_db T)" "ai_label ` set (idb_list (tl_db T)) = set (line_labels ps)"
    using T(1) by (simp_all add: plain_list_def image_image first_labels_set)
  then have "replace_database (tl_db T) indices = Inl (Out_of_range ''ERROR_INDEX_LITERAL_REASSIGN'')"
    using replace_database_unknown [OF db(1) assms(5)] assms(6) by auto
  then show ?thesis using T(2) by (simp add: is_runtime_error_def)
qed

definition macro_pieces :: "piece list" where
  "macro_pieces = [Text_piece ''x['', Index_piece [] (CHR ''a''), Text_piece '']+'', Index_piece [] (CHR ''b'')]"

definition macro_literal :: "char \<Rightarrow> index_literal" where
  "macro_literal c = \<lparr>il_idx = new_index example_tokenizer c, il_ctx = (0, 1), il_var = no_variance\<rparr>"

definition macro_value :: "char \<Rightarrow> u32 \<Rightarrow> index_literal \<times> index_value" where
  "macro_value c n = (macro_literal c, \<lparr>iv_abstract = new_index example_tokenizer c, iv_value = n\<rparr>)"

definition no_macros :: "unit set_state" where
  "no_macros = \<lparr>st_rules = [], st_injected = []\<rparr>"

lemma macro_plain: "plain_line (example_agent p) example_world macro_pieces"
  "line_print (tz_prefix (ma_tokenizer (example_agent p))) macro_pieces = ''x[$a]+$b''"
  "tz_prefix (ma_tokenizer (example_agent p)) \<noteq> []"
proof -
  have pfx: "tz_prefix example_tokenizer = ''$''" "ma_tokenizer (example_agent p) = example_tokenizer"
    by (simp_all add: example_tokenizer_def example_agent_def)
  have names: "rule_names (agent_tokenizer (example_agent p) db b w) = []" for db b w
    by (simp add: rule_names_def example_tokenizer_def agent_tokenizer_def example_agent_def)
  show "plain_line (example_agent p) example_world macro_pieces"
    using pfx by (simp add: plain_line_def macro_pieces_def starts_name_def names Let_def)
  show "line_print (tz_prefix (ma_tokenizer (example_agent p))) macro_pieces = ''x[$a]+$b''"
    "tz_prefix (ma_tokenizer (example_agent p)) \<noteq> []"
    by (simp_all add: pfx line_print_def piece_print_def macro_pieces_def)
qed

theorem user_macro_expands_witness:
  "\<exists>x st w m. set_apply (example_agent 0) (set_arguments ''M'' (0, 1) ''x[$a]+$b'' (2, 9)) [macro_literal CHR ''b'', macro_literal CHR ''a'']
      (no_macros, example_world) = (Inr x, (st, w))
    \<and> map_of (st_rules st) ''M'' = Some m \<and> st_injected st = [''M'']
    \<and> fst (um_unroll [macro_value CHR ''a'' 7, macro_value CHR ''b'' 1] (m, example_world)) = Inr ''x[1]+7''"
proof -
  let ?is = "[macro_literal CHR ''b'', macro_literal CHR ''a'']"
  have l: "literal_label (macro_literal c) = c" for c by (simp add: literal_label_def macro_literal_def)
  have d: "distinct (map literal_label ?is)" "literal_label ` set ?is = set (line_labels macro_pieces)"
    by (auto simp: l macro_pieces_def line_labels_def)
  have n: "map_of (st_rules (fst (no_macros, example_world))) ''M'' = None" by (simp add: no_macros_def)
  have "decimals (env_of (map literal_label ?is) (map (\<lambda>(l, v). unat (iv_value v)) [macro_value CHR ''a'' 7, macro_value CHR ''b'' 1]))
      macro_pieces = ''x[1]+7''" by code_simp
  then show ?thesis
    using user_macro_expands [OF macro_plain(3) _ d(1) n d(2), of 0 "(0, 1)" "(2, 9)"] macro_plain(1) [of 0]
    unfolding macro_plain(2) by (fastforce simp: no_macros_def)
qed

theorem unused_index_escapes_witness:
  "\<exists>w. set_apply (example_agent 0) (set_arguments ''M'' (0, 1) ''x[$a]+$b'' (2, 9)) [macro_literal CHR ''c'']
      (no_macros, example_world) = (Inl (Out_of_range ''ERROR_INDEX_LITERAL_REASSIGN''), (no_macros, w))"
proof -
  have l: "literal_label (macro_literal c) = c" for c by (simp add: literal_label_def macro_literal_def)
  have c: "literal_label (macro_literal CHR ''c'') \<notin> set (line_labels macro_pieces)"
    by (simp add: l macro_pieces_def line_labels_def)
  show ?thesis
    using unused_index_escapes [of "example_agent 0" "(no_macros, example_world)" macro_pieces "[macro_literal CHR ''c'']" "''M''",
        OF macro_plain(3) _ _ _ _ c, of "(0, 1)" "(2, 9)"] macro_plain(1) [of 0]
    unfolding macro_plain(2) by (simp add: no_macros_def)
qed

end
