(* ===== verification/Cse.thy ===== *)
theory Cse
  imports Printers "HOL-Library.AList"
begin

text \<open>
  Common subexpression elimination, \<open>language_concepts/cse.{h,cpp}\<close> with its implementation for C++,
  \<open>languages/cpp/cpp_cse.{h,cpp}\<close>, and the map of expressions \<open>language_concepts/cse_map.{h,cpp}\<close>. Expressions of
  the library GiNaC are trees; how the library prints one in C form is an argument.
\<close>

section \<open>Expressions\<close>

text \<open>The classes the code distinguishes, and what it asks of numbers.\<close>

datatype numeric = Integer int | Non_integer string

datatype ex_class =
    Numeric numeric
  | Symbol string
  | Constant string
  | Add
  | Mul
  | Power
  | Tensdelta
  | Idx string
  | Varidx string
  | Indexed
  | Function string
  | Other_class string

datatype gex = Ex (ex_cls: ex_class) (ex_ops: "gex list")

text \<open>The order of \<open>GiNaC::ex::postorder_begin\<close>.\<close>

fun postorder :: "gex \<Rightarrow> gex list" where
  "postorder (Ex c es) = concat (map postorder es) @ [Ex c es]"

section \<open>The worker\<close>

record symbol_record =
  sr_target :: string
  sr_symbol :: string
  sr_written :: bool

record cse =
  cs_symbols :: "(string \<times> symbol_record) list"
  cs_decls :: "(string \<times> string) list"
  cs_named :: "string set"
  cs_serial :: u32
  cs_counter :: u32
  cs_kernel :: string
  cs_log :: "(msg_id \<times> string) list"

record cse_config =
  cc_do_cse :: bool
  cc_ginac :: "gex \<Rightarrow> string"

definition cse_new :: "u32 \<Rightarrow> string \<Rightarrow> cse" where
  "cse_new serial k = \<lparr>cs_symbols = [], cs_decls = [], cs_named = {}, cs_serial = serial, cs_counter = 0, cs_kernel = k, cs_log = []\<rparr>"

definition cse_clear :: "cse \<Rightarrow> cse" where
  "cse_clear s = s\<lparr>cs_symbols := [], cs_decls := [], cs_serial := cs_serial s + 1, cs_counter := 0\<rparr>"

definition set_temporary_kernel :: "string \<Rightarrow> cse \<Rightarrow> cse" where
  "set_temporary_kernel k s = s\<lparr>cs_kernel := k\<rparr>"

definition symbol_name :: "string \<Rightarrow> u32 \<Rightarrow> u32 \<Rightarrow> string" where
  "symbol_name k serial counter = k @ ''_'' @ u32_string serial @ ''_'' @ u32_string counter"

definition make_symbol :: "cse \<Rightarrow> string \<times> cse" where
  "make_symbol s = (symbol_name (cs_kernel s) (cs_serial s) (cs_counter s), s\<lparr>cs_counter := cs_counter s + 1\<rparr>)"

text \<open>The record under a key is declared, once.\<close>

definition cse_deposit :: "string \<Rightarrow> cse \<Rightarrow> cse" where
  "cse_deposit key s =
     (case map_of (cs_symbols s) key of
        None \<Rightarrow> s
      | Some r \<Rightarrow>
          if sr_written r then s
          else s\<lparr>cs_decls := cs_decls s @ [(sr_symbol r, sr_target r)],
                 cs_symbols := AList.update key (r\<lparr>sr_written := True\<rparr>) (cs_symbols s)\<rparr>)"

definition cse_error :: "msg_id \<Rightarrow> string \<Rightarrow> cse \<Rightarrow> cse" where
  "cse_error m x s = s\<lparr>cs_log := cs_log s @ [(m, x)]\<rparr>"

section \<open>Printing in C++\<close>

definition func_convert :: "(string \<times> string) list" where
  "func_convert =
     [(''abs'', ''std::abs''), (''sqrt'', ''std::sqrt''), (''sin'', ''std::sin''), (''cos'', ''std::cos''),
      (''tan'', ''std::tan''), (''asin'', ''std::asin''), (''acos'', ''std::acos''), (''atan'', ''std::atan''),
      (''atan2'', ''std::atan2''), (''sinh'', ''std::sinh''), (''cosh'', ''std::cosh''), (''tanh'', ''std::tanh''),
      (''asinh'', ''std::asinh''), (''acosh'', ''std::acosh''), (''atanh'', ''std::atanh''), (''exp'', ''std::exp''),
      (''log'', ''std::log''), (''pow'', ''std::pow''), (''tgamma'', ''std::tgamma''), (''lgamma'', ''std::lgamma'')]"

text \<open>The name under which a class that is printed like a function is looked up.\<close>

definition class_name :: "ex_class \<Rightarrow> string" where
  "class_name c =
     (case c of
        Numeric n \<Rightarrow> ''numeric'' | Symbol x \<Rightarrow> ''symbol'' | Constant x \<Rightarrow> ''constant'' | Add \<Rightarrow> ''add'' | Mul \<Rightarrow> ''mul''
      | Power \<Rightarrow> ''power'' | Tensdelta \<Rightarrow> ''tensdelta'' | Idx x \<Rightarrow> ''idx'' | Varidx x \<Rightarrow> ''varidx'' | Indexed \<Rightarrow> ''indexed''
      | Function f \<Rightarrow> f | Other_class x \<Rightarrow> x)"

definition is_add :: "gex \<Rightarrow> bool" where
  "is_add e = (ex_cls e = Add)"

definition simple_base :: "gex \<Rightarrow> bool" where
  "simple_base e = (case ex_cls e of Symbol x \<Rightarrow> True | Constant x \<Rightarrow> True | Function f \<Rightarrow> True | _ \<Rightarrow> False)"

definition unwrap_power :: "string \<Rightarrow> gex \<Rightarrow> nat \<Rightarrow> string" where
  "unwrap_power base base_expr factors =
     separated ''*'' (replicate factors (if simple_base base_expr then base else ''('' @ base @ '')''))"

text \<open>A power with a number for its exponent; \<open>to_int\<close> is exact for the exponents of a model.\<close>

definition power_string :: "string \<Rightarrow> gex \<Rightarrow> string \<Rightarrow> numeric \<Rightarrow> string" where
  "power_string base base_expr exponent n =
     (case n of
        Integer k \<Rightarrow>
          if k = 0 then ''1.0''
          else if k = 1 then unwrap_power base base_expr 1
          else if k = 2 \<or> k = 3 \<or> k = 4 then ''('' @ unwrap_power base base_expr (nat k) @ '')''
          else if k = -1 then ''1.0/'' @ unwrap_power base base_expr 1
          else if k = -2 \<or> k = -3 \<or> k = -4 then ''1.0/('' @ unwrap_power base base_expr (nat (- k)) @ '')''
          else ''std::pow('' @ base @ '','' @ string_of_int k @ '')''
      | Non_integer x \<Rightarrow> ''std::pow('' @ base @ '','' @ exponent @ '')'')"

function print_ex :: "cse_config \<Rightarrow> bool \<Rightarrow> gex \<Rightarrow> cse \<Rightarrow> string \<times> cse"
  and print_operands :: "cse_config \<Rightarrow> bool \<Rightarrow> string \<Rightarrow> gex list \<Rightarrow> cse \<Rightarrow> string list \<times> cse"
  and cse_symbol :: "cse_config \<Rightarrow> bool \<Rightarrow> gex \<Rightarrow> cse \<Rightarrow> string \<times> cse" where
  "print_ex cfg use (Ex c es) s =
     (case c of
        Numeric n \<Rightarrow> (cc_ginac cfg (Ex c es), s)
      | Symbol x \<Rightarrow> (cc_ginac cfg (Ex c es), s)
      | Add \<Rightarrow> (case print_operands cfg use ''+'' es s of (xs, s1) \<Rightarrow> (separated ''+'' xs, s1))
      | Mul \<Rightarrow> (case print_operands cfg use ''*'' es s of (xs, s1) \<Rightarrow> (separated ''*'' xs, s1))
      | Power \<Rightarrow>
          (case es of
             [b, x] \<Rightarrow>
               (case cse_symbol cfg use x s of (exponent, s1) \<Rightarrow>
                  (case ex_cls x of
                     Numeric n \<Rightarrow>
                       (case cse_symbol cfg use b s1 of (base, s2) \<Rightarrow> (power_string base b exponent n, s2))
                   | _ \<Rightarrow> ([], s1)))
           | _ \<Rightarrow>
               (case print_operands cfg use '','' es (cse_error ''ERROR_CSE_POWER_ARGUMENTS'' [] s) of (xs, s1) \<Rightarrow> ([], s1)))
      | Tensdelta \<Rightarrow> (cc_ginac cfg (Ex c es), s)
      | Idx x \<Rightarrow> (cc_ginac cfg (Ex c es), s)
      | Varidx x \<Rightarrow> (cc_ginac cfg (Ex c es), s)
      | Indexed \<Rightarrow> (cc_ginac cfg (Ex c es), s)
      | _ \<Rightarrow>
          (case map_of func_convert (class_name c) of
             None \<Rightarrow> ([], cse_error ''ERROR_UNIMPLEMENTED_MATHS_FUNCTION'' (class_name c) s)
           | Some f \<Rightarrow>
               (case print_operands cfg use '','' es s of (xs, s1) \<Rightarrow> (f @ ''('' @ separated '','' xs @ '')'', s1))))"
| "print_operands cfg use op [] s = ([], s)"
| "print_operands cfg use op (e # es) s =
     (case cse_symbol cfg use e s of (x, s1) \<Rightarrow>
        (case print_operands cfg use op es s1 of (xs, s2) \<Rightarrow>
           ((if op \<noteq> '','' \<and> is_add e then ''('' @ x @ '')'' else x) # xs, s2)))"
| "cse_symbol cfg use e s =
     (if \<not> cc_do_cse cfg then (cc_ginac cfg e, s)
      else case print_ex cfg use e s of (t, s1) \<Rightarrow>
        (case map_of (cs_symbols s1) t of
           None \<Rightarrow> (t, s1)
         | Some r \<Rightarrow> (sr_symbol r, if use then cse_deposit t s1 else s1)))"
  by pat_completeness auto
termination
  by (relation "measure (\<lambda>x. case x of
        Inl (cfg, use, e, s) \<Rightarrow> 2 * size e
      | Inr (Inl (cfg, use, op, es, s)) \<Rightarrow> 2 * size_list size es
      | Inr (Inr (cfg, use, e, s)) \<Rightarrow> 2 * size e + 1)") auto

declare print_ex.simps [simp del] cse_symbol.simps [simp del]

definition get_symbol_with_use_count :: "cse_config \<Rightarrow> gex \<Rightarrow> cse \<Rightarrow> string \<times> cse" where
  "get_symbol_with_use_count cfg = cse_symbol cfg True"

definition get_symbol_without_use_count :: "cse_config \<Rightarrow> gex \<Rightarrow> cse \<Rightarrow> string \<times> cse" where
  "get_symbol_without_use_count cfg = cse_symbol cfg False"

section \<open>Parsing\<close>

text \<open>One subexpression; \<open>whole\<close> tells the expression itself from its parts.\<close>

definition parse_step :: "cse_config \<Rightarrow> string option \<Rightarrow> bool \<Rightarrow> gex \<Rightarrow> cse \<Rightarrow> cse" where
  "parse_step cfg name whole e s =
     (case print_ex cfg False e s of (t, s1) \<Rightarrow>
        (case map_of (cs_symbols s1) t of
           None \<Rightarrow>
             (let (x, s2) = (case (name, whole) of (Some n, True) \<Rightarrow> (n, s1) | _ \<Rightarrow> make_symbol s1);
                  s3 = s2\<lparr>cs_symbols := (t, \<lparr>sr_target = t, sr_symbol = x, sr_written = False\<rparr>) # cs_symbols s2\<rparr>
              in if name \<noteq> None then cse_deposit t s3 else s3)
         | Some r \<Rightarrow>
             (case name of
                None \<Rightarrow> s1
              | Some n \<Rightarrow>
                  (let s2 = cse_deposit t s1
                   in if whole \<and> sr_symbol r \<noteq> n \<and> n \<notin> cs_named s2
                      then s2\<lparr>cs_decls := cs_decls s2 @ [(n, sr_symbol r)], cs_named := insert n (cs_named s2)\<rparr>
                      else s2))))"

definition cse_parse :: "cse_config \<Rightarrow> string option \<Rightarrow> gex \<Rightarrow> cse \<Rightarrow> cse" where
  "cse_parse cfg name e s =
     (if \<not> cc_do_cse cfg then s
      else parse_step cfg name True e (foldl (\<lambda>s t. parse_step cfg name False t s) s (butlast (postorder e))))"

definition cse_temporaries :: "string \<Rightarrow> string \<Rightarrow> string \<Rightarrow> cse \<Rightarrow> string list" where
  "cse_temporaries l mid r s = map (\<lambda>(x, t). l @ x @ mid @ t @ r @ [NL]) (cs_decls s)"

section \<open>Maps of expressions\<close>

definition cse_map_new :: "cse_config \<Rightarrow> gex list \<Rightarrow> cse \<Rightarrow> gex list \<times> cse" where
  "cse_map_new cfg es s = (es, foldl (\<lambda>s e. cse_parse cfg None e s) s es)"

definition cse_map_subscript :: "cse_config \<Rightarrow> gex list \<Rightarrow> nat \<Rightarrow> cse \<Rightarrow> (exn + string) \<times> cse" where
  "cse_map_subscript cfg es i s =
     (if i < length es then (case get_symbol_with_use_count cfg (es ! i) s of (x, s1) \<Rightarrow> (Inr x, s1))
      else (Inl (Out_of_range ''ERROR_OUT_OF_BOUNDS_CSE_MAP''), s))"

end
