(* ===== verification/Cse_Facts.thy ===== *)
theory Cse_Facts
  imports Complex_Main Cse
begin

text \<open>
  Common subexpression elimination keeps the value of expressions: an evaluator of C expressions over the real
  numbers, the values of GiNaC expressions, and the invariant that relates the tables of the worker to both.
\<close>

section \<open>C expressions\<close>

text \<open>Expressions are evaluated from left to right, character by character, with a stack of what is open: a parenthesis or a call with the
  arguments it has so far. A sum waits with its value so far, the product that is being built, and whether the next
  operand multiplies or divides it and is negated.\<close>

datatype frame = Paren | Call string "real list"

datatype cstate =
    Expect "(frame \<times> real \<times> real \<times> bool \<times> bool) list" real real bool bool
  | In_word "(frame \<times> real \<times> real \<times> bool \<times> bool) list" real real bool bool string
  | After "(frame \<times> real \<times> real \<times> bool \<times> bool) list" real real
  | Bad

definition combine :: "real \<Rightarrow> bool \<Rightarrow> bool \<Rightarrow> real \<Rightarrow> real" where
  "combine p mult neg v = (if mult then p * (if neg then - v else v) else p / (if neg then - v else v))"

text \<open>A word is a decimal integer, also written with \<open>.0\<close>, or a name.\<close>

definition word_value :: "(string \<Rightarrow> real) \<Rightarrow> string \<Rightarrow> real" where
  "word_value env w =
     (if takeWhile isdigit w \<noteq> [] \<and> dropWhile isdigit w \<in> {[], ''.0''} then real (dec_value 0 (takeWhile isdigit w)) else env w)"

definition operator_chars :: "char list" where
  "operator_chars = ''+-*/(),''"

definition settle :: "(string \<Rightarrow> real) \<Rightarrow> cstate \<Rightarrow> cstate" where
  "settle env st = (case st of In_word fs a p m n w \<Rightarrow> After fs a (combine p m n (word_value env w)) | _ \<Rightarrow> st)"

definition close_frame :: "(string \<Rightarrow> real list \<Rightarrow> real) \<Rightarrow> (frame \<times> real \<times> real \<times> bool \<times> bool) list \<Rightarrow> real \<Rightarrow> cstate" where
  "close_frame fn fs v =
     (case fs of
        [] \<Rightarrow> Bad
      | (Paren, a, p, m, n) # fs' \<Rightarrow> After fs' a (combine p m n v)
      | (Call f vs, a, p, m, n) # fs' \<Rightarrow> After fs' a (combine p m n (fn f (vs @ [v]))))"

definition next_argument :: "(frame \<times> real \<times> real \<times> bool \<times> bool) list \<Rightarrow> real \<Rightarrow> cstate" where
  "next_argument fs v =
     (case fs of (Call f vs, q) # fs' \<Rightarrow> Expect ((Call f (vs @ [v]), q) # fs') 0 1 True False | _ \<Rightarrow> Bad)"

text \<open>An operator after an operand, or a sign before one.\<close>

definition operator_step :: "(string \<Rightarrow> real list \<Rightarrow> real) \<Rightarrow> char \<Rightarrow> cstate \<Rightarrow> cstate" where
  "operator_step fn c st =
     (case st of
        Expect fs a p m n \<Rightarrow> if c = CHR ''-'' then Expect fs a p m (\<not> n) else Bad
      | After fs a p \<Rightarrow>
          if c = CHR ''+'' then Expect fs (a + p) 1 True False
          else if c = CHR ''-'' then Expect fs (a + p) 1 True True
          else if c = CHR ''*'' then Expect fs a p True False
          else if c = CHR ''/'' then Expect fs a p False False
          else if c = CHR '')'' then close_frame fn fs (a + p)
          else if c = CHR '','' then next_argument fs (a + p)
          else Bad
      | _ \<Rightarrow> Bad)"

definition cstep :: "(string \<Rightarrow> real) \<Rightarrow> (string \<Rightarrow> real list \<Rightarrow> real) \<Rightarrow> cstate \<Rightarrow> char \<Rightarrow> cstate" where
  "cstep env fn st c =
     (if c \<notin> set operator_chars then
        (case st of
           Expect fs a p m n \<Rightarrow> In_word fs a p m n [c]
         | In_word fs a p m n w \<Rightarrow> In_word fs a p m n (w @ [c])
         | _ \<Rightarrow> Bad)
      else if c = CHR ''('' then
        (case st of
           Expect fs a p m n \<Rightarrow> Expect ((Paren, a, p, m, n) # fs) 0 1 True False
         | In_word fs a p m n w \<Rightarrow> Expect ((Call w [], a, p, m, n) # fs) 0 1 True False
         | _ \<Rightarrow> Bad)
      else operator_step fn c (settle env st))"

definition crun :: "(string \<Rightarrow> real) \<Rightarrow> (string \<Rightarrow> real list \<Rightarrow> real) \<Rightarrow> string \<Rightarrow> cstate \<Rightarrow> cstate" where
  "crun env fn s st = foldl (cstep env fn) st s"

definition c_value :: "(string \<Rightarrow> real) \<Rightarrow> (string \<Rightarrow> real list \<Rightarrow> real) \<Rightarrow> string \<Rightarrow> real option" where
  "c_value env fn s =
     (case settle env (crun env fn s (Expect [] 0 1 True False)) of After [] a p \<Rightarrow> Some (a + p) | _ \<Rightarrow> None)"

text \<open>Declarations are executed in order.\<close>

primrec execute :: "(string \<Rightarrow> real list \<Rightarrow> real) \<Rightarrow> (string \<times> string) list \<Rightarrow> (string \<Rightarrow> real) \<Rightarrow> (string \<Rightarrow> real) option" where
  "execute fn [] env = Some env"
| "execute fn (d # ds) env =
     (case c_value env fn (snd d) of None \<Rightarrow> None | Some v \<Rightarrow> execute fn ds (env(fst d := v)))"

section \<open>Reading\<close>

text \<open>A string reads as an operand, a product or a sum.\<close>

definition reads_operand :: "(string \<Rightarrow> real) \<Rightarrow> (string \<Rightarrow> real list \<Rightarrow> real) \<Rightarrow> string \<Rightarrow> real \<Rightarrow> bool" where
  "reads_operand env fn s v \<longleftrightarrow>
     (\<forall>fs a p m n. settle env (crun env fn s (Expect fs a p m n)) = After fs a (combine p m n v))"

definition reads_product :: "(string \<Rightarrow> real) \<Rightarrow> (string \<Rightarrow> real list \<Rightarrow> real) \<Rightarrow> string \<Rightarrow> real \<Rightarrow> bool" where
  "reads_product env fn s v \<longleftrightarrow>
     (\<forall>fs a p. settle env (crun env fn s (Expect fs a p True False)) = After fs a (p * v))"

definition reads_sum :: "(string \<Rightarrow> real) \<Rightarrow> (string \<Rightarrow> real list \<Rightarrow> real) \<Rightarrow> string \<Rightarrow> real \<Rightarrow> bool" where
  "reads_sum env fn s v \<longleftrightarrow>
     (\<forall>fs a. \<exists>a' p'. settle env (crun env fn s (Expect fs a 1 True False)) = After fs a' p' \<and> a' + p' = a + v)"

lemma crun_simps [simp]:
  "crun env fn [] st = st" "crun env fn (c # s) st = crun env fn s (cstep env fn st c)"
  "crun env fn (s @ t) st = crun env fn t (crun env fn s st)"
  by (simp_all add: crun_def)

lemma settle_settle [simp]: "settle env (settle env st) = settle env st"
  by (cases st) (simp_all add: settle_def)

lemma settle_simps [simp]:
  "settle env (After fs a p) = After fs a p" "settle env (Expect fs a p m n) = Expect fs a p m n"
  by (simp_all add: settle_def)

text \<open>An operator sees a settled state.\<close>

lemma cstep_operator:
  assumes "c \<in> set operator_chars" and "c \<noteq> CHR ''(''" and "settle env st = st'"
  shows "cstep env fn st c = operator_step fn c st'"
  using assms by (simp add: cstep_def)

lemma operand_product: "reads_operand env fn s v \<Longrightarrow> reads_product env fn s v"
  by (simp add: reads_operand_def reads_product_def combine_def)

lemma product_sum: "reads_product env fn s v \<Longrightarrow> reads_sum env fn s v"
  by (auto simp: reads_product_def reads_sum_def)

lemma operand_sum: "reads_operand env fn s v \<Longrightarrow> reads_sum env fn s v"
  by (simp add: operand_product product_sum)

lemma reads_value: "reads_sum env fn s v \<Longrightarrow> c_value env fn s = Some v"
  unfolding reads_sum_def c_value_def by (auto dest!: spec [of _ "[]"] spec [of _ 0])


lemma reads_paren:
  assumes "reads_sum env fn s v"
  shows "reads_operand env fn (''('' @ s @ '')'') v"
  unfolding reads_operand_def
proof (intro allI)
  fix fs :: "(frame \<times> real \<times> real \<times> bool \<times> bool) list" and a p :: real and m n :: bool
  let ?fs = "(Paren, a, p, m, n) # fs"
  from assms obtain a' p' where *: "settle env (crun env fn s (Expect ?fs 0 1 True False)) = After ?fs a' p'" "a' + p' = v"
    unfolding reads_sum_def by (metis add_0)
  show "settle env (crun env fn (''('' @ s @ '')'') (Expect fs a p m n)) = After fs a (combine p m n v)"
    using * by (simp add: cstep_def operator_step_def close_frame_def operator_chars_def)
qed

definition word_string :: "string \<Rightarrow> bool" where
  "word_string w \<longleftrightarrow> w \<noteq> [] \<and> list_all (\<lambda>c. c \<notin> set operator_chars) w"

lemma run_word: "list_all (\<lambda>c. c \<notin> set operator_chars) w \<Longrightarrow>
  crun env fn w (In_word fs a p m n u) = In_word fs a p m n (u @ w)"
  by (induction w arbitrary: u) (simp_all add: cstep_def)

lemma run_word_string: "word_string w \<Longrightarrow> crun env fn w (Expect fs a p m n) = In_word fs a p m n w"
  by (cases w) (simp_all add: word_string_def cstep_def run_word)

lemma reads_word: "word_string w \<Longrightarrow> reads_operand env fn w (word_value env w)"
  by (simp add: reads_operand_def run_word_string settle_def)

lemma reads_minus: "reads_operand env fn s v \<Longrightarrow> reads_operand env fn (CHR ''-'' # s) (- v)"
  by (simp add: reads_operand_def cstep_def operator_step_def operator_chars_def combine_def)

lemma reads_decimal: "reads_operand env fn (dec_string k) (real k)"
proof -
  have d: "list_all isdigit (dec_string k)" by (rule dec_string_digits)
  then have "word_string (dec_string k)"
    by (auto simp: word_string_def list_all_iff operator_chars_def cchar_defs)
  moreover have "word_value env (dec_string k) = real k"
    using d unfolding word_value_def by (simp add: list_all_iff takeWhile_eq_all_conv [THEN iffD2] dec_value_dec_string)
  ultimately show ?thesis using reads_word [of "dec_string k" env fn] by simp
qed

lemma reads_integer: "reads_operand env fn (string_of_int k) (of_int k)"
  using reads_decimal [of env fn "nat k"] reads_minus [OF reads_decimal [of env fn "nat (- k)"]]
  by (cases "k < 0") (simp_all add: string_of_int_def)

lemma separated_Cons [simp]: "separated sep [x] = x" "separated sep (x # y # r) = x @ sep @ separated sep (y # r)"
  by (simp_all add: separated_def)

lemma reads_times:
  assumes "reads_product env fn s u" and "reads_product env fn t v"
  shows "reads_product env fn (s @ ''*'' @ t) (u * v)"
  unfolding reads_product_def
proof (intro allI)
  fix fs a p
  have "settle env (crun env fn s (Expect fs a p True False)) = After fs a (p * u)"
    using assms(1) by (simp add: reads_product_def)
  then have "crun env fn (s @ ''*'') (Expect fs a p True False) = Expect fs a (p * u) True False"
    by (simp add: cstep_operator operator_chars_def operator_step_def)
  then show "settle env (crun env fn (s @ ''*'' @ t) (Expect fs a p True False)) = After fs a (p * (u * v))"
    using assms(2) by (simp add: reads_product_def mult.assoc)
qed

lemma reads_factors:
  assumes "list_all2 (reads_product env fn) ss vs" and "ss \<noteq> []"
  shows "reads_product env fn (separated ''*'' ss) (prod_list vs)"
  using assms
proof (induction ss vs rule: list_all2_induct)
  case (Cons s ss v vs)
  then show ?case by (cases ss) (auto simp: reads_times [simplified])
qed simp

lemma reads_plus:
  assumes "reads_product env fn s u" and "reads_sum env fn t v"
  shows "reads_sum env fn (s @ ''+'' @ t) (u + v)"
  unfolding reads_sum_def
proof (intro allI)
  fix fs a
  have "settle env (crun env fn s (Expect fs a 1 True False)) = After fs a u"
    using assms(1) by (simp add: reads_product_def)
  then have "crun env fn (s @ ''+'') (Expect fs a 1 True False) = Expect fs (a + u) 1 True False"
    by (simp add: cstep_operator operator_chars_def operator_step_def)
  then show "\<exists>a' p'. settle env (crun env fn (s @ ''+'' @ t) (Expect fs a 1 True False)) = After fs a' p' \<and> a' + p' = a + (u + v)"
    using assms(2) by (simp add: reads_sum_def) (metis add.assoc)
qed

lemma reads_terms:
  assumes "list_all2 (reads_product env fn) ss vs" and "ss \<noteq> []"
  shows "reads_sum env fn (separated ''+'' ss) (sum_list vs)"
  using assms
proof (induction ss vs rule: list_all2_induct)
  case (Cons s ss v vs)
  then show ?case by (cases ss) (auto simp: reads_plus [simplified] product_sum)
qed simp

lemma reads_arguments:
  assumes "list_all2 (reads_sum env fn) ss vs" and "ss \<noteq> []"
  shows "crun env fn (separated '','' ss @ '')'') (Expect ((Call f us, a, p, m, n) # fs) 0 1 True False)
    = After fs a (combine p m n (fn f (us @ vs)))"
  using assms
proof (induction ss vs arbitrary: us rule: list_all2_induct)
  case (Cons s ss v vs)
  let ?fs = "(Call f us, a, p, m, n) # fs"
  from Cons.hyps(1) obtain a' p' where *: "settle env (crun env fn s (Expect ?fs 0 1 True False)) = After ?fs a' p'" "a' + p' = v"
    unfolding reads_sum_def by (metis add_0)
  show ?case
  proof (cases ss)
    case Nil
    with Cons.hyps(2) * show ?thesis
      by (simp add: cstep_operator operator_chars_def operator_step_def close_frame_def)
  next
    case (Cons t ts)
    with Cons.IH [of "us @ [v]"] * show ?thesis
      by (simp add: cstep_operator operator_chars_def operator_step_def next_argument_def)
  qed
qed simp

lemma reads_call:
  assumes "list_all2 (reads_sum env fn) ss vs" and "ss \<noteq> []" and "word_string f"
  shows "reads_operand env fn (f @ ''('' @ separated '','' ss @ '')'') (fn f vs)"
  unfolding reads_operand_def
proof (intro allI)
  fix fs a p m n
  have "crun env fn (f @ ''('') (Expect fs a p m n) = Expect ((Call f [], a, p, m, n) # fs) 0 1 True False"
    using assms(3) by (simp add: run_word_string cstep_def operator_chars_def)
  then have "crun env fn (f @ ''('' @ separated '','' ss @ '')'') (Expect fs a p m n) = After fs a (combine p m n (fn f vs))"
    using reads_arguments [OF assms(1,2), of f "[]" a p m n fs] by (simp del: append_assoc add: append_assoc [symmetric])
  then show "settle env (crun env fn (f @ ''('' @ separated '','' ss @ '')'') (Expect fs a p m n)) = After fs a (combine p m n (fn f vs))"
    by simp
qed


section \<open>The value of an expression\<close>

text \<open>Leaves have given values, functions the meaning of their counterparts in C++.\<close>

function gvalue :: "(gex \<Rightarrow> real) \<Rightarrow> (string \<Rightarrow> real list \<Rightarrow> real) \<Rightarrow> gex \<Rightarrow> real" where
  "gvalue lv fn (Ex c es) =
     (case c of
        Numeric (Integer k) \<Rightarrow> of_int k
      | Add \<Rightarrow> sum_list (map (gvalue lv fn) es)
      | Mul \<Rightarrow> prod_list (map (gvalue lv fn) es)
      | Power \<Rightarrow>
          (case es of
             [b, x] \<Rightarrow>
               (case ex_cls x of
                  Numeric (Integer k) \<Rightarrow> gvalue lv fn b powi k
                | _ \<Rightarrow> fn ''std::pow'' [gvalue lv fn b, gvalue lv fn x])
           | _ \<Rightarrow> 0)
      | Function f \<Rightarrow> fn (case map_of func_convert f of Some g \<Rightarrow> g | None \<Rightarrow> f) (map (gvalue lv fn) es)
      | _ \<Rightarrow> lv (Ex c es))"
  by pat_completeness auto
termination
  by (relation "measure (\<lambda>(lv, fn, e). size e)") (auto simp: less_Suc_eq_le size_list_estimation')

text \<open>The expressions that the printer handles: exponents are numbers, functions are known, and there are no empty
  sums, products or argument lists.\<close>

fun supported :: "gex \<Rightarrow> bool" where
  "supported (Ex c es) =
     (list_all supported es \<and>
      (case c of
         Numeric n \<Rightarrow> True | Symbol x \<Rightarrow> True | Tensdelta \<Rightarrow> True | Idx x \<Rightarrow> True | Varidx x \<Rightarrow> True | Indexed \<Rightarrow> True
       | Add \<Rightarrow> es \<noteq> [] | Mul \<Rightarrow> es \<noteq> []
       | Power \<Rightarrow> (case es of [b, x] \<Rightarrow> (case ex_cls x of Numeric n \<Rightarrow> True | _ \<Rightarrow> False) | _ \<Rightarrow> False)
       | Function f \<Rightarrow> map_of func_convert f \<noteq> None \<and> es \<noteq> []
       | _ \<Rightarrow> False))"

definition is_leaf :: "gex \<Rightarrow> bool" where
  "is_leaf e =
     (case ex_cls e of
        Numeric n \<Rightarrow> True | Symbol x \<Rightarrow> True | Tensdelta \<Rightarrow> True | Idx x \<Rightarrow> True | Varidx x \<Rightarrow> True | Indexed \<Rightarrow> True
      | _ \<Rightarrow> False)"

text \<open>How a printed expression reads.\<close>

definition reads_as :: "(string \<Rightarrow> real) \<Rightarrow> (string \<Rightarrow> real list \<Rightarrow> real) \<Rightarrow> gex \<Rightarrow> string \<Rightarrow> real \<Rightarrow> bool" where
  "reads_as env fn e s v =
     (case ex_cls e of
        Add \<Rightarrow> reads_sum env fn s v
      | Mul \<Rightarrow> reads_product env fn s v
      | Power \<Rightarrow> reads_product env fn s v
      | _ \<Rightarrow> reads_operand env fn s v)"

lemma reads_as_operand: "reads_operand env fn s v \<Longrightarrow> reads_as env fn e s v"
  by (simp add: reads_as_def operand_product operand_sum split: ex_class.split)

lemma reads_as_sum: "reads_as env fn e s v \<Longrightarrow> reads_sum env fn s v"
  by (auto simp: reads_as_def product_sum operand_sum split: ex_class.splits)

lemma reads_as_product: "reads_as env fn e s v \<Longrightarrow> \<not> is_add e \<Longrightarrow> reads_product env fn s v"
  by (auto simp: reads_as_def is_add_def operand_product split: ex_class.splits)

lemma reads_sum_unique: "reads_sum env fn s u \<Longrightarrow> reads_sum env fn s v \<Longrightarrow> u = v"
  using reads_value by (metis option.inject)

text \<open>An operand of a sum or product, in parentheses if it is a sum.\<close>

lemma reads_bracketed:
  "reads_as env fn e s v \<Longrightarrow> reads_product env fn (if is_add e then ''('' @ s @ '')'' else s) v"
  using operand_product [OF reads_paren [OF reads_as_sum]] reads_as_product [of env fn e s v] by (simp split: if_split)

subsection \<open>Powers\<close>

lemma word_literals: "word_string ''1.0''" "word_string ''std::pow''" "word_value env ''1.0'' = 1"
  by (auto simp: word_string_def operator_chars_def word_value_def cchar_defs)

lemma reads_unwrap:
  assumes "reads_as env fn e s v" and "supported e" and "0 < k"
  shows "reads_product env fn (unwrap_power s e k) (v ^ k)" "k = 1 \<Longrightarrow> reads_operand env fn (unwrap_power s e k) v"
proof -
  let ?x = "if simple_base e then s else ''('' @ s @ '')''"
  have x: "reads_operand env fn ?x v"
  proof (cases "simple_base e")
    case True
    then have "reads_operand env fn s v"
      using assms(1,2) by (cases e) (auto simp: simple_base_def reads_as_def split: ex_class.splits)
    with True show ?thesis by simp
  next
    case False
    then show ?thesis using reads_paren [OF reads_as_sum [OF assms(1)]] by simp
  qed
  then have "list_all2 (reads_product env fn) (replicate k ?x) (replicate k v)"
    by (simp add: list_all2_conv_all_nth operand_product)
  from reads_factors [OF this] assms(3) show "reads_product env fn (unwrap_power s e k) (v ^ k)"
    by (simp add: unwrap_power_def prod_list_replicate)
  show "k = 1 \<Longrightarrow> reads_operand env fn (unwrap_power s e k) v" using x by (simp add: unwrap_power_def)
qed

lemma reads_inverse:
  assumes "reads_operand env fn s v"
  shows "reads_product env fn (''1.0/'' @ s) (inverse v)"
proof -
  have "crun env fn ''1.0/'' (Expect fs a p True False) = Expect fs a p False False" for fs a p
    using run_word_string [OF word_literals(1), of env fn fs a p True False] word_literals(3) [of env]
    by (simp add: cstep_def operator_chars_def settle_def operator_step_def combine_def)
  then have "crun env fn (''1.0/'' @ s) (Expect fs a p True False) = crun env fn s (Expect fs a p False False)" for fs a p
    by (simp only: crun_simps(3))
  then show ?thesis using assms
    by (simp only: reads_product_def reads_operand_def) (simp add: combine_def divide_inverse)
qed

lemma reads_power_string:
  assumes "reads_as env fn b base v" and "supported b" and "reads_sum env fn exponent x"
    and "\<And>u k. fn ''std::pow'' [u, of_int k] = u powi k"
  shows "reads_product env fn (power_string base b exponent n)
    (case n of Integer k \<Rightarrow> v powi k | Non_integer y \<Rightarrow> fn ''std::pow'' [v, x])"
proof -
  have paren: "reads_operand env fn (''('' @ unwrap_power base b k @ '')'') (v ^ k)" if "0 < k" for k
    using reads_paren [OF product_sum [OF reads_unwrap(1) [OF assms(1,2) that]]] .
  have neg: "reads_product env fn (''1.0/('' @ unwrap_power base b k @ '')'') (inverse (v ^ k))" if "0 < k" for k
    using reads_inverse [OF paren [OF that]] by simp
  have one: "reads_operand env fn (unwrap_power base b 1) v"
    using reads_unwrap(2) [OF assms(1,2), of 1] by simp
  have zero: "reads_operand env fn ''1.0'' 1" using reads_word [OF word_literals(1), of env fn] word_literals(3) by simp
  have call: "reads_operand env fn (''std::pow('' @ base @ '','' @ t @ '')'') (fn ''std::pow'' [v, u])"
    if "reads_sum env fn t u" for t u
    using reads_call [of env fn "[base, t]" "[v, u]" "''std::pow''"] that reads_as_sum [OF assms(1)] word_literals(2)
    by simp
  show ?thesis
  proof (cases n)
    case (Integer k)
    have powers: "0 \<le> k \<Longrightarrow> v powi k = v ^ nat k" "k < 0 \<Longrightarrow> v powi k = inverse (v ^ nat (- k))" for k
      by (simp_all add: power_int_def power_inverse)
    show ?thesis using paren [of 2] paren [of 3] paren [of 4] neg [of 2] neg [of 3] neg [of 4] one zero
        reads_inverse [OF one] call [OF operand_sum [OF reads_integer], of k]
      by (auto simp: Integer power_string_def assms(4) powers operand_product)
  next
    case (Non_integer y)
    then show ?thesis using operand_product [OF call [OF assms(3)]] by (simp add: power_string_def)
  qed
qed


section \<open>The tables of the worker\<close>

text \<open>The names of temporaries. An environment fits a valuation of them on some names, and is the given one outside temporaries.\<close>

definition temporaries_of :: "string \<Rightarrow> string set" where
  "temporaries_of k = {symbol_name k n c | n c. True}"

definition fits :: "string \<Rightarrow> (string \<Rightarrow> real) \<Rightarrow> (string \<Rightarrow> real) \<Rightarrow> string set \<Rightarrow> (string \<Rightarrow> real) \<Rightarrow> bool" where
  "fits k env0 V D E \<longleftrightarrow> (\<forall>w. w \<notin> temporaries_of k \<longrightarrow> E w = env0 w) \<and> (\<forall>w \<in> D. E w = V w)"

definition symbols_of :: "cse \<Rightarrow> string set" where
  "symbols_of s = (sr_symbol \<circ> snd) ` set (cs_symbols s)"

definition declared :: "cse \<Rightarrow> string set" where
  "declared s = fst ` set (cs_decls s)"

text \<open>A sequence of declarations is well-founded: every target reads with the names declared before it.\<close>

fun decls_ok :: "string \<Rightarrow> (string \<Rightarrow> real) \<Rightarrow> (string \<Rightarrow> real list \<Rightarrow> real) \<Rightarrow> (string \<Rightarrow> real) \<Rightarrow> string set \<Rightarrow> (string \<times> string) list \<Rightarrow> bool" where
  "decls_ok k env0 fn V D [] = True"
| "decls_ok k env0 fn V D ((x, t) # ds) =
     (x \<in> temporaries_of k \<and> x \<notin> D \<and> (\<forall>E. fits k env0 V D E \<longrightarrow> reads_sum E fn t (V x))
      \<and> decls_ok k env0 fn V (insert x D) ds)"

definition table_ok :: "(string \<Rightarrow> real) \<Rightarrow> (string \<Rightarrow> real list \<Rightarrow> real) \<Rightarrow> (string \<Rightarrow> real) \<Rightarrow> cse \<Rightarrow> bool" where
  "table_ok env0 fn V s \<longleftrightarrow>
     distinct (map fst (cs_symbols s))
   \<and> distinct (map (sr_symbol \<circ> snd) (cs_symbols s))
   \<and> (\<forall>(t, r) \<in> set (cs_symbols s).
        sr_target r = t
      \<and> (\<exists>c < cs_counter s. sr_symbol r = symbol_name (cs_kernel s) (cs_serial s) c)
      \<and> (sr_written r \<longleftrightarrow> sr_symbol r \<in> declared s)
      \<and> (\<forall>E. fits (cs_kernel s) env0 V (symbols_of s) E \<longrightarrow> reads_sum E fn t (V (sr_symbol r))))
   \<and> declared s \<subseteq> symbols_of s
   \<and> decls_ok (cs_kernel s) env0 fn V {} (cs_decls s)"

lemma fits_mono: "fits k env0 V D E \<Longrightarrow> D' \<subseteq> D \<Longrightarrow> fits k env0 V D' E"
  by (auto simp: fits_def)

lemma fits_cong: "(\<And>w. w \<in> D \<Longrightarrow> V w = V' w) \<Longrightarrow> fits k env0 V D E = fits k env0 V' D E"
  by (auto simp: fits_def)

text \<open>Such an environment exists.\<close>

lemma fits_exists:
  assumes "D \<subseteq> temporaries_of k"
  shows "fits k env0 V D (\<lambda>w. if w \<in> D then V w else env0 w)"
  using assms by (auto simp: fits_def)

lemma decls_ok_append:
  "decls_ok k env0 fn V D (ds @ es) \<longleftrightarrow> decls_ok k env0 fn V D ds \<and> decls_ok k env0 fn V (D \<union> fst ` set ds) es"
proof (induction ds arbitrary: D)
  case (Cons d ds)
  obtain x t where "d = (x, t)" by (cases d)
  with Cons [of "insert x D"] show ?case by (simp add: insert_commute Un_commute)
qed simp

lemma decls_ok_distinct: "decls_ok k env0 fn V D ds \<Longrightarrow> distinct (map fst ds) \<and> fst ` set ds \<inter> D = {}"
proof (induction ds arbitrary: D)
  case (Cons d ds)
  obtain x t where "d = (x, t)" by (cases d)
  with Cons.prems Cons.IH [of "insert x D"] show ?case by auto
qed simp

lemma decls_ok_cong:
  assumes "decls_ok k env0 fn V D ds" and "\<And>w. w \<in> D \<union> fst ` set ds \<Longrightarrow> V w = V' w"
  shows "decls_ok k env0 fn V' D ds"
  using assms
proof (induction ds arbitrary: D)
  case (Cons d ds)
  obtain x t where d: "d = (x, t)" by (cases d)
  have "fits k env0 V D E = fits k env0 V' D E" for E using Cons.prems(2) by (intro fits_cong) auto
  with Cons.prems Cons.IH [of "insert x D"] show ?case by (auto simp: d)
qed simp

text \<open>Executing well-founded declarations gives every declared name its value.\<close>

lemma execute_decls:
  assumes "decls_ok k env0 fn V D ds" and "fits k env0 V D E"
  shows "\<exists>E'. execute fn ds E = Some E' \<and> fits k env0 V (D \<union> fst ` set ds) E' \<and> (\<forall>w. w \<notin> fst ` set ds \<longrightarrow> E' w = E w)"
  using assms
proof (induction ds arbitrary: D E)
  case (Cons d ds)
  obtain x t where d: "d = (x, t)" by (cases d)
  have v: "c_value E fn t = Some (V x)" using Cons.prems by (auto simp: d intro: reads_value)
  have "fits k env0 V (insert x D) (E(x := V x))" using Cons.prems by (auto simp: d fits_def)
  moreover have "decls_ok k env0 fn V (insert x D) ds" using Cons.prems(1) by (simp add: d)
  ultimately obtain E' where E': "execute fn ds (E(x := V x)) = Some E'" "fits k env0 V (insert x D \<union> fst ` set ds) E'"
    "\<forall>w. w \<notin> fst ` set ds \<longrightarrow> E' w = (E(x := V x)) w" using Cons.IH by blast
  have "insert x D \<union> fst ` set ds = D \<union> fst ` set (d # ds)" by (simp add: d)
  with E' v show ?case by (auto simp: d)
qed simp

lemma map_of_sr_symbol:
  "map_of (cs_symbols s) t = Some r \<Longrightarrow> sr_symbol r \<in> symbols_of s"
  by (auto simp: symbols_of_def dest!: map_of_SomeD intro!: rev_image_eqI)

text \<open>Depositing a record keeps the table, if its target reads with what is declared.\<close>

lemma update_self: "distinct (map fst xs) \<Longrightarrow> map_of xs k = Some r \<Longrightarrow> f r' = f r \<Longrightarrow>
  map (f \<circ> snd) (AList.update k r' xs) = map (f \<circ> snd) xs \<and> map fst (AList.update k r' xs) = map fst xs"
proof (induction xs)
  case (Cons x xs)
  then show ?case by (cases x) (auto dest: map_of_SomeD)
qed simp

definition same_names :: "cse \<Rightarrow> cse \<Rightarrow> bool" where
  "same_names s s' \<longleftrightarrow> cs_kernel s' = cs_kernel s \<and> cs_serial s' = cs_serial s \<and> cs_counter s' = cs_counter s
     \<and> (\<forall>t. map_option sr_symbol (map_of (cs_symbols s') t) = map_option sr_symbol (map_of (cs_symbols s) t))
     \<and> symbols_of s' = symbols_of s \<and> declared s \<subseteq> declared s'"

lemma same_names_refl [simp]: "same_names s s"
  by (simp add: same_names_def)

lemma same_names_trans: "same_names a b \<Longrightarrow> same_names b c \<Longrightarrow> same_names a c"
  by (auto simp: same_names_def)

lemma deposit_ok:
  assumes "table_ok env0 fn V s" and "map_of (cs_symbols s) t = Some r"
    and "\<And>E. fits (cs_kernel s) env0 V (declared s) E \<Longrightarrow> reads_sum E fn t (V (sr_symbol r))"
  shows "table_ok env0 fn V (cse_deposit t s) \<and> same_names s (cse_deposit t s) \<and> sr_symbol r \<in> declared (cse_deposit t s)"
proof (cases "sr_written r")
  case True
  with assms(1,2) have "sr_symbol r \<in> declared s" by (auto simp: table_ok_def dest!: map_of_SomeD)
  with True assms(1,2) show ?thesis by (simp add: cse_deposit_def)
next
  case False
  let ?r = "r\<lparr>sr_written := True\<rparr>"
  let ?xs = "AList.update t ?r (cs_symbols s)"
  have eq: "cse_deposit t s = s\<lparr>cs_decls := cs_decls s @ [(sr_symbol r, sr_target r)], cs_symbols := ?xs\<rparr>"
    using assms(2) False by (simp add: cse_deposit_def)
  have fl: "cs_symbols (cse_deposit t s) = ?xs" by (simp add: eq)
  have d: "distinct (map fst (cs_symbols s))" using assms(1) by (simp add: table_ok_def)
  have m: "map (sr_symbol \<circ> snd) ?xs = map (sr_symbol \<circ> snd) (cs_symbols s)" "map fst ?xs = map fst (cs_symbols s)"
    using update_self [OF d assms(2), of sr_symbol ?r] by simp_all
  have syms: "symbols_of (cse_deposit t s) = symbols_of s"
    using arg_cong [OF m(1), of set] by (simp add: eq symbols_of_def)
  have mem: "(t, r) \<in> set (cs_symbols s)" using assms(2) by (rule map_of_SomeD)
  have r: "sr_target r = t" "sr_symbol r \<notin> declared s"
    "\<exists>c < cs_counter s. sr_symbol r = symbol_name (cs_kernel s) (cs_serial s) c"
    using assms(1) mem False by (auto simp: table_ok_def)
  have xs: "set ?xs = insert (t, ?r) (set (cs_symbols s) - {(t, r)})"
  proof -
    have d': "distinct (map fst ?xs)" using d by (simp only: m(2))
    have "(u, q) \<in> set ?xs \<longleftrightarrow> (u, q) \<in> insert (t, ?r) (set (cs_symbols s) - {(t, r)})" for u q
    proof -
      have "(u, q) \<in> set ?xs \<longleftrightarrow> map_of ?xs u = Some q" using map_of_eq_Some_iff [OF d'] by blast
      also have "\<dots> \<longleftrightarrow> (if u = t then q = ?r else map_of (cs_symbols s) u = Some q)" by (auto simp: update_conv')
      also have "\<dots> \<longleftrightarrow> (if u = t then q = ?r else (u, q) \<in> set (cs_symbols s))"
        using map_of_eq_Some_iff [OF d] by simp
      also have "\<dots> \<longleftrightarrow> (u, q) \<in> insert (t, ?r) (set (cs_symbols s) - {(t, r)})"
        using assms(2) map_of_eq_Some_iff [OF d, of t q] by auto
      finally show ?thesis .
    qed
    then show ?thesis by (simp only: set_eq_iff split_paired_All) blast
  qed
  have other: "sr_symbol q \<noteq> sr_symbol r" if "(u, q) \<in> set (cs_symbols s)" "(u, q) \<noteq> (t, r)" for u q
  proof -
    have "inj_on (sr_symbol \<circ> snd) (set (cs_symbols s))" using assms(1) by (simp add: table_ok_def distinct_map)
    from inj_onD [OF this, of "(u, q)" "(t, r)"] that mem show ?thesis by auto
  qed
  have decl: "declared (cse_deposit t s) = insert (sr_symbol r) (declared s)" by (auto simp: eq declared_def)
  have "table_ok env0 fn V (cse_deposit t s)"
    unfolding table_ok_def
  proof (intro conjI)
    show "distinct (map fst (cs_symbols (cse_deposit t s)))"
      "distinct (map (sr_symbol \<circ> snd) (cs_symbols (cse_deposit t s)))"
      using assms(1) unfolding fl(1) m by (simp_all add: table_ok_def)
    show "\<forall>(t', r') \<in> set (cs_symbols (cse_deposit t s)). sr_target r' = t'
      \<and> (\<exists>c < cs_counter (cse_deposit t s). sr_symbol r' = symbol_name (cs_kernel (cse_deposit t s)) (cs_serial (cse_deposit t s)) c)
      \<and> (sr_written r' \<longleftrightarrow> sr_symbol r' \<in> declared (cse_deposit t s))
      \<and> (\<forall>E. fits (cs_kernel (cse_deposit t s)) env0 V (symbols_of (cse_deposit t s)) E \<longrightarrow> reads_sum E fn t' (V (sr_symbol r')))"
      using assms(1) mem r other unfolding syms decl table_ok_def by (auto simp: eq xs)
    show "declared (cse_deposit t s) \<subseteq> symbols_of (cse_deposit t s)"
      using assms(1) map_of_sr_symbol [OF assms(2)] unfolding syms decl by (simp add: table_ok_def)
    show "decls_ok (cs_kernel (cse_deposit t s)) env0 fn V {} (cs_decls (cse_deposit t s))"
      using assms(1,3) r by (auto simp: eq decls_ok_append table_ok_def declared_def temporaries_of_def)
  qed
  moreover have "map_option sr_symbol (map_of ?xs u) = map_option sr_symbol (map_of (cs_symbols s) u)" for u
    using assms(2) by (simp add: update_conv')
  ultimately show ?thesis using syms decl by (auto simp: same_names_def eq)
qed


section \<open>Printing with the tables\<close>

definition kernel_ok :: "string \<Rightarrow> bool" where
  "kernel_ok k \<longleftrightarrow> word_string k \<and> \<not> isdigit (hd k)"

text \<open>What is relied upon of the library's printing: a leaf is printed as an operand with its value, which does not depend on
  temporaries.\<close>

definition leaves_ok :: "cse_config \<Rightarrow> string \<Rightarrow> (string \<Rightarrow> real) \<Rightarrow> (string \<Rightarrow> real list \<Rightarrow> real) \<Rightarrow> (gex \<Rightarrow> real) \<Rightarrow> gex \<Rightarrow> bool" where
  "leaves_ok cfg k env0 fn lv e \<longleftrightarrow>
     (\<forall>x \<in> set (postorder e). is_leaf x \<longrightarrow>
        (\<forall>E. fits k env0 env0 {} E \<longrightarrow> reads_operand E fn (cc_ginac cfg x) (gvalue lv fn x)))"

lemma leaves_ok_ops: "leaves_ok cfg k env0 fn lv (Ex c es) \<Longrightarrow> e \<in> set es \<Longrightarrow> leaves_ok cfg k env0 fn lv e"
  by (auto simp: leaves_ok_def)

lemma fits_nothing: "fits k env0 V D E \<Longrightarrow> fits k env0 env0 {} E"
  by (simp add: fits_def)

lemma leaves_ok_leaf:
  "leaves_ok cfg k env0 fn lv e \<Longrightarrow> is_leaf e \<Longrightarrow> fits k env0 V D E \<Longrightarrow> reads_as E fn e (cc_ginac cfg e) (gvalue lv fn e)"
  by (cases e) (auto simp: leaves_ok_def intro!: reads_as_operand dest: fits_nothing)

lemma word_string_append: "word_string u \<Longrightarrow> list_all (\<lambda>c. c \<notin> set operator_chars) v \<Longrightarrow> word_string (u @ v)"
  by (simp add: word_string_def)

lemma symbol_word:
  assumes "kernel_ok k"
  shows "word_string (symbol_name k n c)" and "word_value E (symbol_name k n c) = E (symbol_name k n c)"
proof -
  have d: "list_all (\<lambda>c. c \<notin> set operator_chars) (dec_string m)" for m
    using dec_string_digits [of m] by (auto simp: list_all_iff operator_chars_def cchar_defs)
  show "word_string (symbol_name k n c)"
    unfolding symbol_name_def u32_string_def
    by (rule word_string_append) (use assms d in \<open>auto simp: kernel_ok_def operator_chars_def\<close>)
  obtain h r where "k = h # r" using assms by (cases k) (auto simp: kernel_ok_def word_string_def)
  with assms show "word_value E (symbol_name k n c) = E (symbol_name k n c)"
    by (simp add: symbol_name_def word_value_def kernel_ok_def)
qed

definition readable_names :: "bool \<Rightarrow> cse \<Rightarrow> string set" where
  "readable_names use s = (if use then declared s else symbols_of s)"

lemma readable_mono: "same_names s s' \<Longrightarrow> readable_names use s \<subseteq> readable_names use s'"
  by (auto simp: readable_names_def same_names_def)

text \<open>The outcome of a printing function: the tables are as before up to declarations, and the result reads.\<close>

definition outcome :: "(string \<Rightarrow> real) \<Rightarrow> (string \<Rightarrow> real list \<Rightarrow> real) \<Rightarrow> (string \<Rightarrow> real) \<Rightarrow> bool \<Rightarrow> cse \<Rightarrow> cse
    \<Rightarrow> ((string \<Rightarrow> real) \<Rightarrow> bool) \<Rightarrow> bool" where
  "outcome env0 fn V use s s1 reads \<longleftrightarrow>
     table_ok env0 fn V s1 \<and> same_names s s1 \<and> (\<not> use \<longrightarrow> s1 = s)
   \<and> (\<forall>E. fits (cs_kernel s) env0 V (readable_names use s1) E \<longrightarrow> reads E)"

lemma outcome_refl:
  "table_ok env0 fn V s \<Longrightarrow> (\<And>E. fits (cs_kernel s) env0 V (readable_names use s) E \<Longrightarrow> reads E) \<Longrightarrow> outcome env0 fn V use s s reads"
  by (simp add: outcome_def)

lemma outcome_trans:
  assumes "outcome env0 fn V use s s1 reads" and "outcome env0 fn V use s1 s2 reads'"
    and "\<And>E. reads E \<Longrightarrow> reads' E \<Longrightarrow> reads'' E"
  shows "outcome env0 fn V use s s2 reads''"
proof -
  have k: "cs_kernel s1 = cs_kernel s" using assms(1) by (simp add: outcome_def same_names_def)
  have "readable_names use s1 \<subseteq> readable_names use s2" using assms(2) readable_mono by (simp add: outcome_def)
  then have "fits (cs_kernel s) env0 V (readable_names use s2) E \<Longrightarrow> fits (cs_kernel s) env0 V (readable_names use s1) E" for E
    by (rule fits_mono [rotated])
  with assms k show ?thesis by (auto simp: outcome_def intro: same_names_trans)
qed

lemma outcome_mono: "outcome env0 fn V use s s1 reads \<Longrightarrow> (\<And>E. reads E \<Longrightarrow> reads' E) \<Longrightarrow> outcome env0 fn V use s s1 reads'"
  by (auto simp: outcome_def)

definition reads_list :: "(string \<Rightarrow> real) \<Rightarrow> (string \<Rightarrow> real list \<Rightarrow> real) \<Rightarrow> string \<Rightarrow> string list \<Rightarrow> real list \<Rightarrow> bool" where
  "reads_list E fn op = list_all2 (if op = '','' then reads_sum E fn else reads_product E fn)"

lemma table_ok_symbols:
  assumes "table_ok env0 fn V s"
  shows "symbols_of s \<subseteq> temporaries_of (cs_kernel s)"
proof
  fix x assume "x \<in> symbols_of s"
  then obtain t r where "(t, r) \<in> set (cs_symbols s)" "x = sr_symbol r" by (auto simp: symbols_of_def)
  with assms have "\<exists>c. x = symbol_name (cs_kernel s) (cs_serial s) c" unfolding table_ok_def by blast
  then show "x \<in> temporaries_of (cs_kernel s)" unfolding temporaries_of_def by blast
qed

text \<open>The symbol that is looked up for a printed expression.\<close>

lemma symbol_reads:
  assumes ok: "table_ok env0 fn V s" and k: "kernel_ok (cs_kernel s)" and r: "map_of (cs_symbols s) t = Some r"
    and t: "\<And>E. fits (cs_kernel s) env0 V (readable_names use s) E \<Longrightarrow> reads_sum E fn t v"
  shows "outcome env0 fn V use s (if use then cse_deposit t s else s) (\<lambda>E. reads_operand E fn (sr_symbol r) v)"
proof -
  let ?s = "if use then cse_deposit t s else s"
  have m: "(t, r) \<in> set (cs_symbols s)" using r by (rule map_of_SomeD)
  have sym: "readable_names use s \<subseteq> symbols_of s" "symbols_of s \<subseteq> temporaries_of (cs_kernel s)"
    using table_ok_symbols [OF ok] ok by (simp_all add: table_ok_def readable_names_def)
  from fits_exists [OF sym(2)] obtain E where E: "fits (cs_kernel s) env0 V (symbols_of s) E" by blast
  then have "reads_sum E fn t v" by (intro t fits_mono [OF _ sym(1)])
  moreover have "reads_sum E fn t (V (sr_symbol r))" using ok m E by (auto simp: table_ok_def)
  ultimately have v: "V (sr_symbol r) = v" by (rule reads_sum_unique [symmetric])
  have dep: "table_ok env0 fn V ?s \<and> same_names s ?s \<and> sr_symbol r \<in> readable_names use ?s"
  proof (cases use)
    case True
    then show ?thesis using deposit_ok [OF ok r] t v by (simp add: readable_names_def)
  next
    case False
    then show ?thesis using ok map_of_sr_symbol [OF r] by (simp add: readable_names_def)
  qed
  obtain n c where "sr_symbol r = symbol_name (cs_kernel s) n c" using ok m by (auto simp: table_ok_def)
  then have "reads_operand E fn (sr_symbol r) (E (sr_symbol r))" for E
    using reads_word [OF symbol_word(1) [OF k]] symbol_word(2) [OF k] by metis
  with dep v show ?thesis by (auto simp: outcome_def fits_def split: if_split) (metis same_names_def)+
qed

text \<open>Printing reads back as the expression, by induction on the expression: symbols and operands follow from the
  printing of the parts.\<close>

definition printing_ok :: "cse_config \<Rightarrow> (string \<Rightarrow> real) \<Rightarrow> (string \<Rightarrow> real list \<Rightarrow> real) \<Rightarrow> (gex \<Rightarrow> real) \<Rightarrow> (string \<Rightarrow> real)
    \<Rightarrow> (gex \<Rightarrow> cse \<Rightarrow> string \<times> cse) \<Rightarrow> bool \<Rightarrow> gex \<Rightarrow> bool" where
  "printing_ok cfg env0 fn lv V f use e \<longleftrightarrow>
     (\<forall>s x s1. f e s = (x, s1) \<longrightarrow> leaves_ok cfg (cs_kernel s) env0 fn lv e \<longrightarrow> table_ok env0 fn V s \<longrightarrow> kernel_ok (cs_kernel s)
        \<longrightarrow> outcome env0 fn V use s s1 (\<lambda>E. reads_as E fn e x (gvalue lv fn e)))"

lemma printing_okD:
  assumes "printing_ok cfg env0 fn lv V f use e" and "f e s = (x, s1)" and "leaves_ok cfg (cs_kernel s) env0 fn lv e"
    and "table_ok env0 fn V s" and "kernel_ok (cs_kernel s)"
  shows "outcome env0 fn V use s s1 (\<lambda>E. reads_as E fn e x (gvalue lv fn e))"
  using assms by (simp add: printing_ok_def)

lemma outcome_keeps: "outcome env0 fn V use s s1 R \<Longrightarrow> cs_kernel s1 = cs_kernel s \<and> table_ok env0 fn V s1"
  by (simp add: outcome_def same_names_def)

lemma symbol_ok:
  assumes "printing_ok cfg env0 fn lv V (print_ex cfg use) use e" and "cc_do_cse cfg"
  shows "printing_ok cfg env0 fn lv V (cse_symbol cfg use) use e"
  unfolding printing_ok_def
proof (intro allI impI)
  fix s x s1
  assume x: "cse_symbol cfg use e s = (x, s1)" and s: "leaves_ok cfg (cs_kernel s) env0 fn lv e" "table_ok env0 fn V s"
    "kernel_ok (cs_kernel s)"
  obtain t s2 where t: "print_ex cfg use e s = (t, s2)" by fastforce
  from printing_okD [OF assms(1) t s] have 1: "outcome env0 fn V use s s2 (\<lambda>E. reads_as E fn e t (gvalue lv fn e))" .
  from outcome_keeps [OF 1] have k: "cs_kernel s2 = cs_kernel s" "table_ok env0 fn V s2" by simp_all
  show "outcome env0 fn V use s s1 (\<lambda>E. reads_as E fn e x (gvalue lv fn e))"
  proof (cases "map_of (cs_symbols s2) t")
    case None
    then show ?thesis using 1 x t assms(2) by (simp add: cse_symbol.simps)
  next
    case (Some r)
    have "outcome env0 fn V use s2 (if use then cse_deposit t s2 else s2) (\<lambda>E. reads_operand E fn (sr_symbol r) (gvalue lv fn e))"
      by (rule symbol_reads [OF k(2) _ Some]) (use 1 s k in \<open>auto simp: outcome_def intro: reads_as_sum\<close>)
    moreover have "x = sr_symbol r" "s1 = (if use then cse_deposit t s2 else s2)"
      using Some x t assms(2) by (simp_all add: cse_symbol.simps)
    ultimately show ?thesis using outcome_trans [OF 1, of s1 _ "\<lambda>E. reads_as E fn e x (gvalue lv fn e)"] by (simp add: reads_as_operand)
  qed
qed

lemma operands_ok:
  assumes "\<And>e. e \<in> set es \<Longrightarrow> printing_ok cfg env0 fn lv V (cse_symbol cfg use) use e"
    and "\<And>e. e \<in> set es \<Longrightarrow> leaves_ok cfg (cs_kernel s) env0 fn lv e" and "table_ok env0 fn V s" and "kernel_ok (cs_kernel s)"
    and "print_operands cfg use op es s = (xs, s1)"
  shows "outcome env0 fn V use s s1 (\<lambda>E. reads_list E fn op xs (map (gvalue lv fn) es))"
  using assms
proof (induction es arbitrary: s xs)
  case Nil
  then show ?case by (auto intro!: outcome_refl simp: reads_list_def)
next
  case (Cons e es)
  obtain x s2 where x: "cse_symbol cfg use e s = (x, s2)" by fastforce
  obtain ys s3 where ys: "print_operands cfg use op es s2 = (ys, s3)" by fastforce
  have eq: "xs = (if op \<noteq> '','' \<and> is_add e then ''('' @ x @ '')'' else x) # ys" "s1 = s3" using Cons.prems(5) x ys by auto
  have 1: "outcome env0 fn V use s s2 (\<lambda>E. reads_as E fn e x (gvalue lv fn e))"
    using printing_okD [OF Cons.prems(1) x] Cons.prems(2-4) by simp
  from outcome_keeps [OF 1] have k: "cs_kernel s2 = cs_kernel s" "table_ok env0 fn V s2" by simp_all
  have 2: "outcome env0 fn V use s2 s1 (\<lambda>E. reads_list E fn op ys (map (gvalue lv fn) es))"
    using Cons.IH [of s2 ys] Cons.prems ys k eq(2) by simp
  show ?case
  proof (rule outcome_trans [OF 1 2])
    fix E assume r: "reads_as E fn e x (gvalue lv fn e)" "reads_list E fn op ys (map (gvalue lv fn) es)"
    then show "reads_list E fn op xs (map (gvalue lv fn) (e # es))"
      using reads_bracketed [OF r(1)] reads_as_sum [OF r(1)] unfolding eq(1)
      by (cases "op = '',''") (simp_all add: reads_list_def)
  qed
qed

lemma leaf_ok:
  assumes "is_leaf e" and "\<And>s. print_ex cfg use e s = (cc_ginac cfg e, s)"
  shows "printing_ok cfg env0 fn lv V (print_ex cfg use) use e"
  unfolding printing_ok_def using assms by (auto intro!: outcome_refl leaves_ok_leaf)

text \<open>Sums, products and calls.\<close>

lemma node_ok:
  assumes "\<And>e. e \<in> set es \<Longrightarrow> printing_ok cfg env0 fn lv V (cse_symbol cfg use) use e" and "es \<noteq> []"
    and "\<And>s xs s1. print_operands cfg use op es s = (xs, s1) \<Longrightarrow> print_ex cfg use (Ex c es) s = (g xs, s1)"
    and "\<And>E xs. reads_list E fn op xs (map (gvalue lv fn) es) \<Longrightarrow> xs \<noteq> [] \<Longrightarrow> reads_as E fn (Ex c es) (g xs) (gvalue lv fn (Ex c es))"
  shows "printing_ok cfg env0 fn lv V (print_ex cfg use) use (Ex c es)"
  unfolding printing_ok_def
proof (intro allI impI)
  fix s x s1
  assume x: "print_ex cfg use (Ex c es) s = (x, s1)" and s: "leaves_ok cfg (cs_kernel s) env0 fn lv (Ex c es)"
    "table_ok env0 fn V s" "kernel_ok (cs_kernel s)"
  obtain xs s2 where xs: "print_operands cfg use op es s = (xs, s2)" by fastforce
  have eq: "x = g xs" "s2 = s1" using assms(3) [OF xs] x by auto
  have "outcome env0 fn V use s s1 (\<lambda>E. reads_list E fn op xs (map (gvalue lv fn) es))"
    by (rule operands_ok [OF assms(1) _ s(2,3)]) (use s(1) xs eq in \<open>auto intro: leaves_ok_ops\<close>)
  moreover have "reads_list E fn op xs (map (gvalue lv fn) es) \<Longrightarrow> xs \<noteq> []" for E
    using assms(2) by (auto simp: reads_list_def)
  ultimately show "outcome env0 fn V use s s1 (\<lambda>E. reads_as E fn (Ex c es) x (gvalue lv fn (Ex c es)))"
    unfolding eq by (blast intro: outcome_mono assms(4))
qed

lemma power_ok:
  assumes pow: "\<And>u k. fn ''std::pow'' [u, of_int k] = u powi k"
    and b: "printing_ok cfg env0 fn lv V (cse_symbol cfg use) use b" "supported b"
    and x: "printing_ok cfg env0 fn lv V (cse_symbol cfg use) use x" "ex_cls x = Numeric n"
  shows "printing_ok cfg env0 fn lv V (print_ex cfg use) use (Ex Power [b, x])"
  unfolding printing_ok_def
proof (intro allI impI)
  fix s y s1
  assume y: "print_ex cfg use (Ex Power [b, x]) s = (y, s1)" and s: "leaves_ok cfg (cs_kernel s) env0 fn lv (Ex Power [b, x])"
    "table_ok env0 fn V s" "kernel_ok (cs_kernel s)"
  obtain t s2 where t: "cse_symbol cfg use x s = (t, s2)" by fastforce
  obtain z s3 where z: "cse_symbol cfg use b s2 = (z, s3)" by fastforce
  have eq: "y = power_string z b t n" "s1 = s3" using y t z x(2) by (simp_all add: print_ex.simps)
  have 1: "outcome env0 fn V use s s2 (\<lambda>E. reads_as E fn x t (gvalue lv fn x))"
    using printing_okD [OF x(1) t] s leaves_ok_ops [OF s(1)] by simp
  from outcome_keeps [OF 1] have k: "cs_kernel s2 = cs_kernel s" "table_ok env0 fn V s2" by simp_all
  have 2: "outcome env0 fn V use s2 s1 (\<lambda>E. reads_as E fn b z (gvalue lv fn b))"
    using printing_okD [OF b(1) z] s(3) k leaves_ok_ops [OF s(1)] eq(2) by simp
  show "outcome env0 fn V use s s1 (\<lambda>E. reads_as E fn (Ex Power [b, x]) y (gvalue lv fn (Ex Power [b, x])))"
  proof (rule outcome_trans [OF 1 2])
    fix E assume r: "reads_as E fn x t (gvalue lv fn x)" "reads_as E fn b z (gvalue lv fn b)"
    from reads_power_string [OF r(2) b(2) reads_as_sum [OF r(1)] pow, of n]
    show "reads_as E fn (Ex Power [b, x]) y (gvalue lv fn (Ex Power [b, x]))"
      by (simp add: reads_as_def eq(1) x(2) split: numeric.splits)
  qed
qed

lemma function_names: "map_of func_convert f = Some g \<Longrightarrow> word_string g"
  by (drule map_of_SomeD) (auto simp: func_convert_def word_string_def operator_chars_def)

lemma printing_reads:
  assumes pow: "\<And>u k. fn ''std::pow'' [u, of_int k] = u powi k" and cse: "cc_do_cse cfg"
  shows "supported e \<Longrightarrow> printing_ok cfg env0 fn lv V (print_ex cfg use) use e"
proof (induction e)
  case (Ex c es)
  have es: "printing_ok cfg env0 fn lv V (cse_symbol cfg use) use e" if "e \<in> set es" for e
    using Ex that by (auto simp: list_all_iff intro: symbol_ok [OF _ cse])
  show ?case
  proof (cases "is_leaf (Ex c es)")
    case True
    then show ?thesis by (intro leaf_ok) (auto simp: is_leaf_def print_ex.simps split: ex_class.splits)
  next
    case False
    with Ex.prems consider "c = Add" "es \<noteq> []" | "c = Mul" "es \<noteq> []"
      | b x n where "c = Power" "es = [b, x]" "ex_cls x = Numeric n" "supported b"
      | f g where "c = Function f" "es \<noteq> []" "map_of func_convert f = Some g"
      by (auto simp: is_leaf_def split: ex_class.splits list.splits)
    then show ?thesis
    proof cases
      case 1
      show ?thesis
        by (rule node_ok [OF es 1(2), where g = "separated ''+''" and op = "''+''"])
          (auto simp: 1 print_ex.simps reads_as_def reads_list_def reads_terms)
    next
      case 2
      show ?thesis
        by (rule node_ok [OF es 2(2), where g = "separated ''*''" and op = "''*''"])
          (auto simp: 2 print_ex.simps reads_as_def reads_list_def reads_factors)
    next
      case 3
      with power_ok [OF pow es _ es] show ?thesis by simp
    next
      case 4
      show ?thesis
        by (rule node_ok [OF es 4(2), where g = "\<lambda>xs. g @ ''('' @ separated '','' xs @ '')''" and op = "'',''"])
          (use reads_call [OF _ _ function_names [OF 4(3)]] 4(3) in
            \<open>simp_all add: 4(1) print_ex.simps class_name_def reads_as_def reads_list_def\<close>)
    qed
  qed
qed


section \<open>Parsing\<close>

lemma u32_string_inject: "u32_string m = u32_string n \<Longrightarrow> m = n"
  unfolding u32_string_def by (drule dec_string_inject) (rule unsigned_word_eqI)

lemma symbol_name_inject: "symbol_name k n c = symbol_name k n d \<Longrightarrow> c = d"
  unfolding symbol_name_def by (auto dest: u32_string_inject)

lemma postorder_supported: "x \<in> set (postorder e) \<Longrightarrow> supported e \<Longrightarrow> supported x"
  by (induction e arbitrary: x) (auto simp: list_all_iff)

lemma postorder_trans: "x \<in> set (postorder e) \<Longrightarrow> y \<in> set (postorder x) \<Longrightarrow> y \<in> set (postorder e)"
  by (induction e arbitrary: x) auto

lemma postorder_leaves: "leaves_ok cfg k env0 fn lv e \<Longrightarrow> x \<in> set (postorder e) \<Longrightarrow> leaves_ok cfg k env0 fn lv x"
  using postorder_trans by (fastforce simp: leaves_ok_def)

lemma parse_step_unnamed:
  "parse_step cfg None whole e s =
     (case print_ex cfg False e s of (t, s1) \<Rightarrow>
        (case map_of (cs_symbols s1) t of
           None \<Rightarrow>
             s1\<lparr>cs_counter := cs_counter s1 + 1,
                cs_symbols := (t, \<lparr>sr_target = t, sr_symbol = symbol_name (cs_kernel s1) (cs_serial s1) (cs_counter s1),
                                   sr_written = False\<rparr>) # cs_symbols s1\<rparr>
         | Some r \<Rightarrow> s1))"
  by (simp add: parse_step_def make_symbol_def split: prod.splits option.splits)

lemma parse_unnamed:
  "cc_do_cse cfg \<Longrightarrow> cse_parse cfg None e s = foldl (\<lambda>s t. parse_step cfg None False t s) s (postorder e)"
  by (cases e) (simp add: cse_parse_def parse_step_unnamed)

text \<open>The tables after some steps, with an extended valuation.\<close>

definition extended :: "(string \<Rightarrow> real) \<Rightarrow> (string \<Rightarrow> real list \<Rightarrow> real) \<Rightarrow> (string \<Rightarrow> real) \<Rightarrow> cse \<Rightarrow> (string \<Rightarrow> real) \<Rightarrow> cse \<Rightarrow> nat \<Rightarrow> bool" where
  "extended env0 fn V s V' s' n \<longleftrightarrow>
     table_ok env0 fn V' s' \<and> (\<forall>w \<in> symbols_of s. V' w = V w) \<and> symbols_of s \<subseteq> symbols_of s' \<and> declared s \<subseteq> declared s'
   \<and> cs_kernel s' = cs_kernel s \<and> unat (cs_counter s') \<le> unat (cs_counter s) + n"

lemma extended_refl: "table_ok env0 fn V s \<Longrightarrow> extended env0 fn V s V s 0"
  by (simp add: extended_def)

lemma extended_trans: "extended env0 fn V s V' s' m \<Longrightarrow> extended env0 fn V' s' V'' s'' n \<Longrightarrow> extended env0 fn V s V'' s'' (m + n)"
  by (auto simp: extended_def)

lemma extended_fits:
  "extended env0 fn V s V' s' n \<Longrightarrow> table_ok env0 fn V s \<Longrightarrow> fits k env0 V' (declared s') E \<Longrightarrow> fits k env0 V (declared s) E"
  by (auto simp: extended_def fits_def table_ok_def subset_iff)

lemma insert_record:
  assumes ok: "table_ok env0 fn V s" and new: "map_of (cs_symbols s) t = None" and room: "unat (cs_counter s) + 1 < 2 ^ 32"
    and t: "\<And>E. fits (cs_kernel s) env0 V (symbols_of s) E \<Longrightarrow> reads_sum E fn t v"
  defines "x \<equiv> symbol_name (cs_kernel s) (cs_serial s) (cs_counter s)"
  defines "s' \<equiv> s\<lparr>cs_counter := cs_counter s + 1,
      cs_symbols := (t, \<lparr>sr_target = t, sr_symbol = x, sr_written = False\<rparr>) # cs_symbols s\<rparr>"
  shows "extended env0 fn V s (V(x := v)) s' 1"
proof -
  have counter: "unat (cs_counter s + 1) = unat (cs_counter s) + 1" using room by (simp add: unat_word_ariths)
  have less: "c < cs_counter s + 1 \<longleftrightarrow> c \<le> cs_counter s" for c
    unfolding word_less_nat_alt word_le_nat_alt counter by linarith
  have x: "x \<notin> symbols_of s"
  proof
    assume "x \<in> symbols_of s"
    then obtain u r where "(u, r) \<in> set (cs_symbols s)" "sr_symbol r = x" by (auto simp: symbols_of_def)
    with ok obtain c where "c < cs_counter s" "symbol_name (cs_kernel s) (cs_serial s) c = x"
      unfolding table_ok_def by fastforce
    then show False by (auto simp: x_def dest: symbol_name_inject)
  qed
  have syms: "symbols_of s' = insert x (symbols_of s)" "declared s' = declared s" "cs_kernel s' = cs_kernel s"
    by (auto simp: symbols_of_def s'_def declared_def)
  have sub: "declared s \<subseteq> symbols_of s" using ok by (simp add: table_ok_def)
  have V: "(V(x := v)) w = V w" if "w \<in> symbols_of s" for w using that x by auto
  have fits: "fits (cs_kernel s) env0 V (symbols_of s) E" if "fits (cs_kernel s) env0 (V(x := v)) (insert x (symbols_of s)) E" for E
    using that x by (auto simp: fits_def)
  have "table_ok env0 fn (V(x := v)) s'"
    unfolding table_ok_def syms
  proof (intro conjI)
    show "distinct (map fst (cs_symbols s'))" using ok new by (auto simp: table_ok_def s'_def map_of_eq_None_iff)
    show "distinct (map (sr_symbol \<circ> snd) (cs_symbols s'))" using ok x by (auto simp: table_ok_def s'_def symbols_of_def)
    show "\<forall>(t', r') \<in> set (cs_symbols s'). sr_target r' = t'
      \<and> (\<exists>c < cs_counter s'. sr_symbol r' = symbol_name (cs_kernel s) (cs_serial s') c)
      \<and> (sr_written r' \<longleftrightarrow> sr_symbol r' \<in> declared s)
      \<and> (\<forall>E. fits (cs_kernel s) env0 (V(x := v)) (insert x (symbols_of s)) E \<longrightarrow> reads_sum E fn t' ((V(x := v)) (sr_symbol r')))"
    proof (intro ballI, clarsimp simp only: split_paired_all prod.case)
      fix t' r' assume m: "(t', r') \<in> set (cs_symbols s')"
      show "sr_target r' = t'
        \<and> (\<exists>c < cs_counter s'. sr_symbol r' = symbol_name (cs_kernel s) (cs_serial s') c)
        \<and> (sr_written r' \<longleftrightarrow> sr_symbol r' \<in> declared s)
        \<and> (\<forall>E. fits (cs_kernel s) env0 (V(x := v)) (insert x (symbols_of s)) E \<longrightarrow> reads_sum E fn t' ((V(x := v)) (sr_symbol r')))"
      proof (cases "(t', r') \<in> set (cs_symbols s)")
        case True
        then have "sr_symbol r' \<in> symbols_of s" by (auto simp: symbols_of_def intro!: rev_image_eqI)
        note V = V [OF this]
        have "sr_target r' = t' \<and> (\<exists>c < cs_counter s. sr_symbol r' = symbol_name (cs_kernel s) (cs_serial s) c)
          \<and> (sr_written r' \<longleftrightarrow> sr_symbol r' \<in> declared s)
          \<and> (\<forall>E. fits (cs_kernel s) env0 V (symbols_of s) E \<longrightarrow> reads_sum E fn t' (V (sr_symbol r')))"
          using ok True unfolding table_ok_def by blast
        moreover have "c < cs_counter s \<Longrightarrow> c < cs_counter s'" for c using less [of c] by (simp add: s'_def less_imp_le)
        moreover have "cs_serial s' = cs_serial s" by (simp add: s'_def)
        ultimately show ?thesis unfolding V using fits by metis
      next
        case False
        with m have "t' = t" "r' = \<lparr>sr_target = t, sr_symbol = x, sr_written = False\<rparr>" by (auto simp: s'_def)
        then show ?thesis using t fits x sub less by (auto simp: s'_def x_def)
      qed
    qed
    show "declared s \<subseteq> insert x (symbols_of s)" using sub by auto
    show "decls_ok (cs_kernel s) env0 fn (V(x := v)) {} (cs_decls s')"
      using ok sub V by (auto simp: table_ok_def s'_def declared_def intro!: decls_ok_cong [of _ env0 fn V])
  qed
  moreover have "cs_counter s' = cs_counter s + 1" by (simp add: s'_def)
  ultimately show ?thesis using x counter by (auto simp: extended_def syms)
qed


lemma parse_step_ok:
  assumes pow: "\<And>u k. fn ''std::pow'' [u, of_int k] = u powi k" and cse: "cc_do_cse cfg"
    and ok: "table_ok env0 fn V s" "kernel_ok (cs_kernel s)" and e: "supported e" "leaves_ok cfg (cs_kernel s) env0 fn lv e"
    and room: "unat (cs_counter s) + 1 < 2 ^ 32"
  shows "\<exists>V'. extended env0 fn V s V' (parse_step cfg None whole e s) 1"
proof -
  obtain t s1 where t: "print_ex cfg False e s = (t, s1)" by fastforce
  from printing_okD [OF printing_reads [where fn = fn, OF pow cse e(1)] t e(2) ok]
  have o: "outcome env0 fn V False s s1 (\<lambda>E. reads_as E fn e t (gvalue lv fn e))" .
  then have [simp]: "s1 = s" by (simp add: outcome_def)
  show ?thesis
  proof (cases "map_of (cs_symbols s) t")
    case None
    have "reads_sum E fn t (gvalue lv fn e)" if "fits (cs_kernel s) env0 V (symbols_of s) E" for E
      using o that by (auto simp: outcome_def readable_names_def intro: reads_as_sum)
    from insert_record [OF ok(1) None room this] None t show ?thesis by (auto simp: parse_step_unnamed)
  next
    case (Some r)
    then have "parse_step cfg None whole e s = s" using t by (simp add: parse_step_unnamed)
    then show ?thesis using extended_trans [OF extended_refl extended_refl] ok(1) by (auto simp: extended_def)
  qed
qed

lemma parse_ok:
  assumes pow: "\<And>u k. fn ''std::pow'' [u, of_int k] = u powi k" and cse: "cc_do_cse cfg"
    and "\<And>e. e \<in> set es \<Longrightarrow> supported e \<and> leaves_ok cfg (cs_kernel s) env0 fn lv e"
    and "table_ok env0 fn V s" "kernel_ok (cs_kernel s)" "unat (cs_counter s) + length es < 2 ^ 32"
  shows "\<exists>V'. extended env0 fn V s V' (foldl (\<lambda>s t. parse_step cfg None False t s) s es) (length es)"
  using assms(3-)
proof (induction es arbitrary: s V)
  case Nil
  then show ?case using extended_refl by fastforce
next
  case (Cons e es)
  let ?s = "parse_step cfg None False e s"
  obtain V1 where 1: "extended env0 fn V s V1 ?s 1"
    using parse_step_ok [OF pow cse Cons.prems(2,3), of e lv False] Cons.prems(1,4) by auto
  then have s: "cs_kernel ?s = cs_kernel s" "table_ok env0 fn V1 ?s" "unat (cs_counter ?s) \<le> unat (cs_counter s) + 1"
    by (simp_all add: extended_def)
  from Cons.IH [of ?s V1] Cons.prems s obtain V2 where
    "extended env0 fn V1 ?s V2 (foldl (\<lambda>s t. parse_step cfg None False t s) ?s es) (length es)" by auto
  from extended_trans [OF 1 this] show ?case by auto
qed

section \<open>Properties\<close>

text \<open>The requests that a translation makes between two pools.\<close>

datatype cse_request = Parse gex | Use gex

fun run_requests :: "cse_config \<Rightarrow> cse_request list \<Rightarrow> cse \<Rightarrow> (gex \<times> string) list \<times> cse" where
  "run_requests cfg [] s = ([], s)"
| "run_requests cfg (Parse e # rs) s = run_requests cfg rs (cse_parse cfg None e s)"
| "run_requests cfg (Use e # rs) s =
     (case get_symbol_with_use_count cfg e s of (x, s1) \<Rightarrow>
        (case run_requests cfg rs s1 of (out, s2) \<Rightarrow> ((e, x) # out, s2)))"

fun request_ex :: "cse_request \<Rightarrow> gex" where
  "request_ex (Parse e) = e"
| "request_ex (Use e) = e"

fun request_cost :: "cse_request \<Rightarrow> nat" where
  "request_cost (Parse e) = length (postorder e)"
| "request_cost (Use e) = 0"

lemma requests_ok:
  assumes pow: "\<And>u k. fn ''std::pow'' [u, of_int k] = u powi k" and cse: "cc_do_cse cfg"
    and "\<And>r. r \<in> set rs \<Longrightarrow> supported (request_ex r) \<and> leaves_ok cfg (cs_kernel s) env0 fn lv (request_ex r)"
    and "table_ok env0 fn V s" "kernel_ok (cs_kernel s)" "unat (cs_counter s) + sum_list (map request_cost rs) < 2 ^ 32"
    and "run_requests cfg rs s = (out, s')"
  shows "\<exists>V' n. extended env0 fn V s V' s' n
    \<and> (\<forall>(e, x) \<in> set out. \<forall>E. fits (cs_kernel s) env0 V' (declared s') E \<longrightarrow> reads_as E fn e x (gvalue lv fn e))"
  using assms(3-)
proof (induction rs arbitrary: s V out)
  case Nil
  then show ?case using extended_refl by fastforce
next
  case (Cons r rs)
  show ?case
  proof (cases r)
    case (Parse e)
    let ?s = "foldl (\<lambda>s t. parse_step cfg None False t s) s (postorder e)"
    have e: "supported e" "leaves_ok cfg (cs_kernel s) env0 fn lv e" using Cons.prems(1) [of r] Parse by simp_all
    have "\<exists>V'. extended env0 fn V s V' ?s (length (postorder e))"
      by (rule parse_ok [OF pow cse _ Cons.prems(2,3), where lv = lv])
        (use Cons.prems(4) Parse e in \<open>auto intro: postorder_supported postorder_leaves\<close>)
    then obtain V1 where 1: "extended env0 fn V s V1 ?s (length (postorder e))" by blast
    then have s: "cs_kernel ?s = cs_kernel s" "table_ok env0 fn V1 ?s"
      "unat (cs_counter ?s) \<le> unat (cs_counter s) + length (postorder e)" by (simp_all add: extended_def)
    have run: "run_requests cfg rs ?s = (out, s')" using Cons.prems(5) Parse by (simp add: parse_unnamed [OF cse])
    have "unat (cs_counter ?s) + sum_list (map request_cost rs) < 2 ^ 32" using Cons.prems(4) s(3) Parse by simp
    from Cons.IH [OF _ s(2) _ this run] Cons.prems(1,3) s(1) obtain V2 n where
      "extended env0 fn V1 ?s V2 s' n"
      "\<forall>(e, x) \<in> set out. \<forall>E. fits (cs_kernel s) env0 V2 (declared s') E \<longrightarrow> reads_as E fn e x (gvalue lv fn e)" by auto
    with extended_trans [OF 1] show ?thesis by blast
  next
    case (Use e)
    obtain x s1 where x: "cse_symbol cfg True e s = (x, s1)" by fastforce
    obtain out1 where out1: "run_requests cfg rs s1 = (out1, s')" "out = (e, x) # out1"
      using Cons.prems(5) Use x by (auto simp: get_symbol_with_use_count_def split: prod.splits)
    have e: "supported e" "leaves_ok cfg (cs_kernel s) env0 fn lv e" using Cons.prems(1) [of r] Use by simp_all
    have o: "outcome env0 fn V True s s1 (\<lambda>E. reads_as E fn e x (gvalue lv fn e))"
      using printing_okD [OF symbol_ok [OF printing_reads [where fn = fn, OF pow cse e(1)] cse] x e(2) Cons.prems(2,3)] .
    then have 1: "extended env0 fn V s V s1 0" by (simp add: extended_def outcome_def same_names_def)
    have s: "cs_kernel s1 = cs_kernel s" "table_ok env0 fn V s1" "cs_counter s1 = cs_counter s"
      using o by (simp_all add: outcome_def same_names_def)
    have "unat (cs_counter s1) + sum_list (map request_cost rs) < 2 ^ 32" using Cons.prems(4) s(3) Use by simp
    from Cons.IH [OF _ s(2) _ this out1(1)] Cons.prems(1,3) s(1) obtain V2 n where 2:
      "extended env0 fn V s1 V2 s' n"
      "\<forall>(e, x) \<in> set out1. \<forall>E. fits (cs_kernel s) env0 V2 (declared s') E \<longrightarrow> reads_as E fn e x (gvalue lv fn e)" by auto
    have "reads_as E fn e x (gvalue lv fn e)" if "fits (cs_kernel s) env0 V2 (declared s') E" for E
      using o extended_fits [OF 2(1) s(2) that] by (simp add: outcome_def readable_names_def)
    with 2(2) extended_trans [OF 1 2(1)] show ?thesis unfolding out1(2) by (intro exI [of _ V2] exI [of _ "0 + n"]) auto
  qed
qed

text \<open>From an empty worker.\<close>

lemma cse_keeps_values_empty:
  assumes "cc_do_cse cfg" and "kernel_ok (cs_kernel s)"
    and "\<And>r. r \<in> set rs \<Longrightarrow> supported (request_ex r) \<and> leaves_ok cfg (cs_kernel s) env0 fn lv (request_ex r)"
    and "\<And>u i. fn ''std::pow'' [u, of_int i] = u powi i" and "sum_list (map request_cost rs) < 2 ^ 32"
    and "run_requests cfg rs s = (out, s')" and "cs_symbols s = []" and "cs_decls s = []" and "cs_counter s = 0"
  shows "\<exists>E. execute fn (cs_decls s') env0 = Some E \<and> distinct (map fst (cs_decls s'))
    \<and> (\<forall>w. w \<notin> declared s' \<longrightarrow> E w = env0 w) \<and> (\<forall>(e, x) \<in> set out. c_value E fn x = Some (gvalue lv fn e))"
proof -
  have "table_ok env0 fn env0 s" using assms(7,8) by (simp add: table_ok_def declared_def)
  moreover have "unat (cs_counter s) = 0" using assms(9) by simp
  ultimately obtain V n where V: "extended env0 fn env0 s V s' n"
    "\<forall>(e, x) \<in> set out. \<forall>E. fits (cs_kernel s) env0 V (declared s') E \<longrightarrow> reads_as E fn e x (gvalue lv fn e)"
    using requests_ok [where fn = fn, OF assms(4,1), of rs s env0 lv env0 out s'] assms(2,3,5,6) by auto
  then have "table_ok env0 fn V s'" "cs_kernel s' = cs_kernel s" by (simp_all add: extended_def)
  then have d: "decls_ok (cs_kernel s) env0 fn V {} (cs_decls s')" by (simp add: table_ok_def)
  have "fits (cs_kernel s) env0 V {} env0" by (simp add: fits_def)
  from execute_decls [OF d this] obtain E where E: "execute fn (cs_decls s') env0 = Some E"
    "fits (cs_kernel s) env0 V (declared s') E" "\<forall>w. w \<notin> declared s' \<longrightarrow> E w = env0 w" by (auto simp: declared_def)
  have "c_value E fn x = Some (gvalue lv fn e)" if "(e, x) \<in> set out" for e x
    using V(2) that E(2) by (auto intro!: reads_value reads_as_sum)
  with E decls_ok_distinct [OF d] show ?thesis by auto
qed

text \<open>C36: Common subexpression elimination keeps the value of every expression. From an empty worker, after any sequence of
  expressions parsed and expressions asked for, executing the declared temporaries in order succeeds, declares no name
  twice, changes no other name, and leaves an environment in which the text given for each expression evaluates, as a C expression, to the value of
  the expression. Expressions are those the printer handles; the library prints a leaf as an operand with its value;
  and fewer than \<open>2\<^sup>32\<close> subexpressions are parsed.\<close>

theorem cse_keeps_values:
  assumes "cc_do_cse cfg" and "kernel_ok k"
    and "\<And>r. r \<in> set rs \<Longrightarrow> supported (request_ex r) \<and> leaves_ok cfg k env0 fn lv (request_ex r)"
    and "\<And>u i. fn ''std::pow'' [u, of_int i] = u powi i" and "sum_list (map request_cost rs) < 2 ^ 32"
    and "run_requests cfg rs (cse_clear s) = (out, s')" and "cs_kernel s = k"
  shows "\<exists>E. execute fn (cs_decls s') env0 = Some E \<and> distinct (map fst (cs_decls s'))
    \<and> (\<forall>w. w \<notin> declared s' \<longrightarrow> E w = env0 w) \<and> (\<forall>(e, x) \<in> set out. c_value E fn x = Some (gvalue lv fn e))"
proof -
  have "cs_kernel (cse_clear s) = k" "cs_symbols (cse_clear s) = []" "cs_decls (cse_clear s) = []" "cs_counter (cse_clear s) = 0"
    using assms(7) by (simp_all add: cse_clear_def)
  with cse_keeps_values_empty [where fn = fn, OF assms(1) _ _ assms(4,5,6), of env0 lv] assms(2,3) show ?thesis by simp
qed

definition example_sum :: gex where
  "example_sum = Ex Add [Ex Mul [Ex (Symbol ''a'') [], Ex (Symbol ''b'') []], Ex (Symbol ''a'') []]"

definition example_print :: "gex \<Rightarrow> string" where
  "example_print e = (case ex_cls e of Symbol x \<Rightarrow> x | _ \<Rightarrow> [])"

definition example_config :: cse_config where
  "example_config = \<lparr>cc_do_cse = True, cc_ginac = example_print\<rparr>"

definition example_env :: "string \<Rightarrow> real" where
  "example_env w = (if w = ''a'' then 2 else 3)"

definition example_fn :: "string \<Rightarrow> real list \<Rightarrow> real" where
  "example_fn f vs = (case vs of [u, v] \<Rightarrow> u powi \<lfloor>v\<rfloor> | _ \<Rightarrow> 0)"

definition example_requests :: "cse_request list" where
  "example_requests = [Parse example_sum, Use example_sum]"

lemma example_run:
  "case run_requests example_config example_requests (cse_clear (cse_new 0 ''_t'')) of (out, s') \<Rightarrow>
     out = [(example_sum, ''_t_1_3'')]
   \<and> cs_decls s' = [(''_t_1_0'', ''a''), (''_t_1_1'', ''b''), (''_t_1_2'', ''_t_1_0*_t_1_1''), (''_t_1_3'', ''_t_1_2+_t_1_0'')]"
  by code_simp

abbreviation example_value :: "gex \<Rightarrow> real" where
  "example_value e \<equiv> example_env (example_print e)"

lemma example_kernel: "kernel_ok ''_t''"
  by (simp add: kernel_ok_def word_string_def operator_chars_def cchar_defs)

lemma example_supported: "supported example_sum"
  by (simp add: example_sum_def)

lemma example_fn_pow: "example_fn ''std::pow'' [u, of_int i] = u powi i"
  by (simp add: example_fn_def)

lemma example_leaves: "leaves_ok example_config ''_t'' example_env example_fn example_value example_sum"
proof -
  have plain: "x \<notin> temporaries_of ''_t''" if "length x = 1" for x
    using that by (auto simp: temporaries_of_def symbol_name_def)
  have leaf: "reads_operand E example_fn x (example_env x)"
    if "fits ''_t'' example_env example_env {} E" "x = ''a'' \<or> x = ''b''" for E x
  proof -
    have "word_string x" "word_value E x = E x" "E x = example_env x"
      using that plain [of x] by (auto simp: word_string_def operator_chars_def word_value_def cchar_defs fits_def)
    then show ?thesis using reads_word [of x E example_fn] by simp
  qed
  then show ?thesis by (auto simp: leaves_ok_def example_sum_def is_leaf_def example_config_def example_print_def)
qed

theorem cse_keeps_values_witness:
  "\<exists>E. execute example_fn [(''_t_1_0'', ''a''), (''_t_1_1'', ''b''), (''_t_1_2'', ''_t_1_0*_t_1_1''), (''_t_1_3'', ''_t_1_2+_t_1_0'')]
         example_env = Some E
     \<and> c_value E example_fn ''_t_1_3'' = Some 8"
proof -
  obtain out s' where run: "run_requests example_config example_requests (cse_clear (cse_new 0 ''_t'')) = (out, s')" by fastforce
  with example_run have out: "out = [(example_sum, ''_t_1_3'')]"
    "cs_decls s' = [(''_t_1_0'', ''a''), (''_t_1_1'', ''b''), (''_t_1_2'', ''_t_1_0*_t_1_1''), (''_t_1_3'', ''_t_1_2+_t_1_0'')]"
    by simp_all
  have cost: "sum_list (map request_cost example_requests) < 2 ^ 32" by (simp add: example_requests_def example_sum_def)
  have "cc_do_cse example_config" "cs_kernel (cse_new 0 ''_t'') = ''_t''" by (simp_all add: example_config_def cse_new_def)
  have "\<exists>E. execute example_fn (cs_decls s') example_env = Some E \<and> distinct (map fst (cs_decls s'))
    \<and> (\<forall>w. w \<notin> declared s' \<longrightarrow> E w = example_env w)
    \<and> (\<forall>(e, x) \<in> set out. c_value E example_fn x = Some (gvalue example_value example_fn e))"
    by (rule cse_keeps_values [where fn = example_fn, OF \<open>cc_do_cse example_config\<close> example_kernel _ example_fn_pow cost run \<open>cs_kernel (cse_new 0 ''_t'') = ''_t''\<close>])
      (use example_supported example_leaves in \<open>auto simp: example_requests_def\<close>)
  then obtain E where "execute example_fn (cs_decls s') example_env = Some E"
    "\<forall>(e, x) \<in> set out. c_value E example_fn x = Some (gvalue example_value example_fn e)" by blast
  moreover have "gvalue example_value example_fn example_sum = 8" by (simp add: example_sum_def example_env_def example_print_def)
  ultimately show ?thesis using out by auto
qed

text \<open>A power whose exponent is not a number vanishes: it is printed as no text at all, which is not an expression, and
  nothing is reported that the printing of the exponent does not report.\<close>

theorem symbolic_power_vanishes:
  assumes "\<And>n. ex_cls x \<noteq> Numeric n" and "cse_symbol cfg use x s = (t, s1)"
  shows "print_ex cfg use (Ex Power [b, x]) s = ([], s1) \<and> c_value E fn [] = None"
proof -
  have "print_ex cfg use (Ex Power [b, x]) s = ([], s1)"
    using assms by (cases "ex_cls x") (auto simp: print_ex.simps)
  then show ?thesis by (simp add: c_value_def)
qed

theorem symbolic_power_vanishes_witness:
  "print_ex example_config False (Ex Power [Ex (Symbol ''a'') [], Ex (Symbol ''n'') []]) (cse_new 0 ''_t'') = ([], cse_new 0 ''_t'')"
proof -
  have "cse_symbol example_config False (Ex (Symbol ''n'') []) (cse_new 0 ''_t'') = (''n'', cse_new 0 ''_t'')"
    by (simp add: cse_symbol.simps print_ex.simps example_config_def example_print_def cse_new_def)
  from symbolic_power_vanishes [OF _ this, of "Ex (Symbol ''a'') []"] show ?thesis by simp
qed

text \<open>An alias is declared in one pool only. When a named expression is already in the table under another symbol, the
  name is declared as an alias of it, unless it was an alias before: clearing the worker for the next pool
  forgets the declarations but not the names, so there the alias is not declared again.\<close>

theorem alias_not_declared_again:
  assumes "print_ex cfg False e s = (t, s1)" and "map_of (cs_symbols s1) t = Some r" and "sr_symbol r \<noteq> n"
  shows "cs_decls (parse_step cfg (Some n) True e s)
      = cs_decls (cse_deposit t s1) @ (if n \<in> cs_named s1 then [] else [(n, sr_symbol r)])
    \<and> n \<in> cs_named (cse_clear (parse_step cfg (Some n) True e s)) \<and> cs_decls (cse_clear s1) = []"
proof -
  have "cs_named (cse_deposit t s1) = cs_named s1" by (simp add: cse_deposit_def split: option.split)
  then show ?thesis using assms by (simp add: parse_step_def Let_def cse_clear_def)
qed

theorem alias_not_declared_again_witness:
  "cs_decls (parse_step example_config (Some ''n'') True (Ex (Symbol ''a'') [])
     (parse_step example_config None True (Ex (Symbol ''a'') []) ((cse_new 0 ''_t'')\<lparr>cs_named := {''n''}\<rparr>))) = [(''_t_0_0'', ''a'')]"
proof -
  let ?e = "Ex (Symbol ''a'') []"
  let ?s = "parse_step example_config None True ?e ((cse_new 0 ''_t'')\<lparr>cs_named := {''n''}\<rparr>)"
  have s: "?s = (cse_new 0 ''_t'')\<lparr>cs_named := {''n''}, cs_counter := 1, cs_symbols := [(''a'', \<lparr>sr_target = ''a'', sr_symbol = ''_t_0_0'', sr_written = False\<rparr>)]\<rparr>"
    by code_simp
  have "print_ex example_config False ?e ?s = (''a'', ?s)" unfolding s
    by (simp add: print_ex.simps example_config_def example_print_def)
  from alias_not_declared_again [OF this, of "\<lparr>sr_target = ''a'', sr_symbol = ''_t_0_0'', sr_written = False\<rparr>" "''n''"]
  show ?thesis unfolding s by (simp add: cse_deposit_def cse_new_def)
qed

end
