(* ===== verification/Lambdas.thy ===== *)
theory Lambdas
  imports Cse_Facts
begin

text \<open>
  Lambdas, which stand for tensor components when index sets are written as loops:
  \<open>language_concepts/lambdas.{h,cpp}\<close> and \<open>lambda_manager.{h,cpp}\<close>, with the tags that identify expressions,
  \<open>transport-objects/shared/cache_detail/cache_tags.{h,cpp}\<close>. The way GiNaC prints the relations in the conditions of a lambda
  and its test whether two expressions differ by zero are arguments.
\<close>

section \<open>Tags\<close>

record cache_tags =
  ct_symbols :: "gex list"
  ct_indices :: "gex list"
  ct_var_indices :: "gex list"

definition no_tags :: cache_tags where
  "no_tags = \<lparr>ct_symbols = [], ct_indices = [], ct_var_indices = []\<rparr>"

definition add_symbols :: "gex list \<Rightarrow> cache_tags \<Rightarrow> cache_tags" where
  "add_symbols es t = t\<lparr>ct_symbols := ct_symbols t @ es\<rparr>"

definition add_var_indices :: "gex list \<Rightarrow> cache_tags \<Rightarrow> cache_tags" where
  "add_var_indices es t = t\<lparr>ct_var_indices := ct_var_indices t @ es\<rparr>"

definition add_indices :: "gex list \<Rightarrow> cache_tags \<Rightarrow> cache_tags" where
  "add_indices es t = t\<lparr>ct_indices := ct_indices t @ es\<rparr>"

definition tags_equal :: "(gex \<Rightarrow> gex \<Rightarrow> bool) \<Rightarrow> cache_tags \<Rightarrow> cache_tags \<Rightarrow> bool" where
  "tags_equal same a b =
     (length (ct_symbols a) = length (ct_symbols b) \<and> length (ct_indices a) = length (ct_indices b)
      \<and> length (ct_var_indices a) = length (ct_var_indices b)
      \<and> list_all2 same (ct_symbols a) (ct_symbols b) \<and> list_all2 same (ct_indices a) (ct_indices b)
      \<and> list_all2 same (ct_var_indices a) (ct_var_indices b))"

datatype expression_item_types =
    sr_U_item | sr_U_lambda | U1_item | U1_lambda | U2_item | U2_lambda | U3_item | U3_lambda
  | A_item | A_lambda | Atilde_item | Atilde_lambda | B_item | B_lambda | C_item | C_lambda | M_item | M_lambda
  | zxfm1_item | zxfm1_lambda | zxfm2_item | zxfm2_lambda | dN1_item | dN2_item
  | V_item | dV_item | dV_lambda | ddV_item | ddV_lambda | dddV_item | dddV_lambda
  | Hubble2_item | epsilon_item | eta_item
  | metric_item | metric_lambda | metric_inverse_item | metric_inverse_lambda | connexion_item | connexion_lambda
  | parameters_lambda | coordinates_lambda | fields_lambda | momenta_lambda
  | Riemann_A2_item | Riemann_A2_lambda | Riemann_A3_item | Riemann_A3_lambda | Riemann_B3_item | Riemann_B3_lambda

section \<open>Lambdas\<close>

record generic_lambda =
  gl_indices :: abstract_index_database
  gl_type :: expression_item_types
  gl_tags :: cache_tags
  gl_working_type :: string

record atomic_lambda = generic_lambda +
  al_expr :: gex

record map_lambda = generic_lambda +
  ml_map :: "gex list"

text \<open>The table of a map lambda has an entry for every choice of field or momentum for its indices. The expected size is an
  unsigned integer.\<close>

definition lambda_map_size :: "nat \<Rightarrow> u32" where
  "lambda_map_size d = 2 ^ d"

definition map_lambda_new ::
  "abstract_index_database \<Rightarrow> gex list \<Rightarrow> expression_item_types \<Rightarrow> cache_tags \<Rightarrow> string \<Rightarrow> exn + map_lambda" where
  "map_lambda_new indices t tp tg ty =
     (if length t \<noteq> unat (lambda_map_size (length (idb_list indices))) then Inl (Runtime_error ''ERROR_INCONSISTENT_LAMBDA_MAP'')
      else Inr \<lparr>gl_indices = indices, gl_type = tp, gl_tags = tg, gl_working_type = ty, ml_map = t\<rparr>)"

text \<open>The position of a case, 0 for a field and 1 for a momentum.\<close>

definition lambda_flatten1 :: "u32 \<Rightarrow> u32" where
  "lambda_flatten1 a = a"

definition lambda_flatten2 :: "u32 \<Rightarrow> u32 \<Rightarrow> u32" where
  "lambda_flatten2 a b = 2 * a + b"

definition lambda_flatten3 :: "u32 \<Rightarrow> u32 \<Rightarrow> u32 \<Rightarrow> u32" where
  "lambda_flatten3 a b c = 2 * 2 * a + 2 * b + c"

definition block_spacing :: "C_style_printer \<Rightarrow> string" where
  "block_spacing p = replicate (unat (cp_block_indent p)) (CHR '' '')"

definition delimiter_spacing :: "C_style_printer \<Rightarrow> string" where
  "delimiter_spacing p = replicate (unat (cp_brace_indent p)) (CHR '' '')"

definition atomic_temporary ::
  "cse_config \<Rightarrow> C_style_printer \<Rightarrow> string \<Rightarrow> string \<Rightarrow> string \<Rightarrow> atomic_lambda \<Rightarrow> cse \<Rightarrow> string list \<times> cse" where
  "atomic_temporary cfg p l mid r lam w =
     (let open_text = open_lambda p (gl_indices lam) (gl_working_type lam); close_text = close_lambda p;
          w1 = cse_parse cfg None (al_expr lam) w;
          (ex, w2) = get_symbol_with_use_count cfg (al_expr lam) w1;
          temps = cse_temporaries l mid r w2
      in (if temps = [] then [open_text @ '' '' @ format_return p ex @ '' '' @ close_text]
          else [open_text] @ map (\<lambda>s. block_spacing p @ s) temps @ [block_spacing p @ format_return p ex, close_text],
          cse_clear w2))"

text \<open>The conditions of a case, in the order in which they are listed: from the last index to the first. A relation is a
  loop variable, whether it is to be a momentum, and the number of fields.\<close>

type_synonym relation = "string \<times> bool \<times> u32"

fun case_conditions :: "u32 \<Rightarrow> abstract_index list \<Rightarrow> nat \<Rightarrow> relation list" where
  "case_conditions N [] state = []"
| "case_conditions N (i # is') state = (get_loop_variable i, state mod 2 = 1, N) # case_conditions N is' (state div 2)"

definition lambda_case ::
  "cse_config \<Rightarrow> (relation \<Rightarrow> string) \<Rightarrow> C_style_printer \<Rightarrow> string \<Rightarrow> string \<Rightarrow> string \<Rightarrow> u32 \<Rightarrow> map_lambda
     \<Rightarrow> nat \<times> gex \<Rightarrow> string list \<times> cse \<Rightarrow> string list \<times> cse" where
  "lambda_case cfg rel p l mid r N lam ce acc =
     (let conditions = case_conditions N (rev (idb_list (gl_indices lam))) (fst ce);
          w1 = cse_parse cfg None (snd ce) (snd acc);
          (ex, w2) = get_symbol_with_use_count cfg (snd ce) w1;
          temps = cse_temporaries l mid r w2;
          b = block_spacing p
      in (fst acc
          @ (if temps = [] then [b @ format_if rel p conditions @ '' '' @ format_return p ex]
             else [b @ format_if rel p conditions]
               @ (case start_block_delimiter p of None \<Rightarrow> [] | Some d \<Rightarrow> [b @ delimiter_spacing p @ d])
               @ map (\<lambda>s. b @ b @ s) temps @ [b @ b @ format_return p ex]
               @ (case end_block_delimiter p of None \<Rightarrow> [] | Some d \<Rightarrow> [b @ delimiter_spacing p @ d])),
          cse_clear w2))"

definition map_temporary ::
  "cse_config \<Rightarrow> (relation \<Rightarrow> string) \<Rightarrow> C_style_printer \<Rightarrow> string \<Rightarrow> string \<Rightarrow> string \<Rightarrow> u32 \<Rightarrow> map_lambda \<Rightarrow> cse
     \<Rightarrow> string list \<times> cse" where
  "map_temporary cfg rel p l mid r N lam w =
     (let start = [open_lambda p (gl_indices lam) (gl_working_type lam)] @ cse_temporaries l mid r w;
          (body, w1) = fold (lambda_case cfg rel p l mid r N lam) (enumerate 0 (ml_map lam)) (start, w)
      in (body @ [block_spacing p @ format_return_ex (cc_ginac cfg) p (Ex (Numeric (Integer 0)) []), close_lambda p], w1))"

section \<open>The manager\<close>

record 'l lambda_record =
  lr_name :: string
  lr_lambda :: 'l
  lr_fields :: u32

text \<open>The declaration of a lambda: its name goes before the first line, the end of the template after the last.\<close>

definition declare_lambda :: "string \<Rightarrow> string \<Rightarrow> string \<Rightarrow> string \<Rightarrow> string list \<Rightarrow> string list" where
  "declare_lambda l mid r name v =
     (case v of
        [] \<Rightarrow> []
      | [x] \<Rightarrow> [l @ name @ mid @ x @ r]
      | x # xs \<Rightarrow> [l @ name @ mid @ x] @ butlast xs @ [last xs @ r])"

record lambda_manager =
  lg_serial :: u32
  lg_counter :: u32
  lg_kernel :: string
  lg_hits :: u32
  lg_misses :: u32
  lg_atomic :: "atomic_lambda lambda_record list"
  lg_map :: "map_lambda lambda_record list"
  lg_cse :: cse

definition lambda_manager_new :: "u32 \<Rightarrow> cse \<Rightarrow> string \<Rightarrow> string \<Rightarrow> lambda_manager" where
  "lambda_manager_new serial cw k lt =
     \<lparr>lg_serial = serial, lg_counter = 0, lg_kernel = k, lg_hits = 0, lg_misses = 0, lg_atomic = [], lg_map = [],
      lg_cse = set_temporary_kernel lt cw\<rparr>"

definition same_lambda :: "(gex \<Rightarrow> gex \<Rightarrow> bool) \<Rightarrow> 'b generic_lambda_scheme \<Rightarrow> 'b generic_lambda_scheme \<Rightarrow> bool" where
  "same_lambda same a b = (gl_type a = gl_type b \<and> tags_equal same (gl_tags a) (gl_tags b))"


text \<open>The constructors from one, two or three indices, which compare the size of the table with their number.\<close>

fun lambda_indices :: "abstract_index list \<Rightarrow> abstract_index_database \<Rightarrow> exn + abstract_index_database" where
  "lambda_indices [] d = Inr d"
| "lambda_indices (i # is') d =
     bindE (idb_emplace_back ai_label (ai_label i) i d) (\<lambda>(_, d'). lambda_indices is' d')"

definition map_lambda_of ::
  "abstract_index list \<Rightarrow> gex list \<Rightarrow> expression_item_types \<Rightarrow> cache_tags \<Rightarrow> string \<Rightarrow> exn + map_lambda" where
  "map_lambda_of is' t tp tg ty =
     bindE (lambda_indices is' idb_empty) (\<lambda>d.
       if length t \<noteq> unat (lambda_map_size (length is')) then Inl (Runtime_error ''ERROR_INCONSISTENT_LAMBDA_MAP'')
       else Inr \<lparr>gl_indices = d, gl_type = tp, gl_tags = tg, gl_working_type = ty, ml_map = t\<rparr>)"

definition atomic_lambda_of ::
  "abstract_index list \<Rightarrow> gex \<Rightarrow> expression_item_types \<Rightarrow> cache_tags \<Rightarrow> string \<Rightarrow> exn + atomic_lambda" where
  "atomic_lambda_of is' e tp tg ty =
     bindE (lambda_indices is' idb_empty) (\<lambda>d.
       Inr \<lparr>gl_indices = d, gl_type = tp, gl_tags = tg, gl_working_type = ty, al_expr = e\<rparr>)"

text \<open>Names are shared by both kinds; each kind is looked up in its own cache, the last entry first.\<close>

definition make_name :: "lambda_manager \<Rightarrow> string \<times> lambda_manager" where
  "make_name m = (symbol_name (lg_kernel m) (lg_serial m) (lg_counter m), m\<lparr>lg_counter := lg_counter m + 1\<rparr>)"

definition find_record ::
  "(gex \<Rightarrow> gex \<Rightarrow> bool) \<Rightarrow> 'a generic_lambda_scheme \<Rightarrow> 'a generic_lambda_scheme lambda_record list
     \<Rightarrow> 'a generic_lambda_scheme lambda_record option" where
  "find_record same lam rs = find (\<lambda>r. same_lambda same (lr_lambda r) lam) rs"

definition cache_atomic ::
  "(gex \<Rightarrow> gex \<Rightarrow> bool) \<Rightarrow> C_style_printer \<Rightarrow> u32 \<Rightarrow> atomic_lambda \<Rightarrow> lambda_manager \<Rightarrow> string \<times> lambda_manager" where
  "cache_atomic same p N lam m =
     (let (name, m2) =
        (case find_record same lam (lg_atomic m) of
           None \<Rightarrow>
             (let (name, m1) = make_name m
              in (name, m1\<lparr>lg_atomic := \<lparr>lr_name = name, lr_lambda = lam, lr_fields = N\<rparr> # lg_atomic m1,
                           lg_misses := lg_misses m1 + 1\<rparr>))
         | Some r \<Rightarrow> (lr_name r, m\<lparr>lg_hits := lg_hits m + 1\<rparr>))
      in (lambda_invokation p name (gl_indices lam), m2))"

definition cache_map ::
  "(gex \<Rightarrow> gex \<Rightarrow> bool) \<Rightarrow> C_style_printer \<Rightarrow> u32 \<Rightarrow> map_lambda \<Rightarrow> lambda_manager \<Rightarrow> string \<times> lambda_manager" where
  "cache_map same p N lam m =
     (let (name, m2) =
        (case find_record same lam (lg_map m) of
           None \<Rightarrow>
             (let (name, m1) = make_name m
              in (name, m1\<lparr>lg_map := \<lparr>lr_name = name, lr_lambda = lam, lr_fields = N\<rparr> # lg_map m1,
                           lg_misses := lg_misses m1 + 1\<rparr>))
         | Some r \<Rightarrow> (lr_name r, m\<lparr>lg_hits := lg_hits m + 1\<rparr>))
      in (lambda_invokation p name (gl_indices lam), m2))"

definition lambda_clear :: "lambda_manager \<Rightarrow> lambda_manager" where
  "lambda_clear m = m\<lparr>lg_atomic := [], lg_map := [], lg_serial := lg_serial m + 1, lg_counter := 0\<rparr>"

definition lambda_temporaries ::
  "cse_config \<Rightarrow> (relation \<Rightarrow> string) \<Rightarrow> C_style_printer \<Rightarrow> string \<Rightarrow> string \<Rightarrow> string \<Rightarrow> lambda_manager
     \<Rightarrow> string list \<times> lambda_manager" where
  "lambda_temporaries cfg rel p l mid r m =
     (let (out1, w1) = fold (\<lambda>c (out, w).
            case atomic_temporary cfg p l mid r (lr_lambda c) w of (v, w') \<Rightarrow> (out @ declare_lambda l mid r (lr_name c) v, w'))
          (lg_atomic m) ([], lg_cse m);
          (out2, w2) = fold (\<lambda>c (out, w).
            case map_temporary cfg rel p l mid r (lr_fields c) (lr_lambda c) w of
              (v, w') \<Rightarrow> (out @ declare_lambda l mid r (lr_name c) v, w'))
          (lg_map m) (out1, w1)
      in (out2, m\<lparr>lg_cse := w2\<rparr>))"

section \<open>Cases of a map lambda\<close>

text \<open>A relation under an assignment of the loop variables.\<close>

definition relation_holds :: "(string \<Rightarrow> nat) \<Rightarrow> relation \<Rightarrow> bool" where
  "relation_holds v rel = (case rel of (x, momentum, N) \<Rightarrow> if momentum then unat N \<le> v x else v x < unat N)"

text \<open>The species of an index: 0 for a field, 1 for a momentum.\<close>

definition species_of :: "u32 \<Rightarrow> (string \<Rightarrow> nat) \<Rightarrow> abstract_index \<Rightarrow> nat" where
  "species_of N v i = (if unat N \<le> v (get_loop_variable i) then 1 else 0)"

definition flat_species :: "u32 \<Rightarrow> (string \<Rightarrow> nat) \<Rightarrow> abstract_index list \<Rightarrow> nat" where
  "flat_species N v is' = foldl (\<lambda>s i. 2 * s + species_of N v i) 0 is'"

lemma flat_species_snoc: "flat_species N v (is' @ [i]) = 2 * flat_species N v is' + species_of N v i"
  by (simp add: flat_species_def)

lemma flat_species_less: "flat_species N v is' < 2 ^ length is'"
  by (induction is' rule: rev_induct) (auto simp: flat_species_snoc species_of_def, simp add: flat_species_def)

lemma conditions_select:
  "c < 2 ^ length is' \<Longrightarrow> list_all (relation_holds v) (case_conditions N (rev is') c) \<longleftrightarrow> c = flat_species N v is'"
proof (induction is' arbitrary: c rule: rev_induct)
  case Nil
  then show ?case by (simp add: flat_species_def)
next
  case (snoc i is')
  have less: "c div 2 < 2 ^ length is'" using snoc.prems by simp
  have split: "s < 2 \<Longrightarrow> m = 2 * f + s \<longleftrightarrow> m div 2 = f \<and> m mod 2 = s" for m f s :: nat by presburger
  have s: "species_of N v i < 2" by (simp add: species_of_def)
  have "relation_holds v (get_loop_variable i, c mod 2 = 1, N) \<longleftrightarrow> c mod 2 = species_of N v i"
    by (auto simp: relation_holds_def species_of_def)
  moreover have "c = 2 * flat_species N v is' + species_of N v i
      \<longleftrightarrow> c div 2 = flat_species N v is' \<and> c mod 2 = species_of N v i"
    using split [OF s] .
  ultimately show ?case using snoc.IH [OF less] by (auto simp: flat_species_snoc)
qed

text \<open>A map lambda takes the right case. For a table with an entry for every choice of species and any values of the loop
  variables, the conditions of exactly one entry hold: the one at the position that flattening the species of the
  indices gives, and so the function returns the expression that was stored for them.\<close>

theorem map_lambda_selects_case:
  assumes "map_lambda_new d t tp tg ty = Inr lam" and "length (idb_list d) < 32"
  shows "filter (\<lambda>(c, e). list_all (relation_holds v) (case_conditions N (rev (idb_list (gl_indices lam))) c)) (enumerate 0 (ml_map lam))
    = [(flat_species N v (idb_list d), t ! flat_species N v (idb_list d))]"
proof -
  let ?k = "flat_species N v (idb_list d)"
  have size: "unat (lambda_map_size n) = 2 ^ n" if "n < 32" for n
  proof -
    have "(2 :: nat) ^ n < 2 ^ 32" using that by (rule power_strict_increasing) simp
    then have "take_bit 32 ((2 :: nat) ^ n) = 2 ^ n" by (intro take_bit_nat_eq_self)
    moreover have "lambda_map_size n = word_of_nat (2 ^ n)" by (simp add: lambda_map_size_def)
    ultimately show ?thesis by (simp only: unsigned_of_nat) simp
  qed
  have lam: "ml_map lam = t" "gl_indices lam = d" "length t = 2 ^ length (idb_list d)"
    using assms size [OF assms(2)] by (auto simp: map_lambda_new_def split: if_splits)
  have k: "?k < length t" using flat_species_less lam(3) by metis
  have e: "enumerate 0 t = enumerate 0 (take ?k t) @ (?k, t ! ?k) # enumerate (Suc ?k) (drop (Suc ?k) t)"
    using id_take_nth_drop [OF k] k by (metis add_0 enumerate_append_eq enumerate_simps(2) length_take min.absorb4)
  let ?P = "\<lambda>(c, e). list_all (relation_holds v) (case_conditions N (rev (idb_list d)) c)"
  have P: "?P x \<longleftrightarrow> fst x = ?k" if "x \<in> set (enumerate 0 t)" for x
  proof -
    have "fst x < 2 ^ length (idb_list d)" using that lam(3) by (metis add_0_right in_set_enumerate_eq)
    from conditions_select [OF this, of v N] show ?thesis by (simp add: split_beta)
  qed
  have "filter ?P (enumerate 0 t) = filter (\<lambda>x. fst x = ?k) (enumerate 0 t)"
    by (rule filter_cong) (simp_all add: P)
  also have "\<dots> = [(?k, t ! ?k)]" unfolding e by (auto simp: filter_empty_conv in_set_enumerate_eq)
  finally show ?thesis by (simp add: lam)
qed


definition example_indices :: abstract_index_database where
  "example_indices = of_items ai_label [abstract_index_new CHR ''A'' 2 0, abstract_index_new CHR ''B'' 2 0]"

definition example_table :: "gex list" where
  "example_table = [Ex (Symbol ''a'') [], Ex (Symbol ''b'') [], Ex (Symbol ''c'') [], Ex (Symbol ''d'') []]"

definition example_position :: "string \<Rightarrow> nat" where
  "example_position x = (if x = ''_A'' then 1 else 2)"

theorem map_lambda_selects_case_witness:
  "\<exists>lam. map_lambda_new example_indices example_table dddV_lambda no_tags ''double'' = Inr lam
     \<and> filter (\<lambda>(c, e). list_all (relation_holds example_position) (case_conditions 2 (rev (idb_list (gl_indices lam))) c))
         (enumerate 0 (ml_map lam)) = [(1, Ex (Symbol ''b'') [])]"
proof -
  have l: "idb_list example_indices = [abstract_index_new CHR ''A'' 2 0, abstract_index_new CHR ''B'' 2 0]" by code_simp
  then have "length example_table = unat (lambda_map_size (length (idb_list example_indices)))"
    by (simp add: example_table_def lambda_map_size_def)
  then obtain lam where lam: "map_lambda_new example_indices example_table dddV_lambda no_tags ''double'' = Inr lam"
    by (simp add: map_lambda_new_def)
  have "flat_species 2 example_position (idb_list example_indices) = 1" unfolding l by code_simp
  with map_lambda_selects_case [OF lam, of example_position 2] l lam show ?thesis by (simp add: example_table_def)
qed

section \<open>Values of an atomic lambda\<close>

text \<open>C37: The body of an atomic lambda computes its expression. The function is written with the temporaries of its
  expression, in order, and returns a text; executing the temporaries succeeds, and the text then evaluates to the
  value of the expression. When no temporary is needed the function is a single line. The worker is left empty.\<close>

theorem atomic_lambda_computes:
  assumes "cc_do_cse cfg" and "kernel_ok (cs_kernel w)" and "cs_symbols w = []" and "cs_decls w = []" and "cs_counter w = 0"
    and "supported (al_expr lam)" and "leaves_ok cfg (cs_kernel w) env0 fn lv (al_expr lam)"
    and "\<And>u i. fn ''std::pow'' [u, of_int i] = u powi i" and "length (postorder (al_expr lam)) < 2 ^ 32"
    and "atomic_temporary cfg p l mid r lam w = (lines, w')"
  shows "\<exists>decls ex E. execute fn decls env0 = Some E \<and> c_value E fn ex = Some (gvalue lv fn (al_expr lam))
    \<and> lines =
        (let start = open_lambda p (gl_indices lam) (gl_working_type lam); b = block_spacing p in
         if decls = [] then [start @ '' '' @ format_return p ex @ '' '' @ close_lambda p]
         else [start] @ map (\<lambda>(x, t). b @ l @ x @ mid @ t @ r @ [NL]) decls @ [b @ format_return p ex, close_lambda p])
    \<and> cs_symbols w' = [] \<and> cs_decls w' = [] \<and> cs_counter w' = 0"
proof -
  obtain ex w2 where use: "get_symbol_with_use_count cfg (al_expr lam) (cse_parse cfg None (al_expr lam) w) = (ex, w2)"
    by fastforce
  have run: "run_requests cfg [Parse (al_expr lam), Use (al_expr lam)] w = ([(al_expr lam, ex)], w2)" using use by simp
  have ok: "supported (request_ex r) \<and> leaves_ok cfg (cs_kernel w) env0 fn lv (request_ex r)"
    if "r \<in> set [Parse (al_expr lam), Use (al_expr lam)]" for r using that assms(6,7) by auto
  have cost: "sum_list (map request_cost [Parse (al_expr lam), Use (al_expr lam)]) < 2 ^ 32" using assms(9) by simp
  have "\<exists>E. execute fn (cs_decls w2) env0 = Some E \<and> distinct (map fst (cs_decls w2))
    \<and> (\<forall>x. x \<notin> declared w2 \<longrightarrow> E x = env0 x)
    \<and> (\<forall>(e, x) \<in> set [(al_expr lam, ex)]. c_value E fn x = Some (gvalue lv fn e))"
    by (rule cse_keeps_values_empty [where fn = fn, OF assms(1,2) _ assms(8) cost run assms(3-5)]) (rule ok)
  then obtain E where "execute fn (cs_decls w2) env0 = Some E" "c_value E fn ex = Some (gvalue lv fn (al_expr lam))" by auto
  moreover have "lines = (let start = open_lambda p (gl_indices lam) (gl_working_type lam); b = block_spacing p in
         if cs_decls w2 = [] then [start @ '' '' @ format_return p ex @ '' '' @ close_lambda p]
         else [start] @ map (\<lambda>(x, t). b @ l @ x @ mid @ t @ r @ [NL]) (cs_decls w2) @ [b @ format_return p ex, close_lambda p])"
    "w' = cse_clear w2"
    using assms(10) use by (auto simp: atomic_temporary_def Let_def cse_temporaries_def split_beta comp_def)
  ultimately show ?thesis by (auto simp: cse_clear_def)
qed


section \<open>Names of lambdas\<close>

text \<open>A sequence of requests, of both kinds.\<close>

datatype lambda_request = Atomic_request atomic_lambda | Map_request map_lambda

fun cache_lambda ::
  "(gex \<Rightarrow> gex \<Rightarrow> bool) \<Rightarrow> C_style_printer \<Rightarrow> u32 \<Rightarrow> lambda_request \<Rightarrow> lambda_manager \<Rightarrow> string \<times> lambda_manager" where
  "cache_lambda same p N (Atomic_request lam) m = cache_atomic same p N lam m"
| "cache_lambda same p N (Map_request lam) m = cache_map same p N lam m"

fun cache_lambdas ::
  "(gex \<Rightarrow> gex \<Rightarrow> bool) \<Rightarrow> C_style_printer \<Rightarrow> u32 \<Rightarrow> lambda_request list \<Rightarrow> lambda_manager \<Rightarrow> string list \<times> lambda_manager" where
  "cache_lambdas same p N [] m = ([], m)"
| "cache_lambdas same p N (r # rs) m =
     (case cache_lambda same p N r m of (t, m1) \<Rightarrow> case cache_lambdas same p N rs m1 of (ts, m2) \<Rightarrow> (t # ts, m2))"

fun request_indices :: "lambda_request \<Rightarrow> abstract_index_database" where
  "request_indices (Atomic_request lam) = gl_indices lam"
| "request_indices (Map_request lam) = gl_indices lam"

fun requests_alike :: "(gex \<Rightarrow> gex \<Rightarrow> bool) \<Rightarrow> lambda_request \<Rightarrow> lambda_request \<Rightarrow> bool" where
  "requests_alike same (Atomic_request a) (Atomic_request b) = (gl_type a = gl_type b \<and> tags_equal same (gl_tags a) (gl_tags b))"
| "requests_alike same (Map_request a) (Map_request b) = (gl_type a = gl_type b \<and> tags_equal same (gl_tags a) (gl_tags b))"
| "requests_alike same _ _ = False"

fun lambda_name :: "(gex \<Rightarrow> gex \<Rightarrow> bool) \<Rightarrow> lambda_manager \<Rightarrow> lambda_request \<Rightarrow> string option" where
  "lambda_name same m (Atomic_request lam) = map_option lr_name (find_record same lam (lg_atomic m))"
| "lambda_name same m (Map_request lam) = map_option lr_name (find_record same lam (lg_map m))"

definition lambda_names :: "lambda_manager \<Rightarrow> string list" where
  "lambda_names m = map lr_name (lg_atomic m) @ map lr_name (lg_map m)"

text \<open>The invariant: names are distinct and carry counters that were already used.\<close>

definition manager_ok :: "lambda_manager \<Rightarrow> bool" where
  "manager_ok m \<longleftrightarrow> distinct (lambda_names m)
     \<and> (\<forall>x \<in> set (lambda_names m). \<exists>c < lg_counter m. x = symbol_name (lg_kernel m) (lg_serial m) c)"

lemma tags_equal_equivp:
  assumes "equivp same"
  shows "equivp (tags_equal same)"
proof -
  have "reflp (list_all2 same)" "symp (list_all2 same)" "transp (list_all2 same)"
    using assms by (auto simp: equivp_reflp_symp_transp intro: list.rel_reflp list.rel_symp list.rel_transp)
  then show ?thesis
    by (intro equivpI reflpI sympI transpI) (auto simp: tags_equal_def dest: reflpD sympD transpD)
qed

lemma same_lambda_equivp: "equivp same \<Longrightarrow> equivp (same_lambda same)"
  using tags_equal_equivp [of same]
  by (intro equivpI reflpI sympI transpI) (auto simp: same_lambda_def dest: equivp_reflp equivp_symp equivp_transp)

lemma find_record_same:
  assumes "find_record same a rs = Some q"
  shows "q \<in> set rs \<and> same_lambda same (lr_lambda q) a"
  using assms by (auto simp: find_record_def find_Some_iff)

lemma find_record_alike:
  assumes "equivp same" and "same_lambda same a b"
  shows "find_record same a rs = find_record same b rs"
proof -
  have "same_lambda same x a \<longleftrightarrow> same_lambda same x b" for x
    using same_lambda_equivp [OF assms(1)] assms(2) by (meson equivp_symp equivp_transp)
  then show ?thesis by (simp add: find_record_def)
qed

lemma find_record_keeps:
  assumes "equivp same" and "find_record same a rs = None" and "find_record same b rs = Some q"
  shows "find_record same b (\<lparr>lr_name = x, lr_lambda = a, lr_fields = N\<rparr> # rs) = Some q"
proof -
  have "\<not> same_lambda same a b" using find_record_alike [OF assms(1), of a b rs] assms(2,3) by auto
  then show ?thesis using assms(3) by (simp add: find_record_def)
qed

lemma find_record_new:
  assumes "equivp same"
  shows "find_record same a (\<lparr>lr_name = x, lr_lambda = a, lr_fields = N\<rparr> # rs) = Some \<lparr>lr_name = x, lr_lambda = a, lr_fields = N\<rparr>"
  using equivp_reflp [OF same_lambda_equivp [OF assms], of a] by (simp add: find_record_def)

lemma fresh_lambda_name:
  assumes "manager_ok m" and "unat (lg_counter m) + 1 < 2 ^ 32"
  shows "symbol_name (lg_kernel m) (lg_serial m) (lg_counter m) \<notin> set (lambda_names m)"
    and "c \<le> lg_counter m \<Longrightarrow> c < lg_counter m + 1"
proof -
  show "symbol_name (lg_kernel m) (lg_serial m) (lg_counter m) \<notin> set (lambda_names m)"
  proof
    assume "symbol_name (lg_kernel m) (lg_serial m) (lg_counter m) \<in> set (lambda_names m)"
    with assms(1) obtain c where "c < lg_counter m"
      "symbol_name (lg_kernel m) (lg_serial m) (lg_counter m) = symbol_name (lg_kernel m) (lg_serial m) c"
      unfolding manager_ok_def by blast
    with symbol_name_inject [OF this(2)] show False by simp
  qed
  have "unat (lg_counter m + 1) = unat (lg_counter m) + 1" using assms(2) by (simp add: unat_word_ariths)
  then show "c \<le> lg_counter m \<Longrightarrow> c < lg_counter m + 1" by (simp add: word_less_nat_alt word_le_nat_alt)
qed

lemma manager_ok_add:
  assumes "manager_ok m" and "unat (lg_counter m) + 1 < 2 ^ 32"
    and "set (lambda_names m') = insert (symbol_name (lg_kernel m) (lg_serial m) (lg_counter m)) (set (lambda_names m))"
    and "length (lambda_names m') = Suc (length (lambda_names m))"
    and "lg_kernel m' = lg_kernel m" and "lg_serial m' = lg_serial m" and "lg_counter m' = lg_counter m + 1"
  shows "manager_ok m'"
proof -
  have "distinct (lambda_names m')"
    using assms(1,3,4) fresh_lambda_name(1) [OF assms(1,2)] by (intro card_distinct) (simp add: manager_ok_def distinct_card)
  moreover have "\<exists>c < lg_counter m + 1. x = symbol_name (lg_kernel m) (lg_serial m) c" if x: "x \<in> set (lambda_names m')" for x
  proof -
    have "\<exists>c \<le> lg_counter m. x = symbol_name (lg_kernel m) (lg_serial m) c"
    proof (cases "x \<in> set (lambda_names m)")
      case True
      with assms(1) show ?thesis unfolding manager_ok_def by (meson order_less_imp_le)
    next
      case False
      with x assms(3) show ?thesis by auto
    qed
    then show ?thesis using fresh_lambda_name(2) [OF assms(1,2)] by blast
  qed
  ultimately show ?thesis using assms(5-7) by (simp add: manager_ok_def)
qed

lemma cache_lambda_step:
  assumes "equivp same" and "manager_ok m" and "unat (lg_counter m) + 1 < 2 ^ 32" and "cache_lambda same p N r m = (t, m')"
  shows "manager_ok m'" and "unat (lg_counter m') \<le> unat (lg_counter m) + 1"
    and "\<exists>x. lambda_name same m' r = Some x \<and> t = lambda_invokation p x (request_indices r)"
    and "lambda_name same m r' = Some x \<Longrightarrow> lambda_name same m' r' = Some x"
proof -
  note d = cache_atomic_def cache_map_def make_name_def Let_def split_beta
  have c: "unat (lg_counter m + 1) \<le> unat (lg_counter m) + 1" using assms(3) by (simp add: unat_word_ariths)
  have "manager_ok m' \<longleftrightarrow> manager_ok m" if "m' = m\<lparr>lg_hits := lg_hits m + 1\<rparr>"
    using that by (simp add: manager_ok_def lambda_names_def)
  moreover have "m' = m\<lparr>lg_hits := lg_hits m + 1\<rparr>
    \<or> set (lambda_names m') = insert (symbol_name (lg_kernel m) (lg_serial m) (lg_counter m)) (set (lambda_names m))
      \<and> length (lambda_names m') = Suc (length (lambda_names m))
      \<and> lg_kernel m' = lg_kernel m \<and> lg_serial m' = lg_serial m \<and> lg_counter m' = lg_counter m + 1"
    using assms(4) by (cases r) (auto simp: d lambda_names_def split: option.splits)
  ultimately show "manager_ok m'" using assms(2) manager_ok_add [OF assms(2,3), of m'] by blast
  show "unat (lg_counter m') \<le> unat (lg_counter m) + 1"
    using assms(4) c by (cases r) (auto simp: d split: option.splits)
  show "\<exists>x. lambda_name same m' r = Some x \<and> t = lambda_invokation p x (request_indices r)"
    using assms(4) by (cases r) (auto simp: d find_record_new [OF assms(1)] split: option.splits)
  show "lambda_name same m' r' = Some x" if "lambda_name same m r' = Some x"
    using assms(4) that by (cases r; cases r') (auto simp: d find_record_keeps [OF assms(1)] split: option.splits)
qed

lemma cache_lambdas_named:
  assumes "equivp same"
  shows "manager_ok m \<Longrightarrow> unat (lg_counter m) + length rs < 2 ^ 32 \<Longrightarrow> cache_lambdas same p N rs m = (ts, m')
    \<Longrightarrow> manager_ok m' \<and> (\<forall>r x. lambda_name same m r = Some x \<longrightarrow> lambda_name same m' r = Some x)
      \<and> list_all2 (\<lambda>r t. \<exists>x. lambda_name same m' r = Some x \<and> t = lambda_invokation p x (request_indices r)) rs ts"
proof (induction rs arbitrary: m ts)
  case (Cons r rs)
  obtain t m1 ts1 where s: "cache_lambda same p N r m = (t, m1)" "cache_lambdas same p N rs m1 = (ts1, m')" "ts = t # ts1"
    using Cons.prems(3) by (auto split: prod.splits)
  have b: "unat (lg_counter m) + 1 < 2 ^ 32" using Cons.prems(2) by simp
  note st = cache_lambda_step [OF assms Cons.prems(1) b s(1)]
  have "unat (lg_counter m1) + length rs < 2 ^ 32" using st(2) Cons.prems(2) by simp
  from Cons.IH [OF st(1) this s(2)] st(3,4) s(3) show ?case by (auto 4 3)
qed simp

lemma lambda_name_alike:
  assumes "equivp same" and "manager_ok m" and "lambda_name same m a = Some x" and "lambda_name same m b = Some y"
  shows "x = y \<longleftrightarrow> requests_alike same a b"
proof -
  have eq: "equivp (same_lambda same)" by (rule same_lambda_equivp [OF assms(1)])
  have d: "distinct (map lr_name (lg_atomic m))" "distinct (map lr_name (lg_map m))"
    "set (map lr_name (lg_atomic m)) \<inter> set (map lr_name (lg_map m)) = {}"
    using assms(2) by (simp_all add: manager_ok_def lambda_names_def)
  have one: "lr_name q1 = lr_name q2 \<longleftrightarrow> same_lambda same l1 l2"
    if "distinct (map lr_name rs)" "find_record same l1 rs = Some q1" "find_record same l2 rs = Some q2" for l1 l2 rs q1 q2
  proof
    assume "lr_name q1 = lr_name q2"
    with that(1) find_record_same [OF that(2)] find_record_same [OF that(3)] have "q1 = q2"
      by (auto simp: distinct_map dest: inj_onD)
    then show "same_lambda same l1 l2"
      using find_record_same [OF that(2)] find_record_same [OF that(3)] eq by (meson equivp_symp equivp_transp)
  next
    assume "same_lambda same l1 l2"
    then show "lr_name q1 = lr_name q2" using find_record_alike [OF assms(1)] that(2,3) by fastforce
  qed
  have two: "lr_name q1 \<noteq> lr_name q2"
    if "find_record same l1 (lg_atomic m) = Some q1" "find_record same l2 (lg_map m) = Some q2" for l1 l2 q1 q2
    using find_record_same [OF that(1)] find_record_same [OF that(2)] d(3) by fastforce
  show ?thesis
    using assms(3,4) one [OF d(1)] one [OF d(2)] two two [symmetric] by (cases a; cases b) (auto simp flip: same_lambda_def)
qed

text \<open>A lambda is named once. From a cleared manager, after any sequence of fewer than \<open>2\<^sup>32\<close> requests, the text given for a
  request invokes, with its own indices, the lambda that the manager holds for it, and two requests are given the same lambda exactly when they
  are of one kind, have one type and tags that do not differ. Expressions do not enter the comparison.\<close>

theorem lambda_named_once:
  assumes "equivp same" and "length rs < 2 ^ 32" and "cache_lambdas same p N rs (lambda_clear m) = (ts, m')"
  shows "\<exists>names. ts = map2 (\<lambda>r x. lambda_invokation p x (request_indices r)) rs names \<and> length names = length rs
    \<and> map (lambda_name same m') rs = map Some names
    \<and> (\<forall>i j. i < length rs \<and> j < length rs \<longrightarrow> (names ! i = names ! j \<longleftrightarrow> requests_alike same (rs ! i) (rs ! j)))"
proof -
  have "manager_ok (lambda_clear m)" "unat (lg_counter (lambda_clear m)) = 0"
    by (simp_all add: manager_ok_def lambda_names_def lambda_clear_def)
  with cache_lambdas_named [OF assms(1) _ _ assms(3)] assms(2)
  have ok: "manager_ok m'" and all: "list_all2 (\<lambda>r t. \<exists>x. lambda_name same m' r = Some x
      \<and> t = lambda_invokation p x (request_indices r)) rs ts" by auto
  let ?names = "map (the \<circ> lambda_name same m') rs"
  have i: "lambda_name same m' (rs ! i) = Some (?names ! i) \<and> ts ! i = lambda_invokation p (?names ! i) (request_indices (rs ! i))"
    if "i < length rs" for i using list_all2_nthD [OF all that] that by auto
  have "ts = map2 (\<lambda>r x. lambda_invokation p x (request_indices r)) rs ?names"
    using i list_all2_lengthD [OF all] by (intro nth_equalityI) auto
  moreover have "map (lambda_name same m') rs = map Some ?names" using i by (intro nth_equalityI) auto
  moreover have "?names ! i = ?names ! j \<longleftrightarrow> requests_alike same (rs ! i) (rs ! j)" if "i < length rs" "j < length rs" for i j
    using lambda_name_alike [OF assms(1) ok] i [OF that(1)] i [OF that(2)] by blast
  ultimately show ?thesis by (intro exI [of _ ?names]) simp
qed

definition example_lambda :: atomic_lambda where
  "example_lambda =
     \<lparr>gl_indices = idb_empty, gl_type = V_item, gl_tags = no_tags, gl_working_type = ''double'', al_expr = example_sum\<rparr>"

lemma example_lambda_indices: "idb_list (gl_indices example_lambda) = []"
  by code_simp

theorem lambda_named_once_witness:
  "fst (cache_lambdas (=) default_printer 2 [Atomic_request example_lambda, Atomic_request (example_lambda\<lparr>gl_type := eta_item\<rparr>),
        Atomic_request example_lambda] (lambda_clear (lambda_manager_new 0 (cse_new 0 ''_t'') ''_l'' ''_u'')))
     = [''_l_1_0()'', ''_l_1_1()'', ''_l_1_0()'']
   \<and> requests_alike (=) (Atomic_request example_lambda) (Atomic_request example_lambda)
   \<and> \<not> requests_alike (=) (Atomic_request example_lambda) (Atomic_request (example_lambda\<lparr>gl_type := eta_item\<rparr>))"
proof -
  let ?rs = "[Atomic_request example_lambda, Atomic_request (example_lambda\<lparr>gl_type := eta_item\<rparr>), Atomic_request example_lambda]"
  obtain ts m' where c: "cache_lambdas (=) default_printer 2 ?rs (lambda_clear (lambda_manager_new 0 (cse_new 0 ''_t'') ''_l'' ''_u'')) = (ts, m')"
    by fastforce
  have run: "fst (cache_lambdas (=) default_printer 2 ?rs (lambda_clear (lambda_manager_new 0 (cse_new 0 ''_t'') ''_l'' ''_u'')))
     = [''_l_1_0()'', ''_l_1_1()'', ''_l_1_0()'']" by code_simp
  have "length ?rs < 2 ^ 32" by simp
  from lambda_named_once [OF identity_equivp this c]
  obtain names where n: "ts = map2 (\<lambda>r x. lambda_invokation default_printer x (request_indices r)) ?rs names" "length names = 3"
    "names ! 0 = names ! 2 \<longleftrightarrow> requests_alike (=) (?rs ! 0) (?rs ! 2)"
    "names ! 0 = names ! 1 \<longleftrightarrow> requests_alike (=) (?rs ! 0) (?rs ! 1)" by force
  have "names ! 0 = ''_l_1_0'' \<and> names ! 1 = ''_l_1_1'' \<and> names ! 2 = ''_l_1_0''"
    using n(1,2) run unfolding c
    by (auto simp: numeral_3_eq_3 length_Suc_conv lambda_invokation_def example_lambda_indices default_printer_def separated_def)
  with n(3,4) run show ?thesis by simp
qed

theorem atomic_lambda_computes_witness:
  "\<exists>decls ex E w'. atomic_temporary example_config default_printer [] '' = '' '';'' example_lambda (cse_new 0 ''_t'')
      = ((''[&]() -> double {'' # map (\<lambda>(x, t). ''   '' @ x @ '' = '' @ t @ '';'' @ [NL]) decls)
         @ [''   return '' @ ex @ '';'', '' }''], w')
    \<and> execute example_fn decls example_env = Some E \<and> c_value E example_fn ex = Some 8"
proof -
  let ?w = "cse_new 0 ''_t''"
  obtain ls w' where run: "atomic_temporary example_config default_printer [] '' = '' '';'' example_lambda ?w = (ls, w')"
    by fastforce
  have "case atomic_temporary example_config default_printer [] '' = '' '';'' example_lambda ?w of (ls, w') \<Rightarrow> length ls = 7"
    by code_simp
  then have more: "length ls = 7" using run by simp
  have w: "kernel_ok (cs_kernel ?w)" "cs_symbols ?w = []" "cs_decls ?w = []" "cs_counter ?w = 0" "cs_kernel ?w = ''_t''"
    using example_kernel by (simp_all add: cse_new_def)
  have e: "supported (al_expr example_lambda)" "length (postorder (al_expr example_lambda)) < 2 ^ 32"
    "leaves_ok example_config (cs_kernel ?w) example_env example_fn example_value (al_expr example_lambda)"
    using example_supported example_leaves by (simp_all add: example_lambda_def w(5)) (simp add: example_sum_def)
  have "cc_do_cse example_config" by (simp add: example_config_def)
  from atomic_lambda_computes [where fn = example_fn, OF this w(1-4) e(1,3) example_fn_pow e(2) run]
  obtain decls ex E where x: "execute example_fn decls example_env = Some E"
    "c_value E example_fn ex = Some (gvalue example_value example_fn (al_expr example_lambda))"
    "ls = (let start = open_lambda default_printer (gl_indices example_lambda) (gl_working_type example_lambda);
               b = block_spacing default_printer in
         if decls = [] then [start @ '' '' @ format_return default_printer ex @ '' '' @ close_lambda default_printer]
         else [start] @ map (\<lambda>(x, t). b @ [] @ x @ '' = '' @ t @ '';'' @ [NL]) decls @ [b @ format_return default_printer ex, close_lambda default_printer])"
    by blast
  have d: "decls \<noteq> []" using x(3) more by (auto simp: Let_def)
  have "open_lambda default_printer (gl_indices example_lambda) (gl_working_type example_lambda) = ''[&]() -> double {''"
    "block_spacing default_printer = ''   ''" "format_return default_printer ex = ''return '' @ ex @ '';''"
    "close_lambda default_printer = '' }''"
    by (simp_all add: open_lambda_def default_printer_def example_lambda_indices separated_def block_spacing_def
        format_return_def close_lambda_def) (simp_all add: example_lambda_def numeral_3_eq_3)
  with x(3) d have "ls = (''[&]() -> double {'' # map (\<lambda>(x, t). ''   '' @ x @ '' = '' @ t @ '';'' @ [NL]) decls)
      @ [''   return '' @ ex @ '';'', '' }'']" by (simp add: Let_def)
  moreover have "gvalue example_value example_fn (al_expr example_lambda) = 8"
    by (simp add: example_lambda_def example_sum_def example_env_def example_print_def)
  ultimately show ?thesis using x(1,2) run by auto
qed

end
