(* ===== verification/Buffer.thy ===== *)
theory Buffer
  imports Finder
begin

text \<open>
  The output buffer of a translated template, \<open>file_handling/buffer.{h,cpp}\<close>: lines on their way to a file, with a
  tag before which lines can still be inserted. Clients see it through the locale \<open>tagged_sink\<close>: a text in two
  parts, of which the first grows at the tag and the second at the end.
\<close>

section \<open>The buffer\<close>

text \<open>The stream to the destination file. A stream that is good stays good; one that has failed takes nothing.\<close>

record ofstream =
  os_open :: bool
  os_failed :: bool
  os_text :: string

definition os_closed :: ofstream where
  "os_closed = \<lparr>os_open = False, os_failed = False, os_text = []\<rparr>"

definition os_put :: "string \<Rightarrow> ofstream \<Rightarrow> ofstream" where
  "os_put line f = (if os_open f \<and> \<not> os_failed f then f\<lparr>os_text := os_text f @ line @ [NL]\<rparr> else f)"

record delimiter =
  dl_left :: string
  dl_right :: string

text \<open>The list of lines holds a placeholder at the tag, an iterator, which is its position here.\<close>

record buffer =
  bf_in_memory :: bool
  bf_filename :: string
  bf_size :: u32
  bf_capacity :: u32
  bf_stream :: ofstream
  bf_lines :: "string list"
  bf_tag :: nat
  bf_delimiters :: "delimiter list"
  bf_skips :: "bool list"

definition magic_tag :: string where
  "magic_tag = ''MAGIC_TAG''"

text \<open>Opening the destination gives the stream. The message names the argument after it was moved from.\<close>

definition buffer_open :: "(string \<Rightarrow> ofstream) \<Rightarrow> string \<Rightarrow> u32 \<Rightarrow> exn + buffer" where
  "buffer_open open_file fn cp =
     (let f = open_file fn in
      if \<not> os_open f \<or> os_failed f then Inl (Runtime_error ''ERROR_CPP_BUFFER_WRITE'')
      else Inr \<lparr>bf_in_memory = False, bf_filename = fn, bf_size = 0, bf_capacity = cp, bf_stream = f,
                bf_lines = [magic_tag], bf_tag = 0, bf_delimiters = [], bf_skips = []\<rparr>)"

definition buffer_memory :: buffer where
  "buffer_memory =
     \<lparr>bf_in_memory = True, bf_filename = [], bf_size = 0, bf_capacity = 0, bf_stream = os_closed,
      bf_lines = [magic_tag], bf_tag = 0, bf_delimiters = [], bf_skips = []\<rparr>"

text \<open>Erasing the placeholder, which the tag does not survive.\<close>

definition erase_tag :: "buffer \<Rightarrow> string list" where
  "erase_tag b =
     (if bf_lines b ! bf_tag b = magic_tag then take (bf_tag b) (bf_lines b) @ drop (Suc (bf_tag b)) (bf_lines b)
      else bf_lines b)"

definition buffer_close :: "buffer \<Rightarrow> ofstream" where
  "buffer_close b =
     (if bf_in_memory b then bf_stream b
      else if os_open (bf_stream b) then (fold os_put (erase_tag b) (bf_stream b))\<lparr>os_open := False\<rparr>
      else bf_stream b)"

definition delimit_line :: "delimiter list \<Rightarrow> string \<Rightarrow> string" where
  "delimit_line ds item = foldl (\<lambda>s d. dl_left d @ s @ dl_right d) item ds"

text \<open>A position in the list of lines: insertion goes before it, and a tag at or after it moves along.\<close>

definition insert_line :: "nat \<Rightarrow> string \<Rightarrow> buffer \<Rightarrow> buffer" where
  "insert_line p line b =
     b\<lparr>bf_lines := take p (bf_lines b) @ line # drop p (bf_lines b),
       bf_tag := (if p \<le> bf_tag b then Suc (bf_tag b) else bf_tag b),
       bf_size := bf_size b + of_nat (length line)\<rparr>"

datatype insertion_point = At_end | At_tag

definition point_position :: "insertion_point \<Rightarrow> buffer \<Rightarrow> nat" where
  "point_position p b = (case p of At_end \<Rightarrow> length (bf_lines b) | At_tag \<Rightarrow> bf_tag b)"

definition skip_line :: "buffer \<Rightarrow> string \<Rightarrow> bool" where
  "skip_line b line = (case bf_skips b of [] \<Rightarrow> False | skip # _ \<Rightarrow> skip \<and> line = [])"

definition write_one :: "insertion_point \<Rightarrow> string \<Rightarrow> buffer \<Rightarrow> buffer" where
  "write_one p line b =
     (if skip_line b line then b else insert_line (point_position p b) (delimit_line (bf_delimiters b) line) b)"

text \<open>Lines leave from the front, at most \<open>n\<close> of them: those before the tag.\<close>

primrec flush_lines :: "nat \<Rightarrow> buffer \<Rightarrow> buffer" where
  "flush_lines 0 b = b"
| "flush_lines (Suc n) b =
     (if bf_capacity b < bf_size b then
        flush_lines n (b\<lparr>bf_stream := os_put (hd (bf_lines b)) (bf_stream b),
                        bf_size := bf_size b - of_nat (length (hd (bf_lines b))),
                        bf_lines := List.tl (bf_lines b), bf_tag := bf_tag b - 1\<rparr>)
      else b)"

definition buffer_write :: "insertion_point \<Rightarrow> string \<Rightarrow> buffer \<Rightarrow> buffer" where
  "buffer_write p line b =
     (let b1 = fold (write_one p) (split_at NL line) b
      in if bf_in_memory b1 then b1 else flush_lines (bf_tag b1) b1)"

definition write_to_end :: "string \<Rightarrow> buffer \<Rightarrow> buffer" where
  "write_to_end = buffer_write At_end"

definition write_to_tag :: "string \<Rightarrow> buffer \<Rightarrow> buffer" where
  "write_to_tag = buffer_write At_tag"

definition set_tag_to_end :: "buffer \<Rightarrow> buffer" where
  "set_tag_to_end b = b\<lparr>bf_lines := erase_tag b @ [magic_tag], bf_tag := length (erase_tag b)\<rparr>"

text \<open>The second component is the source, which is emptied.\<close>

definition buffer_merge :: "buffer \<Rightarrow> buffer \<Rightarrow> buffer \<times> buffer" where
  "buffer_merge b source =
     (b\<lparr>bf_lines := bf_lines b @ erase_tag source, bf_size := bf_size b + bf_size source\<rparr>,
      source\<lparr>bf_lines := [magic_tag], bf_tag := 0, bf_size := 0\<rparr>)"

definition push_delimiter :: "string \<Rightarrow> string \<Rightarrow> buffer \<Rightarrow> buffer" where
  "push_delimiter l r b = b\<lparr>bf_delimiters := bf_delimiters b @ [\<lparr>dl_left = l, dl_right = r\<rparr>]\<rparr>"

definition pop_delimiter :: "buffer \<Rightarrow> buffer" where
  "pop_delimiter b = b\<lparr>bf_delimiters := butlast (bf_delimiters b)\<rparr>"

definition push_skip_blank :: "bool \<Rightarrow> buffer \<Rightarrow> buffer" where
  "push_skip_blank skip b = b\<lparr>bf_skips := skip # bf_skips b\<rparr>"

definition pop_skip_blank :: "buffer \<Rightarrow> buffer" where
  "pop_skip_blank b = b\<lparr>bf_skips := List.tl (bf_skips b)\<rparr>"

definition inherit_decoration :: "buffer \<Rightarrow> buffer \<Rightarrow> buffer" where
  "inherit_decoration b source = b\<lparr>bf_delimiters := bf_delimiters source, bf_skips := bf_skips source\<rparr>"

text \<open>The lines shown, and whether they are followed by an ellipsis. The first line is shown before any counting.\<close>

definition print_lines :: "u32 \<Rightarrow> buffer \<Rightarrow> string list \<times> bool" where
  "print_lines n b =
     (let shown = take (max 1 (unat n)) (bf_lines b) in (shown, of_nat (length shown) = n))"


section \<open>The interface\<close>

text \<open>What a client of a buffer relies on: a text in two parts, and how a line is rendered in it.\<close>

locale tagged_sink =
  fixes put_end :: "string \<Rightarrow> 'b \<Rightarrow> 'b"
    and put_tag :: "string \<Rightarrow> 'b \<Rightarrow> 'b"
    and mark :: "'b \<Rightarrow> 'b"
    and good :: "'b \<Rightarrow> bool"
    and before :: "'b \<Rightarrow> string"
    and after :: "'b \<Rightarrow> string"
    and render :: "'b \<Rightarrow> string \<Rightarrow> string"
  assumes good_steps: "good b \<Longrightarrow> good (put_end x b)" "good b \<Longrightarrow> good (put_tag x b)" "good b \<Longrightarrow> good (mark b)"
    and render_steps: "good b \<Longrightarrow> render (put_end x b) = render b" "good b \<Longrightarrow> render (put_tag x b) = render b"
      "good b \<Longrightarrow> render (mark b) = render b"
    and put_end_parts: "good b \<Longrightarrow> before (put_end x b) @ after (put_end x b) = before b @ after b @ render b x"
      "good b \<Longrightarrow> before (put_end x b) = before b"
    and put_tag_parts: "good b \<Longrightarrow> before (put_tag x b) = before b @ render b x" "good b \<Longrightarrow> after (put_tag x b) = after b"
    and mark_parts: "good b \<Longrightarrow> before (mark b) = before b @ after b" "good b \<Longrightarrow> after (mark b) = []"
begin

lemma put_end_after: "good b \<Longrightarrow> after (put_end x b) = after b @ render b x"
  using put_end_parts [of b x] by simp

lemma put_end_list:
  assumes "good b"
  shows "good (fold put_end xs b) \<and> render (fold put_end xs b) = render b \<and> before (fold put_end xs b) = before b
    \<and> after (fold put_end xs b) = after b @ concat (map (render b) xs)"
  using assms by (induction xs arbitrary: b) (simp_all add: good_steps render_steps put_end_parts put_end_after)

lemma put_tag_list:
  assumes "good b"
  shows "good (fold put_tag xs b) \<and> render (fold put_tag xs b) = render b \<and> after (fold put_tag xs b) = after b
    \<and> before (fold put_tag xs b) = before b @ concat (map (render b) xs)"
  using assms by (induction xs arbitrary: b) (simp_all add: good_steps render_steps put_tag_parts)

end

datatype sink_command = To_end string | To_tag string | Mark

text \<open>The abstract buffer is the pair of its parts.\<close>

fun abstract_command :: "(string \<Rightarrow> string) \<Rightarrow> sink_command \<Rightarrow> string \<times> string \<Rightarrow> string \<times> string" where
  "abstract_command render (To_end x) (p, q) = (p, q @ render x)"
| "abstract_command render (To_tag x) (p, q) = (p @ render x, q)"
| "abstract_command render Mark (p, q) = (p @ q, [])"

fun buffer_command :: "sink_command \<Rightarrow> buffer \<Rightarrow> buffer" where
  "buffer_command (To_end x) b = write_to_end x b"
| "buffer_command (To_tag x) b = write_to_tag x b"
| "buffer_command Mark b = set_tag_to_end b"

section \<open>Buffers as tagged sinks\<close>

definition text_of :: "string list \<Rightarrow> string" where
  "text_of ls = concat (map (\<lambda>l. l @ [NL]) ls)"

lemma text_of_simps [simp]:
  "text_of [] = []" "text_of (l # ls) = l @ NL # text_of ls" "text_of (ls @ ms) = text_of ls @ text_of ms"
  by (simp_all add: text_of_def)

definition buffer_ok :: "buffer \<Rightarrow> bool" where
  "buffer_ok b \<longleftrightarrow> bf_tag b < length (bf_lines b) \<and> bf_lines b ! bf_tag b = magic_tag
     \<and> (bf_in_memory b \<or> os_open (bf_stream b) \<and> \<not> os_failed (bf_stream b))"

definition text_before :: "buffer \<Rightarrow> string" where
  "text_before b = os_text (bf_stream b) @ text_of (take (bf_tag b) (bf_lines b))"

definition text_after :: "buffer \<Rightarrow> string" where
  "text_after b = text_of (drop (Suc (bf_tag b)) (bf_lines b))"

definition rendered :: "buffer \<Rightarrow> string \<Rightarrow> string" where
  "rendered b x = text_of (map (delimit_line (bf_delimiters b)) (filter (\<lambda>l. \<not> skip_line b l) (split_at NL x)))"

text \<open>The characters held, the placeholder apart.\<close>

definition held :: "buffer \<Rightarrow> nat" where
  "held b = sum_list (map length (take (bf_tag b) (bf_lines b) @ drop (Suc (bf_tag b)) (bf_lines b)))"

definition size_ok :: "buffer \<Rightarrow> bool" where
  "size_ok b \<longleftrightarrow> bf_size b = of_nat (held b)"

definition same_style :: "buffer \<Rightarrow> buffer \<Rightarrow> bool" where
  "same_style b c \<longleftrightarrow> bf_delimiters b = bf_delimiters c \<and> bf_skips b = bf_skips c \<and> bf_in_memory b = bf_in_memory c
     \<and> bf_capacity b = bf_capacity c"

lemma split_tag:
  assumes "buffer_ok b"
  obtains us vs where "bf_lines b = us @ magic_tag # vs" "length us = bf_tag b"
  using assms id_take_nth_drop [of "bf_tag b" "bf_lines b"] unfolding buffer_ok_def by (metis length_take min.absorb4)

lemma insert_at_tag:
  fixes l :: string
  assumes "buffer_ok b"
  defines "c \<equiv> insert_line (point_position At_tag b) l b"
  shows "buffer_ok c" "text_before c = text_before b @ l @ [NL]" "text_after c = text_after b" "same_style b c"
    "size_ok b \<Longrightarrow> size_ok c"
proof -
  obtain us vs where *: "bf_lines b = us @ magic_tag # vs" "length us = bf_tag b" by (rule split_tag [OF assms(1)])
  show "buffer_ok c" "text_before c = text_before b @ l @ [NL]" "text_after c = text_after b" "same_style b c"
    "size_ok b \<Longrightarrow> size_ok c"
    using assms(1) * by (auto simp: c_def insert_line_def point_position_def buffer_ok_def text_before_def text_after_def
      same_style_def size_ok_def held_def nth_append)
qed

lemma insert_at_end:
  fixes l :: string
  assumes "buffer_ok b"
  defines "c \<equiv> insert_line (point_position At_end b) l b"
  shows "buffer_ok c" "text_before c = text_before b" "text_after c = text_after b @ l @ [NL]" "same_style b c"
    "size_ok b \<Longrightarrow> size_ok c"
proof -
  obtain us vs where *: "bf_lines b = us @ magic_tag # vs" "length us = bf_tag b" by (rule split_tag [OF assms(1)])
  show "buffer_ok c" "text_before c = text_before b" "text_after c = text_after b @ l @ [NL]" "same_style b c"
    "size_ok b \<Longrightarrow> size_ok c"
    using assms(1) * by (auto simp: c_def insert_line_def point_position_def buffer_ok_def text_before_def text_after_def
      same_style_def size_ok_def held_def nth_append)
qed


lemma point_cases: "(\<And>p. p = At_tag \<Longrightarrow> P p) \<Longrightarrow> (\<And>p. p = At_end \<Longrightarrow> P p) \<Longrightarrow> P p"
  by (cases p) auto

definition parts_after :: "insertion_point \<Rightarrow> buffer \<Rightarrow> string \<Rightarrow> buffer \<Rightarrow> bool" where
  "parts_after p b t c \<longleftrightarrow>
     text_before c = text_before b @ (case p of At_tag \<Rightarrow> t | At_end \<Rightarrow> [])
     \<and> text_after c = text_after b @ (case p of At_tag \<Rightarrow> [] | At_end \<Rightarrow> t)"

lemma same_style_trans: "same_style a b \<Longrightarrow> same_style b c \<Longrightarrow> same_style a c"
  by (simp add: same_style_def)

lemma rendered_cong: "same_style b c \<Longrightarrow> rendered c = rendered b"
  by (simp add: same_style_def rendered_def skip_line_def fun_eq_iff cong: list.case_cong)

lemma write_one_parts:
  assumes "buffer_ok b"
  shows "buffer_ok (write_one p l b) \<and> same_style b (write_one p l b) \<and> (size_ok b \<longrightarrow> size_ok (write_one p l b))
    \<and> parts_after p b (if skip_line b l then [] else delimit_line (bf_delimiters b) l @ [NL]) (write_one p l b)"
  using insert_at_tag [OF assms] insert_at_end [OF assms] assms
  by (cases p) (auto simp: write_one_def parts_after_def same_style_def)

lemma write_fold_parts:
  assumes "buffer_ok b"
  shows "buffer_ok (fold (write_one p) ls b) \<and> same_style b (fold (write_one p) ls b)
    \<and> (size_ok b \<longrightarrow> size_ok (fold (write_one p) ls b))
    \<and> parts_after p b (text_of (map (delimit_line (bf_delimiters b)) (filter (\<lambda>l. \<not> skip_line b l) ls)))
        (fold (write_one p) ls b)"
  using assms
proof (induction ls arbitrary: b)
  case Nil
  then show ?case by (simp add: parts_after_def same_style_def split: insertion_point.split)
next
  case (Cons l ls)
  let ?c = "write_one p l b"
  from write_one_parts [OF Cons.prems, of p l] have c: "buffer_ok ?c" "same_style b ?c" by simp_all
  then have "bf_delimiters ?c = bf_delimiters b" "skip_line ?c = skip_line b"
    by (auto simp: same_style_def skip_line_def fun_eq_iff)
  with write_one_parts [OF Cons.prems, of p l] Cons.IH [OF c(1)] show ?case
    by (auto simp: parts_after_def same_style_def split: insertion_point.splits)
qed

lemma flush_parts:
  assumes "buffer_ok b" and "\<not> bf_in_memory b" and "n \<le> bf_tag b"
  shows "buffer_ok (flush_lines n b) \<and> same_style b (flush_lines n b) \<and> (size_ok b \<longrightarrow> size_ok (flush_lines n b))
    \<and> text_before (flush_lines n b) = text_before b \<and> text_after (flush_lines n b) = text_after b
    \<and> (bf_size (flush_lines n b) \<le> bf_capacity b \<or> bf_tag (flush_lines n b) = bf_tag b - n)"
  using assms
proof (induction n arbitrary: b)
  case 0
  then show ?case by (simp add: same_style_def)
next
  case (Suc n)
  show ?case
  proof (cases "bf_capacity b < bf_size b")
    case True
    obtain us vs where u: "bf_lines b = us @ magic_tag # vs" "length us = bf_tag b" by (rule split_tag [OF Suc.prems(1)])
    with Suc.prems(3) obtain x xs where x: "us = x # xs" by (cases us) auto
    have lines: "bf_lines b = x # xs @ magic_tag # vs" and tag: "bf_tag b = Suc (length xs)" using u x by simp_all
    define c where "c = b\<lparr>bf_stream := os_put (hd (bf_lines b)) (bf_stream b),
                        bf_size := bf_size b - of_nat (length (hd (bf_lines b))),
                        bf_lines := List.tl (bf_lines b), bf_tag := bf_tag b - 1\<rparr>"
    have c: "buffer_ok c" "\<not> bf_in_memory c" "n \<le> bf_tag c" "same_style b c" "size_ok b \<longrightarrow> size_ok c"
      "text_before c = text_before b" "text_after c = text_after b" "bf_tag c - n = bf_tag b - Suc n"
      "bf_capacity c = bf_capacity b"
      using Suc.prems lines tag
      by (auto simp: c_def buffer_ok_def same_style_def size_ok_def held_def text_before_def text_after_def os_put_def)
    have "flush_lines (Suc n) b = flush_lines n c" using True by (simp add: c_def)
    then show ?thesis using Suc.IH [OF c(1-3)] c by (auto simp: same_style_def)
  next
    case False
    then have "flush_lines (Suc n) b = b" "bf_size b \<le> bf_capacity b" by simp_all
    then show ?thesis using Suc.prems by (simp add: same_style_def)
  qed
qed

lemma write_parts:
  assumes "buffer_ok b"
  shows "buffer_ok (buffer_write p x b) \<and> same_style b (buffer_write p x b) \<and> (size_ok b \<longrightarrow> size_ok (buffer_write p x b))
    \<and> parts_after p b (rendered b x) (buffer_write p x b)
    \<and> (bf_in_memory b \<or> bf_size (buffer_write p x b) \<le> bf_capacity b \<or> bf_tag (buffer_write p x b) = 0)"
proof -
  let ?c = "fold (write_one p) (split_at NL x) b"
  from write_fold_parts [OF assms, of p "split_at NL x"]
  have c: "buffer_ok ?c" "same_style b ?c" "size_ok b \<longrightarrow> size_ok ?c" "parts_after p b (rendered b x) ?c"
    by (auto simp: rendered_def)
  show ?thesis
  proof (cases "bf_in_memory b")
    case True
    then show ?thesis using c by (simp add: buffer_write_def Let_def same_style_def)
  next
    case False
    with c(2) have m: "\<not> bf_in_memory ?c" "bf_capacity ?c = bf_capacity b" by (simp_all add: same_style_def)
    from flush_parts [OF c(1) m(1) le_refl] c m show ?thesis
      by (auto simp: buffer_write_def Let_def parts_after_def same_style_def)
  qed
qed

lemma mark_parts:
  assumes "buffer_ok b"
  shows "buffer_ok (set_tag_to_end b) \<and> same_style b (set_tag_to_end b) \<and> (size_ok b \<longrightarrow> size_ok (set_tag_to_end b))
    \<and> text_before (set_tag_to_end b) = text_before b @ text_after b \<and> text_after (set_tag_to_end b) = []"
proof -
  obtain us vs where *: "bf_lines b = us @ magic_tag # vs" "length us = bf_tag b" by (rule split_tag [OF assms])
  then show ?thesis using assms
    by (auto simp: set_tag_to_end_def erase_tag_def buffer_ok_def same_style_def size_ok_def held_def text_before_def
        text_after_def nth_append)
qed

interpretation buf: tagged_sink write_to_end write_to_tag set_tag_to_end buffer_ok text_before text_after rendered
  using write_parts mark_parts
  by unfold_locales
    (auto simp: write_to_end_def write_to_tag_def parts_after_def intro: rendered_cong)


lemma delimit_none [simp]: "delimit_line [] = (\<lambda>x. x)"
  by (simp add: delimit_line_def fun_eq_iff)

lemma buffer_command_parts:
  assumes "buffer_ok b"
  shows "buffer_ok (buffer_command c b) \<and> rendered (buffer_command c b) = rendered b
    \<and> bf_in_memory (buffer_command c b) = bf_in_memory b
    \<and> (text_before (buffer_command c b), text_after (buffer_command c b))
        = abstract_command (rendered b) c (text_before b, text_after b)"
proof -
  have "bf_in_memory (buffer_command c b) = bf_in_memory b"
    using assms write_parts [of b] mark_parts [of b]
    by (cases c) (auto simp: write_to_end_def write_to_tag_def same_style_def)
  with assms show ?thesis
    by (cases c) (simp_all add: buf.good_steps buf.render_steps buf.put_end_parts(2) buf.put_end_after buf.put_tag_parts
      buf.mark_parts)
qed

lemma buffer_commands_parts:
  assumes "buffer_ok b"
  shows "buffer_ok (fold buffer_command cs b) \<and> rendered (fold buffer_command cs b) = rendered b
    \<and> bf_in_memory (fold buffer_command cs b) = bf_in_memory b
    \<and> (text_before (fold buffer_command cs b), text_after (fold buffer_command cs b))
        = fold (abstract_command (rendered b)) cs (text_before b, text_after b)"
  using assms
proof (induction cs arbitrary: b)
  case (Cons c cs)
  with buffer_command_parts [of b c] show ?case by simp
qed simp

lemma put_good:
  assumes "os_open f" and "\<not> os_failed f"
  shows "os_open (fold os_put ls f) \<and> \<not> os_failed (fold os_put ls f) \<and> os_text (fold os_put ls f) = os_text f @ text_of ls"
  using assms by (induction ls arbitrary: f) (simp_all add: os_put_def)

lemma erase_tag_ok:
  "buffer_ok b \<Longrightarrow> erase_tag b = take (bf_tag b) (bf_lines b) @ drop (Suc (bf_tag b)) (bf_lines b)"
  by (simp add: erase_tag_def buffer_ok_def)

lemma close_text:
  assumes "buffer_ok b" and "\<not> bf_in_memory b"
  shows "os_text (buffer_close b) = text_before b @ text_after b"
proof -
  have "os_open (bf_stream b)" "\<not> os_failed (bf_stream b)" using assms by (auto simp: buffer_ok_def)
  then show ?thesis using assms put_good [of "bf_stream b" "erase_tag b"]
    by (simp add: buffer_close_def erase_tag_ok text_before_def text_after_def)
qed

section \<open>Properties\<close>

text \<open>Everything a client does to a buffer, and what it means for the text. The abstract buffer has the two parts of the text, the
  delimiters in the order in which they were pushed, and the innermost choice about blank lines first. A line stands
  between its delimiters, of which the one pushed last is the outermost.\<close>

datatype output_command = Put sink_command | Delimit string string | Undelimit | Skip_blank bool | Unskip

fun output_step :: "output_command \<Rightarrow> buffer \<Rightarrow> buffer" where
  "output_step (Put c) b = buffer_command c b"
| "output_step (Delimit l r) b = push_delimiter l r b"
| "output_step Undelimit b = pop_delimiter b"
| "output_step (Skip_blank x) b = push_skip_blank x b"
| "output_step Unskip b = pop_skip_blank b"

type_synonym text_state = "(string \<times> string) \<times> (string \<times> string) list \<times> bool list"

definition between :: "(string \<times> string) list \<Rightarrow> string \<Rightarrow> string" where
  "between ds l = concat (rev (map fst ds)) @ l @ concat (map snd ds)"

definition text_lines :: "(string \<times> string) list \<Rightarrow> bool list \<Rightarrow> string \<Rightarrow> string" where
  "text_lines ds ks x = text_of (map (between ds) (filter (\<lambda>l. l \<noteq> [] \<or> ks = [] \<or> \<not> hd ks) (split_at NL x)))"

fun abstract_output :: "output_command \<Rightarrow> text_state \<Rightarrow> text_state" where
  "abstract_output (Put c) (t, ds, ks) = (abstract_command (text_lines ds ks) c t, ds, ks)"
| "abstract_output (Delimit l r) (t, ds, ks) = (t, ds @ [(l, r)], ks)"
| "abstract_output Undelimit (t, ds, ks) = (t, butlast ds, ks)"
| "abstract_output (Skip_blank x) (t, ds, ks) = (t, ds, x # ks)"
| "abstract_output Unskip (t, ds, ks) = (t, ds, List.tl ks)"

definition text_state_of :: "buffer \<Rightarrow> text_state" where
  "text_state_of b =
     ((text_before b, text_after b), map (\<lambda>d. (dl_left d, dl_right d)) (bf_delimiters b), bf_skips b)"

lemma delimit_between: "delimit_line ds = between (map (\<lambda>d. (dl_left d, dl_right d)) ds)"
  unfolding fun_eq_iff
  by (induction ds rule: rev_induct) (simp_all add: delimit_line_def between_def)

lemma rendered_lines: "rendered b = text_lines (map (\<lambda>d. (dl_left d, dl_right d)) (bf_delimiters b)) (bf_skips b)"
proof
  fix x
  have "(\<not> skip_line b l) = (l \<noteq> [] \<or> bf_skips b = [] \<or> \<not> hd (bf_skips b))" for l
    by (cases "bf_skips b") (auto simp: skip_line_def)
  then show "rendered b x = text_lines (map (\<lambda>d. (dl_left d, dl_right d)) (bf_delimiters b)) (bf_skips b) x"
    by (simp add: rendered_def text_lines_def delimit_between)
qed

lemma command_style: "buffer_ok b \<Longrightarrow> same_style b (buffer_command c b)"
  using write_parts [of b] mark_parts [of b] by (cases c) (simp_all add: write_to_end_def write_to_tag_def)

lemma output_refines:
  assumes "buffer_ok b"
  shows "buffer_ok (output_step c b) \<and> bf_in_memory (output_step c b) = bf_in_memory b
    \<and> text_state_of (output_step c b) = abstract_output c (text_state_of b)"
proof (cases c)
  case (Put p)
  then show ?thesis using buffer_command_parts [OF assms, of p] command_style [OF assms, of p]
    by (simp add: text_state_of_def rendered_lines same_style_def)
qed (use assms in \<open>simp_all add: text_state_of_def buffer_ok_def text_before_def text_after_def push_delimiter_def
  pop_delimiter_def push_skip_blank_def pop_skip_blank_def map_butlast\<close>)

lemma output_run:
  assumes "buffer_ok b"
  shows "buffer_ok (fold output_step cs b) \<and> bf_in_memory (fold output_step cs b) = bf_in_memory b
    \<and> text_state_of (fold output_step cs b) = fold abstract_output cs (text_state_of b)"
  using assms
proof (induction cs arbitrary: b)
  case (Cons c cs)
  with output_refines [of b c] show ?case by simp
qed simp

text \<open>What was in the destination stays in front.\<close>

lemma abstract_output_prefix:
  "fold abstract_output cs ((t @ p, q), st) =
     (case fold abstract_output cs ((p, q), st) of ((p', q'), st') \<Rightarrow> ((t @ p', q'), st'))"
proof (induction cs arbitrary: p q st)
  case (Cons c cs)
  obtain ds ks where st: "st = (ds, ks)" by fastforce
  have "abstract_output c ((t @ p, q), st) = (case abstract_output c ((p, q), st) of ((p', q'), st') \<Rightarrow> ((t @ p', q'), st'))"
    unfolding st
  proof (cases c)
    case (Put x)
    then show "abstract_output c ((t @ p, q), ds, ks) = (case abstract_output c ((p, q), ds, ks) of ((p', q'), st') \<Rightarrow> ((t @ p', q'), st'))"
      by (cases x) simp_all
  qed simp_all
  then show ?case using Cons.IH by (simp split: prod.split)
qed simp

text \<open>C35: A buffer delivers what was written to it, in its delimiters. After any sequence of texts written to the end or at the tag, of
  resettings of the tag, of delimiters pushed and popped and of choices about blank lines pushed and popped, closing the buffer leaves the
  destination with what it held when it was opened, followed by the two parts of the abstract text: every text in its place and
  once, split at newlines, without its blank lines where they are skipped, and every line between the delimiters that were in
  force when it was written. The capacity, and with it how much was flushed early, does not show.\<close>

theorem buffer_delivers:
  assumes "buffer_open op fn cp = Inr b"
  shows "os_text (buffer_close (fold output_step cs b)) =
    os_text (op fn) @ (case fold abstract_output cs (([], []), [], []) of ((p, q), st) \<Rightarrow> p @ q)"
proof -
  have b: "buffer_ok b" "\<not> bf_in_memory b" "text_state_of b = ((os_text (op fn) @ [], []), [], [])"
    using assms by (auto simp: buffer_open_def Let_def buffer_ok_def text_state_of_def text_before_def text_after_def split: if_splits)
  obtain p q st where a: "fold abstract_output cs (([], []), [], []) = ((p, q), st)" by (metis prod.exhaust)
  have "fold abstract_output cs ((os_text (op fn) @ [], []), [], []) = ((os_text (op fn) @ p, q), st)"
    by (subst abstract_output_prefix) (simp only: a prod.case)
  then have "text_state_of (fold output_step cs b) = ((os_text (op fn) @ p, q), st)" using output_run [OF b(1), of cs] b(3) by simp
  moreover have "os_text (buffer_close (fold output_step cs b)) = text_before (fold output_step cs b) @ text_after (fold output_step cs b)"
    using output_run [OF b(1), of cs] b(2) by (intro close_text) simp_all
  ultimately show ?thesis using a by (simp add: text_state_of_def)
qed

definition example_open :: "string \<Rightarrow> ofstream" where
  "example_open fn = \<lparr>os_open = True, os_failed = False, os_text = []\<rparr>"

theorem buffer_delivers_witness:
  "\<exists>b. buffer_open example_open ''f'' 2 = Inr b
     \<and> os_text (buffer_close (fold output_step [Put (To_end ''ab''), Put Mark, Delimit ''['' '']'', Delimit ''{'' ''}'', Put (To_end ''c''),
          Undelimit, Put (To_tag ''d'')] b))
         = ''ab'' @ NL # ''[d]'' @ NL # ''{[c]}'' @ [NL]"
proof -
  obtain b where b: "buffer_open example_open ''f'' 2 = Inr b"
    by (auto simp: buffer_open_def example_open_def Let_def)
  have "fold abstract_output [Put (To_end ''ab''), Put Mark, Delimit ''['' '']'', Delimit ''{'' ''}'', Put (To_end ''c''),
      Undelimit, Put (To_tag ''d'')] (([], []), [], []) = ((''ab'' @ NL # ''[d]'' @ [NL], ''{[c]}'' @ [NL]), [(''['', '']'')], [])"
    by code_simp
  with buffer_delivers [OF b, of "[Put (To_end ''ab''), Put Mark, Delimit ''['' '']'', Delimit ''{'' ''}'', Put (To_end ''c''),
          Undelimit, Put (To_tag ''d'')]"] b
  show ?thesis by (simp add: example_open_def)
qed

text \<open>The buffer keeps account of what it holds, and a file buffer holds no more than its capacity unless its tag is in
  front. After every command of a sequence that starts with a fresh buffer the size is the number of
  characters held, modulo \<open>2\<^sup>32\<close>; after a command that writes, either the size is within the capacity or no line is
  left before the tag.\<close>

theorem buffer_size_bounded:
  assumes "buffer_open op fn cp = Inr b"
  shows "bf_size (fold buffer_command cs b) = of_nat (held (fold buffer_command cs b))
    \<and> (c \<noteq> Mark \<longrightarrow> bf_size (buffer_command c (fold buffer_command cs b)) \<le> cp
         \<or> bf_tag (buffer_command c (fold buffer_command cs b)) = 0)"
proof -
  have b: "buffer_ok b" "\<not> bf_in_memory b" "size_ok b" "bf_capacity b = cp"
    using assms by (auto simp: buffer_open_def Let_def buffer_ok_def size_ok_def held_def split: if_splits)
  have step: "buffer_ok (buffer_command c b) \<and> same_style b (buffer_command c b) \<and> size_ok (buffer_command c b)"
    if "buffer_ok b" "size_ok b" for c b
    using that write_parts [of b] mark_parts [of b] by (cases c) (simp_all add: write_to_end_def write_to_tag_def)
  have run: "buffer_ok (fold buffer_command cs b) \<and> same_style b (fold buffer_command cs b) \<and> size_ok (fold buffer_command cs b)"
    using b(1,3)
  proof (induction cs arbitrary: b)
    case (Cons c cs)
    with step [of b c] show ?case by (auto intro: same_style_trans)
  qed (simp add: same_style_def)
  moreover have "bf_size (buffer_command c (fold buffer_command cs b)) \<le> cp
           \<or> bf_tag (buffer_command c (fold buffer_command cs b)) = 0" if "c \<noteq> Mark"
    using that run b write_parts [of "fold buffer_command cs b"]
    by (cases c) (auto simp: write_to_end_def write_to_tag_def same_style_def)
  ultimately show ?thesis by (simp add: size_ok_def)
qed

theorem buffer_size_bounded_witness:
  "\<exists>b. buffer_open example_open ''f'' 2 = Inr b
     \<and> bf_size (fold buffer_command [To_end ''ab'', Mark] b) = of_nat (held (fold buffer_command [To_end ''ab'', Mark] b))"
proof -
  obtain b where b: "buffer_open example_open ''f'' 2 = Inr b"
    by (auto simp: buffer_open_def example_open_def Let_def)
  with buffer_size_bounded [OF b, of "[To_end ''ab'', Mark]" Mark] show ?thesis by blast
qed

end
