(* ===== verification/Temporary_Pool.thy ===== *)
theory Temporary_Pool
  imports Lambdas Buffer Filestack Macro_Agent_Facts
begin

text \<open>
  The rule \<open>TEMP_POOL\<close>, \<open>backends/shared/temporary_pool.{h,cpp}\<close>: it marks a place in the output file, and the
  temporaries that expressions and lambdas need are written there when the next pool is opened or the input ends.
  The macro agent on top of the output stack, to which the rule hands the lines of the pool, is an argument: the
  action \<open>app\<close> of a line. The rule's services, common subexpressions, lambdas and the output stack, are the hidden
  state that the macro engine passes to its rules.
\<close>

section \<open>State\<close>

record temp_pool =
  tp_templ :: string
  tp_tag_set :: bool
  tp_unique :: u32

definition temp_pool_new :: "string \<Rightarrow> temp_pool" where
  "temp_pool_new t = \<lparr>tp_templ = t, tp_tag_set = False, tp_unique = 0\<rparr>"

definition default_pool_template :: string where
  "default_pool_template = ''auto $1 = $2;''"

text \<open>The services of the rules of one translated file. On the stack, files hold their buffers; the agent of a file is
  not stored with it.\<close>

record 'x services =
  be_stack :: "(buffer, unit) output_stack"
  be_cse :: cse
  be_lambdas :: lambda_manager
  be_pool :: temp_pool
  be_extra :: 'x

type_synonym 'x session = "'x services world"

text \<open>What the rule takes from its package: how expressions, conditions and comments are printed.\<close>

record pool_config =
  pc_cse :: cse_config
  pc_relation :: "relation \<Rightarrow> string"
  pc_printer :: C_style_printer

definition update_services :: "('x services \<Rightarrow> 'x services) \<Rightarrow> 'x session \<Rightarrow> 'x session" where
  "update_services f w = w\<lparr>w_user := f (w_user w)\<rparr>"

text \<open>An operation of the buffer on top of the stack, which is updated in place; the stack is not empty.\<close>

definition on_top_buffer :: "(buffer \<Rightarrow> buffer) \<Rightarrow> 'x session \<Rightarrow> 'x session" where
  "on_top_buffer f =
     update_services (\<lambda>b. b\<lparr>be_stack := (case be_stack b of [] \<Rightarrow> [] | i # is' \<Rightarrow> i\<lparr>out_buf := f (out_buf i)\<rparr> # is')\<rparr>)"

section \<open>The template of a pool\<close>

text \<open>Positions in strings are 64-bit integers; a search that fails gives the largest one.\<close>

definition npos :: nat where
  "npos = 2 ^ 64 - 1"

definition position_of :: "nat option \<Rightarrow> nat" where
  "position_of p = (case p of None \<Rightarrow> npos | Some k \<Rightarrow> k)"

definition size_add :: "nat \<Rightarrow> nat \<Rightarrow> nat" where
  "size_add a b = (a + b) mod 2 ^ 64"

definition size_sub :: "nat \<Rightarrow> nat \<Rightarrow> nat" where
  "size_sub a b = (a + (2 ^ 64 - b)) mod 2 ^ 64"

definition substr :: "string \<Rightarrow> nat \<Rightarrow> nat \<Rightarrow> exn + string" where
  "substr s p n = (if length s < p then Inl (Out_of_range ''basic_string::substr'') else Inr (take n (drop p s)))"

text \<open>The text before, between and after the two places, cut before the result of the searches is looked at.\<close>

definition cut_template :: "string \<Rightarrow> exn + string \<times> string \<times> string" where
  "cut_template templ =
     (let lhs = position_of (str_find ''$1'' templ 0); rhs = position_of (str_find ''$2'' templ 0) in
      bindE (substr templ 0 lhs) (\<lambda>left.
        bindE (substr templ (size_add lhs 2) (size_sub (size_sub rhs lhs) 2)) (\<lambda>mid.
          bindE (substr templ (size_add rhs 2) npos) (\<lambda>right. Inr (left, mid, right)))))"

section \<open>Operations\<close>

text \<open>The empty lines that the agent returns for a temporary are dropped.\<close>

definition write_temporary :: "(string \<Rightarrow> ('x session, string list option) act) \<Rightarrow> string \<Rightarrow> ('x session, unit) act" where
  "write_temporary app temp =
     bindA (app temp) (\<lambda>ls w.
       (Inr (), fold (\<lambda>l. if l \<noteq> [] then on_top_buffer (write_to_tag l) else id) (case ls of None \<Rightarrow> [] | Some ls \<Rightarrow> ls) w))"

primrec write_temporaries ::
  "(string \<Rightarrow> ('x session, string list option) act) \<Rightarrow> string list \<Rightarrow> ('x session, unit) act" where
  "write_temporaries app [] = returnA ()"
| "write_temporaries app (t # ts) = bindA (write_temporary app t) (\<lambda>_. write_temporaries app ts)"

definition pool_label :: "string \<Rightarrow> u32 \<Rightarrow> string" where
  "pool_label text n = text @ '' (sequence='' @ u32_string n @ '')''"

text \<open>The searches are checked, and reported, before the template is cut.\<close>

definition check_template :: "string \<Rightarrow> 'x session \<Rightarrow> bool \<times> 'x session" where
  "check_template templ w =
     (let w1 = (if str_find ''$1'' templ 0 = None then logA Sev_error ''ERROR_MISSING_LHS'' templ (0, 0) w else w);
          w2 = (if str_find ''$2'' templ 0 = None then logA Sev_error ''ERROR_MISSING_RHS'' templ (0, 0) w1 else w1)
      in (str_find ''$1'' templ 0 \<noteq> None \<and> str_find ''$2'' templ 0 \<noteq> None, w2))"

text \<open>The temporaries of expressions and of lambdas, taken before any is written.\<close>

definition pool_temporaries :: "pool_config \<Rightarrow> string \<times> string \<times> string \<Rightarrow> 'x session \<Rightarrow> string list \<times> 'x session" where
  "pool_temporaries pc parts w =
     (case parts of (left, mid, right) \<Rightarrow>
        (case lambda_temporaries (pc_cse pc) (pc_relation pc) (pc_printer pc) left mid right (be_lambdas (w_user w)) of
           (ls, m) \<Rightarrow> (cse_temporaries left mid right (be_cse (w_user w)) @ ls, update_services (\<lambda>b. b\<lparr>be_lambdas := m\<rparr>) w)))"

definition open_pool :: "pool_config \<Rightarrow> 'x session \<Rightarrow> 'x session" where
  "open_pool pc w =
     (let pool = be_pool (w_user w) in
      on_top_buffer (write_to_tag (print_comment (pc_printer pc) (pool_label ''BEGIN TEMPORARY POOL'' (tp_unique pool))))
        (update_services (\<lambda>b. b\<lparr>be_pool := pool\<lparr>tp_unique := tp_unique pool + 1\<rparr>\<rparr>) w))"

definition clear_workers :: "'x session \<Rightarrow> 'x session" where
  "clear_workers =
     update_services (\<lambda>b. b\<lparr>be_cse := cse_clear (be_cse b), be_lambdas := lambda_clear (be_lambdas b)\<rparr>)"

definition deposit_temporaries ::
  "pool_config \<Rightarrow> (string \<Rightarrow> ('x session, string list option) act) \<Rightarrow> ('x session, unit) act" where
  "deposit_temporaries pc app w =
     (let templ = tp_templ (be_pool (w_user w)) in
      if \<not> tp_tag_set (be_pool (w_user w)) then (Inr (), w)
      else (case top_buffer (be_stack (w_user w)) of
          Inl e \<Rightarrow> (Inl e, w)
        | Inr _ \<Rightarrow>
            (case check_template templ w of (ok, w1) \<Rightarrow>
               (case cut_template templ of
                  Inl e \<Rightarrow> (Inl e, w1)
                | Inr parts \<Rightarrow>
                    if \<not> ok then (Inr (), w1)
                    else (case pool_temporaries pc parts w1 of (temps, w2) \<Rightarrow>
                      bindA (write_temporaries app temps) (\<lambda>_ w4. (Inr (), clear_workers w4))
                        (if temps \<noteq> [] then open_pool pc w2 else w2))))))"

definition pool_end_of_input ::
  "pool_config \<Rightarrow> (string \<Rightarrow> ('x session, string list option) act) \<Rightarrow> ('x session, unit) act" where
  "pool_end_of_input pc app w =
     (if \<not> tp_tag_set (be_pool (w_user w)) then (Inr (), logA Sev_warn ''WARNING_TEMPORARY_NO_TAG_SET'' [] (0, 0) w)
      else deposit_temporaries pc app w)"

definition pool_evaluate ::
  "pool_config \<Rightarrow> (string \<Rightarrow> ('x session, string list option) act) \<Rightarrow> macro_argument_list \<Rightarrow> ('x session, string) act" where
  "pool_evaluate pc app args w =
     (case top_buffer (be_stack (w_user w)) of
        Inl e \<Rightarrow> (Inl e, w)
      | Inr _ \<Rightarrow>
          bindA (if tp_tag_set (be_pool (w_user w)) then deposit_temporaries pc app else returnA ()) (\<lambda>_ w1.
            (let w2 = on_top_buffer set_tag_to_end
                   (update_services (\<lambda>b. b\<lparr>be_pool := (be_pool b)\<lparr>tp_templ := fst (args ! 0), tp_tag_set := True\<rparr>\<rparr>) w1)
             in (Inr (print_comment (pc_printer pc)
                       (pool_label ''END TEMPORARY POOL'' (tp_unique (be_pool (w_user w2))))), w2))) w)"

definition temp_pool_rule :: "pool_config \<Rightarrow> (string \<Rightarrow> ('x session, string list option) act) \<Rightarrow> 'x services simple_rule" where
  "temp_pool_rule pc app = \<lparr>sr_name = ''TEMP_POOL'', sr_args = 1, sr_evaluate = pool_evaluate pc app\<rparr>"

section \<open>What a pool writes\<close>

definition the_buffer :: "'x session \<Rightarrow> buffer" where
  "the_buffer w = out_buf (hd (be_stack (w_user w)))"

text \<open>While output is enabled the agent returns the lines \<open>lines t\<close> for each of the temporaries, may write to the log, and
  leaves the services and the output switch alone.\<close>

definition quiet_agent ::
  "(string \<Rightarrow> ('x session, string list option) act) \<Rightarrow> (string \<Rightarrow> string list) \<Rightarrow> string list \<Rightarrow> bool" where
  "quiet_agent app lines ts \<longleftrightarrow>
     (\<forall>t \<in> set ts. \<forall>w. w_enabled w \<longrightarrow> (\<exists>w'. app t w = (Inr (Some (lines t)), w') \<and> w_user w' = w_user w \<and> w_enabled w'))"

definition kept_lines :: "(string \<Rightarrow> string list) \<Rightarrow> string list \<Rightarrow> string list" where
  "kept_lines lines ts = filter (\<lambda>l. l \<noteq> []) (concat (map lines ts))"

lemma on_top_buffer_comp: "on_top_buffer f (on_top_buffer g w) = on_top_buffer (f \<circ> g) w"
  by (cases "be_stack (w_user w)") (simp_all add: on_top_buffer_def update_services_def)

lemma on_top_buffer_id: "on_top_buffer (\<lambda>x. x) w = w" "on_top_buffer id w = w"
  by (cases "be_stack (w_user w)"; simp add: on_top_buffer_def update_services_def)+

lemma on_top_buffer_services [simp]:
  "be_cse (w_user (on_top_buffer f w)) = be_cse (w_user w)" "be_lambdas (w_user (on_top_buffer f w)) = be_lambdas (w_user w)"
  "be_pool (w_user (on_top_buffer f w)) = be_pool (w_user w)" "be_extra (w_user (on_top_buffer f w)) = be_extra (w_user w)"
  "be_stack (w_user (on_top_buffer f w)) = [] \<longleftrightarrow> be_stack (w_user w) = []"
  by (simp_all add: on_top_buffer_def update_services_def split: list.splits)

lemma enabled_unchanged [simp]:
  "w_enabled (on_top_buffer f w) = w_enabled w" "w_enabled (update_services g w) = w_enabled w"
  "w_enabled (open_pool pc w) = w_enabled w" "w_enabled (clear_workers w) = w_enabled w"
  by (simp_all add: on_top_buffer_def update_services_def open_pool_def clear_workers_def Let_def)

lemma the_buffer_on_top [simp]: "be_stack (w_user w) \<noteq> [] \<Longrightarrow> the_buffer (on_top_buffer f w) = f (the_buffer w)"
  by (cases "be_stack (w_user w)") (simp_all add: the_buffer_def on_top_buffer_def update_services_def)

lemma on_top_buffer_user:
  "w_user w = w_user w' \<Longrightarrow> w_user (on_top_buffer f w) = w_user (on_top_buffer f w')"
  by (simp add: on_top_buffer_def update_services_def)

lemma fold_on_top:
  "fold (\<lambda>l. if l \<noteq> [] then on_top_buffer (write_to_tag l) else id) ls w
   = on_top_buffer (fold write_to_tag (filter (\<lambda>l. l \<noteq> []) ls)) w"
  by (induction ls arbitrary: w) (simp_all add: on_top_buffer_id on_top_buffer_comp id_def comp_def)

lemma write_temporaries_quiet:
  assumes "quiet_agent app lines ts" and "w_enabled w"
  shows "\<exists>w'. write_temporaries app ts w = (Inr (), w') \<and> w_enabled w'
    \<and> w_user w' = w_user (on_top_buffer (fold write_to_tag (kept_lines lines ts)) w)"
  using assms
proof (induction ts arbitrary: w)
  case Nil
  then show ?case by (simp add: returnA_def kept_lines_def on_top_buffer_id)
next
  case (Cons t ts)
  obtain w1 where w1: "app t w = (Inr (Some (lines t)), w1)" "w_user w1 = w_user w" "w_enabled w1"
    using Cons.prems unfolding quiet_agent_def by (meson list.set_intros(1))
  let ?k = "filter (\<lambda>l. l \<noteq> []) (lines t)"
  have s: "write_temporary app t w = (Inr (), on_top_buffer (fold write_to_tag ?k) w1)"
    by (simp add: write_temporary_def bindA_def w1(1) fold_on_top)
  have "quiet_agent app lines ts" using Cons.prems(1) by (simp add: quiet_agent_def)
  with Cons.IH [of "on_top_buffer (fold write_to_tag ?k) w1"] w1(3) obtain w' where
    w': "write_temporaries app ts (on_top_buffer (fold write_to_tag ?k) w1) = (Inr (), w')" "w_enabled w'"
    "w_user w' = w_user (on_top_buffer (fold write_to_tag (kept_lines lines ts)) (on_top_buffer (fold write_to_tag ?k) w1))"
    by auto
  have "w_user w' = w_user (on_top_buffer (fold write_to_tag (kept_lines lines (t # ts))) w)"
    using w'(3) on_top_buffer_user [OF w1(2)] by (simp add: on_top_buffer_comp kept_lines_def comp_def)
  with s w'(1,2) show ?case by (simp add: bindA_def)
qed

lemma update_services_user [simp]: "w_user (update_services f w) = f (w_user w)"
  by (simp add: update_services_def)

lemma logA_services [simp]: "w_user (logA sev m x ctx w) = w_user w"
  by (simp add: logA_def)

lemma top_buffer_nonempty: "be_stack (w_user w) \<noteq> [] \<Longrightarrow> top_buffer (be_stack (w_user w)) = Inr (the_buffer w)"
  by (cases "be_stack (w_user w)") (simp_all add: top_buffer_def the_buffer_def)

text \<open>What the open pool prints at its tag.\<close>

definition pool_text :: "pool_config \<Rightarrow> (string \<Rightarrow> string list) \<Rightarrow> u32 \<Rightarrow> string list \<Rightarrow> string list" where
  "pool_text pc lines n temps =
     (if temps = [] then [] else [print_comment (pc_printer pc) (pool_label ''BEGIN TEMPORARY POOL'' n)])
     @ kept_lines lines temps"

lemma deposit_result:
  assumes "tp_tag_set (be_pool (w_user w))" and "be_stack (w_user w) \<noteq> []"
    and "fst (check_template (tp_templ (be_pool (w_user w))) w)" and "cut_template (tp_templ (be_pool (w_user w))) = Inr parts"
    and "quiet_agent app lines temps" and "fst (pool_temporaries pc parts w) = temps" and "w_enabled w"
  shows "\<exists>w' m. deposit_temporaries pc app w = (Inr (), w') \<and> w_enabled w'
    \<and> w_user w' = (w_user (on_top_buffer (fold write_to_tag (pool_text pc lines (tp_unique (be_pool (w_user w))) temps)) w))
        \<lparr>be_cse := cse_clear (be_cse (w_user w)), be_lambdas := lambda_clear m,
         be_pool := (be_pool (w_user w))\<lparr>tp_unique := tp_unique (be_pool (w_user w)) + (if temps = [] then 0 else 1)\<rparr>\<rparr>"
proof -
  obtain l mid r where parts: "parts = (l, mid, r)" by (cases parts)
  have c: "check_template (tp_templ (be_pool (w_user w))) w = (True, w)"
    using assms(3) by (auto simp: check_template_def Let_def)
  obtain ls m where lt: "lambda_temporaries (pc_cse pc) (pc_relation pc) (pc_printer pc) l mid r (be_lambdas (w_user w)) = (ls, m)"
    by fastforce
  let ?w2 = "update_services (\<lambda>b. b\<lparr>be_lambdas := m\<rparr>) w"
  have pt: "pool_temporaries pc parts w = (temps, ?w2)" using assms(6) by (auto simp: pool_temporaries_def parts lt)
  let ?w3 = "if temps \<noteq> [] then open_pool pc ?w2 else ?w2"
  obtain w4 where w4: "write_temporaries app temps ?w3 = (Inr (), w4)"
    "w_user w4 = w_user (on_top_buffer (fold write_to_tag (kept_lines lines temps)) ?w3)" "w_enabled w4"
  proof -
    have "w_enabled ?w3" using assms(7) by simp
    with write_temporaries_quiet [OF assms(5)] show ?thesis using that by blast
  qed
  have "deposit_temporaries pc app w = (Inr (), clear_workers w4)"
    using assms(1,4) by (simp add: deposit_temporaries_def Let_def top_buffer_nonempty [OF assms(2)] c pt bindA_def w4(1))
  moreover have "w_enabled (clear_workers w4)" using w4(3) by simp
  moreover have "w_user (clear_workers w4) =
      (w_user (on_top_buffer (fold write_to_tag (pool_text pc lines (tp_unique (be_pool (w_user w))) temps)) w))
        \<lparr>be_cse := cse_clear (be_cse (w_user w)), be_lambdas := lambda_clear m,
         be_pool := (be_pool (w_user w))\<lparr>tp_unique := tp_unique (be_pool (w_user w)) + (if temps = [] then 0 else 1)\<rparr>\<rparr>"
    using w4(2) assms(2)
    by (cases "be_stack (w_user w)")
      (auto simp: clear_workers_def open_pool_def Let_def pool_text_def kept_lines_def on_top_buffer_def update_services_def)
  ultimately show ?thesis by blast
qed

lemma cleared_temporaries:
  assumes "be_cse (w_user w) = cse_clear c" and "be_lambdas (w_user w) = lambda_clear m"
  shows "fst (pool_temporaries pc parts w) = []"
  using assms
  by (simp add: pool_temporaries_def lambda_temporaries_def cse_temporaries_def cse_clear_def lambda_clear_def split: prod.split)

text \<open>Temporaries are written where their pool was opened, and once. While the rules leave the pool alone, depositing adds to
  the part of the output before the tag a comment with the number of the pool and then the lines that the agent makes of every temporary,
  those of expressions before those of lambdas; what follows the tag does not move. When there is no temporary, nothing is
  written. Depositing again writes nothing.\<close>

theorem pool_deposits_temporaries:
  assumes "tp_tag_set (be_pool (w_user w))" and "be_stack (w_user w) \<noteq> []" and "buffer_ok (the_buffer w)"
    and "fst (check_template (tp_templ (be_pool (w_user w))) w)" and "cut_template (tp_templ (be_pool (w_user w))) = Inr parts"
    and "w_enabled w" and "quiet_agent app lines (fst (pool_temporaries pc parts w))"
  shows "\<exists>w' w2. deposit_temporaries pc app w = (Inr (), w')
    \<and> text_before (the_buffer w') = text_before (the_buffer w) @ concat (map (rendered (the_buffer w))
        (pool_text pc lines (tp_unique (be_pool (w_user w))) (fst (pool_temporaries pc parts w))))
    \<and> text_after (the_buffer w') = text_after (the_buffer w)
    \<and> deposit_temporaries pc app w' = (Inr (), w2) \<and> the_buffer w2 = the_buffer w'"
proof -
  let ?out = "pool_text pc lines (tp_unique (be_pool (w_user w))) (fst (pool_temporaries pc parts w))"
  obtain w' m where w': "deposit_temporaries pc app w = (Inr (), w')" and en: "w_enabled w'" and w'2:
    "w_user w' = (w_user (on_top_buffer (fold write_to_tag ?out) w))
        \<lparr>be_cse := cse_clear (be_cse (w_user w)), be_lambdas := lambda_clear m,
         be_pool := (be_pool (w_user w))\<lparr>tp_unique := tp_unique (be_pool (w_user w))
           + (if fst (pool_temporaries pc parts w) = [] then 0 else 1)\<rparr>\<rparr>"
    using deposit_result [OF assms(1,2,4,5,7) refl assms(6)] by blast
  note w' = w' w'2
  have b: "the_buffer w' = fold write_to_tag ?out (the_buffer w)"
    using w'(2) the_buffer_on_top [OF assms(2), of "fold write_to_tag ?out"] by (simp add: the_buffer_def)
  have n: "be_stack (w_user w') \<noteq> []" using w'(2) assms(2) on_top_buffer_services(5) [of _ w] by simp
  have p: "tp_tag_set (be_pool (w_user w'))" "tp_templ (be_pool (w_user w')) = tp_templ (be_pool (w_user w))"
    using w'(2) assms(1) by simp_all
  have c: "fst (check_template (tp_templ (be_pool (w_user w'))) w')" using assms(4) p(2) by (simp add: check_template_def Let_def)
  have none: "fst (pool_temporaries pc parts w') = []" using w'(2) by (intro cleared_temporaries) simp_all
  have "cut_template (tp_templ (be_pool (w_user w'))) = Inr parts" using assms(5) p(2) by simp
  moreover have q: "quiet_agent app lines []" by (simp add: quiet_agent_def)
  ultimately obtain w2 where w2: "deposit_temporaries pc app w' = (Inr (), w2)"
    "be_stack (w_user w2) = be_stack (w_user w')"
    using deposit_result [OF p(1) n c _ q none en] by (auto simp: pool_text_def kept_lines_def on_top_buffer_id)
  then have "the_buffer w2 = the_buffer w'" by (simp add: the_buffer_def)
  with w'(1) w2(1) b buf.put_tag_list [OF assms(3), of ?out] show ?thesis by auto
qed

section \<open>The macro agent of a file\<close>

text \<open>A line of text and indices for which the agent writes \<open>out\<close>, whatever was reported before it.\<close>

definition plain_template_line :: "'u agent \<Rightarrow> string \<Rightarrow> string list \<Rightarrow> bool" where
  "plain_template_line ag line out \<longleftrightarrow>
     (\<exists>psL psR. let sp = split_line line (ma_split_equal ag) (ma_split_sum_equal ag); px = tz_prefix (ma_tokenizer ag) in
        (\<forall>w. plain_line ag w psL \<and> plain_line ag w psR) \<and> ss_left sp = line_print px psL \<and> ss_right sp = line_print px psR
        \<and> plain_split sp psL psR \<and> line_size ag psL psR < 2 ^ 32 \<and> out = plain_output ag sp psL psR)"

lemma plain_line_agent:
  assumes "tz_prefix (ma_tokenizer ag) \<noteq> []" and "1 < ma_recursion_max ag" and "w_enabled w" and "plain_template_line ag line out"
  shows "\<exists>n w'. logs_only w w' \<and> agent_apply ag line r (0, w) = (Inr (Some out, n), (0, w'))"
proof -
  let ?sp = "split_line line (ma_split_equal ag) (ma_split_sum_equal ag)" and ?px = "tz_prefix (ma_tokenizer ag)"
  obtain psL psR where ps: "\<And>w. plain_line ag w psL" "\<And>w. plain_line ag w psR" "ss_left ?sp = line_print ?px psL"
    "ss_right ?sp = line_print ?px psR" "plain_split ?sp psL psR" "line_size ag psL psR < 2 ^ 32" "out = plain_output ag ?sp psL psR"
    using assms(4) unfolding plain_template_line_def Let_def by blast
  obtain n w' where "logs_only w w'" "apply_line ag line r w = (Inr (out, n), w')"
    using plain_line_applied [OF assms(1,3) ps(1,2,3,4) refl ps(5,6)] ps(7) by blast
  then show ?thesis using assms(2) by (simp add: agent_apply_def Let_def)
qed

text \<open>The agent as it serves the pool at the end of the input: no line is being processed.\<close>

definition agent_lines :: "'x services agent \<Rightarrow> string \<Rightarrow> ('x session, string list option) act" where
  "agent_lines ag t w =
     (case agent_apply ag t 0 (0, w) of
        (Inl e, (d, w')) \<Rightarrow> (Inl e, w')
      | (Inr (ls, n), (d, w')) \<Rightarrow> (Inr ls, w'))"

lemma agent_quiet:
  assumes "tz_prefix (ma_tokenizer ag) \<noteq> []" and "1 < ma_recursion_max ag" and "\<forall>t \<in> set ts. plain_template_line ag t (lines t)"
  shows "quiet_agent (agent_lines ag) lines ts"
  unfolding quiet_agent_def
proof (intro ballI allI impI)
  fix t and w :: "'a session" assume "t \<in> set ts" "w_enabled w"
  with assms obtain n w' where "logs_only w w'" "agent_apply ag t 0 (0, w) = (Inr (Some (lines t), n), (0, w'))"
    using plain_line_agent by blast
  then show "\<exists>w'. agent_lines ag t w = (Inr (Some (lines t)), w') \<and> w_user w' = w_user w \<and> w_enabled w'"
    using \<open>w_enabled w\<close> by (auto simp: agent_lines_def)
qed

text \<open>C38: A pool precedes what follows its macro. The first \<open>TEMP_POOL\<close> of a file opens its pool at the end of what was written so far.
  Whatever lines are then written to the end of the file, while no other pool is opened, and whatever temporaries they need: if output is enabled at the end of
  the input and the macro agent of the file finds in the temporaries only text and index literals, then the end of the input puts between the two
  a comment with the number of the pool and the lines that the agent makes of the temporaries, those of expressions first, or nothing when
  there are none.\<close>

theorem pool_precedes_uses:
  assumes "\<not> tp_tag_set (be_pool (w_user w))" and "be_stack (w_user w) \<noteq> []" and "buffer_ok (the_buffer w)"
    and "pool_evaluate pc (agent_lines ag) [(templ, ctx)] w = (Inr label, w1)"
    and "be_stack (w_user w2) \<noteq> []" and "the_buffer w2 = fold write_to_end ys (the_buffer w1)"
    and "be_pool (w_user w2) = be_pool (w_user w1)" and "w_enabled w2"
    and "fst (check_template templ w2)" and "cut_template templ = Inr parts"
    and "tz_prefix (ma_tokenizer ag) \<noteq> []" and "1 < ma_recursion_max ag"
    and "\<forall>t \<in> set (fst (pool_temporaries pc parts w2)). plain_template_line ag t (lines t)"
  shows "\<exists>w3. pool_end_of_input pc (agent_lines ag) w2 = (Inr (), w3)
    \<and> text_before (the_buffer w3) @ text_after (the_buffer w3) = text_before (the_buffer w) @ text_after (the_buffer w)
        @ concat (map (rendered (the_buffer w))
            (pool_text pc lines (tp_unique (be_pool (w_user w))) (fst (pool_temporaries pc parts w2)))
            @ map (rendered (the_buffer w)) ys)"
proof -
  let ?p = "(be_pool (w_user w))\<lparr>tp_templ := templ, tp_tag_set := True\<rparr>"
  have w1: "w1 = on_top_buffer set_tag_to_end (update_services (\<lambda>b. b\<lparr>be_pool := ?p\<rparr>) w)"
    using assms(1,4) top_buffer_nonempty [OF assms(2)]
    by (auto simp: pool_evaluate_def bindA_def returnA_def Let_def update_services_def)
  have b1: "the_buffer w1 = set_tag_to_end (the_buffer w)" "be_pool (w_user w1) = ?p"
    unfolding w1 using assms(2) by (simp_all) (simp add: the_buffer_def)
  have p2: "be_pool (w_user w2) = ?p" using assms(7) b1(2) by simp
  let ?ps = "pool_text pc lines (tp_unique (be_pool (w_user w))) (fst (pool_temporaries pc parts w2))"
  have m: "buffer_ok (the_buffer w1)" "rendered (the_buffer w1) = rendered (the_buffer w)"
    "text_before (the_buffer w1) = text_before (the_buffer w) @ text_after (the_buffer w)" "text_after (the_buffer w1) = []"
    unfolding b1(1) using assms(3) buf.good_steps(3) buf.render_steps(3) buf.mark_parts by simp_all
  have e: "buffer_ok (the_buffer w2)" "rendered (the_buffer w2) = rendered (the_buffer w)"
    "text_before (the_buffer w2) = text_before (the_buffer w) @ text_after (the_buffer w)"
    "text_after (the_buffer w2) = concat (map (rendered (the_buffer w)) ys)"
    unfolding assms(6) using buf.put_end_list [OF m(1), of ys] m by simp_all
  obtain w3 where w3: "deposit_temporaries pc (agent_lines ag) w2 = (Inr (), w3)"
    "w_user w3 = (w_user (on_top_buffer (fold write_to_tag ?ps) w2))\<lparr>be_cse := be_cse (w_user w3),
       be_lambdas := be_lambdas (w_user w3), be_pool := be_pool (w_user w3)\<rparr>"
    using deposit_result [of w2 parts "agent_lines ag" lines _ pc, OF _ assms(5) _ _ agent_quiet [OF assms(11-13)] refl assms(8)]
      assms(9,10) p2 by auto
  have "the_buffer w3 = fold write_to_tag ?ps (the_buffer w2)"
  proof -
    have "be_stack (w_user w3) = be_stack (w_user (on_top_buffer (fold write_to_tag ?ps) w2))" by (subst w3(2)) simp
    with the_buffer_on_top [OF assms(5), of "fold write_to_tag ?ps"] show ?thesis by (simp add: the_buffer_def)
  qed
  moreover have "pool_end_of_input pc (agent_lines ag) w2 = (Inr (), w3)" using w3(1) p2 by (simp add: pool_end_of_input_def)
  ultimately show ?thesis using buf.put_tag_list [OF e(1), of ?ps] e by auto
qed

text \<open>The order of the two places is not checked, and nothing is said of an empty template before it is cut.\<close>

lemma swapped_template_accepted:
  "cut_template ''$2 = $1;'' = Inr (''$2 = '', '';'', '' = $1;'') \<and> fst (check_template ''$2 = $1;'' w)
   \<and> cut_template [] = Inl (Out_of_range ''basic_string::substr'')"
proof -
  have "str_find ''$1'' ''$2 = $1;'' 0 = Some 5" "str_find ''$2'' ''$2 = $1;'' 0 = Some 0"
    "str_find ''$1'' [] 0 = None" "str_find ''$2'' [] 0 = None" by code_simp+
  then show ?thesis
    by (simp add: check_template_def Let_def cut_template_def position_of_def size_add_def size_sub_def substr_def npos_def)
qed

definition example_pool_config :: pool_config where
  "example_pool_config = \<lparr>pc_cse = example_config, pc_relation = (\<lambda>r. []), pc_printer = default_printer\<rparr>"

definition example_app :: "string \<Rightarrow> (unit session, string list option) act" where
  "example_app t w = (Inr (Some [butlast t]), w)"

text \<open>A file with one line and an open pool, in which a sum is used.\<close>

definition example_session :: "bool \<Rightarrow> cse \<Rightarrow> buffer \<Rightarrow> unit session" where
  "example_session ready c b =
     \<lparr>w_log = [], w_enabled = True,
      w_user = \<lparr>be_stack = output_push ''core.h'' b () process_core [],
        be_cse = c, be_lambdas = lambda_manager_new 0 (cse_new 0 ''_t'') ''_l'' ''_lt'',
        be_pool = \<lparr>tp_templ = default_pool_template, tp_tag_set = ready, tp_unique = 0\<rparr>, be_extra = ()\<rparr>\<rparr>"

definition example_worker :: cse where
  "example_worker = snd (run_requests example_config example_requests (cse_new 0 ''_t''))"

lemma example_app_quiet: "quiet_agent example_app (\<lambda>t. [butlast t]) ts"
  by (simp add: quiet_agent_def example_app_def)

lemma example_template:
  "fst (check_template default_pool_template w)" "cut_template default_pool_template = Inr (''auto '', '' = '', '';'')"
proof -
  have "str_find ''$1'' ''auto $1 = $2;'' 0 = Some 5" "str_find ''$2'' ''auto $1 = $2;'' 0 = Some 10" by code_simp+
  then show "fst (check_template default_pool_template w)" "cut_template default_pool_template = Inr (''auto '', '' = '', '';'')"
    by (simp_all add: check_template_def Let_def cut_template_def position_of_def size_add_def size_sub_def substr_def npos_def
        default_pool_template_def)
qed

lemma example_pool_text:
  "pool_text example_pool_config (\<lambda>t. [butlast t]) 0
     (fst (pool_temporaries example_pool_config (''auto '', '' = '', '';'') (example_session s example_worker b)))
   = [''// BEGIN TEMPORARY POOL (sequence=0) '', ''auto _t_0_0 = a;'', ''auto _t_0_1 = b;'',
      ''auto _t_0_2 = _t_0_0*_t_0_1;'', ''auto _t_0_3 = _t_0_2+_t_0_0;'']"
proof -
  have c: "cse_temporaries ''auto '' '' = '' '';'' example_worker
      = [''auto _t_0_0 = a;'' @ [NL], ''auto _t_0_1 = b;'' @ [NL], ''auto _t_0_2 = _t_0_0*_t_0_1;'' @ [NL],
         ''auto _t_0_3 = _t_0_2+_t_0_0;'' @ [NL]]" by code_simp
  have p: "print_comment default_printer (pool_label ''BEGIN TEMPORARY POOL'' 0) = ''// BEGIN TEMPORARY POOL (sequence=0) ''"
    by code_simp
  show ?thesis
    by (simp add: pool_temporaries_def lambda_temporaries_def example_session_def lambda_manager_new_def c pool_text_def
        kept_lines_def p example_pool_config_def)
qed

lemma example_memory: "buffer_ok buffer_memory" "text_before buffer_memory = []" "text_after buffer_memory = []"
  "rendered buffer_memory = (\<lambda>x. text_of (split_at NL x))"
  by (simp_all add: buffer_memory_def buffer_ok_def text_before_def text_after_def rendered_def skip_line_def os_closed_def fun_eq_iff)

lemma example_session_buffer:
  "the_buffer (example_session s c b) = b" "be_stack (w_user (example_session s c b)) \<noteq> []"
  "be_pool (w_user (example_session s c b)) = \<lparr>tp_templ = default_pool_template, tp_tag_set = s, tp_unique = 0\<rparr>"
  by (simp_all add: the_buffer_def example_session_def output_push_def)

theorem pool_deposits_temporaries_witness:
  "\<exists>w'. deposit_temporaries example_pool_config example_app (example_session True example_worker buffer_memory) = (Inr (), w')
    \<and> text_before (the_buffer w') = text_of [''// BEGIN TEMPORARY POOL (sequence=0) '', ''auto _t_0_0 = a;'', ''auto _t_0_1 = b;'',
      ''auto _t_0_2 = _t_0_0*_t_0_1;'', ''auto _t_0_3 = _t_0_2+_t_0_0;'']"
proof -
  let ?w = "example_session True example_worker buffer_memory"
  have p: "tp_templ (be_pool (w_user ?w)) = default_pool_template" "tp_unique (be_pool (w_user ?w)) = 0"
    "tp_tag_set (be_pool (w_user ?w))" by (simp_all add: example_session_buffer)
  have s: "map (rendered buffer_memory) [''// BEGIN TEMPORARY POOL (sequence=0) '', ''auto _t_0_0 = a;'', ''auto _t_0_1 = b;'',
      ''auto _t_0_2 = _t_0_0*_t_0_1;'', ''auto _t_0_3 = _t_0_2+_t_0_0;'']
    = map (\<lambda>l. text_of [l]) [''// BEGIN TEMPORARY POOL (sequence=0) '', ''auto _t_0_0 = a;'', ''auto _t_0_1 = b;'',
      ''auto _t_0_2 = _t_0_0*_t_0_1;'', ''auto _t_0_3 = _t_0_2+_t_0_0;'']"
    by (simp add: example_memory(4))
  have b: "buffer_ok (the_buffer ?w)" by (simp add: example_session_buffer(1) example_memory)
  have en: "w_enabled ?w" by (simp add: example_session_def)
  from pool_deposits_temporaries [OF p(3) example_session_buffer(2) b _ _ en example_app_quiet, where pc = example_pool_config, unfolded p(1,2),
      OF example_template] s
  show ?thesis by (auto simp: example_session_buffer(1) example_memory example_pool_text)
qed

definition example_settings :: "unit services agent" where
  "example_settings =
     \<lparr>ma_tokenizer = \<lparr>tz_prefix = ''$'', tz_fields = 2, tz_params = 1, tz_pre = [], tz_post = [], tz_index = [],
        tz_local = [], tz_simp_dir = [], tz_ind_dir = [], tz_validation = None, tz_strict = False,
        tz_model = canonical_model, tz_dev_warnings = False\<rparr>,
      ma_local = \<lambda>_. [], ma_split_equal = ''$='', ma_split_sum_equal = ''$+='', ma_recursion_max = 127, ma_unroll_policy = 4,
      ma_fast = False, ma_unroll_warnings = False, ma_printer = default_printer\<rparr>"

text \<open>The agent of a file with a pool: it knows the rule.\<close>

definition example_pool_agent :: "unit services agent" where
  "example_pool_agent = example_settings\<lparr>ma_tokenizer :=
     (ma_tokenizer example_settings)\<lparr>tz_pre := [temp_pool_rule example_pool_config (agent_lines example_settings)]\<rparr>\<rparr>"

definition example_temporaries :: "string list" where
  "example_temporaries = map (\<lambda>t. t @ [NL])
     [''auto _t_0_0 = a;'', ''auto _t_0_1 = b;'', ''auto _t_0_2 = _t_0_0*_t_0_1;'', ''auto _t_0_3 = _t_0_2+_t_0_0;'']"

lemma example_pool_temporaries:
  "fst (pool_temporaries example_pool_config (''auto '', '' = '', '';'') (example_session s example_worker b)) = example_temporaries"
proof -
  have "cse_temporaries ''auto '' '' = '' '';'' example_worker = example_temporaries" by code_simp
  then show ?thesis
    by (simp add: pool_temporaries_def lambda_temporaries_def example_session_def lambda_manager_new_def example_pool_config_def)
qed

lemma example_text_line:
  assumes "split_line t ''$='' ''$+='' = sp" and "ss_left sp = []" and "ss_right sp \<noteq> []" and "CHR ''$'' \<notin> set (ss_right sp)"
    and "plain_split sp [] [Text_piece (ss_right sp)]"
    and "executed (line_program (statement sp [] [Text_piece (ss_right sp)]) (trailing sp) []) (\<lambda>_. 0) = [out]"
  shows "plain_template_line example_pool_agent t [out]"
proof -
  let ?ag = "example_pool_agent" and ?ps = "[Text_piece (ss_right sp)]"
  have ag: "tz_prefix (ma_tokenizer ?ag) = ''$''" "ma_split_equal ?ag = ''$=''" "ma_split_sum_equal ?ag = ''$+=''"
    "ma_unroll_policy ?ag = 4" "\<not> ma_fast ?ag"
    by (simp_all add: example_pool_agent_def example_settings_def)
  have pfx: "tz_prefix (agent_tokenizer ?ag db b w) = ''$''" for db b w using ag(1) by (simp add: agent_tokenizer_def)
  have pl: "plain_line ?ag w []" "plain_line ?ag w ?ps" for w
    using pfx assms(3,4) by (simp_all add: plain_line_def)
  have loops: "line_loops ?ag [] ?ps = []" by (simp add: line_loops_def first_labels_def line_labels_def)
  then have size: "line_size ?ag [] ?ps = 1" by (simp add: line_size_def)
  have "plain_output ?ag sp [] ?ps = [out]" using assms(6) by (simp add: plain_output_def size ag plain_program_def loops)
  then show ?thesis
    unfolding plain_template_line_def ag assms(1) Let_def using pl assms(2,5) size
    by (intro exI [of _ "[]"] exI [of _ ?ps]) (simp add: line_print_def piece_print_def)
qed

lemma example_lines: "\<forall>t \<in> set example_temporaries. plain_template_line example_pool_agent t [butlast t]"
proof -
  let ?ok = "\<lambda>t. let sp = split_line t ''$='' ''$+='' in ss_left sp = [] \<and> ss_right sp \<noteq> [] \<and> CHR ''$'' \<notin> set (ss_right sp)
    \<and> plain_split sp [] [Text_piece (ss_right sp)]
    \<and> executed (line_program (statement sp [] [Text_piece (ss_right sp)]) (trailing sp) []) (\<lambda>_. 0) = [butlast t]"
  have "list_all ?ok example_temporaries" by code_simp
  then show ?thesis unfolding list_all_iff Let_def using example_text_line [OF refl] by blast
qed

theorem pool_precedes_uses_witness:
  "\<exists>label w1 w3. pool_evaluate example_pool_config (agent_lines example_pool_agent) [(default_pool_template, (0, 0))]
        (example_session False example_worker buffer_memory) = (Inr label, w1)
    \<and> pool_end_of_input example_pool_config (agent_lines example_pool_agent)
        (on_top_buffer (write_to_end ''return _t_0_3;'') w1) = (Inr (), w3)
    \<and> text_before (the_buffer w3) @ text_after (the_buffer w3)
      = text_of [''// BEGIN TEMPORARY POOL (sequence=0) '', ''auto _t_0_0 = a;'', ''auto _t_0_1 = b;'',
          ''auto _t_0_2 = _t_0_0*_t_0_1;'', ''auto _t_0_3 = _t_0_2+_t_0_0;'', ''return _t_0_3;'']"
proof -
  let ?w = "example_session False example_worker buffer_memory" and ?app = "agent_lines example_pool_agent"
  have p: "\<not> tp_tag_set (be_pool (w_user ?w))" "tp_unique (be_pool (w_user ?w)) = 0" "buffer_ok (the_buffer ?w)"
    by (simp_all add: example_session_buffer example_memory)
  have "top_buffer (be_stack (w_user ?w)) = Inr (the_buffer ?w)" by (rule top_buffer_nonempty [OF example_session_buffer(2)])
  with p(1) obtain label w1 where e: "pool_evaluate example_pool_config ?app [(default_pool_template, (0, 0))] ?w = (Inr label, w1)"
    "w1 = on_top_buffer set_tag_to_end (update_services
        (\<lambda>b. b\<lparr>be_pool := (be_pool b)\<lparr>tp_templ := default_pool_template, tp_tag_set := True\<rparr>\<rparr>) ?w)"
    by (auto simp: pool_evaluate_def bindA_def returnA_def Let_def)
  let ?w2 = "on_top_buffer (write_to_end ''return _t_0_3;'') w1"
  have n: "be_stack (w_user w1) \<noteq> []" "be_stack (w_user ?w2) \<noteq> []" "w_enabled ?w2"
    using e(2) example_session_buffer(2) [of False example_worker buffer_memory] by (simp_all add: example_session_def)
  have b: "the_buffer ?w2 = fold write_to_end [''return _t_0_3;''] (the_buffer w1)" "be_pool (w_user ?w2) = be_pool (w_user w1)"
    using n(1) by simp_all
  have t: "fst (pool_temporaries example_pool_config (''auto '', '' = '', '';'') ?w2) = example_temporaries"
    using example_pool_temporaries [of False buffer_memory] by (simp add: pool_temporaries_def e(2) split: prod.splits)
  have a: "tz_prefix (ma_tokenizer example_pool_agent) \<noteq> []" "1 < ma_recursion_max example_pool_agent"
    by (simp_all add: example_pool_agent_def example_settings_def)
  have l: "\<forall>t \<in> set (fst (pool_temporaries example_pool_config (''auto '', '' = '', '';'') ?w2)). plain_template_line example_pool_agent t [butlast t]"
    unfolding t by (rule example_lines)
  have c: "print_comment default_printer (pool_label ''BEGIN TEMPORARY POOL'' 0) = ''// BEGIN TEMPORARY POOL (sequence=0) ''"
    by code_simp
  from pool_precedes_uses [OF p(1) example_session_buffer(2) p(3) e(1) n(2) b n(3) example_template a l]
  obtain w3 where w3: "pool_end_of_input example_pool_config ?app ?w2 = (Inr (), w3)"
    "text_before (the_buffer w3) @ text_after (the_buffer w3) = text_before (the_buffer ?w) @ text_after (the_buffer ?w)
        @ concat (map (rendered (the_buffer ?w))
            (pool_text example_pool_config (\<lambda>t. [butlast t]) (tp_unique (be_pool (w_user ?w))) example_temporaries)
            @ map (rendered (the_buffer ?w)) [''return _t_0_3;''])"
    unfolding t by blast
  let ?lines = "[''// BEGIN TEMPORARY POOL (sequence=0) '', ''auto _t_0_0 = a;'', ''auto _t_0_1 = b;'',
          ''auto _t_0_2 = _t_0_0*_t_0_1;'', ''auto _t_0_3 = _t_0_2+_t_0_0;'']"
  have "concat (map (\<lambda>x. text_of (split_at NL x)) (?lines @ [''return _t_0_3;''])) = text_of (?lines @ [''return _t_0_3;''])"
    by code_simp
  moreover have "pool_text example_pool_config (\<lambda>t. [butlast t]) 0 example_temporaries = ?lines"
    by (simp add: pool_text_def kept_lines_def example_temporaries_def c example_pool_config_def)
  ultimately show ?thesis
    using e(1) w3 by (auto simp: p(2) example_session_buffer(1) example_memory)
qed

end
