(* ===== verification/Translator.thy ===== *)
theory Translator
  imports Temporary_Pool Finder Macro_Agent_Facts
begin

text \<open>
  Translation of a template, \<open>file_handling/translator.{h,cpp}\<close>, with the group of macro packages that serves it,
  \<open>replacement_rules/package_group.{h,cpp}\<close> and \<open>replacement_rule_package.h\<close>. A template is found on the search path,
  its header line is skipped, every other line goes through the macro agent of the file, and the lines that come
  back are written to the end of the output. How the group of packages is chosen for a template is an argument.
\<close>

section \<open>Reading lines\<close>

record ifstream =
  is_rest :: string
  is_eof :: bool
  is_fail :: bool

definition ifstream_open :: "string \<Rightarrow> ifstream" where
  "ifstream_open text = \<lparr>is_rest = text, is_eof = False, is_fail = False\<rparr>"

text \<open>\<open>std::getline\<close>: the newline is taken and dropped; at the end of the file without one the end is flagged, and a
  failure when nothing was read.\<close>

definition getline :: "ifstream \<Rightarrow> string \<times> ifstream" where
  "getline f =
     (if is_eof f \<or> is_fail f then ([], f\<lparr>is_fail := True\<rparr>)
      else let l = takeWhile (\<lambda>c. c \<noteq> NL) (is_rest f) in
        case dropWhile (\<lambda>c. c \<noteq> NL) (is_rest f) of
          [] \<Rightarrow> (l, f\<lparr>is_rest := [], is_eof := True, is_fail := (l = [])\<rparr>)
        | c # r \<Rightarrow> (l, f\<lparr>is_rest := r\<rparr>))"

section \<open>Packages\<close>

text \<open>The rules of a package, and what it does at the end of the input.\<close>

record 'x rule_package =
  rp_pre :: "'x services simple_rule list"
  rp_post :: "'x services simple_rule list"
  rp_index :: "'x services index_rule list"
  rp_end :: "('x session, unit) act"

record 'x directive_package =
  dp_simple :: "'x services simple_directive list"
  dp_index :: "'x services index_directive list"

definition pool_package :: "pool_config \<Rightarrow> (string \<Rightarrow> ('x session, string list option) act) \<Rightarrow> 'x rule_package" where
  "pool_package pc app =
     \<lparr>rp_pre = [temp_pool_rule pc app], rp_post = [], rp_index = [], rp_end = pool_end_of_input pc app\<rparr>"

record 'x package_group =
  pg_rules :: "'x rule_package list"
  pg_directives :: "'x directive_package list"
  pg_pre :: "'x services simple_rule list"
  pg_post :: "'x services simple_rule list"
  pg_index :: "'x services index_rule list"
  pg_simple :: "'x services simple_directive list"
  pg_index_dirs :: "'x services index_directive list"
  pg_printer :: C_style_printer

definition package_group_new :: "C_style_printer \<Rightarrow> 'x package_group" where
  "package_group_new p =
     \<lparr>pg_rules = [], pg_directives = [], pg_pre = [], pg_post = [], pg_index = [], pg_simple = [], pg_index_dirs = [],
      pg_printer = p\<rparr>"

text \<open>The caches of rules are built anew from all packages.\<close>

definition build_set :: "('p \<Rightarrow> 'r list) \<Rightarrow> 'p list \<Rightarrow> 'r list" where
  "build_set get_rules src = foldl (\<lambda>dest pkg. dest @ get_rules pkg) [] src"

definition add_rule_package :: "'x rule_package \<Rightarrow> 'x package_group \<Rightarrow> 'x package_group" where
  "add_rule_package pkg g =
     (let ps = pg_rules g @ [pkg]
      in g\<lparr>pg_rules := ps, pg_pre := build_set rp_pre ps, pg_post := build_set rp_post ps, pg_index := build_set rp_index ps\<rparr>)"

definition add_directive_package :: "'x directive_package \<Rightarrow> 'x package_group \<Rightarrow> 'x package_group" where
  "add_directive_package pkg g =
     (let ps = pg_directives g @ [pkg]
      in g\<lparr>pg_directives := ps, pg_simple := build_set dp_simple ps, pg_index_dirs := build_set dp_index ps\<rparr>)"

definition group_end_of_input :: "'x package_group \<Rightarrow> ('x session, unit) act" where
  "group_end_of_input g = foldr (\<lambda>pkg act. bindA (rp_end pkg) (\<lambda>_. act)) (pg_rules g) (returnA ())"

section \<open>Translating a file\<close>

text \<open>The settings of the agents hold the prefix, the model and the limits; the rules come from the packages.\<close>

record 'x translator =
  tr_fs :: filesystem
  tr_finder :: finder
  tr_read :: "string \<Rightarrow> string option"
  tr_annotate :: bool
  tr_settings :: "'x services agent"
  tr_build :: "string \<Rightarrow> 'x session \<Rightarrow> (exn + 'x package_group) \<times> 'x session"

definition package_agent :: "'x services agent \<Rightarrow> 'x package_group \<Rightarrow> 'x services agent" where
  "package_agent settings g =
     settings\<lparr>ma_printer := pg_printer g, ma_tokenizer := (ma_tokenizer settings)\<lparr>tz_pre := pg_pre g, tz_post := pg_post g,
       tz_index := pg_index g, tz_simp_dir := pg_simple g, tz_ind_dir := pg_index_dirs g\<rparr>\<rparr>"

text \<open>The group owns fresh workers, and the agent starts with its output enabled; those of the file that asked for the
  translation come back at its end.\<close>

definition enter_template :: "string \<Rightarrow> buffer \<Rightarrow> process_type \<Rightarrow> 'x session \<Rightarrow> 'x session" where
  "enter_template name buf tp w =
     w\<lparr>w_enabled := True,
       w_user := (w_user w)\<lparr>be_stack := output_push name buf () tp (be_stack (w_user w)),
         be_cse := cse_new 0 ''_t'', be_lambdas := lambda_manager_new 0 (cse_new 0 ''_t'') ''_l'' ''_lt'',
         be_pool := temp_pool_new default_pool_template\<rparr>\<rparr>"

definition leave_template :: "'x session \<Rightarrow> 'x session \<Rightarrow> 'x session" where
  "leave_template w0 w =
     w\<lparr>w_enabled := w_enabled w0,
       w_user := (w_user w)\<lparr>be_stack := (case output_pop (be_stack (w_user w)) of Inl e \<Rightarrow> [] | Inr s \<Rightarrow> s),
         be_cse := be_cse (w_user w0), be_lambdas := be_lambdas (w_user w0), be_pool := be_pool (w_user w0)\<rparr>\<rparr>"

text \<open>Lines after the first that a template line expands to are annotated with its number.\<close>

definition annotated :: "bool \<Rightarrow> C_style_printer \<Rightarrow> nat \<Rightarrow> string list \<Rightarrow> string list" where
  "annotated annotate p n ls =
     map (\<lambda>(c, l). l @ (if annotate \<and> 0 < c then '' '' @ print_comment p (''expansion of template line '' @ dec_string n) else []))
       (enumerate 0 ls)"

definition process_line ::
  "'x translator \<Rightarrow> 'x package_group \<Rightarrow> 'x services agent \<Rightarrow> (string \<Rightarrow> string) option \<Rightarrow> string \<Rightarrow> (u32 \<times> 'x session, u32) act" where
  "process_line tr g ag filt line =
     bindA (agent_apply ag line 0) (\<lambda>(line_list, replacements) (d, w).
       (case line_list of
          None \<Rightarrow> (Inr replacements, (d, w))
        | Some ls \<Rightarrow>
            (case output_get_line (be_stack (w_user w)) of
               Inl e \<Rightarrow> (Inl e, (d, w))
             | Inr n \<Rightarrow>
                 (let out = annotated (tr_annotate tr) (pg_printer g) n ls;
                      out' = (case filt of None \<Rightarrow> out | Some f \<Rightarrow> map f out)
                  in (Inr replacements, (d, on_top_buffer (fold write_to_end out') w))))))"

definition increment_line :: "(u32 \<times> 'x session, unit) act" where
  "increment_line s =
     (case output_increment_line (be_stack (w_user (snd s))) of
        Inl e \<Rightarrow> (Inl e, s)
      | Inr (n, st) \<Rightarrow> (Inr (), (fst s, update_services (\<lambda>b. b\<lparr>be_stack := st\<rparr>) (snd s))))"

text \<open>What is left to read.\<close>

definition unread :: "ifstream \<Rightarrow> nat" where
  "unread f = length (is_rest f) + (if is_eof f then 0 else 1)"

lemma getline_shorter:
  assumes "\<not> (is_eof f \<or> is_fail f)" and "getline f = (line, f')"
  shows "unread f' < unread f"
proof (cases "dropWhile (\<lambda>c. c \<noteq> NL) (is_rest f)")
  case Nil
  then have "getline f = (takeWhile (\<lambda>c. c \<noteq> NL) (is_rest f),
      f\<lparr>is_rest := [], is_eof := True, is_fail := (takeWhile (\<lambda>c. c \<noteq> NL) (is_rest f) = [])\<rparr>)"
    using assms(1) unfolding getline_def Nil Let_def by simp
  then have "is_rest f' = []" "is_eof f'" unfolding assms(2) by simp_all
  then show ?thesis using assms(1) by (simp add: unread_def)
next
  case (Cons c r)
  then have "Suc (length r) \<le> length (is_rest f)" using length_dropWhile_le [of "\<lambda>c. c \<noteq> NL" "is_rest f"] by simp
  moreover have "getline f = (takeWhile (\<lambda>c. c \<noteq> NL) (is_rest f), f\<lparr>is_rest := r\<rparr>)"
    using assms(1) unfolding getline_def Cons Let_def by simp
  then have "is_rest f' = r" "is_eof f' = is_eof f" unfolding assms(2) by simp_all
  ultimately show ?thesis by (simp add: unread_def)
qed

lemma getline_shorter_measure:
  "(line, f') = getline f \<Longrightarrow> \<not> is_eof f \<Longrightarrow> \<not> is_fail f \<Longrightarrow> unread f' < unread f"
  using getline_shorter [of f line f'] by simp

text \<open>The loop ends: every turn takes a character or reaches the end of the file.\<close>

function process_lines ::
  "(string \<Rightarrow> ('s, u32) act) \<Rightarrow> ('s, unit) act \<Rightarrow> ifstream \<Rightarrow> u32 \<Rightarrow> ('s, u32) act" where
  "process_lines body next src replacements =
     (if is_eof src \<or> is_fail src then returnA replacements
      else case getline src of (line, src') \<Rightarrow>
        bindA (body line) (\<lambda>k. bindA next (\<lambda>_. process_lines body next src' (replacements + k))))"
  by pat_completeness auto
termination
  by (relation "measure (\<lambda>(body, nxt, f, n). unread f)") (auto intro: getline_shorter_measure)

declare process_lines.simps [simp del]

text \<open>The result is the number of replacements, and the buffer that was handed over.\<close>

definition process_template ::
  "'x translator \<Rightarrow> string \<Rightarrow> buffer \<Rightarrow> process_type \<Rightarrow> (string \<Rightarrow> string) option \<Rightarrow> 'x session
     \<Rightarrow> (exn + u32) \<times> buffer \<times> 'x session" where
  "process_template tr name buf tp filt w =
     (case tr_build tr name w of
        (Inl (Runtime_error m), w1) \<Rightarrow> (Inr 0, buf, w1)
      | (Inl e, w1) \<Rightarrow> (Inl e, buf, w1)
      | (Inr g, w1) \<Rightarrow>
          (case tr_read tr name of
             None \<Rightarrow> (Inr 0, buf, logA Sev_error ''ERROR_READING_TEMPLATE'' name (0, 0) w1)
           | Some text \<Rightarrow>
               (let src = snd (getline (ifstream_open text)); (ag, depth) = agent_new (package_agent (tr_settings tr) g);
                    (r, (d, w2)) = process_lines (process_line tr g ag filt) increment_line src 0 (depth, enter_template name buf tp w1);
                    (r', w3) = (case r of Inl e \<Rightarrow> (Inl e, w2) | Inr n \<Rightarrow> bindA (group_end_of_input g) (\<lambda>_. returnA n) w2)
                in (r', the_buffer w3, leave_template w1 w3))))"

text \<open>The name with the extension of a header is looked for first.\<close>

definition translate ::
  "'x translator \<Rightarrow> string \<Rightarrow> buffer \<Rightarrow> process_type \<Rightarrow> (string \<Rightarrow> string) option \<Rightarrow> 'x session
     \<Rightarrow> (exn + u32) \<times> buffer \<times> 'x session" where
  "translate tr name buf tp filt w =
     (case finder_find (tr_fs tr) (tr_finder tr) (name @ ''.h'') of
        Inl e \<Rightarrow> (Inl e, buf, w)
      | Inr (Some p) \<Rightarrow> process_template tr p buf tp filt w
      | Inr None \<Rightarrow>
          (case finder_find (tr_fs tr) (tr_finder tr) name of
             Inl e \<Rightarrow> (Inl e, buf, w)
           | Inr (Some p) \<Rightarrow> process_template tr p buf tp filt w
           | Inr None \<Rightarrow> (Inr 0, buf, logA Sev_error ''ERROR_MISSING_TEMPLATE'' name (0, 0) w)))"

text \<open>To a file: the buffer is destroyed, and so written, however the translation ends.\<close>

definition translate_to_file ::
  "'x translator \<Rightarrow> (string \<Rightarrow> ofstream) \<Rightarrow> u32 \<Rightarrow> string \<Rightarrow> string \<Rightarrow> process_type \<Rightarrow> (string \<Rightarrow> string) option \<Rightarrow> 'x session
     \<Rightarrow> (exn + u32) \<times> ofstream option \<times> 'x session" where
  "translate_to_file tr op capacity name out tp filt w =
     (case buffer_open op out capacity of
        Inl e \<Rightarrow> (Inl e, None, w)
      | Inr buf \<Rightarrow> (case translate tr name buf tp filt w of (r, buf', w') \<Rightarrow> (r, Some (buffer_close buf'), w')))"

section \<open>Every line once\<close>

primrec run_lines :: "(string \<Rightarrow> ('s, u32) act) \<Rightarrow> ('s, unit) act \<Rightarrow> string list \<Rightarrow> u32 \<Rightarrow> ('s, u32) act" where
  "run_lines body next [] n = returnA n"
| "run_lines body next (l # ls) n = bindA (body l) (\<lambda>k. bindA next (\<lambda>_. run_lines body next ls (n + k)))"

lemma split_at_step:
  "split_at sep s = takeWhile (\<lambda>c. c \<noteq> sep) s # (case dropWhile (\<lambda>c. c \<noteq> sep) s of [] \<Rightarrow> [] | c # r \<Rightarrow> split_at sep r)"
proof (induction s)
  case (Cons a s)
  then show ?case by (cases "split_at sep s") (auto split: list.splits)
qed simp

definition lines_left :: "ifstream \<Rightarrow> string list" where
  "lines_left f = (if is_eof f \<or> is_fail f then [] else split_at NL (is_rest f))"

lemma lines_left_step:
  assumes "\<not> (is_eof f \<or> is_fail f)" and "getline f = (line, f')"
  shows "lines_left f = line # lines_left f'"
proof (cases "dropWhile (\<lambda>c. c \<noteq> NL) (is_rest f)")
  case Nil
  then have "getline f = (takeWhile (\<lambda>c. c \<noteq> NL) (is_rest f),
      f\<lparr>is_rest := [], is_eof := True, is_fail := (takeWhile (\<lambda>c. c \<noteq> NL) (is_rest f) = [])\<rparr>)"
    using assms(1) unfolding getline_def Nil Let_def by simp
  then have "line = takeWhile (\<lambda>c. c \<noteq> NL) (is_rest f)" "is_eof f'" unfolding assms(2) by simp_all
  then show ?thesis using assms(1) split_at_step [of NL "is_rest f"] unfolding Nil lines_left_def by simp
next
  case (Cons c r)
  have "getline f = (takeWhile (\<lambda>c. c \<noteq> NL) (is_rest f), f\<lparr>is_rest := r\<rparr>)"
    using assms(1) unfolding getline_def Cons Let_def by simp
  then have "line = takeWhile (\<lambda>c. c \<noteq> NL) (is_rest f)" "f' = f\<lparr>is_rest := r\<rparr>" unfolding assms(2) by simp_all
  then show ?thesis using assms(1) split_at_step [of NL "is_rest f"] unfolding Cons lines_left_def by simp
qed

lemma process_lines_run: "process_lines body next f n = run_lines body next (lines_left f) n"
proof (induction body "next" f n rule: process_lines.induct)
  case (1 body "next" f n)
  show ?case
  proof (cases "is_eof f \<or> is_fail f")
    case True
    then show ?thesis by (simp add: process_lines.simps [of body "next" f] lines_left_def)
  next
    case False
    obtain line f' where g: "getline f = (line, f')" by fastforce
    have "process_lines body next f' (n + k) = run_lines body next (lines_left f') (n + k)" for k
      using 1 [OF False g [symmetric]] by simp
    then show ?thesis
      using False by (simp add: process_lines.simps [of body "next" f] g lines_left_step [OF False g])
  qed
qed

lemma lines_after_header: "lines_left (snd (getline (ifstream_open text))) = List.tl (split_at NL text)"
proof -
  obtain line f' where g: "getline (ifstream_open text) = (line, f')" by fastforce
  have "lines_left (ifstream_open text) = line # lines_left f'"
    by (rule lines_left_step [OF _ g]) (simp add: ifstream_open_def)
  moreover have "lines_left (ifstream_open text) = split_at NL text" by (simp add: lines_left_def ifstream_open_def)
  ultimately show ?thesis by (simp add: g)
qed

text \<open>C40: The translation loop goes through every line of a template once, in order, and ends. Whatever is done with a line, the loop that
  reads until the end of the file does it with the pieces between newlines, all but the first, which is the header; a file that ends with a
  newline has an empty last line, and one without any newline has no line.\<close>

theorem lines_processed_once:
  "process_lines body next (snd (getline (ifstream_open text))) n = run_lines body next (List.tl (split_at NL text)) n"
  by (simp add: process_lines_run lines_after_header)

section \<open>Plain templates\<close>

definition filtered :: "(string \<Rightarrow> string) option \<Rightarrow> string list \<Rightarrow> string list" where
  "filtered filt ls = (case filt of None \<Rightarrow> ls | Some f \<Rightarrow> map f ls)"

text \<open>What a template line is to become: the first of its lines as it is, the others with a comment.\<close>

definition expansion :: "bool \<Rightarrow> C_style_printer \<Rightarrow> nat \<Rightarrow> string list \<Rightarrow> string list" where
  "expansion annotate p n ls =
     (case ls of
        [] \<Rightarrow> []
      | l # r \<Rightarrow> l # map (\<lambda>x. if annotate then x @ '' '' @ print_comment p (''expansion of template line '' @ dec_string n) else x) r)"

lemma annotated_expansion: "annotated annotate p n ls = expansion annotate p n ls"
proof (cases ls)
  case (Cons l r)
  have "map (\<lambda>(c, l). l @ (if annotate \<and> 0 < c then x else [])) (enumerate (Suc k) r) = map (\<lambda>l. if annotate then l @ x else l) r"
    for x :: string and k
    by (induction r arbitrary: k) simp_all
  then show ?thesis by (simp add: annotated_def expansion_def Cons)
qed (simp add: annotated_def expansion_def)

definition template_output :: "'x translator \<Rightarrow> 'x package_group \<Rightarrow> (string \<Rightarrow> string) option \<Rightarrow> nat \<Rightarrow> string list list \<Rightarrow> string list" where
  "template_output tr g filt n outs =
     concat (map (\<lambda>(k, out). filtered filt (expansion (tr_annotate tr) (pg_printer g) k out)) (enumerate n outs))"

lemma process_line_plain:
  assumes "tz_prefix (ma_tokenizer ag) \<noteq> []" and "1 < ma_recursion_max ag" and "w_enabled w" and "plain_template_line ag line out"
    and "be_stack (w_user w) = i # is'"
  shows "\<exists>k w'. process_line tr g ag filt line (0, w) = (Inr k, (0, w')) \<and> w_enabled w'
    \<and> w_user w' = (w_user w)\<lparr>be_stack := i\<lparr>out_buf := fold write_to_end
        (filtered filt (expansion (tr_annotate tr) (pg_printer g) (out_line i) out)) (out_buf i)\<rparr> # is'\<rparr>"
proof -
  obtain n w1 where w1: "w_user w1 = w_user w" "w_enabled w1 = w_enabled w" "agent_apply ag line 0 (0, w) = (Inr (Some out, n), (0, w1))"
    using plain_line_agent [OF assms(1-4)] by blast
  show ?thesis
    using assms(3,5) w1
    by (simp add: process_line_def bindA_def output_get_line_def Let_def filtered_def annotated_expansion on_top_buffer_def update_services_def
        split: option.splits)
qed

lemma run_lines_plain:
  assumes "tz_prefix (ma_tokenizer ag) \<noteq> []" and "1 < ma_recursion_max ag" and "list_all2 (plain_template_line ag) ls outs"
  shows "w_enabled w \<Longrightarrow> be_stack (w_user w) = i # is' \<Longrightarrow>
    \<exists>m w'. run_lines (process_line tr g ag filt) increment_line ls n (0, w) = (Inr m, (0, w')) \<and> w_enabled w'
      \<and> w_user w' = (w_user w)\<lparr>be_stack := i\<lparr>out_buf := fold write_to_end (template_output tr g filt (out_line i) outs) (out_buf i),
          out_line := out_line i + length ls\<rparr> # is'\<rparr>"
  using assms(3)
proof (induction ls outs arbitrary: w i n rule: list_all2_induct)
  case Nil
  then show ?case by (simp add: returnA_def template_output_def)
next
  case (Cons l ls out outs)
  let ?b = "fold write_to_end (filtered filt (expansion (tr_annotate tr) (pg_printer g) (out_line i) out)) (out_buf i)"
  let ?i = "i\<lparr>out_buf := ?b, out_line := Suc (out_line i)\<rparr>"
  obtain k w1 where w1: "process_line tr g ag filt l (0, w) = (Inr k, (0, w1))" "w_enabled w1"
    "w_user w1 = (w_user w)\<lparr>be_stack := i\<lparr>out_buf := ?b\<rparr> # is'\<rparr>"
    using process_line_plain [OF assms(1,2) Cons.prems(1) Cons.hyps(1) Cons.prems(2)] by blast
  let ?w2 = "update_services (\<lambda>b. b\<lparr>be_stack := ?i # is'\<rparr>) w1"
  have inc: "increment_line (0, w1) = (Inr (), (0, ?w2))"
    by (simp add: increment_line_def output_increment_line_def w1(3))
  have "w_enabled ?w2" "be_stack (w_user ?w2) = ?i # is'" using w1(2) by (simp_all add: update_services_def)
  from Cons.IH [OF this, of "n + k"] obtain m w' where
    "run_lines (process_line tr g ag filt) increment_line ls (n + k) (0, ?w2) = (Inr m, (0, w'))" "w_enabled w'"
    "w_user w' = (w_user ?w2)\<lparr>be_stack := ?i\<lparr>out_buf := fold write_to_end (template_output tr g filt (out_line ?i) outs) (out_buf ?i),
          out_line := out_line ?i + length ls\<rparr> # is'\<rparr>" by blast
  with w1 inc show ?case by (simp add: bindA_def template_output_def)
qed

text \<open>C39: A template of plain lines is translated line by line. For a template that is found and can be read, whose packages write
  nothing at the end of the input when no pool was opened, and all of whose lines after the header are of text and indices: the translation
  returns, the file holds what it held when it was opened and then, for every template line in order, the lines that
  execute or plant its loops, filtered, with every line but the first of a template line annotated, where asked for, with its number
  in the template. The stack of files, the workers and the output switch of the caller are as before.\<close>

theorem plain_template_translated:
  assumes "finder_find (tr_fs tr) (tr_finder tr) (name @ ''.h'') = Inr (Some p)" and "tr_build tr p w = (Inr g, w1)"
    and "tr_read tr p = Some text" and "package_agent (tr_settings tr) g = ag"
    and "tz_prefix (ma_tokenizer ag) \<noteq> []" and "1 < ma_recursion_max ag"
    and "list_all2 (plain_template_line ag) (List.tl (split_at NL text)) outs"
    and "\<And>w. \<not> tp_tag_set (be_pool (w_user w)) \<Longrightarrow> \<exists>w'. group_end_of_input g w = (Inr (), w') \<and> w_user w' = w_user w"
    and "buffer_open op out cp = Inr b"
  shows "\<exists>n f w'. translate_to_file tr op cp name out tp filt w = (Inr n, Some f, w')
    \<and> os_text f = os_text (op out) @ text_of (concat (map (split_at NL) (template_output tr g filt 2 outs)))
    \<and> w_user w' = w_user w1 \<and> w_enabled w' = w_enabled w1"
proof -
  have b: "buffer_ok b" "\<not> bf_in_memory b" "text_before b = os_text (op out)" "text_after b = []"
    "rendered b = (\<lambda>x. text_of (split_at NL x))"
    using assms(9) by (auto simp: buffer_open_def Let_def buffer_ok_def text_before_def text_after_def rendered_def
      skip_line_def delimit_line_def fun_eq_iff split: if_splits)
  let ?w = "enter_template p b tp w1" and ?ls = "List.tl (split_at NL text)" and ?out = "template_output tr g filt 2 outs"
  have e: "w_enabled ?w" "be_stack (w_user ?w) = \<lparr>out_in = p, out_line = 2, out_buf = b, out_agent = (), out_type = tp\<rparr> # be_stack (w_user w1)"
    by (simp_all add: enter_template_def output_push_def)
  obtain m w2 where w2: "run_lines (process_line tr g ag filt) increment_line ?ls 0 (0, ?w) = (Inr m, (0, w2))" "w_enabled w2"
    "w_user w2 = (w_user ?w)\<lparr>be_stack := \<lparr>out_in = p, out_line = 2 + length ?ls, out_buf = fold write_to_end ?out b,
        out_agent = (), out_type = tp\<rparr> # be_stack (w_user w1)\<rparr>"
    using run_lines_plain [OF assms(5,6,7) e, of tr g filt 0] by auto
  obtain w3 where w3: "group_end_of_input g w2 = (Inr (), w3)" "w_user w3 = w_user w2"
    using assms(8) [of w2] by (auto simp: w2(3) enter_template_def temp_pool_new_def)
  have new: "agent_new ag = (ag, 0)" using assms(6) by (auto simp: agent_new_def)
  have "translate_to_file tr op cp name out tp filt w = (Inr m, Some (buffer_close (the_buffer w3)), leave_template w1 w3)"
    using w2(1)
    by (simp add: translate_to_file_def assms(1,2,3,4,9) translate_def process_template_def Let_def new process_lines_run
        lines_after_header bindA_def w3(1) returnA_def)
  moreover have "the_buffer w3 = fold write_to_end ?out b" by (simp add: the_buffer_def w3(2) w2(3))
  moreover have "fold buffer_command (map To_end xs) c = fold write_to_end xs c" for xs c
    by (induction xs arbitrary: c) simp_all
  then have "bf_in_memory (fold write_to_end ?out b) = bf_in_memory b"
    using buffer_commands_parts [OF b(1), of "map To_end ?out"] by simp
  then have "os_text (buffer_close (fold write_to_end ?out b)) = os_text (op out) @ concat (map (rendered b) ?out)"
    using buf.put_end_list [OF b(1), of ?out] b by (simp add: close_text)
  moreover have "concat (map (rendered b) xs) = text_of (concat (map (split_at NL) xs))" for xs
    by (induction xs) (simp_all add: b(5))
  moreover have "w_user (leave_template w1 w3) = w_user w1" "w_enabled (leave_template w1 w3) = w_enabled w1"
    by (simp_all add: leave_template_def output_pop_def w3(2) w2(3) enter_template_def)
  ultimately show ?thesis by simp
qed

section \<open>An example\<close>

definition example_group :: "unit package_group" where
  "example_group = add_rule_package (pool_package example_pool_config example_app) (package_group_new default_printer)"

definition example_template :: string where
  "example_template = ''header'' @ NL # ''  y[$a] $= x[$a];'' @ NL # ''end''"

definition example_translator :: "unit translator" where
  "example_translator =
     \<lparr>tr_fs = example_fs\<lparr>fs_exists := (\<lambda>p. p = ''/d/core.h''), fs_canonical := Inr\<rparr>, tr_finder = [''/d''],
      tr_read = (\<lambda>p. if p = ''/d/core.h'' then Some example_template else None), tr_annotate = True,
      tr_settings = example_settings, tr_build = (\<lambda>p w. (Inr example_group, w))\<rparr>"

definition example_package_agent :: "unit services agent" where
  "example_package_agent = package_agent example_settings example_group"

lemma example_plain_lines:
  "list_all2 (plain_template_line example_package_agent) (List.tl (split_at NL example_template))
     [[''  y[0]  = x[0];'', ''  y[1]  = x[1];''], [''end'']]"
proof -
  let ?ag = "example_package_agent"
  let ?L = "[Text_piece ''  y['', Index_piece [] (CHR ''a''), Text_piece ''] '']"
  let ?R = "[Text_piece ''x['', Index_piece [] (CHR ''a''), Text_piece '']'']"
  let ?line = "''  y[$a] $= x[$a];''"
  let ?sp = "split_line ?line ''$='' ''$+=''" and ?sp2 = "split_line ''end'' ''$='' ''$+=''"
  have ag: "tz_prefix (ma_tokenizer ?ag) = ''$''" "ma_split_equal ?ag = ''$=''" "ma_split_sum_equal ?ag = ''$+=''"
    "ma_unroll_policy ?ag = 4" "\<not> ma_fast ?ag"
    by (simp_all add: example_package_agent_def package_agent_def example_settings_def)
  have names: "rule_names (agent_tokenizer ?ag db b w) = [''TEMP_POOL'']" for db b w
    by (simp add: rule_names_def agent_tokenizer_def example_package_agent_def package_agent_def example_settings_def
        example_group_def add_rule_package_def build_set_def pool_package_def package_group_new_def temp_pool_rule_def Let_def)
  have pfx: "tz_prefix (agent_tokenizer ?ag db b w) = ''$''" for db b w using ag(1) by (simp add: agent_tokenizer_def)
  have pl: "plain_line ?ag w ?L" "plain_line ?ag w ?R" "plain_line ?ag w []" "plain_line ?ag w [Text_piece ''end'']" for w
    using ag(1) pfx by (simp_all add: plain_line_def starts_name_def names Let_def)
  have sp: "ss_left ?sp = line_print ''$'' ?L" "ss_right ?sp = line_print ''$'' ?R" "plain_split ?sp ?L ?R"
    "ss_left ?sp2 = line_print ''$'' []" "ss_right ?sp2 = line_print ''$'' [Text_piece ''end'']"
    "plain_split ?sp2 [] [Text_piece ''end'']"
    by code_simp+
  have size: "line_size ?ag ?L ?R = 2" "line_size ?ag [] [Text_piece ''end''] = 1"
    by (simp_all add: line_size_def line_loops_def example_package_agent_def package_agent_def example_settings_def) code_simp+
  have loops: "line_loops ?ag ?L ?R = [(CHR ''a'', 2)]" "line_loops ?ag [] [Text_piece ''end''] = []"
    by (simp_all add: line_loops_def example_package_agent_def package_agent_def example_settings_def) code_simp+
  have "executed (plain_program ?ag ?sp ?L ?R) (\<lambda>_. 0) = [''  y[0]  = x[0];'', ''  y[1]  = x[1];'']"
    "executed (plain_program ?ag ?sp2 [] [Text_piece ''end'']) (\<lambda>_. 0) = [''end'']"
    unfolding plain_program_def loops by code_simp+
  then have out: "plain_output ?ag ?sp ?L ?R = [''  y[0]  = x[0];'', ''  y[1]  = x[1];'']"
    "plain_output ?ag ?sp2 [] [Text_piece ''end''] = [''end'']"
    by (simp_all add: plain_output_def size ag)
  have "plain_template_line ?ag ?line [''  y[0]  = x[0];'', ''  y[1]  = x[1];'']"
    unfolding plain_template_line_def ag Let_def using pl sp size out by (intro exI [of _ ?L] exI [of _ ?R]) simp
  moreover have "plain_template_line ?ag ''end'' [''end'']"
    unfolding plain_template_line_def ag Let_def using pl sp size out
    by (intro exI [of _ "[]"] exI [of _ "[Text_piece ''end'']"]) simp
  moreover have "List.tl (split_at NL example_template) = [?line, ''end'']" by code_simp
  ultimately show ?thesis by simp
qed

lemma example_group_quiet:
  assumes "\<not> tp_tag_set (be_pool (w_user w))"
  shows "\<exists>w'. group_end_of_input example_group w = (Inr (), w') \<and> w_user w' = w_user w"
  using assms
  by (simp add: group_end_of_input_def example_group_def add_rule_package_def package_group_new_def Let_def pool_package_def
      bindA_def returnA_def pool_end_of_input_def)

theorem plain_template_translated_witness:
  "\<exists>n f w'. translate_to_file example_translator example_open 100 ''core'' ''out.h'' process_core None
       (example_session False example_worker buffer_memory) = (Inr n, Some f, w')
    \<and> os_text f = text_of [''  y[0]  = x[0];'', ''  y[1]  = x[1]; // expansion of template line 2 '', ''end'']"
proof -
  let ?tr = example_translator and ?g = example_group and ?w = "example_session False example_worker buffer_memory"
  let ?outs = "[[''  y[0]  = x[0];'', ''  y[1]  = x[1];''], [''end'']]"
  obtain b where b: "buffer_open example_open ''out.h'' 100 = Inr b" by (auto simp: buffer_open_def example_open_def Let_def)
  have f: "finder_find (tr_fs ?tr) (tr_finder ?tr) (''core'' @ ''.h'') = Inr (Some ''/d/core.h'')"
    by (simp add: finder_find_def example_translator_def example_fs_def)
  have t: "tr_build ?tr ''/d/core.h'' ?w = (Inr ?g, ?w)" "tr_read ?tr ''/d/core.h'' = Some example_template"
    "package_agent (tr_settings ?tr) ?g = example_package_agent"
    by (simp_all add: example_translator_def example_package_agent_def)
  have ag: "tz_prefix (ma_tokenizer example_package_agent) \<noteq> []" "1 < ma_recursion_max example_package_agent"
    by (simp_all add: example_package_agent_def package_agent_def example_settings_def)
  have "pg_printer ?g = default_printer" "tr_annotate ?tr"
    by (simp_all add: example_group_def add_rule_package_def package_group_new_def Let_def example_translator_def)
  then have o: "template_output ?tr ?g None 2 ?outs
      = [''  y[0]  = x[0];'', ''  y[1]  = x[1]; // expansion of template line 2 '', ''end'']"
    unfolding template_output_def filtered_def expansion_def by simp code_simp
  have s: "concat (map (split_at NL) [''  y[0]  = x[0];'', ''  y[1]  = x[1]; // expansion of template line 2 '', ''end''])
      = [''  y[0]  = x[0];'', ''  y[1]  = x[1]; // expansion of template line 2 '', ''end'']" by code_simp
  from plain_template_translated [OF f t ag example_plain_lines example_group_quiet b, of process_core None, unfolded o s]
  have "\<exists>n f w'. translate_to_file ?tr example_open 100 ''core'' ''out.h'' process_core None ?w = (Inr n, Some f, w')
    \<and> os_text f = os_text (example_open ''out.h'')
        @ text_of [''  y[0]  = x[0];'', ''  y[1]  = x[1]; // expansion of template line 2 '', ''end'']" by blast
  moreover have "os_text (example_open ''out.h'') = []" by (simp add: example_open_def)
  ultimately show ?thesis by (simp only: append_Nil)
qed

end
