(* ===== verification/Worker_Scheduler.thy ===== *)
theory Worker_Scheduler
  imports Transport_Prelude
begin

text \<open>
  The scheduler of the master process, \<open>transport-runtime/manager/worker_scheduler.h\<close>: what is known of every worker,
  the queue of work items, the strategies that cut it into assignments, and the bookkeeping of items in flight.
  Durations are numbers of nanoseconds. Arguments of the model are the shuffling of the queue, the sorting of the
  workers, whose comparison is not an order, and what the conversion of a \<open>double\<close> to \<open>unsigned int\<close> gives
  (undefined for a value out of range). The clock, and the completion time estimated with it, are left out.
\<close>

section \<open>State\<close>

datatype worker_type = cpu_worker | gpu_worker

record worker_data =
  wk_number :: nat
  wk_type :: worker_type
  wk_capacity :: u32
  wk_priority :: u32
  wk_initialized :: bool
  wk_assigned :: bool
  wk_active :: bool
  wk_time :: nat
  wk_items :: u32

text \<open>The number is not set before the worker has identified itself.\<close>

definition worker_new :: worker_data where
  "worker_new = \<lparr>wk_number = 0, wk_type = cpu_worker, wk_capacity = 0, wk_priority = 0, wk_initialized = False,
     wk_assigned = False, wk_active = True, wk_time = 0, wk_items = 0\<rparr>"

definition mean_time_per_work_item :: "worker_data \<Rightarrow> nat" where
  "mean_time_per_work_item w = (if 0 < wk_items w then wk_time w div unat (wk_items w) else wk_time w)"

definition update_timing_data :: "nat \<Rightarrow> u32 \<Rightarrow> worker_data \<Rightarrow> worker_data" where
  "update_timing_data t n w = w\<lparr>wk_time := wk_time w + t, wk_items := wk_items w + n\<rparr>"

record sched =
  sc_number :: u32
  sc_workers :: "worker_data list"
  sc_waiting :: u32
  sc_unassigned :: u32
  sc_active :: u32
  sc_state_size :: u32
  sc_has_cpus :: bool
  sc_has_gpus :: bool
  sc_queue :: "u32 list"
  sc_max_alloc :: u32
  sc_granularity :: nat
  sc_total_agg :: nat
  sc_num_agg :: u32
  sc_total_work :: nat
  sc_completed :: u32
  sc_in_flight :: u32
  sc_cpu_estimate :: nat

text \<open>One minute.\<close>

definition default_granularity :: nat where
  "default_granularity = 1 * 60 * 1000 * 1000 * 1000"

definition sched_new :: "u32 \<Rightarrow> sched" where
  "sched_new nw =
     \<lparr>sc_number = nw, sc_workers = [], sc_waiting = 0, sc_unassigned = 0, sc_active = 0, sc_state_size = 0, sc_has_cpus = False,
      sc_has_gpus = False, sc_queue = [], sc_max_alloc = 1, sc_granularity = default_granularity, sc_total_agg = 0,
      sc_num_agg = 0, sc_total_work = 0, sc_completed = 0, sc_in_flight = 0, sc_cpu_estimate = 0\<rparr>"

text \<open>The queue, the largest allocation and the granularity are kept.\<close>

definition sched_reset :: "sched \<Rightarrow> sched" where
  "sched_reset s =
     s\<lparr>sc_workers := replicate (unat (sc_number s)) worker_new, sc_waiting := sc_number s, sc_unassigned := 0, sc_active := 0,
       sc_has_cpus := False, sc_has_gpus := False, sc_total_agg := 0, sc_total_work := 0, sc_num_agg := 0,
       sc_completed := 0, sc_in_flight := 0\<rparr>"

definition is_ready :: "sched \<Rightarrow> bool" where
  "is_ready s \<longleftrightarrow> sc_waiting s = 0"

definition update_worker :: "nat \<Rightarrow> (worker_data \<Rightarrow> worker_data) \<Rightarrow> sched \<Rightarrow> sched" where
  "update_worker i f s = s\<lparr>sc_workers := (sc_workers s)[i := f (sc_workers s ! i)]\<rparr>"

text \<open>A second identification is only logged. A worker that does not exist is an access out of bounds.\<close>

definition initialize_worker :: "nat \<Rightarrow> worker_type \<Rightarrow> u32 \<Rightarrow> u32 \<Rightarrow> (sched, unit) act" where
  "initialize_worker i tp capacity priority s =
     (if length (sc_workers s) \<le> i then (Inl Undefined, s)
      else if wk_initialized (sc_workers s ! i) then (Inr (), s)
      else (Inr (), update_worker i
              (\<lambda>w. w\<lparr>wk_number := i, wk_type := tp, wk_capacity := capacity, wk_priority := priority, wk_initialized := True\<rparr>)
              (s\<lparr>sc_has_cpus := (sc_has_cpus s \<or> tp = cpu_worker), sc_has_gpus := (sc_has_gpus s \<or> tp = gpu_worker),
                 sc_waiting := sc_waiting s - 1, sc_unassigned := sc_unassigned s + 1, sc_active := sc_active s + 1\<rparr>)))"

section \<open>The queue\<close>

definition build_queue :: "(u32 list \<Rightarrow> u32 list) \<Rightarrow> u32 list \<Rightarrow> sched \<Rightarrow> sched" where
  "build_queue shuffle serials s = s\<lparr>sc_queue := shuffle (remdups_adj (sort serials))\<rparr>"

text \<open>From a set of serial numbers, which is traversed in order.\<close>

definition seed_queue :: "(u32 list \<Rightarrow> u32 list) \<Rightarrow> u32 set \<Rightarrow> sched \<Rightarrow> sched" where
  "seed_queue shuffle serials s = s\<lparr>sc_queue := shuffle (sorted_list_of_set serials)\<rparr>"

definition is_finished :: "sched \<Rightarrow> bool" where
  "is_finished s \<longleftrightarrow> sc_queue s = []"

definition complete_queue_setup :: "sched \<Rightarrow> sched" where
  "complete_queue_setup s =
     s\<lparr>sc_max_alloc := (if sc_workers s \<noteq> [] then max (of_nat (length (sc_queue s) div (5 * length (sc_workers s)))) 1 else 1)\<rparr>"

definition assignable :: "sched \<Rightarrow> bool" where
  "assignable s \<longleftrightarrow> sc_queue s \<noteq> [] \<and> 0 < sc_unassigned s"

section \<open>Bookkeeping\<close>

type_synonym work_assignment = "nat \<times> u32 list"

primrec remove_items :: "nat \<Rightarrow> u32 list \<Rightarrow> (sched, unit) act" where
  "remove_items worker [] s = (Inr (), s)"
| "remove_items worker (x # xs) s =
     (if x \<notin> set (sc_queue s) then (Inl (Runtime_error ''CPPTRANSPORT_SCHEDULING_ASSIGN_NOT_EXIST''), s)
      else remove_items worker xs (s\<lparr>sc_queue := remove1 x (sc_queue s), sc_in_flight := sc_in_flight s + 1\<rparr>))"

definition mark_assigned :: "work_assignment \<Rightarrow> (sched, unit) act" where
  "mark_assigned a s =
     (if sc_unassigned s = 0 then (Inl (Runtime_error ''CPPTRANSPORT_SCHEDULING_NO_UNASSIGNED''), s)
      else if length (sc_workers s) \<le> fst a then (Inl Undefined, s)
      else if wk_assigned (sc_workers s ! fst a) then (Inl (Runtime_error ''CPPTRANSPORT_SCHEDULING_ALREADY_ASSIGNED''), s)
      else remove_items (fst a) (snd a)
             (update_worker (fst a) (\<lambda>w. w\<lparr>wk_assigned := True\<rparr>) (s\<lparr>sc_unassigned := sc_unassigned s - 1\<rparr>)))"

definition mean_time_per_item :: "sched \<Rightarrow> nat" where
  "mean_time_per_item s = (if 0 < sc_completed s then sc_total_work s div unat (sc_completed s) else sc_total_work s)"

definition update_estimate :: "sched \<Rightarrow> sched" where
  "update_estimate s =
     s\<lparr>sc_cpu_estimate := sc_total_work s + mean_time_per_item s * (unat (sc_in_flight s) + length (sc_queue s))\<rparr>"

text \<open>The completed items are counted before the items in flight are looked at.\<close>

definition mark_unassigned :: "nat \<Rightarrow> nat \<Rightarrow> u32 \<Rightarrow> (sched, unit) act" where
  "mark_unassigned i time items s =
     (if length (sc_workers s) \<le> i then (Inl (Runtime_error ''CPPTRANSPORT_SCHEDULING_INDEX_OUT_OF_RANGE''), s)
      else if \<not> wk_assigned (sc_workers s ! i) then (Inl (Runtime_error ''CPPTRANSPORT_SCHEDULING_NOT_ALREADY_ASSIGNED''), s)
      else
        (let s1 = update_worker i (\<lambda>w. (update_timing_data time items w)\<lparr>wk_assigned := False\<rparr>)
               (s\<lparr>sc_unassigned := sc_unassigned s + 1, sc_completed := sc_completed s + items\<rparr>)
         in if sc_in_flight s1 < items then (Inl (Runtime_error ''CPPTRANSPORT_SCHEDULING_OVERRELEASE_INFLIGHT''), s1)
            else (Inr (), update_estimate
                    (s1\<lparr>sc_in_flight := sc_in_flight s1 - items, sc_total_work := sc_total_work s1 + time\<rparr>))))"

definition mark_inactive :: "nat \<Rightarrow> (sched, unit) act" where
  "mark_inactive i s =
     (if length (sc_workers s) \<le> i then (Inl (Runtime_error ''CPPTRANSPORT_SCHEDULING_INDEX_OUT_OF_RANGE''), s)
      else if \<not> wk_active (sc_workers s ! i) then (Inl (Runtime_error ''CPPTRANSPORT_SCHEDULING_ALREADY_INACTIVE''), s)
      else
        (let s1 = update_worker i (\<lambda>w. w\<lparr>wk_active := False\<rparr>) (s\<lparr>sc_active := sc_active s - 1\<rparr>)
         in if sc_active s1 = 0 \<and> 0 < sc_in_flight s1 then (Inl (Runtime_error ''CPPTRANSPORT_SCHEDULING_UNDER_INFLIGHT''), s1)
            else (Inr (), s1)))"

definition all_inactive :: "sched \<Rightarrow> bool" where
  "all_inactive s \<longleftrightarrow> sc_active s = 0"

definition sched_worker :: "sched \<Rightarrow> nat \<Rightarrow> exn + worker_data" where
  "sched_worker s i =
     (if length (sc_workers s) \<le> i then Inl (Runtime_error ''CPPTRANSPORT_SCHEDULING_INDEX_OUT_OF_RANGE'')
      else Inr (sc_workers s ! i))"

text \<open>Work should last many times longer than an aggregation.\<close>

definition report_aggregation :: "nat \<Rightarrow> sched \<Rightarrow> sched" where
  "report_aggregation time s =
     (let s1 = s\<lparr>sc_total_agg := sc_total_agg s + time, sc_num_agg := sc_num_agg s + 1\<rparr>;
          mean = sc_total_agg s1 div unat (sc_num_agg s1)
      in s1\<lparr>sc_granularity := (if default_granularity < 10 * mean then 10 * mean else default_granularity)\<rparr>)"

section \<open>Strategies\<close>

record sched_env =
  se_sort :: "(worker_data \<Rightarrow> worker_data \<Rightarrow> bool) \<Rightarrow> worker_data list \<Rightarrow> worker_data list"
  se_cast :: "nat \<Rightarrow> u32"

text \<open>Two workers without any time come before each other.\<close>

definition mean_time_less :: "worker_data \<Rightarrow> worker_data \<Rightarrow> bool" where
  "mean_time_less a b \<longleftrightarrow>
     (if wk_time a = 0 then True else if wk_time b = 0 then False
      else mean_time_per_work_item a < mean_time_per_work_item b)"

definition unassigned_workers :: "sched \<Rightarrow> worker_data list" where
  "unassigned_workers s = filter (\<lambda>w. \<not> wk_assigned w) (sc_workers s)"

text \<open>The rounded-down quotient of the queue length and the geometric mean of two numbers of workers, in integers.\<close>

definition mean_share :: "nat \<Rightarrow> nat \<Rightarrow> nat" where
  "mean_share q n = length (takeWhile (\<lambda>k. Suc k * Suc k * n \<le> q * q) [0..<q])"

definition max_allocation_per_worker :: "sched_env \<Rightarrow> sched \<Rightarrow> u32" where
  "max_allocation_per_worker env s =
     max 1 (se_cast env (mean_share (length (sc_queue s)) (length (unassigned_workers s) * length (sc_workers s))))"

definition items_per_granularity :: "sched_env \<Rightarrow> sched \<Rightarrow> worker_data \<Rightarrow> u32" where
  "items_per_granularity env s w =
     (let t = mean_time_per_work_item w in max 1 (se_cast env (if 0 < t then sc_granularity s div t else 1)))"

definition unit_of_work :: "sched_env \<Rightarrow> sched \<Rightarrow> worker_data \<Rightarrow> u32" where
  "unit_of_work env s w = (let u = min (sc_max_alloc s) (items_per_granularity env s w) in if u = 0 then 1 else u)"

text \<open>A worker that has not worked yet gets a single item.\<close>

definition cpu_share :: "sched_env \<Rightarrow> sched \<Rightarrow> worker_data \<Rightarrow> nat" where
  "cpu_share env s w =
     (if wk_time w = 0 then 1 else unat (min (unit_of_work env s w) (max_allocation_per_worker env s)))"

fun assign_from :: "(worker_data \<Rightarrow> nat) \<Rightarrow> worker_data list \<Rightarrow> u32 list \<Rightarrow> work_assignment list" where
  "assign_from share [] queue = []"
| "assign_from share (w # ws) queue =
     (if queue = [] then [] else (wk_number w, take (share w) queue) # assign_from share ws (drop (share w) queue))"

definition assign_work_cpu :: "sched_env \<Rightarrow> sched \<Rightarrow> exn + work_assignment list" where
  "assign_work_cpu env s =
     Inr (assign_from (cpu_share env s) (se_sort env mean_time_less (unassigned_workers s)) (sc_queue s))"

text \<open>An equal share for every worker, one more for the first of them when there is a remainder.\<close>

fun assign_shares :: "nat \<Rightarrow> nat \<Rightarrow> nat \<Rightarrow> worker_data list \<Rightarrow> u32 list \<Rightarrow> work_assignment list" where
  "assign_shares per left c [] queue = []"
| "assign_shares per left c (w # ws) queue =
     (let n = per + (if c < left then 1 else 0)
      in if queue = [] then [] else (wk_number w, take n queue) # assign_shares per left (Suc c) ws (drop n queue))"

definition assign_work_gpu :: "sched \<Rightarrow> exn + work_assignment list" where
  "assign_work_gpu s =
     (let ws = unassigned_workers s in
      if length ws \<noteq> unat (sc_unassigned s) then Inl (Runtime_error ''CPPTRANSPORT_SCHEDULING_UNASSIGNED_MISMATCH'')
      else if ws = [] then Inl Undefined
      else Inr (assign_shares (length (sc_queue s) div length ws) (length (sc_queue s) mod length ws) 0 ws (sc_queue s)))"

definition assign_work :: "sched_env \<Rightarrow> sched \<Rightarrow> exn + work_assignment list" where
  "assign_work env s =
     (if sc_has_cpus s \<and> \<not> sc_has_gpus s then assign_work_cpu env s
      else if sc_has_gpus s \<and> \<not> sc_has_cpus s then assign_work_gpu s
      else Inl (Runtime_error ''Mixed CPU/GPU scheduling is not yet implemented''))"

end
