(* ===== verification/Worker_Strategies.thy ===== *)
theory Worker_Strategies
  imports Worker_Scheduler Complex_Main "HOL-Library.Multiset"
begin

text \<open>
  Facts of the scheduler: the invariant of its bookkeeping, what every strategy owes to the master process, stated as a
  locale, and the two strategies as instances of it.
\<close>

section \<open>Shares\<close>

lemma length_takeWhile_upt:
  assumes "\<And>k. k < m \<Longrightarrow> P k" and "m \<le> q" and "m < q \<Longrightarrow> \<not> P m"
  shows "length (takeWhile P [0..<q]) = m"
proof -
  have "[0..<q] = [0..<m] @ [m..<q]" using assms(2) by (metis le0 le_Suc_ex upt_add_eq_append)
  moreover have "takeWhile P [m..<q] = []" using assms(2,3) by (cases "m < q") (simp_all add: upt_rec)
  moreover have "takeWhile P ([0..<m] @ [m..<q]) = [0..<m] @ takeWhile P [m..<q]"
    by (rule takeWhile_append2) (simp add: assms(1))
  ultimately show ?thesis by simp
qed

text \<open>The share is the quotient by the geometric mean, rounded down.\<close>

lemma mean_share_floor:
  assumes "0 < n"
  shows "mean_share q n = nat \<lfloor>real q / sqrt (real n)\<rfloor>"
proof -
  let ?m = "nat \<lfloor>real q / sqrt (real n)\<rfloor>"
  have pos: "0 < sqrt (real n)" using assms by simp
  have iff: "k \<le> ?m \<longleftrightarrow> k * k * n \<le> q * q" for k
  proof -
    have "k \<le> ?m \<longleftrightarrow> real k \<le> real q / sqrt (real n)" using pos by (simp add: le_nat_floor nat_le_iff le_floor_iff le_nat_iff)
    also have "\<dots> \<longleftrightarrow> real k * sqrt (real n) \<le> real q" using pos by (simp add: pos_le_divide_eq)
    also have "\<dots> \<longleftrightarrow> (real k * sqrt (real n))\<^sup>2 \<le> (real q)\<^sup>2" using pos by (simp add: power2_le_iff_abs_le abs_mult)
    also have "(real k * sqrt (real n))\<^sup>2 = real (k * k * n)" by (simp add: power_mult_distrib) (simp add: power2_eq_square)
    also have "(real q)\<^sup>2 = real (q * q)" by (simp add: power2_eq_square)
    finally show ?thesis by (simp only: of_nat_le_iff)
  qed
  have "?m \<le> q"
  proof (rule ccontr)
    assume "\<not> ?m \<le> q"
    then have "Suc q * Suc q * n \<le> q * q" using iff [of "Suc q"] by simp
    moreover have "Suc q * Suc q * 1 \<le> Suc q * Suc q * n" using assms by (intro mult_le_mono) simp_all
    ultimately show False by simp
  qed
  moreover have "\<not> Suc ?m * Suc ?m * n \<le> q * q" using iff [of "Suc ?m"] by simp
  moreover have "Suc k * Suc k * n \<le> q * q" if "k < ?m" for k using that iff [of "Suc k"] by simp
  ultimately show ?thesis unfolding mean_share_def by (intro length_takeWhile_upt) simp_all
qed

section \<open>The invariant\<close>

definition sched_ok :: "sched \<Rightarrow> bool" where
  "sched_ok s \<longleftrightarrow> length (sc_workers s) < 2 ^ 32 \<and> (\<forall>i < length (sc_workers s). wk_number (sc_workers s ! i) = i)
     \<and> sc_unassigned s = of_nat (length (unassigned_workers s)) \<and> distinct (sc_queue s)"

lemma filter_update_length:
  assumes "i < length xs"
  shows "length (filter P (xs[i := y])) + (if P (xs ! i) then 1 else 0) = length (filter P xs) + (if P y then 1 else 0)"
proof -
  have "length (filter P xs) = length (filter P (take i xs @ xs ! i # drop (Suc i) xs))"
    unfolding id_take_nth_drop [OF assms, symmetric] ..
  moreover have "length (filter P (xs[i := y]))
      = length (filter P (take i xs)) + (if P y then 1 else 0) + length (filter P (drop (Suc i) xs))"
    using assms by (simp add: upd_conv_take_nth_drop)
  ultimately show ?thesis by simp
qed

lemma unassigned_bound: "length (unassigned_workers s) \<le> length (sc_workers s)"
  by (simp add: unassigned_workers_def)

lemma sched_ok_unassigned: "sched_ok s \<Longrightarrow> unat (sc_unassigned s) = length (unassigned_workers s)"
  using unassigned_bound [of s] by (simp add: sched_ok_def unsigned_of_nat take_bit_nat_eq_self)

lemma assignable_iff: "sched_ok s \<Longrightarrow> assignable s \<longleftrightarrow> sc_queue s \<noteq> [] \<and> unassigned_workers s \<noteq> []"
  using sched_ok_unassigned [of s] by (simp add: assignable_def word_less_nat_alt)

lemma remove_items_prefix:
  "sc_queue s = xs @ q \<Longrightarrow>
    remove_items w xs s = (Inr (), s\<lparr>sc_queue := q, sc_in_flight := sc_in_flight s + of_nat (length xs)\<rparr>)"
  by (induction xs arbitrary: s) (simp_all add: add.assoc)

definition assigned_state :: "nat \<Rightarrow> u32 list \<Rightarrow> u32 list \<Rightarrow> sched \<Rightarrow> sched" where
  "assigned_state w xs q s =
     (update_worker w (\<lambda>d. d\<lparr>wk_assigned := True\<rparr>) (s\<lparr>sc_unassigned := sc_unassigned s - 1\<rparr>))
       \<lparr>sc_queue := q, sc_in_flight := sc_in_flight s + of_nat (length xs)\<rparr>"

lemma in_unassigned: "w < length (sc_workers s) \<Longrightarrow> \<not> wk_assigned (sc_workers s ! w) \<Longrightarrow> unassigned_workers s \<noteq> []"
  by (auto simp: unassigned_workers_def filter_empty_conv)

lemma mark_assigned_prefix:
  assumes "sched_ok s" and "w < length (sc_workers s)" and "\<not> wk_assigned (sc_workers s ! w)" and "sc_queue s = xs @ q"
  shows "mark_assigned (w, xs) s = (Inr (), assigned_state w xs q s)" and "sched_ok (assigned_state w xs q s)"
proof -
  have n: "0 < length (unassigned_workers s)" using in_unassigned [OF assms(2,3)] by simp
  then have "sc_unassigned s \<noteq> 0" using sched_ok_unassigned [OF assms(1)] by auto
  then show "mark_assigned (w, xs) s = (Inr (), assigned_state w xs q s)"
    using assms(2-4) by (simp add: mark_assigned_def assigned_state_def update_worker_def remove_items_prefix [where q = q])
  let ?ws = "(sc_workers s)[w := (sc_workers s ! w)\<lparr>wk_assigned := True\<rparr>]"
  have "Suc (length (filter (\<lambda>w. \<not> wk_assigned w) ?ws)) = length (unassigned_workers s)"
    using filter_update_length [OF assms(2), of "\<lambda>w. \<not> wk_assigned w" "(sc_workers s ! w)\<lparr>wk_assigned := True\<rparr>"] assms(3)
    by (simp add: unassigned_workers_def)
  then have "of_nat (length (unassigned_workers s)) - 1 = (of_nat (length (filter (\<lambda>w. \<not> wk_assigned w) ?ws)) :: u32)"
    by (metis add_diff_cancel_left' of_nat_Suc)
  then show "sched_ok (assigned_state w xs q s)"
    using assms(1,2,4) by (auto simp: sched_ok_def assigned_state_def update_worker_def unassigned_workers_def nth_list_update)
qed

section \<open>What a strategy owes\<close>

definition valid_assignments :: "sched \<Rightarrow> work_assignment list \<Rightarrow> bool" where
  "valid_assignments s as \<longleftrightarrow> distinct (map fst as) \<and> (\<exists>q. sc_queue s = concat (map snd as) @ q)
     \<and> (\<forall>(w, xs) \<in> set as. w < length (sc_workers s) \<and> \<not> wk_assigned (sc_workers s ! w) \<and> xs \<noteq> [])"

primrec mark_all :: "work_assignment list \<Rightarrow> (sched, unit) act" where
  "mark_all [] = returnA ()"
| "mark_all (a # as) = bindA (mark_assigned a) (\<lambda>_. mark_all as)"

fun assigned_all :: "work_assignment list \<Rightarrow> sched \<Rightarrow> sched" where
  "assigned_all [] s = s"
| "assigned_all ((w, xs) # as) s = assigned_all as (assigned_state w xs (drop (length xs) (sc_queue s)) s)"

lemma valid_assignments_step:
  assumes "valid_assignments s ((w, xs) # as)"
  shows "w < length (sc_workers s)" "\<not> wk_assigned (sc_workers s ! w)" "xs \<noteq> []"
    "sc_queue s = xs @ drop (length xs) (sc_queue s)"
    "valid_assignments (assigned_state w xs (drop (length xs) (sc_queue s)) s) as"
proof -
  obtain q where q: "sc_queue s = xs @ concat (map snd as) @ q" using assms by (auto simp: valid_assignments_def)
  show "w < length (sc_workers s)" "\<not> wk_assigned (sc_workers s ! w)" "xs \<noteq> []"
    using assms by (auto simp: valid_assignments_def)
  show "sc_queue s = xs @ drop (length xs) (sc_queue s)" using q by simp
  have "w \<noteq> v" if "(v, ys) \<in> set as" for v ys using assms that by (force simp: valid_assignments_def)
  then show "valid_assignments (assigned_state w xs (drop (length xs) (sc_queue s)) s) as"
    using assms q by (auto simp: valid_assignments_def assigned_state_def update_worker_def)
qed

lemma mark_all_valid:
  assumes "sched_ok s" and "valid_assignments s as"
  shows "mark_all as s = (Inr (), assigned_all as s) \<and> sched_ok (assigned_all as s)"
  using assms
proof (induction as arbitrary: s)
  case Nil
  then show ?case by (simp add: returnA_def)
next
  case (Cons a as)
  obtain w xs where a: "a = (w, xs)" by (cases a)
  note st = valid_assignments_step [OF Cons.prems(2) [unfolded a]]
  note m = mark_assigned_prefix [OF Cons.prems(1) st(1,2,4)]
  from Cons.IH [OF m(2) st(5)] m(1) show ?case by (simp add: a bindA_def)
qed

text \<open>A strategy works for the pools it is made for; the sorting function permutes.\<close>

definition env_ok :: "sched_env \<Rightarrow> bool" where
  "env_ok env \<longleftrightarrow> (\<forall>less ws. mset (se_sort env less ws) = mset ws)"

locale work_strategy =
  fixes pool :: "sched \<Rightarrow> bool"
    and assign :: "sched_env \<Rightarrow> sched \<Rightarrow> exn + work_assignment list"
  assumes cut: "env_ok env \<Longrightarrow> sched_ok s \<Longrightarrow> pool s \<Longrightarrow> assignable s
      \<Longrightarrow> \<exists>as. assign env s = Inr as \<and> as \<noteq> [] \<and> valid_assignments s as"
    and pool_cong: "sc_has_cpus s = sc_has_cpus t \<Longrightarrow> sc_has_gpus s = sc_has_gpus t \<Longrightarrow> pool s \<longleftrightarrow> pool t"
begin

text \<open>The master can mark what it is given, and does so without an error.\<close>

lemma round:
  assumes "env_ok env" and "sched_ok s" and "pool s" and "assignable s"
  obtains as where "assign env s = Inr as" "as \<noteq> []" "valid_assignments s as" "mark_all as s = (Inr (), assigned_all as s)"
    "sched_ok (assigned_all as s)"
  using cut [OF assms] mark_all_valid [OF assms(2)] by blast

end

section \<open>Cutting the queue\<close>

text \<open>Both strategies cut pieces of given lengths off the queue, as long as it lasts.\<close>

fun cut_by :: "nat list \<Rightarrow> worker_data list \<Rightarrow> u32 list \<Rightarrow> work_assignment list" where
  "cut_by (n # ns) (w # ws) q = (if q = [] then [] else (wk_number w, take n q) # cut_by ns ws (drop n q))"
| "cut_by ns ws q = []"

lemma assign_from_cut: "assign_from share ws q = cut_by (map share ws) ws q"
  by (induction share ws q rule: assign_from.induct) simp_all

definition gpu_share :: "nat \<Rightarrow> nat \<Rightarrow> nat \<Rightarrow> nat" where
  "gpu_share per left i = per + (if i < left then 1 else 0)"

lemma assign_shares_cut: "assign_shares per left c ws q = cut_by (map (gpu_share per left) [c..<c + length ws]) ws q"
proof (induction per left c ws q rule: assign_shares.induct)
  case (2 per left c w ws q)
  have "[c..<c + length (w # ws)] = c # [Suc c..<Suc c + length ws]" by (simp add: upt_rec)
  with 2 show ?case by (simp add: gpu_share_def Let_def)
qed simp

text \<open>A piece may have no length only where nothing is left.\<close>

definition lasting :: "nat list \<Rightarrow> nat \<Rightarrow> bool" where
  "lasting ns l \<longleftrightarrow> (\<forall>i < length ns. ns ! i = 0 \<longrightarrow> l \<le> sum_list (take i ns))"

lemma lasting_step: "lasting (n # ns) l \<Longrightarrow> lasting ns (l - n)"
  unfolding lasting_def by (fastforce dest: spec [of _ "Suc i" for i])

lemma lasting_positive: "lasting (n # ns) l \<Longrightarrow> 0 < l \<Longrightarrow> 0 < n"
  by (auto simp: lasting_def)

lemma cut_by_pieces:
  assumes "lasting ns (length q)"
  shows "(\<exists>k. map fst (cut_by ns ws q) = take k (map wk_number ws)) \<and> (\<exists>r. q = concat (map snd (cut_by ns ws q)) @ r)
    \<and> (\<forall>a \<in> set (cut_by ns ws q). snd a \<noteq> [])"
  using assms
proof (induction ns ws q rule: cut_by.induct)
  case (1 n ns w ws q)
  show ?case
  proof (cases "q = []")
    case True
    then show ?thesis by (auto intro: exI [of _ 0])
  next
    case False
    have n: "take n q \<noteq> []" using lasting_positive [OF 1(2)] False by simp
    have "lasting ns (length (drop n q))" using lasting_step [OF 1(2)] by simp
    with 1(1) [OF False] obtain k r where k: "map fst (cut_by ns ws (drop n q)) = take k (map wk_number ws)"
      and r: "drop n q = concat (map snd (cut_by ns ws (drop n q))) @ r"
      and ne: "\<forall>a \<in> set (cut_by ns ws (drop n q)). snd a \<noteq> []" by auto
    have e: "cut_by (n # ns) (w # ws) q = (wk_number w, take n q) # cut_by ns ws (drop n q)" using False by simp
    have "map fst (cut_by (n # ns) (w # ws) q) = take (Suc k) (map wk_number (w # ws))" unfolding e by (simp add: k)
    moreover have "concat (map snd (cut_by (n # ns) (w # ws) q)) @ r = take n q @ drop n q"
      unfolding e by (simp add: r [symmetric])
    then have "q = concat (map snd (cut_by (n # ns) (w # ws) q)) @ r" by simp
    moreover have "\<forall>a \<in> set (cut_by (n # ns) (w # ws) q). snd a \<noteq> []" unfolding e using ne n by auto
    ultimately show ?thesis by blast
  qed
qed (auto intro: exI [of _ 0])

lemma unassigned_numbers:
  assumes "sched_ok s" and "mset ws = mset (unassigned_workers s)"
  shows "distinct (map wk_number ws)"
    and "v \<in> wk_number ` set ws \<Longrightarrow> v < length (sc_workers s) \<and> \<not> wk_assigned (sc_workers s ! v)"
proof -
  have n: "map wk_number (sc_workers s) = [0..<length (sc_workers s)]"
    using assms(1) by (intro nth_equalityI) (simp_all add: sched_ok_def)
  have "distinct (map wk_number (unassigned_workers s))"
    unfolding unassigned_workers_def by (rule distinct_map_filter) (simp add: n)
  moreover have "mset (map wk_number ws) = mset (map wk_number (unassigned_workers s))" using assms(2) by simp
  ultimately show "distinct (map wk_number ws)" by (metis mset_eq_imp_distinct_iff)
  assume "v \<in> wk_number ` set ws"
  then obtain w where w: "w \<in> set (unassigned_workers s)" "v = wk_number w" using assms(2) by (metis imageE set_mset_mset)
  then obtain i where i: "i < length (sc_workers s)" "sc_workers s ! i = w" "\<not> wk_assigned w"
    by (auto simp: unassigned_workers_def in_set_conv_nth)
  with assms(1) w(2) have "v = i" by (auto simp: sched_ok_def)
  with i show "v < length (sc_workers s) \<and> \<not> wk_assigned (sc_workers s ! v)" by simp
qed

lemma cut_valid:
  assumes "sched_ok s" and "mset ws = mset (unassigned_workers s)" and "lasting ns (length (sc_queue s))"
    and "length ns = length ws" and "ws \<noteq> []" and "sc_queue s \<noteq> []"
  shows "cut_by ns ws (sc_queue s) \<noteq> [] \<and> valid_assignments s (cut_by ns ws (sc_queue s))"
proof -
  let ?as = "cut_by ns ws (sc_queue s)"
  note p = cut_by_pieces [OF assms(3), of ws]
  from p obtain k where k: "map fst ?as = take k (map wk_number ws)" by blast
  have d: "distinct (map fst ?as)" unfolding k using unassigned_numbers(1) [OF assms(1,2)] by simp
  have "fst a \<in> wk_number ` set ws" if "a \<in> set ?as" for a
    using that k by (metis imageI in_set_takeD list.set_map)
  then have "\<forall>(w, xs) \<in> set ?as. w < length (sc_workers s) \<and> \<not> wk_assigned (sc_workers s ! w) \<and> xs \<noteq> []"
    using unassigned_numbers(2) [OF assms(1,2)] p by fastforce
  moreover have "?as \<noteq> []" using assms(4-6) by (cases ns; cases ws) simp_all
  ultimately show ?thesis using d p unfolding valid_assignments_def by blast
qed

section \<open>The two strategies\<close>

definition cpu_pool :: "sched \<Rightarrow> bool" where
  "cpu_pool s \<longleftrightarrow> sc_has_cpus s \<and> \<not> sc_has_gpus s"

definition gpu_pool :: "sched \<Rightarrow> bool" where
  "gpu_pool s \<longleftrightarrow> sc_has_gpus s \<and> \<not> sc_has_cpus s"

lemma cpu_share_positive: "0 < cpu_share env s w"
proof -
  have "unit_of_work env s w \<noteq> 0" by (simp add: unit_of_work_def Let_def)
  moreover have "max_allocation_per_worker env s \<noteq> 0"
    using max.cobounded1 [of 1 "se_cast env (mean_share (length (sc_queue s)) (length (unassigned_workers s) * length (sc_workers s)))"]
    unfolding max_allocation_per_worker_def by (metis word_le_0_iff zero_neq_one)
  ultimately show ?thesis by (simp add: cpu_share_def min_def unat_gt_0)
qed

lemma gpu_shares_lasting:
  assumes "0 < n"
  shows "lasting (map (gpu_share (l div n) (l mod n)) [0..<n]) l"
  unfolding lasting_def
proof (intro allI impI)
  let ?ns = "map (gpu_share (l div n) (l mod n)) [0..<n]"
  fix i assume i: "i < length ?ns" "?ns ! i = 0"
  then have z: "l div n = 0" "l mod n \<le> i" by (auto simp: gpu_share_def split: if_splits)
  have "sum_list (map (gpu_share 0 m) [0..<j]) = min m j" for m j
    by (induction j) (simp_all add: gpu_share_def)
  then have "sum_list (take i ?ns) = min (l mod n) i" using i(1) z(1) by (simp add: take_map)
  moreover have "l = l mod n" using z(1) by (metis add_0 mult_0_right div_mult_mod_eq mult_zero_left)
  ultimately show "l \<le> sum_list (take i ?ns)" using z(2) by simp
qed

interpretation cpu: work_strategy cpu_pool assign_work_cpu
proof
  fix env s
  assume a: "env_ok env" "sched_ok s" "cpu_pool s" "assignable s"
  let ?ws = "se_sort env mean_time_less (unassigned_workers s)"
  have m: "mset ?ws = mset (unassigned_workers s)" using a(1) by (simp add: env_ok_def)
  have ne: "sc_queue s \<noteq> []" "?ws \<noteq> []" using a(4) m by (auto simp: assignable_iff [OF a(2)])
  have "lasting (map (cpu_share env s) ?ws) (length (sc_queue s))"
    using cpu_share_positive [of env s] by (auto simp: lasting_def dest: less_not_refl2)
  from cut_valid [OF a(2) m this _ ne(2,1)]
  show "\<exists>as. assign_work_cpu env s = Inr as \<and> as \<noteq> [] \<and> valid_assignments s as"
    by (simp add: assign_work_cpu_def assign_from_cut)
qed (simp add: cpu_pool_def)

interpretation gpu: work_strategy gpu_pool "\<lambda>_. assign_work_gpu"
proof
  fix env s
  assume a: "env_ok env" "sched_ok s" "gpu_pool s" "assignable s"
  let ?ws = "unassigned_workers s"
  have ne: "sc_queue s \<noteq> []" "?ws \<noteq> []" using a(4) by (auto simp: assignable_iff [OF a(2)])
  from cut_valid [OF a(2) refl gpu_shares_lasting _ ne(2,1)] ne(2)
  show "\<exists>as. assign_work_gpu s = Inr as \<and> as \<noteq> [] \<and> valid_assignments s as"
    by (simp add: assign_work_gpu_def Let_def sched_ok_unassigned [OF a(2)] assign_shares_cut)
qed (simp add: gpu_pool_def)

text \<open>The choice between them serves every pool of one kind.\<close>

definition uniform_pool :: "sched \<Rightarrow> bool" where
  "uniform_pool s \<longleftrightarrow> sc_has_cpus s \<noteq> sc_has_gpus s"

interpretation any: work_strategy uniform_pool assign_work
proof
  fix env s
  assume a: "env_ok env" "sched_ok s" "uniform_pool s" "assignable s"
  show "\<exists>as. assign_work env s = Inr as \<and> as \<noteq> [] \<and> valid_assignments s as"
  proof (cases "cpu_pool s")
    case True
    then show ?thesis using cpu.cut [OF a(1,2) True a(4)] by (simp add: assign_work_def cpu_pool_def)
  next
    case False
    then have "gpu_pool s" using a(3) by (auto simp: cpu_pool_def gpu_pool_def uniform_pool_def)
    then show ?thesis using gpu.cut [OF a(1,2) _ a(4)] by (simp add: assign_work_def gpu_pool_def)
  qed
qed (simp add: uniform_pool_def)

end
