(* ===== verification/Work_Distribution.thy ===== *)
theory Work_Distribution
  imports Complex_Main Worker_Scheduler
begin

text \<open>
  The distribution of work over the processes of a run: the polling loop of the master (\<open>poll_workers\<close> and the functions
  it calls, \<open>manager/detail/master_controller_core.h\<close>), the loop of a worker (\<open>schedule_integration\<close> and
  \<open>schedule_postintegration\<close>, \<open>slave_controller_impl.h\<close>) and the messages between them, as a step relation. MPI keeps
  the order of the messages of a pair of processes; everything else may interleave. Arguments of the model are the
  outcome of the integrations and of an aggregation, the order of the scheduler's sort and the clock, in seconds. Left
  out: journal, log, progress reports and the advice of the completion time.
\<close>

section \<open>Worker manager\<close>

text \<open>\<open>manager/worker_manager.h\<close>: per task the times of contact with every worker and its load averages.\<close>

record management_data =
  md_contacts :: "nat list"
  md_loads :: "rat list"

record worker_manager =
  wm_number :: nat
  wm_data :: "string \<rightharpoonup> management_data list"
  wm_current :: "string option"

definition management_new :: "nat \<Rightarrow> management_data" where
  "management_new now = \<lparr>md_contacts = [now], md_loads = [0]\<rparr>"

definition manager_new :: "nat \<Rightarrow> worker_manager" where
  "manager_new n = \<lparr>wm_number = n, wm_data = Map.empty, wm_current = None\<rparr>"

definition new_task :: "nat \<Rightarrow> string \<Rightarrow> (worker_manager, unit) act" where
  "new_task now task m =
     (if wm_data m task \<noteq> None then (Inl (Runtime_error ''CPPTRANSPORT_WORKER_MANAGER_NEW_TASK_FAIL''), m)
      else (Inr (), m\<lparr>wm_data := (wm_data m)(task \<mapsto> replicate (wm_number m) (management_new now)),
                      wm_current := Some task\<rparr>))"

definition manage :: "nat \<Rightarrow> (management_data \<Rightarrow> management_data) \<Rightarrow> (worker_manager, unit) act" where
  "manage w f m =
     (case wm_current m of
        None \<Rightarrow> (Inl (Runtime_error ''CPPTRANSPORT_WORKER_MANAGER_NO_ACTIVE_TASK''), m)
      | Some task \<Rightarrow>
          (let ws = the (wm_data m task) in
           if length ws \<le> w then (Inl (Runtime_error ''CPPTRANSPORT_WORKER_MANAGER_OUT_OF_RANGE''), m)
           else (Inr (), m\<lparr>wm_data := (wm_data m)(task \<mapsto> ws[w := f (ws ! w)])\<rparr>)))"

text \<open>The time of the contact is the time of the update, whatever the argument.\<close>

definition update_contact_time :: "nat \<Rightarrow> nat \<Rightarrow> (worker_manager, unit) act" where
  "update_contact_time now w = manage w (\<lambda>d. d\<lparr>md_contacts := now # md_contacts d\<rparr>)"

definition update_load_average :: "rat \<Rightarrow> nat \<Rightarrow> (worker_manager, unit) act" where
  "update_load_average load w = manage w (\<lambda>d. d\<lparr>md_loads := load # md_loads d\<rparr>)"

section \<open>Reports\<close>

record finished_integration =
  fi_integration :: nat
  fi_max_integration :: nat
  fi_min_integration :: nat
  fi_batching :: nat
  fi_max_batching :: nat
  fi_min_batching :: nat
  fi_wallclock :: nat
  fi_success :: u32
  fi_refinements :: u32
  fi_failures :: u32
  fi_failed :: "u32 set"
  fi_load :: rat

record integration_metadata =
  im_aggregation :: nat
  im_integration :: nat
  im_max_integration :: nat
  im_min_integration :: nat
  im_batching :: nat
  im_max_batching :: nat
  im_min_batching :: nat
  im_configurations :: u32
  im_failures :: u32
  im_refinements :: u32

text \<open>Zero stands for no time yet.\<close>

definition longest :: "nat \<Rightarrow> nat \<Rightarrow> nat" where
  "longest t m = (if m = 0 \<or> m < t then t else m)"

definition shortest :: "nat \<Rightarrow> nat \<Rightarrow> nat" where
  "shortest t m = (if m = 0 \<or> t < m then t else m)"

definition update_integration_metadata :: "finished_integration \<Rightarrow> integration_metadata \<Rightarrow> integration_metadata" where
  "update_integration_metadata p m =
     m\<lparr>im_integration := im_integration m + fi_integration p,
       im_max_integration := longest (fi_max_integration p) (im_max_integration m),
       im_min_integration := shortest (fi_min_integration p) (im_min_integration m),
       im_batching := im_batching m + fi_batching p,
       im_max_batching := longest (fi_max_batching p) (im_max_batching m),
       im_min_batching := shortest (fi_min_batching p) (im_min_batching m),
       im_configurations := im_configurations m + fi_success p,
       im_failures := im_failures m + fi_failures p,
       im_refinements := im_refinements m + fi_refinements p\<rparr>"

text \<open>The counters of the caches of a data pipe are the same in a report and in the metadata.\<close>

record cache_counters =
  time_config_hits :: u32
  time_config_unloads :: u32
  twopf_kconfig_hits :: u32
  twopf_kconfig_unloads :: u32
  threepf_kconfig_hits :: u32
  threepf_kconfig_unloads :: u32
  stats_hits :: u32
  stats_unloads :: u32
  data_hits :: u32
  data_unloads :: u32
  time_config_evictions :: nat
  twopf_kconfig_evictions :: nat
  threepf_kconfig_evictions :: nat
  stats_evictions :: nat
  data_evictions :: nat

record finished_content =
  fc_groups :: "string list"
  fc_database :: nat
  fc_wallclock :: nat
  fc_items :: u32
  fc_cache :: cache_counters
  fc_load :: rat

record output_metadata =
  om_work :: nat
  om_database :: nat
  om_aggregation :: nat
  om_cache :: cache_counters

definition add_counters :: "cache_counters \<Rightarrow> cache_counters \<Rightarrow> cache_counters" where
  "add_counters p m =
     \<lparr>time_config_hits = time_config_hits m + time_config_hits p,
      time_config_unloads = time_config_unloads m + time_config_unloads p,
      twopf_kconfig_hits = twopf_kconfig_hits m + twopf_kconfig_hits p,
      twopf_kconfig_unloads = twopf_kconfig_unloads m + twopf_kconfig_unloads p,
      threepf_kconfig_hits = threepf_kconfig_hits m + threepf_kconfig_hits p,
      threepf_kconfig_unloads = threepf_kconfig_unloads m + threepf_kconfig_unloads p,
      stats_hits = stats_hits m + stats_hits p,
      stats_unloads = stats_unloads m + stats_unloads p,
      data_hits = data_hits m + data_hits p,
      data_unloads = data_unloads m + data_unloads p,
      time_config_evictions = time_config_evictions m + time_config_evictions p,
      twopf_kconfig_evictions = twopf_kconfig_evictions m + twopf_kconfig_evictions p,
      threepf_kconfig_evictions = threepf_kconfig_evictions m + threepf_kconfig_evictions p,
      stats_evictions = stats_evictions m + stats_evictions p,
      data_evictions = data_evictions m + data_evictions p\<rparr>"

definition update_output_metadata :: "finished_content \<Rightarrow> output_metadata \<Rightarrow> output_metadata" where
  "update_output_metadata p m =
     m\<lparr>om_work := om_work m + fc_wallclock p, om_database := om_database m + fc_database p,
       om_cache := add_counters (fc_cache p) (om_cache m)\<rparr>"

text \<open>Merging two sorted lists; groups with the same name follow each other.\<close>

fun string_less :: "string \<Rightarrow> string \<Rightarrow> bool" where
  "string_less s [] = False"
| "string_less [] (d # ds) = True"
| "string_less (c # cs) (d # ds) = ((of_char c :: nat) < of_char d \<or> c = d \<and> string_less cs ds)"

fun list_merge :: "string list \<Rightarrow> string list \<Rightarrow> string list" where
  "list_merge [] ys = ys"
| "list_merge xs [] = xs"
| "list_merge (x # xs) (y # ys) = (if string_less y x then y # list_merge (x # xs) ys else x # list_merge xs (y # ys))"

fun sort_groups :: "string list \<Rightarrow> string list" where
  "sort_groups [] = []"
| "sort_groups (x # xs) = list_merge [x] (sort_groups xs)"

definition update_content_group_list :: "finished_content \<Rightarrow> string list \<Rightarrow> string list" where
  "update_content_group_list p groups = remdups_adj (list_merge groups (sort_groups (fc_groups p)))"


section \<open>Messages\<close>

datatype data_kind = Integration_data | Postintegration_data | Derived_content

text \<open>The reports on derived content and on a postintegration have the same parts and are handled alike.\<close>

datatype report = Integration_report finished_integration | Content_report finished_content

datatype to_master =
    Worker_identification worker_type u32 u32
  | Data_ready data_kind string
  | New_work_acknowledgment
  | Finished bool report
  | Worker_close_down rat
  | Report_error string
  | Other_message

datatype to_worker = New_work_assignment "u32 list" | End_of_work | Other_instruction

primrec items_processed :: "report \<Rightarrow> u32" where
  "items_processed (Integration_report p) = fi_success p + fi_failures p"
| "items_processed (Content_report p) = fc_items p"

primrec report_wallclock :: "report \<Rightarrow> nat" where
  "report_wallclock (Integration_report p) = fi_wallclock p"
| "report_wallclock (Content_report p) = fc_wallclock p"

primrec report_load :: "report \<Rightarrow> rat" where
  "report_load (Integration_report p) = fi_load p"
| "report_load (Content_report p) = fc_load p"

text \<open>The constructor of the report on an integration throws when a list of failed serials has the wrong length.\<close>

primrec report_rejected :: "report \<Rightarrow> bool" where
  "report_rejected (Integration_report p) = (fi_failed p \<noteq> {} \<and> card (fi_failed p) \<noteq> unat (fi_failures p))"
| "report_rejected (Content_report p) = False"

section \<open>State\<close>

record aggregation_record =
  ar_worker :: nat
  ar_id :: u32
  ar_kind :: data_kind
  ar_path :: string

datatype aggregation_result = Aggregated nat | Container_error | Aggregation_throws exn

datatype master_point = Capturing | Looping | Receiving | Returned | Raised exn

datatype worker_state = Working | Complete | Crashed exn

text \<open>What a worker reports on the items of an assignment: the containers it pushed, the exception that ended the
  work, and the report of the batcher.\<close>

record work_outcome =
  oc_containers :: "(data_kind \<times> string) list"
  oc_thrown :: "string option"
  oc_report :: report

datatype event = Ran "u32 list" work_outcome | Closed "(data_kind \<times> string) list" rat

text \<open>The last two components are the history of the run: what every worker did, and what the master received.\<close>

record cluster =
  cl_point :: master_point
  cl_sched :: sched
  cl_manager :: worker_manager
  cl_to_worker :: "nat \<Rightarrow> to_worker list"
  cl_to_master :: "nat \<Rightarrow> to_master list"
  cl_worker :: "nat \<Rightarrow> worker_state"
  cl_closed :: bool
  cl_success :: bool
  cl_queue :: "aggregation_record list"
  cl_counter :: u32
  cl_aggregated :: "aggregation_record list"
  cl_refused :: "aggregation_record list"
  cl_fail :: bool
  cl_failed :: "u32 set"
  cl_int_meta :: integration_metadata
  cl_out_meta :: output_metadata
  cl_groups :: "string list"
  cl_alerts :: "string list"
  cl_last :: nat
  cl_events :: "nat \<Rightarrow> event list"
  cl_received :: "(nat \<times> to_master) list"

text \<open>The setting of a run. Kinds without an aggregator are those for which \<open>poll_workers\<close> was given an empty one.\<close>

record setting =
  st_workers :: nat
  st_env :: sched_env
  st_task :: string
  st_aggregators :: "data_kind \<Rightarrow> bool"
  st_aggregate :: "aggregation_record \<Rightarrow> aggregation_result"
  st_outcome :: "nat \<Rightarrow> u32 list \<Rightarrow> work_outcome \<Rightarrow> bool"
  st_close :: "nat \<Rightarrow> (data_kind \<times> string) list \<Rightarrow> bool"

definition on_sched :: "(sched, 'a) act \<Rightarrow> (cluster, 'a) act" where
  "on_sched m c = (case m (cl_sched c) of (r, s) \<Rightarrow> (r, c\<lparr>cl_sched := s\<rparr>))"

definition on_manager :: "(worker_manager, 'a) act \<Rightarrow> (cluster, 'a) act" where
  "on_manager m c = (case m (cl_manager c) of (r, s) \<Rightarrow> (r, c\<lparr>cl_manager := s\<rparr>))"

definition modifyA :: "(cluster \<Rightarrow> cluster) \<Rightarrow> (cluster, unit) act" where
  "modifyA f c = (Inr (), f c)"

section \<open>The master\<close>

definition workers_end_of_task :: "setting \<Rightarrow> cluster \<Rightarrow> cluster" where
  "workers_end_of_task st c =
     c\<lparr>cl_to_worker := \<lambda>w. if w < st_workers st then cl_to_worker c w @ [End_of_work] else cl_to_worker c w\<rparr>"

definition send_closedown :: "setting \<Rightarrow> cluster \<Rightarrow> cluster" where
  "send_closedown st c = (workers_end_of_task st c)\<lparr>cl_closed := True\<rparr>"

text \<open>The message is sent before the worker and its items are marked.\<close>

definition push_assignment :: "work_assignment \<Rightarrow> (cluster, unit) act" where
  "push_assignment a =
     bindA (modifyA (\<lambda>c. c\<lparr>cl_to_worker := (cl_to_worker c)(fst a := cl_to_worker c (fst a) @ [New_work_assignment (snd a)])\<rparr>))
       (\<lambda>_. on_sched (mark_assigned a))"

primrec push_assignments :: "work_assignment list \<Rightarrow> (cluster, unit) act" where
  "push_assignments [] = returnA ()"
| "push_assignments (a # as) = bindA (push_assignment a) (\<lambda>_. push_assignments as)"

definition assign_work_to_workers :: "setting \<Rightarrow> (cluster, unit) act" where
  "assign_work_to_workers st c =
     (case assign_work (st_env st) (cl_sched c) of Inl e \<Rightarrow> (Inl e, c) | Inr as \<Rightarrow> push_assignments as c)"

definition unassign_worker :: "nat \<Rightarrow> report \<Rightarrow> (cluster, unit) act" where
  "unassign_worker w r =
     bindA (on_sched (mark_unassigned w (report_wallclock r) (items_processed r)))
       (\<lambda>_. on_manager (update_load_average (report_load r) w))"

text \<open>An aggregation that fails for the container is noted by the writer, except for derived content.\<close>

definition aggregate_record :: "setting \<Rightarrow> aggregation_record \<Rightarrow> (cluster, unit) act" where
  "aggregate_record st r c =
     (case st_aggregate st r of
        Aggregated t \<Rightarrow>
          (Inr (), c\<lparr>cl_sched := report_aggregation t (cl_sched c), cl_aggregated := cl_aggregated c @ [r],
             cl_int_meta := (if ar_kind r = Integration_data
                             then (cl_int_meta c)\<lparr>im_aggregation := im_aggregation (cl_int_meta c) + t\<rparr> else cl_int_meta c),
             cl_out_meta := (if ar_kind r = Integration_data then cl_out_meta c
                             else (cl_out_meta c)\<lparr>om_aggregation := om_aggregation (cl_out_meta c) + t\<rparr>)\<rparr>)
      | Container_error \<Rightarrow>
          (if ar_kind r = Derived_content then (Inl (Runtime_error ''DATA_CONTAINER_ERROR''), c)
           else (Inr (), c\<lparr>cl_fail := True, cl_refused := cl_refused c @ [r]\<rparr>))
      | Aggregation_throws e \<Rightarrow> (Inl e, c))"

definition aggregate_front :: "setting \<Rightarrow> (cluster, unit) act" where
  "aggregate_front st c =
     (case cl_queue c of [] \<Rightarrow> (Inr (), c)
      | r # rs \<Rightarrow> bindA (aggregate_record st r) (\<lambda>_. modifyA (\<lambda>c. c\<lparr>cl_queue := rs\<rparr>)) c)"

primrec aggregate_all :: "setting \<Rightarrow> nat \<Rightarrow> (cluster, unit) act" where
  "aggregate_all st 0 = returnA ()"
| "aggregate_all st (Suc n) = bindA (aggregate_front st) (\<lambda>_. aggregate_all st n)"

text \<open>A message is taken from its queue when it is received; one for which there is no aggregator stays.\<close>

definition take_message :: "nat \<Rightarrow> (cluster, unit) act" where
  "take_message w =
     modifyA (\<lambda>c. c\<lparr>cl_received := cl_received c @ [(w, hd (cl_to_master c w))],
       cl_to_master := (cl_to_master c)(w := List.tl (cl_to_master c w))\<rparr>)"

definition enqueue_aggregation :: "nat \<Rightarrow> data_kind \<Rightarrow> string \<Rightarrow> cluster \<Rightarrow> cluster" where
  "enqueue_aggregation w k path c =
     c\<lparr>cl_queue := cl_queue c @ [\<lparr>ar_worker = w, ar_id = cl_counter c, ar_kind = k, ar_path = path\<rparr>],
       cl_counter := cl_counter c + 1\<rparr>"

text \<open>The failure flag of the writer is set to whether it knows of a failed serial.\<close>

definition merge_failure_list :: "u32 set \<Rightarrow> cluster \<Rightarrow> cluster" where
  "merge_failure_list fs c = c\<lparr>cl_failed := cl_failed c \<union> fs, cl_fail := (cl_failed c \<union> fs \<noteq> {})\<rparr>"

primrec merge_report :: "report \<Rightarrow> cluster \<Rightarrow> cluster" where
  "merge_report (Integration_report p) c =
     (let c1 = c\<lparr>cl_int_meta := update_integration_metadata p (cl_int_meta c)\<rparr>
      in if 0 < fi_failures p then merge_failure_list (fi_failed p) c1 else c1)"
| "merge_report (Content_report p) c =
     c\<lparr>cl_out_meta := update_output_metadata p (cl_out_meta c), cl_groups := update_content_group_list p (cl_groups c)\<rparr>"

primrec handle_message :: "setting \<Rightarrow> nat \<Rightarrow> to_master \<Rightarrow> (cluster, unit) act" where
  "handle_message st w (Data_ready k path) =
     (if st_aggregators st k then bindA (take_message w) (\<lambda>_. modifyA (enqueue_aggregation w k path)) else returnA ())"
| "handle_message st w New_work_acknowledgment = take_message w"
| "handle_message st w (Finished success r) =
     bindA (take_message w) (\<lambda>_. bindA (unassign_worker w r) (\<lambda>_. bindA (modifyA (merge_report r))
       (\<lambda>_. modifyA (\<lambda>c. if success then c else c\<lparr>cl_success := False\<rparr>))))"
| "handle_message st w (Worker_close_down load) =
     bindA (take_message w) (\<lambda>_. bindA (on_sched (mark_inactive w)) (\<lambda>_. on_manager (update_load_average load w)))"
| "handle_message st w (Report_error msg) =
     bindA (take_message w) (\<lambda>_. modifyA (\<lambda>c.
       c\<lparr>cl_alerts := cl_alerts c @ [msg @ '' reported by worker '' @ dec_string (Suc w)]\<rparr>))"
| "handle_message st w (Worker_identification tp capacity priority) = take_message w"
| "handle_message st w Other_message = take_message w"


text \<open>An exception that leaves the loop passes the destructor of the close-down context.\<close>

definition settle :: "setting \<Rightarrow> (exn + unit) \<times> cluster \<Rightarrow> cluster" where
  "settle st r =
     (case r of (Inr u, c) \<Rightarrow> c
      | (Inl e, c) \<Rightarrow> (if cl_closed c then c else send_closedown st c)\<lparr>cl_point := Raised e\<rparr>)"

text \<open>The workers identify themselves; any other message is discarded.\<close>

definition capture_check :: "nat \<Rightarrow> cluster \<Rightarrow> cluster" where
  "capture_check now c =
     (if is_ready (cl_sched c) then c\<lparr>cl_sched := complete_queue_setup (cl_sched c), cl_point := Looping, cl_last := now\<rparr>
      else c\<lparr>cl_point := Capturing\<rparr>)"

definition capture_begin :: "setting \<Rightarrow> nat \<Rightarrow> (cluster, unit) act" where
  "capture_begin st now =
     bindA (modifyA (\<lambda>c. c\<lparr>cl_sched := sched_reset (cl_sched c)\<rparr>)) (\<lambda>_.
       bindA (on_manager (new_task now (st_task st))) (\<lambda>_. modifyA (capture_check now)))"

primrec capture_message :: "nat \<Rightarrow> to_master \<Rightarrow> (cluster, unit) act" where
  "capture_message w (Worker_identification tp capacity priority) =
     bindA (take_message w) (\<lambda>_. on_sched (initialize_worker w tp capacity priority))"
| "capture_message w (Data_ready k path) = take_message w"
| "capture_message w New_work_acknowledgment = take_message w"
| "capture_message w (Finished success r) = take_message w"
| "capture_message w (Worker_close_down load) = take_message w"
| "capture_message w (Report_error msg) = take_message w"
| "capture_message w Other_message = take_message w"

definition capture_step :: "nat \<Rightarrow> nat \<Rightarrow> cluster \<Rightarrow> cluster" where
  "capture_step now w c =
     (case bindA (capture_message w (hd (cl_to_master c w))) (\<lambda>_. modifyA (capture_check now)) c of
        (Inr u, c') \<Rightarrow> c' | (Inl e, c') \<Rightarrow> c'\<lparr>cl_point := Raised e\<rparr>)"

text \<open>The head of the polling loop: its condition, the close-down and new assignments; at the end what is left in the
  queue of aggregations.\<close>

definition finish :: "setting \<Rightarrow> (cluster, unit) act" where
  "finish st c =
     bindA (aggregate_all st (length (cl_queue c)))
       (\<lambda>_. modifyA (\<lambda>c. (if cl_closed c then c else send_closedown st c)\<lparr>cl_point := Returned\<rparr>)) c"

definition distribute :: "setting \<Rightarrow> (cluster, unit) act" where
  "distribute st c =
     (let c1 = (if is_finished (cl_sched c) \<and> \<not> cl_closed c then send_closedown st c else c)
      in bindA (if assignable (cl_sched c1) then assign_work_to_workers st else returnA ())
           (\<lambda>_. modifyA (\<lambda>c. c\<lparr>cl_point := Receiving\<rparr>)) c1)"

definition master_head :: "setting \<Rightarrow> cluster \<Rightarrow> cluster" where
  "master_head st c = settle st (if all_inactive (cl_sched c) then finish st c else distribute st c)"

definition master_receive :: "setting \<Rightarrow> nat \<Rightarrow> nat \<Rightarrow> cluster \<Rightarrow> cluster" where
  "master_receive st now w c =
     settle st (bindA (modifyA (\<lambda>c. c\<lparr>cl_last := now\<rparr>)) (\<lambda>_. bindA (on_manager (update_contact_time now w))
       (\<lambda>_. handle_message st w (hd (cl_to_master c w)))) c)"

text \<open>No message waits: one aggregation, if none came for more than five seconds.\<close>

definition master_quiet :: "setting \<Rightarrow> nat \<Rightarrow> cluster \<Rightarrow> cluster" where
  "master_quiet st now c =
     settle st (bindA (if cl_queue c \<noteq> [] \<and> 5 < now - cl_last c then aggregate_front st else returnA ())
       (\<lambda>_. modifyA (\<lambda>c. c\<lparr>cl_point := Looping\<rparr>)) c)"

section \<open>The workers\<close>

text \<open>A worker sends an error message after its report, with the name of the task (\<open>slave_message_buffer.h\<close>).\<close>

record message_buffer =
  mb_messages :: "string list"
  mb_context :: "string list"

definition mb_push_context :: "string \<Rightarrow> message_buffer \<Rightarrow> message_buffer" where
  "mb_push_context s b = b\<lparr>mb_context := mb_context b @ [s]\<rparr>"

definition mb_pop_context :: "message_buffer \<Rightarrow> message_buffer" where
  "mb_pop_context b = b\<lparr>mb_context := butlast (mb_context b)\<rparr>"

fun joined_contexts :: "string list \<Rightarrow> string" where
  "joined_contexts [] = []"
| "joined_contexts [s] = s"
| "joined_contexts (s # ss) = s @ '', '' @ joined_contexts ss"

definition mb_push_back :: "string \<Rightarrow> message_buffer \<Rightarrow> message_buffer" where
  "mb_push_back s b =
     b\<lparr>mb_messages := mb_messages b @
        [if mb_context b = [] then s else s @ '' ('' @ joined_contexts (mb_context b) @ '')'']\<rparr>"

definition mb_flush :: "message_buffer \<Rightarrow> to_master list" where
  "mb_flush b = map Report_error (mb_messages b)"

definition worker_errors :: "setting \<Rightarrow> work_outcome \<Rightarrow> to_master list" where
  "worker_errors st oc =
     (let b = mb_push_context (st_task st) \<lparr>mb_messages = [], mb_context = []\<rparr>
      in mb_flush (mb_pop_context (case oc_thrown oc of None \<Rightarrow> b | Some s \<Rightarrow> mb_push_back s b)))"

definition ready_messages :: "(data_kind \<times> string) list \<Rightarrow> to_master list" where
  "ready_messages cs = map (\<lambda>(k, path). Data_ready k path) cs"

text \<open>What an event sends to the master.\<close>

primrec event_messages :: "setting \<Rightarrow> event \<Rightarrow> to_master list" where
  "event_messages st (Ran xs oc) =
     New_work_acknowledgment # ready_messages (oc_containers oc)
       @ (if report_rejected (oc_report oc) then [] else [Finished (oc_thrown oc = None) (oc_report oc)]) @ worker_errors st oc"
| "event_messages st (Closed cs load) = ready_messages cs @ [Worker_close_down load]"

definition worker_event :: "setting \<Rightarrow> nat \<Rightarrow> event \<Rightarrow> cluster \<Rightarrow> cluster" where
  "worker_event st w ev c =
     c\<lparr>cl_to_worker := (cl_to_worker c)(w := List.tl (cl_to_worker c w)),
       cl_to_master := (cl_to_master c)(w := cl_to_master c w @ event_messages st ev),
       cl_events := (cl_events c)(w := cl_events c w @ [ev])\<rparr>"

definition worker_assignment :: "setting \<Rightarrow> nat \<Rightarrow> u32 list \<Rightarrow> work_outcome \<Rightarrow> cluster \<Rightarrow> cluster" where
  "worker_assignment st w xs oc c =
     (let c1 = worker_event st w (Ran xs oc) c
      in if report_rejected (oc_report oc)
         then c1\<lparr>cl_worker := (cl_worker c1)(w := Crashed (Runtime_error ''CPPTRANSPORT_FAILED_SERIALS_MISMATCH''))\<rparr> else c1)"

definition worker_close :: "setting \<Rightarrow> nat \<Rightarrow> (data_kind \<times> string) list \<Rightarrow> rat \<Rightarrow> cluster \<Rightarrow> cluster" where
  "worker_close st w cs load c =
     (let c1 = worker_event st w (Closed cs load) c in c1\<lparr>cl_worker := (cl_worker c1)(w := Complete)\<rparr>)"

definition worker_discard :: "nat \<Rightarrow> cluster \<Rightarrow> cluster" where
  "worker_discard w c = c\<lparr>cl_to_worker := (cl_to_worker c)(w := List.tl (cl_to_worker c w))\<rparr>"

section \<open>Steps\<close>

inductive cluster_step :: "setting \<Rightarrow> cluster \<Rightarrow> cluster \<Rightarrow> bool" for st :: setting where
  capture: "cl_point c = Capturing \<Longrightarrow> w < st_workers st \<Longrightarrow> cl_to_master c w \<noteq> [] \<Longrightarrow> cluster_step st c (capture_step now w c)"
| head: "cl_point c = Looping \<Longrightarrow> cluster_step st c (master_head st c)"
| receive: "cl_point c = Receiving \<Longrightarrow> w < st_workers st \<Longrightarrow> cl_to_master c w \<noteq> []
    \<Longrightarrow> cluster_step st c (master_receive st now w c)"
| quiet: "cl_point c = Receiving \<Longrightarrow> cluster_step st c (master_quiet st now c)"
| assignment: "w < st_workers st \<Longrightarrow> cl_worker c w = Working \<Longrightarrow> cl_to_worker c w = New_work_assignment xs # ms
    \<Longrightarrow> st_outcome st w xs oc \<Longrightarrow> cluster_step st c (worker_assignment st w xs oc c)"
| close_down: "w < st_workers st \<Longrightarrow> cl_worker c w = Working \<Longrightarrow> cl_to_worker c w = End_of_work # ms
    \<Longrightarrow> st_close st w cs \<Longrightarrow> cluster_step st c (worker_close st w cs load c)"
| discard: "w < st_workers st \<Longrightarrow> cl_worker c w = Working \<Longrightarrow> cl_to_worker c w = Other_instruction # ms
    \<Longrightarrow> cluster_step st c (worker_discard w c)"

text \<open>At the start the queue is prepared and every worker has sent its identification.\<close>

definition cluster_start :: "setting \<Rightarrow> (nat \<Rightarrow> worker_type \<times> u32 \<times> u32) \<Rightarrow> sched \<Rightarrow> worker_manager \<Rightarrow> integration_metadata
    \<Rightarrow> output_metadata \<Rightarrow> cluster" where
  "cluster_start st ident s m im om =
     \<lparr>cl_point = Capturing, cl_sched = s, cl_manager = m, cl_to_worker = (\<lambda>w. []),
      cl_to_master = (\<lambda>w. if w < st_workers st
        then [Worker_identification (fst (ident w)) (fst (snd (ident w))) (snd (snd (ident w)))] else []),
      cl_worker = (\<lambda>w. Working), cl_closed = False, cl_success = True, cl_queue = [], cl_counter = 0, cl_aggregated = [],
      cl_refused = [], cl_fail = False, cl_failed = {}, cl_int_meta = im, cl_out_meta = om, cl_groups = [], cl_alerts = [],
      cl_last = 0, cl_events = (\<lambda>w. []), cl_received = []\<rparr>"

definition cluster_runs :: "setting \<Rightarrow> cluster \<Rightarrow> cluster \<Rightarrow> bool" where
  "cluster_runs st = (cluster_step st)\<^sup>*\<^sup>*"

end
