(* ===== verification/Work_Invariant.thy ===== *)
theory Work_Invariant
  imports Worker_Strategies Work_Distribution
begin

text \<open>
  The invariant of the distribution of work. What a worker sent is what the master received from it followed by what is
  under way. For every worker the reports and close-downs that the master still has to expect, whether they are under way
  or follow from an instruction that is, agree with what the scheduler knows of it.
\<close>

section \<open>Actions on a cluster\<close>

named_theorems cluster_simps \<open>unfolding of the operations on a cluster\<close>

lemmas cluster_defs [cluster_simps] = bindA_def returnA_def on_sched_def on_manager_def modifyA_def take_message_def settle_def

lemma sum_update:
  fixes f :: "nat \<Rightarrow> 'a :: comm_monoid_add"
  assumes "w < n" and "\<And>v. v < n \<Longrightarrow> v \<noteq> w \<Longrightarrow> g v = f v"
  shows "(\<Sum>v<n. g v) + f w = (\<Sum>v<n. f v) + g w"
proof -
  have "(\<Sum>v<n. h v) = h w + (\<Sum>v\<in>{..<n} - {w}. h v)" for h :: "nat \<Rightarrow> 'a"
    using assms(1) by (subst sum.remove [of _ w]) simp_all
  moreover have "(\<Sum>v\<in>{..<n} - {w}. g v) = (\<Sum>v\<in>{..<n} - {w}. f v)" using assms(2) by (intro sum.cong) simp_all
  ultimately show ?thesis by (simp add: ac_simps)
qed

section \<open>Settings\<close>

text \<open>A report counts no more items than were assigned, and every container has an aggregator, which at worst refuses it.\<close>

definition sound_report :: "u32 list \<Rightarrow> work_outcome \<Rightarrow> bool" where
  "sound_report xs oc \<longleftrightarrow> unat (items_processed (oc_report oc)) \<le> length xs \<and> \<not> report_rejected (oc_report oc)"

text \<open>The items a report leaves out, and those left out in a run.\<close>

definition shortfall :: "event \<Rightarrow> nat" where
  "shortfall e = (case e of Ran xs oc \<Rightarrow> length xs - unat (items_processed (oc_report oc)) | _ \<Rightarrow> 0)"

definition lost :: "setting \<Rightarrow> (nat \<Rightarrow> event list) \<Rightarrow> nat" where
  "lost st evs = (\<Sum>w < st_workers st. sum_list (map shortfall (evs w)))"

definition accepted :: "setting \<Rightarrow> (data_kind \<times> string) list \<Rightarrow> bool" where
  "accepted st cs \<longleftrightarrow> (\<forall>(k, path) \<in> set cs. st_aggregators st k)"

definition setting_ok :: "setting \<Rightarrow> bool" where
  "setting_ok st \<longleftrightarrow> 0 < st_workers st \<and> st_workers st < 2 ^ 32 \<and> env_ok (st_env st)
     \<and> (\<forall>w xs oc. st_outcome st w xs oc \<longrightarrow> sound_report xs oc \<and> accepted st (oc_containers oc))
     \<and> (\<forall>w cs. st_close st w cs \<longrightarrow> accepted st cs)
     \<and> (\<forall>r e. st_aggregate st r \<noteq> Aggregation_throws e)
     \<and> (\<forall>r. ar_kind r = Derived_content \<longrightarrow> st_aggregate st r \<noteq> Container_error)"

text \<open>The workers of a pool are of one type.\<close>

definition uniform_idents :: "setting \<Rightarrow> (nat \<Rightarrow> worker_type \<times> u32 \<times> u32) \<Rightarrow> bool" where
  "uniform_idents st ident \<longleftrightarrow> (\<forall>v < st_workers st. \<forall>w < st_workers st. fst (ident v) = fst (ident w))"

section \<open>Channels\<close>

definition sent :: "setting \<Rightarrow> (nat \<Rightarrow> worker_type \<times> u32 \<times> u32) \<Rightarrow> cluster \<Rightarrow> nat \<Rightarrow> to_master list" where
  "sent st ident c w =
     Worker_identification (fst (ident w)) (fst (snd (ident w))) (snd (snd (ident w)))
       # concat (map (event_messages st) (cl_events c w))"

definition received_from :: "cluster \<Rightarrow> nat \<Rightarrow> to_master list" where
  "received_from c w = map snd (filter (\<lambda>p. fst p = w) (cl_received c))"

text \<open>The history holds only what the setting allows.\<close>

definition event_ok :: "setting \<Rightarrow> nat \<Rightarrow> event \<Rightarrow> bool" where
  "event_ok st w e \<longleftrightarrow> (case e of Ran xs oc \<Rightarrow> st_outcome st w xs oc | Closed cs load \<Rightarrow> st_close st w cs)"

definition channel_inv :: "setting \<Rightarrow> (nat \<Rightarrow> worker_type \<times> u32 \<times> u32) \<Rightarrow> cluster \<Rightarrow> bool" where
  "channel_inv st ident c \<longleftrightarrow> (\<forall>w < st_workers st. received_from c w @ cl_to_master c w = sent st ident c w)
     \<and> (\<forall>x \<in> set (cl_received c). fst x < st_workers st) \<and> (\<forall>w. \<forall>e \<in> set (cl_events c w). event_ok st w e)"

definition same_channels :: "cluster \<Rightarrow> cluster \<Rightarrow> bool" where
  "same_channels c d \<longleftrightarrow> cl_to_master d = cl_to_master c \<and> cl_events d = cl_events c \<and> cl_received d = cl_received c"

lemma channel_inv_same: "same_channels c d \<Longrightarrow> channel_inv st ident d \<longleftrightarrow> channel_inv st ident c"
  by (simp add: channel_inv_def received_from_def sent_def same_channels_def)

lemma same_channels_trans: "same_channels c d \<Longrightarrow> same_channels d e \<Longrightarrow> same_channels c e"
  by (simp add: same_channels_def)

lemma channel_inv_event: "channel_inv st ident c \<Longrightarrow> event_ok st w ev \<Longrightarrow> channel_inv st ident (worker_event st w ev c)"
  by (simp add: channel_inv_def worker_event_def received_from_def sent_def)

text \<open>Taking a message moves it from the channel to the history.\<close>

definition taken :: "nat \<Rightarrow> cluster \<Rightarrow> cluster" where
  "taken w c = snd (take_message w c)"

lemma take_message_taken: "take_message w c = (Inr (), taken w c)"
  by (simp add: taken_def take_message_def modifyA_def)

lemma channel_inv_taken:
  "w < st_workers st \<Longrightarrow> cl_to_master c w \<noteq> [] \<Longrightarrow> channel_inv st ident c \<Longrightarrow> channel_inv st ident (taken w c)"
  by (auto simp: channel_inv_def taken_def take_message_def modifyA_def received_from_def sent_def)

text \<open>What an action does to the channels.\<close>

definition quiet_act :: "(cluster, 'a) act \<Rightarrow> bool" where
  "quiet_act m \<longleftrightarrow> (\<forall>c. same_channels c (snd (m c)))"

lemma quiet_bind:
  assumes "quiet_act m" and "\<And>x. quiet_act (f x)"
  shows "quiet_act (bindA m f)"
  unfolding quiet_act_def
proof
  fix c
  obtain r d where m: "m c = (r, d)" by fastforce
  then have "same_channels c d" using assms(1) by (metis quiet_act_def snd_conv)
  then show "same_channels c (snd (bindA m f c))"
    using assms(2) m by (cases r) (auto simp: bindA_def quiet_act_def intro: same_channels_trans)
qed

lemma quiet_basic [simp, intro]:
  "quiet_act (returnA x)" "quiet_act (on_sched m1)" "quiet_act (on_manager m2)"
  "(\<And>c. same_channels c (f c)) \<Longrightarrow> quiet_act (modifyA f)"
  by (simp_all add: quiet_act_def cluster_simps same_channels_def split: prod.splits)

lemma same_channels_ops [simp, intro]:
  "same_channels c (send_closedown st c)" "same_channels c (merge_report r c)" "same_channels c (enqueue_aggregation w k path c)"
  "same_channels c (capture_check now c)" "same_channels c c"
  by (cases r; simp add: same_channels_def send_closedown_def workers_end_of_task_def enqueue_aggregation_def capture_check_def
      merge_failure_list_def Let_def)+

lemma quiet_if [intro]: "quiet_act m \<Longrightarrow> quiet_act k \<Longrightarrow> quiet_act (if b then m else k)"
  by simp

lemma quiet_unassign [simp, intro]: "quiet_act (unassign_worker w r)"
  by (simp add: unassign_worker_def quiet_bind)

lemma quiet_assignments [simp, intro]: "quiet_act (push_assignments as)"
  by (induction as) (auto simp: push_assignment_def same_channels_def intro!: quiet_bind)

lemma quiet_aggregate [simp, intro]: "quiet_act (aggregate_front st)"
proof -
  have "quiet_act (aggregate_record st r)" for r
    by (auto simp: quiet_act_def aggregate_record_def same_channels_def split: aggregation_result.splits)
  then have q: "quiet_act (bindA (aggregate_record st r) (\<lambda>_. modifyA (\<lambda>c. c\<lparr>cl_queue := rs\<rparr>)))" for r rs
    by (auto simp: same_channels_def intro!: quiet_bind)
  show ?thesis unfolding quiet_act_def
  proof
    fix c
    show "same_channels c (snd (aggregate_front st c))"
      using q by (cases "cl_queue c") (simp_all add: aggregate_front_def quiet_act_def)
  qed
qed

lemma quiet_aggregate_all [simp, intro]: "quiet_act (aggregate_all st n)"
  by (induction n) (auto intro!: quiet_bind)

lemma same_channels_settle: "same_channels c (snd r) \<Longrightarrow> same_channels c (settle st r)"
  by (auto simp: settle_def same_channels_def send_closedown_def workers_end_of_task_def split: prod.splits sum.splits)

lemma quiet_settle: "quiet_act m \<Longrightarrow> same_channels c (settle st (m c))"
  by (simp add: quiet_act_def same_channels_settle)

lemma master_head_channels: "same_channels c (master_head st c)"
proof -
  have "quiet_act (bindA (aggregate_all st n)
      (\<lambda>_. modifyA (\<lambda>c. (if cl_closed c then c else send_closedown st c)\<lparr>cl_point := Returned\<rparr>)))" for n
    by (auto simp: same_channels_def send_closedown_def workers_end_of_task_def intro!: quiet_bind)
  then have f: "quiet_act (finish st)" by (simp add: quiet_act_def finish_def)
  have a: "quiet_act (assign_work_to_workers st)"
    by (auto simp: quiet_act_def assign_work_to_workers_def same_channels_def [of c c for c] split: sum.splits)
       (metis quiet_act_def quiet_assignments)
  have "quiet_act (distribute st)" unfolding quiet_act_def
  proof
    fix c
    let ?c = "if is_finished (cl_sched c) \<and> \<not> cl_closed c then send_closedown st c else c"
    have "quiet_act (bindA (if assignable (cl_sched ?c) then assign_work_to_workers st else returnA ())
        (\<lambda>_. modifyA (\<lambda>c. c\<lparr>cl_point := Receiving\<rparr>)))"
      using a by (auto simp: same_channels_def intro!: quiet_bind)
    then have "same_channels ?c (snd (distribute st c))" unfolding distribute_def Let_def quiet_act_def by blast
    moreover have "same_channels c ?c" by simp
    ultimately show "same_channels c (snd (distribute st c))" by (rule same_channels_trans [rotated])
  qed
  with f show ?thesis by (simp add: master_head_def quiet_settle)
qed

text \<open>What follows after a message was taken.\<close>

definition message_rest :: "nat \<Rightarrow> to_master \<Rightarrow> (cluster, unit) act" where
  "message_rest w m =
     (case m of
        Data_ready k path \<Rightarrow> modifyA (enqueue_aggregation w k path)
      | Finished success r \<Rightarrow> bindA (unassign_worker w r) (\<lambda>_. bindA (modifyA (merge_report r))
          (\<lambda>_. modifyA (\<lambda>c. if success then c else c\<lparr>cl_success := False\<rparr>)))
      | Worker_close_down load \<Rightarrow> bindA (on_sched (mark_inactive w)) (\<lambda>_. on_manager (update_load_average load w))
      | Report_error msg \<Rightarrow> modifyA (\<lambda>c. c\<lparr>cl_alerts := cl_alerts c @ [msg @ '' reported by worker '' @ dec_string (Suc w)]\<rparr>)
      | _ \<Rightarrow> returnA ())"

definition left_alone :: "setting \<Rightarrow> to_master \<Rightarrow> bool" where
  "left_alone st m \<longleftrightarrow> (case m of Data_ready k path \<Rightarrow> \<not> st_aggregators st k | _ \<Rightarrow> False)"

lemma handle_message_rest:
  "handle_message st w m c = (if left_alone st m then (Inr (), c) else message_rest w m (taken w c))"
  by (cases m) (simp_all add: message_rest_def left_alone_def bindA_def take_message_taken returnA_def)

lemma quiet_rest [simp, intro]: "quiet_act (message_rest w m)"
  by (cases m) (auto simp: message_rest_def same_channels_def intro!: quiet_bind)

lemma channel_inv_receive:
  assumes "channel_inv st ident c" and "w < st_workers st" and "cl_to_master c w \<noteq> []"
  shows "channel_inv st ident (master_receive st now w c)"
proof -
  let ?c1 = "c\<lparr>cl_last := now\<rparr>"
  obtain r d where r: "on_manager (update_contact_time now w) ?c1 = (r, d)" by fastforce
  then have d: "same_channels c d" by (auto simp: on_manager_def same_channels_def split: prod.splits)
  show ?thesis
  proof (cases r)
    case (Inl e)
    have "same_channels c (settle st (Inl e, d))" using d by (intro same_channels_settle) simp
    then show ?thesis using assms(1) r Inl channel_inv_same by (simp add: master_receive_def bindA_def modifyA_def)
  next
    case (Inr u)
    let ?m = "hd (cl_to_master c w)"
    have m: "master_receive st now w c = settle st (handle_message st w ?m d)"
      using r Inr by (simp add: master_receive_def bindA_def modifyA_def)
    have "channel_inv st ident d" using assms(1) d channel_inv_same by blast
    moreover have "cl_to_master d w \<noteq> []" using assms(3) d by (simp add: same_channels_def)
    ultimately have tk: "channel_inv st ident (taken w d)" using assms(2) by (simp add: channel_inv_taken)
    show ?thesis
    proof (cases "left_alone st ?m")
      case True
      then have "same_channels d (master_receive st now w c)" by (simp add: m handle_message_rest same_channels_settle)
      then show ?thesis using \<open>channel_inv st ident d\<close> channel_inv_same by blast
    next
      case False
      then have "same_channels (taken w d) (master_receive st now w c)" by (simp add: m handle_message_rest quiet_settle)
      then show ?thesis using tk channel_inv_same by blast
    qed
  qed
qed

lemma channel_inv_capture:
  assumes "channel_inv st ident c" and "w < st_workers st" and "cl_to_master c w \<noteq> []"
  shows "channel_inv st ident (capture_step now w c)"
proof -
  have "same_channels (taken w c) (snd (bindA (capture_message w m) (\<lambda>_. modifyA (capture_check now)) c))" for m
    by (cases m) (auto simp: bindA_def take_message_taken on_sched_def modifyA_def same_channels_def capture_check_def
        split: prod.splits sum.splits)
  moreover obtain r d where rd: "bindA (capture_message w (hd (cl_to_master c w))) (\<lambda>_. modifyA (capture_check now)) c = (r, d)"
    by fastforce
  ultimately have "same_channels (taken w c) d" by (metis snd_conv)
  then have "same_channels (taken w c) (capture_step now w c)"
    using rd by (cases r) (simp_all add: capture_step_def same_channels_def)
  then show ?thesis using assms channel_inv_taken channel_inv_same by blast
qed

lemma channel_inv_step: "cluster_step st c d \<Longrightarrow> channel_inv st ident c \<Longrightarrow> channel_inv st ident d"
proof (induction rule: cluster_step.induct)
  case (head c)
  then show ?case using master_head_channels channel_inv_same by blast
next
  case (quiet c now)
  have "quiet_act (bindA (if cl_queue c \<noteq> [] \<and> 5 < now - cl_last c then aggregate_front st else returnA ())
       (\<lambda>_. modifyA (\<lambda>c. c\<lparr>cl_point := Looping\<rparr>)))"
    by (auto simp: same_channels_def intro!: quiet_bind)
  then have "same_channels c (master_quiet st now c)" unfolding master_quiet_def by (rule quiet_settle)
  with quiet show ?case using channel_inv_same by blast
next
  case (assignment w c xs ms oc)
  have "same_channels (worker_event st w (Ran xs oc) c) (worker_assignment st w xs oc c)"
    by (simp add: worker_assignment_def same_channels_def Let_def)
  moreover have "event_ok st w (Ran xs oc)" using assignment by (simp add: event_ok_def)
  ultimately show ?case using assignment channel_inv_same channel_inv_event by blast
next
  case (close_down w c ms cs load)
  have "same_channels (worker_event st w (Closed cs load) c) (worker_close st w cs load c)"
    by (simp add: worker_close_def same_channels_def Let_def)
  moreover have "event_ok st w (Closed cs load)" using close_down by (simp add: event_ok_def)
  ultimately show ?case using close_down channel_inv_same channel_inv_event by blast
next
  case (discard w c ms)
  have "same_channels c (worker_discard w c)" by (simp add: worker_discard_def same_channels_def)
  with discard show ?case using channel_inv_same by blast
qed (simp_all add: channel_inv_receive channel_inv_capture)

end
