(* ===== verification/Work_Safety.thy ===== *)
theory Work_Safety
  imports Work_Invariant
begin

text \<open>
  The invariant of the run after the workers have identified themselves, and that every step keeps it.
\<close>

section \<open>What is under way\<close>

text \<open>The reports on assignments, with their numbers of items, and the close-downs that a message stands for.\<close>

definition tokens :: "to_master \<Rightarrow> u32 option list" where
  "tokens m = (case m of Finished success r \<Rightarrow> [Some (items_processed r)] | Worker_close_down load \<Rightarrow> [None] | _ \<Rightarrow> [])"

definition instruction_tokens :: "to_worker \<Rightarrow> u32 option list" where
  "instruction_tokens m =
     (case m of New_work_assignment xs \<Rightarrow> [Some (of_nat (length xs))] | End_of_work \<Rightarrow> [None] | Other_instruction \<Rightarrow> [])"

definition instruction_items :: "to_worker \<Rightarrow> u32 list" where
  "instruction_items m = (case m of New_work_assignment xs \<Rightarrow> xs | _ \<Rightarrow> [])"

definition event_items :: "event \<Rightarrow> u32 list" where
  "event_items e = (case e of Ran xs oc \<Rightarrow> xs | _ \<Rightarrow> [])"

definition trail :: "cluster \<Rightarrow> nat \<Rightarrow> u32 option list" where
  "trail c w = concat (map tokens (cl_to_master c w)) @ concat (map instruction_tokens (cl_to_worker c w))"

definition flight :: "u32 option list \<Rightarrow> nat" where
  "flight t = sum_list (map (\<lambda>x. case x of None \<Rightarrow> 0 | Some k \<Rightarrow> unat k) t)"

definition held :: "cluster \<Rightarrow> nat \<Rightarrow> u32 multiset" where
  "held c w = mset (concat (map instruction_items (cl_to_worker c w))) + mset (concat (map event_items (cl_events c w)))"

lemma flight_simps [simp]:
  "flight [] = 0" "flight (None # t) = flight t" "flight (Some k # t) = unat k + flight t" "flight (t @ u) = flight t + flight u"
  by (simp_all add: flight_def)

lemma token_simps [simp]:
  "tokens (Finished b r) = [Some (items_processed r)]" "tokens (Worker_close_down l) = [None]" "tokens (Data_ready k p) = []"
  "tokens New_work_acknowledgment = []" "tokens (Report_error s) = []" "tokens Other_message = []"
  "tokens (Worker_identification t a k1) = []" "instruction_tokens (New_work_assignment xs) = [Some (of_nat (length xs))]"
  "instruction_tokens End_of_work = [None]" "instruction_tokens Other_instruction = []"
  "instruction_items (New_work_assignment xs) = xs" "instruction_items End_of_work = []" "instruction_items Other_instruction = []"
  "event_items (Ran xs oc) = xs" "event_items (Closed cs load) = []"
  by (simp_all add: tokens_def instruction_tokens_def instruction_items_def event_items_def)

lemma tokens_ready [simp]: "concat (map tokens (ready_messages cs)) = []"
  by (auto simp: ready_messages_def)

lemma tokens_errors [simp]: "concat (map tokens (worker_errors st oc)) = []"
  by (auto simp: worker_errors_def mb_flush_def Let_def)

lemma tokens_ran:
  "sound_report xs oc \<Longrightarrow> concat (map tokens (event_messages st (Ran xs oc))) = [Some (items_processed (oc_report oc))]"
  by (simp add: sound_report_def)

lemma tokens_closed: "concat (map tokens (event_messages st (Closed cs load))) = [None]"
  by simp

section \<open>The invariant\<close>

text \<open>A worker has at most one assignment and one close-down before it, in this order.\<close>

definition expected :: "bool \<Rightarrow> worker_data \<Rightarrow> u32 option list \<Rightarrow> bool" where
  "expected down d t \<longleftrightarrow>
     (\<exists>k. t = (if wk_assigned d then [Some k] else []) @ (if down \<and> wk_active d then [None] else []))"

definition worker_ok :: "bool \<Rightarrow> worker_state \<Rightarrow> to_worker list \<Rightarrow> to_master list \<Rightarrow> bool" where
  "worker_ok down s inbox outbox \<longleftrightarrow>
     (s = Working \<and> (down \<longrightarrow> inbox \<noteq> [] \<and> List.last inbox = End_of_work))
     \<or> (s = Complete \<and> down \<and> inbox = [] \<and> (outbox \<noteq> [] \<longrightarrow> (\<exists>load. List.last outbox = Worker_close_down load)))"

definition manager_ok :: "setting \<Rightarrow> worker_manager \<Rightarrow> bool" where
  "manager_ok st m \<longleftrightarrow> wm_current m = Some (st_task st) \<and> (\<exists>ws. wm_data m (st_task st) = Some ws \<and> length ws = st_workers st)"

definition pool_inv :: "setting \<Rightarrow> bool \<Rightarrow> sched \<Rightarrow> bool" where
  "pool_inv st down s \<longleftrightarrow> sched_ok s \<and> length (sc_workers s) = st_workers st \<and> uniform_pool s
     \<and> sc_active s = of_nat (length (filter wk_active (sc_workers s)))
     \<and> (\<forall>w < st_workers st. \<not> wk_active (sc_workers s ! w) \<longrightarrow> \<not> wk_assigned (sc_workers s ! w) \<and> down)
     \<and> (down \<longrightarrow> sc_queue s = []) \<and> (all_inactive s \<longrightarrow> sc_in_flight s = 0)"

definition items_inv :: "setting \<Rightarrow> u32 list \<Rightarrow> nat \<Rightarrow> sched \<Rightarrow> (nat \<Rightarrow> u32 option list) \<Rightarrow> (nat \<Rightarrow> u32 multiset) \<Rightarrow> bool" where
  "items_inv st items left s tr h \<longleftrightarrow> length items < 2 ^ 32 \<and> unat (sc_in_flight s) = (\<Sum>w < st_workers st. flight (tr w)) + left
     \<and> unat (sc_completed s) + unat (sc_in_flight s) + length (sc_queue s) = length items
     \<and> mset items = mset (sc_queue s) + (\<Sum>w < st_workers st. h w)"

definition distribution_inv :: "setting \<Rightarrow> u32 list \<Rightarrow> cluster \<Rightarrow> bool" where
  "distribution_inv st items c \<longleftrightarrow> pool_inv st (cl_closed c) (cl_sched c)
     \<and> items_inv st items (lost st (cl_events c)) (cl_sched c) (trail c) (held c) \<and> manager_ok st (cl_manager c)
     \<and> (\<forall>w < st_workers st. expected (cl_closed c) (sc_workers (cl_sched c) ! w) (trail c w)
          \<and> worker_ok (cl_closed c) (cl_worker c w) (cl_to_worker c w) (cl_to_master c w)
          \<and> (\<forall>m \<in> set (cl_to_master c w). \<not> left_alone st m))"

lemma left_alone_simps [simp]:
  "\<not> left_alone st (Finished b r)" "\<not> left_alone st (Worker_close_down l)" "\<not> left_alone st New_work_acknowledgment"
  "\<not> left_alone st (Report_error s)" "left_alone st (Data_ready k p) \<longleftrightarrow> \<not> st_aggregators st k"
  by (simp_all add: left_alone_def)

lemma event_welcome:
  assumes "accepted st (case ev of Ran xs oc \<Rightarrow> oc_containers oc | Closed cs load \<Rightarrow> cs)" and "m \<in> set (event_messages st ev)"
  shows "\<not> left_alone st m"
proof -
  have "\<not> left_alone st m" if "accepted st cs" "m \<in> set (ready_messages cs)" for cs
    using that by (auto simp: ready_messages_def accepted_def)
  moreover have "\<not> left_alone st m" if "m \<in> set (worker_errors st oc)" for oc
    using that by (auto simp: worker_errors_def mb_flush_def Let_def)
  ultimately show ?thesis using assms by (cases ev) (auto split: if_splits)
qed

text \<open>The invariant looks at the channels, the scheduler, the worker manager and the close-down only.\<close>

definition same_distribution :: "cluster \<Rightarrow> cluster \<Rightarrow> bool" where
  "same_distribution c d \<longleftrightarrow> cl_to_master d = cl_to_master c \<and> cl_to_worker d = cl_to_worker c \<and> cl_events d = cl_events c
     \<and> cl_sched d = cl_sched c \<and> cl_manager d = cl_manager c \<and> cl_closed d = cl_closed c \<and> cl_worker d = cl_worker c"

lemma distribution_inv_same: "same_distribution c d \<Longrightarrow> distribution_inv st items d \<longleftrightarrow> distribution_inv st items c"
  by (simp add: distribution_inv_def trail_def [abs_def] held_def [abs_def] same_distribution_def)

section \<open>Steps of the workers\<close>

text \<open>A report replaces the assignment it answers.\<close>

lemma expected_replace: "expected down d (a @ Some k # b) \<Longrightarrow> expected down d (a @ Some k' # b)"
  by (auto simp: expected_def append_eq_Cons_conv Cons_eq_append_conv append_eq_append_conv2 split: if_splits)

lemma lost_snoc:
  assumes "w < st_workers st"
  shows "lost st (evs(w := evs w @ [e])) = lost st evs + shortfall e"
proof -
  have "lost st (evs(w := evs w @ [e])) + sum_list (map shortfall (evs w)) = lost st evs + sum_list (map shortfall ((evs(w := evs w @ [e])) w))"
    unfolding lost_def by (intro sum_update [OF assms]) simp
  then show ?thesis by simp
qed

definition tokens_of :: "setting \<Rightarrow> event \<Rightarrow> u32 option list" where
  "tokens_of st ev = concat (map tokens (event_messages st ev))"

lemma distribution_inv_event:
  assumes i: "distribution_inv st items c" and w: "w < st_workers st" and m: "cl_to_worker c w = m # ms"
    and ev: "event_items ev = instruction_items m" "flight (instruction_tokens m) = flight (tokens_of st ev) + shortfall ev"
      "\<And>a b d. expected (cl_closed c) d (a @ instruction_tokens m @ b) \<Longrightarrow> expected (cl_closed c) d (a @ tokens_of st ev @ b)"
      "accepted st (case ev of Ran xs oc \<Rightarrow> oc_containers oc | Closed cs load \<Rightarrow> cs)"
    and s: "worker_ok (cl_closed c) s ms (cl_to_master c w @ event_messages st ev)"
  shows "distribution_inv st items ((worker_event st w ev c)\<lparr>cl_worker := (cl_worker c)(w := s)\<rparr>)"
proof -
  let ?d = "(worker_event st w ev c)\<lparr>cl_worker := (cl_worker c)(w := s)\<rparr>"
  let ?a = "concat (map tokens (cl_to_master c w))" and ?b = "concat (map instruction_tokens ms)"
  have t: "trail c w = ?a @ instruction_tokens m @ ?b" "trail ?d w = ?a @ tokens_of st ev @ ?b"
    using m by (simp_all add: trail_def worker_event_def tokens_of_def)
  have to: "trail ?d v = trail c v" if "v \<noteq> w" for v using that by (simp add: trail_def worker_event_def)
  have h: "held ?d = held c" using m ev(1) by (auto simp: held_def worker_event_def fun_eq_iff ac_simps)
  have r: "cl_sched ?d = cl_sched c" "cl_closed ?d = cl_closed c" "cl_manager ?d = cl_manager c"
    by (simp_all add: worker_event_def)
  have l: "lost st (cl_events ?d) = lost st (cl_events c) + shortfall ev" using lost_snoc [OF w] by (simp add: worker_event_def)
  have "(\<Sum>v < st_workers st. flight (trail ?d v)) + flight (trail c w) = (\<Sum>v < st_workers st. flight (trail c v)) + flight (trail ?d w)"
    using to by (intro sum_update [OF w]) simp
  then have "(\<Sum>v < st_workers st. flight (trail ?d v)) + shortfall ev = (\<Sum>v < st_workers st. flight (trail c v))"
    using ev(2) by (simp add: t)
  then have it: "items_inv st items (lost st (cl_events ?d)) (cl_sched c) (trail ?d) (held c)"
    using i unfolding l by (simp add: distribution_inv_def items_inv_def)
  have "expected (cl_closed c) (sc_workers (cl_sched c) ! v) (trail ?d v)
      \<and> worker_ok (cl_closed c) (cl_worker ?d v) (cl_to_worker ?d v) (cl_to_master ?d v)
      \<and> (\<forall>m \<in> set (cl_to_master ?d v). \<not> left_alone st m)" if v: "v < st_workers st" for v
  proof (cases "v = w")
    case True
    have "expected (cl_closed c) (sc_workers (cl_sched c) ! w) (trail c w)" using i w by (simp add: distribution_inv_def)
    then have "expected (cl_closed c) (sc_workers (cl_sched c) ! w) (trail ?d w)" unfolding t by (rule ev(3))
    then show ?thesis using True i w s m event_welcome [OF ev(4)] by (auto simp: worker_event_def distribution_inv_def)
  next
    case False
    then show ?thesis using i v to by (simp add: worker_event_def distribution_inv_def)
  qed
  then show ?thesis using i it unfolding distribution_inv_def r h by blast
qed

lemma assignment_length:
  assumes i: "distribution_inv st items c" and w: "w < st_workers st" and s: "cl_to_worker c w = New_work_assignment xs # ms"
  shows "length xs < 2 ^ 32"
proof -
  have "mset xs \<subseteq># held c w" using s by (simp add: held_def)
  also have "held c w \<subseteq># (\<Sum>v < st_workers st. held c v)"
    using w by (subst sum.remove [of _ w]) simp_all
  also have "\<dots> \<subseteq># mset items" using i by (simp add: distribution_inv_def items_inv_def)
  finally have "length xs \<le> length items" using size_mset_mono by fastforce
  then show ?thesis using i by (simp add: distribution_inv_def items_inv_def)
qed

lemma distribution_inv_assignment:
  assumes ok: "setting_ok st" and i: "distribution_inv st items c" and w: "w < st_workers st"
    and s: "cl_worker c w = Working" "cl_to_worker c w = New_work_assignment xs # ms" "st_outcome st w xs oc"
  shows "distribution_inv st items (worker_assignment st w xs oc c)"
proof -
  have h: "sound_report xs oc" "accepted st (oc_containers oc)" using ok s(3) by (auto simp: setting_ok_def)
  have u: "unat (of_nat (length xs) :: u32) = length xs"
    using assignment_length [OF i w s(2)] by (simp add: unsigned_of_nat take_bit_nat_eq_self)
  have t: "tokens_of st (Ran xs oc) = [Some (items_processed (oc_report oc))]"
    using tokens_ran [OF h(1)] by (simp add: tokens_of_def)
  have f: "flight (instruction_tokens (New_work_assignment xs)) = flight (tokens_of st (Ran xs oc)) + shortfall (Ran xs oc)"
    unfolding t using h(1) u by (simp add: shortfall_def sound_report_def)
  have x: "expected (cl_closed c) d (a @ tokens_of st (Ran xs oc) @ b)"
    if "expected (cl_closed c) d (a @ instruction_tokens (New_work_assignment xs) @ b)" for a b d
    unfolding t using that expected_replace by simp
  have "worker_ok (cl_closed c) Working ms (cl_to_master c w @ event_messages st (Ran xs oc))"
    using i w s by (force simp: distribution_inv_def worker_ok_def split: if_splits)
  then have "distribution_inv st items ((worker_event st w (Ran xs oc) c)\<lparr>cl_worker := (cl_worker c)(w := Working)\<rparr>)"
    using h(2) by (intro distribution_inv_event [OF i w s(2) _ f x]) simp_all
  moreover have "(worker_event st w (Ran xs oc) c)\<lparr>cl_worker := (cl_worker c)(w := Working)\<rparr> = worker_assignment st w xs oc c"
    using h s(1) by (simp add: worker_assignment_def Let_def sound_report_def worker_event_def fun_upd_idem)
  ultimately show ?thesis by simp
qed

lemma distribution_inv_close:
  assumes ok: "setting_ok st" and i: "distribution_inv st items c" and w: "w < st_workers st"
    and s: "cl_worker c w = Working" "cl_to_worker c w = End_of_work # ms" "st_close st w cs"
  shows "distribution_inv st items (worker_close st w cs load c)"
proof -
  have a: "accepted st cs" using ok s(3) by (auto simp: setting_ok_def)
  have "trail c w = concat (map tokens (cl_to_master c w)) @ None # concat (map instruction_tokens ms)"
    using s(2) by (simp add: trail_def)
  moreover have e: "expected (cl_closed c) (sc_workers (cl_sched c) ! w) (trail c w)" using i w by (simp add: distribution_inv_def)
  ultimately have c: "cl_closed c" and "concat (map instruction_tokens ms) = []"
    by (auto simp: expected_def append_eq_Cons_conv append_eq_append_conv2 split: if_splits)
  moreover have "ms = []" if "concat (map instruction_tokens ms) = []"
  proof (rule ccontr)
    assume "ms \<noteq> []"
    then have "List.last ms = End_of_work" using i w s(1,2) c by (auto simp: distribution_inv_def worker_ok_def)
    with \<open>ms \<noteq> []\<close> that show False by (metis append_butlast_last_id concat_append concat_map_singleton append_is_Nil_conv
        list.simps(8,9) map_append not_Cons_self2 concat.simps token_simps(9))
  qed
  ultimately have "worker_ok (cl_closed c) Complete ms (cl_to_master c w @ event_messages st (Closed cs load))"
    by (simp add: worker_ok_def)
  then show ?thesis unfolding worker_close_def Let_def
    using distribution_inv_event [OF i w s(2), of "Closed cs load"] a
    by (simp add: worker_event_def tokens_of_def shortfall_def)
qed

section \<open>Receiving\<close>

lemma manage_ok:
  assumes "manager_ok st m" and "w < st_workers st"
  obtains m' where "manage w f m = (Inr (), m')" "manager_ok st m'"
  using assms by (auto simp: manager_ok_def manage_def Let_def)

lemma flight_le:
  assumes "items_inv st items left s tr h" and "w < st_workers st"
  shows "flight (tr w) \<le> unat (sc_in_flight s)"
  using assms member_le_sum [of w "{..<st_workers st}" "\<lambda>w. flight (tr w)"] by (simp add: items_inv_def)

lemma items_inv_drop:
  assumes "items_inv st items left s tr h" and w: "w < st_workers st" and "unat k + flight (tr' w) = flight (tr w)"
    and "\<And>v. v < st_workers st \<Longrightarrow> v \<noteq> w \<Longrightarrow> tr' v = tr v"
    and "sc_in_flight s' = sc_in_flight s - k" and "sc_completed s' = sc_completed s + k" and "sc_queue s' = sc_queue s"
  shows "items_inv st items left s' tr' h"
proof -
  have sum: "(\<Sum>v < st_workers st. flight (tr' v)) + flight (tr w) = (\<Sum>v < st_workers st. flight (tr v)) + flight (tr' w)"
    using assms(4) by (intro sum_update [OF w]) simp
  have le: "unat k \<le> unat (sc_in_flight s)" using flight_le [OF assms(1) w] assms(3) by simp
  then have "unat (sc_in_flight s') = unat (sc_in_flight s) - unat k" using assms(5) by (simp add: unat_sub word_le_nat_alt)
  moreover have "unat (sc_completed s) + unat k < 2 ^ 32"
    using assms(1) le by (simp add: items_inv_def)
  then have "unat (sc_completed s') = unat (sc_completed s) + unat k" using assms(6) by (simp add: unat_word_ariths)
  ultimately show ?thesis using assms(1,3,7) sum le by (simp add: items_inv_def)
qed

definition unassigned_state :: "nat \<Rightarrow> nat \<Rightarrow> u32 \<Rightarrow> sched \<Rightarrow> sched" where
  "unassigned_state w t k s =
     (update_worker w (\<lambda>d. (update_timing_data t k d)\<lparr>wk_assigned := False\<rparr>)
       (s\<lparr>sc_unassigned := sc_unassigned s + 1, sc_completed := sc_completed s + k\<rparr>))
         \<lparr>sc_in_flight := sc_in_flight s - k, sc_total_work := sc_total_work s + t\<rparr>"

lemma mark_unassigned_ok:
  assumes p: "pool_inv st down s" and w: "w < st_workers st" "wk_assigned (sc_workers s ! w)" and k: "unat k \<le> unat (sc_in_flight s)"
  obtains s' where "mark_unassigned w t k s = (Inr (), s')" "pool_inv st down s'" "sc_in_flight s' = sc_in_flight s - k"
    "sc_completed s' = sc_completed s + k" "sc_queue s' = sc_queue s"
    "\<not> wk_assigned (sc_workers s' ! w)" "wk_active (sc_workers s' ! w) = wk_active (sc_workers s ! w)"
    "\<And>v. v \<noteq> w \<Longrightarrow> sc_workers s' ! v = sc_workers s ! v"
proof -
  let ?d = "(update_timing_data t k (sc_workers s ! w))\<lparr>wk_assigned := False\<rparr>"
  let ?s = "update_estimate (unassigned_state w t k s)"
  have len: "w < length (sc_workers s)" using p w by (simp add: pool_inv_def)
  have "\<not> sc_in_flight s < k" using k by (simp add: word_less_nat_alt)
  then have "mark_unassigned w t k s = (Inr (), ?s)"
    using len w(2) by (simp add: mark_unassigned_def Let_def update_worker_def unassigned_state_def)
  moreover have ws: "sc_workers ?s = (sc_workers s)[w := ?d]"
    by (simp add: update_estimate_def unassigned_state_def update_worker_def)
  moreover have "length (unassigned_workers ?s) = Suc (length (unassigned_workers s))"
    using filter_update_length [OF len, of "\<lambda>d. \<not> wk_assigned d" ?d] w(2) by (simp add: unassigned_workers_def ws)
  moreover have "length (filter wk_active (sc_workers ?s)) = length (filter wk_active (sc_workers s))"
    using filter_update_length [OF len, of wk_active ?d] by (simp add: ws update_timing_data_def split: if_splits)
  moreover have so: "sched_ok ?s"
  proof -
    have "\<forall>i < length (sc_workers ?s). wk_number (sc_workers ?s ! i) = i"
      using p len by (auto simp: ws nth_list_update pool_inv_def sched_ok_def update_timing_data_def)
    moreover have "sc_unassigned ?s = of_nat (length (unassigned_workers ?s))"
      using p \<open>length (unassigned_workers ?s) = _\<close>
      by (simp add: pool_inv_def sched_ok_def update_estimate_def unassigned_state_def update_worker_def)
    ultimately show ?thesis using p
      by (simp add: pool_inv_def sched_ok_def update_estimate_def unassigned_state_def update_worker_def)
  qed
  moreover have f: "sc_in_flight ?s = sc_in_flight s - k" "sc_completed ?s = sc_completed s + k" "sc_queue ?s = sc_queue s"
    "sc_active ?s = sc_active s" "uniform_pool ?s = uniform_pool s"
    by (simp_all add: update_estimate_def unassigned_state_def update_worker_def uniform_pool_def)
  moreover have "sc_in_flight ?s = 0" if "all_inactive ?s"
  proof -
    have "sc_in_flight s = 0" using p that f(4) by (simp add: pool_inv_def all_inactive_def)
    then show ?thesis using k f(1) by (simp add: unat_eq_zero)
  qed
  moreover have wa: "wk_active (sc_workers ?s ! v) = wk_active (sc_workers s ! v)"
      "wk_assigned (sc_workers ?s ! v) = (wk_assigned (sc_workers s ! v) \<and> v \<noteq> w)" for v
    using len by (cases "v = w"; simp add: ws update_timing_data_def)+
  ultimately have "pool_inv st down ?s" using p unfolding pool_inv_def by (simp add: ws)
  then show ?thesis using \<open>mark_unassigned w t k s = (Inr (), ?s)\<close> f wa
    by (intro that [of ?s]) (simp_all add: ws)
qed

definition inactive_state :: "nat \<Rightarrow> sched \<Rightarrow> sched" where
  "inactive_state w s = update_worker w (\<lambda>d. d\<lparr>wk_active := False\<rparr>) (s\<lparr>sc_active := sc_active s - 1\<rparr>)"

lemma inactive_count:
  assumes "length (sc_workers s) < 2 ^ 32" and "sc_active s = of_nat (length (filter wk_active (sc_workers s)))"
  shows "all_inactive s \<longleftrightarrow> (\<forall>w < length (sc_workers s). \<not> wk_active (sc_workers s ! w))"
proof -
  have "length (filter wk_active (sc_workers s)) < 2 ^ 32"
    using assms(1) length_filter_le [of wk_active "sc_workers s"] by linarith
  then have "(of_nat (length (filter wk_active (sc_workers s))) :: u32) = 0 \<longleftrightarrow> filter wk_active (sc_workers s) = []"
    by (auto simp: word_of_nat_eq_0_iff dest: dvd_imp_le)
  then show ?thesis using assms(2) by (simp add: all_inactive_def filter_empty_conv all_set_conv_all_nth)
qed

lemma all_inactive_iff:
  "pool_inv st down s \<Longrightarrow> all_inactive s \<longleftrightarrow> (\<forall>w < st_workers st. \<not> wk_active (sc_workers s ! w))"
  using inactive_count [of s] by (simp add: pool_inv_def sched_ok_def)

text \<open>When the last worker closes down, only items that were left out can be in flight.\<close>

lemma mark_inactive_ok:
  assumes p: "pool_inv st True s" and w: "w < st_workers st" "wk_active (sc_workers s ! w)" "\<not> wk_assigned (sc_workers s ! w)"
    and i: "unat (sc_in_flight s) = (\<Sum>v < st_workers st. flight (tr v)) + left" and t: "tr w = [None]"
    and e: "\<And>v. v < st_workers st \<Longrightarrow> expected True (sc_workers s ! v) (tr v)"
  shows "mark_inactive w s = (Inr (), inactive_state w s) \<and> pool_inv st True (inactive_state w s)
    \<or> mark_inactive w s = (Inl (Runtime_error ''CPPTRANSPORT_SCHEDULING_UNDER_INFLIGHT''), inactive_state w s) \<and> 0 < left"
proof -
  let ?d = "(sc_workers s ! w)\<lparr>wk_active := False\<rparr>" and ?s = "inactive_state w s"
  have len: "w < length (sc_workers s)" using p w by (simp add: pool_inv_def)
  have ws: "sc_workers ?s = (sc_workers s)[w := ?d]" by (simp add: inactive_state_def update_worker_def)
  have "Suc (length (filter wk_active (sc_workers ?s))) = length (filter wk_active (sc_workers s))"
    using filter_update_length [OF len, of wk_active ?d] w(2) by (simp add: ws)
  then have act: "sc_active ?s = of_nat (length (filter wk_active (sc_workers ?s)))"
    using p by (simp add: pool_inv_def inactive_state_def update_worker_def)
       (metis add_diff_cancel_left' of_nat_Suc)
  have "length (unassigned_workers ?s) = length (unassigned_workers s)"
    using filter_update_length [OF len, of "\<lambda>d. \<not> wk_assigned d" ?d] by (simp add: unassigned_workers_def ws split: if_splits)
  moreover have "\<forall>i < length (sc_workers ?s). wk_number (sc_workers ?s ! i) = i"
    using p len by (auto simp: ws nth_list_update pool_inv_def sched_ok_def)
  ultimately have so: "sched_ok ?s" using p by (simp add: pool_inv_def sched_ok_def inactive_state_def update_worker_def)
  have fl: "sc_in_flight ?s = sc_in_flight s" by (simp add: inactive_state_def update_worker_def)
  have m: "mark_inactive w s = (if all_inactive ?s \<and> 0 < sc_in_flight ?s
      then (Inl (Runtime_error ''CPPTRANSPORT_SCHEDULING_UNDER_INFLIGHT''), ?s) else (Inr (), ?s))"
    using len w(2) by (simp add: mark_inactive_def Let_def inactive_state_def update_worker_def all_inactive_def)
  show ?thesis
  proof (cases "all_inactive ?s \<and> 0 < sc_in_flight ?s")
    case True
    have ina: "\<forall>v < st_workers st. \<not> wk_active (sc_workers ?s ! v)"
      using inactive_count [of ?s] so act True p by (simp add: sched_ok_def ws pool_inv_def)
    have "flight (tr v) = 0" if v: "v < st_workers st" for v
    proof (cases "v = w")
      case False
      then have na: "\<not> wk_active (sc_workers s ! v)" using ina v by (metis nth_list_update_neq ws)
      then have "\<not> wk_assigned (sc_workers s ! v)" using p v by (simp add: pool_inv_def)
      then show ?thesis using e [OF v] na by (simp add: expected_def)
    qed (simp add: t)
    then have "unat (sc_in_flight s) = left" using i by simp
    then show ?thesis using m True fl by (auto simp: unat_gt_0)
  next
    case False
    have "uniform_pool ?s = uniform_pool s" "length (sc_workers ?s) = length (sc_workers s)" "sc_queue ?s = sc_queue s"
      by (simp_all add: inactive_state_def update_worker_def uniform_pool_def)
    then have "pool_inv st True ?s" using p so act False fl w(3) len
      by (auto simp: pool_inv_def ws nth_list_update unat_gt_0 word_less_nat_alt)
    then show ?thesis using m False by auto
  qed
qed

lemma distribution_inv_take:
  assumes i: "distribution_inv st items c" and w: "w < st_workers st" and m: "cl_to_master c w = m # ms"
    and d: "cl_to_master d = (cl_to_master c)(w := ms)" "cl_to_worker d = cl_to_worker c" "cl_events d = cl_events c"
      "cl_closed d = cl_closed c" "cl_worker d = cl_worker c" "manager_ok st (cl_manager d)"
    and s: "pool_inv st (cl_closed c) (cl_sched d)" "items_inv st items (lost st (cl_events c)) (cl_sched d) (trail d) (held c)"
      "expected (cl_closed c) (sc_workers (cl_sched d) ! w) (trail d w)"
      "\<And>v. v \<noteq> w \<Longrightarrow> sc_workers (cl_sched d) ! v = sc_workers (cl_sched c) ! v"
  shows "distribution_inv st items d"
proof -
  have "held d = held c" using d by (simp add: held_def [abs_def])
  moreover have "expected (cl_closed d) (sc_workers (cl_sched d) ! v) (trail d v)
      \<and> worker_ok (cl_closed d) (cl_worker d v) (cl_to_worker d v) (cl_to_master d v)
      \<and> (\<forall>m \<in> set (cl_to_master d v). \<not> left_alone st m)" if v: "v < st_workers st" for v
  proof (cases "v = w")
    case True
    have "worker_ok (cl_closed c) (cl_worker c w) (cl_to_worker c w) (m # ms)"
      and "\<forall>m \<in> set (m # ms). \<not> left_alone st m" using i w m by (metis distribution_inv_def)+
    then show ?thesis using True d s(3) by (auto simp: worker_ok_def split: if_splits)
  next
    case False
    then have "trail d v = trail c v" using d by (simp add: trail_def)
    then show ?thesis using False i v d s(4) by (simp add: distribution_inv_def)
  qed
  ultimately show ?thesis using d s unfolding distribution_inv_def by simp
qed


text \<open>Receiving a message leaves the loop where it is, or ends it when items were left out.\<close>

definition handled :: "setting \<Rightarrow> u32 list \<Rightarrow> cluster \<Rightarrow> nat \<Rightarrow> cluster \<Rightarrow> bool" where
  "handled st items c w d \<longleftrightarrow> distribution_inv st items d \<and> cl_point d = cl_point c
     \<and> cl_to_master d = (cl_to_master c)(w := List.tl (cl_to_master c w)) \<and> cl_to_worker d = cl_to_worker c
     \<and> cl_closed d = cl_closed c \<and> sc_queue (cl_sched d) = sc_queue (cl_sched c)"

definition under_inflight :: exn where
  "under_inflight = Runtime_error ''CPPTRANSPORT_SCHEDULING_UNDER_INFLIGHT''"

definition received :: "setting \<Rightarrow> u32 list \<Rightarrow> cluster \<Rightarrow> nat \<Rightarrow> (exn + unit) \<times> cluster \<Rightarrow> bool" where
  "received st items c w r \<longleftrightarrow> (\<exists>d. r = (Inr (), d) \<and> handled st items c w d)
     \<or> (\<exists>d. r = (Inl under_inflight, d) \<and> cl_events d = cl_events c \<and> 0 < lost st (cl_events c))"

lemma taken_fields [simp]:
  "cl_to_master (taken w c) = (cl_to_master c)(w := List.tl (cl_to_master c w))" "cl_to_worker (taken w c) = cl_to_worker c"
  "cl_events (taken w c) = cl_events c" "cl_closed (taken w c) = cl_closed c" "cl_worker (taken w c) = cl_worker c"
  "cl_manager (taken w c) = cl_manager c" "cl_sched (taken w c) = cl_sched c" "cl_point (taken w c) = cl_point c"
  by (simp_all add: taken_def take_message_def modifyA_def)

lemma trail_taken: "cl_to_master c w = m # ms \<Longrightarrow> trail c w = tokens m @ trail (taken w c) w"
  by (simp add: trail_def)

lemma trail_taken_other: "v \<noteq> w \<Longrightarrow> trail (taken w c) v = trail c v"
  by (simp add: trail_def)

lemma handled_plain:
  assumes i: "distribution_inv st items c" and w: "w < st_workers st" and m: "cl_to_master c w = m # ms" and "tokens m = []"
    and f: "same_distribution (taken w c) (f (taken w c))" "cl_point (f (taken w c)) = cl_point c"
  shows "received st items c w (Inr (), f (taken w c))"
proof -
  have t: "trail (taken w c) = trail c"
    using assms(4) trail_taken [OF m] trail_taken_other by (intro ext) (metis append_Nil)
  have "distribution_inv st items (taken w c)"
    using i t w m by (intro distribution_inv_take [OF i w m]) (simp_all add: distribution_inv_def)
  then have "distribution_inv st items (f (taken w c))" using f(1) distribution_inv_same by blast
  then show ?thesis using f by (simp add: received_def handled_def same_distribution_def)
qed

lemma handled_finished:
  assumes i: "distribution_inv st items c" and w: "w < st_workers st" and m: "cl_to_master c w = Finished b r # ms"
  shows "received st items c w (message_rest w (Finished b r) (taken w c))"
proof -
  let ?s = "cl_sched c" and ?k = "items_processed r" and ?t = "taken w c"
  have tr: "trail c w = Some ?k # trail ?t w" using trail_taken [OF m] by simp
  have e: "expected (cl_closed c) (sc_workers ?s ! w) (trail c w)" using i w by (simp add: distribution_inv_def)
  then have as: "wk_assigned (sc_workers ?s ! w)"
    and rest: "trail ?t w = (if cl_closed c \<and> wk_active (sc_workers ?s ! w) then [None] else [])"
    unfolding tr by (auto simp: expected_def split: if_splits)
  have p: "pool_inv st (cl_closed c) ?s" and it: "items_inv st items (lost st (cl_events c)) ?s (trail c) (held c)" and mg: "manager_ok st (cl_manager c)"
    using i by (simp_all add: distribution_inv_def)
  have "unat ?k \<le> unat (sc_in_flight ?s)" using flight_le [OF it w] tr by simp
  from mark_unassigned_ok [OF p w as this] obtain s' where s':
    "mark_unassigned w (report_wallclock r) ?k ?s = (Inr (), s')" "pool_inv st (cl_closed c) s'"
    "sc_in_flight s' = sc_in_flight ?s - ?k" "sc_completed s' = sc_completed ?s + ?k" "sc_queue s' = sc_queue ?s"
    "\<not> wk_assigned (sc_workers s' ! w)" "wk_active (sc_workers s' ! w) = wk_active (sc_workers ?s ! w)"
    "\<And>v. v \<noteq> w \<Longrightarrow> sc_workers s' ! v = sc_workers ?s ! v" by blast
  obtain m' where m': "update_load_average (report_load r) w (cl_manager c) = (Inr (), m')" "manager_ok st m'"
    using manage_ok [OF mg w] unfolding update_load_average_def by blast
  let ?d = "?t\<lparr>cl_sched := s', cl_manager := m'\<rparr>"
  have trd: "trail ?d = trail ?t" by (simp add: trail_def [abs_def])
  have "items_inv st items (lost st (cl_events c)) s' (trail ?d) (held c)" unfolding trd
    using it w tr s' trail_taken_other by (intro items_inv_drop [OF it w, of ?k]) simp_all
  moreover have "expected (cl_closed c) (sc_workers s' ! w) (trail ?d w)"
    unfolding trd rest expected_def using s'(6,7) by simp
  ultimately have d: "distribution_inv st items ?d"
    using s' m' m by (intro distribution_inv_take [OF i w m]) simp_all
  let ?e = "(if b then merge_report r ?d else (merge_report r ?d)\<lparr>cl_success := False\<rparr>)"
  have same: "same_distribution ?d ?e" "cl_point ?e = cl_point c"
    by (cases r; simp add: same_distribution_def Let_def merge_failure_list_def)+
  have "message_rest w (Finished b r) ?t = (Inr (), ?e)"
    using s'(1) m'(1) by (simp add: message_rest_def unassign_worker_def bindA_def on_sched_def on_manager_def modifyA_def)
  moreover have "distribution_inv st items ?e" using d same distribution_inv_same by blast
  ultimately show ?thesis using same s'(5) by (simp add: received_def handled_def same_distribution_def)
qed

lemma handled_close_down:
  assumes i: "distribution_inv st items c" and w: "w < st_workers st" and m: "cl_to_master c w = Worker_close_down load # ms"
  shows "received st items c w (message_rest w (Worker_close_down load) (taken w c))"
proof -
  let ?s = "cl_sched c" and ?t = "taken w c"
  have tr: "trail c w = None # trail ?t w" using trail_taken [OF m] by simp
  have e: "expected (cl_closed c) (sc_workers ?s ! v) (trail c v)" if "v < st_workers st" for v
    using i that by (simp add: distribution_inv_def)
  have cl: "cl_closed c" and ac: "wk_active (sc_workers ?s ! w)" and as: "\<not> wk_assigned (sc_workers ?s ! w)"
    and rest: "trail ?t w = []"
    using e [OF w] unfolding tr by (auto simp: expected_def split: if_splits)
  have p: "pool_inv st True ?s" and it: "items_inv st items (lost st (cl_events c)) ?s (trail c) (held c)" and mg: "manager_ok st (cl_manager c)"
    using i cl by (simp_all add: distribution_inv_def)
  have n: "mark_inactive w ?s = (Inr (), inactive_state w ?s) \<and> pool_inv st True (inactive_state w ?s)
      \<or> mark_inactive w ?s = (Inl under_inflight, inactive_state w ?s) \<and> 0 < lost st (cl_events c)"
    unfolding under_inflight_def using mark_inactive_ok [OF p w ac as, of "trail c"] it e cl rest tr by (simp add: items_inv_def)
  obtain m' where m': "update_load_average load w (cl_manager c) = (Inr (), m')" "manager_ok st m'"
    using manage_ok [OF mg w] unfolding update_load_average_def by blast
  let ?d = "?t\<lparr>cl_sched := inactive_state w ?s, cl_manager := m'\<rparr>"
  from n show ?thesis
  proof
    assume n: "mark_inactive w ?s = (Inr (), inactive_state w ?s) \<and> pool_inv st True (inactive_state w ?s)"
    have trd: "trail ?d = trail ?t" by (simp add: trail_def [abs_def])
    have "items_inv st items (lost st (cl_events c)) (inactive_state w ?s) (trail ?d) (held c)" unfolding trd
      using w tr trail_taken_other by (intro items_inv_drop [OF it w, of 0]) (simp_all add: inactive_state_def update_worker_def)
    moreover have "expected (cl_closed c) (sc_workers (inactive_state w ?s) ! w) (trail ?d w)"
      unfolding trd rest expected_def using p w as by (simp add: inactive_state_def update_worker_def pool_inv_def)
    ultimately have "distribution_inv st items ?d"
      using n m' m cl by (intro distribution_inv_take [OF i w m]) (simp_all add: inactive_state_def update_worker_def)
    moreover have "message_rest w (Worker_close_down load) ?t = (Inr (), ?d)"
      using n m'(1) by (simp add: message_rest_def bindA_def on_sched_def on_manager_def)
    ultimately show ?thesis by (simp add: received_def handled_def inactive_state_def update_worker_def)
  next
    assume "mark_inactive w ?s = (Inl under_inflight, inactive_state w ?s) \<and> 0 < lost st (cl_events c)"
    then show ?thesis by (simp add: received_def message_rest_def bindA_def on_sched_def)
  qed
qed

lemma handled_message:
  assumes i: "distribution_inv st items c" and w: "w < st_workers st" and m: "cl_to_master c w = m # ms"
  shows "received st items c w (handle_message st w m c)"
proof -
  have "\<not> left_alone st m" using i w m by (simp add: distribution_inv_def)
  then have h: "handle_message st w m c = message_rest w m (taken w c)" by (simp add: handle_message_rest)
  show ?thesis unfolding h
  proof (cases m)
    case (Data_ready k path)
    then show "received st items c w (message_rest w m (taken w c))"
      using handled_plain [OF i w m, of "enqueue_aggregation w k path"]
      by (simp add: message_rest_def modifyA_def enqueue_aggregation_def same_distribution_def)
  next
    case (Report_error msg)
    then show "received st items c w (message_rest w m (taken w c))"
      using handled_plain [OF i w m, of "\<lambda>c. c\<lparr>cl_alerts := cl_alerts c @ [msg @ '' reported by worker '' @ dec_string (Suc w)]\<rparr>"]
      by (simp add: message_rest_def modifyA_def same_distribution_def)
  qed (use handled_finished [OF i w] handled_close_down [OF i w] handled_plain [OF i w m, of id] m in
      \<open>simp_all add: message_rest_def returnA_def same_distribution_def\<close>)
qed

text \<open>What remains of the invariant when the loop was left by the exception.\<close>

definition stopped :: "setting \<Rightarrow> cluster \<Rightarrow> bool" where
  "stopped st c \<longleftrightarrow> cl_point c = Raised under_inflight \<and> 0 < lost st (cl_events c)"

lemma receive_unfold:
  assumes i: "distribution_inv st items c" and w: "w < st_workers st" and m: "cl_to_master c w = x # ms"
  obtains d where "same_distribution (c\<lparr>cl_manager := cl_manager d\<rparr>) d" "cl_point d = cl_point c"
    "cl_failed d = cl_failed c" "cl_success d = cl_success c" "cl_received d = cl_received c" "cl_int_meta d = cl_int_meta c"
    "cl_aggregated d = cl_aggregated c" "cl_refused d = cl_refused c" "cl_queue d = cl_queue c"
    "received st items c w (message_rest w x (taken w d))"
    "master_receive st now w c = settle st (message_rest w x (taken w d))"
proof -
  have "manager_ok st (cl_manager c)" using i by (simp add: distribution_inv_def)
  from manage_ok [OF this w] obtain m' where m': "update_contact_time now w (cl_manager c) = (Inr (), m')" "manager_ok st m'"
    unfolding update_contact_time_def by blast
  let ?d = "c\<lparr>cl_last := now, cl_manager := m'\<rparr>"
  have "distribution_inv st items ?d" using i m'(2) by (simp add: distribution_inv_def trail_def [abs_def] held_def [abs_def])
  then have h: "received st items ?d w (handle_message st w x ?d)" using w m by (intro handled_message [of _ _ _ _ _ ms]) simp_all
  have r: "master_receive st now w c = settle st (handle_message st w x ?d)"
    using m'(1) m by (simp add: master_receive_def bindA_def modifyA_def on_manager_def)
  have "\<not> left_alone st x" using i w m by (simp add: distribution_inv_def)
  then have hr: "handle_message st w x ?d = message_rest w x (taken w ?d)" by (simp add: handle_message_rest)
  show ?thesis using h r unfolding hr
    by (intro that [of ?d]) (simp_all add: same_distribution_def received_def handled_def)
qed

lemma distribution_inv_receive:
  assumes i: "distribution_inv st items c" and w: "w < st_workers st" and m: "cl_to_master c w \<noteq> []"
  shows "handled st items c w (master_receive st now w c) \<or> stopped st (master_receive st now w c)"
proof -
  obtain x ms where x: "cl_to_master c w = x # ms" using m by (cases "cl_to_master c w") simp
  from receive_unfold [OF i w x] obtain d where d: "received st items c w (message_rest w x (taken w d))"
    "master_receive st now w c = settle st (message_rest w x (taken w d))" by metis
  then show ?thesis
    by (auto simp: received_def settle_def stopped_def send_closedown_def workers_end_of_task_def)
qed

section \<open>Aggregations\<close>

lemma pool_inv_aggregation: "pool_inv st down (report_aggregation t s) \<longleftrightarrow> pool_inv st down s"
  by (simp add: pool_inv_def sched_ok_def report_aggregation_def Let_def unassigned_workers_def uniform_pool_def all_inactive_def)

lemma report_aggregation_fields [simp]:
  "sc_workers (report_aggregation t s) = sc_workers s" "sc_queue (report_aggregation t s) = sc_queue s"
  "sc_in_flight (report_aggregation t s) = sc_in_flight s" "sc_completed (report_aggregation t s) = sc_completed s"
  "sc_active (report_aggregation t s) = sc_active s"
  by (simp_all add: report_aggregation_def Let_def)

lemma distribution_inv_aggregation:
  assumes "distribution_inv st items c" and "cl_to_master d = cl_to_master c" "cl_to_worker d = cl_to_worker c"
    "cl_events d = cl_events c" "cl_manager d = cl_manager c" "cl_closed d = cl_closed c" "cl_worker d = cl_worker c"
    "cl_sched d = report_aggregation t (cl_sched c)"
  shows "distribution_inv st items d"
proof -
  have "trail d = trail c" "held d = held c" using assms(2-4) by (simp_all add: trail_def [abs_def] held_def [abs_def])
  with assms show ?thesis by (simp add: distribution_inv_def pool_inv_aggregation items_inv_def)
qed

text \<open>One record leaves the queue, aggregated or refused.\<close>

definition aggregated :: "setting \<Rightarrow> u32 list \<Rightarrow> cluster \<Rightarrow> nat \<Rightarrow> cluster \<Rightarrow> bool" where
  "aggregated st items c n d \<longleftrightarrow> distribution_inv st items d \<and> cl_point d = cl_point c \<and> cl_closed d = cl_closed c
     \<and> cl_to_master d = cl_to_master c \<and> cl_to_worker d = cl_to_worker c \<and> cl_queue d = drop n (cl_queue c)
     \<and> sc_active (cl_sched d) = sc_active (cl_sched c) \<and> sc_queue (cl_sched d) = sc_queue (cl_sched c)
     \<and> cl_received d = cl_received c
     \<and> mset (cl_aggregated d @ cl_refused d @ cl_queue d) = mset (cl_aggregated c @ cl_refused c @ cl_queue c)"

lemma aggregate_front_ok:
  assumes ok: "setting_ok st" and i: "distribution_inv st items c" and q: "cl_queue c = r # rs"
  shows "\<exists>d. aggregate_front st c = (Inr (), d) \<and> aggregated st items c 1 d"
proof (cases "st_aggregate st r")
  case (Aggregated t)
  let ?d = "(snd (aggregate_record st r c))\<lparr>cl_queue := rs\<rparr>"
  have "distribution_inv st items ?d"
    by (rule distribution_inv_aggregation [OF i]) (simp_all add: aggregate_record_def Aggregated)
  then show ?thesis using q Aggregated
    by (simp add: aggregate_front_def aggregate_record_def bindA_def modifyA_def aggregated_def)
next
  case Container_error
  then have "ar_kind r \<noteq> Derived_content" using ok by (auto simp: setting_ok_def)
  moreover have "distribution_inv st items (c\<lparr>cl_fail := True, cl_refused := cl_refused c @ [r], cl_queue := rs\<rparr>)"
    by (rule distribution_inv_same [THEN iffD2, OF _ i]) (simp add: same_distribution_def)
  ultimately show ?thesis using q Container_error
    by (simp add: aggregate_front_def aggregate_record_def bindA_def modifyA_def aggregated_def)
next
  case (Aggregation_throws e)
  then show ?thesis using ok by (auto simp: setting_ok_def)
qed

lemma aggregate_all_ok:
  assumes "setting_ok st" and "distribution_inv st items c" and "n = length (cl_queue c)"
  shows "\<exists>d. aggregate_all st n c = (Inr (), d) \<and> aggregated st items c n d"
  using assms(2,3)
proof (induction n arbitrary: c)
  case 0
  then show ?case by (simp add: returnA_def aggregated_def)
next
  case (Suc n)
  then obtain r rs where q: "cl_queue c = r # rs" by (cases "cl_queue c") simp_all
  from aggregate_front_ok [OF assms(1) Suc.prems(1) q] obtain d where d: "aggregate_front st c = (Inr (), d)"
    "aggregated st items c 1 d" by blast
  with Suc.prems(2) have "\<exists>e. aggregate_all st n d = (Inr (), e) \<and> aggregated st items d n e"
    by (intro Suc.IH) (simp_all add: aggregated_def)
  then show ?case using d by (auto simp: bindA_def aggregated_def)
qed

section \<open>Distributing\<close>

lemma distribution_inv_closedown:
  assumes i: "distribution_inv st items c" and "\<not> cl_closed c" and q: "sc_queue (cl_sched c) = []"
  shows "distribution_inv st items (send_closedown st c)"
proof -
  let ?d = "send_closedown st c"
  have f: "cl_closed ?d = True" "cl_sched ?d = cl_sched c" "cl_manager ?d = cl_manager c" "cl_worker ?d = cl_worker c"
    "cl_to_master ?d = cl_to_master c" "cl_events ?d = cl_events c"
    "\<And>w. cl_to_worker ?d w = (if w < st_workers st then cl_to_worker c w @ [End_of_work] else cl_to_worker c w)"
    by (simp_all add: send_closedown_def workers_end_of_task_def)
  have tr: "trail ?d w = trail c w @ [None]" if "w < st_workers st" for w using that by (simp add: trail_def f)
  have h: "held ?d = held c" by (simp add: held_def f fun_eq_iff)
  have p: "pool_inv st True (cl_sched c)" using i q by (auto simp: distribution_inv_def pool_inv_def)
  have "items_inv st items (lost st (cl_events c)) (cl_sched c) (trail ?d) (held c)"
    using i tr by (simp add: distribution_inv_def items_inv_def)
  moreover have "expected True (sc_workers (cl_sched c) ! w) (trail ?d w)
      \<and> worker_ok True (cl_worker c w) (cl_to_worker ?d w) (cl_to_master c w)" if "w < st_workers st" for w
  proof -
    have "wk_active (sc_workers (cl_sched c) ! w)" using i assms(2) that by (auto simp: distribution_inv_def pool_inv_def)
    then show ?thesis using i assms(2) that by (auto simp: distribution_inv_def expected_def worker_ok_def tr f)
  qed
  ultimately show ?thesis using i p unfolding distribution_inv_def f h by simp
qed

lemma push_assignment_inv:
  assumes i: "distribution_inv st items c" and cl: "\<not> cl_closed c" and v: "valid_assignments (cl_sched c) ((w, xs) # as)"
  defines "s' \<equiv> assigned_state w xs (drop (length xs) (sc_queue (cl_sched c))) (cl_sched c)"
  defines "d \<equiv> c\<lparr>cl_to_worker := (cl_to_worker c)(w := cl_to_worker c w @ [New_work_assignment xs]), cl_sched := s'\<rparr>"
  shows "push_assignment (w, xs) c = (Inr (), d)" and "distribution_inv st items d" and "valid_assignments s' as"
proof -
  let ?s = "cl_sched c"
  note st = valid_assignments_step [OF v]
  have p: "pool_inv st False ?s" and it: "items_inv st items (lost st (cl_events c)) ?s (trail c) (held c)" using i cl by (simp_all add: distribution_inv_def)
  have w: "w < st_workers st" using st(1) p by (simp add: pool_inv_def)
  note m = mark_assigned_prefix [of ?s w xs "drop (length xs) (sc_queue ?s)"]
  have so: "sched_ok ?s" using p by (simp add: pool_inv_def)
  show "push_assignment (w, xs) c = (Inr (), d)"
    using m(1) [OF so st(1,2,4)] by (simp add: push_assignment_def bindA_def modifyA_def on_sched_def d_def s'_def)
  show "valid_assignments s' as" using st(5) by (simp add: s'_def)
  have ws: "sc_workers s' = (sc_workers ?s)[w := (sc_workers ?s ! w)\<lparr>wk_assigned := True\<rparr>]"
    by (simp add: s'_def assigned_state_def update_worker_def)
  have "length (filter wk_active (sc_workers s')) = length (filter wk_active (sc_workers ?s))"
    using filter_update_length [OF st(1), of wk_active "(sc_workers ?s ! w)\<lparr>wk_assigned := True\<rparr>"] by (simp add: ws split: if_splits)
  moreover have "wk_active (sc_workers s' ! u) = wk_active (sc_workers ?s ! u)" for u
    using st(1) by (cases "u = w") (simp_all add: ws)
  moreover have "sc_active s' = sc_active ?s" "length (sc_workers s') = length (sc_workers ?s)" "uniform_pool s' = uniform_pool ?s"
    by (simp_all add: s'_def assigned_state_def update_worker_def uniform_pool_def)
  moreover have "\<not> all_inactive ?s" using all_inactive_iff [OF p] p w by (auto simp: pool_inv_def)
  then have "\<not> all_inactive s'" using \<open>sc_active s' = sc_active ?s\<close> by (simp add: all_inactive_def)
  ultimately have p': "pool_inv st False s'"
    using p m(2) [OF so st(1,2,4)] by (simp add: pool_inv_def s'_def)
  have t0: "trail c w = []" using i w cl st(2) by (auto simp: distribution_inv_def expected_def)
  have tr: "trail d w = [Some (of_nat (length xs))]" using t0 by (simp add: trail_def d_def)
  have tro: "trail d u = trail c u" if "u \<noteq> w" for u using that by (simp add: trail_def d_def)
  have ho: "held d u = held c u" if "u \<noteq> w" for u using that by (simp add: held_def d_def)
  have hw: "held d w = held c w + mset xs" by (simp add: held_def d_def)
  have q: "sc_queue s' = drop (length xs) (sc_queue ?s)" "sc_completed s' = sc_completed ?s"
    "sc_in_flight s' = sc_in_flight ?s + of_nat (length xs)"
    by (simp_all add: s'_def assigned_state_def update_worker_def)
  have len: "length xs \<le> length (sc_queue ?s)"
    using arg_cong [OF st(4), of length] by (simp only: length_append)
  have bound: "unat (sc_in_flight ?s) + length xs < 2 ^ 32" using it len by (simp add: items_inv_def)
  then have lx: "unat (of_nat (length xs) :: u32) = length xs" by (simp add: unsigned_of_nat take_bit_nat_eq_self)
  have "(\<Sum>u < st_workers st. flight (trail d u)) = (\<Sum>u < st_workers st. flight (trail c u)) + length xs"
    using sum_update [OF w, of "\<lambda>u. flight (trail d u)" "\<lambda>u. flight (trail c u)"] tro t0 tr lx by simp
  moreover have "(\<Sum>u < st_workers st. held d u) + held c w = (\<Sum>u < st_workers st. held c u) + held d w"
    using ho by (intro sum_update [OF w]) simp
  then have "(\<Sum>u < st_workers st. held d u) = (\<Sum>u < st_workers st. held c u) + mset xs"
    unfolding hw by (simp add: ac_simps)
  moreover have "mset (sc_queue ?s) = mset xs + mset (sc_queue s')" using arg_cong [OF st(4), of mset] q(1) by (simp only: mset_append)
  moreover have "unat (sc_in_flight s') = unat (sc_in_flight ?s) + length xs" using bound lx q(3) by (simp add: unat_word_ariths)
  ultimately have "items_inv st items (lost st (cl_events c)) s' (trail d) (held d)"
    using it len q by (simp add: items_inv_def)
  moreover have "expected False (sc_workers s' ! u) (trail d u) \<and> worker_ok False (cl_worker d u) (cl_to_worker d u) (cl_to_master d u)
      \<and> (\<forall>m \<in> set (cl_to_master d u). \<not> left_alone st m)" if "u < st_workers st" for u
  proof (cases "u = w")
    case True
    have "worker_ok False (cl_worker d w) (cl_to_worker d w) (cl_to_master d w)" and "\<forall>m \<in> set (cl_to_master d w). \<not> left_alone st m"
      using i cl w by (auto simp: distribution_inv_def worker_ok_def d_def)
    then show ?thesis using True st(1) by (simp add: expected_def tr ws)
  next
    case False
    have "worker_ok False (cl_worker d u) (cl_to_worker d u) (cl_to_master d u)" and "\<forall>m \<in> set (cl_to_master d u). \<not> left_alone st m"
      using i cl that False by (auto simp: distribution_inv_def worker_ok_def d_def)
    moreover have "expected False (sc_workers ?s ! u) (trail c u)" using i cl that by (simp add: distribution_inv_def)
    ultimately show ?thesis using False by (simp add: tro ws)
  qed
  ultimately show "distribution_inv st items d"
    using i cl p' unfolding distribution_inv_def by (simp add: d_def)
qed

lemma push_assignments_inv:
  assumes "distribution_inv st items c" and "\<not> cl_closed c" and "valid_assignments (cl_sched c) as"
  shows "\<exists>d. push_assignments as c = (Inr (), d) \<and> distribution_inv st items d \<and> cl_to_master d = cl_to_master c
    \<and> cl_closed d = cl_closed c \<and> cl_received d = cl_received c
    \<and> length (sc_queue (cl_sched d)) + length (concat (map snd as)) = length (sc_queue (cl_sched c))"
  using assms
proof (induction as arbitrary: c)
  case Nil
  then show ?case by (simp add: returnA_def)
next
  case (Cons a as)
  obtain w xs where a: "a = (w, xs)" by (cases a)
  note p = push_assignment_inv [OF Cons.prems(1,2) Cons.prems(3) [unfolded a]]
  have "length xs \<le> length (sc_queue (cl_sched c))"
    using arg_cong [OF valid_assignments_step(4) [OF Cons.prems(3) [unfolded a]], of length]
    by (simp only: length_append)
  moreover let ?d = "snd (push_assignment (w, xs) c)"
  have "\<exists>d. push_assignments as ?d = (Inr (), d) \<and> distribution_inv st items d \<and> cl_to_master d = cl_to_master ?d
      \<and> cl_closed d = cl_closed ?d \<and> cl_received d = cl_received ?d
      \<and> length (sc_queue (cl_sched d)) + length (concat (map snd as)) = length (sc_queue (cl_sched ?d))"
    using p Cons.prems(2) by (intro Cons.IH) simp_all
  moreover have "sc_queue (cl_sched ?d) = drop (length xs) (sc_queue (cl_sched c))"
    using p(1) by (simp add: assigned_state_def)
  ultimately show ?case using p(1) by (auto simp: a bindA_def)
qed


text \<open>One round of the loop either leaves everything as it is, closes down, or shortens the queue.\<close>

definition distributed :: "setting \<Rightarrow> u32 list \<Rightarrow> cluster \<Rightarrow> cluster \<Rightarrow> bool" where
  "distributed st items c d \<longleftrightarrow> distribution_inv st items d \<and> cl_point d = Receiving \<and> cl_to_master d = cl_to_master c
     \<and> (d = c\<lparr>cl_point := Receiving\<rparr>
        \<or> \<not> cl_closed c \<and> cl_closed d \<and> sc_queue (cl_sched d) = sc_queue (cl_sched c)
        \<or> cl_closed d = cl_closed c \<and> length (sc_queue (cl_sched d)) < length (sc_queue (cl_sched c)))"

lemma distribution_inv_point [simp]: "distribution_inv st items (c\<lparr>cl_point := p\<rparr>) \<longleftrightarrow> distribution_inv st items c"
  by (rule distribution_inv_same) (simp add: same_distribution_def)

lemma distribute_ok:
  assumes ok: "setting_ok st" and i: "distribution_inv st items c"
  shows "\<exists>d. distribute st c = (Inr (), d) \<and> distributed st items c d"
proof (cases "sc_queue (cl_sched c) = []")
  case True
  show ?thesis
  proof (cases "cl_closed c")
    case False
    have "distribution_inv st items (send_closedown st c)" by (rule distribution_inv_closedown [OF i False True])
    then show ?thesis using True False
      by (auto simp: distribute_def is_finished_def assignable_def bindA_def returnA_def modifyA_def distributed_def
          send_closedown_def workers_end_of_task_def)
  qed (use True i in \<open>simp add: distribute_def assignable_def bindA_def returnA_def modifyA_def distributed_def\<close>)
next
  case False
  then have cl: "\<not> cl_closed c" using i by (auto simp: distribution_inv_def pool_inv_def)
  have env: "env_ok (st_env st)" using ok by (simp add: setting_ok_def)
  have s: "sched_ok (cl_sched c)" "uniform_pool (cl_sched c)" using i by (simp_all add: distribution_inv_def pool_inv_def)
  show ?thesis
  proof (cases "assignable (cl_sched c)")
    case a: True
    obtain as where as: "assign_work (st_env st) (cl_sched c) = Inr as" "as \<noteq> []" "valid_assignments (cl_sched c) as"
      using any.round [OF env s a] by blast
    from push_assignments_inv [OF i cl as(3)] obtain d where d: "push_assignments as c = (Inr (), d)" "distribution_inv st items d"
      "cl_to_master d = cl_to_master c" "cl_closed d = cl_closed c"
      "length (sc_queue (cl_sched d)) + length (concat (map snd as)) = length (sc_queue (cl_sched c))" by blast
    have "0 < length (concat (map snd as))" using as(2,3) by (cases as) (auto simp: valid_assignments_def)
    then have "length (sc_queue (cl_sched d)) < length (sc_queue (cl_sched c))" unfolding d(5) [symmetric] by (rule less_add_same_cancel1 [THEN iffD2])
    then have "distributed st items c (d\<lparr>cl_point := Receiving\<rparr>)" using d(2-4) by (simp add: distributed_def)
    then show ?thesis using a as(1) d(1) False
      by (simp add: distribute_def is_finished_def assign_work_to_workers_def bindA_def modifyA_def)
  qed (use False i in \<open>simp add: distribute_def is_finished_def bindA_def returnA_def modifyA_def distributed_def\<close>)
qed

text \<open>The loop ends when all workers are inactive: every queue of the run is empty then.\<close>

definition finished :: "setting \<Rightarrow> u32 list \<Rightarrow> cluster \<Rightarrow> bool" where
  "finished st items c \<longleftrightarrow> distribution_inv st items c \<and> cl_closed c \<and> cl_queue c = [] \<and> sc_queue (cl_sched c) = []
     \<and> lost st (cl_events c) = 0
     \<and> (\<forall>w < st_workers st. cl_to_worker c w = [] \<and> cl_to_master c w = [] \<and> cl_worker c w = Complete)"

lemma inactive_finished:
  assumes ok: "setting_ok st" and i: "distribution_inv st items c" and a: "all_inactive (cl_sched c)" and q: "cl_queue c = []"
  shows "finished st items c"
proof -
  have n: "0 < st_workers st" using ok by (simp add: setting_ok_def)
  have p: "pool_inv st (cl_closed c) (cl_sched c)" using i by (simp add: distribution_inv_def)
  note ina = all_inactive_iff [OF p, THEN iffD1, OF a]
  have cl: "cl_closed c" using p ina n by (auto simp: pool_inv_def)
  have "cl_to_worker c w = [] \<and> cl_to_master c w = [] \<and> cl_worker c w = Complete" if w: "w < st_workers st" for w
  proof -
    have t: "trail c w = []" using i w ina p by (auto simp: distribution_inv_def expected_def pool_inv_def)
    have wo: "worker_ok True (cl_worker c w) (cl_to_worker c w) (cl_to_master c w)" using i w cl by (simp add: distribution_inv_def)
    have "List.last (cl_to_worker c w) \<noteq> End_of_work" if "cl_to_worker c w \<noteq> []"
      using t last_in_set [OF that] by (auto simp: trail_def)
    then have co: "cl_worker c w = Complete" "cl_to_worker c w = []" using wo by (auto simp: worker_ok_def)
    have "cl_to_master c w = []"
    proof (rule ccontr)
      assume ne: "cl_to_master c w \<noteq> []"
      then obtain load where "List.last (cl_to_master c w) = Worker_close_down load" using wo co by (auto simp: worker_ok_def)
      then show False using t last_in_set [OF ne] by (auto simp: trail_def)
    qed
    with co show ?thesis by simp
  qed
  moreover have "unat (sc_in_flight (cl_sched c)) = (\<Sum>w < st_workers st. flight (trail c w)) + lost st (cl_events c)"
    using i by (simp add: distribution_inv_def items_inv_def)
  then have "lost st (cl_events c) = 0" using p a by (simp add: pool_inv_def)
  ultimately show ?thesis using i q cl p by (simp add: finished_def pool_inv_def)
qed

lemma finish_ok:
  assumes ok: "setting_ok st" and i: "distribution_inv st items c" and a: "all_inactive (cl_sched c)"
  shows "\<exists>d. finish st c = (Inr (), d\<lparr>cl_point := Returned\<rparr>) \<and> finished st items d \<and> cl_received d = cl_received c
    \<and> mset (cl_aggregated d @ cl_refused d) = mset (cl_aggregated c @ cl_refused c @ cl_queue c)"
proof -
  obtain d where d: "aggregate_all st (length (cl_queue c)) c = (Inr (), d)" "aggregated st items c (length (cl_queue c)) d"
    using aggregate_all_ok [OF ok i refl] by blast
  then have "finished st items d" using a
    by (intro inactive_finished [OF ok]) (simp_all add: aggregated_def all_inactive_def)
  moreover have "mset (cl_aggregated d @ cl_refused d) = mset (cl_aggregated c @ cl_refused c @ cl_queue c)"
    using d(2) unfolding aggregated_def by (metis append_Nil2 drop_all order_refl)
  ultimately show ?thesis using d
    by (intro exI [of _ d]) (simp add: finish_def bindA_def modifyA_def finished_def aggregated_def)
qed

text \<open>What is true of every state after the capture.\<close>

definition running_inv :: "setting \<Rightarrow> u32 list \<Rightarrow> cluster \<Rightarrow> bool" where
  "running_inv st items c \<longleftrightarrow> distribution_inv st items c
     \<and> (cl_point c = Looping \<or> cl_point c = Receiving \<or> cl_point c = Returned \<and> finished st items c)"

text \<open>After the exception the workers go on.\<close>

lemma stopped_step:
  assumes "cluster_step st c d" and "stopped st c"
  shows "stopped st d"
  using assms(1)
proof cases
  case (assignment w xs ms oc)
  have "lost st ((cl_events c)(w := cl_events c w @ [Ran xs oc])) = lost st (cl_events c) + shortfall (Ran xs oc)"
    using lost_snoc assignment(2) by blast
  then show ?thesis using assms(2) assignment(1) by (simp add: stopped_def worker_assignment_def worker_event_def Let_def)
next
  case (close_down w ms cs load)
  have "lost st ((cl_events c)(w := cl_events c w @ [Closed cs load])) = lost st (cl_events c) + shortfall (Closed cs load)"
    using lost_snoc close_down(2) by blast
  then show ?thesis using assms(2) close_down(1) by (simp add: stopped_def worker_close_def worker_event_def Let_def)
qed (use assms(2) in \<open>auto simp: stopped_def worker_discard_def\<close>)

lemma finished_point [simp]: "finished st items (c\<lparr>cl_point := p\<rparr>) \<longleftrightarrow> finished st items c"
  by (simp add: finished_def)

lemma running_head:
  assumes "setting_ok st" and "distribution_inv st items c"
  shows "running_inv st items (master_head st c)"
proof (cases "all_inactive (cl_sched c)")
  case True
  then show ?thesis using finish_ok [OF assms True] by (auto simp: master_head_def settle_def running_inv_def finished_def)
next
  case False
  then show ?thesis using distribute_ok [OF assms] by (auto simp: master_head_def settle_def running_inv_def distributed_def)
qed

lemma quiet_cases:
  assumes "setting_ok st" and "distribution_inv st items c"
  shows "master_quiet st now c = c\<lparr>cl_point := Looping\<rparr>
    \<or> (\<exists>d. cl_queue c \<noteq> [] \<and> master_quiet st now c = d\<lparr>cl_point := Looping\<rparr> \<and> aggregated st items c 1 d)"
proof (cases "cl_queue c \<noteq> [] \<and> 5 < now - cl_last c")
  case True
  then obtain r rs where "cl_queue c = r # rs" by (cases "cl_queue c") auto
  from aggregate_front_ok [OF assms this] True show ?thesis
    by (auto simp: master_quiet_def settle_def bindA_def modifyA_def)
next
  case False
  then show ?thesis by (auto simp: master_quiet_def settle_def bindA_def modifyA_def returnA_def)
qed

lemma running_quiet:
  assumes "setting_ok st" and "distribution_inv st items c"
  shows "running_inv st items (master_quiet st now c)"
  using quiet_cases [OF assms, of now] assms(2) by (auto simp: running_inv_def aggregated_def)

lemma running_inv_step:
  assumes "cluster_step st c d" and ok: "setting_ok st" and "running_inv st items c"
  shows "running_inv st items d \<or> stopped st d"
  using assms(1,3)
proof cases
  case (capture w now)
  then show ?thesis using assms(3) by (simp add: running_inv_def)
next
  case head
  then show ?thesis using assms(3) running_head [OF ok] by (simp add: running_inv_def)
next
  case (receive w now)
  then have "handled st items c w d \<or> stopped st d"
    using assms(3) distribution_inv_receive [of st items c w now] by (simp add: running_inv_def)
  then show ?thesis using receive by (auto simp: running_inv_def handled_def)
next
  case (quiet now)
  then show ?thesis using assms(3) running_quiet [OF ok] by (simp add: running_inv_def)
next
  case (assignment w xs ms oc)
  have "cl_point c \<noteq> Returned" using assms(3) assignment by (auto simp: running_inv_def finished_def)
  moreover have "cl_point d = cl_point c" by (simp add: assignment worker_assignment_def worker_event_def Let_def)
  ultimately show ?thesis using assms(3) distribution_inv_assignment [OF ok] assignment by (auto simp: running_inv_def)
next
  case (close_down w ms cs load)
  have "cl_point c \<noteq> Returned" using assms(3) close_down by (auto simp: running_inv_def finished_def)
  moreover have "cl_point d = cl_point c" by (simp add: close_down worker_close_def worker_event_def Let_def)
  ultimately show ?thesis using assms(3) distribution_inv_close [OF ok] close_down by (auto simp: running_inv_def)
next
  case (discard w ms)
  then have "distribution_inv st items c" "cl_point c \<noteq> Returned" using assms(3) by (auto simp: running_inv_def finished_def)
  moreover have "trail d = trail c" "held d = held c" using discard
    by (auto simp: trail_def held_def worker_discard_def fun_eq_iff)
  ultimately show ?thesis using assms(3) discard
    by (auto simp: running_inv_def distribution_inv_def worker_discard_def worker_ok_def split: if_splits)
qed

end
