(* ===== verification/Work_Ledger.thy ===== *)
theory Work_Ledger
  imports Work_Safety
begin

text \<open>
  The books of the master: the failed serials, the flag of success, the numbers of configurations and the containers it
  knows of are determined by the messages it received, in whatever order these came.
\<close>

section \<open>Entries\<close>

primrec report_failed :: "report \<Rightarrow> u32 set" where
  "report_failed (Integration_report p) = (if 0 < fi_failures p then fi_failed p else {})"
| "report_failed (Content_report p) = {}"

primrec report_configurations :: "report \<Rightarrow> u32" where
  "report_configurations (Integration_report p) = fi_success p"
| "report_configurations (Content_report p) = 0"

primrec report_failures :: "report \<Rightarrow> u32" where
  "report_failures (Integration_report p) = fi_failures p"
| "report_failures (Content_report p) = 0"

definition entry_failed :: "to_master \<Rightarrow> u32 set" where
  "entry_failed m = (case m of Finished b r \<Rightarrow> report_failed r | _ \<Rightarrow> {})"

definition entry_success :: "to_master \<Rightarrow> bool" where
  "entry_success m = (case m of Finished b r \<Rightarrow> b | _ \<Rightarrow> True)"

definition entry_configurations :: "to_master \<Rightarrow> u32" where
  "entry_configurations m = (case m of Finished b r \<Rightarrow> report_configurations r | _ \<Rightarrow> 0)"

definition entry_failures :: "to_master \<Rightarrow> u32" where
  "entry_failures m = (case m of Finished b r \<Rightarrow> report_failures r | _ \<Rightarrow> 0)"

definition entry_containers :: "to_master \<Rightarrow> (data_kind \<times> string) multiset" where
  "entry_containers m = (case m of Data_ready k path \<Rightarrow> {#(k, path)#} | _ \<Rightarrow> {#})"

definition plain :: "to_master \<Rightarrow> bool" where
  "plain m \<longleftrightarrow> (case m of Finished b r \<Rightarrow> False | Data_ready k path \<Rightarrow> False | _ \<Rightarrow> True)"

lemma entry_simps [simp]:
  "entry_failed (Finished b r) = report_failed r" "entry_success (Finished b r) = b"
  "entry_configurations (Finished b r) = report_configurations r" "entry_failures (Finished b r) = report_failures r"
  "entry_containers (Finished b r) = {#}" "entry_failed (Data_ready k path) = {}" "entry_success (Data_ready k path)"
  "entry_configurations (Data_ready k path) = 0" "entry_failures (Data_ready k path) = 0"
  "entry_containers (Data_ready k path) = {#(k, path)#}"
  by (simp_all add: entry_failed_def entry_success_def entry_configurations_def entry_failures_def entry_containers_def)

lemma entry_plain:
  assumes "plain m"
  shows "entry_failed m = {}" "entry_success m" "entry_configurations m = 0" "entry_failures m = 0" "entry_containers m = {#}"
  using assms by (cases m; simp add: plain_def entry_failed_def entry_success_def entry_configurations_def entry_failures_def
      entry_containers_def)+

definition containers_of :: "aggregation_record list \<Rightarrow> (data_kind \<times> string) multiset" where
  "containers_of rs = mset (map (\<lambda>r. (ar_kind r, ar_path r)) rs)"

lemma containers_of_simps [simp]:
  "containers_of [] = {#}" "containers_of (r # rs) = add_mset (ar_kind r, ar_path r) (containers_of rs)"
  "containers_of (rs @ ts) = containers_of rs + containers_of ts"
  by (simp_all add: containers_of_def)

section \<open>The books agree with what was received\<close>

definition ledger_inv :: "u32 \<Rightarrow> u32 \<Rightarrow> cluster \<Rightarrow> bool" where
  "ledger_inv n0 f0 c \<longleftrightarrow> cl_failed c = (\<Union>x\<in>set (cl_received c). entry_failed (snd x))
     \<and> (cl_success c \<longleftrightarrow> (\<forall>x \<in> set (cl_received c). entry_success (snd x)))
     \<and> im_configurations (cl_int_meta c) = n0 + sum_list (map (\<lambda>x. entry_configurations (snd x)) (cl_received c))
     \<and> im_failures (cl_int_meta c) = f0 + sum_list (map (\<lambda>x. entry_failures (snd x)) (cl_received c))
     \<and> containers_of (cl_aggregated c @ cl_refused c @ cl_queue c)
         = sum_list (map (\<lambda>x. entry_containers (snd x)) (cl_received c))"

definition same_ledger :: "cluster \<Rightarrow> cluster \<Rightarrow> bool" where
  "same_ledger c d \<longleftrightarrow> cl_failed d = cl_failed c \<and> cl_success d = cl_success c \<and> cl_received d = cl_received c
     \<and> im_configurations (cl_int_meta d) = im_configurations (cl_int_meta c)
     \<and> im_failures (cl_int_meta d) = im_failures (cl_int_meta c)
     \<and> containers_of (cl_aggregated d @ cl_refused d @ cl_queue d) = containers_of (cl_aggregated c @ cl_refused c @ cl_queue c)"

lemma ledger_inv_same: "same_ledger c d \<Longrightarrow> ledger_inv n0 f0 d \<longleftrightarrow> ledger_inv n0 f0 c"
  by (simp add: ledger_inv_def same_ledger_def)

lemma same_ledger_trans: "same_ledger c d \<Longrightarrow> same_ledger d e \<Longrightarrow> same_ledger c e"
  by (simp add: same_ledger_def)

definition booked_act :: "(cluster, 'a) act \<Rightarrow> bool" where
  "booked_act m \<longleftrightarrow> (\<forall>c. same_ledger c (snd (m c)))"

lemma booked_bind:
  assumes "booked_act m" and "\<And>x. booked_act (f x)"
  shows "booked_act (bindA m f)"
  unfolding booked_act_def
proof
  fix c
  obtain r d where m: "m c = (r, d)" by fastforce
  then have "same_ledger c d" using assms(1) by (metis booked_act_def snd_conv)
  then show "same_ledger c (snd (bindA m f c))"
    using assms(2) m by (cases r) (auto simp: bindA_def booked_act_def intro: same_ledger_trans)
qed

lemma booked_basic [simp, intro]:
  "booked_act (returnA x)" "booked_act (on_sched m1)" "booked_act (on_manager m2)"
  "(\<And>c. same_ledger c (f c)) \<Longrightarrow> booked_act (modifyA f)"
  by (simp_all add: booked_act_def cluster_simps same_ledger_def split: prod.splits)

lemma same_ledger_ops [simp, intro]: "same_ledger c c" "same_ledger c (send_closedown st c)" "same_ledger c (capture_check now c)"
  by (simp_all add: same_ledger_def send_closedown_def workers_end_of_task_def capture_check_def)

lemma same_ledger_point [simp]: "same_ledger c (d\<lparr>cl_point := p\<rparr>) \<longleftrightarrow> same_ledger c d"
  by (simp add: same_ledger_def)

lemma same_ledger_settle:
  assumes "same_ledger c (snd r)"
  shows "same_ledger c (settle st r)"
proof -
  obtain x d where r: "r = (x, d)" by fastforce
  then have "same_ledger c (if cl_closed d then d else send_closedown st d)"
    using assms same_ledger_ops(2) [of d st] by (auto intro: same_ledger_trans)
  then show ?thesis using assms r by (cases x) (simp_all add: settle_def)
qed

lemma booked_settle: "booked_act m \<Longrightarrow> same_ledger c (settle st (m c))"
  by (simp add: booked_act_def same_ledger_settle)

lemma booked_assignments [simp, intro]: "booked_act (push_assignments as)"
proof (induction as)
  case (Cons a as)
  have "booked_act (push_assignment a)" unfolding push_assignment_def
    by (intro booked_bind booked_basic) (simp add: same_ledger_def)
  with Cons show ?case by (simp add: booked_bind)
qed simp

lemma booked_aggregate [simp, intro]: "booked_act (aggregate_front st)"
  unfolding booked_act_def
proof
  fix c
  show "same_ledger c (snd (aggregate_front st c))"
  proof (cases "cl_queue c")
    case (Cons r rs)
    then show ?thesis
      by (cases "st_aggregate st r")
         (auto simp: aggregate_front_def aggregate_record_def bindA_def modifyA_def same_ledger_def)
  qed (simp add: aggregate_front_def)
qed

lemma booked_aggregate_all [simp, intro]: "booked_act (aggregate_all st n)"
  by (induction n) (auto intro!: booked_bind)

lemma master_head_ledger: "same_ledger c (master_head st c)"
proof -
  have "booked_act (bindA (aggregate_all st n)
      (\<lambda>_. modifyA (\<lambda>c. (if cl_closed c then c else send_closedown st c)\<lparr>cl_point := Returned\<rparr>)))" for n
    by (auto simp: same_ledger_def send_closedown_def workers_end_of_task_def intro!: booked_bind)
  then have f: "booked_act (finish st)" by (simp add: booked_act_def finish_def)
  have a: "booked_act (assign_work_to_workers st)"
    unfolding booked_act_def
  proof
    fix c
    show "same_ledger c (snd (assign_work_to_workers st c))"
      using booked_assignments
      by (cases "assign_work (st_env st) (cl_sched c)") (simp_all add: assign_work_to_workers_def booked_act_def)
  qed
  have "booked_act (distribute st)" unfolding booked_act_def
  proof
    fix c
    let ?c = "if is_finished (cl_sched c) \<and> \<not> cl_closed c then send_closedown st c else c"
    have "booked_act (bindA (if assignable (cl_sched ?c) then assign_work_to_workers st else returnA ())
        (\<lambda>_. modifyA (\<lambda>c. c\<lparr>cl_point := Receiving\<rparr>)))"
      using a by (auto simp: same_ledger_def intro!: booked_bind)
    then have "same_ledger ?c (snd (distribute st c))" unfolding distribute_def Let_def booked_act_def by blast
    moreover have "same_ledger c ?c" by simp
    ultimately show "same_ledger c (snd (distribute st c))" by (rule same_ledger_trans [rotated])
  qed
  with f show ?thesis by (simp add: master_head_def booked_settle)
qed

lemma master_quiet_ledger: "same_ledger c (master_quiet st now c)"
proof -
  have "booked_act (bindA (if cl_queue c \<noteq> [] \<and> 5 < now - cl_last c then aggregate_front st else returnA ())
       (\<lambda>_. modifyA (\<lambda>c. c\<lparr>cl_point := Looping\<rparr>)))"
    by (auto simp: same_ledger_def intro!: booked_bind)
  then show ?thesis unfolding master_quiet_def by (rule booked_settle)
qed

text \<open>A message without an exception is booked.\<close>

lemma taken_received [simp]: "cl_to_master c w = m # ms \<Longrightarrow> cl_received (taken w c) = cl_received c @ [(w, m)]"
  by (simp add: taken_def take_message_def modifyA_def)

lemma taken_books [simp]:
  "cl_failed (taken w c) = cl_failed c" "cl_success (taken w c) = cl_success c" "cl_int_meta (taken w c) = cl_int_meta c"
  "cl_aggregated (taken w c) = cl_aggregated c" "cl_refused (taken w c) = cl_refused c" "cl_queue (taken w c) = cl_queue c"
  by (simp_all add: taken_def take_message_def modifyA_def)

lemma on_sched_books:
  assumes "on_sched f c = (r, d)"
  shows "cl_failed d = cl_failed c" "cl_success d = cl_success c" "cl_received d = cl_received c" "cl_int_meta d = cl_int_meta c"
    "cl_aggregated d = cl_aggregated c" "cl_refused d = cl_refused c" "cl_queue d = cl_queue c"
  using assms by (auto simp: on_sched_def split: prod.splits)

lemma on_manager_books:
  assumes "on_manager f c = (r, d)"
  shows "cl_failed d = cl_failed c" "cl_success d = cl_success c" "cl_received d = cl_received c" "cl_int_meta d = cl_int_meta c"
    "cl_aggregated d = cl_aggregated c" "cl_refused d = cl_refused c" "cl_queue d = cl_queue c"
  using assms by (auto simp: on_manager_def split: prod.splits)

lemma bindA_eq_Inr: "bindA m f c = (Inr y, d) \<longleftrightarrow> (\<exists>x c1. m c = (Inr x, c1) \<and> f x c1 = (Inr y, d))"
  by (auto simp: bindA_def split: prod.splits sum.splits)

lemma ledger_plain:
  assumes "ledger_inv n0 f0 c" and "cl_received d = cl_received c @ [(w, m)]" and "plain m"
    and "cl_failed d = cl_failed c" "cl_success d = cl_success c" "cl_int_meta d = cl_int_meta c"
      "cl_aggregated d = cl_aggregated c" "cl_refused d = cl_refused c" "cl_queue d = cl_queue c"
  shows "ledger_inv n0 f0 d"
  using assms(1,2,4-) by (simp add: ledger_inv_def entry_plain [OF assms(3)])

lemma ledger_finished:
  assumes "ledger_inv n0 f0 c" and "cl_received d = cl_received c @ [(w, Finished b p)]"
    and "cl_failed d = cl_failed c \<union> report_failed p" "cl_success d \<longleftrightarrow> cl_success c \<and> b"
      "im_configurations (cl_int_meta d) = im_configurations (cl_int_meta c) + report_configurations p"
      "im_failures (cl_int_meta d) = im_failures (cl_int_meta c) + report_failures p"
      "cl_aggregated d = cl_aggregated c" "cl_refused d = cl_refused c" "cl_queue d = cl_queue c"
  shows "ledger_inv n0 f0 d"
  using assms by (simp add: ledger_inv_def ac_simps Un_commute conj_commute)

lemma merge_report_books:
  "cl_failed (merge_report p c) = cl_failed c \<union> report_failed p" "cl_success (merge_report p c) = cl_success c"
  "im_configurations (cl_int_meta (merge_report p c)) = im_configurations (cl_int_meta c) + report_configurations p"
  "im_failures (cl_int_meta (merge_report p c)) = im_failures (cl_int_meta c) + report_failures p"
  "cl_aggregated (merge_report p c) = cl_aggregated c" "cl_refused (merge_report p c) = cl_refused c"
  "cl_queue (merge_report p c) = cl_queue c" "cl_received (merge_report p c) = cl_received c"
  by (cases p; simp add: Let_def merge_failure_list_def update_integration_metadata_def)+

lemma ledger_rest:
  assumes l: "ledger_inv n0 f0 c" and m: "cl_to_master c w = m # ms" and r: "message_rest w m (taken w c) = (Inr (), d)"
  shows "ledger_inv n0 f0 d"
proof (cases m)
  case (Finished b p)
  then obtain c1 c2 where c: "on_sched (mark_unassigned w (report_wallclock p) (items_processed p)) (taken w c) = (Inr (), c1)"
    "on_manager (update_load_average (report_load p) w) c1 = (Inr (), c2)"
    "d = (if b then merge_report p c2 else (merge_report p c2)\<lparr>cl_success := False\<rparr>)"
    using r by (auto simp: message_rest_def unassign_worker_def bindA_eq_Inr modifyA_def)
  show ?thesis using m Finished on_sched_books [OF c(1)] on_manager_books [OF c(2)] unfolding c(3)
    by (intro ledger_finished [OF l, of _ w b p]) (simp_all add: merge_report_books)
next
  case (Worker_close_down load)
  then obtain c1 where c: "on_sched (mark_inactive w) (taken w c) = (Inr (), c1)"
    "on_manager (update_load_average load w) c1 = (Inr (), d)"
    using r by (auto simp: message_rest_def bindA_eq_Inr)
  show ?thesis using m Worker_close_down on_sched_books [OF c(1)] on_manager_books [OF c(2)]
    by (intro ledger_plain [OF l, of _ w m]) (simp_all add: plain_def)
next
  case (Data_ready k path)
  then have "d = enqueue_aggregation w k path (taken w c)" using r by (simp add: message_rest_def modifyA_def)
  then show ?thesis using l m Data_ready by (simp add: ledger_inv_def enqueue_aggregation_def ac_simps)
next
  case (Report_error msg)
  then have d: "d = (taken w c)\<lparr>cl_alerts := cl_alerts (taken w c) @ [msg @ '' reported by worker '' @ dec_string (Suc w)]\<rparr>"
    using r by (simp add: message_rest_def modifyA_def)
  show ?thesis unfolding d using m Report_error by (intro ledger_plain [OF l, of _ w m]) (simp_all add: plain_def)
next
  case (Worker_identification tp x y)
  then have d: "d = taken w c" using r by (simp add: message_rest_def returnA_def)
  show ?thesis unfolding d using m Worker_identification by (intro ledger_plain [OF l, of _ w m]) (simp_all add: plain_def)
next
  case New_work_acknowledgment
  then have d: "d = taken w c" using r by (simp add: message_rest_def returnA_def)
  show ?thesis unfolding d using m New_work_acknowledgment by (intro ledger_plain [OF l, of _ w m]) (simp_all add: plain_def)
next
  case Other_message
  then have d: "d = taken w c" using r by (simp add: message_rest_def returnA_def)
  show ?thesis unfolding d using m Other_message by (intro ledger_plain [OF l, of _ w m]) (simp_all add: plain_def)
qed

end
