(* ===== verification/Work_Completion.thy ===== *)
theory Work_Completion
  imports Work_Ledger
begin

text \<open>
  A run from its beginning: the workers identify themselves, the work is distributed, and \<open>poll_workers\<close> returns. The
  theorems are about every state that a run can reach, whatever the order of its steps.
\<close>

section \<open>Receiving and the books\<close>

lemma ledger_receive:
  assumes "distribution_inv st items c" and "w < st_workers st" and "cl_to_master c w \<noteq> []" and l: "ledger_inv n0 f0 c"
  shows "handled st items c w (master_receive st now w c) \<and> ledger_inv n0 f0 (master_receive st now w c)
    \<or> stopped st (master_receive st now w c)"
proof -
  obtain x ms where m: "cl_to_master c w = x # ms" using assms(3) by (cases "cl_to_master c w") simp
  from receive_unfold [OF assms(1,2) m, of now] obtain d where d: "same_distribution (c\<lparr>cl_manager := cl_manager d\<rparr>) d"
    "cl_failed d = cl_failed c" "cl_success d = cl_success c" "cl_received d = cl_received c" "cl_int_meta d = cl_int_meta c"
    "cl_aggregated d = cl_aggregated c" "cl_refused d = cl_refused c" "cl_queue d = cl_queue c"
    and r: "received st items c w (message_rest w x (taken w d))"
      "master_receive st now w c = settle st (message_rest w x (taken w d))" by blast
  have md: "cl_to_master d w = x # ms" using d(1) m by (simp add: same_distribution_def)
  have ld: "ledger_inv n0 f0 d" using l d by (simp add: ledger_inv_def)
  from r(1) show ?thesis unfolding received_def
  proof
    assume "\<exists>e. message_rest w x (taken w d) = (Inr (), e) \<and> handled st items c w e"
    then show ?thesis using ledger_rest [OF ld md] r(2) by (auto simp: settle_def)
  next
    assume "\<exists>e. message_rest w x (taken w d) = (Inl under_inflight, e) \<and> cl_events e = cl_events c \<and> 0 < lost st (cl_events c)"
    then show ?thesis using r(2) by (auto simp: settle_def stopped_def send_closedown_def workers_end_of_task_def)
  qed
qed

section \<open>Identification\<close>

definition prepared :: "setting \<Rightarrow> sched \<Rightarrow> worker_manager \<Rightarrow> bool" where
  "prepared st s m \<longleftrightarrow> sc_number s = of_nat (st_workers st) \<and> distinct (sc_queue s) \<and> length (sc_queue s) < 2 ^ 32
     \<and> wm_number m = st_workers st \<and> wm_data m (st_task st) = None"

definition identified :: "worker_data list \<Rightarrow> worker_data list" where
  "identified ws = filter wk_initialized ws"

definition identification_inv :: "setting \<Rightarrow> (nat \<Rightarrow> worker_type \<times> u32 \<times> u32) \<Rightarrow> u32 list \<Rightarrow> sched \<Rightarrow> bool" where
  "identification_inv st ident items s \<longleftrightarrow>
     length (sc_workers s) = st_workers st \<and> distinct items \<and> length items < 2 ^ 32 \<and> sc_queue s = items
      \<and> sc_in_flight s = 0 \<and> sc_completed s = 0
      \<and> unat (sc_waiting s) + length (identified (sc_workers s)) = st_workers st
      \<and> sc_unassigned s = of_nat (length (identified (sc_workers s)))
      \<and> sc_active s = of_nat (length (identified (sc_workers s)))
      \<and> (sc_has_cpus s \<longleftrightarrow> (\<exists>w < st_workers st. wk_initialized (sc_workers s ! w) \<and> fst (ident w) = cpu_worker))
      \<and> (sc_has_gpus s \<longleftrightarrow> (\<exists>w < st_workers st. wk_initialized (sc_workers s ! w) \<and> fst (ident w) = gpu_worker))"

definition identification :: "worker_type \<times> u32 \<times> u32 \<Rightarrow> to_master" where
  "identification p = Worker_identification (fst p) (fst (snd p)) (snd (snd p))"

definition announced :: "(nat \<Rightarrow> worker_type \<times> u32 \<times> u32) \<Rightarrow> worker_data \<Rightarrow> cluster \<Rightarrow> nat \<Rightarrow> bool" where
  "announced ident d c w \<longleftrightarrow> \<not> wk_assigned d \<and> wk_active d \<and> cl_to_worker c w = [] \<and> cl_events c w = []
     \<and> cl_worker c w = Working
     \<and> (if wk_initialized d then wk_number d = w \<and> cl_to_master c w = [] else cl_to_master c w = [identification (ident w)])"

definition capture_inv :: "setting \<Rightarrow> (nat \<Rightarrow> worker_type \<times> u32 \<times> u32) \<Rightarrow> u32 list \<Rightarrow> cluster \<Rightarrow> bool" where
  "capture_inv st ident items c \<longleftrightarrow> identification_inv st ident items (cl_sched c) \<and> \<not> cl_closed c \<and> manager_ok st (cl_manager c)
     \<and> (\<forall>w < st_workers st. announced ident (sc_workers (cl_sched c) ! w) c w)"

lemmas capture_defs = capture_inv_def identification_inv_def announced_def

text \<open>When all have identified themselves, the distribution begins.\<close>

lemma capture_complete:
  assumes ok: "setting_ok st" and u: "uniform_idents st ident" and c: "capture_inv st ident items c"
    and r: "is_ready (cl_sched c)"
  shows "distribution_inv st items (capture_check now c)" and "cl_point (capture_check now c) = Looping"
proof -
  let ?s = "cl_sched c" and ?d = "capture_check now c"
  let ?ws = "sc_workers ?s"
  show "cl_point ?d = Looping" using r by (simp add: capture_check_def)
  have n: "0 < st_workers st" "st_workers st < 2 ^ 32" using ok by (simp_all add: setting_ok_def)
  have l: "length ?ws = st_workers st" using c by (simp add: capture_defs)
  have "length (identified ?ws) = length ?ws" using c r by (simp add: capture_defs is_ready_def)
  then have all: "\<forall>w < st_workers st. wk_initialized (?ws ! w)"
    unfolding identified_def l [symmetric] by (metis length_filter_less nth_mem less_irrefl)
  have as: "\<forall>w < st_workers st. \<not> wk_assigned (?ws ! w)" and ac: "\<forall>w < st_workers st. wk_active (?ws ! w)"
    using c by (simp_all add: capture_defs)
  have eq: "unassigned_workers ?s = ?ws" "filter wk_active ?ws = ?ws" "identified ?ws = ?ws"
    unfolding unassigned_workers_def identified_def filter_id_conv using as ac all by (auto simp: in_set_conv_nth l)
  have s: "cl_sched ?d = complete_queue_setup ?s" using r by (simp add: capture_check_def)
  have f: "sc_workers (cl_sched ?d) = ?ws" "sc_queue (cl_sched ?d) = items" "sc_in_flight (cl_sched ?d) = 0"
    "sc_completed (cl_sched ?d) = 0" "sc_unassigned (cl_sched ?d) = of_nat (st_workers st)" "sc_active (cl_sched ?d) = of_nat (st_workers st)"
    "uniform_pool (cl_sched ?d) = uniform_pool ?s" "unassigned_workers (cl_sched ?d) = unassigned_workers ?s"
    using c eq l unfolding s by (simp_all add: complete_queue_setup_def capture_defs uniform_pool_def unassigned_workers_def)
  have "uniform_pool ?s"
  proof -
    have same: "fst (ident w) = fst (ident 0)" if "w < st_workers st" for w
      using u that n(1) unfolding uniform_idents_def by blast
    have "sc_has_cpus ?s \<longleftrightarrow> (\<exists>w < st_workers st. wk_initialized (?ws ! w) \<and> fst (ident w) = cpu_worker)"
      "sc_has_gpus ?s \<longleftrightarrow> (\<exists>w < st_workers st. wk_initialized (?ws ! w) \<and> fst (ident w) = gpu_worker)"
      using c by (simp_all add: capture_defs)
    then have "sc_has_cpus ?s \<longleftrightarrow> fst (ident 0) = cpu_worker" "sc_has_gpus ?s \<longleftrightarrow> fst (ident 0) = gpu_worker"
      using all same n(1) by metis+
    then show ?thesis by (cases "fst (ident 0)") (simp_all add: uniform_pool_def)
  qed
  moreover have "sched_ok (cl_sched ?d)"
    using c all n l unfolding sched_ok_def f eq by (simp add: capture_defs)
  ultimately have p: "pool_inv st False (cl_sched ?d)" unfolding pool_inv_def f eq using l ac by simp
  have v: "cl_to_worker ?d w = []" "cl_to_master ?d w = []" "cl_events ?d w = []" "cl_worker ?d w = Working"
    if "w < st_workers st" for w
    using c all that by (simp_all add: capture_defs capture_check_def)
  have t: "trail ?d w = []" "held ?d w = {#}" if "w < st_workers st" for w using v that by (simp_all add: trail_def held_def)
  have "items_inv st items (lost st (cl_events ?d)) (cl_sched ?d) (trail ?d) (held ?d)"
    using c t v unfolding items_inv_def f by (simp add: capture_defs lost_def)
  moreover have "manager_ok st (cl_manager ?d)" "\<not> cl_closed ?d"
    using c by (simp_all add: capture_check_def capture_defs)
  ultimately show "distribution_inv st items ?d"
    using p as t v f unfolding distribution_inv_def by (simp add: expected_def worker_ok_def)
qed

lemma capture_inv_next:
  assumes c: "capture_inv st ident items c" and w: "w < st_workers st" and m: "cl_to_master c w \<noteq> []"
  shows "\<exists>d. capture_step now w c = capture_check now d \<and> capture_inv st ident items d
    \<and> cl_received d = cl_received c @ [(w, identification (ident w))] \<and> cl_to_master c w = [identification (ident w)]
    \<and> cl_to_master d = (cl_to_master c)(w := []) \<and> same_ledger (d\<lparr>cl_received := cl_received c\<rparr>) c"
proof -
  let ?s = "cl_sched c"
  let ?ws = "sc_workers ?s"
  obtain tp cap pri where id: "ident w = (tp, cap, pri)" by (cases "ident w")
  have l: "length ?ws = st_workers st" using c by (simp add: capture_defs)
  have "if wk_initialized (?ws ! w) then wk_number (?ws ! w) = w \<and> cl_to_master c w = []
      else cl_to_master c w = [Worker_identification tp cap pri]"
    using c w by (simp add: capture_defs id identification_def split: if_splits)
  then have ni: "\<not> wk_initialized (?ws ! w)" and out: "cl_to_master c w = [Worker_identification tp cap pri]"
    using m by (auto split: if_splits)
  let ?w = "(?ws ! w)\<lparr>wk_number := w, wk_type := tp, wk_capacity := cap, wk_priority := pri, wk_initialized := True\<rparr>"
  define s' where "s' = snd (initialize_worker w tp cap pri ?s)"
  have init: "initialize_worker w tp cap pri ?s = (Inr (), s')"
    using w l ni by (simp add: initialize_worker_def s'_def)
  have s': "sc_workers s' = ?ws[w := ?w]" "sc_waiting s' = sc_waiting ?s - 1" "sc_unassigned s' = sc_unassigned ?s + 1"
    "sc_active s' = sc_active ?s + 1" "sc_has_cpus s' = (sc_has_cpus ?s \<or> tp = cpu_worker)"
    "sc_has_gpus s' = (sc_has_gpus ?s \<or> tp = gpu_worker)" "sc_queue s' = sc_queue ?s" "sc_in_flight s' = sc_in_flight ?s"
    "sc_completed s' = sc_completed ?s"
    using w l ni by (simp_all add: initialize_worker_def s'_def update_worker_def)
  let ?d = "(taken w c)\<lparr>cl_sched := s'\<rparr>"
  have "capture_step now w c = capture_check now ?d"
    using out init by (simp add: capture_step_def bindA_def take_message_taken on_sched_def modifyA_def)
  moreover have "length (identified (sc_workers s')) = Suc (length (identified ?ws))"
    unfolding identified_def s'(1) using filter_update_length [of w ?ws wk_initialized ?w] w l ni by simp
  moreover have "length (identified ?ws) < st_workers st"
    unfolding identified_def l [symmetric] using ni w l by (metis length_filter_less nth_mem)
  then have wt: "0 < unat (sc_waiting ?s)" "unat (sc_waiting ?s) + length (identified ?ws) = st_workers st"
    using c by (auto simp: capture_defs)
  then have "sc_waiting ?s \<noteq> 0" by (simp add: unat_gt_0)
  then have "unat (sc_waiting s') = unat (sc_waiting ?s) - 1" unfolding s' by (rule unat_minus_one)
  then have "unat (sc_waiting s') + Suc (length (identified ?ws)) = st_workers st" using wt by simp
  ultimately have cnt: "unat (sc_waiting s') + length (identified (sc_workers s')) = st_workers st"
    "sc_unassigned s' = of_nat (length (identified (sc_workers s')))" "sc_active s' = of_nat (length (identified (sc_workers s')))"
    using c s' by (simp_all add: capture_defs)
  have ini: "wk_initialized (sc_workers s' ! v) \<longleftrightarrow> wk_initialized (?ws ! v) \<or> v = w" if "v < st_workers st" for v
    using that w l by (simp add: s' nth_list_update)
  have has: "sc_has_cpus s' \<longleftrightarrow> (\<exists>v < st_workers st. wk_initialized (sc_workers s' ! v) \<and> fst (ident v) = cpu_worker)"
    "sc_has_gpus s' \<longleftrightarrow> (\<exists>v < st_workers st. wk_initialized (sc_workers s' ! v) \<and> fst (ident v) = gpu_worker)"
    using c w ini id by (auto simp: capture_defs s')
  have per: "announced ident (sc_workers s' ! v) ?d v" if v: "v < st_workers st" for v
    using c v w l out by (cases "v = w") (simp_all add: capture_defs s')
  have "length (sc_workers s') = st_workers st" "distinct items" "length items < 2 ^ 32" "sc_queue s' = items"
      "sc_in_flight s' = 0" "sc_completed s' = 0"
    using c l s' by (simp_all add: capture_defs)
  with cnt has have "identification_inv st ident items s'" unfolding identification_inv_def by blast
  then have "capture_inv st ident items ?d" using per c by (simp add: capture_inv_def)
  moreover have "cl_received ?d = cl_received c @ [(w, identification (ident w))]" using out id by (simp add: identification_def)
  moreover have "same_ledger (?d\<lparr>cl_received := cl_received c\<rparr>) c" by (simp add: same_ledger_def)
  ultimately show ?thesis using out id [THEN arg_cong, of identification] \<open>capture_step now w c = capture_check now ?d\<close> by (intro exI [of _ ?d]) (simp add: identification_def)
qed


section \<open>Runs\<close>

definition poll_start :: "setting \<Rightarrow> nat \<Rightarrow> (nat \<Rightarrow> worker_type \<times> u32 \<times> u32) \<Rightarrow> sched \<Rightarrow> worker_manager \<Rightarrow> integration_metadata
    \<Rightarrow> output_metadata \<Rightarrow> cluster" where
  "poll_start st now ident s m im om = snd (capture_begin st now (cluster_start st ident s m im om))"

definition run_inv :: "setting \<Rightarrow> (nat \<Rightarrow> worker_type \<times> u32 \<times> u32) \<Rightarrow> u32 list \<Rightarrow> u32 \<Rightarrow> u32 \<Rightarrow> cluster \<Rightarrow> bool" where
  "run_inv st ident items n0 f0 c \<longleftrightarrow> channel_inv st ident c
     \<and> (ledger_inv n0 f0 c
          \<and> (cl_point c = Capturing \<and> \<not> is_ready (cl_sched c) \<and> capture_inv st ident items c \<or> running_inv st items c)
        \<or> stopped st c)"

lemma run_inv_start:
  assumes ok: "setting_ok st" and p: "prepared st s m"
  shows "run_inv st ident (sc_queue s) (im_configurations im) (im_failures im) (poll_start st now ident s m im om)"
proof -
  let ?n = "st_workers st" and ?c = "poll_start st now ident s m im om"
  have n: "0 < ?n" "?n < 2 ^ 32" using ok by (simp_all add: setting_ok_def)
  have u: "unat (of_nat ?n :: u32) = ?n" using n(2) by (simp add: unsigned_of_nat take_bit_nat_eq_self)
  then have z: "(of_nat ?n :: u32) \<noteq> 0" using n(1) by auto
  define m' where "m' = m\<lparr>wm_data := (wm_data m)(st_task st \<mapsto> replicate ?n (management_new now)), wm_current := Some (st_task st)\<rparr>"
  have t: "new_task now (st_task st) m = (Inr (), m')" using p by (simp add: new_task_def prepared_def m'_def)
  have c: "?c = (cluster_start st ident (sched_reset s) m' im om)\<lparr>cl_point := Capturing\<rparr>"
    using t z p by (simp add: poll_start_def capture_begin_def bindA_def modifyA_def on_manager_def cluster_start_def capture_check_def
        is_ready_def sched_reset_def prepared_def)
  have "identified (replicate ?n worker_new) = []" by (simp add: identified_def worker_new_def filter_empty_conv)
  then have "identification_inv st ident (sc_queue s) (sched_reset s)"
    using p u by (auto simp: identification_inv_def sched_reset_def prepared_def worker_new_def)
  moreover have "manager_ok st m'" by (simp add: manager_ok_def m'_def)
  moreover have "announced ident (sc_workers (sched_reset s) ! w) ?c w" if "w < ?n" for w
    using that p u by (simp add: announced_def c cluster_start_def sched_reset_def worker_new_def identification_def prepared_def)
  ultimately have "capture_inv st ident (sc_queue s) ?c" by (simp add: capture_inv_def c cluster_start_def)
  moreover have "channel_inv st ident ?c" by (simp add: channel_inv_def c cluster_start_def received_from_def sent_def)
  moreover have "ledger_inv (im_configurations im) (im_failures im) ?c" by (simp add: ledger_inv_def c cluster_start_def)
  moreover have "cl_point ?c = Capturing" "\<not> is_ready (cl_sched ?c)"
    using p z by (simp_all add: c cluster_start_def is_ready_def sched_reset_def prepared_def)
  ultimately show ?thesis by (simp add: run_inv_def)
qed

lemma ledger_snoc_plain:
  assumes "same_ledger (d\<lparr>cl_received := cl_received c\<rparr>) c" and "cl_received d = cl_received c @ [(w, m)]" and "plain m"
    and "ledger_inv n0 f0 c"
  shows "ledger_inv n0 f0 d"
  using assms(1,2,4) by (simp add: ledger_inv_def same_ledger_def entry_plain [OF assms(3)])

lemma run_inv_capture:
  assumes ok: "setting_ok st" "uniform_idents st ident" and r: "run_inv st ident items n0 f0 c"
    and c: "cl_point c = Capturing" "w < st_workers st" "cl_to_master c w \<noteq> []"
  shows "run_inv st ident items n0 f0 (capture_step now w c)"
proof -
  have i: "capture_inv st ident items c" and l: "ledger_inv n0 f0 c"
    using r c(1) by (auto simp: run_inv_def running_inv_def stopped_def)
  from capture_inv_next [OF i c(2,3)] obtain d where d: "capture_step now w c = capture_check now d"
    "capture_inv st ident items d" "cl_received d = cl_received c @ [(w, identification (ident w))]"
    "same_ledger (d\<lparr>cl_received := cl_received c\<rparr>) c" by blast
  have "ledger_inv n0 f0 d" by (rule ledger_snoc_plain [OF d(4,3) _ l]) (simp add: plain_def identification_def)
  then have "ledger_inv n0 f0 (capture_check now d)" using ledger_inv_same same_ledger_ops(3) by blast
  moreover have "channel_inv st ident (capture_check now d)"
    using channel_inv_capture [of st ident c w now] r c d(1) by (simp add: run_inv_def)
  moreover have "cl_point (capture_check now d) = Capturing \<and> \<not> is_ready (cl_sched (capture_check now d))
      \<and> capture_inv st ident items (capture_check now d)
      \<or> running_inv st items (capture_check now d)"
  proof (cases "is_ready (cl_sched d)")
    case True
    then show ?thesis using capture_complete [OF ok d(2)] by (simp add: running_inv_def)
  next
    case False
    then show ?thesis using d(2) by (simp add: capture_check_def capture_inv_def announced_def)
  qed
  ultimately show ?thesis by (simp add: run_inv_def d(1))
qed

lemma run_inv_step:
  assumes ok: "setting_ok st" "uniform_idents st ident" and r: "run_inv st ident items n0 f0 c" and s: "cluster_step st c d"
  shows "run_inv st ident items n0 f0 d"
proof -
  have ch: "channel_inv st ident d" using channel_inv_step [OF s] r by (simp add: run_inv_def)
  consider "stopped st c" | "ledger_inv n0 f0 c" "cl_point c = Capturing" "capture_inv st ident items c"
    | "ledger_inv n0 f0 c" "running_inv st items c" using r by (auto simp: run_inv_def)
  then show ?thesis
  proof cases
    case 1
    then show ?thesis using stopped_step [OF s] ch by (simp add: run_inv_def)
  next
    case 2
    show ?thesis using s
    proof cases
      case (capture w now)
      then show ?thesis using run_inv_capture [OF ok r] by simp
    qed (use 2 in \<open>auto simp: capture_inv_def announced_def\<close>)
  next
    case 3
    then have di: "distribution_inv st items c" by (simp add: running_inv_def)
    have "ledger_inv n0 f0 d \<or> stopped st d" using s
    proof cases
      case (capture w now)
      then show ?thesis using 3(2) by (auto simp: running_inv_def)
    next
      case head
      then show ?thesis using 3(1) master_head_ledger ledger_inv_same by blast
    next
      case (receive w now)
      then show ?thesis using ledger_receive [OF di _ _ 3(1)] by blast
    next
      case (quiet now)
      then show ?thesis using 3(1) master_quiet_ledger ledger_inv_same by blast
    next
      case (assignment w xs ms oc)
      then have "same_ledger c d" by (simp add: worker_assignment_def worker_event_def same_ledger_def Let_def)
      then show ?thesis using 3(1) ledger_inv_same by blast
    next
      case (close_down w ms cs load)
      then have "same_ledger c d" by (simp add: worker_close_def worker_event_def same_ledger_def Let_def)
      then show ?thesis using 3(1) ledger_inv_same by blast
    next
      case (discard w ms)
      then have "same_ledger c d" by (simp add: worker_discard_def same_ledger_def)
      then show ?thesis using 3(1) ledger_inv_same by blast
    qed
    then show ?thesis using running_inv_step [OF s ok(1) 3(2)] ch by (auto simp: run_inv_def)
  qed
qed

lemma run_inv_runs:
  assumes "cluster_runs st c d" and "setting_ok st" "uniform_idents st ident" and "run_inv st ident items n0 f0 c"
  shows "run_inv st ident items n0 f0 d"
  using assms(1) unfolding cluster_runs_def by (induction rule: rtranclp_induct) (use assms(2-) run_inv_step in blast)+


section \<open>What is left at the end\<close>

lemma sum_by_worker:
  fixes g :: "to_master \<Rightarrow> 'a :: comm_monoid_add" and l :: "(nat \<times> to_master) list"
  assumes "\<forall>x \<in> set l. fst x < n"
  shows "sum_list (map (\<lambda>x. g (snd x)) l) = (\<Sum>w<n. sum_list (map g (map snd (filter (\<lambda>p. fst p = w) l))))"
  using assms
proof (induction l)
  case (Cons x l)
  let ?h = "\<lambda>w. sum_list (map g (map snd (filter (\<lambda>p. fst p = w) l)))"
  have "(\<Sum>w<n. sum_list (map g (map snd (filter (\<lambda>p. fst p = w) (x # l))))) = (\<Sum>w<n. (if w = fst x then g (snd x) else 0) + ?h w)"
    by (intro sum.cong) auto
  also have "\<dots> = (\<Sum>w<n. if w = fst x then g (snd x) else 0) + (\<Sum>w<n. ?h w)" by (rule sum.distrib)
  also have "(\<Sum>w<n. if w = fst x then g (snd x) else 0) = g (snd x)" using Cons.prems by (subst sum.delta) auto
  finally show ?case using Cons by simp
qed simp

text \<open>What an event enters into the books.\<close>

definition event_failed :: "event \<Rightarrow> u32 set" where
  "event_failed e = (case e of Ran xs oc \<Rightarrow> report_failed (oc_report oc) | _ \<Rightarrow> {})"

definition event_success :: "event \<Rightarrow> bool" where
  "event_success e = (case e of Ran xs oc \<Rightarrow> oc_thrown oc = None | _ \<Rightarrow> True)"

definition event_configurations :: "event \<Rightarrow> u32" where
  "event_configurations e = (case e of Ran xs oc \<Rightarrow> report_configurations (oc_report oc) | _ \<Rightarrow> 0)"

definition event_containers :: "event \<Rightarrow> (data_kind \<times> string) multiset" where
  "event_containers e = (case e of Ran xs oc \<Rightarrow> mset (oc_containers oc) | Closed cs load \<Rightarrow> mset cs)"

lemma entries_ready:
  "sum_list (map entry_containers (ready_messages cs)) = mset cs" "sum_list (map entry_configurations (ready_messages cs)) = 0"
  "(\<Union>m\<in>set (ready_messages cs). entry_failed m) = {}" "\<forall>m \<in> set (ready_messages cs). entry_success m"
  by (induction cs) (auto simp: ready_messages_def)

lemma entries_errors:
  "sum_list (map entry_containers (worker_errors st oc)) = {#}" "sum_list (map entry_configurations (worker_errors st oc)) = 0"
  "(\<Union>m\<in>set (worker_errors st oc). entry_failed m) = {}" "\<forall>m \<in> set (worker_errors st oc). entry_success m"
proof -
  have p: "plain m" if "m \<in> set (worker_errors st oc)" for m
    using that by (auto simp: worker_errors_def mb_flush_def Let_def plain_def)
  then show "(\<Union>m\<in>set (worker_errors st oc). entry_failed m) = {}" "\<forall>m \<in> set (worker_errors st oc). entry_success m"
    using entry_plain by auto
  have "sum_list (map entry_containers ms) = {#} \<and> sum_list (map entry_configurations ms) = 0"
    if "\<forall>m \<in> set ms. plain m" for ms
    using that by (induction ms) (auto simp: entry_plain)
  then show "sum_list (map entry_containers (worker_errors st oc)) = {#}"
    "sum_list (map entry_configurations (worker_errors st oc)) = 0"
    using p by auto
qed

lemma entries_event:
  assumes "setting_ok st" and "event_ok st w e"
  shows "sum_list (map entry_containers (event_messages st e)) = event_containers e"
    "sum_list (map entry_configurations (event_messages st e)) = event_configurations e"
    "(\<Union>m\<in>set (event_messages st e). entry_failed m) = event_failed e"
    "(\<forall>m \<in> set (event_messages st e). entry_success m) \<longleftrightarrow> event_success e"
proof -
  have a: "plain New_work_acknowledgment" "plain (Worker_close_down load)" for load by (simp_all add: plain_def)
  have "\<not> report_rejected (oc_report oc)" if "e = Ran xs oc" for xs oc
    using assms that by (auto simp: setting_ok_def event_ok_def sound_report_def)
  then show "sum_list (map entry_containers (event_messages st e)) = event_containers e"
    "sum_list (map entry_configurations (event_messages st e)) = event_configurations e"
    "(\<Union>m\<in>set (event_messages st e). entry_failed m) = event_failed e"
    "(\<forall>m \<in> set (event_messages st e). entry_success m) \<longleftrightarrow> event_success e"
    using entries_ready entries_errors entry_plain [OF a(1)] entry_plain [OF a(2)]
    by (cases e; fastforce simp: event_containers_def event_configurations_def event_failed_def event_success_def)+
qed


lemma sum_concat:
  fixes g :: "to_master \<Rightarrow> 'a :: comm_monoid_add"
  shows "sum_list (map g (concat (map f es))) = sum_list (map (\<lambda>e. sum_list (map g (f e))) es)"
  by (induction es) (simp_all add: ac_simps)

lemma finished_received:
  assumes "channel_inv st ident c" and "finished st items c" and "w < st_workers st"
  shows "received_from c w = identification (ident w) # concat (map (event_messages st) (cl_events c w))"
  using assms by (auto simp: channel_inv_def finished_def sent_def identification_def)

lemma finished_sum:
  fixes g :: "to_master \<Rightarrow> 'a :: comm_monoid_add"
  assumes ch: "channel_inv st ident c" and f: "finished st items c" and ok: "setting_ok st"
    and g: "\<And>m. plain m \<Longrightarrow> g m = 0" "\<And>w e. event_ok st w e \<Longrightarrow> sum_list (map g (event_messages st e)) = h e"
  shows "sum_list (map (\<lambda>x. g (snd x)) (cl_received c)) = (\<Sum>w < st_workers st. sum_list (map h (cl_events c w)))"
proof -
  have "sum_list (map (\<lambda>x. g (snd x)) (cl_received c)) = (\<Sum>w < st_workers st. sum_list (map g (received_from c w)))"
    using ch by (subst sum_by_worker) (simp_all add: channel_inv_def received_from_def)
  also have "\<dots> = (\<Sum>w < st_workers st. sum_list (map h (cl_events c w)))"
  proof (rule sum.cong)
    fix w assume w: "w \<in> {..<st_workers st}"
    have "g (identification (ident w)) = 0" using g(1) by (simp add: identification_def plain_def)
    moreover have "map (\<lambda>e. sum_list (map g (event_messages st e))) (cl_events c w) = map h (cl_events c w)"
    proof (intro map_cong refl)
      fix e assume "e \<in> set (cl_events c w)"
      then have "event_ok st w e" using ch by (simp add: channel_inv_def)
      then show "sum_list (map g (event_messages st e)) = h e" by (rule g(2))
    qed
    moreover have "w < st_workers st" using w by simp
    ultimately show "sum_list (map g (received_from c w)) = sum_list (map h (cl_events c w))"
      by (simp add: finished_received [OF ch f] sum_concat del: map_eq_conv)
  qed simp
  finally show ?thesis .
qed

lemma received_messages:
  assumes ch: "channel_inv st ident c" and f: "finished st items c"
  shows "snd ` set (cl_received c) = (\<Union>w < st_workers st. {identification (ident w)} \<union> (\<Union>e \<in> set (cl_events c w). set (event_messages st e)))"
proof -
  have "\<forall>x \<in> set (cl_received c). fst x < st_workers st" using ch by (simp add: channel_inv_def)
  then have "snd ` set (cl_received c) = (\<Union>w < st_workers st. snd ` {p \<in> set (cl_received c). fst p = w})" by blast
  also have "\<dots> = (\<Union>w < st_workers st. set (received_from c w))" by (simp add: received_from_def)
  also have "\<dots> = (\<Union>w < st_workers st. {identification (ident w)} \<union> (\<Union>e \<in> set (cl_events c w). set (event_messages st e)))"
    using finished_received [OF ch f] by (intro SUP_cong) auto
  finally show ?thesis .
qed

text \<open>The books at the end of a run.\<close>

lemma finished_books:
  assumes ch: "channel_inv st ident c" and f: "finished st items c" and ok: "setting_ok st" and l: "ledger_inv n0 f0 c"
  shows "cl_failed c = (\<Union>w < st_workers st. \<Union>e \<in> set (cl_events c w). event_failed e)"
    and "cl_success c \<longleftrightarrow> (\<forall>w < st_workers st. \<forall>e \<in> set (cl_events c w). event_success e)"
    and "im_configurations (cl_int_meta c) = n0 + (\<Sum>w < st_workers st. sum_list (map event_configurations (cl_events c w)))"
    and "containers_of (cl_aggregated c @ cl_refused c) = (\<Sum>w < st_workers st. sum_list (map event_containers (cl_events c w)))"
proof -
  have ev: "event_ok st w e" if "e \<in> set (cl_events c w)" for e w using ch that by (simp add: channel_inv_def)
  have pl: "plain (identification p)" for p by (simp add: identification_def plain_def)
  have "cl_failed c = (\<Union>m \<in> snd ` set (cl_received c). entry_failed m)" using l by (simp add: ledger_inv_def)
  also have "\<dots> = (\<Union>w < st_workers st. \<Union>e \<in> set (cl_events c w). \<Union>m \<in> set (event_messages st e). entry_failed m)"
    unfolding received_messages [OF ch f] using entry_plain(1) [OF pl] by (simp add: SUP_UNION SUP_union)
  also have "\<dots> = (\<Union>w < st_workers st. \<Union>e \<in> set (cl_events c w). event_failed e)"
    using entries_event(3) [OF ok ev] by (intro SUP_cong) auto
  finally show "cl_failed c = (\<Union>w < st_workers st. \<Union>e \<in> set (cl_events c w). event_failed e)" .
  have "cl_success c \<longleftrightarrow> (\<forall>m \<in> snd ` set (cl_received c). entry_success m)" using l by (simp add: ledger_inv_def)
  also have "\<dots> \<longleftrightarrow> (\<forall>w < st_workers st. \<forall>e \<in> set (cl_events c w). \<forall>m \<in> set (event_messages st e). entry_success m)"
    unfolding received_messages [OF ch f] using entry_plain(2) [OF pl] by blast
  also have "\<dots> \<longleftrightarrow> (\<forall>w < st_workers st. \<forall>e \<in> set (cl_events c w). event_success e)"
    using entries_event(4) [OF ok ev] by blast
  finally show "cl_success c \<longleftrightarrow> (\<forall>w < st_workers st. \<forall>e \<in> set (cl_events c w). event_success e)" .
  show "im_configurations (cl_int_meta c) = n0 + (\<Sum>w < st_workers st. sum_list (map event_configurations (cl_events c w)))"
    using l finished_sum [OF ch f ok entry_plain(3) entries_event(2) [OF ok]] by (simp add: ledger_inv_def)
  have "cl_queue c = []" using f by (simp add: finished_def)
  then show "containers_of (cl_aggregated c @ cl_refused c) = (\<Sum>w < st_workers st. sum_list (map event_containers (cl_events c w)))"
    using l finished_sum [OF ch f ok entry_plain(5) entries_event(1) [OF ok]] by (simp add: ledger_inv_def)
qed


lemma run_inv_reached:
  assumes "setting_ok st" and "uniform_idents st ident" and "prepared st s m"
    and "cluster_runs st (poll_start st now ident s m im om) c"
  shows "run_inv st ident (sc_queue s) (im_configurations im) (im_failures im) c"
  using run_inv_runs [OF assms(4,1,2) run_inv_start [OF assms(1,3)]] .

section \<open>Progress\<close>

text \<open>Nothing of a setting stands in the way of its run. (An assignment has fewer than \<open>2 ^ 32\<close> items.)\<close>

definition live :: "setting \<Rightarrow> bool" where
  "live st \<longleftrightarrow> (\<forall>w xs. length xs < 2 ^ 32 \<longrightarrow> (\<exists>oc. st_outcome st w xs oc)) \<and> (\<forall>w. \<exists>cs. st_close st w cs)"

text \<open>Once the loop is idle, it goes on only when a worker has done something.\<close>

definition idle_step :: "cluster \<Rightarrow> cluster \<Rightarrow> bool" where
  "idle_step c d \<longleftrightarrow> d = c\<lparr>cl_point := cl_point d\<rparr> \<and> cl_point c \<in> {Looping, Receiving} \<and> cl_point d \<in> {Looping, Receiving}"

definition pending :: "setting \<Rightarrow> (nat \<Rightarrow> 'a list) \<Rightarrow> nat" where
  "pending st f = (\<Sum>w < st_workers st. length (f w))"

lemma pending_update:
  assumes "w < st_workers st" and "\<And>v. v \<noteq> w \<Longrightarrow> g v = f v"
  shows "pending st g + length (f w) = pending st f + length (g w)"
  unfolding pending_def using assms(2) by (intro sum_update [OF assms(1)]) simp

text \<open>What is still to be done, most important first.\<close>

primrec stage :: "master_point \<Rightarrow> nat" where
  "stage Capturing = 2"
| "stage Looping = 1"
| "stage Receiving = 1"
| "stage Returned = 0"
| "stage (Raised e) = 0"

definition workload :: "setting \<Rightarrow> (cluster \<Rightarrow> nat) list" where
  "workload st = [\<lambda>c. stage (cl_point c), \<lambda>c. length (sc_queue (cl_sched c)), \<lambda>c. if cl_closed c then 0 else 1,
     \<lambda>c. pending st (cl_to_worker c), \<lambda>c. pending st (cl_to_master c), \<lambda>c. length (cl_queue c)]"

lemma worker_event_workload:
  assumes "w < st_workers st" and "cl_to_worker c w = x # ms" and "cl_point d = cl_point c"
    and "cl_sched d = cl_sched c" and "cl_closed d = cl_closed c"
    and "cl_to_worker d = (cl_to_worker c)(w := ms)"
  shows "(d, c) \<in> measures (workload st)"
proof -
  have "pending st (cl_to_worker d) + length (cl_to_worker c w) = pending st (cl_to_worker c) + length (cl_to_worker d w)"
    using assms(6) by (intro pending_update [OF assms(1)]) simp
  then have "pending st (cl_to_worker d) < pending st (cl_to_worker c)" using assms(2,6) by simp
  then show ?thesis using assms by (simp add: workload_def)
qed

lemma head_point:
  assumes ok: "setting_ok st" and i: "distribution_inv st items c"
  shows "cl_point (master_head st c) = (if all_inactive (cl_sched c) then Returned else Receiving)"
  using finish_ok [OF ok i] distribute_ok [OF ok i] by (auto simp: master_head_def settle_def distributed_def)

lemma running_step_workload:
  assumes ok: "setting_ok st" and r: "running_inv st items c" and s: "cluster_step st c d"
  shows "(d, c) \<in> measures (workload st) \<or> idle_step c d"
proof -
  have i: "distribution_inv st items c" using r by (simp add: running_inv_def)
  show ?thesis using s
  proof cases
    case (capture w now)
    then show ?thesis using r by (auto simp: running_inv_def)
  next
    case head
    show ?thesis
    proof (cases "all_inactive (cl_sched c)")
      case True
      then have "cl_point d = Returned" using head_point [OF ok i] head by simp
      then show ?thesis using head by (simp add: workload_def)
    next
      case False
      then have "distributed st items c d" using distribute_ok [OF ok i] head by (auto simp: master_head_def settle_def)
      then show ?thesis using head by (auto simp: distributed_def workload_def idle_step_def)
    qed
  next
    case (receive w now)
    from distribution_inv_receive [OF i receive(3,4), of now] show ?thesis
    proof
      assume "stopped st (master_receive st now w c)"
      then show ?thesis using receive by (simp add: stopped_def workload_def)
    next
    assume "handled st items c w (master_receive st now w c)"
    then have h: "handled st items c w d" using receive by simp
    then have m: "cl_to_master d = (cl_to_master c)(w := List.tl (cl_to_master c w))" by (simp add: handled_def)
    have "pending st (cl_to_master d) + length (cl_to_master c w) = pending st (cl_to_master c) + length (cl_to_master d w)"
      using m receive by (intro pending_update) simp_all
    then have "pending st (cl_to_master d) < pending st (cl_to_master c)" using m receive by (cases "cl_to_master c w") simp_all
    then show ?thesis using h by (simp add: handled_def workload_def)
    qed
  next
    case (quiet now)
    from quiet_cases [OF ok i, of now] show ?thesis
    proof
      assume "master_quiet st now c = c\<lparr>cl_point := Looping\<rparr>"
      then show ?thesis using quiet by (simp add: idle_step_def)
    next
      assume "\<exists>e. cl_queue c \<noteq> [] \<and> master_quiet st now c = e\<lparr>cl_point := Looping\<rparr> \<and> aggregated st items c 1 e"
      then show ?thesis using quiet by (auto simp: aggregated_def workload_def)
    qed
  next
    case (assignment w xs ms oc)
    then have "(d, c) \<in> measures (workload st)"
      by (intro worker_event_workload [of w st c _ ms]) (simp_all add: worker_assignment_def worker_event_def Let_def)
    then show ?thesis ..
  next
    case (close_down w ms cs load)
    then have "(d, c) \<in> measures (workload st)"
      by (intro worker_event_workload [of w st c _ ms]) (simp_all add: worker_close_def worker_event_def Let_def)
    then show ?thesis ..
  next
    case (discard w ms)
    then have "(d, c) \<in> measures (workload st)"
      by (intro worker_event_workload [of w st c _ ms]) (simp_all add: worker_discard_def)
    then show ?thesis ..
  qed
qed

lemma capture_step_workload:
  assumes c: "capture_inv st ident items c" "cl_point c = Capturing" and s: "cluster_step st c d"
  shows "(d, c) \<in> measures (workload st)"
  using s
proof cases
  case (capture w now)
  from capture_inv_next [OF c(1) capture(3,4), of now] obtain e where e: "d = capture_check now e" "capture_inv st ident items e"
    "cl_to_master c w = [identification (ident w)]" and m: "cl_to_master e = (cl_to_master c)(w := [])" using capture(1) by blast
  have q: "sc_queue (cl_sched e) = sc_queue (cl_sched c)" "cl_closed e = cl_closed c"
    using c(1) e(2) by (simp_all add: capture_inv_def identification_inv_def)
  have wk: "pending st (cl_to_worker e) = pending st (cl_to_worker c)"
    using c(1) e(2) unfolding pending_def by (intro sum.cong) (auto simp: capture_inv_def announced_def)
  have "pending st (cl_to_master e) + length (cl_to_master c w) = pending st (cl_to_master c) + length (cl_to_master e w)"
    using m capture(3) by (intro pending_update) simp_all
  then have "pending st (cl_to_master e) < pending st (cl_to_master c)" using m e(3) by simp
  then show ?thesis using e(1) q wk c(2) by (auto simp: capture_check_def workload_def complete_queue_setup_def)
qed (use c in \<open>auto simp: capture_inv_def announced_def\<close>)


text \<open>From a state that has not returned, a step that does something is at most two idle ones away.\<close>

lemma step_enabled:
  assumes ok: "setting_ok st" and live: "live st"
    and r: "running_inv st items c" and p: "cl_point c = Receiving"
    and ne: "\<exists>w < st_workers st. cl_to_worker c w \<noteq> [] \<or> cl_to_master c w \<noteq> []"
  shows "\<exists>d. cluster_step st c d \<and> (d, c) \<in> measures (workload st)"
proof -
  from ne obtain w where w: "w < st_workers st" "cl_to_worker c w \<noteq> [] \<or> cl_to_master c w \<noteq> []" by blast
  have i: "distribution_inv st items c" using r by (simp add: running_inv_def)
  have "\<exists>d. cluster_step st c d \<and> \<not> idle_step c d"
  proof (cases "cl_to_master c w = []")
    case False
    have "cluster_step st c (master_receive st 0 w c)" using p w(1) False by (rule cluster_step.receive)
    moreover have "\<not> idle_step c (master_receive st 0 w c)" using distribution_inv_receive [OF i w(1) False, of 0]
    proof
      assume "handled st items c w (master_receive st 0 w c)"
      then have "cl_to_master (master_receive st 0 w c) w = List.tl (cl_to_master c w)" by (simp add: handled_def)
      then have "cl_to_master (master_receive st 0 w c) \<noteq> cl_to_master c"
        using False by (cases "cl_to_master c w") auto
      then show ?thesis unfolding idle_step_def by (metis cluster.select_convs(5) cluster.surjective cluster.update_convs(1))
    qed (simp add: stopped_def idle_step_def)
    ultimately show ?thesis by blast
  next
    case True
    then obtain x ms where x: "cl_to_worker c w = x # ms" using w(2) by (cases "cl_to_worker c w") auto
    have wk: "cl_worker c w = Working" using i w(1) x by (auto simp: distribution_inv_def worker_ok_def)
    have tw: "\<not> idle_step c d" if "cl_to_worker d w = ms" for d
      using that x unfolding idle_step_def
      by (metis cluster.select_convs(4) cluster.surjective cluster.update_convs(1) not_Cons_self)
    show ?thesis
    proof (cases x)
      case (New_work_assignment xs)
      from live assignment_length [OF i w(1), of xs ms] x New_work_assignment obtain oc where "st_outcome st w xs oc"
        unfolding live_def by blast
      then have "cluster_step st c (worker_assignment st w xs oc c)" using w(1) wk x New_work_assignment by (intro cluster_step.assignment) simp_all
      moreover have "cl_to_worker (worker_assignment st w xs oc c) w = ms" using x by (simp add: worker_assignment_def worker_event_def Let_def)
      ultimately show ?thesis using tw by blast
    next
      case End_of_work
      from live obtain cs where "st_close st w cs" unfolding live_def by blast
      then have "cluster_step st c (worker_close st w cs 0 c)" using w(1) wk x End_of_work by (intro cluster_step.close_down) simp_all
      moreover have "cl_to_worker (worker_close st w cs 0 c) w = ms" using x by (simp add: worker_close_def worker_event_def Let_def)
      ultimately show ?thesis using tw by blast
    next
      case Other_instruction
      then have "cluster_step st c (worker_discard w c)" using w(1) wk x by (intro cluster_step.discard) simp_all
      moreover have "cl_to_worker (worker_discard w c) w = ms" using x by (simp add: worker_discard_def)
      ultimately show ?thesis using tw by blast
    qed
  qed
  then show ?thesis using running_step_workload [OF ok r] by blast
qed

text \<open>When nothing is under way the head of the loop does something, or ends it.\<close>

lemma head_enabled:
  assumes ok: "setting_ok st" and r: "running_inv st items c" and p: "cl_point c = Looping"
    and e: "\<forall>w < st_workers st. cl_to_worker c w = [] \<and> cl_to_master c w = []"
  shows "\<exists>d. cluster_step st c d \<and> (d, c) \<in> measures (workload st)"
proof -
  have i: "distribution_inv st items c" using r by (simp add: running_inv_def)
  have pl: "pool_inv st (cl_closed c) (cl_sched c)" using i by (simp add: distribution_inv_def)
  have "cluster_step st c (master_head st c)" using p by (rule cluster_step.head)
  moreover have "(master_head st c, c) \<in> measures (workload st)"
  proof (cases "all_inactive (cl_sched c)")
    case True
    then have "cl_point (master_head st c) = Returned" using head_point [OF ok i] by simp
    then show ?thesis using p by (simp add: workload_def)
  next
    case False
    then obtain v where v: "v < st_workers st" "wk_active (sc_workers (cl_sched c) ! v)" using all_inactive_iff [OF pl] by blast
    have t: "trail c w = []" if "w < st_workers st" for w using e that by (simp add: trail_def)
    have un: "\<not> wk_assigned (sc_workers (cl_sched c) ! w)" if "w < st_workers st" for w
      using i t [OF that] that by (auto simp: distribution_inv_def expected_def split: if_splits)
    have cl: "\<not> cl_closed c" using i t [OF v(1)] v by (auto simp: distribution_inv_def expected_def split: if_splits)
    obtain d where d: "distribute st c = (Inr (), d)" "distributed st items c d" using distribute_ok [OF ok i] by blast
    have m: "master_head st c = d" using d False by (simp add: master_head_def settle_def)
    have "d \<noteq> c\<lparr>cl_point := Receiving\<rparr>"
    proof (cases "sc_queue (cl_sched c) = []")
      case True
      then have "cl_closed d" using d(1) cl
        by (auto simp: distribute_def is_finished_def assignable_def bindA_def returnA_def modifyA_def send_closedown_def
            workers_end_of_task_def)
      then show ?thesis using cl by auto
    next
      case q: False
      have "unassigned_workers (cl_sched c) \<noteq> []"
        using in_unassigned [of v "cl_sched c"] un [OF v(1)] v(1) pl by (simp add: pool_inv_def)
      then have a: "assignable (cl_sched c)" using assignable_iff q pl by (simp add: pool_inv_def)
      have "env_ok (st_env st)" "sched_ok (cl_sched c)" "uniform_pool (cl_sched c)"
        using ok pl by (simp_all add: setting_ok_def pool_inv_def)
      from any.round [OF this a] obtain as where as: "assign_work (st_env st) (cl_sched c) = Inr as" "as \<noteq> []"
        "valid_assignments (cl_sched c) as" by blast
      from push_assignments_inv [OF i cl as(3)] obtain f where f: "push_assignments as c = (Inr (), f)"
        "length (sc_queue (cl_sched f)) + length (concat (map snd as)) = length (sc_queue (cl_sched c))" by blast
      have "0 < length (concat (map snd as))" using as(2,3) by (cases as) (auto simp: valid_assignments_def)
      then have "length (sc_queue (cl_sched f)) < length (sc_queue (cl_sched c))" using f(2) by linarith
      moreover have df: "d = f\<lparr>cl_point := Receiving\<rparr>"
        using d(1) a as(1) f(1) q by (simp add: distribute_def is_finished_def assign_work_to_workers_def bindA_def modifyA_def)
      ultimately have "cl_sched d \<noteq> cl_sched c" by auto
      then show ?thesis by auto
    qed
    then show ?thesis using d(2) p m by (auto simp: distributed_def workload_def)
  qed
  ultimately show ?thesis by blast
qed


lemma idle_empty:
  assumes "idle_step c d"
  shows "cl_to_worker d = cl_to_worker c" "cl_to_master d = cl_to_master c" "(d, c) \<in> measures (workload st) \<longleftrightarrow> False"
    "(e, d) \<in> measures (workload st) \<longleftrightarrow> (e, c) \<in> measures (workload st)"
proof -
  obtain p where d: "d = c\<lparr>cl_point := p\<rparr>" "stage (cl_point c) = stage p" using assms by (auto simp: idle_step_def)
  then show "cl_to_worker d = cl_to_worker c" "cl_to_master d = cl_to_master c" "(d, c) \<in> measures (workload st) \<longleftrightarrow> False"
    "(e, d) \<in> measures (workload st) \<longleftrightarrow> (e, c) \<in> measures (workload st)"
    by (simp_all add: workload_def)
qed

lemma progress_possible:
  assumes ok: "setting_ok st" and live: "live st"
    and r: "running_inv st items c" and p: "cl_point c \<noteq> Returned"
  shows "\<exists>d. cluster_runs st c d \<and> (d, c) \<in> measures (workload st)"
proof -
  have one: "\<exists>d. cluster_runs st c d \<and> (d, c) \<in> measures (workload st)"
    if "running_inv st items c" "cl_point c = Looping" for c
  proof (cases "\<forall>w < st_workers st. cl_to_worker c w = [] \<and> cl_to_master c w = []")
    case True
    then show ?thesis using head_enabled [OF ok that] unfolding cluster_runs_def by blast
  next
    case False
    have s: "cluster_step st c (master_head st c)" using that(2) by (rule cluster_step.head)
    from running_step_workload [OF ok that(1) s] show ?thesis
    proof
      assume "(master_head st c, c) \<in> measures (workload st)"
      then show ?thesis using s unfolding cluster_runs_def by blast
    next
      assume id: "idle_step c (master_head st c)"
      have ri: "running_inv st items (master_head st c)" using running_head [OF ok] that(1) by (simp add: running_inv_def)
      have "cl_point (master_head st c) = Receiving"
        using head_point [OF ok, of items c] that(1) id by (auto simp: running_inv_def idle_step_def split: if_splits)
      from step_enabled [OF ok live ri this] False idle_empty(1,2) [OF id]
      obtain e where e: "cluster_step st (master_head st c) e" "(e, master_head st c) \<in> measures (workload st)" by auto
      have "cluster_runs st c e" unfolding cluster_runs_def
        by (rule rtranclp.rtrancl_into_rtrancl [OF r_into_rtranclp]) (rule s, rule e(1))
      then show ?thesis using e(2) idle_empty(4) [OF id] by blast
    qed
  qed
  show ?thesis
  proof (cases "cl_point c = Looping")
    case True
    then show ?thesis using one r by blast
  next
    case False
    then have rc: "cl_point c = Receiving" using r p by (auto simp: running_inv_def)
    have s: "cluster_step st c (master_quiet st 0 c)" using rc by (rule cluster_step.quiet)
    from running_step_workload [OF ok r s] show ?thesis
    proof
      assume "(master_quiet st 0 c, c) \<in> measures (workload st)"
      then show ?thesis using s unfolding cluster_runs_def by blast
    next
      assume id: "idle_step c (master_quiet st 0 c)"
      have ri: "running_inv st items (master_quiet st 0 c)" using running_quiet [OF ok] r by (simp add: running_inv_def)
      have "cl_point (master_quiet st 0 c) = Looping"
        using quiet_cases [OF ok, of items c 0] r by (auto simp: running_inv_def)
      from one [OF ri this] obtain e where e: "cluster_runs st (master_quiet st 0 c) e" "(e, master_quiet st 0 c) \<in> measures (workload st)"
        by blast
      have "cluster_runs st c e" using s e(1) unfolding cluster_runs_def by (rule converse_rtranclp_into_rtranclp)
      then show ?thesis using e(2) idle_empty(4) [OF id] by blast
    qed
  qed
qed

lemma capture_progress:
  assumes "setting_ok st" and "capture_inv st ident items c" and "cl_point c = Capturing" and "\<not> is_ready (cl_sched c)"
  shows "\<exists>d. cluster_step st c d"
proof -
  let ?ws = "sc_workers (cl_sched c)"
  have "0 < unat (sc_waiting (cl_sched c))" using assms(4) by (simp add: is_ready_def unat_gt_0)
  then have "length (identified ?ws) < length ?ws" using assms(2) by (simp add: capture_defs)
  then obtain w where "w < length ?ws" "\<not> wk_initialized (?ws ! w)"
    unfolding identified_def by (metis filter_id_conv in_set_conv_nth less_irrefl)
  then have "w < st_workers st" "cl_to_master c w \<noteq> []" using assms(2) by (auto simp: capture_defs)
  then show ?thesis using cluster_step.capture [OF assms(3)] by blast
qed


lemma runs_end:
  assumes ok: "setting_ok st" "uniform_idents st ident" and live: "live st"
    and r: "run_inv st ident items n0 f0 c"
  shows "\<exists>d. cluster_runs st c d \<and> (cl_point d = Returned \<or> stopped st d)"
  using r
proof (induction c rule: wf_induct_rule [OF wf_measures [of "workload st"]])
  case (1 c)
  show ?case
  proof (cases "cl_point c = Returned \<or> stopped st c")
    case True
    then show ?thesis unfolding cluster_runs_def by blast
  next
    case False
    have "\<exists>d. cluster_runs st c d \<and> (d, c) \<in> measures (workload st)"
    proof (cases "cl_point c = Capturing")
      case True
      then have i: "capture_inv st ident items c" using 1(2) False by (auto simp: run_inv_def running_inv_def)
      from capture_progress [OF ok(1) i True] 1(2) False True obtain d where "cluster_step st c d"
        by (auto simp: run_inv_def running_inv_def)
      then show ?thesis using capture_step_workload [OF i True] unfolding cluster_runs_def by blast
    next
      case ca: False
      then have "running_inv st items c" using 1(2) False by (simp add: run_inv_def)
      moreover have "cl_point c \<noteq> Returned" using False by simp
      ultimately show ?thesis by (rule progress_possible [OF ok(1) live])
    qed
    then obtain d where d: "cluster_runs st c d" "(d, c) \<in> measures (workload st)" by blast
    have "run_inv st ident items n0 f0 d" using run_inv_runs [OF d(1) ok 1(2)] .
    from 1(1) [OF d(2) this] d(1) show ?thesis unfolding cluster_runs_def by (meson rtranclp_trans)
  qed
qed

lemma stopped_workload:
  assumes "stopped st c" and "cluster_step st c d"
  shows "(d, c) \<in> measures (workload st)"
  using assms(2)
proof cases
  case (assignment w xs ms oc)
  then show ?thesis
    by (intro worker_event_workload [of w st c _ ms]) (simp_all add: worker_assignment_def worker_event_def Let_def)
next
  case (close_down w ms cs load)
  then show ?thesis
    by (intro worker_event_workload [of w st c _ ms]) (simp_all add: worker_close_def worker_event_def Let_def)
next
  case (discard w ms)
  then show ?thesis
    by (intro worker_event_workload [of w st c _ ms]) (simp_all add: worker_discard_def)
qed (use assms(1) in \<open>simp_all add: stopped_def\<close>)

lemma busy_steps:
  assumes ok: "setting_ok st" "uniform_idents st ident" and r: "run_inv st ident items n0 f0 c"
    and s: "cluster_step st c d" and b: "\<not> idle_step c d"
  shows "(d, c) \<in> measures (workload st)"
proof -
  consider "stopped st c" | "cl_point c = Capturing" "capture_inv st ident items c" | "running_inv st items c"
    using r by (auto simp: run_inv_def)
  then show ?thesis
    by cases (use s b stopped_workload capture_step_workload running_step_workload [OF ok(1)] in blast)+
qed

end
