(* ===== verification/Work_Properties.thy ===== *)
theory Work_Properties
  imports Work_Completion
begin

text \<open>
  What the distribution of work guarantees, with a setting of two workers as an instance, and what happens when a worker
  does not account for all of its items.
\<close>

section \<open>A setting\<close>

text \<open>Two workers that report every item of an assignment as done, each with a container.\<close>

definition no_times :: finished_integration where
  "no_times = \<lparr>fi_integration = 0, fi_max_integration = 0, fi_min_integration = 0, fi_batching = 0, fi_max_batching = 0,
     fi_min_batching = 0, fi_wallclock = 0, fi_success = 0, fi_refinements = 0, fi_failures = 0, fi_failed = {}, fi_load = 0\<rparr>"

definition done_outcome :: "u32 list \<Rightarrow> work_outcome" where
  "done_outcome xs = \<lparr>oc_containers = [(Integration_data, ''container'')], oc_thrown = None,
     oc_report = Integration_report (no_times\<lparr>fi_success := of_nat (length xs)\<rparr>)\<rparr>"

definition example_env :: sched_env where
  "example_env = \<lparr>se_sort = (\<lambda>less ws. ws), se_cast = of_nat\<rparr>"

definition example_setting :: setting where
  "example_setting = \<lparr>st_workers = 2, st_env = example_env, st_task = ''task'', st_aggregators = (\<lambda>k. k = Integration_data),
     st_aggregate = (\<lambda>r. Aggregated 1), st_outcome = (\<lambda>w xs oc. length xs < 2 ^ 32 \<and> oc = done_outcome xs), st_close = (\<lambda>w cs. cs = [])\<rparr>"

definition example_ident :: "nat \<Rightarrow> worker_type \<times> u32 \<times> u32" where
  "example_ident w = (cpu_worker, 0, 1)"

definition example_sched :: sched where
  "example_sched = build_queue rev [3, 1, 2] (sched_new 2)"

definition example_integration_metadata :: integration_metadata where
  "example_integration_metadata = \<lparr>im_aggregation = 0, im_integration = 0, im_max_integration = 0, im_min_integration = 0, im_batching = 0,
     im_max_batching = 0, im_min_batching = 0, im_configurations = 0, im_failures = 0, im_refinements = 0\<rparr>"

definition no_counters :: cache_counters where
  "no_counters = \<lparr>time_config_hits = 0, time_config_unloads = 0, twopf_kconfig_hits = 0, twopf_kconfig_unloads = 0,
     threepf_kconfig_hits = 0, threepf_kconfig_unloads = 0, stats_hits = 0, stats_unloads = 0, data_hits = 0, data_unloads = 0,
     time_config_evictions = 0, twopf_kconfig_evictions = 0, threepf_kconfig_evictions = 0, stats_evictions = 0, data_evictions = 0\<rparr>"

definition example_output_metadata :: output_metadata where
  "example_output_metadata = \<lparr>om_work = 0, om_database = 0, om_aggregation = 0, om_cache = no_counters\<rparr>"

definition example_start :: cluster where
  "example_start = poll_start example_setting 0 example_ident example_sched (manager_new 2) example_integration_metadata example_output_metadata"

lemma example_ok: "setting_ok example_setting" "uniform_idents example_setting example_ident" "live example_setting"
    "prepared example_setting example_sched (manager_new 2)"
  by (auto simp: setting_ok_def example_setting_def env_ok_def example_env_def sound_report_def done_outcome_def accepted_def no_times_def
      uniform_idents_def example_ident_def live_def prepared_def example_sched_def build_queue_def sched_new_def manager_new_def
      unsigned_of_nat take_bit_nat_less_eq_self)

section \<open>States that end a run\<close>

lemma reached_end:
  assumes "setting_ok st" and "uniform_idents st ident" and "prepared st s m"
    and "cluster_runs st (poll_start st now ident s m im om) c" and "cl_point c = Returned"
  shows "finished st (sc_queue s) c" and "channel_inv st ident c"
    and "ledger_inv (im_configurations im) (im_failures im) c"
  using run_inv_reached [OF assms(1-4)] assms(5) by (auto simp: run_inv_def running_inv_def stopped_def)

lemma reached_raised:
  assumes "setting_ok st" and "uniform_idents st ident" and "prepared st s m"
    and "cluster_runs st (poll_start st now ident s m im om) c" and "cl_point c = Raised e"
  shows "stopped st c"
  using run_inv_reached [OF assms(1-4)] assms(5) by (auto simp: run_inv_def running_inv_def)

lemma finished_items:
  assumes "finished st items c"
  shows "mset items = (\<Sum>w < st_workers st. mset (concat (map event_items (cl_events c w))))"
proof -
  have "(\<Sum>w < st_workers st. held c w) = (\<Sum>w < st_workers st. mset (concat (map event_items (cl_events c w))))"
    using assms by (intro sum.cong) (simp_all add: finished_def held_def)
  then show ?thesis using assms by (simp add: finished_def distribution_inv_def items_inv_def)
qed

lemma runs_end_from_start:
  assumes "setting_ok st" and "uniform_idents st ident" and "prepared st s m" and "live st"
    and "cluster_runs st (poll_start st now ident s m im om) c"
  shows "\<exists>d. cluster_runs st c d \<and> (cl_point d = Returned \<or> stopped st d)"
  by (rule runs_end [OF assms(1,2,4) run_inv_reached [OF assms(1-3,5)]])

text \<open>The example accounts for every item, so that it can only return.\<close>

lemma example_lost:
  assumes "cluster_runs example_setting example_start c"
  shows "lost example_setting (cl_events c) = 0"
proof -
  have "channel_inv example_setting example_ident c"
    using run_inv_reached [OF example_ok(1,2,4)] assms unfolding example_start_def run_inv_def by blast
  then have ev: "event_ok example_setting w e" if "e \<in> set (cl_events c w)" for w e
    using that by (simp add: channel_inv_def)
  have "shortfall e = 0" if "e \<in> set (cl_events c w)" for w e
    using ev [OF that]
    by (cases e) (auto simp: event_ok_def shortfall_def example_setting_def done_outcome_def no_times_def unsigned_of_nat take_bit_nat_eq_self)
  then show ?thesis by (simp add: lost_def)
qed

lemma example_returns: "\<exists>c. cluster_runs example_setting example_start c \<and> cl_point c = Returned"
proof -
  have s: "cluster_runs example_setting example_start example_start" by (simp add: cluster_runs_def)
  from runs_end_from_start [OF example_ok(1,2,4,3) s [unfolded example_start_def]]
  obtain d where d: "cluster_runs example_setting example_start d" "cl_point d = Returned \<or> stopped example_setting d"
    unfolding example_start_def by blast
  then show ?thesis using example_lost by (auto simp: stopped_def)
qed

text \<open>A worker whose only task throws: the report that follows counts no item.\<close>

definition failed_outcome :: work_outcome where
  "failed_outcome = \<lparr>oc_containers = [], oc_thrown = Some ''task failed'',
     oc_report = Content_report \<lparr>fc_groups = [], fc_database = 0, fc_wallclock = 1, fc_items = 0, fc_cache = no_counters, fc_load = 0\<rparr>\<rparr>"

definition failing_setting :: setting where
  "failing_setting = example_setting\<lparr>st_workers := 1, st_outcome := (\<lambda>w xs oc. oc = failed_outcome)\<rparr>"

definition failing_start :: cluster where
  "failing_start = poll_start failing_setting 0 example_ident (build_queue rev [5] (sched_new 1)) (manager_new 1)
     example_integration_metadata example_output_metadata"

lemma failing_ok: "setting_ok failing_setting" "uniform_idents failing_setting example_ident" "live failing_setting"
    "prepared failing_setting (build_queue rev [5] (sched_new 1)) (manager_new 1)"
  by (auto simp: setting_ok_def failing_setting_def example_setting_def env_ok_def example_env_def sound_report_def failed_outcome_def
      accepted_def uniform_idents_def live_def prepared_def build_queue_def sched_new_def manager_new_def)

text \<open>What a worker did stays in its history, so that an item left out is never made up for.\<close>

lemma receive_events: "cl_events (master_receive st now w c) = cl_events c"
proof -
  have settled: "cl_events (settle st r) = cl_events (snd r)" for r :: "(exn + unit) \<times> cluster"
    using same_channels_settle [of "snd r" r] by (simp add: same_channels_def)
  have handled: "cl_events (snd (handle_message st w m d)) = cl_events d" for m d
    using quiet_rest [of w m] by (simp add: handle_message_rest quiet_act_def same_channels_def)
  obtain r d where r: "on_manager (update_contact_time now w) (c\<lparr>cl_last := now\<rparr>) = (r, d)" by fastforce
  then have "cl_events d = cl_events c" by (auto simp: on_manager_def split: prod.splits)
  then show ?thesis using r by (cases r) (simp_all add: master_receive_def bindA_def modifyA_def settled handled)
qed

lemma capture_events: "cl_events (capture_step now w c) = cl_events c"
proof -
  have "cl_events (snd (bindA (capture_message w m) (\<lambda>_. modifyA (capture_check now)) c)) = cl_events c" for m
    by (cases m) (auto simp: bindA_def take_message_taken on_sched_def modifyA_def capture_check_def split: prod.splits sum.splits)
  moreover obtain r d where rd: "bindA (capture_message w (hd (cl_to_master c w))) (\<lambda>_. modifyA (capture_check now)) c = (r, d)"
    by fastforce
  ultimately have "cl_events d = cl_events c" by (metis snd_conv)
  then show ?thesis using rd by (cases r) (simp_all add: capture_step_def)
qed

lemma quiet_events: "cl_events (master_quiet st now c) = cl_events c"
proof -
  have "quiet_act (bindA (if cl_queue c \<noteq> [] \<and> 5 < now - cl_last c then aggregate_front st else returnA ())
       (\<lambda>_. modifyA (\<lambda>c. c\<lparr>cl_point := Looping\<rparr>)))"
    by (auto simp: same_channels_def intro!: quiet_bind)
  then have "same_channels c (master_quiet st now c)" unfolding master_quiet_def by (rule quiet_settle)
  then show ?thesis by (simp add: same_channels_def)
qed

lemma events_step: "cluster_step st c d \<Longrightarrow> set (cl_events c w) \<subseteq> set (cl_events d w)"
proof (induction rule: cluster_step.induct)
  case (head c)
  then show ?case using master_head_channels [of c st] by (simp add: same_channels_def)
qed (auto simp: capture_events receive_events quiet_events worker_assignment_def worker_close_def worker_discard_def
      worker_event_def Let_def)

lemma events_runs: "cluster_runs st c d \<Longrightarrow> set (cl_events c w) \<subseteq> set (cl_events d w)"
  unfolding cluster_runs_def by (induction rule: rtranclp_induct) (use events_step in blast)+

lemma runs_trans: "cluster_runs st a b \<Longrightarrow> cluster_runs st b c \<Longrightarrow> cluster_runs st a c"
  unfolding cluster_runs_def by (rule rtranclp_trans)

lemma shortfall_lost:
  assumes "w < st_workers st" and "Ran xs oc \<in> set (evs w)" and "unat (items_processed (oc_report oc)) < length xs"
  shows "0 < lost st evs"
proof -
  have "0 < shortfall (Ran xs oc)" using assms(3) by (simp add: shortfall_def)
  also have "\<dots> \<le> sum_list (map shortfall (evs w))" using assms(2) by (intro member_le_sum_list) simp_all
  also have "\<dots> \<le> lost st evs" unfolding lost_def using assms(1) by (intro member_le_sum) simp_all
  finally show ?thesis .
qed

lemma lost_shortfall:
  assumes "0 < lost st evs"
  obtains w xs oc where "w < st_workers st" "Ran xs oc \<in> set (evs w)" "unat (items_processed (oc_report oc)) < length xs"
proof -
  obtain w where w: "w < st_workers st" "sum_list (map shortfall (evs w)) \<noteq> 0"
    using assms unfolding lost_def by (metis gr_implies_not0 lessThan_iff sum.neutral)
  then obtain e where "e \<in> set (evs w)" "shortfall e \<noteq> 0" by (auto simp: sum_list_eq_0_iff)
  moreover from this(2) obtain xs oc where "e = Ran xs oc" "unat (items_processed (oc_report oc)) < length xs"
    by (cases e) (auto simp: shortfall_def)
  ultimately show ?thesis using that w(1) by blast
qed

text \<open>The failing worker leaves its item out, so that its run can only be stopped.\<close>

lemma failing_not_returned:
  assumes "cluster_runs failing_setting failing_start c"
  shows "cl_point c \<noteq> Returned"
proof
  assume r: "cl_point c = Returned"
  note e = reached_end [OF failing_ok(1,2,4) assms [unfolded failing_start_def] r]
  have "sc_queue (build_queue rev [5] (sched_new 1)) = [5]" by (simp add: build_queue_def)
  then have "{#5#} = mset (concat (map event_items (cl_events c 0)))"
    using finished_items [OF e(1)] by (simp add: failing_setting_def)
  then have "5 \<in># mset (concat (map event_items (cl_events c 0)))" by (metis union_single_eq_member add_mset_add_single)
  then obtain xs oc where ev: "Ran xs oc \<in> set (cl_events c 0)" "xs \<noteq> []"
    by (force simp: event_items_def split: event.splits)
  have "event_ok failing_setting 0 (Ran xs oc)" using e(2) ev(1) by (simp add: channel_inv_def)
  then have "unat (items_processed (oc_report oc)) < length xs"
    using ev(2) by (simp add: event_ok_def failing_setting_def failed_outcome_def)
  then have "0 < lost failing_setting (cl_events c)" using ev(1) by (intro shortfall_lost [of 0]) (simp_all add: failing_setting_def)
  then show False using e(1) by (simp add: finished_def)
qed

lemma failing_run: "\<exists>c xs oc. cluster_runs failing_setting failing_start c \<and> Ran xs oc \<in> set (cl_events c 0)
  \<and> unat (items_processed (oc_report oc)) < length xs"
proof -
  have s: "cluster_runs failing_setting failing_start failing_start" by (simp add: cluster_runs_def)
  from runs_end_from_start [OF failing_ok(1,2,4,3) s [unfolded failing_start_def]]
  obtain c where c: "cluster_runs failing_setting failing_start c" "stopped failing_setting c"
    using failing_not_returned unfolding failing_start_def by blast
  then have "0 < lost failing_setting (cl_events c)" by (simp add: stopped_def)
  then obtain w xs oc where "w < st_workers failing_setting" "Ran xs oc \<in> set (cl_events c w)"
    "unat (items_processed (oc_report oc)) < length xs" by (rule lost_shortfall)
  with c(1) show ?thesis by (auto simp: failing_setting_def)
qed

section \<open>Properties\<close>

text \<open>C2: \<open>poll_workers\<close> ends rightly in a setting in which nothing else throws: every container has an aggregator, which takes or
  refuses it and does not throw, derived content is never refused, no report counts more items than were assigned or is rejected by
  its worker, and the workers are of one type. There, whatever the interleaving, \<open>poll_workers\<close> returns only when the
  workers' reports have accounted for every item they were assigned, and the one exception that can leave it is that of the last
  close-down, when they have not. A report that counts too many items, as after a flush that throws, is outside
  the setting.\<close>

theorem poll_ends_rightly:
  assumes "setting_ok st" and "uniform_idents st ident" and "prepared st s m"
    and "cluster_runs st (poll_start st now ident s m im om) c"
  shows "(cl_point c = Returned \<longrightarrow> lost st (cl_events c) = 0)
    \<and> (\<forall>e. cl_point c = Raised e \<longrightarrow> e = Runtime_error ''CPPTRANSPORT_SCHEDULING_UNDER_INFLIGHT'' \<and> 0 < lost st (cl_events c))"
proof (intro conjI impI allI)
  show "lost st (cl_events c) = 0" if "cl_point c = Returned"
    using reached_end(1) [OF assms that] by (simp add: finished_def)
  fix e assume r: "cl_point c = Raised e"
  show "e = Runtime_error ''CPPTRANSPORT_SCHEDULING_UNDER_INFLIGHT''" "0 < lost st (cl_events c)"
    using reached_raised [OF assms r] r by (simp_all add: stopped_def under_inflight_def)
qed

theorem poll_ends_rightly_witness:
  "\<exists>c. cluster_runs example_setting example_start c \<and> cl_point c = Returned \<and> lost example_setting (cl_events c) = 0"
proof -
  obtain c where c: "cluster_runs example_setting example_start c" "cl_point c = Returned" using example_returns by blast
  then show ?thesis using poll_ends_rightly [OF example_ok(1,2,4) c(1) [unfolded example_start_def]] by blast
qed

text \<open>C1: When \<open>poll_workers\<close> returns, the workers have run the items of the queue, every one of them exactly once.\<close>

theorem items_processed_once:
  assumes "setting_ok st" and "uniform_idents st ident" and "prepared st s m"
    and "cluster_runs st (poll_start st now ident s m im om) c" and "cl_point c = Returned"
  shows "mset (sc_queue s) = (\<Sum>w < st_workers st. mset (concat (map event_items (cl_events c w))))"
  by (rule finished_items [OF reached_end(1) [OF assms]])

theorem items_processed_once_witness:
  "\<exists>c. cluster_runs example_setting example_start c \<and> mset [3, 2, 1] = (\<Sum>w<2. mset (concat (map event_items (cl_events c w))))"
proof -
  obtain c where c: "cluster_runs example_setting example_start c" "cl_point c = Returned" using example_returns by blast
  have "sc_queue example_sched = [3, 2, 1]" by (simp add: example_sched_def build_queue_def word_le_nat_alt)
  then have "mset [3, 2, 1] = (\<Sum>w < st_workers example_setting. mset (concat (map event_items (cl_events c w))))"
    using items_processed_once [OF example_ok(1,2,4) c(1) [unfolded example_start_def] c(2)] by simp
  with c(1) show ?thesis by (auto simp: example_setting_def)
qed

text \<open>C5: At its return the failed serials, the flag of success, the number of configurations and the containers the master
  has dealt with are those of what the workers did, in whatever order their messages came.\<close>

theorem books_balance:
  assumes "setting_ok st" and "uniform_idents st ident" and "prepared st s m"
    and "cluster_runs st (poll_start st now ident s m im om) c" and "cl_point c = Returned"
  shows "cl_failed c = (\<Union>w < st_workers st. \<Union>e\<in>set (cl_events c w). event_failed e)
    \<and> (cl_success c \<longleftrightarrow> (\<forall>w < st_workers st. \<forall>e\<in>set (cl_events c w). event_success e))
    \<and> im_configurations (cl_int_meta c)
        = im_configurations im + (\<Sum>w < st_workers st. sum_list (map event_configurations (cl_events c w)))
    \<and> containers_of (cl_aggregated c @ cl_refused c) = (\<Sum>w < st_workers st. sum_list (map event_containers (cl_events c w)))"
proof -
  note r = reached_end [OF assms]
  show ?thesis using finished_books [OF r(2,1) assms(1) r(3)] by blast
qed

theorem books_balance_witness:
  "\<exists>c. cluster_runs example_setting example_start c
    \<and> containers_of (cl_aggregated c @ cl_refused c) = (\<Sum>w<2. sum_list (map event_containers (cl_events c w)))"
proof -
  obtain c where c: "cluster_runs example_setting example_start c" "cl_point c = Returned" using example_returns by blast
  have "containers_of (cl_aggregated c @ cl_refused c)
      = (\<Sum>w < st_workers example_setting. sum_list (map event_containers (cl_events c w)))"
    using books_balance [OF example_ok(1,2,4) c(1) [unfolded example_start_def] c(2)] by blast
  with c(1) show ?thesis by (auto simp: example_setting_def)
qed

text \<open>C3: From every state of a run \<open>poll_workers\<close> can be brought to an end, and it returns unless a report has left an item
  out: no order of the messages leads to a deadlock.\<close>

theorem poll_can_end:
  assumes "setting_ok st" and "uniform_idents st ident" and "prepared st s m" and "live st"
    and "cluster_runs st (poll_start st now ident s m im om) c"
  shows "\<exists>d. cluster_runs st c d \<and> (cl_point d = Returned \<or> (\<exists>e. cl_point d = Raised e \<and> 0 < lost st (cl_events d)))"
  using runs_end_from_start [OF assms] unfolding stopped_def by blast

theorem poll_can_end_witness: "\<exists>d. cluster_runs example_setting example_start d \<and> cl_point d = Returned"
proof -
  have s: "cluster_runs example_setting example_start example_start" by (simp add: cluster_runs_def)
  from poll_can_end [OF example_ok(1,2,4,3) s [unfolded example_start_def]]
  obtain d where d: "cluster_runs example_setting example_start d"
    "cl_point d = Returned \<or> (\<exists>e. cl_point d = Raised e \<and> 0 < lost example_setting (cl_events d))"
    unfolding example_start_def by blast
  then show ?thesis using example_lost by auto
qed

text \<open>C4: Apart from rounds of the loop in which nothing happens, a run is finite.\<close>

theorem busy_steps_end:
  assumes "setting_ok st" and "uniform_idents st ident" and "prepared st s m"
  shows "wf {(d, c). cluster_runs st (poll_start st now ident s m im om) c \<and> cluster_step st c d \<and> \<not> idle_step c d}"
proof (rule wf_subset [OF wf_measures [of "workload st"]])
  show "{(d, c). cluster_runs st (poll_start st now ident s m im om) c \<and> cluster_step st c d \<and> \<not> idle_step c d}
      \<subseteq> measures (workload st)"
    using busy_steps [OF assms(1,2) run_inv_reached [OF assms]] by auto
qed

theorem busy_steps_end_witness:
  "wf {(d, c). cluster_runs example_setting example_start c \<and> cluster_step example_setting c d \<and> \<not> idle_step c d}"
  unfolding example_start_def by (rule busy_steps_end [OF example_ok(1,2,4)])

text \<open>C6: An assignment that leaves items out ends the work in an exception. Whatever the setting, among those of C2, once a worker has
  run an assignment whose report counts fewer items than were assigned, as the report of a task that threw does, \<open>poll_workers\<close>
  cannot return from there any more, in no interleaving, although the message of the failure is handled like that of a
  success: the one way it can end is the exception of the last close-down, which finds items in flight, and while the work in the
  setting can always be done that end can be reached.\<close>

theorem failed_assignment_raises:
  assumes "setting_ok st" and "uniform_idents st ident" and "prepared st s m" and "live st"
    and "cluster_runs st (poll_start st now ident s m im om) c" and "w < st_workers st"
    and "Ran xs oc \<in> set (cl_events c w)" and "unat (items_processed (oc_report oc)) < length xs"
  shows "(\<forall>d. cluster_runs st c d \<longrightarrow> cl_point d \<noteq> Returned
        \<and> (\<forall>e. cl_point d = Raised e \<longrightarrow> e = Runtime_error ''CPPTRANSPORT_SCHEDULING_UNDER_INFLIGHT''))
    \<and> (\<exists>d. cluster_runs st c d \<and> cl_point d = Raised (Runtime_error ''CPPTRANSPORT_SCHEDULING_UNDER_INFLIGHT''))"
proof -
  have n: "cl_point d \<noteq> Returned" if "cluster_runs st c d" for d
  proof
    assume r: "cl_point d = Returned"
    have "Ran xs oc \<in> set (cl_events d w)" using events_runs [OF that] assms(7) by blast
    then have "0 < lost st (cl_events d)" by (rule shortfall_lost [OF assms(6) _ assms(8)])
    then show False using reached_end(1) [OF assms(1-3) runs_trans [OF assms(5) that] r] by (simp add: finished_def)
  qed
  have e: "e = Runtime_error ''CPPTRANSPORT_SCHEDULING_UNDER_INFLIGHT''" if "cluster_runs st c d" "cl_point d = Raised e" for d e
    using reached_raised [OF assms(1-3) runs_trans [OF assms(5) that(1)] that(2)] that(2) by (simp add: stopped_def under_inflight_def)
  obtain d where d: "cluster_runs st c d" "cl_point d = Returned \<or> stopped st d"
    using runs_end_from_start [OF assms(1-5)] by blast
  then have "cl_point d = Raised (Runtime_error ''CPPTRANSPORT_SCHEDULING_UNDER_INFLIGHT'')"
    using n [OF d(1)] by (simp add: stopped_def under_inflight_def)
  with n e d(1) show ?thesis by blast
qed

theorem failed_assignment_raises_witness:
  "\<exists>c xs oc d. cluster_runs failing_setting failing_start c \<and> Ran xs oc \<in> set (cl_events c 0)
    \<and> cluster_runs failing_setting c d \<and> cl_point d = Raised (Runtime_error ''CPPTRANSPORT_SCHEDULING_UNDER_INFLIGHT'')"
proof -
  obtain c xs oc where c: "cluster_runs failing_setting failing_start c" "Ran xs oc \<in> set (cl_events c 0)"
    "unat (items_processed (oc_report oc)) < length xs" using failing_run by blast
  have w: "0 < st_workers failing_setting" by (simp add: failing_setting_def)
  from failed_assignment_raises [OF failing_ok(1,2,4,3) c(1) [unfolded failing_start_def] w c(2,3)] c(1,2) show ?thesis by blast
qed

end
