(* ===== verification/Transactions.thy ===== *)
theory Transactions
  imports Transport_Prelude
begin

text \<open>
  Transactions on the repository (\<open>transactions/transaction_manager.h\<close>): a lock file, a journal of files to be put in
  their place, and the transaction of a database. The file system is a map from paths to objects. Arguments of the model
  are the engine of the database, the text of a time and what other processes do while the constructor sleeps.
\<close>

section \<open>Files\<close>

datatype fs_object = Regular string | Folder "string list"

type_synonym store = "string \<Rightarrow> fs_object option"

text \<open>A folder goes only where there is nothing or an empty folder, a regular file where there is none or a regular file.\<close>

fun in_the_way :: "fs_object \<Rightarrow> fs_object option \<Rightarrow> bool" where
  "in_the_way x None = False"
| "in_the_way (Regular s) (Some (Regular t)) = False"
| "in_the_way (Regular s) (Some (Folder ts)) = True"
| "in_the_way (Folder ss) (Some (Regular t)) = True"
| "in_the_way (Folder ss) (Some (Folder ts)) = (ts \<noteq> [])"

definition fs_rename :: "string \<Rightarrow> string \<Rightarrow> (store, unit) act" where
  "fs_rename s t fs =
     (case fs s of None \<Rightarrow> (Inl (Filesystem_error s), fs)
      | Some x \<Rightarrow> if in_the_way x (fs t) \<and> s \<noteq> t then (Inl (Filesystem_error t), fs) else (Inr (), fs(s := None, t := Some x)))"

definition fs_remove :: "string \<Rightarrow> (store, unit) act" where
  "fs_remove s fs =
     (case fs s of Some (Folder (x # xs)) \<Rightarrow> (Inl (Filesystem_error s), fs) | _ \<Rightarrow> (Inr (), fs(s := None)))"

section \<open>Journal\<close>

datatype journal_record = Emplace string string | Move string string

primrec record_commit :: "journal_record \<Rightarrow> (store, unit) act" where
  "record_commit (Emplace j t) = fs_rename j t"
| "record_commit (Move s t) = fs_rename s t"

primrec record_rollback :: "journal_record \<Rightarrow> (store, unit) act" where
  "record_rollback (Emplace j t) = fs_remove j"
| "record_rollback (Move s t) = returnA ()"

primrec each_record :: "(journal_record \<Rightarrow> (store, unit) act) \<Rightarrow> journal_record list \<Rightarrow> (store, unit) act" where
  "each_record f [] = returnA ()"
| "each_record f (r # rs) = bindA (f r) (\<lambda>_. each_record f rs)"

section \<open>Repository\<close>

text \<open>The operations of the database engine; an operation that fails leaves the database as it is.\<close>

record 'd engine =
  en_begin :: "'d \<Rightarrow> exn + 'd"
  en_commit :: "'d \<Rightarrow> exn + 'd"
  en_rollback :: "'d \<Rightarrow> exn + 'd"

record 'd repo =
  rp_files :: store
  rp_db :: 'd
  rp_transactions :: u32

text \<open>The handler of the SQLite repository; the flush of its caches is left out.\<close>

definition on_files :: "(store, 'a) act \<Rightarrow> ('d repo, 'a) act" where
  "on_files m r = (case m (rp_files r) of (x, fs) \<Rightarrow> (x, r\<lparr>rp_files := fs\<rparr>))"

definition on_db :: "('d \<Rightarrow> exn + 'd) \<Rightarrow> ('d repo, unit) act" where
  "on_db f r = (case f (rp_db r) of Inl e \<Rightarrow> (Inl e, r) | Inr d \<Rightarrow> (Inr (), r\<lparr>rp_db := d\<rparr>))"

definition begin_transaction :: "'d engine \<Rightarrow> ('d repo, unit) act" where
  "begin_transaction en = on_db (en_begin en)"

definition commit_transaction :: "'d engine \<Rightarrow> ('d repo, unit) act" where
  "commit_transaction en = on_db (en_commit en)"

definition abort_transaction :: "'d engine \<Rightarrow> ('d repo, unit) act" where
  "abort_transaction en = on_db (en_rollback en)"

definition release_transaction :: "('d repo, unit) act" where
  "release_transaction r =
     (if rp_transactions r = 0 then (Inl (Runtime_error ''CPPTRANSPORT_TRANSACTION_OVER_RELEASE''), r)
      else (Inr (), r\<lparr>rp_transactions := rp_transactions r - 1\<rparr>))"

section \<open>Transaction manager\<close>

record manager =
  tm_lockfile :: string
  tm_magic :: string
  tm_committed :: bool
  tm_dead :: bool
  tm_journal :: "journal_record list"

definition lockfile_attempts :: nat where
  "lockfile_attempts = 50"

text \<open>The constructor waits while there is a lock file. What others do in a sleep, and between the last look and the
  making of the lock file, is an argument; a sleep is numbered by the attempts that are left.\<close>

primrec await_lock :: "(nat \<Rightarrow> store \<Rightarrow> store) \<Rightarrow> string \<Rightarrow> nat \<Rightarrow> store \<Rightarrow> bool \<times> store" where
  "await_lock others p 0 fs = (False, fs)"
| "await_lock others p (Suc k) fs = (if fs p \<noteq> None then await_lock others p k (others (Suc k) fs) else (True, others 0 fs))"

definition make_lock :: "string \<Rightarrow> string \<Rightarrow> store \<Rightarrow> store" where
  "make_lock p magic fs = fs(p \<mapsto> Regular magic)"

definition manager_open :: "'d engine \<Rightarrow> (nat \<Rightarrow> store \<Rightarrow> store) \<Rightarrow> string \<Rightarrow> string \<Rightarrow> ('d repo, manager) act" where
  "manager_open en others p magic r =
     (case await_lock others p lockfile_attempts (rp_files r) of
        (False, fs) \<Rightarrow> (Inl (Runtime_error ''CPPTRANSPORT_TRANSACTION_NO_LOCK''), r\<lparr>rp_files := fs\<rparr>)
      | (True, fs) \<Rightarrow>
          bindA (begin_transaction en)
            (\<lambda>_. returnA \<lparr>tm_lockfile = p, tm_magic = magic, tm_committed = False, tm_dead = False, tm_journal = []\<rparr>)
            (r\<lparr>rp_files := make_lock p magic fs\<rparr>))"

text \<open>A word read from a stream; no stream gives the empty word.\<close>

definition first_word :: "string \<Rightarrow> string" where
  "first_word s = takeWhile (\<lambda>c. \<not> isspace c) (dropWhile isspace s)"

definition read_magic :: "string \<Rightarrow> store \<Rightarrow> string" where
  "read_magic p fs = (case fs p of Some (Regular s) \<Rightarrow> first_word s | _ \<Rightarrow> [])"

definition remove_lock :: "string \<Rightarrow> ('d repo, unit) act" where
  "remove_lock p r = (if rp_files r p \<noteq> None then on_files (fs_remove p) r else (Inr (), r))"

definition lost_lock :: exn where
  "lost_lock = Runtime_error ''CPPTRANSPORT_TRANSACTION_LOST_LOCK''"

definition lock_kept :: "manager \<Rightarrow> 'd repo \<Rightarrow> bool" where
  "lock_kept tm r \<longleftrightarrow> rp_files r (tm_lockfile tm) \<noteq> None \<and> read_magic (tm_lockfile tm) (rp_files r) = tm_magic tm"

text \<open>The manager survives an exception, as its destructor still has to look at it.\<close>

type_synonym ('d, 'a) transaction = "('d repo \<times> manager, 'a) act"

definition in_repo :: "('d repo, 'a) act \<Rightarrow> ('d, 'a) transaction" where
  "in_repo m s = (case m (fst s) of (x, r) \<Rightarrow> (x, (r, snd s)))"

definition set_manager :: "(manager \<Rightarrow> manager) \<Rightarrow> ('d, unit) transaction" where
  "set_manager f s = (Inr (), (fst s, f (snd s)))"

definition manager_commit :: "'d engine \<Rightarrow> ('d, unit) transaction" where
  "manager_commit en s =
     (let tm = snd s; p = tm_lockfile tm in
      if \<not> lock_kept tm (fst s)
      then bindA (in_repo (abort_transaction en)) (\<lambda>_. bindA (in_repo release_transaction) (\<lambda>_. throwA lost_lock)) s
      else bindA (in_repo (on_files (each_record record_commit (tm_journal tm))))
             (\<lambda>_. bindA (in_repo (commit_transaction en))
             (\<lambda>_. bindA (set_manager (\<lambda>m. m\<lparr>tm_committed := True\<rparr>))
             (\<lambda>_. bindA (in_repo release_transaction) (\<lambda>_. in_repo (remove_lock p))))) s)"

definition manager_rollback :: "'d engine \<Rightarrow> ('d, unit) transaction" where
  "manager_rollback en s =
     (let tm = snd s; p = tm_lockfile tm in
      bindA (in_repo (on_files (each_record record_rollback (tm_journal tm))))
        (\<lambda>_. bindA (in_repo (abort_transaction en))
        (\<lambda>_. bindA (set_manager (\<lambda>m. m\<lparr>tm_dead := True\<rparr>))
        (\<lambda>_. bindA (in_repo release_transaction)
        (\<lambda>_ s'. if lock_kept tm (fst s') then in_repo (remove_lock p) s' else throwA lost_lock s')))) s)"

text \<open>The destructor swallows a \<open>runtime_exception\<close>; any other ends the program.\<close>

definition manager_destroy :: "'d engine \<Rightarrow> ('d, unit) transaction" where
  "manager_destroy en s =
     (if tm_committed (snd s) \<or> tm_dead (snd s) then (Inr (), s)
      else catchA (manager_rollback en) (\<lambda>e. case e of Runtime_error m \<Rightarrow> returnA () | _ \<Rightarrow> throwA Terminate) s)"

definition journal_add :: "journal_record \<Rightarrow> ('d, unit) transaction" where
  "journal_add x s =
     (if tm_committed (snd s) then (Inl (Runtime_error ''CPPTRANSPORT_TRANSACTION_COMMITTED''), s)
      else if tm_dead (snd s) then (Inl (Runtime_error ''CPPTRANSPORT_TRANSACTION_DEAD''), s)
      else set_manager (\<lambda>m. m\<lparr>tm_journal := tm_journal m @ [x]\<rparr>) s)"

definition journal_deposit :: "string \<Rightarrow> string \<Rightarrow> ('d, unit) transaction" where
  "journal_deposit j t = journal_add (Emplace j t)"

definition journal_move :: "string \<Rightarrow> string \<Rightarrow> ('d, unit) transaction" where
  "journal_move s t = journal_add (Move s t)"

text \<open>A repository counts its transactions and allows one at a time.\<close>

definition generate_manager :: "'d engine \<Rightarrow> (nat \<Rightarrow> store \<Rightarrow> store) \<Rightarrow> string \<Rightarrow> string \<Rightarrow> ('d repo, manager) act" where
  "generate_manager en others p magic r =
     (if 0 < rp_transactions r then (Inl (Runtime_error ''CPPTRANSPORT_TRANSACTION_UNDERWAY''), r)
      else manager_open en others p magic (r\<lparr>rp_transactions := rp_transactions r + 1\<rparr>))"

text \<open>The way the repository uses a manager: open, work, commit; the manager is destroyed at the end of its scope.\<close>

definition with_transaction :: "'d engine \<Rightarrow> (nat \<Rightarrow> store \<Rightarrow> store) \<Rightarrow> string \<Rightarrow> string \<Rightarrow> ('d, unit) transaction \<Rightarrow> ('d repo, unit) act" where
  "with_transaction en others p magic body r =
     (case generate_manager en others p magic r of
        (Inl e, r1) \<Rightarrow> (Inl e, r1)
      | (Inr tm, r1) \<Rightarrow>
          (case bindA body (\<lambda>_. manager_commit en) (r1, tm) of
             (x, s) \<Rightarrow> (case manager_destroy en s of (Inl e, s') \<Rightarrow> (Inl e, fst s') | (Inr u, s') \<Rightarrow> (x, fst s'))))"

section \<open>Several processes\<close>

text \<open>Processes that share the files. The look for the lock file and its making are steps of their own; the text of the
  time has the resolution of a second, as the clock of a step.\<close>

datatype phase = Outside | Looking nat | Cleared | Inside manager | Refused | Finished | Lost

record system =
  sy_files :: store
  sy_phase :: "nat \<Rightarrow> phase"

definition enter_phase :: "nat \<Rightarrow> phase \<Rightarrow> system \<Rightarrow> system" where
  "enter_phase i f s = s\<lparr>sy_phase := (sy_phase s)(i := f)\<rparr>"

definition holds_lock :: "system \<Rightarrow> manager \<Rightarrow> bool" where
  "holds_lock s tm \<longleftrightarrow> sy_files s (tm_lockfile tm) \<noteq> None \<and> read_magic (tm_lockfile tm) (sy_files s) = tm_magic tm"

inductive process_step :: "string \<Rightarrow> (nat \<Rightarrow> string) \<Rightarrow> system \<Rightarrow> system \<Rightarrow> bool" for p stamp where
  enter: "sy_phase s i = Outside \<Longrightarrow> process_step p stamp s (enter_phase i (Looking lockfile_attempts) s)"
| occupied: "sy_phase s i = Looking (Suc k) \<Longrightarrow> sy_files s p \<noteq> None \<Longrightarrow> process_step p stamp s (enter_phase i (Looking k) s)"
| clear: "sy_phase s i = Looking (Suc k) \<Longrightarrow> sy_files s p = None \<Longrightarrow> process_step p stamp s (enter_phase i Cleared s)"
| refuse: "sy_phase s i = Looking 0 \<Longrightarrow> process_step p stamp s (enter_phase i Refused s)"
| make: "sy_phase s i = Cleared \<Longrightarrow>
    process_step p stamp s (enter_phase i (Inside \<lparr>tm_lockfile = p, tm_magic = stamp now, tm_committed = False, tm_dead = False, tm_journal = []\<rparr>)
      (s\<lparr>sy_files := make_lock p (stamp now) (sy_files s)\<rparr>))"
| finish: "sy_phase s i = Inside tm \<Longrightarrow> holds_lock s tm \<Longrightarrow>
    process_step p stamp s (enter_phase i Finished (s\<lparr>sy_files := (sy_files s)(p := None)\<rparr>))"
| lose: "sy_phase s i = Inside tm \<Longrightarrow> \<not> holds_lock s tm \<Longrightarrow> process_step p stamp s (enter_phase i Lost s)"

definition idle_system :: system where
  "idle_system = \<lparr>sy_files = (\<lambda>p. None), sy_phase = (\<lambda>i. Outside)\<rparr>"

end
