(* ===== verification/Transaction_Facts.thy ===== *)
theory Transaction_Facts
  imports Transactions
begin

text \<open>
  What a transaction guarantees: a journal that is executed as a whole, nothing changed after a failure of the work; and
  where it falls short: a commit that the database refuses, a lock file that is left behind, two locks in one second.
\<close>

section \<open>Executing a journal\<close>

primrec journal_source :: "journal_record \<Rightarrow> string" where
  "journal_source (Emplace j t) = j"
| "journal_source (Move s t) = s"

primrec journal_target :: "journal_record \<Rightarrow> string" where
  "journal_target (Emplace j t) = t"
| "journal_target (Move s t) = t"

text \<open>The files after all records at once.\<close>

definition placed :: "journal_record list \<Rightarrow> store \<Rightarrow> store" where
  "placed js fs p =
     (case map_of (map (\<lambda>r. (journal_target r, journal_source r)) js) p of
        Some s \<Rightarrow> fs s
      | None \<Rightarrow> if p \<in> journal_source ` set js then None else fs p)"

definition placeable :: "journal_record list \<Rightarrow> store \<Rightarrow> bool" where
  "placeable js fs \<longleftrightarrow> distinct (map journal_source js) \<and> distinct (map journal_target js)
     \<and> journal_source ` set js \<inter> journal_target ` set js = {}
     \<and> (\<forall>r \<in> set js. \<exists>x. fs (journal_source r) = Some x \<and> \<not> in_the_way x (fs (journal_target r)))"

lemma record_commit_rename: "record_commit r = fs_rename (journal_source r) (journal_target r)"
  by (cases r) simp_all

lemma each_record_commit: "placeable js fs \<Longrightarrow> each_record record_commit js fs = (Inr (), placed js fs)"
proof (induction js arbitrary: fs)
  case Nil
  then show ?case by (simp add: returnA_def placed_def fun_eq_iff)
next
  case (Cons r rs)
  let ?s = "journal_source r" and ?t = "journal_target r"
  obtain x where x: "fs ?s = Some x" "\<not> in_the_way x (fs ?t)" using Cons.prems by (auto simp: placeable_def)
  let ?fs = "fs(?s := None, ?t := Some x)"
  have ne: "journal_source q \<noteq> ?s" "journal_source q \<noteq> ?t" "journal_target q \<noteq> ?s" "journal_target q \<noteq> ?t" if "q \<in> set rs" for q
  proof -
    have "journal_source r \<notin> journal_source ` set rs" "journal_target r \<notin> journal_target ` set rs"
      "journal_target r \<notin> journal_source ` set rs" "journal_source r \<notin> journal_target ` set rs"
      using Cons.prems by (auto simp: placeable_def)
    then show "journal_source q \<noteq> ?s" "journal_source q \<noteq> ?t" "journal_target q \<noteq> ?s" "journal_target q \<noteq> ?t"
      using that by (metis image_eqI)+
  qed
  then have "placeable rs ?fs" using Cons.prems by (auto simp: placeable_def)
  then have "each_record record_commit rs ?fs = (Inr (), placed rs ?fs)" by (rule Cons.IH)
  moreover have "placed rs ?fs = placed (r # rs) fs"
  proof
    fix p
    have "map_of (map (\<lambda>r. (journal_target r, journal_source r)) rs) p = Some s \<Longrightarrow> ?fs s = fs s" for s
      using ne by (auto dest!: map_of_SomeD) metis+
    moreover have "map_of (map (\<lambda>r. (journal_target r, journal_source r)) rs) ?t = None"
      using ne by (auto simp: map_of_eq_None_iff) metis
    moreover have "?t \<notin> journal_source ` set rs" "?s \<noteq> ?t"
      using ne Cons.prems by (auto simp: placeable_def)
    ultimately show "placed rs ?fs p = placed (r # rs) fs p"
      using x by (auto simp: placed_def split: option.splits)
  qed
  moreover have "record_commit r fs = (Inr (), ?fs)" using x by (simp add: record_commit_rename fs_rename_def)
  ultimately show ?case by (simp add: bindA_def)
qed

text \<open>The files after a rollback.\<close>

definition emplaced :: "journal_record list \<Rightarrow> string set" where
  "emplaced js = {j. \<exists>t. Emplace j t \<in> set js}"

definition unplaced :: "journal_record list \<Rightarrow> store \<Rightarrow> store" where
  "unplaced js fs p = (if p \<in> emplaced js then None else fs p)"

definition removable :: "journal_record list \<Rightarrow> store \<Rightarrow> bool" where
  "removable js fs \<longleftrightarrow> (\<forall>j x xs. j \<in> emplaced js \<longrightarrow> fs j \<noteq> Some (Folder (x # xs)))"

lemma each_record_rollback: "removable js fs \<Longrightarrow> each_record record_rollback js fs = (Inr (), unplaced js fs)"
proof (induction js arbitrary: fs)
  case Nil
  then show ?case by (simp add: returnA_def unplaced_def emplaced_def fun_eq_iff)
next
  case (Cons r rs)
  show ?case
  proof (cases r)
    case (Emplace j t)
    then have "fs_remove j fs = (Inr (), fs(j := None))"
      using Cons.prems by (auto simp: removable_def emplaced_def fs_remove_def split: option.splits fs_object.splits list.splits)
    moreover have "removable rs (fs(j := None))" using Cons.prems by (auto simp: removable_def emplaced_def)
    then have "each_record record_rollback rs (fs(j := None)) = (Inr (), unplaced rs (fs(j := None)))" by (rule Cons.IH)
    moreover have "unplaced rs (fs(j := None)) = unplaced (r # rs) fs" using Emplace by (auto simp: unplaced_def emplaced_def fun_eq_iff)
    ultimately show ?thesis using Emplace by (simp add: bindA_def)
  next
    case (Move s t)
    moreover have "emplaced (r # rs) = emplaced rs" using Move by (auto simp: emplaced_def)
    ultimately show ?thesis using Cons.IH [of fs] Cons.prems by (simp add: bindA_def returnA_def removable_def unplaced_def [abs_def])
  qed
qed

section \<open>The engine\<close>

text \<open>What is documented of a database engine: it keeps the saved contents and those of the transaction that is open.\<close>

definition engine_ok :: "'d engine \<Rightarrow> ('d \<Rightarrow> 'c) \<Rightarrow> ('d \<Rightarrow> 'c option) \<Rightarrow> bool" where
  "engine_ok en saved pending \<longleftrightarrow>
     (\<forall>d d'. en_begin en d = Inr d' \<longrightarrow> saved d' = saved d \<and> pending d' = Some (saved d))
     \<and> (\<forall>d d'. en_commit en d = Inr d' \<longrightarrow> Some (saved d') = pending d \<and> pending d' = None)
     \<and> (\<forall>d. pending d \<noteq> None \<longrightarrow> (\<exists>d'. en_rollback en d = Inr d' \<and> saved d' = saved d \<and> pending d' = None))
     \<and> (\<forall>d. pending d = None \<longrightarrow> (\<exists>m. en_rollback en d = Inl (Runtime_error m)))"

text \<open>A transaction under way in its repository.\<close>

definition under_way :: "('d \<Rightarrow> 'c option) \<Rightarrow> 'd repo \<Rightarrow> manager \<Rightarrow> bool" where
  "under_way pending r tm \<longleftrightarrow> \<not> tm_committed tm \<and> \<not> tm_dead tm \<and> rp_transactions r = 1 \<and> pending (rp_db r) \<noteq> None"

lemmas transaction_defs = bindA_def returnA_def throwA_def in_repo_def set_manager_def on_files_def on_db_def release_transaction_def
  begin_transaction_def commit_transaction_def abort_transaction_def

lemma lock_removed: "lock_kept tm r \<Longrightarrow> tm_magic tm \<noteq> [] \<Longrightarrow> fs_remove (tm_lockfile tm) (rp_files r) = (Inr (), (rp_files r)(tm_lockfile tm := None))"
  by (auto simp: lock_kept_def read_magic_def fs_remove_def split: option.splits fs_object.splits)

lemma lock_kept_files:
  "rp_files r (tm_lockfile tm) = rp_files s (tm_lockfile tm) \<Longrightarrow> lock_kept tm r \<longleftrightarrow> lock_kept tm s"
  by (simp add: lock_kept_def read_magic_def)

lemma manager_commit_ok:
  assumes u: "under_way pending r tm" and k: "lock_kept tm r" "tm_magic tm \<noteq> []" and p: "placeable (tm_journal tm) (rp_files r)"
    and l: "tm_lockfile tm \<notin> journal_source ` set (tm_journal tm)" "tm_lockfile tm \<notin> journal_target ` set (tm_journal tm)"
    and e: "en_commit en (rp_db r) = Inr d"
  shows "manager_commit en (r, tm) =
    (Inr (), (\<lparr>rp_files = (placed (tm_journal tm) (rp_files r))(tm_lockfile tm := None), rp_db = d, rp_transactions = 0\<rparr>,
       tm\<lparr>tm_committed := True\<rparr>))"
proof -
  have "map_of (map (\<lambda>r. (journal_target r, journal_source r)) (tm_journal tm)) (tm_lockfile tm) = None"
    using l(2) by (force simp: map_of_eq_None_iff)
  then have "placed (tm_journal tm) (rp_files r) (tm_lockfile tm) = rp_files r (tm_lockfile tm)" using l(1) by (simp add: placed_def)
  then have rl: "fs_remove (tm_lockfile tm) (placed (tm_journal tm) (rp_files r))
      = (Inr (), (placed (tm_journal tm) (rp_files r))(tm_lockfile tm := None))"
    "placed (tm_journal tm) (rp_files r) (tm_lockfile tm) \<noteq> None"
    using lock_removed [of tm "r\<lparr>rp_files := placed (tm_journal tm) (rp_files r)\<rparr>"] k
      lock_kept_files [of "r\<lparr>rp_files := placed (tm_journal tm) (rp_files r)\<rparr>" tm r]
    by (simp_all add: lock_kept_def)
  show ?thesis using u k(1) e each_record_commit [OF p] rl
    by (simp add: manager_commit_def transaction_defs under_way_def remove_lock_def)
qed

lemma manager_destroy_ok:
  assumes en: "engine_ok en saved pending" and u: "under_way pending r tm" and k: "lock_kept tm r" "tm_magic tm \<noteq> []"
    and p: "removable (tm_journal tm) (rp_files r)" and l: "tm_lockfile tm \<notin> emplaced (tm_journal tm)"
  shows "\<exists>d. manager_destroy en (r, tm) =
      (Inr (), (\<lparr>rp_files = (unplaced (tm_journal tm) (rp_files r))(tm_lockfile tm := None), rp_db = d, rp_transactions = 0\<rparr>,
        tm\<lparr>tm_dead := True\<rparr>))
    \<and> saved d = saved (rp_db r) \<and> pending d = None"
proof -
  obtain d where d: "en_rollback en (rp_db r) = Inr d" "saved d = saved (rp_db r)" "pending d = None"
    using en u unfolding engine_ok_def under_way_def by blast
  let ?fs = "unplaced (tm_journal tm) (rp_files r)"
  let ?r = "r\<lparr>rp_files := ?fs, rp_db := d, rp_transactions := 0\<rparr>"
  have "?fs (tm_lockfile tm) = rp_files r (tm_lockfile tm)" using l by (simp add: unplaced_def)
  then have kd: "lock_kept (tm\<lparr>tm_dead := True\<rparr>) ?r" "lock_kept tm ?r" using k by (simp_all add: lock_kept_def read_magic_def)
  have rl: "fs_remove (tm_lockfile tm) ?fs = (Inr (), ?fs(tm_lockfile tm := None))" "?fs (tm_lockfile tm) \<noteq> None"
    using lock_removed [OF kd(2) k(2)] kd(2) by (simp_all add: lock_kept_def)
  have "manager_destroy en (r, tm) = (Inr (), (?r\<lparr>rp_files := ?fs(tm_lockfile tm := None)\<rparr>, tm\<lparr>tm_dead := True\<rparr>))"
    using u d(1) each_record_rollback [OF p] rl kd
    by (simp add: manager_destroy_def manager_rollback_def transaction_defs under_way_def remove_lock_def catchA_def Let_def)
  then show ?thesis using d by (intro exI [of _ d]) (cases r, simp)
qed


section \<open>Whole transactions\<close>

text \<open>The state in which the work of a transaction starts when nobody interferes.\<close>

definition opened :: "string \<Rightarrow> string \<Rightarrow> 'd repo \<Rightarrow> 'd \<Rightarrow> 'd repo \<times> manager" where
  "opened p magic r d =
     (\<lparr>rp_files = make_lock p magic (rp_files r), rp_db = d, rp_transactions = 1\<rparr>,
      \<lparr>tm_lockfile = p, tm_magic = magic, tm_committed = False, tm_dead = False, tm_journal = []\<rparr>)"

definition quiet :: "nat \<Rightarrow> store \<Rightarrow> store" where
  "quiet k fs = fs"

lemma generate_manager_ok:
  assumes "rp_transactions r = 0" and "rp_files r p = None" and "en_begin en (rp_db r) = Inr d"
  shows "generate_manager en quiet p magic r = (Inr (snd (opened p magic r d)), fst (opened p magic r d))"
  using assms by (cases r) (simp add: generate_manager_def manager_open_def lockfile_attempts_def eval_nat_numeral quiet_def
      transaction_defs opened_def)

text \<open>Work that keeps to its transaction: it may write files and add to the journal, and the database stays in it.\<close>

definition working :: "('d \<Rightarrow> 'c) \<Rightarrow> ('d \<Rightarrow> 'c option) \<Rightarrow> 'd repo \<times> manager \<Rightarrow> 'd repo \<times> manager \<Rightarrow> bool" where
  "working saved pending s t \<longleftrightarrow> snd t = (snd s)\<lparr>tm_journal := tm_journal (snd t)\<rparr> \<and> rp_transactions (fst t) = rp_transactions (fst s)
     \<and> rp_files (fst t) (tm_lockfile (snd s)) = rp_files (fst s) (tm_lockfile (snd s)) \<and> saved (rp_db (fst t)) = saved (rp_db (fst s))
     \<and> pending (rp_db (fst t)) \<noteq> None \<and> tm_lockfile (snd s) \<notin> journal_source ` set (tm_journal (snd t))
     \<and> tm_lockfile (snd s) \<notin> journal_target ` set (tm_journal (snd t))"

lemma emplaced_sources: "emplaced js \<subseteq> journal_source ` set js"
  by (force simp: emplaced_def image_iff)

lemma working_facts:
  assumes "working saved pending (opened p magic r d) (r2, tm)" and "first_word magic = magic" and "magic \<noteq> []"
  shows "under_way pending r2 tm" "lock_kept tm r2" "tm_magic tm \<noteq> []" "tm_lockfile tm = p" "saved (rp_db r2) = saved d"
    "p \<notin> journal_source ` set (tm_journal tm)" "p \<notin> journal_target ` set (tm_journal tm)" "\<not> tm_committed tm" "\<not> tm_dead tm"
proof -
  obtain js where tm: "tm = \<lparr>tm_lockfile = p, tm_magic = magic, tm_committed = False, tm_dead = False, tm_journal = js\<rparr>"
    using assms(1) unfolding working_def opened_def by (metis fst_conv snd_conv manager.update_convs(5))
  then show "under_way pending r2 tm" "lock_kept tm r2" "tm_magic tm \<noteq> []" "tm_lockfile tm = p" "saved (rp_db r2) = saved d"
    "p \<notin> journal_source ` set (tm_journal tm)" "p \<notin> journal_target ` set (tm_journal tm)" "\<not> tm_committed tm" "\<not> tm_dead tm"
    using assms by (simp_all add: working_def opened_def under_way_def lock_kept_def read_magic_def make_lock_def)
qed

lemma refused_commit:
  assumes "under_way pending r tm" and "lock_kept tm r" and "placeable (tm_journal tm) (rp_files r)"
    and "en_commit en (rp_db r) = Inl e"
  shows "manager_commit en (r, tm) = (Inl e, (r\<lparr>rp_files := placed (tm_journal tm) (rp_files r)\<rparr>, tm))"
  using assms each_record_commit [OF assms(3)] by (simp add: manager_commit_def transaction_defs under_way_def)

lemma placed_emplaced:
  assumes "placeable js fs" and "j \<in> emplaced js"
  shows "placed js fs j = None"
proof -
  have j: "j \<in> journal_source ` set js" using assms(2) emplaced_sources by blast
  then have "j \<notin> journal_target ` set js" using assms(1) by (auto simp: placeable_def)
  then have "map_of (map (\<lambda>r. (journal_target r, journal_source r)) js) j = None" by (force simp: map_of_eq_None_iff)
  then show ?thesis using j by (simp add: placed_def)
qed

lemma placed_removable: "placeable js fs \<Longrightarrow> removable js (placed js fs)"
  by (simp add: removable_def placed_emplaced)

lemma with_transaction_unfold:
  assumes "rp_transactions r = 0" and "rp_files r p = None" and "en_begin en (rp_db r) = Inr d"
  shows "with_transaction en quiet p magic body r =
    (case bindA body (\<lambda>_. manager_commit en) (opened p magic r d) of
       (x, s) \<Rightarrow> (case manager_destroy en s of (Inl e, s') \<Rightarrow> (Inl e, fst s') | (Inr u, s') \<Rightarrow> (x, fst s')))"
  using generate_manager_ok [OF assms] by (simp add: with_transaction_def)


section \<open>An example\<close>

text \<open>A database with one number; the work writes a file, enters it into the journal and changes the number.\<close>

definition number_engine :: "bool \<Rightarrow> bool \<Rightarrow> (nat \<times> nat option) engine" where
  "number_engine starts commits =
     \<lparr>en_begin = (\<lambda>d. if starts then Inr (fst d, Some (fst d)) else Inl (Runtime_error ''busy'')),
      en_commit = (\<lambda>d. case snd d of None \<Rightarrow> Inl (Runtime_error ''no transaction'')
         | Some x \<Rightarrow> if commits then Inr (x, None) else Inl (Runtime_error ''busy'')),
      en_rollback = (\<lambda>d. if snd d = None then Inl (Runtime_error ''no transaction'') else Inr (fst d, None))\<rparr>"

definition number_repo :: "(nat \<times> nat option) repo" where
  "number_repo = \<lparr>rp_files = (\<lambda>p. None), rp_db = (7, None), rp_transactions = 0\<rparr>"

definition number_work :: "exn option \<Rightarrow> (nat \<times> nat option, unit) transaction" where
  "number_work e =
     bindA (in_repo (\<lambda>r. (Inr (), r\<lparr>rp_files := (rp_files r)(''new'' \<mapsto> Regular ''8''), rp_db := (fst (rp_db r), Some 8)\<rparr>)))
       (\<lambda>_. bindA (journal_deposit ''new'' ''record'') (\<lambda>_. checkA e))"

definition number_after :: "(nat \<times> nat option) repo" where
  "number_after = \<lparr>rp_files = [''lock'' \<mapsto> Regular ''T1'', ''new'' \<mapsto> Regular ''8''], rp_db = (7, Some 8), rp_transactions = 1\<rparr>"

definition number_manager :: manager where
  "number_manager =
     \<lparr>tm_lockfile = ''lock'', tm_magic = ''T1'', tm_committed = False, tm_dead = False, tm_journal = [Emplace ''new'' ''record'']\<rparr>"

lemma number_facts: "engine_ok (number_engine a b) fst snd" "rp_transactions number_repo = 0" "rp_files number_repo p = None"
    "first_word ''T1'' = ''T1''" "''T1'' \<noteq> []" "en_begin (number_engine True b) (rp_db number_repo) = Inr (7, Some 7)"
    "working fst snd (opened ''lock'' ''T1'' number_repo (7, Some 7)) (number_after, number_manager)"
    "placeable (tm_journal number_manager) (rp_files number_after)"
    "removable (tm_journal number_manager) (rp_files number_after)"
    "en_commit (number_engine a True) (rp_db number_after) = Inr (8, None)"
    "en_commit (number_engine a False) (rp_db number_after) = Inl (Runtime_error ''busy'')"
  by (auto simp: engine_ok_def number_engine_def number_repo_def first_word_def isspace_def working_def opened_def number_after_def
      number_manager_def make_lock_def placeable_def removable_def emplaced_def split: option.splits if_splits)

lemma number_work_result:
  "number_work e (opened ''lock'' ''T1'' number_repo (7, Some 7)) = ((case e of None \<Rightarrow> Inr () | Some x \<Rightarrow> Inl x), number_after, number_manager)"
  by (simp add: number_work_def transaction_defs opened_def number_repo_def number_after_def number_manager_def journal_deposit_def journal_add_def
      make_lock_def checkA_def split: option.splits)

section \<open>Properties\<close>

text \<open>C16: A transaction whose work succeeds puts every file of its journal in its place and the work into the database,
  removes its lock file, and lets the repository start another.\<close>

theorem transaction_commits:
  assumes "engine_ok en saved pending" and "rp_transactions r = 0" and "rp_files r p = None" and "en_begin en (rp_db r) = Inr d"
    and "first_word magic = magic" and "magic \<noteq> []"
    and "body (opened p magic r d) = (Inr (), (r2, tm))" and "working saved pending (opened p magic r d) (r2, tm)"
    and "placeable (tm_journal tm) (rp_files r2)" and "en_commit en (rp_db r2) = Inr d2"
  shows "\<exists>r'. with_transaction en quiet p magic body r = (Inr (), r')
    \<and> rp_files r' = (placed (tm_journal tm) (rp_files r2))(p := None)
    \<and> Some (saved (rp_db r')) = pending (rp_db r2) \<and> pending (rp_db r') = None \<and> rp_transactions r' = 0"
proof -
  note w = working_facts [OF assms(8,5,6)]
  have c: "manager_commit en (r2, tm) = (Inr (), (\<lparr>rp_files = (placed (tm_journal tm) (rp_files r2))(p := None), rp_db = d2,
      rp_transactions = 0\<rparr>, tm\<lparr>tm_committed := True\<rparr>))"
    using manager_commit_ok [OF w(1-3) assms(9) _ _ assms(10)] w(4,6,7) by simp
  have "Some (saved d2) = pending (rp_db r2)" "pending d2 = None" using assms(1,10) unfolding engine_ok_def by blast+
  then show ?thesis
    using assms(7) c unfolding with_transaction_unfold [OF assms(2-4)] by (simp add: bindA_def manager_destroy_def)
qed

theorem transaction_commits_witness:
  "\<exists>r'. with_transaction (number_engine True True) quiet ''lock'' ''T1'' (number_work None) number_repo = (Inr (), r')
    \<and> rp_files r' ''record'' = Some (Regular ''8'') \<and> rp_files r' ''new'' = None \<and> fst (rp_db r') = 8"
  using transaction_commits [of "number_engine True True" fst snd number_repo "''lock''" "(7, Some 7)" "''T1''" "number_work None",
      OF number_facts(1-3,6,4,5) number_work_result [of None, simplified] number_facts(7) number_facts(8,10)]
  by (auto simp: placed_def number_after_def number_manager_def)

text \<open>The work writes no file but those that its journal holds, and those are new.\<close>

definition confined :: "(string \<Rightarrow> 'f option) \<Rightarrow> string \<Rightarrow> string set \<Rightarrow> (string \<Rightarrow> 'f option) \<Rightarrow> bool" where
  "confined fs p js fs' \<longleftrightarrow> (\<forall>q. q \<noteq> p \<longrightarrow> q \<notin> js \<longrightarrow> fs' q = fs q) \<and> (\<forall>q \<in> js. fs q = None)"

lemma confined_undone:
  assumes "confined fs p (emplaced js) fs'" and "fs p = None"
  shows "(unplaced js fs')(p := None) = fs"
  using assms by (auto simp: confined_def unplaced_def fun_eq_iff)

text \<open>C17: When the work of a transaction throws, everything is as it was before the transaction. Suppose that the work itself wrote
  no file but those it put in its journal, that these did not exist before, and that no one holds the lock. Then the exception
  passes on, every file is what it was before the transaction, the journalled ones and the lock are gone,
  the database has its old contents with nothing pending, and the repository may start another transaction.\<close>

theorem transaction_undone:
  assumes "engine_ok en saved pending" and "rp_transactions r = 0" and "rp_files r p = None" and "en_begin en (rp_db r) = Inr d"
    and "first_word magic = magic" and "magic \<noteq> []"
    and "body (opened p magic r d) = (Inl e, (r2, tm))" and "working saved pending (opened p magic r d) (r2, tm)"
    and "removable (tm_journal tm) (rp_files r2)" and "confined (rp_files r) p (emplaced (tm_journal tm)) (rp_files r2)"
  shows "\<exists>r'. with_transaction en quiet p magic body r = (Inl e, r') \<and> rp_files r' = rp_files r
    \<and> saved (rp_db r') = saved (rp_db r) \<and> pending (rp_db r') = None \<and> rp_transactions r' = 0"
proof -
  note w = working_facts [OF assms(8,5,6)]
  have "tm_lockfile tm \<notin> emplaced (tm_journal tm)" using w(4,6) emplaced_sources by blast
  from manager_destroy_ok [OF assms(1) w(1-3) assms(9) this] obtain d' where d': "manager_destroy en (r2, tm) =
      (Inr (), (\<lparr>rp_files = (unplaced (tm_journal tm) (rp_files r2))(p := None), rp_db = d', rp_transactions = 0\<rparr>,
        tm\<lparr>tm_dead := True\<rparr>))" "saved d' = saved (rp_db r2)" "pending d' = None" unfolding w(4) by blast
  have "saved d = saved (rp_db r)" using assms(1,4) unfolding engine_ok_def by blast
  then show ?thesis
    using assms(7) d' w(5) confined_undone [OF assms(10,3)]
    unfolding with_transaction_unfold [OF assms(2-4)] by (simp add: bindA_def)
qed

theorem transaction_undone_witness:
  "\<exists>r'. with_transaction (number_engine True True) quiet ''lock'' ''T1'' (number_work (Some Undefined)) number_repo = (Inl Undefined, r')
    \<and> rp_files r' = (\<lambda>p. None) \<and> fst (rp_db r') = 7"
proof -
  have "confined (rp_files number_repo) ''lock'' (emplaced (tm_journal number_manager)) (rp_files number_after)"
    by (auto simp: confined_def number_repo_def number_after_def number_manager_def emplaced_def)
  from transaction_undone [of "number_engine True True" fst snd number_repo "''lock''" "(7, Some 7)" "''T1''" "number_work (Some Undefined)",
      OF number_facts(1-3,6,4,5) number_work_result [of "Some Undefined", simplified] number_facts(7) number_facts(9) this]
  show ?thesis by (auto simp: number_repo_def)
qed

text \<open>C20: The files of the journal are placed before the database commits. When the database then refuses, the transaction
  throws, the database has its old contents, and the files are the new ones.\<close>

theorem refused_commit_keeps_files:
  assumes "engine_ok en saved pending" and "rp_transactions r = 0" and "rp_files r p = None" and "en_begin en (rp_db r) = Inr d"
    and "first_word magic = magic" and "magic \<noteq> []"
    and "body (opened p magic r d) = (Inr (), (r2, tm))" and "working saved pending (opened p magic r d) (r2, tm)"
    and "placeable (tm_journal tm) (rp_files r2)" and "en_commit en (rp_db r2) = Inl e"
  shows "\<exists>r'. with_transaction en quiet p magic body r = (Inl e, r') \<and> saved (rp_db r') = saved (rp_db r)
    \<and> (\<forall>q. q \<noteq> p \<longrightarrow> rp_files r' q = placed (tm_journal tm) (rp_files r2) q)"
proof -
  note w = working_facts [OF assms(8,5,6)]
  let ?r = "r2\<lparr>rp_files := placed (tm_journal tm) (rp_files r2)\<rparr>"
  have c: "manager_commit en (r2, tm) = (Inl e, (?r, tm))" using refused_commit [OF w(1,2) assms(9,10)] .
  have "map_of (map (\<lambda>r. (journal_target r, journal_source r)) (tm_journal tm)) p = None" using w(7) by (force simp: map_of_eq_None_iff)
  then have k: "lock_kept tm ?r" using w(2,4,6) by (simp add: lock_kept_def read_magic_def placed_def)
  have u: "under_way pending ?r tm" using w(1) by (simp add: under_way_def)
  have "tm_lockfile tm \<notin> emplaced (tm_journal tm)" using w(4,6) emplaced_sources by blast
  from manager_destroy_ok [OF assms(1) u k w(3) _ this] placed_removable [OF assms(9)]
  obtain d' where d': "manager_destroy en (?r, tm) =
      (Inr (), (\<lparr>rp_files = (unplaced (tm_journal tm) (rp_files ?r))(p := None), rp_db = d', rp_transactions = 0\<rparr>,
        tm\<lparr>tm_dead := True\<rparr>))" "saved d' = saved (rp_db r2)" unfolding w(4) by auto
  have un: "unplaced (tm_journal tm) (placed (tm_journal tm) (rp_files r2)) = placed (tm_journal tm) (rp_files r2)"
  proof
    fix q
    show "unplaced (tm_journal tm) (placed (tm_journal tm) (rp_files r2)) q = placed (tm_journal tm) (rp_files r2) q"
      using placed_emplaced [OF assms(9), of q] by (simp add: unplaced_def)
  qed
  have "saved d = saved (rp_db r)" using assms(1,4) unfolding engine_ok_def by blast
  then show ?thesis
    using assms(7) c d' w(5) un unfolding with_transaction_unfold [OF assms(2-4)] by (simp add: bindA_def)
qed

theorem refused_commit_keeps_files_witness:
  "\<exists>r' e. with_transaction (number_engine True False) quiet ''lock'' ''T1'' (number_work None) number_repo = (Inl e, r')
    \<and> rp_files r' ''record'' = Some (Regular ''8'') \<and> fst (rp_db r') = 7"
  using refused_commit_keeps_files [of "number_engine True False" fst snd number_repo "''lock''" "(7, Some 7)" "''T1''" "number_work None",
      OF number_facts(1-3,6,4,5) number_work_result [of None, simplified] number_facts(7) number_facts(8,11)]
  by (auto simp: placed_def number_repo_def number_after_def number_manager_def)

text \<open>When the database refuses to begin a transaction, the lock file and the count of transactions stay: the repository
  refuses every later transaction, and so does every other process, after its attempts.\<close>

theorem failed_begin_blocks:
  assumes "rp_transactions r = 0" and "rp_files r p = None" and "en_begin en (rp_db r) = Inl e"
  shows "\<exists>r'. with_transaction en quiet p magic body r = (Inl e, r')
    \<and> with_transaction en quiet p magic' body' r' = (Inl (Runtime_error ''CPPTRANSPORT_TRANSACTION_UNDERWAY''), r')
    \<and> fst (with_transaction en' quiet p magic' body' (r'\<lparr>rp_transactions := 0\<rparr>))
        = Inl (Runtime_error ''CPPTRANSPORT_TRANSACTION_NO_LOCK'')"
proof -
  have "fst (await_lock quiet p n fs) = False" if "fs p \<noteq> None" for n fs using that by (induction n) (simp_all add: quiet_def)
  then have "\<exists>fs'. await_lock quiet p n fs = (False, fs')" if "fs p \<noteq> None" for n fs using that by (metis prod.collapse)
  then obtain fs' where fs': "await_lock quiet p lockfile_attempts (make_lock p magic (rp_files r)) = (False, fs')"
    by (force simp: make_lock_def)
  moreover have "await_lock quiet p lockfile_attempts (rp_files r) = (True, rp_files r)"
    using assms(2) by (simp add: lockfile_attempts_def eval_nat_numeral quiet_def)
  ultimately show ?thesis using assms
    by (simp add: with_transaction_def generate_manager_def manager_open_def begin_transaction_def on_db_def bindA_def)
qed

theorem failed_begin_blocks_witness:
  "\<exists>r'. with_transaction (number_engine False True) quiet ''lock'' ''T1'' (number_work None) number_repo
      = (Inl (Runtime_error ''busy''), r')
    \<and> fst (with_transaction (number_engine True True) quiet ''lock'' ''T2'' (number_work None) (r'\<lparr>rp_transactions := 0\<rparr>))
      = Inl (Runtime_error ''CPPTRANSPORT_TRANSACTION_NO_LOCK'')"
proof -
  have "en_begin (number_engine False True) (rp_db number_repo) = Inl (Runtime_error ''busy'')" by (simp add: number_engine_def)
  from failed_begin_blocks [OF number_facts(2,3) this] show ?thesis by blast
qed

text \<open>C21: Two processes that look for the lock file before either makes it, and make it in the same second, can both
  be inside their transactions and hold the lock.\<close>

theorem two_hold_the_lock:
  "\<exists>s tm0 tm1. (process_step ''lock'' (\<lambda>t. ''20200101T000000''))\<^sup>*\<^sup>* idle_system s
    \<and> sy_phase s 0 = Inside tm0 \<and> sy_phase s 1 = Inside tm1 \<and> holds_lock s tm0 \<and> holds_lock s tm1"
proof -
  let ?p = "''lock''" and ?m = "''20200101T000000''"
  let ?R = "process_step ?p (\<lambda>t. ?m)"
  let ?tm = "\<lparr>tm_lockfile = ?p, tm_magic = ?m, tm_committed = False, tm_dead = False, tm_journal = []\<rparr>"
  let ?s = "\<lambda>fs a b. \<lparr>sy_files = fs, sy_phase = (\<lambda>i. Outside)(0 := a, Suc 0 := b)\<rparr>"
  let ?f = "make_lock ?p ?m (\<lambda>p. None)"
  have step: "?R\<^sup>*\<^sup>* s t \<Longrightarrow> ?R t u \<Longrightarrow> ?R\<^sup>*\<^sup>* s u" for s t u by (rule rtranclp.rtrancl_into_rtrancl)
  have 0: "?R\<^sup>*\<^sup>* idle_system (?s (\<lambda>p. None) Outside Outside)" by (simp add: idle_system_def fun_upd_idem)
  have a0: "enter_phase 0 x (?s fs a b) = ?s fs x b" "enter_phase (Suc 0) x (?s fs a b) = ?s fs a x" for x fs a b
    by (simp_all add: enter_phase_def fun_upd_twist)
  note step1 = step [OF 0 process_step.enter [of _ 0], unfolded a0]
  have 1: "?R\<^sup>*\<^sup>* idle_system (?s (\<lambda>p. None) (Looking lockfile_attempts) Outside)" by (rule step1) simp
  have 2: "?R\<^sup>*\<^sup>* idle_system (?s (\<lambda>p. None) (Looking lockfile_attempts) (Looking lockfile_attempts))"
    by (rule step [OF 1 process_step.enter [of _ "Suc 0"], unfolded a0]) simp
  have at: "lockfile_attempts = Suc 49" by (simp add: lockfile_attempts_def)
  have 3: "?R\<^sup>*\<^sup>* idle_system (?s (\<lambda>p. None) Cleared (Looking lockfile_attempts))"
    by (rule step [OF 2 process_step.clear [of _ 0 49], unfolded a0]) (simp_all add: at)
  have 4: "?R\<^sup>*\<^sup>* idle_system (?s (\<lambda>p. None) Cleared Cleared)"
    by (rule step [OF 3 process_step.clear [of _ "Suc 0" 49], unfolded a0]) (simp_all add: at)
  have "?R (?s (\<lambda>p. None) Cleared Cleared) (?s ?f (Inside ?tm) Cleared)"
    using process_step.make [of "?s (\<lambda>p. None) Cleared Cleared" 0 ?p "\<lambda>t. ?m" 0] a0(1) [of "Inside ?tm" ?f Cleared Cleared] by simp
  with 4 have 5: "?R\<^sup>*\<^sup>* idle_system (?s ?f (Inside ?tm) Cleared)" by (rule step)
  have "make_lock ?p ?m ?f = ?f" by (simp add: make_lock_def)
  then have "?R (?s ?f (Inside ?tm) Cleared) (?s ?f (Inside ?tm) (Inside ?tm))"
    using process_step.make [of "?s ?f (Inside ?tm) Cleared" "Suc 0" ?p "\<lambda>t. ?m" 0] a0(2) [of "Inside ?tm" ?f "Inside ?tm" Cleared] by simp
  with 5 have "?R\<^sup>*\<^sup>* idle_system (?s ?f (Inside ?tm) (Inside ?tm))" by (rule step)
  moreover have "holds_lock (?s ?f (Inside ?tm) (Inside ?tm)) ?tm"
    by (simp add: holds_lock_def make_lock_def read_magic_def first_word_def isspace_def)
  ultimately show ?thesis by (intro exI [of _ "?s ?f (Inside ?tm) (Inside ?tm)"] exI [of _ ?tm]) simp
qed

end
