(* ===== verification/Line_Cache.thy ===== *)
theory Line_Cache
  imports Complex_Main Transport_Prelude
begin

text \<open>
  The cache of data lines of a data pipe (\<open>utilities/linecache.h\<close>): a table for every file, in it a group for every
  query, in it a hash table of lines. Addresses stand for the nodes of the lists. Tags and queries with their operations
  are arguments, as are the times of the accesses; a line is pulled from the database that is attached to the pipe, the one
  of the file. Left out: the copies of a cache and the log.
\<close>

section \<open>State\<close>

text \<open>The hash of a tag, the size of the hash table, the size in bytes of a container, equality of tags and of queries, and
  the query of the database.\<close>

record ('q, 't, 'v) line_ops =
  lo_hash :: "'t \<Rightarrow> nat"
  lo_lines :: nat
  lo_size :: "'v \<Rightarrow> u32"
  lo_same_tag :: "'t \<Rightarrow> 't \<Rightarrow> bool"
  lo_match :: "'q \<Rightarrow> 'q \<Rightarrow> bool"
  lo_pull :: "string \<Rightarrow> 'q \<Rightarrow> 't \<Rightarrow> exn + 'v"

record ('t, 'v) data_item =
  di_address :: nat
  di_tag :: 't
  di_data :: 'v
  di_access :: nat
  di_locked :: bool

record ('q, 't, 'v) serial_group =
  sg_query :: 'q
  sg_lines :: "('t, 'v) data_item list list"

record ('q, 't, 'v) cache_table =
  tb_file :: string
  tb_groups :: "('q, 't, 'v) serial_group list"

record ('q, 't, 'v) line_cache =
  ca_capacity :: u32
  ca_size :: u32
  ca_hits :: u32
  ca_unloads :: u32
  ca_tables :: "('q, 't, 'v) cache_table list"
  ca_next :: nat

definition cache_new :: "u32 \<Rightarrow> ('q, 't, 'v) line_cache" where
  "cache_new cap = \<lparr>ca_capacity = cap, ca_size = 0, ca_hits = 0, ca_unloads = 0, ca_tables = [], ca_next = 0\<rparr>"

definition table_new :: "string \<Rightarrow> ('q, 't, 'v) cache_table" where
  "table_new f = \<lparr>tb_file = f, tb_groups = []\<rparr>"

definition group_new :: "('q, 't, 'v) line_ops \<Rightarrow> 'q \<Rightarrow> ('q, 't, 'v) serial_group" where
  "group_new ops q = \<lparr>sg_query = q, sg_lines = replicate (lo_lines ops) []\<rparr>"

text \<open>A handle is a reference to the first table of its file, or group of its query.\<close>

fun at_first :: "('a \<Rightarrow> bool) \<Rightarrow> ('a \<Rightarrow> 'a) \<Rightarrow> 'a list \<Rightarrow> 'a list" where
  "at_first P f [] = []"
| "at_first P f (x # xs) = (if P x then f x # xs else x # at_first P f xs)"

definition get_table_handle :: "string \<Rightarrow> ('q, 't, 'v) cache_table list \<Rightarrow> ('q, 't, 'v) cache_table list" where
  "get_table_handle f ts = (if \<exists>t \<in> set ts. tb_file t = f then ts else table_new f # ts)"

definition get_serial_handle :: "('q, 't, 'v) line_ops \<Rightarrow> 'q \<Rightarrow> ('q, 't, 'v) serial_group list \<Rightarrow> ('q, 't, 'v) serial_group list" where
  "get_serial_handle ops q gs = (if \<exists>g \<in> set gs. lo_match ops (sg_query g) q then gs else group_new ops q # gs)"

definition at_group :: "('q, 't, 'v) line_ops \<Rightarrow> string \<Rightarrow> 'q \<Rightarrow> (('q, 't, 'v) serial_group \<Rightarrow> ('q, 't, 'v) serial_group)
    \<Rightarrow> ('q, 't, 'v) cache_table list \<Rightarrow> ('q, 't, 'v) cache_table list" where
  "at_group ops f q h = at_first (\<lambda>t. tb_file t = f)
     (\<lambda>t. t\<lparr>tb_groups := at_first (\<lambda>g. lo_match ops (sg_query g) q) h (tb_groups t)\<rparr>)"

definition find_group :: "('q, 't, 'v) line_ops \<Rightarrow> string \<Rightarrow> 'q \<Rightarrow> ('q, 't, 'v) cache_table list \<Rightarrow> ('q, 't, 'v) serial_group option" where
  "find_group ops f q ts =
     Option.bind (find (\<lambda>t. tb_file t = f) ts) (\<lambda>t. find (\<lambda>g. lo_match ops (sg_query g) q) (tb_groups t))"

section \<open>Eviction\<close>

definition map_lines :: "(('t, 'v) data_item list \<Rightarrow> ('t, 'v) data_item list) \<Rightarrow> ('q, 't, 'v) cache_table list \<Rightarrow> ('q, 't, 'v) cache_table list" where
  "map_lines h = map (\<lambda>t. t\<lparr>tb_groups := map (\<lambda>g. g\<lparr>sg_lines := map h (sg_lines g)\<rparr>) (tb_groups t)\<rparr>)"

definition erase_item :: "nat \<Rightarrow> ('q, 't, 'v) cache_table list \<Rightarrow> ('q, 't, 'v) cache_table list" where
  "erase_item a = map_lines (filter (\<lambda>x. di_address x \<noteq> a))"

definition group_items :: "('q, 't, 'v) serial_group \<Rightarrow> ('t, 'v) data_item list" where
  "group_items g = concat (sg_lines g)"

definition table_items :: "('q, 't, 'v) cache_table \<Rightarrow> ('t, 'v) data_item list" where
  "table_items t = concat (map group_items (tb_groups t))"

text \<open>Every item is pushed to the front of the list.\<close>

definition gather_data_items :: "('q, 't, 'v) cache_table list \<Rightarrow> ('t, 'v) data_item list" where
  "gather_data_items ts = rev (concat (map table_items ts))"

text \<open>The sort is stable, and the comparison puts later accesses first.\<close>

definition clean_up_list :: "('q, 't, 'v) cache_table list \<Rightarrow> ('t, 'v) data_item list" where
  "clean_up_list ts = sort_key (\<lambda>x. - int (di_access x)) (gather_data_items ts)"

text \<open>Arithmetic on \<open>int\<close> that leaves its range is undefined.\<close>

definition int32 :: "int \<Rightarrow> exn + int" where
  "int32 i = (if - (2 ^ 31) \<le> i \<and> i < 2 ^ 31 then Inr i else Inl Undefined)"

definition target_size :: "u32 \<Rightarrow> u32 \<Rightarrow> exn + u32" where
  "target_size capacity bytes =
     bindE (int32 (10 * sint bytes)) (\<lambda>s. bindE (int32 (sint capacity - s)) (\<lambda>d. Inr (of_int (max d 0))))"

fun evict :: "('q, 't, 'v) line_ops \<Rightarrow> u32 \<Rightarrow> ('t, 'v) data_item list \<Rightarrow> ('q, 't, 'v) line_cache \<Rightarrow> ('q, 't, 'v) line_cache" where
  "evict ops target [] c = c"
| "evict ops target (x # xs) c =
     (if target < ca_size c
      then evict ops target xs
        (if di_locked x then c
         else c\<lparr>ca_size := ca_size c - lo_size ops (di_data x), ca_tables := erase_item (di_address x) (ca_tables c),
                ca_unloads := ca_unloads c + 1\<rparr>)
      else c)"

definition advise_size_increase :: "('q, 't, 'v) line_ops \<Rightarrow> u32 \<Rightarrow> (('q, 't, 'v) line_cache, unit) act" where
  "advise_size_increase ops bytes c =
     (let c1 = c\<lparr>ca_size := ca_size c + bytes\<rparr> in
      if ca_capacity c1 < ca_size c1
      then (case target_size (ca_capacity c1) (ca_size c1) of
              Inl e \<Rightarrow> (Inl e, c1)
            | Inr target \<Rightarrow> (Inr (), evict ops target (clean_up_list (ca_tables c1)) c1))
      else (Inr (), c1))"

section \<open>Lookup\<close>

definition item_new :: "nat \<Rightarrow> 't \<Rightarrow> 'v \<Rightarrow> nat \<Rightarrow> ('t, 'v) data_item" where
  "item_new a t v now = \<lparr>di_address = a, di_tag = t, di_data = v, di_access = now, di_locked = True\<rparr>"

definition push_item :: "('q, 't, 'v) line_ops \<Rightarrow> string \<Rightarrow> 'q \<Rightarrow> ('t, 'v) data_item \<Rightarrow> ('q, 't, 'v) cache_table list \<Rightarrow> ('q, 't, 'v) cache_table list" where
  "push_item ops f q x =
     (let h = lo_hash ops (di_tag x) in at_group ops f q (\<lambda>g. g\<lparr>sg_lines := (sg_lines g)[h := x # sg_lines g ! h]\<rparr>))"

text \<open>The item is unlocked, and handing out its data is an access.\<close>

definition hand_out :: "nat \<Rightarrow> nat \<Rightarrow> ('q, 't, 'v) line_cache \<Rightarrow> ('q, 't, 'v) line_cache" where
  "hand_out a now c =
     c\<lparr>ca_tables := map_lines (map (\<lambda>x. if di_address x = a then x\<lparr>di_locked := False, di_access := now\<rparr> else x)) (ca_tables c)\<rparr>"

definition load_line :: "('q, 't, 'v) line_ops \<Rightarrow> string \<Rightarrow> 'q \<Rightarrow> 't \<Rightarrow> 'v \<Rightarrow> nat \<Rightarrow> nat \<Rightarrow> (('q, 't, 'v) line_cache, 'v) act" where
  "load_line ops f q t v now now' c =
     (let a = ca_next c;
          c1 = c\<lparr>ca_tables := push_item ops f q (item_new a t v now) (ca_tables c), ca_next := Suc a\<rparr>
      in case advise_size_increase ops (lo_size ops v) c1 of
           (Inl e, c2) \<Rightarrow> (Inl e, c2)
         | (Inr u, c2) \<Rightarrow> (Inr v, hand_out a now' c2))"

definition lookup_tag :: "('q, 't, 'v) line_ops \<Rightarrow> string \<Rightarrow> 'q \<Rightarrow> 't \<Rightarrow> nat \<Rightarrow> nat \<Rightarrow> (('q, 't, 'v) line_cache, 'v) act" where
  "lookup_tag ops f q t now now' c =
     (case find_group ops f q (ca_tables c) of
        None \<Rightarrow> (Inl Undefined, c)
      | Some g \<Rightarrow>
          (if lo_lines ops \<le> lo_hash ops t then (Inl Undefined, c)
           else (case find (\<lambda>x. lo_same_tag ops (di_tag x) t) (sg_lines g ! lo_hash ops t) of
                   Some x \<Rightarrow> (Inr (di_data x), hand_out (di_address x) now' (c\<lparr>ca_hits := ca_hits c + 1\<rparr>))
                 | None \<Rightarrow> (case lo_pull ops f (sg_query g) t of
                       Inl e \<Rightarrow> (Inl e, c)
                     | Inr v \<Rightarrow> load_line ops f q t v now now' c))))"

text \<open>A request as a pipe makes it: the handles of the file and the query, then the tag.\<close>

definition open_handles :: "('q, 't, 'v) line_ops \<Rightarrow> string \<Rightarrow> 'q \<Rightarrow> ('q, 't, 'v) line_cache \<Rightarrow> ('q, 't, 'v) line_cache" where
  "open_handles ops f q c =
     c\<lparr>ca_tables := at_first (\<lambda>t. tb_file t = f) (\<lambda>t. t\<lparr>tb_groups := get_serial_handle ops q (tb_groups t)\<rparr>)
         (get_table_handle f (ca_tables c))\<rparr>"

definition request :: "('q, 't, 'v) line_ops \<Rightarrow> string \<times> 'q \<times> 't \<Rightarrow> nat \<Rightarrow> nat \<Rightarrow> (('q, 't, 'v) line_cache, 'v) act" where
  "request ops r now now' c = (case r of (f, q, t) \<Rightarrow> lookup_tag ops f q t now now' (open_handles ops f q c))"

fun requests :: "('q, 't, 'v) line_ops \<Rightarrow> ((string \<times> 'q \<times> 't) \<times> nat \<times> nat) list \<Rightarrow> ('q, 't, 'v) line_cache
    \<Rightarrow> (exn + 'v) list \<times> ('q, 't, 'v) line_cache" where
  "requests ops [] c = ([], c)"
| "requests ops ((r, now, now') # rs) c =
     (case request ops r now now' c of (x, c1) \<Rightarrow> (case requests ops rs c1 of (xs, c2) \<Rightarrow> (x # xs, c2)))"

end
