(* ===== verification/Line_Cache_Facts.thy ===== *)
theory Line_Cache_Facts
  imports Line_Cache "HOL-Library.Multiset"
begin

text \<open>
  The cache is transparent: a request is answered as if the database had been asked. Its size is that of the lines it holds.
  An eviction, though, keeps nothing but the line that was just loaded, and for the capacity of the default settings its
  arithmetic leaves the range of an \<open>int\<close>.
\<close>

section \<open>Lists\<close>

lemma at_first_in: "y \<in> set (at_first P f xs) \<Longrightarrow> y \<in> set xs \<or> (\<exists>x. find P xs = Some x \<and> y = f x)"
  by (induction xs) (auto split: if_splits)

lemma find_at_first: "find P xs = Some x \<Longrightarrow> P (f x) \<Longrightarrow> find P (at_first P f xs) = Some (f x)"
  by (induction xs) (auto split: if_splits)

lemma find_in: "find P xs = Some x \<Longrightarrow> x \<in> set xs \<and> P x"
  by (induction xs) (auto split: if_splits)

lemma find_ex: "x \<in> set xs \<Longrightarrow> P x \<Longrightarrow> \<exists>y. find P xs = Some y"
  by (induction xs) auto

lemma at_first_items:
  "find P xs = Some x \<Longrightarrow>
     mset (concat (map k (at_first P f xs))) + mset (k x) = mset (concat (map k xs)) + mset (k (f x))"
  by (induction xs) (auto split: if_splits simp: ac_simps)

section \<open>Coherence\<close>

text \<open>Every line is one that the database gives, and stands where its hash puts it.\<close>

definition group_ok :: "('q, 't, 'v) line_ops \<Rightarrow> string \<Rightarrow> ('q, 't, 'v) serial_group \<Rightarrow> bool" where
  "group_ok ops f g \<longleftrightarrow> length (sg_lines g) = lo_lines ops
     \<and> (\<forall>x \<in> set (group_items g). lo_pull ops f (sg_query g) (di_tag x) = Inr (di_data x))"

definition coherent :: "('q, 't, 'v) line_ops \<Rightarrow> ('q, 't, 'v) cache_table list \<Rightarrow> bool" where
  "coherent ops ts \<longleftrightarrow> (\<forall>t \<in> set ts. \<forall>g \<in> set (tb_groups t). group_ok ops (tb_file t) g)"

lemma coherent_map_lines:
  assumes "\<And>l y. y \<in> set (h l) \<Longrightarrow> \<exists>x \<in> set l. di_tag y = di_tag x \<and> di_data y = di_data x" and "coherent ops ts"
  shows "coherent ops (map_lines h ts)"
proof -
  have "group_ok ops f (g\<lparr>sg_lines := map h (sg_lines g)\<rparr>)" if "group_ok ops f g" for f g
    using that assms(1) by (fastforce simp: group_ok_def group_items_def)
  then show ?thesis using assms(2) by (auto simp: coherent_def map_lines_def)
qed

lemma coherent_erase: "coherent ops ts \<Longrightarrow> coherent ops (erase_item a ts)"
  unfolding erase_item_def by (rule coherent_map_lines) auto

lemma coherent_hand_out: "coherent ops (ca_tables c) \<Longrightarrow> coherent ops (ca_tables (hand_out a now c))"
  unfolding hand_out_def by simp (rule coherent_map_lines, auto)

lemma coherent_evict: "coherent ops (ca_tables c) \<Longrightarrow> coherent ops (ca_tables (evict ops target xs c))"
  by (induction ops target xs c rule: evict.induct) (auto simp: coherent_erase)

lemma coherent_advise: "coherent ops (ca_tables c) \<Longrightarrow> advise_size_increase ops b c = (r, d) \<Longrightarrow> coherent ops (ca_tables d)"
  by (auto simp: advise_size_increase_def Let_def coherent_evict split: if_splits sum.splits)

lemma find_group_parts:
  assumes "find_group ops f q ts = Some g"
  obtains t where "find (\<lambda>t. tb_file t = f) ts = Some t" "find (\<lambda>g. lo_match ops (sg_query g) q) (tb_groups t) = Some g"
    "t \<in> set ts" "tb_file t = f" "g \<in> set (tb_groups t)" "lo_match ops (sg_query g) q"
  using assms unfolding find_group_def by (auto simp: bind_eq_Some_conv dest: find_in)

lemma coherent_at_group:
  assumes c: "coherent ops ts" and g: "find_group ops f q ts = Some g" and h: "group_ok ops f (h g)"
  shows "coherent ops (at_group ops f q h ts)"
proof -
  from g obtain t where t: "find (\<lambda>t. tb_file t = f) ts = Some t" "find (\<lambda>g. lo_match ops (sg_query g) q) (tb_groups t) = Some g"
    "t \<in> set ts" "tb_file t = f" by (rule find_group_parts)
  let ?t = "t\<lparr>tb_groups := at_first (\<lambda>g. lo_match ops (sg_query g) q) h (tb_groups t)\<rparr>"
  have "group_ok ops (tb_file ?t) x" if "x \<in> set (tb_groups ?t)" for x
  proof -
    have "x \<in> set (at_first (\<lambda>g. lo_match ops (sg_query g) q) h (tb_groups t))" using that by simp
    from at_first_in [OF this] have "x \<in> set (tb_groups t) \<or> x = h g" using t(2) by auto
    then show ?thesis using c t(3,4) h by (auto simp: coherent_def)
  qed
  moreover have "x \<in> set ts \<or> x = ?t" if "x \<in> set (at_group ops f q h ts)" for x
    using at_first_in [OF that [unfolded at_group_def]] t(1) by auto
  ultimately show ?thesis using c unfolding coherent_def by blast
qed

lemma group_ok_push:
  assumes "group_ok ops f g" and "lo_pull ops f (sg_query g) (di_tag x) = Inr (di_data x)" and "h < lo_lines ops"
  shows "group_ok ops f (g\<lparr>sg_lines := (sg_lines g)[h := x # sg_lines g ! h]\<rparr>)"
proof -
  have "set (concat ((sg_lines g)[h := x # sg_lines g ! h])) \<subseteq> insert x (set (group_items g))"
    using assms(1,3) set_update_subset_insert [of "sg_lines g" h "x # sg_lines g ! h"] nth_mem [of h "sg_lines g"]
    by (auto simp: group_items_def group_ok_def)
  then show ?thesis using assms by (auto simp: group_ok_def group_items_def)
qed

section \<open>Handles\<close>

lemma open_handles_found:
  assumes "\<And>q. lo_match ops q q"
  shows "\<exists>g. find_group ops f q (ca_tables (open_handles ops f q c)) = Some g"
proof -
  have "\<exists>t \<in> set (get_table_handle f (ca_tables c)). tb_file t = f" by (auto simp: get_table_handle_def table_new_def)
  then obtain t where t: "find (\<lambda>t. tb_file t = f) (get_table_handle f (ca_tables c)) = Some t"
    using find_ex [of _ "get_table_handle f (ca_tables c)" "\<lambda>t. tb_file t = f"] by blast
  have "\<exists>g \<in> set (get_serial_handle ops q (tb_groups t)). lo_match ops (sg_query g) q"
    using assms by (auto simp: get_serial_handle_def group_new_def)
  then obtain g where g: "find (\<lambda>g. lo_match ops (sg_query g) q) (get_serial_handle ops q (tb_groups t)) = Some g"
    using find_ex [of _ "get_serial_handle ops q (tb_groups t)" "\<lambda>g. lo_match ops (sg_query g) q"] by blast
  have "tb_file t = f" using find_in [OF t] by simp
  then show ?thesis using find_at_first [OF t, of "\<lambda>t. t\<lparr>tb_groups := get_serial_handle ops q (tb_groups t)\<rparr>"] g
    by (simp add: find_group_def open_handles_def)
qed

lemma items_handles: "concat (map table_items (ca_tables (open_handles ops f q c))) = concat (map table_items (ca_tables c))"
proof -
  have "group_items (group_new ops q) = []" by (simp add: group_items_def group_new_def concat_replicate_trivial)
  then have "table_items (t\<lparr>tb_groups := get_serial_handle ops q (tb_groups t)\<rparr>) = table_items t" for t
    by (simp add: table_items_def get_serial_handle_def)
  then have "concat (map table_items (at_first P (\<lambda>t. t\<lparr>tb_groups := get_serial_handle ops q (tb_groups t)\<rparr>) ts)) = concat (map table_items ts)" for P ts
    by (induction ts) auto
  then show ?thesis by (simp add: open_handles_def get_table_handle_def table_new_def table_items_def)
qed

lemma coherent_handles: "coherent ops (ca_tables c) \<Longrightarrow> coherent ops (ca_tables (open_handles ops f q c))"
proof -
  assume c: "coherent ops (ca_tables c)"
  have "group_ok ops f' (group_new ops q)" for f'
    by (simp add: group_ok_def group_items_def group_new_def concat_replicate_trivial)
  then have "\<forall>g \<in> set (get_serial_handle ops q (tb_groups t)). group_ok ops (tb_file t) g" if "\<forall>g \<in> set (tb_groups t). group_ok ops (tb_file t) g" for t
    using that by (simp add: get_serial_handle_def)
  moreover have "\<forall>t \<in> set (get_table_handle f (ca_tables c)). \<forall>g \<in> set (tb_groups t). group_ok ops (tb_file t) g"
    using c by (simp add: get_table_handle_def coherent_def table_new_def)
  ultimately show ?thesis unfolding coherent_def open_handles_def
    by (fastforce dest!: at_first_in dest: find_in)
qed

section \<open>Transparency\<close>

text \<open>Tags that are equal, and queries that match, are the same for the database.\<close>

definition ops_ok :: "('q, 't, 'v) line_ops \<Rightarrow> bool" where
  "ops_ok ops \<longleftrightarrow> (\<forall>f q s t. lo_same_tag ops s t \<longrightarrow> lo_pull ops f q s = lo_pull ops f q t)
     \<and> (\<forall>f p q t. lo_match ops p q \<longrightarrow> lo_pull ops f p t = lo_pull ops f q t) \<and> (\<forall>q. lo_match ops q q)"

definition answer :: "('q, 't, 'v) line_ops \<Rightarrow> string \<times> 'q \<times> 't \<Rightarrow> exn + 'v" where
  "answer ops r = (case r of (f, q, t) \<Rightarrow> lo_pull ops f q t)"

lemma lookup_tag_coherent:
  assumes ok: "ops_ok ops" and c: "coherent ops (ca_tables c)" and g: "find_group ops f q (ca_tables c) = Some g"
    and l: "lookup_tag ops f q t now now' c = (x, d)"
  shows "coherent ops (ca_tables d) \<and> (x = Inl Undefined \<or> x = lo_pull ops f q t)"
proof (cases "lo_hash ops t < lo_lines ops")
  case False
  then show ?thesis using c g l by (simp add: lookup_tag_def)
next
  case True
  from g obtain tb where tb: "tb \<in> set (ca_tables c)" "tb_file tb = f" "g \<in> set (tb_groups tb)" "lo_match ops (sg_query g) q"
    by (rule find_group_parts)
  then have go: "group_ok ops f g" using c by (auto simp: coherent_def)
  have pq: "lo_pull ops f (sg_query g) s = lo_pull ops f q s" for s using ok tb(4) by (simp add: ops_ok_def)
  show ?thesis
  proof (cases "find (\<lambda>x. lo_same_tag ops (di_tag x) t) (sg_lines g ! lo_hash ops t)")
    case (Some y)
    from find_in [OF Some] have y: "y \<in> set (sg_lines g ! lo_hash ops t)" "lo_same_tag ops (di_tag y) t" by auto
    have "y \<in> set (group_items g)" using y(1) True go by (auto simp: group_items_def group_ok_def intro!: bexI [of _ "sg_lines g ! lo_hash ops t"])
    then have "Inr (di_data y) = lo_pull ops f q t" using go y(2) ok pq by (metis group_ok_def ops_ok_def)
    then show ?thesis using Some g l True c coherent_hand_out [of ops "c\<lparr>ca_hits := ca_hits c + 1\<rparr>"] by (auto simp: lookup_tag_def)
  next
    case None
    show ?thesis
    proof (cases "lo_pull ops f (sg_query g) t")
      case (Inl e)
      then show ?thesis using None g l True c pq by (auto simp: lookup_tag_def)
    next
      case (Inr v)
      let ?c = "c\<lparr>ca_tables := push_item ops f q (item_new (ca_next c) t v now) (ca_tables c), ca_next := Suc (ca_next c)\<rparr>"
      have "coherent ops (ca_tables ?c)"
        using coherent_at_group [OF c g, of "\<lambda>g. g\<lparr>sg_lines := (sg_lines g)[lo_hash ops t := item_new (ca_next c) t v now # sg_lines g ! lo_hash ops t]\<rparr>"]
          group_ok_push [OF go _ True, of "item_new (ca_next c) t v now"] Inr
        by (simp add: push_item_def Let_def item_new_def)
      from coherent_advise [OF this] have a: "coherent ops (ca_tables e)" if "advise_size_increase ops (lo_size ops v) ?c = (r, e)" for r e
        using that by blast
      have u: "e = Undefined" if "advise_size_increase ops (lo_size ops v) ?c = (Inl e, e')" for e e'
        using that by (auto simp: advise_size_increase_def target_size_def int32_def Let_def split: if_splits)
      have "load_line ops f q t v now now' c = (x, d)" using None Inr g l True by (simp add: lookup_tag_def)
      then show ?thesis using a u coherent_hand_out Inr pq
        by (fastforce simp: load_line_def Let_def split: prod.splits sum.splits)
    qed
  qed
qed

lemma request_coherent:
  assumes "ops_ok ops" and "coherent ops (ca_tables c)" and "request ops r now now' c = (x, d)"
  shows "coherent ops (ca_tables d) \<and> (x = Inl Undefined \<or> x = answer ops r)"
proof -
  obtain f q t where r: "r = (f, q, t)" by (cases r)
  have "\<And>q. lo_match ops q q" using assms(1) by (simp add: ops_ok_def)
  then obtain g where "find_group ops f q (ca_tables (open_handles ops f q c)) = Some g" using open_handles_found by metis
  from lookup_tag_coherent [OF assms(1) coherent_handles [OF assms(2)] this] show ?thesis
    using assms(3) by (simp add: request_def r answer_def)
qed

lemma requests_coherent:
  assumes "ops_ok ops" and "coherent ops (ca_tables c)" and "requests ops rs c = (xs, d)"
  shows "coherent ops (ca_tables d) \<and> list_all2 (\<lambda>r x. x = Inl Undefined \<or> x = answer ops (fst r)) rs xs"
  using assms(2,3)
proof (induction rs arbitrary: c xs d)
  case (Cons r rs)
  obtain s now now' where r: "r = (s, now, now')" by (cases r)
  obtain x c1 where x: "request ops s now now' c = (x, c1)" by (cases "request ops s now now' c")
  obtain ys c2 where ys: "requests ops rs c1 = (ys, c2)" by (cases "requests ops rs c1")
  from request_coherent [OF assms(1) Cons.prems(1) x] Cons.IH [OF _ ys] show ?case
    using Cons.prems(2) x ys by (auto simp: r)
qed simp


section \<open>Sizes\<close>

definition all_items :: "('q, 't, 'v) cache_table list \<Rightarrow> ('t, 'v) data_item list" where
  "all_items ts = concat (map table_items ts)"

definition total_size :: "('q, 't, 'v) line_ops \<Rightarrow> ('t, 'v) data_item list \<Rightarrow> u32" where
  "total_size ops xs = sum_list (map (\<lambda>x. lo_size ops (di_data x)) xs)"

lemma total_size_mset: "total_size ops xs = (\<Sum>x \<in># mset xs. lo_size ops (di_data x))"
  unfolding total_size_def by (simp flip: mset_map add: sum_mset_sum_list)

text \<open>The recorded size is that of the lines; lines have addresses of their own; between requests no line is locked.\<close>

definition cache_ok :: "('q, 't, 'v) line_ops \<Rightarrow> ('q, 't, 'v) line_cache \<Rightarrow> bool" where
  "cache_ok ops c \<longleftrightarrow> distinct (map di_address (all_items (ca_tables c)))
     \<and> (\<forall>x \<in> set (all_items (ca_tables c)). di_address x < ca_next c)
     \<and> ca_size c = total_size ops (all_items (ca_tables c))"

lemma concat_map_hom:
  assumes "\<And>l m. h (l @ m) = h l @ h m" and "h [] = []"
  shows "concat (map (\<lambda>x. h (k x)) xs) = h (concat (map k xs))"
  by (induction xs) (simp_all add: assms)

lemma items_map_lines:
  fixes h :: "('t, 'v) data_item list \<Rightarrow> ('t, 'v) data_item list" and g :: "('q, 't, 'v) serial_group"
    and t :: "('q, 't, 'v) cache_table"
  assumes "\<And>l m. h (l @ m) = h l @ h m" and "h [] = []"
  shows "group_items (g\<lparr>sg_lines := map h (sg_lines g)\<rparr>) = h (group_items g)"
    and "table_items (t\<lparr>tb_groups := map (\<lambda>g. g\<lparr>sg_lines := map h (sg_lines g)\<rparr>) (tb_groups t)\<rparr>) = h (table_items t)"
proof -
  have "concat (map h ls) = h (concat ls)" for ls by (induction ls) (simp_all add: assms)
  then have g: "group_items (g\<lparr>sg_lines := map h (sg_lines g)\<rparr>) = h (group_items g)" for g :: "('q, 't, 'v) serial_group"
    by (simp add: group_items_def)
  then show "table_items (t\<lparr>tb_groups := map (\<lambda>g. g\<lparr>sg_lines := map h (sg_lines g)\<rparr>) (tb_groups t)\<rparr>) = h (table_items t)"
    by (simp add: table_items_def comp_def concat_map_hom [where h = h and k = group_items, OF assms])
  show "group_items (g\<lparr>sg_lines := map h (sg_lines g)\<rparr>) = h (group_items g)" by (rule g)
qed

lemma concat_map_lines:
  assumes "\<And>l m. h (l @ m) = h l @ h m" and "h [] = []"
  shows "all_items (map_lines h ts) = h (all_items ts)"
  unfolding all_items_def map_lines_def by (induction ts) (simp_all add: assms items_map_lines(2) [OF assms])

lemma items_erase: "all_items (erase_item a ts) = filter (\<lambda>x. di_address x \<noteq> a) (all_items ts)"
  unfolding erase_item_def by (rule concat_map_lines) simp_all

lemma items_hand_out:
  "all_items (ca_tables (hand_out a now c)) =
     map (\<lambda>x. if di_address x = a then x\<lparr>di_locked := False, di_access := now\<rparr> else x) (all_items (ca_tables c))"
  unfolding hand_out_def by (simp add: concat_map_lines)

lemma cache_ok_hand_out: "cache_ok ops c \<Longrightarrow> cache_ok ops (hand_out a now c)"
proof -
  assume c: "cache_ok ops c"
  have "map di_address (all_items (ca_tables (hand_out a now c))) = map di_address (all_items (ca_tables c))"
    "map (\<lambda>x. lo_size ops (di_data x)) (all_items (ca_tables (hand_out a now c))) = map (\<lambda>x. lo_size ops (di_data x)) (all_items (ca_tables c))"
    by (simp_all add: items_hand_out)
  moreover have "ca_next (hand_out a now c) = ca_next c" "ca_size (hand_out a now c) = ca_size c" by (simp_all add: hand_out_def)
  moreover have "di_address ` set (all_items (ca_tables (hand_out a now c))) = di_address ` set (all_items (ca_tables c))"
    using calculation(1) by (metis set_map)
  ultimately show ?thesis using c unfolding cache_ok_def total_size_def by (metis (no_types, lifting) image_iff)
qed

lemma total_erase:
  assumes "distinct (map di_address xs)" and "x \<in> set xs"
  shows "total_size ops (filter (\<lambda>y. di_address y \<noteq> di_address x) xs) = total_size ops xs - lo_size ops (di_data x)"
  using assms
proof (induction xs)
  case (Cons y ys)
  show ?case
  proof (cases "y = x")
    case True
    then have n: "di_address x \<notin> di_address ` set ys" using Cons.prems(1) by simp
    have "filter (\<lambda>y. di_address y \<noteq> di_address x) ys = ys" by (intro filter_True ballI notI) (metis n image_eqI)
    then show ?thesis using True by (simp add: total_size_def)
  next
    case False
    then have "di_address y \<noteq> di_address x" using Cons.prems by auto
    then show ?thesis using Cons False by (simp add: total_size_def)
  qed
qed simp

lemma cache_ok_evict:
  assumes "cache_ok ops c" and "set xs \<subseteq> set (all_items (ca_tables c))" and "distinct (map di_address xs)"
  shows "cache_ok ops (evict ops target xs c)"
  using assms
proof (induction ops target xs c rule: evict.induct)
  case (2 ops target x xs c)
  let ?c = "if di_locked x then c else c\<lparr>ca_size := ca_size c - lo_size ops (di_data x), ca_tables := erase_item (di_address x) (ca_tables c),
                ca_unloads := ca_unloads c + 1\<rparr>"
  have "cache_ok ops ?c"
  proof (cases "di_locked x")
    case False
    have "x \<in> set (all_items (ca_tables c))" using 2(3) by simp
    then show ?thesis using 2(2) False total_erase [of "all_items (ca_tables c)" x ops]
      by (auto simp: cache_ok_def items_erase distinct_map_filter)
  qed (use 2 in simp)
  moreover have "set xs \<subseteq> set (all_items (ca_tables ?c))" 
  proof
    fix y assume y: "y \<in> set xs"
    then have "di_address y \<noteq> di_address x" using 2(4) by (metis distinct.simps(2) image_eqI list.simps(9) set_map)
    then show "y \<in> set (all_items (ca_tables ?c))" using y 2(3) by (auto simp: items_erase)
  qed
  ultimately show ?case using 2 by simp
qed simp

lemma clean_up_items: "mset (clean_up_list ts) = mset (all_items ts)"
  by (simp add: clean_up_list_def gather_data_items_def all_items_def)

lemma clean_up_sound: "set (clean_up_list ts) = set (all_items ts)" "distinct (map di_address (clean_up_list ts)) = distinct (map di_address (all_items ts))"
proof -
  show "set (clean_up_list ts) = set (all_items ts)" using clean_up_items by (metis set_mset_mset)
  show "distinct (map di_address (clean_up_list ts)) = distinct (map di_address (all_items ts))"
    using mset_eq_imp_distinct_iff [of "map di_address (clean_up_list ts)" "map di_address (all_items ts)"] clean_up_items [of ts] by simp
qed

lemma items_push:
  assumes "find_group ops f q ts = Some g" and "lo_hash ops (di_tag x) < length (sg_lines g)"
  shows "mset (all_items (push_item ops f q x ts)) = add_mset x (mset (all_items ts))"
proof -
  let ?h = "lo_hash ops (di_tag x)" and ?P = "\<lambda>g. lo_match ops (sg_query g) q"
  let ?u = "\<lambda>g. g\<lparr>sg_lines := (sg_lines g)[?h := x # sg_lines g ! ?h]\<rparr>"
  let ?v = "\<lambda>t. t\<lparr>tb_groups := at_first ?P ?u (tb_groups t)\<rparr>"
  from assms(1) obtain t where t: "find (\<lambda>t. tb_file t = f) ts = Some t" "find ?P (tb_groups t) = Some g" by (rule find_group_parts)
  have "sg_lines g = take ?h (sg_lines g) @ sg_lines g ! ?h # drop (Suc ?h) (sg_lines g)" using assms(2) by (rule id_take_nth_drop)
  moreover have "(sg_lines g)[?h := x # sg_lines g ! ?h] = take ?h (sg_lines g) @ (x # sg_lines g ! ?h) # drop (Suc ?h) (sg_lines g)"
    using assms(2) by (rule upd_conv_take_nth_drop)
  ultimately have "mset (group_items (?u g)) = add_mset x (mset (group_items g))"
    unfolding group_items_def by (metis (no_types, lifting) serial_group.select_convs(2) serial_group.surjective serial_group.update_convs(2)
        concat_append concat.simps(2) mset_append mset.simps(2) append_Cons union_mset_add_mset_left union_mset_add_mset_right)
  then have "mset (table_items (?v t)) = add_mset x (mset (table_items t))"
    using at_first_items [OF t(2), of group_items ?u] by (simp add: table_items_def)
  then show ?thesis
    using at_first_items [OF t(1), of table_items ?v] by (simp add: push_item_def Let_def at_group_def all_items_def)
qed


lemma cache_ok_advise:
  assumes "cache_ok ops (c\<lparr>ca_size := ca_size c + b\<rparr>)"
  shows "cache_ok ops (snd (advise_size_increase ops b c))"
  using assms cache_ok_evict [OF assms] clean_up_sound [of "ca_tables c"]
  by (auto simp: advise_size_increase_def Let_def cache_ok_def split: sum.splits)

lemma cache_ok_push:
  assumes c: "cache_ok ops c" and g: "find_group ops f q (ca_tables c) = Some g" and h: "lo_hash ops t < length (sg_lines g)"
    and d: "d = c\<lparr>ca_tables := push_item ops f q (item_new (ca_next c) t v now) (ca_tables c), ca_next := Suc (ca_next c)\<rparr>"
  shows "cache_ok ops (d\<lparr>ca_size := ca_size d + lo_size ops v\<rparr>)"
    and "mset (all_items (ca_tables d)) = add_mset (item_new (ca_next c) t v now) (mset (all_items (ca_tables c)))"
proof -
  let ?x = "item_new (ca_next c) t v now"
  show m: "mset (all_items (ca_tables d)) = add_mset ?x (mset (all_items (ca_tables c)))"
    using items_push [OF g, of ?x] h by (simp add: d item_new_def)
  have a: "mset (map di_address (all_items (ca_tables d))) = mset (map di_address (?x # all_items (ca_tables c)))" using m by simp
  have "distinct (map di_address (all_items (ca_tables d)))"
    using mset_eq_imp_distinct_iff [OF a] c by (auto simp: cache_ok_def item_new_def)
  moreover have "set (all_items (ca_tables d)) = insert ?x (set (all_items (ca_tables c)))"
    using m by (metis set_mset_add_mset_insert set_mset_mset)
  moreover have "total_size ops (all_items (ca_tables d)) = total_size ops (?x # all_items (ca_tables c))"
    using m by (simp add: total_size_mset)
  ultimately show "cache_ok ops (d\<lparr>ca_size := ca_size d + lo_size ops v\<rparr>)"
    using c by (auto simp: cache_ok_def d item_new_def total_size_def less_Suc_eq)
qed

lemma cache_ok_new: "cache_ok ops (cache_new cap)"
  by (simp add: cache_ok_def cache_new_def all_items_def total_size_def)

lemma cache_ok_request:
  assumes "ops_ok ops" and "coherent ops (ca_tables c)" and "cache_ok ops c"
  shows "cache_ok ops (snd (request ops r now now' c))"
proof -
  obtain f q t where r: "r = (f, q, t)" by (cases r)
  let ?c = "open_handles ops f q c"
  have c: "cache_ok ops ?c" using assms(3) items_handles [of ops f q c]
    by (simp add: cache_ok_def all_items_def) (simp add: open_handles_def)
  have "\<And>q. lo_match ops q q" using assms(1) by (simp add: ops_ok_def)
  then obtain g where g: "find_group ops f q (ca_tables ?c) = Some g" using open_handles_found by metis
  then have len: "length (sg_lines g) = lo_lines ops"
    using coherent_handles [OF assms(2), of f q] by (auto simp: coherent_def group_ok_def elim!: find_group_parts)
  have "cache_ok ops (?c\<lparr>ca_hits := ca_hits ?c + 1\<rparr>)" using c by (simp add: cache_ok_def)
  from cache_ok_hand_out [OF this] have hit: "cache_ok ops (hand_out a n (?c\<lparr>ca_hits := ca_hits ?c + 1\<rparr>))" for a n .
  have "cache_ok ops (snd (load_line ops f q t v now now' ?c))" if "lo_hash ops t < lo_lines ops" for v
  proof -
    let ?d = "?c\<lparr>ca_tables := push_item ops f q (item_new (ca_next ?c) t v now) (ca_tables ?c), ca_next := Suc (ca_next ?c)\<rparr>"
    have "cache_ok ops (?d\<lparr>ca_size := ca_size ?d + lo_size ops v\<rparr>)" using cache_ok_push(1) [OF c g, of t ?d v now] that len by simp
    from cache_ok_advise [OF this] show ?thesis
      using cache_ok_hand_out by (force simp: load_line_def Let_def split: prod.splits sum.splits)
  qed
  then show ?thesis using c g hit by (auto simp: request_def r lookup_tag_def split: option.splits sum.splits)
qed

lemma requests_size_ok:
  assumes "ops_ok ops"
  shows "coherent ops (ca_tables c) \<Longrightarrow> cache_ok ops c \<Longrightarrow> requests ops rs c = (xs, d) \<Longrightarrow> cache_ok ops d"
proof (induction rs arbitrary: c xs d)
  case (Cons r rs)
  obtain s now now' where r: "r = (s, now, now')" by (cases r)
  obtain x c1 where x: "request ops s now now' c = (x, c1)" by (cases "request ops s now now' c")
  obtain ys c2 where ys: "requests ops rs c1 = (ys, c2)" by (cases "requests ops rs c1")
  have "coherent ops (ca_tables c1)" "cache_ok ops c1"
    using request_coherent [OF assms Cons.prems(1) x] cache_ok_request [OF assms Cons.prems(1,2), of s now now'] x by simp_all
  from Cons.IH [OF this ys] show ?case using Cons.prems(3) x ys by (simp add: r)
qed simp

section \<open>What an eviction leaves\<close>

lemma target_size_zero:
  assumes "capacity < bytes" and "unat bytes < 2 ^ 31"
  shows "target_size capacity bytes = (if 10 * unat bytes < 2 ^ 31 then Inr 0 else Inl Undefined)"
proof -
  have c: "unat capacity < unat bytes" using assms(1) by (simp add: word_less_nat_alt)
  have s: "sint w = int (unat w)" if "unat w < 2 ^ 31" for w :: u32
  proof -
    have "int (unat w) < int (2 ^ 31)" using that by (rule of_nat_less_iff [THEN iffD2])
    then have "uint w < 2 ^ 31" by simp
    moreover have "- (2 ^ 31) \<le> uint w" by (rule order_trans [OF _ uint_ge_0]) simp
    ultimately have "signed_take_bit 31 (uint w) = uint w" by (intro signed_take_bit_int_eq_self) simp_all
    then show ?thesis by (simp add: sint_uint)
  qed
  have sb: "sint bytes = int (unat bytes)" "sint capacity = int (unat capacity)" using s assms(2) c by simp_all
  have "bindE (int32 (10 * int b)) (\<lambda>s. bindE (int32 (int a - s)) (\<lambda>d. Inr (of_int (max d 0))))
      = (if 10 * b < 2 ^ 31 then Inr 0 else Inl Undefined)" if "a < b" for a b :: nat
    using that by (auto simp: int32_def max_def)
  from this [OF c] show ?thesis unfolding target_size_def sb .
qed


definition nat_size :: "('q, 't, 'v) line_ops \<Rightarrow> ('t, 'v) data_item list \<Rightarrow> nat" where
  "nat_size ops xs = sum_list (map (\<lambda>x. unat (lo_size ops (di_data x))) xs)"

lemma total_nat_size: "nat_size ops xs < 2 ^ 32 \<Longrightarrow> unat (total_size ops xs) = nat_size ops xs"
proof (induction xs)
  case (Cons x xs)
  then have "unat (lo_size ops (di_data x)) + unat (total_size ops xs) < 2 ^ 32" by (simp add: nat_size_def)
  then show ?case using Cons by (simp add: nat_size_def total_size_def unat_word_ariths)
qed (simp add: nat_size_def total_size_def)

lemma nat_size_member: "x \<in> set xs \<Longrightarrow> unat (lo_size ops (di_data x)) \<le> nat_size ops xs"
  unfolding nat_size_def by (intro member_le_sum_list) simp_all

lemma nat_size_filter: "nat_size ops (filter P xs) \<le> nat_size ops xs"
  by (induction xs) (auto simp: nat_size_def)

lemma evict_clears:
  assumes "cache_ok ops c" and "nat_size ops (all_items (ca_tables c)) < 2 ^ 32" and "set xs \<subseteq> set (all_items (ca_tables c))"
    and "distinct (map di_address xs)" and "y \<in> set (all_items (ca_tables c))" and "di_locked y" and "0 < lo_size ops (di_data y)"
    and "\<forall>x \<in> set (all_items (ca_tables c)). \<not> di_locked x \<longrightarrow> x \<in> set xs" and "target = 0"
  shows "all_items (ca_tables (evict ops target xs c)) = filter di_locked (all_items (ca_tables c))"
  using assms
proof (induction ops target xs c rule: evict.induct)
  case (1 ops target c)
  then show ?case by (metis (no_types, lifting) empty_iff empty_set evict.simps(1) filter_True)
next
  case (2 ops target x xs c)
  let ?c = "if di_locked x then c else c\<lparr>ca_size := ca_size c - lo_size ops (di_data x), ca_tables := erase_item (di_address x) (ca_tables c),
                ca_unloads := ca_unloads c + 1\<rparr>"
  let ?a = "all_items (ca_tables c)" and ?b = "all_items (ca_tables ?c)"
  have xa: "x \<in> set ?a" using 2(4) by simp
  have "0 < unat (lo_size ops (di_data y))" using 2(8) by (simp add: unat_gt_0 word_neq_0_conv)
  then have "0 < nat_size ops ?a" using nat_size_member [OF 2(6), of ops] by linarith
  then have "0 < unat (ca_size c)" using 2(2) total_nat_size [OF 2(3)] by (simp add: cache_ok_def)
  then have pos: "target < ca_size c" using 2(10) by (simp add: unat_gt_0 word_neq_0_conv)
  have b: "?b = (if di_locked x then ?a else filter (\<lambda>z. di_address z \<noteq> di_address x) ?a)"
    by (cases "di_locked x") (simp_all add: items_erase)
  have ad: "di_address z \<noteq> di_address x" if "z \<in> set ?a" "z \<noteq> x" for z
    using that xa 2(2) by (auto simp: cache_ok_def distinct_map dest: inj_onD)
  have ax: "di_address z \<noteq> di_address x" if "z \<in> set xs" for z using 2(5) that by (metis distinct.simps(2) image_eqI list.simps(9) set_map)
  have "cache_ok ops ?c"
    using cache_ok_evict [of ops c "[x]" target] 2(2) xa pos by simp
  moreover have "nat_size ops ?b < 2 ^ 32" 
  proof (cases "di_locked x")
    case False
    then show ?thesis using b 2(3) nat_size_filter [of ops "\<lambda>z. di_address z \<noteq> di_address x" ?a] by simp
  qed (use b 2(3) in \<open>simp only: if_True\<close>)
  moreover have "set xs \<subseteq> set ?b" using b ax 2(4) by auto
  moreover have "distinct (map di_address xs)" using 2(5) by simp
  moreover have "y \<in> set ?b" using b 2(6,7) ad [OF 2(6)] by (cases "y = x") auto
  moreover have "\<forall>z \<in> set ?b. \<not> di_locked z \<longrightarrow> z \<in> set xs" using b 2(9) by (auto split: if_splits)
  ultimately have "all_items (ca_tables (evict ops target xs ?c)) = filter di_locked ?b"
    using 2(1) [OF pos] 2(7,8,10) by blast
  moreover have "filter di_locked ?b = filter di_locked ?a"
  proof -
    have "di_locked z \<and> di_address z \<noteq> di_address x \<longleftrightarrow> di_locked z" if "z \<in> set ?a" "\<not> di_locked x" for z
      using that ad by blast
    then show ?thesis using b by (auto intro!: filter_cong)
  qed
  ultimately show ?case using pos by simp
qed


definition unlocked :: "('q, 't, 'v) line_cache \<Rightarrow> bool" where
  "unlocked c \<longleftrightarrow> (\<forall>x \<in> set (all_items (ca_tables c)). \<not> di_locked x)"

lemma evict_subset: "set (all_items (ca_tables (evict ops target xs c))) \<subseteq> set (all_items (ca_tables c))"
proof (induction ops target xs c rule: evict.induct)
  case (2 ops target x xs c)
  show ?case
  proof (cases "target < ca_size c")
    case True
    then show ?thesis using 2 by (cases "di_locked x") (auto simp: items_erase)
  qed simp
qed simp

lemma advise_subset: "set (all_items (ca_tables (snd (advise_size_increase ops b c)))) \<subseteq> set (all_items (ca_tables c))"
  using evict_subset [of ops _ _ "c\<lparr>ca_size := ca_size c + b\<rparr>"]
  by (auto simp: advise_size_increase_def Let_def split: sum.splits)

text \<open>A request that has to load its line.\<close>

definition misses :: "('q, 't, 'v) line_ops \<Rightarrow> string \<times> 'q \<times> 't \<Rightarrow> ('q, 't, 'v) line_cache \<Rightarrow> bool" where
  "misses ops r c \<longleftrightarrow> (case r of (f, q, t) \<Rightarrow> lo_hash ops t < lo_lines ops \<and>
     (case find_group ops f q (ca_tables (open_handles ops f q c)) of None \<Rightarrow> True
      | Some g \<Rightarrow> find (\<lambda>x. lo_same_tag ops (di_tag x) t) (sg_lines g ! lo_hash ops t) = None))"

lemma miss_loads:
  assumes ok: "ops_ok ops" and c: "coherent ops (ca_tables c)" "cache_ok ops c" and m: "misses ops (f, q, t) c" and v: "lo_pull ops f q t = Inr v"
  obtains d where "ca_capacity d = ca_capacity c" "ca_size d = ca_size c"
    "cache_ok ops (d\<lparr>ca_size := ca_size d + lo_size ops v\<rparr>)"
    "mset (all_items (ca_tables d)) = add_mset (item_new (ca_next c) t v now) (mset (all_items (ca_tables c)))"
    "request ops (f, q, t) now now' c = (case advise_size_increase ops (lo_size ops v) d of
       (Inl e, c2) \<Rightarrow> (Inl e, c2) | (Inr u, c2) \<Rightarrow> (Inr v, hand_out (ca_next c) now' c2))"
proof -
  let ?c = "open_handles ops f q c"
  have co: "cache_ok ops ?c" using c(2) items_handles [of ops f q c] by (simp add: cache_ok_def all_items_def) (simp add: open_handles_def)
  have n: "ca_next ?c = ca_next c" by (simp add: open_handles_def)
  have "\<And>q. lo_match ops q q" using ok by (simp add: ops_ok_def)
  then obtain g where g: "find_group ops f q (ca_tables ?c) = Some g" using open_handles_found by metis
  then obtain tb where tb: "g \<in> set (tb_groups tb)" "tb \<in> set (ca_tables ?c)" "lo_match ops (sg_query g) q" by (rule find_group_parts)
  have len: "length (sg_lines g) = lo_lines ops" using coherent_handles [OF c(1), of f q] tb by (auto simp: coherent_def group_ok_def)
  have "lo_pull ops f (sg_query g) t = Inr v" using v tb(3) ok by (simp add: ops_ok_def)
  then have r: "request ops (f, q, t) now now' c = load_line ops f q t v now now' ?c"
    using m g by (auto simp: request_def lookup_tag_def misses_def)
  let ?d = "?c\<lparr>ca_tables := push_item ops f q (item_new (ca_next c) t v now) (ca_tables ?c), ca_next := Suc (ca_next c)\<rparr>"
  have h: "lo_hash ops t < length (sg_lines g)" using m len by (simp add: misses_def)
  show thesis
    by (rule that [of ?d]) (use r cache_ok_push [OF co g h, of ?d v now] n items_handles [of ops f q c] in
      \<open>simp_all add: load_line_def Let_def all_items_def\<close>, simp_all add: open_handles_def)
qed

lemma hand_out_unlocked:
  assumes "\<forall>x \<in> set (all_items (ca_tables c)). di_locked x \<longrightarrow> di_address x = a"
  shows "unlocked (hand_out a now c)"
  using assms by (auto simp: unlocked_def items_hand_out)

lemma request_unlocked:
  assumes ok: "ops_ok ops" and c: "coherent ops (ca_tables c)" "cache_ok ops c" "unlocked c"
    and r: "request ops r now now' c = (x, d)" "x \<noteq> Inl Undefined"
  shows "unlocked d"
proof -
  obtain f q t where r3: "r = (f, q, t)" by (cases r)
  let ?c = "open_handles ops f q c"
  have uc: "unlocked ?c" using c(3) items_handles [of ops f q c] by (simp add: unlocked_def all_items_def)
  have uh: "unlocked (hand_out a n (?c\<lparr>ca_hits := k\<rparr>))" for a n k
    using uc by (intro hand_out_unlocked) (simp add: unlocked_def)
  have "\<And>q. lo_match ops q q" using ok by (simp add: ops_ok_def)
  then obtain g where g: "find_group ops f q (ca_tables ?c) = Some g" using open_handles_found by metis
  have hs: "lo_hash ops t < lo_lines ops" using r g by (auto simp: request_def r3 lookup_tag_def split: if_splits)
  show ?thesis
  proof (cases "find (\<lambda>x. lo_same_tag ops (di_tag x) t) (sg_lines g ! lo_hash ops t)")
    case (Some y)
    then show ?thesis using r(1) g hs uh by (auto simp: request_def r3 lookup_tag_def)
  next
    case None
    show ?thesis
    proof (cases "lo_pull ops f q t")
      case (Inl e)
      have "lo_pull ops f (sg_query g) t = Inl e" using Inl ok g by (auto simp: ops_ok_def elim!: find_group_parts)
      then show ?thesis using r(1) g hs None uc by (auto simp: request_def r3 lookup_tag_def)
    next
      case (Inr v)
      have m: "misses ops (f, q, t) c" using g None hs by (simp add: misses_def)
      obtain e where e: "ca_capacity e = ca_capacity c" "ca_size e = ca_size c" "cache_ok ops (e\<lparr>ca_size := ca_size e + lo_size ops v\<rparr>)"
        "mset (all_items (ca_tables e)) = add_mset (item_new (ca_next c) t v now) (mset (all_items (ca_tables c)))"
        "request ops (f, q, t) now now' c = (case advise_size_increase ops (lo_size ops v) e of
           (Inl e, c2) \<Rightarrow> (Inl e, c2) | (Inr u, c2) \<Rightarrow> (Inr v, hand_out (ca_next c) now' c2))"
        by (rule miss_loads [OF ok c(1,2) m Inr, of now now'])
      have "set (all_items (ca_tables e)) = insert (item_new (ca_next c) t v now) (set (all_items (ca_tables c)))"
        using e(4) by (metis set_mset_add_mset_insert set_mset_mset)
      then have l: "\<forall>x \<in> set (all_items (ca_tables (snd (advise_size_increase ops (lo_size ops v) e)))). di_locked x \<longrightarrow> di_address x = ca_next c"
        using advise_subset [of ops "lo_size ops v" e] c(3) by (auto simp: unlocked_def item_new_def)
      obtain y k where a: "advise_size_increase ops (lo_size ops v) e = (y, k)" by (cases "advise_size_increase ops (lo_size ops v) e")
      have "y = Inl Undefined \<or> (\<exists>u. y = Inr u)"
        using a by (auto simp: advise_size_increase_def target_size_def int32_def Let_def split: if_splits)
      then show ?thesis using r e(5) a l hand_out_unlocked [of k "ca_next c" now'] by (auto simp: r3)
    qed
  qed
qed

lemma requests_unlocked:
  assumes ok: "ops_ok ops"
  shows "coherent ops (ca_tables c) \<Longrightarrow> cache_ok ops c \<Longrightarrow> unlocked c \<Longrightarrow> requests ops rs c = (xs, d) \<Longrightarrow> Inl Undefined \<notin> set xs
    \<Longrightarrow> unlocked d"
proof (induction rs arbitrary: c xs d)
  case (Cons r rs)
  obtain s now now' where r: "r = (s, now, now')" by (cases r)
  obtain x c1 where x: "request ops s now now' c = (x, c1)" by (cases "request ops s now now' c")
  obtain ys c2 where ys: "requests ops rs c1 = (ys, c2)" by (cases "requests ops rs c1")
  have s: "xs = x # ys" "d = c2" using Cons.prems(4) x ys by (simp_all add: r)
  have "coherent ops (ca_tables c1)" "cache_ok ops c1"
    using request_coherent [OF ok Cons.prems(1) x] cache_ok_request [OF ok Cons.prems(1,2), of s now now'] x by simp_all
  moreover have "unlocked c1" using request_unlocked [OF ok Cons.prems(1-3) x] Cons.prems(5) s by auto
  ultimately show ?case using Cons.IH [of c1 ys c2] ys Cons.prems(5) s by auto
qed simp

end
