(* ===== verification/Line_Cache_Properties.thy ===== *)
theory Line_Cache_Properties
  imports Line_Cache_Facts
begin

text \<open>What the cache of lines guarantees, and what its eviction does, with an example of two files.\<close>

section \<open>An example\<close>

text \<open>Tags and queries are numbers, and a line has as many bytes as its tag says; that of tag 9 cannot be pulled.\<close>

definition number_ops :: "(nat, nat, string \<times> nat) line_ops" where
  "number_ops = \<lparr>lo_hash = (\<lambda>t. t mod 2), lo_lines = 2, lo_size = (\<lambda>v. of_nat (snd v)), lo_same_tag = (=), lo_match = (=),
     lo_pull = (\<lambda>f q t. if t = 9 then Inl (Runtime_error ''missing'') else Inr (f, 10 * q + t))\<rparr>"

lemma number_ops_ok: "ops_ok number_ops"
  by (simp add: ops_ok_def number_ops_def)

lemma start_coherent: "coherent ops (ca_tables (cache_new cap))" "unlocked (cache_new cap)"
  by (simp_all add: coherent_def cache_new_def unlocked_def all_items_def)

text \<open>\<open>CPPTRANSPORT_DEFAULT_PIPE_STORAGE\<close>\<close>

definition default_pipe_storage :: u32 where
  "default_pipe_storage = 500 * 1024 * 1024"

section \<open>Properties\<close>

text \<open>C18: The answers to a sequence of requests are those that the database itself would give, whatever was cached or
  evicted in between, except where the arithmetic of an eviction is undefined.\<close>

theorem cache_transparent:
  assumes "ops_ok ops" and "requests ops rs (cache_new cap) = (xs, c)"
  shows "list_all2 (\<lambda>r x. x = Inl Undefined \<or> x = answer ops (fst r)) rs xs"
  using requests_coherent [OF assms(1) start_coherent(1) assms(2)] by blast

theorem cache_transparent_witness:
  "fst (requests number_ops [((''a'', 1, 2), 0, 1), ((''a'', 1, 2), 2, 3), ((''b'', 1, 9), 4, 5)] (cache_new 100))
    = [Inr (''a'', 12), Inr (''a'', 12), Inl (Runtime_error ''missing'')]"
proof -
  let ?rs = "[((''a'', 1, 2), 0, 1), ((''a'', 1, 2), 2, 3), ((''b'', 1, 9), 4, 5)] :: ((string \<times> nat \<times> nat) \<times> nat \<times> nat) list"
  let ?r = "requests number_ops ?rs (cache_new 100)"
  have "list_all2 (\<lambda>r x. x = Inl Undefined \<or> x = answer number_ops (fst r)) ?rs (fst ?r)"
    by (rule cache_transparent [OF number_ops_ok prod.collapse [symmetric]])
  moreover have "Inl Undefined \<notin> set (fst ?r)" by code_simp
  ultimately show ?thesis by (auto simp: list_all2_Cons1 answer_def number_ops_def)
qed

text \<open>C19: After any requests the recorded size of the cache is the size of the lines it holds, modulo \<open>2 ^ 32\<close>.\<close>

theorem cache_size_recorded:
  assumes "ops_ok ops" and "requests ops rs (cache_new cap) = (xs, c)"
  shows "ca_size c = (\<Sum>x\<leftarrow>concat (map table_items (ca_tables c)). lo_size ops (di_data x))"
  using requests_size_ok [OF assms(1) start_coherent(1) cache_ok_new assms(2)] by (simp add: cache_ok_def all_items_def total_size_def)

theorem cache_size_recorded_witness:
  "ca_size (snd (requests number_ops [((''a'', 1, 2), 0, 1), ((''b'', 1, 3), 2, 3)] (cache_new 100))) = 25"
proof -
  let ?r = "requests number_ops [((''a'', 1, 2), 0, 1), ((''b'', 1, 3), 2, 3)] (cache_new 100)"
  have "ca_size (snd ?r) = (\<Sum>x\<leftarrow>concat (map table_items (ca_tables (snd ?r))). lo_size number_ops (di_data x))"
    by (rule cache_size_recorded [OF number_ops_ok prod.collapse [symmetric]])
  also have "\<dots> = 25" by code_simp
  finally show ?thesis .
qed

text \<open>A line that is loaded into a cache which has no room for it is alone there afterwards: the eviction that should
  make room drops every other line, however large the capacity.\<close>

theorem eviction_keeps_new_line_only:
  assumes "ops_ok ops" and "requests ops rs (cache_new cap) = (xs, c)" and "Inl Undefined \<notin> set xs"
    and "misses ops (f, q, t) c" and "lo_pull ops f q t = Inr v" and "0 < lo_size ops v"
    and "unat (ca_capacity c) < nat_size ops (all_items (ca_tables c)) + unat (lo_size ops v)"
    and "10 * (nat_size ops (all_items (ca_tables c)) + unat (lo_size ops v)) < 2 ^ 31"
  shows "\<exists>x. concat (map table_items (ca_tables (snd (request ops (f, q, t) now now' c)))) = [x] \<and> di_data x = v"
proof -
  let ?n = "nat_size ops (all_items (ca_tables c)) + unat (lo_size ops v)"
  note h = requests_coherent [OF assms(1) start_coherent(1) assms(2), THEN conjunct1] requests_size_ok [OF assms(1) start_coherent(1) cache_ok_new assms(2)]
    requests_unlocked [OF assms(1) start_coherent(1) cache_ok_new start_coherent(2) assms(2,3)]
  let ?x = "item_new (ca_next c) t v now"
  obtain d where d: "ca_capacity d = ca_capacity c" "ca_size d = ca_size c" "cache_ok ops (d\<lparr>ca_size := ca_size d + lo_size ops v\<rparr>)"
    "mset (all_items (ca_tables d)) = add_mset ?x (mset (all_items (ca_tables c)))"
    "request ops (f, q, t) now now' c = (case advise_size_increase ops (lo_size ops v) d of
       (Inl e, c2) \<Rightarrow> (Inl e, c2) | (Inr u, c2) \<Rightarrow> (Inr v, hand_out (ca_next c) now' c2))"
    by (rule miss_loads [OF assms(1) h(1,2) assms(4,5), of now now'])
  let ?d = "d\<lparr>ca_size := ca_size d + lo_size ops v\<rparr>"
  have n: "nat_size ops (all_items (ca_tables ?d)) = ?n"
  proof -
    have "nat_size ops ys = (\<Sum>x \<in># mset ys. unat (lo_size ops (di_data x)))" for ys
      unfolding nat_size_def by (simp flip: mset_map add: sum_mset_sum_list)
    then show ?thesis using d(4) by (simp add: item_new_def)
  qed
  have "ca_size ?d = total_size ops (all_items (ca_tables ?d))" using d(3) unfolding cache_ok_def by blast
  then have sz: "unat (ca_size ?d) = ?n" using total_nat_size [of ops "all_items (ca_tables ?d)"] n assms(8) by simp
  then have over: "ca_capacity ?d < ca_size ?d" using assms(7) d(1) by (simp add: word_less_nat_alt)
  have "target_size (ca_capacity ?d) (ca_size ?d) = Inr 0" using target_size_zero [OF over] sz assms(8) by simp
  then have a: "advise_size_increase ops (lo_size ops v) d = (Inr (), evict ops 0 (clean_up_list (ca_tables d)) ?d)"
    using over by (simp add: advise_size_increase_def)
  have s: "set (all_items (ca_tables d)) = insert ?x (set (all_items (ca_tables c)))"
    using d(4) by (metis set_mset_add_mset_insert set_mset_mset)
  have "all_items (ca_tables (evict ops 0 (clean_up_list (ca_tables d)) ?d)) = filter di_locked (all_items (ca_tables d))"
    using evict_clears [OF d(3), of "clean_up_list (ca_tables d)" ?x 0] n assms(6,8) clean_up_sound [of "ca_tables d"] d(3) s
    by (simp add: cache_ok_def item_new_def)
  moreover have "filter di_locked (all_items (ca_tables c)) = []" using h(3) by (simp add: unlocked_def filter_empty_conv)
  then have "filter_mset di_locked (mset (all_items (ca_tables c))) = {#}" by (metis mset.simps(1) mset_filter)
  then have "mset (filter di_locked (all_items (ca_tables d))) = {#?x#}" using d(4) by (simp add: mset_filter item_new_def)
  then have "filter di_locked (all_items (ca_tables d)) = [?x]" by (simp del: mset_filter)
  ultimately show ?thesis unfolding d(5) a
    by (simp add: items_hand_out item_new_def flip: all_items_def)
qed

theorem eviction_keeps_new_line_only_witness:
  "\<exists>x. concat (map table_items (ca_tables (snd (request number_ops (''b'', 1, 3) 4 5
      (snd (requests number_ops [((''a'', 1, 2), 0, 1), ((''a'', 1, 5), 2, 3)] (cache_new 39))))))) = [x] \<and> di_data x = (''b'', 13)"
proof -
  let ?r = "requests number_ops [((''a'', 1, 2), 0, 1), ((''a'', 1, 5), 2, 3)] (cache_new 39)"
  have "Inl Undefined \<notin> set (fst ?r)" by code_simp
  moreover have "misses number_ops (''b'', 1, 3) (snd ?r)"
    "nat_size number_ops (all_items (ca_tables (snd ?r))) = 27" "ca_capacity (snd ?r) = 39" by code_simp+
  ultimately show ?thesis
    by (intro eviction_keeps_new_line_only [OF number_ops_ok prod.collapse [symmetric]]) (simp_all add: number_ops_def)
qed

text \<open>With the default capacity the arithmetic of every eviction is undefined: ten times the size of the cache is not an
  \<open>int\<close>.\<close>

theorem default_eviction_undefined:
  assumes "ca_capacity c = default_pipe_storage" and "default_pipe_storage < ca_size c + bytes" and "unat (ca_size c + bytes) < 2 ^ 31"
  shows "fst (advise_size_increase ops bytes c) = Inl Undefined"
proof -
  have "unat default_pipe_storage = 524288000" by (simp add: default_pipe_storage_def)
  then have "524288000 < unat (ca_size c + bytes)" using assms(2) by (simp add: word_less_nat_alt)
  then have "target_size (ca_capacity c) (ca_size c + bytes) = Inl Undefined"
    using target_size_zero [OF assms(2,3)] by (simp add: assms(1))
  then show ?thesis using assms(1,2) by (simp add: advise_size_increase_def)
qed

theorem default_eviction_undefined_witness:
  "fst (advise_size_increase number_ops 400000000 (cache_new default_pipe_storage\<lparr>ca_size := 400000000\<rparr>)) = Inl Undefined"
  by (rule default_eviction_undefined) (simp_all add: cache_new_def default_pipe_storage_def)

end
