(* ===== verification/Batch_Rows.thy ===== *)
theory Batch_Rows
  imports Transport_Prelude "HOL-Library.Multiset"
begin

text \<open>
  The items a batcher collects (\<open>integration_items.h\<close>, \<open>postintegration_items.h\<close>) and the rows of SQL the writers make of
  them (\<open>sqlite3/operations/data_manager_write.h\<close>): the vector of an item is spread over pages of at most 949 columns, and in
  a strict build a row has a key that the item computes. Shown are that the pages hold the vector and that the keys
  ascend, as long as 32 bits are enough for them. A number of the C++ template is a value of any type.
\<close>

section \<open>Items\<close>

type_synonym u64 = "64 word"

text \<open>The classes of two-point, tensor, three-point and gauge items have the same members.\<close>

record 'n element_item =
  el_time :: u32
  el_kconfig :: u32
  el_source :: u32
  el_elements :: "'n list"
  el_time_items :: u32
  el_kconfig_items :: u32

record 'n backg_item =
  bg_time :: u32
  bg_source :: u32
  bg_coords :: "'n list"
  bg_time_items :: u32

record 'n ics_item =
  ic_source :: u32
  ic_texit :: 'n
  ic_coords :: "'n list"
  ic_kconfig_items :: u32

record configuration_statistics =
  cs_serial :: u32
  cs_integration :: nat
  cs_batching :: nat
  cs_refinements :: u32
  cs_steps :: nat

record 'n zeta_twopf_item =
  zt_time :: u32
  zt_kconfig :: u32
  zt_source :: u32
  zt_value :: 'n
  zt_time_items :: u32
  zt_kconfig_items :: u32

record 'n zeta_threepf_item = "'n zeta_twopf_item" +
  zh_redbsp :: 'n

record 'n fnl_item =
  fn_time :: u32
  fn_BB :: 'n
  fn_BT :: 'n
  fn_TT :: 'n

text \<open>The tables of a temporary container.\<close>

datatype 'n row =
    Worker_row u32 u32
  | Stats_row configuration_statistics
  | Ics_row "'n ics_item"
  | Kt_ics_row "'n ics_item"
  | Backg_row "'n backg_item"
  | Twopf_re_row "'n element_item"
  | Twopf_im_row "'n element_item"
  | Tensor_row "'n element_item"
  | Momentum_row "'n element_item"
  | Nderiv_row "'n element_item"
  | Zeta_twopf_row "'n zeta_twopf_item"
  | Zeta_threepf_row "'n zeta_threepf_item"
  | Gauge1_row "'n element_item"
  | Gauge2_123_row "'n element_item"
  | Gauge2_213_row "'n element_item"
  | Gauge2_312_row "'n element_item"
  | Fnl_row "'n fnl_item"

text \<open>The configuration whose integration produced a row, where the item records it for unwinding.\<close>

fun row_source :: "'n row \<Rightarrow> u32 option" where
  "row_source (Worker_row g w) = None"
| "row_source (Stats_row s) = None"
| "row_source (Fnl_row i) = None"
| "row_source (Ics_row i) = Some (ic_source i)"
| "row_source (Kt_ics_row i) = Some (ic_source i)"
| "row_source (Backg_row i) = Some (bg_source i)"
| "row_source (Zeta_twopf_row i) = Some (zt_source i)"
| "row_source (Zeta_threepf_row i) = Some (zt_source i)"
| "row_source (Twopf_re_row i) = Some (el_source i)"
| "row_source (Twopf_im_row i) = Some (el_source i)"
| "row_source (Tensor_row i) = Some (el_source i)"
| "row_source (Momentum_row i) = Some (el_source i)"
| "row_source (Nderiv_row i) = Some (el_source i)"
| "row_source (Gauge1_row i) = Some (el_source i)"
| "row_source (Gauge2_123_row i) = Some (el_source i)"
| "row_source (Gauge2_213_row i) = Some (el_source i)"
| "row_source (Gauge2_312_row i) = Some (el_source i)"

section \<open>Keys\<close>

text \<open>The products are of type \<open>unsigned int\<close>; only the result is widened.\<close>

definition element_unique :: "u32 \<Rightarrow> u32 \<Rightarrow> 'n element_item \<Rightarrow> u64" where
  "element_unique page pages i = ucast (el_kconfig i * el_time_items i * pages + el_time i * pages + page)"

definition backg_unique :: "u32 \<Rightarrow> u32 \<Rightarrow> 'n backg_item \<Rightarrow> u64" where
  "backg_unique page pages i = ucast (bg_time i * pages + page)"

section \<open>Pages\<close>

definition max_columns :: nat where
  "max_columns = (if 999 < (2000 :: nat) then 999 else 2000) - 50"

definition num_columns :: "nat \<Rightarrow> nat" where
  "num_columns n = min n max_columns"

definition num_pages :: "nat \<Rightarrow> nat" where
  "num_pages n = (n - 1) div num_columns n + 1"

definition page_values :: "nat \<Rightarrow> 'n::zero list \<Rightarrow> nat \<Rightarrow> 'n list" where
  "page_values n es page =
     map (\<lambda>i. let k = page * num_columns n + i in if k < n then es ! k else 0) [0..<num_columns n]"

record 'n sql_row =
  sr_unique :: "u64 option"
  sr_time :: u32
  sr_kconfig :: u32
  sr_page :: nat
  sr_values :: "'n list"

definition paged_row :: "bool \<Rightarrow> nat \<Rightarrow> 'n::zero element_item \<Rightarrow> nat \<Rightarrow> 'n sql_row" where
  "paged_row strict n i page =
     \<lparr>sr_unique = (if strict then Some (element_unique (of_nat page) (of_nat (num_pages n)) i) else None),
      sr_time = el_time i, sr_kconfig = el_kconfig i, sr_page = page, sr_values = page_values n (el_elements i) page\<rparr>"

text \<open>A row with a key that is in the table is refused.\<close>

fun insert_rows :: "msg_id \<Rightarrow> 'n sql_row list \<Rightarrow> 'n sql_row list \<Rightarrow> exn + 'n sql_row list" where
  "insert_rows msg [] table = Inr table"
| "insert_rows msg (r # rs) table =
     (if sr_unique r \<noteq> None \<and> sr_unique r \<in> sr_unique ` set table then Inl (Runtime_error msg)
      else insert_rows msg rs (table @ [r]))"

definition written_rows :: "bool \<Rightarrow> nat \<Rightarrow> 'n::zero element_item list \<Rightarrow> 'n sql_row list" where
  "written_rows strict n batch =
     concat (map (\<lambda>i. map (paged_row strict n i) [0..<num_pages n])
       (if strict then sort_key (element_unique 0 1) batch else batch))"

definition write_paged_output :: "bool \<Rightarrow> msg_id \<Rightarrow> nat \<Rightarrow> 'n::zero element_item list \<Rightarrow> 'n sql_row list
    \<Rightarrow> exn + 'n sql_row list" where
  "write_paged_output strict msg n batch table = insert_rows msg (written_rows strict n batch) table"

section \<open>Pages hold the vector\<close>

lemma concat_pages: "concat (map (\<lambda>p. map (\<lambda>i. f (p * c + i)) [0..<c]) [0..<q]) = map f [0..<q * c]"
proof (induction q)
  case (Suc q)
  have "[q * c..<c + q * c] = map (\<lambda>i. q * c + i) [0..<c]" by (simp add: map_add_upt add.commute [of "q * c"])
  then have "map f [q * c..<c + q * c] = map (\<lambda>i. f (q * c + i)) [0..<c]" by (simp add: comp_def)
  then show ?case using Suc upt_add_eq_append [of 0 "q * c" c] by (simp add: add.commute)
qed simp

lemma enough_pages:
  assumes "0 < n"
  shows "n \<le> num_pages n * num_columns n"
proof -
  have c: "0 < num_columns n" using assms by (simp add: num_columns_def max_columns_def)
  have "n - 1 < ((n - 1) div num_columns n + 1) * num_columns n"
    using dividend_less_div_times [OF c, of "n - 1"] by (simp add: add.commute)
  then show ?thesis using assms by (simp add: num_pages_def)
qed

text \<open>C12: The pages written for an item hold its vector, page by page and padded at the end, each within the limit on
  columns.\<close>

theorem pages_recover_elements:
  assumes "length (el_elements i) = n" and "0 < n"
  shows "take n (concat (map (\<lambda>p. sr_values (paged_row strict n i p)) [0..<num_pages n])) = el_elements i
    \<and> (\<forall>p. length (sr_values (paged_row strict n i p)) \<le> 949)"
proof -
  let ?f = "\<lambda>k. if k < n then el_elements i ! k else 0"
  have "concat (map (\<lambda>p. sr_values (paged_row strict n i p)) [0..<num_pages n]) = map ?f [0..<num_pages n * num_columns n]"
    by (simp add: paged_row_def page_values_def Let_def concat_pages [of ?f])
  moreover have "take n [0..<num_pages n * num_columns n] = [0..<n]"
    using enough_pages [OF assms(2)] by (simp add: take_upt)
  moreover have "map ?f [0..<n] = el_elements i" using assms(1) by (auto intro!: nth_equalityI)
  ultimately show ?thesis by (simp add: take_map paged_row_def page_values_def num_columns_def max_columns_def)
qed

text \<open>Witness: a vector of length 2.\<close>

theorem pages_recover_elements_witness:
  "take 2 (concat (map (\<lambda>p. sr_values (paged_row True 2 \<lparr>el_time = 0, el_kconfig = 0, el_source = 0, el_elements = [5, 7 :: int],
      el_time_items = 1, el_kconfig_items = 1\<rparr> p)) [0..<num_pages 2])) = [5, 7]"
  using pages_recover_elements [of "\<lparr>el_time = 0, el_kconfig = 0, el_source = 0, el_elements = [5, 7 :: int],
      el_time_items = 1, el_kconfig_items = 1\<rparr>" 2 True] by simp

section \<open>Keys ascend\<close>

definition key_place :: "'n element_item \<Rightarrow> nat" where
  "key_place i = unat (el_kconfig i) * unat (el_time_items i) + unat (el_time i)"

definition key_fits :: "nat \<Rightarrow> 'n element_item \<Rightarrow> bool" where
  "key_fits pages i \<longleftrightarrow> el_time i < el_time_items i \<and> (unat (el_kconfig i) + 1) * unat (el_time_items i) * pages \<le> 2 ^ 32"

lemma key_place_bound: "key_fits pages i \<Longrightarrow> page < pages \<Longrightarrow> key_place i * pages + page < 2 ^ 32"
proof -
  assume k: "key_fits pages i" and p: "page < pages"
  have "key_place i + 1 \<le> (unat (el_kconfig i) + 1) * unat (el_time_items i)"
    using k by (simp add: key_fits_def key_place_def word_less_nat_alt algebra_simps)
  then have "(key_place i + 1) * pages \<le> (unat (el_kconfig i) + 1) * unat (el_time_items i) * pages"
    by (rule mult_right_mono) simp
  then have "(key_place i + 1) * pages \<le> 2 ^ 32" using k by (simp add: key_fits_def)
  then show ?thesis using p by (simp add: algebra_simps)
qed

lemma widened_nat: "k < 2 ^ 32 \<Longrightarrow> unat (ucast (word_of_nat k :: u32) :: u64) = k"
  by (simp add: unsigned_ucast_eq unsigned_of_nat take_bit_nat_eq_self)

lemma unat_element_unique:
  assumes "key_fits pages i" and "page < pages"
  shows "unat (element_unique (of_nat page) (of_nat pages) i) = key_place i * pages + page"
proof -
  have "el_kconfig i * el_time_items i * of_nat pages + el_time i * of_nat pages + of_nat page
      = (word_of_nat (key_place i * pages + page) :: u32)"
    by (simp add: key_place_def algebra_simps)
  then show ?thesis using widened_nat [OF key_place_bound [OF assms]] by (simp only: element_unique_def)
qed

lemma key_fits_one: "key_fits pages i \<Longrightarrow> 0 < pages \<Longrightarrow> key_fits 1 i"
proof -
  assume k: "key_fits pages i" and p: "0 < pages"
  let ?a = "(unat (el_kconfig i) + 1) * unat (el_time_items i)"
  have "?a * 1 \<le> ?a * pages" using p by (intro mult_left_mono) auto
  then have "?a \<le> 2 ^ 32" using k unfolding key_fits_def by linarith
  then show ?thesis using k by (simp add: key_fits_def)
qed

lemma sorted_pages:
  "sorted_wrt (<) xs \<Longrightarrow> sorted_wrt (<) (concat (map (\<lambda>a. map (\<lambda>p. a * q + p) [0..<q :: nat]) xs))"
proof (induction xs)
  case (Cons a xs)
  have "x < y" if "b \<in> set xs" "x < q + a * q" "b * q \<le> y" for b x y
  proof -
    have "Suc a * q \<le> b * q" using Cons.prems that(1) by (intro mult_right_mono) auto
    then show ?thesis using that(2,3) by simp
  qed
  then show ?case using Cons by (auto simp: sorted_wrt_append sorted_wrt_map sorted_wrt_upt)
qed simp

lemma insert_rows_ascending:
  "sorted_wrt (<) (map (the \<circ> sr_unique) (table @ rs)) \<Longrightarrow> \<forall>r \<in> set (table @ rs). sr_unique r \<noteq> None
    \<Longrightarrow> insert_rows msg rs table = Inr (table @ rs)"
proof (induction rs arbitrary: table)
  case (Cons r rs)
  have "the (sr_unique t) < the (sr_unique r)" if "t \<in> set table" for t
    using Cons.prems(1) that by (auto simp: sorted_wrt_append)
  then have "sr_unique r \<notin> sr_unique ` set table" by fastforce
  then show ?case using Cons.IH [of "table @ [r]"] Cons.prems by auto
qed simp

lemma sorted_wrt_map_keys:
  assumes "sorted_wrt (\<lambda>x y. f x \<le> f y) xs" and "distinct (map f xs)" 
  shows "sorted_wrt (<) (map f (xs :: 'b list) :: nat list)"
  using assms by (induction xs) (auto simp: order.strict_iff_order)

lemma map_key_upt: "map (\<lambda>p. key_place i * q + p) [0..<q] = map (\<lambda>p. unat (element_unique (of_nat p) (of_nat q) i)) [0..<q]"
  if "key_fits q i"
  using that by (simp add: unat_element_unique)

lemma written_keys:
  assumes "\<forall>i \<in> set batch. key_fits (num_pages n) i"
  shows "map (\<lambda>r. unat (the (sr_unique r))) (written_rows True n batch)
    = concat (map (\<lambda>a. map (\<lambda>p. a * num_pages n + p) [0..<num_pages n]) (map key_place (sort_key (element_unique 0 1) batch)))"
proof -
  have "map (\<lambda>r. unat (the (sr_unique r))) (map (paged_row True n i) [0..<num_pages n])
      = map (\<lambda>p. key_place i * num_pages n + p) [0..<num_pages n]" if "i \<in> set batch" for i
    using assms that by (simp add: map_key_upt paged_row_def)
  then show ?thesis by (auto simp: written_rows_def map_concat comp_def intro!: arg_cong [of _ _ concat])
qed

lemma digits_unique:
  assumes "(b :: nat) < t" and "d < t" and "a * t + b = c * t + d"
  shows "a = c \<and> b = d"
proof -
  have "(a * t + b) div t = a" "(c * t + d) div t = c" using assms(1,2) by simp_all
  then have "a = c" using assms(3) by simp
  then show ?thesis using assms(3) by simp
qed

lemma places_ascend:
  assumes "distinct (map (\<lambda>i. (el_kconfig i, el_time i)) batch)"
    and "\<forall>i \<in> set batch. el_time_items i = items \<and> key_fits 1 i"
  shows "sorted_wrt (<) (map key_place (sort_key (element_unique 0 1) batch))"
proof (rule sorted_wrt_map_keys)
  let ?s = "sort_key (element_unique 0 1) batch"
  have u: "unat (element_unique 0 1 i) = key_place i" if "i \<in> set batch" for i
    using unat_element_unique [of 1 i 0] assms(2) that by simp
  have "sorted (map (element_unique 0 1) ?s)" by simp
  then have "sorted_wrt (\<lambda>x y. element_unique 0 1 x \<le> element_unique 0 1 y) ?s" by (simp add: sorted_map)
  then show "sorted_wrt (\<lambda>x y. key_place x \<le> key_place y) ?s"
    by (rule sorted_wrt_mono_rel [rotated]) (simp add: word_le_nat_alt u)
  have "(el_kconfig i, el_time i) = (el_kconfig j, el_time j)"
    if "i \<in> set batch" "j \<in> set batch" "key_place i = key_place j" for i j
  proof -
    let ?t = "unat items"
    have "unat (el_time i) < ?t" "unat (el_time j) < ?t"
      using assms(2) that by (auto simp: key_fits_def word_less_nat_alt)
    moreover have "unat (el_kconfig i) * ?t + unat (el_time i) = unat (el_kconfig j) * ?t + unat (el_time j)"
      using assms(2) that by (simp add: key_place_def)
    ultimately have "unat (el_kconfig i) = unat (el_kconfig j) \<and> unat (el_time i) = unat (el_time j)"
      by (rule digits_unique)
    then show ?thesis by (simp add: word_unat_eq_iff)
  qed
  then have "i = j" if "i \<in> set batch" "j \<in> set batch" "key_place i = key_place j" for i j
    using assms(1) that unfolding distinct_map by (elim conjE inj_onD)
  then have "inj_on key_place (set batch)" by (intro inj_onI)
  moreover have "distinct batch" using assms(1) by (simp add: distinct_map)
  ultimately show "distinct (map key_place ?s)" by (simp add: distinct_map)
qed

text \<open>C13: In a strict build the rows written for a batch are in ascending order of their keys and none is refused, if the
  places are distinct and the number of configurations, times and pages is within 32 bits.\<close>

theorem paged_keys_ascend:
  assumes "distinct (map (\<lambda>i. (el_kconfig i, el_time i)) batch)"
    and "\<forall>i \<in> set batch. el_time_items i = items \<and> el_time i < items
           \<and> (unat (el_kconfig i) + 1) * unat items * num_pages n \<le> 2 ^ 32"
  shows "sorted_wrt (<) (map (the \<circ> sr_unique) (written_rows True n batch))
    \<and> write_paged_output True msg n batch [] = Inr (written_rows True n batch)"
proof -
  have f: "\<forall>i \<in> set batch. key_fits (num_pages n) i" using assms(2) by (auto simp: key_fits_def)
  have "\<forall>i \<in> set batch. el_time_items i = items \<and> key_fits 1 i"
    using f assms(2) key_fits_one by (fastforce simp: num_pages_def [of n])
  from sorted_pages [OF places_ascend [OF assms(1) this], of "num_pages n"]
  have s: "sorted_wrt (<) (map (the \<circ> sr_unique) (written_rows True n batch))"
    unfolding written_keys [OF f, symmetric] by (simp add: sorted_wrt_map word_less_nat_alt)
  have "\<forall>r \<in> set (written_rows True n batch). sr_unique r \<noteq> None" by (auto simp: written_rows_def paged_row_def)
  with insert_rows_ascending [of "[]" "written_rows True n batch"] s show ?thesis by (simp add: write_paged_output_def)
qed

text \<open>Witness: two times of a configuration, pushed out of order.\<close>

theorem paged_keys_ascend_witness:
  "sorted_wrt (<) (map (the \<circ> sr_unique) (written_rows True 1
     [\<lparr>el_time = 1, el_kconfig = 0, el_source = 0, el_elements = [5 :: int], el_time_items = 2, el_kconfig_items = 1\<rparr>,
      \<lparr>el_time = 0, el_kconfig = 0, el_source = 0, el_elements = [6], el_time_items = 2, el_kconfig_items = 1\<rparr>]))"
  using paged_keys_ascend [of "[\<lparr>el_time = 1, el_kconfig = 0, el_source = 0, el_elements = [5 :: int], el_time_items = 2, el_kconfig_items = 1\<rparr>,
      \<lparr>el_time = 0, el_kconfig = 0, el_source = 0, el_elements = [6], el_time_items = 2, el_kconfig_items = 1\<rparr>]" 2 1]
  by (simp add: num_pages_def)

text \<open>Beyond 32 bits the key of the first time of a later configuration is that of the first one, and the write fails.\<close>

lemma paged_keys_collide:
  "write_paged_output True ''CPPTRANSPORT_DATACTR_TWOPF_DATATAB_FAIL'' 1
     [\<lparr>el_time = 0, el_kconfig = 0, el_source = 0, el_elements = [5 :: int], el_time_items = 65536, el_kconfig_items = 65537\<rparr>,
      \<lparr>el_time = 0, el_kconfig = 65536, el_source = 65536, el_elements = [6], el_time_items = 65536, el_kconfig_items = 65537\<rparr>] []
   = Inl (Runtime_error ''CPPTRANSPORT_DATACTR_TWOPF_DATATAB_FAIL'')"
  by (simp add: write_paged_output_def written_rows_def paged_row_def element_unique_def num_pages_def)

end
