(* ===== verification/Postprocess.thy ===== *)
theory Postprocess
  imports Complex_Main Batch_Rows
begin

text \<open>
  The correlation functions of the curvature perturbation: the delegate a batcher uses while it integrates
  (\<open>data/batchers/postprocess_delegate.h\<close>) and the gadget that computes the same functions from the database
  (\<open>correlation-functions/compute-gadgets/zeta_timeseries_compute.h\<close>). Numbers are elements of a field, so that rounding is left
  out; the functions the translator generates for a model are arguments. Shown are that the two computations agree and that
  the bispectrum is symmetric under an exchange of wavenumbers.
\<close>

section \<open>Models and configurations\<close>

record 'n model_functions =
  mf_fields :: nat
  mf_gauge1 :: "'n list \<Rightarrow> 'n list"
  mf_gauge2 :: "'n list \<Rightarrow> 'n \<Rightarrow> 'n \<Rightarrow> 'n \<Rightarrow> 'n \<Rightarrow> 'n list"
  mf_B :: "'n list \<Rightarrow> 'n \<Rightarrow> 'n \<Rightarrow> 'n \<Rightarrow> 'n \<Rightarrow> 'n list"
  mf_C :: "'n list \<Rightarrow> 'n \<Rightarrow> 'n \<Rightarrow> 'n \<Rightarrow> 'n \<Rightarrow> 'n list"

text \<open>Indices of a canonical model (\<open>templates/canonical_core.h\<close>).\<close>

definition state_flatten2 :: "nat \<Rightarrow> nat \<Rightarrow> nat \<Rightarrow> nat" where
  "state_flatten2 N a b = 2 * N * a + b"

definition state_flatten3 :: "nat \<Rightarrow> nat \<Rightarrow> nat \<Rightarrow> nat \<Rightarrow> nat" where
  "state_flatten3 N a b c = 2 * N * 2 * N * a + 2 * N * b + c"

definition fields_flatten3 :: "nat \<Rightarrow> nat \<Rightarrow> nat \<Rightarrow> nat \<Rightarrow> nat" where
  "fields_flatten3 N a b c = N * N * a + N * b + c"

definition field_species :: "nat \<Rightarrow> nat \<Rightarrow> nat" where
  "field_species N a = (if N \<le> a then a - N else a)"

definition field_momentum :: "nat \<Rightarrow> nat \<Rightarrow> nat" where
  "field_momentum N a = (if N \<le> a then a else a + N)"

definition index_is_momentum :: "nat \<Rightarrow> nat \<Rightarrow> bool" where
  "index_is_momentum N a \<longleftrightarrow> N \<le> a \<and> a \<le> 2 * N"

text \<open>A configuration of three wavenumbers with what of it is stored (\<open>threepf_kconfig_record\<close>), and one of a single
  wavenumber.\<close>

record twopf_kconfig_record =
  tk_serial :: u32
  tk_store_background :: bool

record 'n threepf_kconfig_record =
  hk_serial :: u32
  hk_k1_serial :: u32
  hk_k2_serial :: u32
  hk_k3_serial :: u32
  hk_k1 :: 'n
  hk_k2 :: 'n
  hk_k3 :: 'n
  hk_kt :: 'n
  hk_store_background :: bool
  hk_store_k1 :: bool
  hk_store_k2 :: bool
  hk_store_k3 :: bool

text \<open>Two-point functions at the three wavenumbers and the background, at one time.\<close>

record 'n correlators =
  co_k1_re :: "'n list"
  co_k1_im :: "'n list"
  co_k2_re :: "'n list"
  co_k2_im :: "'n list"
  co_k3_re :: "'n list"
  co_k3_im :: "'n list"
  co_bg :: "'n list"

section \<open>Delegate\<close>

definition zeta_twopf_sum :: "nat \<Rightarrow> 'n::field list \<Rightarrow> 'n list \<Rightarrow> 'n" where
  "zeta_twopf_sum N g s = (\<Sum>m<2 * N. \<Sum>n<2 * N. g ! m * g ! n * s ! state_flatten2 N m n)"

definition agent_zeta_twopf :: "'n::field model_functions \<Rightarrow> 'n list \<Rightarrow> 'n list \<Rightarrow> 'n \<times> 'n list" where
  "agent_zeta_twopf mf tpf bg = (let g = mf_gauge1 mf bg in (zeta_twopf_sum (mf_fields mf) g tpf, g))"

definition quadratic_component :: "nat \<Rightarrow> 'n::field list \<Rightarrow> 'n list \<Rightarrow> 'n \<Rightarrow> 'n list \<Rightarrow> 'n list \<Rightarrow> 'n list \<Rightarrow> 'n list
    \<Rightarrow> nat \<Rightarrow> nat \<Rightarrow> nat \<Rightarrow> nat \<Rightarrow> 'n" where
  "quadratic_component N g2 g w a_re a_im b_re b_im l m p q =
     g2 ! state_flatten2 N l m * g ! p * g ! q * w
       * (a_re ! state_flatten2 N l p * b_re ! state_flatten2 N m q - a_im ! state_flatten2 N l p * b_im ! state_flatten2 N m q)"

record 'n zeta_values =
  zv_threepf :: 'n
  zv_redbsp :: 'n
  zv_xfm1 :: "'n list"
  zv_xfm2_123 :: "'n list"
  zv_xfm2_213 :: "'n list"
  zv_xfm2_312 :: "'n list"

definition agent_zeta_threepf :: "'n::field model_functions \<Rightarrow> 'n threepf_kconfig_record \<Rightarrow> 'n \<Rightarrow> 'n list \<Rightarrow> 'n correlators
    \<Rightarrow> 'n zeta_values" where
  "agent_zeta_threepf mf c t threepf co =
     (let N = mf_fields mf; bg = co_bg co; k1 = hk_k1 c; k2 = hk_k2 c; k3 = hk_k3 c;
          k1k2 = k3 * k3 / (k1 * k2); k1k3 = k2 * k2 / (k1 * k3); k2k3 = k1 * k1 / (k2 * k3);
          g = mf_gauge1 mf bg; g123 = mf_gauge2 mf bg k1 k2 k3 t; g213 = mf_gauge2 mf bg k2 k1 k3 t;
          g312 = mf_gauge2 mf bg k3 k1 k2 t;
          linear = (\<Sum>l<2 * N. \<Sum>m<2 * N. \<Sum>n<2 * N. g ! l * g ! m * g ! n * threepf ! state_flatten3 N l m n);
          quadratic = (\<Sum>l<2 * N. \<Sum>m<2 * N. \<Sum>p<2 * N. \<Sum>q<2 * N.
             quadratic_component N g123 g k2k3 (co_k2_re co) (co_k2_im co) (co_k3_re co) (co_k3_im co) l m p q
             + quadratic_component N g213 g k1k3 (co_k1_re co) (co_k1_im co) (co_k3_re co) (co_k3_im co) l m p q
             + quadratic_component N g312 g k1k2 (co_k1_re co) (co_k1_im co) (co_k2_re co) (co_k2_im co) l m p q);
          z1 = zeta_twopf_sum N g (co_k1_re co); z2 = zeta_twopf_sum N g (co_k2_re co); z3 = zeta_twopf_sum N g (co_k3_re co);
          form = 6 / 5 * (z1 * z2 * k1k2 + z1 * z3 * k1k3 + z2 * z3 * k2k3)
      in \<lparr>zv_threepf = linear + quadratic, zv_redbsp = (linear + quadratic) / form, zv_xfm1 = g, zv_xfm2_123 = g123,
          zv_xfm2_213 = g213, zv_xfm2_312 = g312\<rparr>)"

text \<open>The shift from momenta to derivatives; the correlators of the shifted index itself are passed but not used.\<close>

datatype operator_position = Left_position | Middle_position | Right_position

fun q_fixed_first :: "operator_position \<Rightarrow> bool" where
  "q_fixed_first Left_position = False"
| "q_fixed_first Middle_position = True"
| "q_fixed_first Right_position = True"

fun r_fixed_first :: "operator_position \<Rightarrow> bool" where
  "r_fixed_first Left_position = False"
| "r_fixed_first Middle_position = False"
| "r_fixed_first Right_position = True"

definition fixed_pair :: "nat \<Rightarrow> bool \<Rightarrow> nat \<Rightarrow> nat \<Rightarrow> nat" where
  "fixed_pair N first a i = (if first then state_flatten2 N a i else state_flatten2 N i a)"

definition compute_shift :: "'n::field model_functions \<Rightarrow> 'n \<Rightarrow> nat \<Rightarrow> nat \<Rightarrow> nat \<Rightarrow> 'n \<Rightarrow> 'n \<Rightarrow> 'n \<Rightarrow> 'n list \<Rightarrow> 'n list
    \<Rightarrow> 'n list \<Rightarrow> 'n list \<Rightarrow> 'n list \<Rightarrow> operator_position \<Rightarrow> 'n" where
  "compute_shift mf t p q r pk qk rk q_re q_im r_re r_im bg pos =
     (let N = mf_fields mf; B_qrp = mf_B mf bg qk rk pk t; C_pqr = mf_C mf bg pk qk rk t; C_prq = mf_C mf bg pk rk qk t;
          s = field_species N p; dc = pk * pk / (qk * rk)
      in \<Sum>m<N. \<Sum>n<N.
           (let q_m = fixed_pair N (q_fixed_first pos) q m; q_n = fixed_pair N (q_fixed_first pos) q n;
                r_n = fixed_pair N (r_fixed_first pos) r n;
                mom_q_m = fixed_pair N (q_fixed_first pos) (field_momentum N q) m;
                mom_r_m = fixed_pair N (r_fixed_first pos) (field_momentum N r) m
            in - (B_qrp ! fields_flatten3 N m n s * dc * (q_re ! q_m * r_re ! r_n - q_im ! q_m * r_im ! r_n))
               - C_pqr ! fields_flatten3 N s m n * dc * (q_re ! mom_q_m * r_re ! r_n - q_im ! mom_q_m * r_im ! r_n)
               - C_prq ! fields_flatten3 N s m n * dc * (q_re ! q_n * r_re ! mom_r_m - q_im ! q_n * r_re ! mom_r_m)))"

definition agent_shift :: "'n::field model_functions \<Rightarrow> 'n threepf_kconfig_record \<Rightarrow> 'n \<Rightarrow> 'n correlators
    \<Rightarrow> nat \<Rightarrow> nat \<Rightarrow> nat \<Rightarrow> 'n \<Rightarrow> 'n" where
  "agent_shift mf c t co l m n v =
     (let N = mf_fields mf;
          v1 = (if index_is_momentum N l then v + compute_shift mf t l m n (hk_k1 c) (hk_k2 c) (hk_k3 c)
                  (co_k2_re co) (co_k2_im co) (co_k3_re co) (co_k3_im co) (co_bg co) Left_position else v);
          v2 = (if index_is_momentum N m then v1 + compute_shift mf t m l n (hk_k2 c) (hk_k1 c) (hk_k3 c)
                  (co_k1_re co) (co_k1_im co) (co_k3_re co) (co_k3_im co) (co_bg co) Middle_position else v1)
      in if index_is_momentum N n then v2 + compute_shift mf t n l m (hk_k3 c) (hk_k1 c) (hk_k2 c)
           (co_k1_re co) (co_k1_im co) (co_k2_re co) (co_k2_im co) (co_bg co) Middle_position else v2)"

text \<open>The shift as the code made it before (\<open>derived-content/deprecated/threepf_time_shift.h\<close>), at one time and in its older
  normalization, without the factor of wavenumbers.\<close>

definition former_shift :: "'n::field model_functions \<Rightarrow> 'n \<Rightarrow> nat \<Rightarrow> nat \<Rightarrow> nat \<Rightarrow> 'n \<Rightarrow> 'n \<Rightarrow> 'n \<Rightarrow> 'n list \<Rightarrow> 'n list
    \<Rightarrow> 'n list \<Rightarrow> 'n list \<Rightarrow> 'n list \<Rightarrow> operator_position \<Rightarrow> 'n" where
  "former_shift mf t p q r pk qk rk q_re q_im r_re r_im bg pos =
     (let N = mf_fields mf; B_qrp = mf_B mf bg qk rk pk t; C_pqr = mf_C mf bg pk qk rk t; C_prq = mf_C mf bg pk rk qk t;
          s = field_species N p; at_q = fixed_pair N (q_fixed_first pos) q; at_r = fixed_pair N (r_fixed_first pos) r
      in \<Sum>m<N. \<Sum>n<N.
           - (B_qrp ! fields_flatten3 N m n s * (q_re ! at_q m * r_re ! at_r n - q_im ! at_q m * r_im ! at_r n))
           - C_pqr ! fields_flatten3 N s m n
               * (q_re ! at_q (field_momentum N m) * r_re ! at_r n - q_im ! at_q (field_momentum N m) * r_im ! at_r n)
           - C_prq ! fields_flatten3 N s m n
               * (q_re ! at_q n * r_re ! at_r (field_momentum N m) - q_im ! at_q n * r_im ! at_r (field_momentum N m)))"

section \<open>Time series\<close>

text \<open>Lines of the database over the times, by kind, component and configuration.\<close>

datatype cf_line = Cf_twopf_re | Cf_twopf_im | Cf_threepf_Nderiv

record 'n series_handle =
  sh_model :: "'n model_functions"
  sh_times :: "'n list"
  sh_background :: "'n list list"
  sh_lookup :: "cf_line \<Rightarrow> nat \<Rightarrow> u32 \<Rightarrow> 'n list"
  sh_dN :: "'n list list"

definition series_new :: "'n model_functions \<Rightarrow> 'n list \<Rightarrow> (nat \<Rightarrow> 'n list) \<Rightarrow> (cf_line \<Rightarrow> nat \<Rightarrow> u32 \<Rightarrow> 'n list)
    \<Rightarrow> 'n series_handle" where
  "series_new mf ts background_line lookup =
     (let bgs = map (\<lambda>j. map (\<lambda>i. background_line i ! j) [0..<2 * mf_fields mf]) [0..<length ts]
      in \<lparr>sh_model = mf, sh_times = ts, sh_background = bgs, sh_lookup = lookup, sh_dN = map (mf_gauge1 mf) bgs\<rparr>)"

definition add_at_times :: "(nat \<Rightarrow> 'n::plus) \<Rightarrow> 'n list \<Rightarrow> 'n list" where
  "add_at_times f z = map (\<lambda>j. z ! j + f j) [0..<length z]"

definition series_twopf :: "'n::field series_handle \<Rightarrow> u32 \<Rightarrow> 'n list" where
  "series_twopf h k =
     (let N = mf_fields (sh_model h)
      in fold (\<lambda>(m, n). let line = sh_lookup h Cf_twopf_re (state_flatten2 N m n) k
            in add_at_times (\<lambda>j. sh_dN h ! j ! m * sh_dN h ! j ! n * line ! j))
          (List.product [0..<2 * N] [0..<2 * N]) (replicate (length (sh_times h)) 0))"

definition series_gauge2 :: "'n series_handle \<Rightarrow> 'n \<Rightarrow> 'n \<Rightarrow> 'n \<Rightarrow> 'n list list" where
  "series_gauge2 h a b c = map (\<lambda>j. mf_gauge2 (sh_model h) (sh_background h ! j) a b c (sh_times h ! j)) [0..<length (sh_times h)]"

definition series_linear :: "'n::field series_handle \<Rightarrow> u32 \<Rightarrow> 'n list \<Rightarrow> 'n list" where
  "series_linear h k =
     (let N = mf_fields (sh_model h)
      in fold (\<lambda>(l, m, n). let line = sh_lookup h Cf_threepf_Nderiv (state_flatten3 N l m n) k
            in add_at_times (\<lambda>j. sh_dN h ! j ! l * sh_dN h ! j ! m * sh_dN h ! j ! n * line ! j))
          (List.product [0..<2 * N] (List.product [0..<2 * N] [0..<2 * N])))"

definition series_quadratic :: "'n::field series_handle \<Rightarrow> 'n threepf_kconfig_record \<Rightarrow> 'n \<Rightarrow> 'n \<Rightarrow> 'n \<Rightarrow> 'n list list
    \<Rightarrow> 'n list list \<Rightarrow> 'n list list \<Rightarrow> 'n list \<Rightarrow> 'n list" where
  "series_quadratic h c k1k2 k1k3 k2k3 g123 g213 g312 =
     (let N = mf_fields (sh_model h); fl = state_flatten2 N; re = sh_lookup h Cf_twopf_re; im = sh_lookup h Cf_twopf_im;
          dN = sh_dN h; s1 = hk_k1_serial c; s2 = hk_k2_serial c; s3 = hk_k3_serial c
      in fold (\<lambda>(l, m, p, q).
           add_at_times (\<lambda>j. g312 ! j ! fl l m * dN ! j ! p * dN ! j ! q * k1k2
               * (re (fl l p) s1 ! j * re (fl m q) s2 ! j - im (fl l p) s1 ! j * im (fl m q) s2 ! j))
           \<circ> add_at_times (\<lambda>j. g213 ! j ! fl l m * dN ! j ! p * dN ! j ! q * k1k3
               * (re (fl l p) s1 ! j * re (fl m q) s3 ! j - im (fl l p) s1 ! j * im (fl m q) s3 ! j))
           \<circ> add_at_times (\<lambda>j. g123 ! j ! fl l m * dN ! j ! p * dN ! j ! q * k2k3
               * (re (fl l p) s2 ! j * re (fl m q) s3 ! j - im (fl l p) s2 ! j * im (fl m q) s3 ! j)))
         (List.product [0..<2 * N] (List.product [0..<2 * N] (List.product [0..<2 * N] [0..<2 * N]))))"

definition series_threepf :: "'n::field series_handle \<Rightarrow> 'n threepf_kconfig_record \<Rightarrow> 'n list \<times> 'n list" where
  "series_threepf h c =
     (let T = length (sh_times h); k1 = hk_k1 c; k2 = hk_k2 c; k3 = hk_k3 c;
          k1k2 = k3 * k3 / (k1 * k2); k1k3 = k2 * k2 / (k1 * k3); k2k3 = k1 * k1 / (k2 * k3);
          g123 = series_gauge2 h k1 k2 k3; g213 = series_gauge2 h k2 k1 k3; g312 = series_gauge2 h k3 k1 k2;
          z = series_quadratic h c k1k2 k1k3 k2k3 g123 g213 g312 (series_linear h (hk_serial c) (replicate T 0));
          t1 = series_twopf h (hk_k1_serial c); t2 = series_twopf h (hk_k2_serial c); t3 = series_twopf h (hk_k3_serial c)
      in (z, map (\<lambda>j. z ! j / (6 / 5 * (t1 ! j * t2 ! j * k1k2 + t1 ! j * t3 ! j * k1k3 + t2 ! j * t3 ! j * k2k3))) [0..<T]))"

section \<open>The two computations agree\<close>

lemma length_add_at_times [simp]: "length (add_at_times f z) = length z"
  by (simp add: add_at_times_def)

lemma nth_add_at_times [simp]: "j < length z \<Longrightarrow> add_at_times f z ! j = z ! j + f j"
  by (simp add: add_at_times_def)

lemma length_fold_add [simp]: "length (fold (\<lambda>x. add_at_times (F x)) xs z) = length z"
  by (induction xs arbitrary: z) simp_all

lemma nth_fold_add:
  "j < length z \<Longrightarrow> fold (\<lambda>x. add_at_times (F x)) xs z ! j = z ! j + (\<Sum>x\<leftarrow>xs. F x j :: 'n::field)"
  by (induction xs arbitrary: z) (simp_all add: algebra_simps)

lemma sum_list_product:
  "(\<Sum>x\<leftarrow>List.product [0..<a] ys. f x) = (\<Sum>x<a. \<Sum>y\<leftarrow>ys. f (x, y) :: 'n::field)"
  by (induction a) (simp_all add: product_concat_map comp_def add.commute)

lemma add_at_times_comp:
  "add_at_times h \<circ> add_at_times g \<circ> add_at_times f = add_at_times (\<lambda>j. f j + g j + h j :: 'n::field)"
  by (simp add: fun_eq_iff add_at_times_def algebra_simps)

lemma sum_list_upt: "(\<Sum>x\<leftarrow>[0..<a]. f x) = (\<Sum>x<a. f x :: 'n::field)"
  by (induction a) (simp_all add: add.commute)

definition matrix_size :: "nat \<Rightarrow> nat" where
  "matrix_size N = 2 * N * (2 * N)"

definition cube_size :: "nat \<Rightarrow> nat" where
  "cube_size N = matrix_size N * (2 * N)"

text \<open>What the lines of the database hold at a time.\<close>

definition column :: "'n series_handle \<Rightarrow> cf_line \<Rightarrow> nat \<Rightarrow> u32 \<Rightarrow> nat \<Rightarrow> 'n list" where
  "column h ty s k j = map (\<lambda>i. sh_lookup h ty i k ! j) [0..<s]"

definition correlators_at :: "'n series_handle \<Rightarrow> 'n threepf_kconfig_record \<Rightarrow> nat \<Rightarrow> 'n correlators" where
  "correlators_at h c j =
     (let s = matrix_size (mf_fields (sh_model h)); col = (\<lambda>ty k. column h ty s k j)
      in \<lparr>co_k1_re = col Cf_twopf_re (hk_k1_serial c), co_k1_im = col Cf_twopf_im (hk_k1_serial c),
          co_k2_re = col Cf_twopf_re (hk_k2_serial c), co_k2_im = col Cf_twopf_im (hk_k2_serial c),
          co_k3_re = col Cf_twopf_re (hk_k3_serial c), co_k3_im = col Cf_twopf_im (hk_k3_serial c),
          co_bg = sh_background h ! j\<rparr>)"

lemma state_flatten2_bound: "m < 2 * N \<Longrightarrow> n < 2 * N \<Longrightarrow> state_flatten2 N m n < matrix_size N"
proof -
  assume "m < 2 * N" and n: "n < 2 * N"
  then have "2 * N * Suc m \<le> 2 * N * (2 * N)" by (intro mult_left_mono) simp_all
  then show ?thesis using n by (simp add: state_flatten2_def matrix_size_def)
qed

lemma state_flatten3_bound:
  "l < 2 * N \<Longrightarrow> m < 2 * N \<Longrightarrow> n < 2 * N \<Longrightarrow> state_flatten3 N l m n < cube_size N"
proof -
  assume l: "l < 2 * N" and m: "m < 2 * N" and n: "n < 2 * N"
  have "state_flatten3 N l m n = matrix_size N * l + state_flatten2 N m n"
    by (simp add: state_flatten3_def state_flatten2_def matrix_size_def)
  also have "\<dots> < matrix_size N * Suc l" using state_flatten2_bound [OF m n] by simp
  also have "\<dots> \<le> matrix_size N * (2 * N)" using l by (intro mult_left_mono) simp_all
  finally show ?thesis by (simp add: cube_size_def)
qed

lemma nth_column [simp]: "i < s \<Longrightarrow> column h ty s k j ! i = sh_lookup h ty i k ! j"
  by (simp add: column_def)

lemma nth_series_twopf:
  assumes "j < length (sh_times h)"
  shows "series_twopf h k ! j
    = zeta_twopf_sum (mf_fields (sh_model h)) (sh_dN h ! j) (column h Cf_twopf_re (matrix_size (mf_fields (sh_model h))) k j)"
  using assms unfolding series_twopf_def zeta_twopf_sum_def
  by (simp add: case_prod_unfold nth_fold_add sum_list_product sum_list_upt state_flatten2_bound Let_def)

lemma nth_series_linear:
  assumes "j < length z"
  shows "series_linear h k z ! j = z ! j + (let N = mf_fields (sh_model h); g = sh_dN h ! j
    in \<Sum>l<2 * N. \<Sum>m<2 * N. \<Sum>n<2 * N. g ! l * g ! m * g ! n * column h Cf_threepf_Nderiv (cube_size N) k j ! state_flatten3 N l m n)"
  using assms unfolding series_linear_def
  by (simp add: case_prod_unfold nth_fold_add sum_list_product sum_list_upt state_flatten3_bound Let_def)

lemma length_series_linear [simp]: "length (series_linear h k z) = length z"
  unfolding series_linear_def by (simp add: case_prod_unfold Let_def)

lemma nth_series_quadratic:
  assumes "j < length z"
  shows "series_quadratic h c k1k2 k1k3 k2k3 g123 g213 g312 z ! j = z ! j
    + (let N = mf_fields (sh_model h); g = sh_dN h ! j; co = correlators_at h c j
       in \<Sum>l<2 * N. \<Sum>m<2 * N. \<Sum>p<2 * N. \<Sum>q<2 * N.
         quadratic_component N (g123 ! j) g k2k3 (co_k2_re co) (co_k2_im co) (co_k3_re co) (co_k3_im co) l m p q
         + quadratic_component N (g213 ! j) g k1k3 (co_k1_re co) (co_k1_im co) (co_k3_re co) (co_k3_im co) l m p q
         + quadratic_component N (g312 ! j) g k1k2 (co_k1_re co) (co_k1_im co) (co_k2_re co) (co_k2_im co) l m p q)"
  using assms unfolding series_quadratic_def add_at_times_comp quadratic_component_def correlators_at_def
  by (simp add: case_prod_unfold nth_fold_add sum_list_product sum_list_upt state_flatten2_bound Let_def)

lemma length_series_quadratic [simp]: "length (series_quadratic h c a b d g1 g2 g3 z) = length z"
  unfolding series_quadratic_def add_at_times_comp by (simp add: case_prod_unfold Let_def)

lemma series_at:
  fixes c :: "'n::field threepf_kconfig_record"
  assumes "j < length (sh_times h)" and "sh_dN h ! j = mf_gauge1 (sh_model h) (sh_background h ! j)"
  defines "v \<equiv> agent_zeta_threepf (sh_model h) c (sh_times h ! j)
    (column h Cf_threepf_Nderiv (cube_size (mf_fields (sh_model h))) (hk_serial c) j) (correlators_at h c j)"
  shows "fst (series_threepf h c) ! j = zv_threepf v \<and> snd (series_threepf h c) ! j = zv_redbsp v"
proof -
  have bg: "co_bg (correlators_at h c j) = sh_background h ! j" by (simp add: correlators_at_def Let_def)
  have tw: "series_twopf h (hk_k1_serial c) ! j = zeta_twopf_sum (mf_fields (sh_model h)) (sh_dN h ! j) (co_k1_re (correlators_at h c j))"
    "series_twopf h (hk_k2_serial c) ! j = zeta_twopf_sum (mf_fields (sh_model h)) (sh_dN h ! j) (co_k2_re (correlators_at h c j))"
    "series_twopf h (hk_k3_serial c) ! j = zeta_twopf_sum (mf_fields (sh_model h)) (sh_dN h ! j) (co_k3_re (correlators_at h c j))"
    using nth_series_twopf [OF assms(1)] by (simp_all add: correlators_at_def Let_def)
  have g: "series_gauge2 h a b d ! j = mf_gauge2 (sh_model h) (sh_background h ! j) a b d (sh_times h ! j)" for a b d
    using assms(1) by (simp add: series_gauge2_def)
  have z: "fst (series_threepf h c) ! j = zv_threepf v"
    using assms(1) by (simp add: series_threepf_def Let_def nth_series_quadratic nth_series_linear)
      (simp add: v_def agent_zeta_threepf_def Let_def g bg assms(2))
  have "snd (series_threepf h c) ! j = zv_redbsp v"
    using assms(1) z by (simp add: series_threepf_def Let_def tw) (simp add: v_def agent_zeta_threepf_def Let_def bg assms(2))
  with z show ?thesis by simp
qed

text \<open>C14: The gadget and the delegate agree on what is in the database. At every time the gadget computes, from the columns of the
  database, what the delegate would compute if it were given the columns of that time as its state, with the three-point
  function of the time derivatives in the place of its own. Nothing is said of the values that the delegate stored
  during the integration, from the state it then had.\<close>

theorem timeseries_agrees_with_delegate:
  "series_threepf (series_new mf ts background_line lookup) c =
     (let h = series_new mf ts background_line lookup;
          v = (\<lambda>j. agent_zeta_threepf mf c (ts ! j)
            (column h Cf_threepf_Nderiv (cube_size (mf_fields mf)) (hk_serial c) j) (correlators_at h c j))
      in (map (\<lambda>j. zv_threepf (v j)) [0..<length ts], map (\<lambda>j. zv_redbsp (v j)) [0..<length ts]))"
proof -
  let ?h = "series_new mf ts background_line lookup"
  have new: "sh_model ?h = mf" "sh_times ?h = ts" "length (sh_background ?h) = length ts"
    "sh_dN ?h = map (mf_gauge1 mf) (sh_background ?h)" by (simp_all add: series_new_def Let_def)
  have l: "length (fst (series_threepf ?h c)) = length ts" "length (snd (series_threepf ?h c)) = length ts"
    by (simp_all add: series_threepf_def Let_def new(2))
  show ?thesis
    unfolding Let_def using series_at [of _ ?h c] by (intro prod_eqI nth_equalityI) (simp_all add: l new)
qed

section \<open>Symmetry of the bispectrum\<close>

datatype wavenumber_pair = First_two | Last_two | Outer_two

fun exchange3 :: "wavenumber_pair \<Rightarrow> 'a \<times> 'a \<times> 'a \<Rightarrow> 'a \<times> 'a \<times> 'a" where
  "exchange3 First_two (a, b, c) = (b, a, c)"
| "exchange3 Last_two (a, b, c) = (a, c, b)"
| "exchange3 Outer_two (a, b, c) = (c, b, a)"

definition exchange_config :: "wavenumber_pair \<Rightarrow> 'n threepf_kconfig_record \<Rightarrow> 'n threepf_kconfig_record" where
  "exchange_config p c =
     (let (s1, s2, s3) = exchange3 p (hk_k1_serial c, hk_k2_serial c, hk_k3_serial c);
          (k1, k2, k3) = exchange3 p (hk_k1 c, hk_k2 c, hk_k3 c);
          (t1, t2, t3) = exchange3 p (hk_store_k1 c, hk_store_k2 c, hk_store_k3 c)
      in c\<lparr>hk_k1_serial := s1, hk_k2_serial := s2, hk_k3_serial := s3, hk_k1 := k1, hk_k2 := k2, hk_k3 := k3,
           hk_store_k1 := t1, hk_store_k2 := t2, hk_store_k3 := t3\<rparr>)"

definition exchange_correlators :: "wavenumber_pair \<Rightarrow> 'n correlators \<Rightarrow> 'n correlators" where
  "exchange_correlators p co =
     (let (r1, r2, r3) = exchange3 p (co_k1_re co, co_k2_re co, co_k3_re co);
          (i1, i2, i3) = exchange3 p (co_k1_im co, co_k2_im co, co_k3_im co)
      in co\<lparr>co_k1_re := r1, co_k1_im := i1, co_k2_re := r2, co_k2_im := i2, co_k3_re := r3, co_k3_im := i3\<rparr>)"

text \<open>Exchanging the indices of the three-point function likewise.\<close>

definition transposed :: "wavenumber_pair \<Rightarrow> nat \<Rightarrow> 'n list \<Rightarrow> 'n list \<Rightarrow> bool" where
  "transposed p N tr s \<longleftrightarrow> (\<forall>l < 2 * N. \<forall>m < 2 * N. \<forall>n < 2 * N.
     (case exchange3 p (l, m, n) of (a, b, d) \<Rightarrow> tr ! state_flatten3 N a b d) = s ! state_flatten3 N l m n)"

text \<open>What the generated second gauge transformation is: symmetric in its last two wavenumbers, with their indices.\<close>

definition gauge_symmetric :: "'n model_functions \<Rightarrow> 'n list \<Rightarrow> 'n \<Rightarrow> bool" where
  "gauge_symmetric mf bg t \<longleftrightarrow> (\<forall>a b d. \<forall>l < 2 * mf_fields mf. \<forall>m < 2 * mf_fields mf.
     mf_gauge2 mf bg a d b t ! state_flatten2 (mf_fields mf) m l = mf_gauge2 mf bg a b d t ! state_flatten2 (mf_fields mf) l m)"

lemma exchange_background: "co_bg (exchange_correlators p co) = co_bg co"
  by (cases p) (simp_all add: exchange_correlators_def)

lemma exchange_fields:
  "hk_k1 (exchange_config p c) = fst (exchange3 p (hk_k1 c, hk_k2 c, hk_k3 c))"
  "hk_k2 (exchange_config p c) = fst (snd (exchange3 p (hk_k1 c, hk_k2 c, hk_k3 c)))"
  "hk_k3 (exchange_config p c) = snd (snd (exchange3 p (hk_k1 c, hk_k2 c, hk_k3 c)))"
  "co_k1_re (exchange_correlators p co) = fst (exchange3 p (co_k1_re co, co_k2_re co, co_k3_re co))"
  "co_k2_re (exchange_correlators p co) = fst (snd (exchange3 p (co_k1_re co, co_k2_re co, co_k3_re co)))"
  "co_k3_re (exchange_correlators p co) = snd (snd (exchange3 p (co_k1_re co, co_k2_re co, co_k3_re co)))"
  "co_k1_im (exchange_correlators p co) = fst (exchange3 p (co_k1_im co, co_k2_im co, co_k3_im co))"
  "co_k2_im (exchange_correlators p co) = fst (snd (exchange3 p (co_k1_im co, co_k2_im co, co_k3_im co)))"
  "co_k3_im (exchange_correlators p co) = snd (snd (exchange3 p (co_k1_im co, co_k2_im co, co_k3_im co)))"
  by (cases p; simp add: exchange_config_def exchange_correlators_def)+

text \<open>The sum over the last component with its indices renamed.\<close>

lemma sum_exchange4:
  "(\<Sum>l<k. \<Sum>m<k. \<Sum>p<k. \<Sum>q<k. f l m p q) = (\<Sum>l<k. \<Sum>m<k. \<Sum>p<k. \<Sum>q<k. f m l q p :: 'n::field)" for k :: nat
proof -
  have "(\<Sum>p<k. \<Sum>q<k. f l m p q) = (\<Sum>p<k. \<Sum>q<k. f l m q p)" for l m by (rule sum.swap)
  then have "(\<Sum>l<k. \<Sum>m<k. \<Sum>p<k. \<Sum>q<k. f l m p q) = (\<Sum>l<k. \<Sum>m<k. \<Sum>p<k. \<Sum>q<k. f l m q p)" by simp
  also have "\<dots> = (\<Sum>l<k. \<Sum>m<k. \<Sum>p<k. \<Sum>q<k. f m l q p)" by (rule sum.swap)
  finally show ?thesis .
qed

text \<open>The parts of the delegate's values.\<close>

definition linear_sum :: "'n::field model_functions \<Rightarrow> 'n list \<Rightarrow> 'n list \<Rightarrow> 'n" where
  "linear_sum mf bg s = (\<Sum>l<2 * mf_fields mf. \<Sum>m<2 * mf_fields mf. \<Sum>n<2 * mf_fields mf.
     mf_gauge1 mf bg ! l * mf_gauge1 mf bg ! m * mf_gauge1 mf bg ! n * s ! state_flatten3 (mf_fields mf) l m n)"

definition quadratic_sum :: "'n::field model_functions \<Rightarrow> 'n list \<Rightarrow> 'n \<Rightarrow> 'n \<Rightarrow> 'n \<Rightarrow> 'n \<Rightarrow> 'n \<Rightarrow> 'n list \<Rightarrow> 'n list \<Rightarrow> 'n list
    \<Rightarrow> 'n list \<Rightarrow> 'n" where
  "quadratic_sum mf bg t a b d w x_re x_im y_re y_im =
     (\<Sum>l<2 * mf_fields mf. \<Sum>m<2 * mf_fields mf. \<Sum>p<2 * mf_fields mf. \<Sum>q<2 * mf_fields mf.
       quadratic_component (mf_fields mf) (mf_gauge2 mf bg a b d t) (mf_gauge1 mf bg) w x_re x_im y_re y_im l m p q)"

definition form_sum :: "'n::field model_functions \<Rightarrow> 'n list \<Rightarrow> 'n \<Rightarrow> 'n \<Rightarrow> 'n \<Rightarrow> 'n list \<Rightarrow> 'n list \<Rightarrow> 'n list \<Rightarrow> 'n" where
  "form_sum mf bg k1 k2 k3 r1 r2 r3 =
     (let z = zeta_twopf_sum (mf_fields mf) (mf_gauge1 mf bg)
      in 6 / 5 * (z r1 * z r2 * (k3 * k3 / (k1 * k2)) + z r1 * z r3 * (k2 * k2 / (k1 * k3)) + z r2 * z r3 * (k1 * k1 / (k2 * k3))))"

lemma agent_parts:
  "zv_threepf (agent_zeta_threepf mf c t s co) = linear_sum mf (co_bg co) s
     + (quadratic_sum mf (co_bg co) t (hk_k1 c) (hk_k2 c) (hk_k3 c) (hk_k1 c * hk_k1 c / (hk_k2 c * hk_k3 c))
          (co_k2_re co) (co_k2_im co) (co_k3_re co) (co_k3_im co)
        + quadratic_sum mf (co_bg co) t (hk_k2 c) (hk_k1 c) (hk_k3 c) (hk_k2 c * hk_k2 c / (hk_k1 c * hk_k3 c))
          (co_k1_re co) (co_k1_im co) (co_k3_re co) (co_k3_im co)
        + quadratic_sum mf (co_bg co) t (hk_k3 c) (hk_k1 c) (hk_k2 c) (hk_k3 c * hk_k3 c / (hk_k1 c * hk_k2 c))
          (co_k1_re co) (co_k1_im co) (co_k2_re co) (co_k2_im co))"
  "zv_redbsp (agent_zeta_threepf mf c t s co) = zv_threepf (agent_zeta_threepf mf c t s co)
     / form_sum mf (co_bg co) (hk_k1 c) (hk_k2 c) (hk_k3 c) (co_k1_re co) (co_k2_re co) (co_k3_re co)"
  by (simp_all add: agent_zeta_threepf_def Let_def linear_sum_def quadratic_sum_def form_sum_def sum.distrib)

lemma quadratic_exchange:
  assumes "gauge_symmetric mf bg t"
  shows "quadratic_sum mf bg t a d b w y_re y_im x_re x_im = quadratic_sum mf bg t a b d w x_re x_im y_re y_im"
  using assms unfolding gauge_symmetric_def quadratic_sum_def
  by (subst sum_exchange4, intro sum.cong refl) (simp add: quadratic_component_def algebra_simps)

lemma linear_exchange:
  fixes mf :: "'n::field model_functions"
  assumes "transposed x (mf_fields mf) tr s"
  shows "linear_sum mf bg tr = linear_sum mf bg s"
proof -
  define N and g where "N = mf_fields mf" and "g = mf_gauge1 mf bg"
  let ?f = "\<lambda>l m n. g ! l * g ! m * g ! n * tr ! state_flatten3 N l m n"
  have "(\<Sum>l<2 * N. \<Sum>m<2 * N. \<Sum>n<2 * N. ?f l m n)
      = (\<Sum>l<2 * N. \<Sum>m<2 * N. \<Sum>n<2 * N. case exchange3 x (l, m, n) of (a, b, d) \<Rightarrow> ?f a b d)"
  proof (cases x)
    case First_two
    then show ?thesis by simp (rule sum.swap)
  next
    case Last_two
    have "(\<Sum>m<2 * N. \<Sum>n<2 * N. ?f l m n) = (\<Sum>m<2 * N. \<Sum>n<2 * N. ?f l n m)" for l by (rule sum.swap)
    with Last_two show ?thesis by simp
  next
    case Outer_two
    have s: "(\<Sum>l<2 * N. \<Sum>n<2 * N. h l n) = (\<Sum>l<2 * N. \<Sum>n<2 * N. h n l)" for h :: "nat \<Rightarrow> nat \<Rightarrow> 'n" by (rule sum.swap)
    have "(\<Sum>l<2 * N. \<Sum>m<2 * N. \<Sum>n<2 * N. ?f l m n) = (\<Sum>m<2 * N. \<Sum>l<2 * N. \<Sum>n<2 * N. ?f l m n)" by (rule sum.swap)
    also have "\<dots> = (\<Sum>m<2 * N. \<Sum>l<2 * N. \<Sum>n<2 * N. ?f n m l)" by (intro sum.cong refl s)
    also have "\<dots> = (\<Sum>l<2 * N. \<Sum>m<2 * N. \<Sum>n<2 * N. ?f n m l)" by (rule sum.swap)
    finally show ?thesis using Outer_two by simp
  qed
  also have "\<dots> = (\<Sum>l<2 * N. \<Sum>m<2 * N. \<Sum>n<2 * N. g ! l * g ! m * g ! n * s ! state_flatten3 N l m n)"
    using assms unfolding transposed_def N_def by (intro sum.cong refl) (cases x; simp add: ac_simps)
  finally show ?thesis by (simp add: linear_sum_def N_def g_def)
qed

text \<open>C15: The bispectrum and the reduced bispectrum that the delegate computes do not depend on the order of the
  wavenumbers: they do not change when any two of them are exchanged, with their correlators, provided that the three-point
  function given has its indices exchanged likewise and that the second gauge transformation, generated from the model, is
  symmetric in its last two wavenumbers.\<close>

theorem bispectrum_symmetric:
  fixes c :: "'n::field threepf_kconfig_record"
  assumes "transposed x (mf_fields mf) tr threepf" and "gauge_symmetric mf (co_bg co) t"
  shows "zv_threepf (agent_zeta_threepf mf (exchange_config x c) t tr (exchange_correlators x co))
      = zv_threepf (agent_zeta_threepf mf c t threepf co)
    \<and> zv_redbsp (agent_zeta_threepf mf (exchange_config x c) t tr (exchange_correlators x co))
      = zv_redbsp (agent_zeta_threepf mf c t threepf co)"
proof -
  have same: "zv_threepf (agent_zeta_threepf mf (exchange_config x c) t tr (exchange_correlators x co))
      = zv_threepf (agent_zeta_threepf mf c t threepf co)"
    unfolding agent_parts(1) exchange_background linear_exchange [OF assms(1)]
    by (cases x) (simp_all add: exchange_fields quadratic_exchange [OF assms(2)] mult.commute add_ac)
  have "form_sum mf bg (hk_k1 (exchange_config x c)) (hk_k2 (exchange_config x c)) (hk_k3 (exchange_config x c))
      (co_k1_re (exchange_correlators x co)) (co_k2_re (exchange_correlators x co)) (co_k3_re (exchange_correlators x co))
    = form_sum mf bg (hk_k1 c) (hk_k2 c) (hk_k3 c) (co_k1_re co) (co_k2_re co) (co_k3_re co)" for bg
    by (cases x) (simp_all add: exchange_fields form_sum_def Let_def ac_simps)
  with same show ?thesis by (simp add: agent_parts(2) exchange_background)
qed

text \<open>Witness: one field, a constant gauge transformation, and the exchange of the outer two wavenumbers.\<close>

definition symmetric_model :: "rat model_functions" where
  "symmetric_model = \<lparr>mf_fields = 1, mf_gauge1 = (\<lambda>bg. [1, 2]), mf_gauge2 = (\<lambda>bg a b c t. [1, 3, 3, 2]),
     mf_B = (\<lambda>bg a b c t. []), mf_C = (\<lambda>bg a b c t. [])\<rparr>"

definition example_triangle :: "rat threepf_kconfig_record" where
  "example_triangle = \<lparr>hk_serial = 0, hk_k1_serial = 0, hk_k2_serial = 1, hk_k3_serial = 2, hk_k1 = 1, hk_k2 = 2, hk_k3 = 2,
     hk_kt = 5, hk_store_background = True, hk_store_k1 = True, hk_store_k2 = True, hk_store_k3 = True\<rparr>"

definition example_correlators :: "rat correlators" where
  "example_correlators = \<lparr>co_k1_re = [1, 0, 0, 1], co_k1_im = [0, 0, 0, 0], co_k2_re = [2, 0, 0, 2], co_k2_im = [0, 0, 0, 0],
     co_k3_re = [3, 0, 0, 3], co_k3_im = [0, 0, 0, 0], co_bg = [0, 0]\<rparr>"

theorem bispectrum_symmetric_witness:
  "zv_threepf (agent_zeta_threepf symmetric_model (exchange_config Outer_two example_triangle) 0 [0, 4, 2, 6, 1, 5, 3, 7]
      (exchange_correlators Outer_two example_correlators))
   = zv_threepf (agent_zeta_threepf symmetric_model example_triangle 0 [0, 1, 2, 3, 4, 5, 6, 7] example_correlators)"
  by (rule conjunct1 [OF bispectrum_symmetric])
    (simp_all add: transposed_def gauge_symmetric_def symmetric_model_def state_flatten3_def state_flatten2_def less_2_cases_iff)

section \<open>Shifts that went astray\<close>

text \<open>An index triple without momenta is not shifted.\<close>

lemma fields_not_shifted:
  "l < mf_fields mf \<Longrightarrow> m < mf_fields mf \<Longrightarrow> n < mf_fields mf \<Longrightarrow> agent_shift mf c t co l m n v = v"
  by (simp add: agent_shift_def index_is_momentum_def Let_def)

definition single_field :: "rat list \<Rightarrow> rat list \<Rightarrow> rat model_functions" where
  "single_field B C = \<lparr>mf_fields = 1, mf_gauge1 = (\<lambda>bg. [0, 0]), mf_gauge2 = (\<lambda>bg a b c t. [0, 0, 0, 0]),
     mf_B = (\<lambda>bg a b c t. B), mf_C = (\<lambda>bg a b c t. C)\<rparr>"

lemmas shift_defs = compute_shift_def former_shift_def single_field_def fixed_pair_def state_flatten2_def fields_flatten3_def
  field_species_def field_momentum_def index_is_momentum_def Let_def

text \<open>An operator in the last place is shifted as one in the middle: the correlators of a field and a momentum are read with
  their indices exchanged.\<close>

lemma last_operator_shifted_as_middle:
  "agent_shift (single_field [0] [1]) \<lparr>hk_serial = 0, hk_k1_serial = 0, hk_k2_serial = 1, hk_k3_serial = 2, hk_k1 = 1, hk_k2 = 1,
       hk_k3 = 1, hk_kt = 3, hk_store_background = True, hk_store_k1 = True, hk_store_k2 = True, hk_store_k3 = True\<rparr> 0
     \<lparr>co_k1_re = [1, 0, 0, 0], co_k1_im = [0, 0, 0, 0], co_k2_re = [1, 2, 5, 0], co_k2_im = [0, 0, 0, 0],
       co_k3_re = [0, 0, 0, 0], co_k3_im = [0, 0, 0, 0], co_bg = []\<rparr> 0 0 1 0 = - 2"
  "compute_shift (single_field [0] [1]) 0 1 0 0 1 1 1 [1, 0, 0, 0] [0, 0, 0, 0] [1, 2, 5, 0] [0, 0, 0, 0] [] Right_position = - 5"
  by (simp_all add: agent_shift_def shift_defs)

text \<open>The last product of the sum takes a real part for an imaginary one.\<close>

lemma imaginary_part_left_out:
  "compute_shift (single_field [0] [1]) 0 1 0 0 1 1 1 [0, 0, 0, 0] [1, 1, 1, 1] [0, 0, 0, 0] [1, 1, 1, 1] [] Left_position = 1"
  "former_shift (single_field [0] [1]) 0 1 0 0 1 1 1 [0, 0, 0, 0] [1, 1, 1, 1] [0, 0, 0, 0] [1, 1, 1, 1] [] Left_position = 2"
  by (simp_all add: shift_defs)

text \<open>The momentum is put on the fixed index, not on the summed one: both agree on the tensor of the fields alone, but for
  the correlator of a field with a momentum the component is the transposed one.\<close>

lemma momentum_on_wrong_index:
  "compute_shift (single_field [0] [1]) 0 1 0 0 1 1 1 [0, 3, 7, 0] [0, 0, 0, 0] [1, 0, 0, 0] [0, 0, 0, 0] [] Left_position = - 3"
  "former_shift (single_field [0] [1]) 0 1 0 0 1 1 1 [0, 3, 7, 0] [0, 0, 0, 0] [1, 0, 0, 0] [0, 0, 0, 0] [] Left_position = - 7"
  by (simp_all add: shift_defs)

end
