(* ===== verification/Batchers.thy ===== *)
theory Batchers
  imports Postprocess
begin

text \<open>
  The batchers (\<open>transport-runtime/data/batchers\<close>): caches for the rows an integration or a postintegration produces, which
  are flushed to a temporary container and announced to the master when they exceed the capacity. A batcher of an integration
  can be paired with one for the correlation functions of the curvature perturbation. Records extend each other as the
  classes do. The callbacks for writing, dispatching and replacing a container and the clock are members of a batcher and are
  asked with a running number; a callback answers with the exception it throws.
\<close>

section \<open>Generic batcher\<close>

datatype flush_mode = Flush_immediate | Flush_delayed

datatype replacement_action = Action_replace | Action_close

text \<open>The contents of the current container, the containers announced so far and whether the handle of the container is
  open. Times are in nanoseconds.\<close>

record 'n generic_batcher =
  gb_group :: u32
  gb_worker :: u32
  gb_capacity :: u32
  gb_flush_due :: bool
  gb_mode :: flush_mode
  gb_checkpoint :: nat
  gb_started :: nat
  gb_container :: "'n row multiset"
  gb_sent :: "'n row multiset list"
  gb_open :: bool
  gb_events :: nat
  gb_writer :: "nat \<Rightarrow> exn option"
  gb_dispatcher :: "nat \<Rightarrow> exn option"
  gb_replacer :: "nat \<Rightarrow> exn option"
  gb_clock :: "nat \<Rightarrow> nat"

definition updateA :: "('s \<Rightarrow> 's) \<Rightarrow> ('s, unit) act" where
  "updateA f s = (Inr (), f s)"

definition next_event :: "('n, 'z) generic_batcher_scheme \<Rightarrow> ('n, 'z) generic_batcher_scheme" where
  "next_event b = b\<lparr>gb_events := Suc (gb_events b)\<rparr>"

text \<open>The rows are written in a transaction, all of them or none. The handle of a closed container must not be used.\<close>

definition write_rows :: "(('n, 'z) generic_batcher_scheme \<Rightarrow> 'n row list) \<Rightarrow> (('n, 'z) generic_batcher_scheme, unit) act" where
  "write_rows rows b =
     (if \<not> gb_open b then (Inl Undefined, b)
      else case gb_writer b (gb_events b) of
        Some e \<Rightarrow> (Inl e, next_event b)
      | None \<Rightarrow> (Inr (), (next_event b)\<lparr>gb_container := gb_container b + mset (rows b)\<rparr>))"

definition dispatch_container :: "(('n, 'z) generic_batcher_scheme, unit) act" where
  "dispatch_container b =
     (case gb_dispatcher b (gb_events b) of
        Some e \<Rightarrow> (Inl e, next_event b)
      | None \<Rightarrow> (Inr (), (next_event b)\<lparr>gb_sent := gb_sent b @ [gb_container b]\<rparr>))"

definition replace_container :: "replacement_action \<Rightarrow> (('n, 'z) generic_batcher_scheme, unit) act" where
  "replace_container a b =
     (case a of
        Action_close \<Rightarrow> (Inr (), (next_event b)\<lparr>gb_open := False\<rparr>)
      | Action_replace \<Rightarrow>
          (case gb_replacer b (gb_events b) of
             Some e \<Rightarrow> (Inl e, (next_event b)\<lparr>gb_open := False\<rparr>)
           | None \<Rightarrow> (Inr (), (next_event b)\<lparr>gb_open := True, gb_container := {#}\<rparr>)))"

definition restart_checkpoint :: "(('n, 'z) generic_batcher_scheme, unit) act" where
  "restart_checkpoint b = (Inr (), (next_event b)\<lparr>gb_started := gb_clock b (gb_events b)\<rparr>)"

text \<open>The flush of the concrete batchers: they differ in the rows they write and the caches they clear.\<close>

definition flush_with :: "(('n, 'z) generic_batcher_scheme \<Rightarrow> 'n row list) \<Rightarrow> (('n, 'z) generic_batcher_scheme \<Rightarrow> ('n, 'z) generic_batcher_scheme)
    \<Rightarrow> replacement_action \<Rightarrow> (('n, 'z) generic_batcher_scheme, unit) act" where
  "flush_with rows clear a =
     bindA (write_rows rows) (\<lambda>_. bindA (updateA clear) (\<lambda>_. bindA dispatch_container (\<lambda>_.
       bindA (replace_container a) (\<lambda>_. restart_checkpoint))))"

definition check_for_flush :: "(('n, 'z) generic_batcher_scheme \<Rightarrow> u64) \<Rightarrow> (replacement_action \<Rightarrow> (('n, 'z) generic_batcher_scheme, unit) act)
    \<Rightarrow> (('n, 'z) generic_batcher_scheme, unit) act" where
  "check_for_flush storage flush b =
     (if ucast (gb_capacity b) < storage b
      then (case gb_mode b of
              Flush_immediate \<Rightarrow> flush Action_replace b
            | Flush_delayed \<Rightarrow> (Inr (), b\<lparr>gb_flush_due := True\<rparr>))
      else (Inr (), b))"

text \<open>What is done at the end of a configuration.\<close>

definition flush_if_due :: "(replacement_action \<Rightarrow> (('n, 'z) generic_batcher_scheme, unit) act)
    \<Rightarrow> (('n, 'z) generic_batcher_scheme, unit) act" where
  "flush_if_due flush b =
     (if gb_flush_due b then flush Action_replace (b\<lparr>gb_flush_due := False\<rparr>)
      else if 0 < gb_checkpoint b
      then (let c = next_event b
            in if gb_checkpoint b < gb_clock b (gb_events b) - gb_started b then flush Action_replace c else (Inr (), c))
      else (Inr (), b))"

text \<open>Sizes on a 64-bit machine, for numbers of type \<open>double\<close>; the number of elements is computed with 32 bits.\<close>

definition vector_bytes :: "u32 \<Rightarrow> u64" where
  "vector_bytes nf = ucast (2 * nf) * 8"

definition matrix_bytes :: "u32 \<Rightarrow> u64" where
  "matrix_bytes nf = ucast (2 * nf * 2 * nf) * 8"

definition cube_bytes :: "u32 \<Rightarrow> u64" where
  "cube_bytes nf = ucast (2 * nf * 2 * nf * 2 * nf) * 8"

definition count_of :: "'a list \<Rightarrow> u64" where
  "count_of xs = of_nat (length xs)"

section \<open>Postintegration batchers\<close>

record 'n postintegration_batcher = "'n generic_batcher" +
  pb_items :: u32
  pb_nfields :: u32
  pb_time_items :: u32
  pb_total :: nat
  pb_longest :: nat
  pb_shortest :: nat

definition pb_begin_assignment :: "('n, 'z) postintegration_batcher_scheme \<Rightarrow> ('n, 'z) postintegration_batcher_scheme" where
  "pb_begin_assignment b = b\<lparr>pb_items := 0, pb_total := 0, pb_longest := 0, pb_shortest := 0\<rparr>"

definition report_finished_item :: "(replacement_action \<Rightarrow> (('n, 'z) postintegration_batcher_scheme, unit) act) \<Rightarrow> nat
    \<Rightarrow> (('n, 'z) postintegration_batcher_scheme, unit) act" where
  "report_finished_item flush t =
     bindA (updateA (\<lambda>b. b\<lparr>pb_items := pb_items b + 1, pb_total := pb_total b + t,
         pb_longest := (if pb_longest b = 0 \<or> pb_longest b < t then t else pb_longest b),
         pb_shortest := (if pb_shortest b = 0 \<or> t < pb_shortest b then t else pb_shortest b)\<rparr>))
       (\<lambda>_. flush_if_due flush)"

record 'n zeta_twopf_batcher = "'n postintegration_batcher" +
  z2_kconfig_items :: u32
  z2_twopf :: "'n zeta_twopf_item list"
  z2_gauge1 :: "'n element_item list"

definition z2_storage :: "'n zeta_twopf_batcher \<Rightarrow> u64" where
  "z2_storage b = (3 * 4 + 2 * 8) * count_of (z2_twopf b) + (3 * 4 + vector_bytes (pb_nfields b)) * count_of (z2_gauge1 b)"

definition z2_rows :: "'n zeta_twopf_batcher \<Rightarrow> 'n row list" where
  "z2_rows b = map Zeta_twopf_row (z2_twopf b) @ map Gauge1_row (z2_gauge1 b)"

definition z2_clear :: "'n zeta_twopf_batcher \<Rightarrow> 'n zeta_twopf_batcher" where
  "z2_clear b = b\<lparr>z2_twopf := [], z2_gauge1 := []\<rparr>"

definition z2_flush :: "replacement_action \<Rightarrow> ('n zeta_twopf_batcher, unit) act" where
  "z2_flush = flush_with z2_rows z2_clear"

definition z2_push_twopf :: "u32 \<Rightarrow> u32 \<Rightarrow> 'n \<Rightarrow> u32 \<Rightarrow> ('n zeta_twopf_batcher, unit) act" where
  "z2_push_twopf t k v s =
     bindA (updateA (\<lambda>b. b\<lparr>z2_twopf := z2_twopf b @ [\<lparr>zt_time = t, zt_kconfig = k, zt_source = s, zt_value = v,
         zt_time_items = pb_time_items b, zt_kconfig_items = z2_kconfig_items b\<rparr>]\<rparr>))
       (\<lambda>_. check_for_flush z2_storage z2_flush)"

definition z2_push_gauge1 :: "u32 \<Rightarrow> u32 \<Rightarrow> 'n list \<Rightarrow> u32 \<Rightarrow> ('n zeta_twopf_batcher, unit) act" where
  "z2_push_gauge1 t k vs s =
     bindA (updateA (\<lambda>b. b\<lparr>z2_gauge1 := z2_gauge1 b @ [\<lparr>el_time = t, el_kconfig = k, el_source = s, el_elements = vs,
         el_time_items = pb_time_items b, el_kconfig_items = z2_kconfig_items b\<rparr>]\<rparr>))
       (\<lambda>_. check_for_flush z2_storage z2_flush)"

definition z2_unbatch :: "u32 \<Rightarrow> 'n zeta_twopf_batcher \<Rightarrow> 'n zeta_twopf_batcher" where
  "z2_unbatch s b = b\<lparr>z2_twopf := filter (\<lambda>i. zt_source i \<noteq> s) (z2_twopf b),
     z2_gauge1 := filter (\<lambda>i. el_source i \<noteq> s) (z2_gauge1 b)\<rparr>"

record 'n zeta_threepf_batcher = "'n postintegration_batcher" +
  z3_kconfig_items :: u32
  z3_twopf :: "'n zeta_twopf_item list"
  z3_threepf :: "'n zeta_threepf_item list"
  z3_gauge1 :: "'n element_item list"
  z3_gauge2_123 :: "'n element_item list"
  z3_gauge2_213 :: "'n element_item list"
  z3_gauge2_312 :: "'n element_item list"

text \<open>A two-point item counts for less here than above.\<close>

definition z3_storage :: "'n zeta_threepf_batcher \<Rightarrow> u64" where
  "z3_storage b = (2 * 4 + 8) * count_of (z3_twopf b) + (3 * 4 + 3 * 8) * count_of (z3_threepf b)
     + (3 * 4 + vector_bytes (pb_nfields b)) * count_of (z3_gauge1 b)
     + (3 * 4 + matrix_bytes (pb_nfields b)) * count_of (z3_gauge2_123 b)
     + (3 * 4 + matrix_bytes (pb_nfields b)) * count_of (z3_gauge2_213 b)
     + (3 * 4 + matrix_bytes (pb_nfields b)) * count_of (z3_gauge2_312 b)"

definition z3_rows :: "'n zeta_threepf_batcher \<Rightarrow> 'n row list" where
  "z3_rows b = map Zeta_twopf_row (z3_twopf b) @ map Zeta_threepf_row (z3_threepf b) @ map Gauge1_row (z3_gauge1 b)
     @ map Gauge2_123_row (z3_gauge2_123 b) @ map Gauge2_213_row (z3_gauge2_213 b) @ map Gauge2_312_row (z3_gauge2_312 b)"

definition z3_clear :: "'n zeta_threepf_batcher \<Rightarrow> 'n zeta_threepf_batcher" where
  "z3_clear b = b\<lparr>z3_twopf := [], z3_threepf := [], z3_gauge1 := [], z3_gauge2_123 := [], z3_gauge2_213 := [], z3_gauge2_312 := []\<rparr>"

definition z3_flush :: "replacement_action \<Rightarrow> ('n zeta_threepf_batcher, unit) act" where
  "z3_flush = flush_with z3_rows z3_clear"

definition z3_twopf_item :: "u32 \<Rightarrow> u32 \<Rightarrow> 'n \<Rightarrow> u32 \<Rightarrow> 'n zeta_threepf_batcher \<Rightarrow> 'n zeta_twopf_item" where
  "z3_twopf_item t k v s b = \<lparr>zt_time = t, zt_kconfig = k, zt_source = s, zt_value = v,
     zt_time_items = pb_time_items b, zt_kconfig_items = z3_kconfig_items b\<rparr>"

definition z3_element :: "u32 \<Rightarrow> u32 \<Rightarrow> 'n list \<Rightarrow> u32 \<Rightarrow> 'n zeta_threepf_batcher \<Rightarrow> 'n element_item" where
  "z3_element t k vs s b = \<lparr>el_time = t, el_kconfig = k, el_source = s, el_elements = vs,
     el_time_items = pb_time_items b, el_kconfig_items = z3_kconfig_items b\<rparr>"

definition z3_push_twopf :: "u32 \<Rightarrow> u32 \<Rightarrow> 'n \<Rightarrow> u32 \<Rightarrow> ('n zeta_threepf_batcher, unit) act" where
  "z3_push_twopf t k v s = bindA (updateA (\<lambda>b. b\<lparr>z3_twopf := z3_twopf b @ [z3_twopf_item t k v s b]\<rparr>))
     (\<lambda>_. check_for_flush z3_storage z3_flush)"

definition z3_push_threepf :: "u32 \<Rightarrow> u32 \<Rightarrow> 'n \<Rightarrow> 'n \<Rightarrow> u32 \<Rightarrow> ('n zeta_threepf_batcher, unit) act" where
  "z3_push_threepf t k v redbsp s =
     bindA (updateA (\<lambda>b. b\<lparr>z3_threepf := z3_threepf b @ [zeta_twopf_item.extend (z3_twopf_item t k v s b) \<lparr>zh_redbsp = redbsp\<rparr>]\<rparr>))
       (\<lambda>_. check_for_flush z3_storage z3_flush)"

definition z3_push_gauge1 :: "u32 \<Rightarrow> u32 \<Rightarrow> 'n list \<Rightarrow> u32 \<Rightarrow> ('n zeta_threepf_batcher, unit) act" where
  "z3_push_gauge1 t k vs s = bindA (updateA (\<lambda>b. b\<lparr>z3_gauge1 := z3_gauge1 b @ [z3_element t k vs s b]\<rparr>))
     (\<lambda>_. check_for_flush z3_storage z3_flush)"

definition z3_push_gauge2_123 :: "u32 \<Rightarrow> u32 \<Rightarrow> 'n list \<Rightarrow> u32 \<Rightarrow> ('n zeta_threepf_batcher, unit) act" where
  "z3_push_gauge2_123 t k vs s = bindA (updateA (\<lambda>b. b\<lparr>z3_gauge2_123 := z3_gauge2_123 b @ [z3_element t k vs s b]\<rparr>))
     (\<lambda>_. check_for_flush z3_storage z3_flush)"

definition z3_push_gauge2_213 :: "u32 \<Rightarrow> u32 \<Rightarrow> 'n list \<Rightarrow> u32 \<Rightarrow> ('n zeta_threepf_batcher, unit) act" where
  "z3_push_gauge2_213 t k vs s = bindA (updateA (\<lambda>b. b\<lparr>z3_gauge2_213 := z3_gauge2_213 b @ [z3_element t k vs s b]\<rparr>))
     (\<lambda>_. check_for_flush z3_storage z3_flush)"

definition z3_push_gauge2_312 :: "u32 \<Rightarrow> u32 \<Rightarrow> 'n list \<Rightarrow> u32 \<Rightarrow> ('n zeta_threepf_batcher, unit) act" where
  "z3_push_gauge2_312 t k vs s = bindA (updateA (\<lambda>b. b\<lparr>z3_gauge2_312 := z3_gauge2_312 b @ [z3_element t k vs s b]\<rparr>))
     (\<lambda>_. check_for_flush z3_storage z3_flush)"

definition z3_unbatch :: "u32 \<Rightarrow> 'n zeta_threepf_batcher \<Rightarrow> 'n zeta_threepf_batcher" where
  "z3_unbatch s b = b\<lparr>z3_twopf := filter (\<lambda>i. zt_source i \<noteq> s) (z3_twopf b),
     z3_threepf := filter (\<lambda>i. zt_source i \<noteq> s) (z3_threepf b),
     z3_gauge1 := filter (\<lambda>i. el_source i \<noteq> s) (z3_gauge1 b),
     z3_gauge2_123 := filter (\<lambda>i. el_source i \<noteq> s) (z3_gauge2_123 b),
     z3_gauge2_213 := filter (\<lambda>i. el_source i \<noteq> s) (z3_gauge2_213 b),
     z3_gauge2_312 := filter (\<lambda>i. el_source i \<noteq> s) (z3_gauge2_312 b)\<rparr>"

text \<open>The cache of amplitudes is ordered by time and holds one item for a time.\<close>

record 'n fnl_batcher = "'n postintegration_batcher" +
  fb_items :: "'n fnl_item list"

definition fb_storage :: "'n fnl_batcher \<Rightarrow> u64" where
  "fb_storage b = (2 * 4 + 8) * count_of (fb_items b)"

definition fb_rows :: "'n fnl_batcher \<Rightarrow> 'n row list" where
  "fb_rows b = map Fnl_row (fb_items b)"

definition fb_clear :: "'n fnl_batcher \<Rightarrow> 'n fnl_batcher" where
  "fb_clear b = b\<lparr>fb_items := []\<rparr>"

definition fb_flush :: "replacement_action \<Rightarrow> ('n fnl_batcher, unit) act" where
  "fb_flush = flush_with fb_rows fb_clear"

definition accumulate_fnl :: "'n::plus fnl_item \<Rightarrow> 'n fnl_item list \<Rightarrow> 'n fnl_item list" where
  "accumulate_fnl i is =
     (case find (\<lambda>j. fn_time j = fn_time i) is of
        None \<Rightarrow> insort_key fn_time i is
      | Some j \<Rightarrow> insort_key fn_time (i\<lparr>fn_BB := fn_BB i + fn_BB j, fn_BT := fn_BT i + fn_BT j, fn_TT := fn_TT i + fn_TT j\<rparr>)
          (filter (\<lambda>j. fn_time j \<noteq> fn_time i) is))"

definition push_fnl :: "u32 \<Rightarrow> 'n::plus \<Rightarrow> 'n \<Rightarrow> 'n \<Rightarrow> ('n fnl_batcher, unit) act" where
  "push_fnl t BB BT TT =
     bindA (updateA (\<lambda>b. b\<lparr>fb_items := accumulate_fnl \<lparr>fn_time = t, fn_BB = BB, fn_BT = BT, fn_TT = TT\<rparr> (fb_items b)\<rparr>))
       (\<lambda>_. check_for_flush fb_storage fb_flush)"

definition set_items_processed :: "u32 \<Rightarrow> 'n fnl_batcher \<Rightarrow> 'n fnl_batcher" where
  "set_items_processed n b = b\<lparr>pb_items := n\<rparr>"

end
