(* ===== verification/Integration_Batchers.thy ===== *)
theory Integration_Batchers
  imports Batchers
begin

text \<open>
  The batchers of an integration (\<open>data/batchers/integration_batcher.h\<close>): those for two- and three-point functions, each
  with the batcher of the curvature perturbation it may be paired with. The functions that compute the latter from the former
  are those of \<open>Postprocess\<close>.
\<close>

section \<open>Common part\<close>

record 'n integration_batcher = "'n generic_batcher" +
  ib_nfields :: u32
  ib_time_items :: u32
  ib_statistics :: bool
  ib_initial_conditions :: bool
  ib_backg :: "'n backg_item list"
  ib_stats :: "configuration_statistics list"
  ib_failures :: u32
  ib_failed :: "u32 set"
  ib_refinements :: u32
  ib_integrations :: u32
  ib_integration_time :: nat
  ib_batching_time :: nat
  ib_max_integration :: nat
  ib_min_integration :: nat
  ib_max_batching :: nat
  ib_min_batching :: nat

definition storage_error :: "msg_id \<Rightarrow> exn" where
  "storage_error msg = Runtime_error msg"

definition check_size :: "msg_id \<Rightarrow> u32 \<Rightarrow> 'n list \<Rightarrow> ('s, unit) act" where
  "check_size msg n vs = checkA (if length vs \<noteq> unat n then Some (storage_error msg) else None)"

definition push_backg :: "(('n, 'z) integration_batcher_scheme \<Rightarrow> u64)
    \<Rightarrow> (replacement_action \<Rightarrow> (('n, 'z) integration_batcher_scheme, unit) act) \<Rightarrow> u32 \<Rightarrow> u32 \<Rightarrow> 'n list
    \<Rightarrow> (('n, 'z) integration_batcher_scheme, unit) act" where
  "push_backg storage flush t s vs b =
     bindA (check_size ''CPPTRANSPORT_NFIELDS_BACKG'' (2 * ib_nfields b) vs) (\<lambda>_.
       bindA (updateA (\<lambda>b. b\<lparr>ib_backg := ib_backg b @ [\<lparr>bg_time = t, bg_source = s, bg_coords = vs, bg_time_items = ib_time_items b\<rparr>]\<rparr>))
         (\<lambda>_. check_for_flush storage flush)) b"

text \<open>The cache is looked at before and after the statistics of the configuration are added to it.\<close>

definition report_success :: "(replacement_action \<Rightarrow> (('n, 'z) integration_batcher_scheme, unit) act) \<Rightarrow> nat \<Rightarrow> nat \<Rightarrow> u32 \<Rightarrow> nat \<Rightarrow> u32
    \<Rightarrow> (('n, 'z) integration_batcher_scheme, unit) act" where
  "report_success flush integration batching kserial steps refinement =
     bindA (updateA (\<lambda>b. b\<lparr>ib_integration_time := ib_integration_time b + integration,
         ib_batching_time := ib_batching_time b + batching, ib_integrations := ib_integrations b + 1,
         ib_max_integration := (if ib_max_integration b = 0 \<or> ib_max_integration b < integration then integration else ib_max_integration b),
         ib_min_integration := (if ib_min_integration b = 0 \<or> integration < ib_min_integration b then integration else ib_min_integration b),
         ib_max_batching := (if ib_max_batching b = 0 \<or> ib_max_batching b < batching then batching else ib_max_batching b),
         ib_min_batching := (if ib_min_batching b = 0 \<or> batching < ib_min_batching b then batching else ib_min_batching b)\<rparr>))
       (\<lambda>_. bindA (flush_if_due flush) (\<lambda>_.
         bindA (updateA (\<lambda>b. if ib_statistics b
             then b\<lparr>ib_stats := ib_stats b @ [\<lparr>cs_serial = kserial, cs_integration = integration, cs_batching = batching,
               cs_refinements = refinement, cs_steps = steps\<rparr>]\<rparr> else b))
           (\<lambda>_. flush_if_due flush)))"

definition report_failure :: "(('n, 'z) integration_batcher_scheme \<Rightarrow> u64)
    \<Rightarrow> (replacement_action \<Rightarrow> (('n, 'z) integration_batcher_scheme, unit) act) \<Rightarrow> u32
    \<Rightarrow> (('n, 'z) integration_batcher_scheme, unit) act" where
  "report_failure storage flush kserial =
     bindA (updateA (\<lambda>b. b\<lparr>ib_failed := insert kserial (ib_failed b), ib_failures := ib_failures b + 1\<rparr>))
       (\<lambda>_. bindA (check_for_flush storage flush) (\<lambda>_. flush_if_due flush))"

definition report_refinement :: "('n, 'z) integration_batcher_scheme \<Rightarrow> ('n, 'z) integration_batcher_scheme" where
  "report_refinement b = b\<lparr>ib_refinements := ib_refinements b + 1\<rparr>"

definition ib_begin_assignment :: "('n, 'z) integration_batcher_scheme \<Rightarrow> ('n, 'z) integration_batcher_scheme" where
  "ib_begin_assignment b = b\<lparr>ib_integrations := 0, ib_integration_time := 0, ib_batching_time := 0, ib_max_integration := 0,
     ib_min_integration := 0, ib_max_batching := 0, ib_min_batching := 0, ib_failures := 0, ib_refinements := 0, ib_failed := {}\<rparr>"

definition ib_storage :: "('n, 'z) integration_batcher_scheme \<Rightarrow> u64" where
  "ib_storage b = (4 + vector_bytes (ib_nfields b)) * count_of (ib_backg b) + (2 * 4 + 8 + 2 * 8) * count_of (ib_stats b)"

definition ib_rows :: "('n, 'z) integration_batcher_scheme \<Rightarrow> 'n row list" where
  "ib_rows b = Worker_row (gb_group b) (gb_worker b) # (if ib_statistics b then map Stats_row (ib_stats b) else [])
     @ map Backg_row (ib_backg b)"

definition ib_clear :: "('n, 'z) integration_batcher_scheme \<Rightarrow> ('n, 'z) integration_batcher_scheme" where
  "ib_clear b = b\<lparr>ib_stats := [], ib_backg := []\<rparr>"

section \<open>Two-point functions\<close>

record 'n twopf_batcher = "'n integration_batcher" +
  t2_kconfig_items :: u32
  t2_twopf :: "'n element_item list"
  t2_tensor :: "'n element_item list"
  t2_ics :: "'n ics_item list"
  t2_paired :: "'n zeta_twopf_batcher option"

definition t2_storage :: "'n twopf_batcher \<Rightarrow> u64" where
  "t2_storage b = ib_storage b + (3 * 4 + 4 * 8) * count_of (t2_tensor b) + (3 * 4 + matrix_bytes (ib_nfields b)) * count_of (t2_twopf b)
     + (4 + vector_bytes (ib_nfields b)) * count_of (t2_ics b)"

definition t2_rows :: "'n twopf_batcher \<Rightarrow> 'n row list" where
  "t2_rows b = ib_rows b @ (if ib_initial_conditions b then map Ics_row (t2_ics b) else [])
     @ map Twopf_re_row (t2_twopf b) @ map Tensor_row (t2_tensor b)"

definition t2_clear :: "'n twopf_batcher \<Rightarrow> 'n twopf_batcher" where
  "t2_clear b = (ib_clear b)\<lparr>t2_ics := [], t2_twopf := [], t2_tensor := []\<rparr>"

definition t2_flush :: "replacement_action \<Rightarrow> ('n twopf_batcher, unit) act" where
  "t2_flush = flush_with t2_rows t2_clear"

abbreviation t2_check :: "('n twopf_batcher, unit) act" where
  "t2_check \<equiv> check_for_flush t2_storage t2_flush"

definition t2_push_backg :: "u32 \<Rightarrow> u32 \<Rightarrow> 'n list \<Rightarrow> ('n twopf_batcher, unit) act" where
  "t2_push_backg = push_backg t2_storage t2_flush"

definition on_paired2 :: "('n zeta_twopf_batcher, unit) act \<Rightarrow> ('n twopf_batcher, unit) act" where
  "on_paired2 m b =
     (case t2_paired b of
        None \<Rightarrow> (Inr (), b)
      | Some z \<Rightarrow> (let (r, z') = m z in (r, b\<lparr>t2_paired := Some z'\<rparr>)))"

definition t2_element :: "u32 \<Rightarrow> u32 \<Rightarrow> u32 \<Rightarrow> 'n list \<Rightarrow> 'n twopf_batcher \<Rightarrow> 'n element_item" where
  "t2_element t k s vs b = \<lparr>el_time = t, el_kconfig = k, el_source = s, el_elements = vs, el_time_items = ib_time_items b,
     el_kconfig_items = t2_kconfig_items b\<rparr>"

definition t2_push_paired :: "'n::field model_functions \<Rightarrow> u32 \<Rightarrow> u32 \<Rightarrow> u32 \<Rightarrow> 'n list \<Rightarrow> 'n list \<Rightarrow> ('n twopf_batcher, unit) act" where
  "t2_push_paired mf t k s tpf bg =
     (let (zeta, xfm1) = agent_zeta_twopf mf tpf bg
      in on_paired2 (bindA (z2_push_twopf t k zeta s) (\<lambda>_. z2_push_gauge1 t k xfm1 s)))"

definition t2_push_twopf :: "'n::field model_functions \<Rightarrow> u32 \<Rightarrow> u32 \<Rightarrow> u32 \<Rightarrow> 'n list \<Rightarrow> 'n list \<Rightarrow> ('n twopf_batcher, unit) act" where
  "t2_push_twopf mf t k s vs bg b =
     bindA (check_size ''CPPTRANSPORT_NFIELDS_TWOPF'' (2 * ib_nfields b * 2 * ib_nfields b) vs) (\<lambda>_.
       bindA (updateA (\<lambda>b. b\<lparr>t2_twopf := t2_twopf b @ [t2_element t k s vs b]\<rparr>)) (\<lambda>_.
         bindA (t2_push_paired mf t k s vs bg) (\<lambda>_. t2_check))) b"

definition t2_push_tensor :: "u32 \<Rightarrow> u32 \<Rightarrow> u32 \<Rightarrow> 'n list \<Rightarrow> ('n twopf_batcher, unit) act" where
  "t2_push_tensor t k s vs =
     bindA (check_size ''CPPTRANSPORT_NFIELDS_TENSOR_TWOPF'' 4 vs) (\<lambda>_.
       bindA (updateA (\<lambda>b. b\<lparr>t2_tensor := t2_tensor b @ [t2_element t k s vs b]\<rparr>)) (\<lambda>_. t2_check))"

definition t2_push_ics :: "u32 \<Rightarrow> 'n \<Rightarrow> 'n list \<Rightarrow> ('n twopf_batcher, unit) act" where
  "t2_push_ics k t_exit vs b =
     bindA (check_size ''CPPTRANSPORT_NFIELDS_BACKG'' (2 * ib_nfields b) vs) (\<lambda>_.
       if ib_initial_conditions b
       then bindA (updateA (\<lambda>b. b\<lparr>t2_ics := t2_ics b @ [\<lparr>ic_source = k, ic_texit = t_exit, ic_coords = vs,
              ic_kconfig_items = t2_kconfig_items b\<rparr>]\<rparr>)) (\<lambda>_. t2_check)
       else returnA ()) b"

definition t2_unbatch :: "u32 \<Rightarrow> 'n twopf_batcher \<Rightarrow> 'n twopf_batcher" where
  "t2_unbatch s b = b\<lparr>ib_backg := filter (\<lambda>i. bg_source i \<noteq> s) (ib_backg b),
     t2_twopf := filter (\<lambda>i. el_source i \<noteq> s) (t2_twopf b), t2_tensor := filter (\<lambda>i. el_source i \<noteq> s) (t2_tensor b),
     t2_ics := filter (\<lambda>i. ic_source i \<noteq> s) (t2_ics b), t2_paired := map_option (z2_unbatch s) (t2_paired b)\<rparr>"

definition t2_report_success :: "nat \<Rightarrow> nat \<Rightarrow> u32 \<Rightarrow> nat \<Rightarrow> u32 \<Rightarrow> ('n twopf_batcher, unit) act" where
  "t2_report_success i b k steps r =
     bindA (report_success t2_flush i b k steps r) (\<lambda>_. on_paired2 (report_finished_item z2_flush i))"

definition t2_report_failure :: "u32 \<Rightarrow> ('n twopf_batcher, unit) act" where
  "t2_report_failure k =
     bindA (report_failure t2_storage t2_flush k) (\<lambda>_. on_paired2 (report_finished_item z2_flush 0))"

definition t2_set_flush_mode :: "flush_mode \<Rightarrow> 'n twopf_batcher \<Rightarrow> 'n twopf_batcher" where
  "t2_set_flush_mode f b = b\<lparr>gb_mode := f, t2_paired := map_option (\<lambda>z. z\<lparr>gb_mode := f\<rparr>) (t2_paired b)\<rparr>"

definition t2_pair :: "'n zeta_twopf_batcher \<Rightarrow> 'n twopf_batcher \<Rightarrow> 'n twopf_batcher" where
  "t2_pair z b = b\<lparr>t2_paired := Some (z\<lparr>gb_mode := gb_mode b\<rparr>)\<rparr>"

text \<open>The paired batcher is closed too and goes back to its owner.\<close>

definition t2_close :: "('n twopf_batcher, 'n zeta_twopf_batcher option) act" where
  "t2_close = bindA (t2_flush Action_close) (\<lambda>_. bindA (on_paired2 (z2_flush Action_close))
     (\<lambda>_ b. (Inr (t2_paired b), b\<lparr>t2_paired := None\<rparr>)))"

section \<open>Three-point functions\<close>

record 'n threepf_batcher = "'n integration_batcher" +
  t3_kconfig_items :: u32
  t3_twopf_re :: "'n element_item list"
  t3_twopf_im :: "'n element_item list"
  t3_tensor :: "'n element_item list"
  t3_momentum :: "'n element_item list"
  t3_Nderiv :: "'n element_item list"
  t3_ics :: "'n ics_item list"
  t3_kt_ics :: "'n ics_item list"
  t3_paired :: "'n zeta_threepf_batcher option"

definition t3_storage :: "'n threepf_batcher \<Rightarrow> u64" where
  "t3_storage b = ib_storage b + (3 * 4 + 4 * 8) * count_of (t3_tensor b)
     + (3 * 4 + matrix_bytes (ib_nfields b)) * (count_of (t3_twopf_re b) + count_of (t3_twopf_im b))
     + (3 * 4 + cube_bytes (ib_nfields b)) * count_of (t3_momentum b) + (3 * 4 + cube_bytes (ib_nfields b)) * count_of (t3_Nderiv b)
     + (4 + vector_bytes (ib_nfields b)) * count_of (t3_ics b) + (4 + vector_bytes (ib_nfields b)) * count_of (t3_kt_ics b)"

definition t3_rows :: "'n threepf_batcher \<Rightarrow> 'n row list" where
  "t3_rows b = ib_rows b @ (if ib_initial_conditions b then map Ics_row (t3_ics b) @ map Kt_ics_row (t3_kt_ics b) else [])
     @ map Twopf_re_row (t3_twopf_re b) @ map Twopf_im_row (t3_twopf_im b) @ map Tensor_row (t3_tensor b)
     @ map Momentum_row (t3_momentum b) @ map Nderiv_row (t3_Nderiv b)"

definition t3_clear :: "'n threepf_batcher \<Rightarrow> 'n threepf_batcher" where
  "t3_clear b = (ib_clear b)\<lparr>t3_ics := [], t3_kt_ics := [], t3_twopf_re := [], t3_twopf_im := [], t3_tensor := [],
     t3_momentum := [], t3_Nderiv := []\<rparr>"

definition t3_flush :: "replacement_action \<Rightarrow> ('n threepf_batcher, unit) act" where
  "t3_flush = flush_with t3_rows t3_clear"

abbreviation t3_check :: "('n threepf_batcher, unit) act" where
  "t3_check \<equiv> check_for_flush t3_storage t3_flush"

definition t3_push_backg :: "u32 \<Rightarrow> u32 \<Rightarrow> 'n list \<Rightarrow> ('n threepf_batcher, unit) act" where
  "t3_push_backg = push_backg t3_storage t3_flush"

definition on_paired3 :: "('n zeta_threepf_batcher, unit) act \<Rightarrow> ('n threepf_batcher, unit) act" where
  "on_paired3 m b =
     (case t3_paired b of
        None \<Rightarrow> (Inr (), b)
      | Some z \<Rightarrow> (let (r, z') = m z in (r, b\<lparr>t3_paired := Some z'\<rparr>)))"

definition t3_element :: "u32 \<Rightarrow> u32 \<Rightarrow> u32 \<Rightarrow> 'n list \<Rightarrow> 'n threepf_batcher \<Rightarrow> 'n element_item" where
  "t3_element t k s vs b = \<lparr>el_time = t, el_kconfig = k, el_source = s, el_elements = vs, el_time_items = ib_time_items b,
     el_kconfig_items = t3_kconfig_items b\<rparr>"

definition t3_push_paired_twopf :: "'n::field model_functions \<Rightarrow> u32 \<Rightarrow> u32 \<Rightarrow> u32 \<Rightarrow> 'n list \<Rightarrow> 'n list \<Rightarrow> ('n threepf_batcher, unit) act" where
  "t3_push_paired_twopf mf t k s tpf bg =
     (let (zeta, xfm1) = agent_zeta_twopf mf tpf bg
      in on_paired3 (bindA (z3_push_twopf t k zeta s) (\<lambda>_. z3_push_gauge1 t k xfm1 s)))"

datatype twopf_type = Real_twopf | Imag_twopf

definition t3_push_twopf :: "'n::field model_functions \<Rightarrow> u32 \<Rightarrow> u32 \<Rightarrow> u32 \<Rightarrow> 'n list \<Rightarrow> 'n list \<Rightarrow> twopf_type
    \<Rightarrow> ('n threepf_batcher, unit) act" where
  "t3_push_twopf mf t k s vs bg ty b =
     bindA (check_size ''CPPTRANSPORT_NFIELDS_TWOPF'' (2 * ib_nfields b * 2 * ib_nfields b) vs) (\<lambda>_.
       bindA (updateA (\<lambda>b. case ty of
           Real_twopf \<Rightarrow> b\<lparr>t3_twopf_re := t3_twopf_re b @ [t3_element t k s vs b]\<rparr>
         | Imag_twopf \<Rightarrow> b\<lparr>t3_twopf_im := t3_twopf_im b @ [t3_element t k s vs b]\<rparr>)) (\<lambda>_.
         bindA (if ty = Real_twopf then t3_push_paired_twopf mf t k s vs bg else returnA ()) (\<lambda>_. t3_check))) b"

definition t3_push_paired_threepf :: "'n::field model_functions \<Rightarrow> u32 \<Rightarrow> 'n \<Rightarrow> 'n threepf_kconfig_record \<Rightarrow> u32 \<Rightarrow> 'n list
    \<Rightarrow> 'n correlators \<Rightarrow> ('n threepf_batcher, unit) act" where
  "t3_push_paired_threepf mf t time c s threepf co =
     (let v = agent_zeta_threepf mf c time threepf co; k = hk_serial c
      in on_paired3 (bindA (z3_push_threepf t k (zv_threepf v) (zv_redbsp v) s) (\<lambda>_.
           bindA (z3_push_gauge2_123 t k (zv_xfm2_123 v) s) (\<lambda>_. bindA (z3_push_gauge2_213 t k (zv_xfm2_213 v) s) (\<lambda>_.
             z3_push_gauge2_312 t k (zv_xfm2_312 v) s)))))"

text \<open>The vector of time derivatives; the shift is given the serial number of the time for the time.\<close>

definition Nderiv_values :: "'n::field model_functions \<Rightarrow> u32 \<Rightarrow> 'n threepf_kconfig_record \<Rightarrow> u32 \<Rightarrow> 'n list \<Rightarrow> 'n correlators \<Rightarrow> 'n list" where
  "Nderiv_values mf nf c t vs co =
     (let d = 2 * unat nf; time = of_nat (unat t)
      in fold (\<lambda>(i, j, k) es. es[state_flatten3 (unat nf) i j k := agent_shift mf c time co i j k (vs ! state_flatten3 (unat nf) i j k)])
           (List.product [0..<d] (List.product [0..<d] [0..<d])) (replicate (length vs) 0))"

definition t3_push_threepf :: "'n::field model_functions \<Rightarrow> u32 \<Rightarrow> 'n \<Rightarrow> 'n threepf_kconfig_record \<Rightarrow> u32 \<Rightarrow> 'n list \<Rightarrow> 'n correlators
    \<Rightarrow> ('n threepf_batcher, unit) act" where
  "t3_push_threepf mf t time c s vs co b =
     bindA (check_size ''CPPTRANSPORT_NFIELDS_THREEPF'' (2 * ib_nfields b * 2 * ib_nfields b * 2 * ib_nfields b) vs) (\<lambda>_.
       bindA (updateA (\<lambda>b. b\<lparr>t3_momentum := t3_momentum b @ [t3_element t (hk_serial c) s vs b]\<rparr>)) (\<lambda>_.
         bindA (updateA (\<lambda>b. b\<lparr>t3_Nderiv := t3_Nderiv b @ [t3_element t (hk_serial c) s (Nderiv_values mf (ib_nfields b) c t vs co) b]\<rparr>)) (\<lambda>_.
           bindA (t3_push_paired_threepf mf t time c s vs co) (\<lambda>_. t3_check)))) b"

definition t3_push_tensor :: "u32 \<Rightarrow> u32 \<Rightarrow> u32 \<Rightarrow> 'n list \<Rightarrow> ('n threepf_batcher, unit) act" where
  "t3_push_tensor t k s vs =
     bindA (check_size ''CPPTRANSPORT_NFIELDS_TENSOR_TWOPF'' 4 vs) (\<lambda>_.
       bindA (updateA (\<lambda>b. b\<lparr>t3_tensor := t3_tensor b @ [t3_element t k s vs b]\<rparr>)) (\<lambda>_. t3_check))"

definition t3_ics_item :: "u32 \<Rightarrow> 'n \<Rightarrow> 'n list \<Rightarrow> 'n threepf_batcher \<Rightarrow> 'n ics_item" where
  "t3_ics_item k t_exit vs b = \<lparr>ic_source = k, ic_texit = t_exit, ic_coords = vs, ic_kconfig_items = t3_kconfig_items b\<rparr>"

definition t3_push_ics :: "u32 \<Rightarrow> 'n \<Rightarrow> 'n list \<Rightarrow> ('n threepf_batcher, unit) act" where
  "t3_push_ics k t_exit vs b =
     bindA (check_size ''CPPTRANSPORT_NFIELDS_BACKG'' (2 * ib_nfields b) vs) (\<lambda>_.
       if ib_initial_conditions b
       then bindA (updateA (\<lambda>b. b\<lparr>t3_ics := t3_ics b @ [t3_ics_item k t_exit vs b]\<rparr>)) (\<lambda>_. t3_check)
       else returnA ()) b"

definition t3_push_kt_ics :: "u32 \<Rightarrow> 'n \<Rightarrow> 'n list \<Rightarrow> ('n threepf_batcher, unit) act" where
  "t3_push_kt_ics k t_exit vs b =
     bindA (check_size ''CPPTRANSPORT_NFIELDS_BACKG'' (2 * ib_nfields b) vs) (\<lambda>_.
       if ib_initial_conditions b
       then bindA (updateA (\<lambda>b. b\<lparr>t3_kt_ics := t3_kt_ics b @ [t3_ics_item k t_exit vs b]\<rparr>)) (\<lambda>_. t3_check)
       else returnA ()) b"

definition t3_unbatch :: "u32 \<Rightarrow> 'n threepf_batcher \<Rightarrow> 'n threepf_batcher" where
  "t3_unbatch s b = b\<lparr>ib_backg := filter (\<lambda>i. bg_source i \<noteq> s) (ib_backg b),
     t3_twopf_re := filter (\<lambda>i. el_source i \<noteq> s) (t3_twopf_re b), t3_twopf_im := filter (\<lambda>i. el_source i \<noteq> s) (t3_twopf_im b),
     t3_tensor := filter (\<lambda>i. el_source i \<noteq> s) (t3_tensor b), t3_momentum := filter (\<lambda>i. el_source i \<noteq> s) (t3_momentum b),
     t3_Nderiv := filter (\<lambda>i. el_source i \<noteq> s) (t3_Nderiv b), t3_ics := filter (\<lambda>i. ic_source i \<noteq> s) (t3_ics b),
     t3_kt_ics := filter (\<lambda>i. ic_source i \<noteq> s) (t3_kt_ics b), t3_paired := map_option (z3_unbatch s) (t3_paired b)\<rparr>"

definition t3_report_success :: "nat \<Rightarrow> nat \<Rightarrow> u32 \<Rightarrow> nat \<Rightarrow> u32 \<Rightarrow> ('n threepf_batcher, unit) act" where
  "t3_report_success i b k steps r =
     bindA (report_success t3_flush i b k steps r) (\<lambda>_. on_paired3 (report_finished_item z3_flush i))"

definition t3_report_failure :: "u32 \<Rightarrow> ('n threepf_batcher, unit) act" where
  "t3_report_failure k =
     bindA (report_failure t3_storage t3_flush k) (\<lambda>_. on_paired3 (report_finished_item z3_flush 0))"

definition t3_set_flush_mode :: "flush_mode \<Rightarrow> 'n threepf_batcher \<Rightarrow> 'n threepf_batcher" where
  "t3_set_flush_mode f b = b\<lparr>gb_mode := f, t3_paired := map_option (\<lambda>z. z\<lparr>gb_mode := f\<rparr>) (t3_paired b)\<rparr>"

definition t3_pair :: "'n zeta_threepf_batcher \<Rightarrow> 'n threepf_batcher \<Rightarrow> 'n threepf_batcher" where
  "t3_pair z b = b\<lparr>t3_paired := Some (z\<lparr>gb_mode := gb_mode b\<rparr>)\<rparr>"

definition t3_close :: "('n threepf_batcher, 'n zeta_threepf_batcher option) act" where
  "t3_close = bindA (t3_flush Action_close) (\<lambda>_. bindA (on_paired3 (z3_flush Action_close))
     (\<lambda>_ b. (Inr (t3_paired b), b\<lparr>t3_paired := None\<rparr>)))"

end
