(* ===== verification/Integration_Queue.thy ===== *)
theory Integration_Queue
  imports Integration_Batchers Work_Distribution
begin

text \<open>
  The integration of the configurations of an assignment: the observers that push the state of an integrator to a batcher
  (\<open>models/observers.h\<close> and \<open>templates/canonical_mpi.h\<close>), the integration of a configuration and the loop over the queue with
  its mesh refinements (\<open>backend_process_queue\<close> there), and what a worker makes of the batcher's counters
  (\<open>schedule_integration\<close>, \<open>slave_controller_impl.h\<close>). The integrator is an argument: for every configuration and level of
  refinement the states it passes to the observer and how it ends.
\<close>

section \<open>State vectors\<close>

definition backg_size :: "nat \<Rightarrow> nat" where "backg_size N = 2 * N"

definition twopf_size :: "nat \<Rightarrow> nat" where "twopf_size N = 2 * N * (2 * N)"

definition tensor_size :: nat where "tensor_size = 4"

definition threepf_size :: "nat \<Rightarrow> nat" where "threepf_size N = 2 * N * (2 * N) * (2 * N)"

definition tensor_start :: "nat \<Rightarrow> nat" where "tensor_start N = backg_size N"

definition tensor_k2_start :: "nat \<Rightarrow> nat" where "tensor_k2_start N = tensor_start N + tensor_size"

definition tensor_k3_start :: "nat \<Rightarrow> nat" where "tensor_k3_start N = tensor_k2_start N + tensor_size"

definition twopf_start :: "nat \<Rightarrow> nat" where "twopf_start N = tensor_start N + tensor_size"

text \<open>In the vector of a three-point function the real and the imaginary part of a wavenumber follow each other.\<close>

definition twopf_re_start :: "nat \<Rightarrow> nat \<Rightarrow> nat" where
  "twopf_re_start N j = tensor_k3_start N + tensor_size + 2 * j * twopf_size N"

definition twopf_im_start :: "nat \<Rightarrow> nat \<Rightarrow> nat" where
  "twopf_im_start N j = twopf_re_start N j + twopf_size N"

definition threepf_start :: "nat \<Rightarrow> nat" where
  "threepf_start N = twopf_im_start N 2 + twopf_size N"

definition slots :: "nat \<Rightarrow> nat \<Rightarrow> 'n list \<Rightarrow> 'n list" where
  "slots start n x = map (\<lambda>i. x ! (start + i)) [0..<n]"

section \<open>Integrators\<close>

record 'n time_record =
  tr_serial :: u32
  tr_t :: 'n
  tr_stored :: bool

text \<open>How an integration ends: with its time, the time spent batching and the number of steps, with an overflow, which a
  finer mesh may avoid, or with another exception.\<close>

datatype attempt_end = Integrated nat nat nat | Overflowed | Failed exn

text \<open>An exception while the integration is set up, the initial conditions with the time of exit for the smallest wavenumber
  and for the sum of them, the states observed and the end.\<close>

record 'n attempt =
  at_before :: "exn option"
  at_ics :: "'n \<times> 'n list"
  at_kt_ics :: "'n \<times> 'n list"
  at_states :: "'n list list"
  at_end :: attempt_end

record ('n, 'c) integrator =
  ig_model :: "'n model_functions"
  ig_max :: u32
  ig_times :: "'c \<Rightarrow> 'n time_record list"
  ig_attempt :: "'c \<Rightarrow> u32 \<Rightarrow> 'n attempt"
  ig_strict :: bool
  ig_bad :: "'n \<Rightarrow> bool"

section \<open>Observers\<close>

fun observe_all :: "('r \<Rightarrow> 'x \<Rightarrow> ('b, unit) act) \<Rightarrow> 'r list \<Rightarrow> 'x list \<Rightarrow> ('b, unit) act" where
  "observe_all f rs [] = returnA ()"
| "observe_all f [] (x # xs) = throwA Undefined"
| "observe_all f (r # rs) (x # xs) = bindA (f r x) (\<lambda>_. observe_all f rs xs)"

text \<open>In a strict build a number that is not finite ends the integration.\<close>

definition check_finite :: "('n, 'c) integrator \<Rightarrow> 'n list \<Rightarrow> ('b, unit) act" where
  "check_finite ig vs =
     checkA (if ig_strict ig \<and> (\<exists>v \<in> set vs. ig_bad ig v) then Some (Runtime_error ''CPPTRANSPORT_INTEGRATOR_NAN_OR_INF'') else None)"

definition whenA :: "bool \<Rightarrow> ('b, unit) act \<Rightarrow> ('b, unit) act" where
  "whenA p m = (if p then m else returnA ())"

definition twopf_push :: "('n::field, twopf_kconfig_record) integrator \<Rightarrow> twopf_kconfig_record \<Rightarrow> 'n time_record \<Rightarrow> 'n list
    \<Rightarrow> ('n twopf_batcher, unit) act" where
  "twopf_push ig c r x =
     (let N = mf_fields (ig_model ig); bg = slots 0 (backg_size N) x; tensor = slots (tensor_start N) tensor_size x;
          tpf = slots (twopf_start N) (twopf_size N) x; t = tr_serial r; s = tk_serial c
      in bindA (whenA (tk_store_background c) (t2_push_backg t s bg)) (\<lambda>_.
           bindA (t2_push_tensor t s s tensor) (\<lambda>_. t2_push_twopf (ig_model ig) t s s tpf bg)))"

definition twopf_observe :: "('n::field, twopf_kconfig_record) integrator \<Rightarrow> twopf_kconfig_record \<Rightarrow> 'n time_record \<Rightarrow> 'n list
    \<Rightarrow> ('n twopf_batcher, unit) act" where
  "twopf_observe ig c r x =
     (let N = mf_fields (ig_model ig)
      in bindA (check_finite ig (slots 0 (twopf_start N + twopf_size N) x)) (\<lambda>_. whenA (tr_stored r) (twopf_push ig c r x)))"

text \<open>The correlators of a configuration are made dimensionless with their own wavenumber.\<close>

definition rescale :: "'n::field threepf_kconfig_record \<Rightarrow> 'n \<Rightarrow> 'n" where
  "rescale c k = k / hk_kt c * (k / hk_kt c) * (k / hk_kt c)"

definition shape_rescale :: "'n::field threepf_kconfig_record \<Rightarrow> 'n" where
  "shape_rescale c = hk_k1 c / hk_kt c * (hk_k1 c / hk_kt c) * (hk_k2 c / hk_kt c) * (hk_k2 c / hk_kt c)
     * (hk_k3 c / hk_kt c) * (hk_k3 c / hk_kt c)"

definition state_correlators :: "nat \<Rightarrow> 'n::field threepf_kconfig_record \<Rightarrow> 'n list \<Rightarrow> 'n correlators" where
  "state_correlators N c x =
     (let part = (\<lambda>k start. map ((*) (rescale c k)) (slots start (twopf_size N) x))
      in \<lparr>co_k1_re = part (hk_k1 c) (twopf_re_start N 0), co_k1_im = part (hk_k1 c) (twopf_im_start N 0),
          co_k2_re = part (hk_k2 c) (twopf_re_start N 1), co_k2_im = part (hk_k2 c) (twopf_im_start N 1),
          co_k3_re = part (hk_k3 c) (twopf_re_start N 2), co_k3_im = part (hk_k3 c) (twopf_im_start N 2),
          co_bg = slots 0 (backg_size N) x\<rparr>)"

definition push_wavenumber :: "'n::field model_functions \<Rightarrow> u32 \<Rightarrow> u32 \<Rightarrow> u32 \<Rightarrow> 'n list \<Rightarrow> 'n list \<Rightarrow> 'n list \<Rightarrow> 'n list
    \<Rightarrow> ('n threepf_batcher, unit) act" where
  "push_wavenumber mf t k s tensor re im bg =
     bindA (t3_push_tensor t k s tensor) (\<lambda>_. bindA (t3_push_twopf mf t k s re bg Real_twopf) (\<lambda>_.
       t3_push_twopf mf t k s im bg Imag_twopf))"

definition threepf_push :: "('n::field, 'n threepf_kconfig_record) integrator \<Rightarrow> 'n threepf_kconfig_record \<Rightarrow> 'n time_record \<Rightarrow> 'n list
    \<Rightarrow> ('n threepf_batcher, unit) act" where
  "threepf_push ig c r x =
     (let mf = ig_model ig; N = mf_fields mf; co = state_correlators N c x; bg = co_bg co; t = tr_serial r; s = hk_serial c;
          tensor = (\<lambda>k start. map ((*) (rescale c k)) (slots start tensor_size x));
          thpf = map ((*) (shape_rescale c)) (slots (threepf_start N) (threepf_size N) x)
      in bindA (whenA (hk_store_background c) (t3_push_backg t s bg)) (\<lambda>_.
           bindA (whenA (hk_store_k1 c) (push_wavenumber mf t (hk_k1_serial c) s (tensor (hk_k1 c) (tensor_start N)) (co_k1_re co) (co_k1_im co) bg)) (\<lambda>_.
             bindA (whenA (hk_store_k2 c) (push_wavenumber mf t (hk_k2_serial c) s (tensor (hk_k2 c) (tensor_k2_start N)) (co_k2_re co) (co_k2_im co) bg)) (\<lambda>_.
               bindA (whenA (hk_store_k3 c) (push_wavenumber mf t (hk_k3_serial c) s (tensor (hk_k3 c) (tensor_k3_start N)) (co_k3_re co) (co_k3_im co) bg)) (\<lambda>_.
                 t3_push_threepf mf t (tr_t r) c s thpf co)))))"

definition threepf_observe :: "('n::field, 'n threepf_kconfig_record) integrator \<Rightarrow> 'n threepf_kconfig_record \<Rightarrow> 'n time_record \<Rightarrow> 'n list
    \<Rightarrow> ('n threepf_batcher, unit) act" where
  "threepf_observe ig c r x =
     (let N = mf_fields (ig_model ig)
      in bindA (check_finite ig (slots 0 (threepf_start N + threepf_size N) x)) (\<lambda>_. whenA (tr_stored r) (threepf_push ig c r x)))"

section \<open>One configuration\<close>

text \<open>The result says whether the integration reached its end; an overflow is not an exception here.\<close>

definition too_deep :: exn where
  "too_deep = Runtime_error ''CPPTRANSPORT_REFINEMENT_TOO_DEEP''"

definition end_attempt :: "(nat \<Rightarrow> nat \<Rightarrow> nat \<Rightarrow> ('b, unit) act) \<Rightarrow> attempt_end \<Rightarrow> ('b, bool) act" where
  "end_attempt report e =
     (case e of
        Integrated i t steps \<Rightarrow> bindA (report i t steps) (\<lambda>_. returnA True)
      | Overflowed \<Rightarrow> returnA False
      | Failed x \<Rightarrow> throwA x)"

definition twopf_kmode :: "('n::field, twopf_kconfig_record) integrator \<Rightarrow> twopf_kconfig_record \<Rightarrow> u32 \<Rightarrow> ('n twopf_batcher, bool) act" where
  "twopf_kmode ig c r b =
     (if ig_max ig < r then throwA too_deep b
      else let a = ig_attempt ig c r
           in bindA (checkA (at_before a)) (\<lambda>_.
                bindA (whenA (ib_initial_conditions b) (t2_push_ics (tk_serial c) (fst (at_ics a)) (snd (at_ics a)))) (\<lambda>_.
                  bindA (observe_all (twopf_observe ig c) (ig_times ig c) (at_states a)) (\<lambda>_.
                    end_attempt (\<lambda>i t steps. t2_report_success i t (tk_serial c) steps r) (at_end a)))) b)"

definition threepf_kmode :: "('n::field, 'n threepf_kconfig_record) integrator \<Rightarrow> 'n threepf_kconfig_record \<Rightarrow> u32
    \<Rightarrow> ('n threepf_batcher, bool) act" where
  "threepf_kmode ig c r b =
     (if ig_max ig < r then throwA too_deep b
      else let a = ig_attempt ig c r
           in bindA (checkA (at_before a)) (\<lambda>_.
                bindA (whenA (ib_initial_conditions b) (bindA (t3_push_ics (hk_serial c) (fst (at_ics a)) (snd (at_ics a))) (\<lambda>_.
                    t3_push_kt_ics (hk_serial c) (fst (at_kt_ics a)) (snd (at_kt_ics a))))) (\<lambda>_.
                  bindA (observe_all (threepf_observe ig c) (ig_times ig c) (at_states a)) (\<lambda>_.
                    end_attempt (\<lambda>i t steps. t3_report_success i t (hk_serial c) steps r) (at_end a)))) b)"

section \<open>The queue\<close>

text \<open>The loop is the same for both kinds of configuration. It may go on for ever, so its result is an option.\<close>

record ('c, 'b) backend =
  bk_kmode :: "'c \<Rightarrow> u32 \<Rightarrow> ('b, bool) act"
  bk_serial :: "'c \<Rightarrow> u32"
  bk_refinement :: "'b \<Rightarrow> 'b"
  bk_unbatch :: "u32 \<Rightarrow> 'b \<Rightarrow> 'b"
  bk_failure :: "u32 \<Rightarrow> ('b, unit) act"

definition give_up :: "('c, 'b) backend \<Rightarrow> 'c \<Rightarrow> exn \<Rightarrow> ('b, unit) act" where
  "give_up bk c e =
     (case e of
        Runtime_error m \<Rightarrow> bindA (bk_failure bk (bk_serial bk c)) (\<lambda>_. updateA (bk_unbatch bk (bk_serial bk c)))
      | _ \<Rightarrow> throwA e)"

partial_function (option) refine_mesh :: "('c, 'b) backend \<Rightarrow> 'c \<Rightarrow> u32 \<Rightarrow> 'b \<Rightarrow> ((exn + unit) \<times> 'b) option" where
  "refine_mesh bk c r b =
     (case bk_kmode bk c r b of
        (Inl e, d) \<Rightarrow> Some (give_up bk c e d)
      | (Inr done, d) \<Rightarrow>
          if done then Some (Inr (), d)
          else refine_mesh bk c (r + 1) (bk_unbatch bk (bk_serial bk c) (if r = 0 then bk_refinement bk d else d)))"

fun work_through :: "('c, 'b) backend \<Rightarrow> 'c list \<Rightarrow> 'b \<Rightarrow> ((exn + unit) \<times> 'b) option" where
  "work_through bk [] b = Some (Inr (), b)"
| "work_through bk (c # cs) b =
     (case refine_mesh bk c 0 b of
        None \<Rightarrow> None
      | Some (Inl e, d) \<Rightarrow> Some (Inl e, d)
      | Some (Inr _, d) \<Rightarrow> work_through bk cs d)"

definition twopf_backend :: "('n::field, twopf_kconfig_record) integrator \<Rightarrow> (twopf_kconfig_record, 'n twopf_batcher) backend" where
  "twopf_backend ig = \<lparr>bk_kmode = twopf_kmode ig, bk_serial = tk_serial, bk_refinement = report_refinement,
     bk_unbatch = t2_unbatch, bk_failure = t2_report_failure\<rparr>"

definition threepf_backend :: "('n::field, 'n threepf_kconfig_record) integrator
    \<Rightarrow> ('n threepf_kconfig_record, 'n threepf_batcher) backend" where
  "threepf_backend ig = \<lparr>bk_kmode = threepf_kmode ig, bk_serial = hk_serial, bk_refinement = report_refinement,
     bk_unbatch = t3_unbatch, bk_failure = t3_report_failure\<rparr>"

definition twopf_process_queue :: "('n::field, twopf_kconfig_record) integrator \<Rightarrow> twopf_kconfig_record list \<Rightarrow> 'n twopf_batcher
    \<Rightarrow> ((exn + unit) \<times> 'n twopf_batcher) option" where
  "twopf_process_queue ig cs b = work_through (twopf_backend ig) cs (t2_set_flush_mode Flush_delayed b)"

definition threepf_process_queue :: "('n::field, 'n threepf_kconfig_record) integrator \<Rightarrow> 'n threepf_kconfig_record list
    \<Rightarrow> 'n threepf_batcher \<Rightarrow> ((exn + unit) \<times> 'n threepf_batcher) option" where
  "threepf_process_queue ig cs b = work_through (threepf_backend ig) cs (t3_set_flush_mode Flush_delayed b)"

section \<open>An assignment\<close>

text \<open>The report a worker sends after an assignment, from the counters of the batcher.\<close>

definition integration_report :: "nat \<Rightarrow> rat \<Rightarrow> ('n, 'z) integration_batcher_scheme \<Rightarrow> finished_integration" where
  "integration_report wallclock load b =
     \<lparr>fi_integration = ib_integration_time b, fi_max_integration = ib_max_integration b, fi_min_integration = ib_min_integration b,
      fi_batching = ib_batching_time b, fi_max_batching = ib_max_batching b, fi_min_batching = ib_min_batching b,
      fi_wallclock = wallclock, fi_success = ib_integrations b, fi_refinements = ib_refinements b, fi_failures = ib_failures b,
      fi_failed = ib_failed b, fi_load = load\<rparr>"

definition assignment_outcome :: "(data_kind \<times> string) list \<Rightarrow> nat \<Rightarrow> rat \<Rightarrow> (exn + unit) \<times> ('n, 'z) integration_batcher_scheme
    \<Rightarrow> work_outcome option" where
  "assignment_outcome containers wallclock load res =
     (let report = Integration_report (integration_report wallclock load (snd res))
      in case fst res of
           Inr _ \<Rightarrow> Some \<lparr>oc_containers = containers, oc_thrown = None, oc_report = report\<rparr>
         | Inl (Runtime_error m) \<Rightarrow> Some \<lparr>oc_containers = containers, oc_thrown = Some m, oc_report = report\<rparr>
         | Inl _ \<Rightarrow> None)"

definition twopf_assignment :: "('n::field, twopf_kconfig_record) integrator \<Rightarrow> twopf_kconfig_record list \<Rightarrow> 'n twopf_batcher
    \<Rightarrow> ((exn + unit) \<times> 'n twopf_batcher) option" where
  "twopf_assignment ig cs b = twopf_process_queue ig cs (ib_begin_assignment b)"

definition threepf_assignment :: "('n::field, 'n threepf_kconfig_record) integrator \<Rightarrow> 'n threepf_kconfig_record list
    \<Rightarrow> 'n threepf_batcher \<Rightarrow> ((exn + unit) \<times> 'n threepf_batcher) option" where
  "threepf_assignment ig cs b = threepf_process_queue ig cs (ib_begin_assignment b)"

end
