(* ===== verification/Batcher_Facts.thy ===== *)
theory Batcher_Facts
  imports Integration_Batchers
begin

text \<open>
  No row is lost or written twice by a flush, whatever the callbacks answer: the rows in the caches, in the open container
  and in the containers announced are together the same before and after. The concrete batchers interpret the locale of what
  a flush relies on.
\<close>

section \<open>Rows held and shipped\<close>

text \<open>A flush adds a row on the worker, which is no data.\<close>

fun data_row :: "'n row \<Rightarrow> bool" where
  "data_row (Worker_row g w) = False"
| "data_row r = True"

abbreviation data :: "'n row multiset \<Rightarrow> 'n row multiset" where
  "data \<equiv> filter_mset data_row"

lemma data_row_source: "row_source r \<noteq> None \<Longrightarrow> data_row r"
  by (cases r) simp_all

definition shipped :: "('n, 'z) generic_batcher_scheme \<Rightarrow> 'n row multiset" where
  "shipped b = data (sum_list (gb_sent b) + (if gb_open b then gb_container b else {#}))"

text \<open>The callbacks raise nothing and the container is open.\<close>

definition calm :: "('n, 'z) generic_batcher_scheme \<Rightarrow> bool" where
  "calm b \<longleftrightarrow> gb_open b \<and> (\<forall>n. gb_writer b n = None \<and> gb_dispatcher b n = None \<and> gb_replacer b n = None)"

lemma data_map:
  assumes "\<And>i. data_row (f i)"
  shows "data (image_mset f M) = image_mset f M"
  using assms by (induction M) simp_all

lemmas flush_step_defs = flush_with_def bindA_def updateA_def write_rows_def dispatch_container_def replace_container_def
  restart_checkpoint_def next_event_def

locale shipping =
  fixes rows :: "('n, 'z) generic_batcher_scheme \<Rightarrow> 'n row list"
    and clear :: "('n, 'z) generic_batcher_scheme \<Rightarrow> ('n, 'z) generic_batcher_scheme"
    and held :: "('n, 'z) generic_batcher_scheme \<Rightarrow> 'n row multiset"
    and valid :: "('n, 'z) generic_batcher_scheme \<Rightarrow> bool"
  assumes more_only: "generic_batcher.more b = generic_batcher.more c
      \<Longrightarrow> held b = held c \<and> valid b = valid c \<and> generic_batcher.more (clear b) = generic_batcher.more (clear c)"
    and rows_held: "valid b \<Longrightarrow> data (mset (rows b)) = held b"
    and clear_keeps: "generic_batcher.truncate (clear b) = generic_batcher.truncate b"
    and clear_held: "held (clear b) = {#}"
    and clear_valid: "valid b \<Longrightarrow> valid (clear b)"
begin

lemma clear_fields:
  "gb_sent (clear b) = gb_sent b" "gb_open (clear b) = gb_open b" "gb_container (clear b) = gb_container b"
  "gb_events (clear b) = gb_events b" "gb_dispatcher (clear b) = gb_dispatcher b" "gb_replacer (clear b) = gb_replacer b"
  "gb_writer (clear b) = gb_writer b" "gb_mode (clear b) = gb_mode b" "gb_flush_due (clear b) = gb_flush_due b"
  "gb_capacity (clear b) = gb_capacity b" "gb_checkpoint (clear b) = gb_checkpoint b" "gb_clock (clear b) = gb_clock b"
  using clear_keeps [of b] by (simp_all add: generic_batcher.truncate_def)

lemma held_upd:
  "held (b\<lparr>gb_events := n\<rparr>) = held b" "held (b\<lparr>gb_sent := s\<rparr>) = held b" "held (b\<lparr>gb_open := p\<rparr>) = held b"
  "held (b\<lparr>gb_container := m\<rparr>) = held b" "held (b\<lparr>gb_started := k\<rparr>) = held b" "held (b\<lparr>gb_flush_due := f\<rparr>) = held b"
  by (rule conjunct1 [OF more_only], simp)+

lemma valid_upd:
  "valid (b\<lparr>gb_events := n\<rparr>) = valid b" "valid (b\<lparr>gb_sent := s\<rparr>) = valid b" "valid (b\<lparr>gb_open := p\<rparr>) = valid b"
  "valid (b\<lparr>gb_container := m\<rparr>) = valid b" "valid (b\<lparr>gb_started := k\<rparr>) = valid b" "valid (b\<lparr>gb_flush_due := f\<rparr>) = valid b"
  by (rule conjunct1 [OF conjunct2 [OF more_only]], simp)+

lemma write_rows_conserves:
  assumes "valid b" and "write_rows rows b = (r, d)"
  shows "case r of Inl e \<Rightarrow> held d = held b \<and> shipped d = shipped b \<and> valid d
    | Inr _ \<Rightarrow> held d = held b \<and> shipped d = shipped b + held b \<and> valid d \<and> gb_open d"
  using assms rows_held [of b]
  by (auto simp: write_rows_def next_event_def shipped_def held_upd valid_upd split: if_splits option.splits)

lemma clear_shipped: "shipped (clear b) = shipped b"
  by (simp add: shipped_def clear_fields)

lemma dispatch_replace_conserves:
  assumes "gb_open b" and "bindA dispatch_container (\<lambda>_. bindA (replace_container a) (\<lambda>_. restart_checkpoint)) b = (r, d)"
  shows "held d = held b \<and> shipped d = shipped b \<and> valid d = valid b"
  using assms
  by (auto simp: bindA_def dispatch_container_def replace_container_def restart_checkpoint_def next_event_def shipped_def
      held_upd valid_upd split: option.splits replacement_action.splits)

lemma flush_conserves:
  assumes v: "valid b" and f: "flush_with rows clear a b = (r, d)"
  shows "held d + shipped d = held b + shipped b \<and> valid d"
proof (cases "write_rows rows b")
  case (Pair s c)
  note w = write_rows_conserves [OF v Pair]
  show ?thesis
  proof (cases s)
    case (Inl e)
    then have "d = c" using f Pair by (simp add: flush_with_def bindA_def)
    then show ?thesis using w Inl by simp
  next
    case (Inr u)
    then have "bindA dispatch_container (\<lambda>_. bindA (replace_container a) (\<lambda>_. restart_checkpoint)) (clear c) = (r, d)"
      using f Pair by (simp add: flush_with_def bindA_def [of "write_rows rows"] bindA_def [of "updateA clear"] updateA_def)
    from dispatch_replace_conserves [OF _ this] w Inr show ?thesis
      by (simp add: clear_fields clear_shipped clear_held clear_valid add.commute)
  qed
qed

text \<open>Without faults a flush returns and leaves the caches empty.\<close>

lemma calm_flush:
  assumes "calm b" and "valid b"
  shows "\<exists>d. flush_with rows clear Action_replace b = (Inr (), d) \<and> calm d \<and> valid d \<and> held d = {#}
    \<and> shipped d = shipped b + held b \<and> gb_mode d = gb_mode b \<and> gb_flush_due d = gb_flush_due b
    \<and> gb_capacity d = gb_capacity b \<and> generic_batcher.more d = generic_batcher.more (clear b)"
proof -
  let ?c = "b\<lparr>gb_events := Suc (gb_events b), gb_container := gb_container b + mset (rows b)\<rparr>"
  let ?d = "(clear ?c)\<lparr>gb_events := Suc (Suc (Suc (Suc (gb_events b)))), gb_sent := gb_sent b @ [gb_container b + mset (rows b)],
    gb_open := True, gb_container := {#}, gb_started := gb_clock b (Suc (Suc (Suc (gb_events b))))\<rparr>"
  have e: "flush_with rows clear Action_replace b = (Inr (), ?d)"
    using assms(1) by (simp add: flush_step_defs calm_def clear_fields)
  have m: "generic_batcher.more (clear ?c) = generic_batcher.more (clear b)" using more_only [of ?c b] by simp
  have "held ?d = {#}" "valid ?d" using assms(2) by (simp_all add: held_upd valid_upd clear_held clear_valid)
  moreover have "shipped ?d = shipped b + held b"
    using assms rows_held [of b] by (simp add: shipped_def calm_def)
  moreover have "calm ?d" using assms(1) by (simp add: calm_def clear_fields)
  ultimately show ?thesis using e m by (intro exI [of _ ?d]) (simp add: clear_fields)
qed

text \<open>So does the check at the end of a configuration, which may flush.\<close>

lemma calm_if_due:
  assumes "calm b" and "valid b"
  shows "\<exists>d K. flush_if_due (flush_with rows clear) b = (Inr (), d) \<and> calm d \<and> valid d \<and> held b = held d + K
    \<and> shipped d = shipped b + K \<and> gb_mode d = gb_mode b
    \<and> (generic_batcher.more d = generic_batcher.more b \<or> generic_batcher.more d = generic_batcher.more (clear b))"
proof -
  have flushed: "\<exists>d K. flush_with rows clear Action_replace c = (Inr (), d) \<and> calm d \<and> valid d \<and> held b = held d + K
      \<and> shipped d = shipped b + K \<and> gb_mode d = gb_mode b
      \<and> (generic_batcher.more d = generic_batcher.more b \<or> generic_batcher.more d = generic_batcher.more (clear b))"
    if "calm c" "valid c" "held c = held b" "shipped c = shipped b" "gb_mode c = gb_mode b"
      "generic_batcher.more c = generic_batcher.more b" for c
  proof -
    have "generic_batcher.more (clear c) = generic_batcher.more (clear b)" using more_only [OF that(6)] by simp
    then show ?thesis using calm_flush [OF that(1,2)] that by (metis add_0)
  qed
  have same: "shipped (b\<lparr>gb_flush_due := f\<rparr>) = shipped b" "shipped (b\<lparr>gb_events := n\<rparr>) = shipped b" for f n
    by (simp_all add: shipped_def)
  show ?thesis
  proof (cases "gb_flush_due b")
    case True
    let ?c = "b\<lparr>gb_flush_due := False\<rparr>"
    have "calm ?c" using assms(1) by (simp add: calm_def)
    moreover have "flush_if_due (flush_with rows clear) b = flush_with rows clear Action_replace ?c" using True by (simp add: flush_if_due_def)
    ultimately show ?thesis using flushed [of ?c] assms(2) by (simp add: held_upd valid_upd same)
  next
    case False
    let ?c = "b\<lparr>gb_events := Suc (gb_events b)\<rparr>"
    have c: "calm ?c" using assms(1) by (simp add: calm_def)
    have "flush_if_due (flush_with rows clear) b \<in> {flush_with rows clear Action_replace ?c, (Inr (), ?c), (Inr (), b)}"
      using False by (simp add: flush_if_due_def next_event_def Let_def)
    moreover have "\<exists>K. held b = held ?c + K \<and> shipped ?c = shipped b + K" "\<exists>K. held b = held b + K \<and> shipped b = shipped b + K"
      by (intro exI [of _ "{#}"]; simp add: held_upd same)+
    ultimately show ?thesis using flushed [OF c] assms c
      by (elim insertE emptyE) (simp_all add: held_upd valid_upd same)
  qed
qed

end

section \<open>Capacity\<close>

text \<open>In immediate mode a check leaves no more in the caches than fits.\<close>

text \<open>A batcher in immediate mode whose caches are within its capacity, and the operations that keep it so when they return.\<close>

definition fits :: "(('n, 'z) generic_batcher_scheme \<Rightarrow> u64) \<Rightarrow> ('n, 'z) generic_batcher_scheme \<Rightarrow> bool" where
  "fits storage b \<longleftrightarrow> gb_mode b = Flush_immediate \<and> storage b \<le> ucast (gb_capacity b)"

definition keeps :: "(('n, 'z) generic_batcher_scheme \<Rightarrow> bool) \<Rightarrow> (('n, 'z) generic_batcher_scheme, unit) act \<Rightarrow> bool" where
  "keeps P push \<longleftrightarrow> (\<forall>b u d. P b \<and> push b = (Inr u, d) \<longrightarrow> P d \<and> gb_capacity d = gb_capacity b)"

locale bounded = shipping rows clear held valid
  for rows :: "('n, 'z) generic_batcher_scheme \<Rightarrow> 'n row list"
    and clear :: "('n, 'z) generic_batcher_scheme \<Rightarrow> ('n, 'z) generic_batcher_scheme"
    and held :: "('n, 'z) generic_batcher_scheme \<Rightarrow> 'n row multiset"
    and valid :: "('n, 'z) generic_batcher_scheme \<Rightarrow> bool" +
  fixes storage :: "('n, 'z) generic_batcher_scheme \<Rightarrow> u64"
  assumes storage_more: "generic_batcher.more b = generic_batcher.more c \<Longrightarrow> storage b = storage c"
    and storage_clear: "storage (clear b) = 0"
begin

lemma flush_returns:
  assumes "flush_with rows clear a b = (Inr u, d)"
  shows "generic_batcher.more d = generic_batcher.more (clear b)"
proof -
  let ?c = "b\<lparr>gb_events := Suc (gb_events b), gb_container := gb_container b + mset (rows b)\<rparr>"
  have "generic_batcher.more d = generic_batcher.more (clear ?c)"
    using assms by (auto simp: flush_step_defs split: if_splits option.splits replacement_action.splits)
  then show ?thesis using more_only [of ?c b] by simp
qed

lemma check_bounded:
  assumes "check_for_flush storage (flush_with rows clear) b = (Inr u, d)" and "gb_mode b = Flush_immediate"
  shows "storage d \<le> ucast (gb_capacity b)"
proof (cases "ucast (gb_capacity b) < storage b")
  case True
  then have "flush_with rows clear Action_replace b = (Inr u, d)" using assms by (simp add: check_for_flush_def)
  from flush_returns [OF this] have "storage d = storage (clear b)" by (rule storage_more)
  then show ?thesis by (simp add: storage_clear)
next
  case False
  then show ?thesis using assms by (simp add: check_for_flush_def)
qed

lemma check_within:
  assumes "check_for_flush storage (flush_with rows clear) b = (Inr u, d)" and "gb_mode b = Flush_immediate"
  shows "fits storage d" and "gb_capacity d = gb_capacity b"
    and "generic_batcher.more d \<in> {generic_batcher.more b, generic_batcher.more (clear b)}"
proof -
  have "(\<exists>a. flush_with rows clear a b = (Inr u, d)) \<or> d = b"
    using assms by (auto simp: check_for_flush_def split: if_splits)
  then have k: "gb_mode d = gb_mode b \<and> gb_capacity d = gb_capacity b
      \<and> generic_batcher.more d \<in> {generic_batcher.more b, generic_batcher.more (clear b)}"
  proof
    assume "\<exists>a. flush_with rows clear a b = (Inr u, d)"
    then obtain a where a: "flush_with rows clear a b = (Inr u, d)" by blast
    then have "gb_mode d = gb_mode b \<and> gb_capacity d = gb_capacity b"
      by (auto simp: flush_step_defs clear_fields split: if_splits option.splits replacement_action.splits)
    with flush_returns [OF a] show ?thesis by simp
  qed simp
  then show "fits storage d" using check_bounded [OF assms] assms(2) by (simp add: fits_def)
  show "gb_capacity d = gb_capacity b" "generic_batcher.more d \<in> {generic_batcher.more b, generic_batcher.more (clear b)}"
    using k by blast+
qed

lemma push_keeps:
  assumes "\<And>b. gb_mode (f b) = gb_mode b" and "\<And>b. gb_capacity (f b) = gb_capacity b"
  shows "keeps (fits storage) (bindA (updateA f) (\<lambda>_. check_for_flush storage (flush_with rows clear)))"
  unfolding keeps_def
proof (intro allI impI)
  fix b u d assume b: "fits storage b \<and> bindA (updateA f) (\<lambda>_. check_for_flush storage (flush_with rows clear)) b = (Inr u, d)"
  then have "check_for_flush storage (flush_with rows clear) (f b) = (Inr u, d)" by (simp add: bindA_def updateA_def)
  moreover have "gb_mode (f b) = Flush_immediate" using b assms(1) by (simp add: fits_def)
  ultimately show "fits storage d \<and> gb_capacity d = gb_capacity b" using check_within(1,2) assms(2) by metis
qed

end

section \<open>The concrete batchers\<close>

definition any_batcher :: "'b \<Rightarrow> bool" where
  "any_batcher b = True"

definition z2_held :: "'n zeta_twopf_batcher \<Rightarrow> 'n row multiset" where
  "z2_held b = mset (z2_rows b)"

definition z3_held :: "'n zeta_threepf_batcher \<Rightarrow> 'n row multiset" where
  "z3_held b = mset (z3_rows b)"

definition fb_held :: "'n fnl_batcher \<Rightarrow> 'n row multiset" where
  "fb_held b = mset (fb_rows b)"

definition ib_held :: "('n, 'z) integration_batcher_scheme \<Rightarrow> 'n row multiset" where
  "ib_held b = mset (map Stats_row (ib_stats b)) + mset (map Backg_row (ib_backg b))"

definition t2_held :: "'n twopf_batcher \<Rightarrow> 'n row multiset" where
  "t2_held b = ib_held b + mset (map Ics_row (t2_ics b)) + mset (map Twopf_re_row (t2_twopf b)) + mset (map Tensor_row (t2_tensor b))"

definition t3_held :: "'n threepf_batcher \<Rightarrow> 'n row multiset" where
  "t3_held b = ib_held b + mset (map Ics_row (t3_ics b)) + mset (map Kt_ics_row (t3_kt_ics b))
     + mset (map Twopf_re_row (t3_twopf_re b)) + mset (map Twopf_im_row (t3_twopf_im b)) + mset (map Tensor_row (t3_tensor b))
     + mset (map Momentum_row (t3_momentum b)) + mset (map Nderiv_row (t3_Nderiv b))"

text \<open>What is not collected is not held either.\<close>

definition t2_valid :: "'n twopf_batcher \<Rightarrow> bool" where
  "t2_valid b \<longleftrightarrow> (ib_statistics b \<or> ib_stats b = []) \<and> (ib_initial_conditions b \<or> t2_ics b = [])"

definition t3_valid :: "'n threepf_batcher \<Rightarrow> bool" where
  "t3_valid b \<longleftrightarrow> (ib_statistics b \<or> ib_stats b = []) \<and> (ib_initial_conditions b \<or> t3_ics b = [] \<and> t3_kt_ics b = [])"

lemmas held_defs = ib_held_def t2_held_def t3_held_def z2_held_def z3_held_def fb_held_def z2_rows_def z3_rows_def fb_rows_def
  t2_rows_def t3_rows_def ib_rows_def t2_valid_def t3_valid_def any_batcher_def ib_clear_def t2_clear_def t3_clear_def z2_clear_def
  z3_clear_def fb_clear_def

interpretation z2: shipping z2_rows z2_clear z2_held any_batcher
proof unfold_locales
  fix b c :: "'a zeta_twopf_batcher"
  assume "generic_batcher.more b = generic_batcher.more c"
  then show "z2_held b = z2_held c \<and> any_batcher b = any_batcher c \<and> generic_batcher.more (z2_clear b) = generic_batcher.more (z2_clear c)"
    by (cases b, cases c) (simp add: held_defs)
qed (simp_all add: held_defs data_map generic_batcher.truncate_def)

interpretation z3: shipping z3_rows z3_clear z3_held any_batcher
proof unfold_locales
  fix b c :: "'a zeta_threepf_batcher"
  assume "generic_batcher.more b = generic_batcher.more c"
  then show "z3_held b = z3_held c \<and> any_batcher b = any_batcher c \<and> generic_batcher.more (z3_clear b) = generic_batcher.more (z3_clear c)"
    by (cases b, cases c) (simp add: held_defs)
qed (simp_all add: held_defs data_map generic_batcher.truncate_def)

interpretation fb: shipping fb_rows fb_clear fb_held any_batcher
proof unfold_locales
  fix b c :: "'a fnl_batcher"
  assume "generic_batcher.more b = generic_batcher.more c"
  then show "fb_held b = fb_held c \<and> any_batcher b = any_batcher c \<and> generic_batcher.more (fb_clear b) = generic_batcher.more (fb_clear c)"
    by (cases b, cases c) (simp add: held_defs)
qed (simp_all add: held_defs data_map generic_batcher.truncate_def)

interpretation t2: shipping t2_rows t2_clear t2_held t2_valid
proof unfold_locales
  fix b c :: "'a twopf_batcher"
  assume "generic_batcher.more b = generic_batcher.more c"
  then show "t2_held b = t2_held c \<and> t2_valid b = t2_valid c \<and> generic_batcher.more (t2_clear b) = generic_batcher.more (t2_clear c)"
    by (cases b, cases c) (simp add: held_defs)
qed (auto simp: held_defs data_map generic_batcher.truncate_def)

interpretation t3: shipping t3_rows t3_clear t3_held t3_valid
proof unfold_locales
  fix b c :: "'a threepf_batcher"
  assume "generic_batcher.more b = generic_batcher.more c"
  then show "t3_held b = t3_held c \<and> t3_valid b = t3_valid c \<and> generic_batcher.more (t3_clear b) = generic_batcher.more (t3_clear c)"
    by (cases b, cases c) (simp add: held_defs)
qed (auto simp: held_defs data_map generic_batcher.truncate_def)

lemmas storage_defs = z2_storage_def z3_storage_def fb_storage_def t2_storage_def t3_storage_def ib_storage_def count_of_def

interpretation z2: bounded z2_rows z2_clear z2_held any_batcher z2_storage
proof unfold_locales
  fix b c :: "'a zeta_twopf_batcher"
  assume "generic_batcher.more b = generic_batcher.more c"
  then show "z2_storage b = z2_storage c" by (cases b, cases c) (simp add: storage_defs)
qed (simp add: storage_defs held_defs)

interpretation z3: bounded z3_rows z3_clear z3_held any_batcher z3_storage
proof unfold_locales
  fix b c :: "'a zeta_threepf_batcher"
  assume "generic_batcher.more b = generic_batcher.more c"
  then show "z3_storage b = z3_storage c" by (cases b, cases c) (simp add: storage_defs)
qed (simp add: storage_defs held_defs)

interpretation fb: bounded fb_rows fb_clear fb_held any_batcher fb_storage
proof unfold_locales
  fix b c :: "'a fnl_batcher"
  assume "generic_batcher.more b = generic_batcher.more c"
  then show "fb_storage b = fb_storage c" by (cases b, cases c) (simp add: storage_defs)
qed (simp add: storage_defs held_defs)

interpretation t2: bounded t2_rows t2_clear t2_held t2_valid t2_storage
proof unfold_locales
  fix b c :: "'a twopf_batcher"
  assume "generic_batcher.more b = generic_batcher.more c"
  then show "t2_storage b = t2_storage c" by (cases b, cases c) (simp add: storage_defs)
qed (simp add: storage_defs held_defs)

interpretation t3: bounded t3_rows t3_clear t3_held t3_valid t3_storage
proof unfold_locales
  fix b c :: "'a threepf_batcher"
  assume "generic_batcher.more b = generic_batcher.more c"
  then show "t3_storage b = t3_storage c" by (cases b, cases c) (simp add: storage_defs)
qed (simp add: storage_defs held_defs)

section \<open>Properties\<close>

text \<open>The paired batchers of the integration batchers.\<close>

definition t2_fits :: "'n twopf_batcher \<Rightarrow> bool" where
  "t2_fits b \<longleftrightarrow> fits t2_storage b \<and> (\<forall>z. t2_paired b = Some z \<longrightarrow> fits z2_storage z)"

definition t3_fits :: "'n threepf_batcher \<Rightarrow> bool" where
  "t3_fits b \<longleftrightarrow> fits t3_storage b \<and> (\<forall>z. t3_paired b = Some z \<longrightarrow> fits z3_storage z)"

lemma keeps_bind:
  assumes "keeps P m" and "keeps P k"
  shows "keeps P (bindA m (\<lambda>_. k))"
  unfolding keeps_def
proof (intro allI impI)
  fix b u d assume b: "P b \<and> bindA m (\<lambda>_. k) b = (Inr u, d)"
  then obtain x c where c: "m b = (Inr x, c)" "k c = (Inr u, d)" by (auto simp: bindA_def split: prod.splits sum.splits)
  with assms(1) b have "P c \<and> gb_capacity c = gb_capacity b" unfolding keeps_def by blast
  with assms(2) c(2) show "P d \<and> gb_capacity d = gb_capacity b" unfolding keeps_def by metis
qed

lemma keeps_update: "keeps P (\<lambda>b. m (f b)) \<Longrightarrow> keeps P (bindA (updateA f) (\<lambda>_. m))"
  by (simp add: keeps_def bindA_def updateA_def)

lemma keeps_update2: "keeps P (\<lambda>b. m (g (f b))) \<Longrightarrow> keeps P (bindA (updateA f) (\<lambda>_. bindA (updateA g) (\<lambda>_. m)))"
  by (simp add: keeps_def bindA_def updateA_def)

lemma keeps_checked:
  assumes "keeps P m"
  shows "keeps P (\<lambda>b. bindA (check_size msg (n b) vs) (\<lambda>_. m) b)" "keeps P (bindA (check_size msg l vs) (\<lambda>_. m))"
    "keeps P (\<lambda>b. bindA (check_size msg (n b) vs) (\<lambda>_. if c b then m else returnA ()) b)"
  using assms by (auto simp: keeps_def bindA_def check_size_def checkA_def throwA_def returnA_def split: if_splits)

lemma zeta_pushes:
  "keeps (fits z2_storage) (z2_push_twopf t k v s)" "keeps (fits z2_storage) (z2_push_gauge1 t k vs s)"
  "keeps (fits z3_storage) (z3_push_twopf t k v s)" "keeps (fits z3_storage) (z3_push_threepf t k v r s)"
  "keeps (fits z3_storage) (z3_push_gauge1 t k vs s)" "keeps (fits z3_storage) (z3_push_gauge2_123 t k vs s)"
  "keeps (fits z3_storage) (z3_push_gauge2_213 t k vs s)" "keeps (fits z3_storage) (z3_push_gauge2_312 t k vs s)"
  "keeps (fits fb_storage) (push_fnl t x y z)"
  unfolding z2_push_twopf_def z2_push_gauge1_def z2_flush_def z3_push_twopf_def z3_push_threepf_def z3_push_gauge1_def
    z3_push_gauge2_123_def z3_push_gauge2_213_def z3_push_gauge2_312_def z3_flush_def push_fnl_def fb_flush_def
  by (rule z2.push_keeps z3.push_keeps fb.push_keeps; simp)+

text \<open>The check of an integration batcher after an item was added, and after its paired batcher was told.\<close>

lemma t2_checked:
  assumes "t2_check c = (Inr u, d)" and "gb_mode c = Flush_immediate" and "\<forall>z. t2_paired c = Some z \<longrightarrow> fits z2_storage z"
  shows "t2_fits d \<and> gb_capacity d = gb_capacity c"
proof -
  note w = t2.check_within [OF assms(1) [unfolded t2_flush_def] assms(2)]
  have "t2_paired d = t2_paired c"
    using w(3) by (cases c; cases d) (auto simp: t2_clear_def ib_clear_def)
  with w(1,2) assms(3) show ?thesis by (simp add: t2_fits_def)
qed

lemma t3_checked:
  assumes "t3_check c = (Inr u, d)" and "gb_mode c = Flush_immediate" and "\<forall>z. t3_paired c = Some z \<longrightarrow> fits z3_storage z"
  shows "t3_fits d \<and> gb_capacity d = gb_capacity c"
proof -
  note w = t3.check_within [OF assms(1) [unfolded t3_flush_def] assms(2)]
  have "t3_paired d = t3_paired c"
    using w(3) by (cases c; cases d) (auto simp: t3_clear_def ib_clear_def)
  with w(1,2) assms(3) show ?thesis by (simp add: t3_fits_def)
qed

lemma paired2_kept:
  assumes "keeps (fits z2_storage) m" and "on_paired2 m b = (Inr u, d)" and "\<forall>z. t2_paired b = Some z \<longrightarrow> fits z2_storage z"
  shows "gb_mode d = gb_mode b \<and> gb_capacity d = gb_capacity b \<and> (\<forall>z. t2_paired d = Some z \<longrightarrow> fits z2_storage z)"
  using assms by (auto simp: on_paired2_def keeps_def split: option.splits prod.splits)

lemma paired3_kept:
  assumes "keeps (fits z3_storage) m" and "on_paired3 m b = (Inr u, d)" and "\<forall>z. t3_paired b = Some z \<longrightarrow> fits z3_storage z"
  shows "gb_mode d = gb_mode b \<and> gb_capacity d = gb_capacity b \<and> (\<forall>z. t3_paired d = Some z \<longrightarrow> fits z3_storage z)"
  using assms by (auto simp: on_paired3_def keeps_def split: option.splits prod.splits)

definition idle_zeta_batcher :: "u32 \<Rightarrow> rat zeta_threepf_batcher" where
  "idle_zeta_batcher cap =
     \<lparr>gb_group = 0, gb_worker = 1, gb_capacity = cap, gb_flush_due = False, gb_mode = Flush_immediate, gb_checkpoint = 0,
      gb_started = 0, gb_container = {#}, gb_sent = [], gb_open = True, gb_events = 1, gb_writer = (\<lambda>n. None),
      gb_dispatcher = (\<lambda>n. None), gb_replacer = (\<lambda>n. None), gb_clock = (\<lambda>n. n), pb_items = 0, pb_nfields = 1,
      pb_time_items = 2, pb_total = 0, pb_longest = 0, pb_shortest = 0, z3_kconfig_items = 1, z3_twopf = [], z3_threepf = [],
      z3_gauge1 = [], z3_gauge2_123 = [], z3_gauge2_213 = [], z3_gauge2_312 = []\<rparr>"


text \<open>Every push of an integration batcher ends in the check, or collects nothing.\<close>

lemma t2_item:
  assumes "\<And>b. gb_mode (f b) = gb_mode b" and "\<And>b. gb_capacity (f b) = gb_capacity b" and "\<And>b. t2_paired (f b) = t2_paired b"
  shows "keeps t2_fits (\<lambda>b. t2_check (f b))"
  unfolding keeps_def
proof (intro allI impI)
  fix b u d assume b: "t2_fits b \<and> t2_check (f b) = (Inr u, d)"
  then have "gb_mode (f b) = Flush_immediate" "\<forall>z. t2_paired (f b) = Some z \<longrightarrow> fits z2_storage z"
    using assms(1,3) by (simp_all add: t2_fits_def fits_def [of t2_storage])
  then show "t2_fits d \<and> gb_capacity d = gb_capacity b" using t2_checked b assms(2) by metis
qed

lemma t3_item:
  assumes "\<And>b. gb_mode (f b) = gb_mode b" and "\<And>b. gb_capacity (f b) = gb_capacity b" and "\<And>b. t3_paired (f b) = t3_paired b"
  shows "keeps t3_fits (\<lambda>b. t3_check (f b))"
  unfolding keeps_def
proof (intro allI impI)
  fix b u d assume b: "t3_fits b \<and> t3_check (f b) = (Inr u, d)"
  then have "gb_mode (f b) = Flush_immediate" "\<forall>z. t3_paired (f b) = Some z \<longrightarrow> fits z3_storage z"
    using assms(1,3) by (simp_all add: t3_fits_def fits_def [of t3_storage])
  then show "t3_fits d \<and> gb_capacity d = gb_capacity b" using t3_checked b assms(2) by metis
qed

lemma t2_paired_item:
  assumes "keeps (fits z2_storage) m" and "\<And>b. gb_mode (f b) = gb_mode b" and "\<And>b. gb_capacity (f b) = gb_capacity b"
    and "\<And>b. t2_paired (f b) = t2_paired b"
  shows "keeps t2_fits (\<lambda>b. bindA (on_paired2 m) (\<lambda>_. t2_check) (f b))"
  unfolding keeps_def
proof (intro allI impI)
  fix b u d assume b: "t2_fits b \<and> bindA (on_paired2 m) (\<lambda>_. t2_check) (f b) = (Inr u, d)"
  then obtain x c where c: "on_paired2 m (f b) = (Inr x, c)" "t2_check c = (Inr u, d)"
    by (auto simp: bindA_def split: prod.splits sum.splits)
  have "\<forall>z. t2_paired (f b) = Some z \<longrightarrow> fits z2_storage z" using b assms(4) by (simp add: t2_fits_def)
  from paired2_kept [OF assms(1) c(1) this] t2_checked [OF c(2)] b assms(2,3)
  show "t2_fits d \<and> gb_capacity d = gb_capacity b" by (metis t2_fits_def fits_def)
qed

lemma t3_paired_item:
  assumes "keeps (fits z3_storage) m" and "\<And>b. gb_mode (f b) = gb_mode b" and "\<And>b. gb_capacity (f b) = gb_capacity b"
    and "\<And>b. t3_paired (f b) = t3_paired b"
  shows "keeps t3_fits (\<lambda>b. bindA (on_paired3 m) (\<lambda>_. t3_check) (f b))"
  unfolding keeps_def
proof (intro allI impI)
  fix b u d assume b: "t3_fits b \<and> bindA (on_paired3 m) (\<lambda>_. t3_check) (f b) = (Inr u, d)"
  then obtain x c where c: "on_paired3 m (f b) = (Inr x, c)" "t3_check c = (Inr u, d)"
    by (auto simp: bindA_def split: prod.splits sum.splits)
  have "\<forall>z. t3_paired (f b) = Some z \<longrightarrow> fits z3_storage z" using b assms(4) by (simp add: t3_fits_def)
  from paired3_kept [OF assms(1) c(1) this] t3_checked [OF c(2)] b assms(2,3)
  show "t3_fits d \<and> gb_capacity d = gb_capacity b" by (metis t3_fits_def fits_def)
qed

lemmas sized = keeps_checked(1,2) [OF keeps_update] keeps_checked(3) [OF keeps_update]

lemma t2_pushes:
  "keeps t2_fits (t2_push_backg t s vs)" "keeps t2_fits (t2_push_tensor t k s vs)" "keeps t2_fits (t2_push_ics k x vs)"
  "keeps t2_fits (t2_push_twopf mf t k s vs bg)"
proof -
  show "keeps t2_fits (t2_push_backg t s vs)"
    unfolding t2_push_backg_def push_backg_def by (rule sized(1) [OF t2_item]) simp_all
  show "keeps t2_fits (t2_push_tensor t k s vs)" unfolding t2_push_tensor_def by (rule sized(2) [OF t2_item]) simp_all
  show "keeps t2_fits (t2_push_ics k x vs)" unfolding t2_push_ics_def by (rule sized(3) [OF t2_item]) simp_all
  show "keeps t2_fits (t2_push_twopf mf t k s vs bg)"
    unfolding t2_push_twopf_def t2_push_paired_def Let_def case_prod_beta
    by (rule sized(1) [OF t2_paired_item]) (simp_all add: keeps_bind zeta_pushes)
qed

lemma t3_pushes:
  "keeps t3_fits (t3_push_backg t s vs)" "keeps t3_fits (t3_push_tensor t k s vs)" "keeps t3_fits (t3_push_ics k x vs)"
  "keeps t3_fits (t3_push_kt_ics k x vs)" "keeps t3_fits (t3_push_twopf mf t k s vs bg ty)"
  "keeps t3_fits (t3_push_threepf mf t time c s vs co)"
proof -
  show "keeps t3_fits (t3_push_backg t s vs)"
    unfolding t3_push_backg_def push_backg_def by (rule sized(1) [OF t3_item]) simp_all
  show "keeps t3_fits (t3_push_tensor t k s vs)" unfolding t3_push_tensor_def by (rule sized(2) [OF t3_item]) simp_all
  show "keeps t3_fits (t3_push_ics k x vs)" unfolding t3_push_ics_def by (rule sized(3) [OF t3_item]) simp_all
  show "keeps t3_fits (t3_push_kt_ics k x vs)" unfolding t3_push_kt_ics_def by (rule sized(3) [OF t3_item]) simp_all
  show "keeps t3_fits (t3_push_twopf mf t k s vs bg ty)"
  proof (cases ty)
    case Real_twopf
    show ?thesis unfolding Real_twopf t3_push_twopf_def t3_push_paired_twopf_def Let_def case_prod_beta twopf_type.case if_P [OF refl]
      by (rule sized(1) [OF t3_paired_item]) (simp_all add: keeps_bind zeta_pushes)
  next
    case Imag_twopf
    have r: "bindA (returnA ()) (\<lambda>_. m) = m" for m :: "('a threepf_batcher, unit) act" by (simp add: bindA_def returnA_def fun_eq_iff)
    show ?thesis unfolding Imag_twopf t3_push_twopf_def twopf_type.case if_not_P [OF twopf_type.distinct(2)] r
      by (rule sized(1) [OF t3_item]) simp_all
  qed
  show "keeps t3_fits (t3_push_threepf mf t time c s vs co)"
    unfolding t3_push_threepf_def t3_push_paired_threepf_def Let_def
    by (rule keeps_checked(1) [OF keeps_update2 [OF t3_paired_item]]) (simp_all add: keeps_bind zeta_pushes)
qed

text \<open>C11: The caches stay within the capacity. Take any batcher in immediate mode, for amplitudes, for two-point and three-point functions of
  the curvature, or for the integration of two-point and three-point functions, whose caches, and those of the batcher paired with it, are
  within their capacities. Every push to it that returns leaves them so, with the capacity unchanged. When a push throws, because its
  vector has the wrong length or a flush failed, nothing is claimed.\<close>

theorem push_within_capacity:
  "keeps (fits fb_storage) (push_fnl t x y z)
   \<and> keeps (fits z2_storage) (z2_push_twopf t k v s) \<and> keeps (fits z2_storage) (z2_push_gauge1 t k vs s)
   \<and> keeps (fits z3_storage) (z3_push_twopf t k v s) \<and> keeps (fits z3_storage) (z3_push_threepf t k v r s)
   \<and> keeps (fits z3_storage) (z3_push_gauge1 t k vs s) \<and> keeps (fits z3_storage) (z3_push_gauge2_123 t k vs s)
   \<and> keeps (fits z3_storage) (z3_push_gauge2_213 t k vs s) \<and> keeps (fits z3_storage) (z3_push_gauge2_312 t k vs s)
   \<and> keeps t2_fits (t2_push_backg t s vs) \<and> keeps t2_fits (t2_push_twopf mf t k s vs bg) \<and> keeps t2_fits (t2_push_tensor t k s vs)
   \<and> keeps t2_fits (t2_push_ics k e vs)
   \<and> keeps t3_fits (t3_push_backg t s vs) \<and> keeps t3_fits (t3_push_twopf mf t k s vs bg ty)
   \<and> keeps t3_fits (t3_push_threepf mf t time c s vs co) \<and> keeps t3_fits (t3_push_tensor t k s vs)
   \<and> keeps t3_fits (t3_push_ics k e vs) \<and> keeps t3_fits (t3_push_kt_ics k e vs)"
  by (simp only: zeta_pushes t2_pushes t3_pushes simp_thms)

text \<open>Witness: a capacity of 16 bytes is exceeded by the first item.\<close>

theorem push_within_capacity_witness:
  "fst (z3_push_threepf 0 0 1 2 0 (idle_zeta_batcher 16)) = Inr ()
   \<and> z3_storage (snd (z3_push_threepf 0 0 1 2 0 (idle_zeta_batcher 16))) \<le> ucast (16 :: u32)"
proof -
  let ?b = "idle_zeta_batcher 16"
  have "fst (z3_push_threepf 0 0 1 2 0 ?b) = Inr ()"
    by (simp add: idle_zeta_batcher_def z3_push_threepf_def z3_flush_def z3_clear_def check_for_flush_def flush_step_defs storage_defs)
  then obtain d where d: "z3_push_threepf 0 0 1 2 0 ?b = (Inr (), d)" by (metis prod.collapse)
  have "fits z3_storage ?b" "gb_capacity ?b = 16" by (simp_all add: fits_def idle_zeta_batcher_def storage_defs)
  moreover have "keeps (fits z3_storage) (z3_push_threepf 0 0 (1 :: rat) 2 0)"
    by (rule conjunct1 [OF conjunct2 [OF conjunct2 [OF conjunct2 [OF conjunct2 [OF push_within_capacity]]]]])
  ultimately have "fits z3_storage d" "gb_capacity d = 16" using d unfolding keeps_def by metis+
  then show ?thesis using d by (simp add: fits_def)
qed

text \<open>C10: Whatever the callbacks answer, a flush of a batcher for three-point functions loses no row and writes none twice:
  the rows in the caches, in the open container and in those announced are together the same.\<close>

theorem flush_keeps_rows:
  assumes "t3_valid b" and "t3_flush a b = (r, d)"
  shows "t3_held d + shipped d = t3_held b + shipped b"
  using t3.flush_conserves [OF assms(1)] assms(2) by (simp add: t3_flush_def)

text \<open>Witness: the container cannot be announced.\<close>

definition mute_batcher :: "rat threepf_batcher" where
  "mute_batcher =
     \<lparr>gb_group = 0, gb_worker = 1, gb_capacity = 16, gb_flush_due = False, gb_mode = Flush_immediate, gb_checkpoint = 0,
      gb_started = 0, gb_container = {#}, gb_sent = [], gb_open = True, gb_events = 1, gb_writer = (\<lambda>n. None),
      gb_dispatcher = (\<lambda>n. Some (Runtime_error ''isend'')), gb_replacer = (\<lambda>n. None), gb_clock = (\<lambda>n. n),
      ib_nfields = 1, ib_time_items = 2, ib_statistics = True, ib_initial_conditions = False,
      ib_backg = [\<lparr>bg_time = 0, bg_source = 0, bg_coords = [1, 2], bg_time_items = 2\<rparr>], ib_stats = [], ib_failures = 0,
      ib_failed = {}, ib_refinements = 0, ib_integrations = 0, ib_integration_time = 0, ib_batching_time = 0,
      ib_max_integration = 0, ib_min_integration = 0, ib_max_batching = 0, ib_min_batching = 0, t3_kconfig_items = 1,
      t3_twopf_re = [], t3_twopf_im = [], t3_tensor = [], t3_momentum = [], t3_Nderiv = [], t3_ics = [], t3_kt_ics = [],
      t3_paired = None\<rparr>"

theorem flush_keeps_rows_witness:
  "t3_held (snd (t3_flush Action_replace mute_batcher)) + shipped (snd (t3_flush Action_replace mute_batcher))
     = t3_held mute_batcher + shipped mute_batcher \<and> fst (t3_flush Action_replace mute_batcher) = Inl (Runtime_error ''isend'')"
proof
  have "t3_valid mute_batcher" by (simp add: t3_valid_def mute_batcher_def)
  then show "t3_held (snd (t3_flush Action_replace mute_batcher)) + shipped (snd (t3_flush Action_replace mute_batcher))
      = t3_held mute_batcher + shipped mute_batcher" using prod.collapse [symmetric] by (rule flush_keeps_rows)
  show "fst (t3_flush Action_replace mute_batcher) = Inl (Runtime_error ''isend'')"
    by (simp add: mute_batcher_def t3_flush_def flush_step_defs t3_clear_def ib_clear_def)
qed

end
