(* ===== verification/Queue_Facts.thy ===== *)
theory Queue_Facts
  imports Integration_Queue Batcher_Facts
begin

text \<open>
  The loop over a queue of configurations, for any back end: it returns, and after it the rows collected are those of the
  last attempt at every configuration. What an attempt produces is specified without a batcher; the locale states what the
  loop needs of one.
\<close>

section \<open>Termination\<close>

text \<open>Attempts beyond the last level of refinement fail at once.\<close>

definition bounded_refinement :: "('c, 'b) backend \<Rightarrow> u32 \<Rightarrow> bool" where
  "bounded_refinement bk m \<longleftrightarrow> (\<forall>c r b. m < r \<longrightarrow> bk_kmode bk c r b = (Inl too_deep, b))"

lemma refine_mesh_returns:
  assumes "bounded_refinement bk m" and "unat m + 1 < 2 ^ 32"
  shows "unat m + 1 - unat r = n \<Longrightarrow> \<exists>y. refine_mesh bk c r b = Some y"
proof (induction n arbitrary: r b)
  case 0
  then have "m < r" by (simp add: word_less_nat_alt)
  then show ?case using assms(1) by (subst refine_mesh.simps) (simp add: bounded_refinement_def)
next
  case (Suc n)
  have "r \<le> m" using Suc.prems by (simp add: word_le_nat_alt)
  then have "unat r + 1 < 2 ^ 32" using assms(2) by (simp add: word_le_nat_alt)
  then have "unat (r + 1) = unat r + 1" by (simp add: unat_word_ariths)
  then have "unat m + 1 - unat (r + 1) = n" using Suc.prems by simp
  then show ?case using Suc.IH by (subst refine_mesh.simps) (auto split: prod.splits sum.splits)
qed

lemma work_through_returns:
  assumes "bounded_refinement bk m" and "unat m + 1 < 2 ^ 32"
  shows "\<exists>y. work_through bk cs b = Some y"
proof (induction cs arbitrary: b)
  case (Cons c cs)
  obtain y where "refine_mesh bk c 0 b = Some y" using refine_mesh_returns [OF assms] by blast
  then show ?case using Cons.IH by (cases y) (auto split: sum.splits)
qed simp

text \<open>Without a last level a configuration that always overflows is refined for ever.\<close>

lemma refine_mesh_diverges:
  assumes "\<And>r b. \<exists>d. bk_kmode bk c r b = (Inr False, d)"
  shows "refine_mesh bk c r b = None"
proof -
  have step: "bk' = bk \<longrightarrow> c' = c \<longrightarrow> False"
    if ih: "\<And>bk' c' r b y. f bk' c' r b = Some y \<Longrightarrow> bk' = bk \<longrightarrow> c' = c \<longrightarrow> False"
      and "(case bk_kmode bk' c' r b of (Inl e, d) \<Rightarrow> Some (give_up bk' c' e d)
        | (Inr done, d) \<Rightarrow> if done then Some (Inr (), d)
            else f bk' c' (r + 1) (bk_unbatch bk' (bk_serial bk' c') (if r = 0 then bk_refinement bk' d else d))) = Some y"
    for f bk' c' r b y
  proof (intro impI)
    assume "bk' = bk" "c' = c"
    moreover obtain d where "bk_kmode bk c r b = (Inr False, d)" using assms by blast
    ultimately show False using that(2) ih [of bk c] by (cases y) auto
  qed
  have "bk = bk \<longrightarrow> c = c \<longrightarrow> False" if "refine_mesh bk c r b = Some y" for y
    by (rule refine_mesh.raw_induct [of "\<lambda>bk' c' r b y. bk' = bk \<longrightarrow> c' = c \<longrightarrow> False", OF _ that]) (rule step)
  then show ?thesis by (cases "refine_mesh bk c r b") auto
qed

section \<open>What is expected of an attempt\<close>

text \<open>Rows, and the exception that cuts them short.\<close>

type_synonym 'n expected = "'n row multiset \<times> exn option"

fun andthen :: "'n expected \<Rightarrow> 'n expected \<Rightarrow> 'n expected" where
  "andthen (M, None) (K, y) = (M + K, y)"
| "andthen (M, Some e) R = (M, Some e)"

abbreviation nothing :: "'n expected" where
  "nothing \<equiv> ({#}, None)"

definition sized :: "msg_id \<Rightarrow> u32 \<Rightarrow> 'n list \<Rightarrow> 'n row multiset \<Rightarrow> 'n expected" where
  "sized msg n vs M = (if length vs \<noteq> unat n then ({#}, Some (storage_error msg)) else (M, None))"

fun observed :: "('r \<Rightarrow> 'x \<Rightarrow> 'n expected) \<Rightarrow> 'r list \<Rightarrow> 'x list \<Rightarrow> 'n expected" where
  "observed f rs [] = nothing"
| "observed f [] (x # xs) = ({#}, Some Undefined)"
| "observed f (r # rs) (x # xs) = andthen (f r x) (observed f rs xs)"

definition attempt_result :: "'n expected \<Rightarrow> attempt_end \<Rightarrow> 'n row multiset \<Rightarrow> 'n row multiset \<times> attempt_end" where
  "attempt_result R e stats =
     (case snd R of
        Some x \<Rightarrow> (fst R, Failed x)
      | None \<Rightarrow> (case e of Integrated i t s \<Rightarrow> (fst R + stats, e) | _ \<Rightarrow> (fst R, e)))"

text \<open>The attempt that settles a configuration.\<close>

fun settled :: "nat \<Rightarrow> (u32 \<Rightarrow> 'n row multiset \<times> attempt_end) \<Rightarrow> u32 \<Rightarrow> 'n row multiset \<times> attempt_end" where
  "settled 0 att r = ({#}, Overflowed)"
| "settled (Suc n) att r = (if snd (att r) = Overflowed then settled n att (r + 1) else att r)"

section \<open>Views of a batcher\<close>

lemma none_left: "\<forall>x \<in># M. \<not> P x \<Longrightarrow> filter_mset P M = {#}"
  by (induction M) auto

lemma all_left: "\<forall>x \<in># M. P x \<Longrightarrow> filter_mset P M = M"
  by (induction M) auto


record ('b, 's, 'n) view =
  vw_ready :: "'b \<Rightarrow> bool"
  vw_settings :: "'b \<Rightarrow> 's"
  vw_pending :: "'b \<Rightarrow> 'n row multiset"
  vw_shipped :: "'b \<Rightarrow> 'n row multiset"
  vw_counts :: "'b \<Rightarrow> u32 \<times> u32 \<times> u32 set"

definition adds :: "('b, 's, 'n) view \<Rightarrow> 'b \<Rightarrow> 'b \<Rightarrow> 'n row multiset \<Rightarrow> bool" where
  "adds vw b d M \<longleftrightarrow> vw_ready vw d \<and> vw_settings vw d = vw_settings vw b \<and> vw_pending vw d = vw_pending vw b + M
     \<and> vw_shipped vw d = vw_shipped vw b \<and> vw_counts vw d = vw_counts vw b"

definition gives :: "('b, 's, 'n) view \<Rightarrow> 's \<Rightarrow> ('b, unit) act \<Rightarrow> 'n expected \<Rightarrow> bool" where
  "gives vw S m R \<longleftrightarrow> (\<forall>b. vw_ready vw b \<and> vw_settings vw b = S
     \<longrightarrow> (\<exists>d. m b = (case snd R of None \<Rightarrow> Inr () | Some e \<Rightarrow> Inl e, d) \<and> adds vw b d (fst R)))"

lemma adds_refl: "vw_ready vw b \<Longrightarrow> adds vw b b {#}"
  by (simp add: adds_def)

lemma adds_trans: "adds vw b c M \<Longrightarrow> adds vw c d K \<Longrightarrow> adds vw b d (M + K)"
  by (simp add: adds_def add.assoc)

lemma givesI:
  assumes "\<And>b. vw_ready vw b \<Longrightarrow> vw_settings vw b = S \<Longrightarrow> \<exists>d. m b = (Inr (), d) \<and> adds vw b d M"
  shows "gives vw S m (M, None)"
  using assms by (simp add: gives_def)

lemma gives_return: "gives vw S (returnA ()) nothing"
  by (auto simp: gives_def returnA_def adds_refl)

lemma gives_throw: "gives vw S (throwA e) ({#}, Some e)"
  by (auto simp: gives_def throwA_def adds_refl)

lemma gives_check: "gives vw S (checkA x) ({#}, x)"
  by (cases x) (simp_all add: gives_return gives_throw)

lemma gives_bind:
  assumes "gives vw S m R" and "gives vw S n Q"
  shows "gives vw S (bindA m (\<lambda>_. n)) (andthen R Q)"
  unfolding gives_def
proof (intro allI impI)
  fix b assume b: "vw_ready vw b \<and> vw_settings vw b = S"
  then obtain d where d: "m b = (case snd R of None \<Rightarrow> Inr () | Some e \<Rightarrow> Inl e, d)" "adds vw b d (fst R)"
    using assms(1) by (auto simp: gives_def)
  show "\<exists>d. bindA m (\<lambda>_. n) b = (case snd (andthen R Q) of None \<Rightarrow> Inr () | Some e \<Rightarrow> Inl e, d) \<and> adds vw b d (fst (andthen R Q))"
  proof (cases "snd R")
    case None
    have "vw_ready vw d \<and> vw_settings vw d = S" using b d(2) by (simp add: adds_def)
    then obtain f where "n d = (case snd Q of None \<Rightarrow> Inr () | Some e \<Rightarrow> Inl e, f)" "adds vw d f (fst Q)"
      using assms(2) by (auto simp: gives_def)
    then show ?thesis using d None adds_trans [OF d(2)] by (cases R, cases Q) (auto simp: bindA_def)
  next
    case (Some e)
    then show ?thesis using d by (cases R) (auto simp: bindA_def)
  qed
qed

lemma gives_when: "gives vw S m R \<Longrightarrow> gives vw S (whenA p m) (if p then R else nothing)"
  by (simp add: whenA_def gives_return)

lemma gives_observe:
  "(\<And>r x. gives vw S (f r x) (g r x)) \<Longrightarrow> gives vw S (observe_all f rs xs) (observed g rs xs)"
  by (induction f rs xs rule: observe_all.induct) (simp_all add: gives_return gives_throw gives_bind)

lemma gives_eqI: "gives vw S m R \<Longrightarrow> R = Q \<Longrightarrow> gives vw S m Q"
  by simp

text \<open>An act that looks at the settings first.\<close>

lemma gives_cong: "(\<And>b. vw_ready vw b \<Longrightarrow> vw_settings vw b = S \<Longrightarrow> m b = n b) \<Longrightarrow> gives vw S n R \<Longrightarrow> gives vw S m R"
  by (simp add: gives_def)

lemma gives_sized:
  assumes "gives vw S m (M, None)"
  shows "gives vw S (bindA (check_size msg n vs) (\<lambda>_. m)) (sized msg n vs M)"
  using gives_bind [OF gives_check assms, of "if length vs \<noteq> unat n then Some (storage_error msg) else None"]
  by (auto simp: check_size_def sized_def split: if_splits)

lemma gives_update:
  assumes "\<And>b. vw_ready vw b \<Longrightarrow> vw_settings vw b = S \<Longrightarrow> adds vw b (u b) M"
  shows "gives vw S (updateA u) (M, None)"
  using assms by (simp add: givesI updateA_def)

lemma bindA_assoc: "bindA (bindA m f) g = bindA m (\<lambda>x. bindA (f x) g)"
  by (rule ext) (auto simp: bindA_def split: sum.splits prod.splits)

text \<open>A flush moves rows from the caches to a container.\<close>

definition moves :: "('b, 's, 'n) view \<Rightarrow> 'b \<Rightarrow> 'b \<Rightarrow> bool" where
  "moves vw b d \<longleftrightarrow> vw_ready vw d \<and> vw_settings vw d = vw_settings vw b \<and> vw_counts vw d = vw_counts vw b
     \<and> (\<exists>K. vw_pending vw b = vw_pending vw d + K \<and> vw_shipped vw d = vw_shipped vw b + K)"

lemma moves_refl: "vw_ready vw b \<Longrightarrow> moves vw b b"
  by (simp add: moves_def)

lemma moves_trans:
  assumes "moves vw b c" and "moves vw c d"
  shows "moves vw b d"
proof -
  obtain K L where "vw_pending vw b = vw_pending vw c + K" "vw_shipped vw c = vw_shipped vw b + K"
      "vw_pending vw c = vw_pending vw d + L" "vw_shipped vw d = vw_shipped vw c + L" using assms by (auto simp: moves_def)
  then show ?thesis using assms by (auto simp: moves_def ac_simps intro!: exI [of _ "K + L"])
qed

text \<open>The end of an attempt.\<close>

lemma attempt_failed:
  assumes "gives vw S pre R" and "vw_ready vw b" and "vw_settings vw b = S" and "attempt_result R e stats = (M, Failed x)"
  shows "\<exists>d. bindA pre (\<lambda>_. end_attempt rep e) b = (Inl x, d) \<and> adds vw b d M"
proof -
  obtain d where d: "pre b = (case snd R of None \<Rightarrow> Inr () | Some e \<Rightarrow> Inl e, d)" "adds vw b d (fst R)"
    using assms(1-3) by (auto simp: gives_def)
  then show ?thesis using assms(4)
    by (cases "snd R"; cases e) (auto simp: attempt_result_def bindA_def end_attempt_def throwA_def)
qed

lemma attempt_overflowed:
  assumes "gives vw S pre R" and "vw_ready vw b" and "vw_settings vw b = S" and "attempt_result R e stats = (M, Overflowed)"
  shows "\<exists>d. bindA pre (\<lambda>_. end_attempt rep e) b = (Inr False, d) \<and> adds vw b d M"
proof -
  obtain d where d: "pre b = (case snd R of None \<Rightarrow> Inr () | Some e \<Rightarrow> Inl e, d)" "adds vw b d (fst R)"
    using assms(1-3) by (auto simp: gives_def)
  then show ?thesis using assms(4)
    by (cases "snd R"; cases e) (auto simp: attempt_result_def bindA_def end_attempt_def returnA_def)
qed

lemma attempt_integrated:
  assumes "gives vw S pre R" and "vw_ready vw b" and "vw_settings vw b = S" and "attempt_result R e stats = (M, Integrated i t n)"
  shows "\<exists>d K. bindA pre (\<lambda>_. end_attempt rep e) b = bindA (rep i t n) (\<lambda>_. returnA True) d \<and> adds vw b d K
    \<and> M = K + stats \<and> e = Integrated i t n"
proof -
  obtain d where d: "pre b = (case snd R of None \<Rightarrow> Inr () | Some e \<Rightarrow> Inl e, d)" "adds vw b d (fst R)"
    using assms(1-3) by (auto simp: gives_def)
  then show ?thesis using assms(4)
    by (cases "snd R"; cases e) (auto simp: attempt_result_def bindA_def end_attempt_def)
qed

section \<open>Unwinding\<close>

definition delivers :: "('b, 's, 'n) view \<Rightarrow> 'b \<Rightarrow> 'b \<Rightarrow> 'n row multiset \<Rightarrow> bool" where
  "delivers vw b d M \<longleftrightarrow> vw_ready vw d \<and> vw_settings vw d = vw_settings vw b
     \<and> vw_pending vw d + vw_shipped vw d = vw_pending vw b + vw_shipped vw b + M
     \<and> vw_pending vw d \<subseteq># vw_pending vw b + M"

lemma adds_delivers: "adds vw b d M \<Longrightarrow> delivers vw b d M"
  by (simp add: adds_def delivers_def)

lemma delivers_trans: "delivers vw b c M \<Longrightarrow> delivers vw c d K \<Longrightarrow> delivers vw b d (M + K)"
  unfolding delivers_def by (auto simp: algebra_simps intro: subset_mset.order_trans)

lemma moves_delivers: "moves vw b d \<Longrightarrow> delivers vw b d {#}"
  by (auto simp: moves_def delivers_def)

text \<open>The serials of configurations whose rows may still be in the caches.\<close>

definition fresh :: "('b, 's, 'n) view \<Rightarrow> u32 \<Rightarrow> 'b \<Rightarrow> bool" where
  "fresh vw s b \<longleftrightarrow> (\<forall>row \<in># vw_pending vw b. row_source row \<noteq> Some s)"

fun integrated :: "attempt_end \<Rightarrow> bool" where
  "integrated (Integrated i t s) = True"
| "integrated Overflowed = False"
| "integrated (Failed e) = False"

fun ends_well :: "attempt_end \<Rightarrow> bool" where
  "ends_well (Integrated i t s) = True"
| "ends_well (Failed (Runtime_error m)) = True"
| "ends_well e = False"

definition count_result :: "bool \<Rightarrow> u32 \<Rightarrow> u32 \<times> u32 \<times> u32 set \<Rightarrow> u32 \<times> u32 \<times> u32 set" where
  "count_result ok s n = (case n of (i, f, F) \<Rightarrow> if ok then (i + 1, f, F) else (i, f + 1, insert s F))"

text \<open>What a configuration of the queue gives: all rows of an attempt that succeeds, some of one that fails.\<close>

definition config_outcome :: "nat \<Rightarrow> ('c \<Rightarrow> u32 \<Rightarrow> 'n row multiset \<times> attempt_end) \<Rightarrow> 'c \<Rightarrow> 'n row multiset \<times> attempt_end" where
  "config_outcome n att c = settled n (att c) 0"

definition contributes :: "'n row multiset \<times> attempt_end \<Rightarrow> 'n row multiset \<Rightarrow> bool" where
  "contributes R K \<longleftrightarrow> K \<subseteq># fst R \<and> (integrated (snd R) \<longrightarrow> K = fst R)"

definition queue_counts :: "('c \<Rightarrow> 'n row multiset \<times> attempt_end) \<Rightarrow> ('c \<Rightarrow> u32) \<Rightarrow> 'c list \<Rightarrow> u32 \<times> u32 \<times> u32 set
    \<Rightarrow> u32 \<times> u32 \<times> u32 set" where
  "queue_counts out serial cs n = fold (\<lambda>c. count_result (integrated (snd (out c))) (serial c)) cs n"

locale unwinding =
  fixes bk :: "('c, 'b) backend" and vw :: "('b, 's, 'n) view" and attempt :: "'s \<Rightarrow> 'c \<Rightarrow> u32 \<Rightarrow> 'n row multiset \<times> attempt_end"
  assumes kmode_failed: "vw_ready vw b \<Longrightarrow> attempt (vw_settings vw b) c r = (M, Failed x)
      \<Longrightarrow> \<exists>d. bk_kmode bk c r b = (Inl x, d) \<and> adds vw b d M"
    and kmode_overflowed: "vw_ready vw b \<Longrightarrow> attempt (vw_settings vw b) c r = (M, Overflowed)
      \<Longrightarrow> \<exists>d. bk_kmode bk c r b = (Inr False, d) \<and> adds vw b d M"
    and kmode_integrated: "vw_ready vw b \<Longrightarrow> attempt (vw_settings vw b) c r = (M, Integrated i t n)
      \<Longrightarrow> \<exists>d. bk_kmode bk c r b = (Inr True, d) \<and> delivers vw b d M
        \<and> vw_counts vw d = count_result True (bk_serial bk c) (vw_counts vw b)"
    and sources: "attempt S c r = (M, e) \<Longrightarrow> row \<in># M \<Longrightarrow> row_source row = Some (bk_serial bk c) \<or> integrated e \<and> row_source row = None"
    and unbatched: "vw_ready vw b \<Longrightarrow> vw_ready vw (bk_unbatch bk s b) \<and> vw_settings vw (bk_unbatch bk s b) = vw_settings vw b
      \<and> vw_shipped vw (bk_unbatch bk s b) = vw_shipped vw b \<and> vw_counts vw (bk_unbatch bk s b) = vw_counts vw b
      \<and> vw_pending vw (bk_unbatch bk s b) = filter_mset (\<lambda>row. row_source row \<noteq> Some s) (vw_pending vw b)"
    and refined: "vw_ready vw b \<Longrightarrow> adds vw b (bk_refinement bk b) {#}"
    and failure: "vw_ready vw b \<Longrightarrow> \<exists>d K. bk_failure bk s b = (Inr (), d) \<and> vw_ready vw d \<and> vw_settings vw d = vw_settings vw b
      \<and> vw_counts vw d = count_result False s (vw_counts vw b) \<and> vw_pending vw b = vw_pending vw d + K
      \<and> vw_shipped vw d = vw_shipped vw b + K"
begin

lemma unwound:
  assumes "vw_ready vw b" and "fresh vw s b" and "adds vw b d M" and "\<forall>row \<in># M. row_source row = Some s"
  shows "adds vw b (bk_unbatch bk s d) {#}"
proof -
  have d: "vw_ready vw d" "vw_pending vw d = vw_pending vw b + M" using assms(3) by (simp_all add: adds_def)
  have "filter_mset (\<lambda>row. row_source row \<noteq> Some s) (vw_pending vw b) = vw_pending vw b"
    using assms(2) by (simp add: all_left fresh_def)
  moreover have "filter_mset (\<lambda>row. row_source row \<noteq> Some s) M = {#}"
    using assms(4) by (simp add: none_left)
  ultimately show ?thesis using unbatched [OF d(1), of s] assms(3) d(2) by (simp add: adds_def)
qed

lemma given_up:
  assumes "vw_ready vw b" and "fresh vw (bk_serial bk c) b" and "adds vw b d M"
    and "\<forall>row \<in># M. row_source row = Some (bk_serial bk c)"
  shows "\<exists>f K. give_up bk c (Runtime_error e) d = (Inr (), f) \<and> K \<subseteq># M \<and> delivers vw b f K
    \<and> vw_counts vw f = count_result False (bk_serial bk c) (vw_counts vw b)"
proof -
  let ?s = "bk_serial bk c" and ?P = "\<lambda>row. row_source row \<noteq> Some (bk_serial bk c)"
  have d: "vw_ready vw d" "vw_pending vw d = vw_pending vw b + M" "vw_shipped vw d = vw_shipped vw b"
    "vw_settings vw d = vw_settings vw b" "vw_counts vw d = vw_counts vw b" using assms(3) by (simp_all add: adds_def)
  obtain g K where g: "bk_failure bk ?s d = (Inr (), g)" "vw_ready vw g" "vw_settings vw g = vw_settings vw d"
    "vw_counts vw g = count_result False ?s (vw_counts vw d)" "vw_pending vw d = vw_pending vw g + K"
    "vw_shipped vw g = vw_shipped vw d + K" using failure [OF d(1), of ?s] by blast
  let ?f = "bk_unbatch bk ?s g" and ?L = "filter_mset (\<lambda>row. row_source row = Some ?s) K"
  have old: "filter_mset ?P (vw_pending vw b) = vw_pending vw b"
    using assms(2) by (simp add: all_left fresh_def)
  have p: "vw_pending vw b = filter_mset ?P (vw_pending vw g) + filter_mset ?P K"
    using arg_cong [OF g(5), of "filter_mset ?P"] old assms(4) by (simp add: d(2) none_left)
  have "K = filter_mset ?P K + ?L" using multiset_partition [of K ?P] by simp
  then have total: "filter_mset ?P (vw_pending vw g) + K = vw_pending vw b + ?L"
    unfolding p add.assoc by (rule arg_cong [of _ _ "(+) (filter_mset ?P (vw_pending vw g))"])
  have "?L \<subseteq># filter_mset (\<lambda>row. row_source row = Some ?s) (vw_pending vw b + M)"
    unfolding d(2) [symmetric] g(5) by simp
  moreover have "filter_mset (\<lambda>row. row_source row = Some ?s) (vw_pending vw b) = {#}"
    using assms(2) by (simp add: none_left fresh_def)
  moreover have "filter_mset (\<lambda>row. row_source row = Some ?s) M = M"
    using assms(4) by (simp add: all_left)
  ultimately have "?L \<subseteq># M" by simp
  moreover have "delivers vw b ?f ?L"
    using unbatched [OF g(2), of ?s] d(3,4) g(2,3,6) total p by (simp add: delivers_def algebra_simps)
  moreover have "give_up bk c (Runtime_error e) d = (Inr (), ?f)" using g(1) by (simp add: give_up_def bindA_def updateA_def)
  ultimately show ?thesis using unbatched [OF g(2), of ?s] g(4) d(5) by auto
qed

lemma settles:
  assumes "vw_ready vw b" and "fresh vw (bk_serial bk c) b" and "settled n (attempt (vw_settings vw b) c) r = (M, e)" and "ends_well e"
  shows "\<exists>d K. refine_mesh bk c r b = Some (Inr (), d) \<and> delivers vw b d K \<and> K \<subseteq># M \<and> (integrated e \<longrightarrow> K = M)
    \<and> vw_counts vw d = count_result (integrated e) (bk_serial bk c) (vw_counts vw b)"
  using assms
proof (induction n arbitrary: r b)
  case 0
  then show ?case by auto
next
  case (Suc n)
  obtain M1 e1 where a: "attempt (vw_settings vw b) c r = (M1, e1)" by (cases "attempt (vw_settings vw b) c r")
  show ?case
  proof (cases e1)
    case (Integrated i t k)
    then have m: "M1 = M" "e = e1" using Suc.prems(3) a by auto
    obtain d where "bk_kmode bk c r b = (Inr True, d)" "delivers vw b d M"
        "vw_counts vw d = count_result True (bk_serial bk c) (vw_counts vw b)"
      using kmode_integrated [OF Suc.prems(1)] a Integrated m by blast
    then show ?thesis using Integrated m by (subst refine_mesh.simps) auto
  next
    case Overflowed
    then have n: "settled n (attempt (vw_settings vw b) c) (r + 1) = (M, e)" using Suc.prems(3) a by simp
    obtain d where d: "bk_kmode bk c r b = (Inr False, d)" "adds vw b d M1"
      using kmode_overflowed [OF Suc.prems(1)] a Overflowed by blast
    let ?d = "if r = 0 then bk_refinement bk d else d"
    have "adds vw b ?d M1" using d(2) refined [of d] adds_trans [OF d(2), of _ "{#}"] by (auto simp: adds_def)
    moreover have "\<forall>row \<in># M1. row_source row = Some (bk_serial bk c)" using sources [OF a] Overflowed by auto
    ultimately have u: "adds vw b (bk_unbatch bk (bk_serial bk c) ?d) {#}" by (rule unwound [OF Suc.prems(1,2)])
    have "vw_ready vw (bk_unbatch bk (bk_serial bk c) ?d)" "fresh vw (bk_serial bk c) (bk_unbatch bk (bk_serial bk c) ?d)"
      "settled n (attempt (vw_settings vw (bk_unbatch bk (bk_serial bk c) ?d)) c) (r + 1) = (M, e)"
      using u n Suc.prems(2) by (simp_all add: adds_def fresh_def)
    from Suc.IH [OF this Suc.prems(4)] u obtain f K where
      "refine_mesh bk c (r + 1) (bk_unbatch bk (bk_serial bk c) ?d) = Some (Inr (), f)" "delivers vw b f K" "K \<subseteq># M"
      "integrated e \<longrightarrow> K = M" "vw_counts vw f = count_result (integrated e) (bk_serial bk c) (vw_counts vw b)"
      using delivers_trans [OF adds_delivers [OF u]] by (auto simp: adds_def)
    moreover have "refine_mesh bk c r b = refine_mesh bk c (r + 1) (bk_unbatch bk (bk_serial bk c) ?d)"
      using d(1) by (subst refine_mesh.simps) simp
    ultimately show ?thesis by auto
  next
    case (Failed x)
    then have m: "M1 = M" "e = e1" using Suc.prems(3) a by auto
    obtain msg where x: "x = Runtime_error msg" using Suc.prems(4) m Failed by (cases x) auto
    obtain d where d: "bk_kmode bk c r b = (Inl x, d)" "adds vw b d M"
      using kmode_failed [OF Suc.prems(1)] a Failed m by blast
    have "\<forall>row \<in># M. row_source row = Some (bk_serial bk c)" using sources [OF a] Failed m by auto
    from given_up [OF Suc.prems(1,2) d(2) this, of msg] d(1) x Failed m show ?thesis
      by (subst refine_mesh.simps) auto
  qed
qed

lemma outcome_sources:
  assumes "settled n (attempt S c) r = (M, e)" and "row \<in># M"
  shows "row_source row = Some (bk_serial bk c) \<or> row_source row = None"
  using assms
proof (induction n arbitrary: r)
  case (Suc n)
  then show ?case by (cases "attempt S c r") (auto split: if_splits dest: sources)
qed simp

lemma worked_through:
  assumes "vw_ready vw b" and "distinct (map (bk_serial bk) cs)" and "\<forall>c \<in> set cs. fresh vw (bk_serial bk c) b"
    and "\<forall>c \<in> set cs. ends_well (snd (config_outcome n (attempt (vw_settings vw b)) c))"
  shows "\<exists>d Ks. work_through bk cs b = Some (Inr (), d) \<and> delivers vw b d (sum_list Ks)
    \<and> list_all2 (\<lambda>c. contributes (config_outcome n (attempt (vw_settings vw b)) c)) cs Ks
    \<and> vw_counts vw d = queue_counts (config_outcome n (attempt (vw_settings vw b))) (bk_serial bk) cs (vw_counts vw b)"
  using assms
proof (induction cs arbitrary: b)
  case Nil
  then show ?case by (intro exI [of _ b] exI [of _ "[]"]) (simp add: delivers_def queue_counts_def)
next
  case (Cons c cs)
  let ?S = "vw_settings vw b"
  obtain M e where o: "config_outcome n (attempt ?S) c = (M, e)" by (cases "config_outcome n (attempt ?S) c")
  have "ends_well e" using Cons.prems(4) o by simp
  from settles [OF Cons.prems(1) _ _ this, of c n 0 M] o Cons.prems(3) obtain d K where
    d: "refine_mesh bk c 0 b = Some (Inr (), d)" "delivers vw b d K" "K \<subseteq># M" "integrated e \<longrightarrow> K = M"
      "vw_counts vw d = count_result (integrated e) (bk_serial bk c) (vw_counts vw b)"
    by (auto simp: config_outcome_def)
  have S: "vw_ready vw d" "vw_settings vw d = ?S" "vw_pending vw d \<subseteq># vw_pending vw b + K" using d(2) by (simp_all add: delivers_def)
  have "fresh vw (bk_serial bk x) d" if "x \<in> set cs" for x
    unfolding fresh_def
  proof
    fix row assume "row \<in># vw_pending vw d"
    then consider "row \<in># vw_pending vw b" | "row \<in># M" using S(3) d(3) by (meson mset_subset_eqD union_iff)
    then show "row_source row \<noteq> Some (bk_serial bk x)"
    proof cases
      case 1
      then show ?thesis using Cons.prems(3) that by (simp add: fresh_def)
    next
      case 2
      have "bk_serial bk x \<noteq> bk_serial bk c" using Cons.prems(2) that by (auto simp: image_iff)
      then show ?thesis using outcome_sources [OF _ 2] o by (auto simp: config_outcome_def)
    qed
  qed
  with Cons.IH [OF S(1)] Cons.prems(2,4) S(2) obtain f Ks where
    f: "work_through bk cs d = Some (Inr (), f)" "delivers vw d f (sum_list Ks)"
      "list_all2 (\<lambda>c. contributes (config_outcome n (attempt ?S) c)) cs Ks"
      "vw_counts vw f = queue_counts (config_outcome n (attempt ?S)) (bk_serial bk) cs (vw_counts vw d)"
    by auto
  have "contributes (config_outcome n (attempt ?S) c) K" using d(3,4) o by (simp add: contributes_def)
  then show ?case using d f o delivers_trans [OF d(2) f(2)] by (intro exI [of _ f] exI [of _ "K # Ks"]) (simp add: queue_counts_def)
qed

end

end
