(* ===== verification/Twopf_Queue.thy ===== *)
theory Twopf_Queue
  imports Queue_Facts
begin

text \<open>
  The queue of a two-point task: what the batcher of the back end holds, with the batcher it may be paired with, and what an
  attempt at a configuration adds to it. The interpretation shows that the model of the back end meets the contract of the
  loop; the properties follow from it.
\<close>

section \<open>What the batcher holds\<close>

record t2_settings =
  ts_nfields :: u32
  ts_time_items :: u32
  ts_kconfig_items :: u32
  ts_statistics :: bool
  ts_ics :: bool
  ts_paired :: "(u32 \<times> u32) option"

definition t2_settings_of :: "'n twopf_batcher \<Rightarrow> t2_settings" where
  "t2_settings_of b = \<lparr>ts_nfields = ib_nfields b, ts_time_items = ib_time_items b, ts_kconfig_items = t2_kconfig_items b,
     ts_statistics = ib_statistics b, ts_ics = ib_initial_conditions b,
     ts_paired = map_option (\<lambda>z. (pb_time_items z, z2_kconfig_items z)) (t2_paired b)\<rparr>"

text \<open>No callback throws, for the paired batcher either, and a flush waits for the end of a configuration.\<close>

definition t2_undisturbed :: "'n twopf_batcher \<Rightarrow> bool" where
  "t2_undisturbed b \<longleftrightarrow> calm b \<and> t2_valid b \<and> (case t2_paired b of None \<Rightarrow> True | Some z \<Rightarrow> calm z)"

definition t2_delayed :: "'n twopf_batcher \<Rightarrow> bool" where
  "t2_delayed b \<longleftrightarrow> gb_mode b = Flush_delayed \<and> (case t2_paired b of None \<Rightarrow> True | Some z \<Rightarrow> gb_mode z = Flush_delayed)"

definition t2_pending :: "'n twopf_batcher \<Rightarrow> 'n row multiset" where
  "t2_pending b = t2_held b + (case t2_paired b of None \<Rightarrow> {#} | Some z \<Rightarrow> z2_held z)"

definition t2_shipped :: "'n twopf_batcher \<Rightarrow> 'n row multiset" where
  "t2_shipped b = shipped b + (case t2_paired b of None \<Rightarrow> {#} | Some z \<Rightarrow> shipped z)"

definition ib_counts :: "('n, 'z) integration_batcher_scheme \<Rightarrow> u32 \<times> u32 \<times> u32 set" where
  "ib_counts b = (ib_integrations b, ib_failures b, ib_failed b)"

definition t2_view :: "('n twopf_batcher, t2_settings, 'n) view" where
  "t2_view = \<lparr>vw_ready = (\<lambda>b. t2_undisturbed b \<and> t2_delayed b), vw_settings = t2_settings_of, vw_pending = t2_pending,
     vw_shipped = t2_shipped, vw_counts = ib_counts\<rparr>"

lemma t2_view_simps [simp]:
  "vw_ready t2_view b = (t2_undisturbed b \<and> t2_delayed b)" "vw_settings t2_view = t2_settings_of" "vw_pending t2_view = t2_pending"
  "vw_shipped t2_view = t2_shipped" "vw_counts t2_view = ib_counts"
  by (simp_all add: t2_view_def)

lemmas t2_view_parts = t2_undisturbed_def t2_delayed_def t2_settings_of_def t2_pending_def t2_shipped_def ib_counts_def calm_def
  shipped_def held_defs

section \<open>What an attempt adds\<close>

definition t2_backg_rows :: "t2_settings \<Rightarrow> u32 \<Rightarrow> u32 \<Rightarrow> 'n list \<Rightarrow> 'n row multiset" where
  "t2_backg_rows S t s vs = {#Backg_row \<lparr>bg_time = t, bg_source = s, bg_coords = vs, bg_time_items = ts_time_items S\<rparr>#}"

definition settings_element :: "t2_settings \<Rightarrow> u32 \<Rightarrow> u32 \<Rightarrow> 'n list \<Rightarrow> 'n element_item" where
  "settings_element S t s vs = \<lparr>el_time = t, el_kconfig = s, el_source = s, el_elements = vs, el_time_items = ts_time_items S,
     el_kconfig_items = ts_kconfig_items S\<rparr>"

definition t2_zeta_rows :: "'n::field model_functions \<Rightarrow> t2_settings \<Rightarrow> u32 \<Rightarrow> u32 \<Rightarrow> 'n list \<Rightarrow> 'n list \<Rightarrow> 'n row multiset" where
  "t2_zeta_rows mf S t s tpf bg =
     (case ts_paired S of
        None \<Rightarrow> {#}
      | Some (ti, ki) \<Rightarrow>
          {#Zeta_twopf_row \<lparr>zt_time = t, zt_kconfig = s, zt_source = s, zt_value = fst (agent_zeta_twopf mf tpf bg), zt_time_items = ti,
              zt_kconfig_items = ki\<rparr>,
            Gauge1_row \<lparr>el_time = t, el_kconfig = s, el_source = s, el_elements = snd (agent_zeta_twopf mf tpf bg),
              el_time_items = ti, el_kconfig_items = ki\<rparr>#})"

definition t2_observed :: "('n::field, twopf_kconfig_record) integrator \<Rightarrow> t2_settings \<Rightarrow> twopf_kconfig_record \<Rightarrow> 'n time_record
    \<Rightarrow> 'n list \<Rightarrow> 'n expected" where
  "t2_observed ig S c r x =
     (let N = mf_fields (ig_model ig); nf = ts_nfields S; t = tr_serial r; s = tk_serial c; bg = slots 0 (backg_size N) x;
          tensor = slots (tensor_start N) tensor_size x; tpf = slots (twopf_start N) (twopf_size N) x;
          good = \<not> (ig_strict ig \<and> (\<exists>v \<in> set (slots 0 (twopf_start N + twopf_size N) x). ig_bad ig v))
      in andthen ({#}, if good then None else Some (Runtime_error ''CPPTRANSPORT_INTEGRATOR_NAN_OR_INF''))
           (if tr_stored r
            then andthen (if tk_store_background c then sized ''CPPTRANSPORT_NFIELDS_BACKG'' (2 * nf) bg (t2_backg_rows S t s bg) else nothing)
              (andthen (sized ''CPPTRANSPORT_NFIELDS_TENSOR_TWOPF'' 4 tensor {#Tensor_row (settings_element S t s tensor)#})
                (sized ''CPPTRANSPORT_NFIELDS_TWOPF'' (2 * nf * 2 * nf) tpf
                  (add_mset (Twopf_re_row (settings_element S t s tpf)) (t2_zeta_rows (ig_model ig) S t s tpf bg))))
            else nothing))"

definition t2_expected :: "('n::field, twopf_kconfig_record) integrator \<Rightarrow> t2_settings \<Rightarrow> twopf_kconfig_record \<Rightarrow> u32 \<Rightarrow> 'n expected" where
  "t2_expected ig S c r =
     (let a = ig_attempt ig c r
      in andthen ({#}, at_before a)
           (andthen (if ts_ics S then sized ''CPPTRANSPORT_NFIELDS_BACKG'' (2 * ts_nfields S) (snd (at_ics a))
               {#Ics_row \<lparr>ic_source = tk_serial c, ic_texit = fst (at_ics a), ic_coords = snd (at_ics a), ic_kconfig_items = ts_kconfig_items S\<rparr>#}
             else nothing)
           (observed (t2_observed ig S c) (ig_times ig c) (at_states a))))"

definition stats_rows :: "bool \<Rightarrow> u32 \<Rightarrow> u32 \<Rightarrow> attempt_end \<Rightarrow> 'n row multiset" where
  "stats_rows statistics s r e =
     (case e of
        Integrated i t n \<Rightarrow>
          (if statistics then {#Stats_row \<lparr>cs_serial = s, cs_integration = i, cs_batching = t, cs_refinements = r, cs_steps = n\<rparr>#} else {#})
      | _ \<Rightarrow> {#})"

definition t2_attempt :: "('n::field, twopf_kconfig_record) integrator \<Rightarrow> t2_settings \<Rightarrow> twopf_kconfig_record \<Rightarrow> u32
    \<Rightarrow> 'n row multiset \<times> attempt_end" where
  "t2_attempt ig S c r =
     (if ig_max ig < r then ({#}, Failed too_deep)
      else let e = at_end (ig_attempt ig c r)
           in attempt_result (t2_expected ig S c r) e (stats_rows (ts_statistics S) (tk_serial c) r e))"

section \<open>Pushes\<close>

lemma check_delayed:
  assumes "gb_mode b = Flush_delayed"
  shows "\<exists>f. check_for_flush storage flush b = (Inr (), b\<lparr>gb_flush_due := f\<rparr>)"
proof (cases "ucast (gb_capacity b) < storage b")
  case False
  then show ?thesis by (intro exI [of _ "gb_flush_due b"]) (simp add: check_for_flush_def)
qed (auto simp: check_for_flush_def assms)

lemma t2_gives_check: "gives t2_view S t2_check nothing"
proof (rule givesI)
  fix b :: "'a twopf_batcher"
  assume "vw_ready t2_view b"
  moreover from this obtain f where "t2_check b = (Inr (), b\<lparr>gb_flush_due := f\<rparr>)"
    using check_delayed [of b] by (auto simp: t2_delayed_def)
  ultimately show "\<exists>d. t2_check b = (Inr (), d) \<and> adds t2_view b d {#}"
    by (auto simp: adds_def t2_view_parts split: option.splits)
qed

lemma t2_gives_backg:
  "gives t2_view S (t2_push_backg t s vs) (sized ''CPPTRANSPORT_NFIELDS_BACKG'' (2 * ts_nfields S) vs (t2_backg_rows S t s vs))"
proof -
  let ?u = "\<lambda>b :: 'a twopf_batcher. b\<lparr>ib_backg := ib_backg b @ [\<lparr>bg_time = t, bg_source = s, bg_coords = vs, bg_time_items = ib_time_items b\<rparr>]\<rparr>"
  have "gives t2_view S (updateA ?u) (t2_backg_rows S t s vs, None)"
    by (rule gives_update) (auto simp: adds_def t2_view_parts t2_backg_rows_def split: option.splits)
  from gives_sized [OF gives_bind [OF this t2_gives_check, simplified]] show ?thesis
    by (rule gives_cong [rotated]) (auto simp: t2_push_backg_def push_backg_def t2_settings_of_def)
qed

lemma t2_gives_tensor:
  "gives t2_view S (t2_push_tensor t s s vs) (sized ''CPPTRANSPORT_NFIELDS_TENSOR_TWOPF'' 4 vs {#Tensor_row (settings_element S t s vs)#})"
proof -
  let ?u = "\<lambda>b :: 'a twopf_batcher. b\<lparr>t2_tensor := t2_tensor b @ [t2_element t s s vs b]\<rparr>"
  have "gives t2_view S (updateA ?u) ({#Tensor_row (settings_element S t s vs)#}, None)"
    by (rule gives_update) (auto simp: adds_def t2_view_parts t2_element_def settings_element_def split: option.splits)
  from gives_sized [OF gives_bind [OF this t2_gives_check, simplified]] show ?thesis by (simp add: t2_push_tensor_def)
qed

lemma t2_gives_paired: "gives t2_view S (t2_push_paired mf t s s vs bg) (t2_zeta_rows mf S t s vs bg, None)"
proof (rule givesI)
  fix b :: "'a twopf_batcher"
  assume r: "vw_ready t2_view b" and S: "vw_settings t2_view b = S"
  obtain zeta g where a: "agent_zeta_twopf mf vs bg = (zeta, g)" by (cases "agent_zeta_twopf mf vs bg")
  show "\<exists>d. t2_push_paired mf t s s vs bg b = (Inr (), d) \<and> adds t2_view b d (t2_zeta_rows mf S t s vs bg)"
  proof (cases "t2_paired b")
    case None
    then show ?thesis using r S
      by (intro exI [of _ b]) (auto simp: t2_push_paired_def a on_paired2_def t2_zeta_rows_def t2_settings_of_def adds_def)
  next
    case (Some z)
    let ?z1 = "z\<lparr>z2_twopf := z2_twopf z @ [\<lparr>zt_time = t, zt_kconfig = s, zt_source = s, zt_value = zeta,
        zt_time_items = pb_time_items z, zt_kconfig_items = z2_kconfig_items z\<rparr>]\<rparr>"
    let ?z2 = "\<lambda>z :: 'a zeta_twopf_batcher. z\<lparr>z2_gauge1 := z2_gauge1 z @ [\<lparr>el_time = t, el_kconfig = s, el_source = s, el_elements = g,
        el_time_items = pb_time_items z, el_kconfig_items = z2_kconfig_items z\<rparr>]\<rparr>"
    have m: "gb_mode z = Flush_delayed" using r Some by (simp add: t2_delayed_def)
    obtain f1 where f1: "check_for_flush z2_storage z2_flush ?z1 = (Inr (), ?z1\<lparr>gb_flush_due := f1\<rparr>)"
      using check_delayed [of ?z1] m by auto
    obtain f2 where f2: "check_for_flush z2_storage z2_flush (?z2 (?z1\<lparr>gb_flush_due := f1\<rparr>)) = (Inr (), (?z2 (?z1\<lparr>gb_flush_due := f1\<rparr>))\<lparr>gb_flush_due := f2\<rparr>)"
      using check_delayed [of "?z2 (?z1\<lparr>gb_flush_due := f1\<rparr>)"] m by auto
    let ?d = "b\<lparr>t2_paired := Some ((?z2 (?z1\<lparr>gb_flush_due := f1\<rparr>))\<lparr>gb_flush_due := f2\<rparr>)\<rparr>"
    have "t2_push_paired mf t s s vs bg b = (Inr (), ?d)"
      using f1 f2 by (simp add: t2_push_paired_def a on_paired2_def Some z2_push_twopf_def z2_push_gauge1_def bindA_def updateA_def)
    moreover have "adds t2_view b ?d (t2_zeta_rows mf S t s vs bg)"
      using r S Some by (auto simp: adds_def t2_view_parts t2_zeta_rows_def a)
    ultimately show ?thesis by blast
  qed
qed

lemma t2_gives_twopf:
  "gives t2_view S (t2_push_twopf mf t s s vs bg) (sized ''CPPTRANSPORT_NFIELDS_TWOPF'' (2 * ts_nfields S * 2 * ts_nfields S) vs
     (add_mset (Twopf_re_row (settings_element S t s vs)) (t2_zeta_rows mf S t s vs bg)))"
proof -
  let ?u = "\<lambda>b :: 'a twopf_batcher. b\<lparr>t2_twopf := t2_twopf b @ [t2_element t s s vs b]\<rparr>"
  have "gives t2_view S (updateA ?u) ({#Twopf_re_row (settings_element S t s vs)#}, None)"
    by (rule gives_update) (auto simp: adds_def t2_view_parts t2_element_def settings_element_def split: option.splits)
  from gives_sized [OF gives_bind [OF this gives_bind [OF t2_gives_paired t2_gives_check], simplified]] show ?thesis
    by (rule gives_cong [rotated]) (auto simp: t2_push_twopf_def t2_settings_of_def)
qed

lemma t2_gives_ics:
  assumes "ts_ics S"
  shows "gives t2_view S (t2_push_ics s te vs) (sized ''CPPTRANSPORT_NFIELDS_BACKG'' (2 * ts_nfields S) vs
     {#Ics_row \<lparr>ic_source = s, ic_texit = te, ic_coords = vs, ic_kconfig_items = ts_kconfig_items S\<rparr>#})"
proof -
  let ?u = "\<lambda>b :: 'a twopf_batcher. b\<lparr>t2_ics := t2_ics b @ [\<lparr>ic_source = s, ic_texit = te, ic_coords = vs,
     ic_kconfig_items = t2_kconfig_items b\<rparr>]\<rparr>"
  have "gives t2_view S (updateA ?u) ({#Ics_row \<lparr>ic_source = s, ic_texit = te, ic_coords = vs, ic_kconfig_items = ts_kconfig_items S\<rparr>#}, None)"
    by (rule gives_update, insert assms) (auto simp: adds_def t2_view_parts split: option.splits)
  from gives_sized [OF gives_bind [OF this t2_gives_check, simplified]] show ?thesis
    by (rule gives_cong [rotated], insert assms) (auto simp: t2_push_ics_def t2_settings_of_def)
qed

section \<open>Attempts\<close>

lemma t2_gives_observe: "gives t2_view S (twopf_observe ig c r x) (t2_observed ig S c r x)"
  unfolding twopf_observe_def t2_observed_def Let_def check_finite_def twopf_push_def
  by (intro gives_bind gives_when t2_gives_backg t2_gives_tensor t2_gives_twopf) (rule gives_check [THEN gives_eqI], simp)

lemma t2_kept:
  assumes "generic_batcher.more d = generic_batcher.more b \<or> generic_batcher.more d = generic_batcher.more (t2_clear b)"
  shows "t2_settings_of d = t2_settings_of b \<and> ib_counts d = ib_counts b \<and> t2_paired d = t2_paired b"
  using assms by (cases b, cases d) (auto simp: t2_settings_of_def ib_counts_def t2_clear_def ib_clear_def)

lemma z2_kept:
  assumes "generic_batcher.more d = generic_batcher.more b \<or> generic_batcher.more d = generic_batcher.more (z2_clear b)"
  shows "pb_time_items d = pb_time_items b \<and> z2_kconfig_items d = z2_kconfig_items b"
  using assms by (cases b, cases d) (auto simp: z2_clear_def)

lemma t2_due:
  assumes "vw_ready t2_view b"
  shows "\<exists>d. flush_if_due t2_flush b = (Inr (), d) \<and> moves t2_view b d"
proof -
  have "calm b" "t2_valid b" using assms by (simp_all add: t2_undisturbed_def)
  then obtain d K where d: "flush_if_due t2_flush b = (Inr (), d)" "calm d" "t2_valid d" "t2_held b = t2_held d + K"
      "shipped d = shipped b + K" "gb_mode d = gb_mode b"
      "generic_batcher.more d = generic_batcher.more b \<or> generic_batcher.more d = generic_batcher.more (t2_clear b)"
    using t2.calm_if_due [of b] by (auto simp: t2_flush_def)
  note k = t2_kept [OF d(7)]
  have "moves t2_view b d" using assms d k
    by (auto simp: moves_def t2_undisturbed_def t2_delayed_def t2_pending_def t2_shipped_def intro!: exI [of _ K])
  then show ?thesis using d(1) by blast
qed

lemma t2_paired_done:
  assumes "vw_ready t2_view b"
  shows "\<exists>d. on_paired2 (report_finished_item z2_flush t) b = (Inr (), d) \<and> moves t2_view b d"
proof (cases "t2_paired b")
  case None
  then show ?thesis using moves_refl [OF assms] by (simp add: on_paired2_def)
next
  case (Some z)
  let ?z = "z\<lparr>pb_items := pb_items z + 1, pb_total := pb_total z + t,
    pb_longest := (if pb_longest z = 0 \<or> pb_longest z < t then t else pb_longest z),
    pb_shortest := (if pb_shortest z = 0 \<or> t < pb_shortest z then t else pb_shortest z)\<rparr>"
  have z: "calm z" "gb_mode z = Flush_delayed" using assms Some by (simp_all add: t2_undisturbed_def t2_delayed_def)
  then have "calm ?z" by (simp add: calm_def)
  then obtain d K where d: "flush_if_due z2_flush ?z = (Inr (), d)" "calm d" "z2_held ?z = z2_held d + K"
      "shipped d = shipped ?z + K" "gb_mode d = gb_mode ?z"
      "generic_batcher.more d = generic_batcher.more ?z \<or> generic_batcher.more d = generic_batcher.more (z2_clear ?z)"
    using z2.calm_if_due [of ?z] by (auto simp: z2_flush_def any_batcher_def)
  note k = z2_kept [OF d(6)]
  have h: "z2_held ?z = z2_held z" "shipped ?z = shipped z" by (simp_all add: held_defs shipped_def)
  let ?d = "b\<lparr>t2_paired := Some d\<rparr>"
  have "t2_held ?d = t2_held b" "shipped ?d = shipped b" "calm ?d = calm b" "t2_valid ?d = t2_valid b" "ib_counts ?d = ib_counts b"
    by (simp_all add: held_defs shipped_def calm_def ib_counts_def)
  then have "moves t2_view b ?d" using assms d k z h Some
    by (auto simp: moves_def t2_undisturbed_def t2_delayed_def t2_pending_def t2_shipped_def t2_settings_of_def intro!: exI [of _ K])
  moreover have "on_paired2 (report_finished_item z2_flush t) b = (Inr (), ?d)"
    using d(1) by (simp add: on_paired2_def Some report_finished_item_def bindA_def updateA_def)
  ultimately show ?thesis by blast
qed

section \<open>Reports\<close>

lemma t2_success:
  assumes r: "vw_ready t2_view b"
  shows "\<exists>d. t2_report_success i w s n l b = (Inr (), d)
    \<and> delivers t2_view b d (if ts_statistics (t2_settings_of b) then {#Stats_row \<lparr>cs_serial = s, cs_integration = i, cs_batching = w,
        cs_refinements = l, cs_steps = n\<rparr>#} else {#})
    \<and> ib_counts d = count_result True s (ib_counts b)"
proof -
  let ?u1 = "\<lambda>b :: 'a twopf_batcher. b\<lparr>ib_integration_time := ib_integration_time b + i,
    ib_batching_time := ib_batching_time b + w, ib_integrations := ib_integrations b + 1,
    ib_max_integration := (if ib_max_integration b = 0 \<or> ib_max_integration b < i then i else ib_max_integration b),
    ib_min_integration := (if ib_min_integration b = 0 \<or> i < ib_min_integration b then i else ib_min_integration b),
    ib_max_batching := (if ib_max_batching b = 0 \<or> ib_max_batching b < w then w else ib_max_batching b),
    ib_min_batching := (if ib_min_batching b = 0 \<or> w < ib_min_batching b then w else ib_min_batching b)\<rparr>"
  let ?i = "\<lparr>cs_serial = s, cs_integration = i, cs_batching = w, cs_refinements = l, cs_steps = n\<rparr>"
  let ?u2 = "\<lambda>b :: 'a twopf_batcher. if ib_statistics b then b\<lparr>ib_stats := ib_stats b @ [?i]\<rparr> else b"
  let ?M = "if ts_statistics (t2_settings_of b) then {#Stats_row ?i#} else {#}"
  have 1: "vw_ready t2_view (?u1 b)" "delivers t2_view b (?u1 b) {#}" "ib_counts (?u1 b) = count_result True s (ib_counts b)"
    using r by (auto simp: delivers_def count_result_def t2_view_parts split: option.splits)
  obtain c where c: "flush_if_due t2_flush (?u1 b) = (Inr (), c)" "moves t2_view (?u1 b) c" using t2_due [OF 1(1)] by blast
  then have S: "vw_ready t2_view c" "t2_settings_of c = t2_settings_of b" "ib_counts c = ib_counts (?u1 b)"
    using 1(2) by (simp_all add: moves_def delivers_def)
  have 2: "adds t2_view c (?u2 c) ?M"
    using S(1) unfolding S(2) [symmetric] by (auto simp: adds_def t2_view_parts split: option.splits)
  then have "vw_ready t2_view (?u2 c)" "ib_counts (?u2 c) = ib_counts c" by (simp_all add: adds_def)
  from t2_due [OF this(1)] this(2) obtain d where d: "flush_if_due t2_flush (?u2 c) = (Inr (), d)" "moves t2_view (?u2 c) d"
      "ib_counts d = ib_counts c" by (auto simp: moves_def)
  then have "vw_ready t2_view d" by (simp add: moves_def)
  from t2_paired_done [OF this, of i] obtain f where f: "on_paired2 (report_finished_item z2_flush i) d = (Inr (), f)" "moves t2_view d f"
    by blast
  then have f3: "ib_counts f = ib_counts c" using d(3) by (simp add: moves_def)
  have "delivers t2_view b f ?M"
    using delivers_trans [OF delivers_trans [OF delivers_trans [OF delivers_trans [OF 1(2) moves_delivers [OF c(2)]] adds_delivers [OF 2]]
      moves_delivers [OF d(2)]] moves_delivers [OF f(2)]] by simp
  moreover have "t2_report_success i w s n l b = (Inr (), f)"
    using c(1) d(1) f(1) by (simp add: t2_report_success_def report_success_def bindA_def updateA_def)
  ultimately show ?thesis using f3 S(3) 1(3) by metis
qed

lemma t2_failure:
  assumes r: "vw_ready t2_view b"
  shows "\<exists>d K. t2_report_failure s b = (Inr (), d) \<and> vw_ready t2_view d \<and> t2_settings_of d = t2_settings_of b
    \<and> ib_counts d = count_result False s (ib_counts b) \<and> t2_pending b = t2_pending d + K \<and> t2_shipped d = t2_shipped b + K"
proof -
  let ?u = "\<lambda>b :: 'a twopf_batcher. b\<lparr>ib_failed := insert s (ib_failed b), ib_failures := ib_failures b + 1\<rparr>"
  obtain g where g: "t2_check (?u b) = (Inr (), (?u b)\<lparr>gb_flush_due := g\<rparr>)"
    using check_delayed [of "?u b"] r by (auto simp: t2_delayed_def)
  let ?c = "(?u b)\<lparr>gb_flush_due := g\<rparr>"
  have 1: "vw_ready t2_view ?c" "t2_settings_of ?c = t2_settings_of b" "t2_pending ?c = t2_pending b" "t2_shipped ?c = t2_shipped b"
      "ib_counts ?c = count_result False s (ib_counts b)"
    using r by (auto simp: count_result_def t2_view_parts split: option.splits)
  obtain d where d: "flush_if_due t2_flush ?c = (Inr (), d)" "moves t2_view ?c d" using t2_due [OF 1(1)] by blast
  then have "vw_ready t2_view d" by (simp add: moves_def)
  from t2_paired_done [OF this] obtain f where f: "on_paired2 (report_finished_item z2_flush 0) d = (Inr (), f)" "moves t2_view d f" by blast
  have "t2_report_failure s b = (Inr (), f)"
    using g d(1) f(1) by (simp add: t2_report_failure_def report_failure_def bindA_def updateA_def)
  moreover have "moves t2_view ?c f" using moves_trans [OF d(2) f(2)] .
  ultimately show ?thesis using 1 by (auto simp: moves_def)
qed

lemma unbatched_rows:
  assumes "\<And>i. row_source (f i) = Some (source i)"
  shows "filter_mset (\<lambda>row. row_source row \<noteq> Some s) (image_mset f (mset xs)) = image_mset f (mset (filter (\<lambda>i. source i \<noteq> s) xs))"
  by (induction xs) (simp_all add: assms)

lemma unsourced_rows:
  assumes "\<And>i. row_source (f i) = None"
  shows "filter_mset (\<lambda>row. row_source row \<noteq> Some s) (image_mset f (mset xs)) = image_mset f (mset xs)"
  by (induction xs) (simp_all add: assms)

lemma t2_unbatched:
  assumes "vw_ready t2_view b"
  shows "vw_ready t2_view (t2_unbatch s b) \<and> t2_settings_of (t2_unbatch s b) = t2_settings_of b \<and> t2_shipped (t2_unbatch s b) = t2_shipped b
    \<and> ib_counts (t2_unbatch s b) = ib_counts b
    \<and> t2_pending (t2_unbatch s b) = filter_mset (\<lambda>row. row_source row \<noteq> Some s) (t2_pending b)"
proof (intro conjI)
  show "t2_pending (t2_unbatch s b) = filter_mset (\<lambda>row. row_source row \<noteq> Some s) (t2_pending b)"
    by (cases "t2_paired b") (simp_all add: t2_pending_def held_defs t2_unbatch_def z2_unbatch_def unbatched_rows unsourced_rows)
qed (use assms in \<open>auto simp: t2_unbatch_def z2_unbatch_def t2_view_parts split: option.splits\<close>)

section \<open>The contract of the loop\<close>

definition t2_prefix :: "('n::field, twopf_kconfig_record) integrator \<Rightarrow> t2_settings \<Rightarrow> twopf_kconfig_record \<Rightarrow> u32
    \<Rightarrow> ('n twopf_batcher, unit) act" where
  "t2_prefix ig S c r =
     (let a = ig_attempt ig c r
      in bindA (checkA (at_before a)) (\<lambda>_. bindA (whenA (ts_ics S) (t2_push_ics (tk_serial c) (fst (at_ics a)) (snd (at_ics a)))) (\<lambda>_.
           observe_all (twopf_observe ig c) (ig_times ig c) (at_states a))))"

lemma t2_kmode_attempt:
  assumes "\<not> ig_max ig < r"
  shows "twopf_kmode ig c r b = bindA (t2_prefix ig (t2_settings_of b) c r)
    (\<lambda>_. end_attempt (\<lambda>i t steps. t2_report_success i t (tk_serial c) steps r) (at_end (ig_attempt ig c r))) b"
  using assms by (simp add: twopf_kmode_def t2_prefix_def bindA_assoc t2_settings_of_def Let_def)

lemma t2_gives_prefix: "gives t2_view S (t2_prefix ig S c r) (t2_expected ig S c r)"
  unfolding t2_prefix_def t2_expected_def Let_def
proof (intro gives_bind gives_check gives_observe t2_gives_observe)
  let ?a = "ig_attempt ig c r" and ?s = "tk_serial c"
  show "gives t2_view S (whenA (ts_ics S) (t2_push_ics ?s (fst (at_ics ?a)) (snd (at_ics ?a))))
    (if ts_ics S then sized ''CPPTRANSPORT_NFIELDS_BACKG'' (2 * ts_nfields S) (snd (at_ics ?a))
        {#Ics_row \<lparr>ic_source = ?s, ic_texit = fst (at_ics ?a), ic_coords = snd (at_ics ?a), ic_kconfig_items = ts_kconfig_items S\<rparr>#}
      else nothing)"
    by (cases "ts_ics S") (simp_all add: whenA_def t2_gives_ics gives_return)
qed

text \<open>The rows of an attempt carry the serial number of the configuration.\<close>

definition sourced :: "u32 \<Rightarrow> 'n expected \<Rightarrow> bool" where
  "sourced s R \<longleftrightarrow> (\<forall>row \<in># fst R. row_source row = Some s)"

lemma sourced_nothing [simp]: "sourced s ({#}, x)"
  by (simp add: sourced_def)

lemma sourced_andthen: "sourced s R \<Longrightarrow> sourced s Q \<Longrightarrow> sourced s (andthen R Q)"
  by (cases R; cases Q; cases "snd R") (auto simp: sourced_def)

lemma sourced_sized: "\<forall>row \<in># M. row_source row = Some s \<Longrightarrow> sourced s (sized msg n vs M)"
  by (simp add: sized_def sourced_def)

lemma sourced_observed: "(\<And>r x. sourced s (f r x)) \<Longrightarrow> sourced s (observed f rs xs)"
  by (induction f rs xs rule: observed.induct) (simp_all add: sourced_andthen)

lemma t2_sourced_observed: "sourced (tk_serial c) (t2_observed ig S c r x)"
  unfolding t2_observed_def Let_def
  by (auto intro!: sourced_andthen sourced_sized simp: t2_backg_rows_def settings_element_def t2_zeta_rows_def split: option.splits)

lemma sourced_result:
  assumes "sourced s R" and "\<forall>row \<in># stats. row_source row = None" and "attempt_result R e stats = (M, x)" and "row \<in># M"
  shows "row_source row = Some s \<or> integrated x \<and> row_source row = None"
  using assms by (auto simp: attempt_result_def sourced_def split: option.splits attempt_end.splits)

lemma t2_attempt_result:
  assumes "\<not> ig_max ig < r" and "t2_attempt ig S c r = (M, e)"
  shows "attempt_result (t2_expected ig S c r) (at_end (ig_attempt ig c r))
    (stats_rows (ts_statistics S) (tk_serial c) r (at_end (ig_attempt ig c r))) = (M, e)"
  using assms by (simp add: t2_attempt_def Let_def)

interpretation t2q: unwinding "twopf_backend ig" t2_view "t2_attempt ig"
  for ig :: "('n::field, twopf_kconfig_record) integrator"
proof unfold_locales
  fix b :: "'n twopf_batcher" and c r M x
  assume b: "vw_ready t2_view b" and a: "t2_attempt ig (vw_settings t2_view b) c r = (M, Failed x)"
  show "\<exists>d. bk_kmode (twopf_backend ig) c r b = (Inl x, d) \<and> adds t2_view b d M"
  proof (cases "ig_max ig < r")
    case True
    then show ?thesis using a adds_refl [OF b] by (simp add: t2_attempt_def twopf_backend_def twopf_kmode_def throwA_def)
  next
    case False
    from attempt_failed [OF t2_gives_prefix b refl t2_attempt_result [OF False a]] show ?thesis
      by (simp add: twopf_backend_def t2_kmode_attempt [OF False])
  qed
next
  fix b :: "'n twopf_batcher" and c r M
  assume b: "vw_ready t2_view b" and a: "t2_attempt ig (vw_settings t2_view b) c r = (M, Overflowed)"
  then have m: "\<not> ig_max ig < r" by (auto simp: t2_attempt_def)
  from attempt_overflowed [OF t2_gives_prefix b refl t2_attempt_result [OF m a]]
  show "\<exists>d. bk_kmode (twopf_backend ig) c r b = (Inr False, d) \<and> adds t2_view b d M"
    by (simp add: twopf_backend_def t2_kmode_attempt [OF m])
next
  fix b :: "'n twopf_batcher" and c r M i t n
  assume b: "vw_ready t2_view b" and a: "t2_attempt ig (vw_settings t2_view b) c r = (M, Integrated i t n)"
  then have m: "\<not> ig_max ig < r" by (auto simp: t2_attempt_def)
  from attempt_integrated [OF t2_gives_prefix b refl t2_attempt_result [OF m a], of "\<lambda>i t n. t2_report_success i t (tk_serial c) n r"]
  obtain d K where
    d: "bk_kmode (twopf_backend ig) c r b = bindA (t2_report_success i t (tk_serial c) n r) (\<lambda>_. returnA True) d" "adds t2_view b d K"
      "M = K + stats_rows (ts_statistics (t2_settings_of b)) (tk_serial c) r (Integrated i t n)"
    by (auto simp: twopf_backend_def t2_kmode_attempt [OF m])
  then have S: "vw_ready t2_view d" "t2_settings_of d = t2_settings_of b" "ib_counts d = ib_counts b" by (simp_all add: adds_def)
  from t2_success [OF S(1), of i t "tk_serial c" n r] obtain f where
    f: "t2_report_success i t (tk_serial c) n r d = (Inr (), f)" "ib_counts f = count_result True (tk_serial c) (ib_counts b)"
      "delivers t2_view b f M"
    using delivers_trans [OF adds_delivers [OF d(2)]] d(3) S by (auto simp: stats_rows_def)
  then show "\<exists>d. bk_kmode (twopf_backend ig) c r b = (Inr True, d) \<and> delivers t2_view b d M
      \<and> vw_counts t2_view d = count_result True (bk_serial (twopf_backend ig) c) (vw_counts t2_view b)"
    unfolding d(1) by (simp add: bindA_def returnA_def twopf_backend_def)
next
  fix S c r and M :: "'n row multiset" and e row
  assume a: "t2_attempt ig S c r = (M, e)" and row: "row \<in># M"
  then have m: "\<not> ig_max ig < r" by (auto simp: t2_attempt_def)
  have "sourced (tk_serial c) (t2_expected ig S c r)"
    by (auto simp: t2_expected_def Let_def intro!: sourced_andthen sourced_sized sourced_observed t2_sourced_observed)
  moreover have "\<forall>row \<in># stats_rows (ts_statistics S) (tk_serial c) r x. row_source row = None" for x
    by (simp add: stats_rows_def split: attempt_end.splits)
  ultimately have "row_source row = Some (tk_serial c) \<or> integrated e \<and> row_source row = None"
    by (rule sourced_result [OF _ _ t2_attempt_result [OF m a] row])
  then show "row_source row = Some (bk_serial (twopf_backend ig) c) \<or> integrated e \<and> row_source row = None"
    by (simp add: twopf_backend_def)
next
  fix b :: "'n twopf_batcher" and s
  assume b: "vw_ready t2_view b"
  show "vw_ready t2_view (bk_unbatch (twopf_backend ig) s b)
      \<and> vw_settings t2_view (bk_unbatch (twopf_backend ig) s b) = vw_settings t2_view b
      \<and> vw_shipped t2_view (bk_unbatch (twopf_backend ig) s b) = vw_shipped t2_view b
      \<and> vw_counts t2_view (bk_unbatch (twopf_backend ig) s b) = vw_counts t2_view b
      \<and> vw_pending t2_view (bk_unbatch (twopf_backend ig) s b) = filter_mset (\<lambda>row. row_source row \<noteq> Some s) (vw_pending t2_view b)"
    using t2_unbatched [OF b] by (simp add: twopf_backend_def)
  show "adds t2_view b (bk_refinement (twopf_backend ig) b) {#}"
    using b by (auto simp: twopf_backend_def report_refinement_def adds_def t2_view_parts split: option.splits)
  show "\<exists>d K. bk_failure (twopf_backend ig) s b = (Inr (), d) \<and> vw_ready t2_view d \<and> vw_settings t2_view d = vw_settings t2_view b
      \<and> vw_counts t2_view d = count_result False s (vw_counts t2_view b) \<and> vw_pending t2_view b = vw_pending t2_view d + K
      \<and> vw_shipped t2_view d = vw_shipped t2_view b + K"
    using t2_failure [OF b, of s] by (simp add: twopf_backend_def)
qed

end
