(* ===== verification/Queue_Properties.thy ===== *)
theory Queue_Properties
  imports Twopf_Queue Work_Invariant
begin

text \<open>
  Properties of a queue of two-point configurations: it returns, the rows collected are those of the attempts that settle the
  configurations, and the report of the worker leaves out none, as the distribution of work assumes.
\<close>

section \<open>Lemmas\<close>

lemma twopf_bounded: "bounded_refinement (twopf_backend ig) (ig_max ig)"
  by (simp add: bounded_refinement_def twopf_backend_def twopf_kmode_def throwA_def fun_eq_iff)

lemma t2_started:
  assumes "t2_undisturbed b"
  shows "vw_ready t2_view (t2_set_flush_mode Flush_delayed b)" "t2_settings_of (t2_set_flush_mode Flush_delayed b) = t2_settings_of b"
    "t2_pending (t2_set_flush_mode Flush_delayed b) = t2_pending b" "t2_shipped (t2_set_flush_mode Flush_delayed b) = t2_shipped b"
    "ib_counts (t2_set_flush_mode Flush_delayed b) = ib_counts b"
  using assms by (auto simp: t2_set_flush_mode_def t2_view_parts option.map_comp comp_def split: option.splits)

lemma t2_begun:
  "t2_undisturbed (ib_begin_assignment b) = t2_undisturbed b" "t2_settings_of (ib_begin_assignment b) = t2_settings_of b"
  "t2_pending (ib_begin_assignment b) = t2_pending b" "t2_shipped (ib_begin_assignment b) = t2_shipped b"
  "ib_counts (ib_begin_assignment b) = (0, 0, {})"
  by (simp_all add: ib_begin_assignment_def t2_view_parts)

text \<open>A batcher that holds no row of a configuration to come.\<close>

definition t2_clean :: "u32 set \<Rightarrow> 'n twopf_batcher \<Rightarrow> bool" where
  "t2_clean ss b \<longleftrightarrow> (\<forall>row \<in># t2_pending b. \<forall>s \<in> ss. row_source row \<noteq> Some s)"

definition twopf_outcome :: "('n::field, twopf_kconfig_record) integrator \<Rightarrow> 'n twopf_batcher \<Rightarrow> twopf_kconfig_record
    \<Rightarrow> 'n row multiset \<times> attempt_end" where
  "twopf_outcome ig b = config_outcome (unat (ig_max ig) + 2) (t2_attempt ig (t2_settings_of b))"

lemma twopf_queue_worked:
  assumes "t2_undisturbed b" and "distinct (map tk_serial cs)" and "t2_clean (tk_serial ` set cs) b"
    and "\<forall>c \<in> set cs. ends_well (snd (twopf_outcome ig b c))"
  shows "\<exists>d Ks. twopf_process_queue ig cs b = Some (Inr (), d) \<and> delivers t2_view b d (sum_list Ks)
    \<and> list_all2 (\<lambda>c. contributes (twopf_outcome ig b c)) cs Ks
    \<and> ib_counts d = queue_counts (twopf_outcome ig b) tk_serial cs (ib_counts b)"
proof -
  let ?b = "t2_set_flush_mode Flush_delayed b"
  note started = t2_started [OF assms(1)]
  have bk: "bk_serial (twopf_backend ig) = tk_serial" by (simp add: twopf_backend_def)
  have "\<forall>c \<in> set cs. fresh t2_view (tk_serial c) ?b" using assms(3) by (simp add: fresh_def t2_clean_def started)
  from t2q.worked_through [of ?b ig cs "unat (ig_max ig) + 2"] this assms(2,4) started show ?thesis
    by (auto simp: bk twopf_process_queue_def twopf_outcome_def delivers_def)
qed

lemma queue_counts_eq:
  "queue_counts out serial cs (i, f, F) =
     (i + of_nat (length (filter (\<lambda>c. integrated (snd (out c))) cs)), f + of_nat (length (filter (\<lambda>c. \<not> integrated (snd (out c))) cs)),
      F \<union> serial ` {c \<in> set cs. \<not> integrated (snd (out c))})"
  by (induction cs arbitrary: i f F) (auto simp: queue_counts_def count_result_def add_ac)

lemma unat_of_length: "length xs < 2 ^ 32 \<Longrightarrow> unat (of_nat (length xs) :: u32) = length xs"
  by (simp add: unsigned_of_nat take_bit_nat_eq_self)

section \<open>An example\<close>

text \<open>One field, one time. The first configuration overflows on the coarse mesh, the second fails.\<close>

definition example_attempt :: "twopf_kconfig_record \<Rightarrow> u32 \<Rightarrow> rat attempt" where
  "example_attempt c r =
     \<lparr>at_before = None, at_ics = (0, [1, 1]), at_kt_ics = (0, [1, 1]), at_states = [replicate 10 1],
      at_end = (if tk_serial c = 0 then if r = 0 then Overflowed else Integrated 5 1 7 else Failed (Runtime_error ''failure''))\<rparr>"

definition example_integrator :: "(rat, twopf_kconfig_record) integrator" where
  "example_integrator =
     \<lparr>ig_model = \<lparr>mf_fields = 1, mf_gauge1 = (\<lambda>bg. bg), mf_gauge2 = (\<lambda>bg k k1 k2 t. []), mf_B = (\<lambda>bg k1 k2 k3 t. []),
        mf_C = (\<lambda>bg k1 k2 k3 t. [])\<rparr>,
      ig_max = 1, ig_times = (\<lambda>c. [\<lparr>tr_serial = 0, tr_t = 0, tr_stored = True\<rparr>]), ig_attempt = example_attempt, ig_strict = False,
      ig_bad = (\<lambda>v. False)\<rparr>"

definition example_zeta :: "rat zeta_twopf_batcher" where
  "example_zeta =
     \<lparr>gb_group = 0, gb_worker = 1, gb_capacity = 16, gb_flush_due = False, gb_mode = Flush_immediate, gb_checkpoint = 0,
      gb_started = 0, gb_container = {#}, gb_sent = [], gb_open = True, gb_events = 1, gb_writer = (\<lambda>n. None),
      gb_dispatcher = (\<lambda>n. None), gb_replacer = (\<lambda>n. None), gb_clock = (\<lambda>n. n), pb_items = 0, pb_nfields = 1,
      pb_time_items = 1, pb_total = 0, pb_longest = 0, pb_shortest = 0, z2_kconfig_items = 2, z2_twopf = [], z2_gauge1 = []\<rparr>"

definition example_batcher :: "rat twopf_batcher" where
  "example_batcher =
     \<lparr>gb_group = 0, gb_worker = 1, gb_capacity = 16, gb_flush_due = False, gb_mode = Flush_immediate, gb_checkpoint = 0,
      gb_started = 0, gb_container = {#}, gb_sent = [], gb_open = True, gb_events = 1, gb_writer = (\<lambda>n. None),
      gb_dispatcher = (\<lambda>n. None), gb_replacer = (\<lambda>n. None), gb_clock = (\<lambda>n. n),
      ib_nfields = 1, ib_time_items = 1, ib_statistics = True, ib_initial_conditions = True, ib_backg = [], ib_stats = [],
      ib_failures = 0, ib_failed = {}, ib_refinements = 0, ib_integrations = 0, ib_integration_time = 0, ib_batching_time = 0,
      ib_max_integration = 0, ib_min_integration = 0, ib_max_batching = 0, ib_min_batching = 0, t2_kconfig_items = 2,
      t2_twopf = [], t2_tensor = [], t2_ics = [], t2_paired = Some example_zeta\<rparr>"

definition example_configs :: "twopf_kconfig_record list" where
  "example_configs = [\<lparr>tk_serial = 0, tk_store_background = True\<rparr>, \<lparr>tk_serial = 1, tk_store_background = False\<rparr>]"

lemma example_undisturbed: "t2_undisturbed example_batcher"
  by (simp add: t2_undisturbed_def calm_def t2_valid_def example_batcher_def example_zeta_def)

lemma example_clean: "t2_clean ss example_batcher"
  by (simp add: t2_clean_def t2_pending_def held_defs example_batcher_def example_zeta_def)

lemma andthen_ends: "snd (andthen R Q) = (case snd R of None \<Rightarrow> snd Q | Some x \<Rightarrow> Some x)"
  by (cases R; cases Q; cases "snd R") auto

lemma example_observed: "snd (t2_observed example_integrator (t2_settings_of example_batcher) c r x) = None"
  by (simp add: t2_observed_def Let_def andthen_ends sized_def slots_def backg_size_def twopf_size_def tensor_size_def
      example_integrator_def example_batcher_def t2_settings_of_def)

lemma example_expected: "snd (t2_expected example_integrator (t2_settings_of example_batcher) c r) = None"
proof -
  have "ig_times example_integrator c = [\<lparr>tr_serial = 0, tr_t = 0, tr_stored = True\<rparr>]" "ig_attempt example_integrator = example_attempt"
    by (simp_all add: example_integrator_def)
  moreover have "at_before (example_attempt c r) = None" "at_states (example_attempt c r) = [replicate 10 1]"
      "length (snd (at_ics (example_attempt c r))) = 2" by (simp_all add: example_attempt_def)
  moreover have "ts_nfields (t2_settings_of example_batcher) = 1" by (simp add: example_batcher_def t2_settings_of_def)
  ultimately show ?thesis by (simp add: t2_expected_def andthen_ends sized_def example_observed Let_def)
qed

lemma example_ends:
  "snd (t2_attempt example_integrator (t2_settings_of example_batcher) c r) =
     (if 1 < r then Failed too_deep else at_end (example_attempt c r))"
proof -
  have "snd (attempt_result R e M) = e" if "snd R = None" for R :: "rat expected" and e M
    using that by (simp add: attempt_result_def split: attempt_end.splits)
  then show ?thesis using example_expected by (simp add: t2_attempt_def Let_def) (simp add: example_integrator_def)
qed

lemma example_outcomes:
  "map (\<lambda>c. snd (twopf_outcome example_integrator example_batcher c)) example_configs = [Integrated 5 1 7, Failed (Runtime_error ''failure'')]"
proof -
  have "unat (ig_max example_integrator) + 2 = Suc (Suc (Suc 0))" by (simp add: example_integrator_def)
  then show ?thesis by (simp add: twopf_outcome_def config_outcome_def example_ends example_configs_def example_attempt_def)
qed

text \<open>A failed configuration is reported before it is unbatched; when the caches are over their capacity its rows are in the
  container by then.\<close>

lemma failed_rows_shipped:
  defines "b \<equiv> example_batcher\<lparr>gb_mode := Flush_delayed, t2_paired := None,
    t2_tensor := [\<lparr>el_time = 0, el_kconfig = 1, el_source = 1, el_elements = [1, 0, 0, 1], el_time_items = 1, el_kconfig_items = 2\<rparr>]\<rparr>"
  shows "filter_mset (\<lambda>row. row_source row = Some 1) (t2_shipped (snd (give_up (twopf_backend example_integrator) (example_configs ! 1) (Runtime_error ''failure'') b)))
    \<noteq> {#}"
  by (simp add: b_def give_up_def twopf_backend_def example_configs_def t2_report_failure_def report_failure_def check_for_flush_def
      flush_if_due_def t2_flush_def flush_step_defs on_paired2_def t2_unbatch_def t2_shipped_def shipped_def example_batcher_def
      t2_storage_def ib_storage_def matrix_bytes_def vector_bytes_def count_of_def t2_rows_def ib_rows_def t2_clear_def ib_clear_def)

lemma threepf_bounded: "bounded_refinement (threepf_backend ig) (ig_max ig)"
  by (simp add: bounded_refinement_def threepf_backend_def threepf_kmode_def throwA_def fun_eq_iff)

lemma threepf_queue_returns: "unat (ig_max ig) + 1 < 2 ^ 32 \<Longrightarrow> \<exists>y. threepf_process_queue ig cs b = Some y"
  unfolding threepf_process_queue_def by (rule work_through_returns [OF threepf_bounded])

section \<open>Properties\<close>

text \<open>C9: The loop over a queue of two-point configurations returns, whatever the callbacks answer and the integrator does, as long
  as the number of refinements allowed is less than the largest 32-bit number.\<close>

theorem twopf_queue_returns:
  assumes "unat (ig_max ig) + 1 < 2 ^ 32"
  shows "\<exists>y. twopf_process_queue ig cs b = Some y"
  unfolding twopf_process_queue_def by (rule work_through_returns [OF twopf_bounded assms])

text \<open>Witness: one refinement is allowed.\<close>

theorem twopf_queue_returns_witness:
  "\<exists>y. twopf_process_queue example_integrator example_configs example_batcher = Some y"
  by (rule twopf_queue_returns) (simp add: example_integrator_def)

text \<open>C7: When no callback throws, the configurations are different and none has rows in the caches yet, and no exception but a
  runtime exception ends an attempt, the loop gives the rows of the attempts that settle the configurations, in the caches and
  the containers together: all rows of an attempt that succeeds, some or none of one that fails, and none of the attempts on a
  mesh that was too coarse. The counters grow by the number of successes and failures, and the failed serial numbers are noted.\<close>

theorem twopf_queue_rows:
  assumes "t2_undisturbed b" and "distinct (map tk_serial cs)" and "t2_clean (tk_serial ` set cs) b"
    and "\<forall>c \<in> set cs. ends_well (snd (twopf_outcome ig b c))"
  shows "\<exists>d Ks. twopf_process_queue ig cs b = Some (Inr (), d)
    \<and> t2_pending d + t2_shipped d = t2_pending b + t2_shipped b + sum_list Ks
    \<and> list_all2 (\<lambda>c. contributes (twopf_outcome ig b c)) cs Ks
    \<and> ib_counts d = queue_counts (twopf_outcome ig b) tk_serial cs (ib_counts b)"
  using twopf_queue_worked [OF assms] by (auto simp: delivers_def)

text \<open>Witness: the example.\<close>

theorem twopf_queue_rows_witness:
  "\<exists>d Ks. twopf_process_queue example_integrator example_configs example_batcher = Some (Inr (), d)
    \<and> t2_pending d + t2_shipped d = t2_pending example_batcher + t2_shipped example_batcher + sum_list Ks
    \<and> list_all2 (\<lambda>c. contributes (twopf_outcome example_integrator example_batcher c)) example_configs Ks
    \<and> ib_counts d = queue_counts (twopf_outcome example_integrator example_batcher) tk_serial example_configs (ib_counts example_batcher)"
proof (rule twopf_queue_rows [OF example_undisturbed _ example_clean])
  show "distinct (map tk_serial example_configs)" by (simp add: example_configs_def)
  show "\<forall>c \<in> set example_configs. ends_well (snd (twopf_outcome example_integrator example_batcher c))"
    using example_outcomes by (simp add: example_configs_def)
qed

text \<open>C8: A report is complete when nothing disturbs the assignment. Suppose that no callback of the batcher throws, that the configurations
  have different serial numbers, are fewer than \<open>2\<^sup>32\<close>, and have no rows in the caches yet, and that every configuration is
  integrated at last or given up with a runtime exception. Then the report of the assignment is accepted by the master and leaves out none of its
  configurations, and the failed ones it names are those that failed. When a flush throws this fails: a configuration can
  then be counted twice.\<close>

theorem assignment_report_complete:
  assumes "t2_undisturbed b" and "distinct (map tk_serial cs)" and "t2_clean (tk_serial ` set cs) b"
    and "\<forall>c \<in> set cs. ends_well (snd (twopf_outcome ig b c))" and "length cs < 2 ^ 32"
  shows "\<exists>d oc. twopf_assignment ig cs b = Some (Inr (), d) \<and> assignment_outcome containers wallclock load (Inr (), d) = Some oc
    \<and> sound_report (map tk_serial cs) oc \<and> shortfall (Ran (map tk_serial cs) oc) = 0 \<and> oc_thrown oc = None
    \<and> ib_failed d = tk_serial ` {c \<in> set cs. \<not> integrated (snd (twopf_outcome ig b c))}"
proof -
  let ?b = "ib_begin_assignment b" and ?ok = "\<lambda>c. integrated (snd (twopf_outcome ig b c))"
  let ?good = "filter ?ok cs" and ?bad = "filter (\<lambda>c. \<not> ?ok c) cs"
  have same: "twopf_outcome ig ?b = twopf_outcome ig b" by (simp add: twopf_outcome_def t2_begun)
  obtain d where d: "twopf_assignment ig cs b = Some (Inr (), d)" "ib_counts d = queue_counts (twopf_outcome ig b) tk_serial cs (0, 0, {})"
    using twopf_queue_worked [of ?b cs ig] assms(1-4) by (auto simp: same t2_begun t2_clean_def twopf_assignment_def)
  then have c: "ib_integrations d = of_nat (length ?good)" "ib_failures d = of_nat (length ?bad)" "ib_failed d = tk_serial ` set ?bad"
    by (simp_all add: queue_counts_eq ib_counts_def)
  have split: "length ?good + length ?bad = length cs" by (rule sum_length_filter_compl)
  then have "ib_integrations d + ib_failures d = of_nat (length cs)" unfolding c by (simp flip: of_nat_add)
  then have n: "unat (ib_integrations d + ib_failures d) = length cs" using unat_of_length [OF assms(5)] by simp
  have "distinct (map tk_serial ?bad)" using assms(2) by (rule distinct_map_filter)
  then have "card (ib_failed d) = length ?bad" unfolding c by (metis distinct_card length_map list.set_map)
  moreover have "unat (ib_failures d) = length ?bad" unfolding c using split assms(5) by (intro unat_of_length) simp
  ultimately show ?thesis using d(1) n c(3) by (simp add: assignment_outcome_def integration_report_def sound_report_def shortfall_def)
qed

text \<open>Witness: the example, with an empty list of containers.\<close>

theorem assignment_report_complete_witness:
  "\<exists>d oc. twopf_assignment example_integrator example_configs example_batcher = Some (Inr (), d)
    \<and> assignment_outcome [] 9 1 (Inr (), d) = Some oc
    \<and> sound_report (map tk_serial example_configs) oc \<and> shortfall (Ran (map tk_serial example_configs) oc) = 0 \<and> oc_thrown oc = None
    \<and> ib_failed d = tk_serial ` {c \<in> set example_configs. \<not> integrated (snd (twopf_outcome example_integrator example_batcher c))}"
proof (rule assignment_report_complete [OF example_undisturbed _ example_clean])
  show "distinct (map tk_serial example_configs)" by (simp add: example_configs_def)
  show "\<forall>c \<in> set example_configs. ends_well (snd (twopf_outcome example_integrator example_batcher c))"
    using example_outcomes by (simp add: example_configs_def)
qed (simp add: example_configs_def)

end
