(* ===== verification/Spec2Isabelle.thy ===== *)
theory Spec2Isabelle
  imports Lexstream Macro_Agent_Control Directives Translator Work_Properties Transaction_Facts Line_Cache_Properties
    Queue_Properties
begin

text \<open>
  CppTransport has two halves. The translator (\<open>translator/\<close>) reads the description of an inflationary model and turns
  templates (\<open>templates/\<close>) into C++ code by macro replacement. The run-time system (\<open>transport-runtime/\<close>) integrates the
  generated model on a cluster: a master process hands out k-configurations to workers, aggregates their results in
  containers and records them in a repository. Paths below are relative to \<open>src/CppTransport/\<close>.

  \<^bold>\<open>Conventions.\<close> \<open>Transport_Prelude\<close> holds the exceptions of the code as values (\<open>exn\<close>; \<open>Undefined\<close> stands for undefined
  behaviour, \<open>Terminate\<close> for \<open>std::terminate\<close>), results \<open>exn + 'a\<close> with \<open>bindE\<close>, actions on a state that survives an
  exception (\<open>act\<close>, \<open>bindA\<close>), the log of errors and warnings, the character classes of the C locale and decimal output.
  An \<open>unsigned int\<close> is a 32-bit word where its wrap-around can be reached and a natural number where it counts objects in
  memory. Classes are records, enumerations are datatypes, a loop is recursion on its data. GiNaC, Boost, MPI, the database,
  the file system, the clock and the order of a sort by a comparison that is none are arguments, with what is
  documented of them as named hypotheses; where a theorem has such hypotheses its witness meets them with concrete functions.

  \<^bold>\<open>Lexical analysis.\<close> \<open>Filestack\<close> (\<open>filestack.h\<close>, \<open>input_stack.cpp\<close>, \<open>output_stack.cpp\<close>; locale \<open>filestack_spec\<close> with both
  stacks as instances), \<open>Lexfile\<close> (\<open>parser/lexfile\<close>; locale \<open>char_source\<close>: a refinement of the string still to be
  delivered, positions), \<open>Lexeme\<close> (\<open>parser/lexeme.h\<close>: a lexeme has the value its text means, and no other), \<open>Finder\<close> (\<open>utilities/finder.cpp\<close>), \<open>Lexstream\<close> (\<open>parser/lexstream.h\<close>:
  the reading loop cuts the first token of the text, the analyser refines a machine on tokens, printed tokens are read
  back). Included files nest to any depth, so \<open>ls_parse\<close> has the depth as fuel: \<open>lexstream_refines_tokens\<close> holds for every
  depth, \<open>lexer_reads_back_tokens\<close> needs one level, and \<open>circular_include_never_returns\<close> shows that no depth is enough for a
  file that includes itself, as the code has no guard.

  \<^bold>\<open>Indices.\<close> \<open>Index_Database\<close> (\<open>macro_substitution/index_database.h\<close>; locale \<open>ordered_db\<close>), \<open>Indices\<close> (classes of indices, the
  flattening of tensor indices in 32 bits), \<open>Index_Assignment\<close> (the iterator over the values of all indices of a line).

  \<^bold>\<open>Macro replacement.\<close> \<open>Macro_Rules\<close> (replacement rules and directives: validation, hooks, argument checks),
  \<open>Macro_Tokens\<close> (the tokens of a line with their caches and their budget of error messages), \<open>Token_Scanners\<close>, \<open>Token_List\<close>,
  \<open>Token_List_Facts\<close>, \<open>Token_List_Lines\<close> (\<open>token_list.cpp\<close>: tokenization, unrolling), \<open>Printers\<close> (output to C-like
  languages), \<open>Macro_Agent\<close>, \<open>Macro_Agent_Facts\<close>, \<open>Macro_Agent_Control\<close> (\<open>macro.cpp\<close>: split at an assignment, the choice
  between unrolling and loops, recursion depth; executing the loops of a rolled-up line gives the statements of the
  unrolled one, for lines that sum over no index), \<open>Directives\<close> (\<open>shared/directives.cpp\<close>: IF, ELSE and ENDIF against the clauses read off the text, SET and user macros), \<open>Buffer\<close>
  (\<open>file_handling/buffer.cpp\<close>; locale \<open>tagged_sink\<close>: what is written before and after the tag reaches the file in that
  order, in the delimiters in force when it was written), \<open>Cse\<close> and \<open>Cse_Facts\<close> (\<open>language_concepts/cse.cpp\<close>, \<open>cpp_cse.cpp\<close>: the declared temporaries, executed in order,
  give every expression its value over the reals), \<open>Lambdas\<close> (lambdas for tensor components and their manager),
  \<open>Temporary_Pool\<close> (\<open>temporary_pool.cpp\<close>, with the macro agent of the file writing the temporaries) and \<open>Translator\<close> (\<open>translator.cpp\<close>, \<open>package_group.cpp\<close>: the translation of a
  template line by line, with the packages, the agent and the buffer composed as the code composes them). The recursion of the
  macro agent is bounded by the depth that the code itself counts.

  \<^bold>\<open>Distribution of work.\<close> \<open>Worker_Scheduler\<close> and \<open>Worker_Strategies\<close> (\<open>manager/worker_scheduler.h\<close>: the queue, the items in
  flight, the two strategies; the locale \<open>work_strategy\<close> states what a strategy owes to the master and has the CPU and the GPU
  strategy and their selection as instances). \<open>Work_Distribution\<close> (\<open>master_controller_core.h\<close>, \<open>slave_controller_impl.h\<close>,
  \<open>worker_manager.h\<close>, \<open>slave_message_buffer.h\<close>, \<open>aggregation.h\<close>, the reports of \<open>mpi_operations.h\<close>) is a step relation on a
  cluster: the polling loop at its points, one queue of messages per direction and worker, and the workers. MPI keeps the
  order between two processes and nothing else, so every interleaving is a run. The component has the order of its proof:
  \<open>Work_Invariant\<close> (what was sent is what was received and what is under way), \<open>Work_Safety\<close> (a worker has at most one
  assignment and one close-down before it, the items in flight are those of the reports to come and of those left out by a
  report), \<open>Work_Ledger\<close> (the books of the master follow from the messages it received), \<open>Work_Completion\<close> (a measure that
  falls with every step but idle rounds; no state without a way to the end) and \<open>Work_Properties\<close>. A report may count
  fewer items than were assigned, as after an exception; from then on, in every setting and interleaving, the run can end only with
  the exception of the last close-down (\<open>failed_assignment_raises\<close>). Assumed of a setting: workers of one type, reports that count no more than was assigned and
  whose list of failures has the size it says, an aggregator for every container, aggregations that do not throw but for a
  container that the database refuses.

  \<^bold>\<open>Repository.\<close> \<open>Transactions\<close> and \<open>Transaction_Facts\<close> (\<open>transactions/transaction_manager.h\<close> with the transactions of
  \<open>repository_impl.h\<close> and \<open>repository_sqlite3_impl.h\<close>): a transaction with its lock file, journal and database as one
  function, \<open>with_transaction\<close>, and the processes that compete for the lock as a step relation in which the look for the lock
  file and its making are separate. The constructor makes the 50 attempts of the code.

  \<^bold>\<open>Data pipe.\<close> \<open>Line_Cache\<close>, \<open>Line_Cache_Facts\<close> and \<open>Line_Cache_Properties\<close> (\<open>utilities/linecache.h\<close>): the cache answers as the
  database does, its size is accounted for, and an eviction keeps only the line that was just loaded.

  \<^bold>\<open>Integration.\<close> \<open>Batch_Rows\<close> (the items of \<open>data/batchers\<close>, their keys and the paged writer), \<open>Postprocess\<close>
  (\<open>postprocess_delegate.h\<close> and the gadget \<open>zeta_timeseries_compute.h\<close> that computes the same correlation functions from the
  database), \<open>Batchers\<close> and \<open>Integration_Batchers\<close> (the caches a worker fills and flushes; a record extends the one of its base
  class), \<open>Batcher_Facts\<close> (locales \<open>shipping\<close> and \<open>bounded\<close>, with the five batchers as instances: no row is lost or written
  twice, and in immediate mode every push that returns leaves the caches within the capacity) and \<open>Integration_Queue\<close> (\<open>backend_process_queue\<close> and the observers of \<open>templates/canonical_mpi.h\<close>: attempts, mesh
  refinements, failures, the report of a worker). The loop of refinements may not end, so it is a partial function; the
  integrator is an argument. \<open>Queue_Facts\<close> proves the loop once, for any back end that meets the contract of the locale \<open>unwinding\<close>:
  it returns, and the rows collected are those of the attempts that settle the configurations, specified without a batcher.
  \<open>Twopf_Queue\<close> interprets it on the back end for two-point functions with its paired batcher; \<open>Queue_Properties\<close> has the
  properties, among them that the report of an assignment meets what the distribution of work assumes of one. Termination needs
  a limit of refinements below the largest 32-bit number; at most two attempts more than the limit are made for a configuration.
  The queue for three-point functions is modelled and returns; its rows are not followed through the loop.

  \<^bold>\<open>What the properties show.\<close> They are stated for every input of the modelled operation and for every state a run can reach,
  within the hypotheses that the statement and its text name; the ones about a step relation do not fix an order of the steps. Where the
  code breaks down outside the hypotheses, as when a flush throws in the middle of a report, a line sums over an index of its right-hand side, or a user
  macro leaves an index unused, the text says so. Where the code does not do what it means to, a theorem says
  what it does: the eviction of the cache, two locks in one second, a refused commit, a failed assignment, an IF inside a disabled
  clause, a circular include.

  \<^bold>\<open>Not modelled.\<close> The model description parser and the tensors (\<open>translator/parser/\<close> but for its lexer,
  \<open>transport-objects/\<close>) compute with GiNaC expressions, which the sources only call; the replacement rules that print tensors
  (\<open>backends/shared/\<close>) and the tables of target languages have no logic without them. Models, ranges, the
  right-hand sides of the integrators and derived products are floating-point computations with odeint and Boost, for which the
  sources give no specification but the formulas themselves. The SQLite back end, the JSON records of the repository, reports, journal, command line and MPI
  serialization are statements of other languages and output. Of the controllers the dispatch of tasks, the loop for derived content
  and the set-up of writers are left out, of the data pipe its queries, and the queues of a device. Templates are text until their macros are expanded. In the modelled parts journal, logs,
  timers, coloured messages and the texts of messages are left out, and exceptions carry the name of their text.
\<close>

end
